(* ===== verification/Prelude.thy ===== *)
theory Prelude
  imports Main "HOL-Library.Monad_Syntax" "HOL-Library.Word"
begin

text \<open>
  Shared vocabulary of the development.

  The Rust code is modelled by functions into \<open>'a option\<close>: \<open>None\<close> is a panic
  (an index out of range, an underflowing subtraction, a division by zero, a
  failed \<^verbatim>\<open>assert!\<close> or \<^verbatim>\<open>debug_assert!\<close>), \<open>Some x\<close> is a normal return.
  Mutation is explicit: a method on \<^verbatim>\<open>&mut self\<close> returns the new state.

  The theory holds the checked primitives of the standard library the code
  uses (slice indexing, \<^verbatim>\<open>usize\<close> subtraction, \<^verbatim>\<open>for\<close> loops over a range), the
  total-correctness judgement \<open>ok m P\<close> ("\<open>m\<close> does not panic and its result
  satisfies \<open>P\<close>") with its calculus, and list lemmas used by several components.
\<close>

section \<open>Rule collections\<close>

named_theorems wp \<open>rules that push the judgement \<open>ok\<close> through a program\<close>
named_theorems view_simps \<open>what an operation does to the lines a client sees\<close>
named_theorems inv_intros \<open>operations keep their invariant\<close>

section \<open>Panics\<close>

definition ok :: "'a option \<Rightarrow> ('a \<Rightarrow> bool) \<Rightarrow> bool" where
  "ok m P = (case m of None \<Rightarrow> False | Some x \<Rightarrow> P x)"

lemma ok_Some [wp, simp]: "ok (Some x) P = P x"
  by (simp add: ok_def)

lemma ok_None [wp, simp]: "ok None P = False"
  by (simp add: ok_def)

lemma ok_bind [wp, simp]: "ok (m \<bind> f) P = ok m (\<lambda>x. ok (f x) P)"
  by (cases m) (simp_all add: ok_def)

lemma ok_if [wp]: "ok (if b then m else n) P = ((b \<longrightarrow> ok m P) \<and> (\<not> b \<longrightarrow> ok n P))"
  by simp

lemma ok_iff: "ok m P \<longleftrightarrow> (\<exists>x. m = Some x \<and> P x)"
  by (cases m) simp_all

lemma okI: "m = Some x \<Longrightarrow> P x \<Longrightarrow> ok m P"
  by simp

lemma okE: "ok m P \<Longrightarrow> (\<And>x. m = Some x \<Longrightarrow> P x \<Longrightarrow> thesis) \<Longrightarrow> thesis"
  by (auto simp: ok_iff)

lemma ok_mono: "ok m P \<Longrightarrow> (\<And>x. m = Some x \<Longrightarrow> P x \<Longrightarrow> Q x) \<Longrightarrow> ok m Q"
  by (cases m) simp_all

lemma ok_conj: "ok m (\<lambda>x. P x \<and> Q x) \<longleftrightarrow> ok m P \<and> ok m Q"
  by (cases m) simp_all

lemma ok_TrueI: "ok m P \<Longrightarrow> m \<noteq> None"
  by (cases m) simp_all

lemma ok_value: "ok m P \<Longrightarrow> m = Some x \<Longrightarrow> P x"
  by simp

section \<open>Checked primitives\<close>

definition ensure :: "bool \<Rightarrow> unit option" where
  \<comment> \<open>\<^verbatim>\<open>assert!\<close> and \<^verbatim>\<open>debug_assert!\<close>\<close>
  "ensure b = (if b then Some () else None)"

definition csub :: "nat \<Rightarrow> nat \<Rightarrow> nat option" where
  \<comment> \<open>\<^verbatim>\<open>usize\<close> subtraction\<close>
  "csub a b = (if b \<le> a then Some (a - b) else None)"

definition vec_get :: "'a list \<Rightarrow> nat \<Rightarrow> 'a option" where
  "vec_get xs i = (if i < length xs then Some (xs ! i) else None)"

definition vec_set :: "'a list \<Rightarrow> nat \<Rightarrow> 'a \<Rightarrow> 'a list option" where
  "vec_set xs i v = (if i < length xs then Some (xs[i := v]) else None)"

definition vec_swap :: "'a list \<Rightarrow> nat \<Rightarrow> nat \<Rightarrow> 'a list option" where
  \<comment> \<open>\<^verbatim>\<open>slice::swap\<close>\<close>
  "vec_swap xs i j =
     (if i < length xs \<and> j < length xs then Some (xs[i := xs ! j, j := xs ! i]) else None)"

definition vec_fill :: "'a list \<Rightarrow> nat \<Rightarrow> nat \<Rightarrow> 'a \<Rightarrow> 'a list option" where
  \<comment> \<open>\<^verbatim>\<open>for cell in &mut xs[l..r] { *cell = v }\<close>\<close>
  "vec_fill xs l r v =
     (if l \<le> r \<and> r \<le> length xs then Some (take l xs @ replicate (r - l) v @ drop r xs) else None)"

definition usize_of_i32 :: "int \<Rightarrow> nat" where
  \<comment> \<open>\<^verbatim>\<open>i as usize\<close> for an \<^verbatim>\<open>i32\<close>: sign extension to 64 bits\<close>
  "usize_of_i32 i = (if 0 \<le> i then nat i else nat (i + 2 ^ 64))"

lemma ok_ensure [wp, simp]: "ok (ensure b) P \<longleftrightarrow> b \<and> P ()"
  by (simp add: ensure_def)

lemma ok_csub [wp, simp]: "ok (csub a b) P \<longleftrightarrow> b \<le> a \<and> P (a - b)"
  by (simp add: csub_def)

lemma ok_vec_get [wp, simp]: "ok (vec_get xs i) P \<longleftrightarrow> i < length xs \<and> P (xs ! i)"
  by (simp add: vec_get_def)

lemma ok_vec_set [wp, simp]: "ok (vec_set xs i v) P \<longleftrightarrow> i < length xs \<and> P (xs[i := v])"
  by (simp add: vec_set_def)

lemma ok_vec_swap [wp, simp]:
  "ok (vec_swap xs i j) P \<longleftrightarrow> i < length xs \<and> j < length xs \<and> P (xs[i := xs ! j, j := xs ! i])"
  by (auto simp: vec_swap_def)

lemma ok_vec_fill [wp, simp]:
  "ok (vec_fill xs l r v) P \<longleftrightarrow>
     l \<le> r \<and> r \<le> length xs \<and> P (take l xs @ replicate (r - l) v @ drop r xs)"
  by (auto simp: vec_fill_def)

lemma usize_of_i32_nonneg [simp]: "0 \<le> i \<Longrightarrow> usize_of_i32 i = nat i"
  by (simp add: usize_of_i32_def)

section \<open>Loops\<close>

text \<open>A \<^verbatim>\<open>for\<close> loop over the elements of an iterator, the body threading a state.\<close>

fun for_each :: "'a list \<Rightarrow> ('a \<Rightarrow> 's \<Rightarrow> 's option) \<Rightarrow> 's \<Rightarrow> 's option" where
  "for_each [] f s = Some s"
| "for_each (x # xs) f s = f x s \<bind> for_each xs f"

text \<open>The range \<^verbatim>\<open>a..b\<close> over \<^verbatim>\<open>i32\<close>.\<close>

abbreviation irange :: "int \<Rightarrow> int \<Rightarrow> int list" where
  "irange a b \<equiv> [a..b - 1]"

lemma for_each_append: "for_each (xs @ ys) f s = for_each xs f s \<bind> for_each ys f"
  by (induction xs arbitrary: s) (auto split: bind_split)

lemma ok_for_each_prefix:
  assumes "I pre s"
    and "\<And>ys x zs t. xs = ys @ x # zs \<Longrightarrow> I (pre @ ys) t \<Longrightarrow> ok (f x t) (I (pre @ ys @ [x]))"
  shows "ok (for_each xs f s) (I (pre @ xs))"
  using assms
proof (induction xs arbitrary: pre s)
  case Nil
  then show ?case by simp
next
  case (Cons x xs)
  from Cons.prems(2)[of "[]" x xs s] Cons.prems(1)
  have step: "ok (f x s) (I (pre @ [x]))" by simp
  show ?case
  proof (rule okE [OF step])
    fix t assume t: "f x s = Some t" "I (pre @ [x]) t"
    have "ok (for_each xs f t) (I ((pre @ [x]) @ xs))"
    proof (rule Cons.IH [OF t(2)])
      fix ys y zs u assume "xs = ys @ y # zs" "I ((pre @ [x]) @ ys) u"
      with Cons.prems(2)[of "x # ys" y zs u]
      show "ok (f y u) (I ((pre @ [x]) @ ys @ [y]))" by simp
    qed
    with t show ?thesis by simp
  qed
qed

text \<open>The invariant rule: \<open>I ys t\<close> holds after the elements \<open>ys\<close> have been processed.\<close>

lemma ok_for_each:
  assumes "I [] s"
    and "\<And>ys x zs t. xs = ys @ x # zs \<Longrightarrow> I ys t \<Longrightarrow> ok (f x t) (I (ys @ [x]))"
  shows "ok (for_each xs f s) (I xs)"
  using ok_for_each_prefix [of I "[]" s xs f] assms by simp

text \<open>A simpler rule for an invariant that does not mention the progress.\<close>

lemma ok_for_each_inv:
  assumes "I s" and "\<And>x t. x \<in> set xs \<Longrightarrow> I t \<Longrightarrow> ok (f x t) I"
  shows "ok (for_each xs f s) I"
  using ok_for_each [of "\<lambda>_. I" s xs f] assms by simp

lemma for_each_preserves:
  assumes "for_each xs f s = Some t" and "\<And>x u v. f x u = Some v \<Longrightarrow> g v = g u"
  shows "g t = g s"
  using assms(1)
proof (induction xs arbitrary: s)
  case Nil
  then show ?case by simp
next
  case (Cons x xs)
  then obtain u where "f x s = Some u" "for_each xs f u = Some t"
    by (auto split: bind_splits)
  with Cons.IH assms(2) show ?case by metis
qed

section \<open>Bit flags\<close>

text \<open>The operations of a \<^verbatim>\<open>bitflags!\<close> type, a machine word of the declared width.\<close>

unbundle bit_operations_syntax

definition flag_contains :: "'a::len word \<Rightarrow> 'a word \<Rightarrow> bool" where
  "flag_contains f g \<longleftrightarrow> f AND g = g"

definition flag_intersects :: "'a::len word \<Rightarrow> 'a word \<Rightarrow> bool" where
  "flag_intersects f g \<longleftrightarrow> f AND g \<noteq> 0"

definition flag_insert :: "'a::len word \<Rightarrow> 'a word \<Rightarrow> 'a word" where
  "flag_insert f g = f OR g"

definition flag_remove :: "'a::len word \<Rightarrow> 'a word \<Rightarrow> 'a word" where
  "flag_remove f g = f AND NOT g"

definition flag_set :: "'a::len word \<Rightarrow> 'a word \<Rightarrow> bool \<Rightarrow> 'a word" where
  "flag_set f g b = (if b then flag_insert f g else flag_remove f g)"

lemma flag_contains_insert [simp]: "flag_contains (flag_insert f g) g"
  by (simp add: flag_contains_def flag_insert_def word_ao_absorbs)

lemma flag_contains_iff: "flag_contains f g \<longleftrightarrow> (\<forall>n. bit g n \<longrightarrow> bit f n)"
  unfolding flag_contains_def bit_eq_iff by (metis bit_and_iff impossible_bit)

lemma flag_intersects_iff: "flag_intersects f g \<longleftrightarrow> (\<exists>n. bit f n \<and> bit g n)"
  unfolding flag_intersects_def bit_eq_iff
  by (metis bit_and_iff impossible_bit bit_0_eq bot_apply bot_bool_def)

lemma not_intersects_remove [simp]: "\<not> flag_intersects (flag_remove f g) g"
  by (auto simp: flag_intersects_iff flag_remove_def bit_and_iff bit_not_iff)

lemma flag_contains_insert_other:
  "flag_contains f h \<Longrightarrow> flag_contains (flag_insert f g) h"
  by (auto simp: flag_contains_iff flag_insert_def bit_or_iff)

lemma flag_contains_remove_other:
  "\<not> flag_intersects g h \<Longrightarrow> flag_contains (flag_remove f g) h = flag_contains f h"
  by (auto simp: flag_contains_iff flag_intersects_iff flag_remove_def bit_and_iff bit_not_iff
      dest: bit_imp_le_length)

lemma flag_contains_insert_disjoint:
  "\<not> flag_intersects g h \<Longrightarrow> flag_contains (flag_insert f g) h = flag_contains f h"
  by (auto simp: flag_contains_iff flag_intersects_iff flag_insert_def bit_or_iff)

lemma flag_contains_single:
  "k < LENGTH('a) \<Longrightarrow> flag_contains (m :: 'a::len word) (push_bit k 1) \<longleftrightarrow> bit m k"
  by (auto simp: flag_contains_iff bit_exp_iff)

lemma bit_flag_insert: "bit (flag_insert f g) n \<longleftrightarrow> bit f n \<or> bit g n"
  by (simp add: flag_insert_def bit_or_iff)

lemma bit_flag_remove: "bit (flag_remove f g) n \<longleftrightarrow> bit f n \<and> \<not> bit g n"
  by (auto simp: flag_remove_def bit_and_iff bit_not_iff dest: bit_imp_le_length)

lemma bit_flag_set:
  "bit (flag_set f g v) n \<longleftrightarrow> (if v then bit f n \<or> bit g n else bit f n \<and> \<not> bit g n)"
  by (simp add: flag_set_def bit_flag_insert bit_flag_remove)

lemmas bit_flag_simps = bit_flag_insert bit_flag_remove bit_flag_set bit_or_iff bit_and_iff bit_xor_iff

section \<open>Text\<close>

text \<open>A Rust \<^verbatim>\<open>char\<close> is its Unicode scalar value; ASCII output is a \<open>string\<close>.\<close>

type_synonym uchar = nat

fun dec_digits :: "nat \<Rightarrow> string" where
  \<comment> \<open>the \<^verbatim>\<open>Display\<close> form of an unsigned integer\<close>
  "dec_digits n = (if n < 10 then [char_of (48 + n)] else dec_digits (n div 10) @ [char_of (48 + n mod 10)])"

declare dec_digits.simps [simp del]

definition dec_int :: "int \<Rightarrow> string" where
  "dec_int i = (if i < 0 then CHR ''-'' # dec_digits (nat (- i)) else dec_digits (nat i))"

section \<open>Lists\<close>

definition rposition :: "('a \<Rightarrow> bool) \<Rightarrow> 'a list \<Rightarrow> nat option" where
  \<comment> \<open>\<^verbatim>\<open>Iterator::rposition\<close>: the last index whose element satisfies \<open>P\<close>\<close>
  "rposition P xs =
     (let is = filter (\<lambda>i. P (xs ! i)) [0..<length xs] in if is = [] then None else Some (last is))"

lemma rposition_None: "rposition P xs = None \<longleftrightarrow> (\<forall>x \<in> set xs. \<not> P x)"
  by (auto simp: rposition_def Let_def filter_empty_conv all_set_conv_all_nth)

lemma rposition_Some:
  assumes "rposition P xs = Some i"
  shows "i < length xs" "P (xs ! i)" "\<And>j. i < j \<Longrightarrow> j < length xs \<Longrightarrow> \<not> P (xs ! j)"
proof -
  let ?is = "filter (\<lambda>i. P (xs ! i)) [0..<length xs]"
  have ne: "?is \<noteq> []" and i: "i = last ?is"
    using assms by (auto simp: rposition_def Let_def split: if_splits)
  then have mem: "i \<in> set ?is" using last_in_set by blast
  then show "i < length xs" "P (xs ! i)" by auto
  fix j assume j: "i < j" "j < length xs"
  show "\<not> P (xs ! j)"
  proof
    assume "P (xs ! j)"
    with j have "j \<in> set ?is" by simp
    moreover have "sorted ?is" by (rule sorted_wrt_filter) simp
    ultimately have "j \<le> last ?is"
      by (cases ?is rule: rev_cases) (auto simp: sorted_append simp del: set_filter)
    with i j show False by simp
  qed
qed

lemma upto_split_member: "[a..b] = ys @ x # zs \<Longrightarrow> ys = [a..x - 1] \<and> a \<le> x \<and> x \<le> b"
proof (induction ys arbitrary: a)
  case Nil
  then show ?case by (cases "a \<le> b") (auto simp: upto.simps [of a b])
next
  case (Cons y ys)
  then have ab: "a \<le> b" by (metis append_Cons list.distinct(1) upto_empty linorder_not_less)
  with Cons.prems have "y = a" and tl: "[a + 1..b] = ys @ x # zs"
    by (auto simp: upto.simps [of a b])
  with Cons.IH [OF tl] ab show ?case by (auto simp: upto.simps [of a "x - 1"])
qed

lemma rev_upto_split_member:
  assumes "rev [a..b] = ys @ x # zs"
  shows "ys = rev [x + 1..b] \<and> a \<le> x \<and> x \<le> b"
proof -
  have eq: "[a..b] = rev zs @ x # rev ys"
    using arg_cong [OF assms, of rev] by simp
  from upto_split_member [OF eq] have zs: "rev zs = [a..x - 1]" and x: "a \<le> x" "x \<le> b"
    by auto
  from x have "[a..b] = [a..x - 1] @ x # [x + 1..b]"
    by (metis upto_split3)
  with eq zs have "rev ys = [x + 1..b]" by simp
  then have "ys = rev [x + 1..b]" by (metis rev_rev_ident)
  with x show ?thesis by simp
qed

lemma upt_split_member: "[a..<b] = ys @ x # zs \<Longrightarrow> ys = [a..<x] \<and> a \<le> x \<and> x < b"
proof (induction ys arbitrary: a)
  case Nil
  then show ?case by (cases "a < b") (auto simp: upt_conv_Cons)
next
  case (Cons y ys)
  then have ab: "a < b" by (metis append_Cons list.distinct(1) upt_conv_Nil not_less)
  with Cons.prems have "y = a" and tl: "[Suc a..<b] = ys @ x # zs"
    by (auto simp: upt_conv_Cons)
  with Cons.IH [OF tl] ab show ?case by (auto simp: upt_conv_Cons)
qed

lemma rev_upt_split_member:
  assumes "rev [a..<b] = ys @ x # zs"
  shows "ys = rev [Suc x..<b] \<and> a \<le> x \<and> x < b"
proof -
  have eq: "[a..<b] = rev zs @ x # rev ys"
    using arg_cong [OF assms, of rev] by simp
  from upt_split_member [OF eq] have zs: "rev zs = [a..<x]" and x: "a \<le> x" "x < b"
    by auto
  from x have "[a..<b] = [a..<x] @ x # [Suc x..<b]"
    by (metis le_add_diff_inverse less_imp_le upt_add_eq_append upt_conv_Cons)
  with eq zs have "rev ys = [Suc x..<b]" by simp
  then have "ys = rev [Suc x..<b]" by (metis rev_rev_ident)
  with x show ?thesis by simp
qed

lemma set_vec_fill_subset:
  "set (take l xs @ replicate n v @ drop r xs) \<subseteq> insert v (set xs)"
  by (auto dest: in_set_takeD in_set_dropD simp: set_replicate_conv_if)

lemma set_list_swap:
  "i < length xs \<Longrightarrow> j < length xs \<Longrightarrow> set (xs[i := xs ! j, j := xs ! i]) = set xs"
  by (metis set_swap)

section \<open>Loops of swaps\<close>

lemma for_each_map: "for_each (map h xs) f s = for_each xs (\<lambda>x. f (h x)) s"
  by (induction xs arbitrary: s) (auto split: bind_split)

text \<open>\<^verbatim>\<open>for k in (0..n).rev() { xs.swap(d + k, s + k) }\<close> copies \<open>n\<close> elements from \<open>s\<close> to \<open>d\<close>.\<close>

lemma swap_cells_right:
  assumes "s \<le> d" "d + n \<le> length xs"
  shows "ok (for_each (rev [0..<n]) (\<lambda>k ys. vec_swap ys (d + k) (s + k)) xs)
    (\<lambda>ys. length ys = length xs \<and> (\<forall>i < s. ys ! i = xs ! i) \<and> (\<forall>k < n. ys ! (d + k) = xs ! (s + k)))"
proof -
  let ?I = "\<lambda>done ys. length ys = length xs \<and> (\<forall>i < s + (n - length done). ys ! i = xs ! i)
    \<and> (\<forall>k. n - length done \<le> k \<and> k < n \<longrightarrow> ys ! (d + k) = xs ! (s + k))"
  have "ok (for_each (rev [0..<n]) (\<lambda>k ys. vec_swap ys (d + k) (s + k)) xs) (?I (rev [0..<n]))"
  proof (rule ok_for_each)
    show "?I [] xs" by auto
  next
    fix pre k rest ys assume eq: "rev [0..<n] = pre @ k # rest" and I: "?I pre ys"
    from rev_upt_split_member [OF eq] have k: "k < n" "n - length pre = Suc k" "n - length (pre @ [k]) = k"
      by auto
    then show "ok (vec_swap ys (d + k) (s + k)) (?I (pre @ [k]))"
      using I assms by (auto simp: nth_list_update)
  qed
  then show ?thesis by (rule ok_mono) auto
qed

text \<open>\<^verbatim>\<open>for k in 0..n { xs.swap(s + k, e + k) }\<close> moves \<open>n\<close> elements down from \<open>e\<close> to \<open>s\<close>.\<close>

lemma swap_cells_left:
  assumes "s \<le> e" "e + n \<le> length xs"
  shows "ok (for_each [0..<n] (\<lambda>k ys. vec_swap ys (s + k) (e + k)) xs)
    (\<lambda>ys. length ys = length xs \<and> (\<forall>i < s. ys ! i = xs ! i) \<and> (\<forall>k < n. ys ! (s + k) = xs ! (e + k)))"
proof -
  let ?I = "\<lambda>done ys. length ys = length xs \<and> (\<forall>i < s. ys ! i = xs ! i)
    \<and> (\<forall>k < length done. ys ! (s + k) = xs ! (e + k))
    \<and> (\<forall>i. e + length done \<le> i \<and> i < length xs \<longrightarrow> ys ! i = xs ! i)"
  have "ok (for_each [0..<n] (\<lambda>k ys. vec_swap ys (s + k) (e + k)) xs) (?I [0..<n])"
  proof (rule ok_for_each)
    show "?I [] xs" by simp
  next
    fix pre k rest ys assume eq: "[0..<n] = pre @ k # rest" and I: "?I pre ys"
    from upt_split_member [OF eq] have k: "k < n" "length pre = k" by auto
    have len: "s + k < length ys" "e + k < length ys" using I k assms by auto
    have "ys[s + k := ys ! (e + k), e + k := ys ! (s + k)] ! (s + j) = xs ! (e + j)" if "j < Suc k" for j
      using that I k len assms(1) by (cases "s = e") (auto simp: nth_list_update less_Suc_eq)
    then show "ok (vec_swap ys (s + k) (e + k)) (?I (pre @ [k]))"
      using I k len assms by (auto simp: nth_list_update)
  qed
  then show ?thesis by (rule ok_mono) auto
qed

end
