(* ===== verification/Index.thy ===== *)
theory Index
  imports Prelude "HOL-Library.Signed_Division"
begin

text \<open>
  Grid coordinates (\<^verbatim>\<open>alacritty_terminal/src/index.rs\<close>) and the \<^verbatim>\<open>Dimensions\<close> trait
  (\<^verbatim>\<open>alacritty_terminal/src/grid/mod.rs\<close>).

  A \<^verbatim>\<open>Line\<close> is an \<open>int\<close> (negative lines are scrollback), a \<^verbatim>\<open>Column\<close> a \<open>nat\<close>. The
  arithmetic on points is shown to be arithmetic on the linear cell index of the
  grid: saturating for the boundary \<^verbatim>\<open>Grid\<close>, modular for the boundary \<^verbatim>\<open>None\<close>.
\<close>

section \<open>Data\<close>

datatype direction = Left | Right

type_synonym side = direction

fun opposite :: "direction \<Rightarrow> direction" where
  "opposite Right = Left"
| "opposite Left = Right"

datatype boundary = Boundary_Cursor | Boundary_Grid | Boundary_None

datatype point = Point (line: int) (column: nat)

record dimensions =
  total_lines :: nat
  screen_lines :: nat
  columns :: nat

section \<open>The order on points\<close>

instantiation point :: linorder
begin

definition less_eq_point :: "point \<Rightarrow> point \<Rightarrow> bool" where
  "p \<le> q \<longleftrightarrow> line p < line q \<or> line p = line q \<and> column p \<le> column q"

definition less_point :: "point \<Rightarrow> point \<Rightarrow> bool" where
  "p < q \<longleftrightarrow> line p < line q \<or> line p = line q \<and> column p < column q"

instance
  by standard (auto simp: less_eq_point_def less_point_def point.expand)

end

section \<open>The \<^verbatim>\<open>Dimensions\<close> trait\<close>

definition last_column :: "dimensions \<Rightarrow> nat option" where
  "last_column d = csub (columns d) 1"

definition history_size :: "dimensions \<Rightarrow> nat" where
  \<comment> \<open>\<^verbatim>\<open>saturating_sub\<close> is subtraction on \<open>nat\<close>\<close>
  "history_size d = total_lines d - screen_lines d"

definition topmost_line :: "dimensions \<Rightarrow> int" where
  "topmost_line d = - int (history_size d)"

definition bottommost_line :: "dimensions \<Rightarrow> int" where
  "bottommost_line d = int (screen_lines d) - 1"

section \<open>Clamping\<close>

fun line_grid_clamp :: "dimensions \<Rightarrow> boundary \<Rightarrow> int \<Rightarrow> int option" where
  "line_grid_clamp d Boundary_Cursor l = Some (max 0 (min (bottommost_line d) l))"
| "line_grid_clamp d Boundary_Grid l = Some (max (topmost_line d) (min (bottommost_line d) l))"
| "line_grid_clamp d Boundary_None l = do {
     let screen = int (screen_lines d);
     let total = int (total_lines d);
     ensure (total \<noteq> 0);
     Some (if l \<ge> screen then topmost_line d + (l - screen) smod total
           else bottommost_line d + (l - screen + 1) smod total)
   }"

definition point_grid_clamp :: "dimensions \<Rightarrow> boundary \<Rightarrow> point \<Rightarrow> point option" where
  "point_grid_clamp d b p = do {
     last \<leftarrow> last_column d;
     let q = Point (line p) (min (column p) last);
     let top = topmost_line d;
     let bottom = bottommost_line d;
     (case b of
        Boundary_Cursor \<Rightarrow>
          Some (if line q < 0 then Point 0 0 else if line q > bottom then Point bottom last else q)
      | Boundary_Grid \<Rightarrow>
          Some (if line q < top then Point top 0 else if line q > bottom then Point bottom last else q)
      | Boundary_None \<Rightarrow> do {
          l \<leftarrow> line_grid_clamp d b (line q);
          Some (Point l (column q))
        })
   }"

section \<open>Point arithmetic\<close>

definition point_sub :: "dimensions \<Rightarrow> boundary \<Rightarrow> nat \<Rightarrow> point \<Rightarrow> point option" where
  "point_sub d b rhs p = do {
     let cols = columns d;
     ensure (cols \<noteq> 0);
     let line_changes = (rhs + cols - 1 - column p) div cols;
     let q = Point (line p - int line_changes) ((cols + column p - rhs mod cols) mod cols);
     point_grid_clamp d b q
   }"

definition point_add :: "dimensions \<Rightarrow> boundary \<Rightarrow> nat \<Rightarrow> point \<Rightarrow> point option" where
  "point_add d b rhs p = do {
     let cols = columns d;
     ensure (cols \<noteq> 0);
     let q = Point (line p + int ((rhs + column p) div cols)) ((column p + rhs) mod cols);
     point_grid_clamp d b q
   }"

section \<open>Well-formed dimensions and points inside the grid\<close>

definition dims_ok :: "dimensions \<Rightarrow> bool" where
  "dims_ok d \<longleftrightarrow> 0 < columns d \<and> 0 < screen_lines d \<and> screen_lines d \<le> total_lines d"

definition in_grid :: "dimensions \<Rightarrow> point \<Rightarrow> bool" where
  "in_grid d p \<longleftrightarrow>
     topmost_line d \<le> line p \<and> line p \<le> bottommost_line d \<and> column p < columns d"

definition in_screen :: "dimensions \<Rightarrow> point \<Rightarrow> bool" where
  "in_screen d p \<longleftrightarrow> 0 \<le> line p \<and> line p \<le> bottommost_line d \<and> column p < columns d"

fun within :: "dimensions \<Rightarrow> boundary \<Rightarrow> point \<Rightarrow> bool" where
  "within d Boundary_Cursor p = in_screen d p"
| "within d Boundary_Grid p = in_grid d p"
| "within d Boundary_None p = in_grid d p"

text \<open>The linear index of a cell, counted from the first cell of the topmost line.\<close>

definition cell_index :: "dimensions \<Rightarrow> point \<Rightarrow> int" where
  "cell_index d p = (line p - topmost_line d) * int (columns d) + int (column p)"

definition cell_count :: "dimensions \<Rightarrow> int" where
  "cell_count d = int (total_lines d) * int (columns d)"

section \<open>Lemmas\<close>

lemma last_column_ok [simp]: "dims_ok d \<Longrightarrow> last_column d = Some (columns d - 1)"
  by (simp add: last_column_def csub_def dims_ok_def)

lemma line_span: "dims_ok d \<Longrightarrow> bottommost_line d = topmost_line d + int (total_lines d) - 1"
  by (simp add: bottommost_line_def topmost_line_def history_size_def dims_ok_def)

lemma in_screen_in_grid: "in_screen d p \<Longrightarrow> in_grid d p"
  by (auto simp: in_screen_def in_grid_def topmost_line_def)

lemma smod_nonneg: "0 \<le> (a::int) \<Longrightarrow> 0 < b \<Longrightarrow> a smod b = a mod b"
  by (simp add: signed_modulo_int_def signed_divide_int_def minus_mult_div_eq_mod sgn_if)

lemma smod_nonpos: "(a::int) \<le> 0 \<Longrightarrow> 0 < b \<Longrightarrow> a smod b = - ((- a) mod b)"
  by (cases "a = 0") (auto simp: signed_modulo_int_def sgn_if)

lemma neg_mod_flip:
  fixes y n :: int
  assumes "0 < n"
  shows "(- y - 1) mod n = n - 1 - y mod n"
proof -
  have "(- y - 1) mod n = (n - 1 - y mod n - n * (y div n + 1)) mod n"
  proof -
    have "- y - 1 = n - 1 - y mod n - n * (y div n + 1)"
      using div_mult_mod_eq [of y n] by (simp add: algebra_simps)
    then show ?thesis by presburger
  qed
  also have "\<dots> = (n - 1 - y mod n) mod n"
    by (metis mod_diff_right_eq mod_mult_self1_is_0 diff_0_right)
  also have "\<dots> = n - 1 - y mod n"
    using assms pos_mod_bound [of n y] pos_mod_sign [of n y]
    by (intro mod_pos_pos_trivial) linarith+
  finally show ?thesis .
qed

text \<open>Wrapping a line with \<^verbatim>\<open>Boundary::None\<close> is reduction modulo the number of lines.\<close>

lemma line_clamp_None:
  assumes "dims_ok d"
  shows "line_grid_clamp d Boundary_None l =
    Some (topmost_line d + (l - topmost_line d) mod int (total_lines d))"
proof -
  let ?T = "int (total_lines d)" and ?S = "int (screen_lines d)"
  have T: "0 < ?T" and ST: "?S \<le> ?T" and top: "topmost_line d = ?S - ?T"
    using assms by (auto simp: dims_ok_def topmost_line_def history_size_def)
  show ?thesis
  proof (cases "l \<ge> ?S")
    case True
    have "(l - topmost_line d) mod ?T = (l - ?S + ?T) mod ?T" using top by (intro arg_cong [where f = "\<lambda>x. x mod ?T"]) linarith
    also have "\<dots> = (l - ?S) mod ?T" by simp
    finally show ?thesis using True T by (simp add: ensure_def smod_nonneg)
  next
    case False
    define y where "y = ?S - 1 - l"
    have y: "0 \<le> y" "l - ?S + 1 = - y" using False by (auto simp: y_def)
    have "(l - topmost_line d) mod ?T = (- y - 1 + ?T) mod ?T"
      using top unfolding y_def by (intro arg_cong [where f = "\<lambda>x. x mod ?T"]) linarith
    also have "\<dots> = ?T - 1 - y mod ?T" using neg_mod_flip [OF T, of y] by simp
    finally have "(l - topmost_line d) mod ?T = ?T - 1 - y mod ?T" .
    moreover have "(l - ?S + 1) smod ?T = - (y mod ?T)"
      using smod_nonpos [of "- y" ?T] y T by simp
    moreover have "bottommost_line d = topmost_line d + ?T - 1" by (rule line_span [OF assms])
    ultimately show ?thesis using False T by (simp add: ensure_def)
  qed
qed

lemma line_clamp_bounds:
  assumes "dims_ok d"
  shows "ok (line_grid_clamp d b l) (\<lambda>m. topmost_line d \<le> m \<and> m \<le> bottommost_line d)"
proof -
  have "0 \<le> (l - topmost_line d) mod int (total_lines d)"
    and "(l - topmost_line d) mod int (total_lines d) < int (total_lines d)"
    using assms by (auto simp: dims_ok_def)
  moreover have "topmost_line d \<le> 0" "0 \<le> bottommost_line d"
    using assms by (auto simp: topmost_line_def bottommost_line_def dims_ok_def)
  ultimately show ?thesis
    using line_span [OF assms]
    by (cases b) (auto simp: line_clamp_None [OF assms] simp del: line_grid_clamp.simps(3))
qed

lemma point_clamp_cases:
  assumes "dims_ok d"
  shows "point_grid_clamp d Boundary_Cursor p =
      Some (if line p < 0 then Point 0 0
            else if line p > bottommost_line d then Point (bottommost_line d) (columns d - 1)
            else Point (line p) (min (column p) (columns d - 1)))"
    and "point_grid_clamp d Boundary_Grid p =
      Some (if line p < topmost_line d then Point (topmost_line d) 0
            else if line p > bottommost_line d then Point (bottommost_line d) (columns d - 1)
            else Point (line p) (min (column p) (columns d - 1)))"
    and "point_grid_clamp d Boundary_None p =
      Some (Point (topmost_line d + (line p - topmost_line d) mod int (total_lines d))
                  (min (column p) (columns d - 1)))"
  using assms
  by (simp_all add: point_grid_clamp_def Let_def line_clamp_None del: line_grid_clamp.simps)

lemma point_clamp_within:
  assumes "dims_ok d"
  shows "ok (point_grid_clamp d b p) (within d b)"
proof -
  have "topmost_line d \<le> 0" "0 \<le> bottommost_line d" "0 < columns d"
    using assms by (auto simp: topmost_line_def bottommost_line_def dims_ok_def)
  then show ?thesis
    using line_clamp_bounds [OF assms, of Boundary_None "line p"]
    by (cases b) (auto simp: point_clamp_cases [OF assms] line_clamp_None [OF assms]
        in_grid_def in_screen_def simp del: line_grid_clamp.simps)
qed

lemma cell_index_bounds:
  assumes "dims_ok d" "in_grid d p"
  shows "0 \<le> cell_index d p" "cell_index d p < cell_count d"
proof -
  let ?C = "int (columns d)" and ?k = "line p - topmost_line d"
  have k: "0 \<le> ?k" "?k \<le> int (total_lines d) - 1" and c: "int (column p) < ?C"
    using assms line_span [OF assms(1)] by (auto simp: in_grid_def)
  show "0 \<le> cell_index d p" using k by (simp add: cell_index_def)
  have "?k * ?C \<le> (int (total_lines d) - 1) * ?C" using k by (intro mult_right_mono) auto
  then show "cell_index d p < cell_count d" using c
    by (simp add: cell_index_def cell_count_def algebra_simps)
qed

lemma cell_index_inj:
  assumes "dims_ok d" "in_grid d p" "in_grid d q" "cell_index d p = cell_index d q"
  shows "p = q"
proof -
  let ?C = "int (columns d)"
  have C: "0 < ?C" using assms by (simp add: dims_ok_def)
  have "line p - topmost_line d = cell_index d p div ?C"
    and "int (column p) = cell_index d p mod ?C"
    and "line q - topmost_line d = cell_index d q div ?C"
    and "int (column q) = cell_index d q mod ?C"
    using C assms(2,3) by (auto simp: cell_index_def in_grid_def)
  with assms(4) have "line p = line q" "column p = column q" by simp_all
  then show ?thesis by (simp add: point.expand)
qed

text \<open>Before clamping, both operations move the linear index by exactly \<open>rhs\<close>.\<close>

lemma add_raw_index:
  assumes "dims_ok d"
  shows "cell_index d (Point (line p + int ((rhs + column p) div columns d))
           ((column p + rhs) mod columns d)) = cell_index d p + int rhs"
proof -
  have "int ((rhs + column p) div columns d) * int (columns d) + int ((column p + rhs) mod columns d)
      = int (rhs + column p)"
    by (metis add.commute div_mult_mod_eq of_nat_add of_nat_mult)
  then show ?thesis by (simp add: cell_index_def algebra_simps)
qed

lemma ceil_split:
  fixes c r n :: nat
  assumes "0 < n" "c < n"
  shows "int ((r + n - 1 - c) div n) * int n = int r - int c + int ((n + c - r mod n) mod n)"
proof -
  define q where "q = r div n" define m where "m = r mod n"
  have r: "r = q * n + m" and m: "m < n" using assms by (auto simp: q_def m_def)
  show ?thesis
  proof (cases "m \<le> c")
    case True
    have "r + n - 1 - c = q * n + (n - 1 - (c - m))" using r True assms by simp
    moreover have "n - 1 - (c - m) < n" using assms by simp
    ultimately have "(r + n - 1 - c) div n = q" using assms
      by (metis add_cancel_left_right div_less div_mult_self3 less_nat_zero_code)
    moreover have "(n + c - m) mod n = c - m"
    proof -
      have "n + c - m = n + (c - m)" using True by simp
      moreover have "c - m < n" using assms by simp
      ultimately show ?thesis by (metis mod_add_self1 mod_less)
    qed
    ultimately show ?thesis using r True m by (simp add: of_nat_diff)
  next
    case False
    have "r + n - 1 - c = (q + 1) * n + (m - c - 1)" using r False assms by simp
    moreover have "m - c - 1 < n" using m by simp
    ultimately have "(r + n - 1 - c) div n = q + 1" using assms
      by (metis add_cancel_left_right div_less div_mult_self3 less_nat_zero_code)
    moreover have "(n + c - m) mod n = n + c - m" using False m by (intro mod_less) linarith
    ultimately show ?thesis using r False m by (simp add: of_nat_diff algebra_simps)
  qed
qed

lemma sub_raw_index:
  assumes "dims_ok d" "column p < columns d"
  shows "cell_index d (Point (line p - int ((rhs + columns d - 1 - column p) div columns d))
           ((columns d + column p - rhs mod columns d) mod columns d)) = cell_index d p - int rhs"
  using ceil_split [of "columns d" "column p" rhs] assms
  by (simp add: cell_index_def dims_ok_def algebra_simps)

lemma clamp_Grid_index:
  assumes "dims_ok d" "column p < columns d"
  shows "ok (point_grid_clamp d Boundary_Grid p)
    (\<lambda>q. cell_index d q = max 0 (min (cell_count d - 1) (cell_index d p)))"
proof -
  let ?C = "int (columns d)" and ?k = "line p - topmost_line d"
  have C: "0 < ?C" and c: "int (column p) \<le> ?C - 1" and TS: "0 < int (total_lines d)"
    using assms by (auto simp: dims_ok_def)
  note span = line_span [OF assms(1)]
  consider "line p < topmost_line d" | "bottommost_line d < line p" | "in_grid d p"
    using assms by (fastforce simp: in_grid_def)
  then show ?thesis
  proof cases
    case 1
    then have "?k * ?C \<le> -1 * ?C" by (intro mult_right_mono) auto
    moreover have "0 < cell_count d" using C TS by (simp add: cell_count_def)
    ultimately show ?thesis using 1 c
      by (simp add: point_clamp_cases [OF assms(1)] cell_index_def)
  next
    case 2
    then have "int (total_lines d) * ?C \<le> ?k * ?C" using span by (intro mult_right_mono) auto
    moreover have "topmost_line d \<le> bottommost_line d" using span TS by simp
    moreover have "0 < cell_count d" using C TS by (simp add: cell_count_def)
    ultimately have "max 0 (min (cell_count d - 1) (cell_index d p)) = cell_count d - 1"
      unfolding cell_index_def cell_count_def by linarith
    moreover have "cell_index d (Point (bottommost_line d) (columns d - 1)) = cell_count d - 1"
    proof -
      have "(bottommost_line d - topmost_line d) * ?C = int (total_lines d) * ?C - ?C"
        unfolding span by (simp add: algebra_simps)
      then show ?thesis using C by (simp add: cell_index_def cell_count_def of_nat_diff)
    qed
    ultimately show ?thesis using 2 \<open>topmost_line d \<le> bottommost_line d\<close>
      by (simp add: point_clamp_cases [OF assms(1)])
  next
    case 3
    then have "point_grid_clamp d Boundary_Grid p = Some p"
      using assms by (cases p) (auto simp: point_clamp_cases in_grid_def min_def)
    then show ?thesis using cell_index_bounds [OF assms(1) 3] by simp
  qed
qed

lemma clamp_None_index:
  assumes "dims_ok d" "column p < columns d"
  shows "ok (point_grid_clamp d Boundary_None p)
    (\<lambda>q. cell_index d q = cell_index d p mod cell_count d)"
proof -
  let ?C = "int (columns d)" and ?k = "line p - topmost_line d" and ?T = "int (total_lines d)"
  have C: "0 < ?C" and c: "0 \<le> int (column p)" "int (column p) < ?C" and T: "0 < ?T"
    using assms by (auto simp: dims_ok_def)
  have "(?k * ?C + int (column p)) mod (?C * ?T)
      = ?C * ((?k * ?C + int (column p)) div ?C mod ?T) + (?k * ?C + int (column p)) mod ?C"
    using T C by (intro zmod_zmult2_eq) auto
  also have "\<dots> = ?C * (?k mod ?T) + int (column p)" using c C by simp
  finally show ?thesis using c C assms
    by (simp add: point_clamp_cases [OF assms(1)] cell_index_def cell_count_def min_def mult.commute)
qed

lemma point_add_index:
  assumes "dims_ok d"
  shows "ok (point_add d Boundary_Grid n p)
      (\<lambda>q. cell_index d q = max 0 (min (cell_count d - 1) (cell_index d p + int n)))"
    and "ok (point_add d Boundary_None n p)
      (\<lambda>q. cell_index d q = (cell_index d p + int n) mod cell_count d)"
  using assms add_raw_index [OF assms, of p n]
    clamp_Grid_index [OF assms, of "Point (line p + int ((n + column p) div columns d)) ((column p + n) mod columns d)"]
    clamp_None_index [OF assms, of "Point (line p + int ((n + column p) div columns d)) ((column p + n) mod columns d)"]
  by (simp_all add: point_add_def Let_def dims_ok_def)

lemma point_sub_index:
  assumes "dims_ok d" "column p < columns d"
  shows "ok (point_sub d Boundary_Grid n p)
      (\<lambda>q. cell_index d q = max 0 (min (cell_count d - 1) (cell_index d p - int n)))"
    and "ok (point_sub d Boundary_None n p)
      (\<lambda>q. cell_index d q = (cell_index d p - int n) mod cell_count d)"
  using assms sub_raw_index [OF assms, of n]
    clamp_Grid_index [OF assms(1), of "Point (line p - int ((n + columns d - 1 - column p) div columns d))
      ((columns d + column p - n mod columns d) mod columns d)"]
    clamp_None_index [OF assms(1), of "Point (line p - int ((n + columns d - 1 - column p) div columns d))
      ((columns d + column p - n mod columns d) mod columns d)"]
  by (simp_all add: point_sub_def Let_def dims_ok_def)

lemma point_add_within: "dims_ok d \<Longrightarrow> ok (point_add d b n p) (within d b)"
  by (simp add: point_add_def Let_def dims_ok_def point_clamp_within)

lemma point_sub_within: "dims_ok d \<Longrightarrow> ok (point_sub d b n p) (within d b)"
  by (simp add: point_sub_def Let_def dims_ok_def point_clamp_within)

lemma cell_index_le_iff:
  assumes "column p < columns d" "column q < columns d"
  shows "p \<le> q \<longleftrightarrow> cell_index d p \<le> cell_index d q"
proof -
  let ?C = "int (columns d)" and ?k = "line q - line p"
  have diff: "cell_index d q - cell_index d p = ?k * ?C + (int (column q) - int (column p))"
    by (simp add: cell_index_def algebra_simps)
  consider "?k < 0" | "?k = 0" | "?k > 0" by linarith
  then show ?thesis
  proof cases
    case 1
    then have "?k * ?C \<le> -1 * ?C" by (intro mult_right_mono) auto
    then show ?thesis using 1 diff assms by (auto simp: less_eq_point_def)
  next
    case 2
    then show ?thesis using diff by (auto simp: less_eq_point_def)
  next
    case 3
    then have "1 * ?C \<le> ?k * ?C" by (intro mult_right_mono) auto
    then have "cell_index d p \<le> cell_index d q" using diff assms by linarith
    with 3 show ?thesis by (simp add: less_eq_point_def)
  qed
qed

section \<open>Properties\<close>

definition demo_dims :: dimensions where
  \<comment> \<open>three screen lines of four columns below two lines of scrollback\<close>
  "demo_dims = \<lparr>total_lines = 5, screen_lines = 3, columns = 4\<rparr>"

text \<open>
  \<^verbatim>\<open>Point::add\<close> without a boundary moves a point of the grid by that many
  cells in reading order, wrapping around from the last cell of the grid to the first.
\<close>

theorem point_add_moves:
  assumes "dims_ok d" "in_grid d p"
  shows "\<exists>q. point_add d Boundary_None n p = Some q \<and> in_grid d q
    \<and> cell_index d q = (cell_index d p + int n) mod cell_count d"
  using point_add_index(2) [OF assms(1), of n p] point_add_within [OF assms(1), of Boundary_None n p]
  by (auto elim!: okE)

theorem point_add_moves_witness:
  "\<exists>q. point_add demo_dims Boundary_None 9 (Point 1 3) = Some q \<and> in_grid demo_dims q
    \<and> cell_index demo_dims q = (cell_index demo_dims (Point 1 3) + 9) mod cell_count demo_dims"
  using point_add_moves [of demo_dims "Point 1 3" 9]
  by (simp add: demo_dims_def dims_ok_def in_grid_def topmost_line_def bottommost_line_def history_size_def)

text \<open>
  \<^verbatim>\<open>Point::sub\<close> undoes \<^verbatim>\<open>Point::add\<close>, for every distance and every point of the grid.
\<close>

theorem point_add_sub:
  assumes "dims_ok d" "in_grid d p"
  shows "point_add d Boundary_None n p \<bind> point_sub d Boundary_None n = Some p"
proof -
  obtain q where q: "point_add d Boundary_None n p = Some q" "in_grid d q"
      "cell_index d q = (cell_index d p + int n) mod cell_count d"
    using point_add_index(2) [OF assms(1), of n p] point_add_within [OF assms(1), of Boundary_None n p]
    by (auto elim!: okE)
  have "column q < columns d" using q(2) by (simp add: in_grid_def)
  then obtain r where r: "point_sub d Boundary_None n q = Some r" "in_grid d r"
      "cell_index d r = (cell_index d q - int n) mod cell_count d"
    using point_sub_index(2) [OF assms(1), of q n] point_sub_within [OF assms(1), of Boundary_None n q]
    by (auto elim!: okE)
  have "cell_index d r = cell_index d p"
    using cell_index_bounds [OF assms] unfolding r(3) q(3) by (simp add: mod_diff_left_eq)
  then show ?thesis using q(1) r(1) cell_index_inj [OF assms(1) r(2) assms(2)] by simp
qed

theorem point_add_sub_witness:
  "point_add demo_dims Boundary_None 9 (Point 1 3) \<bind> point_sub demo_dims Boundary_None 9 = Some (Point 1 3)"
  by (rule point_add_sub)
    (simp_all add: demo_dims_def dims_ok_def in_grid_def topmost_line_def bottommost_line_def history_size_def)

text \<open>
  \<^verbatim>\<open>Point::grid_clamp\<close> never fails, its result lies within the chosen boundary, and a point
  that was within the boundary stays where it is.
\<close>

theorem point_grid_clamp_within:
  assumes "dims_ok d"
  shows "\<exists>q. point_grid_clamp d b p = Some q \<and> within d b q \<and> (within d b p \<longrightarrow> q = p)"
proof -
  have "point_grid_clamp d b p = Some p" if "within d b p"
    using that assms point_clamp_cases [OF assms, of p] line_span [OF assms]
    by (cases b; cases p) (auto simp: in_grid_def in_screen_def bottommost_line_def dims_ok_def)
  then show ?thesis using point_clamp_within [OF assms, of b p] by (auto elim!: okE)
qed

theorem point_grid_clamp_within_witness:
  "\<exists>q. point_grid_clamp demo_dims Boundary_Grid (Point (-9) 2) = Some q \<and> within demo_dims Boundary_Grid q
    \<and> (within demo_dims Boundary_Grid (Point (-9) 2) \<longrightarrow> q = Point (-9) 2)"
  by (rule point_grid_clamp_within) (simp add: demo_dims_def dims_ok_def)

end
