(* ===== verification/Cell.thy ===== *)
theory Cell
  imports Prelude
begin

text \<open>
  Cells of the terminal grid (\<^verbatim>\<open>alacritty_terminal/src/term/cell.rs\<close>): the flag word,
  the rarely used extra storage, and the \<^verbatim>\<open>GridCell\<close> and \<^verbatim>\<open>ResetDiscriminant\<close>
  implementations of \<^verbatim>\<open>Cell\<close>.

  The colour types come from the \<^verbatim>\<open>vte\<close> crate; the constructors are the ones the
  sources use, a named colour other than the ones they name is kept by its
  discriminant. \<^verbatim>\<open>Arc::make_mut\<close> clones on write, so \<^verbatim>\<open>Arc<CellExtra>\<close> is a value.
\<close>

unbundle bit_operations_syntax

section \<open>Flags\<close>

type_synonym flags = "16 word"

definition INVERSE :: flags where "INVERSE = 0x0001"
definition BOLD :: flags where "BOLD = 0x0002"
definition ITALIC :: flags where "ITALIC = 0x0004"
definition BOLD_ITALIC :: flags where "BOLD_ITALIC = 0x0006"
definition UNDERLINE :: flags where "UNDERLINE = 0x0008"
definition WRAPLINE :: flags where "WRAPLINE = 0x0010"
definition WIDE_CHAR :: flags where "WIDE_CHAR = 0x0020"
definition WIDE_CHAR_SPACER :: flags where "WIDE_CHAR_SPACER = 0x0040"
definition DIM :: flags where "DIM = 0x0080"
definition DIM_BOLD :: flags where "DIM_BOLD = 0x0082"
definition HIDDEN :: flags where "HIDDEN = 0x0100"
definition STRIKEOUT :: flags where "STRIKEOUT = 0x0200"
definition LEADING_WIDE_CHAR_SPACER :: flags where "LEADING_WIDE_CHAR_SPACER = 0x0400"
definition DOUBLE_UNDERLINE :: flags where "DOUBLE_UNDERLINE = 0x0800"
definition UNDERCURL :: flags where "UNDERCURL = 0x1000"
definition DOTTED_UNDERLINE :: flags where "DOTTED_UNDERLINE = 0x2000"
definition DASHED_UNDERLINE :: flags where "DASHED_UNDERLINE = 0x4000"
definition ALL_UNDERLINES :: flags where
  "ALL_UNDERLINES =
     UNDERLINE OR DOUBLE_UNDERLINE OR UNDERCURL OR DOTTED_UNDERLINE OR DASHED_UNDERLINE"

lemmas flag_bits =
  INVERSE_def BOLD_def ITALIC_def BOLD_ITALIC_def UNDERLINE_def WRAPLINE_def WIDE_CHAR_def
  WIDE_CHAR_SPACER_def DIM_def DIM_BOLD_def HIDDEN_def STRIKEOUT_def
  LEADING_WIDE_CHAR_SPACER_def DOUBLE_UNDERLINE_def UNDERCURL_def DOTTED_UNDERLINE_def
  DASHED_UNDERLINE_def ALL_UNDERLINES_def

section \<open>Colours and hyperlinks\<close>

datatype named_color = Foreground | Background | Cursor_Color | Other_Named nat

record rgb =
  red :: "8 word"
  green :: "8 word"
  blue :: "8 word"

datatype color = Named named_color | Spec rgb | Indexed "8 word"

record hyperlink =
  link_id :: string
  link_uri :: string

definition hyperlink_new ::
  "32 word \<Rightarrow> string option \<Rightarrow> string \<Rightarrow> hyperlink \<times> 32 word" where
  \<comment> \<open>the first argument and the second result are the global \<^verbatim>\<open>HYPERLINK_ID_SUFFIX\<close>\<close>
  "hyperlink_new suffix lid uri =
     (case lid of
        Some i \<Rightarrow> (\<lparr>link_id = i, link_uri = uri\<rparr>, suffix)
      | None \<Rightarrow> (\<lparr>link_id = dec_digits (unat suffix) @ ''_alacritty'', link_uri = uri\<rparr>, suffix + 1))"

section \<open>Cells\<close>

record cell_extra =
  zerowidth_chars :: "uchar list"
  extra_underline_color :: "color option"
  extra_hyperlink :: "hyperlink option"

record cell =
  cell_c :: uchar
  cell_fg :: color
  cell_bg :: color
  cell_flags :: flags
  cell_extra_data :: "cell_extra option"

definition extra_default :: cell_extra where
  "extra_default =
     \<lparr>zerowidth_chars = [], extra_underline_color = None, extra_hyperlink = None\<rparr>"

definition cell_default :: cell where
  "cell_default =
     \<lparr>cell_c = 32, cell_fg = Named Foreground, cell_bg = Named Background, cell_flags = 0,
      cell_extra_data = None\<rparr>"

definition cell_of_color :: "color \<Rightarrow> cell" where
  "cell_of_color col = cell_default\<lparr>cell_bg := col\<rparr>"

definition zerowidth :: "cell \<Rightarrow> uchar list option" where
  "zerowidth x = map_option zerowidth_chars (cell_extra_data x)"

definition extra_or_default :: "cell \<Rightarrow> cell_extra" where
  \<comment> \<open>\<^verbatim>\<open>get_or_insert(Default::default())\<close>\<close>
  "extra_or_default x = (case cell_extra_data x of Some e \<Rightarrow> e | None \<Rightarrow> extra_default)"

definition push_zerowidth :: "uchar \<Rightarrow> cell \<Rightarrow> cell" where
  "push_zerowidth ch x =
     (let e = extra_or_default x
      in x\<lparr>cell_extra_data := Some (e\<lparr>zerowidth_chars := zerowidth_chars e @ [ch]\<rparr>)\<rparr>)"

definition clear_wide :: "cell \<Rightarrow> cell" where
  "clear_wide x =
     x\<lparr>cell_flags := flag_remove (cell_flags x) WIDE_CHAR,
       cell_extra_data := map_option (\<lambda>e. e\<lparr>zerowidth_chars := []\<rparr>) (cell_extra_data x),
       cell_c := 32\<rparr>"

definition set_underline_color :: "color option \<Rightarrow> cell \<Rightarrow> cell" where
  "set_underline_color col x =
     (if col = None \<and>
         (case cell_extra_data x of None \<Rightarrow> True
          | Some e \<Rightarrow> zerowidth_chars e = [] \<and> extra_hyperlink e = None)
      then x\<lparr>cell_extra_data := None\<rparr>
      else x\<lparr>cell_extra_data := Some ((extra_or_default x)\<lparr>extra_underline_color := col\<rparr>)\<rparr>)"

definition underline_color :: "cell \<Rightarrow> color option" where
  "underline_color x = (case cell_extra_data x of None \<Rightarrow> None | Some e \<Rightarrow> extra_underline_color e)"

definition set_cell_hyperlink :: "hyperlink option \<Rightarrow> cell \<Rightarrow> cell" where
  "set_cell_hyperlink h x =
     (if h = None \<and>
         (case cell_extra_data x of None \<Rightarrow> True
          | Some e \<Rightarrow> zerowidth_chars e = [] \<and> extra_underline_color e = None)
      then x\<lparr>cell_extra_data := None\<rparr>
      else x\<lparr>cell_extra_data := Some ((extra_or_default x)\<lparr>extra_hyperlink := h\<rparr>)\<rparr>)"

definition cell_hyperlink :: "cell \<Rightarrow> hyperlink option" where
  "cell_hyperlink x = (case cell_extra_data x of None \<Rightarrow> None | Some e \<Rightarrow> extra_hyperlink e)"

section \<open>The \<^verbatim>\<open>GridCell\<close> and \<^verbatim>\<open>ResetDiscriminant\<close> implementations\<close>

definition cell_is_empty :: "cell \<Rightarrow> bool" where
  "cell_is_empty x \<longleftrightarrow>
     (cell_c x = 32 \<or> cell_c x = 9)
     \<and> cell_bg x = Named Background
     \<and> cell_fg x = Named Foreground
     \<and> \<not> flag_intersects (cell_flags x)
           (INVERSE OR ALL_UNDERLINES OR STRIKEOUT OR WRAPLINE OR WIDE_CHAR_SPACER
            OR LEADING_WIDE_CHAR_SPACER)
     \<and> map_option (\<lambda>e. zerowidth_chars e = []) (cell_extra_data x) \<noteq> Some False"

definition cell_reset :: "cell \<Rightarrow> cell \<Rightarrow> cell" where
  \<comment> \<open>\<open>cell_reset self template\<close>\<close>
  "cell_reset x t = cell_default\<lparr>cell_bg := cell_bg t\<rparr>"

definition cell_discriminant :: "cell \<Rightarrow> color" where
  "cell_discriminant x = cell_bg x"

definition insert_flag :: "flags \<Rightarrow> cell \<Rightarrow> cell" where
  \<comment> \<open>\<^verbatim>\<open>cell.flags_mut().insert(f)\<close>\<close>
  "insert_flag f x = x\<lparr>cell_flags := flag_insert (cell_flags x) f\<rparr>"

definition remove_flag :: "flags \<Rightarrow> cell \<Rightarrow> cell" where
  "remove_flag f x = x\<lparr>cell_flags := flag_remove (cell_flags x) f\<rparr>"

section \<open>Lemmas\<close>

lemma cell_default_empty [simp]: "cell_is_empty cell_default"
  by (simp add: cell_is_empty_def cell_default_def flag_intersects_def)

lemma cell_reset_eq: "cell_reset x t = cell_of_color (cell_bg t)"
  by (simp add: cell_reset_def cell_of_color_def)

lemma cell_of_color_bg [simp]: "cell_bg (cell_of_color col) = col"
  by (simp add: cell_of_color_def)

lemma cell_of_color_default: "cell_of_color (Named Background) = cell_default"
  by (simp add: cell_of_color_def cell_default_def)

lemma cell_of_color_empty: "cell_is_empty (cell_of_color col) \<longleftrightarrow> col = Named Background"
  by (simp add: cell_is_empty_def cell_of_color_def cell_default_def flag_intersects_def)

text \<open>
  Extra storage is dropped exactly when its last attribute goes away, and the three
  attributes do not disturb each other.
\<close>

definition extra_compact :: "cell \<Rightarrow> bool" where
  "extra_compact x \<longleftrightarrow> cell_extra_data x \<noteq> Some extra_default"

lemma underline_color_set [simp]: "underline_color (set_underline_color col x) = col"
  by (auto simp: underline_color_def set_underline_color_def)

lemma hyperlink_set [simp]: "cell_hyperlink (set_cell_hyperlink h x) = h"
  by (auto simp: cell_hyperlink_def set_cell_hyperlink_def)

lemma hyperlink_set_underline [simp]:
  "cell_hyperlink (set_underline_color col x) = cell_hyperlink x"
  by (auto simp: cell_hyperlink_def set_underline_color_def extra_or_default_def extra_default_def
      split: option.splits)

lemma underline_set_hyperlink [simp]:
  "underline_color (set_cell_hyperlink h x) = underline_color x"
  by (auto simp: underline_color_def set_cell_hyperlink_def extra_or_default_def extra_default_def
      split: option.splits)

lemma extra_eq_default_iff:
  "e = extra_default \<longleftrightarrow>
     zerowidth_chars e = [] \<and> extra_underline_color e = None \<and> extra_hyperlink e = None"
  by (cases e) (simp add: extra_default_def)

lemma extra_compact_set_underline:
  "extra_compact (set_underline_color col x)"
  by (cases col; cases "cell_extra_data x")
    (auto simp: extra_compact_def set_underline_color_def extra_or_default_def extra_eq_default_iff)

lemma extra_compact_set_hyperlink:
  "extra_compact (set_cell_hyperlink h x)"
  by (cases h; cases "cell_extra_data x")
    (auto simp: extra_compact_def set_cell_hyperlink_def extra_or_default_def extra_eq_default_iff)

end
