(* ===== verification/Row.thy ===== *)
theory Row
  imports Cell
begin

text \<open>
  Rows of the grid (\<^verbatim>\<open>alacritty_terminal/src/grid/row.rs\<close>, and \<^verbatim>\<open>LineLength\<close> of
  \<^verbatim>\<open>term/cell.rs\<close>). A row remembers in \<open>occ\<close> an upper bound of the cells written
  since the last reset, so that \<^verbatim>\<open>Row::reset\<close> only touches those.

  The traits \<^verbatim>\<open>GridCell\<close>, \<^verbatim>\<open>ResetDiscriminant\<close> and \<^verbatim>\<open>Default\<close> of the cell type are
  arguments of the operations; the locale \<open>grid_cell\<close> states what \<^verbatim>\<open>Row::reset\<close>
  relies on, and the shortcut is proved equivalent to resetting every cell.
\<close>

record 'a row =
  row_inner :: "'a list"
  occ :: nat

section \<open>Operations\<close>

definition row_new :: "'a \<Rightarrow> nat \<Rightarrow> 'a row option" where
  "row_new dflt cols = do {
     ensure (1 \<le> cols);
     Some \<lparr>row_inner = replicate cols dflt, occ = 0\<rparr>
   }"

definition row_grow :: "'a \<Rightarrow> nat \<Rightarrow> 'a row \<Rightarrow> 'a row" where
  "row_grow dflt cols r =
     (if cols \<le> length (row_inner r) then r
      else r\<lparr>row_inner := row_inner r @ replicate (cols - length (row_inner r)) dflt\<rparr>)"

definition row_shrink :: "('a \<Rightarrow> bool) \<Rightarrow> nat \<Rightarrow> 'a row \<Rightarrow> 'a row \<times> 'a list option" where
  "row_shrink is_empty cols r =
     (if length (row_inner r) \<le> cols then (r, None)
      else
        let new_row = drop cols (row_inner r);
            index = (case rposition (\<lambda>x. \<not> is_empty x) new_row of None \<Rightarrow> 0 | Some i \<Rightarrow> i + 1);
            new_row = take index new_row
        in (\<lparr>row_inner = take cols (row_inner r), occ = min (occ r) cols\<rparr>,
            if new_row = [] then None else Some new_row))"

definition row_reset :: "('a \<Rightarrow> 'd) \<Rightarrow> ('a \<Rightarrow> 'a \<Rightarrow> 'a) \<Rightarrow> 'a \<Rightarrow> 'a row \<Rightarrow> 'a row option" where
  "row_reset discriminant reset template r = do {
     ensure (row_inner r \<noteq> []);
     let n = length (row_inner r);
     let dirty = (if discriminant (row_inner r ! (n - 1)) \<noteq> discriminant template then n else occ r);
     ensure (dirty \<le> n);
     Some \<lparr>row_inner = map (\<lambda>x. reset x template) (take dirty (row_inner r)) @ drop dirty (row_inner r),
           occ = 0\<rparr>
   }"

definition row_from_vec :: "'a list \<Rightarrow> nat \<Rightarrow> 'a row" where
  "row_from_vec vec n = \<lparr>row_inner = vec, occ = n\<rparr>"

definition row_len :: "'a row \<Rightarrow> nat" where
  "row_len r = length (row_inner r)"

definition row_last_mut :: "('a \<Rightarrow> 'a) \<Rightarrow> 'a row \<Rightarrow> 'a row" where
  \<comment> \<open>\<^verbatim>\<open>if let Some(cell) = row.last_mut() { f(cell) }\<close>\<close>
  "row_last_mut f r =
     (let n = length (row_inner r)
      in \<lparr>row_inner = (if n = 0 then [] else (row_inner r)[n - 1 := f (row_inner r ! (n - 1))]),
          occ = n\<rparr>)"

definition row_append :: "'a list \<Rightarrow> 'a row \<Rightarrow> 'a row" where
  "row_append vec r = \<lparr>row_inner = row_inner r @ vec, occ = occ r + length vec\<rparr>"

definition row_append_front :: "'a list \<Rightarrow> 'a row \<Rightarrow> 'a row" where
  "row_append_front vec r = \<lparr>row_inner = vec @ row_inner r, occ = occ r + length vec\<rparr>"

definition row_is_clear :: "('a \<Rightarrow> bool) \<Rightarrow> 'a row \<Rightarrow> bool" where
  "row_is_clear is_empty r \<longleftrightarrow> list_all is_empty (row_inner r)"

definition row_front_split_off :: "nat \<Rightarrow> 'a row \<Rightarrow> ('a row \<times> 'a list) option" where
  "row_front_split_off at r = do {
     ensure (at \<le> length (row_inner r));
     Some (\<lparr>row_inner = drop at (row_inner r), occ = occ r - at\<rparr>, take at (row_inner r))
   }"

definition row_index :: "'a row \<Rightarrow> nat \<Rightarrow> 'a option" where
  "row_index r col = vec_get (row_inner r) col"

definition row_index_mut :: "nat \<Rightarrow> ('a \<Rightarrow> 'a) \<Rightarrow> 'a row \<Rightarrow> 'a row option" where
  \<comment> \<open>a write through \<^verbatim>\<open>&mut row[col]\<close>\<close>
  "row_index_mut col f r = do {
     x \<leftarrow> vec_get (row_inner r) col;
     Some \<lparr>row_inner = (row_inner r)[col := f x], occ = max (occ r) (col + 1)\<rparr>
   }"

text \<open>
  Writes through \<^verbatim>\<open>&mut row[l..r]\<close>, \<^verbatim>\<open>&mut row[..r]\<close>, \<^verbatim>\<open>&mut row[l..]\<close>, \<^verbatim>\<open>&mut row[..]\<close> and
  \<^verbatim>\<open>&mut row[..=r]\<close>; \<open>f\<close> is what the caller does with the slice.
\<close>

definition slice_mut ::
  "nat \<Rightarrow> nat \<Rightarrow> ('a list \<Rightarrow> 'a list option) \<Rightarrow> 'a list \<Rightarrow> 'a list option" where
  "slice_mut l u f xs = do {
     ensure (l \<le> u \<and> u \<le> length xs);
     ys \<leftarrow> f (take (u - l) (drop l xs));
     Some (take l xs @ ys @ drop u xs)
   }"

definition row_range_mut ::
  "nat \<Rightarrow> nat \<Rightarrow> ('a list \<Rightarrow> 'a list option) \<Rightarrow> 'a row \<Rightarrow> 'a row option" where
  "row_range_mut l u f r = do {
     ys \<leftarrow> slice_mut l u f (row_inner r);
     Some \<lparr>row_inner = ys, occ = max (occ r) u\<rparr>
   }"

definition row_range_to_mut ::
  "nat \<Rightarrow> ('a list \<Rightarrow> 'a list option) \<Rightarrow> 'a row \<Rightarrow> 'a row option" where
  "row_range_to_mut u f r = do {
     ys \<leftarrow> slice_mut 0 u f (row_inner r);
     Some \<lparr>row_inner = ys, occ = max (occ r) u\<rparr>
   }"

definition row_range_from_mut ::
  "nat \<Rightarrow> ('a list \<Rightarrow> 'a list option) \<Rightarrow> 'a row \<Rightarrow> 'a row option" where
  "row_range_from_mut l f r = do {
     ys \<leftarrow> slice_mut l (length (row_inner r)) f (row_inner r);
     Some \<lparr>row_inner = ys, occ = length (row_inner r)\<rparr>
   }"

definition row_range_full_mut ::
  "('a list \<Rightarrow> 'a list option) \<Rightarrow> 'a row \<Rightarrow> 'a row option" where
  "row_range_full_mut f r = do {
     ys \<leftarrow> f (row_inner r);
     Some \<lparr>row_inner = ys, occ = length (row_inner r)\<rparr>
   }"

definition row_range_to_inclusive_mut ::
  "nat \<Rightarrow> ('a list \<Rightarrow> 'a list option) \<Rightarrow> 'a row \<Rightarrow> 'a row option" where
  "row_range_to_inclusive_mut u f r = do {
     ys \<leftarrow> slice_mut 0 (u + 1) f (row_inner r);
     Some \<lparr>row_inner = ys, occ = max (occ r) (u + 1)\<rparr>
   }"

text \<open>\<^verbatim>\<open>for cell in slice { *cell = v }\<close>\<close>

definition fill_with :: "'a \<Rightarrow> 'a list \<Rightarrow> 'a list option" where
  "fill_with v xs = Some (replicate (length xs) v)"

definition line_length :: "cell row \<Rightarrow> nat option" where
  "line_length r = do {
     k \<leftarrow> csub (row_len r) 1;
     x \<leftarrow> row_index r k;
     if flag_contains (cell_flags x) WRAPLINE then Some (row_len r)
     else Some (case rposition
                  (\<lambda>y. cell_c y \<noteq> 32
                     \<or> map_option (\<lambda>e. zerowidth_chars e = []) (cell_extra_data y) = Some False)
                  (row_inner r) of
                None \<Rightarrow> 0 | Some i \<Rightarrow> i + 1)
   }"

section \<open>Invariants\<close>

text \<open>What every access relies on: the row is not empty and \<open>occ\<close> is within it.\<close>

definition row_ok :: "nat \<Rightarrow> 'a row \<Rightarrow> bool" where
  "row_ok cols r \<longleftrightarrow> length (row_inner r) = cols \<and> 0 < cols \<and> occ r \<le> cols"

text \<open>
  What the reset shortcut relies on: the cells from \<open>occ\<close> on are blank cells of the
  last cell's discriminant.
\<close>

definition row_clean :: "('a \<Rightarrow> 'a \<Rightarrow> 'a) \<Rightarrow> 'a row \<Rightarrow> bool" where
  "row_clean reset r \<longleftrightarrow>
     row_inner r \<noteq> [] \<and> occ r \<le> length (row_inner r)
     \<and> (\<forall>x \<in> set (drop (occ r) (row_inner r)). x = reset x (last (row_inner r)))"

section \<open>The contract of a cell type\<close>

text \<open>
  \<^verbatim>\<open>GridCell::reset\<close> replaces the cell by a blank one determined by the template's
  discriminant, which the blank cell keeps; the default cell is blank.
\<close>

locale grid_cell =
  fixes dflt :: 'a
    and is_empty :: "'a \<Rightarrow> bool"
    and discriminant :: "'a \<Rightarrow> 'd"
    and reset :: "'a \<Rightarrow> 'a \<Rightarrow> 'a"
  assumes reset_determined: "discriminant t = discriminant u \<Longrightarrow> reset x t = reset y u"
    and discriminant_reset: "discriminant (reset x t) = discriminant t"
    and reset_dflt: "reset x dflt = dflt"
    and dflt_empty: "is_empty dflt"
begin

lemma reset_any: "reset x t = reset t t"
  by (rule reset_determined) simp

lemma reset_reset [simp]: "reset x (reset y t) = reset x t"
  by (rule reset_determined) (simp add: discriminant_reset)

lemma tail_blank:
  assumes "row_clean reset r" "x \<in> set (drop (occ r) (row_inner r))"
    and "discriminant (last (row_inner r)) = discriminant t"
  shows "x = reset t t"
proof -
  have "x = reset x (last (row_inner r))" using assms by (auto simp: row_clean_def)
  also have "\<dots> = reset t t" by (rule reset_determined [OF assms(3)])
  finally show ?thesis .
qed

text \<open>The shortcut of \<^verbatim>\<open>Row::reset\<close> resets the whole row.\<close>

lemma row_reset_blank:
  assumes "row_clean reset r"
  shows "row_reset discriminant reset t r =
    Some \<lparr>row_inner = replicate (length (row_inner r)) (reset t t), occ = 0\<rparr>"
proof -
  let ?xs = "row_inner r" and ?n = "length (row_inner r)"
  let ?d = "if discriminant (?xs ! (?n - 1)) \<noteq> discriminant t then ?n else occ r"
  have ne: "?xs \<noteq> []" and occ: "occ r \<le> ?n" using assms by (auto simp: row_clean_def)
  have last: "?xs ! (?n - 1) = last ?xs" using ne by (simp add: last_conv_nth)
  have hd: "map (\<lambda>x. reset x t) (take ?d ?xs) = replicate (min ?n ?d) (reset t t)"
    using reset_any by (intro replicate_eqI) auto
  have tl: "drop ?d ?xs = replicate (?n - ?d) (reset t t)"
  proof (rule replicate_eqI)
    fix y assume y: "y \<in> set (drop ?d ?xs)"
    show "y = reset t t"
    proof (cases "discriminant (last ?xs) = discriminant t")
      case True
      with y last show ?thesis by (intro tail_blank [OF assms]) auto
    next
      case False
      with y last show ?thesis by simp
    qed
  qed simp
  have "?d \<le> ?n" using occ by simp
  then show ?thesis using ne hd tl
    by (simp add: row_reset_def Let_def ensure_def replicate_add [symmetric] min_def)
qed

lemma row_clean_blank: "0 < n \<Longrightarrow> row_clean reset \<lparr>row_inner = replicate n (reset t t), occ = 0\<rparr>"
  using reset_any [of "reset t t" t] by (simp add: row_clean_def)

lemma row_clean_new: "row_new dflt n = Some r \<Longrightarrow> row_clean reset r"
  using reset_dflt by (auto simp: row_new_def row_clean_def ensure_def split: if_splits bind_splits)

lemma row_clean_full: "xs \<noteq> [] \<Longrightarrow> row_clean reset \<lparr>row_inner = xs, occ = length xs\<rparr>"
  by (simp add: row_clean_def)

text \<open>A write keeps the invariant if it lies below the new \<open>occ\<close>.\<close>

lemma row_clean_write:
  assumes "row_clean reset r" "length ys = length (row_inner r)" "occ r \<le> n" "n \<le> length ys"
    and "drop n ys = drop n (row_inner r)"
  shows "row_clean reset \<lparr>row_inner = ys, occ = n\<rparr>"
proof (cases "n = length ys")
  case True
  with assms show ?thesis by (auto simp: row_clean_def)
next
  case False
  with assms have "last ys = last (row_inner r)"
    by (metis (no_types) last_drop le_neq_implies_less)
  moreover have "set (drop n (row_inner r)) \<subseteq> set (drop (occ r) (row_inner r))"
    using assms(3) by (rule set_drop_subset_set_drop)
  ultimately show ?thesis using assms by (auto simp: row_clean_def)
qed

lemma row_clean_index_mut:
  assumes "row_clean reset r" "row_index_mut col f r = Some r'"
  shows "row_clean reset r'"
proof -
  have col: "col < length (row_inner r)"
    and r': "r' = \<lparr>row_inner = (row_inner r)[col := f (row_inner r ! col)], occ = max (occ r) (col + 1)\<rparr>"
    using assms(2) by (auto simp: row_index_mut_def vec_get_def split: if_splits)
  show ?thesis unfolding r'
    using assms(1) col by (intro row_clean_write) (auto simp: row_clean_def)
qed

lemma row_clean_append_front:
  assumes "row_clean reset r"
  shows "row_clean reset (row_append_front vec r)"
  using assms by (auto simp: row_clean_def row_append_front_def)

lemma row_clean_shrink:
  assumes "row_clean reset r" "0 < cols"
  shows "row_clean reset (fst (row_shrink is_empty cols r))"
proof (cases "length (row_inner r) \<le> cols")
  case True
  with assms show ?thesis by (simp add: row_shrink_def)
next
  case False
  let ?xs = "row_inner r" and ?ys = "take cols (row_inner r)"
  have "x = reset x (last ?ys)" if x: "x \<in> set (drop (min (occ r) cols) ?ys)" for x
  proof -
    have lt: "occ r < cols" using x False by (cases "occ r < cols") auto
    have eq: "drop (min (occ r) cols) ?ys = take (cols - occ r) (drop (occ r) ?xs)"
      using lt by (simp add: drop_take min_def)
    have sub: "set (drop (min (occ r) cols) ?ys) \<subseteq> set (drop (occ r) ?xs)"
      unfolding eq by (rule set_take_subset)
    have "last ?ys = last (drop (min (occ r) cols) ?ys)"
      using lt False by (simp add: last_drop)
    then have "last ?ys \<in> set (drop (occ r) ?xs)"
      using x sub last_in_set by (metis empty_iff empty_set subsetD)
    then have "last ?ys = reset (last ?ys) (last ?xs)" using assms(1) by (auto simp: row_clean_def)
    then have "discriminant (last ?ys) = discriminant (last ?xs)" by (metis discriminant_reset)
    moreover have "x = reset x (last ?xs)" using assms(1) x sub by (auto simp: row_clean_def)
    ultimately show ?thesis by (metis reset_determined)
  qed
  moreover have "?ys \<noteq> []" using assms False by auto
  ultimately show ?thesis using False
    by (auto simp: row_shrink_def Let_def row_clean_def min_def)
qed

end

section \<open>The cell type of the terminal\<close>

interpretation cells: grid_cell cell_default cell_is_empty cell_discriminant cell_reset
  by unfold_locales
    (simp_all add: cell_reset_def cell_discriminant_def cell_default_def
      cell_default_empty [unfolded cell_default_def])

abbreviation reset_row :: "cell \<Rightarrow> cell row \<Rightarrow> cell row option" where
  "reset_row \<equiv> row_reset cell_discriminant cell_reset"

abbreviation clean_row :: "cell row \<Rightarrow> bool" where
  "clean_row \<equiv> row_clean cell_reset"

definition blank_row :: "nat \<Rightarrow> color \<Rightarrow> cell row" where
  "blank_row n col = \<lparr>row_inner = replicate n (cell_of_color col), occ = 0\<rparr>"

lemma reset_row_blank:
  "clean_row r \<Longrightarrow> reset_row t r = Some (blank_row (length (row_inner r)) (cell_bg t))"
  by (simp add: cells.row_reset_blank blank_row_def cell_reset_eq)

lemma clean_blank_row: "0 < n \<Longrightarrow> clean_row (blank_row n col)"
  using cells.row_clean_blank [of n "cell_of_color col"] by (simp add: blank_row_def cell_reset_eq)

lemma blank_row_ok: "0 < n \<Longrightarrow> row_ok n (blank_row n col)"
  by (simp add: row_ok_def blank_row_def)

section \<open>Rows stay well-formed\<close>

lemma row_new_ok [wp, simp]:
  "ok (row_new d n) P \<longleftrightarrow> 1 \<le> n \<and> P \<lparr>row_inner = replicate n d, occ = 0\<rparr>"
  by (simp add: row_new_def)

lemma row_ok_new: "0 < n \<Longrightarrow> row_ok n \<lparr>row_inner = replicate n d, occ = 0\<rparr>"
  by (simp add: row_ok_def)

lemma row_reset_ok: "row_ok n r \<Longrightarrow> ok (row_reset discr rst t r) (row_ok n)"
  by (auto simp: row_reset_def row_ok_def Let_def)

lemma row_index_mut_ok: "row_ok n r \<Longrightarrow> col < n \<Longrightarrow> ok (row_index_mut col f r) (row_ok n)"
  by (auto simp: row_index_mut_def row_ok_def)

lemma row_index_ok: "row_ok n r \<Longrightarrow> col < n \<Longrightarrow> row_index r col = Some (row_inner r ! col)"
  by (simp add: row_index_def row_ok_def vec_get_def)

lemma slice_mut_fill:
  "l \<le> u \<Longrightarrow> u \<le> length xs \<Longrightarrow>
     slice_mut l u (fill_with v) xs = Some (take l xs @ replicate (u - l) v @ drop u xs)"
  by (simp add: slice_mut_def ensure_def fill_with_def)

lemma row_range_fill_ok:
  "row_ok n r \<Longrightarrow> l \<le> u \<Longrightarrow> u \<le> n \<Longrightarrow> ok (row_range_mut l u (fill_with v) r) (row_ok n)"
  by (auto simp: row_range_mut_def row_ok_def slice_mut_fill)

lemma row_range_to_fill_ok:
  "row_ok n r \<Longrightarrow> u \<le> n \<Longrightarrow> ok (row_range_to_mut u (fill_with v) r) (row_ok n)"
  by (auto simp: row_range_to_mut_def row_ok_def slice_mut_fill)

lemma row_range_from_fill_ok:
  "row_ok n r \<Longrightarrow> l \<le> n \<Longrightarrow> ok (row_range_from_mut l (fill_with v) r) (row_ok n)"
  by (auto simp: row_range_from_mut_def row_ok_def slice_mut_fill)

lemma row_range_full_ok:
  "row_ok n r \<Longrightarrow> ok (f (row_inner r)) (\<lambda>ys. length ys = n) \<Longrightarrow> ok (row_range_full_mut f r) (row_ok n)"
  by (auto simp: row_range_full_mut_def row_ok_def elim!: ok_mono)

lemma line_length_ok: "row_ok n r \<Longrightarrow> ok (line_length r) (\<lambda>k. k \<le> n)"
  by (auto simp: line_length_def row_ok_def row_len_def row_index_def Suc_le_eq
      split: option.splits dest: rposition_Some)

section \<open>Properties\<close>

definition demo_row :: "cell row" where
  \<comment> \<open>one written cell in front of two untouched ones\<close>
  "demo_row = \<lparr>row_inner = [cell_of_color (Indexed 7), cell_default, cell_default], occ = 1\<rparr>"

text \<open>
  C6 (equivalence): \<^verbatim>\<open>Row::reset\<close> skips the cells behind \<^verbatim>\<open>occ\<close> when the background did not change. On
  a clean row the shortcut is invisible: the result is the one of resetting every cell.
\<close>

theorem row_reset_shortcut:
  assumes "clean_row r"
  shows "reset_row t r = Some \<lparr>row_inner = map (\<lambda>x. cell_reset x t) (row_inner r), occ = 0\<rparr>"
  using assms
  by (simp add: reset_row_blank blank_row_def cell_reset_eq map_replicate_const)

theorem row_reset_shortcut_witness:
  "reset_row cell_default demo_row =
     Some \<lparr>row_inner = map (\<lambda>x. cell_reset x cell_default) (row_inner demo_row), occ = 0\<rparr>"
  by (rule row_reset_shortcut)
    (simp add: demo_row_def row_clean_def cell_reset_def cell_default_def cell_discriminant_def
      cell_of_color_def)

text \<open>
  \<^verbatim>\<open>Row::grow\<close> leaves \<^verbatim>\<open>occ\<close> alone although the appended default cells can differ in
  background from the rest of the row. A clean row of coloured blanks is no longer clean after growing,
  and a reset to the default background then keeps coloured cells.
\<close>

theorem row_grow_unclean:
  "clean_row (blank_row 2 (Indexed 7))
   \<and> \<not> clean_row (row_grow cell_default 3 (blank_row 2 (Indexed 7)))
   \<and> reset_row cell_default (row_grow cell_default 3 (blank_row 2 (Indexed 7)))
       = Some \<lparr>row_inner = [cell_of_color (Indexed 7), cell_of_color (Indexed 7), cell_default], occ = 0\<rparr>"
  by (simp add: clean_blank_row)
    (simp add: row_grow_def blank_row_def row_clean_def row_reset_def cell_reset_def cell_default_def
      cell_discriminant_def cell_of_color_def ensure_def numeral_2_eq_2 numeral_3_eq_3)

end
