(* ===== verification/Line_Buffer.thy ===== *)
theory Line_Buffer
  imports Prelude
begin

text \<open>
  The interface between the grid and its row storage: a buffer is a partial map from
  line numbers to rows, with an exchange of two lines and an update of one line.
  The loops of \<^verbatim>\<open>Grid::scroll_up\<close>, \<^verbatim>\<open>Grid::scroll_down\<close> and \<^verbatim>\<open>Grid::reset_region\<close>
  are verified here once, for every provider of that interface.
\<close>

text \<open>What a loop of swaps achieves: the lines \<open>a..<b\<close> receive the content of the lines \<open>d\<close>
  further on, nothing outside the touched range changes, and the lines left
  behind hold what the first lines of the range held.\<close>

definition shifted ::
  "int \<Rightarrow> int \<Rightarrow> int \<Rightarrow> (int \<Rightarrow> 'r option) \<Rightarrow> (int \<Rightarrow> 'r option) \<Rightarrow> bool" where
  "shifted a b p v w \<longleftrightarrow>
     (\<forall>l. a \<le> l \<and> l < b \<longrightarrow> w l = v (l + p)) \<and>
     (\<forall>l. l < a \<or> b + p \<le> l \<longrightarrow> w l = v l) \<and>
     (\<forall>l. b \<le> l \<and> l < b + p \<longrightarrow> w l \<in> v ` {a..<a + p})"

definition shifted_down ::
  "int \<Rightarrow> int \<Rightarrow> int \<Rightarrow> (int \<Rightarrow> 'r option) \<Rightarrow> (int \<Rightarrow> 'r option) \<Rightarrow> bool" where
  "shifted_down a b p v w \<longleftrightarrow>
     (\<forall>l. a \<le> l \<and> l < b \<longrightarrow> w l = v (l - p)) \<and>
     (\<forall>l. l < a - p \<or> b \<le> l \<longrightarrow> w l = v l) \<and>
     (\<forall>l. a - p \<le> l \<and> l < a \<longrightarrow> w l \<in> v ` {b - p..<b})"

lemma shifted_start: "0 \<le> p \<Longrightarrow> shifted a a p v v"
  by (auto simp: shifted_def)

lemma shifted_step:
  assumes "shifted a i p v w" "a \<le> i" "0 \<le> p"
  shows "shifted a (i + 1) p v (w(i := w (i + p), i + p := w i))"
proof (cases "p = 0")
  case True
  have w: "w l = v l" for l
    using assms True by (cases "a \<le> l \<and> l < i") (auto simp: shifted_def)
  then have "w = v" by auto
  then show ?thesis using True by (auto simp: shifted_def)
next
  case False
  have "w i \<in> v ` {a..<a + p}" and "w (i + p) = v (i + p)"
    using assms False by (auto simp: shifted_def)
  with assms False show ?thesis by (auto simp: shifted_def)
qed

lemma shifted_down_start: "0 \<le> p \<Longrightarrow> shifted_down b b p v v"
  by (auto simp: shifted_down_def)

lemma shifted_down_step:
  assumes "shifted_down (i + 1) b p v w" "i < b" "0 \<le> p"
  shows "shifted_down i b p v (w(i := w (i - p), i - p := w i))"
proof (cases "p = 0")
  case True
  have w: "w l = v l" for l
    using assms True by (cases "i + 1 \<le> l \<and> l < b") (auto simp: shifted_down_def)
  then have "w = v" by auto
  then show ?thesis using True by (auto simp: shifted_down_def)
next
  case False
  have "w i \<in> v ` {b - p..<b}" and "w (i - p) = v (i - p)"
    using assms False by (auto simp: shifted_down_def)
  with assms False show ?thesis by (auto simp: shifted_down_def)
qed

lemma dom_swap: "a \<in> dom v \<Longrightarrow> b \<in> dom v \<Longrightarrow> dom (v(a := v b, b := v a)) = dom v"
  by (auto split: if_splits)

locale line_buffer =
  fixes inv :: "'s \<Rightarrow> bool"
    and lines :: "'s \<Rightarrow> int \<Rightarrow> 'r option"
    and rows :: "'s \<Rightarrow> 'r set"
    and shape :: "'s \<Rightarrow> 'h"
    and swap :: "int \<Rightarrow> int \<Rightarrow> 's \<Rightarrow> 's option"
    and modify :: "int \<Rightarrow> ('r \<Rightarrow> 'r option) \<Rightarrow> 's \<Rightarrow> 's option"
  assumes swap_law:
    "inv s \<Longrightarrow> a \<in> dom (lines s) \<Longrightarrow> b \<in> dom (lines s) \<Longrightarrow>
       ok (swap a b s) (\<lambda>t. inv t \<and> shape t = shape s
         \<and> lines t = (lines s)(a := lines s b, b := lines s a) \<and> rows t = rows s)"
    and modify_law:
    "inv s \<Longrightarrow> lines s l = Some r \<Longrightarrow> f r = Some r' \<Longrightarrow>
       ok (modify l f s) (\<lambda>t. inv t \<and> shape t = shape s
         \<and> lines t = (lines s)(l \<mapsto> r') \<and> rows t \<subseteq> insert r' (rows s))"
    and lines_rows: "inv s \<Longrightarrow> lines s l = Some r \<Longrightarrow> r \<in> rows s"
begin

lemma swap_sym: "inv s \<Longrightarrow> a \<in> dom (lines s) \<Longrightarrow> b \<in> dom (lines s) \<Longrightarrow>
    ok (swap b a s) (\<lambda>t. inv t \<and> shape t = shape s
      \<and> lines t = (lines s)(a := lines s b, b := lines s a) \<and> rows t = rows s)"
  using swap_law [of s b a] by (cases "a = b") (auto simp: fun_upd_twist elim: ok_mono)

text \<open>\<^verbatim>\<open>for i in a..b { swap(i, i + p) }\<close>\<close>

lemma loop_swap_up:
  assumes "inv s" "{a..<b + p} \<subseteq> dom (lines s)" "a \<le> b" "0 \<le> p"
  shows "ok (for_each (irange a b) (\<lambda>i. swap i (i + p)) s)
    (\<lambda>t. inv t \<and> shape t = shape s \<and> rows t = rows s \<and> dom (lines t) = dom (lines s)
       \<and> shifted a b p (lines s) (lines t))"
proof -
  let ?I = "\<lambda>ys t. inv t \<and> shape t = shape s \<and> rows t = rows s \<and> dom (lines t) = dom (lines s)
    \<and> shifted a (a + int (length ys)) p (lines s) (lines t)"
  have "ok (for_each (irange a b) (\<lambda>i. swap i (i + p)) s) (?I (irange a b))"
  proof (rule ok_for_each)
    show "?I [] s" using assms shifted_start by simp
  next
    fix ys x zs t assume eq: "irange a b = ys @ x # zs" and I: "?I ys t"
    from upto_split_member [OF eq] have x: "a \<le> x" "x < b" "a + int (length ys) = x" by auto
    have "x \<in> {a..<b + p}" "x + p \<in> {a..<b + p}" using x assms(4) by auto
    with assms(2) I have d: "x \<in> dom (lines t)" "x + p \<in> dom (lines t)" by (simp_all only: subset_iff)
    show "ok (swap x (x + p) t) (?I (ys @ [x]))"
    proof (rule ok_mono [OF swap_law])
      fix u assume u: "inv u \<and> shape u = shape t
        \<and> lines u = (lines t)(x := lines t (x + p), x + p := lines t x) \<and> rows u = rows t"
      have "shifted a (x + 1) p (lines s) (lines u)"
        using shifted_step [of a x p "lines s" "lines t"] I x u assms(4) by simp
      moreover have "dom (lines u) = dom (lines s)" using dom_swap [OF d] u I by simp
      moreover have "a + int (length (ys @ [x])) = x + 1" using x by simp
      ultimately show "?I (ys @ [x]) u" using u I by metis
    qed (use I d in auto)
  qed
  then show ?thesis using assms(3) by (simp add: algebra_simps)
qed

text \<open>\<^verbatim>\<open>for i in (a..b).rev() { swap(i, i - p) }\<close>\<close>

lemma loop_swap_down:
  assumes "inv s" "{a - p..<b} \<subseteq> dom (lines s)" "a \<le> b" "0 \<le> p"
  shows "ok (for_each (rev (irange a b)) (\<lambda>i. swap i (i - p)) s)
    (\<lambda>t. inv t \<and> shape t = shape s \<and> rows t = rows s \<and> dom (lines t) = dom (lines s)
       \<and> shifted_down a b p (lines s) (lines t))"
proof -
  let ?I = "\<lambda>ys t. inv t \<and> shape t = shape s \<and> rows t = rows s \<and> dom (lines t) = dom (lines s)
    \<and> shifted_down (b - int (length ys)) b p (lines s) (lines t)"
  have "ok (for_each (rev (irange a b)) (\<lambda>i. swap i (i - p)) s) (?I (rev (irange a b)))"
  proof (rule ok_for_each)
    show "?I [] s" using assms shifted_down_start by simp
  next
    fix ys x zs t assume eq: "rev (irange a b) = ys @ x # zs" and I: "?I ys t"
    from rev_upto_split_member [OF eq] have x: "a \<le> x" "x < b" "b - int (length ys) = x + 1" by auto
    have "x \<in> {a - p..<b}" "x - p \<in> {a - p..<b}" using x assms(4) by auto
    with assms(2) I have d: "x \<in> dom (lines t)" "x - p \<in> dom (lines t)" by (simp_all only: subset_iff)
    show "ok (swap x (x - p) t) (?I (ys @ [x]))"
    proof (rule ok_mono [OF swap_law])
      fix u assume u: "inv u \<and> shape u = shape t
        \<and> lines u = (lines t)(x := lines t (x - p), x - p := lines t x) \<and> rows u = rows t"
      have "shifted_down x b p (lines s) (lines u)"
        using shifted_down_step [of x b p "lines s" "lines t"] I x u assms(4) by simp
      moreover have "dom (lines u) = dom (lines s)" using dom_swap [OF d] u I by simp
      moreover have "b - int (length (ys @ [x])) = x" using x by simp
      ultimately show "?I (ys @ [x]) u" using u I by metis
    qed (use I d in auto)
  qed
  then show ?thesis using assms(3) by (simp add: algebra_simps)
qed

text \<open>\<^verbatim>\<open>for i in a..b { swap(i, i - p) }\<close>, which moves the lines up.\<close>

lemma loop_swap_back:
  assumes "inv s" "{a - p..<b} \<subseteq> dom (lines s)" "a \<le> b" "0 \<le> p"
  shows "ok (for_each (irange a b) (\<lambda>i. swap i (i - p)) s)
    (\<lambda>t. inv t \<and> shape t = shape s \<and> rows t = rows s \<and> dom (lines t) = dom (lines s)
       \<and> shifted (a - p) (b - p) p (lines s) (lines t))"
proof -
  let ?I = "\<lambda>ys t. inv t \<and> shape t = shape s \<and> rows t = rows s \<and> dom (lines t) = dom (lines s)
    \<and> shifted (a - p) (a - p + int (length ys)) p (lines s) (lines t)"
  have "ok (for_each (irange a b) (\<lambda>i. swap i (i - p)) s) (?I (irange a b))"
  proof (rule ok_for_each)
    show "?I [] s" using assms shifted_start by simp
  next
    fix ys x zs t assume eq: "irange a b = ys @ x # zs" and I: "?I ys t"
    from upto_split_member [OF eq] have x: "a \<le> x" "x < b" "a + int (length ys) = x" by auto
    then have j: "a - p + int (length ys) = x - p" by simp
    have "x - p \<in> {a - p..<b}" "x - p + p \<in> {a - p..<b}" using x assms(4) by auto
    with assms(2) I have d: "x - p \<in> dom (lines t)" "x - p + p \<in> dom (lines t)" by (simp_all only: subset_iff)
    show "ok (swap x (x - p) t) (?I (ys @ [x]))"
    proof (rule ok_mono [OF swap_sym [of t "x - p" x]])
      fix u assume u: "inv u \<and> shape u = shape t
        \<and> lines u = (lines t)(x - p := lines t x, x := lines t (x - p)) \<and> rows u = rows t"
      have "shifted (a - p) (x - p + 1) p (lines s) (lines u)"
        using shifted_step [of "a - p" "x - p" p "lines s" "lines t"] I x j u assms(4) by simp
      moreover have "dom (lines u) = dom (lines s)" using dom_swap [OF d] u I by simp
      moreover have "a - p + int (length (ys @ [x])) = x - p + 1" using x by simp
      ultimately show "?I (ys @ [x]) u" using u I by metis
    qed (use I d in auto)
  qed
  then show ?thesis using assms(3) by (simp add: algebra_simps)
qed

text \<open>A loop that replaces the lines of \<open>xs\<close> through \<open>f\<close>.\<close>

lemma loop_modify:
  assumes "inv s" "set xs \<subseteq> dom (lines s)" "distinct xs"
    and "\<forall>r \<in> rows s. P r" and f: "\<And>r. P r \<Longrightarrow> f r = Some (g r) \<and> P (g r)"
  shows "ok (for_each xs (\<lambda>i. modify i f) s)
    (\<lambda>t. inv t \<and> shape t = shape s \<and> (\<forall>r \<in> rows t. P r)
       \<and> lines t = (\<lambda>l. if l \<in> set xs then map_option g (lines s l) else lines s l))"
proof (rule ok_for_each [where I = "\<lambda>ys t. inv t \<and> shape t = shape s \<and> (\<forall>r \<in> rows t. P r)
       \<and> lines t = (\<lambda>l. if l \<in> set ys then map_option g (lines s l) else lines s l)"])
  show "inv s \<and> shape s = shape s \<and> (\<forall>r \<in> rows s. P r)
    \<and> lines s = (\<lambda>l. if l \<in> set [] then map_option g (lines s l) else lines s l)"
    using assms by simp
next
  fix ys x zs t
  assume eq: "xs = ys @ x # zs" and I: "inv t \<and> shape t = shape s \<and> (\<forall>r \<in> rows t. P r)
    \<and> lines t = (\<lambda>l. if l \<in> set ys then map_option g (lines s l) else lines s l)"
  have x: "x \<notin> set ys" "x \<in> dom (lines s)" using eq assms(2,3) by auto
  then obtain r where r: "lines s x = Some r" "lines t x = Some r" using I by auto
  then have "P r" using I lines_rows [of t x r] by auto
  with f have fr: "f r = Some (g r)" "P (g r)" by auto
  show "ok (modify x f t) (\<lambda>u. inv u \<and> shape u = shape s \<and> (\<forall>r \<in> rows u. P r)
    \<and> lines u = (\<lambda>l. if l \<in> set (ys @ [x]) then map_option g (lines s l) else lines s l))"
    using I r fr x by (intro ok_mono [OF modify_law [of t x r f "g r"]]) (auto simp: fun_eq_iff)
qed

end

end
