(* ===== verification/Storage.thy ===== *)
theory Storage
  imports Line_Buffer
begin

text \<open>
  The ring buffer of rows (\<^verbatim>\<open>alacritty_terminal/src/grid/storage.rs\<close>). The row type is a
  parameter, \<open>mk n\<close> is \<^verbatim>\<open>Row::new(n)\<close> and \<open>width_of r\<close> is \<^verbatim>\<open>Row::len\<close>.

  The abstraction of a buffer is \<open>ring\<close>, its rows in logical order (bottommost line
  first, the cached rows beyond \<open>st_len\<close> last), and \<open>lines_of\<close>, the partial map from
  line numbers to rows a client indexes. Every operation is refined to an
  operation on them. The locale \<open>line_buffer\<close> is the interface the grid's
  scrolling loops rely on.
\<close>

record 'r storage =
  st_inner :: "'r list"
  zero :: nat
  visible_lines :: nat
  st_len :: nat

definition MAX_CACHE_SIZE :: nat where
  "MAX_CACHE_SIZE = 1000"

section \<open>Operations\<close>

definition resize_with :: "nat \<Rightarrow> 'r option \<Rightarrow> 'r list \<Rightarrow> 'r list option" where
  \<comment> \<open>\<^verbatim>\<open>Vec::resize_with\<close>\<close>
  "resize_with n mk xs =
     (if n \<le> length xs then Some (take n xs)
      else do { r \<leftarrow> mk; Some (xs @ replicate (n - length xs) r) })"

definition storage_with_capacity ::
  "(nat \<Rightarrow> 'r option) \<Rightarrow> nat \<Rightarrow> nat \<Rightarrow> 'r storage option" where
  "storage_with_capacity mk vis cols = do {
     inner \<leftarrow> resize_with vis (mk cols) [];
     Some \<lparr>st_inner = inner, zero = 0, visible_lines = vis, st_len = vis\<rparr>
   }"

definition rezero :: "'r storage \<Rightarrow> 'r storage option" where
  "rezero s =
     (if zero s = 0 then Some s
      else do {
        ensure (zero s \<le> length (st_inner s));
        Some (s\<lparr>st_inner := rotate (zero s) (st_inner s), zero := 0\<rparr>)
      })"

definition storage_truncate :: "'r storage \<Rightarrow> 'r storage option" where
  "storage_truncate s = do {
     s \<leftarrow> rezero s;
     Some (s\<lparr>st_inner := take (st_len s) (st_inner s)\<rparr>)
   }"

definition storage_shrink_lines :: "nat \<Rightarrow> 'r storage \<Rightarrow> 'r storage option" where
  "storage_shrink_lines shrinkage s = do {
     n \<leftarrow> csub (st_len s) shrinkage;
     let s = s\<lparr>st_len := n\<rparr>;
     if length (st_inner s) > st_len s + MAX_CACHE_SIZE then storage_truncate s else Some s
   }"

definition shrink_visible_lines :: "nat \<Rightarrow> 'r storage \<Rightarrow> 'r storage option" where
  "shrink_visible_lines next s = do {
     shrinkage \<leftarrow> csub (visible_lines s) next;
     s \<leftarrow> storage_shrink_lines shrinkage s;
     Some (s\<lparr>visible_lines := next\<rparr>)
   }"

definition initialize :: "(nat \<Rightarrow> 'r option) \<Rightarrow> nat \<Rightarrow> nat \<Rightarrow> 'r storage \<Rightarrow> 'r storage option" where
  "initialize mk additional_rows cols s = do {
     s \<leftarrow> (if st_len s + additional_rows > length (st_inner s) then do {
             s \<leftarrow> rezero s;
             let realloc_size = length (st_inner s) + max additional_rows MAX_CACHE_SIZE;
             inner \<leftarrow> resize_with realloc_size (mk cols) (st_inner s);
             Some (s\<lparr>st_inner := inner\<rparr>)
           } else Some s);
     Some (s\<lparr>st_len := st_len s + additional_rows\<rparr>)
   }"

definition compute_index :: "'r storage \<Rightarrow> int \<Rightarrow> nat option" where
  "compute_index s requested = do {
     ensure (requested < int (visible_lines s));
     positive \<leftarrow> csub (usize_of_i32 (- (requested - int (visible_lines s)))) 1;
     ensure (positive < st_len s);
     let zeroed = zero s + positive;
     if zeroed \<ge> length (st_inner s) then csub zeroed (length (st_inner s)) else Some zeroed
   }"

definition storage_index :: "int \<Rightarrow> 'r storage \<Rightarrow> 'r option" where
  "storage_index l s = do {
     i \<leftarrow> compute_index s l;
     vec_get (st_inner s) i
   }"

definition storage_index_mut ::
  "int \<Rightarrow> ('r \<Rightarrow> 'r option) \<Rightarrow> 'r storage \<Rightarrow> 'r storage option" where
  \<comment> \<open>an update through \<^verbatim>\<open>&mut storage[line]\<close>\<close>
  "storage_index_mut l f s = do {
     i \<leftarrow> compute_index s l;
     r \<leftarrow> vec_get (st_inner s) i;
     r' \<leftarrow> f r;
     Some (s\<lparr>st_inner := (st_inner s)[i := r']\<rparr>)
   }"

definition storage_swap :: "int \<Rightarrow> int \<Rightarrow> 'r storage \<Rightarrow> 'r storage option" where
  \<comment> \<open>an index outside the allocation would be undefined behaviour in the unsafe block\<close>
  "storage_swap a b s = do {
     i \<leftarrow> compute_index s a;
     j \<leftarrow> compute_index s b;
     inner \<leftarrow> vec_swap (st_inner s) i j;
     Some (s\<lparr>st_inner := inner\<rparr>)
   }"

definition storage_rotate :: "int \<Rightarrow> 'r storage \<Rightarrow> 'r storage option" where
  "storage_rotate count s = do {
     ensure (nat \<bar>count\<bar> \<le> length (st_inner s));
     let n = length (st_inner s);
     ensure (n \<noteq> 0);
     Some (s\<lparr>zero := nat (int (zero s) + count + int n) mod n\<rparr>)
   }"

definition rotate_down :: "nat \<Rightarrow> 'r storage \<Rightarrow> 'r storage option" where
  "rotate_down count s = do {
     ensure (length (st_inner s) \<noteq> 0);
     Some (s\<lparr>zero := (zero s + count) mod length (st_inner s)\<rparr>)
   }"

definition replace_inner :: "'r list \<Rightarrow> 'r storage \<Rightarrow> 'r storage" where
  "replace_inner vec s = s\<lparr>st_len := length vec, st_inner := vec, zero := 0\<rparr>"

definition take_all :: "'r storage \<Rightarrow> ('r list \<times> 'r storage) option" where
  "take_all s = do {
     s \<leftarrow> storage_truncate s;
     Some (st_inner s, s\<lparr>st_inner := [], st_len := 0\<rparr>)
   }"

definition grow_visible_lines ::
  "(nat \<Rightarrow> 'r option) \<Rightarrow> ('r \<Rightarrow> nat) \<Rightarrow> nat \<Rightarrow> 'r storage \<Rightarrow> 'r storage option" where
  "grow_visible_lines mk width_of next s = do {
     additional_lines \<leftarrow> csub next (visible_lines s);
     r \<leftarrow> storage_index 0 s;
     s \<leftarrow> initialize mk additional_lines (width_of r) s;
     Some (s\<lparr>visible_lines := next\<rparr>)
   }"

section \<open>Abstraction\<close>

definition ring :: "'r storage \<Rightarrow> 'r list" where
  "ring s = rotate (zero s) (st_inner s)"

definition storage_ok :: "'r storage \<Rightarrow> bool" where
  "storage_ok s \<longleftrightarrow>
     0 < visible_lines s \<and> visible_lines s \<le> st_len s \<and> st_len s \<le> length (st_inner s)
     \<and> zero s < length (st_inner s)"

definition first_line :: "'r storage \<Rightarrow> int" where
  "first_line s = int (visible_lines s) - int (st_len s)"

definition lines_of :: "'r storage \<Rightarrow> int \<Rightarrow> 'r option" where
  "lines_of s l =
     (if first_line s \<le> l \<and> l < int (visible_lines s)
      then Some (ring s ! nat (int (visible_lines s) - 1 - l)) else None)"

definition storage_shape :: "'r storage \<Rightarrow> nat \<times> nat" where
  "storage_shape s = (visible_lines s, st_len s)"

abbreviation pool :: "'r storage \<Rightarrow> 'r set" where
  "pool s \<equiv> set (st_inner s)"

section \<open>Lemmas on the abstraction\<close>

lemma length_ring [simp]: "length (ring s) = length (st_inner s)"
  by (simp add: ring_def)

lemma set_ring [simp]: "set (ring s) = pool s"
  by (simp add: ring_def)

lemma storage_okD:
  assumes "storage_ok s"
  shows "0 < visible_lines s" "visible_lines s \<le> st_len s" "st_len s \<le> length (st_inner s)"
    "zero s < length (st_inner s)" "st_inner s \<noteq> []"
  using assms by (auto simp: storage_ok_def)

lemma lines_of_Some_iff: "lines_of s l \<noteq> None \<longleftrightarrow> first_line s \<le> l \<and> l < int (visible_lines s)"
  by (simp add: lines_of_def)

lemma dom_lines_of: "dom (lines_of s) = {first_line s..<int (visible_lines s)}"
  by (auto simp: lines_of_def split: if_splits)

lemma lines_of_pool: "storage_ok s \<Longrightarrow> lines_of s l = Some r \<Longrightarrow> r \<in> pool s"
  by (auto simp: lines_of_def first_line_def storage_ok_def split: if_splits
      simp flip: set_ring intro!: nth_mem)

text \<open>The physical index of a line.\<close>

lemma compute_index_ok:
  assumes "storage_ok s" "l \<in> dom (lines_of s)"
  shows "compute_index s l =
    Some ((zero s + nat (int (visible_lines s) - 1 - l)) mod length (st_inner s))"
proof -
  let ?k = "nat (int (visible_lines s) - 1 - l)" and ?n = "length (st_inner s)"
  have l: "first_line s \<le> l" "l < int (visible_lines s)" using assms(2) by (auto simp: dom_lines_of)
  then have k: "?k < st_len s" using assms(1) by (auto simp: first_line_def storage_ok_def)
  have pos: "nat (int (visible_lines s) - l) - 1 = ?k" "1 \<le> nat (int (visible_lines s) - l)"
    using l by auto
  have "?k < ?n" "zero s < ?n" using k assms(1) by (auto simp: storage_ok_def)
  then have "zero s + ?k < 2 * ?n" by simp
  then have "(zero s + ?k) mod ?n = (if zero s + ?k \<ge> ?n then zero s + ?k - ?n else zero s + ?k)"
    by (simp add: mod_if)
  then show ?thesis using l k pos
    by (simp add: compute_index_def csub_def ensure_def Let_def usize_of_i32_def)
qed

lemma ring_nth: "k < length (st_inner s) \<Longrightarrow> ring s ! k = st_inner s ! ((zero s + k) mod length (st_inner s))"
  by (simp add: ring_def nth_rotate)

lemma line_position_bound:
  "storage_ok s \<Longrightarrow> l \<in> dom (lines_of s) \<Longrightarrow> nat (int (visible_lines s) - 1 - l) < length (st_inner s)"
  by (auto simp: dom_lines_of first_line_def storage_ok_def)

lemma mod_add_cancel:
  fixes z i k n :: nat
  assumes "k < n" "i < n"
  shows "(z + k) mod n = (z + i) mod n \<longleftrightarrow> k = i"
proof -
  have "k = i" if "(z + i) mod n = (z + k) mod n" "k \<le> i" "i < n" for k i
  proof -
    have "n dvd (z + i) - (z + k)" using that(1,2) by (subst mod_eq_dvd_iff_nat [symmetric]) auto
    then have "n dvd i - k" by simp
    then show ?thesis using that(2,3) by (metis diff_is_0_eq' dvd_imp_le le_antisym less_imp_diff_less
          linorder_not_less nat_dvd_not_less neq0_conv zero_less_diff)
  qed
  from this [of i k] this [of k i] assms show ?thesis by (metis linear)
qed

lemma rotate_update:
  assumes "k < length xs"
  shows "rotate z (xs[(z + k) mod length xs := v]) = (rotate z xs)[k := v]"
proof (rule nth_equalityI)
  fix i assume "i < length (rotate z (xs[(z + k) mod length xs := v]))"
  then have i: "i < length xs" by simp
  then have "(z + i) mod length xs < length xs" by (intro mod_less_divisor) linarith
  then show "rotate z (xs[(z + k) mod length xs := v]) ! i = (rotate z xs)[k := v] ! i"
    using i mod_add_cancel [OF assms i, of z] assms by (auto simp: nth_rotate nth_list_update)
qed simp

section \<open>Refinement of the operations\<close>

lemma physical_bound: "storage_ok s \<Longrightarrow> x mod length (st_inner s) < length (st_inner s)"
  using storage_okD(5) by (metis length_greater_0_conv mod_less_divisor)

lemma storage_index_eq: "storage_ok s \<Longrightarrow> l \<in> dom (lines_of s) \<Longrightarrow> storage_index l s = lines_of s l"
  using line_position_bound [of s l] physical_bound [of s]
  by (auto simp: storage_index_def compute_index_ok vec_get_def ring_nth lines_of_def dom_lines_of
      split: if_splits)

lemma storage_index_None: "l \<ge> int (visible_lines s) \<or> l < first_line s \<Longrightarrow> storage_index l s = None"
  by (auto simp: storage_index_def compute_index_def ensure_def csub_def first_line_def
      usize_of_i32_def Let_def)

lemma ring_write:
  assumes "storage_ok s" "k < length (st_inner s)"
  shows "ring (s\<lparr>st_inner := (st_inner s)[(zero s + k) mod length (st_inner s) := v]\<rparr>) = (ring s)[k := v]"
  using assms rotate_update by (simp add: ring_def)

lemma line_position_inj:
  "l \<in> dom (lines_of s) \<Longrightarrow> m \<in> dom (lines_of s) \<Longrightarrow>
     nat (int (visible_lines s) - 1 - l) = nat (int (visible_lines s) - 1 - m) \<longleftrightarrow> l = m"
  by (auto simp: dom_lines_of)

lemma lines_of_write:
  fixes v :: 'r
  assumes "storage_ok s" "l \<in> dom (lines_of s)"
  defines "t \<equiv> s\<lparr>st_inner :=
    (st_inner s)[(zero s + nat (int (visible_lines s) - 1 - l)) mod length (st_inner s) := v]\<rparr>"
  shows "lines_of t = (lines_of s)(l \<mapsto> v)"
proof
  fix m
  let ?pos = "\<lambda>l. nat (int (visible_lines s) - 1 - l)"
  have r: "ring t = (ring s)[?pos l := v]"
    unfolding t_def by (rule ring_write [OF assms(1) line_position_bound [OF assms(1,2)]])
  have d: "dom (lines_of t) = dom (lines_of s)"
    by (simp add: dom_lines_of t_def first_line_def)
  show "lines_of t m = ((lines_of s)(l \<mapsto> v)) m"
  proof (cases "m \<in> dom (lines_of s)")
    case True
    then have "lines_of t m = Some ((ring s)[?pos l := v] ! ?pos m)"
      using d r by (auto simp: lines_of_def first_line_def t_def dom_lines_of)
    then show ?thesis
      using True line_position_inj [OF assms(2) True] line_position_bound [OF assms(1,2)]
      by (auto simp: nth_list_update lines_of_def dom_lines_of)
  next
    case False
    then show ?thesis using d assms(2) by (metis domIff fun_upd_apply)
  qed
qed

lemma storage_write_frame:
  "storage_ok (s\<lparr>st_inner := (st_inner s)[i := v]\<rparr>) = storage_ok s"
  "storage_shape (s\<lparr>st_inner := (st_inner s)[i := v]\<rparr>) = storage_shape s"
  by (simp_all add: storage_ok_def storage_shape_def)

lemma storage_index_mut_ok:
  assumes "storage_ok s" "lines_of s l = Some r" "f r = Some r'"
  shows "ok (storage_index_mut l f s) (\<lambda>t. storage_ok t \<and> storage_shape t = storage_shape s
    \<and> lines_of t = (lines_of s)(l \<mapsto> r') \<and> pool t \<subseteq> insert r' (pool s))"
proof -
  let ?i = "(zero s + nat (int (visible_lines s) - 1 - l)) mod length (st_inner s)"
  have l: "l \<in> dom (lines_of s)" using assms(2) by auto
  have "lines_of s l = vec_get (st_inner s) ?i"
    using storage_index_eq [OF assms(1) l] by (simp add: storage_index_def compute_index_ok assms(1) l)
  then have "vec_get (st_inner s) ?i = Some r" using assms(2) by simp
  then have "storage_index_mut l f s = Some (s\<lparr>st_inner := (st_inner s)[?i := r']\<rparr>)"
    using assms(3) by (simp add: storage_index_mut_def compute_index_ok [OF assms(1) l])
  then show ?thesis
    using lines_of_write [OF assms(1) l] assms(1)
    by (simp add: storage_write_frame set_update_subset_insert)
qed

lemma storage_swap_ok:
  assumes "storage_ok s" "a \<in> dom (lines_of s)" "b \<in> dom (lines_of s)"
  shows "ok (storage_swap a b s) (\<lambda>t. storage_ok t \<and> storage_shape t = storage_shape s
    \<and> lines_of t = (lines_of s)(a := lines_of s b, b := lines_of s a) \<and> pool t = pool s)"
proof -
  let ?n = "length (st_inner s)"
  let ?ph = "\<lambda>l. (zero s + nat (int (visible_lines s) - 1 - l)) mod ?n"
  have val: "lines_of s l = Some (st_inner s ! ?ph l)" if "l \<in> dom (lines_of s)" for l
    using storage_index_eq [OF assms(1) that] physical_bound [OF assms(1)]
    by (simp add: storage_index_def compute_index_ok [OF assms(1) that] vec_get_def)
  define u where "u = s\<lparr>st_inner := (st_inner s)[?ph a := st_inner s ! ?ph b]\<rparr>"
  have u: "storage_ok u" "lines_of u = (lines_of s)(a \<mapsto> st_inner s ! ?ph b)"
    "b \<in> dom (lines_of u)" "zero u = zero s" "visible_lines u = visible_lines s"
    "length (st_inner u) = ?n"
    using assms lines_of_write [OF assms(1,2)] by (auto simp: u_def storage_write_frame)
  have t: "storage_swap a b s = Some (u\<lparr>st_inner := (st_inner u)[?ph b := st_inner s ! ?ph a]\<rparr>)"
    using physical_bound [OF assms(1)]
    by (simp add: storage_swap_def compute_index_ok [OF assms(1)] assms(2,3) vec_swap_def u_def)
  have "lines_of (u\<lparr>st_inner := (st_inner u)[?ph b := st_inner s ! ?ph a]\<rparr>) =
      (lines_of s)(a := lines_of s b, b := lines_of s a)"
    using lines_of_write [OF u(1,3), of "st_inner s ! ?ph a"] u val [OF assms(2)] val [OF assms(3)]
    by simp
  moreover have "set ((st_inner s)[?ph a := st_inner s ! ?ph b, ?ph b := st_inner s ! ?ph a]) = pool s"
    using physical_bound [OF assms(1)] by (intro set_list_swap)
  ultimately show ?thesis using u(1) assms(1) t
    by (simp add: storage_write_frame) (simp add: u_def storage_shape_def)
qed

lemma rezero_ok:
  assumes "storage_ok s"
  shows "ok (rezero s) (\<lambda>t. storage_ok t \<and> storage_shape t = storage_shape s \<and> ring t = ring s
    \<and> zero t = 0 \<and> st_inner t = ring s)"
  using assms by (auto simp: rezero_def storage_ok_def storage_shape_def ring_def)

lemma lines_of_ring_cong:
  "storage_shape t = storage_shape s \<Longrightarrow> ring t = ring s \<Longrightarrow> lines_of t = lines_of s"
  by (simp add: fun_eq_iff lines_of_def storage_shape_def first_line_def)

lemma storage_truncate_ok:
  assumes "storage_ok s"
  shows "ok (storage_truncate s) (\<lambda>t. storage_ok t \<and> storage_shape t = storage_shape s
    \<and> lines_of t = lines_of s \<and> pool t \<subseteq> pool s \<and> zero t = 0 \<and> st_inner t = take (st_len s) (ring s))"
proof -
  from rezero_ok [OF assms] obtain u where u: "rezero s = Some u" "storage_ok u"
    "storage_shape u = storage_shape s" "ring u = ring s" "zero u = 0" "st_inner u = ring s"
    by (auto elim: okE)
  let ?t = "u\<lparr>st_inner := take (st_len u) (st_inner u)\<rparr>"
  have len: "st_len u = st_len s" "visible_lines u = visible_lines s"
    using u(3) by (auto simp: storage_shape_def)
  have "lines_of ?t = lines_of s"
    using u assms len
    by (auto simp: fun_eq_iff lines_of_def first_line_def ring_def storage_ok_def)
  moreover have "storage_ok ?t" using u(2,5) by (auto simp: storage_ok_def)
  moreover have "set (take (st_len u) (ring s)) \<subseteq> pool s" using set_take_subset set_ring by metis
  ultimately show ?thesis using u len by (simp add: storage_truncate_def storage_shape_def)
qed

lemma shrink_len_lines:
  assumes "storage_ok s" "n \<le> st_len s" "visible_lines s \<le> n"
  shows "lines_of (s\<lparr>st_len := n\<rparr>) = lines_of s |` {int (visible_lines s) - int n..}"
  using assms
  by (auto simp: fun_eq_iff lines_of_def first_line_def restrict_map_def ring_def)

lemma storage_shrink_lines_ok:
  assumes "storage_ok s" "k \<le> st_len s - visible_lines s"
  shows "ok (storage_shrink_lines k s) (\<lambda>t. storage_ok t
    \<and> storage_shape t = (visible_lines s, st_len s - k)
    \<and> lines_of t = lines_of s |` {first_line s + int k..} \<and> pool t \<subseteq> pool s)"
proof -
  let ?u = "s\<lparr>st_len := st_len s - k\<rparr>"
  have u: "storage_ok ?u" using assms by (auto simp: storage_ok_def)
  have l: "lines_of ?u = lines_of s |` {first_line s + int k..}"
    using shrink_len_lines [of s "st_len s - k"] storage_okD(2) [OF assms(1)] assms
    by (simp add: first_line_def of_nat_diff algebra_simps)
  show ?thesis using storage_truncate_ok [OF u] u l assms
    by (auto simp: storage_shrink_lines_def storage_ok_def Let_def storage_shape_def elim!: ok_mono)
qed

text \<open>
  New lines appear at the top of the buffer; their content is that of a cached row
  or of a fresh one.
\<close>

lemma initialize_ok:
  assumes "storage_ok s" "mk cols = Some r"
  shows "ok (initialize mk k cols s) (\<lambda>t. storage_ok t
    \<and> storage_shape t = (visible_lines s, st_len s + k)
    \<and> (\<forall>l. first_line s \<le> l \<longrightarrow> lines_of t l = lines_of s l) \<and> pool t \<subseteq> insert r (pool s)
    \<and> length (st_inner s) \<le> length (st_inner t))"
proof (cases "st_len s + k > length (st_inner s)")
  case False
  then show ?thesis using assms
    by (auto simp: initialize_def storage_ok_def storage_shape_def lines_of_def first_line_def ring_def)
next
  case True
  from rezero_ok [OF assms(1)] obtain u where u: "rezero s = Some u" "storage_ok u"
    "storage_shape u = storage_shape s" "ring u = ring s" "zero u = 0" "st_inner u = ring s"
    by (auto elim: okE)
  let ?m = "max k MAX_CACHE_SIZE"
  have m: "0 < ?m" by (simp add: MAX_CACHE_SIZE_def max_def)
  let ?t = "u\<lparr>st_inner := ring s @ replicate ?m r, st_len := st_len u + k\<rparr>"
  have eq: "initialize mk k cols s = Some ?t"
    using True u assms(2) m by (simp add: initialize_def resize_with_def Let_def)
  have len: "st_len u = st_len s" "visible_lines u = visible_lines s"
    using u(3) by (auto simp: storage_shape_def)
  have "storage_ok ?t" using assms(1) u len by (auto simp: storage_ok_def)
  moreover have "lines_of ?t l = lines_of s l" if "first_line s \<le> l" for l
    using that assms(1) u len
    by (auto simp: lines_of_def first_line_def ring_def storage_ok_def nth_append)
  moreover have "set (ring s @ replicate ?m r) \<subseteq> insert r (pool s)" by auto
  ultimately show ?thesis using eq u len by (simp add: storage_shape_def)
qed

text \<open>Rotation up by \<open>p\<close>: every line that still exists moves up by \<open>p\<close>.\<close>

lemma storage_rotate_up_ok:
  assumes "storage_ok s" "p \<le> length (st_inner s)"
  shows "ok (storage_rotate (- int p) s) (\<lambda>t. storage_ok t \<and> storage_shape t = storage_shape s
    \<and> (\<forall>l. first_line s \<le> l \<and> l + int p < int (visible_lines s) \<longrightarrow> lines_of t l = lines_of s (l + int p))
    \<and> st_inner t = st_inner s)"
proof -
  let ?n = "length (st_inner s)"
  note ok = storage_okD [OF assms(1)]
  let ?t = "s\<lparr>zero := nat (int (zero s) + (- int p) + int ?n) mod ?n\<rparr>"
  have z: "nat (int (zero s) + (- int p) + int ?n) = zero s + (?n - p)" using assms(2) by simp
  have eq: "storage_rotate (- int p) s = Some ?t"
    using assms(2) ok(5) by (simp add: storage_rotate_def ensure_def Let_def)
  have r: "ring ?t = rotate (?n - p) (ring s)"
    unfolding z ring_def by (simp add: rotate_rotate rotate_conv_mod [symmetric] add.commute)
  have okt: "storage_ok ?t" using assms(1) ok(5) by (auto simp: storage_ok_def)
  have "lines_of ?t l = lines_of s (l + int p)"
    if l: "first_line s \<le> l" "l + int p < int (visible_lines s)" for l
  proof -
    let ?k = "nat (int (visible_lines s) - 1 - l)"
    have k: "?k < ?n" "p \<le> ?k" using l ok by (auto simp: first_line_def)
    have "rotate (?n - p) (ring s) ! ?k = ring s ! ((?n - p + ?k) mod ?n)"
      using k by (simp add: nth_rotate)
    also have "(?n - p + ?k) mod ?n = ?k - p"
    proof -
      have "?n - p + ?k = ?n + (?k - p)" using k assms(2) by simp
      then show ?thesis using k by (metis mod_add_self1 mod_less less_imp_diff_less)
    qed
    also have "?k - p = nat (int (visible_lines s) - 1 - (l + int p))" by simp
    finally show ?thesis using l r by (simp add: lines_of_def first_line_def)
  qed
  then show ?thesis using eq okt by (simp add: storage_shape_def)
qed

text \<open>Rotation down by \<open>p\<close>: every line that stays visible moves down by \<open>p\<close>.\<close>

lemma rotate_down_lines:
  assumes "storage_ok s" "z = (zero s + p) mod length (st_inner s)"
    and "first_line s \<le> l - int p" "l < int (visible_lines s)"
  shows "lines_of (s\<lparr>zero := z\<rparr>) l = lines_of s (l - int p)"
proof -
  let ?n = "length (st_inner s)" and ?k = "nat (int (visible_lines s) - 1 - l)"
  note ok = storage_okD [OF assms(1)]
  have r: "ring (s\<lparr>zero := z\<rparr>) = rotate p (ring s)"
    unfolding assms(2) ring_def by (simp add: rotate_rotate rotate_conv_mod [symmetric] add.commute)
  have k: "?k + p < ?n" using assms(3,4) ok by (auto simp: first_line_def)
  then have "rotate p (ring s) ! ?k = ring s ! (?k + p)"
    by (simp add: nth_rotate add.commute)
  moreover have "?k + p = nat (int (visible_lines s) - 1 - (l - int p))" using assms(4) by simp
  ultimately show ?thesis using assms(3,4) r by (simp add: lines_of_def first_line_def)
qed

lemma rotate_down_ok:
  assumes "storage_ok s"
  shows "ok (rotate_down p s) (\<lambda>t. storage_ok t \<and> storage_shape t = storage_shape s
    \<and> (\<forall>l. first_line s \<le> l - int p \<and> l < int (visible_lines s) \<longrightarrow> lines_of t l = lines_of s (l - int p))
    \<and> st_inner t = st_inner s)"
  using assms storage_okD(5) [OF assms] rotate_down_lines [OF assms refl]
  by (auto simp: rotate_down_def storage_shape_def storage_ok_def)

lemma storage_rotate_down_ok:
  assumes "storage_ok s" "p \<le> length (st_inner s)"
  shows "ok (storage_rotate (int p) s) (\<lambda>t. storage_ok t \<and> storage_shape t = storage_shape s
    \<and> (\<forall>l. first_line s \<le> l - int p \<and> l < int (visible_lines s) \<longrightarrow> lines_of t l = lines_of s (l - int p))
    \<and> st_inner t = st_inner s)"
proof -
  let ?n = "length (st_inner s)"
  have "nat (int (zero s) + int p + int ?n) = zero s + p + ?n" by simp
  then have "nat (int (zero s) + int p + int ?n) mod ?n = (zero s + p) mod ?n" by simp
  then have "storage_rotate (int p) s = Some (s\<lparr>zero := (zero s + p) mod ?n\<rparr>)"
    using assms(2) storage_okD(5) [OF assms(1)] by (simp add: storage_rotate_def ensure_def Let_def)
  moreover have "rotate_down p s = Some (s\<lparr>zero := (zero s + p) mod ?n\<rparr>)"
    using storage_okD(5) [OF assms(1)] by (simp add: rotate_down_def ensure_def)
  ultimately show ?thesis using rotate_down_ok [OF assms(1), of p] by simp
qed

section \<open>The storage provides a line buffer\<close>

interpretation buf: line_buffer storage_ok lines_of "\<lambda>s. pool s" storage_shape
  storage_swap storage_index_mut
proof unfold_locales
  fix s :: "'r storage" and a b
  assume "storage_ok s" "a \<in> dom (lines_of s)" "b \<in> dom (lines_of s)"
  then show "ok (storage_swap a b s) (\<lambda>t. storage_ok t \<and> storage_shape t = storage_shape s
      \<and> lines_of t = (lines_of s)(a := lines_of s b, b := lines_of s a) \<and> pool t = pool s)"
    by (rule storage_swap_ok)
next
  fix s :: "'r storage" and l and r r' :: 'r and f
  assume "storage_ok s" "lines_of s l = Some r" "f r = Some r'"
  then show "ok (storage_index_mut l f s) (\<lambda>t. storage_ok t \<and> storage_shape t = storage_shape s
      \<and> lines_of t = (lines_of s)(l \<mapsto> r') \<and> pool t \<subseteq> insert r' (pool s))"
    by (rule storage_index_mut_ok)
next
  fix s :: "'r storage" and l r
  assume "storage_ok s" "lines_of s l = Some r"
  then show "r \<in> pool s" by (rule lines_of_pool)
qed

section \<open>Properties\<close>

definition demo_storage :: "nat storage" where
  \<comment> \<open>two visible lines and one line of scrollback in a ring of four, rotated by three\<close>
  "demo_storage = \<lparr>st_inner = [10, 11, 12, 13], zero = 3, visible_lines = 2, st_len = 3\<rparr>"

lemma demo_storage_ok: "storage_ok demo_storage" "first_line demo_storage = -1"
  by (simp_all add: storage_ok_def demo_storage_def first_line_def)

text \<open>
  C5 (refinement): rotating the ring buffer is scrolling the text. After
  \<^verbatim>\<open>Storage::rotate\<close> by \<open>- p\<close> every line shows what was \<open>p\<close> lines below it, for all lines of
  the screen and of the scrollback whose source is on the screen.
\<close>

theorem storage_rotate_scrolls:
  assumes "storage_ok s" "p \<le> length (st_inner s)"
    and "first_line s \<le> l" "l + int p < int (visible_lines s)"
  shows "storage_rotate (- int p) s \<bind> storage_index l = storage_index (l + int p) s"
proof -
  obtain t where t: "storage_rotate (- int p) s = Some t" "storage_ok t" "storage_shape t = storage_shape s"
      "lines_of t l = lines_of s (l + int p)"
    using storage_rotate_up_ok [OF assms(1,2)] assms(3,4) by (auto elim!: okE)
  have "l \<in> dom (lines_of t)" "l + int p \<in> dom (lines_of s)"
    using t(3) assms(3,4) by (auto simp: dom_lines_of storage_shape_def first_line_def)
  then show ?thesis using t assms(1) by (simp add: storage_index_eq)
qed

theorem storage_rotate_scrolls_witness:
  "storage_rotate (- int 1) demo_storage \<bind> storage_index (- 1) = storage_index (- 1 + int 1) demo_storage"
  by (rule storage_rotate_scrolls) (simp_all add: demo_storage_ok, simp_all add: demo_storage_def)

text \<open>
  \<^verbatim>\<open>Storage::swap\<close> exchanges two lines, wherever the ring keeps them, and changes no other
  line.
\<close>

theorem storage_swap_exchanges:
  assumes "storage_ok s" and "{a, b, l} \<subseteq> {first_line s..<int (visible_lines s)}"
  shows "storage_swap a b s \<bind> storage_index l =
    storage_index (if l = a then b else if l = b then a else l) s"
proof -
  have dom: "a \<in> dom (lines_of s)" "b \<in> dom (lines_of s)" "l \<in> dom (lines_of s)"
    using assms(2) by (auto simp: dom_lines_of)
  obtain t where t: "storage_swap a b s = Some t" "storage_ok t" "storage_shape t = storage_shape s"
      "lines_of t = (lines_of s)(a := lines_of s b, b := lines_of s a)"
    using storage_swap_ok [OF assms(1) dom(1,2)] by (auto elim!: okE)
  have "l \<in> dom (lines_of t)"
    using t(3) assms(2) by (auto simp: dom_lines_of storage_shape_def first_line_def)
  then show ?thesis using t assms(1) dom by (auto simp: storage_index_eq)
qed

theorem storage_swap_exchanges_witness:
  "storage_swap (- 1) 1 demo_storage \<bind> storage_index 1 =
     storage_index (if (1::int) = - 1 then 1 else if (1::int) = 1 then - 1 else 1) demo_storage"
  by (rule storage_swap_exchanges) (simp_all add: demo_storage_ok, simp_all add: demo_storage_def)

text \<open>
  \<^verbatim>\<open>Storage::compute_index\<close> answers exactly for the lines between the oldest line of the
  scrollback and the bottom of the screen; outside of them its assertions fail.
\<close>

theorem compute_index_defined_iff:
  assumes "storage_ok s"
  shows "compute_index s l \<noteq> None \<longleftrightarrow> first_line s \<le> l \<and> l < int (visible_lines s)"
proof (cases "l \<in> dom (lines_of s)")
  case True
  then show ?thesis using compute_index_ok [OF assms True] by (simp add: dom_lines_of)
next
  case False
  then have "l \<ge> int (visible_lines s) \<or> l < first_line s" by (auto simp: dom_lines_of)
  then have "compute_index s l = None"
    using storage_okD [OF assms]
    by (auto simp: compute_index_def first_line_def ensure_def csub_def Let_def split: bind_splits)
  then show ?thesis using False by (simp add: dom_lines_of)
qed

theorem compute_index_defined_iff_witness:
  "compute_index demo_storage (- 2) \<noteq> None \<longleftrightarrow>
     first_line demo_storage \<le> - 2 \<and> - 2 < int (visible_lines demo_storage)"
  by (rule compute_index_defined_iff [OF demo_storage_ok(1)])

end
