(* ===== verification/Grid.thy ===== *)
theory Grid
  imports Index Row Storage
begin

text \<open>
  The terminal grid (\<^verbatim>\<open>alacritty_terminal/src/grid/mod.rs\<close>) over the cell type of the
  terminal: cursors, scrollback, scrolling of regions, resets, and the cell iterator.

  \<open>grid_ok\<close> is the invariant every operation needs in order not to panic;
  \<open>grid_clean\<close> adds that every row may be reset by its \<open>occ\<close> shortcut. Scrolling is
  proved to be the obvious shift of lines with blank lines moving in.
\<close>

section \<open>Data\<close>

datatype charset_index = G0 | G1 | G2 | G3

datatype standard_charset = Ascii | SpecialCharacterAndLineDrawing

type_synonym charsets = "charset_index \<Rightarrow> standard_charset"

record cursor =
  cur_point :: point
  cur_template :: cell
  cur_charsets :: charsets
  input_needs_wrap :: bool

definition cursor_default :: cursor where
  "cursor_default =
     \<lparr>cur_point = Point 0 0, cur_template = cell_default, cur_charsets = (\<lambda>_. Ascii),
      input_needs_wrap = False\<rparr>"

datatype scroll = Delta int | PageUp | PageDown | Scroll_Top | Scroll_Bottom

record grid =
  g_cursor :: cursor
  g_saved_cursor :: cursor
  raw :: "cell row storage"
  g_columns :: nat
  g_lines :: nat
  display_offset :: nat
  max_scroll_limit :: nat

text \<open>The \<^verbatim>\<open>Dimensions\<close> of a grid.\<close>

definition grid_dims :: "grid \<Rightarrow> dimensions" where
  "grid_dims g = \<lparr>total_lines = st_len (raw g), screen_lines = g_lines g, columns = g_columns g\<rparr>"

abbreviation grid_history :: "grid \<Rightarrow> nat" where
  "grid_history g \<equiv> history_size (grid_dims g)"

abbreviation cell_row_new :: "nat \<Rightarrow> cell row option" where
  "cell_row_new \<equiv> row_new cell_default"

section \<open>Construction, scrollback and the viewport\<close>

definition grid_new :: "nat \<Rightarrow> nat \<Rightarrow> nat \<Rightarrow> grid option" where
  "grid_new lines cols max_limit = do {
     st \<leftarrow> storage_with_capacity cell_row_new lines cols;
     Some \<lparr>g_cursor = cursor_default, g_saved_cursor = cursor_default, raw = st,
           g_columns = cols, g_lines = lines, display_offset = 0, max_scroll_limit = max_limit\<rparr>
   }"

definition update_history :: "nat \<Rightarrow> grid \<Rightarrow> grid option" where
  "update_history n g = do {
     let current = grid_history g;
     g \<leftarrow> (if current > n then do {
             st \<leftarrow> storage_shrink_lines (current - n) (raw g);
             Some (g\<lparr>raw := st\<rparr>)
           } else Some g);
     Some (g\<lparr>display_offset := min (display_offset g) n, max_scroll_limit := n\<rparr>)
   }"

fun grid_scroll_display :: "scroll \<Rightarrow> grid \<Rightarrow> grid" where
  "grid_scroll_display (Delta count) g =
     g\<lparr>display_offset := min (nat (max (int (display_offset g) + count) 0)) (grid_history g)\<rparr>"
| "grid_scroll_display PageUp g =
     g\<lparr>display_offset := min (display_offset g + g_lines g) (grid_history g)\<rparr>"
| "grid_scroll_display PageDown g = g\<lparr>display_offset := display_offset g - g_lines g\<rparr>"
| "grid_scroll_display Scroll_Top g = g\<lparr>display_offset := grid_history g\<rparr>"
| "grid_scroll_display Scroll_Bottom g = g\<lparr>display_offset := 0\<rparr>"

definition increase_scroll_limit :: "nat \<Rightarrow> grid \<Rightarrow> grid option" where
  "increase_scroll_limit count g = do {
     room \<leftarrow> csub (max_scroll_limit g) (grid_history g);
     let count = min count room;
     if count \<noteq> 0 then do {
       st \<leftarrow> initialize cell_row_new count (g_columns g) (raw g);
       Some (g\<lparr>raw := st\<rparr>)
     } else Some g
   }"

definition decrease_scroll_limit :: "nat \<Rightarrow> grid \<Rightarrow> grid option" where
  "decrease_scroll_limit count g = do {
     let count = min count (grid_history g);
     if count \<noteq> 0 then do {
       st \<leftarrow> storage_shrink_lines (min count (grid_history g)) (raw g);
       let g = g\<lparr>raw := st\<rparr>;
       Some (g\<lparr>display_offset := min (display_offset g) (grid_history g)\<rparr>)
     } else Some g
   }"

definition clear_history :: "grid \<Rightarrow> grid option" where
  "clear_history g = do {
     st \<leftarrow> storage_shrink_lines (grid_history g) (raw g);
     Some (g\<lparr>raw := st, display_offset := 0\<rparr>)
   }"

definition grid_truncate :: "grid \<Rightarrow> grid option" where
  "grid_truncate g = do {
     st \<leftarrow> storage_truncate (raw g);
     Some (g\<lparr>raw := st\<rparr>)
   }"

definition initialize_all :: "grid \<Rightarrow> grid option" where
  "initialize_all g = do {
     g \<leftarrow> grid_truncate g;
     room \<leftarrow> csub (max_scroll_limit g) (grid_history g);
     st \<leftarrow> initialize cell_row_new room (g_columns g) (raw g);
     Some (g\<lparr>raw := st\<rparr>)
   }"

section \<open>Resetting and scrolling lines\<close>

text \<open>\<^verbatim>\<open>for i in lines { self.raw[i].reset(&self.cursor.template) }\<close>\<close>

definition reset_lines :: "int list \<Rightarrow> grid \<Rightarrow> grid option" where
  "reset_lines ls g = do {
     st \<leftarrow> for_each ls (\<lambda>i. storage_index_mut i (reset_row (cur_template (g_cursor g)))) (raw g);
     Some (g\<lparr>raw := st\<rparr>)
   }"

text \<open>\<^verbatim>\<open>for i in lines { self.raw.swap(i, target(i)) }\<close>\<close>

definition swap_lines :: "int list \<Rightarrow> (int \<Rightarrow> int) \<Rightarrow> grid \<Rightarrow> grid option" where
  "swap_lines ls target g = do {
     st \<leftarrow> for_each ls (\<lambda>i. storage_swap i (target i)) (raw g);
     Some (g\<lparr>raw := st\<rparr>)
   }"

definition grid_scroll_down :: "int \<Rightarrow> int \<Rightarrow> nat \<Rightarrow> grid \<Rightarrow> grid option" where
  "grid_scroll_down s e p g =
     (if e - s \<le> int p then reset_lines (irange s e) g
      else if max_scroll_limit g = 0 then do {
        g \<leftarrow> swap_lines (irange e (int (g_lines g))) (\<lambda>i. i - int p) g;
        st \<leftarrow> rotate_down p (raw g);
        let g = g\<lparr>raw := st\<rparr>;
        g \<leftarrow> reset_lines (irange 0 (int p)) g;
        swap_lines (irange 0 s) (\<lambda>i. i + int p) g
      } else do {
        g \<leftarrow> swap_lines (rev (irange (s + int p) e)) (\<lambda>i. i - int p) g;
        reset_lines (rev (irange s (s + int p))) g
      })"

definition grid_scroll_up :: "int \<Rightarrow> int \<Rightarrow> nat \<Rightarrow> grid \<Rightarrow> grid option" where
  "grid_scroll_up s e p g =
     (if e - s \<le> int p \<and> s \<noteq> 0 then reset_lines (irange s e) g
      else do {
        let g = (if display_offset g \<noteq> 0
                 then g\<lparr>display_offset := min (display_offset g + p) (max_scroll_limit g)\<rparr> else g);
        g \<leftarrow> (if s = 0 then do {
                g \<leftarrow> increase_scroll_limit p g;
                g \<leftarrow> swap_lines (rev (irange 0 s)) (\<lambda>i. i + int p) g;
                st \<leftarrow> storage_rotate (- int p) (raw g);
                let g = g\<lparr>raw := st\<rparr>;
                swap_lines (rev (irange e (int (g_lines g)))) (\<lambda>i. i - int p) g
              } else swap_lines (irange s (e - int p)) (\<lambda>i. i + int p) g);
        reset_lines (irange (e - int p) e) g
      })"

datatype bound = Included int | Excluded int | Unbounded

definition reset_region :: "bound \<Rightarrow> bound \<Rightarrow> grid \<Rightarrow> grid option" where
  "reset_region lo hi g = do {
     let s = (case lo of Included l \<Rightarrow> l | Excluded l \<Rightarrow> l + 1 | Unbounded \<Rightarrow> 0);
     let e = (case hi of Included l \<Rightarrow> l + 1 | Excluded l \<Rightarrow> l | Unbounded \<Rightarrow> int (g_lines g));
     ensure (s < int (g_lines g));
     ensure (e \<le> int (g_lines g));
     reset_lines (irange s e) g
   }"

definition grid_reset :: "grid \<Rightarrow> grid option" where
  "grid_reset g = do {
     g \<leftarrow> clear_history g;
     let g = g\<lparr>g_saved_cursor := cursor_default, g_cursor := cursor_default, display_offset := 0\<rparr>;
     reset_lines (irange (topmost_line (grid_dims g)) (int (g_lines g))) g
   }"

section \<open>Cell access and iteration\<close>

definition grid_row :: "grid \<Rightarrow> int \<Rightarrow> cell row option" where
  "grid_row g l = storage_index l (raw g)"

definition grid_cell_at :: "grid \<Rightarrow> point \<Rightarrow> cell option" where
  "grid_cell_at g p = do {
     r \<leftarrow> grid_row g (line p);
     row_index r (column p)
   }"

definition grid_row_mut :: "int \<Rightarrow> (cell row \<Rightarrow> cell row option) \<Rightarrow> grid \<Rightarrow> grid option" where
  "grid_row_mut l f g = do {
     st \<leftarrow> storage_index_mut l f (raw g);
     Some (g\<lparr>raw := st\<rparr>)
   }"

definition grid_cell_mut :: "point \<Rightarrow> (cell \<Rightarrow> cell) \<Rightarrow> grid \<Rightarrow> grid option" where
  "grid_cell_mut p f g = grid_row_mut (line p) (row_index_mut (column p) f) g"

definition cursor_cell_mut :: "(cell \<Rightarrow> cell) \<Rightarrow> grid \<Rightarrow> grid option" where
  "cursor_cell_mut f g = grid_cell_mut (cur_point (g_cursor g)) f g"

text \<open>
  A grid iterator is its current point and its last point; \<^verbatim>\<open>next\<close> and \<^verbatim>\<open>prev\<close> return
  the new position with the cell there, or \<open>None\<close> at the end.
\<close>

record grid_iter =
  it_point :: point
  it_end :: point

definition iter_from :: "grid \<Rightarrow> point \<Rightarrow> grid_iter option" where
  "iter_from g p = do {
     last \<leftarrow> last_column (grid_dims g);
     Some \<lparr>it_point = p, it_end = Point (bottommost_line (grid_dims g)) last\<rparr>
   }"

definition display_iter :: "grid \<Rightarrow> grid_iter option" where
  "display_iter g = do {
     last \<leftarrow> last_column (grid_dims g);
     let start = Point (- int (display_offset g) - 1) last;
     let end_line = min (line start + int (g_lines g)) (bottommost_line (grid_dims g));
     Some \<lparr>it_point = start, it_end = Point end_line last\<rparr>
   }"

definition iter_next :: "grid \<Rightarrow> grid_iter \<Rightarrow> ((point \<times> cell) option \<times> grid_iter) option" where
  "iter_next g it =
     (if it_point it \<ge> it_end it then Some (None, it)
      else do {
        last \<leftarrow> last_column (grid_dims g);
        let p = it_point it;
        let p = (if column p \<ge> last then Point (line p + 1) 0 else Point (line p) (column p + 1));
        x \<leftarrow> grid_cell_at g p;
        Some (Some (p, x), it\<lparr>it_point := p\<rparr>)
      })"

definition iter_prev :: "grid \<Rightarrow> grid_iter \<Rightarrow> ((point \<times> cell) option \<times> grid_iter) option" where
  "iter_prev g it = do {
     let top = topmost_line (grid_dims g);
     last \<leftarrow> last_column (grid_dims g);
     let p = it_point it;
     if p \<le> Point top 0 then Some (None, it)
     else do {
       let p = (if column p = 0 then Point (line p - 1) last else Point (line p) (column p - 1));
       x \<leftarrow> grid_cell_at g p;
       Some (Some (p, x), it\<lparr>it_point := p\<rparr>)
     }
   }"

definition iter_size_hint :: "grid \<Rightarrow> grid_iter \<Rightarrow> nat option" where
  "iter_size_hint g it =
     (let p = it_point it; e = it_end it in
      if p \<ge> e then Some 0
      else if line p = line e then csub (column e) (column p)
      else do {
        let cols_on_first_line = g_columns g - (column p + 1);
        middle_lines \<leftarrow> csub (usize_of_i32 (line e - line p)) 1;
        Some (cols_on_first_line + middle_lines * g_columns g + (column e + 1))
      })"

definition iter_measure :: "grid \<Rightarrow> grid_iter \<Rightarrow> nat" where
  "iter_measure g it =
     nat (line (it_point it) - topmost_line (grid_dims g)) * (g_columns g + 1) + column (it_point it)"

lemma iter_prev_measure:
  assumes "iter_prev g it = Some (Some (p, x), it')"
  shows "iter_measure g it' < iter_measure g it" "it_point it' = p"
proof -
  let ?top = "topmost_line (grid_dims g)" and ?q = "it_point it"
  let ?p = "if column ?q = 0 then Point (line ?q - 1) (g_columns g - 1) else Point (line ?q) (column ?q - 1)"
  have cols: "0 < g_columns g" and gt: "\<not> ?q \<le> Point ?top 0" and it': "it' = it\<lparr>it_point := ?p\<rparr>" "p = ?p"
    using assms by (auto simp: iter_prev_def last_column_def csub_def grid_dims_def Let_def
        split: if_splits bind_splits)
  show "it_point it' = p" using it' by simp
  have top: "?top \<le> line ?q" and "column ?q = 0 \<Longrightarrow> ?top < line ?q"
    using gt by (auto simp: less_eq_point_def)
  show "iter_measure g it' < iter_measure g it"
  proof (cases "column ?q = 0")
    case True
    with \<open>column ?q = 0 \<Longrightarrow> ?top < line ?q\<close>
    have "nat (line ?q - ?top) = nat (line ?q - 1 - ?top) + 1" by simp
    then show ?thesis using True it' cols by (simp add: iter_measure_def algebra_simps)
  next
    case False
    then show ?thesis using it' by (simp add: iter_measure_def)
  qed
qed

text \<open>The loop of \<^verbatim>\<open>Grid::clear_viewport\<close> that looks for the last non-empty cell.\<close>

function last_content :: "grid \<Rightarrow> grid_iter \<Rightarrow> grid_iter option" where
  "last_content g it =
     (case iter_prev g it of
        None \<Rightarrow> None
      | Some (None, it') \<Rightarrow> Some it'
      | Some (Some (p, x), it') \<Rightarrow>
          if \<not> cell_is_empty x \<or> line p < 0 then Some it' else last_content g it')"
  by pat_completeness auto
termination
  by (relation "measure (\<lambda>(g, it). iter_measure g it)") (auto dest: iter_prev_measure(1))

declare last_content.simps [simp del]

definition clear_viewport :: "grid \<Rightarrow> grid option" where
  "clear_viewport g = do {
     let finish = Point (int (g_lines g) - 1) (g_columns g);
     it \<leftarrow> iter_from g finish;
     it \<leftarrow> last_content g it;
     ensure (line (it_point it) \<ge> -1);
     let positions = usize_of_i32 (line (it_point it) + 1);
     g \<leftarrow> grid_scroll_up 0 (int (g_lines g)) positions g;
     rest \<leftarrow> csub (g_lines g) positions;
     reset_lines (irange 0 (int rest)) g
   }"

section \<open>Invariants\<close>

definition grid_ok :: "grid \<Rightarrow> bool" where
  "grid_ok g \<longleftrightarrow>
     storage_ok (raw g) \<and> visible_lines (raw g) = g_lines g \<and> 0 < g_columns g
     \<and> (\<forall>r \<in> pool (raw g). row_ok (g_columns g) r)
     \<and> grid_history g \<le> max_scroll_limit g
     \<and> in_screen (grid_dims g) (cur_point (g_cursor g))
     \<and> in_screen (grid_dims g) (cur_point (g_saved_cursor g))"

definition grid_clean :: "grid \<Rightarrow> bool" where
  "grid_clean g \<longleftrightarrow> (\<forall>r \<in> pool (raw g). clean_row r)"

definition display_ok :: "grid \<Rightarrow> bool" where
  "display_ok g \<longleftrightarrow> display_offset g \<le> grid_history g"

abbreviation grid_lines :: "grid \<Rightarrow> int \<Rightarrow> cell row option" where
  "grid_lines g \<equiv> lines_of (raw g)"

abbreviation blank_of :: "grid \<Rightarrow> cell row" where
  "blank_of g \<equiv> blank_row (g_columns g) (cell_bg (cur_template (g_cursor g)))"


text \<open>\<open>grid_inv b\<close>: the invariant, with clean rows when \<open>b\<close> holds. \<open>frame g h\<close>: only rows changed.\<close>

definition good_row :: "bool \<Rightarrow> nat \<Rightarrow> cell row \<Rightarrow> bool" where
  "good_row b n r \<longleftrightarrow> row_ok n r \<and> (b \<longrightarrow> clean_row r)"

definition grid_inv :: "bool \<Rightarrow> grid \<Rightarrow> bool" where
  "grid_inv b g \<longleftrightarrow> grid_ok g \<and> (b \<longrightarrow> grid_clean g)"

definition same_but_rows :: "grid \<Rightarrow> grid \<Rightarrow> bool" where
  "same_but_rows g h \<longleftrightarrow> h = g\<lparr>raw := raw h\<rparr>"

definition frame :: "grid \<Rightarrow> grid \<Rightarrow> bool" where
  "frame g h \<longleftrightarrow> same_but_rows g h \<and> storage_shape (raw h) = storage_shape (raw g)"

section \<open>Structural lemmas\<close>

lemma grid_inv_ok: "grid_inv b g \<Longrightarrow> grid_ok g"
  by (simp add: grid_inv_def)

lemma grid_inv_False [simp]: "grid_inv False g = grid_ok g"
  by (simp add: grid_inv_def)

lemma grid_inv_rows: "grid_inv b g \<Longrightarrow> \<forall>r \<in> pool (raw g). good_row b (g_columns g) r"
  by (auto simp: grid_inv_def grid_ok_def grid_clean_def good_row_def)

lemma grid_okD:
  assumes "grid_ok g"
  shows "storage_ok (raw g)" "visible_lines (raw g) = g_lines g" "0 < g_columns g" "0 < g_lines g"
    "grid_history g \<le> max_scroll_limit g" "dims_ok (grid_dims g)"
    "first_line (raw g) = - int (grid_history g)"
    "dom (grid_lines g) = {- int (grid_history g)..<int (g_lines g)}"
  using assms
  by (auto simp: grid_ok_def storage_ok_def dims_ok_def grid_dims_def history_size_def
      first_line_def dom_lines_of)

lemma same_refl [simp]: "same_but_rows g g" "same_but_rows g (g\<lparr>raw := st\<rparr>)"
  by (simp_all add: same_but_rows_def)

lemma same_trans: "same_but_rows g h \<Longrightarrow> same_but_rows h k \<Longrightarrow> same_but_rows g k"
  unfolding same_but_rows_def by (metis (no_types, lifting) grid.surjective grid.update_convs(3))

lemma same_fields:
  assumes "same_but_rows g h"
  shows "g_cursor h = g_cursor g" "g_saved_cursor h = g_saved_cursor g" "g_columns h = g_columns g"
    "g_lines h = g_lines g" "display_offset h = display_offset g"
    "max_scroll_limit h = max_scroll_limit g"
  using assms unfolding same_but_rows_def
  by (metis grid.select_convs grid.surjective grid.update_convs(3))+

lemma frame_refl [simp]: "frame g g"
  by (simp add: frame_def)

lemma frame_trans: "frame g h \<Longrightarrow> frame h k \<Longrightarrow> frame g k"
  by (auto simp: frame_def intro: same_trans)

lemma frame_same: "frame g h \<Longrightarrow> same_but_rows g h"
  by (simp add: frame_def)

lemma frame_fields:
  assumes "frame g h"
  shows "g_cursor h = g_cursor g" "g_saved_cursor h = g_saved_cursor g" "g_columns h = g_columns g"
    "g_lines h = g_lines g" "display_offset h = display_offset g"
    "max_scroll_limit h = max_scroll_limit g" "grid_dims h = grid_dims g"
    "first_line (raw h) = first_line (raw g)" "visible_lines (raw h) = visible_lines (raw g)"
    "dom (grid_lines h) = dom (grid_lines g)"
  using assms same_fields [OF frame_same [OF assms]]
  by (auto simp: frame_def storage_shape_def first_line_def dom_lines_of grid_dims_def)

text \<open>Replacing the rows of a grid by rows of the same shape.\<close>

lemma grid_inv_raw:
  assumes "grid_inv b g" "storage_ok st" "storage_shape st = storage_shape (raw g)"
    "\<forall>r \<in> pool st. good_row b (g_columns g) r"
  shows "grid_inv b (g\<lparr>raw := st\<rparr>)" "frame g (g\<lparr>raw := st\<rparr>)"
  using assms
  by (auto simp: grid_inv_def grid_ok_def grid_clean_def good_row_def storage_shape_def frame_def
      grid_dims_def)

lemma good_row_reset:
  assumes "good_row b n r"
  shows "reset_row t r = Some (the (reset_row t r)) \<and> good_row b n (the (reset_row t r))"
proof -
  from row_reset_ok [of n r cell_discriminant cell_reset t] assms
  obtain r' where r': "reset_row t r = Some r'" "row_ok n r'" by (auto simp: good_row_def elim: okE)
  moreover have "clean_row r'" if b
    using that assms r' reset_row_blank [of r t] clean_blank_row [of n]
    by (auto simp: good_row_def row_ok_def)
  ultimately show ?thesis by (simp add: good_row_def)
qed

lemma good_blank_row: "0 < n \<Longrightarrow> good_row b n (blank_row n col)"
  by (simp add: good_row_def blank_row_ok clean_blank_row)

lemma good_row_new: "0 < n \<Longrightarrow> cell_row_new n = Some r \<Longrightarrow> good_row b n r"
  using row_ok_new [of n cell_default] cells.row_clean_new [of n r]
  by (auto simp: good_row_def row_new_def ensure_def split: bind_splits if_splits)

section \<open>Loops over lines\<close>

lemma reset_lines_ok:
  assumes "grid_inv b g" "set ls \<subseteq> dom (grid_lines g)" "distinct ls"
  shows "ok (reset_lines ls g) (\<lambda>h. grid_inv b h \<and> frame g h
    \<and> (\<forall>l. l \<notin> set ls \<longrightarrow> grid_lines h l = grid_lines g l)
    \<and> (b \<longrightarrow> (\<forall>l \<in> set ls. grid_lines h l = Some (blank_of g))))"
proof -
  let ?t = "cur_template (g_cursor g)" and ?P = "good_row b (g_columns g)"
  let ?f = "\<lambda>r. the (reset_row ?t r)"
  note D = grid_okD [OF grid_inv_ok [OF assms(1)]]
  have loop: "ok (for_each ls (\<lambda>i. storage_index_mut i (reset_row ?t)) (raw g))
    (\<lambda>t. storage_ok t \<and> storage_shape t = storage_shape (raw g) \<and> (\<forall>r \<in> pool t. ?P r)
       \<and> lines_of t = (\<lambda>l. if l \<in> set ls then map_option ?f (grid_lines g l) else grid_lines g l))"
    using good_row_reset [of b "g_columns g"]
    by (intro buf.loop_modify [OF D(1) assms(2,3) grid_inv_rows [OF assms(1)]])
  have blank: "map_option ?f (grid_lines g l) = Some (blank_of g)" if bl: "b" "l \<in> set ls" for l
  proof -
    obtain r where r: "grid_lines g l = Some r" using bl(2) assms(2) by blast
    then have "good_row b (g_columns g) r" using lines_of_pool [OF D(1)] grid_inv_rows [OF assms(1)] by blast
    then show ?thesis using r bl reset_row_blank [of r ?t] by (auto simp: good_row_def row_ok_def)
  qed
  show ?thesis unfolding reset_lines_def
    using loop blank grid_inv_raw [OF assms(1)] by (auto elim!: ok_mono)
qed

lemma swap_lines_ok:
  assumes "grid_inv b g"
    and loop: "ok (for_each ls (\<lambda>i. storage_swap i (target i)) (raw g))
      (\<lambda>t. storage_ok t \<and> storage_shape t = storage_shape (raw g) \<and> pool t = pool (raw g)
         \<and> dom (lines_of t) = dom (grid_lines g) \<and> Q (grid_lines g) (lines_of t))"
  shows "ok (swap_lines ls target g) (\<lambda>h. grid_inv b h \<and> frame g h \<and> Q (grid_lines g) (grid_lines h))"
  unfolding swap_lines_def
  using loop grid_inv_raw [OF assms(1)] grid_inv_rows [OF assms(1)] by (auto elim!: ok_mono)

lemma swap_up_ok:
  assumes "grid_inv b g" "{x..<y + p} \<subseteq> dom (grid_lines g)" "x \<le> y" "0 \<le> p"
  shows "ok (swap_lines (irange x y) (\<lambda>i. i + p) g)
    (\<lambda>h. grid_inv b h \<and> frame g h \<and> shifted x y p (grid_lines g) (grid_lines h))"
  using assms grid_okD(1) [OF grid_inv_ok]
  by (intro swap_lines_ok [where Q = "shifted x y p"] buf.loop_swap_up) auto

lemma swap_down_ok:
  assumes "grid_inv b g" "{x - p..<y} \<subseteq> dom (grid_lines g)" "x \<le> y" "0 \<le> p"
  shows "ok (swap_lines (rev (irange x y)) (\<lambda>i. i - p) g)
    (\<lambda>h. grid_inv b h \<and> frame g h \<and> shifted_down x y p (grid_lines g) (grid_lines h))"
  using assms grid_okD(1) [OF grid_inv_ok]
  by (intro swap_lines_ok [where Q = "shifted_down x y p"] buf.loop_swap_down) auto

lemma swap_back_ok:
  assumes "grid_inv b g" "{x - p..<y} \<subseteq> dom (grid_lines g)" "x \<le> y" "0 \<le> p"
  shows "ok (swap_lines (irange x y) (\<lambda>i. i - p) g)
    (\<lambda>h. grid_inv b h \<and> frame g h \<and> shifted (x - p) (y - p) p (grid_lines g) (grid_lines h))"
  using assms grid_okD(1) [OF grid_inv_ok]
  by (intro swap_lines_ok [where Q = "shifted (x - p) (y - p) p"] buf.loop_swap_back) auto

section \<open>Scrolling\<close>

text \<open>The rows and the scrollback after lines were added to the history.\<close>

definition regrown :: "grid \<Rightarrow> grid \<Rightarrow> nat \<Rightarrow> bool" where
  "regrown g h k \<longleftrightarrow> same_but_rows g h \<and> grid_history h = grid_history g + k
     \<and> (\<forall>l \<ge> - int (grid_history g). grid_lines h l = grid_lines g l)"

lemma increase_scroll_limit_ok:
  assumes "grid_inv b g"
  shows "ok (increase_scroll_limit p g) (\<lambda>h. grid_inv b h
    \<and> regrown g h (min p (max_scroll_limit g - grid_history g)))"
proof -
  note D = grid_okD [OF grid_inv_ok [OF assms]]
  let ?k = "min p (max_scroll_limit g - grid_history g)"
  obtain r where r: "cell_row_new (g_columns g) = Some r" using D(3) by (simp add: row_new_def ensure_def)
  show ?thesis
  proof (cases "?k = 0")
    case True
    then show ?thesis using D(5) assms
      by (auto simp: increase_scroll_limit_def csub_def regrown_def Let_def)
  next
    case False
    have st: "ok (initialize cell_row_new ?k (g_columns g) (raw g))
      (\<lambda>st. grid_inv b (g\<lparr>raw := st\<rparr>) \<and> regrown g (g\<lparr>raw := st\<rparr>) ?k)"
    proof (rule ok_mono [OF initialize_ok [where s = "raw g" and k = ?k and mk = cell_row_new, OF D(1) r]])
      fix st assume st: "storage_ok st \<and> storage_shape st = (visible_lines (raw g), st_len (raw g) + ?k)
        \<and> (\<forall>l. first_line (raw g) \<le> l \<longrightarrow> lines_of st l = lines_of (raw g) l)
        \<and> pool st \<subseteq> insert r (pool (raw g)) \<and> length (st_inner (raw g)) \<le> length (st_inner st)"
      have hist: "grid_history (g\<lparr>raw := st\<rparr>) = grid_history g + ?k"
        using st D(1,2) by (auto simp: history_size_def grid_dims_def storage_shape_def storage_ok_def)
      have "\<forall>r \<in> pool st. good_row b (g_columns g) r"
        using st grid_inv_rows [OF assms] good_row_new [OF D(3) r] by blast
      then have "grid_inv b (g\<lparr>raw := st\<rparr>)"
        using st hist assms D(5)
        by (auto simp: grid_inv_def grid_ok_def grid_clean_def good_row_def storage_shape_def
            grid_dims_def in_screen_def bottommost_line_def)
      then show "grid_inv b (g\<lparr>raw := st\<rparr>) \<and> regrown g (g\<lparr>raw := st\<rparr>) ?k"
        using st hist D(7) by (simp add: regrown_def)
    qed
    show ?thesis using False D(5) st
      by (auto simp: increase_scroll_limit_def csub_def Let_def)
  qed
qed

lemma regrown_fields:
  assumes "regrown g h k"
  shows "g_cursor h = g_cursor g" "g_saved_cursor h = g_saved_cursor g" "g_columns h = g_columns g"
    "g_lines h = g_lines g" "display_offset h = display_offset g"
    "max_scroll_limit h = max_scroll_limit g" "grid_history h = grid_history g + k"
  using assms same_fields [of g h] by (auto simp: regrown_def)

text \<open>Rotation of the whole buffer by \<open>p\<close> lines.\<close>

lemma rotate_up_grid_ok:
  assumes "grid_inv b g" "p \<le> g_lines g"
  shows "ok (storage_rotate (- int p) (raw g)) (\<lambda>st. grid_inv b (g\<lparr>raw := st\<rparr>) \<and> frame g (g\<lparr>raw := st\<rparr>)
    \<and> (\<forall>l. - int (grid_history g) \<le> l \<and> l + int p < int (g_lines g)
         \<longrightarrow> lines_of st l = grid_lines g (l + int p)))"
proof -
  note D = grid_okD [OF grid_inv_ok [OF assms(1)]]
  have "p \<le> length (st_inner (raw g))" using assms(2) D(1,2) by (auto simp: storage_ok_def)
  from storage_rotate_up_ok [OF D(1) this] show ?thesis
    using grid_inv_raw [OF assms(1)] grid_inv_rows [OF assms(1)] D(2,7) by (auto elim!: ok_mono)
qed

lemma rotate_down_grid_ok:
  assumes "grid_inv b g"
  shows "ok (rotate_down p (raw g)) (\<lambda>st. grid_inv b (g\<lparr>raw := st\<rparr>) \<and> frame g (g\<lparr>raw := st\<rparr>)
    \<and> (\<forall>l. - int (grid_history g) \<le> l - int p \<and> l < int (g_lines g)
         \<longrightarrow> lines_of st l = grid_lines g (l - int p)))"
  using rotate_down_ok [OF grid_okD(1) [OF grid_inv_ok [OF assms]], of p]
    grid_inv_raw [OF assms] grid_inv_rows [OF assms] grid_okD(2,7) [OF grid_inv_ok [OF assms]]
  by (auto elim!: ok_mono)

text \<open>
  What scrolling by \<open>p\<close> lines within the region \<open>s..<e\<close> shows: with \<open>p' = min p (e - s)\<close>, the
  region moves by \<open>p'\<close> lines and blank lines move in. A scroll up from the first line moves the
  scrollback too.
\<close>

definition scrolled_up :: "int \<Rightarrow> int \<Rightarrow> nat \<Rightarrow> grid \<Rightarrow> grid \<Rightarrow> bool" where
  "scrolled_up s e p g h \<longleftrightarrow>
     (let p' = min (int p) (e - s) in
      \<forall>l \<ge> - int (grid_history h).
        grid_lines h l =
          (if e - p' \<le> l \<and> l < e then Some (blank_of g)
           else if (s \<le> l \<or> s = 0) \<and> l < e - p' then grid_lines g (l + p')
           else grid_lines g l))"

definition scrolled_down :: "int \<Rightarrow> int \<Rightarrow> nat \<Rightarrow> grid \<Rightarrow> grid \<Rightarrow> bool" where
  "scrolled_down s e p g h \<longleftrightarrow>
     (let p' = min (int p) (e - s) in
      \<forall>l. grid_lines h l =
          (if s \<le> l \<and> l < s + p' then Some (blank_of g)
           else if s + p' \<le> l \<and> l < e then grid_lines g (l - p')
           else grid_lines g l))"

definition scroll_up_offset :: "int \<Rightarrow> int \<Rightarrow> nat \<Rightarrow> grid \<Rightarrow> nat" where
  "scroll_up_offset s e p g =
     (if e - s \<le> int p \<and> s \<noteq> 0 \<or> display_offset g = 0 then display_offset g
      else min (display_offset g + p) (max_scroll_limit g))"

definition scroll_up_history :: "int \<Rightarrow> nat \<Rightarrow> grid \<Rightarrow> nat" where
  "scroll_up_history s p g =
     (if s = 0 then min (max_scroll_limit g) (grid_history g + p) else grid_history g)"

lemma grid_inv_display [simp]: "grid_inv b (g\<lparr>display_offset := d\<rparr>) = grid_inv b g"
  by (simp add: grid_inv_def grid_ok_def grid_clean_def grid_dims_def)

lemma grid_dims_display [simp]: "grid_dims (g\<lparr>display_offset := d\<rparr>) = grid_dims g"
  by (simp add: grid_dims_def)

lemma range_in_lines:
  "grid_ok g \<Longrightarrow> - int (grid_history g) \<le> s \<Longrightarrow> e \<le> int (g_lines g) \<Longrightarrow>
     set (irange s e) \<subseteq> dom (grid_lines g)"
  by (auto simp: grid_okD(8))

text \<open>The two branches of a partial scroll up, before the last lines are reset.\<close>

lemma scroll_up_region:
  assumes "grid_inv b g" "0 \<le> s" "0 \<le> p" "s \<le> e - p" "e \<le> int (g_lines g)"
  shows "ok (swap_lines (irange s (e - p)) (\<lambda>i. i + p) g) (\<lambda>h. grid_inv b h \<and> frame g h
    \<and> (\<forall>l. s \<le> l \<and> l < e - p \<longrightarrow> grid_lines h l = grid_lines g (l + p))
    \<and> (\<forall>l. l < s \<or> e \<le> l \<longrightarrow> grid_lines h l = grid_lines g l))"
  using assms grid_okD(8) [OF grid_inv_ok [OF assms(1)]]
  by (intro ok_mono [OF swap_up_ok [OF assms(1), of s "e - p" p]]) (auto simp: shifted_def)

lemma scroll_up_full:
  assumes "grid_inv b g" "int p \<le> e" "e \<le> int (g_lines g)"
  shows "ok (do {
      g \<leftarrow> increase_scroll_limit p g;
      g \<leftarrow> swap_lines (rev (irange 0 0)) (\<lambda>i. i + int p) g;
      st \<leftarrow> storage_rotate (- int p) (raw g);
      let g = g\<lparr>raw := st\<rparr>;
      swap_lines (rev (irange e (int (g_lines g)))) (\<lambda>i. i - int p) g
    }) (\<lambda>h. grid_inv b h \<and> same_but_rows g h
      \<and> grid_history h = min (max_scroll_limit g) (grid_history g + p)
      \<and> (\<forall>l. - int (grid_history h) \<le> l \<and> l < e - int p \<longrightarrow> grid_lines h l = grid_lines g (l + int p))
      \<and> (\<forall>l. e \<le> l \<longrightarrow> grid_lines h l = grid_lines g l))"
proof -
  let ?k = "min p (max_scroll_limit g - grid_history g)"
  note D = grid_okD [OF grid_inv_ok [OF assms(1)]]
  have hist: "grid_history g + ?k = min (max_scroll_limit g) (grid_history g + p)" using D(5) by auto
  have tail: "ok (swap_lines (rev (irange e (int (g_lines h)))) (\<lambda>i. i - int p) (h\<lparr>raw := st\<rparr>)) Q"
    if h: "regrown g h ?k" "grid_inv b h"
      and st: "grid_inv b (h\<lparr>raw := st\<rparr>)" "frame h (h\<lparr>raw := st\<rparr>)"
      "\<forall>l. - int (grid_history h) \<le> l \<and> l + int p < int (g_lines h)
         \<longrightarrow> lines_of st l = grid_lines h (l + int p)"
      and Q: "\<And>k. grid_inv b k \<Longrightarrow> frame h k \<Longrightarrow>
        \<forall>l. - int (grid_history h) \<le> l \<and> l < e - int p \<longrightarrow> grid_lines k l = grid_lines g (l + int p) \<Longrightarrow>
        \<forall>l. e \<le> l \<longrightarrow> grid_lines k l = grid_lines g l \<Longrightarrow> Q k" for h st Q
  proof -
    note F = regrown_fields [OF h(1)] and D' = grid_okD [OF grid_inv_ok [OF st(1)]]
    have same: "grid_lines h l = grid_lines g l" if "- int (grid_history g) \<le> l" for l
      using h(1) that by (simp add: regrown_def)
    have k: "int ?k \<le> int p" by simp
    show ?thesis
    proof (rule ok_mono [OF swap_down_ok [OF st(1), of e "int p" "int (g_lines h)"]])
      fix w assume w: "grid_inv b w \<and> frame (h\<lparr>raw := st\<rparr>) w
        \<and> shifted_down e (int (g_lines h)) (int p) (grid_lines (h\<lparr>raw := st\<rparr>)) (grid_lines w)"
      have fr: "frame h w" using frame_trans [OF st(2)] w by blast
      show "Q w"
      proof (rule Q)
        show "\<forall>l. - int (grid_history h) \<le> l \<and> l < e - int p \<longrightarrow> grid_lines w l = grid_lines g (l + int p)"
          using w st(3) same F k assms(3) by (auto simp: shifted_down_def)
        have "grid_lines w l = grid_lines g l" if l: "e \<le> l" for l
        proof (cases "l < int (g_lines h)")
          case True
          then show ?thesis using w st(3) same F l assms(2) by (auto simp: shifted_down_def)
        next
          case False
          then have "l \<notin> dom (grid_lines w)" "l \<notin> dom (grid_lines g)"
            using frame_fields(10) [OF fr] grid_okD(8) [OF grid_inv_ok [OF h(2)]] D(8) F by auto
          then show ?thesis by (simp add: domIff)
        qed
        then show "\<forall>l. e \<le> l \<longrightarrow> grid_lines w l = grid_lines g l" by blast
      qed (use w fr in auto)
    qed (use assms F D'(8) in auto)
  qed
  have result: "same_but_rows g k \<and> grid_history k = min (max_scroll_limit g) (grid_history g + p)
      \<and> grid_history k = grid_history h" if "regrown g h ?k" "frame h k" for h k
    using that regrown_fields(7) [OF that(1)] frame_fields(7) [OF that(2)] hist
    by (auto simp: regrown_def frame_def intro: same_trans)
  show ?thesis
  proof (simp add: swap_lines_def [of "[]"] Let_def, rule ok_mono [OF increase_scroll_limit_ok [OF assms(1)]])
    fix h assume h: "grid_inv b h \<and> regrown g h ?k"
    then have "p \<le> g_lines h" using assms(2,3) regrown_fields(4) by fastforce
    note rot = rotate_up_grid_ok [OF conjunct1 [OF h] this]
    show "ok (storage_rotate (- int p) (raw h)) (\<lambda>st. ok (swap_lines (rev (irange e (int (g_lines h))))
        (\<lambda>i. i - int p) (h\<lparr>raw := st\<rparr>)) (\<lambda>k. grid_inv b k \<and> same_but_rows g k
      \<and> grid_history k = min (max_scroll_limit g) (grid_history g + p)
      \<and> (\<forall>l. - int (grid_history k) \<le> l \<and> l < e - int p \<longrightarrow> grid_lines k l = grid_lines g (l + int p))
      \<and> (\<forall>l \<ge> e. grid_lines k l = grid_lines g l)))"
    proof (rule ok_mono [OF rot], elim conjE)
      fix st assume "grid_inv b (h\<lparr>raw := st\<rparr>)" "frame h (h\<lparr>raw := st\<rparr>)"
        "\<forall>l. - int (grid_history h) \<le> l \<and> l + int p < int (g_lines h)
           \<longrightarrow> lines_of st l = grid_lines h (l + int p)"
      note rotated = tail [OF conjunct2 [OF h] conjunct1 [OF h] this]
      show "ok (swap_lines (rev (irange e (int (g_lines h)))) (\<lambda>i. i - int p) (h\<lparr>raw := st\<rparr>))
        (\<lambda>k. grid_inv b k \<and> same_but_rows g k
          \<and> grid_history k = min (max_scroll_limit g) (grid_history g + p)
          \<and> (\<forall>l. - int (grid_history k) \<le> l \<and> l < e - int p \<longrightarrow> grid_lines k l = grid_lines g (l + int p))
          \<and> (\<forall>l \<ge> e. grid_lines k l = grid_lines g l))"
        using result [OF conjunct2 [OF h]] by (intro rotated) (metis (no_types, lifting))
    qed
  qed
qed

lemma grid_scroll_up_ok:
  assumes "grid_inv b g" "0 \<le> s" "s \<le> e" "e \<le> int (g_lines g)" "s = 0 \<longrightarrow> int p \<le> e"
  shows "ok (grid_scroll_up s e p g) (\<lambda>h. grid_inv b h
    \<and> same_but_rows (g\<lparr>display_offset := scroll_up_offset s e p g\<rparr>) h
    \<and> grid_history h = scroll_up_history s p g \<and> (b \<longrightarrow> scrolled_up s e p g h))"
proof (cases "e - s \<le> int p \<and> s \<noteq> 0")
  case True
  have "set (irange s e) \<subseteq> dom (grid_lines g)"
    using range_in_lines [OF grid_inv_ok [OF assms(1)]] assms by simp
  note reset = reset_lines_ok [OF assms(1) this distinct_upto]
  have off: "g\<lparr>display_offset := scroll_up_offset s e p g\<rparr> = g"
    using True by (simp add: scroll_up_offset_def)
  have "grid_scroll_up s e p g = reset_lines (irange s e) g" using True by (simp add: grid_scroll_up_def)
  then show ?thesis
  proof (simp only: off, intro ok_mono [OF reset], elim conjE)
    fix h assume h: "grid_inv b h" "frame g h"
      "\<forall>l. l \<notin> set (irange s e) \<longrightarrow> grid_lines h l = grid_lines g l"
      "b \<longrightarrow> (\<forall>l \<in> set (irange s e). grid_lines h l = Some (blank_of g))"
    have "scrolled_up s e p g h" if b
      using that h(3,4) True by (auto simp: scrolled_up_def Let_def)
    moreover have "grid_history h = scroll_up_history s p g"
      using frame_fields(7) [OF h(2)] True by (simp add: scroll_up_history_def)
    ultimately show "grid_inv b h \<and> same_but_rows g h
      \<and> grid_history h = scroll_up_history s p g \<and> (b \<longrightarrow> scrolled_up s e p g h)"
      using h(1) frame_same [OF h(2)] by blast
  qed
next
  case False
  define g0 where "g0 = (if display_offset g \<noteq> 0
    then g\<lparr>display_offset := min (display_offset g + p) (max_scroll_limit g)\<rparr> else g)"
  have g0: "g0 = g\<lparr>display_offset := scroll_up_offset s e p g\<rparr>"
    using False by (auto simp: g0_def scroll_up_offset_def)
  have p: "int p \<le> e - s" using False assms(5) by auto
  let ?Q = "\<lambda>h. grid_inv b h \<and> same_but_rows g0 h \<and> grid_history h = scroll_up_history s p g
    \<and> (\<forall>l. - int (grid_history h) \<le> l \<and> (s \<le> l \<or> s = 0) \<and> l < e - int p
         \<longrightarrow> grid_lines h l = grid_lines g (l + int p))
    \<and> (\<forall>l. l < s \<and> s \<noteq> 0 \<or> e \<le> l \<longrightarrow> grid_lines h l = grid_lines g l)"
  have inv0: "grid_inv b g0" using assms(1) g0 by simp
  have shift: "ok (if s = 0 then do {
                g \<leftarrow> increase_scroll_limit p g0;
                g \<leftarrow> swap_lines (rev (irange 0 s)) (\<lambda>i. i + int p) g;
                st \<leftarrow> storage_rotate (- int p) (raw g);
                let g = g\<lparr>raw := st\<rparr>;
                swap_lines (rev (irange e (int (g_lines g)))) (\<lambda>i. i - int p) g
              } else swap_lines (irange s (e - int p)) (\<lambda>i. i + int p) g0) ?Q"
  proof (cases "s = 0")
    case True
    then have "int p \<le> e" "e \<le> int (g_lines g0)" using assms p g0 by auto
    from scroll_up_full [OF inv0 this] show ?thesis
      using True g0 by (simp only: if_True) (auto simp: scroll_up_history_def elim!: ok_mono)
  next
    case s: False
    have hist: "grid_history h = grid_history g" "same_but_rows g0 h" if "frame g0 h" for h
      using that frame_fields(7) [OF that] g0 by (simp_all add: frame_def)
    have "s \<le> e - int p" "e \<le> int (g_lines g0)" using assms p g0 by auto
    from scroll_up_region [OF inv0 assms(2) _ this] show ?thesis using s hist g0
      by (auto simp: scroll_up_history_def elim!: ok_mono)
  qed
  show ?thesis unfolding grid_scroll_up_def using False
  proof (simp only: if_False Let_def ok_bind flip: g0_def, intro ok_mono [OF shift [unfolded Let_def]], elim conjE)
    fix h assume h: "grid_inv b h" "same_but_rows g0 h" "grid_history h = scroll_up_history s p g"
      "\<forall>l. - int (grid_history h) \<le> l \<and> (s \<le> l \<or> s = 0) \<and> l < e - int p
         \<longrightarrow> grid_lines h l = grid_lines g (l + int p)"
      "\<forall>l. l < s \<and> s \<noteq> 0 \<or> e \<le> l \<longrightarrow> grid_lines h l = grid_lines g l"
    have fld: "g_lines h = g_lines g" "g_columns h = g_columns g" "g_cursor h = g_cursor g"
      using same_fields [OF h(2)] g0 by simp_all
    have sub: "set (irange (e - int p) e) \<subseteq> dom (grid_lines h)"
      using range_in_lines [OF grid_inv_ok [OF h(1)]] assms p fld by simp
    have frame: "same_but_rows (g\<lparr>display_offset := scroll_up_offset s e p g\<rparr>) k"
      "grid_history k = scroll_up_history s p g" if "frame h k" for k
    proof -
      show "same_but_rows (g\<lparr>display_offset := scroll_up_offset s e p g\<rparr>) k"
        using same_trans [OF h(2) frame_same [OF that]] g0 by simp
      show "grid_history k = scroll_up_history s p g" using frame_fields(7) [OF that] h(3) by simp
    qed
    show "ok (reset_lines (irange (e - int p) e) h) (\<lambda>k. grid_inv b k
      \<and> same_but_rows (g\<lparr>display_offset := scroll_up_offset s e p g\<rparr>) k
      \<and> grid_history k = scroll_up_history s p g \<and> (b \<longrightarrow> scrolled_up s e p g k))"
    proof (rule ok_mono [OF reset_lines_ok [OF h(1) sub distinct_upto]], elim conjE)
      fix k assume k: "grid_inv b k" "frame h k"
        "\<forall>l. l \<notin> set (irange (e - int p) e) \<longrightarrow> grid_lines k l = grid_lines h l"
        "b \<longrightarrow> (\<forall>l \<in> set (irange (e - int p) e). grid_lines k l = Some (blank_of h))"
      have "scrolled_up s e p g k" if b
        using that k(3,4) h(3-5) frame(2) [OF k(2)] p fld by (auto simp: scrolled_up_def Let_def)
      then show "grid_inv b k \<and> same_but_rows (g\<lparr>display_offset := scroll_up_offset s e p g\<rparr>) k
        \<and> grid_history k = scroll_up_history s p g \<and> (b \<longrightarrow> scrolled_up s e p g k)"
        using k(1) frame [OF k(2)] by blast
    qed
  qed
qed

text \<open>Scrolling down without scrollback: the whole buffer rotates, the lines outside the region are put back.\<close>

lemma scroll_down_rotated:
  assumes "grid_inv b g" "0 \<le> s" "int p < e - s" "e \<le> int (g_lines g)" "max_scroll_limit g = 0"
  shows "ok (do {
      g \<leftarrow> swap_lines (irange e (int (g_lines g))) (\<lambda>i. i - int p) g;
      st \<leftarrow> rotate_down p (raw g);
      let g = g\<lparr>raw := st\<rparr>;
      g \<leftarrow> reset_lines (irange 0 (int p)) g;
      swap_lines (irange 0 s) (\<lambda>i. i + int p) g
    }) (\<lambda>h. grid_inv b h \<and> frame g h \<and> (b \<longrightarrow> scrolled_down s e p g h))"
proof -
  note D = grid_okD [OF grid_inv_ok [OF assms(1)]]
  have h0: "grid_history g = 0" using D(5) assms(5) by simp
  have dom: "dom (grid_lines g) = {0..<int (g_lines g)}" using D(8) h0 by simp
  have "{e - int p..<int (g_lines g)} \<subseteq> dom (grid_lines g)" using dom assms(2,3) by auto
  note moved = swap_back_ok [OF assms(1) this assms(4) of_nat_0_le_iff]
  show ?thesis
  proof (simp only: ok_bind Let_def, rule ok_mono [OF moved], elim conjE)
    fix g1 assume g1: "grid_inv b g1" "frame g g1"
      "shifted (e - int p) (int (g_lines g) - int p) (int p) (grid_lines g) (grid_lines g1)"
    note F1 = frame_fields [OF g1(2)]
    show "ok (rotate_down p (raw g1)) (\<lambda>st. ok (reset_lines (irange 0 (int p)) (g1\<lparr>raw := st\<rparr>))
      (\<lambda>g3. ok (swap_lines (irange 0 s) (\<lambda>i. i + int p) g3)
        (\<lambda>h. grid_inv b h \<and> frame g h \<and> (b \<longrightarrow> scrolled_down s e p g h))))"
    proof (rule ok_mono [OF rotate_down_grid_ok [OF g1(1)]], elim conjE)
      fix st assume st: "grid_inv b (g1\<lparr>raw := st\<rparr>)" "frame g1 (g1\<lparr>raw := st\<rparr>)"
        "\<forall>l. - int (grid_history g1) \<le> l - int p \<and> l < int (g_lines g1)
           \<longrightarrow> lines_of st l = grid_lines g1 (l - int p)"
      let ?g2 = "g1\<lparr>raw := st\<rparr>"
      have fr2: "frame g ?g2" using frame_trans [OF g1(2) st(2)] .
      note F2 = frame_fields [OF fr2]
      have v2: "lines_of st l = (if l < e then grid_lines g (l - int p) else grid_lines g l)"
        if "int p \<le> l" "l < int (g_lines g)" for l
        using that st(3) g1(3) F1 h0 by (auto simp: shifted_def)
      have "set (irange 0 (int p)) \<subseteq> dom (grid_lines ?g2)" using F2(10) dom assms(2-4) by auto
      note reset = reset_lines_ok [OF st(1) this distinct_upto]
      show "ok (reset_lines (irange 0 (int p)) ?g2) (\<lambda>g3. ok (swap_lines (irange 0 s) (\<lambda>i. i + int p) g3)
        (\<lambda>h. grid_inv b h \<and> frame g h \<and> (b \<longrightarrow> scrolled_down s e p g h)))"
      proof (rule ok_mono [OF reset], elim conjE)
        fix g3 assume g3: "grid_inv b g3" "frame ?g2 g3"
          "\<forall>l. l \<notin> set (irange 0 (int p)) \<longrightarrow> grid_lines g3 l = grid_lines ?g2 l"
          "b \<longrightarrow> (\<forall>l \<in> set (irange 0 (int p)). grid_lines g3 l = Some (blank_of ?g2))"
        have fr3: "frame g g3" using frame_trans [OF fr2 g3(2)] .
        have v3: "grid_lines g3 l = (if l < e then grid_lines g (l - int p) else grid_lines g l)"
          if "int p \<le> l" "l < int (g_lines g)" for l
          using v2 [OF that] g3(3) that by simp
        have "{0..<s + int p} \<subseteq> dom (grid_lines g3)"
          using frame_fields(10) [OF fr3] dom assms(2-4) by auto
        note up = swap_up_ok [OF g3(1) this assms(2) of_nat_0_le_iff]
        show "ok (swap_lines (irange 0 s) (\<lambda>i. i + int p) g3)
          (\<lambda>h. grid_inv b h \<and> frame g h \<and> (b \<longrightarrow> scrolled_down s e p g h))"
        proof (rule ok_mono [OF up], elim conjE)
          fix h assume h: "grid_inv b h" "frame g3 h" "shifted 0 s (int p) (grid_lines g3) (grid_lines h)"
          have fr: "frame g h" using frame_trans [OF fr3 h(2)] .
          have "scrolled_down s e p g h" if b
            unfolding scrolled_down_def Let_def
          proof (intro allI)
            fix l
            have blanks: "x = Some (blank_of g)" if "x \<in> grid_lines g3 ` {0..<int p}" for x
              using that \<open>b\<close> g3(4) F1 by auto
            consider "l < 0 \<or> l \<ge> int (g_lines g)" | "0 \<le> l" "l < s" | "s \<le> l" "l < s + int p"
              | "s + int p \<le> l" "l < int (g_lines g)" by linarith
            then show "grid_lines h l =
                (if s \<le> l \<and> l < s + min (int p) (e - s) then Some (blank_of g)
                 else if s + min (int p) (e - s) \<le> l \<and> l < e then grid_lines g (l - min (int p) (e - s))
                 else grid_lines g l)"
            proof cases
              case 1
              then have "grid_lines h l = None" "grid_lines g l = None"
                using frame_fields(10) [OF fr] dom by (metis atLeastLessThan_iff domIff not_le)+
              then show ?thesis using 1 assms by auto
            next
              case 2
              then show ?thesis using h(3) v3 [of "l + int p"] assms by (auto simp: shifted_def)
            next
              case 3
              then have "grid_lines h l \<in> grid_lines g3 ` {0..<int p}" using h(3) by (auto simp: shifted_def)
              from blanks [OF this] show ?thesis using 3 assms(3) by simp
            next
              case 4
              then show ?thesis using h(3) v3 [of l] assms by (auto simp: shifted_def)
            qed
          qed
          then show "grid_inv b h \<and> frame g h \<and> (b \<longrightarrow> scrolled_down s e p g h)" using h(1) fr by blast
        qed
      qed
    qed
  qed
qed

lemma grid_scroll_down_ok:
  assumes "grid_inv b g" "0 \<le> s" "s \<le> e" "e \<le> int (g_lines g)"
  shows "ok (grid_scroll_down s e p g)
    (\<lambda>h. grid_inv b h \<and> frame g h \<and> (b \<longrightarrow> scrolled_down s e p g h))"
proof -
  note lines = range_in_lines [OF grid_inv_ok]
  consider "e - s \<le> int p" | "int p < e - s" "max_scroll_limit g = 0"
    | "int p < e - s" "max_scroll_limit g \<noteq> 0" by linarith
  then show ?thesis
  proof cases
    case 1
    have "set (irange s e) \<subseteq> dom (grid_lines g)" using lines [OF assms(1)] assms by simp
    from reset_lines_ok [OF assms(1) this distinct_upto] show ?thesis using 1
      by (auto simp: grid_scroll_down_def scrolled_down_def Let_def elim!: ok_mono)
  next
    case 2
    then show ?thesis using scroll_down_rotated [OF assms(1,2) _ assms(4)]
      by (simp add: grid_scroll_down_def)
  next
    case 3
    have "{s + int p - int p..<e} \<subseteq> dom (grid_lines g)"
      using grid_okD(8) [OF grid_inv_ok [OF assms(1)]] assms by auto
    moreover have "s + int p \<le> e" "0 \<le> int p" using 3 by auto
    ultimately have shift: "ok (swap_lines (rev (irange (s + int p) e)) (\<lambda>i. i - int p) g)
      (\<lambda>h. grid_inv b h \<and> frame g h \<and> shifted_down (s + int p) e (int p) (grid_lines g) (grid_lines h))"
      by (rule swap_down_ok [OF assms(1)])
    have "grid_scroll_down s e p g = swap_lines (rev (irange (s + int p) e)) (\<lambda>i. i - int p) g
        \<bind> reset_lines (rev (irange s (s + int p)))"
      using 3 by (simp add: grid_scroll_down_def)
    also have "ok \<dots> (\<lambda>h. grid_inv b h \<and> frame g h \<and> (b \<longrightarrow> scrolled_down s e p g h))"
    proof (simp only: ok_bind, rule ok_mono [OF shift], elim conjE)
      fix h assume h: "grid_inv b h" "frame g h"
        "shifted_down (s + int p) e (int p) (grid_lines g) (grid_lines h)"
      note F = frame_fields [OF h(2)]
      have sub: "set (rev (irange s (s + int p))) \<subseteq> dom (grid_lines h)"
        using lines [OF h(1)] F assms 3 by (simp only: set_rev)
      have "scrolled_down s e p g k"
        if "\<forall>l. l \<notin> set (rev (irange s (s + int p))) \<longrightarrow> grid_lines k l = grid_lines h l"
          "\<forall>l \<in> set (rev (irange s (s + int p))). grid_lines k l = Some (blank_of h)" for k
      proof -
        have "min (int p) (e - s) = int p" using 3 by simp
        then show ?thesis using that h(3) by (simp add: scrolled_down_def shifted_down_def Let_def F(1,3)) (meson not_le)
      qed
      then have step: "grid_inv b k \<and> frame g k \<and> (b \<longrightarrow> scrolled_down s e p g k)"
        if "grid_inv b k \<and> frame h k \<and> (\<forall>l. l \<notin> set (rev (irange s (s + int p))) \<longrightarrow> grid_lines k l = grid_lines h l)
          \<and> (b \<longrightarrow> (\<forall>l \<in> set (rev (irange s (s + int p))). grid_lines k l = Some (blank_of h)))" for k
        using that frame_trans [OF h(2)] by blast
      have "distinct (rev (irange s (s + int p)))" by simp
      from ok_mono [OF reset_lines_ok [OF h(1) sub this] step]
      show "ok (reset_lines (rev (irange s (s + int p))) h)
          (\<lambda>k. grid_inv b k \<and> frame g k \<and> (b \<longrightarrow> scrolled_down s e p g k))" .
    qed
    finally show ?thesis .
  qed
qed

section \<open>The scrollback\<close>

text \<open>The oldest \<open>k\<close> lines of the scrollback are dropped, nothing else changes.\<close>

definition trimmed :: "grid \<Rightarrow> grid \<Rightarrow> nat \<Rightarrow> bool" where
  "trimmed g h k \<longleftrightarrow> same_but_rows g h \<and> grid_history h = grid_history g - k
     \<and> (\<forall>l \<ge> - int (grid_history h). grid_lines h l = grid_lines g l)"

lemma grid_shrink_ok:
  assumes "grid_inv b g" "k \<le> grid_history g"
  shows "ok (storage_shrink_lines k (raw g)) (\<lambda>st. grid_inv b (g\<lparr>raw := st\<rparr>) \<and> trimmed g (g\<lparr>raw := st\<rparr>) k)"
proof -
  note D = grid_okD [OF grid_inv_ok [OF assms(1)]]
  have k: "k \<le> st_len (raw g) - visible_lines (raw g)"
    using assms(2) D(2) by (simp add: history_size_def grid_dims_def)
  show ?thesis
  proof (rule ok_mono [OF storage_shrink_lines_ok [OF D(1) k]], elim conjE)
    fix st assume st: "storage_ok st" "storage_shape st = (visible_lines (raw g), st_len (raw g) - k)"
      "lines_of st = lines_of (raw g) |` {first_line (raw g) + int k..}" "pool st \<subseteq> pool (raw g)"
    have hist: "grid_history (g\<lparr>raw := st\<rparr>) = grid_history g - k"
      using st(2) by (auto simp: history_size_def grid_dims_def storage_shape_def)
    have "\<forall>r \<in> pool st. good_row b (g_columns g) r" using st(4) grid_inv_rows [OF assms(1)] by blast
    then have "grid_inv b (g\<lparr>raw := st\<rparr>)"
      using st hist assms(1) D(5)
      by (auto simp: grid_inv_def grid_ok_def grid_clean_def good_row_def storage_shape_def
          grid_dims_def in_screen_def bottommost_line_def)
    then show "grid_inv b (g\<lparr>raw := st\<rparr>) \<and> trimmed g (g\<lparr>raw := st\<rparr>) k"
      using st(3) hist assms(2) D(7) by (simp add: trimmed_def restrict_map_def)
  qed
qed

lemma trimmed_fields:
  assumes "trimmed g h k"
  shows "g_cursor h = g_cursor g" "g_saved_cursor h = g_saved_cursor g" "g_columns h = g_columns g"
    "g_lines h = g_lines g" "display_offset h = display_offset g"
    "max_scroll_limit h = max_scroll_limit g" "grid_history h = grid_history g - k"
  using assms same_fields [of g h] by (auto simp: trimmed_def)

lemma grid_inv_limit:
  assumes "grid_inv b g" "grid_history g \<le> n"
  shows "grid_inv b (g\<lparr>display_offset := d, max_scroll_limit := n\<rparr>)"
  using assms by (simp add: grid_inv_def grid_ok_def grid_clean_def grid_dims_def)

lemma update_history_ok:
  assumes "grid_inv b g"
  shows "ok (update_history n g) (\<lambda>h. grid_inv b h \<and> max_scroll_limit h = n
    \<and> grid_history h = min (grid_history g) n \<and> display_offset h = min (display_offset g) n
    \<and> g_lines h = g_lines g \<and> g_columns h = g_columns g
    \<and> g_cursor h = g_cursor g \<and> g_saved_cursor h = g_saved_cursor g
    \<and> (\<forall>l \<ge> - int (grid_history h). grid_lines h l = grid_lines g l))"
proof (cases "grid_history g > n")
  case True
  let ?k = "grid_history g - n"
  have step: "grid_inv b k \<and> max_scroll_limit k = n
    \<and> grid_history k = min (grid_history g) n \<and> display_offset k = min (display_offset g) n
    \<and> g_lines k = g_lines g \<and> g_columns k = g_columns g
    \<and> g_cursor k = g_cursor g \<and> g_saved_cursor k = g_saved_cursor g
    \<and> (\<forall>l \<ge> - int (grid_history k). grid_lines k l = grid_lines g l)"
    if h: "grid_inv b h" "trimmed g h ?k"
      and k: "k = h\<lparr>display_offset := min (display_offset h) n, max_scroll_limit := n\<rparr>" for h k
  proof -
    note F = trimmed_fields [OF h(2)]
    have n: "grid_history h = n" using F(7) True by simp
    have "grid_dims k = grid_dims h" unfolding k by (simp add: grid_dims_def)
    moreover have "grid_inv b k" unfolding k using n by (intro grid_inv_limit h(1)) simp
    ultimately show ?thesis using h(2) n True F(1-6) unfolding k trimmed_def by simp
  qed
  show ?thesis
    by (simp add: update_history_def Let_def True,
        rule ok_mono [OF grid_shrink_ok [OF assms, of ?k]], simp, elim conjE, drule (1) step, rule refl,
        use True in simp)
next
  case False
  then show ?thesis using grid_inv_limit [OF assms, of n]
    by (simp add: update_history_def Let_def grid_dims_def)
qed

lemma clear_history_ok:
  assumes "grid_inv b g"
  shows "ok (clear_history g) (\<lambda>h. grid_inv b h \<and> grid_history h = 0 \<and> display_offset h = 0
    \<and> same_but_rows (g\<lparr>display_offset := 0\<rparr>) h \<and> (\<forall>l \<ge> 0. grid_lines h l = grid_lines g l))"
proof -
  have "grid_inv b (g\<lparr>raw := st, display_offset := 0\<rparr>)" if "grid_inv b (g\<lparr>raw := st\<rparr>)" for st
    using that by simp
  moreover have "same_but_rows (g\<lparr>display_offset := 0\<rparr>) (g\<lparr>raw := st, display_offset := 0\<rparr>)" for st
    by (simp add: same_but_rows_def)
  ultimately show ?thesis using grid_shrink_ok [OF assms order_refl]
    by (auto simp: clear_history_def trimmed_def elim!: ok_mono)
qed

lemma decrease_scroll_limit_ok:
  assumes "grid_inv b g"
  shows "ok (decrease_scroll_limit n g) (\<lambda>h. grid_inv b h
    \<and> grid_history h = grid_history g - n
    \<and> (display_ok g \<longrightarrow> display_ok h) \<and> g_lines h = g_lines g \<and> g_columns h = g_columns g
    \<and> max_scroll_limit h = max_scroll_limit g \<and> g_cursor h = g_cursor g
    \<and> g_saved_cursor h = g_saved_cursor g)"
proof (cases "min n (grid_history g) = 0")
  case True
  then show ?thesis using assms by (auto simp: decrease_scroll_limit_def Let_def)
next
  case False
  let ?k = "min n (grid_history g)"
  show ?thesis using False grid_shrink_ok [OF assms, of ?k]
    by (auto simp: decrease_scroll_limit_def Let_def trimmed_def display_ok_def elim!: ok_mono)
qed

lemma grid_truncate_ok:
  assumes "grid_inv b g"
  shows "ok (grid_truncate g) (\<lambda>h. grid_inv b h \<and> frame g h \<and> grid_lines h = grid_lines g
    \<and> length (st_inner (raw h)) = st_len (raw g))"
proof -
  note D = grid_okD [OF grid_inv_ok [OF assms]]
  show ?thesis
    using storage_truncate_ok [OF D(1)] grid_inv_raw [OF assms] grid_inv_rows [OF assms] storage_okD(3) [OF D(1)]
    by (auto simp: grid_truncate_def elim!: ok_mono)
qed

lemma initialize_all_ok:
  assumes "grid_inv b g"
  shows "ok (initialize_all g) (\<lambda>h. grid_inv b h \<and> grid_history h = max_scroll_limit h
    \<and> same_but_rows g h \<and> (\<forall>l \<ge> - int (grid_history g). grid_lines h l = grid_lines g l))"
proof -
  have grow: "ok (initialize cell_row_new (max_scroll_limit h - grid_history h) (g_columns h) (raw h))
      (\<lambda>st. grid_inv b (h\<lparr>raw := st\<rparr>) \<and> regrown h (h\<lparr>raw := st\<rparr>) (max_scroll_limit h - grid_history h))"
    if h: "grid_inv b h" for h
  proof (cases "max_scroll_limit h - grid_history h = 0")
    case True
    have "storage_ok (raw h)" using grid_okD(1) [OF grid_inv_ok [OF h]] .
    then have "initialize cell_row_new 0 (g_columns h) (raw h) = Some (raw h)"
      by (simp add: initialize_def storage_ok_def)
    then show ?thesis using True h by (simp add: regrown_def)
  next
    case False
    let ?k = "max_scroll_limit h - grid_history h"
    note D = grid_okD [OF grid_inv_ok [OF h]]
    have "increase_scroll_limit ?k h = map_option (\<lambda>st. h\<lparr>raw := st\<rparr>)
        (initialize cell_row_new ?k (g_columns h) (raw h))"
      using False D(5) by (cases "initialize cell_row_new ?k (g_columns h) (raw h)")
        (auto simp: increase_scroll_limit_def csub_def Let_def)
    with increase_scroll_limit_ok [OF h, of ?k] show ?thesis
      by (cases "initialize cell_row_new ?k (g_columns h) (raw h)") auto
  qed
  show ?thesis unfolding initialize_all_def
  proof (simp only: ok_bind, rule ok_mono [OF grid_truncate_ok [OF assms]], elim conjE)
    fix h assume h: "grid_inv b h" "frame g h" "grid_lines h = grid_lines g"
    note F = frame_fields [OF h(2)] and D = grid_okD [OF grid_inv_ok [OF h(1)]]
    have "grid_inv b k \<and> grid_history k = max_scroll_limit k \<and> same_but_rows g k
        \<and> (\<forall>l \<ge> - int (grid_history g). grid_lines k l = grid_lines g l)"
      if "grid_inv b k" "regrown h k (max_scroll_limit h - grid_history h)" for k
      using that h(3) F D(5) regrown_fields [OF that(2)] same_trans [OF frame_same [OF h(2)]]
      by (auto simp: regrown_def)
    note step = this
    have "ok (initialize cell_row_new (max_scroll_limit h - grid_history h) (g_columns h) (raw h))
        (\<lambda>st. ok (Some (h\<lparr>raw := st\<rparr>)) (\<lambda>k. grid_inv b k \<and> grid_history k = max_scroll_limit k
          \<and> same_but_rows g k \<and> (\<forall>l \<ge> - int (grid_history g). grid_lines k l = grid_lines g l)))"
      unfolding ok_Some using step by (intro ok_mono [OF grow [OF h(1)]]) blast
    then show "ok (csub (max_scroll_limit h) (grid_history h)) (\<lambda>room.
        ok (initialize cell_row_new room (g_columns h) (raw h)) (\<lambda>st. ok (Some (h\<lparr>raw := st\<rparr>))
          (\<lambda>h. grid_inv b h \<and> grid_history h = max_scroll_limit h
            \<and> same_but_rows g h \<and> (\<forall>l \<ge> - int (grid_history g). grid_lines h l = grid_lines g l))))"
      using D(5) by (simp only: ok_csub)
  qed
qed

lemma grid_new_ok:
  assumes "0 < n" "0 < cols"
  shows "ok (grid_new n cols limit) (\<lambda>g. grid_inv True g \<and> display_ok g \<and> grid_history g = 0
    \<and> g_lines g = n \<and> g_columns g = cols \<and> max_scroll_limit g = limit
    \<and> g_cursor g = cursor_default \<and> g_saved_cursor g = cursor_default)"
proof -
  obtain r where r: "cell_row_new cols = Some r" using assms(2) by (simp add: row_new_def ensure_def)
  have "good_row True cols r" using good_row_new [OF assms(2) r] .
  then have "row_ok cols r" "clean_row r" by (auto simp: good_row_def)
  then show ?thesis using assms r
    by (simp add: grid_new_def storage_with_capacity_def resize_with_def grid_inv_def grid_ok_def
        grid_clean_def storage_ok_def grid_dims_def history_size_def display_ok_def in_screen_def
        cursor_default_def bottommost_line_def)
qed

lemma scroll_display_ok:
  "display_ok g \<Longrightarrow> display_ok (grid_scroll_display sc g)"
  "grid_inv b (grid_scroll_display sc g) = grid_inv b g"
  by (cases sc; simp add: display_ok_def)+

section \<open>Properties\<close>

definition demo_grid :: grid where
  \<comment> \<open>three lines, four columns, up to two lines of scrollback\<close>
  "demo_grid = the (grid_new 3 4 2)"

lemma demo_grid_ok:
  "grid_inv True demo_grid" "display_ok demo_grid" "grid_history demo_grid = 0" "g_lines demo_grid = 3"
  "g_columns demo_grid = 4" "max_scroll_limit demo_grid = 2"
  using grid_new_ok [of 3 4 2] by (auto simp: demo_grid_def elim!: okE)

text \<open>
  C3 (functional): \<^verbatim>\<open>Grid::scroll_up\<close> on the region from line \<open>s\<close> to line \<open>e\<close>. Whichever of its
  strategies runs (resetting, swapping rows, rotating the ring), the lines of the region move up by the
  number of positions, the lines that come free at the bottom are blank, lines outside of
  the region keep their content, and a region that starts at the top of the screen pushes the lines that leave
  it into the scrollback, which grows up to its limit.
\<close>

theorem grid_scroll_up_lines:
  assumes "grid_inv True g" "0 \<le> s" "s \<le> e" "e \<le> int (g_lines g)" "s = 0 \<longrightarrow> int p \<le> e"
  shows "\<exists>h. grid_scroll_up s e p g = Some h \<and> grid_inv True h
    \<and> grid_history h = (if s = 0 then min (max_scroll_limit g) (grid_history g + p) else grid_history g)
    \<and> (\<forall>l. - int (grid_history h) \<le> l \<and> l < int (g_lines g) \<longrightarrow>
         grid_lines h l =
           (if e - min (int p) (e - s) \<le> l \<and> l < e then Some (blank_of g)
            else if (s \<le> l \<or> s = 0) \<and> l < e - min (int p) (e - s) then grid_lines g (l + min (int p) (e - s))
            else grid_lines g l))"
proof -
  obtain h where "grid_scroll_up s e p g = Some h" "grid_inv True h"
      "grid_history h = scroll_up_history s p g" "scrolled_up s e p g h"
    using grid_scroll_up_ok [OF assms] by (auto elim!: okE)
  then show ?thesis unfolding scroll_up_history_def scrolled_up_def Let_def by (intro exI [of _ h]) simp
qed

theorem grid_scroll_up_lines_witness:
  "\<exists>h. grid_scroll_up 0 2 1 demo_grid = Some h \<and> grid_inv True h
    \<and> grid_history h = (if (0::int) = 0 then min (max_scroll_limit demo_grid) (grid_history demo_grid + 1)
        else grid_history demo_grid)
    \<and> (\<forall>l. - int (grid_history h) \<le> l \<and> l < int (g_lines demo_grid) \<longrightarrow>
         grid_lines h l =
           (if 2 - min (int 1) (2 - 0) \<le> l \<and> l < 2 then Some (blank_of demo_grid)
            else if (0 \<le> l \<or> (0::int) = 0) \<and> l < 2 - min (int 1) (2 - 0) then grid_lines demo_grid (l + min (int 1) (2 - 0))
            else grid_lines demo_grid l))"
  by (rule grid_scroll_up_lines) (simp_all add: demo_grid_ok)

text \<open>
  C4 (functional): \<^verbatim>\<open>Grid::scroll_down\<close> moves the lines of the region down, blanks the lines that come
  free at its top and leaves every other line and the scrollback alone, with its rotating strategy for
  grids without scrollback and with its swapping strategy for the others.
\<close>

theorem grid_scroll_down_lines:
  assumes "grid_inv True g" "0 \<le> s" "s \<le> e" "e \<le> int (g_lines g)"
  shows "\<exists>h. grid_scroll_down s e p g = Some h \<and> grid_inv True h \<and> frame g h
    \<and> (\<forall>l. grid_lines h l =
           (if s \<le> l \<and> l < s + min (int p) (e - s) then Some (blank_of g)
            else if s + min (int p) (e - s) \<le> l \<and> l < e then grid_lines g (l - min (int p) (e - s))
            else grid_lines g l))"
proof -
  obtain h where "grid_scroll_down s e p g = Some h" "grid_inv True h" "frame g h" "scrolled_down s e p g h"
    using grid_scroll_down_ok [OF assms] by (auto elim!: okE)
  then show ?thesis unfolding scrolled_down_def Let_def by (intro exI [of _ h]) simp
qed

theorem grid_scroll_down_lines_witness:
  "\<exists>h. grid_scroll_down 1 3 1 demo_grid = Some h \<and> grid_inv True h \<and> frame demo_grid h
    \<and> (\<forall>l. grid_lines h l =
           (if 1 \<le> l \<and> l < 1 + min (int 1) (3 - 1) then Some (blank_of demo_grid)
            else if 1 + min (int 1) (3 - 1) \<le> l \<and> l < 3 then grid_lines demo_grid (l - min (int 1) (3 - 1))
            else grid_lines demo_grid l))"
  by (rule grid_scroll_down_lines) (simp_all add: demo_grid_ok)

text \<open>
  \<^verbatim>\<open>Grid::update_history\<close> makes the new limit effective at once: scrollback and display
  offset are cut to it, the lines that remain keep their content.
\<close>

theorem update_history_bounds:
  assumes "grid_inv b g"
  shows "\<exists>h. update_history n g = Some h \<and> grid_inv b h \<and> max_scroll_limit h = n
    \<and> grid_history h = min (grid_history g) n \<and> display_offset h = min (display_offset g) n
    \<and> (display_ok g \<longrightarrow> display_ok h)
    \<and> (\<forall>l \<ge> - int (grid_history h). grid_lines h l = grid_lines g l)"
  using update_history_ok [OF assms, of n] by (auto simp: display_ok_def elim!: okE)

theorem update_history_bounds_witness:
  "\<exists>h. update_history 1 demo_grid = Some h \<and> grid_inv True h \<and> max_scroll_limit h = 1
    \<and> grid_history h = min (grid_history demo_grid) 1 \<and> display_offset h = min (display_offset demo_grid) 1
    \<and> (display_ok demo_grid \<longrightarrow> display_ok h)
    \<and> (\<forall>l \<ge> - int (grid_history h). grid_lines h l = grid_lines demo_grid l)"
  by (rule update_history_bounds [OF demo_grid_ok(1)])

text \<open>
  Scrolling a region below the first line does not add to the scrollback, but
  \<^verbatim>\<open>Grid::scroll_up\<close> advances a display offset all the same, only bounded by the limit of the scrollback.
  The viewport then starts above the oldest line.
\<close>

theorem scroll_up_offset_escapes:
  assumes "grid_inv True g" "0 < s" "int p < e - s" "e \<le> int (g_lines g)"
    and "0 < display_offset g" "grid_history g < min (display_offset g + p) (max_scroll_limit g)"
  shows "\<exists>h. grid_scroll_up s e p g = Some h \<and> \<not> display_ok h"
proof -
  obtain h where h: "grid_scroll_up s e p g = Some h"
      "same_but_rows (g\<lparr>display_offset := scroll_up_offset s e p g\<rparr>) h"
      "grid_history h = scroll_up_history s p g"
    using grid_scroll_up_ok [OF assms(1), of s e p] assms(2,3,4) by (auto elim!: okE)
  then show ?thesis using assms(2-6) same_fields(5) [OF h(2)]
    by (simp add: display_ok_def scroll_up_offset_def scroll_up_history_def min_le_iff_disj)
qed

definition demo_back :: grid where
  \<comment> \<open>one line scrolled out of the screen, and the viewport moved up to it\<close>
  "demo_back = grid_scroll_display Scroll_Top (the (grid_scroll_up 0 3 1 demo_grid))"

lemma demo_back_ok:
  "grid_inv True demo_back" "display_offset demo_back = 1" "grid_history demo_back = 1" "g_lines demo_back = 3"
  "max_scroll_limit demo_back = 2"
proof -
  obtain h where h: "grid_scroll_up 0 3 1 demo_grid = Some h" "grid_inv True h"
      "same_but_rows (demo_grid\<lparr>display_offset := scroll_up_offset 0 3 1 demo_grid\<rparr>) h"
      "grid_history h = scroll_up_history 0 1 demo_grid"
    using grid_scroll_up_ok [of True demo_grid 0 3 1] by (auto simp: demo_grid_ok elim!: okE)
  have "grid_history h = 1" using h(4) by (simp add: scroll_up_history_def demo_grid_ok)
  then show "grid_inv True demo_back" "display_offset demo_back = 1" "grid_history demo_back = 1"
    "g_lines demo_back = 3" "max_scroll_limit demo_back = 2"
    using h(1,2) same_fields [OF h(3)]
    by (simp_all add: demo_back_def scroll_display_ok demo_grid_ok history_size_def grid_dims_def)
qed

theorem scroll_up_offset_escapes_witness:
  "\<exists>h. grid_scroll_up 1 3 1 demo_back = Some h \<and> \<not> display_ok h"
  by (rule scroll_up_offset_escapes) (simp_all add: demo_back_ok)

end
