(* ===== verification/Grid_View.thy ===== *)
theory Grid_View
  imports Grid
begin

text \<open>
  Access to the cells of a grid and iteration over them
  (\<^verbatim>\<open>alacritty_terminal/src/grid/mod.rs\<close>): reads and writes within the grid never panic and touch
  one row only, the iterator visits the cells in index order, and
  \<^verbatim>\<open>Grid::clear_viewport\<close> moves the used part of the screen into the scrollback.
\<close>

section \<open>Rows and cells\<close>

lemma grid_row_eq:
  "grid_ok g \<Longrightarrow> - int (grid_history g) \<le> l \<Longrightarrow> l < int (g_lines g) \<Longrightarrow> grid_row g l = grid_lines g l"
  unfolding grid_row_def by (rule storage_index_eq) (auto simp: grid_okD)

lemma grid_line_exists:
  assumes "grid_inv b g" "- int (grid_history g) \<le> l" "l < int (g_lines g)"
  obtains r where "grid_lines g l = Some r" "good_row b (g_columns g) r"
proof -
  have "l \<in> dom (grid_lines g)" using assms grid_okD(8) [OF grid_inv_ok [OF assms(1)]] by simp
  then obtain r where r: "grid_lines g l = Some r" by blast
  moreover have "r \<in> pool (raw g)" using lines_of_pool [OF grid_okD(1) [OF grid_inv_ok [OF assms(1)]] r] .
  ultimately show thesis using that grid_inv_rows [OF assms(1)] by blast
qed

lemma in_grid_iff:
  "grid_ok g \<Longrightarrow> in_grid (grid_dims g) p \<longleftrightarrow>
     - int (grid_history g) \<le> line p \<and> line p < int (g_lines g) \<and> column p < g_columns g"
  by (auto simp: in_grid_def topmost_line_def bottommost_line_def grid_dims_def)

lemma in_screen_iff:
  "in_screen (grid_dims g) p \<longleftrightarrow> 0 \<le> line p \<and> line p < int (g_lines g) \<and> column p < g_columns g"
  by (auto simp: in_screen_def bottommost_line_def grid_dims_def)

lemma grid_dims_cursor [simp]:
  "grid_dims (g\<lparr>g_cursor := c\<rparr>) = grid_dims g" "grid_dims (g\<lparr>g_saved_cursor := c\<rparr>) = grid_dims g"
  by (simp_all add: grid_dims_def)

lemma grid_inv_cursor:
  assumes "grid_inv b g" "in_screen (grid_dims g) (cur_point c)"
  shows "grid_inv b (g\<lparr>g_cursor := c\<rparr>)" "grid_inv b (g\<lparr>g_saved_cursor := c\<rparr>)"
  using assms by (simp_all add: grid_inv_def grid_ok_def grid_clean_def)

lemma grid_row_ok:
  assumes "grid_inv b g" "- int (grid_history g) \<le> l" "l < int (g_lines g)"
  shows "ok (grid_row g l) (\<lambda>r. good_row b (g_columns g) r \<and> grid_lines g l = Some r)"
  using grid_line_exists [OF assms] grid_row_eq [OF grid_inv_ok [OF assms(1)] assms(2,3)] by fastforce

lemma grid_cell_ok:
  assumes "grid_ok g" "in_grid (grid_dims g) p"
  shows "ok (grid_cell_at g p) (\<lambda>x. \<exists>r. grid_lines g (line p) = Some r \<and> x = row_inner r ! column p)"
proof -
  have p: "- int (grid_history g) \<le> line p" "line p < int (g_lines g)" "column p < g_columns g"
    using assms in_grid_iff by auto
  have "grid_inv False g" using assms(1) by simp
  from grid_row_ok [OF this p(1,2)] show ?thesis
    using p(3) by (auto simp: grid_cell_at_def good_row_def row_index_ok elim!: ok_mono)
qed

text \<open>An update of one row: it does not panic, and only that row changes.\<close>

lemma grid_row_mut_ok:
  assumes "grid_inv b g" "- int (grid_history g) \<le> l" "l < int (g_lines g)"
    and f: "\<And>r. good_row b (g_columns g) r \<Longrightarrow> ok (f r) (\<lambda>r'. good_row b (g_columns g) r' \<and> Q r r')"
  shows "ok (grid_row_mut l f g) (\<lambda>h. grid_inv b h \<and> frame g h
    \<and> (\<exists>r r'. grid_lines g l = Some r \<and> Q r r' \<and> grid_lines h = (grid_lines g)(l \<mapsto> r')))"
proof -
  note D = grid_okD [OF grid_inv_ok [OF assms(1)]]
  obtain r where r: "grid_lines g l = Some r" "good_row b (g_columns g) r"
    using grid_line_exists [OF assms(1-3)] .
  obtain r' where r': "f r = Some r'" "good_row b (g_columns g) r'" "Q r r'"
    using f [OF r(2)] by (auto elim: okE)
  show ?thesis unfolding grid_row_mut_def ok_bind ok_Some
  proof (rule ok_mono [OF storage_index_mut_ok [where f = f, OF D(1) r(1) r'(1)]], elim conjE)
    fix st assume st: "storage_ok st" "storage_shape st = storage_shape (raw g)"
      "lines_of st = (grid_lines g)(l \<mapsto> r')" "pool st \<subseteq> insert r' (pool (raw g))"
    have "\<forall>r \<in> pool st. good_row b (g_columns g) r" using st(4) r'(2) grid_inv_rows [OF assms(1)] by blast
    from grid_inv_raw [OF assms(1) st(1,2) this] st(3) r(1) r'(3)
    show "grid_inv b (g\<lparr>raw := st\<rparr>) \<and> frame g (g\<lparr>raw := st\<rparr>)
      \<and> (\<exists>r r'. grid_lines g l = Some r \<and> Q r r' \<and> grid_lines (g\<lparr>raw := st\<rparr>) = (grid_lines g)(l \<mapsto> r'))"
      by auto
  qed
qed

lemma good_row_index_mut:
  assumes "good_row b n r" "col < n"
  shows "ok (row_index_mut col f r) (\<lambda>r'. good_row b n r'
    \<and> row_inner r' = (row_inner r)[col := f (row_inner r ! col)])"
proof -
  have "row_index_mut col f r =
      Some \<lparr>row_inner = (row_inner r)[col := f (row_inner r ! col)], occ = max (occ r) (col + 1)\<rparr>"
    using assms by (simp add: row_index_mut_def good_row_def row_ok_def vec_get_def)
  moreover note row_index_mut_ok [of n r col f] cells.row_clean_index_mut [of r col f]
  ultimately show ?thesis using assms by (auto simp: good_row_def)
qed

lemma grid_cell_mut_ok:
  assumes "grid_inv b g" "in_grid (grid_dims g) p"
  shows "ok (grid_cell_mut p f g) (\<lambda>h. grid_inv b h \<and> frame g h
    \<and> (\<exists>r r'. grid_lines g (line p) = Some r \<and> grid_lines h = (grid_lines g)(line p \<mapsto> r')
         \<and> row_inner r' = (row_inner r)[column p := f (row_inner r ! column p)]))"
proof -
  have p: "- int (grid_history g) \<le> line p" "line p < int (g_lines g)" "column p < g_columns g"
    using assms in_grid_iff [OF grid_inv_ok] by auto
  show ?thesis unfolding grid_cell_mut_def
    by (rule ok_mono [OF grid_row_mut_ok [where Q = "\<lambda>r r'. row_inner r' =
          (row_inner r)[column p := f (row_inner r ! column p)]", OF assms(1) p(1,2)]])
      (auto intro!: good_row_index_mut p(3))
qed

lemma cursor_cell_mut_ok:
  assumes "grid_inv b g"
  shows "ok (cursor_cell_mut f g) (\<lambda>h. grid_inv b h \<and> frame g h)"
proof -
  have "in_grid (grid_dims g) (cur_point (g_cursor g))"
    using grid_inv_ok [OF assms] in_screen_in_grid by (simp add: grid_ok_def)
  from grid_cell_mut_ok [OF assms this, of f] show ?thesis
    unfolding cursor_cell_mut_def by (auto elim!: ok_mono)
qed

text \<open>Writes to a range of a row.\<close>

lemma good_row_range_fill:
  assumes "good_row b n r" "l \<le> u" "u \<le> n"
  shows "ok (row_range_mut l u (fill_with v) r) (\<lambda>r'. good_row b n r'
    \<and> row_inner r' = take l (row_inner r) @ replicate (u - l) v @ drop u (row_inner r))"
proof -
  let ?ys = "take l (row_inner r) @ replicate (u - l) v @ drop u (row_inner r)"
  have len: "length (row_inner r) = n" "occ r \<le> n" using assms by (auto simp: good_row_def row_ok_def)
  have "row_range_mut l u (fill_with v) r = Some \<lparr>row_inner = ?ys, occ = max (occ r) u\<rparr>"
    using assms len by (simp add: row_range_mut_def slice_mut_fill)
  moreover have "clean_row \<lparr>row_inner = ?ys, occ = max (occ r) u\<rparr>" if b
    using that assms len by (intro cells.row_clean_write [of r]) (auto simp: good_row_def)
  moreover have "row_ok n \<lparr>row_inner = ?ys, occ = max (occ r) u\<rparr>"
    using assms len by (auto simp: good_row_def row_ok_def)
  ultimately show ?thesis by (simp add: good_row_def)
qed

lemma good_row_range_to_fill:
  "good_row b n r \<Longrightarrow> u \<le> n \<Longrightarrow> ok (row_range_to_mut u (fill_with v) r) (\<lambda>r'. good_row b n r'
    \<and> row_inner r' = replicate u v @ drop u (row_inner r))"
  using good_row_range_fill [of b n r 0 u v] by (simp add: row_range_to_mut_def row_range_mut_def)

lemma good_row_range_from_fill:
  assumes "good_row b n r" "l \<le> n"
  shows "ok (row_range_from_mut l (fill_with v) r) (\<lambda>r'. good_row b n r'
    \<and> row_inner r' = take l (row_inner r) @ replicate (n - l) v)"
proof -
  have len: "length (row_inner r) = n" "occ r \<le> n" using assms by (auto simp: good_row_def row_ok_def)
  then have "row_range_from_mut l (fill_with v) r = row_range_mut l n (fill_with v) r"
    using assms by (simp add: row_range_from_mut_def row_range_mut_def max_def)
  with good_row_range_fill [OF assms order_refl, of v] len show ?thesis by simp
qed

lemma good_row_full:
  assumes "good_row b n r" "ok (f (row_inner r)) (\<lambda>ys. length ys = n \<and> Q ys)"
  shows "ok (row_range_full_mut f r) (\<lambda>r'. good_row b n r' \<and> Q (row_inner r'))"
proof -
  obtain ys where ys: "f (row_inner r) = Some ys" "length ys = n" "Q ys" using assms(2) by (auto elim: okE)
  have n: "length (row_inner r) = n" "0 < n" using assms(1) by (auto simp: good_row_def row_ok_def)
  then have "clean_row \<lparr>row_inner = ys, occ = n\<rparr>" using cells.row_clean_full [of ys] ys(2) by fastforce
  then show ?thesis using ys n by (simp add: row_range_full_mut_def good_row_def row_ok_def)
qed

section \<open>Regions\<close>

definition bound_start :: "bound \<Rightarrow> int" where
  "bound_start lo = (case lo of Included l \<Rightarrow> l | Excluded l \<Rightarrow> l + 1 | Unbounded \<Rightarrow> 0)"

definition bound_end :: "grid \<Rightarrow> bound \<Rightarrow> int" where
  "bound_end g hi = (case hi of Included l \<Rightarrow> l + 1 | Excluded l \<Rightarrow> l | Unbounded \<Rightarrow> int (g_lines g))"

lemma reset_region_ok:
  assumes "grid_inv b g" "- int (grid_history g) \<le> bound_start lo" "bound_start lo < int (g_lines g)"
    "bound_end g hi \<le> int (g_lines g)"
  shows "ok (reset_region lo hi g) (\<lambda>h. grid_inv b h \<and> frame g h
    \<and> (\<forall>l. \<not> (bound_start lo \<le> l \<and> l < bound_end g hi) \<longrightarrow> grid_lines h l = grid_lines g l)
    \<and> (b \<longrightarrow> (\<forall>l. bound_start lo \<le> l \<and> l < bound_end g hi \<longrightarrow> grid_lines h l = Some (blank_of g))))"
proof -
  have "set (irange (bound_start lo) (bound_end g hi)) \<subseteq> dom (grid_lines g)"
    using range_in_lines [OF grid_inv_ok [OF assms(1)]] assms by simp
  from reset_lines_ok [OF assms(1) this distinct_upto] show ?thesis using assms(3,4)
    unfolding reset_region_def Let_def bound_start_def [symmetric] bound_end_def [symmetric]
    by (auto elim!: ok_mono)
qed

lemma grid_reset_ok:
  assumes "grid_inv b g"
  shows "ok (grid_reset g) (\<lambda>h. grid_inv b h \<and> grid_history h = 0 \<and> display_offset h = 0
    \<and> g_cursor h = cursor_default \<and> g_saved_cursor h = cursor_default \<and> g_lines h = g_lines g
    \<and> g_columns h = g_columns g \<and> max_scroll_limit h = max_scroll_limit g
    \<and> (b \<longrightarrow> (\<forall>l. 0 \<le> l \<and> l < int (g_lines g) \<longrightarrow>
          grid_lines h l = Some (blank_row (g_columns g) (Named Background)))))"
  unfolding grid_reset_def Let_def
proof (simp only: ok_bind, rule ok_mono [OF clear_history_ok [OF assms]], elim conjE)
  fix h assume h: "grid_inv b h" "grid_history h = 0" "same_but_rows (g\<lparr>display_offset := 0\<rparr>) h"
  let ?k = "h\<lparr>g_saved_cursor := cursor_default, g_cursor := cursor_default, display_offset := 0\<rparr>"
  have D: "grid_dims ?k = grid_dims h" by (simp add: grid_dims_def)
  note F = same_fields [OF h(3)]
  have "in_screen (grid_dims h) (cur_point cursor_default)"
    using grid_okD(3,4) [OF grid_inv_ok [OF h(1)]] by (simp add: cursor_default_def in_screen_iff)
  then have k: "grid_inv b ?k" using h(1) by (simp add: grid_inv_cursor)
  have sub: "set (irange (topmost_line (grid_dims ?k)) (int (g_lines ?k))) \<subseteq> dom (grid_lines ?k)"
    using range_in_lines [OF grid_inv_ok [OF k]] by (simp only: topmost_line_def)
  have top: "topmost_line (grid_dims ?k) = 0" using h(2) D by (simp add: topmost_line_def)
  show "ok (reset_lines (irange (topmost_line (grid_dims ?k)) (int (g_lines ?k))) ?k)
    (\<lambda>h. grid_inv b h \<and> grid_history h = 0 \<and> display_offset h = 0
    \<and> g_cursor h = cursor_default \<and> g_saved_cursor h = cursor_default \<and> g_lines h = g_lines g
    \<and> g_columns h = g_columns g \<and> max_scroll_limit h = max_scroll_limit g
    \<and> (b \<longrightarrow> (\<forall>l. 0 \<le> l \<and> l < int (g_lines g) \<longrightarrow>
          grid_lines h l = Some (blank_row (g_columns g) (Named Background)))))"
  proof (rule ok_mono [OF reset_lines_ok [OF k sub distinct_upto]], elim conjE)
    fix w assume w: "grid_inv b w" "frame ?k w"
      "b \<longrightarrow> (\<forall>l \<in> set (irange (topmost_line (grid_dims ?k)) (int (g_lines ?k))).
        grid_lines w l = Some (blank_of ?k))"
    note W = frame_fields [OF w(2)]
    have "cell_bg (cur_template cursor_default) = Named Background"
      by (simp add: cursor_default_def cell_default_def)
    with w(1,3) W F h(2) D top
    show "grid_inv b w \<and> grid_history w = 0 \<and> display_offset w = 0
      \<and> g_cursor w = cursor_default \<and> g_saved_cursor w = cursor_default \<and> g_lines w = g_lines g
      \<and> g_columns w = g_columns g \<and> max_scroll_limit w = max_scroll_limit g
      \<and> (b \<longrightarrow> (\<forall>l. 0 \<le> l \<and> l < int (g_lines g) \<longrightarrow>
            grid_lines w l = Some (blank_row (g_columns g) (Named Background))))"
      by simp
  qed
qed

section \<open>Iteration\<close>

text \<open>
  The position of an iterator: a point of the grid, one column past the end of a line
  (\<^verbatim>\<open>clear_viewport\<close> starts there), or the end of the line above the grid
  (\<^verbatim>\<open>display_iter\<close> starts there).
\<close>

definition iter_position :: "grid \<Rightarrow> point \<Rightarrow> bool" where
  "iter_position g p \<longleftrightarrow>
     (topmost_line (grid_dims g) \<le> line p \<or> topmost_line (grid_dims g) = line p + 1 \<and> g_columns g \<le> column p + 1)
     \<and> line p \<le> bottommost_line (grid_dims g) \<and> column p \<le> g_columns g"

lemma cell_index_grid:
  "cell_index (grid_dims g) p = (line p - topmost_line (grid_dims g)) * int (g_columns g) + int (column p)"
  by (simp add: cell_index_def grid_dims_def)

lemma iter_prev_ok:
  assumes "grid_ok g" "iter_position g (it_point it)" "topmost_line (grid_dims g) \<le> line (it_point it)"
  shows "ok (iter_prev g it) (\<lambda>(res, it').
    if it_point it \<le> Point (topmost_line (grid_dims g)) 0 then res = None \<and> it' = it
    else in_grid (grid_dims g) (it_point it')
      \<and> cell_index (grid_dims g) (it_point it') = cell_index (grid_dims g) (it_point it) - 1
      \<and> it_end it' = it_end it
      \<and> res = map_option (\<lambda>x. (it_point it', x)) (grid_cell_at g (it_point it')) \<and> res \<noteq> None)"
proof -
  let ?d = "grid_dims g" and ?p = "it_point it" and ?n = "g_columns g"
  note D = grid_okD [OF assms(1)]
  have cols: "columns ?d = ?n" by (simp add: grid_dims_def)
  have last: "last_column ?d = Some (?n - 1)" using D(6) cols by simp
  show ?thesis
  proof (cases "?p \<le> Point (topmost_line ?d) 0")
    case True
    then show ?thesis by (simp add: iter_prev_def last Let_def)
  next
    case False
    define q where "q = (if column ?p = 0 then Point (line ?p - 1) (?n - 1) else Point (line ?p) (column ?p - 1))"
    have q: "in_grid ?d q"
      using False assms(2,3) D(3) cols
      by (auto simp: q_def in_grid_def iter_position_def less_eq_point_def)
    have idx: "cell_index ?d q = cell_index ?d ?p - 1"
      using D(3) by (auto simp: q_def cell_index_grid algebra_simps of_nat_diff)
    obtain x where x: "grid_cell_at g q = Some x" using grid_cell_ok [OF assms(1) q] by (auto elim: okE)
    have "iter_prev g it = Some (Some (q, x), it\<lparr>it_point := q\<rparr>)"
      using False x by (auto simp: iter_prev_def last Let_def q_def split: if_splits)
    then show ?thesis using False q idx x by simp
  qed
qed

lemma iter_next_ok:
  assumes "grid_ok g" "iter_position g (it_point it)" "in_grid (grid_dims g) (it_end it)"
  shows "ok (iter_next g it) (\<lambda>(res, it').
    if it_point it \<ge> it_end it then res = None \<and> it' = it
    else in_grid (grid_dims g) (it_point it') \<and> it_point it' \<le> it_end it
      \<and> cell_index (grid_dims g) (it_point it') =
          (if column (it_point it) = g_columns g then cell_index (grid_dims g) (it_point it)
           else cell_index (grid_dims g) (it_point it) + 1)
      \<and> it_end it' = it_end it
      \<and> res = map_option (\<lambda>x. (it_point it', x)) (grid_cell_at g (it_point it')) \<and> res \<noteq> None)"
proof -
  let ?d = "grid_dims g" and ?p = "it_point it" and ?n = "g_columns g" and ?e = "it_end it"
  note D = grid_okD [OF assms(1)]
  have cols: "columns ?d = ?n" by (simp add: grid_dims_def)
  have last: "last_column ?d = Some (?n - 1)" using D(6) cols by simp
  show ?thesis
  proof (cases "?p \<ge> ?e")
    case True
    then show ?thesis by (simp add: iter_next_def)
  next
    case False
    define q where "q = (if column ?p \<ge> ?n - 1 then Point (line ?p + 1) 0 else Point (line ?p) (column ?p + 1))"
    have q: "in_grid ?d q" "q \<le> ?e"
      using False assms(2,3) D(3) cols
      by (auto simp: q_def in_grid_def iter_position_def less_eq_point_def not_le)
    have idx: "cell_index ?d q = (if column ?p = ?n then cell_index ?d ?p else cell_index ?d ?p + 1)"
      using D(3) assms(2) by (auto simp: q_def cell_index_grid algebra_simps of_nat_diff iter_position_def)
    obtain x where x: "grid_cell_at g q = Some x" using grid_cell_ok [OF assms(1) q(1)] by (auto elim: okE)
    have "iter_next g it = Some (Some (q, x), it\<lparr>it_point := q\<rparr>)"
      using False x by (auto simp: iter_next_def last Let_def q_def split: if_splits)
    then show ?thesis using False q idx x by simp
  qed
qed

lemma iter_size_hint_ok:
  assumes "it_point it < it_end it" "column (it_point it) < g_columns g"
  shows "ok (iter_size_hint g it) (\<lambda>n. int n =
    cell_index (grid_dims g) (it_end it) - cell_index (grid_dims g) (it_point it))"
proof (cases "line (it_point it) = line (it_end it)")
  case True
  then show ?thesis using assms by (auto simp: iter_size_hint_def Let_def less_point_def less_eq_point_def cell_index_grid)
next
  case False
  let ?p = "it_point it" and ?e = "it_end it" and ?n = "g_columns g"
  obtain k where k: "line ?e = line ?p + 1 + int k"
    using False assms(1) zle_iff_zadd [of "line ?p + 1" "line ?e"] by (auto simp: less_point_def)
  have "int (?n - (column ?p + 1)) = int ?n - int (column ?p) - 1" using assms(2) by simp
  moreover have "\<not> ?p \<ge> ?e" using assms(1) by simp
  ultimately show ?thesis using False k
    by (simp add: iter_size_hint_def Let_def cell_index_grid algebra_simps nat_add_distrib)
qed

lemma display_iter_ok:
  assumes "grid_ok g" "display_ok g"
  shows "ok (display_iter g) (\<lambda>it. iter_position g (it_point it) \<and> in_grid (grid_dims g) (it_end it)
    \<and> column (it_point it) < g_columns g \<and> it_point it < it_end it
    \<and> line (it_point it) = - int (display_offset g) - 1
    \<and> cell_index (grid_dims g) (it_end it) - cell_index (grid_dims g) (it_point it)
        = int (g_lines g) * int (g_columns g))"
proof -
  let ?d = "grid_dims g"
  note D = grid_okD [OF assms(1)]
  have last: "last_column ?d = Some (g_columns g - 1)" using D(6) by (simp add: grid_dims_def)
  have e: "min (- int (display_offset g) - 1 + int (g_lines g)) (bottommost_line ?d) =
      int (g_lines g) - 1 - int (display_offset g)"
    by (simp add: bottommost_line_def grid_dims_def)
  have "int (display_offset g) \<le> int (grid_history g)" using assms(2) by (simp add: display_ok_def)
  then show ?thesis using D(3,4)
    by (simp add: display_iter_def last e Let_def iter_position_def in_grid_def cell_index_grid
        less_point_def topmost_line_def algebra_simps of_nat_diff)
      (auto simp: grid_dims_def bottommost_line_def algebra_simps)
qed

section \<open>Clearing the viewport\<close>

text \<open>\<^verbatim>\<open>last_content\<close> stops at the last non-empty cell of the screen, or above the screen.\<close>

lemma last_content_ok:
  assumes "grid_ok g" "iter_position g (it_point it)" "0 \<le> line (it_point it)"
  shows "ok (last_content g it) (\<lambda>it'. -1 \<le> line (it_point it') \<and> it_point it' \<le> it_point it
    \<and> (\<forall>q. it_point it' < q \<and> q < it_point it \<and> in_screen (grid_dims g) q \<longrightarrow>
         ok (grid_cell_at g q) cell_is_empty))"
  using assms
proof (induction g it rule: last_content.induct)
  case (1 g it)
  let ?d = "grid_dims g" and ?p = "it_point it"
  have top: "topmost_line ?d \<le> 0" by (simp add: topmost_line_def)
  then obtain res it' where prev: "iter_prev g it = Some (res, it')"
    and spec: "if ?p \<le> Point (topmost_line ?d) 0 then res = None \<and> it' = it
      else in_grid ?d (it_point it') \<and> cell_index ?d (it_point it') = cell_index ?d ?p - 1
        \<and> it_end it' = it_end it
        \<and> res = map_option (\<lambda>x. (it_point it', x)) (grid_cell_at g (it_point it')) \<and> res \<noteq> None"
    using iter_prev_ok [OF 1(2,3)] 1(4) by (auto elim!: okE)
  show ?case
  proof (cases "?p \<le> Point (topmost_line ?d) 0")
    case True
    then show ?thesis using 1(4) prev spec by (subst last_content.simps) auto
  next
    case False
    note D = grid_okD [OF 1(2)]
    from False spec obtain x where q: "in_grid ?d (it_point it')" and x: "grid_cell_at g (it_point it') = Some x"
      "res = Some (it_point it', x)" by auto
    have p': "it_point it' = (if column ?p = 0 then Point (line ?p - 1) (g_columns g - 1)
        else Point (line ?p) (column ?p - 1))"
      using prev x(2) by (auto simp: iter_prev_def last_column_def csub_def grid_dims_def Let_def
          split: if_splits bind_splits)
    have lt: "it_point it' < ?p" "-1 \<le> line (it_point it')"
      using p' 1(4) by (auto simp: less_point_def)
    have gap: "q \<le> it_point it'" if "q < ?p" "in_screen ?d q" for q
      using that p' by (auto simp: less_point_def less_eq_point_def in_screen_iff)
    show ?thesis
    proof (cases "\<not> cell_is_empty x \<or> line (it_point it') < 0")
      case True
      have "last_content g it = Some it'" using prev x True by (subst last_content.simps) simp
      then show ?thesis using lt gap by (auto simp: less_imp_le not_le [symmetric])
    next
      case cont: False
      have pos: "iter_position g (it_point it')"
        using q in_grid_iff [OF 1(2)] by (auto simp: iter_position_def in_grid_def grid_dims_def)
      from 1(1) [of "(res, it')" res it' "(it_point it', x)" "it_point it'" x] prev x cont 1(2) pos
      have IH: "ok (last_content g it') (\<lambda>it2. -1 \<le> line (it_point it2) \<and> it_point it2 \<le> it_point it'
        \<and> (\<forall>q. it_point it2 < q \<and> q < it_point it' \<and> in_screen ?d q \<longrightarrow>
             ok (grid_cell_at g q) cell_is_empty))" by simp
      have "last_content g it = last_content g it'" using prev x cont by (subst last_content.simps) simp
      moreover have "ok (grid_cell_at g q) cell_is_empty"
        if "it_point it2 < q" "q < ?p" "in_screen ?d q"
          "\<forall>q. it_point it2 < q \<and> q < it_point it' \<and> in_screen ?d q \<longrightarrow> ok (grid_cell_at g q) cell_is_empty"
        for it2 q
        using that gap [OF that(2,3)] x cont by (cases "q = it_point it'") auto
      ultimately show ?thesis using IH lt by (auto elim!: ok_mono intro: order_trans less_imp_le)
    qed
  qed
qed

lemma clear_viewport_ok:
  assumes "grid_inv b g"
  shows "ok (clear_viewport g) (\<lambda>h. grid_inv b h \<and> (\<exists>n \<le> g_lines g.
      (\<forall>q. int n \<le> line q \<and> in_screen (grid_dims g) q \<longrightarrow> ok (grid_cell_at g q) cell_is_empty)
    \<and> same_but_rows (g\<lparr>display_offset := scroll_up_offset 0 (int (g_lines g)) n g\<rparr>) h
    \<and> grid_history h = min (max_scroll_limit g) (grid_history g + n)
    \<and> (b \<longrightarrow> (\<forall>l. 0 \<le> l \<and> l < int (g_lines g) \<longrightarrow> grid_lines h l = Some (blank_of g))
          \<and> (\<forall>l. - int (grid_history h) \<le> l \<and> l < 0 \<longrightarrow> grid_lines h l = grid_lines g (l + int n)))))"
proof -
  let ?S = "int (g_lines g)" and ?d = "grid_dims g" and ?start = "Point (int (g_lines g) - 1) (g_columns g)"
  note D = grid_okD [OF grid_inv_ok [OF assms]]
  have last: "last_column ?d = Some (g_columns g - 1)" using D(6) by (simp add: grid_dims_def)
  obtain it0 where it0: "iter_from g ?start = Some it0" "it_point it0 = ?start"
    by (simp add: iter_from_def last)
  have "iter_position g ?start" "0 \<le> line ?start"
    using D(4) by (simp_all add: iter_position_def topmost_line_def bottommost_line_def)
      (simp_all add: grid_dims_def)
  with last_content_ok [OF grid_inv_ok [OF assms], of it0] it0(2)
  obtain it where it: "last_content g it0 = Some it" "-1 \<le> line (it_point it)" "it_point it \<le> ?start"
    "\<forall>q. it_point it < q \<and> q < ?start \<and> in_screen ?d q \<longrightarrow> ok (grid_cell_at g q) cell_is_empty"
    by (auto elim: okE)
  define n where "n = nat (line (it_point it) + 1)"
  have n: "int n = line (it_point it) + 1" "n \<le> g_lines g" "int n \<le> ?S"
    using it(2,3) by (auto simp: n_def less_eq_point_def)
  have empty: "\<forall>q. int n \<le> line q \<and> in_screen ?d q \<longrightarrow> ok (grid_cell_at g q) cell_is_empty"
  proof (intro allI impI)
    fix q assume q: "int n \<le> line q \<and> in_screen ?d q"
    then have "it_point it < q" "q < ?start" using n(1) by (auto simp: less_point_def in_screen_iff)
    with q it(4) show "ok (grid_cell_at g q) cell_is_empty" by blast
  qed
  have "grid_inv b g" "0 \<le> (0::int)" "0 \<le> ?S" "?S \<le> ?S" "(0::int) = 0 \<longrightarrow> int n \<le> ?S"
    using assms n by auto
  note up = grid_scroll_up_ok [OF this]
  have "clear_viewport g = grid_scroll_up 0 ?S n g \<bind> (\<lambda>h. csub (g_lines h) n \<bind>
      (\<lambda>rest. reset_lines (irange 0 (int rest)) h))"
    using it(1,2) it0(1) by (simp add: clear_viewport_def Let_def ensure_def n_def)
  also have "ok \<dots> (\<lambda>h. grid_inv b h \<and>
      same_but_rows (g\<lparr>display_offset := scroll_up_offset 0 ?S n g\<rparr>) h
    \<and> grid_history h = min (max_scroll_limit g) (grid_history g + n)
    \<and> (b \<longrightarrow> (\<forall>l. 0 \<le> l \<and> l < ?S \<longrightarrow> grid_lines h l = Some (blank_of g))
          \<and> (\<forall>l. - int (grid_history h) \<le> l \<and> l < 0 \<longrightarrow> grid_lines h l = grid_lines g (l + int n))))"
  proof (simp only: ok_bind, rule ok_mono [OF up], elim conjE)
    fix h assume h: "grid_inv b h" "same_but_rows (g\<lparr>display_offset := scroll_up_offset 0 ?S n g\<rparr>) h"
      "grid_history h = scroll_up_history 0 n g" "b \<longrightarrow> scrolled_up 0 ?S n g h"
    note F = same_fields [OF h(2)]
    have sub: "set (irange 0 (int (g_lines h - n))) \<subseteq> dom (grid_lines h)"
      by (intro range_in_lines [OF grid_inv_ok [OF h(1)]]) auto
    have step: "grid_inv b k \<and> same_but_rows (g\<lparr>display_offset := scroll_up_offset 0 ?S n g\<rparr>) k
      \<and> grid_history k = min (max_scroll_limit g) (grid_history g + n)
      \<and> (b \<longrightarrow> (\<forall>l. 0 \<le> l \<and> l < ?S \<longrightarrow> grid_lines k l = Some (blank_of g))
          \<and> (\<forall>l. - int (grid_history k) \<le> l \<and> l < 0 \<longrightarrow> grid_lines k l = grid_lines g (l + int n)))"
      if k: "grid_inv b k \<and> frame h k
        \<and> (\<forall>l. l \<notin> set (irange 0 (int (g_lines h - n))) \<longrightarrow> grid_lines k l = grid_lines h l)
        \<and> (b \<longrightarrow> (\<forall>l \<in> set (irange 0 (int (g_lines h - n))). grid_lines k l = Some (blank_of h)))" for k
    proof -
      have "grid_history k = grid_history h" using k frame_fields(7) by metis
      moreover have "grid_lines k l = Some (blank_of g)" if "b" "0 \<le> l" "l < ?S" for l
        using that k h(4) F(1,3,4) n(3) by (cases "l < ?S - int n") (auto simp: scrolled_up_def Let_def)
      moreover have "grid_lines k l = grid_lines g (l + int n)"
        if "b" "- int (grid_history h) \<le> l" "l < 0" for l
        using that k h(4) n(3) by (auto simp: scrolled_up_def Let_def)
      ultimately show ?thesis using k h(3) same_trans [OF h(2)] frame_same
        by (auto simp: scroll_up_history_def)
    qed
    show "ok (csub (g_lines h) n) (\<lambda>rest. ok (reset_lines (irange 0 (int rest)) h)
      (\<lambda>k. grid_inv b k \<and> same_but_rows (g\<lparr>display_offset := scroll_up_offset 0 ?S n g\<rparr>) k
      \<and> grid_history k = min (max_scroll_limit g) (grid_history g + n)
      \<and> (b \<longrightarrow> (\<forall>l. 0 \<le> l \<and> l < ?S \<longrightarrow> grid_lines k l = Some (blank_of g))
          \<and> (\<forall>l. - int (grid_history k) \<le> l \<and> l < 0 \<longrightarrow> grid_lines k l = grid_lines g (l + int n)))))"
      unfolding ok_csub
      by (rule conjI, use F(4) n(2) in simp, rule ok_mono [OF reset_lines_ok [OF h(1) sub distinct_upto] step])
  qed
  finally show ?thesis by (rule ok_mono) (use n(2) empty in blast)
qed

section \<open>Drawing the viewport\<close>

text \<open>
  The renderer's loop over \<^verbatim>\<open>display_iter\<close>: up to \<open>n\<close> calls of \<^verbatim>\<open>next\<close>, with the items they return.
\<close>

fun iter_take :: "nat \<Rightarrow> grid \<Rightarrow> grid_iter \<Rightarrow> ((point \<times> cell) list \<times> grid_iter) option" where
  "iter_take 0 g it = Some ([], it)"
| "iter_take (Suc n) g it = do {
     (res, it) \<leftarrow> iter_next g it;
     case res of
       None \<Rightarrow> Some ([], it)
     | Some x \<Rightarrow> do {
         (xs, it) \<leftarrow> iter_take n g it;
         Some (x # xs, it)
       }
   }"

text \<open>The positions of the viewport in reading order.\<close>

definition viewport_points :: "grid \<Rightarrow> point list" where
  "viewport_points g =
     map (\<lambda>k. Point (int (k div g_columns g) - int (display_offset g)) (k mod g_columns g))
         [0..<g_lines g * g_columns g]"

lemma iter_take_ok:
  assumes "grid_ok g" "iter_position g (it_point it)" "in_grid (grid_dims g) (it_end it)"
    "column (it_point it) < g_columns g"
    "cell_index (grid_dims g) (it_end it) - cell_index (grid_dims g) (it_point it) = int n"
  shows "ok (iter_take n g it) (\<lambda>(xs, it'). it_point it' = it_end it \<and> it_end it' = it_end it
    \<and> length xs = n
    \<and> (\<forall>k < n. in_grid (grid_dims g) (fst (xs ! k))
          \<and> cell_index (grid_dims g) (fst (xs ! k)) = cell_index (grid_dims g) (it_point it) + 1 + int k
          \<and> grid_cell_at g (fst (xs ! k)) = Some (snd (xs ! k))))"
  using assms(2-)
proof (induction n arbitrary: it)
  case 0
  note d = grid_okD(6) [OF assms(1)]
  have cols: "column (it_end it) < columns (grid_dims g)" "column (it_point it) < columns (grid_dims g)"
    using 0 by (auto simp: in_grid_def grid_dims_def)
  then have "it_end it = it_point it"
    using 0(4) cell_index_le_iff [OF cols] cell_index_le_iff [OF cols(2,1)] by simp
  then show ?case by simp
next
  case (Suc n)
  have cols: "column (it_end it) < columns (grid_dims g)" "column (it_point it) < columns (grid_dims g)"
    using Suc.prems by (auto simp: in_grid_def grid_dims_def)
  then have lt: "\<not> it_point it \<ge> it_end it"
    using Suc.prems(4) cell_index_le_iff [OF cols] by simp
  obtain x it' where n: "iter_next g it = Some (Some (it_point it', x), it')"
    and it': "in_grid (grid_dims g) (it_point it')" "it_end it' = it_end it"
      "cell_index (grid_dims g) (it_point it') = cell_index (grid_dims g) (it_point it) + 1"
      "grid_cell_at g (it_point it') = Some x"
    using iter_next_ok [OF assms(1) Suc.prems(1,2)] lt Suc.prems(3) by (auto elim!: okE)
  have pos: "iter_position g (it_point it')" "column (it_point it') < g_columns g"
    using it'(1) by (auto simp: iter_position_def in_grid_def grid_dims_def)
  obtain xs it'' where t: "iter_take n g it' = Some (xs, it'')" "it_point it'' = it_end it" "it_end it'' = it_end it"
      "length xs = n"
      "\<And>k. k < n \<Longrightarrow> in_grid (grid_dims g) (fst (xs ! k))
          \<and> cell_index (grid_dims g) (fst (xs ! k)) = cell_index (grid_dims g) (it_point it') + 1 + int k
          \<and> grid_cell_at g (fst (xs ! k)) = Some (snd (xs ! k))"
    using Suc.IH [OF pos(1) _ pos(2)] it' Suc.prems(2,4) by (auto elim!: okE)
  show ?case using n t it' by (auto simp: nth_Cons split: nat.split)
qed

lemma viewport_index:
  assumes "grid_ok g" "display_ok g" "k < g_lines g * g_columns g"
  shows "in_grid (grid_dims g) (viewport_points g ! k)"
    "cell_index (grid_dims g) (viewport_points g ! k) =
       (int (grid_history g) - int (display_offset g)) * int (g_columns g) + int k"
proof -
  have "0 < g_columns g" using assms(1) by (rule grid_okD)
  moreover have "k div g_columns g < g_lines g" using assms(3) by (simp add: less_mult_imp_div_less)
  ultimately show "in_grid (grid_dims g) (viewport_points g ! k)"
    using assms by (simp add: in_grid_iff viewport_points_def display_ok_def)
  have "int k = int (k div g_columns g) * int (g_columns g) + int (k mod g_columns g)"
    by (metis div_mult_mod_eq of_nat_add of_nat_mult)
  then show "cell_index (grid_dims g) (viewport_points g ! k) =
       (int (grid_history g) - int (display_offset g)) * int (g_columns g) + int k"
    using assms(3) by (simp add: viewport_points_def cell_index_grid topmost_line_def algebra_simps)
qed

lemma display_iter_items:
  assumes "grid_ok g" "display_ok g"
  shows "ok (display_iter g) (\<lambda>it. iter_size_hint g it = Some (g_lines g * g_columns g)
    \<and> ok (iter_take (g_lines g * g_columns g) g it) (\<lambda>(xs, it'). map fst xs = viewport_points g
        \<and> (\<forall>(p, x) \<in> set xs. grid_cell_at g p = Some x) \<and> iter_next g it' = Some (None, it')))"
proof -
  let ?n = "g_lines g * g_columns g" and ?d = "grid_dims g"
  obtain it where it: "display_iter g = Some it" "iter_position g (it_point it)" "in_grid ?d (it_end it)"
      "column (it_point it) < g_columns g" "it_point it < it_end it"
      "line (it_point it) = - int (display_offset g) - 1"
      "cell_index ?d (it_end it) - cell_index ?d (it_point it) = int ?n"
    using display_iter_ok [OF assms] by (auto elim!: okE)
  obtain xs it' where xs: "iter_take ?n g it = Some (xs, it')" "it_point it' = it_end it" "it_end it' = it_end it"
      "length xs = ?n"
      "\<And>k. k < ?n \<Longrightarrow> in_grid ?d (fst (xs ! k))
          \<and> cell_index ?d (fst (xs ! k)) = cell_index ?d (it_point it) + 1 + int k
          \<and> grid_cell_at g (fst (xs ! k)) = Some (snd (xs ! k))"
    using iter_take_ok [OF assms(1) it(2-4,7)] by (auto elim!: okE)
  have last: "column (it_point it) = g_columns g - 1"
    using it(1) by (auto simp: display_iter_def last_column_def grid_dims_def csub_def Let_def
        split: bind_splits if_splits)
  have start: "cell_index ?d (it_point it) + 1 =
      (int (grid_history g) - int (display_offset g)) * int (g_columns g)"
    using grid_okD(3) [OF assms(1)] unfolding cell_index_grid it(6) last
    by (simp add: topmost_line_def algebra_simps of_nat_diff)
  have "fst (xs ! k) = viewport_points g ! k" if k: "k < ?n" for k
    using xs(5) [OF k] viewport_index [OF assms k] start
    by (intro cell_index_inj [OF grid_okD(6) [OF assms(1)]]) simp_all
  then have "map fst xs = viewport_points g"
    using xs(4) by (intro nth_equalityI) (auto simp: viewport_points_def)
  moreover have "\<forall>(p, x) \<in> set xs. grid_cell_at g p = Some x"
    using xs(4,5) by (auto simp: in_set_conv_nth) (metis fst_conv snd_conv)
  moreover have "iter_size_hint g it = Some ?n"
    using iter_size_hint_ok [OF it(5,4)] unfolding it(7) by (auto elim!: okE simp only: of_nat_eq_iff)
  moreover have "iter_next g it' = Some (None, it')" using xs(2,3) by (simp add: iter_next_def)
  ultimately show ?thesis using it(1) xs(1) by simp
qed

section \<open>Properties\<close>

text \<open>
  C15 (functional): drawing visits every cell of the viewport exactly once and in reading order, with the
  cell's content, and stops there; the iterator announces the exact number of cells beforehand.
\<close>

theorem display_iter_viewport:
  assumes "grid_ok g" "display_ok g"
  shows "\<exists>it xs it'. display_iter g = Some it
    \<and> iter_size_hint g it = Some (g_lines g * g_columns g)
    \<and> iter_take (g_lines g * g_columns g) g it = Some (xs, it')
    \<and> map fst xs = viewport_points g \<and> (\<forall>(p, x) \<in> set xs. grid_cell_at g p = Some x)
    \<and> iter_next g it' = Some (None, it')"
  using display_iter_items [OF assms] by (auto simp: ok_iff)

theorem display_iter_viewport_witness:
  "\<exists>it xs it'. display_iter demo_back = Some it
    \<and> iter_size_hint demo_back it = Some (g_lines demo_back * g_columns demo_back)
    \<and> iter_take (g_lines demo_back * g_columns demo_back) demo_back it = Some (xs, it')
    \<and> map fst xs = viewport_points demo_back \<and> (\<forall>(p, x) \<in> set xs. grid_cell_at demo_back p = Some x)
    \<and> iter_next demo_back it' = Some (None, it')"
  by (rule display_iter_viewport)
    (simp_all add: demo_back_ok grid_inv_ok [OF demo_back_ok(1)] display_ok_def)

text \<open>
  \<^verbatim>\<open>Grid::clear_viewport\<close> leaves a blank screen. The lines it pushes into the scrollback are the
  first \<open>n\<close> lines of the screen, in order, and every line it does not push was empty: no text is lost
  but what the limit of the scrollback cuts off.
\<close>

theorem clear_viewport_saves:
  assumes "grid_inv True g"
  shows "\<exists>h n. clear_viewport g = Some h \<and> grid_inv True h \<and> n \<le> g_lines g
    \<and> grid_history h = min (max_scroll_limit g) (grid_history g + n)
    \<and> (\<forall>l. 0 \<le> l \<and> l < int (g_lines g) \<longrightarrow> grid_lines h l = Some (blank_of g))
    \<and> (\<forall>l. - int (grid_history h) \<le> l \<and> l < 0 \<longrightarrow> grid_lines h l = grid_lines g (l + int n))
    \<and> (\<forall>q. int n \<le> line q \<and> in_screen (grid_dims g) q \<longrightarrow>
         (\<exists>x. grid_cell_at g q = Some x \<and> cell_is_empty x))"
proof -
  obtain h n where hn: "clear_viewport g = Some h" "grid_inv True h" "n \<le> g_lines g"
      "\<forall>q. int n \<le> line q \<and> in_screen (grid_dims g) q \<longrightarrow> ok (grid_cell_at g q) cell_is_empty"
      "grid_history h = min (max_scroll_limit g) (grid_history g + n)"
      "\<forall>l. 0 \<le> l \<and> l < int (g_lines g) \<longrightarrow> grid_lines h l = Some (blank_of g)"
      "\<forall>l. - int (grid_history h) \<le> l \<and> l < 0 \<longrightarrow> grid_lines h l = grid_lines g (l + int n)"
    using clear_viewport_ok [OF assms] by (auto elim!: okE)
  then show ?thesis by (intro exI [of _ h] exI [of _ n]) (auto simp: ok_iff)
qed

theorem clear_viewport_saves_witness:
  "\<exists>h n. clear_viewport demo_back = Some h \<and> grid_inv True h \<and> n \<le> g_lines demo_back
    \<and> grid_history h = min (max_scroll_limit demo_back) (grid_history demo_back + n)
    \<and> (\<forall>l. 0 \<le> l \<and> l < int (g_lines demo_back) \<longrightarrow> grid_lines h l = Some (blank_of demo_back))
    \<and> (\<forall>l. - int (grid_history h) \<le> l \<and> l < 0 \<longrightarrow> grid_lines h l = grid_lines demo_back (l + int n))
    \<and> (\<forall>q. int n \<le> line q \<and> in_screen (grid_dims demo_back) q \<longrightarrow>
         (\<exists>x. grid_cell_at demo_back q = Some x \<and> cell_is_empty x))"
  by (rule clear_viewport_saves [OF demo_back_ok(1)])

end
