(* ===== verification/Selection.thy ===== *)
theory Selection
  imports Grid
begin

text \<open>
  Text selections (\<^verbatim>\<open>alacritty_terminal/src/selection.rs\<close>). A selection is a kind and two
  anchors, each a cell and the half of it the pointer was in. Scrolling rotates the anchors;
  a simple selection is proved to cover exactly the cells between its two boundaries.
  The conversion \<^verbatim>\<open>to_range\<close> for semantic and line selections needs the searches of
  \<^verbatim>\<open>term/search.rs\<close>.
\<close>

section \<open>Data and operations\<close>

record anchor =
  anchor_point :: point
  anchor_side :: side

record selection_range =
  range_start :: point
  range_end :: point
  is_block :: bool

datatype selection_type = Simple | Block | Semantic | Lines

record selection =
  sel_ty :: selection_type
  sel_start :: anchor
  sel_end :: anchor

definition selection_range_new :: "point \<Rightarrow> point \<Rightarrow> bool \<Rightarrow> selection_range option" where
  "selection_range_new s e b = do {
     ensure (s \<le> e);
     Some \<lparr>range_start = s, range_end = e, is_block = b\<rparr>
   }"

definition range_contains :: "selection_range \<Rightarrow> point \<Rightarrow> bool" where
  "range_contains r p \<longleftrightarrow>
     line (range_start r) \<le> line p \<and> line (range_end r) \<ge> line p
     \<and> (column (range_start r) \<le> column p \<or> line (range_start r) \<noteq> line p \<and> \<not> is_block r)
     \<and> (column (range_end r) \<ge> column p \<or> line (range_end r) \<noteq> line p \<and> \<not> is_block r)"

definition contains_cell :: "selection_range \<Rightarrow> point \<Rightarrow> cell \<Rightarrow> point \<Rightarrow> bool \<Rightarrow> bool" where
  \<comment> \<open>\<open>block_cursor\<close> is \<^verbatim>\<open>shape == CursorShape::Block\<close>\<close>
  "contains_cell r indexed_point indexed_cell p block_cursor =
     (if block_cursor \<and> p = indexed_point
         \<and> (range_start r = indexed_point \<or> range_end r = indexed_point
            \<or> is_block r
              \<and> (line (range_start r) = line indexed_point \<and> column (range_end r) = column indexed_point
                 \<or> line (range_end r) = line indexed_point \<and> column (range_start r) = column indexed_point))
      then False
      else if range_contains r indexed_point then True
      else flag_contains (cell_flags indexed_cell) WIDE_CHAR
           \<and> range_contains r (Point (line indexed_point) (column indexed_point + 1)))"

definition selection_new :: "selection_type \<Rightarrow> point \<Rightarrow> side \<Rightarrow> selection" where
  "selection_new ty p sd =
     \<lparr>sel_ty = ty, sel_start = \<lparr>anchor_point = p, anchor_side = sd\<rparr>,
      sel_end = \<lparr>anchor_point = p, anchor_side = sd\<rparr>\<rparr>"

definition selection_update :: "point \<Rightarrow> side \<Rightarrow> selection \<Rightarrow> selection" where
  "selection_update p sd s = s\<lparr>sel_end := \<lparr>anchor_point = p, anchor_side = sd\<rparr>\<rparr>"

definition anchor_line :: "anchor \<Rightarrow> int" where
  "anchor_line a = line (anchor_point a)"

definition set_line :: "int \<Rightarrow> anchor \<Rightarrow> anchor" where
  "set_line l a = a\<lparr>anchor_point := Point l (column (anchor_point a))\<rparr>"

definition selection_swapped :: "selection \<Rightarrow> bool" where
  "selection_swapped s \<longleftrightarrow> anchor_point (sel_start s) > anchor_point (sel_end s)"

text \<open>
  \<^verbatim>\<open>Selection::rotate\<close> works on mutable references to the earlier and the later anchor; the result
  stores them back to the fields they came from. The outer option is a panic of
  \<^verbatim>\<open>last_column\<close>, the inner one the deleted selection.
\<close>

definition rotate_start :: "int \<Rightarrow> int \<Rightarrow> int \<Rightarrow> int \<Rightarrow> selection_type \<Rightarrow> anchor \<Rightarrow> anchor \<Rightarrow> anchor option" where
  "rotate_start bottommost rtop bottom delta ty s e =
     (if (anchor_line s \<ge> rtop \<or> rtop = 0) \<and> anchor_line s < bottom then
        let s = set_line (min (anchor_line s - delta) bottommost) s
        in if anchor_line s \<ge> bottom \<and> anchor_line e < bottom then None
           else if anchor_line s < rtop \<and> rtop \<noteq> 0 then
             let s = (if ty \<noteq> Block then \<lparr>anchor_point = Point (anchor_line s) 0, anchor_side = Left\<rparr> else s)
             in Some (set_line rtop s)
           else Some s
      else Some s)"

definition rotate_end ::
  "dimensions \<Rightarrow> int \<Rightarrow> int \<Rightarrow> int \<Rightarrow> selection_type \<Rightarrow> anchor \<Rightarrow> anchor \<Rightarrow> anchor option option" where
  "rotate_end d rtop bottom delta ty s e =
     (if (anchor_line e \<ge> rtop \<or> rtop = 0) \<and> anchor_line e < bottom then
        let e = set_line (min (anchor_line e - delta) (bottommost_line d)) e
        in if anchor_line e < anchor_line s then Some None
           else if anchor_line e \<ge> bottom then do {
             e \<leftarrow> (if ty \<noteq> Block then do {
                     last \<leftarrow> last_column d;
                     Some \<lparr>anchor_point = Point (anchor_line e) last, anchor_side = Right\<rparr>
                   } else Some e);
             Some (Some (set_line (bottom - 1) e))
           }
           else Some (Some e)
      else Some (Some e))"

definition selection_rotate ::
  "dimensions \<Rightarrow> int \<Rightarrow> int \<Rightarrow> int \<Rightarrow> selection \<Rightarrow> selection option option" where
  "selection_rotate d rtop bottom delta sel =
     (let swapped = selection_swapped sel;
          s = (if swapped then sel_end sel else sel_start sel);
          e = (if swapped then sel_start sel else sel_end sel)
      in case rotate_start (bottommost_line d) rtop bottom delta (sel_ty sel) s e of
           None \<Rightarrow> Some None
         | Some s \<Rightarrow> do {
             res \<leftarrow> rotate_end d rtop bottom delta (sel_ty sel) s e;
             Some (map_option (\<lambda>e. if swapped then sel\<lparr>sel_start := e, sel_end := s\<rparr>
                                   else sel\<lparr>sel_start := s, sel_end := e\<rparr>) res)
           })"

definition selection_is_empty :: "selection \<Rightarrow> bool" where
  "selection_is_empty sel =
     (case sel_ty sel of
        Simple \<Rightarrow>
          (let swapped = selection_swapped sel;
               s = (if swapped then sel_end sel else sel_start sel);
               e = (if swapped then sel_start sel else sel_end sel)
           in s = e
              \<or> anchor_side s = Right \<and> anchor_side e = Left
                \<and> anchor_line s = anchor_line e
                \<and> column (anchor_point s) + 1 = column (anchor_point e))
      | Block \<Rightarrow>
          (let s = sel_start sel; e = sel_end sel;
               sc = column (anchor_point s); ec = column (anchor_point e)
           in sc = ec \<and> anchor_side s = anchor_side e
              \<or> sc + 1 = ec \<and> anchor_side s = Right \<and> anchor_side e = Left
              \<or> ec + 1 = sc \<and> anchor_side s = Left \<and> anchor_side e = Right)
      | Semantic \<Rightarrow> False
      | Lines \<Rightarrow> False)"

definition intersects_range :: "bound \<Rightarrow> bound \<Rightarrow> selection \<Rightarrow> bool" where
  "intersects_range lo hi sel =
     (let l1 = anchor_line (sel_start sel); l2 = anchor_line (sel_end sel);
          s = min l1 l2; e = max l1 l2;
          range_top = (case lo of Included l \<Rightarrow> l | Excluded l \<Rightarrow> l + 1 | Unbounded \<Rightarrow> - (2 ^ 31));
          range_bottom = (case hi of Included l \<Rightarrow> l | Excluded l \<Rightarrow> l - 1 | Unbounded \<Rightarrow> 2 ^ 31 - 1)
      in range_bottom \<ge> s \<and> range_top \<le> e)"

definition include_all :: "selection \<Rightarrow> selection" where
  "include_all sel =
     (let s = anchor_point (sel_start sel); e = anchor_point (sel_end sel);
          (ss, es) =
            (if sel_ty sel = Block then
               if column s > column e \<or> column s = column e \<and> line s > line e then (Right, Left)
               else (Left, Right)
             else if s > e then (Right, Left) else (Left, Right))
      in sel\<lparr>sel_start := (sel_start sel)\<lparr>anchor_side := ss\<rparr>,
             sel_end := (sel_end sel)\<lparr>anchor_side := es\<rparr>\<rparr>)"

definition range_simple :: "selection \<Rightarrow> anchor \<Rightarrow> anchor \<Rightarrow> nat \<Rightarrow> selection_range option option" where
  \<comment> \<open>the outer option is the panic of \<^verbatim>\<open>columns - 1\<close>\<close>
  "range_simple sel s e cols =
     (if selection_is_empty sel then Some None
      else do {
        ep \<leftarrow> (if anchor_side e = Left \<and> anchor_point s \<noteq> anchor_point e then
                 if column (anchor_point e) = 0 then do {
                   last \<leftarrow> csub cols 1;
                   Some (Point (line (anchor_point e) - 1) last)
                 } else Some (Point (line (anchor_point e)) (column (anchor_point e) - 1))
               else Some (anchor_point e));
        let sp = anchor_point s;
        let sp = (if anchor_side s = Right \<and> sp \<noteq> ep then
                    if column sp + 1 = cols then Point (line sp + 1) 0 else Point (line sp) (column sp + 1)
                  else sp);
        Some (Some \<lparr>range_start = sp, range_end = ep, is_block = False\<rparr>)
      })"

definition range_block :: "selection \<Rightarrow> anchor \<Rightarrow> anchor \<Rightarrow> selection_range option" where
  "range_block sel s e =
     (if selection_is_empty sel then None
      else
        let flip = column (anchor_point s) > column (anchor_point e);
            ss = (if flip then anchor_side e else anchor_side s);
            es = (if flip then anchor_side s else anchor_side e);
            sp = Point (anchor_line s) (if flip then column (anchor_point e) else column (anchor_point s));
            ep = Point (anchor_line e) (if flip then column (anchor_point s) else column (anchor_point e));
            ep = (if es = Left \<and> sp \<noteq> ep \<and> column ep > 0 then Point (line ep) (column ep - 1) else ep);
            sp = (if ss = Right \<and> sp \<noteq> ep then Point (line sp) (column sp + 1) else sp)
        in Some \<lparr>range_start = sp, range_end = ep, is_block = True\<rparr>)"

section \<open>Ranges\<close>

lemma range_contains_linear:
  "\<not> is_block r \<Longrightarrow> range_contains r p \<longleftrightarrow> range_start r \<le> p \<and> p \<le> range_end r"
  by (auto simp: range_contains_def less_eq_point_def)

lemma range_contains_block:
  "is_block r \<Longrightarrow> range_contains r p \<longleftrightarrow>
     line p \<in> {line (range_start r)..line (range_end r)}
     \<and> column p \<in> {column (range_start r)..column (range_end r)}"
  by (auto simp: range_contains_def)

text \<open>The boundary between cells an anchor stands for, counted in cells from the top of the grid.\<close>

definition anchor_pos :: "dimensions \<Rightarrow> anchor \<Rightarrow> int" where
  "anchor_pos d a = cell_index d (anchor_point a) + (if anchor_side a = Right then 1 else 0)"

lemma point_pred_index:
  "columns d = cols \<Longrightarrow> 0 < cols \<Longrightarrow> column p = 0 \<Longrightarrow>
     cell_index d (Point (line p - 1) (cols - 1)) = cell_index d p - 1"
  by (simp add: cell_index_def algebra_simps of_nat_diff)

lemma point_succ_index:
  "columns d = cols \<Longrightarrow> column p + 1 = cols \<Longrightarrow>
     cell_index d (Point (line p + 1) 0) = cell_index d p + 1"
  by (auto simp: cell_index_def algebra_simps)

text \<open>The two adjustments of \<^verbatim>\<open>range_simple\<close>, as steps of the cell index.\<close>

lemma simple_range_end:
  assumes "dims_ok d" "cols = columns d" "column (anchor_point e) < cols"
  shows "ok (if anchor_side e = Left \<and> anchor_point s \<noteq> anchor_point e then
                 if column (anchor_point e) = 0 then do {
                   last \<leftarrow> csub cols 1;
                   Some (Point (line (anchor_point e) - 1) last)
                 } else Some (Point (line (anchor_point e)) (column (anchor_point e) - 1))
               else Some (anchor_point e))
    (\<lambda>ep. column ep < cols \<and> cell_index d ep = cell_index d (anchor_point e)
       - (if anchor_side e = Left \<and> anchor_point s \<noteq> anchor_point e then 1 else 0))"
  using assms point_pred_index [of d cols "anchor_point e"]
  by (auto simp: dims_ok_def cell_index_def of_nat_diff)

lemma simple_range_start:
  fixes sd :: side and ep :: point
  assumes "dims_ok d" "cols = columns d" "column sp < cols"
  defines "sp' \<equiv> (if sd = Right \<and> sp \<noteq> ep then
      if column sp + 1 = cols then Point (line sp + 1) 0 else Point (line sp) (column sp + 1) else sp)"
  shows "column sp' < cols \<and>
    cell_index d sp' = cell_index d sp + (if sd = Right \<and> sp \<noteq> ep then 1 else 0)"
  using assms(1-3) point_succ_index [of d cols sp]
  by (auto simp: sp'_def dims_ok_def cell_index_def)

lemma range_simple_covers:
  assumes "dims_ok d" "sel_ty sel = Simple" "cols = columns d"
    and s: "s = (if selection_swapped sel then sel_end sel else sel_start sel)"
    and e: "e = (if selection_swapped sel then sel_start sel else sel_end sel)"
    and cols: "column (anchor_point s) < cols" "column (anchor_point e) < cols"
    and ne: "anchor_pos d s \<noteq> anchor_pos d e"
  shows "ok (range_simple sel s e cols) (\<lambda>res. \<exists>r. res = Some r \<and> (\<forall>p. column p < cols \<longrightarrow>
    (range_contains r p \<longleftrightarrow> min (anchor_pos d s) (anchor_pos d e) \<le> cell_index d p
       \<and> cell_index d p < max (anchor_pos d s) (anchor_pos d e))))"
proof -
  have le: "anchor_point s \<le> anchor_point e" using s e by (auto simp: selection_swapped_def)
  then have idx: "cell_index d (anchor_point s) \<le> cell_index d (anchor_point e)"
    using cell_index_le_iff cols assms(3) by blast
  have nonempty: "\<not> selection_is_empty sel"
    using ne s e assms(2) by (auto simp: selection_is_empty_def Let_def anchor_pos_def cell_index_def anchor_line_def)
  obtain ep where ep: "(if anchor_side e = Left \<and> anchor_point s \<noteq> anchor_point e then
                 if column (anchor_point e) = 0 then do {
                   last \<leftarrow> csub cols 1;
                   Some (Point (line (anchor_point e) - 1) last)
                 } else Some (Point (line (anchor_point e)) (column (anchor_point e) - 1))
               else Some (anchor_point e)) = Some ep" "column ep < cols"
    "cell_index d ep = cell_index d (anchor_point e)
       - (if anchor_side e = Left \<and> anchor_point s \<noteq> anchor_point e then 1 else 0)"
    using okE [OF simple_range_end [OF assms(1,3) cols(2)]] by metis
  define sp where "sp = (if anchor_side s = Right \<and> anchor_point s \<noteq> ep then
      if column (anchor_point s) + 1 = cols then Point (line (anchor_point s) + 1) 0
      else Point (line (anchor_point s)) (column (anchor_point s) + 1) else anchor_point s)"
  have sp: "column sp < cols" "cell_index d sp = cell_index d (anchor_point s)
      + (if anchor_side s = Right \<and> anchor_point s \<noteq> ep then 1 else 0)"
    using simple_range_start [OF assms(1,3) cols(1), of "anchor_side s" ep] by (auto simp: sp_def)
  let ?r = "\<lparr>range_start = sp, range_end = ep, is_block = False\<rparr>"
  have res: "range_simple sel s e cols = Some (Some ?r)"
    using nonempty ep(1) by (simp add: range_simple_def sp_def Let_def)
  have "range_contains ?r p \<longleftrightarrow> cell_index d sp \<le> cell_index d p \<and> cell_index d p \<le> cell_index d ep"
    if "column p < cols" for p
    using that sp(1) ep(2) assms(3) by (simp add: range_contains_linear cell_index_le_iff)
  moreover have "anchor_point s = ep \<longleftrightarrow> cell_index d (anchor_point s) = cell_index d ep"
    using cell_index_le_iff [of "anchor_point s" d ep] cell_index_le_iff [of ep d "anchor_point s"]
      cols(1) ep(2) assms(3) by (metis order_antisym order_refl)
  moreover have "anchor_point s = anchor_point e \<longleftrightarrow> cell_index d (anchor_point s) = cell_index d (anchor_point e)"
    using cell_index_le_iff [of "anchor_point s" d "anchor_point e"]
      cell_index_le_iff [of "anchor_point e" d "anchor_point s"]
      cols assms(3) by (metis order_antisym order_refl)
  ultimately show ?thesis using res idx ne sp(2) ep(3)
    by (cases "anchor_side s"; cases "anchor_side e") (auto simp: anchor_pos_def)
qed

section \<open>Rotation\<close>

lemma anchor_line_set_line [simp]:
  "anchor_line (set_line l a) = l" "column (anchor_point (set_line l a)) = column (anchor_point a)"
  "anchor_point (set_line l a) = Point l (column (anchor_point a))"
  by (simp_all add: anchor_line_def set_line_def)

lemma selection_rotate_ok:
  assumes "dims_ok d"
  shows "ok (selection_rotate d rtop bottom delta sel) (\<lambda>_. True)"
  using assms
  by (auto simp: selection_rotate_def rotate_end_def Let_def split: option.splits)

text \<open>A scroll of the whole screen moves both anchors with the text.\<close>

lemma selection_rotate_screen:
  assumes "0 \<le> delta"
    and "anchor_line (sel_start sel) \<le> bottommost_line d" "anchor_line (sel_end sel) \<le> bottommost_line d"
  shows "selection_rotate d 0 (bottommost_line d + 1) delta sel =
    Some (Some (sel\<lparr>sel_start := set_line (anchor_line (sel_start sel) - delta) (sel_start sel),
                   sel_end := set_line (anchor_line (sel_end sel) - delta) (sel_end sel)\<rparr>))"
proof -
  have "anchor_line (if selection_swapped sel then sel_end sel else sel_start sel)
      \<le> anchor_line (if selection_swapped sel then sel_start sel else sel_end sel)"
    by (auto simp: selection_swapped_def anchor_line_def less_point_def not_less less_eq_point_def)
  then show ?thesis using assms
    by (cases "selection_swapped sel")
      (simp_all add: selection_rotate_def rotate_start_def rotate_end_def Let_def min_def)
qed

section \<open>Properties\<close>

definition demo_selection :: selection where
  \<comment> \<open>dragged upwards, from the left half of a cell to the right half of one on the line above\<close>
  "demo_selection =
     \<lparr>sel_ty = Simple, sel_start = \<lparr>anchor_point = Point 1 1, anchor_side = Left\<rparr>,
      sel_end = \<lparr>anchor_point = Point 0 2, anchor_side = Right\<rparr>\<rparr>"

text \<open>
  A simple selection covers exactly the cells between its two anchors, where an anchor on the
  left half of a cell stands before and one on the right half behind it. This holds for both
  directions of dragging and across line ends.
\<close>

theorem range_simple_cells:
  assumes "dims_ok d" "sel_ty sel = Simple"
    and "s = (if selection_swapped sel then sel_end sel else sel_start sel)"
    and "e = (if selection_swapped sel then sel_start sel else sel_end sel)"
    and "column (anchor_point s) < columns d" "column (anchor_point e) < columns d"
    and "anchor_pos d s \<noteq> anchor_pos d e"
  shows "\<exists>r. range_simple sel s e (columns d) = Some (Some r) \<and> (\<forall>p. column p < columns d \<longrightarrow>
    (range_contains r p \<longleftrightarrow> min (anchor_pos d s) (anchor_pos d e) \<le> cell_index d p
       \<and> cell_index d p < max (anchor_pos d s) (anchor_pos d e)))"
  using range_simple_covers [OF assms(1,2) refl assms(3-)] by (auto elim!: okE)

theorem range_simple_cells_witness:
  "\<exists>r. range_simple demo_selection (sel_end demo_selection) (sel_start demo_selection) (columns demo_dims)
       = Some (Some r)
     \<and> (\<forall>p. column p < columns demo_dims \<longrightarrow>
          (range_contains r p \<longleftrightarrow>
             min (anchor_pos demo_dims (sel_end demo_selection)) (anchor_pos demo_dims (sel_start demo_selection))
               \<le> cell_index demo_dims p
             \<and> cell_index demo_dims p <
               max (anchor_pos demo_dims (sel_end demo_selection)) (anchor_pos demo_dims (sel_start demo_selection))))"
  by (rule range_simple_cells)
    (simp_all add: demo_selection_def demo_dims_def dims_ok_def selection_swapped_def less_point_def
      less_eq_point_def anchor_pos_def cell_index_def topmost_line_def history_size_def)

text \<open>
  When the whole screen scrolls up, \<^verbatim>\<open>Selection::rotate\<close> moves both anchors with the text
  and keeps their columns and sides: the selection stays on the characters that were selected.
\<close>

theorem selection_follows_scroll:
  assumes "0 \<le> delta" "anchor_line (sel_start sel) \<le> bottommost_line d"
    and "anchor_line (sel_end sel) \<le> bottommost_line d"
  shows "selection_rotate d 0 (bottommost_line d + 1) delta sel =
    Some (Some (sel\<lparr>sel_start := set_line (anchor_line (sel_start sel) - delta) (sel_start sel),
                   sel_end := set_line (anchor_line (sel_end sel) - delta) (sel_end sel)\<rparr>))"
  by (rule selection_rotate_screen [OF assms])

theorem selection_follows_scroll_witness:
  "selection_rotate demo_dims 0 (bottommost_line demo_dims + 1) 2 demo_selection =
    Some (Some (demo_selection\<lparr>
      sel_start := set_line (anchor_line (sel_start demo_selection) - 2) (sel_start demo_selection),
      sel_end := set_line (anchor_line (sel_end demo_selection) - 2) (sel_end demo_selection)\<rparr>))"
  by (rule selection_follows_scroll)
    (simp_all add: demo_selection_def demo_dims_def bottommost_line_def anchor_line_def)

text \<open>
  A selection from the right half of the last column to the left half of the first column of the
  next line covers no cell by its anchors, but \<^verbatim>\<open>Selection::is_empty\<close> only recognises neighbouring
  columns of one line, and \<^verbatim>\<open>range_simple\<close> returns a range with one selected cell.
\<close>

theorem empty_selection_across_lines:
  "let sel = \<lparr>sel_ty = Simple, sel_start = \<lparr>anchor_point = Point 0 3, anchor_side = Right\<rparr>,
              sel_end = \<lparr>anchor_point = Point 1 0, anchor_side = Left\<rparr>\<rparr>;
       r = \<lparr>range_start = Point 0 3, range_end = Point 0 3, is_block = False\<rparr>
   in anchor_pos demo_dims (sel_start sel) = anchor_pos demo_dims (sel_end sel)
      \<and> \<not> selection_is_empty sel
      \<and> range_simple sel (sel_start sel) (sel_end sel) 4 = Some (Some r) \<and> range_contains r (Point 0 3)"
  by (simp add: Let_def anchor_pos_def cell_index_def demo_dims_def topmost_line_def history_size_def
      selection_is_empty_def selection_swapped_def range_simple_def range_contains_def csub_def
      less_point_def less_eq_point_def anchor_line_def)

end
