(* ===== verification/Term_State.thy ===== *)
theory Term_State
  imports Grid_View Selection
begin

text \<open>
  The state of the terminal (\<^verbatim>\<open>alacritty_terminal/src/term/mod.rs\<close>): mode flags, tab stops,
  colours (\<^verbatim>\<open>term/color.rs\<close>), damage tracking, events (\<^verbatim>\<open>event.rs\<close>), configuration, and the
  record of \<^verbatim>\<open>Term\<close> itself. Events go to a listener the terminal does not read back; the
  record keeps them in a log. A closure sent inside an event is the constructor
  with the values it captures, and the function that the closure computes is a definition.

  The crates \<^verbatim>\<open>vte\<close>, \<^verbatim>\<open>unicode-width\<close> and \<^verbatim>\<open>base64\<close> are an argument, the record \<open>env\<close>.
\<close>

unbundle bit_operations_syntax

section \<open>Modes\<close>

type_synonym ustring = "uchar list"

type_synonym term_mode = "32 word"

definition SHOW_CURSOR :: term_mode where "SHOW_CURSOR = 1"
definition APP_CURSOR :: term_mode where "APP_CURSOR = push_bit 1 1"
definition APP_KEYPAD :: term_mode where "APP_KEYPAD = push_bit 2 1"
definition MOUSE_REPORT_CLICK :: term_mode where "MOUSE_REPORT_CLICK = push_bit 3 1"
definition BRACKETED_PASTE :: term_mode where "BRACKETED_PASTE = push_bit 4 1"
definition SGR_MOUSE :: term_mode where "SGR_MOUSE = push_bit 5 1"
definition MOUSE_MOTION :: term_mode where "MOUSE_MOTION = push_bit 6 1"
definition LINE_WRAP :: term_mode where "LINE_WRAP = push_bit 7 1"
definition LINE_FEED_NEW_LINE :: term_mode where "LINE_FEED_NEW_LINE = push_bit 8 1"
definition ORIGIN :: term_mode where "ORIGIN = push_bit 9 1"
definition INSERT :: term_mode where "INSERT = push_bit 10 1"
definition FOCUS_IN_OUT :: term_mode where "FOCUS_IN_OUT = push_bit 11 1"
definition ALT_SCREEN :: term_mode where "ALT_SCREEN = push_bit 12 1"
definition MOUSE_DRAG :: term_mode where "MOUSE_DRAG = push_bit 13 1"
definition UTF8_MOUSE :: term_mode where "UTF8_MOUSE = push_bit 14 1"
definition ALTERNATE_SCROLL :: term_mode where "ALTERNATE_SCROLL = push_bit 15 1"
definition VI :: term_mode where "VI = push_bit 16 1"
definition URGENCY_HINTS :: term_mode where "URGENCY_HINTS = push_bit 17 1"
definition DISAMBIGUATE_ESC_CODES :: term_mode where "DISAMBIGUATE_ESC_CODES = push_bit 18 1"
definition REPORT_EVENT_TYPES :: term_mode where "REPORT_EVENT_TYPES = push_bit 19 1"
definition REPORT_ALTERNATE_KEYS :: term_mode where "REPORT_ALTERNATE_KEYS = push_bit 20 1"
definition REPORT_ALL_KEYS_AS_ESC :: term_mode where "REPORT_ALL_KEYS_AS_ESC = push_bit 21 1"
definition REPORT_ASSOCIATED_TEXT :: term_mode where "REPORT_ASSOCIATED_TEXT = push_bit 22 1"
definition MOUSE_MODE :: term_mode where
  "MOUSE_MODE = MOUSE_REPORT_CLICK OR MOUSE_MOTION OR MOUSE_DRAG"
definition KITTY_KEYBOARD_PROTOCOL :: term_mode where
  "KITTY_KEYBOARD_PROTOCOL =
     DISAMBIGUATE_ESC_CODES OR REPORT_EVENT_TYPES OR REPORT_ALTERNATE_KEYS
     OR REPORT_ALL_KEYS_AS_ESC OR REPORT_ASSOCIATED_TEXT"

lemmas mode_bits =
  SHOW_CURSOR_def APP_CURSOR_def APP_KEYPAD_def MOUSE_REPORT_CLICK_def BRACKETED_PASTE_def
  SGR_MOUSE_def MOUSE_MOTION_def LINE_WRAP_def LINE_FEED_NEW_LINE_def ORIGIN_def INSERT_def
  FOCUS_IN_OUT_def ALT_SCREEN_def MOUSE_DRAG_def UTF8_MOUSE_def ALTERNATE_SCROLL_def VI_def
  URGENCY_HINTS_def DISAMBIGUATE_ESC_CODES_def REPORT_EVENT_TYPES_def REPORT_ALTERNATE_KEYS_def
  REPORT_ALL_KEYS_AS_ESC_def REPORT_ASSOCIATED_TEXT_def MOUSE_MODE_def KITTY_KEYBOARD_PROTOCOL_def

definition mode_default :: term_mode where
  "mode_default = SHOW_CURSOR OR LINE_WRAP OR ALTERNATE_SCROLL OR URGENCY_HINTS"

text \<open>The flags of \<^verbatim>\<open>vte::ansi::KeyboardModes\<close>; \<^verbatim>\<open>contains\<close> is a field.\<close>

record keyboard_modes =
  kb_disambiguate :: bool
  kb_event_types :: bool
  kb_alternate_keys :: bool
  kb_all_keys :: bool
  kb_associated_text :: bool

definition NO_MODE :: keyboard_modes where
  "NO_MODE = \<lparr>kb_disambiguate = False, kb_event_types = False, kb_alternate_keys = False,
              kb_all_keys = False, kb_associated_text = False\<rparr>"

datatype apply_behavior = Apply_Replace | Apply_Union | Apply_Difference

definition mode_of_keyboard :: "keyboard_modes \<Rightarrow> term_mode" where
  "mode_of_keyboard k =
     (let m = 0;
          m = flag_set m DISAMBIGUATE_ESC_CODES (kb_disambiguate k);
          m = flag_set m REPORT_EVENT_TYPES (kb_event_types k);
          m = flag_set m REPORT_ALTERNATE_KEYS (kb_alternate_keys k);
          m = flag_set m REPORT_ALL_KEYS_AS_ESC (kb_all_keys k)
      in flag_set m REPORT_ASSOCIATED_TEXT (kb_associated_text k))"

definition apply_keyboard_mode :: "term_mode \<Rightarrow> apply_behavior \<Rightarrow> term_mode \<Rightarrow> term_mode" where
  \<comment> \<open>the inherent method \<^verbatim>\<open>Term::set_keyboard_mode\<close>, on the mode flags\<close>
  "apply_keyboard_mode m app current =
     (let active = current AND KITTY_KEYBOARD_PROTOCOL;
          rest = flag_remove current KITTY_KEYBOARD_PROTOCOL;
          new = (case app of
                   Apply_Replace \<Rightarrow> m
                 | Apply_Union \<Rightarrow> active OR m
                 | Apply_Difference \<Rightarrow> flag_remove active m)
      in rest OR new)"

section \<open>Viewport coordinates\<close>

definition point_to_viewport :: "nat \<Rightarrow> point \<Rightarrow> (nat \<times> nat) option" where
  "point_to_viewport offset p =
     (let l = line p + int offset in if 0 \<le> l then Some (nat l, column p) else None)"

definition viewport_to_point :: "nat \<Rightarrow> nat \<times> nat \<Rightarrow> point" where
  "viewport_to_point offset v = Point (int (fst v) - int offset) (snd v)"

section \<open>Damage\<close>

record line_damage =
  dmg_line :: nat
  dmg_left :: nat
  dmg_right :: nat

definition undamaged :: "nat \<Rightarrow> nat \<Rightarrow> line_damage" where
  "undamaged l cols = \<lparr>dmg_line = l, dmg_left = cols, dmg_right = 0\<rparr>"

definition damage_reset_line :: "nat \<Rightarrow> line_damage \<Rightarrow> line_damage" where
  "damage_reset_line cols d = undamaged (dmg_line d) cols"

definition damage_expand :: "nat \<Rightarrow> nat \<Rightarrow> line_damage \<Rightarrow> line_damage" where
  "damage_expand l r d = d\<lparr>dmg_left := min (dmg_left d) l, dmg_right := max (dmg_right d) r\<rparr>"

definition is_damaged :: "line_damage \<Rightarrow> bool" where
  "is_damaged d \<longleftrightarrow> dmg_left d \<le> dmg_right d"

record term_damage_state =
  dmg_full :: bool
  dmg_lines :: "line_damage list"
  last_cursor :: point

datatype term_damage = Damage_Full | Damage_Partial "line_damage list" nat

definition damage_new :: "nat \<Rightarrow> nat \<Rightarrow> term_damage_state" where
  "damage_new cols lines =
     \<lparr>dmg_full = True, dmg_lines = map (\<lambda>l. undamaged l cols) [0..<lines], last_cursor = Point 0 0\<rparr>"

definition damage_resize :: "nat \<Rightarrow> nat \<Rightarrow> term_damage_state \<Rightarrow> term_damage_state" where
  "damage_resize cols lines d =
     d\<lparr>last_cursor := Point 0 0, dmg_full := True, dmg_lines := map (\<lambda>l. undamaged l cols) [0..<lines]\<rparr>"

definition damage_line_state :: "nat \<Rightarrow> nat \<Rightarrow> nat \<Rightarrow> term_damage_state \<Rightarrow> term_damage_state option" where
  "damage_line_state l left right d = do {
     x \<leftarrow> vec_get (dmg_lines d) l;
     Some (d\<lparr>dmg_lines := (dmg_lines d)[l := damage_expand left right x]\<rparr>)
   }"

definition damage_point :: "nat \<Rightarrow> nat \<Rightarrow> term_damage_state \<Rightarrow> term_damage_state option" where
  "damage_point l col d = damage_line_state l col col d"

definition damage_reset :: "nat \<Rightarrow> term_damage_state \<Rightarrow> term_damage_state" where
  "damage_reset cols d = d\<lparr>dmg_full := False, dmg_lines := map (damage_reset_line cols) (dmg_lines d)\<rparr>"

text \<open>The iterator over the damage of the viewport: the remaining lines and the display offset.\<close>

definition damage_iter_new :: "line_damage list \<Rightarrow> nat \<Rightarrow> term_damage" where
  "damage_iter_new ls offset = Damage_Partial (take (length ls - offset) ls) offset"

fun damage_iter_next :: "line_damage list \<Rightarrow> nat \<Rightarrow> (line_damage \<times> line_damage list) option" where
  "damage_iter_next [] offset = None"
| "damage_iter_next (d # ds) offset =
     (if is_damaged d then Some (d\<lparr>dmg_line := dmg_line d + offset\<rparr>, ds) else damage_iter_next ds offset)"

section \<open>Tab stops and colours\<close>

definition INITIAL_TABSTOPS :: nat where
  "INITIAL_TABSTOPS = 8"

definition tabs_new :: "nat \<Rightarrow> bool list" where
  "tabs_new cols = map (\<lambda>i. i mod INITIAL_TABSTOPS = 0) [0..<cols]"

definition tabs_clear_all :: "bool list \<Rightarrow> bool list" where
  "tabs_clear_all tabs = replicate (length tabs) False"

definition tabs_resize :: "nat \<Rightarrow> bool list \<Rightarrow> bool list" where
  "tabs_resize cols tabs =
     (if cols \<le> length tabs then take cols tabs
      else tabs @ map (\<lambda>i. i mod INITIAL_TABSTOPS = 0) [length tabs..<cols])"

definition COLOR_COUNT :: nat where
  "COLOR_COUNT = 269"

definition colors_default :: "rgb option list" where
  "colors_default = replicate COLOR_COUNT None"

section \<open>Events and configuration\<close>

datatype clipboard_type = Clipboard_Main | Clipboard_Selection

record window_size =
  num_lines :: "16 word"
  num_cols :: "16 word"
  cell_width :: "16 word"
  cell_height :: "16 word"

datatype event =
    MouseCursorDirty
  | Title ustring
  | ResetTitle
  | ClipboardStore clipboard_type ustring
  | ClipboardLoad clipboard_type "8 word" string
  | ColorRequest nat string string
  | PtyWrite string
  | TextAreaSizeRequest
  | CursorBlinkingChange
  | Wakeup
  | Bell
  | Exit
  | ChildExit int

datatype cursor_shape = Shape_Block | Shape_Underline | Shape_Beam | Shape_HollowBlock | Shape_Hidden

record cursor_style =
  shape :: cursor_shape
  blinking :: bool

datatype osc52 = Osc52_Disabled | Osc52_OnlyCopy | Osc52_OnlyPaste | Osc52_CopyPaste

record config =
  scrolling_history :: nat
  default_cursor_style :: cursor_style
  vi_mode_cursor_style :: "cursor_style option"
  semantic_escape_chars :: ustring
  kitty_keyboard :: bool
  cfg_osc52 :: osc52

definition SEMANTIC_ESCAPE_CHARS :: ustring where
  \<comment> \<open>\<^verbatim>\<open>,\<close>, U+2502, and the ASCII characters of the literal\<close>
  "SEMANTIC_ESCAPE_CHARS = [44, 0x2502, 96, 124, 58, 34, 39, 32, 40, 41, 91, 93, 123, 125, 60, 62, 9]"

definition TITLE_STACK_MAX_DEPTH :: nat where
  "TITLE_STACK_MAX_DEPTH = 4096"

definition KEYBOARD_MODE_STACK_MAX_DEPTH :: nat where
  "KEYBOARD_MODE_STACK_MAX_DEPTH = TITLE_STACK_MAX_DEPTH"

definition MIN_COLUMNS :: nat where
  "MIN_COLUMNS = 2"

definition MIN_SCREEN_LINES :: nat where
  "MIN_SCREEN_LINES = 1"

definition config_default :: "cursor_style \<Rightarrow> config" where
  \<comment> \<open>the argument is \<^verbatim>\<open>CursorStyle::default()\<close> of the \<^verbatim>\<open>vte\<close> crate\<close>
  "config_default style =
     \<lparr>scrolling_history = 10000, default_cursor_style = style, vi_mode_cursor_style = None,
      semantic_escape_chars = SEMANTIC_ESCAPE_CHARS, kitty_keyboard = False, cfg_osc52 = Osc52_OnlyCopy\<rparr>"

section \<open>The terminal\<close>

record terminal =
  is_focused :: bool
  vi_mode_cursor :: point
  t_selection :: "selection option"
  t_grid :: grid
  t_inactive_grid :: grid
  active_charset :: charset_index
  t_tabs :: "bool list"
  t_mode :: term_mode
  region_start :: int
  region_end :: int
  t_colors :: "rgb option list"
  t_cursor_style :: "cursor_style option"
  t_events :: "event list"
  t_title :: "ustring option"
  title_stack :: "ustring option list"
  keyboard_mode_stack :: "keyboard_modes list"
  inactive_keyboard_mode_stack :: "keyboard_modes list"
  t_damage :: term_damage_state
  t_config :: config
  hyperlink_id_suffix :: "32 word"

abbreviation t_cursor :: "terminal \<Rightarrow> cursor" where
  "t_cursor t \<equiv> g_cursor (t_grid t)"

abbreviation t_point :: "terminal \<Rightarrow> point" where
  "t_point t \<equiv> cur_point (g_cursor (t_grid t))"

abbreviation t_template :: "terminal \<Rightarrow> cell" where
  "t_template t \<equiv> cur_template (g_cursor (t_grid t))"

abbreviation t_dims :: "terminal \<Rightarrow> dimensions" where
  "t_dims t \<equiv> grid_dims (t_grid t)"

abbreviation t_columns :: "terminal \<Rightarrow> nat" where
  "t_columns t \<equiv> g_columns (t_grid t)"

abbreviation t_lines :: "terminal \<Rightarrow> nat" where
  "t_lines t \<equiv> g_lines (t_grid t)"

text \<open>What the terminal takes from other crates.\<close>

record env =
  char_width :: "uchar \<Rightarrow> nat option"
  charset_map :: "standard_charset \<Rightarrow> uchar \<Rightarrow> uchar"
  base64_decode :: "8 word list \<Rightarrow> 8 word list option"
  base64_encode :: "ustring \<Rightarrow> string"
  keyboard_bits :: "keyboard_modes \<Rightarrow> nat"
  cursor_color_index :: nat

section \<open>Access to the parts\<close>

definition on_grid :: "(grid \<Rightarrow> grid option) \<Rightarrow> terminal \<Rightarrow> terminal option" where
  "on_grid f t = do {
     g \<leftarrow> f (t_grid t);
     Some (t\<lparr>t_grid := g\<rparr>)
   }"

definition set_cursor :: "(cursor \<Rightarrow> cursor) \<Rightarrow> terminal \<Rightarrow> terminal" where
  "set_cursor f t = t\<lparr>t_grid := (t_grid t)\<lparr>g_cursor := f (g_cursor (t_grid t))\<rparr>\<rparr>"

definition set_point :: "point \<Rightarrow> terminal \<Rightarrow> terminal" where
  "set_point p = set_cursor (\<lambda>c. c\<lparr>cur_point := p\<rparr>)"

definition set_needs_wrap :: "bool \<Rightarrow> terminal \<Rightarrow> terminal" where
  "set_needs_wrap b = set_cursor (\<lambda>c. c\<lparr>input_needs_wrap := b\<rparr>)"

definition set_template :: "(cell \<Rightarrow> cell) \<Rightarrow> terminal \<Rightarrow> terminal" where
  "set_template f = set_cursor (\<lambda>c. c\<lparr>cur_template := f (cur_template c)\<rparr>)"

definition send_event :: "event \<Rightarrow> terminal \<Rightarrow> terminal" where
  "send_event ev t = t\<lparr>t_events := t_events t @ [ev]\<rparr>"

definition mode_insert :: "term_mode \<Rightarrow> terminal \<Rightarrow> terminal" where
  "mode_insert m t = t\<lparr>t_mode := flag_insert (t_mode t) m\<rparr>"

definition mode_remove :: "term_mode \<Rightarrow> terminal \<Rightarrow> terminal" where
  "mode_remove m t = t\<lparr>t_mode := flag_remove (t_mode t) m\<rparr>"

definition mode_contains :: "term_mode \<Rightarrow> terminal \<Rightarrow> bool" where
  "mode_contains m t \<longleftrightarrow> flag_contains (t_mode t) m"

definition damage_line :: "nat \<Rightarrow> nat \<Rightarrow> nat \<Rightarrow> terminal \<Rightarrow> terminal option" where
  "damage_line l left right t = do {
     d \<leftarrow> damage_line_state l left right (t_damage t);
     Some (t\<lparr>t_damage := d\<rparr>)
   }"

definition damage_cursor :: "terminal \<Rightarrow> terminal option" where
  "damage_cursor t = do {
     d \<leftarrow> damage_point (usize_of_i32 (line (t_point t))) (column (t_point t)) (t_damage t);
     Some (t\<lparr>t_damage := d\<rparr>)
   }"

definition mark_fully_damaged :: "terminal \<Rightarrow> terminal" where
  "mark_fully_damaged t = t\<lparr>t_damage := (t_damage t)\<lparr>dmg_full := True\<rparr>\<rparr>"

definition set_keyboard_mode :: "term_mode \<Rightarrow> apply_behavior \<Rightarrow> terminal \<Rightarrow> terminal" where
  "set_keyboard_mode m app t = t\<lparr>t_mode := apply_keyboard_mode m app (t_mode t)\<rparr>"

section \<open>Mode flags as bits\<close>

lemma bit_push_one: "k < 32 \<Longrightarrow> bit (push_bit k 1 :: 32 word) n \<longleftrightarrow> n = k"
  by (auto simp: bit_exp_iff)

lemma bit_single_modes:
  "bit APP_CURSOR n \<longleftrightarrow> n = 1"
  "bit APP_KEYPAD n \<longleftrightarrow> n = 2"
  "bit MOUSE_REPORT_CLICK n \<longleftrightarrow> n = 3"
  "bit BRACKETED_PASTE n \<longleftrightarrow> n = 4"
  "bit SGR_MOUSE n \<longleftrightarrow> n = 5"
  "bit MOUSE_MOTION n \<longleftrightarrow> n = 6"
  "bit LINE_WRAP n \<longleftrightarrow> n = 7"
  "bit LINE_FEED_NEW_LINE n \<longleftrightarrow> n = 8"
  "bit ORIGIN n \<longleftrightarrow> n = 9"
  "bit INSERT n \<longleftrightarrow> n = 10"
  "bit FOCUS_IN_OUT n \<longleftrightarrow> n = 11"
  "bit ALT_SCREEN n \<longleftrightarrow> n = 12"
  "bit MOUSE_DRAG n \<longleftrightarrow> n = 13"
  "bit UTF8_MOUSE n \<longleftrightarrow> n = 14"
  "bit ALTERNATE_SCROLL n \<longleftrightarrow> n = 15"
  "bit VI n \<longleftrightarrow> n = 16"
  "bit URGENCY_HINTS n \<longleftrightarrow> n = 17"
  "bit DISAMBIGUATE_ESC_CODES n \<longleftrightarrow> n = 18"
  "bit REPORT_EVENT_TYPES n \<longleftrightarrow> n = 19"
  "bit REPORT_ALTERNATE_KEYS n \<longleftrightarrow> n = 20"
  "bit REPORT_ALL_KEYS_AS_ESC n \<longleftrightarrow> n = 21"
  "bit REPORT_ASSOCIATED_TEXT n \<longleftrightarrow> n = 22"
  unfolding mode_bits by (rule bit_push_one; simp)+

lemma bit_SHOW_CURSOR: "bit SHOW_CURSOR n \<longleftrightarrow> n = 0"
  by (simp add: SHOW_CURSOR_def bit_1_iff)

lemmas bit_modes = bit_SHOW_CURSOR bit_single_modes

lemma contains_single_modes:
  "flag_contains m APP_CURSOR \<longleftrightarrow> bit m 1"
  "flag_contains m APP_KEYPAD \<longleftrightarrow> bit m 2"
  "flag_contains m MOUSE_REPORT_CLICK \<longleftrightarrow> bit m 3"
  "flag_contains m BRACKETED_PASTE \<longleftrightarrow> bit m 4"
  "flag_contains m SGR_MOUSE \<longleftrightarrow> bit m 5"
  "flag_contains m MOUSE_MOTION \<longleftrightarrow> bit m 6"
  "flag_contains m LINE_WRAP \<longleftrightarrow> bit m 7"
  "flag_contains m LINE_FEED_NEW_LINE \<longleftrightarrow> bit m 8"
  "flag_contains m ORIGIN \<longleftrightarrow> bit m 9"
  "flag_contains m INSERT \<longleftrightarrow> bit m 10"
  "flag_contains m FOCUS_IN_OUT \<longleftrightarrow> bit m 11"
  "flag_contains m ALT_SCREEN \<longleftrightarrow> bit m 12"
  "flag_contains m MOUSE_DRAG \<longleftrightarrow> bit m 13"
  "flag_contains m UTF8_MOUSE \<longleftrightarrow> bit m 14"
  "flag_contains m ALTERNATE_SCROLL \<longleftrightarrow> bit m 15"
  "flag_contains m VI \<longleftrightarrow> bit m 16"
  "flag_contains m URGENCY_HINTS \<longleftrightarrow> bit m 17"
  "flag_contains m DISAMBIGUATE_ESC_CODES \<longleftrightarrow> bit m 18"
  "flag_contains m REPORT_EVENT_TYPES \<longleftrightarrow> bit m 19"
  "flag_contains m REPORT_ALTERNATE_KEYS \<longleftrightarrow> bit m 20"
  "flag_contains m REPORT_ALL_KEYS_AS_ESC \<longleftrightarrow> bit m 21"
  "flag_contains m REPORT_ASSOCIATED_TEXT \<longleftrightarrow> bit m 22"
  unfolding mode_bits by (rule flag_contains_single; simp)+

lemma contains_SHOW_CURSOR: "flag_contains m SHOW_CURSOR \<longleftrightarrow> bit m 0"
  using flag_contains_single [of 0 m] by (simp add: SHOW_CURSOR_def)

lemmas contains_modes = contains_SHOW_CURSOR contains_single_modes

lemma bit_KITTY: "bit KITTY_KEYBOARD_PROTOCOL n \<longleftrightarrow> n \<in> {18..22}"
  by (auto simp: KITTY_KEYBOARD_PROTOCOL_def bit_or_iff bit_modes)

lemma bit_MOUSE_MODE: "bit MOUSE_MODE n \<longleftrightarrow> n = 3 \<or> n = 6 \<or> n = 13"
  by (auto simp: MOUSE_MODE_def bit_or_iff bit_modes)

lemma bit_mode_of_keyboard:
  "bit (mode_of_keyboard k) n \<longleftrightarrow>
     n = 18 \<and> kb_disambiguate k \<or> n = 19 \<and> kb_event_types k \<or> n = 20 \<and> kb_alternate_keys k
     \<or> n = 21 \<and> kb_all_keys k \<or> n = 22 \<and> kb_associated_text k"
  by (auto simp: mode_of_keyboard_def Let_def bit_flag_set bit_modes)

text \<open>Changing the keyboard mode leaves all other modes alone.\<close>

lemma bit_apply_keyboard_mode:
  assumes "n \<notin> {18..22}"
  shows "bit (apply_keyboard_mode (mode_of_keyboard k) app m) n \<longleftrightarrow> bit m n"
  using assms
  by (cases app) (auto simp: apply_keyboard_mode_def Let_def bit_flag_simps bit_KITTY bit_mode_of_keyboard)

end
