(* ===== verification/Term_Ops.thy ===== *)
theory Term_Ops
  imports Term_State
begin

text \<open>
  The operations of the terminal (\<^verbatim>\<open>alacritty_terminal/src/term/mod.rs\<close>): the inherent methods of
  \<^verbatim>\<open>Term\<close> and its implementation of the parser's \<^verbatim>\<open>Handler\<close> trait, in the order of the source.
  Logging calls have no counterpart.
\<close>

unbundle bit_operations_syntax

section \<open>Construction, viewport, damage\<close>

definition term_new :: "config \<Rightarrow> nat \<Rightarrow> nat \<Rightarrow> 32 word \<Rightarrow> terminal option" where
  "term_new cfg cols lines suffix = do {
     g \<leftarrow> grid_new lines cols (scrolling_history cfg);
     ig \<leftarrow> grid_new lines cols 0;
     Some \<lparr>is_focused = False, vi_mode_cursor = Point 0 0, t_selection = None, t_grid = g,
           t_inactive_grid = ig, active_charset = G0, t_tabs = tabs_new (g_columns g),
           t_mode = mode_default, region_start = 0, region_end = int (g_lines g),
           t_colors = colors_default, t_cursor_style = None, t_events = [], t_title = None,
           title_stack = [], keyboard_mode_stack = [], inactive_keyboard_mode_stack = [],
           t_damage = damage_new cols lines, t_config = cfg, hyperlink_id_suffix = suffix\<rparr>
   }"

definition vi_mode_recompute_selection :: "terminal \<Rightarrow> terminal" where
  "vi_mode_recompute_selection t =
     (if \<not> mode_contains VI t then t
      else case t_selection t of
        None \<Rightarrow> t
      | Some s \<Rightarrow>
          if selection_is_empty s then t
          else t\<lparr>t_selection := Some (include_all (selection_update (vi_mode_cursor t) Left s))\<rparr>)"

definition scroll_display :: "scroll \<Rightarrow> terminal \<Rightarrow> terminal" where
  "scroll_display sc t =
     (let old_display_offset = display_offset (t_grid t);
          t = t\<lparr>t_grid := grid_scroll_display sc (t_grid t)\<rparr>;
          t = send_event MouseCursorDirty t;
          viewport_start = - int (display_offset (t_grid t));
          viewport_end = viewport_start + bottommost_line (t_dims t);
          t = t\<lparr>vi_mode_cursor := Point (min viewport_end (max viewport_start (line (vi_mode_cursor t))))
                                       (column (vi_mode_cursor t))\<rparr>;
          t = vi_mode_recompute_selection t
      in if old_display_offset \<noteq> display_offset (t_grid t) then mark_fully_damaged t else t)"

definition take_damage :: "terminal \<Rightarrow> (term_damage \<times> terminal) option" where
  \<comment> \<open>\<^verbatim>\<open>Term::damage\<close>\<close>
  "take_damage t = do {
     let t = (if mode_contains INSERT t then mark_fully_damaged t else t);
     let previous_cursor = last_cursor (t_damage t);
     let t = t\<lparr>t_damage := (t_damage t)\<lparr>last_cursor := t_point t\<rparr>\<rparr>;
     if dmg_full (t_damage t) then Some (Damage_Full, t)
     else do {
       t \<leftarrow> (if last_cursor (t_damage t) \<noteq> previous_cursor then do {
               d \<leftarrow> damage_point (usize_of_i32 (line previous_cursor)) (column previous_cursor) (t_damage t);
               Some (t\<lparr>t_damage := d\<rparr>)
             } else Some t);
       t \<leftarrow> damage_cursor t;
       Some (damage_iter_new (dmg_lines (t_damage t)) (display_offset (t_grid t)), t)
     }
   }"

definition reset_damage :: "terminal \<Rightarrow> terminal" where
  "reset_damage t = t\<lparr>t_damage := damage_reset (t_columns t) (t_damage t)\<rparr>"

definition title_event :: "ustring option \<Rightarrow> event" where
  "title_event ti = (case ti of Some s \<Rightarrow> Title s | None \<Rightarrow> ResetTitle)"

definition set_options :: "config \<Rightarrow> terminal \<Rightarrow> terminal option" where
  "set_options options t = do {
     let old_config = t_config t;
     let t = t\<lparr>t_config := options\<rparr>;
     let t = send_event (title_event (t_title t)) t;
     t \<leftarrow> (if mode_contains ALT_SCREEN t then do {
             g \<leftarrow> update_history (scrolling_history (t_config t)) (t_inactive_grid t);
             Some (t\<lparr>t_inactive_grid := g\<rparr>)
           } else on_grid (update_history (scrolling_history (t_config t))) t);
     let t = (if kitty_keyboard (t_config t) \<noteq> kitty_keyboard old_config then
                mode_remove KITTY_KEYBOARD_PROTOCOL
                  (t\<lparr>keyboard_mode_stack := [], inactive_keyboard_mode_stack := []\<rparr>)
              else t);
     Some (mark_fully_damaged t)
   }"

definition last_keyboard_mode :: "keyboard_modes list \<Rightarrow> keyboard_modes" where
  \<comment> \<open>\<^verbatim>\<open>stack.last().copied().unwrap_or(KeyboardModes::NO_MODE)\<close>\<close>
  "last_keyboard_mode st = (if st = [] then NO_MODE else last st)"

definition swap_alt :: "terminal \<Rightarrow> terminal option" where
  "swap_alt t = do {
     t \<leftarrow> (if \<not> mode_contains ALT_SCREEN t then do {
             let t = t\<lparr>t_inactive_grid := (t_inactive_grid t)\<lparr>g_cursor := t_cursor t\<rparr>\<rparr>;
             let t = t\<lparr>t_grid := (t_grid t)\<lparr>g_saved_cursor := t_cursor t\<rparr>\<rparr>;
             g \<leftarrow> reset_region Unbounded Unbounded (t_inactive_grid t);
             Some (t\<lparr>t_inactive_grid := g\<rparr>)
           } else Some t);
     let t = t\<lparr>keyboard_mode_stack := inactive_keyboard_mode_stack t,
               inactive_keyboard_mode_stack := keyboard_mode_stack t\<rparr>;
     let t = set_keyboard_mode (mode_of_keyboard (last_keyboard_mode (keyboard_mode_stack t))) Apply_Replace t;
     let t = t\<lparr>t_grid := t_inactive_grid t, t_inactive_grid := t_grid t\<rparr>;
     let t = t\<lparr>t_mode := t_mode t XOR ALT_SCREEN, t_selection := None\<rparr>;
     Some (mark_fully_damaged t)
   }"

section \<open>Scrolling\<close>

definition rotate_selection :: "int \<Rightarrow> int \<Rightarrow> int \<Rightarrow> terminal \<Rightarrow> terminal option" where
  \<comment> \<open>\<^verbatim>\<open>self.selection = self.selection.take().and_then(|s| s.rotate(self, &region, delta))\<close>\<close>
  "rotate_selection s e delta t =
     (case t_selection t of
        None \<Rightarrow> Some t
      | Some sel \<Rightarrow> do {
          r \<leftarrow> selection_rotate (t_dims t) s e delta sel;
          Some (t\<lparr>t_selection := r\<rparr>)
        })"

definition set_vi_line :: "int \<Rightarrow> terminal \<Rightarrow> terminal" where
  "set_vi_line l t = t\<lparr>vi_mode_cursor := Point l (column (vi_mode_cursor t))\<rparr>"

definition scroll_down_relative :: "int \<Rightarrow> nat \<Rightarrow> terminal \<Rightarrow> terminal option" where
  "scroll_down_relative origin n t = do {
     let n = min n (usize_of_i32 (region_end t - region_start t));
     let n = min n (usize_of_i32 (region_end t - origin));
     t \<leftarrow> rotate_selection origin (region_end t) (- int n) t;
     let vi = line (vi_mode_cursor t);
     let t = (if origin \<le> vi \<and> region_end t > vi then set_vi_line (min (vi + int n) (region_end t - 1)) t else t);
     t \<leftarrow> on_grid (grid_scroll_down origin (region_end t) n) t;
     Some (mark_fully_damaged t)
   }"

definition scroll_up_relative :: "int \<Rightarrow> nat \<Rightarrow> terminal \<Rightarrow> terminal option" where
  "scroll_up_relative origin n t = do {
     let n = min n (usize_of_i32 (region_end t - region_start t));
     t \<leftarrow> rotate_selection origin (region_end t) (int n) t;
     t \<leftarrow> on_grid (grid_scroll_up origin (region_end t) n) t;
     let viewport_top = - int (display_offset (t_grid t));
     let upper = (if origin = 0 then viewport_top else origin);
     let vi = line (vi_mode_cursor t);
     let t = (if upper \<le> vi \<and> region_end t > vi then set_vi_line (max (vi - int n) upper) t else t);
     Some (mark_fully_damaged t)
   }"

definition scroll_up :: "nat \<Rightarrow> terminal \<Rightarrow> terminal option" where
  "scroll_up n t = scroll_up_relative (region_start t) n t"

definition scroll_down :: "nat \<Rightarrow> terminal \<Rightarrow> terminal option" where
  "scroll_down n t = scroll_down_relative (region_start t) n t"

section \<open>Cursor movement\<close>

definition goto :: "int \<Rightarrow> nat \<Rightarrow> terminal \<Rightarrow> terminal option" where
  "goto l col t = do {
     let (y_offset, max_y) =
       (if mode_contains ORIGIN t then (region_start t, region_end t - 1) else (0, bottommost_line (t_dims t)));
     t \<leftarrow> damage_cursor t;
     last \<leftarrow> last_column (t_dims t);
     let t = set_point (Point (max (min (l + y_offset) max_y) 0) (min col last)) t;
     t \<leftarrow> damage_cursor t;
     Some (set_needs_wrap False t)
   }"

definition goto_line :: "int \<Rightarrow> terminal \<Rightarrow> terminal option" where
  "goto_line l t = goto l (column (t_point t)) t"

definition goto_col :: "nat \<Rightarrow> terminal \<Rightarrow> terminal option" where
  "goto_col col t = goto (line (t_point t)) col t"

definition move_up :: "nat \<Rightarrow> terminal \<Rightarrow> terminal option" where
  "move_up n t = goto (line (t_point t) - int n) (column (t_point t)) t"

definition move_down :: "nat \<Rightarrow> terminal \<Rightarrow> terminal option" where
  "move_down n t = goto (line (t_point t) + int n) (column (t_point t)) t"

definition move_down_and_cr :: "nat \<Rightarrow> terminal \<Rightarrow> terminal option" where
  "move_down_and_cr n t = goto (line (t_point t) + int n) 0 t"

definition move_up_and_cr :: "nat \<Rightarrow> terminal \<Rightarrow> terminal option" where
  "move_up_and_cr n t = goto (line (t_point t) - int n) 0 t"

definition set_column :: "nat \<Rightarrow> terminal \<Rightarrow> terminal" where
  "set_column col t = set_point (Point (line (t_point t)) col) t"

definition move_forward :: "nat \<Rightarrow> terminal \<Rightarrow> terminal option" where
  "move_forward n t = do {
     last \<leftarrow> last_column (t_dims t);
     let last_col = min (column (t_point t) + n) last;
     t \<leftarrow> damage_line (usize_of_i32 (line (t_point t))) (column (t_point t)) last_col t;
     Some (set_needs_wrap False (set_column last_col t))
   }"

definition move_backward :: "nat \<Rightarrow> terminal \<Rightarrow> terminal option" where
  "move_backward n t = do {
     let col = column (t_point t) - n;
     t \<leftarrow> damage_line (usize_of_i32 (line (t_point t))) col (column (t_point t)) t;
     Some (set_needs_wrap False (set_column col t))
   }"

definition backspace :: "terminal \<Rightarrow> terminal option" where
  "backspace t =
     (if column (t_point t) > 0 then do {
        let l = usize_of_i32 (line (t_point t));
        let col = column (t_point t);
        let t = set_needs_wrap False (set_column (col - 1) t);
        damage_line l (col - 1) col t
      } else Some t)"

definition carriage_return :: "terminal \<Rightarrow> terminal option" where
  "carriage_return t = do {
     t \<leftarrow> damage_line (usize_of_i32 (line (t_point t))) 0 (column (t_point t)) t;
     Some (set_needs_wrap False (set_column 0 t))
   }"

definition linefeed :: "terminal \<Rightarrow> terminal option" where
  "linefeed t =
     (let next = line (t_point t) + 1
      in if next = region_end t then scroll_up 1 t
         else if next < int (t_lines t) then do {
           t \<leftarrow> damage_cursor t;
           let t = set_point (Point (line (t_point t) + 1) (column (t_point t))) t;
           damage_cursor t
         } else Some t)"

definition newline :: "terminal \<Rightarrow> terminal option" where
  "newline t = do {
     t \<leftarrow> linefeed t;
     if mode_contains LINE_FEED_NEW_LINE t then carriage_return t else Some t
   }"

definition reverse_index :: "terminal \<Rightarrow> terminal option" where
  "reverse_index t =
     (if line (t_point t) = region_start t then scroll_down 1 t
      else do {
        t \<leftarrow> damage_cursor t;
        let t = set_point (Point (max (line (t_point t) - 1) 0) (column (t_point t))) t;
        damage_cursor t
      })"

definition save_cursor_position :: "terminal \<Rightarrow> terminal" where
  "save_cursor_position t = t\<lparr>t_grid := (t_grid t)\<lparr>g_saved_cursor := t_cursor t\<rparr>\<rparr>"

definition restore_cursor_position :: "terminal \<Rightarrow> terminal option" where
  "restore_cursor_position t = do {
     t \<leftarrow> damage_cursor t;
     let t = t\<lparr>t_grid := (t_grid t)\<lparr>g_cursor := g_saved_cursor (t_grid t)\<rparr>\<rparr>;
     damage_cursor t
   }"

section \<open>Printing\<close>

definition wrapline :: "terminal \<Rightarrow> terminal option" where
  "wrapline t =
     (if \<not> mode_contains LINE_WRAP t then Some t
      else do {
        t \<leftarrow> on_grid (cursor_cell_mut (insert_flag WRAPLINE)) t;
        t \<leftarrow> (if line (t_point t) + 1 \<ge> region_end t then linefeed t
              else do {
                t \<leftarrow> damage_cursor t;
                Some (set_point (Point (line (t_point t) + 1) (column (t_point t))) t)
              });
        let t = set_needs_wrap False (set_column 0 t);
        damage_cursor t
      })"

definition write_at_cursor :: "env \<Rightarrow> uchar \<Rightarrow> terminal \<Rightarrow> terminal option" where
  "write_at_cursor E ch t = do {
     let ch = charset_map E (cur_charsets (t_cursor t) (active_charset t)) ch;
     let tmpl = t_template t;
     x \<leftarrow> grid_cell_at (t_grid t) (t_point t);
     t \<leftarrow> on_grid (cursor_cell_mut id) t;
     t \<leftarrow> (if flag_intersects (cell_flags x) (WIDE_CHAR OR WIDE_CHAR_SPACER) then do {
             let wide = flag_contains (cell_flags x) WIDE_CHAR;
             let p = t_point t;
             last \<leftarrow> last_column (t_dims t);
             t \<leftarrow> (if wide \<and> column p < last
                   then on_grid (grid_cell_mut (Point (line p) (column p + 1)) (remove_flag WIDE_CHAR_SPACER)) t
                   else if column p > 0
                   then on_grid (grid_cell_mut (Point (line p) (column p - 1)) clear_wide) t
                   else Some t);
             if column p \<le> 1 \<and> line p \<noteq> topmost_line (t_dims t)
             then on_grid (grid_cell_mut (Point (line p - 1) last) (remove_flag LEADING_WIDE_CHAR_SPACER)) t
             else Some t
           } else Some t);
     on_grid (cursor_cell_mut (\<lambda>x. \<lparr>cell_c = ch, cell_fg = cell_fg tmpl, cell_bg = cell_bg tmpl,
                                   cell_flags = cell_flags tmpl, cell_extra_data = cell_extra_data tmpl\<rparr>)) t
   }"

definition shift_right :: "nat \<Rightarrow> nat \<Rightarrow> nat \<Rightarrow> cell list \<Rightarrow> cell list option" where
  \<comment> \<open>\<^verbatim>\<open>for col in (col..columns - width).rev() { row.swap(col + width, col) }\<close>\<close>
  "shift_right col width cols xs = do {
     stop \<leftarrow> csub cols width;
     for_each (rev [col..<stop]) (\<lambda>i ys. vec_swap ys (i + width) i) xs
   }"

definition input_zero_width :: "uchar \<Rightarrow> terminal \<Rightarrow> terminal option" where
  \<comment> \<open>the zero-width branch of \<^verbatim>\<open>Handler::input\<close>\<close>
  "input_zero_width ch t = do {
     let col = (if \<not> input_needs_wrap (t_cursor t) then column (t_point t) - 1 else column (t_point t));
     let l = line (t_point t);
     x \<leftarrow> grid_cell_at (t_grid t) (Point l col);
     let col = (if flag_contains (cell_flags x) WIDE_CHAR_SPACER then col - 1 else col);
     on_grid (grid_cell_mut (Point l col) (push_zerowidth ch)) t
   }"

definition write_wide :: "env \<Rightarrow> uchar \<Rightarrow> terminal \<Rightarrow> terminal option" where
  \<comment> \<open>the glyph and its spacer, the end of the fullwidth branch of \<^verbatim>\<open>Handler::input\<close>\<close>
  "write_wide E ch t = do {
     let t = set_template (insert_flag WIDE_CHAR) t;
     t \<leftarrow> write_at_cursor E ch t;
     let t = set_template (remove_flag WIDE_CHAR) t;
     let t = set_column (column (t_point t) + 1) t;
     let t = set_template (insert_flag WIDE_CHAR_SPACER) t;
     t \<leftarrow> write_at_cursor E 32 t;
     Some (set_template (remove_flag WIDE_CHAR_SPACER) t)
   }"

definition advance_cursor :: "nat \<Rightarrow> terminal \<Rightarrow> terminal" where
  \<comment> \<open>the end of \<^verbatim>\<open>Handler::input\<close>\<close>
  "advance_cursor cols t =
     (if column (t_point t) + 1 < cols then set_column (column (t_point t) + 1) t
      else set_needs_wrap True t)"

definition input_shift :: "nat \<Rightarrow> terminal \<Rightarrow> terminal option" where
  \<comment> \<open>the insert-mode shift of \<^verbatim>\<open>Handler::input\<close>\<close>
  "input_shift width t =
     (if mode_contains INSERT t \<and> column (t_point t) + width < t_columns t
      then on_grid (grid_row_mut (line (t_point t))
             (row_range_full_mut (shift_right (column (t_point t)) width (t_columns t)))) t
      else Some t)"

definition input_glyph :: "env \<Rightarrow> uchar \<Rightarrow> nat \<Rightarrow> nat \<Rightarrow> terminal \<Rightarrow> terminal option" where
  \<comment> \<open>the write of \<^verbatim>\<open>Handler::input\<close>, from \<^verbatim>\<open>if width == 1\<close> on\<close>
  "input_glyph E ch width cols t =
     (if width = 1 then do {
        t \<leftarrow> write_at_cursor E ch t;
        Some (advance_cursor cols t)
      }
      else if column (t_point t) + 1 \<ge> cols then
        if mode_contains LINE_WRAP t then do {
          let t = set_template (insert_flag LEADING_WIDE_CHAR_SPACER) t;
          t \<leftarrow> write_at_cursor E 32 t;
          let t = set_template (remove_flag LEADING_WIDE_CHAR_SPACER) t;
          t \<leftarrow> wrapline t;
          t \<leftarrow> write_wide E ch t;
          Some (advance_cursor cols t)
        } else Some (set_needs_wrap True t)
      else do {
        t \<leftarrow> write_wide E ch t;
        Some (advance_cursor cols t)
      })"

definition input :: "env \<Rightarrow> uchar \<Rightarrow> terminal \<Rightarrow> terminal option" where
  "input E ch t =
     (case char_width E ch of
        None \<Rightarrow> Some t
      | Some width \<Rightarrow>
          if width = 0 then input_zero_width ch t
          else do {
            t \<leftarrow> (if input_needs_wrap (t_cursor t) then wrapline t else Some t);
            let cols = t_columns t;
            t \<leftarrow> input_shift width t;
            input_glyph E ch width cols t
          })"

definition decaln :: "terminal \<Rightarrow> terminal option" where
  "decaln t = do {
     t \<leftarrow> for_each (irange 0 (int (t_lines t)))
            (\<lambda>l. for_each [0..<t_columns t]
               (\<lambda>col. on_grid (grid_cell_mut (Point l col) (\<lambda>_. cell_default\<lparr>cell_c := 69\<rparr>)))) t;
     Some (mark_fully_damaged t)
   }"

section \<open>Editing a line\<close>

definition insert_blank_cells :: "nat \<Rightarrow> nat \<Rightarrow> nat \<Rightarrow> color \<Rightarrow> cell list \<Rightarrow> cell list option" where
  "insert_blank_cells source dest num bg xs = do {
     xs \<leftarrow> for_each (rev [0..<num]) (\<lambda>k ys. vec_swap ys (dest + k) (source + k)) xs;
     vec_fill xs source dest (cell_of_color bg)
   }"

definition insert_blank :: "nat \<Rightarrow> terminal \<Rightarrow> terminal option" where
  "insert_blank count t = do {
     let bg = cell_bg (t_template t);
     room \<leftarrow> csub (t_columns t) (column (t_point t));
     let count = min count room;
     let source = column (t_point t);
     let dest = column (t_point t) + count;
     num \<leftarrow> csub (t_columns t) dest;
     let l = line (t_point t);
     last \<leftarrow> csub (t_columns t) 1;
     t \<leftarrow> damage_line (usize_of_i32 l) 0 last t;
     on_grid (grid_row_mut l (row_range_full_mut (insert_blank_cells source dest num bg))) t
   }"

definition erase_chars :: "nat \<Rightarrow> terminal \<Rightarrow> terminal option" where
  "erase_chars count t = do {
     let s = column (t_point t);
     let e = min (s + count) (t_columns t);
     let bg = cell_bg (t_template t);
     let l = line (t_point t);
     t \<leftarrow> damage_line (usize_of_i32 l) s e t;
     on_grid (grid_row_mut l (row_range_mut s e (fill_with (cell_of_color bg)))) t
   }"

definition delete_cells :: "nat \<Rightarrow> nat \<Rightarrow> nat \<Rightarrow> nat \<Rightarrow> color \<Rightarrow> cell list \<Rightarrow> cell list option" where
  "delete_cells s e num clear_from bg xs = do {
     xs \<leftarrow> for_each [0..<num] (\<lambda>k ys. vec_swap ys (s + k) (e + k)) xs;
     vec_fill xs clear_from (length xs) (cell_of_color bg)
   }"

definition delete_chars :: "nat \<Rightarrow> terminal \<Rightarrow> terminal option" where
  "delete_chars count t = do {
     let cols = t_columns t;
     let bg = cell_bg (t_template t);
     let count = min count cols;
     let s = column (t_point t);
     last \<leftarrow> csub cols 1;
     let e = min (s + count) last;
     num \<leftarrow> csub cols e;
     let l = line (t_point t);
     t \<leftarrow> damage_line (usize_of_i32 l) 0 last t;
     clear_from \<leftarrow> csub cols count;
     on_grid (grid_row_mut l (row_range_full_mut (delete_cells s e num clear_from bg))) t
   }"

datatype line_clear_mode = Clear_Right | Clear_Left | Clear_All_Line

definition filter_selection :: "bound \<Rightarrow> bound \<Rightarrow> terminal \<Rightarrow> terminal" where
  \<comment> \<open>\<^verbatim>\<open>self.selection = self.selection.take().filter(|s| !s.intersects_range(range))\<close>\<close>
  "filter_selection lo hi t =
     t\<lparr>t_selection := (case t_selection t of
        None \<Rightarrow> None | Some s \<Rightarrow> if intersects_range lo hi s then None else Some s)\<rparr>"

definition clear_line :: "line_clear_mode \<Rightarrow> terminal \<Rightarrow> terminal option" where
  "clear_line m t =
     (let bg = cell_bg (t_template t); p = t_point t
      in if m = Clear_Right \<and> input_needs_wrap (t_cursor t) then Some t
         else do {
           let (left, right) =
             (case m of
                Clear_Right \<Rightarrow> (column p, t_columns t)
              | Clear_Left \<Rightarrow> (0, column p + 1)
              | Clear_All_Line \<Rightarrow> (0, t_columns t));
           last \<leftarrow> csub right 1;
           t \<leftarrow> damage_line (usize_of_i32 (line p)) left last t;
           t \<leftarrow> on_grid (grid_row_mut (line p) (row_range_mut left right (fill_with (cell_of_color bg)))) t;
           Some (filter_selection (Included (line (t_point t))) (Included (line (t_point t))) t)
         })"

section \<open>Lines and screens\<close>

definition insert_blank_lines :: "nat \<Rightarrow> terminal \<Rightarrow> terminal option" where
  "insert_blank_lines n t =
     (let origin = line (t_point t)
      in if region_start t \<le> origin \<and> origin < region_end t then scroll_down_relative origin n t else Some t)"

definition delete_lines :: "nat \<Rightarrow> terminal \<Rightarrow> terminal option" where
  "delete_lines n t = do {
     let origin = line (t_point t);
     room \<leftarrow> csub (t_lines t) (usize_of_i32 origin);
     let n = min room n;
     if n > 0 \<and> region_start t \<le> origin \<and> origin < region_end t then scroll_up_relative origin n t else Some t
   }"

datatype clear_mode = Clear_Below | Clear_Above | Clear_All | Clear_Saved

text \<open>One definition per arm of \<^verbatim>\<open>clear_screen\<close>.\<close>

definition clear_above :: "terminal \<Rightarrow> terminal option" where
  "clear_above t = do {
     let bg = cell_bg (t_template t);
     let p = t_point t;
     t \<leftarrow> (if line p > 1 then on_grid (reset_region Unbounded (Excluded (line p))) t else Some t);
     let e = min (column p + 1) (t_columns t);
     t \<leftarrow> on_grid (grid_row_mut (line p) (row_range_to_mut e (fill_with (cell_of_color bg)))) t;
     Some (filter_selection (Included 0) (Included (line p)) t)
   }"

definition clear_below :: "terminal \<Rightarrow> terminal option" where
  "clear_below t = do {
     let bg = cell_bg (t_template t);
     let lines = t_lines t;
     let p = t_point t;
     t \<leftarrow> on_grid (grid_row_mut (line p) (row_range_from_mut (column p) (fill_with (cell_of_color bg)))) t;
     last \<leftarrow> csub lines 1;
     t \<leftarrow> (if usize_of_i32 (line p) < last
           then on_grid (reset_region (Included (line p + 1)) Unbounded) t else Some t);
     Some (filter_selection (Included (line p)) (Excluded (int lines)) t)
   }"

definition clear_all :: "terminal \<Rightarrow> terminal option" where
  "clear_all t = do {
     t \<leftarrow> (if mode_contains ALT_SCREEN t then on_grid (reset_region Unbounded Unbounded) t
           else do {
             let old_offset = display_offset (t_grid t);
             t \<leftarrow> on_grid clear_viewport t;
             let n = display_offset (t_grid t) - old_offset;
             l \<leftarrow> line_grid_clamp (t_dims t) Boundary_Grid (line (vi_mode_cursor t) - int n);
             Some (set_vi_line l t)
           });
     Some (t\<lparr>t_selection := None\<rparr>)
   }"

definition clear_saved :: "terminal \<Rightarrow> terminal option" where
  "clear_saved t =
     (if history_size (t_dims t) > 0 then do {
        t \<leftarrow> on_grid clear_history t;
        l \<leftarrow> line_grid_clamp (t_dims t) Boundary_Cursor (line (vi_mode_cursor t));
        Some (filter_selection Unbounded (Excluded 0) (set_vi_line l t))
      } else Some t)"

definition clear_screen :: "clear_mode \<Rightarrow> terminal \<Rightarrow> terminal option" where
  "clear_screen m t = do {
     t \<leftarrow> (case m of
             Clear_Above \<Rightarrow> clear_above t
           | Clear_Below \<Rightarrow> clear_below t
           | Clear_All \<Rightarrow> clear_all t
           | Clear_Saved \<Rightarrow> clear_saved t);
     Some (mark_fully_damaged t)
   }"

definition reset_state :: "terminal \<Rightarrow> terminal option" where
  "reset_state t = do {
     let t = (if mode_contains ALT_SCREEN t
              then t\<lparr>t_grid := t_inactive_grid t, t_inactive_grid := t_grid t\<rparr> else t);
     let t = t\<lparr>active_charset := G0, t_cursor_style := None\<rparr>;
     t \<leftarrow> on_grid grid_reset t;
     ig \<leftarrow> grid_reset (t_inactive_grid t);
     let t = t\<lparr>t_inactive_grid := ig\<rparr>;
     let t = t\<lparr>region_start := 0, region_end := int (t_lines t), t_tabs := tabs_new (t_columns t),
               title_stack := [], t_title := None, t_selection := None, vi_mode_cursor := Point 0 0,
               keyboard_mode_stack := [], inactive_keyboard_mode_stack := []\<rparr>;
     let t = t\<lparr>t_mode := flag_insert (t_mode t AND VI) mode_default\<rparr>;
     Some (mark_fully_damaged (send_event CursorBlinkingChange t))
   }"

definition set_scrolling_region :: "nat \<Rightarrow> nat option \<Rightarrow> terminal \<Rightarrow> terminal option" where
  "set_scrolling_region rtop rbottom t =
     (let b = (case rbottom of None \<Rightarrow> t_lines t | Some x \<Rightarrow> x)
      in if rtop \<ge> b then Some t
         else
           let s = int rtop - 1; e = int b; lines = int (t_lines t);
               t = t\<lparr>region_start := min s lines, region_end := min e lines\<rparr>
           in goto 0 0 t)"

definition deccolm :: "terminal \<Rightarrow> terminal option" where
  "deccolm t = do {
     t \<leftarrow> set_scrolling_region 1 None t;
     t \<leftarrow> on_grid (reset_region Unbounded Unbounded) t;
     Some (mark_fully_damaged t)
   }"

end
