(* ===== verification/Term_Modes.thy ===== *)
theory Term_Modes
  imports Term_Ops
begin

text \<open>
  The remaining \<^verbatim>\<open>Handler\<close> methods of \<^verbatim>\<open>alacritty_terminal/src/term/mod.rs\<close>: tab stops, attributes,
  modes, colours, the clipboard, titles, keyboard modes and reports, and the vi-mode entry points
  of \<^verbatim>\<open>Term\<close> that do not search. The constructors of the parser's types are the ones the
  sources match on; the numeric code of a mode comes with it, as \<^verbatim>\<open>mode.raw()\<close> does.
\<close>

unbundle bit_operations_syntax

section \<open>Tab stops\<close>

function next_tab_stop :: "bool list \<Rightarrow> nat \<Rightarrow> nat \<Rightarrow> nat option" where
  \<comment> \<open>the inner \<^verbatim>\<open>loop\<close> of \<^verbatim>\<open>put_tab\<close>\<close>
  "next_tab_stop tabs cols col =
     (if col + 1 = cols then Some col
      else case vec_get tabs (col + 1) of
             None \<Rightarrow> None
           | Some b \<Rightarrow> if b then Some (col + 1) else next_tab_stop tabs cols (col + 1))"
  by pat_completeness auto
termination
  by (relation "measure (\<lambda>(tabs, cols, col). length tabs - col)")
    (auto simp: vec_get_def split: if_splits)

declare next_tab_stop.simps [simp del]

fun put_tabs :: "env \<Rightarrow> nat \<Rightarrow> terminal \<Rightarrow> terminal option" where
  \<comment> \<open>the outer loop of \<^verbatim>\<open>put_tab\<close>\<close>
  "put_tabs E 0 t = Some t"
| "put_tabs E (Suc n) t =
     (if column (t_point t) < t_columns t then do {
        let ch = charset_map E (cur_charsets (t_cursor t) (active_charset t)) 9;
        t \<leftarrow> on_grid (cursor_cell_mut (\<lambda>x. if cell_c x = 32 then x\<lparr>cell_c := ch\<rparr> else x)) t;
        col \<leftarrow> next_tab_stop (t_tabs t) (t_columns t) (column (t_point t));
        put_tabs E n (set_column col t)
      } else Some t)"

definition put_tab :: "env \<Rightarrow> 16 word \<Rightarrow> terminal \<Rightarrow> terminal option" where
  "put_tab E count t =
     (if input_needs_wrap (t_cursor t) then wrapline t else put_tabs E (unat count) t)"

definition set_horizontal_tabstop :: "terminal \<Rightarrow> terminal option" where
  "set_horizontal_tabstop t = do {
     tabs \<leftarrow> vec_set (t_tabs t) (column (t_point t)) True;
     Some (t\<lparr>t_tabs := tabs\<rparr>)
   }"

fun tab_before :: "bool list \<Rightarrow> nat \<Rightarrow> nat option option" where
  \<comment> \<open>\<^verbatim>\<open>for i in (0..col).rev() { if self.tabs[i] { ...; break } }\<close>\<close>
  "tab_before tabs 0 = Some None"
| "tab_before tabs (Suc i) = do {
     b \<leftarrow> vec_get tabs i;
     if b then Some (Some i) else tab_before tabs i
   }"

fun backward_tabs :: "bool list \<Rightarrow> nat \<Rightarrow> nat \<Rightarrow> nat option" where
  "backward_tabs tabs 0 col = Some col"
| "backward_tabs tabs (Suc n) col =
     (if col = 0 then Some col
      else do {
        r \<leftarrow> tab_before tabs col;
        backward_tabs tabs n (case r of None \<Rightarrow> col | Some i \<Rightarrow> i)
      })"

definition move_backward_tabs :: "16 word \<Rightarrow> terminal \<Rightarrow> terminal option" where
  "move_backward_tabs count t = do {
     let old_col = column (t_point t);
     col \<leftarrow> backward_tabs (t_tabs t) (unat count) old_col;
     let t = set_column col t;
     damage_line (usize_of_i32 (line (t_point t))) (column (t_point t)) old_col t
   }"

function tab_after :: "bool list \<Rightarrow> nat \<Rightarrow> nat \<Rightarrow> nat option" where
  \<comment> \<open>\<^verbatim>\<open>for i in col + 1..num_cols { col = i; if self.tabs[col] { break } }\<close>\<close>
  "tab_after tabs cols col =
     (if col + 1 < cols then
        case vec_get tabs (col + 1) of
          None \<Rightarrow> None
        | Some b \<Rightarrow> if b then Some (col + 1) else tab_after tabs cols (col + 1)
      else Some col)"
  by pat_completeness auto
termination by (relation "measure (\<lambda>(tabs, cols, col). cols - col)") auto

declare tab_after.simps [simp del]

fun forward_tabs :: "bool list \<Rightarrow> nat \<Rightarrow> nat \<Rightarrow> nat \<Rightarrow> nat option" where
  "forward_tabs tabs cols 0 col = Some col"
| "forward_tabs tabs cols (Suc n) col = do {
     last \<leftarrow> csub cols 1;
     if col = last then Some col
     else do {
       col \<leftarrow> tab_after tabs cols col;
       forward_tabs tabs cols n col
     }
   }"

definition move_forward_tabs :: "16 word \<Rightarrow> terminal \<Rightarrow> terminal option" where
  "move_forward_tabs count t = do {
     let old_col = column (t_point t);
     col \<leftarrow> forward_tabs (t_tabs t) (t_columns t) (unat count) old_col;
     let t = set_column col t;
     damage_line (usize_of_i32 (line (t_point t))) old_col (column (t_point t)) t
   }"

datatype tab_clear_mode = Tabs_Current | Tabs_All

fun clear_tabs :: "tab_clear_mode \<Rightarrow> terminal \<Rightarrow> terminal option" where
  "clear_tabs Tabs_Current t = do {
     tabs \<leftarrow> vec_set (t_tabs t) (column (t_point t)) False;
     Some (t\<lparr>t_tabs := tabs\<rparr>)
   }"
| "clear_tabs Tabs_All t = Some (t\<lparr>t_tabs := tabs_clear_all (t_tabs t)\<rparr>)"

section \<open>Reports\<close>

definition ESC :: string where
  "ESC = [char_of (27 :: nat)]"

definition CARGO_PKG_VERSION :: string where
  "CARGO_PKG_VERSION = ''0.25.2-dev''"

fun split_on :: "char \<Rightarrow> string \<Rightarrow> string list" where
  \<comment> \<open>\<^verbatim>\<open>str::split\<close> with a character\<close>
  "split_on sep [] = [[]]"
| "split_on sep (ch # cs) =
     (if ch = sep then [] # split_on sep cs
      else case split_on sep cs of [] \<Rightarrow> [[ch]] | w # ws \<Rightarrow> (ch # w) # ws)"

definition is_digit :: "char \<Rightarrow> bool" where
  "is_digit ch \<longleftrightarrow> (48 :: nat) \<le> of_char ch \<and> of_char ch \<le> (57 :: nat)"

definition digits_value :: "string \<Rightarrow> nat" where
  "digits_value cs = foldl (\<lambda>n ch. 10 * n + (of_char ch - 48)) 0 cs"

definition parse_usize :: "string \<Rightarrow> nat option" where
  \<comment> \<open>\<^verbatim>\<open>str::parse::<usize>\<close>: an optional plus sign, digits, no overflow\<close>
  "parse_usize cs =
     (let ds = (case cs of ch # rest \<Rightarrow> if ch = CHR ''+'' then rest else cs | [] \<Rightarrow> [])
      in if ds \<noteq> [] \<and> list_all is_digit ds \<and> digits_value ds < 2 ^ 64 then Some (digits_value ds) else None)"

definition strip_suffix_from :: "char \<Rightarrow> string \<Rightarrow> string" where
  \<comment> \<open>\<^verbatim>\<open>if let Some(i) = version.rfind(sep) { version = &version[..i] }\<close>\<close>
  "strip_suffix_from sep cs = (case rposition (\<lambda>ch. ch = sep) cs of None \<Rightarrow> cs | Some i \<Rightarrow> take i cs)"

definition version_number :: "string \<Rightarrow> nat" where
  "version_number version =
     (let parts = rev (split_on CHR ''.'' (strip_suffix_from CHR ''-'' version))
      in sum_list (map (\<lambda>(i, w). 100 ^ i * (case parse_usize w of Some n \<Rightarrow> n | None \<Rightarrow> 0))
                     (zip [0..<length parts] parts)))"

definition pty_write :: "string \<Rightarrow> terminal \<Rightarrow> terminal" where
  "pty_write s = send_event (PtyWrite s)"

definition identify_terminal :: "uchar option \<Rightarrow> terminal \<Rightarrow> terminal" where
  "identify_terminal intermediate t =
     (case intermediate of
        None \<Rightarrow> pty_write (ESC @ ''[?6c'') t
      | Some ch \<Rightarrow>
          if ch = 62 then pty_write (ESC @ ''[>0;'' @ dec_digits (version_number CARGO_PKG_VERSION) @ '';1c'') t
          else t)"

fun device_status :: "nat \<Rightarrow> terminal \<Rightarrow> terminal" where
  "device_status arg t =
     (if arg = 5 then pty_write (ESC @ ''[0n'') t
      else if arg = 6 then
        pty_write (ESC @ ''['' @ dec_int (line (t_point t) + 1) @ '';''
                   @ dec_digits (column (t_point t) + 1) @ ''R'') t
      else t)"

definition text_area_size_chars :: "terminal \<Rightarrow> terminal" where
  "text_area_size_chars t =
     pty_write (ESC @ ''[8;'' @ dec_digits (t_lines t) @ '';'' @ dec_digits (t_columns t) @ ''t'') t"

definition text_area_size_pixels :: "terminal \<Rightarrow> terminal" where
  "text_area_size_pixels t = send_event TextAreaSizeRequest t"

definition u16_mul :: "16 word \<Rightarrow> 16 word \<Rightarrow> 16 word option" where
  \<comment> \<open>\<^verbatim>\<open>u16\<close> multiplication with overflow checks\<close>
  "u16_mul a b = (if unat a * unat b < 2 ^ 16 then Some (a * b) else None)"

definition text_area_response :: "window_size \<Rightarrow> string option" where
  \<comment> \<open>the closure of \<^verbatim>\<open>text_area_size_pixels\<close>\<close>
  "text_area_response w = do {
     height \<leftarrow> u16_mul (num_lines w) (cell_height w);
     width \<leftarrow> u16_mul (num_cols w) (cell_width w);
     Some (ESC @ ''[4;'' @ dec_digits (unat height) @ '';'' @ dec_digits (unat width) @ ''t'')
   }"

section \<open>Keyboard modes\<close>

definition report_keyboard_mode :: "env \<Rightarrow> terminal \<Rightarrow> terminal" where
  "report_keyboard_mode E t =
     (if \<not> kitty_keyboard (t_config t) then t
      else pty_write (ESC @ ''[?'' @ dec_digits (keyboard_bits E (last_keyboard_mode (keyboard_mode_stack t)))
                      @ ''u'') t)"

definition vec_remove_first :: "'a list \<Rightarrow> 'a list option" where
  \<comment> \<open>\<^verbatim>\<open>vec.remove(0)\<close>\<close>
  "vec_remove_first xs = (case xs of [] \<Rightarrow> None | _ # ys \<Rightarrow> Some ys)"

definition push_keyboard_mode :: "keyboard_modes \<Rightarrow> terminal \<Rightarrow> terminal option" where
  "push_keyboard_mode k t =
     (if \<not> kitty_keyboard (t_config t) then Some t
      else do {
        t \<leftarrow> (if length (keyboard_mode_stack t) \<ge> KEYBOARD_MODE_STACK_MAX_DEPTH then do {
                ts \<leftarrow> vec_remove_first (title_stack t);
                Some (t\<lparr>title_stack := ts\<rparr>)
              } else Some t);
        let t = t\<lparr>keyboard_mode_stack := keyboard_mode_stack t @ [k]\<rparr>;
        Some (set_keyboard_mode (mode_of_keyboard k) Apply_Replace t)
      })"

definition pop_keyboard_modes :: "16 word \<Rightarrow> terminal \<Rightarrow> terminal" where
  "pop_keyboard_modes to_pop t =
     (if \<not> kitty_keyboard (t_config t) then t
      else
        let new_len = length (keyboard_mode_stack t) - unat to_pop;
            t = t\<lparr>keyboard_mode_stack := take new_len (keyboard_mode_stack t)\<rparr>
        in set_keyboard_mode (mode_of_keyboard (last_keyboard_mode (keyboard_mode_stack t))) Apply_Replace t)"

definition handler_set_keyboard_mode :: "keyboard_modes \<Rightarrow> apply_behavior \<Rightarrow> terminal \<Rightarrow> terminal" where
  \<comment> \<open>\<^verbatim>\<open>Handler::set_keyboard_mode\<close>\<close>
  "handler_set_keyboard_mode k app t =
     (if \<not> kitty_keyboard (t_config t) then t else set_keyboard_mode (mode_of_keyboard k) app t)"

section \<open>Titles\<close>

definition set_title :: "ustring option \<Rightarrow> terminal \<Rightarrow> terminal" where
  "set_title ti t = send_event (title_event ti) (t\<lparr>t_title := ti\<rparr>)"

definition push_title :: "terminal \<Rightarrow> terminal option" where
  "push_title t = do {
     t \<leftarrow> (if length (title_stack t) \<ge> TITLE_STACK_MAX_DEPTH then do {
             ts \<leftarrow> vec_remove_first (title_stack t);
             Some (t\<lparr>title_stack := ts\<rparr>)
           } else Some t);
     Some (t\<lparr>title_stack := title_stack t @ [t_title t]\<rparr>)
   }"

definition pop_title :: "terminal \<Rightarrow> terminal" where
  "pop_title t =
     (if title_stack t = [] then t
      else set_title (last (title_stack t)) (t\<lparr>title_stack := butlast (title_stack t)\<rparr>))"

section \<open>Colours and the clipboard\<close>

definition set_color :: "env \<Rightarrow> nat \<Rightarrow> rgb \<Rightarrow> terminal \<Rightarrow> terminal option" where
  "set_color E i col t = do {
     t \<leftarrow> (if i \<noteq> cursor_color_index E then do {
             old \<leftarrow> vec_get (t_colors t) i;
             Some (if old \<noteq> Some col then mark_fully_damaged t else t)
           } else Some t);
     cs \<leftarrow> vec_set (t_colors t) i (Some col);
     Some (t\<lparr>t_colors := cs\<rparr>)
   }"

definition reset_color :: "env \<Rightarrow> nat \<Rightarrow> terminal \<Rightarrow> terminal option" where
  "reset_color E i t = do {
     t \<leftarrow> (if i \<noteq> cursor_color_index E then do {
             old \<leftarrow> vec_get (t_colors t) i;
             Some (if old \<noteq> None then mark_fully_damaged t else t)
           } else Some t);
     cs \<leftarrow> vec_set (t_colors t) i None;
     Some (t\<lparr>t_colors := cs\<rparr>)
   }"

definition dynamic_color_sequence :: "string \<Rightarrow> nat \<Rightarrow> string \<Rightarrow> terminal \<Rightarrow> terminal" where
  "dynamic_color_sequence prefix i terminator t = send_event (ColorRequest i prefix terminator) t"

definition hex_digit :: "nat \<Rightarrow> char" where
  "hex_digit n = (if n < 10 then char_of (48 + n) else char_of (87 + n))"

definition hex2 :: "8 word \<Rightarrow> string" where
  \<comment> \<open>the format \<^verbatim>\<open>{:02x}\<close> of a byte\<close>
  "hex2 w = [hex_digit (unat w div 16), hex_digit (unat w mod 16)]"

definition color_response :: "string \<Rightarrow> string \<Rightarrow> rgb \<Rightarrow> string" where
  \<comment> \<open>the closure of \<^verbatim>\<open>dynamic_color_sequence\<close>\<close>
  "color_response prefix terminator col =
     ESC @ '']'' @ prefix @ '';rgb:'' @ hex2 (red col) @ hex2 (red col) @ ''/''
     @ hex2 (green col) @ hex2 (green col) @ ''/'' @ hex2 (blue col) @ hex2 (blue col) @ terminator"

definition clipboard_kind :: "8 word \<Rightarrow> clipboard_type option" where
  \<comment> \<open>\<^verbatim>\<open>b'c'\<close>, \<^verbatim>\<open>b'p' | b's'\<close>\<close>
  "clipboard_kind b =
     (if b = 99 then Some Clipboard_Main else if b = 112 \<or> b = 115 then Some Clipboard_Selection else None)"

definition cont_byte :: "nat \<Rightarrow> bool" where
  "cont_byte b \<longleftrightarrow> 128 \<le> b \<and> b < 192"

fun utf8_decode :: "nat list \<Rightarrow> ustring option" where
  \<comment> \<open>\<^verbatim>\<open>String::from_utf8\<close>: \<open>None\<close> on ill-formed input\<close>
  "utf8_decode [] = Some []"
| "utf8_decode (a # bs) =
     (if a < 128 then map_option (\<lambda>r. a # r) (utf8_decode bs)
      else if 0xC2 \<le> a \<and> a < 0xE0 then
        case bs of
          b # rest \<Rightarrow>
            if cont_byte b then map_option (\<lambda>r. ((a - 0xC0) * 64 + (b - 128)) # r) (utf8_decode rest) else None
        | _ \<Rightarrow> None
      else if 0xE0 \<le> a \<and> a < 0xF0 then
        case bs of
          b # c # rest \<Rightarrow>
            let v = (a - 0xE0) * 4096 + (b - 128) * 64 + (c - 128) in
            if cont_byte b \<and> cont_byte c \<and> 0x800 \<le> v \<and> \<not> (0xD800 \<le> v \<and> v \<le> 0xDFFF)
            then map_option (\<lambda>r. v # r) (utf8_decode rest) else None
        | _ \<Rightarrow> None
      else if 0xF0 \<le> a \<and> a < 0xF5 then
        case bs of
          b # c # d # rest \<Rightarrow>
            let v = (a - 0xF0) * 262144 + (b - 128) * 4096 + (c - 128) * 64 + (d - 128) in
            if cont_byte b \<and> cont_byte c \<and> cont_byte d \<and> 0x10000 \<le> v \<and> v < 0x110000
            then map_option (\<lambda>r. v # r) (utf8_decode rest) else None
        | _ \<Rightarrow> None
      else None)"

declare utf8_decode.simps [simp del]

definition clipboard_store :: "env \<Rightarrow> 8 word \<Rightarrow> 8 word list \<Rightarrow> terminal \<Rightarrow> terminal" where
  "clipboard_store E clipboard data t =
     (if cfg_osc52 (t_config t) \<notin> {Osc52_OnlyCopy, Osc52_CopyPaste} then t
      else case clipboard_kind clipboard of
        None \<Rightarrow> t
      | Some kind \<Rightarrow>
          (case base64_decode E data of
             None \<Rightarrow> t
           | Some bytes \<Rightarrow>
               (case utf8_decode (map unat bytes) of
                  None \<Rightarrow> t
                | Some txt \<Rightarrow> send_event (ClipboardStore kind txt) t)))"

definition clipboard_load :: "8 word \<Rightarrow> string \<Rightarrow> terminal \<Rightarrow> terminal" where
  "clipboard_load clipboard terminator t =
     (if cfg_osc52 (t_config t) \<notin> {Osc52_OnlyPaste, Osc52_CopyPaste} then t
      else case clipboard_kind clipboard of
        None \<Rightarrow> t
      | Some kind \<Rightarrow> send_event (ClipboardLoad kind clipboard terminator) t)"

definition clipboard_response :: "env \<Rightarrow> 8 word \<Rightarrow> string \<Rightarrow> ustring \<Rightarrow> string" where
  \<comment> \<open>the closure of \<^verbatim>\<open>clipboard_load\<close>\<close>
  "clipboard_response E clipboard terminator txt =
     ESC @ '']52;'' @ [char_of (unat clipboard)] @ '';'' @ base64_encode E txt @ terminator"

section \<open>Attributes\<close>

datatype attr =
    Attr_Foreground color
  | Attr_Background color
  | Attr_UnderlineColor "color option"
  | Attr_Reset
  | Attr_Reverse
  | Attr_CancelReverse
  | Attr_Bold
  | Attr_CancelBold
  | Attr_Dim
  | Attr_CancelBoldDim
  | Attr_Italic
  | Attr_CancelItalic
  | Attr_Underline
  | Attr_DoubleUnderline
  | Attr_Undercurl
  | Attr_DottedUnderline
  | Attr_DashedUnderline
  | Attr_CancelUnderline
  | Attr_Hidden
  | Attr_CancelHidden
  | Attr_Strike
  | Attr_CancelStrike
  | Attr_Other nat

definition underline_as :: "flags \<Rightarrow> cell \<Rightarrow> cell" where
  "underline_as f x = insert_flag f (remove_flag ALL_UNDERLINES x)"

fun apply_attr :: "attr \<Rightarrow> cell \<Rightarrow> cell" where
  "apply_attr (Attr_Foreground col) x = x\<lparr>cell_fg := col\<rparr>"
| "apply_attr (Attr_Background col) x = x\<lparr>cell_bg := col\<rparr>"
| "apply_attr (Attr_UnderlineColor col) x = set_underline_color col x"
| "apply_attr Attr_Reset x =
     set_underline_color None
       (x\<lparr>cell_fg := Named Foreground, cell_bg := Named Background, cell_flags := 0\<rparr>)"
| "apply_attr Attr_Reverse x = insert_flag INVERSE x"
| "apply_attr Attr_CancelReverse x = remove_flag INVERSE x"
| "apply_attr Attr_Bold x = insert_flag BOLD x"
| "apply_attr Attr_CancelBold x = remove_flag BOLD x"
| "apply_attr Attr_Dim x = insert_flag DIM x"
| "apply_attr Attr_CancelBoldDim x = remove_flag (BOLD OR DIM) x"
| "apply_attr Attr_Italic x = insert_flag ITALIC x"
| "apply_attr Attr_CancelItalic x = remove_flag ITALIC x"
| "apply_attr Attr_Underline x = underline_as UNDERLINE x"
| "apply_attr Attr_DoubleUnderline x = underline_as DOUBLE_UNDERLINE x"
| "apply_attr Attr_Undercurl x = underline_as UNDERCURL x"
| "apply_attr Attr_DottedUnderline x = underline_as DOTTED_UNDERLINE x"
| "apply_attr Attr_DashedUnderline x = underline_as DASHED_UNDERLINE x"
| "apply_attr Attr_CancelUnderline x = remove_flag ALL_UNDERLINES x"
| "apply_attr Attr_Hidden x = insert_flag HIDDEN x"
| "apply_attr Attr_CancelHidden x = remove_flag HIDDEN x"
| "apply_attr Attr_Strike x = insert_flag STRIKEOUT x"
| "apply_attr Attr_CancelStrike x = remove_flag STRIKEOUT x"
| "apply_attr (Attr_Other _) x = x"

definition terminal_attribute :: "attr \<Rightarrow> terminal \<Rightarrow> terminal" where
  "terminal_attribute a t = set_template (apply_attr a) t"

definition set_hyperlink :: "(string option \<times> string) option \<Rightarrow> terminal \<Rightarrow> terminal" where
  \<comment> \<open>the argument is \<^verbatim>\<open>vte::ansi::Hyperlink { id, uri }\<close>\<close>
  "set_hyperlink h t =
     (case h of
        None \<Rightarrow> set_template (set_cell_hyperlink None) t
      | Some (lid, uri) \<Rightarrow>
          let (link, suffix) = hyperlink_new (hyperlink_id_suffix t) lid uri
          in set_template (set_cell_hyperlink (Some link)) (t\<lparr>hyperlink_id_suffix := suffix\<rparr>))"

section \<open>Modes\<close>

datatype named_private_mode =
    CursorKeys | ColumnMode | Origin_Mode | LineWrap | BlinkingCursor | ShowCursor
  | ReportMouseClicks | ReportCellMouseMotion | ReportAllMouseMotion | ReportFocusInOut
  | Utf8Mouse | SgrMouse | AlternateScroll | UrgencyHints | SwapScreenAndSetRestoreCursor
  | BracketedPaste | SyncUpdate

datatype private_mode = Private_Named named_private_mode | Private_Unknown

datatype named_mode = Mode_Insert | Mode_LineFeedNewLine

datatype ansi_mode = Mode_Named named_mode | Mode_Unknown

definition set_blinking :: "bool \<Rightarrow> terminal \<Rightarrow> terminal" where
  "set_blinking b t =
     (let style = (case t_cursor_style t of Some s \<Rightarrow> s | None \<Rightarrow> default_cursor_style (t_config t))
      in send_event CursorBlinkingChange (t\<lparr>t_cursor_style := Some (style\<lparr>blinking := b\<rparr>)\<rparr>))"

definition mouse_protocol :: "term_mode \<Rightarrow> terminal \<Rightarrow> terminal" where
  "mouse_protocol m t = send_event MouseCursorDirty (mode_insert m (mode_remove MOUSE_MODE t))"

fun set_private_mode :: "private_mode \<Rightarrow> terminal \<Rightarrow> terminal option" where
  "set_private_mode Private_Unknown t = Some t"
| "set_private_mode (Private_Named m) t =
     (case m of
        UrgencyHints \<Rightarrow> Some (mode_insert URGENCY_HINTS t)
      | SwapScreenAndSetRestoreCursor \<Rightarrow> if \<not> mode_contains ALT_SCREEN t then swap_alt t else Some t
      | ShowCursor \<Rightarrow> Some (mode_insert SHOW_CURSOR t)
      | CursorKeys \<Rightarrow> Some (mode_insert APP_CURSOR t)
      | ReportMouseClicks \<Rightarrow> Some (mouse_protocol MOUSE_REPORT_CLICK t)
      | ReportCellMouseMotion \<Rightarrow> Some (mouse_protocol MOUSE_DRAG t)
      | ReportAllMouseMotion \<Rightarrow> Some (mouse_protocol MOUSE_MOTION t)
      | ReportFocusInOut \<Rightarrow> Some (mode_insert FOCUS_IN_OUT t)
      | BracketedPaste \<Rightarrow> Some (mode_insert BRACKETED_PASTE t)
      | SgrMouse \<Rightarrow> Some (mode_insert SGR_MOUSE (mode_remove UTF8_MOUSE t))
      | Utf8Mouse \<Rightarrow> Some (mode_insert UTF8_MOUSE (mode_remove SGR_MOUSE t))
      | AlternateScroll \<Rightarrow> Some (mode_insert ALTERNATE_SCROLL t)
      | LineWrap \<Rightarrow> Some (mode_insert LINE_WRAP t)
      | Origin_Mode \<Rightarrow> goto 0 0 (mode_insert ORIGIN t)
      | ColumnMode \<Rightarrow> deccolm t
      | BlinkingCursor \<Rightarrow> Some (set_blinking True t)
      | SyncUpdate \<Rightarrow> Some t)"

fun unset_private_mode :: "private_mode \<Rightarrow> terminal \<Rightarrow> terminal option" where
  "unset_private_mode Private_Unknown t = Some t"
| "unset_private_mode (Private_Named m) t =
     (case m of
        UrgencyHints \<Rightarrow> Some (mode_remove URGENCY_HINTS t)
      | SwapScreenAndSetRestoreCursor \<Rightarrow> if mode_contains ALT_SCREEN t then swap_alt t else Some t
      | ShowCursor \<Rightarrow> Some (mode_remove SHOW_CURSOR t)
      | CursorKeys \<Rightarrow> Some (mode_remove APP_CURSOR t)
      | ReportMouseClicks \<Rightarrow> Some (send_event MouseCursorDirty (mode_remove MOUSE_REPORT_CLICK t))
      | ReportCellMouseMotion \<Rightarrow> Some (send_event MouseCursorDirty (mode_remove MOUSE_DRAG t))
      | ReportAllMouseMotion \<Rightarrow> Some (send_event MouseCursorDirty (mode_remove MOUSE_MOTION t))
      | ReportFocusInOut \<Rightarrow> Some (mode_remove FOCUS_IN_OUT t)
      | BracketedPaste \<Rightarrow> Some (mode_remove BRACKETED_PASTE t)
      | SgrMouse \<Rightarrow> Some (mode_remove SGR_MOUSE t)
      | Utf8Mouse \<Rightarrow> Some (mode_remove UTF8_MOUSE t)
      | AlternateScroll \<Rightarrow> Some (mode_remove ALTERNATE_SCROLL t)
      | LineWrap \<Rightarrow> Some (mode_remove LINE_WRAP t)
      | Origin_Mode \<Rightarrow> Some (mode_remove ORIGIN t)
      | ColumnMode \<Rightarrow> deccolm t
      | BlinkingCursor \<Rightarrow> Some (set_blinking False t)
      | SyncUpdate \<Rightarrow> Some t)"

datatype mode_state = NotSupported | State_Set | State_Reset

fun mode_state_code :: "mode_state \<Rightarrow> nat" where
  "mode_state_code NotSupported = 0"
| "mode_state_code State_Set = 1"
| "mode_state_code State_Reset = 2"

definition mode_state_of :: "bool \<Rightarrow> mode_state" where
  "mode_state_of b = (if b then State_Set else State_Reset)"

text \<open>\<^verbatim>\<open>report_private_mode\<close> may install the default cursor style, so it returns the terminal too.\<close>

fun private_mode_state :: "private_mode \<Rightarrow> terminal \<Rightarrow> mode_state \<times> terminal" where
  "private_mode_state Private_Unknown t = (NotSupported, t)"
| "private_mode_state (Private_Named m) t =
     (case m of
        CursorKeys \<Rightarrow> (mode_state_of (mode_contains APP_CURSOR t), t)
      | Origin_Mode \<Rightarrow> (mode_state_of (mode_contains ORIGIN t), t)
      | LineWrap \<Rightarrow> (mode_state_of (mode_contains LINE_WRAP t), t)
      | BlinkingCursor \<Rightarrow>
          (let style = (case t_cursor_style t of Some s \<Rightarrow> s | None \<Rightarrow> default_cursor_style (t_config t))
           in (mode_state_of (blinking style), t\<lparr>t_cursor_style := Some style\<rparr>))
      | ShowCursor \<Rightarrow> (mode_state_of (mode_contains SHOW_CURSOR t), t)
      | ReportMouseClicks \<Rightarrow> (mode_state_of (mode_contains MOUSE_REPORT_CLICK t), t)
      | ReportCellMouseMotion \<Rightarrow> (mode_state_of (mode_contains MOUSE_DRAG t), t)
      | ReportAllMouseMotion \<Rightarrow> (mode_state_of (mode_contains MOUSE_MOTION t), t)
      | ReportFocusInOut \<Rightarrow> (mode_state_of (mode_contains FOCUS_IN_OUT t), t)
      | Utf8Mouse \<Rightarrow> (mode_state_of (mode_contains UTF8_MOUSE t), t)
      | SgrMouse \<Rightarrow> (mode_state_of (mode_contains SGR_MOUSE t), t)
      | AlternateScroll \<Rightarrow> (mode_state_of (mode_contains ALTERNATE_SCROLL t), t)
      | UrgencyHints \<Rightarrow> (mode_state_of (mode_contains URGENCY_HINTS t), t)
      | SwapScreenAndSetRestoreCursor \<Rightarrow> (mode_state_of (mode_contains ALT_SCREEN t), t)
      | BracketedPaste \<Rightarrow> (mode_state_of (mode_contains BRACKETED_PASTE t), t)
      | SyncUpdate \<Rightarrow> (State_Reset, t)
      | ColumnMode \<Rightarrow> (NotSupported, t))"

definition report_private_mode :: "private_mode \<Rightarrow> nat \<Rightarrow> terminal \<Rightarrow> terminal" where
  \<comment> \<open>the second argument is \<^verbatim>\<open>mode.raw()\<close>\<close>
  "report_private_mode m code t =
     (let (st, t) = private_mode_state m t
      in pty_write (ESC @ ''[?'' @ dec_digits code @ '';'' @ dec_digits (mode_state_code st) @ ''$y'') t)"

fun set_mode :: "ansi_mode \<Rightarrow> terminal \<Rightarrow> terminal" where
  "set_mode Mode_Unknown t = t"
| "set_mode (Mode_Named Mode_Insert) t = mode_insert INSERT t"
| "set_mode (Mode_Named Mode_LineFeedNewLine) t = mode_insert LINE_FEED_NEW_LINE t"

fun unset_mode :: "ansi_mode \<Rightarrow> terminal \<Rightarrow> terminal" where
  "unset_mode Mode_Unknown t = t"
| "unset_mode (Mode_Named Mode_Insert) t = mark_fully_damaged (mode_remove INSERT t)"
| "unset_mode (Mode_Named Mode_LineFeedNewLine) t = mode_remove LINE_FEED_NEW_LINE t"

fun ansi_mode_state :: "ansi_mode \<Rightarrow> terminal \<Rightarrow> mode_state" where
  "ansi_mode_state Mode_Unknown t = NotSupported"
| "ansi_mode_state (Mode_Named Mode_Insert) t = mode_state_of (mode_contains INSERT t)"
| "ansi_mode_state (Mode_Named Mode_LineFeedNewLine) t = mode_state_of (mode_contains LINE_FEED_NEW_LINE t)"

definition report_mode :: "ansi_mode \<Rightarrow> nat \<Rightarrow> terminal \<Rightarrow> terminal" where
  "report_mode m code t =
     pty_write (ESC @ ''['' @ dec_digits code @ '';'' @ dec_digits (mode_state_code (ansi_mode_state m t))
                @ ''$y'') t"

definition set_keypad_application_mode :: "terminal \<Rightarrow> terminal" where
  "set_keypad_application_mode t = mode_insert APP_KEYPAD t"

definition unset_keypad_application_mode :: "terminal \<Rightarrow> terminal" where
  "unset_keypad_application_mode t = mode_remove APP_KEYPAD t"

definition configure_charset :: "charset_index \<Rightarrow> standard_charset \<Rightarrow> terminal \<Rightarrow> terminal" where
  "configure_charset i cs t = set_cursor (\<lambda>c. c\<lparr>cur_charsets := (cur_charsets c)(i := cs)\<rparr>) t"

definition set_active_charset :: "charset_index \<Rightarrow> terminal \<Rightarrow> terminal" where
  "set_active_charset i t = t\<lparr>active_charset := i\<rparr>"

definition set_cursor_style :: "cursor_style option \<Rightarrow> terminal \<Rightarrow> terminal" where
  "set_cursor_style style t = send_event CursorBlinkingChange (t\<lparr>t_cursor_style := style\<rparr>)"

definition set_cursor_shape :: "cursor_shape \<Rightarrow> terminal \<Rightarrow> terminal" where
  "set_cursor_shape sh t =
     (let style = (case t_cursor_style t of Some s \<Rightarrow> s | None \<Rightarrow> default_cursor_style (t_config t))
      in t\<lparr>t_cursor_style := Some (style\<lparr>shape := sh\<rparr>)\<rparr>)"

definition bell :: "terminal \<Rightarrow> terminal" where
  "bell t = send_event Bell t"

definition substitute :: "terminal \<Rightarrow> terminal" where
  "substitute t = t"

section \<open>Vi mode and the cursor style\<close>

definition term_exit :: "terminal \<Rightarrow> terminal" where
  "term_exit t = send_event Exit t"

definition toggle_vi_mode :: "terminal \<Rightarrow> terminal" where
  "toggle_vi_mode t =
     (let t = t\<lparr>t_mode := t_mode t XOR VI\<rparr>;
          t = (if mode_contains VI t then
                 let offset = int (display_offset (t_grid t))
                 in if line (t_point t) > bottommost_line (t_dims t) - offset
                    then t\<lparr>vi_mode_cursor := Point (- offset) 0\<rparr>
                    else t\<lparr>vi_mode_cursor := t_point t\<rparr>
               else t)
      in send_event CursorBlinkingChange t)"

definition scroll_to_point :: "point \<Rightarrow> terminal \<Rightarrow> terminal" where
  "scroll_to_point p t =
     (let offset = int (display_offset (t_grid t)); lines = int (t_lines t)
      in if line p < - offset then scroll_display (Delta (- (line p + offset))) t
         else if line p \<ge> lines - offset then scroll_display (Delta (- (line p + offset - lines + 1))) t
         else t)"

definition vi_goto_point :: "point \<Rightarrow> terminal \<Rightarrow> terminal" where
  "vi_goto_point p t =
     vi_mode_recompute_selection ((scroll_to_point p t)\<lparr>vi_mode_cursor := p\<rparr>)"

definition expand_wide :: "terminal \<Rightarrow> point \<Rightarrow> direction \<Rightarrow> point option" where
  "expand_wide t p dir = do {
     x \<leftarrow> grid_cell_at (t_grid t) p;
     let fl = cell_flags x;
     if dir = Right \<and> flag_contains fl LEADING_WIDE_CHAR_SPACER then Some (Point (line p + 1) 1)
     else if dir = Right \<and> flag_contains fl WIDE_CHAR then do {
       last \<leftarrow> last_column (t_dims t);
       Some (Point (line p) (min (column p + 1) last))
     }
     else if dir = Left \<and> flag_intersects fl (WIDE_CHAR OR WIDE_CHAR_SPACER) then do {
       p \<leftarrow> (if flag_contains fl WIDE_CHAR_SPACER then do {
               c \<leftarrow> csub (column p) 1;
               Some (Point (line p) c)
             } else Some p);
       prev \<leftarrow> point_sub (t_dims t) Boundary_Grid 1 p;
       y \<leftarrow> grid_cell_at (t_grid t) prev;
       Some (if flag_contains (cell_flags y) LEADING_WIDE_CHAR_SPACER then prev else p)
     }
     else Some p
   }"

definition active_cursor_style :: "terminal \<Rightarrow> cursor_style" where
  \<comment> \<open>\<^verbatim>\<open>Term::cursor_style\<close>\<close>
  "active_cursor_style t =
     (let style = (case t_cursor_style t of Some s \<Rightarrow> s | None \<Rightarrow> default_cursor_style (t_config t))
      in if mode_contains VI t
         then (case vi_mode_cursor_style (t_config t) of Some s \<Rightarrow> s | None \<Rightarrow> style)
         else style)"

definition renderable_cursor :: "terminal \<Rightarrow> (cursor_shape \<times> point) option" where
  \<comment> \<open>\<^verbatim>\<open>RenderableCursor::new\<close>\<close>
  "renderable_cursor t = do {
     let vi = mode_contains VI t;
     let p = (if vi then vi_mode_cursor t else t_point t);
     x \<leftarrow> grid_cell_at (t_grid t) p;
     p \<leftarrow> (if flag_contains (cell_flags x) WIDE_CHAR_SPACER then do {
             c \<leftarrow> csub (column p) 1;
             Some (Point (line p) c)
           } else Some p);
     let sh = (if \<not> vi \<and> \<not> mode_contains SHOW_CURSOR t then Shape_Hidden else shape (active_cursor_style t));
     Some (sh, p)
   }"

end
