(* ===== verification/Term_Inv.thy ===== *)
theory Term_Inv
  imports Term_Modes
begin

text \<open>
  The invariant of the terminal and its preservation by the operations of \<open>Term_Ops\<close>: no operation
  panics in a state that satisfies \<open>term_inv\<close>, and each leaves such a state of the same dimensions.
  The parameter \<open>b\<close> adds that all rows are clean (\<open>grid_clean\<close>).
\<close>

section \<open>The invariant\<close>

definition damage_ok :: "nat \<Rightarrow> nat \<Rightarrow> term_damage_state \<Rightarrow> bool" where
  "damage_ok lines cols d \<longleftrightarrow>
     length (dmg_lines d) = lines \<and> (\<forall>i < lines. dmg_line (dmg_lines d ! i) = i)
     \<and> 0 \<le> line (last_cursor d) \<and> line (last_cursor d) < int lines \<and> column (last_cursor d) < cols"

definition term_inv :: "bool \<Rightarrow> terminal \<Rightarrow> bool" where
  "term_inv b t \<longleftrightarrow>
     grid_inv b (t_grid t) \<and> grid_inv b (t_inactive_grid t)
     \<and> g_lines (t_inactive_grid t) = t_lines t \<and> g_columns (t_inactive_grid t) = t_columns t
     \<and> MIN_COLUMNS \<le> t_columns t
     \<and> length (t_tabs t) = t_columns t
     \<and> 0 \<le> region_start t \<and> region_start t \<le> region_end t \<and> region_end t \<le> int (t_lines t)
     \<and> 1 \<le> region_end t
     \<and> damage_ok (t_lines t) (t_columns t) (t_damage t)
     \<and> length (t_colors t) = COLOR_COUNT
     \<and> length (title_stack t) \<le> TITLE_STACK_MAX_DEPTH"

definition same_size :: "terminal \<Rightarrow> terminal \<Rightarrow> bool" where
  "same_size t u \<longleftrightarrow> t_lines u = t_lines t \<and> t_columns u = t_columns t"

definition term_step :: "bool \<Rightarrow> terminal \<Rightarrow> terminal \<Rightarrow> bool" where
  "term_step b t u \<longleftrightarrow> term_inv b u \<and> same_size t u"

lemma term_step_refl: "term_inv b t \<Longrightarrow> term_step b t t"
  by (simp add: term_step_def same_size_def)

lemma term_step_trans: "same_size t u \<Longrightarrow> term_step b u v \<Longrightarrow> term_step b t v"
  by (simp add: term_step_def same_size_def)

lemma ok_step_bind:
  assumes "ok m (term_step b t)" "\<And>u. term_step b t u \<Longrightarrow> ok (f u) (term_step b u)"
  shows "ok (m \<bind> f) (term_step b t)"
  using assms by (auto simp: ok_iff term_step_def same_size_def)

lemma ok_step_trans:
  assumes "same_size t u" "ok m (term_step b u)"
  shows "ok m (term_step b t)"
  using assms by (auto elim!: ok_mono intro: term_step_trans)

lemma term_invD:
  assumes "term_inv b t"
  shows "grid_inv b (t_grid t)" "grid_ok (t_grid t)" "grid_inv b (t_inactive_grid t)"
    "g_lines (t_inactive_grid t) = t_lines t" "g_columns (t_inactive_grid t) = t_columns t"
    "2 \<le> t_columns t" "length (t_tabs t) = t_columns t"
    "0 \<le> region_start t" "region_start t \<le> region_end t" "region_end t \<le> int (t_lines t)"
    "1 \<le> region_end t" "damage_ok (t_lines t) (t_columns t) (t_damage t)"
    "length (t_colors t) = COLOR_COUNT" "length (title_stack t) \<le> TITLE_STACK_MAX_DEPTH"
    "0 < t_lines t" "dims_ok (t_dims t)"
  using assms grid_okD(4,6) [of "t_grid t"]
  by (auto simp: term_inv_def MIN_COLUMNS_def grid_inv_def)

lemma cursor_bounds:
  assumes "term_inv b t"
  shows "0 \<le> line (t_point t)" "line (t_point t) < int (t_lines t)" "column (t_point t) < t_columns t"
    "usize_of_i32 (line (t_point t)) < t_lines t" "in_screen (t_dims t) (t_point t)"
    "in_grid (t_dims t) (t_point t)"
proof -
  have "in_screen (t_dims t) (t_point t)" using term_invD(2) [OF assms] by (simp add: grid_ok_def)
  then show "0 \<le> line (t_point t)" "line (t_point t) < int (t_lines t)" "column (t_point t) < t_columns t"
    "usize_of_i32 (line (t_point t)) < t_lines t" "in_screen (t_dims t) (t_point t)"
    "in_grid (t_dims t) (t_point t)"
    by (auto simp: in_screen_iff in_screen_in_grid)
qed

lemma last_column_term [simp]: "term_inv b t \<Longrightarrow> last_column (t_dims t) = Some (t_columns t - 1)"
  using last_column_ok [OF term_invD(16)] by (simp add: grid_dims_def)

section \<open>Updates of single fields\<close>

lemma term_inv_fields [simp]:
  "term_inv b (t\<lparr>t_mode := m\<rparr>) = term_inv b t"
  "term_inv b (t\<lparr>t_selection := sel\<rparr>) = term_inv b t"
  "term_inv b (t\<lparr>vi_mode_cursor := p\<rparr>) = term_inv b t"
  "term_inv b (t\<lparr>t_events := evs\<rparr>) = term_inv b t"
  "term_inv b (t\<lparr>t_title := ti\<rparr>) = term_inv b t"
  "term_inv b (t\<lparr>t_cursor_style := st\<rparr>) = term_inv b t"
  "term_inv b (t\<lparr>active_charset := ci\<rparr>) = term_inv b t"
  "term_inv b (t\<lparr>t_config := cfg\<rparr>) = term_inv b t"
  "term_inv b (t\<lparr>keyboard_mode_stack := ks\<rparr>) = term_inv b t"
  "term_inv b (t\<lparr>inactive_keyboard_mode_stack := ks\<rparr>) = term_inv b t"
  "term_inv b (t\<lparr>hyperlink_id_suffix := w\<rparr>) = term_inv b t"
  by (simp_all add: term_inv_def)

lemma term_inv_helpers [simp]:
  "term_inv b (send_event ev t) = term_inv b t"
  "term_inv b (mode_insert m t) = term_inv b t"
  "term_inv b (mode_remove m t) = term_inv b t"
  "term_inv b (set_keyboard_mode m app t) = term_inv b t"
  "term_inv b (set_vi_line l t) = term_inv b t"
  "term_inv b (filter_selection lo hi t) = term_inv b t"
  "term_inv b (mark_fully_damaged t) = term_inv b t"
  by (simp_all add: send_event_def mode_insert_def mode_remove_def set_keyboard_mode_def
      set_vi_line_def filter_selection_def mark_fully_damaged_def)
    (simp add: term_inv_def damage_ok_def)

lemma t_grid_helpers [simp]:
  "t_grid (send_event ev t) = t_grid t"
  "t_grid (mode_insert m t) = t_grid t"
  "t_grid (mode_remove m t) = t_grid t"
  "t_grid (set_keyboard_mode m app t) = t_grid t"
  "t_grid (set_vi_line l t) = t_grid t"
  "t_grid (filter_selection lo hi t) = t_grid t"
  "t_grid (mark_fully_damaged t) = t_grid t"
  by (simp_all add: send_event_def mode_insert_def mode_remove_def set_keyboard_mode_def
      set_vi_line_def filter_selection_def mark_fully_damaged_def)

lemma term_inv_grid:
  assumes "term_inv b t" "grid_inv b g" "g_lines g = t_lines t" "g_columns g = t_columns t"
  shows "term_inv b (t\<lparr>t_grid := g\<rparr>)" "term_inv b (t\<lparr>t_inactive_grid := g\<rparr>)"
  using assms by (simp_all add: term_inv_def)

lemma on_grid_step:
  assumes "term_inv b t"
    and "ok (f (t_grid t)) (\<lambda>g. grid_inv b g \<and> g_lines g = t_lines t \<and> g_columns g = t_columns t)"
  shows "ok (on_grid f t) (term_step b t)"
  using assms(2) term_inv_grid [OF assms(1)]
  by (auto simp: on_grid_def term_step_def same_size_def elim!: ok_mono)

lemma on_grid_frame_step:
  assumes "term_inv b t" "ok (f (t_grid t)) (\<lambda>g. grid_inv b g \<and> frame (t_grid t) g \<and> Q g)"
  shows "ok (on_grid f t) (term_step b t)"
  using assms(2) frame_fields(3,4) by (intro on_grid_step [OF assms(1)]) (auto elim!: ok_mono)

lemma set_cursor_step:
  assumes "term_inv b t" "in_screen (t_dims t) (cur_point (f (t_cursor t)))"
  shows "term_step b t (set_cursor f t)"
  using assms(1) grid_inv_cursor(1) [OF term_invD(1) [OF assms(1)] assms(2)]
  by (simp add: set_cursor_def term_step_def same_size_def term_inv_grid)

lemma set_point_step:
  "term_inv b t \<Longrightarrow> 0 \<le> line p \<Longrightarrow> line p < int (t_lines t) \<Longrightarrow> column p < t_columns t \<Longrightarrow>
     term_step b t (set_point p t)"
  unfolding set_point_def by (rule set_cursor_step) (simp_all add: in_screen_iff)

lemma set_column_step:
  "term_inv b t \<Longrightarrow> col < t_columns t \<Longrightarrow> term_step b t (set_column col t)"
  unfolding set_column_def using cursor_bounds by (intro set_point_step) auto

lemma set_needs_wrap_step: "term_inv b t \<Longrightarrow> term_step b t (set_needs_wrap w t)"
  unfolding set_needs_wrap_def using cursor_bounds by (intro set_cursor_step) auto

lemma set_template_step: "term_inv b t \<Longrightarrow> term_step b t (set_template f t)"
  unfolding set_template_def using cursor_bounds by (intro set_cursor_step) auto

lemma t_point_set [simp]:
  "t_point (set_point p t) = p"
  "t_point (set_column col t) = Point (line (t_point t)) col"
  "t_point (set_needs_wrap w t) = t_point t"
  "t_point (set_template f t) = t_point t"
  by (simp_all add: set_point_def set_column_def set_needs_wrap_def set_template_def set_cursor_def)

section \<open>Damage\<close>

lemma damage_line_state_ok:
  assumes "damage_ok lines cols d" "l < lines"
  shows "ok (damage_line_state l left right d) (\<lambda>d'. damage_ok lines cols d' \<and> last_cursor d' = last_cursor d)"
proof -
  have len: "l < length (dmg_lines d)" using assms by (simp add: damage_ok_def)
  let ?x = "damage_expand left right (dmg_lines d ! l)"
  have "dmg_line ((dmg_lines d)[l := ?x] ! i) = i" if "i < lines" for i
    using that assms by (cases "i = l") (simp_all add: damage_ok_def damage_expand_def)
  then show ?thesis using assms len by (simp add: damage_line_state_def damage_ok_def)
qed

lemma damage_line_step:
  assumes "term_inv b t" "l < t_lines t"
  shows "ok (damage_line l left right t) (\<lambda>u. term_step b t u \<and> t_grid u = t_grid t
    \<and> t_mode u = t_mode t \<and> region_start u = region_start t \<and> region_end u = region_end t
    \<and> last_cursor (t_damage u) = last_cursor (t_damage t))"
  using damage_line_state_ok [OF term_invD(12) [OF assms(1)] assms(2), of left right] assms(1)
  by (auto simp: damage_line_def term_step_def same_size_def term_inv_def elim!: ok_mono)

lemma damage_cursor_step:
  assumes "term_inv b t"
  shows "ok (damage_cursor t) (\<lambda>u. term_step b t u \<and> t_grid u = t_grid t
    \<and> t_mode u = t_mode t \<and> region_start u = region_start t \<and> region_end u = region_end t
    \<and> last_cursor (t_damage u) = last_cursor (t_damage t))"
  using damage_line_step [OF assms cursor_bounds(4) [OF assms]]
  by (simp add: damage_cursor_def damage_point_def damage_line_def)

section \<open>Cursor movement\<close>

lemma ok_then: "ok m P \<Longrightarrow> (\<And>x. P x \<Longrightarrow> ok (f x) Q) \<Longrightarrow> ok (m \<bind> f) Q"
  by (auto elim!: ok_mono)

lemma term_stepD: "term_step b t u \<Longrightarrow> term_inv b u" "term_step b t u \<Longrightarrow> same_size t u"
  "term_step b t u \<Longrightarrow> t_lines u = t_lines t" "term_step b t u \<Longrightarrow> t_columns u = t_columns t"
  by (simp_all add: term_step_def same_size_def)

lemma term_step_chain: "term_step b t u \<Longrightarrow> term_step b u v \<Longrightarrow> term_step b t v"
  by (simp add: term_step_def same_size_def)

text \<open>The target of \<^verbatim>\<open>goto\<close>: within the screen, and within the scroll region in origin mode.\<close>

definition goto_target :: "int \<Rightarrow> nat \<Rightarrow> terminal \<Rightarrow> point" where
  "goto_target l col t =
     Point (if mode_contains ORIGIN t then max (min (l + region_start t) (region_end t - 1)) 0
            else max (min l (int (t_lines t) - 1)) 0)
           (min col (t_columns t - 1))"

lemma goto_ok:
  assumes "term_inv b t"
  shows "ok (goto l col t) (\<lambda>u. term_step b t u \<and> t_point u = goto_target l col t
    \<and> \<not> input_needs_wrap (t_cursor u))"
proof -
  have target: "0 \<le> line (goto_target l col t)" "line (goto_target l col t) < int (t_lines t)"
    "column (goto_target l col t) < t_columns t"
    using term_invD(6,10,15) [OF assms] by (auto simp: goto_target_def)
  have "goto l col t = do {
      u \<leftarrow> damage_cursor t;
      last \<leftarrow> last_column (t_dims u);
      let u = set_point (Point (line (goto_target l col t)) (min col last)) u;
      u \<leftarrow> damage_cursor u;
      Some (set_needs_wrap False u)
    }" by (simp add: goto_def goto_target_def bottommost_line_def grid_dims_def Let_def)
  also have "ok \<dots> (\<lambda>u. term_step b t u \<and> t_point u = goto_target l col t
      \<and> \<not> input_needs_wrap (t_cursor u))"
  proof (rule ok_then [OF damage_cursor_step [OF assms]], elim conjE)
    fix u assume u: "term_step b t u" "t_grid u = t_grid t"
    let ?v = "set_point (goto_target l col t) u"
    have v: "term_step b u ?v"
      using term_stepD(1) [OF u(1)] target u(2) by (intro set_point_step) auto
    have eq: "Point (line (goto_target l col t)) (min col (t_columns t - 1)) = goto_target l col t"
      by (simp add: goto_target_def)
    have "ok (damage_cursor ?v \<bind> (\<lambda>u. Some (set_needs_wrap False u)))
      (\<lambda>u. term_step b t u \<and> t_point u = goto_target l col t \<and> \<not> input_needs_wrap (t_cursor u))"
    proof (rule ok_then [OF damage_cursor_step [OF term_stepD(1) [OF v]]], elim conjE)
      fix w assume w: "term_step b ?v w" "t_grid w = t_grid ?v"
      have "term_step b t (set_needs_wrap False w)"
        using set_needs_wrap_step [OF term_stepD(1) [OF w(1)]] w(1) v u(1) by (blast intro: term_step_chain)
      moreover have "t_point (set_needs_wrap False w) = goto_target l col t" using w(2) by simp
      moreover have "\<not> input_needs_wrap (t_cursor (set_needs_wrap False w))"
        by (simp add: set_needs_wrap_def set_cursor_def)
      ultimately show "ok (Some (set_needs_wrap False w))
        (\<lambda>u. term_step b t u \<and> t_point u = goto_target l col t \<and> \<not> input_needs_wrap (t_cursor u))" by simp
    qed
    then show "ok (last_column (t_dims u) \<bind> (\<lambda>last.
        let u = set_point (Point (line (goto_target l col t)) (min col last)) u
        in damage_cursor u \<bind> (\<lambda>u. Some (set_needs_wrap False u))))
      (\<lambda>u. term_step b t u \<and> t_point u = goto_target l col t \<and> \<not> input_needs_wrap (t_cursor u))"
      using last_column_term [OF term_stepD(1) [OF u(1)]] u(2) eq by (simp add: Let_def del: ok_bind)
  qed
  finally show ?thesis .
qed

lemma goto_step: "term_inv b t \<Longrightarrow> ok (goto l col t) (term_step b t)"
  by (rule ok_mono [OF goto_ok]) auto

lemma move_step:
  assumes "term_inv b t"
  shows "ok (goto_line l t) (term_step b t)" "ok (goto_col col t) (term_step b t)"
    "ok (move_up n t) (term_step b t)" "ok (move_down n t) (term_step b t)"
    "ok (move_down_and_cr n t) (term_step b t)" "ok (move_up_and_cr n t) (term_step b t)"
  using goto_step [OF assms]
  by (simp_all add: goto_line_def goto_col_def move_up_def move_down_def move_down_and_cr_def
      move_up_and_cr_def)

text \<open>Damage of the cursor's line followed by a move within it.\<close>

lemma damage_then_column:
  assumes "term_inv b t" "col < t_columns t"
  shows "ok (damage_line (usize_of_i32 (line (t_point t))) x y t \<bind>
      (\<lambda>u. Some (set_needs_wrap False (set_column col u))))
    (\<lambda>u. term_step b t u \<and> t_point u = Point (line (t_point t)) col)"
proof (rule ok_then [OF damage_line_step [OF assms(1) cursor_bounds(4) [OF assms(1)]]], elim conjE)
  fix u assume u: "term_step b t u" "t_grid u = t_grid t"
  have v: "term_step b u (set_column col u)"
    using term_stepD(1) [OF u(1)] assms(2) u(2) by (intro set_column_step) auto
  from set_needs_wrap_step [OF term_stepD(1) [OF v], of False] v u
  show "ok (Some (set_needs_wrap False (set_column col u)))
    (\<lambda>u. term_step b t u \<and> t_point u = Point (line (t_point t)) col)"
    by (auto intro: term_step_chain)
qed

lemma move_forward_ok:
  assumes "term_inv b t"
  shows "ok (move_forward n t) (\<lambda>u. term_step b t u
    \<and> t_point u = Point (line (t_point t)) (min (column (t_point t) + n) (t_columns t - 1)))"
proof -
  have "min (column (t_point t) + n) (t_columns t - 1) < t_columns t" using term_invD(6) [OF assms] by auto
  from damage_then_column [OF assms this] show ?thesis
    by (simp add: move_forward_def last_column_term [OF assms] Let_def del: ok_bind)
qed

lemma move_backward_ok:
  assumes "term_inv b t"
  shows "ok (move_backward n t) (\<lambda>u. term_step b t u
    \<and> t_point u = Point (line (t_point t)) (column (t_point t) - n))"
proof -
  have "column (t_point t) - n < t_columns t" using cursor_bounds(3) [OF assms] by simp
  from damage_then_column [OF assms this] show ?thesis by (simp add: move_backward_def Let_def del: ok_bind)
qed

lemma carriage_return_ok:
  assumes "term_inv b t"
  shows "ok (carriage_return t) (\<lambda>u. term_step b t u \<and> t_point u = Point (line (t_point t)) 0)"
proof -
  have "0 < t_columns t" using term_invD(6) [OF assms] by simp
  from damage_then_column [OF assms this] show ?thesis by (simp add: carriage_return_def del: ok_bind)
qed

lemma backspace_step:
  assumes "term_inv b t"
  shows "ok (backspace t) (\<lambda>u. term_step b t u
    \<and> t_point u = Point (line (t_point t)) (column (t_point t) - 1))"
proof (cases "column (t_point t) = 0")
  case True
  then show ?thesis using term_step_refl [OF assms]
    by (simp add: backspace_def) (metis point.collapse)
next
  case False
  let ?col = "column (t_point t) - 1"
  let ?u = "set_needs_wrap False (set_column ?col t)"
  have v: "term_step b t (set_column ?col t)"
    using assms cursor_bounds(3) [OF assms] by (intro set_column_step) auto
  then have u: "term_step b t ?u"
    using set_needs_wrap_step [OF term_stepD(1)] by (blast intro: term_step_chain)
  have l: "usize_of_i32 (line (t_point t)) < t_lines ?u"
    using cursor_bounds(4) [OF assms] term_stepD(3) [OF u] by simp
  from damage_line_step [OF term_stepD(1) [OF u] l, of ?col "column (t_point t)"] show ?thesis using False u
    by (auto simp: backspace_def Let_def elim!: ok_mono intro: term_step_chain)
qed

section \<open>Scrolling\<close>

lemma rotate_selection_step:
  assumes "term_inv b t"
  shows "ok (rotate_selection s e delta t) (\<lambda>u. term_inv b u \<and> t_grid u = t_grid t
    \<and> region_start u = region_start t \<and> region_end u = region_end t \<and> vi_mode_cursor u = vi_mode_cursor t)"
  using selection_rotate_ok [OF term_invD(16) [OF assms], of s e delta] assms
  by (auto simp: rotate_selection_def split: option.splits elim!: ok_mono)

lemma scroll_down_relative_ok:
  assumes "term_inv b t" "region_start t \<le> origin" "origin \<le> region_end t"
  shows "ok (scroll_down_relative origin n t) (\<lambda>u. term_step b t u
    \<and> (b \<longrightarrow> scrolled_down origin (region_end t) (min n (nat (region_end t - origin))) (t_grid t) (t_grid u))
    \<and> dmg_full (t_damage u))"
proof -
  note D = term_invD [OF assms(1)]
  let ?n = "min n (nat (region_end t - origin))"
  have n: "min (min n (usize_of_i32 (region_end t - region_start t))) (usize_of_i32 (region_end t - origin)) = ?n"
    using assms(2,3) D(9) by (auto simp: min_def)
  show ?thesis unfolding scroll_down_relative_def Let_def n
  proof (rule ok_then [OF rotate_selection_step [OF assms(1)]], elim conjE)
    fix u assume u: "term_inv b u" "t_grid u = t_grid t" "region_end u = region_end t"
    let ?v = "if origin \<le> line (vi_mode_cursor u) \<and> line (vi_mode_cursor u) < region_end u
      then set_vi_line (min (line (vi_mode_cursor u) + int ?n) (region_end u - 1)) u else u"
    have v: "term_inv b ?v" "t_grid ?v = t_grid t" "region_end ?v = region_end t"
      using u by (auto simp: set_vi_line_def)
    have "grid_inv b (t_grid ?v)" "0 \<le> origin" "origin \<le> region_end t" "region_end t \<le> int (t_lines ?v)"
      using v(1,2) D(1,8,10) assms by (simp_all only: v)
    note scroll = grid_scroll_down_ok [OF this, of ?n]
    have "ok (on_grid (grid_scroll_down origin (region_end ?v) ?n) ?v \<bind> (\<lambda>t. Some (mark_fully_damaged t)))
      (\<lambda>u. term_step b t u \<and> (b \<longrightarrow> scrolled_down origin (region_end t) ?n (t_grid t) (t_grid u))
        \<and> dmg_full (t_damage u))"
      unfolding on_grid_def v(2,3) ok_bind
    proof (rule ok_mono [OF scroll [unfolded v(2)]], elim conjE)
      fix g assume g: "grid_inv b g" "frame (t_grid t) g"
        "b \<longrightarrow> scrolled_down origin (region_end t) ?n (t_grid t) g"
      have "term_inv b (?v\<lparr>t_grid := g\<rparr>)"
        using frame_fields(3,4) [OF g(2)] g(1) v by (intro term_inv_grid) auto
      then show "ok (Some (?v\<lparr>t_grid := g\<rparr>)) (\<lambda>t'. ok (Some (mark_fully_damaged t'))
        (\<lambda>u. term_step b t u \<and> (b \<longrightarrow> scrolled_down origin (region_end t) ?n (t_grid t) (t_grid u))
          \<and> dmg_full (t_damage u)))"
        using g frame_fields(3,4) [OF g(2)]
        by (simp add: term_step_def same_size_def) (simp add: mark_fully_damaged_def)
    qed
    then show "ok (on_grid (grid_scroll_down origin (region_end ?v) ?n) ?v \<bind> (\<lambda>t. Some (mark_fully_damaged t)))
      (\<lambda>u. term_step b t u \<and> (b \<longrightarrow> scrolled_down origin (region_end t) ?n (t_grid t) (t_grid u))
        \<and> dmg_full (t_damage u))" .
  qed
qed

lemma scroll_up_relative_ok:
  assumes "term_inv b t" "region_start t \<le> origin" "origin \<le> region_end t"
  shows "ok (scroll_up_relative origin n t) (\<lambda>u. term_step b t u
    \<and> (b \<longrightarrow> scrolled_up origin (region_end t) (min n (nat (region_end t - region_start t))) (t_grid t) (t_grid u))
    \<and> dmg_full (t_damage u) \<and> t_point u = t_point t)"
proof -
  note D = term_invD [OF assms(1)]
  let ?n = "min n (nat (region_end t - region_start t))"
  have n: "min n (usize_of_i32 (region_end t - region_start t)) = ?n" using D(9) by simp
  show ?thesis unfolding scroll_up_relative_def Let_def n
  proof (rule ok_then [OF rotate_selection_step [OF assms(1)]], elim conjE)
    fix u assume u: "term_inv b u" "t_grid u = t_grid t" "region_end u = region_end t"
    have "grid_inv b (t_grid u)" "0 \<le> origin" "origin \<le> region_end t" "region_end t \<le> int (t_lines u)"
      "origin = 0 \<longrightarrow> int ?n \<le> region_end t"
      using u(1,2) D(8-10) assms term_invD(1) by auto
    note scroll = grid_scroll_up_ok [OF this]
    show "ok (on_grid (grid_scroll_up origin (region_end u) ?n) u \<bind> (\<lambda>t. Some (mark_fully_damaged
          (if (if origin = 0 then - int (display_offset (t_grid t)) else origin) \<le> line (vi_mode_cursor t)
              \<and> line (vi_mode_cursor t) < region_end t
           then set_vi_line (max (line (vi_mode_cursor t) - int ?n)
                  (if origin = 0 then - int (display_offset (t_grid t)) else origin)) t else t))))
      (\<lambda>w. term_step b t w \<and> (b \<longrightarrow> scrolled_up origin (region_end t) ?n (t_grid t) (t_grid w))
        \<and> dmg_full (t_damage w) \<and> t_point w = t_point t)"
      unfolding on_grid_def ok_bind u(3)
    proof (rule ok_mono [OF scroll], elim conjE)
      fix g assume g: "grid_inv b g"
        "same_but_rows ((t_grid u)\<lparr>display_offset := scroll_up_offset origin (region_end t) ?n (t_grid u)\<rparr>) g"
        "b \<longrightarrow> scrolled_up origin (region_end t) ?n (t_grid u) g"
      note F = same_fields [OF g(2)]
      have "term_inv b (u\<lparr>t_grid := g\<rparr>)" using F g(1) u by (intro term_inv_grid) auto
      then show "ok (Some (u\<lparr>t_grid := g\<rparr>)) (\<lambda>t'. ok (Some (mark_fully_damaged
          (if (if origin = 0 then - int (display_offset (t_grid t')) else origin) \<le> line (vi_mode_cursor t')
              \<and> line (vi_mode_cursor t') < region_end t'
           then set_vi_line (max (line (vi_mode_cursor t') - int ?n)
                  (if origin = 0 then - int (display_offset (t_grid t')) else origin)) t' else t')))
        (\<lambda>w. term_step b t w \<and> (b \<longrightarrow> scrolled_up origin (region_end t) ?n (t_grid t) (t_grid w))
          \<and> dmg_full (t_damage w) \<and> t_point w = t_point t))"
        using g u F by (simp add: term_step_def same_size_def) (simp add: mark_fully_damaged_def)
    qed
  qed
qed

lemma scroll_step:
  assumes "term_inv b t"
  shows "ok (scroll_up n t) (term_step b t)" "ok (scroll_down n t) (term_step b t)"
  using scroll_up_relative_ok [OF assms order_refl, of n] scroll_down_relative_ok [OF assms order_refl, of n]
    term_invD(9) [OF assms]
  by (auto simp: scroll_up_def scroll_down_def elim!: ok_mono)

lemma insert_blank_lines_step: "term_inv b t \<Longrightarrow> ok (insert_blank_lines n t) (term_step b t)"
  using scroll_down_relative_ok [of b t "line (t_point t)" n] term_step_refl
  by (auto simp: insert_blank_lines_def Let_def elim!: ok_mono)

lemma delete_lines_step:
  assumes "term_inv b t"
  shows "ok (delete_lines n t) (term_step b t)"
  using scroll_up_relative_ok [OF assms, of "line (t_point t)" "min (t_lines t - nat (line (t_point t))) n"]
    cursor_bounds [OF assms] term_step_refl [OF assms]
  by (auto simp: delete_lines_def Let_def elim!: ok_mono)

text \<open>A step of the cursor to another line of the screen, between two damage marks.\<close>

lemma damaged_move:
  assumes "term_inv b t" "\<And>u. t_grid u = t_grid t \<Longrightarrow> f u = Point l col" "0 \<le> l" "l < int (t_lines t)"
    "col < t_columns t"
  shows "ok (damage_cursor t \<bind> (\<lambda>t. damage_cursor (set_point (f t) t)))
    (\<lambda>u. term_step b t u \<and> t_point u = Point l col)"
proof (rule ok_then [OF damage_cursor_step [OF assms(1)]], elim conjE)
  fix u assume u: "term_step b t u" "t_grid u = t_grid t"
  have v: "term_step b u (set_point (f u) u)"
    using term_stepD [OF u(1)] assms u(2) by (intro set_point_step) auto
  show "ok (damage_cursor (set_point (f u) u)) (\<lambda>u. term_step b t u \<and> t_point u = Point l col)"
    using term_step_chain [OF u(1) term_step_chain [OF v]] assms(2) [OF u(2)]
    by (intro ok_mono [OF damage_cursor_step [OF term_stepD(1) [OF v]]]) auto
qed

lemma linefeed_step:
  assumes "term_inv b t"
  shows "ok (linefeed t) (term_step b t)"
proof -
  have "ok (damage_cursor t \<bind> (\<lambda>t. damage_cursor
      (set_point (Point (line (t_point t) + 1) (column (t_point t))) t))) (term_step b t)"
    if "line (t_point t) + 1 < int (t_lines t)"
    using that cursor_bounds [OF assms] by (intro ok_mono [OF damaged_move [OF assms]]) auto
  then show ?thesis using scroll_step(1) [OF assms, of 1] term_step_refl [OF assms]
    by (auto simp: linefeed_def Let_def)
qed

lemma newline_step:
  assumes "term_inv b t"
  shows "ok (newline t) (term_step b t)"
  unfolding newline_def
  by (rule ok_step_bind [OF linefeed_step [OF assms]])
    (auto dest: term_stepD(1) intro: term_step_refl elim!: ok_mono [OF carriage_return_ok])

lemma reverse_index_step:
  assumes "term_inv b t"
  shows "ok (reverse_index t) (term_step b t)"
proof -
  have "ok (damage_cursor t \<bind> (\<lambda>t. damage_cursor
      (set_point (Point (max (line (t_point t) - 1) 0) (column (t_point t))) t))) (term_step b t)"
    using cursor_bounds [OF assms] term_invD(15) [OF assms] by (intro ok_mono [OF damaged_move [OF assms, where l = "max (line (t_point t) - 1) 0"
            and col = "column (t_point t)"]]) auto
  then show ?thesis using scroll_step(2) [OF assms, of 1] by (auto simp: reverse_index_def Let_def)
qed

lemma save_cursor_position_step:
  assumes "term_inv b t"
  shows "term_step b t (save_cursor_position t)"
  using assms grid_inv_cursor(2) [OF term_invD(1) [OF assms] cursor_bounds(5) [OF assms]]
  by (simp add: save_cursor_position_def term_step_def same_size_def term_inv_grid)

lemma restore_cursor_position_step:
  assumes "term_inv b t"
  shows "ok (restore_cursor_position t) (\<lambda>u. term_step b t u \<and> t_cursor u = g_saved_cursor (t_grid t))"
  unfolding restore_cursor_position_def Let_def
proof (rule ok_then [OF damage_cursor_step [OF assms]], elim conjE)
  fix u assume u: "term_step b t u" "t_grid u = t_grid t"
  let ?v = "u\<lparr>t_grid := (t_grid u)\<lparr>g_cursor := g_saved_cursor (t_grid u)\<rparr>\<rparr>"
  have "in_screen (t_dims u) (cur_point (g_saved_cursor (t_grid u)))"
    using term_invD(2) [OF term_stepD(1) [OF u(1)]] by (simp add: grid_ok_def)
  then have v: "term_step b u ?v"
    using grid_inv_cursor(1) [OF term_invD(1) [OF term_stepD(1) [OF u(1)]]] term_stepD(1) [OF u(1)]
    by (simp add: term_step_def same_size_def term_inv_grid)
  show "ok (damage_cursor ?v) (\<lambda>w. term_step b t w \<and> t_cursor w = g_saved_cursor (t_grid t))"
    using term_step_chain [OF u(1) term_step_chain [OF v]] u(2)
    by (intro ok_mono [OF damage_cursor_step [OF term_stepD(1) [OF v]]]) auto
qed

end
