(* ===== verification/Term_Print.thy ===== *)
theory Term_Print
  imports Term_Inv
begin

text \<open>
  Printing and editing: \<^verbatim>\<open>write_at_cursor\<close>, \<^verbatim>\<open>wrapline\<close>, \<^verbatim>\<open>input\<close> and the editing functions keep
  the invariant and never panic, and what they do to the cells of the screen.
\<close>

unbundle bit_operations_syntax

section \<open>Cells of a grid\<close>

lemma grid_cell_at_eq:
  assumes "grid_ok g" "in_grid (grid_dims g) q"
  shows "grid_cell_at g q = map_option (\<lambda>r. row_inner r ! column q) (grid_lines g (line q))"
  using grid_cell_ok [OF assms] by (auto elim!: okE)

lemma grid_cell_mut_cells:
  assumes "grid_inv b g" "in_grid (grid_dims g) p"
  shows "ok (grid_cell_mut p f g) (\<lambda>h. grid_inv b h \<and> frame g h
    \<and> (\<forall>q. in_grid (grid_dims g) q \<longrightarrow>
         grid_cell_at h q = (if q = p then map_option f (grid_cell_at g p) else grid_cell_at g q)))"
proof (rule ok_mono [OF grid_cell_mut_ok [OF assms]], elim conjE exE)
  fix h r r' assume h: "grid_inv b h" "frame g h" and r: "grid_lines g (line p) = Some r"
    and lines: "grid_lines h = (grid_lines g)(line p \<mapsto> r')"
    and r': "row_inner r' = (row_inner r)[column p := f (row_inner r ! column p)]"
  have dims: "grid_dims h = grid_dims g" using frame_fields(7) [OF h(2)] .
  have "r \<in> pool (raw g)" using lines_of_pool [OF grid_okD(1) [OF grid_inv_ok [OF assms(1)]] r] .
  then have "length (row_inner r) = g_columns g"
    using grid_inv_rows [OF assms(1)] by (auto simp: good_row_def row_ok_def)
  moreover have "column p < g_columns g" using assms in_grid_iff [OF grid_inv_ok] by auto
  ultimately have len: "column p < length (row_inner r)" by simp
  have "grid_cell_at h q = (if q = p then map_option f (grid_cell_at g p) else grid_cell_at g q)"
    if q: "in_grid (grid_dims g) q" for q
  proof -
    have "grid_cell_at h q = map_option (\<lambda>r. row_inner r ! column q) (grid_lines h (line q))"
      using grid_cell_at_eq [OF grid_inv_ok [OF h(1)]] dims q by simp
    moreover have "grid_cell_at g q = map_option (\<lambda>r. row_inner r ! column q) (grid_lines g (line q))"
      "grid_cell_at g p = map_option (\<lambda>r. row_inner r ! column p) (grid_lines g (line p))"
      using grid_cell_at_eq [OF grid_inv_ok [OF assms(1)]] q assms(2) by simp_all
    ultimately show ?thesis using lines r r' len
      by (cases "line q = line p"; cases "column q = column p") (auto simp: point.expand)
  qed
  then show "grid_inv b h \<and> frame g h \<and> (\<forall>q. in_grid (grid_dims g) q \<longrightarrow>
      grid_cell_at h q = (if q = p then map_option f (grid_cell_at g p) else grid_cell_at g q))"
    using h by blast
qed

section \<open>Edits\<close>

text \<open>An edit changes rows of the active grid and nothing else of the terminal.\<close>

definition edited :: "bool \<Rightarrow> terminal \<Rightarrow> terminal \<Rightarrow> bool" where
  "edited b t u \<longleftrightarrow> term_inv b u \<and> u = t\<lparr>t_grid := t_grid u\<rparr> \<and> frame (t_grid t) (t_grid u)"

lemma edited_refl: "term_inv b t \<Longrightarrow> edited b t t"
  by (simp add: edited_def)

lemma edited_trans: "edited b t u \<Longrightarrow> edited b u v \<Longrightarrow> edited b t v"
  unfolding edited_def
  by (metis (no_types, lifting) frame_trans terminal.surjective terminal.update_convs(4))

lemma editedD:
  assumes "edited b t u"
  shows "term_inv b u" "term_step b t u" "t_cursor u = t_cursor t" "t_dims u = t_dims t"
    "t_mode u = t_mode t" "region_start u = region_start t" "region_end u = region_end t"
    "active_charset u = active_charset t" "t_columns u = t_columns t" "t_lines u = t_lines t"
proof -
  have u: "u = t\<lparr>t_grid := t_grid u\<rparr>" and fr: "frame (t_grid t) (t_grid u)" and inv: "term_inv b u"
    using assms by (auto simp: edited_def)
  show "term_inv b u" by (rule inv)
  from frame_fields [OF fr] show "t_cursor u = t_cursor t" "t_dims u = t_dims t"
    "t_columns u = t_columns t" "t_lines u = t_lines t" "term_step b t u"
    using inv by (auto simp: term_step_def same_size_def)
  show "t_mode u = t_mode t" "region_start u = region_start t" "region_end u = region_end t"
    "active_charset u = active_charset t"
    by (subst u, simp)+
qed

lemma on_grid_edited:
  assumes "term_inv b t" "ok (f (t_grid t)) (\<lambda>g. grid_inv b g \<and> frame (t_grid t) g \<and> Q g)"
  shows "ok (on_grid f t) (\<lambda>u. edited b t u \<and> Q (t_grid u))"
proof -
  obtain g where g: "f (t_grid t) = Some g" "grid_inv b g" "frame (t_grid t) g" "Q g"
    using assms(2) by (auto elim: okE)
  have "term_inv b (t\<lparr>t_grid := g\<rparr>)"
    using frame_fields(3,4) [OF g(3)] g(2) by (intro term_inv_grid [OF assms(1)]) auto
  then show ?thesis using g by (simp add: on_grid_def edited_def)
qed

lemma edit_cell:
  assumes "term_inv b t" "in_grid (t_dims t) p"
  shows "ok (on_grid (grid_cell_mut p f) t) (\<lambda>u. edited b t u
    \<and> (\<forall>q. in_grid (t_dims t) q \<longrightarrow> grid_cell_at (t_grid u) q =
         (if q = p then map_option f (grid_cell_at (t_grid t) p) else grid_cell_at (t_grid t) q)))"
  by (rule on_grid_edited [OF assms(1)], rule grid_cell_mut_cells [OF term_invD(1) [OF assms(1)] assms(2)])

lemma edit_cell_edited:
  "term_inv b t \<Longrightarrow> in_grid (t_dims t) p \<Longrightarrow> ok (on_grid (grid_cell_mut p f) t) (edited b t)"
  by (rule ok_mono [OF edit_cell]) auto

lemma edit_cursor_cell:
  assumes "term_inv b t"
  shows "ok (on_grid (cursor_cell_mut f) t) (\<lambda>u. edited b t u
    \<and> (\<forall>q. in_grid (t_dims t) q \<longrightarrow> grid_cell_at (t_grid u) q =
         (if q = t_point t then map_option f (grid_cell_at (t_grid t) q) else grid_cell_at (t_grid t) q)))"
proof -
  have "on_grid (cursor_cell_mut f) t = on_grid (grid_cell_mut (t_point t) f) t"
    by (simp add: on_grid_def cursor_cell_mut_def)
  then show ?thesis using ok_mono [OF edit_cell [OF assms cursor_bounds(6) [OF assms], of f]] by auto
qed

lemma edit_row:
  assumes "term_inv b t" "0 \<le> l" "l < int (t_lines t)"
    and "\<And>r. good_row b (t_columns t) r \<Longrightarrow> ok (f r) (\<lambda>r'. good_row b (t_columns t) r' \<and> Q r r')"
  shows "ok (on_grid (grid_row_mut l f) t) (\<lambda>u. edited b t u
    \<and> (\<exists>r r'. grid_lines (t_grid t) l = Some r \<and> Q r r'
         \<and> grid_lines (t_grid u) = (grid_lines (t_grid t))(l \<mapsto> r')))"
  by (rule on_grid_edited [OF assms(1)], rule grid_row_mut_ok [OF term_invD(1) [OF assms(1)]])
    (use assms in auto)

section \<open>Writing a character\<close>

definition written_cell :: "env \<Rightarrow> uchar \<Rightarrow> terminal \<Rightarrow> cell" where
  "written_cell E ch t =
     (t_template t)\<lparr>cell_c := charset_map E (cur_charsets (t_cursor t) (active_charset t)) ch\<rparr>"

lemma written_cell_eq:
  "\<lparr>cell_c = charset_map E (cur_charsets (t_cursor t) (active_charset t)) ch, cell_fg = cell_fg (t_template t),
    cell_bg = cell_bg (t_template t), cell_flags = cell_flags (t_template t),
    cell_extra_data = cell_extra_data (t_template t)\<rparr> = written_cell E ch t"
  by (simp add: written_cell_def)

text \<open>Breaking a wide glyph apart: its other half and the leading spacer are cleaned up.\<close>

lemma break_wide_edited:
  assumes "term_inv b t" "p = t_point t"
  shows "ok (do {
       last \<leftarrow> last_column (t_dims t);
       t \<leftarrow> (if wide \<and> column p < last
             then on_grid (grid_cell_mut (Point (line p) (column p + 1)) (remove_flag WIDE_CHAR_SPACER)) t
             else if column p > 0
             then on_grid (grid_cell_mut (Point (line p) (column p - 1)) clear_wide) t
             else Some t);
       if column p \<le> 1 \<and> line p \<noteq> topmost_line (t_dims t)
       then on_grid (grid_cell_mut (Point (line p - 1) last) (remove_flag LEADING_WIDE_CHAR_SPACER)) t
       else Some t
     }) (edited b t)"
proof -
  note B = cursor_bounds [OF assms(1)] and G = term_invD(2) [OF assms(1)]
  let ?last = "t_columns t - 1"
  have p: "in_grid (t_dims t) p" using B(6) assms(2) by simp
  have cols: "0 < t_columns t" using term_invD(6) [OF assms(1)] by simp
  have first: "ok (if wide \<and> column p < ?last
             then on_grid (grid_cell_mut (Point (line p) (column p + 1)) (remove_flag WIDE_CHAR_SPACER)) t
             else if column p > 0
             then on_grid (grid_cell_mut (Point (line p) (column p - 1)) clear_wide) t
             else Some t) (edited b t)"
    using p in_grid_iff [OF G] edited_refl [OF assms(1)] edit_cell_edited [OF assms(1)] by auto
  show ?thesis unfolding last_column_term [OF assms(1)] bind.bind_lunit
  proof (rule ok_then [OF first])
    fix u assume u: "edited b t u"
    note E = editedD [OF u]
    have up: "in_grid (t_dims u) (Point (line p - 1) ?last)" if "line p \<noteq> topmost_line (t_dims t)"
      using that p cols E(4) by (auto simp: in_grid_def grid_dims_def)
    show "ok (if column p \<le> 1 \<and> line p \<noteq> topmost_line (t_dims u)
       then on_grid (grid_cell_mut (Point (line p - 1) ?last) (remove_flag LEADING_WIDE_CHAR_SPACER)) u
       else Some u) (edited b t)"
      using up E(4) u ok_mono [OF edit_cell_edited [OF E(1)] edited_trans [OF u]] by simp
  qed
qed

lemma write_at_cursor_ok:
  assumes "term_inv b t"
  shows "ok (write_at_cursor E ch t) (\<lambda>u. edited b t u
    \<and> grid_cell_at (t_grid u) (t_point t) = Some (written_cell E ch t)
    \<and> (\<forall>x. grid_cell_at (t_grid t) (t_point t) = Some x \<longrightarrow>
         \<not> flag_intersects (cell_flags x) (WIDE_CHAR OR WIDE_CHAR_SPACER) \<longrightarrow>
         (\<forall>q. in_grid (t_dims t) q \<longrightarrow> q \<noteq> t_point t \<longrightarrow>
            grid_cell_at (t_grid u) q = grid_cell_at (t_grid t) q)))"
proof -
  note B = cursor_bounds [OF assms]
  obtain x where x: "grid_cell_at (t_grid t) (t_point t) = Some x"
    using grid_cell_ok [OF term_invD(2) [OF assms] B(6)] by (auto elim: okE)
  let ?wide = "flag_intersects (cell_flags x) (WIDE_CHAR OR WIDE_CHAR_SPACER)"
  show ?thesis unfolding write_at_cursor_def Let_def x bind.bind_lunit
  proof (rule ok_then [OF edit_cursor_cell [OF assms]], elim conjE)
    fix u assume u: "edited b t u" "\<forall>q. in_grid (t_dims t) q \<longrightarrow> grid_cell_at (t_grid u) q =
      (if q = t_point t then map_option id (grid_cell_at (t_grid t) q) else grid_cell_at (t_grid t) q)"
    note U = editedD [OF u(1)]
    have cleanup: "ok (if ?wide then do {
         last \<leftarrow> last_column (t_dims u);
         v \<leftarrow> (if flag_contains (cell_flags x) WIDE_CHAR \<and> column (t_point u) < last
               then on_grid (grid_cell_mut (Point (line (t_point u)) (column (t_point u) + 1)) (remove_flag WIDE_CHAR_SPACER)) u
               else if column (t_point u) > 0
               then on_grid (grid_cell_mut (Point (line (t_point u)) (column (t_point u) - 1)) clear_wide) u
               else Some u);
         if column (t_point u) \<le> 1 \<and> line (t_point u) \<noteq> topmost_line (t_dims v)
         then on_grid (grid_cell_mut (Point (line (t_point u) - 1) last) (remove_flag LEADING_WIDE_CHAR_SPACER)) v
         else Some v } else Some u)
      (\<lambda>v. edited b t v \<and> (\<not> ?wide \<longrightarrow> v = u))"
    proof (cases ?wide)
      case True
      show ?thesis unfolding if_P [OF True]
        using edited_trans [OF u(1)] True by (intro ok_mono [OF break_wide_edited [OF U(1) refl]]) blast
    next
      case False
      then show ?thesis using u(1) by simp
    qed
    show "ok ((if ?wide then do {
         last \<leftarrow> last_column (t_dims u);
         v \<leftarrow> (if flag_contains (cell_flags x) WIDE_CHAR \<and> column (t_point u) < last
               then on_grid (grid_cell_mut (Point (line (t_point u)) (column (t_point u) + 1)) (remove_flag WIDE_CHAR_SPACER)) u
               else if column (t_point u) > 0
               then on_grid (grid_cell_mut (Point (line (t_point u)) (column (t_point u) - 1)) clear_wide) u
               else Some u);
         if column (t_point u) \<le> 1 \<and> line (t_point u) \<noteq> topmost_line (t_dims v)
         then on_grid (grid_cell_mut (Point (line (t_point u) - 1) last) (remove_flag LEADING_WIDE_CHAR_SPACER)) v
         else Some v } else Some u) \<bind>
       (\<lambda>v. on_grid (cursor_cell_mut (\<lambda>y. \<lparr>cell_c = charset_map E (cur_charsets (t_cursor t) (active_charset t)) ch,
            cell_fg = cell_fg (t_template t), cell_bg = cell_bg (t_template t),
            cell_flags = cell_flags (t_template t), cell_extra_data = cell_extra_data (t_template t)\<rparr>)) v))
      (\<lambda>v. edited b t v \<and> grid_cell_at (t_grid v) (t_point t) = Some (written_cell E ch t)
        \<and> (\<forall>y. Some x = Some y \<longrightarrow>
             \<not> flag_intersects (cell_flags y) (WIDE_CHAR OR WIDE_CHAR_SPACER) \<longrightarrow>
             (\<forall>q. in_grid (t_dims t) q \<longrightarrow> q \<noteq> t_point t \<longrightarrow>
                grid_cell_at (t_grid v) q = grid_cell_at (t_grid t) q)))"
      unfolding written_cell_eq
    proof (rule ok_then [OF cleanup], elim conjE)
      fix v assume v: "edited b t v" "\<not> ?wide \<longrightarrow> v = u"
      note V = editedD [OF v(1)]
      have "grid_cell_at (t_grid v) (t_point t) \<noteq> None"
        using grid_cell_ok [OF term_invD(2) [OF V(1)] cursor_bounds(6) [OF V(1)]] V(3) by (auto elim: okE)
      then show "ok (on_grid (cursor_cell_mut (\<lambda>y. written_cell E ch t)) v)
        (\<lambda>w. edited b t w \<and> grid_cell_at (t_grid w) (t_point t) = Some (written_cell E ch t)
          \<and> (\<forall>y. Some x = Some y \<longrightarrow>
             \<not> flag_intersects (cell_flags y) (WIDE_CHAR OR WIDE_CHAR_SPACER) \<longrightarrow>
             (\<forall>q. in_grid (t_dims t) q \<longrightarrow> q \<noteq> t_point t \<longrightarrow>
                grid_cell_at (t_grid w) q = grid_cell_at (t_grid t) q)))"
        using edited_trans [OF v(1)] u(2) v(2) B(6) V(3,4)
        by (intro ok_mono [OF edit_cursor_cell [OF V(1)]]) (auto simp: edited_def)
    qed
  qed
qed

section \<open>Wrapping and input\<close>

lemma edited_step: "edited b t u \<Longrightarrow> term_step b t u"
  by (rule editedD(2))

lemma ok_step_after: "term_step b t u \<Longrightarrow> ok m (term_step b u) \<Longrightarrow> ok m (term_step b t)"
  by (rule ok_step_trans [OF term_stepD(2)])

lemma wrapline_ok:
  assumes "term_inv b t"
  shows "ok (wrapline t) (\<lambda>u. term_step b t u
    \<and> (mode_contains LINE_WRAP t \<longrightarrow> column (t_point u) = 0))"
proof (cases "mode_contains LINE_WRAP t")
  case False
  then show ?thesis using term_step_refl [OF assms] by (simp add: wrapline_def)
next
  case True
  have move: "ok (if line (t_point u) + 1 \<ge> region_end u then linefeed u
        else damage_cursor u \<bind> (\<lambda>u. Some (set_point (Point (line (t_point u) + 1) (column (t_point u))) u)))
      (term_step b u)" if u: "term_inv b u" for u
  proof (cases "line (t_point u) + 1 \<ge> region_end u")
    case True
    then show ?thesis using linefeed_step [OF u] by simp
  next
    case False
    show ?thesis unfolding if_not_P [OF False]
    proof (rule ok_then [OF damage_cursor_step [OF u]], elim conjE)
      fix v assume v: "term_step b u v" "t_grid v = t_grid u"
      have "term_step b v (set_point (Point (line (t_point v) + 1) (column (t_point v))) v)"
        using cursor_bounds [OF u] term_invD(10) [OF u] False v(2) term_stepD(1) [OF v(1)]
        by (intro set_point_step) auto
      then show "ok (Some (set_point (Point (line (t_point v) + 1) (column (t_point v))) v)) (term_step b u)"
        using term_step_chain [OF v(1)] by simp
    qed
  qed
  have finish: "ok (damage_cursor (set_needs_wrap False (set_column 0 u)))
      (\<lambda>v. term_step b u v \<and> column (t_point v) = 0)" if u: "term_inv b u" for u
  proof -
    have v: "term_step b u (set_column 0 u)" using u term_invD(6) [OF u] by (intro set_column_step) auto
    then have w: "term_step b u (set_needs_wrap False (set_column 0 u))"
      using set_needs_wrap_step [OF term_stepD(1)] term_step_chain by blast
    show ?thesis using term_step_chain [OF w]
      by (intro ok_mono [OF damage_cursor_step [OF term_stepD(1) [OF w]]]) auto
  qed
  have "ok (on_grid (cursor_cell_mut (insert_flag WRAPLINE)) t \<bind> (\<lambda>u.
      (if line (t_point u) + 1 \<ge> region_end u then linefeed u
       else damage_cursor u \<bind> (\<lambda>u. Some (set_point (Point (line (t_point u) + 1) (column (t_point u))) u))) \<bind>
      (\<lambda>v. damage_cursor (set_needs_wrap False (set_column 0 v)))))
    (\<lambda>u. term_step b t u \<and> column (t_point u) = 0)"
  proof (rule ok_then [OF edit_cursor_cell [OF assms]], elim conjE)
    fix u assume u: "edited b t u"
    show "ok ((if line (t_point u) + 1 \<ge> region_end u then linefeed u
       else damage_cursor u \<bind> (\<lambda>u. Some (set_point (Point (line (t_point u) + 1) (column (t_point u))) u))) \<bind>
      (\<lambda>v. damage_cursor (set_needs_wrap False (set_column 0 v))))
      (\<lambda>u. term_step b t u \<and> column (t_point u) = 0)"
    proof (rule ok_then [OF move [OF editedD(1) [OF u]]])
      fix v assume v: "term_step b u v"
      show "ok (damage_cursor (set_needs_wrap False (set_column 0 v)))
          (\<lambda>u. term_step b t u \<and> column (t_point u) = 0)"
        using term_step_chain [OF edited_step [OF u] term_step_chain [OF v]]
        by (intro ok_mono [OF finish [OF term_stepD(1) [OF v]]]) blast
    qed
  qed
  then show ?thesis using True by (simp add: wrapline_def Let_def)
qed

lemma shift_right_ok:
  assumes "col + width < length xs" "cols = length xs"
  shows "ok (shift_right col width cols xs) (\<lambda>ys. length ys = length xs
    \<and> (\<forall>i < col. ys ! i = xs ! i) \<and> (\<forall>i. col + width \<le> i \<and> i < length xs \<longrightarrow> ys ! i = xs ! (i - width)))"
proof -
  let ?n = "cols - width - col"
  have upt: "rev [col..<cols - width] = map (\<lambda>k. k + col) (rev [0..<?n])"
    unfolding rev_map [symmetric] using assms map_add_upt [of col ?n] by simp
  have fn: "(\<lambda>k (ys :: cell list). vec_swap ys (k + col + width) (k + col))
      = (\<lambda>k ys. vec_swap ys (col + width + k) (col + k))"
    by (intro ext) (simp only: ac_simps)
  have "shift_right col width cols xs = for_each (rev [col..<cols - width]) (\<lambda>i ys. vec_swap ys (i + width) i) xs"
    using assms by (simp add: shift_right_def csub_def)
  also have "\<dots> = for_each (rev [0..<?n]) (\<lambda>k ys. vec_swap ys (k + col + width) (k + col)) xs"
    unfolding upt by (rule for_each_map)
  also have "\<dots> = for_each (rev [0..<?n]) (\<lambda>k ys. vec_swap ys (col + width + k) (col + k)) xs"
    by (rule arg_cong [OF fn, of "\<lambda>f. for_each (rev [0..<?n]) f xs"])
  finally have eq: "shift_right col width cols xs
      = for_each (rev [0..<?n]) (\<lambda>k ys. vec_swap ys (col + width + k) (col + k)) xs" .
  have moved: "ys ! i = xs ! (i - width)"
    if "\<forall>k < ?n. ys ! (col + width + k) = xs ! (col + k)" "col + width \<le> i" "i < length xs" for ys :: "cell list" and i
    using that(1) [rule_format, of "i - (col + width)"] that(2,3) assms by simp
  have "col + width + ?n \<le> length xs" using assms by simp
  from swap_cells_right [OF le_add1 this] show ?thesis
    unfolding eq by (rule ok_mono) (blast intro: moved)
qed

lemma insert_shift_edited:
  assumes "term_inv b t" "column (t_point t) + width < t_columns t"
  shows "ok (on_grid (grid_row_mut (line (t_point t))
      (row_range_full_mut (shift_right (column (t_point t)) width (t_columns t)))) t) (edited b t)"
proof -
  have row: "ok (row_range_full_mut (shift_right (column (t_point t)) width (t_columns t)) r)
      (\<lambda>r'. good_row b (t_columns t) r' \<and> True)" if r: "good_row b (t_columns t) r" for r
  proof -
    have len: "length (row_inner r) = t_columns t" using r by (simp add: good_row_def row_ok_def)
    have "ok (shift_right (column (t_point t)) width (t_columns t) (row_inner r)) (\<lambda>ys. length ys = t_columns t \<and> True)"
      using assms(2) len by (intro ok_mono [OF shift_right_ok]) auto
    then show ?thesis by (rule good_row_full [OF r])
  qed
  show ?thesis
    by (rule ok_mono [OF edit_row [OF assms(1) cursor_bounds(1,2) [OF assms(1)] row]]) auto
qed

lemma input_zero_width_edited:
  assumes "term_inv b t"
  shows "ok (input_zero_width ch t) (edited b t)"
proof -
  let ?l = "line (t_point t)" and ?d = "t_dims t"
  note B = cursor_bounds [OF assms]
  have cols: "in_grid ?d (Point ?l c)" if "c \<le> column (t_point t)" for c
    using that B(6) by (auto simp: in_grid_def)
  let ?c = "if \<not> input_needs_wrap (t_cursor t) then column (t_point t) - 1 else column (t_point t)"
  have "?c \<le> column (t_point t)" by simp
  moreover obtain x where "grid_cell_at (t_grid t) (Point ?l ?c) = Some x"
    using grid_cell_ok [OF term_invD(2) [OF assms] cols [OF \<open>?c \<le> column (t_point t)\<close>]] by (auto elim: okE)
  ultimately show ?thesis
    using edit_cell_edited [OF assms cols] by (simp add: input_zero_width_def Let_def)
qed

lemma write_wide_step:
  assumes "term_inv b t" "column (t_point t) + 1 < t_columns t"
  shows "ok (write_wide E ch t) (term_step b t)"
proof -
  have tmpl: "term_step b u (set_template f u)" if "term_inv b u" for f u
    using set_template_step [OF that] .
  let ?t1 = "set_template (insert_flag WIDE_CHAR) t"
  have t1: "term_step b t ?t1" using tmpl [OF assms(1)] .
  show ?thesis unfolding write_wide_def Let_def
  proof (rule ok_then [OF write_at_cursor_ok [OF term_stepD(1) [OF t1]]], elim conjE)
    fix u assume u: "edited b ?t1 u"
    note U = editedD [OF u]
    let ?u1 = "set_template (remove_flag WIDE_CHAR) u"
    let ?u2 = "set_column (column (t_point ?u1) + 1) ?u1"
    let ?u3 = "set_template (insert_flag WIDE_CHAR_SPACER) ?u2"
    have p: "t_point u = t_point t" using U(3) by simp
    have c: "t_columns u = t_columns t" using U(9) term_stepD(4) [OF t1] by simp
    have s1: "term_step b u ?u1" using tmpl [OF U(1)] .
    have s2: "term_step b ?u1 ?u2"
      using term_stepD(1,4) [OF s1] assms(2) p c by (intro set_column_step) auto
    have s3: "term_step b ?u2 ?u3" using tmpl [OF term_stepD(1) [OF s2]] .
    have tu3: "term_step b t ?u3" using t1 U(2) s1 s2 s3 by (blast intro: term_step_chain)
    have "term_step b t (set_template (remove_flag WIDE_CHAR_SPACER) v)" if "edited b ?u3 v" for v
      using tmpl [OF editedD(1) [OF that]] edited_step [OF that] tu3 by (blast intro: term_step_chain)
    then show "ok (write_at_cursor E 32 ?u3 \<bind> (\<lambda>t. Some (set_template (remove_flag WIDE_CHAR_SPACER) t)))
        (term_step b t)"
      by (intro ok_then [OF write_at_cursor_ok [OF term_stepD(1) [OF s3]]]) simp
  qed
qed

lemma advance_cursor_step:
  assumes "term_inv b t" "cols = t_columns t"
  shows "term_step b t (advance_cursor cols t)"
  using assms set_column_step [of b t] set_needs_wrap_step [of b t] by (simp add: advance_cursor_def)

lemma write_advance_step:
  assumes "ok m (term_step b t)" "cols = t_columns t"
  shows "ok (m \<bind> (\<lambda>u. Some (advance_cursor cols u))) (term_step b t)"
  using assms by (intro ok_step_bind) (auto dest: term_stepD intro!: advance_cursor_step)

text \<open>The fullwidth branch when the glyph does not fit in the row.\<close>

lemma wide_wrap_step:
  assumes "term_inv b t" "mode_contains LINE_WRAP t"
  shows "ok (do {
      let t = set_template (insert_flag LEADING_WIDE_CHAR_SPACER) t;
      t \<leftarrow> write_at_cursor E 32 t;
      let t = set_template (remove_flag LEADING_WIDE_CHAR_SPACER) t;
      t \<leftarrow> wrapline t;
      write_wide E ch t }) (term_step b t)"
proof -
  let ?t1 = "set_template (insert_flag LEADING_WIDE_CHAR_SPACER) t"
  have t1: "term_step b t ?t1" using set_template_step [OF assms(1)] .
  have m1: "t_mode ?t1 = t_mode t" by (simp add: set_template_def set_cursor_def)
  show ?thesis unfolding Let_def
  proof (rule ok_then [OF write_at_cursor_ok [OF term_stepD(1) [OF t1]]], elim conjE)
    fix u assume u: "edited b ?t1 u"
    let ?u1 = "set_template (remove_flag LEADING_WIDE_CHAR_SPACER) u"
    have s1: "term_step b u ?u1" using set_template_step [OF editedD(1) [OF u]] .
    have "mode_contains LINE_WRAP ?u1"
      using assms(2) m1 editedD(5) [OF u] by (simp add: mode_contains_def set_template_def set_cursor_def)
    note wrap = wrapline_ok [OF term_stepD(1) [OF s1]]
    have tu1: "term_step b t ?u1" using t1 edited_step [OF u] s1 by (blast intro: term_step_chain)
    show "ok (wrapline ?u1 \<bind> write_wide E ch) (term_step b t)"
    proof (rule ok_then [OF wrap], elim conjE)
      fix v assume v: "term_step b ?u1 v" "mode_contains LINE_WRAP ?u1 \<longrightarrow> column (t_point v) = 0"
      have "column (t_point v) + 1 < t_columns v"
        using v(2) \<open>mode_contains LINE_WRAP ?u1\<close> term_invD(6) [OF term_stepD(1) [OF v(1)]] by simp
      from ok_step_after [OF term_step_chain [OF tu1 v(1)] write_wide_step [OF term_stepD(1) [OF v(1)] this]]
      show "ok (write_wide E ch v) (term_step b t)" .
    qed
  qed
qed

lemma input_shift_step: "term_inv b t \<Longrightarrow> ok (input_shift w t) (term_step b t)"
  using ok_mono [OF insert_shift_edited edited_step] term_step_refl by (simp add: input_shift_def)

lemma input_glyph_step:
  assumes "term_inv b t" "cols = t_columns t"
  shows "ok (input_glyph E ch w cols t) (term_step b t)"
proof -
  have narrow: "ok (write_at_cursor E ch t) (term_step b t)"
    by (rule ok_mono [OF write_at_cursor_ok [OF assms(1)]]) (auto dest: edited_step)
  have wide: "ok (write_wide E ch t) (term_step b t)" if "\<not> column (t_point t) + 1 \<ge> cols"
    using that assms(2) by (intro write_wide_step [OF assms(1)]) simp
  show ?thesis
    using write_advance_step [OF narrow assms(2)] write_advance_step [OF wide assms(2)]
      write_advance_step [OF wide_wrap_step [OF assms(1)] assms(2)] set_needs_wrap_step [OF assms(1), of True]
    by (simp add: input_glyph_def Let_def)
qed

lemma input_step:
  assumes "term_inv b t"
  shows "ok (input E ch t) (term_step b t)"
proof -
  have wrap: "ok (if input_needs_wrap (t_cursor t) then wrapline t else Some t) (term_step b t)"
    using ok_mono [OF wrapline_ok [OF assms]] term_step_refl [OF assms] by simp
  have "ok (input_shift w u \<bind> input_glyph E ch w (t_columns u)) (term_step b u)" if u: "term_inv b u" for u w
    by (rule ok_step_bind [OF input_shift_step [OF u]])
      (auto intro!: input_glyph_step dest: term_stepD)
  then have "ok ((if input_needs_wrap (t_cursor t) then wrapline t else Some t) \<bind>
      (\<lambda>t. input_shift w t \<bind> input_glyph E ch w (t_columns t))) (term_step b t)" for w
    by (intro ok_step_bind [OF wrap]) (blast dest: term_stepD(1))
  then show ?thesis
    using term_step_refl [OF assms] ok_mono [OF input_zero_width_edited [OF assms, of ch] edited_step]
    by (cases "char_width E ch") (auto simp: input_def Let_def simp del: ok_bind)
qed

text \<open>A narrow character on a narrow cell, without a pending wrap and without insert mode: the cell
  at the cursor is written, no other cell changes, and the cursor advances.\<close>

lemma input_narrow_ok:
  assumes "term_inv b t" "char_width E ch = Some 1" "\<not> input_needs_wrap (t_cursor t)"
    "\<not> mode_contains INSERT t" "grid_cell_at (t_grid t) (t_point t) = Some x"
    "\<not> flag_intersects (cell_flags x) (WIDE_CHAR OR WIDE_CHAR_SPACER)"
  shows "ok (input E ch t) (\<lambda>u. term_inv b u
    \<and> grid_cell_at (t_grid u) (t_point t) = Some (written_cell E ch t)
    \<and> (\<forall>q. in_grid (t_dims t) q \<longrightarrow> q \<noteq> t_point t \<longrightarrow>
         grid_cell_at (t_grid u) q = grid_cell_at (t_grid t) q)
    \<and> t_point u = Point (line (t_point t)) (min (column (t_point t) + 1) (t_columns t - 1))
    \<and> (input_needs_wrap (t_cursor u) \<longleftrightarrow> column (t_point t) = t_columns t - 1))"
proof -
  have eq: "input E ch t = write_at_cursor E ch t \<bind> (\<lambda>u. Some (advance_cursor (t_columns t) u))"
    using assms(2-4) by (simp add: input_def input_shift_def input_glyph_def Let_def)
  have cells: "grid_cell_at (t_grid (advance_cursor c u)) q = grid_cell_at (t_grid u) q" for c u q
    by (simp add: advance_cursor_def set_column_def set_point_def set_needs_wrap_def set_cursor_def
        grid_cell_at_def grid_row_def)
  show ?thesis unfolding eq
  proof (rule ok_then [OF write_at_cursor_ok [OF assms(1)]], elim conjE)
    fix u assume u: "edited b t u" "grid_cell_at (t_grid u) (t_point t) = Some (written_cell E ch t)"
      "\<forall>x. grid_cell_at (t_grid t) (t_point t) = Some x \<longrightarrow>
         \<not> flag_intersects (cell_flags x) (WIDE_CHAR OR WIDE_CHAR_SPACER) \<longrightarrow>
         (\<forall>q. in_grid (t_dims t) q \<longrightarrow> q \<noteq> t_point t \<longrightarrow>
            grid_cell_at (t_grid u) q = grid_cell_at (t_grid t) q)"
    note U = editedD [OF u(1)]
    have "term_inv b (advance_cursor (t_columns t) u)"
      using advance_cursor_step [OF U(1) U(9) [symmetric]] term_stepD(1) by blast
    moreover have "t_point (advance_cursor (t_columns t) u) =
        Point (line (t_point t)) (min (column (t_point t) + 1) (t_columns t - 1))"
      using U(3) cursor_bounds(3) [OF assms(1)]
      by (cases "t_point t") (auto simp: advance_cursor_def min_def)
    moreover have "input_needs_wrap (t_cursor (advance_cursor (t_columns t) u)) \<longleftrightarrow>
        column (t_point t) = t_columns t - 1"
      using U(3) cursor_bounds(3) [OF assms(1)] assms(3)
      by (auto simp: advance_cursor_def set_column_def set_point_def set_needs_wrap_def set_cursor_def)
    ultimately show "ok (Some (advance_cursor (t_columns t) u)) (\<lambda>u. term_inv b u
      \<and> grid_cell_at (t_grid u) (t_point t) = Some (written_cell E ch t)
      \<and> (\<forall>q. in_grid (t_dims t) q \<longrightarrow> q \<noteq> t_point t \<longrightarrow>
           grid_cell_at (t_grid u) q = grid_cell_at (t_grid t) q)
      \<and> t_point u = Point (line (t_point t)) (min (column (t_point t) + 1) (t_columns t - 1))
      \<and> (input_needs_wrap (t_cursor u) \<longleftrightarrow> column (t_point t) = t_columns t - 1))"
      using u(2,3) assms(5,6) by (simp add: cells)
  qed
qed

end
