(* ===== verification/Term_Edit.thy ===== *)
theory Term_Edit
  imports Term_Print
begin

text \<open>
  Editing of lines and screens: inserting, erasing and deleting cells, clearing, resets, the alternate
  screen and the scroll region. Each operation keeps the invariant without a panic; the editing
  functions are related to the list operations they stand for.
\<close>

section \<open>Cells of a line\<close>

lemma list_eq_split:
  assumes "length ys = length xs" "\<forall>i < s. ys ! i = xs ! i" "s \<le> length xs"
  shows "take s ys = take s xs"
  using assms by (intro nth_equalityI) auto

lemma insert_blank_cells_ok:
  assumes "source \<le> dest" "dest + num = length xs"
  shows "insert_blank_cells source dest num bg xs =
    Some (take source xs @ replicate (dest - source) (cell_of_color bg) @ take num (drop source xs))"
proof -
  obtain ys where ys: "for_each (rev [0..<num]) (\<lambda>k ys. vec_swap ys (dest + k) (source + k)) xs = Some ys"
    "length ys = length xs" "\<forall>i < source. ys ! i = xs ! i" "\<forall>k < num. ys ! (dest + k) = xs ! (source + k)"
    using swap_cells_right [of source dest num xs] assms by (auto elim: okE)
  have "take source ys = take source xs" using ys(2,3) assms by (intro list_eq_split) auto
  moreover have "drop dest ys = take num (drop source xs)"
    using ys(2,4) assms by (intro nth_equalityI) auto
  ultimately show ?thesis using ys(1,2) assms by (simp add: insert_blank_cells_def vec_fill_def)
qed

lemma delete_cells_ok:
  assumes "s \<le> e" "e + num = length xs" "s + num = clear_from"
  shows "delete_cells s e num clear_from bg xs =
    Some (take s xs @ drop e xs @ replicate (length xs - clear_from) (cell_of_color bg))"
proof -
  obtain ys where ys: "for_each [0..<num] (\<lambda>k ys. vec_swap ys (s + k) (e + k)) xs = Some ys"
    "length ys = length xs" "\<forall>i < s. ys ! i = xs ! i" "\<forall>k < num. ys ! (s + k) = xs ! (e + k)"
    using swap_cells_left [of s e num xs] assms by (auto elim: okE)
  have "take clear_from ys = take s xs @ drop e xs"
  proof (rule nth_equalityI)
    fix i assume "i < length (take clear_from ys)"
    then have i: "i < s + num" using assms ys(2) by simp
    show "take clear_from ys ! i = (take s xs @ drop e xs) ! i"
      using i ys(3) ys(4) [rule_format, of "i - s"] assms by (auto simp: nth_append min_def)
  qed (use assms ys(2) in auto)
  then show ?thesis using ys(1,2) assms by (simp add: delete_cells_def vec_fill_def)
qed

lemma delete_cells_total:
  assumes "s \<le> e" "e + num \<le> length xs" "clear_from \<le> length xs"
  shows "ok (delete_cells s e num clear_from bg xs) (\<lambda>ys. length ys = length xs)"
  using swap_cells_left [OF assms(1,2)] assms(3) by (auto simp: delete_cells_def elim!: ok_mono)

text \<open>An edit of the cursor's row after damage.\<close>

lemma damage_then_row:
  assumes "term_inv b t"
    and "\<And>r. good_row b (t_columns t) r \<Longrightarrow> ok (f r) (\<lambda>r'. good_row b (t_columns t) r' \<and> Q r r')"
  shows "ok (damage_line (usize_of_i32 (line (t_point t))) x y t \<bind> on_grid (grid_row_mut (line (t_point t)) f))
    (\<lambda>u. term_step b t u \<and> t_point u = t_point t
       \<and> (\<exists>r r'. grid_lines (t_grid t) (line (t_point t)) = Some r \<and> Q r r'
            \<and> grid_lines (t_grid u) = (grid_lines (t_grid t))(line (t_point t) \<mapsto> r')))"
proof (rule ok_then [OF damage_line_step [OF assms(1) cursor_bounds(4) [OF assms(1)]]], elim conjE)
  fix u assume u: "term_step b t u" "t_grid u = t_grid t"
  note B = cursor_bounds [OF assms(1)]
  have "ok (on_grid (grid_row_mut (line (t_point t)) f) u) (\<lambda>v. edited b u v
      \<and> (\<exists>r r'. grid_lines (t_grid u) (line (t_point t)) = Some r \<and> Q r r'
         \<and> grid_lines (t_grid v) = (grid_lines (t_grid u))(line (t_point t) \<mapsto> r')))"
    using B assms(2) u(2) by (intro edit_row [OF term_stepD(1) [OF u(1)]]) simp_all
  then show "ok (on_grid (grid_row_mut (line (t_point t)) f) u) (\<lambda>u. term_step b t u \<and> t_point u = t_point t
       \<and> (\<exists>r r'. grid_lines (t_grid t) (line (t_point t)) = Some r \<and> Q r r'
            \<and> grid_lines (t_grid u) = (grid_lines (t_grid t))(line (t_point t) \<mapsto> r')))"
  proof (rule ok_mono, elim conjE)
    fix v assume v: "edited b u v" "\<exists>r r'. grid_lines (t_grid u) (line (t_point t)) = Some r \<and> Q r r'
         \<and> grid_lines (t_grid v) = (grid_lines (t_grid u))(line (t_point t) \<mapsto> r')"
    show "term_step b t v \<and> t_point v = t_point t
       \<and> (\<exists>r r'. grid_lines (t_grid t) (line (t_point t)) = Some r \<and> Q r r'
            \<and> grid_lines (t_grid v) = (grid_lines (t_grid t))(line (t_point t) \<mapsto> r'))"
      using term_step_chain [OF u(1) edited_step [OF v(1)]] editedD(3) [OF v(1)] v(2) u(2) by simp
  qed
qed

text \<open>\<open>row_edit t u h\<close>: the cells of the cursor's row become \<open>h\<close> of the old ones, all else stays.\<close>

definition row_edit :: "terminal \<Rightarrow> terminal \<Rightarrow> (cell list \<Rightarrow> cell list) \<Rightarrow> bool" where
  "row_edit t u h \<longleftrightarrow> t_point u = t_point t
     \<and> (\<exists>r r'. grid_lines (t_grid t) (line (t_point t)) = Some r \<and> row_inner r' = h (row_inner r)
          \<and> grid_lines (t_grid u) = (grid_lines (t_grid t))(line (t_point t) \<mapsto> r'))"

lemma damage_then_row_edit:
  assumes "term_inv b t"
    and "\<And>r. good_row b (t_columns t) r \<Longrightarrow>
      ok (f r) (\<lambda>r'. good_row b (t_columns t) r' \<and> row_inner r' = h (row_inner r))"
  shows "ok (damage_line (usize_of_i32 (line (t_point t))) x y t \<bind> on_grid (grid_row_mut (line (t_point t)) f))
    (\<lambda>u. term_step b t u \<and> row_edit t u h)"
  unfolding row_edit_def by (rule damage_then_row [OF assms])

lemma good_row_length: "good_row b n r \<Longrightarrow> length (row_inner r) = n"
  by (simp add: good_row_def row_ok_def)

definition inserted_blanks :: "nat \<Rightarrow> nat \<Rightarrow> color \<Rightarrow> cell list \<Rightarrow> cell list" where
  "inserted_blanks col n bg xs =
     take (length xs) (take col xs @ replicate n (cell_of_color bg) @ drop col xs)"

lemma inserted_blanks_eq:
  assumes "col \<le> length xs" "m = min n (length xs - col)"
  shows "take col xs @ replicate m (cell_of_color bg) @ take (length xs - (col + m)) (drop col xs)
    = inserted_blanks col n bg xs"
  using assms by (auto simp: inserted_blanks_def min_def take_drop)

lemma insert_blank_ok:
  assumes "term_inv b t"
  shows "ok (insert_blank n t) (\<lambda>u. term_step b t u
    \<and> row_edit t u (inserted_blanks (column (t_point t)) n (cell_bg (t_template t))))"
proof -
  let ?col = "column (t_point t)" and ?cols = "t_columns t" and ?bg = "cell_bg (t_template t)"
  let ?m = "min n (?cols - ?col)"
  have c: "?col < ?cols" "1 \<le> ?cols" using cursor_bounds(3) [OF assms] by auto
  have m: "?col + ?m \<le> ?cols" using c by auto
  have row: "ok (row_range_full_mut (insert_blank_cells ?col (?col + ?m) (?cols - (?col + ?m)) ?bg) r)
      (\<lambda>r'. good_row b ?cols r' \<and> row_inner r' = inserted_blanks ?col n ?bg (row_inner r))"
    if r: "good_row b ?cols r" for r
  proof -
    note len = good_row_length [OF r]
    have "insert_blank_cells ?col (?col + ?m) (?cols - (?col + ?m)) ?bg (row_inner r) =
        Some (inserted_blanks ?col n ?bg (row_inner r))"
      using insert_blank_cells_ok [of ?col "?col + ?m" "?cols - (?col + ?m)" "row_inner r" ?bg]
        inserted_blanks_eq [of ?col "row_inner r" ?m n ?bg] c len by simp
    moreover have "length (inserted_blanks ?col n ?bg (row_inner r)) = ?cols"
      using c len by (simp add: inserted_blanks_def)
    ultimately have "ok (insert_blank_cells ?col (?col + ?m) (?cols - (?col + ?m)) ?bg (row_inner r))
        (\<lambda>ys. length ys = ?cols \<and> ys = inserted_blanks ?col n ?bg (row_inner r))" by simp
    then show ?thesis by (rule good_row_full [OF r])
  qed
  have "insert_blank n t = damage_line (usize_of_i32 (line (t_point t))) 0 (?cols - 1) t \<bind>
      on_grid (grid_row_mut (line (t_point t))
        (row_range_full_mut (insert_blank_cells ?col (?col + ?m) (?cols - (?col + ?m)) ?bg)))"
    using c m by (simp add: insert_blank_def Let_def csub_def)
  moreover have "ok (damage_line (usize_of_i32 (line (t_point t))) 0 (?cols - 1) t \<bind>
      on_grid (grid_row_mut (line (t_point t))
        (row_range_full_mut (insert_blank_cells ?col (?col + ?m) (?cols - (?col + ?m)) ?bg))))
    (\<lambda>u. term_step b t u \<and> row_edit t u (inserted_blanks ?col n ?bg))"
    by (rule damage_then_row_edit [OF assms], rule row)
  ultimately show ?thesis by simp
qed

definition overwritten :: "nat \<Rightarrow> nat \<Rightarrow> color \<Rightarrow> cell list \<Rightarrow> cell list" where
  "overwritten l u bg xs = take l xs @ replicate (u - l) (cell_of_color bg) @ drop u xs"

lemma erase_chars_ok:
  assumes "term_inv b t"
  shows "ok (erase_chars n t) (\<lambda>u. term_step b t u
    \<and> row_edit t u (overwritten (column (t_point t)) (min (column (t_point t) + n) (t_columns t))
        (cell_bg (t_template t))))"
proof -
  have c: "column (t_point t) \<le> min (column (t_point t) + n) (t_columns t)"
    using cursor_bounds(3) [OF assms] by simp
  show ?thesis unfolding erase_chars_def Let_def
    by (rule damage_then_row_edit [OF assms])
      (use good_row_range_fill c in \<open>auto simp: overwritten_def\<close>)
qed

definition deleted_cells :: "nat \<Rightarrow> nat \<Rightarrow> color \<Rightarrow> cell list \<Rightarrow> cell list" where
  "deleted_cells col n bg xs = take col xs @ drop (col + n) xs @ replicate n (cell_of_color bg)"

lemma delete_chars_eq:
  assumes "term_inv b t"
  shows "delete_chars n t = (let cols = t_columns t; count = min n cols; s = column (t_point t);
      e = min (s + count) (cols - 1) in
    damage_line (usize_of_i32 (line (t_point t))) 0 (cols - 1) t \<bind>
      on_grid (grid_row_mut (line (t_point t)) (row_range_full_mut
        (delete_cells s e (cols - e) (cols - count) (cell_bg (t_template t))))))"
proof -
  have "min (column (t_point t) + min n (t_columns t)) (t_columns t - Suc 0) \<le> t_columns t" by simp
  then show ?thesis using term_invD(6) [OF assms] by (simp add: delete_chars_def Let_def csub_def)
qed

lemma delete_chars_step:
  assumes "term_inv b t"
  shows "ok (delete_chars n t) (term_step b t)"
proof -
  let ?cols = "t_columns t" and ?s = "column (t_point t)" and ?bg = "cell_bg (t_template t)"
  let ?count = "min n ?cols" let ?e = "min (?s + ?count) (?cols - 1)"
  have s: "?s < ?cols" using cursor_bounds(3) [OF assms] .
  have row: "ok (row_range_full_mut (delete_cells ?s ?e (?cols - ?e) (?cols - ?count) ?bg) r)
      (\<lambda>r'. good_row b ?cols r' \<and> True)" if r: "good_row b ?cols r" for r
  proof -
    note len = good_row_length [OF r]
    have "ok (delete_cells ?s ?e (?cols - ?e) (?cols - ?count) ?bg (row_inner r))
        (\<lambda>ys. length ys = length (row_inner r))"
      using s len by (intro delete_cells_total) auto
    then have "ok (delete_cells ?s ?e (?cols - ?e) (?cols - ?count) ?bg (row_inner r)) (\<lambda>ys. length ys = ?cols \<and> True)"
      using len by simp
    then show ?thesis by (rule good_row_full [OF r])
  qed
  show ?thesis unfolding delete_chars_eq [OF assms] Let_def
    by (rule ok_mono, rule damage_then_row [OF assms], rule row) auto
qed

lemma delete_chars_ok:
  assumes "term_inv b t" "column (t_point t) + n < t_columns t"
  shows "ok (delete_chars n t) (\<lambda>u. term_step b t u
    \<and> row_edit t u (deleted_cells (column (t_point t)) n (cell_bg (t_template t))))"
proof -
  let ?cols = "t_columns t" and ?s = "column (t_point t)" and ?bg = "cell_bg (t_template t)"
  have count: "min n ?cols = n" "min (?s + n) (?cols - 1) = ?s + n" using assms(2) by auto
  have row: "ok (row_range_full_mut (delete_cells ?s (?s + n) (?cols - (?s + n)) (?cols - n) ?bg) r)
      (\<lambda>r'. good_row b ?cols r' \<and> row_inner r' = deleted_cells ?s n ?bg (row_inner r))"
    if r: "good_row b ?cols r" for r
  proof -
    note len = good_row_length [OF r]
    have "delete_cells ?s (?s + n) (?cols - (?s + n)) (?cols - n) ?bg (row_inner r) =
        Some (deleted_cells ?s n ?bg (row_inner r))"
      using delete_cells_ok [of ?s "?s + n" "?cols - (?s + n)" "row_inner r" "?cols - n" ?bg] assms(2) len
      by (simp add: deleted_cells_def)
    moreover have "length (deleted_cells ?s n ?bg (row_inner r)) = ?cols"
      using assms(2) len by (simp add: deleted_cells_def)
    ultimately have "ok (delete_cells ?s (?s + n) (?cols - (?s + n)) (?cols - n) ?bg (row_inner r))
        (\<lambda>ys. length ys = ?cols \<and> ys = deleted_cells ?s n ?bg (row_inner r))" by simp
    then show ?thesis by (rule good_row_full [OF r])
  qed
  show ?thesis unfolding delete_chars_eq [OF assms(1)] Let_def count
    by (rule damage_then_row_edit [OF assms(1)], rule row)
qed

section \<open>Clearing\<close>

definition cleared_range :: "line_clear_mode \<Rightarrow> terminal \<Rightarrow> nat \<times> nat" where
  "cleared_range m t = (case m of
      Clear_Right \<Rightarrow> (column (t_point t), t_columns t)
    | Clear_Left \<Rightarrow> (0, column (t_point t) + 1)
    | Clear_All_Line \<Rightarrow> (0, t_columns t))"

lemma filter_selection_step: "term_step b t u \<Longrightarrow> term_step b t (filter_selection lo hi u)"
  by (simp add: term_step_def same_size_def)

lemma row_edit_filter [simp]: "row_edit t (filter_selection lo hi u) h = row_edit t u h"
  by (simp add: row_edit_def)

lemma clear_line_ok:
  assumes "term_inv b t" "\<not> (m = Clear_Right \<and> input_needs_wrap (t_cursor t))"
  shows "ok (clear_line m t) (\<lambda>u. term_step b t u
    \<and> row_edit t u (overwritten (fst (cleared_range m t)) (snd (cleared_range m t)) (cell_bg (t_template t))))"
proof -
  obtain l r where lr: "cleared_range m t = (l, r)" by fastforce
  have b: "l \<le> r" "r \<le> t_columns t" "1 \<le> r"
    using cursor_bounds(3) [OF assms(1)] lr by (auto simp: cleared_range_def split: line_clear_mode.splits)
  have edit: "ok (damage_line (usize_of_i32 (line (t_point t))) l (r - 1) t \<bind>
      on_grid (grid_row_mut (line (t_point t)) (row_range_mut l r (fill_with (cell_of_color (cell_bg (t_template t)))))))
    (\<lambda>u. term_step b t u \<and> row_edit t u (overwritten l r (cell_bg (t_template t))))"
    by (rule damage_then_row_edit [OF assms(1)])
      (use good_row_range_fill b in \<open>auto simp: overwritten_def\<close>)
  have "clear_line m t = (damage_line (usize_of_i32 (line (t_point t))) l (r - 1) t \<bind>
      on_grid (grid_row_mut (line (t_point t)) (row_range_mut l r (fill_with (cell_of_color (cell_bg (t_template t))))))) \<bind>
      (\<lambda>u. Some (filter_selection (Included (line (t_point u))) (Included (line (t_point u))) u))"
    using assms(2) lr b(3)
    by (auto simp: clear_line_def Let_def csub_def cleared_range_def split: line_clear_mode.splits)
  also have "ok \<dots> (\<lambda>u. term_step b t u \<and> row_edit t u (overwritten l r (cell_bg (t_template t))))"
    by (rule ok_then [OF edit]) (simp add: filter_selection_step)
  finally show ?thesis using lr by simp
qed

lemma clear_line_step: "term_inv b t \<Longrightarrow> ok (clear_line m t) (term_step b t)"
  using ok_mono [OF clear_line_ok] term_step_refl
  by (cases "m = Clear_Right \<and> input_needs_wrap (t_cursor t)") (auto simp: clear_line_def Let_def)

lemma reset_region_step:
  assumes "term_inv b t" "0 \<le> bound_start lo" "bound_start lo < int (t_lines t)"
    "bound_end (t_grid t) hi \<le> int (t_lines t)"
  shows "ok (on_grid (reset_region lo hi) t) (\<lambda>u. edited b t u
    \<and> (\<forall>l. \<not> (bound_start lo \<le> l \<and> l < bound_end (t_grid t) hi) \<longrightarrow>
         grid_lines (t_grid u) l = grid_lines (t_grid t) l)
    \<and> (b \<longrightarrow> (\<forall>l. bound_start lo \<le> l \<and> l < bound_end (t_grid t) hi \<longrightarrow>
         grid_lines (t_grid u) l = Some (blank_of (t_grid t)))))"
  by (rule on_grid_edited [OF assms(1)], rule reset_region_ok [OF term_invD(1) [OF assms(1)]])
    (use assms in auto)

lemma bound_simps [simp]:
  "bound_start (Included l) = l" "bound_start (Excluded l) = l + 1" "bound_start Unbounded = 0"
  "bound_end g (Included l) = l + 1" "bound_end g (Excluded l) = l" "bound_end g Unbounded = int (g_lines g)"
  by (simp_all add: bound_start_def bound_end_def)

lemma mark_step: "term_step b t u \<Longrightarrow> term_step b t (mark_fully_damaged u)"
  by (simp add: term_step_def same_size_def)

lemma set_vi_line_step: "term_step b t u \<Longrightarrow> term_step b t (set_vi_line l u)"
  by (simp add: term_step_def same_size_def)

lemma line_clamp_total: "term_inv b t \<Longrightarrow> ok (line_grid_clamp (t_dims t) bd l) (\<lambda>_. True)"
  by (rule ok_mono [OF line_clamp_bounds [OF term_invD(16)]]) auto

lemma clear_above_step:
  assumes "term_inv b t"
  shows "ok (clear_above t) (term_step b t)"
proof -
  have first: "ok (if line (t_point t) > 1 then on_grid (reset_region Unbounded (Excluded (line (t_point t)))) t
      else Some t) (edited b t)"
    using cursor_bounds [OF assms] term_invD(15) [OF assms] edited_refl [OF assms]
      ok_mono [OF reset_region_step [OF assms, of Unbounded "Excluded (line (t_point t))"]] by simp
  show ?thesis unfolding clear_above_def Let_def
  proof (rule ok_then [OF first])
    fix u assume u: "edited b t u"
    note U = editedD [OF u]
    let ?f = "row_range_to_mut (min (column (t_point t) + 1) (t_columns u))
      (fill_with (cell_of_color (cell_bg (t_template t))))"
    have "ok (on_grid (grid_row_mut (line (t_point u)) ?f) u) (edited b u)"
      by (rule ok_mono, rule edit_row [OF U(1) cursor_bounds(1,2) [OF U(1)]], rule good_row_range_to_fill) auto
    then have "ok (on_grid (grid_row_mut (line (t_point t)) ?f) u) (edited b u)" using U(3) by simp
    then show "ok (on_grid (grid_row_mut (line (t_point t)) ?f) u
        \<bind> (\<lambda>v. Some (filter_selection (Included 0) (Included (line (t_point t))) v))) (term_step b t)"
      using term_step_chain [OF edited_step [OF u] edited_step]
      by (intro ok_then [where P = "edited b u"]) (auto intro: filter_selection_step)
  qed
qed

lemma clear_below_step:
  assumes "term_inv b t"
  shows "ok (clear_below t) (term_step b t)"
proof -
  note B = cursor_bounds [OF assms]
  let ?f = "row_range_from_mut (column (t_point t)) (fill_with (cell_of_color (cell_bg (t_template t))))"
  have first: "ok (on_grid (grid_row_mut (line (t_point t)) ?f) t) (edited b t)"
    by (rule ok_mono, rule edit_row [OF assms B(1,2)], rule good_row_range_from_fill) (use B(3) in auto)
  show ?thesis unfolding clear_below_def Let_def
  proof (rule ok_then [OF first])
    fix u assume u: "edited b t u"
    note U = editedD [OF u]
    have reset: "ok (if usize_of_i32 (line (t_point t)) < t_lines t - 1
        then on_grid (reset_region (Included (line (t_point t) + 1)) Unbounded) u else Some u) (edited b u)"
      using B U(10) edited_refl [OF U(1)]
        ok_mono [OF reset_region_step [OF U(1), of "Included (line (t_point t) + 1)" Unbounded]] by simp
    have "ok ((if usize_of_i32 (line (t_point t)) < t_lines t - 1
        then on_grid (reset_region (Included (line (t_point t) + 1)) Unbounded) u else Some u)
        \<bind> (\<lambda>v. Some (filter_selection (Included (line (t_point t))) (Excluded (int (t_lines t))) v)))
      (term_step b t)"
      using term_step_chain [OF edited_step [OF u] edited_step]
      by (intro ok_then [OF reset]) (auto intro: filter_selection_step)
    then show "ok (csub (t_lines t) 1 \<bind> (\<lambda>last. (if usize_of_i32 (line (t_point t)) < last
        then on_grid (reset_region (Included (line (t_point t) + 1)) Unbounded) u else Some u)
        \<bind> (\<lambda>v. Some (filter_selection (Included (line (t_point t))) (Excluded (int (t_lines t))) v))))
      (term_step b t)"
      using term_invD(15) [OF assms] by (simp add: csub_def del: ok_bind)
  qed
qed

lemma clear_viewport_step:
  assumes "term_inv b t"
  shows "ok (on_grid clear_viewport t) (term_step b t)"
proof (rule on_grid_step [OF assms], rule ok_mono [OF clear_viewport_ok [OF term_invD(1) [OF assms]]],
    elim conjE exE)
  fix g n assume g: "grid_inv b g"
    "same_but_rows ((t_grid t)\<lparr>display_offset := scroll_up_offset 0 (int (t_lines t)) n (t_grid t)\<rparr>) g"
  from same_fields [OF g(2)] g(1) show "grid_inv b g \<and> g_lines g = t_lines t \<and> g_columns g = t_columns t"
    by simp
qed

lemma clear_history_step:
  assumes "term_inv b t"
  shows "ok (on_grid clear_history t) (term_step b t)"
proof (rule on_grid_step [OF assms], rule ok_mono [OF clear_history_ok [OF term_invD(1) [OF assms]]], elim conjE)
  fix g assume g: "grid_inv b g" "same_but_rows ((t_grid t)\<lparr>display_offset := 0\<rparr>) g"
  from same_fields [OF g(2)] g(1) show "grid_inv b g \<and> g_lines g = t_lines t \<and> g_columns g = t_columns t"
    by simp
qed

lemma clear_all_step:
  assumes "term_inv b t"
  shows "ok (clear_all t) (term_step b t)"
proof -
  have alt: "ok (on_grid (reset_region Unbounded Unbounded) t) (term_step b t)"
    using term_invD(15) [OF assms] edited_step
    by (intro ok_mono [OF reset_region_step [OF assms]]) auto
  have view: "ok (on_grid clear_viewport t \<bind> (\<lambda>u. line_grid_clamp (t_dims u) Boundary_Grid
        (line (vi_mode_cursor u) - int (display_offset (t_grid u) - display_offset (t_grid t))) \<bind>
        (\<lambda>l. Some (set_vi_line l u)))) (term_step b t)"
  proof (rule ok_then [OF clear_viewport_step [OF assms]])
    fix u assume u: "term_step b t u"
    show "ok (line_grid_clamp (t_dims u) Boundary_Grid
        (line (vi_mode_cursor u) - int (display_offset (t_grid u) - display_offset (t_grid t))) \<bind>
        (\<lambda>l. Some (set_vi_line l u))) (term_step b t)"
      using set_vi_line_step [OF u] by (intro ok_then [OF line_clamp_total [OF term_stepD(1) [OF u]]]) simp
  qed
  have "term_step b t (u\<lparr>t_selection := None\<rparr>)" if "term_step b t u" for u
    using that by (simp add: term_step_def same_size_def)
  then show ?thesis unfolding clear_all_def Let_def using alt view
    by (intro ok_then [where P = "term_step b t"]) (simp_all del: ok_bind add: ok_if)
qed

lemma clear_saved_step:
  assumes "term_inv b t"
  shows "ok (clear_saved t) (term_step b t)"
proof -
  have "ok (on_grid clear_history t \<bind> (\<lambda>u. line_grid_clamp (t_dims u) Boundary_Cursor (line (vi_mode_cursor u)) \<bind>
      (\<lambda>l. Some (filter_selection Unbounded (Excluded 0) (set_vi_line l u))))) (term_step b t)"
  proof (rule ok_then [OF clear_history_step [OF assms]])
    fix u assume u: "term_step b t u"
    show "ok (line_grid_clamp (t_dims u) Boundary_Cursor (line (vi_mode_cursor u)) \<bind>
        (\<lambda>l. Some (filter_selection Unbounded (Excluded 0) (set_vi_line l u)))) (term_step b t)"
      using set_vi_line_step [OF u] filter_selection_step
      by (intro ok_then [OF line_clamp_total [OF term_stepD(1) [OF u]]]) simp
  qed
  then show ?thesis using term_step_refl [OF assms] by (simp add: clear_saved_def del: ok_bind)
qed

lemma clear_screen_step:
  assumes "term_inv b t"
  shows "ok (clear_screen m t) (term_step b t)"
  unfolding clear_screen_def
  using clear_above_step [OF assms] clear_below_step [OF assms] clear_all_step [OF assms]
    clear_saved_step [OF assms]
  by (intro ok_then [where P = "term_step b t"]) (auto split: clear_mode.splits intro: mark_step)

section \<open>Screens\<close>

lemma decaln_step:
  assumes "term_inv b t"
  shows "ok (decaln t) (term_step b t)"
proof -
  have cell: "ok (on_grid (grid_cell_mut (Point l c) f) u) (term_step b t)"
    if "term_step b t u" "l \<in> set (irange 0 (int (t_lines t)))" "c \<in> set [0..<t_columns t]" for u l c f
  proof -
    have "in_grid (t_dims u) (Point l c)"
      using that term_stepD [OF that(1)] in_grid_iff [OF term_invD(2) [OF term_stepD(1) [OF that(1)]]] by simp
    then show ?thesis
      using term_step_chain [OF that(1) edited_step]
      by (intro ok_mono [OF edit_cell_edited [OF term_stepD(1) [OF that(1)]]]) auto
  qed
  have rows: "ok (for_each [0..<t_columns t] (\<lambda>c. on_grid (grid_cell_mut (Point l c) f)) u) (term_step b t)"
    if "term_step b t u" "l \<in> set (irange 0 (int (t_lines t)))" for u l f
    using that cell by (intro ok_for_each_inv) auto
  have "ok (for_each (irange 0 (int (t_lines t))) (\<lambda>l. for_each [0..<t_columns t]
      (\<lambda>c. on_grid (grid_cell_mut (Point l c) (\<lambda>_. cell_default\<lparr>cell_c := 69\<rparr>)))) t) (term_step b t)"
    by (rule ok_for_each_inv [OF term_step_refl [OF assms] rows])
  then show ?thesis unfolding decaln_def
    by (rule ok_then) (auto intro: mark_step)
qed

lemma set_scrolling_region_step:
  assumes "term_inv b t" "1 \<le> rtop"
  shows "ok (set_scrolling_region rtop rbottom t) (term_step b t)"
proof -
  let ?b = "case rbottom of None \<Rightarrow> t_lines t | Some x \<Rightarrow> x"
  let ?u = "t\<lparr>region_start := min (int rtop - 1) (int (t_lines t)), region_end := min (int ?b) (int (t_lines t))\<rparr>"
  have u: "term_inv b ?u" if "\<not> rtop \<ge> ?b"
    using that assms term_invD(15) [OF assms(1)] unfolding term_inv_def by simp
  have "ok (goto 0 0 ?u) (term_step b t)" if "\<not> rtop \<ge> ?b"
    using goto_step [OF u [OF that]] by (rule ok_step_trans [rotated]) (simp add: same_size_def)
  then show ?thesis using term_step_refl [OF assms(1)] by (simp add: set_scrolling_region_def Let_def)
qed

lemma deccolm_step:
  assumes "term_inv b t"
  shows "ok (deccolm t) (term_step b t)"
  unfolding deccolm_def
proof (rule ok_step_bind [OF set_scrolling_region_step [OF assms order_refl]])
  fix u assume u: "term_step b t u"
  have "ok (on_grid (reset_region Unbounded Unbounded) u) (term_step b u)"
    using term_invD(15) [OF term_stepD(1) [OF u]] edited_step
    by (intro ok_mono [OF reset_region_step [OF term_stepD(1) [OF u]]]) auto
  then show "ok (on_grid (reset_region Unbounded Unbounded) u \<bind> (\<lambda>t. Some (mark_fully_damaged t))) (term_step b u)"
    by (rule ok_then) (auto intro: mark_step)
qed

text \<open>
  Entering the alternate screen clears it and keeps the primary grid; leaving it restores that grid.
\<close>

lemma swap_alt_ok:
  assumes "term_inv b t"
  shows "ok (swap_alt t) (\<lambda>u. term_step b t u
    \<and> (mode_contains ALT_SCREEN u \<longleftrightarrow> \<not> mode_contains ALT_SCREEN t)
    \<and> (mode_contains ALT_SCREEN t \<longrightarrow> t_grid u = t_inactive_grid t \<and> t_inactive_grid u = t_grid t)
    \<and> (\<not> mode_contains ALT_SCREEN t \<longrightarrow>
         t_inactive_grid u = (t_grid t)\<lparr>g_saved_cursor := t_cursor t\<rparr> \<and> t_cursor u = t_cursor t
         \<and> (b \<longrightarrow> (\<forall>l. 0 \<le> l \<and> l < int (t_lines t) \<longrightarrow>
              grid_lines (t_grid u) l = Some (blank_row (t_columns t) (cell_bg (t_template t)))))))"
proof -
  note D = term_invD [OF assms]
  define ig where "ig = (t_inactive_grid t)\<lparr>g_cursor := t_cursor t\<rparr>"
  have "in_screen (grid_dims (t_inactive_grid t)) (t_point t)"
    using cursor_bounds(1-3) [OF assms] D(4,5) by (simp add: in_screen_iff)
  then have ig: "grid_inv b ig" unfolding ig_def by (rule grid_inv_cursor(1) [OF D(3)])
  have size: "g_lines ig = t_lines t" "g_columns ig = t_columns t" using D(4,5) by (simp_all add: ig_def)
  have "0 < g_lines ig" using size(1) D(15) by simp
  then obtain g where g: "reset_region Unbounded Unbounded ig = Some g" "grid_inv b g" "frame ig g"
    "b \<longrightarrow> (\<forall>l. 0 \<le> l \<and> l < int (g_lines ig) \<longrightarrow> grid_lines g l = Some (blank_of ig))"
    using reset_region_ok [OF ig, of Unbounded Unbounded] by (auto elim!: okE)
  have saved: "grid_inv b ((t_grid t)\<lparr>g_saved_cursor := t_cursor t\<rparr>)"
    by (rule grid_inv_cursor(2) [OF D(1) cursor_bounds(5) [OF assms]])
  let ?k = "mode_of_keyboard (last_keyboard_mode (inactive_keyboard_mode_stack t))"
  let ?m = "apply_keyboard_mode ?k Apply_Replace (t_mode t) XOR ALT_SCREEN"
  have alt: "flag_contains ?m ALT_SCREEN \<longleftrightarrow> \<not> flag_contains (t_mode t) ALT_SCREEN"
    using bit_apply_keyboard_mode [of 12] by (simp add: contains_modes bit_xor_iff bit_modes)
  note F = frame_fields [OF g(3)]
  let ?finish = "\<lambda>gr ig. mark_fully_damaged (t\<lparr>keyboard_mode_stack := inactive_keyboard_mode_stack t,
    inactive_keyboard_mode_stack := keyboard_mode_stack t, t_grid := gr, t_inactive_grid := ig,
    t_mode := ?m, t_selection := None\<rparr>)"
  have res: "swap_alt t = Some (if mode_contains ALT_SCREEN t then ?finish (t_inactive_grid t) (t_grid t)
      else ?finish g ((t_grid t)\<lparr>g_saved_cursor := t_cursor t\<rparr>))"
    using g(1) by (simp add: swap_alt_def Let_def set_keyboard_mode_def mark_fully_damaged_def ig_def)
  have step: "term_step b t (?finish gr ig')"
    if "grid_inv b gr" "grid_inv b ig'" "g_lines gr = t_lines t" "g_columns gr = t_columns t"
      "g_lines ig' = t_lines t" "g_columns ig' = t_columns t" for gr ig'
    using assms that by (simp add: term_step_def same_size_def) (simp add: term_inv_def)
  show ?thesis
  proof (cases "mode_contains ALT_SCREEN t")
    case True
    then show ?thesis using res step [OF D(3) D(1)] D(4,5) alt
      by (simp add: mode_contains_def mark_fully_damaged_def)
  next
    case False
    have "g_lines g = t_lines t" "g_columns g = t_columns t" using F(3,4) size by simp_all
    then show ?thesis using False res step [OF g(2) saved] alt g(4) F(1) size
      by (simp add: mode_contains_def) (simp add: mark_fully_damaged_def ig_def)
  qed
qed

lemma swap_alt_step: "term_inv b t \<Longrightarrow> ok (swap_alt t) (term_step b t)"
  by (rule ok_mono [OF swap_alt_ok]) auto

lemma tabs_new_length [simp]: "length (tabs_new n) = n"
  by (simp add: tabs_new_def)

lemma reset_state_ok:
  assumes "term_inv b t"
  shows "ok (reset_state t) (\<lambda>u. term_step b t u \<and> t_point u = Point 0 0
    \<and> grid_history (t_grid u) = 0 \<and> region_start u = 0 \<and> region_end u = int (t_lines t)
    \<and> \<not> mode_contains ALT_SCREEN u \<and> mode_contains VI u = mode_contains VI t
    \<and> (b \<longrightarrow> (\<forall>l. 0 \<le> l \<and> l < int (t_lines t) \<longrightarrow>
         grid_lines (t_grid u) l = Some (blank_row (t_columns t) (Named Background)))))"
proof -
  note D = term_invD [OF assms]
  define g where "g = (if mode_contains ALT_SCREEN t then t_inactive_grid t else t_grid t)"
  define ig where "ig = (if mode_contains ALT_SCREEN t then t_grid t else t_inactive_grid t)"
  have inv: "grid_inv b g" "grid_inv b ig" and size: "g_lines g = t_lines t" "g_columns g = t_columns t"
    "g_lines ig = t_lines t" "g_columns ig = t_columns t"
    using D(1,3-5) by (simp_all add: g_def ig_def)
  obtain g' where g': "grid_reset g = Some g'" "grid_inv b g'" "grid_history g' = 0"
    "g_cursor g' = cursor_default" "g_lines g' = t_lines t" "g_columns g' = t_columns t"
    "b \<longrightarrow> (\<forall>l. 0 \<le> l \<and> l < int (t_lines t) \<longrightarrow>
       grid_lines g' l = Some (blank_row (t_columns t) (Named Background)))"
    using grid_reset_ok [OF inv(1)] size(1,2) by (auto elim!: okE)
  obtain ig' where ig': "grid_reset ig = Some ig'" "grid_inv b ig'" "g_lines ig' = t_lines t"
    "g_columns ig' = t_columns t"
    using grid_reset_ok [OF inv(2)] size(3,4) by (auto elim!: okE)
  let ?m = "flag_insert (t_mode t AND VI) mode_default"
  have m: "\<not> flag_contains ?m ALT_SCREEN" "flag_contains ?m VI \<longleftrightarrow> flag_contains (t_mode t) VI"
    by (simp_all add: contains_modes bit_flag_simps bit_modes mode_default_def)
  obtain u where u: "reset_state t = Some u" "t_grid u = g'" "t_inactive_grid u = ig'" "t_mode u = ?m"
    "region_start u = 0" "region_end u = int (t_lines t)" "t_tabs u = tabs_new (t_columns t)"
    "title_stack u = []" "t_damage u = (t_damage t)\<lparr>dmg_full := True\<rparr>" "t_colors u = t_colors t"
    using g'(1,5,6) ig'(1)
    by (cases "mode_contains ALT_SCREEN t")
      (auto simp: reset_state_def Let_def on_grid_def send_event_def mark_fully_damaged_def g_def ig_def)
  have "term_inv b u"
    using assms g' ig' u(2-10) D(15) by (simp add: term_inv_def damage_ok_def)
  then show ?thesis using u g' m by (simp add: term_step_def same_size_def mode_contains_def cursor_default_def)
qed

lemma reset_state_step: "term_inv b t \<Longrightarrow> ok (reset_state t) (term_step b t)"
  by (rule ok_mono [OF reset_state_ok]) auto

section \<open>Construction, options, viewport and damage\<close>

lemma term_new_ok:
  assumes "MIN_COLUMNS \<le> cols" "MIN_SCREEN_LINES \<le> n"
  shows "ok (term_new cfg cols n w) (\<lambda>t. term_inv True t \<and> t_columns t = cols \<and> t_lines t = n
    \<and> display_ok (t_grid t) \<and> t_point t = Point 0 0)"
proof -
  have pos: "0 < n" "0 < cols" using assms by (auto simp: MIN_COLUMNS_def MIN_SCREEN_LINES_def)
  obtain g where g: "grid_new n cols (scrolling_history cfg) = Some g" "grid_inv True g" "display_ok g"
    "g_lines g = n" "g_columns g = cols" "g_cursor g = cursor_default"
    using grid_new_ok [OF pos, of "scrolling_history cfg"] by (auto elim!: okE)
  obtain ig where ig: "grid_new n cols 0 = Some ig" "grid_inv True ig" "g_lines ig = n" "g_columns ig = cols"
    using grid_new_ok [OF pos, of 0] by (auto elim!: okE)
  show ?thesis using g ig assms pos
    by (simp add: term_new_def term_inv_def damage_ok_def damage_new_def undamaged_def colors_default_def
        cursor_default_def)
qed

lemma set_options_step:
  assumes "term_inv b t"
  shows "ok (set_options cfg t) (term_step b t)"
proof -
  note D = term_invD [OF assms]
  have upd: "ok (update_history n g) (\<lambda>h. grid_inv b h \<and> g_lines h = g_lines g \<and> g_columns h = g_columns g)"
    if "grid_inv b g" for n g
    by (rule ok_mono [OF update_history_ok [OF that]]) auto
  let ?t = "send_event (title_event (t_title t)) (t\<lparr>t_config := cfg\<rparr>)"
  have t: "term_inv b ?t" "same_size t ?t" using assms by (simp_all add: same_size_def)
  have "ok (update_history (scrolling_history cfg) (t_grid ?t))
      (\<lambda>g. grid_inv b g \<and> g_lines g = t_lines ?t \<and> g_columns g = t_columns ?t)"
    using upd [OF term_invD(1) [OF t(1)]] by simp
  from ok_step_trans [OF t(2) on_grid_step [where f = "update_history (scrolling_history cfg)", OF t(1) this]]
  have active: "ok (on_grid (update_history (scrolling_history cfg)) ?t) (term_step b t)" .
  have "term_step b t (?t\<lparr>t_inactive_grid := g\<rparr>)"
    if "grid_inv b g \<and> g_lines g = g_lines (t_inactive_grid ?t) \<and> g_columns g = g_columns (t_inactive_grid ?t)" for g
    using that term_inv_grid(2) [OF t(1), of g] term_invD(4,5) [OF t(1)] by (simp add: term_step_def same_size_def)
  then have inactive: "ok (update_history (scrolling_history cfg) (t_inactive_grid ?t) \<bind>
      (\<lambda>g. Some (?t\<lparr>t_inactive_grid := g\<rparr>))) (term_step b t)"
    by (intro ok_then [OF upd [OF term_invD(3) [OF t(1)]]]) (simp only: ok_Some)
  have "ok (if mode_contains ALT_SCREEN ?t then do {
        g \<leftarrow> update_history (scrolling_history cfg) (t_inactive_grid ?t);
        Some (?t\<lparr>t_inactive_grid := g\<rparr>)
      } else on_grid (update_history (scrolling_history cfg)) ?t) (term_step b t)"
    using inactive active by (simp split: if_split del: ok_bind)
  moreover have "t_config ?t = cfg" by (simp add: send_event_def)
  ultimately show ?thesis
    by (auto simp: set_options_def Let_def term_step_def same_size_def elim!: ok_mono)
qed

lemma vi_mode_recompute_selection_step [simp]:
  "term_inv b (vi_mode_recompute_selection t) = term_inv b t"
  "t_grid (vi_mode_recompute_selection t) = t_grid t"
  by (auto simp: vi_mode_recompute_selection_def split: option.splits)

lemma scroll_display_step:
  assumes "term_inv b t"
  shows "term_step b t (scroll_display sc t)" "display_ok (t_grid t) \<Longrightarrow> display_ok (t_grid (scroll_display sc t))"
proof -
  have size: "g_lines (grid_scroll_display sc g) = g_lines g" "g_columns (grid_scroll_display sc g) = g_columns g" for g
    by (cases sc; simp)+
  have grid: "t_grid (scroll_display sc t) = grid_scroll_display sc (t_grid t)"
    by (simp add: scroll_display_def Let_def)
  have "term_inv b (t\<lparr>t_grid := grid_scroll_display sc (t_grid t)\<rparr>)"
    using assms term_invD(1) [OF assms] size by (intro term_inv_grid) (simp_all add: scroll_display_ok)
  then show "term_step b t (scroll_display sc t)"
    using grid size by (simp add: term_step_def same_size_def) (simp add: scroll_display_def Let_def)
  show "display_ok (t_grid t) \<Longrightarrow> display_ok (t_grid (scroll_display sc t))"
    using grid scroll_display_ok(1) by simp
qed

lemma reset_damage_step:
  assumes "term_inv b t"
  shows "term_step b t (reset_damage t)"
  using assms
  by (auto simp: reset_damage_def damage_reset_def damage_reset_line_def undamaged_def term_step_def
      same_size_def term_inv_def damage_ok_def)

lemma take_damage_step:
  assumes "term_inv b t"
  shows "ok (take_damage t) (\<lambda>(d, u). term_step b t u \<and> last_cursor (t_damage u) = t_point t
    \<and> (d = Damage_Full \<longleftrightarrow> dmg_full (t_damage t) \<or> mode_contains INSERT t))"
proof -
  define u where "u = (if mode_contains INSERT t then mark_fully_damaged t else t)"
  define v where "v = u\<lparr>t_damage := (t_damage u)\<lparr>last_cursor := t_point u\<rparr>\<rparr>"
  note B = cursor_bounds [OF assms] and D = term_invD(12) [OF assms]
  have uv: "term_inv b v" "t_grid v = t_grid t" "t_grid u = t_grid t" "last_cursor (t_damage v) = t_point t"
    "dmg_full (t_damage v) \<longleftrightarrow> dmg_full (t_damage t) \<or> mode_contains INSERT t"
    "last_cursor (t_damage u) = last_cursor (t_damage t)"
    using assms B(1-3) by (auto simp: u_def v_def mark_fully_damaged_def term_inv_def damage_ok_def)
  let ?p = "last_cursor (t_damage t)"
  have l: "usize_of_i32 (line ?p) < t_lines t" using D by (simp add: damage_ok_def) linarith
  have old: "ok (damage_line (usize_of_i32 (line ?p)) (column ?p) (column ?p) v)
      (\<lambda>w. term_step b t w \<and> t_grid w = t_grid t \<and> last_cursor (t_damage w) = t_point t)"
    using uv l by (intro ok_mono [OF damage_line_step [OF uv(1)]]) (auto simp: term_step_def same_size_def)
  have new: "ok (damage_cursor w) (\<lambda>x. term_step b t x \<and> last_cursor (t_damage x) = t_point t)"
    if "term_step b t w \<and> t_grid w = t_grid t \<and> last_cursor (t_damage w) = t_point t" for w
    using that by (intro ok_mono [OF damage_cursor_step [OF term_stepD(1)]]) (auto intro: term_step_chain)
  have same: "term_step b t v" using uv by (simp add: term_step_def same_size_def)
  have "ok (if last_cursor (t_damage v) \<noteq> ?p then do {
        d \<leftarrow> damage_point (usize_of_i32 (line ?p)) (column ?p) (t_damage v);
        Some (v\<lparr>t_damage := d\<rparr>)
      } else Some v) (\<lambda>w. term_step b t w \<and> t_grid w = t_grid t \<and> last_cursor (t_damage w) = t_point t)"
    using old same uv by (simp add: damage_line_def damage_point_def)
  then have partial: "ok ((if last_cursor (t_damage v) \<noteq> ?p then do {
        d \<leftarrow> damage_point (usize_of_i32 (line ?p)) (column ?p) (t_damage v);
        Some (v\<lparr>t_damage := d\<rparr>)
      } else Some v) \<bind> (\<lambda>w. damage_cursor w \<bind> (\<lambda>x.
        Some (damage_iter_new (dmg_lines (t_damage x)) (display_offset (t_grid x)), x))))
    (\<lambda>(d, u). term_step b t u \<and> last_cursor (t_damage u) = t_point t \<and> d \<noteq> Damage_Full)"
    by (rule ok_then) (auto intro!: ok_then [OF new] simp: damage_iter_new_def simp del: ok_bind)
  have "take_damage t = (if dmg_full (t_damage v) then Some (Damage_Full, v)
      else (if last_cursor (t_damage v) \<noteq> ?p then do {
        d \<leftarrow> damage_point (usize_of_i32 (line ?p)) (column ?p) (t_damage v);
        Some (v\<lparr>t_damage := d\<rparr>)
      } else Some v) \<bind> (\<lambda>w. damage_cursor w \<bind> (\<lambda>x.
        Some (damage_iter_new (dmg_lines (t_damage x)) (display_offset (t_grid x)), x))))"
    using uv(6) by (simp add: take_damage_def Let_def flip: u_def v_def) (simp add: u_def v_def)
  then show ?thesis
    using partial same uv(4,5) by (cases "dmg_full (t_damage v)") (auto elim!: ok_mono simp del: ok_bind)
qed

end
