(* ===== verification/Term_Handler.thy ===== *)
theory Term_Handler
  imports Term_Edit
begin

text \<open>
  The parser drives the terminal through the \<^verbatim>\<open>Handler\<close> trait, the window through a few methods of
  \<^verbatim>\<open>Term\<close>. Both are the transitions of a state machine here: \<open>handler_op\<close> lists the calls,
  \<open>exec\<close> runs one, \<open>reach\<close> is the set of states that a new terminal gets to. Every call that
  meets \<open>op_ok\<close> succeeds in every reachable state.
\<close>

section \<open>Tab stops\<close>

lemma next_tab_stop_ok:
  assumes "col < cols" "length tabs = cols"
  shows "ok (next_tab_stop tabs cols col) (\<lambda>r. col \<le> r \<and> r < cols \<and> (r = cols - 1 \<or> tabs ! r)
    \<and> (\<forall>i. col < i \<and> i < r \<longrightarrow> \<not> tabs ! i) \<and> (col + 1 < cols \<longrightarrow> col < r))"
  using assms
proof (induction tabs cols col rule: next_tab_stop.induct)
  case (1 tabs cols col)
  show ?case
  proof (cases "col + 1 = cols")
    case True
    then show ?thesis by (subst next_tab_stop.simps) auto
  next
    case False
    then have get: "vec_get tabs (col + 1) = Some (tabs ! (col + 1))" and lt: "col + 1 < cols"
      using "1.prems" by (auto simp: vec_get_def)
    show ?thesis
    proof (cases "tabs ! (col + 1)")
      case True
      then show ?thesis using get lt by (subst next_tab_stop.simps) auto
    next
      case notab: False
      have "next_tab_stop tabs cols col = next_tab_stop tabs cols (col + 1)"
        using get False notab by (subst next_tab_stop.simps) simp
      moreover have skip: "\<not> tabs ! i" if "col < i" "\<forall>i. col + 1 < i \<and> i < r \<longrightarrow> \<not> tabs ! i" "i < r" for i r
        using that notab by (cases "i = col + 1") auto
      have "ok (next_tab_stop tabs cols (col + 1)) (\<lambda>r. col \<le> r \<and> r < cols \<and> (r = cols - 1 \<or> tabs ! r)
          \<and> (\<forall>i. col < i \<and> i < r \<longrightarrow> \<not> tabs ! i) \<and> (col + 1 < cols \<longrightarrow> col < r))"
      proof (rule ok_mono [OF "1.IH" [OF False get notab lt "1.prems"(2)]], elim conjE)
        fix r assume r: "col + 1 \<le> r" "r < cols" "r = cols - 1 \<or> tabs ! r"
          "\<forall>i. col + 1 < i \<and> i < r \<longrightarrow> \<not> tabs ! i"
        then show "col \<le> r \<and> r < cols \<and> (r = cols - 1 \<or> tabs ! r)
          \<and> (\<forall>i. col < i \<and> i < r \<longrightarrow> \<not> tabs ! i) \<and> (col + 1 < cols \<longrightarrow> col < r)"
          using skip [OF _ r(4)] by simp
      qed
      ultimately show ?thesis by (simp only:)
    qed
  qed
qed

lemma put_tabs_step:
  assumes "term_inv b t"
  shows "ok (put_tabs E n t) (term_step b t)"
  using assms
proof (induction n arbitrary: t)
  case 0
  then show ?case by (simp add: term_step_refl)
next
  case (Suc n)
  let ?f = "\<lambda>x. if cell_c x = 32 then x\<lparr>cell_c := charset_map E (cur_charsets (t_cursor t) (active_charset t)) 9\<rparr> else x"
  have "ok (on_grid (cursor_cell_mut ?f) t \<bind> (\<lambda>u. next_tab_stop (t_tabs u) (t_columns u) (column (t_point u)) \<bind>
      (\<lambda>col. put_tabs E n (set_column col u)))) (term_step b t)"
  proof (rule ok_then [OF edit_cursor_cell [OF Suc.prems]], elim conjE)
    fix u assume u: "edited b t u"
    note U = editedD [OF u]
    show "ok (next_tab_stop (t_tabs u) (t_columns u) (column (t_point u)) \<bind>
        (\<lambda>col. put_tabs E n (set_column col u))) (term_step b t)"
    proof (rule ok_then [OF next_tab_stop_ok [OF cursor_bounds(3) [OF U(1)] term_invD(7) [OF U(1)]]], elim conjE)
      fix col assume "col < t_columns u"
      then have v: "term_step b u (set_column col u)" using U(1) by (intro set_column_step)
      from ok_step_after [OF term_step_chain [OF U(2) v] Suc.IH [OF term_stepD(1) [OF v]]]
      show "ok (put_tabs E n (set_column col u)) (term_step b t)" .
    qed
  qed
  then show ?case using cursor_bounds(3) [OF Suc.prems] by (simp add: Let_def del: ok_bind)
qed

lemma put_tab_step: "term_inv b t \<Longrightarrow> ok (put_tab E n t) (term_step b t)"
  using put_tabs_step [of b t E "unat n"] ok_mono [OF wrapline_ok [of b t]] by (simp add: put_tab_def)

lemma term_inv_tabs:
  "term_inv b t \<Longrightarrow> length tabs = t_columns t \<Longrightarrow> term_step b t (t\<lparr>t_tabs := tabs\<rparr>)"
  by (simp add: term_step_def same_size_def term_inv_def)

lemma tabstop_steps:
  assumes "term_inv b t"
  shows "ok (set_horizontal_tabstop t) (term_step b t)" "ok (clear_tabs m t) (term_step b t)"
  using assms term_inv_tabs [OF assms] term_invD(7) [OF assms] cursor_bounds(3) [OF assms]
  by (simp_all add: set_horizontal_tabstop_def) (cases m, simp_all add: tabs_clear_all_def)

lemma tab_before_ok:
  "col \<le> length tabs \<Longrightarrow> ok (tab_before tabs col) (\<lambda>r. case r of
     None \<Rightarrow> \<forall>i < col. \<not> tabs ! i | Some i \<Rightarrow> i < col \<and> tabs ! i \<and> (\<forall>j. i < j \<and> j < col \<longrightarrow> \<not> tabs ! j))"
proof (induction col)
  case 0
  then show ?case by simp
next
  case (Suc col)
  then show ?case
    by (cases "tabs ! col") (auto elim!: ok_mono split: option.splits simp: less_Suc_eq vec_get_def)
qed

lemma backward_tabs_ok: "col < length tabs \<Longrightarrow> ok (backward_tabs tabs n col) (\<lambda>r. r \<le> col)"
proof (induction n arbitrary: col)
  case 0
  then show ?case by simp
next
  case (Suc n)
  have "ok (tab_before tabs col \<bind> (\<lambda>r. backward_tabs tabs n (case r of None \<Rightarrow> col | Some i \<Rightarrow> i))) (\<lambda>r. r \<le> col)"
  proof (rule ok_then [OF tab_before_ok])
    fix r assume "case r of None \<Rightarrow> \<forall>i < col. \<not> tabs ! i
      | Some i \<Rightarrow> i < col \<and> tabs ! i \<and> (\<forall>j. i < j \<and> j < col \<longrightarrow> \<not> tabs ! j)"
    then have "(case r of None \<Rightarrow> col | Some i \<Rightarrow> i) \<le> col" by (cases r) auto
    with Suc.IH [of "case r of None \<Rightarrow> col | Some i \<Rightarrow> i"] Suc.prems
    show "ok (backward_tabs tabs n (case r of None \<Rightarrow> col | Some i \<Rightarrow> i)) (\<lambda>r. r \<le> col)"
      by (auto elim!: ok_mono)
  qed (use Suc.prems in simp)
  then show ?case by (simp del: ok_bind)
qed

lemma tab_after_ok:
  "col < cols \<Longrightarrow> length tabs = cols \<Longrightarrow> ok (tab_after tabs cols col) (\<lambda>r. col \<le> r \<and> r < cols)"
proof (induction tabs cols col rule: tab_after.induct)
  case (1 tabs cols col)
  show ?case
  proof (cases "col + 1 < cols \<and> \<not> tabs ! (col + 1)")
    case True
    then have get: "vec_get tabs (col + 1) = Some False" using "1.prems" by (simp add: vec_get_def)
    have "ok (tab_after tabs cols (col + 1)) (\<lambda>r. col + 1 \<le> r \<and> r < cols)"
      using "1.IH" [OF _ get] True "1.prems" by simp
    then show ?thesis using True get by (subst tab_after.simps) (auto elim!: ok_mono)
  next
    case False
    then show ?thesis using "1.prems" by (subst tab_after.simps) (auto simp: vec_get_def)
  qed
qed

lemma forward_tabs_ok:
  "col < cols \<Longrightarrow> length tabs = cols \<Longrightarrow> ok (forward_tabs tabs cols n col) (\<lambda>r. col \<le> r \<and> r < cols)"
proof (induction n arbitrary: col)
  case 0
  then show ?case by simp
next
  case (Suc n)
  have "ok (tab_after tabs cols col \<bind> forward_tabs tabs cols n) (\<lambda>r. col \<le> r \<and> r < cols)"
    by (rule ok_then [OF tab_after_ok [OF Suc.prems]])
      (use Suc.IH Suc.prems(2) in \<open>fastforce elim!: ok_mono\<close>)
  then show ?case using Suc.prems(1) by (auto simp: Suc_le_eq)
qed

lemma tab_move_steps:
  assumes "term_inv b t"
  shows "ok (move_backward_tabs n t) (term_step b t)" "ok (move_forward_tabs n t) (term_step b t)"
proof -
  note B = cursor_bounds [OF assms] and T = term_invD(7) [OF assms]
  have fin: "ok (damage_line (usize_of_i32 (line (t_point (set_column c t)))) x y (set_column c t)) (term_step b t)"
    if "c < t_columns t" for c x y
  proof -
    have v: "term_step b t (set_column c t)" using assms that by (rule set_column_step)
    have "usize_of_i32 (line (t_point (set_column c t))) < t_lines (set_column c t)"
      using B(4) term_stepD(3) [OF v] by simp
    from damage_line_step [OF term_stepD(1) [OF v] this, of x y] term_step_chain [OF v]
    show ?thesis by (auto elim!: ok_mono)
  qed
  show "ok (move_backward_tabs n t) (term_step b t)" unfolding move_backward_tabs_def Let_def
  proof (rule ok_then [OF backward_tabs_ok])
    fix c assume "c \<le> column (t_point t)"
    then show "ok (damage_line (usize_of_i32 (line (t_point (set_column c t)))) (column (t_point (set_column c t)))
        (column (t_point t)) (set_column c t)) (term_step b t)" using B(3) by (intro fin) simp
  qed (use B(3) T in simp)
  show "ok (move_forward_tabs n t) (term_step b t)" unfolding move_forward_tabs_def Let_def
    by (rule ok_then [OF forward_tabs_ok [OF B(3) T]], rule fin) simp
qed

section \<open>Operations on the other fields\<close>

lemma total_steps:
  assumes "term_inv b t"
  shows "term_step b t (send_event ev t)" "term_step b t (mode_insert m t)" "term_step b t (mode_remove m t)"
    "term_step b t (set_keyboard_mode m app t)" "term_step b t (pty_write s t)"
    "term_step b t (identify_terminal i t)" "term_step b t (device_status n t)"
    "term_step b t (text_area_size_chars t)" "term_step b t (text_area_size_pixels t)"
    "term_step b t (report_keyboard_mode E t)" "term_step b t (pop_keyboard_modes w t)"
    "term_step b t (handler_set_keyboard_mode k app t)" "term_step b t (set_title ti t)"
    "term_step b t (dynamic_color_sequence p n q t)" "term_step b t (clipboard_store E c bs t)"
    "term_step b t (clipboard_load c q t)" "term_step b t (set_blinking v t)"
    "term_step b t (mouse_protocol m t)"
    "term_step b t (report_mode am n t)" "term_step b t (set_keypad_application_mode t)"
    "term_step b t (unset_keypad_application_mode t)" "term_step b t (set_active_charset ci t)"
    "term_step b t (set_cursor_style cs t)" "term_step b t (set_cursor_shape sh t)"
    "term_step b t (bell t)" "term_step b t (substitute t)" "term_step b t (term_exit t)"
    "term_step b t (toggle_vi_mode t)"
  using assms
  by (simp_all add: term_step_def same_size_def pty_write_def identify_terminal_def
      text_area_size_chars_def text_area_size_pixels_def report_keyboard_mode_def pop_keyboard_modes_def
      handler_set_keyboard_mode_def set_title_def dynamic_color_sequence_def clipboard_store_def
      clipboard_load_def set_blinking_def mouse_protocol_def report_mode_def
      set_keypad_application_mode_def unset_keypad_application_mode_def set_active_charset_def
      set_cursor_style_def set_cursor_shape_def bell_def substitute_def term_exit_def toggle_vi_mode_def
      Let_def split: option.splits)

lemma mode_steps:
  assumes "term_inv b t"
  shows "term_step b t (set_mode am t)" "term_step b t (unset_mode am t)"
proof -
  have "term_step b t (set_mode am t) \<and> term_step b t (unset_mode am t)"
  proof (cases am)
    case (Mode_Named nm)
    then show ?thesis using assms by (cases nm) (simp_all add: term_step_def same_size_def)
  next
    case Mode_Unknown
    then show ?thesis using term_step_refl [OF assms] by simp
  qed
  then show "term_step b t (set_mode am t)" "term_step b t (unset_mode am t)" by auto
qed

lemma cursor_field_steps:
  assumes "term_inv b t"
  shows "term_step b t (terminal_attribute a t)" "term_step b t (configure_charset ci cs t)"
    "term_step b t (set_hyperlink h t)"
proof -
  show "term_step b t (terminal_attribute a t)"
    unfolding terminal_attribute_def by (rule set_template_step [OF assms])
  show "term_step b t (configure_charset ci cs t)"
    unfolding configure_charset_def using cursor_bounds(5) [OF assms] by (intro set_cursor_step assms) simp
  have "term_inv b (t\<lparr>hyperlink_id_suffix := w\<rparr>)" for w using assms by simp
  from set_template_step [OF this] set_template_step [OF assms]
  show "term_step b t (set_hyperlink h t)"
    by (auto simp: set_hyperlink_def term_step_def same_size_def split: option.splits prod.splits)
qed

lemma report_private_mode_step:
  assumes "term_inv b t"
  shows "term_step b t (report_private_mode m n t)"
proof (cases m)
  case (Private_Named nm)
  then show ?thesis using assms
    by (cases nm) (simp_all add: report_private_mode_def pty_write_def term_step_def same_size_def Let_def)
next
  case Private_Unknown
  then show ?thesis using assms
    by (simp add: report_private_mode_def pty_write_def term_step_def same_size_def)
qed

lemma private_mode_steps:
  assumes "term_inv b t"
  shows "ok (set_private_mode m t) (term_step b t)" "ok (unset_private_mode m t) (term_step b t)"
proof -
  have mode: "ok (goto 0 0 (mode_insert ORIGIN t)) (term_step b t)"
    by (rule ok_step_after [OF total_steps(2) [OF assms] goto_step]) (use assms in simp)
  have twice: "term_step b t (mode_insert f (mode_remove g t))" for f g
    using assms by (simp add: term_step_def same_size_def)
  have event: "term_step b t (send_event ev (mode_remove g t))" for ev g
    using assms by (simp add: term_step_def same_size_def)
  note rules = total_steps [OF assms] swap_alt_step [OF assms] deccolm_step [OF assms] mode twice event
    term_step_refl [OF assms]
  show "ok (set_private_mode m t) (term_step b t)" "ok (unset_private_mode m t) (term_step b t)"
    using rules by (cases m; simp split: named_private_mode.split)+
qed

lemma push_title_ok:
  assumes "term_inv b t"
  shows "ok (push_title t) (\<lambda>u. term_step b t u \<and> last (title_stack u) = t_title t)"
  using term_invD(14) [OF assms] assms
  by (auto simp: push_title_def vec_remove_first_def term_step_def same_size_def term_inv_def
      TITLE_STACK_MAX_DEPTH_def split: list.splits)

lemma pop_title_step: "term_inv b t \<Longrightarrow> term_step b t (pop_title t)"
  by (auto simp: pop_title_def set_title_def send_event_def term_step_def same_size_def term_inv_def)

lemma push_keyboard_mode_step:
  assumes "term_inv b t"
    "kitty_keyboard (t_config t) \<longrightarrow>
       length (keyboard_mode_stack t) < KEYBOARD_MODE_STACK_MAX_DEPTH \<or> title_stack t \<noteq> []"
  shows "ok (push_keyboard_mode k t) (term_step b t)"
  using assms
  by (auto simp: push_keyboard_mode_def vec_remove_first_def set_keyboard_mode_def term_step_def
      same_size_def term_inv_def split: list.splits)

lemma color_steps:
  assumes "term_inv b t" "i < COLOR_COUNT"
  shows "ok (set_color E i col t) (term_step b t)" "ok (reset_color E i t) (term_step b t)"
proof -
  have "term_step b t (u\<lparr>t_colors := (t_colors u)[i := v]\<rparr>)" if "u = t \<or> u = mark_fully_damaged t" for u v
    using that assms by (auto simp: mark_fully_damaged_def term_step_def same_size_def term_inv_def damage_ok_def)
  then show "ok (set_color E i col t) (term_step b t)" "ok (reset_color E i t) (term_step b t)"
    using assms(2) term_invD(13) [OF assms(1)]
    by (auto simp: set_color_def reset_color_def mark_fully_damaged_def)
qed

lemma vi_steps:
  assumes "term_inv b t"
  shows "term_step b t (scroll_to_point p t)" "term_step b t (vi_goto_point p t)"
proof -
  show step: "term_step b t (scroll_to_point p t)"
    using scroll_display_step(1) [OF assms] term_step_refl [OF assms] by (simp add: scroll_to_point_def Let_def)
  then show "term_step b t (vi_goto_point p t)"
    by (simp add: vi_goto_point_def term_step_def same_size_def)
qed

section \<open>The state machine\<close>

datatype cursor_op =
    Goto int nat
  | Goto_Line int
  | Goto_Col nat
  | Move_Up nat
  | Move_Down nat
  | Move_Forward nat
  | Move_Backward nat
  | Move_Down_And_Cr nat
  | Move_Up_And_Cr nat
  | Backspace
  | Carriage_Return
  | Linefeed
  | Newline
  | Reverse_Index
  | Save_Cursor
  | Restore_Cursor

datatype edit_op =
    Input uchar
  | Decaln
  | Insert_Blank nat
  | Erase_Chars nat
  | Delete_Chars nat
  | Clear_Line line_clear_mode
  | Clear_Screen clear_mode
  | Insert_Blank_Lines nat
  | Delete_Lines nat
  | Scroll_Up nat
  | Scroll_Down nat
  | Set_Scrolling_Region nat "nat option"
  | Reset_State

datatype tab_op =
    Put_Tab "16 word"
  | Set_Horizontal_Tabstop
  | Move_Backward_Tabs "16 word"
  | Move_Forward_Tabs "16 word"
  | Clear_Tabs tab_clear_mode

datatype mode_op =
    Set_Private_Mode private_mode
  | Unset_Private_Mode private_mode
  | Set_Mode ansi_mode
  | Unset_Mode ansi_mode
  | Set_Keypad_Mode
  | Unset_Keypad_Mode
  | Push_Keyboard_Mode keyboard_modes
  | Pop_Keyboard_Modes "16 word"
  | Set_Keyboard_Mode keyboard_modes apply_behavior
  | Configure_Charset charset_index standard_charset
  | Set_Active_Charset charset_index
  | Set_Hyperlink "(string option \<times> string) option"
  | Terminal_Attribute attr
  | Set_Cursor_Style "cursor_style option"
  | Set_Cursor_Shape cursor_shape

datatype report_op =
    Identify_Terminal "uchar option"
  | Report_Keyboard_Mode
  | Device_Status nat
  | Report_Private_Mode private_mode nat
  | Report_Mode ansi_mode nat
  | Text_Area_Size_Pixels
  | Text_Area_Size_Chars
  | Ring_Bell
  | Substitute
  | Dynamic_Color_Sequence string nat string
  | Clipboard_Store "8 word" "8 word list"
  | Clipboard_Load "8 word" string

datatype window_op =
    Set_Color nat rgb
  | Reset_Color nat
  | Set_Title "ustring option"
  | Push_Title
  | Pop_Title
  | Scroll_Display scroll
  | Set_Options config
  | Toggle_Vi_Mode
  | Vi_Goto_Point point
  | Take_Damage
  | Reset_Damage
  | Term_Exit

datatype handler_op =
    On_Cursor cursor_op
  | On_Text edit_op
  | On_Tabs tab_op
  | On_Modes mode_op
  | On_Reports report_op
  | On_Window window_op

fun exec_cursor :: "env \<Rightarrow> cursor_op \<Rightarrow> terminal \<Rightarrow> terminal option" where
  "exec_cursor E (Goto l col) t = goto l col t"
| "exec_cursor E (Goto_Line l) t = goto_line l t"
| "exec_cursor E (Goto_Col col) t = goto_col col t"
| "exec_cursor E (Move_Up n) t = move_up n t"
| "exec_cursor E (Move_Down n) t = move_down n t"
| "exec_cursor E (Move_Forward n) t = move_forward n t"
| "exec_cursor E (Move_Backward n) t = move_backward n t"
| "exec_cursor E (Move_Down_And_Cr n) t = move_down_and_cr n t"
| "exec_cursor E (Move_Up_And_Cr n) t = move_up_and_cr n t"
| "exec_cursor E Backspace t = backspace t"
| "exec_cursor E Carriage_Return t = carriage_return t"
| "exec_cursor E Linefeed t = linefeed t"
| "exec_cursor E Newline t = newline t"
| "exec_cursor E Reverse_Index t = reverse_index t"
| "exec_cursor E Save_Cursor t = Some (save_cursor_position t)"
| "exec_cursor E Restore_Cursor t = restore_cursor_position t"

fun exec_edit :: "env \<Rightarrow> edit_op \<Rightarrow> terminal \<Rightarrow> terminal option" where
  "exec_edit E (Input ch) t = input E ch t"
| "exec_edit E Decaln t = decaln t"
| "exec_edit E (Insert_Blank n) t = insert_blank n t"
| "exec_edit E (Erase_Chars n) t = erase_chars n t"
| "exec_edit E (Delete_Chars n) t = delete_chars n t"
| "exec_edit E (Clear_Line m) t = clear_line m t"
| "exec_edit E (Clear_Screen m) t = clear_screen m t"
| "exec_edit E (Insert_Blank_Lines n) t = insert_blank_lines n t"
| "exec_edit E (Delete_Lines n) t = delete_lines n t"
| "exec_edit E (Scroll_Up n) t = scroll_up n t"
| "exec_edit E (Scroll_Down n) t = scroll_down n t"
| "exec_edit E (Set_Scrolling_Region u l) t = set_scrolling_region u l t"
| "exec_edit E Reset_State t = reset_state t"

fun exec_tab :: "env \<Rightarrow> tab_op \<Rightarrow> terminal \<Rightarrow> terminal option" where
  "exec_tab E (Put_Tab n) t = put_tab E n t"
| "exec_tab E Set_Horizontal_Tabstop t = set_horizontal_tabstop t"
| "exec_tab E (Move_Backward_Tabs n) t = move_backward_tabs n t"
| "exec_tab E (Move_Forward_Tabs n) t = move_forward_tabs n t"
| "exec_tab E (Clear_Tabs m) t = clear_tabs m t"

fun exec_mode :: "env \<Rightarrow> mode_op \<Rightarrow> terminal \<Rightarrow> terminal option" where
  "exec_mode E (Set_Private_Mode m) t = set_private_mode m t"
| "exec_mode E (Unset_Private_Mode m) t = unset_private_mode m t"
| "exec_mode E (Set_Mode m) t = Some (set_mode m t)"
| "exec_mode E (Unset_Mode m) t = Some (unset_mode m t)"
| "exec_mode E Set_Keypad_Mode t = Some (set_keypad_application_mode t)"
| "exec_mode E Unset_Keypad_Mode t = Some (unset_keypad_application_mode t)"
| "exec_mode E (Push_Keyboard_Mode k) t = push_keyboard_mode k t"
| "exec_mode E (Pop_Keyboard_Modes n) t = Some (pop_keyboard_modes n t)"
| "exec_mode E (Set_Keyboard_Mode k app) t = Some (handler_set_keyboard_mode k app t)"
| "exec_mode E (Configure_Charset i cs) t = Some (configure_charset i cs t)"
| "exec_mode E (Set_Active_Charset i) t = Some (set_active_charset i t)"
| "exec_mode E (Set_Hyperlink h) t = Some (set_hyperlink h t)"
| "exec_mode E (Terminal_Attribute a) t = Some (terminal_attribute a t)"
| "exec_mode E (Set_Cursor_Style st) t = Some (set_cursor_style st t)"
| "exec_mode E (Set_Cursor_Shape sh) t = Some (set_cursor_shape sh t)"

fun exec_report :: "env \<Rightarrow> report_op \<Rightarrow> terminal \<Rightarrow> terminal option" where
  "exec_report E (Identify_Terminal i) t = Some (identify_terminal i t)"
| "exec_report E Report_Keyboard_Mode t = Some (report_keyboard_mode E t)"
| "exec_report E (Device_Status n) t = Some (device_status n t)"
| "exec_report E (Report_Private_Mode m n) t = Some (report_private_mode m n t)"
| "exec_report E (Report_Mode m n) t = Some (report_mode m n t)"
| "exec_report E Text_Area_Size_Pixels t = Some (text_area_size_pixels t)"
| "exec_report E Text_Area_Size_Chars t = Some (text_area_size_chars t)"
| "exec_report E Ring_Bell t = Some (bell t)"
| "exec_report E Substitute t = Some (substitute t)"
| "exec_report E (Dynamic_Color_Sequence p i q) t = Some (dynamic_color_sequence p i q t)"
| "exec_report E (Clipboard_Store c bs) t = Some (clipboard_store E c bs t)"
| "exec_report E (Clipboard_Load c q) t = Some (clipboard_load c q t)"

fun exec_window :: "env \<Rightarrow> window_op \<Rightarrow> terminal \<Rightarrow> terminal option" where
  "exec_window E (Set_Color i col) t = set_color E i col t"
| "exec_window E (Reset_Color i) t = reset_color E i t"
| "exec_window E (Set_Title ti) t = Some (set_title ti t)"
| "exec_window E Push_Title t = push_title t"
| "exec_window E Pop_Title t = Some (pop_title t)"
| "exec_window E (Scroll_Display sc) t = Some (scroll_display sc t)"
| "exec_window E (Set_Options cfg) t = set_options cfg t"
| "exec_window E Toggle_Vi_Mode t = Some (toggle_vi_mode t)"
| "exec_window E (Vi_Goto_Point p) t = Some (vi_goto_point p t)"
| "exec_window E Take_Damage t = map_option snd (take_damage t)"
| "exec_window E Reset_Damage t = Some (reset_damage t)"
| "exec_window E Term_Exit t = Some (term_exit t)"

fun exec :: "env \<Rightarrow> handler_op \<Rightarrow> terminal \<Rightarrow> terminal option" where
  "exec E (On_Cursor op) t = exec_cursor E op t"
| "exec E (On_Text op) t = exec_edit E op t"
| "exec E (On_Tabs op) t = exec_tab E op t"
| "exec E (On_Modes op) t = exec_mode E op t"
| "exec E (On_Reports op) t = exec_report E op t"
| "exec E (On_Window op) t = exec_window E op t"

text \<open>
  What the callers have to provide: the parser numbers lines of a scroll region from 1 and its colour
  indices are below the number of colours; the stack of keyboard modes is not full, or
  there is a title whose removal makes up for it.
\<close>

fun op_ok :: "handler_op \<Rightarrow> terminal \<Rightarrow> bool" where
  "op_ok (On_Text op) t \<longleftrightarrow> (case op of Set_Scrolling_Region u l \<Rightarrow> 1 \<le> u | _ \<Rightarrow> True)"
| "op_ok (On_Window op) t \<longleftrightarrow>
     (case op of Set_Color i col \<Rightarrow> i < COLOR_COUNT | Reset_Color i \<Rightarrow> i < COLOR_COUNT | _ \<Rightarrow> True)"
| "op_ok (On_Modes op) t \<longleftrightarrow>
     (case op of
        Push_Keyboard_Mode k \<Rightarrow> kitty_keyboard (t_config t) \<longrightarrow>
          length (keyboard_mode_stack t) < KEYBOARD_MODE_STACK_MAX_DEPTH \<or> title_stack t \<noteq> []
      | _ \<Rightarrow> True)"
| "op_ok op t \<longleftrightarrow> True"

lemma ok_weaken: "ok m (\<lambda>u. term_step b t u \<and> Q u) \<Longrightarrow> ok m (term_step b t)"
  by (auto elim: ok_mono)

lemma exec_cursor_step: "term_inv b t \<Longrightarrow> ok (exec_cursor E op t) (term_step b t)"
  by (cases op) (simp_all add: goto_step move_step linefeed_step newline_step reverse_index_step
      ok_weaken [OF move_forward_ok] ok_weaken [OF move_backward_ok] ok_weaken [OF backspace_step]
      ok_weaken [OF carriage_return_ok] ok_weaken [OF restore_cursor_position_step] save_cursor_position_step)

lemma exec_edit_step:
  "term_inv b t \<Longrightarrow> op_ok (On_Text op) t \<Longrightarrow> ok (exec_edit E op t) (term_step b t)"
  by (cases op) (simp_all add: input_step decaln_step ok_weaken [OF insert_blank_ok]
      ok_weaken [OF erase_chars_ok] delete_chars_step clear_line_step clear_screen_step
      insert_blank_lines_step delete_lines_step scroll_step set_scrolling_region_step reset_state_step)

lemma exec_tab_step: "term_inv b t \<Longrightarrow> ok (exec_tab E op t) (term_step b t)"
  by (cases op) (simp_all add: put_tab_step tabstop_steps tab_move_steps)

lemma exec_mode_step:
  "term_inv b t \<Longrightarrow> op_ok (On_Modes op) t \<Longrightarrow> ok (exec_mode E op t) (term_step b t)"
  by (cases op) (simp_all add: private_mode_steps mode_steps total_steps push_keyboard_mode_step
      cursor_field_steps)

lemma exec_report_step: "term_inv b t \<Longrightarrow> ok (exec_report E op t) (term_step b t)"
  by (cases op) (simp_all add: total_steps report_private_mode_step term_step_refl)

lemma exec_window_step:
  assumes "term_inv b t" "op_ok (On_Window op) t"
  shows "ok (exec_window E op t) (term_step b t)"
proof -
  have damage: "ok (map_option snd (take_damage t)) (term_step b t)"
    using take_damage_step [OF assms(1)] by (auto elim!: okE)
  show ?thesis using assms damage
    by (cases op) (simp_all add: color_steps total_steps ok_weaken [OF push_title_ok] pop_title_step
        scroll_display_step(1) set_options_step vi_steps reset_damage_step)
qed

lemma exec_step: "term_inv b t \<Longrightarrow> op_ok op t \<Longrightarrow> ok (exec E op t) (term_step b t)"
  by (cases op) (simp_all add: exec_cursor_step exec_edit_step exec_tab_step exec_mode_step
      exec_report_step exec_window_step del: op_ok.simps)

inductive reach :: "env \<Rightarrow> config \<Rightarrow> nat \<Rightarrow> nat \<Rightarrow> terminal \<Rightarrow> bool"
  for E :: env and cfg :: config and cols :: nat and lines :: nat where
  start: "term_new cfg cols lines w = Some t \<Longrightarrow> reach E cfg cols lines t"
| call: "reach E cfg cols lines t \<Longrightarrow> op_ok op t \<Longrightarrow> exec E op t = Some u \<Longrightarrow> reach E cfg cols lines u"

inductive_cases reach_cases: "reach E cfg cols lines t"

lemma reach_inv:
  assumes "reach E cfg cols lines t" "MIN_COLUMNS \<le> cols" "MIN_SCREEN_LINES \<le> lines"
  shows "term_inv True t \<and> t_columns t = cols \<and> t_lines t = lines"
  using assms(1)
proof (induction rule: reach.induct)
  case (start w t)
  then show ?case using term_new_ok [OF assms(2,3), of cfg w] by simp
next
  case (call t op u)
  then have "term_step True t u" using exec_step [of True t op E] by simp
  then show ?case using call.IH by (simp add: term_step_def same_size_def)
qed

end
