(* ===== verification/Term_Frame.thy ===== *)
theory Term_Frame
  imports Term_Handler
begin

text \<open>
  What the operations of the terminal leave alone. \<open>screen_observer\<close> is the contract of a part of the
  terminal's state that has nothing to do with the active grid: it does not depend on the grid, the damage, the
  selection, the vi cursor, the scroll region and the event log. Within the locale every operation on the screen is
  shown to keep such a part; the interpretations at the end give the facts for the modes, the inactive
  grid, the title, the stacks and the configuration at once.
\<close>

unbundle bit_operations_syntax

named_theorems kept

locale screen_observer =
  fixes obs :: "terminal \<Rightarrow> 'a"
  assumes obs_grid [simp]: "obs (t\<lparr>t_grid := g\<rparr>) = obs t"
    and obs_damage [simp]: "obs (t\<lparr>t_damage := d\<rparr>) = obs t"
    and obs_selection [simp]: "obs (t\<lparr>t_selection := sel\<rparr>) = obs t"
    and obs_vi [simp]: "obs (t\<lparr>vi_mode_cursor := p\<rparr>) = obs t"
    and obs_events [simp]: "obs (t\<lparr>t_events := evs\<rparr>) = obs t"
    and obs_region [simp]: "obs (t\<lparr>region_start := s\<rparr>) = obs t" "obs (t\<lparr>region_end := e\<rparr>) = obs t"
begin

lemma obs_setters [simp]:
  "obs (set_cursor c t) = obs t" "obs (set_point p t) = obs t" "obs (set_needs_wrap w t) = obs t"
  "obs (set_template f t) = obs t" "obs (set_column col t) = obs t" "obs (send_event ev t) = obs t"
  "obs (mark_fully_damaged t) = obs t" "obs (set_vi_line l t) = obs t" "obs (filter_selection lo hi t) = obs t"
  "obs (save_cursor_position t) = obs t" "obs (pty_write str t) = obs t" "obs (reset_damage t) = obs t"
  "obs (advance_cursor cols t) = obs t"
  by (simp_all add: set_cursor_def set_point_def set_needs_wrap_def set_template_def set_column_def send_event_def
      mark_fully_damaged_def set_vi_line_def filter_selection_def save_cursor_position_def pty_write_def
      reset_damage_def advance_cursor_def)

lemma on_grid_kept [kept]: "on_grid f t = Some u \<Longrightarrow> obs u = obs t"
  by (auto simp: on_grid_def split: bind_splits)

lemma damage_kept [kept]:
  "damage_line l x y t = Some u \<Longrightarrow> obs u = obs t" "damage_cursor t = Some u \<Longrightarrow> obs u = obs t"
  by (auto simp: damage_line_def damage_cursor_def split: bind_splits)

lemma rotate_selection_kept [kept]: "rotate_selection s e delta t = Some u \<Longrightarrow> obs u = obs t"
  by (auto simp: rotate_selection_def split: bind_splits option.splits)

lemma scroll_relative_kept [kept]:
  "scroll_down_relative l n t = Some u \<Longrightarrow> obs u = obs t" "scroll_up_relative l n t = Some u \<Longrightarrow> obs u = obs t"
  by (auto simp: scroll_down_relative_def scroll_up_relative_def Let_def dest!: kept split: bind_splits if_splits)

lemma scroll_kept [kept]:
  "scroll_up n t = Some u \<Longrightarrow> obs u = obs t" "scroll_down n t = Some u \<Longrightarrow> obs u = obs t"
  by (auto simp: scroll_up_def scroll_down_def dest!: kept)

lemma goto_kept [kept]: "goto l col t = Some u \<Longrightarrow> obs u = obs t"
  by (auto simp: goto_def Let_def dest!: kept split: bind_splits prod.splits)

lemma cursor_moves_kept [kept]:
  "move_forward n t = Some u \<Longrightarrow> obs u = obs t" "move_backward n t = Some u \<Longrightarrow> obs u = obs t"
  "backspace t = Some u \<Longrightarrow> obs u = obs t" "carriage_return t = Some u \<Longrightarrow> obs u = obs t"
  "linefeed t = Some u \<Longrightarrow> obs u = obs t" "reverse_index t = Some u \<Longrightarrow> obs u = obs t"
  "restore_cursor_position t = Some u \<Longrightarrow> obs u = obs t"
  by (auto simp: move_forward_def move_backward_def backspace_def carriage_return_def linefeed_def
      reverse_index_def restore_cursor_position_def Let_def dest!: kept split: bind_splits if_splits)

lemma newline_kept [kept]: "newline t = Some u \<Longrightarrow> obs u = obs t"
  by (auto simp: newline_def dest!: kept split: bind_splits if_splits)

lemma exec_cursor_kept: "exec_cursor E op t = Some u \<Longrightarrow> obs u = obs t"
  by (cases op) (auto simp: goto_line_def goto_col_def move_up_def move_down_def move_down_and_cr_def
      move_up_and_cr_def dest!: kept)

lemma wrapline_kept [kept]: "wrapline t = Some u \<Longrightarrow> obs u = obs t"
  by (auto simp: wrapline_def Let_def dest!: kept split: bind_splits if_splits)

lemma write_at_cursor_kept [kept]: "write_at_cursor E ch t = Some u \<Longrightarrow> obs u = obs t"
  by (auto simp: write_at_cursor_def Let_def dest!: kept split: bind_splits if_splits)

lemma write_wide_kept [kept]: "write_wide E ch t = Some u \<Longrightarrow> obs u = obs t"
  by (auto simp: write_wide_def Let_def dest!: kept split: bind_splits)

lemma input_glyph_kept [kept]: "input_glyph E ch w cols t = Some u \<Longrightarrow> obs u = obs t"
  by (auto simp: input_glyph_def Let_def dest!: kept split: bind_splits if_splits)

lemma input_parts_kept [kept]:
  "input_zero_width ch t = Some u \<Longrightarrow> obs u = obs t" "input_shift w t = Some u \<Longrightarrow> obs u = obs t"
  by (auto simp: input_zero_width_def input_shift_def Let_def dest!: kept split: bind_splits if_splits)

lemma input_kept [kept]: "input E ch t = Some u \<Longrightarrow> obs u = obs t"
  by (auto simp: input_def Let_def dest!: kept split: bind_splits if_splits option.splits)

lemma for_each_kept:
  assumes "\<And>x t u. f x t = Some u \<Longrightarrow> obs u = obs t"
  shows "for_each xs f t = Some u \<Longrightarrow> obs u = obs t"
  using assms by (induction xs arbitrary: t) (auto split: bind_splits)

lemma decaln_kept [kept]: "decaln t = Some u \<Longrightarrow> obs u = obs t"
  by (auto simp: decaln_def split: bind_splits elim!: for_each_kept [rotated] dest!: kept)

lemma line_edits_kept [kept]:
  "insert_blank n t = Some u \<Longrightarrow> obs u = obs t" "erase_chars n t = Some u \<Longrightarrow> obs u = obs t"
  "delete_chars n t = Some u \<Longrightarrow> obs u = obs t" "clear_line m t = Some u \<Longrightarrow> obs u = obs t"
  by (auto simp: insert_blank_def erase_chars_def delete_chars_def clear_line_def Let_def
      dest!: kept split: bind_splits if_splits prod.splits)

lemma lines_kept [kept]:
  "insert_blank_lines n t = Some u \<Longrightarrow> obs u = obs t" "delete_lines n t = Some u \<Longrightarrow> obs u = obs t"
  by (auto simp: insert_blank_lines_def delete_lines_def Let_def dest!: kept split: bind_splits if_splits)

lemma clear_parts_kept [kept]:
  "clear_above t = Some u \<Longrightarrow> obs u = obs t" "clear_below t = Some u \<Longrightarrow> obs u = obs t"
  "clear_all t = Some u \<Longrightarrow> obs u = obs t" "clear_saved t = Some u \<Longrightarrow> obs u = obs t"
  by (auto simp: clear_above_def clear_below_def clear_all_def clear_saved_def Let_def
      dest!: kept split: bind_splits if_splits)

lemma clear_screen_kept [kept]: "clear_screen m t = Some u \<Longrightarrow> obs u = obs t"
  by (auto simp: clear_screen_def dest!: kept split: bind_splits clear_mode.splits)

lemma region_kept [kept]:
  "set_scrolling_region n m t = Some u \<Longrightarrow> obs u = obs t"
  by (auto simp: set_scrolling_region_def Let_def dest!: kept split: if_splits option.splits)

lemma deccolm_kept [kept]: "deccolm t = Some u \<Longrightarrow> obs u = obs t"
  by (auto simp: deccolm_def dest!: kept split: bind_splits)

lemma exec_edit_kept: "exec_edit E op t = Some u \<Longrightarrow> op \<noteq> Reset_State \<Longrightarrow> obs u = obs t"
  by (cases op) (auto dest!: kept)

lemma put_tabs_kept [kept]: "put_tabs E n t = Some u \<Longrightarrow> obs u = obs t"
  by (induction E n t rule: put_tabs.induct) (auto simp: Let_def dest!: kept split: bind_splits if_splits)

lemma tab_moves_kept [kept]:
  "put_tab E w t = Some u \<Longrightarrow> obs u = obs t" "move_backward_tabs w t = Some u \<Longrightarrow> obs u = obs t"
  "move_forward_tabs w t = Some u \<Longrightarrow> obs u = obs t"
  by (auto simp: put_tab_def move_backward_tabs_def move_forward_tabs_def Let_def
      dest!: kept split: bind_splits if_splits)

lemma take_damage_kept [kept]: "take_damage t = Some (d, u) \<Longrightarrow> obs u = obs t"
  by (auto simp: take_damage_def Let_def dest!: kept split: bind_splits if_splits)

lemma obs_recompute [simp]: "obs (vi_mode_recompute_selection t) = obs t"
  by (auto simp: vi_mode_recompute_selection_def split: option.split)

lemma obs_scroll_display [simp]: "obs (scroll_display sc t) = obs t"
  by (simp add: scroll_display_def Let_def)

lemma obs_vi_moves [simp]: "obs (scroll_to_point p t) = obs t" "obs (vi_goto_point p t) = obs t"
  by (simp_all add: scroll_to_point_def vi_goto_point_def Let_def)

end

interpretation mode_kept: screen_observer t_mode
  by unfold_locales simp_all

interpretation primary_kept: screen_observer t_inactive_grid
  by unfold_locales simp_all

interpretation config_kept: screen_observer t_config
  by unfold_locales simp_all

interpretation stacks_kept: screen_observer
  "\<lambda>t. (t_title t, title_stack t, keyboard_mode_stack t, inactive_keyboard_mode_stack t)"
  by unfold_locales simp_all

section \<open>Work on the alternate screen\<close>

text \<open>
  The operations that do not leave the alternate screen, reset the terminal or reconfigure it. Entering the alternate
  screen again is among them: it does nothing.
\<close>

fun stays_on_alt :: "handler_op \<Rightarrow> bool" where
  "stays_on_alt (On_Text op) \<longleftrightarrow> op \<noteq> Reset_State"
| "stays_on_alt (On_Modes op) \<longleftrightarrow>
     op \<noteq> Unset_Private_Mode (Private_Named SwapScreenAndSetRestoreCursor)"
| "stays_on_alt (On_Window op) \<longleftrightarrow> (\<forall>cfg. op \<noteq> Set_Options cfg)"
| "stays_on_alt op \<longleftrightarrow> True"

abbreviation on_alt :: "terminal \<Rightarrow> bool" where
  "on_alt t \<equiv> mode_contains ALT_SCREEN t"

lemma on_alt_bit: "on_alt t \<longleftrightarrow> bit (t_mode t) 12"
  by (simp add: mode_contains_def contains_modes)

lemmas alt_simps = on_alt_bit mode_insert_def mode_remove_def send_event_def bit_flag_simps bit_modes bit_MOUSE_MODE
  mouse_protocol_def set_blinking_def mark_fully_damaged_def set_keyboard_mode_def bit_apply_keyboard_mode

text \<open>An operation that keeps the mode and the primary grid.\<close>

lemma alt_kept:
  "t_mode u = t_mode t \<Longrightarrow> t_inactive_grid u = t_inactive_grid t \<Longrightarrow>
     t_inactive_grid u = t_inactive_grid t \<and> (on_alt u \<longleftrightarrow> on_alt t)"
  by (simp add: on_alt_bit)

lemma moves_alt:
  "goto l col t = Some u \<Longrightarrow> t_inactive_grid u = t_inactive_grid t \<and> t_mode u = t_mode t"
  "deccolm t = Some u \<Longrightarrow> t_inactive_grid u = t_inactive_grid t \<and> t_mode u = t_mode t"
  by (simp_all add: primary_kept.goto_kept mode_kept.goto_kept primary_kept.deccolm_kept mode_kept.deccolm_kept)

lemma set_private_mode_alt:
  assumes "set_private_mode m t = Some u" "on_alt t"
  shows "t_inactive_grid u = t_inactive_grid t \<and> on_alt u"
proof (cases m)
  case (Private_Named n)
  show ?thesis
  proof (cases "n = Origin_Mode \<or> n = ColumnMode")
    case True
    then show ?thesis using assms Private_Named
      by (auto simp: alt_simps dest!: moves_alt)
  next
    case False
    then show ?thesis using assms Private_Named
      by (cases n) (auto simp: alt_simps Let_def split: if_splits)
  qed
qed (use assms in simp)

lemma unset_private_mode_alt:
  assumes "unset_private_mode m t = Some u" "on_alt t" "m \<noteq> Private_Named SwapScreenAndSetRestoreCursor"
  shows "t_inactive_grid u = t_inactive_grid t \<and> on_alt u"
proof (cases m)
  case (Private_Named n)
  show ?thesis
  proof (cases "n = ColumnMode")
    case True
    then show ?thesis using assms Private_Named
      by (auto simp: on_alt_bit dest!: moves_alt)
  next
    case False
    then show ?thesis using assms Private_Named
      by (cases n) (auto simp: alt_simps Let_def)
  qed
qed (use assms in simp)

lemma set_mode_alt:
  "t_inactive_grid (set_mode m t) = t_inactive_grid t \<and> (on_alt (set_mode m t) \<longleftrightarrow> on_alt t)"
  "t_inactive_grid (unset_mode m t) = t_inactive_grid t \<and> (on_alt (unset_mode m t) \<longleftrightarrow> on_alt t)"
  by (induction m t rule: set_mode.induct) (simp_all add: alt_simps)

lemma keyboard_alt:
  "push_keyboard_mode k t = Some u \<Longrightarrow> t_inactive_grid u = t_inactive_grid t \<and> (on_alt u \<longleftrightarrow> on_alt t)"
  "t_inactive_grid (pop_keyboard_modes w t) = t_inactive_grid t \<and> (on_alt (pop_keyboard_modes w t) \<longleftrightarrow> on_alt t)"
  "t_inactive_grid (handler_set_keyboard_mode k app t) = t_inactive_grid t
     \<and> (on_alt (handler_set_keyboard_mode k app t) \<longleftrightarrow> on_alt t)"
  by (auto simp: push_keyboard_mode_def pop_keyboard_modes_def handler_set_keyboard_mode_def alt_simps Let_def
      split: bind_splits if_splits)

lemmas alt_bits = set_mode_alt [unfolded on_alt_bit] keyboard_alt(2,3) [unfolded on_alt_bit]

lemma exec_mode_alt:
  assumes "exec_mode E op t = Some u" "on_alt t"
    "op \<noteq> Unset_Private_Mode (Private_Named SwapScreenAndSetRestoreCursor)"
  shows "t_inactive_grid u = t_inactive_grid t \<and> on_alt u"
  using assms
  by (cases op) (auto simp: alt_bits set_keypad_application_mode_def
      unset_keypad_application_mode_def configure_charset_def set_active_charset_def set_hyperlink_def
      terminal_attribute_def set_cursor_style_def set_cursor_shape_def set_template_def set_cursor_def
      alt_simps Let_def hyperlink_new_def dest!: keyboard_alt(1) set_private_mode_alt unset_private_mode_alt
      split: option.splits prod.splits)

lemma exec_report_alt:
  assumes "exec_report E op t = Some u"
  shows "t_inactive_grid u = t_inactive_grid t \<and> (on_alt u \<longleftrightarrow> on_alt t)"
proof -
  have "report_private_mode m n t = u \<Longrightarrow> ?thesis" for m n
    by (cases "(m, t)" rule: private_mode_state.cases)
      (auto simp: report_private_mode_def pty_write_def alt_simps Let_def split: named_private_mode.splits)
  then show ?thesis using assms
    by (cases op) (auto simp: identify_terminal_def report_keyboard_mode_def report_mode_def
        text_area_size_pixels_def text_area_size_chars_def bell_def substitute_def dynamic_color_sequence_def
        clipboard_store_def clipboard_load_def pty_write_def alt_simps split: if_splits option.splits)
qed

lemma exec_window_alt:
  assumes "exec_window E op t = Some u" "\<forall>cfg. op \<noteq> Set_Options cfg"
  shows "t_inactive_grid u = t_inactive_grid t \<and> (on_alt u \<longleftrightarrow> on_alt t)"
proof -
  have vi: "t_inactive_grid (toggle_vi_mode t) = t_inactive_grid t" "bit (t_mode (toggle_vi_mode t)) 12 \<longleftrightarrow> bit (t_mode t) 12"
    by (simp_all add: toggle_vi_mode_def Let_def alt_simps)
  have title: "t_inactive_grid (pop_title t) = t_inactive_grid t" "t_mode (pop_title t) = t_mode t"
    by (simp_all add: pop_title_def set_title_def)
  show ?thesis using assms
    by (cases op) (auto simp: vi title set_color_def reset_color_def set_title_def push_title_def
        term_exit_def on_alt_bit mark_fully_damaged_def
        dest: mode_kept.take_damage_kept primary_kept.take_damage_kept split: bind_splits if_splits option.splits)
qed

lemma exec_alt:
  assumes "exec E op t = Some u" "stays_on_alt op" "on_alt t"
  shows "t_inactive_grid u = t_inactive_grid t \<and> on_alt u"
proof (cases op)
  case (On_Cursor op')
  then show ?thesis
    using assms alt_kept [OF mode_kept.exec_cursor_kept primary_kept.exec_cursor_kept] by auto
next
  case (On_Text op')
  then show ?thesis
    using assms alt_kept [OF mode_kept.exec_edit_kept primary_kept.exec_edit_kept] by auto
next
  case (On_Tabs op')
  then show ?thesis
    using assms(1,3)
    by (cases op') (auto simp: on_alt_bit set_horizontal_tabstop_def elim!: clear_tabs.elims
        dest: mode_kept.tab_moves_kept primary_kept.tab_moves_kept split: bind_splits)
next
  case (On_Modes op')
  then show ?thesis using assms exec_mode_alt by auto
next
  case (On_Reports op')
  then show ?thesis using assms exec_report_alt by auto
next
  case (On_Window op')
  then show ?thesis using assms exec_window_alt by auto
qed

end
