(* ===== verification/Examples.thy ===== *)
theory Examples
  imports Term_Handler
begin

text \<open>
  A concrete instance of the crates the terminal is parametric in, and a concrete
  terminal of two lines and four columns with three lines of scrollback: the inputs of the
  witnesses. The character widths are those of the \<^verbatim>\<open>unicode-width\<close> crate on control characters, ASCII,
  the combining diacritical marks and the CJK ideographs; every other character is narrow.
\<close>

definition demo_width :: "uchar \<Rightarrow> nat option" where
  "demo_width c =
     (if c < 32 \<or> c = 127 then None
      else if 0x300 \<le> c \<and> c \<le> 0x36F then Some 0
      else if 0x4E00 \<le> c \<and> c \<le> 0x9FFF then Some 2
      else Some 1)"

definition demo_env :: env where
  "demo_env =
     \<lparr>char_width = demo_width, charset_map = (\<lambda>_ c. c), base64_decode = Some, base64_encode = map char_of,
      keyboard_bits =
        (\<lambda>k. (if kb_disambiguate k then 1 else 0) + (if kb_event_types k then 2 else 0)
           + (if kb_alternate_keys k then 4 else 0) + (if kb_all_keys k then 8 else 0)
           + (if kb_associated_text k then 16 else 0)),
      cursor_color_index = 258\<rparr>"

definition demo_config :: config where
  "demo_config =
     (config_default \<lparr>shape = Shape_Block, blinking = False\<rparr>)\<lparr>scrolling_history := 3, kitty_keyboard := True\<rparr>"

definition demo_term :: terminal where
  "demo_term = the (term_new demo_config 4 2 0)"

lemma demo_size: "MIN_COLUMNS \<le> 4" "MIN_SCREEN_LINES \<le> 2"
  by (simp_all add: MIN_COLUMNS_def MIN_SCREEN_LINES_def)

lemma demo_new: "term_new demo_config 4 2 0 = Some demo_term"
  using term_new_ok [OF demo_size, of demo_config 0] by (auto simp: demo_term_def elim: okE)

lemma demo_inv:
  "term_inv True demo_term" "t_columns demo_term = 4" "t_lines demo_term = 2" "t_point demo_term = Point 0 0"
  using term_new_ok [OF demo_size, of demo_config 0] by (simp_all add: demo_new)

lemma demo_reach: "reach E demo_config 4 2 demo_term"
  by (rule reach.start [OF demo_new])

text \<open>The same terminal with the cursor in the third column of the second line.\<close>

definition demo_below :: terminal where
  "demo_below = the (goto 1 2 demo_term)"

lemma demo_origin: "\<not> mode_contains ORIGIN demo_term"
  by code_simp

lemma demo_below_inv:
  "term_inv True demo_below" "t_point demo_below = Point 1 2" "t_columns demo_below = 4" "t_lines demo_below = 2"
  using goto_ok [OF demo_inv(1), of 1 2] demo_origin
  by (auto simp: demo_below_def goto_target_def demo_inv elim!: okE dest: term_stepD)

text \<open>Screens of two lines with given cells.\<close>

definition demo_chars :: "uchar list \<Rightarrow> flags \<Rightarrow> cell row" where
  \<comment> \<open>a row with these characters whose last cell has the given flags\<close>
  "demo_chars cs fl =
     \<lparr>row_inner = map (\<lambda>c. cell_default\<lparr>cell_c := c\<rparr>) (butlast cs) @ [insert_flag fl (cell_default\<lparr>cell_c := last cs\<rparr>)],
      occ = length cs\<rparr>"

definition demo_screen :: "cell row \<Rightarrow> cell row \<Rightarrow> grid" where
  "demo_screen r1 r2 =
     \<lparr>g_cursor = cursor_default, g_saved_cursor = cursor_default,
      raw = \<lparr>st_inner = [r2, r1], zero = 0, visible_lines = 2, st_len = 2\<rparr>,
      g_columns = 4, g_lines = 2, display_offset = 0, max_scroll_limit = 3\<rparr>"

end
