(* ===== verification/Screen_Properties.thy ===== *)
theory Screen_Properties
  imports Term_Frame Examples
begin

text \<open>
  What the operations of the terminal do to the screen: printing, editing a line, moving the cursor,
  switching screens, resetting. Each property is stated for every state that satisfies the invariant
  of \<open>Term_Inv\<close>, and each operation is shown to succeed.
\<close>

unbundle bit_operations_syntax

lemma demo_line: "grid_lines (t_grid demo_term) (line (t_point demo_term)) =
    Some \<lparr>row_inner = replicate 4 cell_default, occ = 0\<rparr>"
  by code_simp

text \<open>An edit of the cursor's row, spelled out for the row that was there.\<close>

lemma row_edit_result:
  assumes "ok m (\<lambda>u. term_step b t u \<and> row_edit t u h)" "grid_lines (t_grid t) (line (t_point t)) = Some r"
  shows "\<exists>u r'. m = Some u \<and> term_inv b u \<and> t_point u = t_point t
    \<and> grid_lines (t_grid u) = (grid_lines (t_grid t))(line (t_point t) \<mapsto> r') \<and> row_inner r' = h (row_inner r)"
  using assms by (auto simp: row_edit_def elim!: okE dest: term_stepD(1))

section \<open>Printing\<close>


lemma demo_cell: "grid_cell_at (t_grid demo_term) (Point 0 0) = Some cell_default"
  by code_simp

lemma demo_cursor:
  "\<not> input_needs_wrap (t_cursor demo_term)" "t_mode demo_term = mode_default" "t_template demo_term = cell_default"
  by (code_simp, code_simp, code_simp)


section \<open>Editing a line\<close>

text \<open>
  \<^verbatim>\<open>insert_blank\<close> (ICH) puts blanks in the template's background in front of the cursor
  and pushes the rest of the line to the right; what passes the right margin is lost. Every other line of
  screen and scrollback and the cursor stay.
\<close>

theorem insert_blank_shifts:
  assumes "term_inv b t" "grid_lines (t_grid t) (line (t_point t)) = Some r"
  shows "\<exists>u r'. insert_blank n t = Some u \<and> term_inv b u \<and> t_point u = t_point t
    \<and> grid_lines (t_grid u) = (grid_lines (t_grid t))(line (t_point t) \<mapsto> r')
    \<and> row_inner r' = inserted_blanks (column (t_point t)) n (cell_bg (t_template t)) (row_inner r)"
  by (rule row_edit_result [OF insert_blank_ok [OF assms(1)] assms(2)])

theorem insert_blank_shifts_witness:
  "\<exists>u r'. insert_blank 2 demo_term = Some u \<and> term_inv True u \<and> t_point u = t_point demo_term
    \<and> grid_lines (t_grid u) = (grid_lines (t_grid demo_term))(line (t_point demo_term) \<mapsto> r')
    \<and> row_inner r' = inserted_blanks (column (t_point demo_term)) 2 (cell_bg (t_template demo_term)) (row_inner \<lparr>row_inner = replicate 4 cell_default, occ = 0\<rparr>)"
  by (rule insert_blank_shifts [OF demo_inv(1) demo_line])

text \<open>
  \<^verbatim>\<open>erase_chars\<close> (ECH) blanks the cells from the cursor on, at most to the end of the line, and
  moves nothing.
\<close>

theorem erase_chars_overwrites:
  assumes "term_inv b t" "grid_lines (t_grid t) (line (t_point t)) = Some r"
  shows "\<exists>u r'. erase_chars n t = Some u \<and> term_inv b u \<and> t_point u = t_point t
    \<and> grid_lines (t_grid u) = (grid_lines (t_grid t))(line (t_point t) \<mapsto> r')
    \<and> row_inner r' = overwritten (column (t_point t)) (min (column (t_point t) + n) (t_columns t))
        (cell_bg (t_template t)) (row_inner r)"
  by (rule row_edit_result [OF erase_chars_ok [OF assms(1)] assms(2)])

theorem erase_chars_overwrites_witness:
  "\<exists>u r'. erase_chars 9 demo_term = Some u \<and> term_inv True u \<and> t_point u = t_point demo_term
    \<and> grid_lines (t_grid u) = (grid_lines (t_grid demo_term))(line (t_point demo_term) \<mapsto> r')
    \<and> row_inner r' = overwritten (column (t_point demo_term)) (min (column (t_point demo_term) + 9) (t_columns demo_term))
        (cell_bg (t_template demo_term)) (row_inner \<lparr>row_inner = replicate 4 cell_default, occ = 0\<rparr>)"
  by (rule erase_chars_overwrites [OF demo_inv(1) demo_line])

text \<open>
  \<^verbatim>\<open>delete_chars\<close> (DCH) removes the cells from the cursor on, moves the rest of the line to the
  left and fills the line up with blanks, when at least one cell of the line remains behind the deleted
  ones.
\<close>

theorem delete_chars_shifts:
  assumes "term_inv b t" "grid_lines (t_grid t) (line (t_point t)) = Some r" "column (t_point t) + n < t_columns t"
  shows "\<exists>u r'. delete_chars n t = Some u \<and> term_inv b u \<and> t_point u = t_point t
    \<and> grid_lines (t_grid u) = (grid_lines (t_grid t))(line (t_point t) \<mapsto> r')
    \<and> row_inner r' = deleted_cells (column (t_point t)) n (cell_bg (t_template t)) (row_inner r)"
  by (rule row_edit_result [OF delete_chars_ok [OF assms(1,3)] assms(2)])

theorem delete_chars_shifts_witness:
  "\<exists>u r'. delete_chars 2 demo_term = Some u \<and> term_inv True u \<and> t_point u = t_point demo_term
    \<and> grid_lines (t_grid u) = (grid_lines (t_grid demo_term))(line (t_point demo_term) \<mapsto> r')
    \<and> row_inner r' = deleted_cells (column (t_point demo_term)) 2 (cell_bg (t_template demo_term)) (row_inner \<lparr>row_inner = replicate 4 cell_default, occ = 0\<rparr>)"
  by (rule delete_chars_shifts [OF demo_inv(1) demo_line]) (simp add: demo_inv)

text \<open>
  \<^verbatim>\<open>clear_line\<close> (EL) blanks the cells right of the cursor, left of it (each with the
  cursor's cell) or all of them. The one exception is clearing to the right with a pending wrap, which the
  code skips.
\<close>

theorem clear_line_overwrites:
  assumes "term_inv b t" "grid_lines (t_grid t) (line (t_point t)) = Some r" "\<not> (m = Clear_Right \<and> input_needs_wrap (t_cursor t))"
  shows "\<exists>u r'. clear_line m t = Some u \<and> term_inv b u \<and> t_point u = t_point t
    \<and> grid_lines (t_grid u) = (grid_lines (t_grid t))(line (t_point t) \<mapsto> r')
    \<and> row_inner r' = overwritten (fst (cleared_range m t)) (snd (cleared_range m t)) (cell_bg (t_template t)) (row_inner r)"
  by (rule row_edit_result [OF clear_line_ok [OF assms(1,3)] assms(2)])

theorem clear_line_overwrites_witness:
  "\<exists>u r'. clear_line Clear_Left demo_term = Some u \<and> term_inv True u \<and> t_point u = t_point demo_term
    \<and> grid_lines (t_grid u) = (grid_lines (t_grid demo_term))(line (t_point demo_term) \<mapsto> r')
    \<and> row_inner r' = overwritten (fst (cleared_range Clear_Left demo_term))
        (snd (cleared_range Clear_Left demo_term)) (cell_bg (t_template demo_term)) (row_inner \<lparr>row_inner = replicate 4 cell_default, occ = 0\<rparr>)"
  by (rule clear_line_overwrites [OF demo_inv(1) demo_line]) simp

lemma delete_cells_tail:
  assumes "s \<le> e" "e + num \<le> length xs" "clear_from \<le> length xs"
  shows "ok (delete_cells s e num clear_from bg xs) (\<lambda>ys. length ys = length xs
    \<and> drop clear_from ys = replicate (length xs - clear_from) (cell_of_color bg))"
  using swap_cells_left [OF assms(1,2)] assms(3) by (auto simp: delete_cells_def elim!: ok_mono)

text \<open>
  \<^verbatim>\<open>delete_chars\<close> always blanks the last \<open>n\<close> cells of the line (all of them for a larger \<open>n\<close>). When the
  deletion reaches past the right margin these include cells left of the cursor, which the
  operation is not meant to touch.
\<close>

theorem delete_chars_blanks_tail:
  assumes "term_inv b t" "t_columns t - n \<le> i" "i < t_columns t"
  shows "\<exists>u r'. delete_chars n t = Some u \<and> grid_lines (t_grid u) (line (t_point t)) = Some r'
    \<and> row_inner r' ! i = cell_of_color (cell_bg (t_template t))"
proof -
  let ?cols = "t_columns t" and ?s = "column (t_point t)" and ?bg = "cell_bg (t_template t)"
  let ?count = "min n ?cols" let ?e = "min (?s + ?count) (?cols - 1)"
  let ?tail = "\<lambda>ys. length ys = ?cols \<and> drop (?cols - ?count) ys = replicate ?count (cell_of_color ?bg)"
  have s: "?s < ?cols" using cursor_bounds(3) [OF assms(1)] .
  have row: "ok (row_range_full_mut (delete_cells ?s ?e (?cols - ?e) (?cols - ?count) ?bg) r)
      (\<lambda>r'. good_row b ?cols r' \<and> ?tail (row_inner r'))" if r: "good_row b ?cols r" for r
  proof (rule good_row_full [OF r])
    show "ok (delete_cells ?s ?e (?cols - ?e) (?cols - ?count) ?bg (row_inner r))
        (\<lambda>ys. length ys = ?cols \<and> ?tail ys)"
      using delete_cells_tail [of ?s ?e "?cols - ?e" "row_inner r" "?cols - ?count" ?bg]
        good_row_length [OF r] s by simp
  qed
  have "ok (delete_chars n t) (\<lambda>u. term_step b t u \<and> t_point u = t_point t
      \<and> (\<exists>r r'. grid_lines (t_grid t) (line (t_point t)) = Some r \<and> ?tail (row_inner r')
            \<and> grid_lines (t_grid u) = (grid_lines (t_grid t))(line (t_point t) \<mapsto> r')))"
    unfolding delete_chars_eq [OF assms(1)] Let_def by (rule damage_then_row [OF assms(1)], rule row)
  then obtain u r' where u: "delete_chars n t = Some u" "term_step b t u" "?tail (row_inner r')"
      "grid_lines (t_grid u) (line (t_point t)) = Some r'"
    by (auto elim!: okE)
  have "?cols - ?count \<le> i" using assms(2) by (simp add: min_def)
  moreover have "?cols - ?count \<le> length (row_inner r')" using u(3) by simp
  ultimately have "row_inner r' ! i = drop (?cols - ?count) (row_inner r') ! (i - (?cols - ?count))"
    by (subst nth_drop) simp_all
  also have "\<dots> = cell_of_color ?bg" unfolding conjunct2 [OF u(3)] using assms(2,3) by (intro nth_replicate) auto
  finally show ?thesis using u by auto
qed

theorem delete_chars_blanks_tail_witness:
  "1 < column (t_point demo_below)
   \<and> (\<exists>u r'. delete_chars 3 demo_below = Some u \<and> grid_lines (t_grid u) (line (t_point demo_below)) = Some r'
        \<and> row_inner r' ! 1 = cell_of_color (cell_bg (t_template demo_below)))"
  using delete_chars_blanks_tail [OF demo_below_inv(1), of 3 1] by (simp add: demo_below_inv)

text \<open>
  \<^verbatim>\<open>clear_screen\<close> above the cursor resets the lines above only when the cursor is below the second line:
  with the cursor on the second line the first line keeps its content.
\<close>

theorem clear_above_skips_first_line:
  assumes "term_inv b t" "line (t_point t) = 1"
  shows "\<exists>u. clear_screen Clear_Above t = Some u \<and> grid_lines (t_grid u) 0 = grid_lines (t_grid t) 0"
proof -
  let ?f = "row_range_to_mut (min (column (t_point t) + 1) (t_columns t))
      (fill_with (cell_of_color (cell_bg (t_template t))))"
  have "ok (on_grid (grid_row_mut (line (t_point t)) ?f) t) (\<lambda>u. edited b t u
      \<and> (\<exists>r r'. grid_lines (t_grid t) (line (t_point t)) = Some r \<and> True
         \<and> grid_lines (t_grid u) = (grid_lines (t_grid t))(line (t_point t) \<mapsto> r')))"
    by (rule edit_row [OF assms(1) cursor_bounds(1,2) [OF assms(1)]])
      (auto intro: ok_mono [OF good_row_range_to_fill])
  then obtain u where "on_grid (grid_row_mut 1 ?f) t = Some u" "grid_lines (t_grid u) 0 = grid_lines (t_grid t) 0"
    using assms(2) by (auto elim!: okE)
  then show ?thesis using assms(2) by (simp add: clear_screen_def clear_above_def Let_def)
qed

theorem clear_above_skips_first_line_witness:
  "\<exists>u. clear_screen Clear_Above demo_below = Some u
     \<and> grid_lines (t_grid u) 0 = grid_lines (t_grid demo_below) 0"
  by (rule clear_above_skips_first_line [OF demo_below_inv(1)]) (simp add: demo_below_inv)

section \<open>Cursor, screens, reset\<close>

text \<open>
  \<^verbatim>\<open>goto\<close> (CUP) accepts every line and column, also negative and far too large ones. The cursor ends
  at the requested cell clamped to the screen; in origin mode lines count from the
  top of the scroll region and stop at its last line.
\<close>

theorem goto_clamps:
  assumes "term_inv b t"
  shows "\<exists>u. goto l col t = Some u \<and> term_inv b u \<and> \<not> input_needs_wrap (t_cursor u)
    \<and> column (t_point u) = min col (t_columns t - 1)
    \<and> line (t_point u) = (if mode_contains ORIGIN t then max (min (l + region_start t) (region_end t - 1)) 0
                          else max (min l (int (t_lines t) - 1)) 0)"
  using goto_ok [OF assms, of l col] by (auto simp: goto_target_def elim!: okE dest: term_stepD(1))

theorem goto_clamps_witness:
  "\<exists>u. goto (- 7) 100 demo_term = Some u \<and> term_inv True u \<and> \<not> input_needs_wrap (t_cursor u)
    \<and> column (t_point u) = min 100 (t_columns demo_term - 1)
    \<and> line (t_point u) = (if mode_contains ORIGIN demo_term
          then max (min (- 7 + region_start demo_term) (region_end demo_term - 1)) 0
          else max (min (- 7) (int (t_lines demo_term) - 1)) 0)"
  by (rule goto_clamps [OF demo_inv(1)])

definition exec_all :: "env \<Rightarrow> handler_op list \<Rightarrow> terminal \<Rightarrow> terminal option" where
  "exec_all E ops t = for_each ops (exec E) t"

lemma exec_all_alt:
  "exec_all E ops t = Some u \<Longrightarrow> list_all stays_on_alt ops \<Longrightarrow> on_alt t \<Longrightarrow>
     t_inactive_grid u = t_inactive_grid t \<and> on_alt u"
  by (induction ops arbitrary: t) (auto simp: exec_all_def dest!: exec_alt split: bind_splits)

abbreviation alt_mode :: private_mode where
  "alt_mode \<equiv> Private_Named SwapScreenAndSetRestoreCursor"

lemma leave_alt:
  assumes "on_alt t"
  shows "\<exists>u. unset_private_mode alt_mode t = Some u \<and> \<not> on_alt u \<and> t_grid u = t_inactive_grid t"
  using assms
  by (simp add: swap_alt_def Let_def) (simp add: alt_simps)



text \<open>
  \<^verbatim>\<open>reset_state\<close> (RIS) always ends on an empty primary screen: no scrollback, default background,
  the cursor at the origin, the scroll region spanning the screen; only vi mode survives.
\<close>

theorem reset_state_blank:
  assumes "term_inv True t"
  shows "\<exists>u. reset_state t = Some u \<and> term_inv True u \<and> t_point u = Point 0 0
    \<and> grid_history (t_grid u) = 0 \<and> region_start u = 0 \<and> region_end u = int (t_lines t)
    \<and> \<not> mode_contains ALT_SCREEN u \<and> mode_contains VI u = mode_contains VI t
    \<and> (\<forall>l. 0 \<le> l \<and> l < int (t_lines t) \<longrightarrow>
         grid_lines (t_grid u) l = Some (blank_row (t_columns t) (Named Background)))"
  using reset_state_ok [OF assms] by (auto elim!: okE dest: term_stepD(1))

theorem reset_state_blank_witness:
  "\<exists>u. reset_state demo_term = Some u \<and> term_inv True u \<and> t_point u = Point 0 0
    \<and> grid_history (t_grid u) = 0 \<and> region_start u = 0 \<and> region_end u = int (t_lines demo_term)
    \<and> \<not> mode_contains ALT_SCREEN u \<and> mode_contains VI u = mode_contains VI demo_term
    \<and> (\<forall>l. 0 \<le> l \<and> l < int (t_lines demo_term) \<longrightarrow>
         grid_lines (t_grid u) l = Some (blank_row (t_columns demo_term) (Named Background)))"
  by (rule reset_state_blank [OF demo_inv(1)])

text \<open>
  \<^verbatim>\<open>insert_blank_lines\<close> (IL) acts only inside the scroll region. With the cursor in the region the lines from
  the cursor to the end of the region move down and blank lines appear at the cursor; with the cursor outside
  nothing happens.
\<close>

theorem insert_blank_lines_region:
  assumes "term_inv True t"
  shows "\<exists>u. insert_blank_lines n t = Some u \<and> term_inv True u
    \<and> (if region_start t \<le> line (t_point t) \<and> line (t_point t) < region_end t
       then (let p = min (int n) (region_end t - line (t_point t)) in
         \<forall>l. grid_lines (t_grid u) l =
           (if line (t_point t) \<le> l \<and> l < line (t_point t) + p then Some (blank_of (t_grid t))
            else if line (t_point t) + p \<le> l \<and> l < region_end t then grid_lines (t_grid t) (l - p)
            else grid_lines (t_grid t) l))
       else u = t)"
proof (cases "region_start t \<le> line (t_point t) \<and> line (t_point t) < region_end t")
  case True
  then have le: "region_start t \<le> line (t_point t)" "line (t_point t) \<le> region_end t" by auto
  obtain u where u: "scroll_down_relative (line (t_point t)) n t = Some u" "term_step True t u"
      "scrolled_down (line (t_point t)) (region_end t) (min n (nat (region_end t - line (t_point t))))
         (t_grid t) (t_grid u)"
    using scroll_down_relative_ok [OF assms le, of n] by (auto elim!: okE)
  have p: "min (int (min n (nat (region_end t - line (t_point t))))) (region_end t - line (t_point t))
      = min (int n) (region_end t - line (t_point t))" using le by auto
  show ?thesis
    using u True unfolding scrolled_down_def p
    by (auto simp: insert_blank_lines_def Let_def dest: term_stepD(1))
next
  case False
  then show ?thesis using assms by (auto simp: insert_blank_lines_def Let_def)
qed

theorem insert_blank_lines_region_witness:
  "\<exists>u. insert_blank_lines 1 demo_term = Some u \<and> term_inv True u
    \<and> (if region_start demo_term \<le> line (t_point demo_term) \<and> line (t_point demo_term) < region_end demo_term
       then (let p = min (int 1) (region_end demo_term - line (t_point demo_term)) in
         \<forall>l. grid_lines (t_grid u) l =
           (if line (t_point demo_term) \<le> l \<and> l < line (t_point demo_term) + p
            then Some (blank_of (t_grid demo_term))
            else if line (t_point demo_term) + p \<le> l \<and> l < region_end demo_term
            then grid_lines (t_grid demo_term) (l - p)
            else grid_lines (t_grid demo_term) l))
       else u = demo_term)"
  by (rule insert_blank_lines_region [OF demo_inv(1)])

section \<open>Damage\<close>

definition damage_covers :: "term_damage_state \<Rightarrow> point \<Rightarrow> bool" where
  "damage_covers d p \<longleftrightarrow> nat (line p) < length (dmg_lines d)
     \<and> dmg_left (dmg_lines d ! nat (line p)) \<le> column p \<and> column p \<le> dmg_right (dmg_lines d ! nat (line p))"

lemma damage_point_covers:
  assumes "damage_point (nat (line p)) (column p) d = Some d'"
  shows "damage_covers d' p" "damage_covers d q \<Longrightarrow> damage_covers d' q"
    "length (dmg_lines d') = length (dmg_lines d)" "last_cursor d' = last_cursor d"
  using assms
  by (auto simp: damage_point_def damage_line_state_def damage_covers_def damage_expand_def vec_get_def nth_list_update
      split: bind_splits if_splits)

text \<open>
  Partial damage (\<^verbatim>\<open>Term::damage\<close>) never misses the cursor. The reported lines contain the cell under the cursor and the
  cell it was drawn in last, so that the old cursor is erased and the new one drawn; the new
  position is remembered for the next frame.
\<close>

theorem take_damage_covers_cursor:
  assumes "term_inv b t" "\<not> dmg_full (t_damage t)" "\<not> mode_contains INSERT t"
  shows "\<exists>u. take_damage t = Some (Damage_Partial (take (t_lines t - display_offset (t_grid t)) (dmg_lines (t_damage u)))
        (display_offset (t_grid t)), u)
    \<and> damage_covers (t_damage u) (t_point t) \<and> damage_covers (t_damage u) (last_cursor (t_damage t))
    \<and> last_cursor (t_damage u) = t_point t \<and> t_grid u = t_grid t"
proof -
  let ?prev = "last_cursor (t_damage t)" and ?p = "t_point t"
  let ?d0 = "(t_damage t)\<lparr>last_cursor := ?p\<rparr>"
  have D: "damage_ok (t_lines t) (t_columns t) (t_damage t)" by (rule term_invD(12) [OF assms(1)])
  have len: "length (dmg_lines (t_damage t)) = t_lines t" and prev: "0 \<le> line ?prev" "line ?prev < int (t_lines t)"
    using D by (auto simp: damage_ok_def)
  note P = cursor_bounds(1,2) [OF assms(1)]
  have total: "\<exists>d'. damage_point (nat (line q)) (column q) d = Some d'"
    if "length (dmg_lines d) = t_lines t" "0 \<le> line q" "line q < int (t_lines t)" for d q
    using that by (auto simp: damage_point_def damage_line_state_def vec_get_def)
  obtain d1 where d1: "(if ?p \<noteq> ?prev then damage_point (nat (line ?prev)) (column ?prev) ?d0 else Some ?d0) = Some d1"
      "length (dmg_lines d1) = t_lines t" "?p \<noteq> ?prev \<longrightarrow> damage_covers d1 ?prev" "last_cursor d1 = ?p"
  proof (cases "?p = ?prev")
    case False
    obtain d where d: "damage_point (nat (line ?prev)) (column ?prev) ?d0 = Some d"
      using total [of ?d0 ?prev] len prev by auto
    show ?thesis by (rule that [of d]) (use False d damage_point_covers [OF d] len in auto)
  next
    case True
    show ?thesis by (rule that [of ?d0]) (use True len in simp_all)
  qed
  obtain d2 where d2: "damage_point (nat (line ?p)) (column ?p) d1 = Some d2"
    using total [OF d1(2) P] by auto
  note C = damage_point_covers [OF d2]
  have cov: "damage_covers d2 ?prev" using C(1,2) d1(3) by (cases "?p = ?prev") auto
  have "take_damage t = Some (damage_iter_new (dmg_lines d2) (display_offset (t_grid t)), t\<lparr>t_damage := d2\<rparr>)"
    using assms(2,3) d1(1) d2 P prev
    by (auto simp: take_damage_def damage_cursor_def usize_of_i32_def Let_def split: if_splits)
  then show ?thesis using cov C d1(2,4) by (auto simp: damage_iter_new_def)
qed

lemma demo_undamaged:
  "term_inv True (reset_damage demo_term)" "\<not> dmg_full (t_damage (reset_damage demo_term))"
  "\<not> mode_contains INSERT (reset_damage demo_term)"
  using term_stepD(1) [OF reset_damage_step [OF demo_inv(1)]]
  by (simp_all add: reset_damage_def damage_reset_def mode_contains_def demo_cursor) code_simp

theorem take_damage_covers_cursor_witness:
  "\<exists>u. take_damage (reset_damage demo_term) =
      Some (Damage_Partial (take (t_lines (reset_damage demo_term) - display_offset (t_grid (reset_damage demo_term)))
          (dmg_lines (t_damage u))) (display_offset (t_grid (reset_damage demo_term))), u)
    \<and> damage_covers (t_damage u) (t_point (reset_damage demo_term))
    \<and> damage_covers (t_damage u) (last_cursor (t_damage (reset_damage demo_term)))
    \<and> last_cursor (t_damage u) = t_point (reset_damage demo_term) \<and> t_grid u = t_grid (reset_damage demo_term)"
  by (rule take_damage_covers_cursor [OF demo_undamaged])

end
