(* ===== verification/Decimal_Text.thy ===== *)
theory Decimal_Text
  imports Term_Modes
begin

text \<open>
  Numbers in escape sequences: printing a number in decimal and reading it back, and splitting text at a
  separator. The reports of the terminal, of the mouse and of keys are decoded with these lemmas.
\<close>

lemma dec_digits_chars: "ch \<in> set (dec_digits n) \<Longrightarrow> is_digit ch"
  by (induction n rule: dec_digits.induct)
    (subst (asm) dec_digits.simps, auto simp: is_digit_def split: if_splits)

lemma dec_digits_nonempty: "dec_digits n \<noteq> []"
  by (subst dec_digits.simps) simp

lemma digits_value_dec: "digits_value (dec_digits n) = n"
  by (induction n rule: dec_digits.induct) (subst dec_digits.simps, simp add: digits_value_def)

lemma dec_digits_no_sign: "\<not> is_digit sep \<Longrightarrow> sep \<notin> set (dec_digits n)"
  using dec_digits_chars by blast

lemma parse_dec_digits:
  assumes "n < 2 ^ 64"
  shows "parse_usize (dec_digits n) = Some n"
proof -
  obtain ch rest where ds: "dec_digits n = ch # rest" using dec_digits_nonempty [of n] by (cases "dec_digits n") auto
  have "ch \<noteq> CHR ''+''" using dec_digits_chars [of ch n] ds by (auto simp: is_digit_def)
  moreover have "list_all is_digit (dec_digits n)" using dec_digits_chars by (auto simp: list_all_iff)
  ultimately show ?thesis using assms digits_value_dec [of n] by (simp add: parse_usize_def ds)
qed

lemma split_on_last: "sep \<notin> set w \<Longrightarrow> split_on sep w = [w]"
  by (induction w) auto

lemma split_on_word: "sep \<notin> set w \<Longrightarrow> split_on sep (w @ sep # rest) = w # split_on sep rest"
  by (induction w) auto

end
