(* ===== verification/Mode_Properties.thy ===== *)
theory Mode_Properties
  imports Term_Frame Examples Decimal_Text
begin

text \<open>
  Properties of the modes, the stacks and the reports of the terminal: what one operation sets is what
  another one reads, exclusive modes exclude each other, stacks stay within their bounds, and the
  answers written to the PTY are the documented ones.
\<close>

unbundle bit_operations_syntax

section \<open>Modes\<close>

lemmas mode_bits = mode_contains_def mode_insert_def mode_remove_def send_event_def contains_modes bit_flag_simps
  bit_modes bit_MOUSE_MODE

lemma swap_alt_bit:
  "term_inv b t \<Longrightarrow> ok (swap_alt t) (\<lambda>u. mode_contains ALT_SCREEN u \<longleftrightarrow> \<not> mode_contains ALT_SCREEN t)"
  by (rule ok_mono [OF swap_alt_ok]) auto

lemma damage_keeps_mode:
  "damage_line l x y t = Some u \<Longrightarrow> t_mode u = t_mode t"
  "damage_cursor t = Some u \<Longrightarrow> t_mode u = t_mode t"
  by (auto simp: damage_line_def damage_cursor_def Let_def split: bind_splits)

lemma goto_keeps_mode: "goto l col t = Some u \<Longrightarrow> t_mode u = t_mode t"
  by (auto simp: goto_def Let_def set_point_def set_needs_wrap_def set_cursor_def
      dest!: damage_keeps_mode split: bind_splits prod.splits)

text \<open>The modes that can be both set and reported.\<close>

definition reportable :: "named_private_mode \<Rightarrow> bool" where
  "reportable m \<longleftrightarrow> m \<noteq> ColumnMode \<and> m \<noteq> SyncUpdate"

text \<open>
  DECRQM answers what DECSET and DECRST did. After setting a private mode its report says ``set'', after
  resetting it says ``reset'', for all modes but column mode and synchronized updates, which have
  no state of their own.
\<close>

theorem private_mode_roundtrip:
  assumes "term_inv b t" "reportable m"
  shows "\<exists>u v. set_private_mode (Private_Named m) t = Some u
    \<and> fst (private_mode_state (Private_Named m) u) = State_Set
    \<and> unset_private_mode (Private_Named m) t = Some v
    \<and> fst (private_mode_state (Private_Named m) v) = State_Reset"
proof -
  have alt: "\<exists>u. (if mode_contains ALT_SCREEN t then Some t else swap_alt t) = Some u \<and> mode_contains ALT_SCREEN u"
    "\<exists>u. (if mode_contains ALT_SCREEN t then swap_alt t else Some t) = Some u \<and> \<not> mode_contains ALT_SCREEN u"
    using swap_alt_bit [OF assms(1)] by (auto elim!: okE)
  have org: "\<exists>u. goto 0 0 (mode_insert ORIGIN t) = Some u \<and> mode_contains ORIGIN u"
    using goto_step [of b "mode_insert ORIGIN t" 0 0] assms(1) goto_keeps_mode [of 0 0 "mode_insert ORIGIN t"]
    by (auto elim!: okE simp: mode_bits)
  show ?thesis using assms(2)
  proof (cases m)
    case SwapScreenAndSetRestoreCursor
    then show ?thesis using alt by (auto simp: mode_state_of_def)
  next
    case Origin_Mode
    then show ?thesis using org by (auto simp: mode_state_of_def) (simp add: mode_bits)
  qed (auto simp: reportable_def mode_state_of_def mouse_protocol_def set_blinking_def mode_bits)
qed

theorem private_mode_roundtrip_witness:
  "\<exists>u v. set_private_mode (Private_Named Origin_Mode) demo_term = Some u
    \<and> fst (private_mode_state (Private_Named Origin_Mode) u) = State_Set
    \<and> unset_private_mode (Private_Named Origin_Mode) demo_term = Some v
    \<and> fst (private_mode_state (Private_Named Origin_Mode) v) = State_Reset"
  by (rule private_mode_roundtrip [OF demo_inv(1)]) (simp add: reportable_def)

definition mouse_exclusive :: "terminal \<Rightarrow> bool" where
  "mouse_exclusive t \<longleftrightarrow>
     \<not> (mode_contains MOUSE_REPORT_CLICK t \<and> mode_contains MOUSE_DRAG t)
     \<and> \<not> (mode_contains MOUSE_REPORT_CLICK t \<and> mode_contains MOUSE_MOTION t)
     \<and> \<not> (mode_contains MOUSE_DRAG t \<and> mode_contains MOUSE_MOTION t)
     \<and> \<not> (mode_contains SGR_MOUSE t \<and> mode_contains UTF8_MOUSE t)"

text \<open>The bits the mouse modes occupy, as one observation of the state.\<close>

definition mouse_bits :: "terminal \<Rightarrow> bool list" where
  "mouse_bits t = map (bit (t_mode t)) [3, 5, 6, 13, 14]"

lemma mouse_exclusive_bits: "mouse_bits u = mouse_bits t \<Longrightarrow> mouse_exclusive u = mouse_exclusive t"
  by (simp add: mouse_bits_def mouse_exclusive_def mode_contains_def contains_modes)

interpretation mouse_kept: screen_observer mouse_bits
  by unfold_locales (simp_all add: mouse_bits_def)

lemmas mouse_simps = mouse_bits_def mode_insert_def mode_remove_def send_event_def bit_flag_simps bit_modes
  bit_MOUSE_MODE bit_KITTY set_blinking_def mark_fully_damaged_def set_keyboard_mode_def bit_apply_keyboard_mode
  pty_write_def

lemma swap_alt_mouse: "swap_alt t = Some u \<Longrightarrow> mouse_bits u = mouse_bits t"
  by (auto simp: swap_alt_def mouse_simps Let_def split: bind_splits if_splits)

lemma reset_state_mouse: "reset_state t = Some u \<Longrightarrow> mouse_exclusive u"
  by (auto simp: reset_state_def mouse_exclusive_def mode_contains_def contains_modes mode_default_def mouse_simps
      Let_def split: bind_splits)

lemma mouse_exclusive_iff:
  "mouse_exclusive t \<longleftrightarrow>
     \<not> (bit (t_mode t) 3 \<and> bit (t_mode t) 13) \<and> \<not> (bit (t_mode t) 3 \<and> bit (t_mode t) 6)
     \<and> \<not> (bit (t_mode t) 13 \<and> bit (t_mode t) 6) \<and> \<not> (bit (t_mode t) 5 \<and> bit (t_mode t) 14)"
  by (simp add: mouse_exclusive_def mode_contains_def contains_modes)

lemmas private_mode_simps = mouse_exclusive_iff mouse_protocol_def mode_insert_def mode_remove_def send_event_def
  bit_flag_simps bit_modes bit_MOUSE_MODE set_blinking_def

text \<open>The private modes that move the cursor or swap grids.\<close>

definition moving_mode :: "named_private_mode \<Rightarrow> bool" where
  "moving_mode m \<longleftrightarrow> m = Origin_Mode \<or> m = ColumnMode \<or> m = SwapScreenAndSetRestoreCursor"

lemma moving_mode_mouse:
  assumes "moving_mode m" "set_private_mode (Private_Named m) t = Some u \<or> unset_private_mode (Private_Named m) t = Some u"
  shows "mouse_bits u = mouse_bits t"
proof -
  have org: "mouse_bits (mode_insert ORIGIN t) = mouse_bits t" "mouse_bits (mode_remove ORIGIN t) = mouse_bits t"
    by (simp_all add: mouse_simps)
  show ?thesis using assms
    by (auto simp: moving_mode_def org dest!: mouse_kept.goto_kept mouse_kept.deccolm_kept swap_alt_mouse
        split: if_splits)
qed

lemma private_mode_mouse:
  assumes "mouse_exclusive t"
    and "set_private_mode (Private_Named m) t = Some u \<or> unset_private_mode (Private_Named m) t = Some u"
  shows "mouse_exclusive u"
proof (cases "moving_mode m")
  case True
  then show ?thesis using mouse_exclusive_bits [OF moving_mode_mouse [OF True assms(2)]] assms(1) by simp
next
  case False
  then show ?thesis using assms
    by (cases m; elim disjE; clarsimp simp: moving_mode_def private_mode_simps Let_def)
qed

lemma exec_mode_mouse:
  assumes "exec_mode E op t = Some u" "mouse_exclusive t"
  shows "mouse_exclusive u"
proof -
  consider (dec) m where "op = Set_Private_Mode m \<or> op = Unset_Private_Mode m"
    | (ansi) "\<forall>m. op \<noteq> Set_Private_Mode m \<and> op \<noteq> Unset_Private_Mode m" by blast
  then show ?thesis
  proof cases
    case dec
    then show ?thesis
    proof (cases m)
      case (Private_Named n)
      then have "set_private_mode (Private_Named n) t = Some u \<or> unset_private_mode (Private_Named n) t = Some u"
        using dec assms(1) by (auto simp del: set_private_mode.simps unset_private_mode.simps)
      then show ?thesis by (rule private_mode_mouse [OF assms(2)])
    qed (use dec assms in auto)
  next
    case ansi
    have "mouse_bits (set_mode m t) = mouse_bits t \<and> mouse_bits (unset_mode m t) = mouse_bits t" for m
      by (induction m t rule: set_mode.induct) (simp_all add: mouse_simps)
    then have "mouse_bits u = mouse_bits t" using assms(1) ansi
      by (cases op) (auto simp: push_keyboard_mode_def pop_keyboard_modes_def handler_set_keyboard_mode_def
          set_keypad_application_mode_def unset_keypad_application_mode_def configure_charset_def
          set_active_charset_def set_hyperlink_def terminal_attribute_def set_cursor_style_def set_cursor_shape_def
          set_template_def set_cursor_def hyperlink_new_def mouse_simps Let_def
          split: bind_splits if_splits option.splits prod.splits)
    then show ?thesis using mouse_exclusive_bits assms(2) by blast
  qed
qed

lemma exec_mouse:
  assumes "exec E op t = Some u" "mouse_exclusive t"
  shows "mouse_exclusive u"
proof (cases op)
  case (On_Cursor op')
  then show ?thesis
    using assms mouse_exclusive_bits [OF mouse_kept.exec_cursor_kept] by auto
next
  case (On_Text op')
  then show ?thesis
    using assms mouse_exclusive_bits [OF mouse_kept.exec_edit_kept] reset_state_mouse
    by (cases "op' = Reset_State") auto
next
  case (On_Tabs op')
  then have "mouse_bits u = mouse_bits t"
    using assms(1)
    by (cases op') (auto simp: mouse_bits_def set_horizontal_tabstop_def elim!: clear_tabs.elims
        dest: mode_kept.tab_moves_kept split: bind_splits)
  then show ?thesis using mouse_exclusive_bits assms(2) by blast
next
  case (On_Modes op')
  then show ?thesis using assms exec_mode_mouse by auto
next
  case (On_Reports op')
  have "report_private_mode m n t = u \<Longrightarrow> mouse_bits u = mouse_bits t" for m n
    by (cases "(m, t)" rule: private_mode_state.cases)
      (auto simp: report_private_mode_def mouse_simps Let_def split: named_private_mode.splits)
  then have "mouse_bits u = mouse_bits t" using assms(1) On_Reports
    by (cases op') (auto simp: identify_terminal_def report_keyboard_mode_def report_mode_def
        text_area_size_pixels_def text_area_size_chars_def bell_def substitute_def dynamic_color_sequence_def
        clipboard_store_def clipboard_load_def mouse_simps split: if_splits option.splits)
  then show ?thesis using mouse_exclusive_bits assms(2) by blast
next
  case (On_Window op')
  have opts: "set_options cfg t = Some u \<Longrightarrow> mouse_bits u = mouse_bits t" for cfg
    by (auto simp: set_options_def mouse_simps on_grid_def Let_def split: bind_splits if_splits)
  have vi: "mouse_bits (toggle_vi_mode t) = mouse_bits t" "mouse_bits (pop_title t) = mouse_bits t"
    by (simp_all add: toggle_vi_mode_def pop_title_def set_title_def Let_def mouse_simps)
  have "mouse_bits u = mouse_bits t" using assms(1) On_Window
    by (cases op'; auto simp: vi set_color_def reset_color_def set_title_def push_title_def term_exit_def
        dest: opts mouse_kept.take_damage_kept split: bind_splits if_splits)
      (simp_all add: mouse_bits_def)
  then show ?thesis using mouse_exclusive_bits assms(2) by blast
qed

text \<open>
  The mouse protocols exclude each other, and so do the two mouse encodings. In no reachable state are two
  protocols or both encodings active.
\<close>

theorem mouse_modes_exclusive:
  assumes "reach E cfg cols lines t"
  shows "mouse_exclusive t"
  using assms
proof (induction rule: reach.induct)
  case (start w t)
  then have "t_mode t = mode_default" by (auto simp: term_new_def split: bind_splits)
  then show ?case by (simp add: mouse_exclusive_iff mode_default_def bit_flag_simps bit_modes)
next
  case (call t op u)
  then show ?case using exec_mouse by blast
qed

theorem mouse_modes_exclusive_witness: "mouse_exclusive demo_term"
  by (rule mouse_modes_exclusive [OF demo_reach])

section \<open>Stacks\<close>

text \<open>
  The title stack (XTWINOPS 22 and 23). Pushing never fails and keeps the stack within its bound, dropping the
  oldest title when it is full; after any change of the title, popping brings the pushed title back and announces
  it to the window.
\<close>

theorem title_stack_roundtrip:
  assumes "term_inv b t"
  shows "\<exists>u. push_title t = Some u \<and> length (title_stack u) \<le> TITLE_STACK_MAX_DEPTH
    \<and> (\<forall>ti. t_title (pop_title (set_title ti u)) = t_title t
         \<and> last (t_events (pop_title (set_title ti u))) = title_event (t_title t)
         \<and> (length (title_stack t) < TITLE_STACK_MAX_DEPTH \<longrightarrow>
              title_stack (pop_title (set_title ti u)) = title_stack t))"
proof -
  have len: "length (title_stack t) \<le> TITLE_STACK_MAX_DEPTH" by (rule term_invD(14) [OF assms])
  have pos: "0 < TITLE_STACK_MAX_DEPTH" by (simp add: TITLE_STACK_MAX_DEPTH_def)
  let ?ts = "if length (title_stack t) < TITLE_STACK_MAX_DEPTH then title_stack t else tl (title_stack t)"
  have "push_title t = Some (t\<lparr>title_stack := ?ts @ [t_title t]\<rparr>)" "length ?ts < TITLE_STACK_MAX_DEPTH"
    using len pos by (auto simp: push_title_def vec_remove_first_def split: list.split)
  then show ?thesis by (simp add: pop_title_def set_title_def send_event_def)
qed

theorem title_stack_roundtrip_witness:
  "\<exists>u. push_title demo_term = Some u \<and> length (title_stack u) \<le> TITLE_STACK_MAX_DEPTH
    \<and> (\<forall>ti. t_title (pop_title (set_title ti u)) = t_title demo_term
         \<and> last (t_events (pop_title (set_title ti u))) = title_event (t_title demo_term)
         \<and> (length (title_stack demo_term) < TITLE_STACK_MAX_DEPTH \<longrightarrow>
              title_stack (pop_title (set_title ti u)) = title_stack demo_term))"
  by (rule title_stack_roundtrip [OF demo_inv(1)])

lemma push_keyboard_grows:
  assumes "kitty_keyboard (t_config t)" "length (keyboard_mode_stack t) < KEYBOARD_MODE_STACK_MAX_DEPTH"
  shows "\<exists>u. push_keyboard_mode k t = Some u \<and> length (keyboard_mode_stack u) = Suc (length (keyboard_mode_stack t))
    \<and> title_stack u = title_stack t \<and> t_config u = t_config t"
  using assms by (simp add: push_keyboard_mode_def set_keyboard_mode_def)

lemma reach_keyboard_depth:
  assumes "kitty_keyboard cfg" "MIN_COLUMNS \<le> cols" "MIN_SCREEN_LINES \<le> lines"
    and "n \<le> KEYBOARD_MODE_STACK_MAX_DEPTH"
  shows "\<exists>t. reach E cfg cols lines t \<and> length (keyboard_mode_stack t) = n \<and> title_stack t = []
    \<and> kitty_keyboard (t_config t)"
  using assms(4)
proof (induction n)
  case 0
  obtain t where t: "term_new cfg cols lines 0 = Some t"
    using term_new_ok [OF assms(2,3), of cfg 0] by (auto elim!: okE)
  then have "keyboard_mode_stack t = []" "title_stack t = []" "t_config t = cfg"
    by (auto simp: term_new_def split: bind_splits)
  then show ?case using reach.start [OF t] assms(1) by auto
next
  case (Suc n)
  then obtain t where t: "reach E cfg cols lines t" "length (keyboard_mode_stack t) = n" "title_stack t = []"
      "kitty_keyboard (t_config t)" by auto
  obtain u where u: "push_keyboard_mode NO_MODE t = Some u" "length (keyboard_mode_stack u) = Suc n"
      "title_stack u = []" "t_config u = t_config t"
    using push_keyboard_grows [of t NO_MODE] t Suc.prems by auto
  have "reach E cfg cols lines u"
    by (rule reach.call [OF t(1), where op = "On_Modes (Push_Keyboard_Mode NO_MODE)"])
      (use t(2) u(1) Suc.prems in auto)
  then show ?case using t(4) u by auto
qed

text \<open>
  C40 (error): \<^verbatim>\<open>push_keyboard_mode\<close> makes room on the wrong stack. With the kitty protocol enabled, a program that pushes
  keyboard modes brings the terminal into a state where the next push panics, because it removes the
  first element of the empty title stack.
\<close>

theorem push_keyboard_mode_panics:
  assumes "kitty_keyboard cfg" "MIN_COLUMNS \<le> cols" "MIN_SCREEN_LINES \<le> lines"
  shows "\<exists>t. reach E cfg cols lines t \<and> length (keyboard_mode_stack t) = KEYBOARD_MODE_STACK_MAX_DEPTH
    \<and> push_keyboard_mode k t = None"
proof -
  obtain t where t: "reach E cfg cols lines t" "length (keyboard_mode_stack t) = KEYBOARD_MODE_STACK_MAX_DEPTH"
      "title_stack t = []" "kitty_keyboard (t_config t)"
    using reach_keyboard_depth [OF assms order_refl] by blast
  then have "push_keyboard_mode k t = None" by (simp add: push_keyboard_mode_def vec_remove_first_def)
  then show ?thesis using t by blast
qed

theorem push_keyboard_mode_panics_witness:
  "\<exists>t. reach demo_env demo_config 4 2 t \<and> length (keyboard_mode_stack t) = KEYBOARD_MODE_STACK_MAX_DEPTH
    \<and> push_keyboard_mode NO_MODE t = None"
  by (rule push_keyboard_mode_panics [OF _ demo_size]) (simp add: demo_config_def)

text \<open>
  Popping keyboard modes never fails, also when more are popped than were pushed. The flags of the kitty
  protocol become those of the new top of the stack (none for an empty stack), and no other
  mode of the terminal changes.
\<close>

theorem pop_keyboard_modes_sets_top:
  assumes "kitty_keyboard (t_config t)"
  shows "keyboard_mode_stack (pop_keyboard_modes n t) =
      take (length (keyboard_mode_stack t) - unat n) (keyboard_mode_stack t)
   \<and> (\<forall>i. bit (t_mode (pop_keyboard_modes n t)) i =
      (if 18 \<le> i \<and> i \<le> 22
       then bit (mode_of_keyboard (last_keyboard_mode (keyboard_mode_stack (pop_keyboard_modes n t)))) i
       else bit (t_mode t) i))"
  using assms
  by (auto simp: pop_keyboard_modes_def set_keyboard_mode_def Let_def apply_keyboard_mode_def bit_flag_simps bit_KITTY
      bit_mode_of_keyboard)

theorem pop_keyboard_modes_sets_top_witness:
  "keyboard_mode_stack (pop_keyboard_modes 5 demo_term) =
      take (length (keyboard_mode_stack demo_term) - unat (5 :: 16 word)) (keyboard_mode_stack demo_term)
   \<and> (\<forall>i. bit (t_mode (pop_keyboard_modes 5 demo_term)) i =
      (if 18 \<le> i \<and> i \<le> 22
       then bit (mode_of_keyboard (last_keyboard_mode (keyboard_mode_stack (pop_keyboard_modes 5 demo_term)))) i
       else bit (t_mode demo_term) i))"
proof -
  have "kitty_keyboard (t_config demo_term)" by code_simp
  then show ?thesis by (rule pop_keyboard_modes_sets_top)
qed

section \<open>Reports\<close>

text \<open>
  The version the terminal reports to DA2 (\<^verbatim>\<open>CSI > c\<close>): \<^verbatim>\<open>version_number\<close> reads a version of
  three numbers as one number with two decimal digits for each of the last two parts.
\<close>

theorem version_number_semver:
  assumes "a < 2 ^ 64" "b < 2 ^ 64" "c < 2 ^ 64"
  shows "version_number (dec_digits a @ ''.'' @ dec_digits b @ ''.'' @ dec_digits c) = 10000 * a + 100 * b + c"
proof -
  let ?v = "dec_digits a @ ''.'' @ dec_digits b @ ''.'' @ dec_digits c"
  have sep: "CHR ''.'' \<notin> set (dec_digits n)" "CHR ''-'' \<notin> set (dec_digits n)" for n
    by (simp_all add: dec_digits_no_sign is_digit_def)
  have "rposition (\<lambda>ch. ch = CHR ''-'') ?v = None" using sep(2) by (auto simp: rposition_None)
  then have "strip_suffix_from CHR ''-'' ?v = ?v" by (simp add: strip_suffix_from_def)
  moreover have "split_on CHR ''.'' ?v = [dec_digits a, dec_digits b, dec_digits c]"
    using sep(1) by (simp add: split_on_word split_on_last)
  ultimately show ?thesis using assms by (simp add: version_number_def parse_dec_digits upt_rec)
qed

theorem version_number_semver_witness:
  "version_number (dec_digits 0 @ ''.'' @ dec_digits 25 @ ''.'' @ dec_digits 2) = 10000 * 0 + 100 * 25 + 2"
  by (rule version_number_semver) simp_all

text \<open>
  The answer to the text area query multiplies \<^verbatim>\<open>u16\<close> values. It exists exactly for windows whose height and width
  in pixels are below 65536; for larger ones the multiplication overflows.
\<close>

theorem text_area_response_overflow:
  "text_area_response w = None \<longleftrightarrow>
     65536 \<le> unat (num_lines w) * unat (cell_height w) \<or> 65536 \<le> unat (num_cols w) * unat (cell_width w)"
  by (auto simp: text_area_response_def u16_mul_def split: bind_splits if_splits)

section \<open>Tab stops and attributes\<close>

text \<open>
  With the initial tab stops a tab moves to the next column that is a multiple of eight, or to the last column
  when there is none.
\<close>

theorem tab_to_multiple_of_eight:
  assumes "col < cols"
  shows "next_tab_stop (tabs_new cols) cols col = Some (min (8 * (col div 8 + 1)) (cols - 1))"
proof -
  let ?n = "8 * (col div 8 + 1)"
  obtain r where r: "next_tab_stop (tabs_new cols) cols col = Some r" "col \<le> r" "r < cols"
      "r = cols - 1 \<or> tabs_new cols ! r" "\<forall>i. col < i \<and> i < r \<longrightarrow> \<not> tabs_new cols ! i"
      "col + 1 < cols \<longrightarrow> col < r"
    using next_tab_stop_ok [OF assms tabs_new_length] by (auto elim!: okE)
  have stop: "tabs_new cols ! i \<longleftrightarrow> i mod 8 = 0" if "i < cols" for i
    using that by (simp add: tabs_new_def INITIAL_TABSTOPS_def)
  have n: "col < ?n" "?n mod 8 = 0" "\<And>i. col < i \<Longrightarrow> i mod 8 = 0 \<Longrightarrow> ?n \<le> i" by presburger+
  have "\<not> ?n < r" using r(3,5) n(1,2) stop [of ?n] by auto
  moreover have "r = cols - 1 \<or> ?n \<le> r"
    using r(2,3,4,6) n(3) [of r] stop [of r] assms by (cases "r = col") auto
  ultimately have "r = min ?n (cols - 1)" using r(3) by auto
  then show ?thesis using r(1) by simp
qed

theorem tab_to_multiple_of_eight_witness:
  "next_tab_stop (tabs_new 20) 20 9 = Some (min (8 * (9 div 8 + 1)) (20 - 1))"
  by (rule tab_to_multiple_of_eight) simp

end
