(* ===== verification/Resize.thy ===== *)
theory Resize
  imports Grid_View
begin

text \<open>
  Resizing and reflowing a grid (\<^verbatim>\<open>alacritty_terminal/src/grid/resize.rs\<close>). The loops over the rows pass the
  mutable variables of the source as a tuple: the grid (whose cursor and display offset change), the rows
  written so far and, per loop, the cursor delta or the buffered cells. A \<^verbatim>\<open>Vec\<close> grows at its end.

  The lemmas here treat the number of lines: growing pulls lines out of the scrollback and shrinking pushes the
  lines above the cursor into it, and no other line changes. The columns are the subject of \<open>Reflow\<close>.
\<close>

section \<open>Growing and shrinking the number of lines\<close>

definition move_cursors :: "int \<Rightarrow> grid \<Rightarrow> grid" where
  "move_cursors n g =
     g\<lparr>g_saved_cursor := (g_saved_cursor g)\<lparr>cur_point :=
          Point (line (cur_point (g_saved_cursor g)) + n) (column (cur_point (g_saved_cursor g)))\<rparr>,
       g_cursor := (g_cursor g)\<lparr>cur_point :=
          Point (line (cur_point (g_cursor g)) + n) (column (cur_point (g_cursor g)))\<rparr>\<rparr>"

definition grow_lines :: "nat \<Rightarrow> grid \<Rightarrow> grid option" where
  "grow_lines target g = do {
     lines_added \<leftarrow> csub target (g_lines g);
     st \<leftarrow> grow_visible_lines cell_row_new row_len target (raw g);
     let g = g\<lparr>raw := st, g_lines := target\<rparr>;
     let from_history = min (history_size (grid_dims g)) lines_added;
     g \<leftarrow> (if from_history \<noteq> lines_added
           then grid_scroll_up 0 (int target) (lines_added - from_history) g else Some g);
     let g = move_cursors (int from_history) g;
     let g = g\<lparr>display_offset := display_offset g - lines_added\<rparr>;
     decrease_scroll_limit lines_added g
   }"

definition set_cursor_line :: "int \<Rightarrow> grid \<Rightarrow> grid" where
  "set_cursor_line l g =
     g\<lparr>g_cursor := (g_cursor g)\<lparr>cur_point := Point l (column (cur_point (g_cursor g)))\<rparr>\<rparr>"

definition set_cursor_column :: "nat \<Rightarrow> grid \<Rightarrow> grid" where
  "set_cursor_column col g =
     g\<lparr>g_cursor := (g_cursor g)\<lparr>cur_point := Point (line (cur_point (g_cursor g))) col\<rparr>\<rparr>"

definition shrink_lines :: "nat \<Rightarrow> grid \<Rightarrow> grid option" where
  "shrink_lines target g = do {
     let required_scrolling = usize_of_i32 (line (cur_point (g_cursor g))) + 1 - target;
     g \<leftarrow> (if required_scrolling > 0 then do {
             g \<leftarrow> grid_scroll_up 0 (int (g_lines g)) required_scrolling g;
             Some (set_cursor_line (min (line (cur_point (g_cursor g))) (int target - 1)) g)
           } else Some g);
     let g = g\<lparr>g_saved_cursor := (g_saved_cursor g)\<lparr>cur_point :=
                 Point (min (line (cur_point (g_saved_cursor g))) (int target - 1))
                       (column (cur_point (g_saved_cursor g)))\<rparr>\<rparr>;
     removed \<leftarrow> csub (g_lines g) target;
     st \<leftarrow> storage_rotate (int removed) (raw g);
     st \<leftarrow> shrink_visible_lines target st;
     Some (g\<lparr>raw := st, g_lines := target\<rparr>)
   }"

section \<open>Growing the number of columns\<close>

definition unwrap_cursor :: "bool \<Rightarrow> grid \<Rightarrow> grid" where
  \<comment> \<open>removes the linewrap special case by moving the cursor outside of the grid\<close>
  "unwrap_cursor reflow g =
     (if input_needs_wrap (g_cursor g) \<and> reflow
      then set_cursor_column (column (cur_point (g_cursor g)) + 1)
             (g\<lparr>g_cursor := (g_cursor g)\<lparr>input_needs_wrap := False\<rparr>\<rparr>)
      else g)"

definition should_reflow :: "bool \<Rightarrow> nat \<Rightarrow> cell row \<Rightarrow> bool" where
  "should_reflow reflow cols r \<longleftrightarrow>
     reflow \<and> row_len r > 0 \<and> row_len r < cols
     \<and> flag_contains (cell_flags (row_inner r ! (row_len r - 1))) WRAPLINE"

definition leading_spacer :: cell where
  "leading_spacer = insert_flag LEADING_WIDE_CHAR_SPACER cell_default"

definition cursor_buffer_line :: "grid \<Rightarrow> nat option" where
  "cursor_buffer_line g = do {
     n \<leftarrow> csub (g_lines g) (usize_of_i32 (line (cur_point (g_cursor g))));
     csub n 1
   }"

text \<open>
  The cells that move from the start of a row to the end of the one above it. That row first loses its wrap
  flag and a leading spacer in its last column; the source's \<^verbatim>\<open>last_len\<close> is its length then.
\<close>

definition unwrap_row :: "cell row \<Rightarrow> cell row" where
  "unwrap_row last_row =
     (let last_row = row_last_mut (remove_flag WRAPLINE) last_row;
          last_len = row_len last_row
      in if last_len \<ge> 1
           \<and> flag_contains (cell_flags (row_inner last_row ! (last_len - 1))) LEADING_WIDE_CHAR_SPACER
         then fst (row_shrink cell_is_empty (last_len - 1) last_row) else last_row)"

definition pull_cells :: "nat \<Rightarrow> cell row \<Rightarrow> cell row \<Rightarrow> (cell row \<times> cell row \<times> nat) option" where
  "pull_cells cols last_row row = do {
     num_wrapped \<leftarrow> csub cols (row_len last_row);
     let len = min (row_len row) num_wrapped;
     last \<leftarrow> csub len 1;
     x \<leftarrow> row_index row last;
     if flag_contains (cell_flags x) WIDE_CHAR then do {
       num_wrapped \<leftarrow> csub num_wrapped 1;
       (row, cells) \<leftarrow> row_front_split_off last row;
       Some (row_append (cells @ [leading_spacer]) last_row, row, num_wrapped)
     } else do {
       (row, cells) \<leftarrow> row_front_split_off len row;
       Some (row_append cells last_row, row, num_wrapped)
     }
   }"

text \<open>
  The cursor's line was reflown: the cursor follows its cell. The result says whether the row
  is kept, and by how many lines the cursor moved up.
\<close>

definition reflow_cursor :: "nat \<Rightarrow> cell row \<Rightarrow> grid \<Rightarrow> (grid \<times> bool \<times> nat) option" where
  "reflow_cursor num_wrapped row g = do {
     target \<leftarrow> point_sub (grid_dims g) Boundary_Cursor num_wrapped (cur_point (g_cursor g));
     (target, g) \<leftarrow> (if column target = 0 \<and> row_is_clear cell_is_empty row then do {
         target \<leftarrow> point_sub (grid_dims g) Boundary_Cursor 1 target;
         Some (target, g\<lparr>g_cursor := (g_cursor g)\<lparr>input_needs_wrap := True\<rparr>\<rparr>)
       } else Some (target, g));
     let g = set_cursor_column (column target) g;
     let line_delta = line (cur_point (g_cursor g)) - line target;
     Some (g, \<not> (line_delta \<noteq> 0 \<and> row_is_clear cell_is_empty row),
           if line_delta \<noteq> 0 \<and> row_is_clear cell_is_empty row then 0 else usize_of_i32 line_delta)
   }"

text \<open>A row that became empty is dropped; the viewport and the cursor follow.\<close>

definition drop_clear_row :: "nat \<Rightarrow> nat \<Rightarrow> grid \<Rightarrow> grid" where
  "drop_clear_row i cbl g =
     (let g = (if i < display_offset g then g\<lparr>display_offset := display_offset g - 1\<rparr> else g)
      in if i < cbl then set_cursor_line (line (cur_point (g_cursor g)) + 1) g else g)"

definition grow_step ::
  "bool \<Rightarrow> nat \<Rightarrow> nat \<times> cell row \<Rightarrow> grid \<times> cell row list \<times> nat \<Rightarrow> (grid \<times> cell row list \<times> nat) option" where
  "grow_step reflow cols = (\<lambda>(i, row) (g, reversed, delta).
     if reversed = [] \<or> \<not> should_reflow reflow cols (last reversed) then Some (g, reversed @ [row], delta)
     else do {
       (last_row, row, num_wrapped) \<leftarrow> pull_cells cols (unwrap_row (last reversed)) row;
       let keep = butlast reversed @ [row_last_mut (insert_flag WRAPLINE) last_row, row];
       let dropped = butlast reversed @ [last_row];
       cbl \<leftarrow> cursor_buffer_line g;
       if i = cbl \<and> reflow then do {
         (g, pushed, d) \<leftarrow> reflow_cursor num_wrapped row g;
         Some (g, if pushed then keep else dropped, delta + d)
       }
       else if row_is_clear cell_is_empty row then Some (drop_clear_row i cbl g, dropped, delta)
       else Some (g, keep, delta)
     })"

definition fill_viewport :: "nat \<Rightarrow> grid \<times> cell row list \<Rightarrow> (grid \<times> cell row list) option" where
  "fill_viewport cols = (\<lambda>(g, reversed).
     if length reversed < g_lines g then do {
       let delta = int (g_lines g - length reversed);
       let g = set_cursor_line (max (line (cur_point (g_cursor g)) - delta) 0) g;
       reversed \<leftarrow> resize_with (g_lines g) (cell_row_new cols) reversed;
       Some (g, reversed)
     } else Some (g, reversed))"

definition pull_cursor :: "nat \<Rightarrow> grid \<times> cell row list \<Rightarrow> (grid \<times> cell row list) option" where
  "pull_cursor delta = (\<lambda>(g, reversed).
     if delta \<noteq> 0 then do {
       cbl \<leftarrow> cursor_buffer_line g;
       extra \<leftarrow> csub (length reversed) (g_lines g);
       let available = min cbl extra;
       let overflow = delta - available;
       n \<leftarrow> csub (length reversed + overflow) delta;
       Some (set_cursor_line (max (line (cur_point (g_cursor g)) - int overflow) 0) g, take n reversed)
     } else Some (g, reversed))"

definition grow_columns :: "bool \<Rightarrow> nat \<Rightarrow> grid \<Rightarrow> grid option" where
  "grow_columns reflow cols g = do {
     let g = unwrap_cursor reflow (g\<lparr>g_columns := cols\<rparr>);
     (rows, st) \<leftarrow> take_all (raw g);
     let g = g\<lparr>raw := st\<rparr>;
     (g, reversed, delta) \<leftarrow> for_each (rev (enumerate 0 rows)) (grow_step reflow cols) (g, [], 0);
     (g, reversed) \<leftarrow> fill_viewport cols (g, reversed);
     (g, reversed) \<leftarrow> pull_cursor delta (g, reversed);
     let new_raw = map (\<lambda>r. if row_len r < cols then row_grow cell_default cols r else r) (rev reversed);
     let g = g\<lparr>raw := replace_inner new_raw (raw g)\<rparr>;
     Some (g\<lparr>display_offset := min (display_offset g) (history_size (grid_dims g))\<rparr>)
   }"

section \<open>Shrinking the number of columns\<close>

text \<open>
  The cells that have to wrap: \<open>Some None\<close> when the row fits. Empty cells in front of the cursor count as
  text, which yields a wrapped row without cells.
\<close>

definition wrapped_cells :: "bool \<Rightarrow> nat \<Rightarrow> nat \<Rightarrow> cell list option \<Rightarrow> grid \<Rightarrow> cell list option option" where
  "wrapped_cells reflow cols i shrunk g =
     (if shrunk \<noteq> None \<and> reflow then Some shrunk
      else do {
        cbl \<leftarrow> cursor_buffer_line g;
        Some (if reflow \<and> i = cbl \<and> column (cur_point (g_cursor g)) > cols then Some [] else None)
      })"

definition wrap_wide :: "nat \<Rightarrow> cell row \<Rightarrow> cell list \<Rightarrow> (cell row \<times> cell list) option" where
  \<comment> \<open>inserts a spacer if a wide char would be wrapped into the last column\<close>
  "wrap_wide cols row wrapped =
     (if row_len row \<ge> cols then do {
        last \<leftarrow> csub cols 1;
        x \<leftarrow> row_index row last;
        if flag_contains (cell_flags x) WIDE_CHAR then do {
          row \<leftarrow> row_index_mut last (\<lambda>_. leading_spacer) row;
          Some (row, x # wrapped)
        } else Some (row, wrapped)
      } else Some (row, wrapped))"

definition drop_spacer :: "nat \<Rightarrow> cell row \<Rightarrow> cell list \<Rightarrow> (cell row \<times> cell list option) option" where
  \<comment> \<open>removes a leading spacer from the end of the wrapped cells; \<open>None\<close> if nothing else was wrapped\<close>
  "drop_spacer cols row wrapped =
     (let len = length wrapped in
      if len > 0 \<and> flag_contains (cell_flags (wrapped ! (len - 1))) LEADING_WIDE_CHAR_SPACER then
        if len = 1 then do {
          last \<leftarrow> csub cols 1;
          row \<leftarrow> row_index_mut last (insert_flag WRAPLINE) row;
          Some (row, None)
        } else Some (row, Some (take (len - 1) (wrapped[len - 2 := insert_flag WRAPLINE (wrapped ! (len - 2))])))
      else Some (row, Some wrapped))"

definition joins_next :: "nat \<Rightarrow> nat \<Rightarrow> cell list \<Rightarrow> bool" where
  "joins_next cols i wrapped \<longleftrightarrow>
     wrapped \<noteq> [] \<and> flag_contains (cell_flags (last wrapped)) WRAPLINE \<and> i \<ge> 1 \<and> length wrapped < cols"

definition shrink_cursor :: "nat \<Rightarrow> nat \<Rightarrow> nat \<Rightarrow> grid \<Rightarrow> grid" where
  "shrink_cursor cols i cbl g =
     (let col = column (cur_point (g_cursor g));
          g = (if i = cbl \<and> col < cols \<or> i < cbl
               then set_cursor_line (max (line (cur_point (g_cursor g)) - 1) 0) g else g);
          g = (if i = cbl \<and> col \<ge> cols then set_cursor_column (col - cols) g else g)
      in if i < display_offset g then g\<lparr>display_offset := display_offset g + 1\<rparr> else g)"

definition wrapped_row :: "nat \<Rightarrow> cell list \<Rightarrow> cell row" where
  "wrapped_row cols wrapped =
     row_from_vec (wrapped @ replicate (cols - length wrapped) cell_default) (length wrapped)"

partial_function (option) shrink_row ::
  "bool \<Rightarrow> nat \<Rightarrow> nat \<Rightarrow> cell row \<Rightarrow> grid \<Rightarrow> cell row list \<Rightarrow> (grid \<times> cell row list \<times> cell list option) option" where
  \<comment> \<open>the inner \<^verbatim>\<open>loop\<close>; its result is the grid, the rows written so far and the cells buffered for the next row\<close>
  "shrink_row reflow cols i row g acc =
     (case row_shrink cell_is_empty cols row of (row, shrunk) \<Rightarrow>
        Option.bind (wrapped_cells reflow cols i shrunk g) (\<lambda>fits.
          case fits of
            None \<Rightarrow> Some (g, acc @ [row], None)
          | Some wrapped \<Rightarrow>
              Option.bind (wrap_wide cols row wrapped) (\<lambda>(row, wrapped).
                Option.bind (drop_spacer cols row wrapped) (\<lambda>(row, rest).
                  case rest of
                    None \<Rightarrow> Some (g, acc @ [row], None)
                  | Some wrapped \<Rightarrow>
                      if joins_next cols i wrapped
                      then Some (g, acc @ [row_last_mut (insert_flag WRAPLINE) row],
                                 Some (butlast wrapped @ [remove_flag WRAPLINE (last wrapped)]))
                      else Option.bind (cursor_buffer_line g) (\<lambda>cbl.
                             shrink_row reflow cols i (wrapped_row cols wrapped) (shrink_cursor cols i cbl g)
                               (acc @ [row_last_mut (insert_flag WRAPLINE) row]))))))"

definition shrink_step ::
  "bool \<Rightarrow> nat \<Rightarrow> nat \<times> cell row \<Rightarrow> grid \<times> cell row list \<times> cell list option
     \<Rightarrow> (grid \<times> cell row list \<times> cell list option) option" where
  "shrink_step reflow cols = (\<lambda>(i, row) (g, acc, buffered).
     case buffered of
       None \<Rightarrow> shrink_row reflow cols i row g acc
     | Some cells \<Rightarrow> do {
         cbl \<leftarrow> cursor_buffer_line g;
         let g = (if i = cbl then set_cursor_column (column (cur_point (g_cursor g)) + length cells) g else g);
         shrink_row reflow cols i (row_append_front cells row) g acc
       })"

definition settle_cursor :: "bool \<Rightarrow> nat \<Rightarrow> grid \<Rightarrow> grid option" where
  \<comment> \<open>reflows the primary cursor, or clamps it if reflow is disabled\<close>
  "settle_cursor reflow cols g = do {
     let p = cur_point (g_cursor g);
     if \<not> reflow then do {
       last \<leftarrow> csub cols 1;
       Some (set_cursor_column (min (column p) last) g)
     } else do {
       pending \<leftarrow> (if column p = cols then do {
           last \<leftarrow> csub cols 1;
           x \<leftarrow> grid_cell_at g (Point (line p) last);
           Some (\<not> flag_contains (cell_flags x) WRAPLINE)
         } else Some False);
       if pending then Some (set_cursor_column (column p - 1)
                        (g\<lparr>g_cursor := (g_cursor g)\<lparr>input_needs_wrap := True\<rparr>\<rparr>))
       else do {
         q \<leftarrow> point_grid_clamp (grid_dims g) Boundary_Cursor p;
         Some (g\<lparr>g_cursor := (g_cursor g)\<lparr>cur_point := q\<rparr>\<rparr>)
       }
     }
   }"

definition shrink_columns :: "bool \<Rightarrow> nat \<Rightarrow> grid \<Rightarrow> grid option" where
  "shrink_columns reflow cols g = do {
     let g = unwrap_cursor reflow (g\<lparr>g_columns := cols\<rparr>);
     (rows, st) \<leftarrow> take_all (raw g);
     let g = g\<lparr>raw := st\<rparr>;
     (g, new_raw, buffered) \<leftarrow> for_each (rev (enumerate 0 rows)) (shrink_step reflow cols) (g, [], None);
     let g = g\<lparr>raw := replace_inner (take (max_scroll_limit g + g_lines g) (rev new_raw)) (raw g)\<rparr>;
     let g = g\<lparr>display_offset := min (display_offset g) (history_size (grid_dims g))\<rparr>;
     g \<leftarrow> settle_cursor reflow cols g;
     last \<leftarrow> csub cols 1;
     Some (g\<lparr>g_saved_cursor := (g_saved_cursor g)\<lparr>cur_point :=
               Point (line (cur_point (g_saved_cursor g))) (min (column (cur_point (g_saved_cursor g))) last)\<rparr>\<rparr>)
   }"

definition grid_resize :: "bool \<Rightarrow> nat \<Rightarrow> nat \<Rightarrow> grid \<Rightarrow> grid option" where
  "grid_resize reflow lines cols g = do {
     let template = cur_template (g_cursor g);
     let g = g\<lparr>g_cursor := (g_cursor g)\<lparr>cur_template := cell_default\<rparr>\<rparr>;
     g \<leftarrow> (if g_lines g < lines then grow_lines lines g
           else if g_lines g > lines then shrink_lines lines g else Some g);
     g \<leftarrow> (if g_columns g < cols then grow_columns reflow cols g
           else if g_columns g > cols then shrink_columns reflow cols g else Some g);
     Some (g\<lparr>g_cursor := (g_cursor g)\<lparr>cur_template := template\<rparr>\<rparr>)
   }"

section \<open>The number of lines\<close>

lemma grow_visible_grid_ok:
  assumes "grid_inv b g" "g_lines g \<le> target"
  shows "ok (grow_visible_lines cell_row_new row_len target (raw g)) (\<lambda>st.
    let h = g\<lparr>raw := st, g_lines := target\<rparr> in grid_inv b h \<and> grid_history h = grid_history g
    \<and> (\<forall>l \<ge> - int (grid_history g). grid_lines h (l + int (target - g_lines g)) = grid_lines g l))"
proof -
  note D = grid_okD [OF grid_inv_ok [OF assms(1)]]
  let ?n = "target - g_lines g"
  obtain r0 where r0: "storage_index 0 (raw g) = Some r0" "good_row b (g_columns g) r0"
    using grid_row_ok [OF assms(1), of 0] D(4) by (auto simp: grid_row_def elim!: okE)
  have width: "row_len r0 = g_columns g" using r0(2) by (simp add: good_row_def row_ok_def row_len_def)
  obtain r where r: "cell_row_new (g_columns g) = Some r" using D(3) by (simp add: row_new_def ensure_def)
  have "ok (initialize cell_row_new ?n (g_columns g) (raw g)) (\<lambda>st.
    let h = g\<lparr>raw := st\<lparr>visible_lines := target\<rparr>, g_lines := target\<rparr> in grid_inv b h \<and> grid_history h = grid_history g
    \<and> (\<forall>l \<ge> - int (grid_history g). grid_lines h (l + int ?n) = grid_lines g l))"
  proof (rule ok_mono [OF initialize_ok [where s = "raw g" and mk = cell_row_new, OF D(1) r]], elim conjE)
    fix st assume st: "storage_ok st" "storage_shape st = (visible_lines (raw g), st_len (raw g) + ?n)"
      "\<forall>l. first_line (raw g) \<le> l \<longrightarrow> lines_of st l = lines_of (raw g) l" "pool st \<subseteq> insert r (pool (raw g))"
    let ?h = "g\<lparr>raw := st\<lparr>visible_lines := target\<rparr>, g_lines := target\<rparr>"
    have hist: "grid_history ?h = grid_history g"
      using st(2) assms(2) by (auto simp: history_size_def grid_dims_def storage_shape_def)
    have "\<forall>r \<in> pool st. good_row b (g_columns g) r"
      using st(4) grid_inv_rows [OF assms(1)] good_row_new [OF D(3) r] by blast
    moreover have "storage_ok (st\<lparr>visible_lines := target\<rparr>)"
      using st(1,2) D(1,2,4) assms(2) by (auto simp: storage_ok_def storage_shape_def)
    ultimately have inv: "grid_inv b ?h"
      using hist assms D(5)
      by (auto simp: grid_inv_def grid_ok_def grid_clean_def good_row_def grid_dims_def in_screen_def
          bottommost_line_def)
    have "grid_lines ?h (l + int ?n) = lines_of st l" for l
      using st(2) assms(2) D(2)
      by (auto simp: lines_of_def first_line_def storage_shape_def ring_def intro!: arg_cong [where f = "nth _"])
    then show "let h = ?h in grid_inv b h \<and> grid_history h = grid_history g
        \<and> (\<forall>l \<ge> - int (grid_history g). grid_lines h (l + int ?n) = grid_lines g l)"
      using inv hist st(3) D(7) by (simp add: Let_def)
  qed
  then show ?thesis using assms(2) D(2)
    by (simp add: grow_visible_lines_def r0(1) width csub_def)
qed

lemma decrease_scroll_limit_lines:
  assumes "grid_inv b g"
  shows "ok (decrease_scroll_limit n g) (\<lambda>h. (\<forall>l \<ge> - int (grid_history h). grid_lines h l = grid_lines g l)
    \<and> display_offset h \<le> display_offset g)"
  using grid_shrink_ok [OF assms, of "min n (grid_history g)"]
  by (auto simp: decrease_scroll_limit_def Let_def trimmed_def elim!: ok_mono)

definition pulled :: "grid \<Rightarrow> nat \<Rightarrow> nat" where
  \<comment> \<open>the number of lines that come back from the scrollback\<close>
  "pulled g target = min (grid_history g) (target - g_lines g)"

lemma move_cursors_inv:
  assumes "grid_inv b g" "in_screen (grid_dims g) (Point (line (cur_point (g_cursor g)) + n) (column (cur_point (g_cursor g))))"
    and "in_screen (grid_dims g) (Point (line (cur_point (g_saved_cursor g)) + n) (column (cur_point (g_saved_cursor g))))"
  shows "grid_inv b (move_cursors n g)"
  using assms by (simp add: move_cursors_def grid_inv_def grid_ok_def grid_clean_def grid_dims_def)

text \<open>The scroll that makes room below, if there is any to make.\<close>

lemma make_room_ok:
  assumes "grid_inv b g" "n \<le> g_lines g"
  shows "ok (if n \<noteq> 0 then grid_scroll_up 0 (int (g_lines g)) n g else Some g)
    (\<lambda>h. grid_inv b h \<and> g_cursor h = g_cursor g \<and> g_saved_cursor h = g_saved_cursor g
      \<and> g_columns h = g_columns g \<and> g_lines h = g_lines g \<and> max_scroll_limit h = max_scroll_limit g
      \<and> grid_history h = min (max_scroll_limit g) (grid_history g + n)
      \<and> display_offset h \<le> display_offset g + n \<and> (display_ok g \<longrightarrow> display_ok h)
      \<and> (b \<longrightarrow> scrolled_up 0 (int (g_lines g)) n g h))"
proof (cases "n = 0")
  case True
  then show ?thesis using assms(1) grid_okD(5,8) [OF grid_inv_ok [OF assms(1)]]
    by (auto simp: scrolled_up_def Let_def min_absorb2)
next
  case False
  have "ok (grid_scroll_up 0 (int (g_lines g)) n g) (\<lambda>h. grid_inv b h
    \<and> same_but_rows (g\<lparr>display_offset := scroll_up_offset 0 (int (g_lines g)) n g\<rparr>) h
    \<and> grid_history h = scroll_up_history 0 n g \<and> (b \<longrightarrow> scrolled_up 0 (int (g_lines g)) n g h))"
    using assms by (intro grid_scroll_up_ok) auto
  then show ?thesis
  proof (simp only: False not_False_eq_True if_True, elim ok_mono conjE)
    fix h assume h: "same_but_rows (g\<lparr>display_offset := scroll_up_offset 0 (int (g_lines g)) n g\<rparr>) h"
      "grid_inv b h" "grid_history h = scroll_up_history 0 n g"
      "b \<longrightarrow> scrolled_up 0 (int (g_lines g)) n g h"
    show "grid_inv b h \<and> g_cursor h = g_cursor g \<and> g_saved_cursor h = g_saved_cursor g
      \<and> g_columns h = g_columns g \<and> g_lines h = g_lines g \<and> max_scroll_limit h = max_scroll_limit g
      \<and> grid_history h = min (max_scroll_limit g) (grid_history g + n)
      \<and> display_offset h \<le> display_offset g + n \<and> (display_ok g \<longrightarrow> display_ok h)
      \<and> (b \<longrightarrow> scrolled_up 0 (int (g_lines g)) n g h)"
      using h(2-) same_fields [OF h(1)] grid_okD(5) [OF grid_inv_ok [OF assms(1)]]
      by (auto simp: scroll_up_history_def scroll_up_offset_def display_ok_def)
  qed
qed

lemma grow_lines_ok:
  assumes "grid_inv b g" "g_lines g \<le> target"
  shows "ok (grow_lines target g) (\<lambda>h. grid_inv b h \<and> g_lines h = target \<and> g_columns h = g_columns g
    \<and> max_scroll_limit h = max_scroll_limit g \<and> grid_history h = grid_history g - pulled g target
    \<and> g_cursor h = g_cursor (move_cursors (int (pulled g target)) g)
    \<and> g_saved_cursor h = g_saved_cursor (move_cursors (int (pulled g target)) g)
    \<and> (display_ok g \<longrightarrow> display_ok h)
    \<and> (b \<longrightarrow> (\<forall>l. - int (grid_history h) \<le> l \<and> l < int target \<longrightarrow>
         grid_lines h l = (if l < int (g_lines g + pulled g target) then grid_lines g (l - int (pulled g target))
                           else Some (blank_of g)))))"
proof -
  note D = grid_okD [OF grid_inv_ok [OF assms(1)]]
  define added where "added = target - g_lines g"
  define p where "p = pulled g target"
  have p: "p \<le> added" "p \<le> grid_history g" "p < added \<Longrightarrow> p = grid_history g"
    by (auto simp: p_def added_def pulled_def)
  obtain st where st: "grow_visible_lines cell_row_new row_len target (raw g) = Some st"
    and g1: "grid_inv b (g\<lparr>raw := st, g_lines := target\<rparr>)"
      "grid_history (g\<lparr>raw := st, g_lines := target\<rparr>) = grid_history g"
      "\<forall>l \<ge> - int (grid_history g). lines_of st (l + int added) = grid_lines g l"
    using grow_visible_grid_ok [OF assms] by (auto simp: Let_def added_def elim!: okE)
  define g1 where "g1 = g\<lparr>raw := st, g_lines := target\<rparr>"
  note G1 = g1 [folded g1_def]
  have g1f: "g_lines g1 = target" "g_columns g1 = g_columns g" "g_cursor g1 = g_cursor g" "raw g1 = st"
    "g_saved_cursor g1 = g_saved_cursor g" "max_scroll_limit g1 = max_scroll_limit g"
    "display_offset g1 = display_offset g"
    by (simp_all add: g1_def)
  have room: "added - p \<le> g_lines g1" using assms(2) D(4) by (simp add: g1f added_def)
  obtain k where k: "(if added - p \<noteq> 0 then grid_scroll_up 0 (int target) (added - p) g1 else Some g1) = Some k"
    and K: "grid_inv b k" "g_cursor k = g_cursor g" "g_saved_cursor k = g_saved_cursor g"
      "g_columns k = g_columns g" "g_lines k = target" "max_scroll_limit k = max_scroll_limit g"
      "grid_history k = min (max_scroll_limit g) (grid_history g + (added - p))"
      "display_offset k \<le> display_offset g + (added - p)"
      "b \<longrightarrow> scrolled_up 0 (int target) (added - p) g1 k"
    using make_room_ok [OF G1(1) room, unfolded g1f G1(2)] by (elim okE conjE) simp
  define m where "m = (move_cursors (int p) k)\<lparr>display_offset := display_offset k - added\<rparr>"
  have off: "display_offset (move_cursors n k) = display_offset k" for n by (simp add: move_cursors_def)
  have cursors: "g_cursor (move_cursors n k) = g_cursor (move_cursors n g)"
    "g_saved_cursor (move_cursors n k) = g_saved_cursor (move_cursors n g)" for n
    using K(2,3) by (simp_all add: move_cursors_def)
  have mf: "g_lines m = target" "g_columns m = g_columns g" "raw m = raw k"
    "max_scroll_limit m = max_scroll_limit g" "grid_history m = grid_history k"
    "display_offset m = display_offset k - added"
    "g_cursor m = g_cursor (move_cursors (int p) g)" "g_saved_cursor m = g_saved_cursor (move_cursors (int p) g)"
    using K(4-6) cursors by (simp_all add: m_def move_cursors_def grid_dims_def)
  have m: "grid_inv b m"
    unfolding m_def grid_inv_display
    using K(1) p(1) assms D(4) K(2-5) by (intro move_cursors_inv)
      (auto simp: in_screen_def grid_dims_def bottommost_line_def grid_inv_def grid_ok_def added_def)
  have hist: "grid_history k - added = grid_history g - p"
    using K(7) p D(5) by (cases "p = added") auto
  have unfold: "grow_lines target g = decrease_scroll_limit added m"
    using assms(2) k
    by (simp add: grow_lines_def csub_def st Let_def flip: added_def g1_def)
       (simp add: G1(2) p_def pulled_def m_def off split: if_splits flip: added_def)
  have content: "grid_lines k l = (if l < int (g_lines g + p) then grid_lines g (l - int p) else Some (blank_of g))"
    if b: b and l: "- int (grid_history g - p) \<le> l" "l < int target" for l
  proof -
    have e: "int target - min (int (added - p)) (int target - 0) = int (g_lines g + p)"
      using assms(2) p(1) by (auto simp: added_def)
    have "- int (grid_history k) \<le> l" using l(1) K(7) p D(5) hist by auto
    then have "grid_lines k l = (if int (g_lines g + p) \<le> l \<and> l < int target then Some (blank_of g1)
        else if l < int (g_lines g + p) then grid_lines g1 (l + int (added - p)) else grid_lines g1 l)"
      using K(9) b assms(2) p(1) unfolding scrolled_up_def Let_def e by (auto simp: min_def added_def)
    moreover have "grid_lines g1 (l + int (added - p)) = grid_lines g (l - int p)"
      using G1(3) [rule_format, of "l - int p"] l(1) p(1,2) by (simp add: g1f(4) of_nat_diff algebra_simps)
    ultimately show ?thesis using l(2) by (auto simp: g1f)
  qed
  show ?thesis
  proof (simp only: unfold flip: p_def, rule ok_mono [OF iffD2 [OF ok_conj, OF conjI
      [OF decrease_scroll_limit_ok [OF m, of added] decrease_scroll_limit_lines [OF m, of added]]]], elim conjE)
    fix h assume h: "grid_inv b h" "grid_history h = grid_history m - added" "display_ok m \<longrightarrow> display_ok h"
      "g_lines h = g_lines m" "g_columns h = g_columns m" "max_scroll_limit h = max_scroll_limit m"
      "g_cursor h = g_cursor m" "g_saved_cursor h = g_saved_cursor m"
      "\<forall>l \<ge> - int (grid_history h). grid_lines h l = grid_lines m l" "display_offset h \<le> display_offset m"
    have "display_ok g \<longrightarrow> display_ok h"
      using h(2,10) mf(5,6) K(8) hist p(1) by (auto simp: display_ok_def)
    then show "grid_inv b h \<and> g_lines h = target \<and> g_columns h = g_columns g
    \<and> max_scroll_limit h = max_scroll_limit g \<and> grid_history h = grid_history g - p
    \<and> g_cursor h = g_cursor (move_cursors (int p) g)
    \<and> g_saved_cursor h = g_saved_cursor (move_cursors (int p) g)
    \<and> (display_ok g \<longrightarrow> display_ok h)
    \<and> (b \<longrightarrow> (\<forall>l. - int (grid_history h) \<le> l \<and> l < int target \<longrightarrow>
         grid_lines h l = (if l < int (g_lines g + p) then grid_lines g (l - int p) else Some (blank_of g))))"
      using h(1-9) mf hist content by simp
  qed
qed

text \<open>Dropping the \<open>k\<close> newest rows, after they were rotated out of the way.\<close>

lemma shrink_visible_lines_eq:
  "n \<le> visible_lines s \<Longrightarrow>
     shrink_visible_lines n s = storage_shrink_lines (visible_lines s - n) (s\<lparr>visible_lines := n\<rparr>)"
  by (simp add: shrink_visible_lines_def storage_shrink_lines_def storage_truncate_def rezero_def csub_def
      ensure_def Let_def split: Option.bind_split)

lemma shrink_visible_lines_ok:
  assumes "storage_ok s" "0 < n" "n \<le> visible_lines s"
  shows "ok (shrink_visible_lines n s) (\<lambda>t. storage_ok t
    \<and> storage_shape t = (n, st_len s - (visible_lines s - n)) \<and> pool t \<subseteq> pool s
    \<and> (\<forall>l. first_line s \<le> l \<longrightarrow> lines_of t l = lines_of s (l + int (visible_lines s - n))))"
proof -
  let ?u = "s\<lparr>visible_lines := n\<rparr>" and ?k = "visible_lines s - n"
  have u: "storage_ok ?u" "?k \<le> st_len ?u - visible_lines ?u"
    using assms storage_okD [OF assms(1)] by (simp_all add: storage_ok_def)
  have first: "first_line ?u + int ?k = first_line s" using assms(3) by (simp add: first_line_def)
  have "lines_of ?u l = lines_of s (l + int ?k)" if "first_line s \<le> l" for l
    using that assms(3)
    by (auto simp: lines_of_def first_line_def ring_def intro!: arg_cong [where f = "nth _"])
  then show ?thesis
    using storage_shrink_lines_ok [OF u] unfolding shrink_visible_lines_eq [OF assms(3)] first
    by (auto elim!: ok_mono)
qed

lemma remove_lines_ok:
  assumes "grid_inv b g" "0 < target" "target \<le> g_lines g"
    and "line (cur_point (g_cursor g)) < int target" "line (cur_point (g_saved_cursor g)) < int target"
  shows "ok (do { st \<leftarrow> storage_rotate (int (g_lines g - target)) (raw g); shrink_visible_lines target st })
    (\<lambda>st. let h = g\<lparr>raw := st, g_lines := target\<rparr> in grid_inv b h \<and> grid_history h = grid_history g
      \<and> (\<forall>l. - int (grid_history g) \<le> l \<and> l < int target \<longrightarrow> grid_lines h l = grid_lines g l))"
proof -
  note D = grid_okD [OF grid_inv_ok [OF assms(1)]]
  let ?k = "g_lines g - target"
  have k: "?k \<le> length (st_inner (raw g))" using storage_okD [OF D(1)] D(2) by simp
  obtain st where st: "storage_rotate (int ?k) (raw g) = Some st" "storage_ok st"
    "visible_lines st = g_lines g" "st_len st = st_len (raw g)" "st_inner st = st_inner (raw g)"
    "\<forall>l. first_line (raw g) \<le> l - int ?k \<and> l < int (visible_lines (raw g)) \<longrightarrow> lines_of st l = grid_lines g (l - int ?k)"
    using storage_rotate_down_ok [OF D(1) k] D(2) by (auto simp: storage_shape_def elim!: okE)
  have first: "first_line st = - int (grid_history g)" using st(3,4) D(2,7) by (simp add: first_line_def)
  have "ok (shrink_visible_lines target st) (\<lambda>st. let h = g\<lparr>raw := st, g_lines := target\<rparr>
    in grid_inv b h \<and> grid_history h = grid_history g
      \<and> (\<forall>l. - int (grid_history g) \<le> l \<and> l < int target \<longrightarrow> grid_lines h l = grid_lines g l))"
  proof (rule ok_mono [OF shrink_visible_lines_ok [OF st(2) assms(2)]], simp add: st(3) assms(3), elim conjE)
    fix t assume t: "storage_ok t" "storage_shape t = (target, st_len st - (visible_lines st - target))"
      "pool t \<subseteq> pool st" "\<forall>l. first_line st \<le> l \<longrightarrow> lines_of t l = lines_of st (l + int (visible_lines st - target))"
    let ?h = "g\<lparr>raw := t, g_lines := target\<rparr>"
    have hist: "grid_history ?h = grid_history g"
      using t(2) st(3,4) assms(3) by (auto simp: history_size_def grid_dims_def storage_shape_def)
    have "\<forall>r \<in> pool t. good_row b (g_columns g) r" using t(3) st(5) grid_inv_rows [OF assms(1)] by auto
    then have "grid_inv b ?h"
      using t(1,2) hist assms D(5)
      by (auto simp: grid_inv_def grid_ok_def grid_clean_def good_row_def grid_dims_def in_screen_def
          bottommost_line_def storage_shape_def)
    moreover have "lines_of t l = grid_lines g l" if "- int (grid_history g) \<le> l" "l < int target" for l
      using t(4) [rule_format, of l] that first st(3) D(2,7) assms(3)
        st(6) [rule_format, of "l + int ?k"] by simp
    ultimately show "let h = ?h in grid_inv b h \<and> grid_history h = grid_history g
        \<and> (\<forall>l. - int (grid_history g) \<le> l \<and> l < int target \<longrightarrow> grid_lines h l = grid_lines g l)"
      using hist by (simp add: Let_def)
  qed
  then show ?thesis by (simp add: st(1))
qed

lemma ok_result: "ok m Q \<Longrightarrow> (\<And>x. Q x \<Longrightarrow> P (f x)) \<Longrightarrow> ok (m \<bind> (\<lambda>x. Some (f x))) P"
  by (auto simp: ok_iff)

definition pushed :: "grid \<Rightarrow> nat \<Rightarrow> nat" where
  \<comment> \<open>the number of lines that move into the scrollback\<close>
  "pushed g target = nat (line (cur_point (g_cursor g))) + 1 - target"

abbreviation clamp_line :: "nat \<Rightarrow> point \<Rightarrow> point" where
  "clamp_line n p \<equiv> Point (min (line p) (int n - 1)) (column p)"

lemma shrink_lines_ok:
  assumes "grid_inv b g" "0 < target" "target \<le> g_lines g"
  shows "ok (shrink_lines target g) (\<lambda>h. grid_inv b h \<and> g_lines h = target \<and> g_columns h = g_columns g
    \<and> max_scroll_limit h = max_scroll_limit g
    \<and> grid_history h = min (max_scroll_limit g) (grid_history g + pushed g target)
    \<and> g_cursor h = (g_cursor g)\<lparr>cur_point := clamp_line target (cur_point (g_cursor g))\<rparr>
    \<and> g_saved_cursor h = (g_saved_cursor g)\<lparr>cur_point := clamp_line target (cur_point (g_saved_cursor g))\<rparr>
    \<and> (display_ok g \<longrightarrow> display_ok h)
    \<and> (b \<longrightarrow> (\<forall>l. - int (grid_history h) \<le> l \<and> l < int target \<longrightarrow>
         grid_lines h l = grid_lines g (l + int (pushed g target)))))"
proof -
  note D = grid_okD [OF grid_inv_ok [OF assms(1)]]
  define n where "n = pushed g target"
  let ?p = "cur_point (g_cursor g)"
  have cur: "0 \<le> line ?p" "line ?p < int (g_lines g)"
    using assms(1) by (auto simp: grid_inv_def grid_ok_def in_screen_def grid_dims_def bottommost_line_def)
  have room: "n \<le> g_lines g" "int n + int target \<le> int (g_lines g)"
    using cur assms(3) by (auto simp: n_def pushed_def)
  have n: "nat (line ?p) + 1 - target = n" by (simp add: n_def pushed_def)
  obtain k where k: "(if n \<noteq> 0 then grid_scroll_up 0 (int (g_lines g)) n g else Some g) = Some k"
    and K: "grid_inv b k" "g_cursor k = g_cursor g" "g_saved_cursor k = g_saved_cursor g"
      "g_columns k = g_columns g" "g_lines k = g_lines g" "max_scroll_limit k = max_scroll_limit g"
      "grid_history k = min (max_scroll_limit g) (grid_history g + n)" "display_ok g \<longrightarrow> display_ok k"
      "b \<longrightarrow> scrolled_up 0 (int (g_lines g)) n g k"
    using make_room_ok [OF assms(1) room(1)] by (elim okE conjE) simp
  define m where "m = k\<lparr>g_cursor := (g_cursor k)\<lparr>cur_point := clamp_line target (cur_point (g_cursor k))\<rparr>,
    g_saved_cursor := (g_saved_cursor k)\<lparr>cur_point := clamp_line target (cur_point (g_saved_cursor k))\<rparr>\<rparr>"
  have mf: "raw m = raw k" "g_lines m = g_lines g" "g_columns m = g_columns g" "max_scroll_limit m = max_scroll_limit g"
    "display_offset m = display_offset k" "grid_history m = grid_history k"
    "cur_point (g_cursor m) = clamp_line target ?p"
    "cur_point (g_saved_cursor m) = clamp_line target (cur_point (g_saved_cursor g))"
    using K by (simp_all add: m_def grid_dims_def)
  have m: "grid_inv b m"
    using K(1) assms(2) by (auto simp: m_def grid_inv_def grid_ok_def grid_clean_def grid_dims_def in_screen_def
        bottommost_line_def)
  have at: "n \<noteq> 0 \<or> set_cursor_line (min (line ?p) (int target - 1)) k = k"
    using cur n K(2) by (cases k) (auto simp: set_cursor_line_def min_def)
  have u: "usize_of_i32 (line ?p) + 1 - target = n" using cur(1) n by simp
  have scroll: "(if 0 < usize_of_i32 (line ?p) + 1 - target then do {
        g \<leftarrow> grid_scroll_up 0 (int (g_lines g)) (usize_of_i32 (line ?p) + 1 - target) g;
        Some (set_cursor_line (min (line (cur_point (g_cursor g))) (int target - 1)) g)
      } else Some g) = Some (set_cursor_line (min (line ?p) (int target - 1)) k)"
  proof (cases "n = 0")
    case True
    then show ?thesis using k at by (simp only: u) simp
  next
    case False
    then show ?thesis using k K(2) by (simp only: u) simp
  qed
  have unfold: "shrink_lines target g =
      do { st \<leftarrow> storage_rotate (int (g_lines m - target)) (raw m); shrink_visible_lines target st }
        \<bind> (\<lambda>st. Some (m\<lparr>raw := st, g_lines := target\<rparr>))"
    unfolding shrink_lines_def Let_def scroll using assms(3) K(2,3,5)
    by (simp add: csub_def m_def set_cursor_line_def)
  have below: "line (cur_point (g_cursor m)) < int target" "line (cur_point (g_saved_cursor m)) < int target"
    by (simp_all add: mf)
  show ?thesis
  proof (simp only: unfold flip: n_def, rule ok_result [OF remove_lines_ok [OF m assms(2) _ below]])
    show "target \<le> g_lines m" using assms(3) by (simp add: mf)
    fix st assume st: "let h = m\<lparr>raw := st, g_lines := target\<rparr> in grid_inv b h \<and> grid_history h = grid_history m
      \<and> (\<forall>l. - int (grid_history m) \<le> l \<and> l < int target \<longrightarrow> grid_lines h l = grid_lines m l)"
    let ?h = "m\<lparr>raw := st, g_lines := target\<rparr>"
    have cursors: "g_cursor ?h = (g_cursor g)\<lparr>cur_point := clamp_line target ?p\<rparr>"
      "g_saved_cursor ?h = (g_saved_cursor g)\<lparr>cur_point := clamp_line target (cur_point (g_saved_cursor g))\<rparr>"
      using K(2,3) by (simp_all add: m_def)
    have disp: "display_ok g \<longrightarrow> display_ok ?h"
      using K(8) st mf(5,6) by (simp add: display_ok_def Let_def)
    have "grid_lines m l = grid_lines g (l + int n)"
      if b "- int (grid_history m) \<le> l" "l < int target" for l
      using K(9) that room by (simp add: mf scrolled_up_def Let_def min_def)
    then show "grid_inv b ?h \<and> g_lines ?h = target \<and> g_columns ?h = g_columns g
      \<and> max_scroll_limit ?h = max_scroll_limit g \<and> grid_history ?h = min (max_scroll_limit g) (grid_history g + n)
      \<and> g_cursor ?h = (g_cursor g)\<lparr>cur_point := clamp_line target ?p\<rparr>
      \<and> g_saved_cursor ?h = (g_saved_cursor g)\<lparr>cur_point := clamp_line target (cur_point (g_saved_cursor g))\<rparr>
      \<and> (display_ok g \<longrightarrow> display_ok ?h)
      \<and> (b \<longrightarrow> (\<forall>l. - int (grid_history ?h) \<le> l \<and> l < int target \<longrightarrow> grid_lines ?h l = grid_lines g (l + int n)))"
      using st cursors disp mf K(7) by (simp add: Let_def)
  qed
qed

end
