(* ===== verification/Reflow.thy ===== *)
theory Reflow
  imports Resize
begin

text \<open>
  The reflow loops of \<^verbatim>\<open>alacritty_terminal/src/grid/resize.rs\<close>: they never panic, the inner loop that
  splits a row terminates, the rows they write have the new width and the invariant of the grid holds
  again.
\<close>

section \<open>More columns\<close>

text \<open>While the rows are taken out of the grid, only its cursor and its display offset change.\<close>

definition tracks :: "grid \<Rightarrow> grid \<Rightarrow> bool" where
  "tracks g h \<longleftrightarrow> h = g\<lparr>g_cursor := g_cursor h, display_offset := display_offset h\<rparr>
     \<and> 0 \<le> line (cur_point (g_cursor h)) \<and> line (cur_point (g_cursor h)) < int (g_lines g)"

lemma tracksD:
  assumes "tracks g h"
  shows "g_lines h = g_lines g" "g_columns h = g_columns g" "raw h = raw g"
    "max_scroll_limit h = max_scroll_limit g" "g_saved_cursor h = g_saved_cursor g"
    "grid_dims h = grid_dims g" "0 \<le> line (cur_point (g_cursor h))"
    "line (cur_point (g_cursor h)) < int (g_lines g)"
proof -
  obtain c d where "h = g\<lparr>g_cursor := c, display_offset := d\<rparr>" using assms unfolding tracks_def by blast
  then show "g_lines h = g_lines g" "g_columns h = g_columns g" "raw h = raw g"
    "max_scroll_limit h = max_scroll_limit g" "g_saved_cursor h = g_saved_cursor g"
    "grid_dims h = grid_dims g" by (simp_all add: grid_dims_def)
qed (use assms in \<open>auto simp: tracks_def\<close>)

lemma tracks_cursor:
  assumes "tracks g h" "0 \<le> line (cur_point c)" "line (cur_point c) < int (g_lines g)"
  shows "tracks g (h\<lparr>g_cursor := c\<rparr>)"
proof -
  obtain c' d where "h = g\<lparr>g_cursor := c', display_offset := d\<rparr>" using assms(1) unfolding tracks_def by blast
  then show ?thesis using assms(2,3) by (simp add: tracks_def)
qed

lemma tracks_display:
  assumes "tracks g h"
  shows "tracks g (h\<lparr>display_offset := d\<rparr>)"
proof -
  obtain c d' where "h = g\<lparr>g_cursor := c, display_offset := d'\<rparr>" using assms(1) unfolding tracks_def by blast
  then show ?thesis using assms by (simp add: tracks_def)
qed

lemma tracks_set:
  assumes "tracks g h"
  shows "0 \<le> l \<Longrightarrow> l < int (g_lines g) \<Longrightarrow> tracks g (set_cursor_line l h)" "tracks g (set_cursor_column c h)"
  using assms by (auto simp: set_cursor_line_def set_cursor_column_def intro!: tracks_cursor dest: tracksD)

lemma set_cursor_fields [simp]:
  "column (cur_point (g_cursor (set_cursor_line l h))) = column (cur_point (g_cursor h))"
  "line (cur_point (g_cursor (set_cursor_line l h))) = l"
  "line (cur_point (g_cursor (set_cursor_column c h))) = line (cur_point (g_cursor h))"
  "column (cur_point (g_cursor (set_cursor_column c h))) = c"
  "display_offset (set_cursor_line l h) = display_offset h" "display_offset (set_cursor_column c h) = display_offset h"
  "g_lines (set_cursor_line l h) = g_lines h" "g_lines (set_cursor_column c h) = g_lines h"
  by (simp_all add: set_cursor_line_def set_cursor_column_def)

lemma cursor_buffer_line_ok:
  "tracks g h \<Longrightarrow> cursor_buffer_line h = Some (g_lines g - nat (line (cur_point (g_cursor h))) - 1)"
  by (frule tracksD(1), frule tracksD(7), frule tracksD(8)) (auto simp: cursor_buffer_line_def csub_def nat_less_iff)

lemma sub_cursor_ok:
  assumes "0 < columns d" "0 \<le> line p" "line p \<le> bottommost_line d"
  shows "ok (point_sub d Boundary_Cursor n p) (\<lambda>q. 0 \<le> line q \<and> line q \<le> line p \<and> column q < columns d)"
proof -
  have "last_column d = Some (columns d - 1)" using assms(1) by (simp add: last_column_def csub_def)
  moreover have "min x (columns d - 1) < columns d" for x using assms(1) by linarith
  ultimately show ?thesis using assms by (simp add: point_sub_def point_grid_clamp_def Let_def)
qed

text \<open>A row on its way into a wider grid.\<close>

definition fits :: "nat \<Rightarrow> cell row \<Rightarrow> bool" where
  "fits cols r \<longleftrightarrow> occ r \<le> row_len r \<and> row_len r \<le> cols"

lemma row_last_mut_len [simp]: "row_len (row_last_mut f r) = row_len r" "occ (row_last_mut f r) = row_len r"
  by (simp_all add: row_last_mut_def row_len_def Let_def)

lemma row_shrink_len:
  "n \<le> row_len r \<Longrightarrow> row_len (fst (row_shrink P n r)) = n"
  "occ r \<le> row_len r \<Longrightarrow> n \<le> row_len r \<Longrightarrow> occ (fst (row_shrink P n r)) \<le> n"
  by (auto simp: row_shrink_def row_len_def Let_def)

lemma unwrap_row_fits: "fits cols r \<Longrightarrow> fits cols (unwrap_row r)" "row_len (unwrap_row r) \<le> row_len r"
  using row_shrink_len [where n = "row_len r - 1" and r = "row_last_mut (remove_flag WRAPLINE) r"
      and P = cell_is_empty]
  by (auto simp: unwrap_row_def Let_def fits_def)

lemma pull_cells_ok:
  assumes "fits cols last_row" "row_len last_row < cols" "fits cols row" "0 < row_len row"
  shows "ok (pull_cells cols last_row row) (\<lambda>(l, r, n). fits cols l \<and> fits cols r)"
proof -
  let ?k = "min (row_len row) (cols - row_len last_row)"
  have k: "1 \<le> ?k" "?k - 1 < length (row_inner row)" using assms(2,4) unfolding row_len_def by linarith+
  show ?thesis unfolding pull_cells_def Let_def
    using k assms
    by (auto simp: csub_def row_index_def vec_get_def row_front_split_off_def ensure_def fits_def row_append_def
        row_len_def intro!: diff_le_mono)
qed

lemma reflow_cursor_ok:
  assumes "tracks g h" "0 < g_columns g"
  shows "ok (reflow_cursor n row h) (\<lambda>(k, keep, d). tracks g k \<and> column (cur_point (g_cursor k)) < g_columns g)"
proof -
  note T = tracksD [OF assms(1)]
  have dims: "columns (grid_dims g) = g_columns g" "bottommost_line (grid_dims g) = int (g_lines g) - 1"
    by (simp_all add: grid_dims_def bottommost_line_def)
  have sub: "ok (point_sub (grid_dims g) Boundary_Cursor m p) (\<lambda>q. 0 \<le> line q \<and> line q < int (g_lines g) \<and> column q < g_columns g)"
    if "0 \<le> line p" "line p < int (g_lines g)" for m p
    using sub_cursor_ok [of "grid_dims g" p m] that assms(2) by (auto simp: dims elim!: ok_mono)
  obtain q where q: "point_sub (grid_dims g) Boundary_Cursor n (cur_point (g_cursor h)) = Some q"
    "0 \<le> line q" "line q < int (g_lines g)" "column q < g_columns g"
    using sub [OF T(7,8)] by (auto elim: okE)
  obtain r where r: "point_sub (grid_dims g) Boundary_Cursor 1 q = Some r" "column r < g_columns g"
    using sub [OF q(2,3)] by (auto elim: okE)
  have "tracks g (h\<lparr>g_cursor := (g_cursor h)\<lparr>input_needs_wrap := True\<rparr>\<rparr>)"
    using T by (intro tracks_cursor assms(1)) auto
  then show ?thesis
    using assms(1) q r T by (auto simp: reflow_cursor_def Let_def tracksD intro!: tracks_set)
qed

lemma drop_clear_row_ok:
  assumes "tracks g h" "cursor_buffer_line h = Some cbl"
  shows "tracks g (drop_clear_row i cbl h)"
    "column (cur_point (g_cursor (drop_clear_row i cbl h))) = column (cur_point (g_cursor h))"
proof -
  have "i < cbl \<Longrightarrow> line (cur_point (g_cursor h)) + 1 < int (g_lines g)"
    using assms cursor_buffer_line_ok [OF assms(1)] tracksD(7,8) [OF assms(1)] by auto
  then show "tracks g (drop_clear_row i cbl h)"
    using assms(1) tracksD(7,8) [OF assms(1)] by (auto simp: drop_clear_row_def Let_def intro!: tracks_set tracks_display)
qed (simp add: drop_clear_row_def Let_def)

text \<open>The invariant of the loop over the rows, \<open>n\<close> of which were visited.\<close>

definition growing :: "grid \<Rightarrow> nat \<Rightarrow> grid \<times> cell row list \<times> nat \<Rightarrow> bool" where
  "growing g n = (\<lambda>(h, reversed, delta). tracks g h \<and> column (cur_point (g_cursor h)) < g_columns g
     \<and> list_all (fits (g_columns g)) reversed \<and> length reversed \<le> n)"

lemma list_all_butlast: "list_all P xs \<Longrightarrow> list_all P (butlast xs)"
  by (metis append_butlast_last_id butlast.simps(1) list_all_append)

lemma list_all_last: "list_all P xs \<Longrightarrow> xs \<noteq> [] \<Longrightarrow> P (last xs)"
  by (simp add: list_all_iff)

lemma grow_step_ok:
  assumes "growing g n s" "fits (g_columns g) row" "0 < row_len row"
  shows "ok (grow_step reflow (g_columns g) (i, row) s) (growing g (Suc n))"
proof -
  obtain h reversed delta where s: "s = (h, reversed, delta)" by (cases s)
  have S: "tracks g h" "column (cur_point (g_cursor h)) < g_columns g" "list_all (fits (g_columns g)) reversed"
    "length reversed \<le> n" using assms(1) by (auto simp: s growing_def)
  have pos: "0 < g_columns g" using S(2) by simp
  show ?thesis
  proof (cases "reversed = [] \<or> \<not> should_reflow reflow (g_columns g) (last reversed)")
    case True
    then show ?thesis using S assms(2) by (auto simp: s grow_step_def growing_def)
  next
    case False
    then have ne: "reversed \<noteq> []" "row_len (last reversed) < g_columns g" by (auto simp: should_reflow_def)
    let ?u = "unwrap_row (last reversed)"
    have u: "fits (g_columns g) ?u" "row_len ?u < g_columns g"
      using list_all_last [OF S(3) ne(1)] ne(2) unwrap_row_fits(1) unwrap_row_fits(2) [of "last reversed"]
      by (auto dest: le_less_trans)
    obtain l r w where p: "pull_cells (g_columns g) ?u row = Some (l, r, w)" "fits (g_columns g) l" "fits (g_columns g) r"
      using pull_cells_ok [OF u assms(2,3)] by (auto elim!: okE)
    have len: "length (butlast reversed) + 1 \<le> n" using S(4) ne(1) by (cases reversed) auto
    have rows: "list_all (fits (g_columns g)) (butlast reversed @ [row_last_mut (insert_flag WRAPLINE) l, r])"
      "list_all (fits (g_columns g)) (butlast reversed @ [l])"
      using p(2,3) list_all_butlast [OF S(3)] by (auto simp: fits_def)
    note C = cursor_buffer_line_ok [OF S(1)]
    show ?thesis
      using False p S(1,2) len rows reflow_cursor_ok [OF S(1) pos, of w r] drop_clear_row_ok [OF S(1) C]
      by (auto simp: s grow_step_def growing_def C Let_def elim!: ok_mono)
  qed
qed

text \<open>The rows that are taken out of the grid, and the grid they are written back to.\<close>

lemma take_all_ok:
  assumes "grid_inv b g"
  shows "ok (take_all (raw g)) (\<lambda>(rows, st). length rows = st_len (raw g)
    \<and> (\<forall>r \<in> set rows. good_row b (g_columns g) r) \<and> visible_lines st = g_lines g)"
proof -
  note D = grid_okD [OF grid_inv_ok [OF assms]]
  show ?thesis using storage_truncate_ok [OF D(1)] grid_inv_rows [OF assms] D(2) storage_okD [OF D(1)]
    by (auto simp: take_all_def storage_shape_def elim!: ok_mono)
qed

definition emptied :: "bool \<Rightarrow> nat \<Rightarrow> cell row storage \<Rightarrow> grid \<Rightarrow> grid" where
  \<comment> \<open>the grid when the loops over its rows start\<close>
  "emptied reflow cols st g = (unwrap_cursor reflow (g\<lparr>g_columns := cols\<rparr>))\<lparr>raw := st\<rparr>"

lemma emptied_fields:
  "g_lines (emptied reflow cols st g) = g_lines g" "g_columns (emptied reflow cols st g) = cols"
  "raw (emptied reflow cols st g) = st" "max_scroll_limit (emptied reflow cols st g) = max_scroll_limit g"
  "g_saved_cursor (emptied reflow cols st g) = g_saved_cursor g"
  "line (cur_point (g_cursor (emptied reflow cols st g))) = line (cur_point (g_cursor g))"
  "column (cur_point (g_cursor (emptied reflow cols st g))) \<le> column (cur_point (g_cursor g)) + 1"
  by (auto simp: emptied_def unwrap_cursor_def set_cursor_column_def)

lemma emptied_tracks:
  assumes "grid_inv b g"
  shows "tracks (emptied reflow cols st g) (emptied reflow cols st g)"
  using assms by (auto simp: tracks_def emptied_fields grid_inv_def grid_ok_def in_screen_def grid_dims_def
      bottommost_line_def)

lemma raw_unwrap [simp]: "raw (unwrap_cursor reflow (g\<lparr>g_columns := cols\<rparr>)) = raw g"
  by (simp add: unwrap_cursor_def set_cursor_column_def)

lemma rebuilt_ok:
  assumes "grid_inv b g" "visible_lines st = g_lines g" "tracks (emptied reflow cols st g) h"
    and "\<forall>r \<in> set rows. row_ok cols r" "g_lines g \<le> length rows" "length rows \<le> max_scroll_limit g + g_lines g"
    and "0 \<le> line (cur_point c)" "line (cur_point c) < int (g_lines g)" "column (cur_point c) < cols"
    and "column (cur_point d) < cols" "line (cur_point d) = line (cur_point (g_saved_cursor g))"
    and "k = h\<lparr>raw := replace_inner rows st, g_cursor := c, g_saved_cursor := d\<rparr>"
  shows "grid_ok k \<and> g_lines k = g_lines g \<and> g_columns k = cols \<and> max_scroll_limit k = max_scroll_limit g"
proof -
  note T = tracksD [OF assms(3), unfolded emptied_fields]
  have "0 < g_lines g" "0 < cols" using grid_okD(4) [OF grid_inv_ok [OF assms(1)]] assms(9) by auto
  moreover have "0 \<le> line (cur_point (g_saved_cursor g))" "line (cur_point (g_saved_cursor g)) < int (g_lines g)"
    using assms(1) by (auto simp: grid_inv_def grid_ok_def in_screen_iff)
  ultimately show ?thesis using assms(2,4-) T
    by (auto simp: grid_ok_def storage_ok_def replace_inner_def in_screen_def grid_dims_def bottommost_line_def
        history_size_def)
qed

lemma fill_viewport_ok:
  assumes "growing g n (h, reversed, delta)" "g_lines g \<le> n"
  shows "ok (fill_viewport (g_columns g) (h, reversed)) (\<lambda>(k, rows). growing g n (k, rows, delta) \<and> g_lines g \<le> length rows)"
proof -
  have G: "tracks g h" "column (cur_point (g_cursor h)) < g_columns g" "list_all (fits (g_columns g)) reversed"
    "length reversed \<le> n" using assms(1) by (auto simp: growing_def)
  note T = tracksD [OF G(1)]
  have new: "fits (g_columns g) \<lparr>row_inner = replicate (g_columns g) cell_default, occ = 0\<rparr>"
    by (simp add: fits_def row_len_def)
  have "tracks g (set_cursor_line (max (line (cur_point (g_cursor h)) - d) 0) h)" if "0 \<le> d" for d
    using T that by (intro tracks_set(1) G(1)) auto
  then show ?thesis
    using G T(1) new assms(2) by (auto simp: fill_viewport_def growing_def resize_with_def row_new_def ensure_def list_all_iff)
qed

lemma pull_cursor_ok:
  assumes "growing g n (h, reversed, delta)" "g_lines g \<le> length reversed"
  shows "ok (pull_cursor delta (h, reversed)) (\<lambda>(k, rows). growing g n (k, rows, delta) \<and> g_lines g \<le> length rows)"
proof -
  have G: "tracks g h" "column (cur_point (g_cursor h)) < g_columns g" "list_all (fits (g_columns g)) reversed"
    "length reversed \<le> n" using assms(1) by (auto simp: growing_def)
  note T = tracksD [OF G(1)]
  obtain cbl where cbl: "cursor_buffer_line h = Some cbl" using cursor_buffer_line_ok [OF G(1)] by simp
  define overflow where "overflow = delta - min cbl (length reversed - g_lines g)"
  have size: "delta \<le> length reversed + overflow" "g_lines g \<le> length reversed + overflow - delta"
    using assms(2) by (auto simp: overflow_def min_def)
  have "pull_cursor delta (h, reversed) = (if delta \<noteq> 0
      then Some (set_cursor_line (max (line (cur_point (g_cursor h)) - int overflow) 0) h,
                 take (length reversed + overflow - delta) reversed)
      else Some (h, reversed))"
    using cbl assms(2) T(1) size(1) by (simp add: pull_cursor_def Let_def csub_def flip: overflow_def)
  moreover have "tracks g (set_cursor_line (max (line (cur_point (g_cursor h)) - int overflow) 0) h)"
    using T by (intro tracks_set(1) G(1)) auto
  moreover have "list_all (fits (g_columns g)) (take m reversed)" for m
    using G(3) by (auto simp: list_all_iff dest: in_set_takeD)
  ultimately show ?thesis using G assms(2) size(2) by (auto simp: growing_def)
qed

lemma row_grow_ok:
  "fits cols r \<Longrightarrow> 0 < cols \<Longrightarrow> row_len r < cols \<Longrightarrow> row_ok cols (row_grow cell_default cols r)"
  "fits cols r \<Longrightarrow> 0 < cols \<Longrightarrow> \<not> row_len r < cols \<Longrightarrow> row_ok cols r"
  by (auto simp: fits_def row_ok_def row_grow_def row_len_def)

lemma grid_ok_display [simp]: "grid_ok (g\<lparr>display_offset := d\<rparr>) = grid_ok g"
  by (simp add: grid_ok_def grid_dims_def)

lemma grow_columns_ok:
  assumes "grid_inv b g" "g_columns g < cols"
  shows "ok (grow_columns reflow cols g) (\<lambda>h. grid_ok h \<and> g_lines h = g_lines g \<and> g_columns h = cols
    \<and> max_scroll_limit h = max_scroll_limit g \<and> display_ok h)"
proof -
  note D = grid_okD [OF grid_inv_ok [OF assms(1)]]
  obtain rows st where take: "take_all (raw g) = Some (rows, st)" and rows: "length rows = st_len (raw g)"
    "\<forall>r \<in> set rows. good_row b (g_columns g) r" and st: "visible_lines st = g_lines g"
    using take_all_ok [OF assms(1)] by (auto elim!: okE)
  define G where "G = emptied reflow cols st g"
  note F = emptied_fields [of reflow cols st g, folded G_def]
  have cols: "0 < cols" "column (cur_point (g_cursor G)) < cols" "column (cur_point (g_saved_cursor g)) < cols"
    using assms F(7) by (auto simp: grid_inv_def grid_ok_def in_screen_def grid_dims_def)
  have total: "g_lines g \<le> length rows" "length rows \<le> max_scroll_limit g + g_lines g"
    using rows(1) D(1,2,5) by (auto simp: storage_ok_def history_size_def grid_dims_def)
  have start: "growing G 0 (G, [], 0)"
    using emptied_tracks [OF assms(1), of reflow cols st] cols(2) F(2) by (simp add: growing_def G_def)
  have "ok (for_each (rev (enumerate 0 rows)) (grow_step reflow cols) (G, [], 0))
      (\<lambda>s. growing G (length (rev (enumerate 0 rows))) s)"
  proof (rule ok_for_each [where I = "\<lambda>ys. growing G (length ys)"])
    fix ys x zs t assume x: "rev (enumerate 0 rows) = ys @ x # zs" "growing G (length ys) t"
    have "x \<in> set (rev (enumerate 0 rows))" unfolding x(1) by simp
    then have "snd x \<in> set rows" by (metis enumerate_eq_zip in_set_zipE prod.collapse set_rev)
    then have "fits cols (snd x)" "0 < row_len (snd x)"
      using rows(2) assms(2) by (auto simp: good_row_def row_ok_def fits_def row_len_def)
    then show "ok (grow_step reflow cols x t) (growing G (length (ys @ [x])))"
      using grow_step_ok [OF x(2), of "snd x" reflow "fst x"] by (simp add: F(2))
  qed (use start in simp)
  then obtain h reversed delta where loop:
    "for_each (rev (enumerate 0 rows)) (grow_step reflow cols) (G, [], 0) = Some (h, reversed, delta)"
    and L: "growing G (length rows) (h, reversed, delta)" by (auto elim!: okE)
  obtain h1 r1 where f1: "fill_viewport cols (h, reversed) = Some (h1, r1)" "growing G (length rows) (h1, r1, delta)"
    "g_lines G \<le> length r1"
    using fill_viewport_ok [OF L] total(1) by (auto simp: F(1,2) elim!: okE)
  obtain h2 r2 where f2: "pull_cursor delta (h1, r1) = Some (h2, r2)" "growing G (length rows) (h2, r2, delta)"
    "g_lines G \<le> length r2"
    using pull_cursor_ok [OF f1(2,3)] by (auto elim!: okE)
  define new where "new = map (\<lambda>r. if row_len r < cols then row_grow cell_default cols r else r) (rev r2)"
  have new: "\<forall>r \<in> set new. row_ok cols r" "g_lines g \<le> length new" "length new \<le> max_scroll_limit g + g_lines g"
    using f2(2,3) total(2) row_grow_ok [OF _ cols(1)] by (auto simp: new_def growing_def F list_all_iff)
  define k where "k = h2\<lparr>raw := replace_inner new (raw h2)\<rparr>"
  have T: "tracks (emptied reflow cols st g) h2" "column (cur_point (g_cursor h2)) < cols" "raw h2 = st"
    using f2(2) tracksD(3) [of G h2] F(2,3) by (auto simp: growing_def G_def)
  have k: "grid_ok k \<and> g_lines k = g_lines g \<and> g_columns k = cols \<and> max_scroll_limit k = max_scroll_limit g"
    using tracksD [OF T(1)] F(1) T(2,3) cols(3)
    by (intro rebuilt_ok [OF assms(1) st T(1) new, where c = "g_cursor h2" and d = "g_saved_cursor g"])
       (auto simp: k_def emptied_fields)
  have "grow_columns reflow cols g = Some (k\<lparr>display_offset := min (display_offset k) (grid_history k)\<rparr>)"
    using loop f1(1) f2(1)
    by (simp add: grow_columns_def take Let_def emptied_def [symmetric] G_def [symmetric])
       (simp add: new_def k_def)
  then show ?thesis using k by (simp add: display_ok_def)
qed

section \<open>Fewer columns\<close>

text \<open>A row that is at least as wide as the new grid, and the cells that \<^verbatim>\<open>Row::shrink\<close> cuts off.\<close>

definition overlong :: "nat \<Rightarrow> cell row \<Rightarrow> bool" where
  "overlong cols r \<longleftrightarrow> occ r \<le> row_len r \<and> cols \<le> row_len r"

lemma row_shrink_cases:
  assumes "row_shrink P cols r = (r', shrunk)" "overlong cols r" "0 < cols"
  shows "row_ok cols r'" "shrunk = Some w \<Longrightarrow> length w \<le> row_len r - cols \<and> cols < row_len r"
  using assms by (auto simp: row_shrink_def overlong_def row_ok_def row_len_def Let_def split: if_splits option.splits)

lemma wrapped_cells_ok:
  assumes "tracks g h"
  shows "ok (wrapped_cells reflow cols i shrunk h) (\<lambda>res. \<forall>w. res = Some w \<longrightarrow> shrunk = Some w
    \<or> w = [] \<and> cols < column (cur_point (g_cursor h)) \<and> cursor_buffer_line h = Some i)"
  using cursor_buffer_line_ok [OF assms] by (auto simp: wrapped_cells_def)

lemma wrap_wide_ok:
  assumes "row_ok cols r"
  shows "ok (wrap_wide cols r w) (\<lambda>(r', w'). row_ok cols r' \<and> length w' \<le> length w + 1)"
  using assms by (auto simp: wrap_wide_def row_ok_def row_index_def row_index_mut_def vec_get_def csub_def row_len_def)

lemma drop_spacer_ok:
  assumes "row_ok cols r"
  shows "ok (drop_spacer cols r w) (\<lambda>(r', rest). row_ok cols r' \<and> (\<forall>w'. rest = Some w' \<longrightarrow> length w' \<le> length w))"
  using assms by (auto simp: drop_spacer_def row_ok_def row_index_mut_def vec_get_def csub_def Let_def)

lemma row_ok_last_mut: "row_ok cols r \<Longrightarrow> row_ok cols (row_last_mut f r)"
  by (auto simp: row_ok_def row_last_mut_def Let_def)

lemma wrapped_row_overlong: "overlong cols (wrapped_row cols w)" "row_len (wrapped_row cols w) = max cols (length w)"
  by (auto simp: overlong_def wrapped_row_def row_from_vec_def row_len_def)

lemma shrink_cursor_ok:
  assumes "tracks g h" "0 < cols"
  shows "tracks g (shrink_cursor cols i cbl h)"
    "column (cur_point (g_cursor (shrink_cursor cols i cbl h))) \<le> column (cur_point (g_cursor h))"
    "i = cbl \<Longrightarrow> cols < column (cur_point (g_cursor h)) \<Longrightarrow>
       column (cur_point (g_cursor (shrink_cursor cols i cbl h))) < column (cur_point (g_cursor h))"
proof -
  show "tracks g (shrink_cursor cols i cbl h)"
    using assms tracksD(7,8) [OF assms(1)] by (auto simp: shrink_cursor_def Let_def intro!: tracks_display tracks_set)
qed (use assms(2) in \<open>auto simp: shrink_cursor_def Let_def\<close>)

definition shrunk_to :: "grid \<Rightarrow> cell row list \<Rightarrow> grid \<times> cell row list \<times> cell list option \<Rightarrow> bool" where
  "shrunk_to g acc = (\<lambda>(h, rows, buffered). tracks g h \<and> length acc < length rows
     \<and> (list_all (row_ok (g_columns g)) acc \<longrightarrow> list_all (row_ok (g_columns g)) rows))"

lemma shrunk_to_trans: "shrunk_to g (acc @ [r]) s \<Longrightarrow> row_ok (g_columns g) r \<Longrightarrow> shrunk_to g acc s"
  by (auto simp: shrunk_to_def)

text \<open>
  The inner loop ends: each round shortens the row, or moves the cursor to the left. A width of one column
  would not do, since a wide character takes two cells.
\<close>

lemma shrink_row_ok:
  assumes "tracks g h" "overlong (g_columns g) row" "2 \<le> g_columns g"
  shows "ok (shrink_row reflow (g_columns g) i row h acc) (shrunk_to g acc)"
  using assms
proof (induction "(row_len row, column (cur_point (g_cursor h)))" arbitrary: row h acc
    rule: wf_induct_rule [OF wf_lex_prod [OF wf_less wf_less]])
  case 1
  let ?cols = "g_columns g"
  have pos: "0 < ?cols" using "1.prems"(3) by simp
  obtain r shrunk where sh: "row_shrink cell_is_empty ?cols row = (r, shrunk)" by (cases "row_shrink cell_is_empty ?cols row")
  note R = row_shrink_cases [OF sh "1.prems"(2) pos]
  obtain res where res: "wrapped_cells reflow ?cols i shrunk h = Some res"
    "\<And>w. res = Some w \<Longrightarrow> shrunk = Some w \<or> w = [] \<and> ?cols < column (cur_point (g_cursor h)) \<and> cursor_buffer_line h = Some i"
    using wrapped_cells_ok [OF "1.prems"(1), of reflow ?cols i shrunk] by (elim okE) blast
  have here: "shrunk_to g acc (h, acc @ [r'], buf)" if "row_ok ?cols r'" for r' buf
    using that "1.prems"(1) by (simp add: shrunk_to_def)
  show ?case
  proof (cases res)
    case None
    then show ?thesis using here [OF R(1)] by (subst shrink_row.simps) (simp add: sh res(1))
  next
    case (Some w)
    obtain r1 w1 where w1: "wrap_wide ?cols r w = Some (r1, w1)" "row_ok ?cols r1" "length w1 \<le> length w + 1"
      using wrap_wide_ok [OF R(1), of w] by (auto elim!: okE)
    obtain r2 rest where w2: "drop_spacer ?cols r1 w1 = Some (r2, rest)" "row_ok ?cols r2"
      "\<And>w'. rest = Some w' \<Longrightarrow> length w' \<le> length w1"
      using drop_spacer_ok [OF w1(2), of w1] by (auto elim!: okE)
    note unfold = shrink_row.simps [of reflow ?cols i row h acc] sh res(1) Some w1(1) w2(1)
    show ?thesis
    proof (cases "rest = None \<or> joins_next ?cols i (the rest)")
      case True
      then show ?thesis using here [OF w2(2)] here [OF row_ok_last_mut [OF w2(2)]] by (auto simp: unfold split: option.split)
    next
      case False
      then obtain w2' where rest: "rest = Some w2'" "\<not> joins_next ?cols i w2'" by auto
      let ?cbl = "g_lines g - nat (line (cur_point (g_cursor h))) - 1"
      note cbl = cursor_buffer_line_ok [OF "1.prems"(1)]
      let ?h = "shrink_cursor ?cols i ?cbl h"
      have len: "length w2' \<le> length w + 1" using w2(3) [OF rest(1)] w1(3) by simp
      have "((row_len (wrapped_row ?cols w2'), column (cur_point (g_cursor ?h))),
             (row_len row, column (cur_point (g_cursor h)))) \<in> less_than <*lex*> less_than"
        using res(2) [OF Some]
      proof
        assume "shrunk = Some w"
        then show ?thesis using R(2) [of w] len "1.prems"(3) by (auto simp: wrapped_row_overlong(2))
      next
        assume "w = [] \<and> ?cols < column (cur_point (g_cursor h)) \<and> cursor_buffer_line h = Some i"
        then show ?thesis
          using len "1.prems"(2,3) shrink_cursor_ok(3) [OF "1.prems"(1) pos] cbl
          by (auto simp: wrapped_row_overlong(2) overlong_def)
      qed
      then have "ok (shrink_row reflow ?cols i (wrapped_row ?cols w2') ?h (acc @ [row_last_mut (insert_flag WRAPLINE) r2]))
          (shrunk_to g (acc @ [row_last_mut (insert_flag WRAPLINE) r2]))"
        using "1.hyps" shrink_cursor_ok(1) [OF "1.prems"(1) pos] wrapped_row_overlong(1) "1.prems"(3) by auto
      then show ?thesis using rest shrunk_to_trans [OF _ row_ok_last_mut [OF w2(2)]]
        by (auto simp: unfold cbl elim!: ok_mono)
    qed
  qed
qed

definition shrinking :: "grid \<Rightarrow> nat \<Rightarrow> grid \<times> cell row list \<times> cell list option \<Rightarrow> bool" where
  "shrinking g n = (\<lambda>(h, rows, buffered). tracks g h \<and> n \<le> length rows \<and> list_all (row_ok (g_columns g)) rows)"

lemma shrink_step_ok:
  assumes "shrinking g n s" "overlong (g_columns g) row" "2 \<le> g_columns g"
  shows "ok (shrink_step reflow (g_columns g) (i, row) s) (shrinking g (Suc n))"
proof -
  obtain h acc buf where s: "s = (h, acc, buf)" by (cases s)
  have S: "tracks g h" "n \<le> length acc" "list_all (row_ok (g_columns g)) acc" using assms(1) by (auto simp: s shrinking_def)
  have step: "ok (shrink_row reflow (g_columns g) i r k acc) (shrinking g (Suc n))"
    if "tracks g k" "overlong (g_columns g) r" for k r
    using shrink_row_ok [OF that assms(3), of reflow i acc] S(2,3)
    by (auto simp: shrunk_to_def shrinking_def elim!: ok_mono)
  have "overlong (g_columns g) (row_append_front cells row)" for cells
    using assms(2) by (auto simp: overlong_def row_append_front_def row_len_def)
  then show ?thesis
    using step S(1) assms(2) cursor_buffer_line_ok [OF S(1)] tracks_set(2) [OF S(1)]
    by (auto simp: s shrink_step_def Let_def split: option.split)
qed

lemma settle_cursor_ok:
  assumes "dims_ok (grid_dims k)" "0 \<le> line (cur_point (g_cursor k))" "line (cur_point (g_cursor k)) < int (g_lines k)"
    and "ok (grid_cell_at k (Point (line (cur_point (g_cursor k))) (g_columns k - 1))) (\<lambda>_. True)"
  shows "ok (settle_cursor reflow (g_columns k) k)
    (\<lambda>m. \<exists>c. m = k\<lparr>g_cursor := c\<rparr> \<and> in_screen (grid_dims k) (cur_point c))"
proof -
  have pos: "0 < g_columns k" using assms(1) by (simp add: dims_ok_def grid_dims_def)
  have bottom: "bottommost_line (grid_dims k) = int (g_lines k) - 1" "columns (grid_dims k) = g_columns k"
    by (simp_all add: bottommost_line_def grid_dims_def)
  obtain x where x: "grid_cell_at k (Point (line (cur_point (g_cursor k))) (g_columns k - 1)) = Some x"
    using assms(4) by (auto elim: okE)
  have setc: "\<exists>c. set_cursor_column n k' = k\<lparr>g_cursor := c\<rparr> \<and> in_screen (grid_dims k) (cur_point c)"
    if "n < g_columns k" "k' = k\<lparr>g_cursor := c'\<rparr>" "cur_point c' = cur_point (g_cursor k)" for n k' c'
    using that assms(2,3) by (intro exI [of _ "c'\<lparr>cur_point := Point (line (cur_point (g_cursor k))) n\<rparr>"])
      (simp add: set_cursor_column_def in_screen_iff)
  have 1: "\<exists>c. set_cursor_column (min n (g_columns k - 1)) k = k\<lparr>g_cursor := c\<rparr> \<and> in_screen (grid_dims k) (cur_point c)" for n
    using pos by (intro setc [where c' = "g_cursor k"]) auto
  have 2: "\<exists>c. set_cursor_column (g_columns k - 1) (k\<lparr>g_cursor := (g_cursor k)\<lparr>input_needs_wrap := True\<rparr>\<rparr>)
      = k\<lparr>g_cursor := c\<rparr> \<and> in_screen (grid_dims k) (cur_point c)"
    using pos by (intro setc [where c' = "(g_cursor k)\<lparr>input_needs_wrap := True\<rparr>"]) auto
  obtain q where q: "point_grid_clamp (grid_dims k) Boundary_Cursor (cur_point (g_cursor k)) = Some q"
    "in_screen (grid_dims k) q"
    using point_clamp_cases(1) [OF assms(1), of "cur_point (g_cursor k)"] assms(2,3) pos
    by (auto simp: in_screen_iff bottom)
  have 3: "\<exists>c. k\<lparr>g_cursor := (g_cursor k)\<lparr>cur_point := q\<rparr>\<rparr> = k\<lparr>g_cursor := c\<rparr> \<and> in_screen (grid_dims k) (cur_point c)"
    using q(2) by (intro exI [of _ "(g_cursor k)\<lparr>cur_point := q\<rparr>"]) simp
  show ?thesis
    using pos 1 [of "column (cur_point (g_cursor k))"] 2 3
    by (simp add: settle_cursor_def csub_def x [unfolded One_nat_def] q(1) Let_def)
qed

lemma shrink_columns_ok:
  assumes "grid_inv b g" "cols < g_columns g" "2 \<le> cols"
  shows "ok (shrink_columns reflow cols g) (\<lambda>h. grid_ok h \<and> g_lines h = g_lines g \<and> g_columns h = cols
    \<and> max_scroll_limit h = max_scroll_limit g \<and> display_ok h)"
proof -
  note D = grid_okD [OF grid_inv_ok [OF assms(1)]]
  obtain rows st where take: "take_all (raw g) = Some (rows, st)" and rows: "length rows = st_len (raw g)"
    "\<forall>r \<in> set rows. good_row b (g_columns g) r" and st: "visible_lines st = g_lines g"
    using take_all_ok [OF assms(1)] by (auto elim!: okE)
  define G where "G = emptied reflow cols st g"
  note F = emptied_fields [of reflow cols st g, folded G_def]
  have "ok (for_each (rev (enumerate 0 rows)) (shrink_step reflow cols) (G, [], None))
      (\<lambda>s. shrinking G (length (rev (enumerate 0 rows))) s)"
  proof (rule ok_for_each [where I = "\<lambda>ys. shrinking G (length ys)"])
    show "shrinking G (length []) (G, [], None)"
      using emptied_tracks [OF assms(1), of reflow cols st] by (simp add: shrinking_def G_def)
    fix ys x zs t assume x: "rev (enumerate 0 rows) = ys @ x # zs" "shrinking G (length ys) t"
    have "x \<in> set (rev (enumerate 0 rows))" unfolding x(1) by simp
    then have "snd x \<in> set rows" by (metis enumerate_eq_zip in_set_zipE prod.collapse set_rev)
    then have "overlong cols (snd x)"
      using rows(2) assms(2) by (auto simp: good_row_def row_ok_def overlong_def row_len_def)
    then show "ok (shrink_step reflow cols x t) (shrinking G (length (ys @ [x])))"
      using shrink_step_ok [OF x(2), of "snd x" reflow "fst x"] assms(3) by (simp add: F(2))
  qed
  then obtain h acc buf where loop:
    "for_each (rev (enumerate 0 rows)) (shrink_step reflow cols) (G, [], None) = Some (h, acc, buf)"
    and L: "tracks G h" "length rows \<le> length acc" "list_all (row_ok cols) acc"
    by (auto simp: shrinking_def F elim!: okE)
  note T = tracksD [OF L(1), unfolded F]
  define new where "new = take (max_scroll_limit g + g_lines g) (rev acc)"
  have new: "\<forall>r \<in> set new. row_ok cols r" "g_lines g \<le> length new" "length new \<le> max_scroll_limit g + g_lines g"
    using L(2,3) rows(1) storage_okD(2) [OF D(1)] D(2) by (auto simp: new_def list_all_iff dest: in_set_takeD)
  define k where "k = h\<lparr>raw := replace_inner new st\<rparr>"
  let ?c0 = "(g_cursor h)\<lparr>cur_point := Point (line (cur_point (g_cursor h))) 0\<rparr>"
  let ?clamp = "\<lambda>c. c\<lparr>cur_point := Point (line (cur_point c)) (min (column (cur_point c)) (cols - 1))\<rparr>"
  have built: "grid_ok m \<and> g_lines m = g_lines g \<and> g_columns m = cols \<and> max_scroll_limit m = max_scroll_limit g"
    if "m = h\<lparr>raw := replace_inner new st, g_cursor := c, g_saved_cursor := ?clamp (g_saved_cursor g)\<rparr>"
      "0 \<le> line (cur_point c)" "line (cur_point c) < int (g_lines g)" "column (cur_point c) < cols" for m c
    using that assms(3) by (intro rebuilt_ok [OF assms(1) st L(1) [unfolded G_def] new]) auto
  define k0 where "k0 = h\<lparr>raw := replace_inner new st, g_cursor := ?c0, g_saved_cursor := ?clamp (g_saved_cursor g)\<rparr>"
  have k0: "grid_ok k0" "g_lines k0 = g_lines g" "g_columns k0 = cols"
    using built [of k0 ?c0] T assms(3) by (auto simp: k0_def)
  have kf: "g_lines k = g_lines g" "g_columns k = cols" "max_scroll_limit k = max_scroll_limit g"
    "g_cursor k = g_cursor h" "g_saved_cursor k = g_saved_cursor g" "grid_dims k = grid_dims k0"
    using T by (simp_all add: k_def k0_def grid_dims_def)
  define k1 where "k1 = k\<lparr>display_offset := min (display_offset k) (grid_history k)\<rparr>"
  have at: "grid_cell_at k1 p = grid_cell_at k0 p" for p by (simp add: grid_cell_at_def grid_row_def k1_def k_def k0_def)
  have "in_grid (grid_dims k0) (Point (line (cur_point (g_cursor h))) (cols - 1))"
    using T assms(3) k0 by (intro in_screen_in_grid) (simp add: in_screen_iff)
  then have cell: "ok (grid_cell_at k1 (Point (line (cur_point (g_cursor h))) (cols - 1))) (\<lambda>_. True)"
    unfolding at by (rule ok_mono [OF grid_cell_ok [OF k0(1)]]) simp
  have "ok (settle_cursor reflow (g_columns k1) k1) (\<lambda>m. \<exists>c. m = k1\<lparr>g_cursor := c\<rparr> \<and> in_screen (grid_dims k1) (cur_point c))"
    using cell T kf grid_okD(6) [OF k0(1)] by (intro settle_cursor_ok) (auto simp: k1_def)
  then obtain c where c: "settle_cursor reflow cols k1 = Some (k1\<lparr>g_cursor := c\<rparr>)" "in_screen (grid_dims k1) (cur_point c)"
    using kf(2) by (auto simp: k1_def elim!: okE)
  define m where "m = k1\<lparr>g_cursor := c, g_saved_cursor := ?clamp (g_saved_cursor g)\<rparr>"
  have "grid_ok (m\<lparr>display_offset := display_offset h\<rparr>)
      \<and> g_lines (m\<lparr>display_offset := display_offset h\<rparr>) = g_lines g
      \<and> g_columns (m\<lparr>display_offset := display_offset h\<rparr>) = cols
      \<and> max_scroll_limit (m\<lparr>display_offset := display_offset h\<rparr>) = max_scroll_limit g"
    using c(2) kf k0 by (intro built [of _ c]) (auto simp: m_def k1_def k_def in_screen_iff)
  moreover have "display_ok m" by (simp add: display_ok_def m_def k1_def grid_dims_def)
  moreover have "shrink_columns reflow cols g = Some m"
    using loop c(1) [unfolded k1_def k_def new_def] assms(3) kf(5) T(1,3-5)
    by (simp add: shrink_columns_def take Let_def emptied_def [symmetric] G_def [symmetric])
       (simp add: csub_def m_def k1_def k_def new_def)
  ultimately show ?thesis by simp
qed

lemma grid_resize_ok:
  assumes "grid_inv b g" "0 < lines" "2 \<le> cols"
  shows "ok (grid_resize reflow lines cols g) (\<lambda>h. grid_ok h \<and> g_lines h = lines \<and> g_columns h = cols
    \<and> max_scroll_limit h = max_scroll_limit g \<and> (display_ok g \<longrightarrow> display_ok h))"
proof -
  let ?t = "\<lambda>t g. g\<lparr>g_cursor := (g_cursor g)\<lparr>cur_template := t\<rparr>\<rparr>"
  have t: "grid_ok (?t t k) = grid_ok k" "display_ok (?t t k) = display_ok k" for t k
    by (simp_all add: grid_ok_def display_ok_def grid_dims_def)
  let ?g = "?t cell_default g"
  have g: "grid_inv False ?g" using t(1) [of cell_default g] grid_inv_ok [OF assms(1)] by simp
  have "ok (if g_lines ?g < lines then grow_lines lines ?g else if g_lines ?g > lines then shrink_lines lines ?g else Some ?g)
    (\<lambda>h. grid_ok h \<and> g_lines h = lines \<and> g_columns h = g_columns g \<and> max_scroll_limit h = max_scroll_limit g
      \<and> (display_ok g \<longrightarrow> display_ok h))"
    using grow_lines_ok [OF g, of lines] shrink_lines_ok [OF g assms(2)] g
    by (auto simp: t(2) elim!: ok_mono)
  then obtain h where h: "(if g_lines ?g < lines then grow_lines lines ?g else if g_lines ?g > lines then shrink_lines lines ?g else Some ?g)
      = Some h" "grid_inv False h" "g_lines h = lines" "g_columns h = g_columns g" "max_scroll_limit h = max_scroll_limit g"
    "display_ok g \<longrightarrow> display_ok h"
    by (auto elim!: okE)
  have "ok (if g_columns h < cols then grow_columns reflow cols h else if g_columns h > cols then shrink_columns reflow cols h
      else Some h)
    (\<lambda>k. grid_ok k \<and> g_lines k = lines \<and> g_columns k = cols \<and> max_scroll_limit k = max_scroll_limit g
      \<and> (display_ok g \<longrightarrow> display_ok k))"
    using grow_columns_ok [OF h(2), of cols reflow] shrink_columns_ok [OF h(2) _ assms(3), of reflow] h(2-)
    by (auto elim!: ok_mono)
  then show ?thesis using h(1) t by (auto simp: grid_resize_def Let_def elim!: ok_mono)
qed

end
