(* ===== verification/Reflow_Text.thy ===== *)
theory Reflow_Text
  imports Reflow "HOL-Library.Sublist"
begin

text \<open>
  What reflowing does to the text. The letters of the grid, read from the oldest line of the
  scrollback to the bottom of the screen, are neither reordered nor duplicated: shrinking the columns keeps a
  suffix of them (all of them while the scrollback has room), growing keeps a prefix (all of them if the
  cursor is on the last line; else the source deletes lines below the cursor to pull the cursor's line down).
\<close>

section \<open>The text of a grid\<close>

text \<open>
  The letters of a row are its characters without blanks. The text of the grid are the letters of
  all its rows, from the oldest line of the scrollback to the bottom of the screen.
\<close>

definition letter :: "cell \<Rightarrow> uchar list" where
  "letter x = (if cell_c x = 32 \<or> cell_c x = 9 then [] else [cell_c x])"

definition letters :: "cell list \<Rightarrow> uchar list" where
  "letters xs = concat (map letter xs)"

abbreviation row_letters :: "cell row \<Rightarrow> uchar list" where
  "row_letters r \<equiv> letters (row_inner r)"

definition text_of :: "cell row list \<Rightarrow> uchar list" where
  "text_of rows = concat (map row_letters rows)"

definition grid_rows :: "grid \<Rightarrow> cell row list" where
  "grid_rows g = take (st_len (raw g)) (ring (raw g))"

definition grid_text :: "grid \<Rightarrow> uchar list" where
  "grid_text g = text_of (rev (grid_rows g))"

text \<open>A leading spacer, the filler in front of a wide character that did not fit, shows no character.\<close>

definition spacer_blank :: "cell \<Rightarrow> bool" where
  "spacer_blank x \<longleftrightarrow> (flag_contains (cell_flags x) LEADING_WIDE_CHAR_SPACER \<longrightarrow> letter x = [])"

abbreviation spacers_blank :: "cell list \<Rightarrow> bool" where
  "spacers_blank xs \<equiv> list_all spacer_blank xs"

lemma letter_simps [simp]:
  "letter (insert_flag f x) = letter x" "letter (remove_flag f x) = letter x" "letter leading_spacer = []"
  "letter cell_default = []" "cell_is_empty x \<Longrightarrow> letter x = []"
  by (auto simp: letter_def insert_flag_def remove_flag_def leading_spacer_def cell_default_def cell_is_empty_def)

lemma letters_simps [simp]:
  "letters [] = []" "letters (xs @ ys) = letters xs @ letters ys" "letters (x # xs) = letter x @ letters xs"
  "letters (replicate n cell_default) = []"
  by (auto simp: letters_def)

lemma text_of_simps [simp]:
  "text_of [] = []" "text_of (xs @ ys) = text_of xs @ text_of ys" "text_of (r # rows) = row_letters r @ text_of rows"
  by (simp_all add: text_of_def)

lemma letters_empty: "(\<forall>x \<in> set xs. cell_is_empty x) \<Longrightarrow> letters xs = []"
  by (induction xs) auto

lemma letters_split: "letters xs = letters (take n xs) @ letters (drop n xs)"
  by (metis append_take_drop_id letters_simps(2))

lemma letters_update:
  assumes "i < length xs \<Longrightarrow> letter v = letter (xs ! i)"
  shows "letters (xs[i := v]) = letters xs"
proof -
  have "map letter (xs[i := v]) = map letter xs"
    using assms by (metis list_update_beyond list_update_id map_update not_le)
  then show ?thesis by (simp only: letters_def)
qed

lemma spacer_blank_simps [simp]:
  "spacer_blank leading_spacer" "spacer_blank cell_default"
  "spacer_blank (insert_flag WRAPLINE x) = spacer_blank x" "spacer_blank (remove_flag WRAPLINE x) = spacer_blank x"
proof -
  have d: "\<not> flag_intersects WRAPLINE LEADING_WIDE_CHAR_SPACER"
    by (simp add: flag_intersects_def WRAPLINE_def LEADING_WIDE_CHAR_SPACER_def)
  show "spacer_blank (insert_flag WRAPLINE x) = spacer_blank x" "spacer_blank (remove_flag WRAPLINE x) = spacer_blank x"
    using flag_contains_insert_disjoint [OF d] flag_contains_remove_other [OF d]
    by (simp_all add: spacer_blank_def) (simp_all add: insert_flag_def remove_flag_def)
qed (simp_all add: spacer_blank_def)

lemma spacers_blank_update: "spacers_blank xs \<Longrightarrow> spacer_blank v \<Longrightarrow> spacers_blank (xs[i := v])"
  by (auto simp: list_all_iff dest!: set_update_subset_insert [THEN subsetD])

lemma spacers_blank_part: "spacers_blank xs \<Longrightarrow> spacers_blank (take n xs) \<and> spacers_blank (drop n xs)"
  by (auto simp: list_all_iff dest: in_set_takeD in_set_dropD)

lemma last_mut_letters [simp]:
  "row_letters (row_last_mut (insert_flag f) r) = row_letters r" "row_letters (row_last_mut (remove_flag f) r) = row_letters r"
  by (auto simp: row_last_mut_def Let_def letters_update)

lemma last_mut_spacers:
  assumes "spacers_blank (row_inner r)"
  shows "spacers_blank (row_inner (row_last_mut (insert_flag WRAPLINE) r))"
    "spacers_blank (row_inner (row_last_mut (remove_flag WRAPLINE) r))"
  using assms by (auto simp: row_last_mut_def Let_def list_all_length nth_list_update)

section \<open>Fewer columns\<close>

lemma row_shrink_letters:
  assumes "row_shrink cell_is_empty cols row = (r, shrunk)"
  shows "row_letters row = row_letters r @ (case shrunk of None \<Rightarrow> [] | Some w \<Rightarrow> letters w)"
    and "spacers_blank (row_inner row) \<Longrightarrow> spacers_blank (row_inner r) \<and> (\<forall>w. shrunk = Some w \<longrightarrow> spacers_blank w)"
proof -
  define rest where "rest = drop cols (row_inner row)"
  define n where "n = (case rposition (\<lambda>x. \<not> cell_is_empty x) rest of None \<Rightarrow> 0 | Some i \<Rightarrow> i + 1)"
  have "\<forall>x \<in> set (drop n rest). cell_is_empty x"
  proof (cases "rposition (\<lambda>x. \<not> cell_is_empty x) rest")
    case None
    then show ?thesis by (auto simp: rposition_None dest: in_set_dropD)
  next
    case (Some i)
    then show ?thesis using rposition_Some(3) [OF Some] by (auto simp: n_def in_set_conv_nth)
  qed
  then have blank: "letters (take n rest) = letters rest"
    using letters_split [of rest n] letters_empty by simp
  have eq: "row_letters row = letters (take cols (row_inner row)) @ letters rest"
    unfolding rest_def by (rule letters_split)
  show "row_letters row = row_letters r @ (case shrunk of None \<Rightarrow> [] | Some w \<Rightarrow> letters w)"
    using assms eq blank by (auto simp: row_shrink_def Let_def simp flip: rest_def n_def split: if_splits)
  show "spacers_blank (row_inner r) \<and> (\<forall>w. shrunk = Some w \<longrightarrow> spacers_blank w)" if "spacers_blank (row_inner row)"
    using assms spacers_blank_part [OF that, of cols] spacers_blank_part [of rest n]
    by (auto simp: row_shrink_def Let_def simp flip: rest_def n_def split: if_splits)
qed

lemma wrap_wide_letters:
  assumes "wrap_wide cols r w = Some (r', w')" "row_ok cols r"
  shows "row_letters r' @ letters w' = row_letters r @ letters w"
    and "spacers_blank (row_inner r) \<and> spacers_blank w \<Longrightarrow> spacers_blank (row_inner r') \<and> spacers_blank w'"
proof -
  let ?x = "row_inner r ! (cols - 1)" and ?xs = "take (cols - 1) (row_inner r)"
  have r: "row_inner r = ?xs @ [?x]" "0 < cols"
    using assms(2) by (auto simp: row_ok_def simp flip: take_Suc_conv_app_nth)
  have upd: "(row_inner r)[cols - 1 := v] = ?xs @ [v]" for v
    using assms(2) by (auto simp: row_ok_def upd_conv_take_nth_drop)
  have cases: "r' = r \<and> w' = w \<or> row_inner r' = ?xs @ [leading_spacer] \<and> w' = ?x # w"
    using assms upd [of leading_spacer]
    by (auto simp: wrap_wide_def row_ok_def row_index_def row_index_mut_def vec_get_def csub_def row_len_def split: if_splits)
  have "letters (row_inner r) = letters ?xs @ letter ?x" by (subst r(1)) simp
  then show "row_letters r' @ letters w' = row_letters r @ letters w" using cases by auto
  have "spacers_blank (row_inner r) \<longleftrightarrow> spacers_blank ?xs \<and> spacer_blank ?x" by (subst r(1)) simp
  then show "spacers_blank (row_inner r) \<and> spacers_blank w \<Longrightarrow> spacers_blank (row_inner r') \<and> spacers_blank w'"
    using cases by auto
qed

abbreviation rest_letters :: "cell list option \<Rightarrow> uchar list" where
  "rest_letters buf \<equiv> (case buf of None \<Rightarrow> [] | Some w \<Rightarrow> letters w)"

abbreviation rest_blank :: "cell list option \<Rightarrow> bool" where
  "rest_blank buf \<equiv> (case buf of None \<Rightarrow> True | Some w \<Rightarrow> spacers_blank w)"

lemma drop_spacer_letters:
  assumes "drop_spacer cols r w = Some (r', rest)" "row_ok cols r" "spacers_blank (row_inner r)" "spacers_blank w"
  shows "row_letters r' @ rest_letters rest = row_letters r @ letters w \<and> spacers_blank (row_inner r') \<and> rest_blank rest"
proof -
  consider "r' = r" "rest = Some w"
    | v where "w = [v]" "rest = None" "spacer_blank v" "flag_contains (cell_flags v) LEADING_WIDE_CHAR_SPACER"
        "row_inner r' = (row_inner r)[cols - 1 := insert_flag WRAPLINE (row_inner r ! (cols - 1))]"
    | v u vs where "w = vs @ [u, v]" "r' = r" "rest = Some (vs @ [insert_flag WRAPLINE u])" "spacer_blank v"
        "flag_contains (cell_flags v) LEADING_WIDE_CHAR_SPACER"
  proof (cases w rule: rev_cases)
    case (snoc us v)
    then show ?thesis
    proof (cases us rule: rev_cases)
      case Nil
      then show ?thesis using assms snoc that(1,2)
        by (auto simp: drop_spacer_def row_ok_def row_index_mut_def vec_get_def csub_def split: if_splits)
    next
      case (snoc vs u)
      then show ?thesis using assms \<open>w = us @ [v]\<close> that(1,3)
        by (auto simp: drop_spacer_def Let_def nth_append list_update_append split: if_splits)
    qed
  qed (use assms that(1) in \<open>auto simp: drop_spacer_def\<close>)
  then show ?thesis
  proof cases
    case 2
    then have "letter v = []" by (simp add: spacer_blank_def)
    then show ?thesis using 2 assms(2,3) letters_update [of "cols - 1" "row_inner r"]
      by (auto simp: row_ok_def list_all_length nth_list_update)
  next
    case 3
    then have "letter v = []" by (simp add: spacer_blank_def)
    then show ?thesis using 3 assms(3,4) by simp
  qed (use assms in simp)
qed

lemma wrapped_row_letters: "row_letters (wrapped_row cols w) = letters w"
  "spacers_blank w \<Longrightarrow> spacers_blank (row_inner (wrapped_row cols w))"
  by (auto simp: wrapped_row_def row_from_vec_def list_all_iff)

lemma butlast_letters:
  assumes "w \<noteq> []"
  shows "letters (butlast w @ [remove_flag WRAPLINE (last w)]) = letters w"
    "spacers_blank w \<Longrightarrow> spacers_blank (butlast w @ [remove_flag WRAPLINE (last w)])"
  using assms by (cases w rule: rev_cases; simp)+

text \<open>One row: what it showed is in the rows written, then in the buffered cells.\<close>

definition splits :: "nat \<Rightarrow> cell row \<Rightarrow> cell row list \<Rightarrow> grid \<times> cell row list \<times> cell list option \<Rightarrow> bool" where
  "splits i row acc = (\<lambda>(h, rows, buf). spacers_blank (row_inner row) \<longrightarrow>
     text_of rows @ rest_letters buf = text_of acc @ row_letters row \<and> rest_blank buf \<and> (buf \<noteq> None \<longrightarrow> 1 \<le> i))"

lemma shrink_row_splits:
  assumes "shrink_row True cols i row h acc = Some res" "overlong cols row" "0 < cols"
  shows "splits i row acc res"
proof -
  let ?P = "\<lambda>reflow cols i row h acc res. reflow \<longrightarrow> overlong cols row \<longrightarrow> 0 < cols \<longrightarrow> splits i row acc res"
  have "?P True cols i row h acc res" using _ assms(1)
  proof (rule shrink_row.raw_induct [where P = ?P], goal_cases)
    case (1 rec reflow cols i row h acc res)
    note hyps = 1(1) and prems = 1(2)
    show ?case
    proof (intro impI)
      assume A: "reflow" "overlong cols row" "0 < cols"
      obtain r shrunk where sh: "row_shrink cell_is_empty cols row = (r, shrunk)" by (cases "row_shrink cell_is_empty cols row")
      note R = row_shrink_letters [OF sh] row_shrink_cases [OF sh A(2,3)]
      obtain fits where fits: "wrapped_cells reflow cols i shrunk h = Some fits" using prems sh by (auto split: Option.bind_splits)
      have fl: "rest_letters fits = rest_letters shrunk" "spacers_blank (row_inner row) \<longrightarrow> rest_blank fits" "fits = None \<longrightarrow> shrunk = None"
        using fits A(1) R(2) by (auto simp: wrapped_cells_def split: if_splits Option.bind_splits)
      show "splits i row acc res"
      proof (cases fits)
        case None
        then show ?thesis using prems sh fits fl R(1) by (auto simp: splits_def)
      next
        case (Some w)
        obtain r1 w1 where w1: "wrap_wide cols r w = Some (r1, w1)" using prems sh fits Some by (auto split: Option.bind_splits)
        obtain r2 rest where w2: "drop_spacer cols r1 w1 = Some (r2, rest)"
          using prems sh fits Some w1 by (auto split: Option.bind_splits)
        have ok1: "row_ok cols r1" using wrap_wide_ok [OF R(3), of w] w1 by simp
        note W1 = wrap_wide_letters [OF w1 R(3)]
        show ?thesis unfolding splits_def
        proof (clarify)
          fix k rows buf assume res: "res = (k, rows, buf)" and sb: "spacers_blank (row_inner row)"
          have "spacers_blank (row_inner r1)" "spacers_blank w1" using W1(2) R(2) [OF sb] fl(2) sb Some by auto
          note W2 = drop_spacer_letters [OF w2 ok1 this]
          have total: "row_letters r2 @ rest_letters rest = row_letters row" using W2 W1(1) R(1) fl(1) Some by auto
          have unf: "(case rest of None \<Rightarrow> Some (h, acc @ [r2], None) | Some wrapped \<Rightarrow>
              if joins_next cols i wrapped
              then Some (h, acc @ [row_last_mut (insert_flag WRAPLINE) r2], Some (butlast wrapped @ [remove_flag WRAPLINE (last wrapped)]))
              else cursor_buffer_line h \<bind> (\<lambda>cbl. rec reflow cols i (wrapped_row cols wrapped) (shrink_cursor cols i cbl h)
                (acc @ [row_last_mut (insert_flag WRAPLINE) r2]))) = Some (k, rows, buf)"
            using prems sh fits Some w1 w2 res by simp
          show "text_of rows @ rest_letters buf = text_of acc @ row_letters row \<and> rest_blank buf \<and> (buf \<noteq> None \<longrightarrow> 1 \<le> i)"
          proof (cases rest)
            case None
            then show ?thesis using unf total by auto
          next
            case rest: (Some w3)
            show ?thesis
            proof (cases "joins_next cols i w3")
              case True
              then show ?thesis using unf total rest W2 butlast_letters [of w3] by (auto simp: joins_next_def)
            next
              case False
              then obtain cbl where "rec reflow cols i (wrapped_row cols w3) (shrink_cursor cols i cbl h)
                  (acc @ [row_last_mut (insert_flag WRAPLINE) r2]) = Some (k, rows, buf)"
                using unf rest by (auto split: Option.bind_splits)
              from hyps [OF this] show ?thesis
                using A wrapped_row_overlong(1) wrapped_row_letters W2 rest total by (auto simp: splits_def)
            qed
          qed
        qed
      qed
    qed
  qed
  then show ?thesis using assms by simp
qed

lemma for_each_invariant:
  assumes "for_each xs f s = Some t" "I [] s"
    and "\<And>ys x zs u v. xs = ys @ x # zs \<Longrightarrow> I ys u \<Longrightarrow> f x u = Some v \<Longrightarrow> I (ys @ [x]) v"
  shows "I xs t"
proof -
  have "for_each zs f u = Some t \<Longrightarrow> xs = ys @ zs \<Longrightarrow> I ys u \<Longrightarrow> I xs t" for ys zs u
  proof (induction zs arbitrary: ys u)
    case (Cons x zs)
    then obtain v where v: "f x u = Some v" "for_each zs f v = Some t" by (auto split: Option.bind_splits)
    then show ?case using Cons.IH [OF v(2), of "ys @ [x]"] assms(3) [of ys x zs u v] Cons.prems by simp
  qed simp
  then show ?thesis using assms(1,2) by (metis append_Nil)
qed

lemma take_all_rows: "storage_ok (raw g) \<Longrightarrow> take_all (raw g) = Some (rows, st) \<Longrightarrow> rows = grid_rows g"
  using storage_truncate_ok [of "raw g"] by (auto simp: take_all_def grid_rows_def ok_iff)

lemma grid_rows_replace: "raw g = replace_inner rows st \<Longrightarrow> grid_rows g = rows"
  by (simp add: grid_rows_def replace_inner_def ring_def)

lemma enumerate_rev_split:
  assumes "rev (enumerate 0 rows) = ys @ (i, row) # zs"
  shows "row \<in> set rows" "i = length zs"
proof -
  have e: "enumerate 0 rows = rev zs @ (i, row) # rev ys" using arg_cong [OF assms, of rev] by simp
  have len: "length zs < length rows" using arg_cong [OF e, of length] by simp
  have "enumerate 0 rows ! length zs = (i, row)" unfolding e by (simp add: nth_append)
  then show "i = length zs" "row \<in> set rows" using len by (auto simp: nth_enumerate_eq)
qed

abbreviation blank_spacer_rows :: "cell row list \<Rightarrow> bool" where
  "blank_spacer_rows rows \<equiv> list_all (\<lambda>r. spacers_blank (row_inner r)) rows"

lemma shrink_loop_text:
  assumes "for_each (rev (enumerate 0 rows)) (shrink_step True cols) (G, [], None) = Some (h, acc, buf)"
    and "\<forall>r \<in> set rows. overlong cols r" "blank_spacer_rows rows" "0 < cols" "rows \<noteq> []"
  shows "text_of acc = text_of (rev rows)"
proof -
  let ?I = "\<lambda>ys (h, acc, buf). text_of acc @ rest_letters buf = text_of (map snd ys) \<and> rest_blank buf
    \<and> (buf \<noteq> None \<longrightarrow> ys \<noteq> [] \<and> 1 \<le> fst (last ys))"
  have "?I (rev (enumerate 0 rows)) (h, acc, buf)"
  proof (rule for_each_invariant [where I = ?I, OF assms(1)])
    fix ys x zs u v
    assume split: "rev (enumerate 0 rows) = ys @ x # zs" and I: "?I ys u" and step: "shrink_step True cols x u = Some v"
    obtain i row where x: "x = (i, row)" by (cases x)
    obtain k acc buf where u: "u = (k, acc, buf)" by (cases u)
    have row: "overlong cols row" "spacers_blank (row_inner row)"
      using enumerate_rev_split(1) [of rows ys i row zs] split x assms(2,3) by (auto simp: list_all_iff)
    show "?I (ys @ [x]) v"
    proof (cases buf)
      case None
      then have "splits i row acc v" using step row(1) assms(4) by (intro shrink_row_splits) (auto simp: x u shrink_step_def)
      then show ?thesis using I row(2) by (auto simp: splits_def u x None)
    next
      case (Some cells)
      let ?row = "row_append_front cells row"
      have "overlong cols ?row" using row(1) by (auto simp: overlong_def row_append_front_def row_len_def)
      then have "splits i ?row acc v" using step assms(4) Some
        by (auto simp: x u shrink_step_def Let_def intro: shrink_row_splits split: Option.bind_splits if_splits)
      moreover have "row_letters ?row = letters cells @ row_letters row" "spacers_blank (row_inner ?row)"
        using row(2) I Some by (auto simp: row_append_front_def u)
      ultimately show ?thesis using I by (auto simp: splits_def u x Some)
    qed
  qed simp
  moreover have "fst (last (rev (enumerate 0 rows))) = 0" using assms(5) by (cases rows) (simp_all add: last_rev)
  moreover have "map snd (rev (enumerate 0 rows)) = rev rows" by (simp flip: rev_map)
  ultimately show ?thesis by (cases buf) auto
qed

lemma settle_cursor_keeps:
  assumes "settle_cursor reflow cols g = Some h"
  shows "raw h = raw g" "g_lines h = g_lines g" "max_scroll_limit h = max_scroll_limit g"
  using assms by (auto simp: settle_cursor_def set_cursor_column_def Let_def split: if_splits Option.bind_splits)

lemma text_of_rev_take: "suffix (text_of (rev (take n (rev rows)))) (text_of rows)"
  "length rows \<le> n \<Longrightarrow> text_of (rev (take n (rev rows))) = text_of rows"
proof -
  have "text_of rows = text_of (take (length rows - n) rows) @ text_of (drop (length rows - n) rows)"
    by (metis append_take_drop_id text_of_simps(2))
  then show "suffix (text_of (rev (take n (rev rows)))) (text_of rows)"
    by (simp add: rev_take suffix_def)
qed simp

lemma shrink_columns_keeps_text:
  assumes "grid_inv b g" "0 < cols" "cols < g_columns g" "blank_spacer_rows (grid_rows g)"
    and "shrink_columns True cols g = Some h"
  shows "suffix (grid_text h) (grid_text g)" "grid_history h < max_scroll_limit h \<Longrightarrow> grid_text h = grid_text g"
proof -
  note D = grid_okD [OF grid_inv_ok [OF assms(1)]]
  obtain rows st where take: "take_all (raw g) = Some (rows, st)" and rows: "length rows = st_len (raw g)"
    "\<forall>r \<in> set rows. good_row b (g_columns g) r"
    using take_all_ok [OF assms(1)] by (auto elim!: okE)
  have eq: "rows = grid_rows g" by (rule take_all_rows [OF D(1) take])
  have "rows \<noteq> []" "\<forall>r \<in> set rows. overlong cols r"
    using rows storage_okD [OF D(1)] assms(3) by (auto simp: good_row_def row_ok_def overlong_def row_len_def)
  obtain k acc buf where loop:
      "for_each (rev (enumerate 0 rows)) (shrink_step True cols) (emptied True cols st g, [], None) = Some (k, acc, buf)"
    using assms(5) by (auto simp: shrink_columns_def take Let_def emptied_def split: Option.bind_splits)
  define m where "m = (let g = k\<lparr>raw := replace_inner (take (max_scroll_limit k + g_lines k) (rev acc)) (raw k)\<rparr>
    in g\<lparr>display_offset := min (display_offset g) (grid_history g)\<rparr>)"
  have m: "raw m = replace_inner (take (max_scroll_limit k + g_lines k) (rev acc)) (raw k)"
      "g_lines m = g_lines k" "max_scroll_limit m = max_scroll_limit k"
    by (simp_all add: m_def Let_def)
  obtain x where x: "settle_cursor True cols m = Some x"
    and hx: "raw h = raw x" "g_lines h = g_lines x" "max_scroll_limit h = max_scroll_limit x"
    using assms(5) loop by (auto simp: shrink_columns_def take Let_def emptied_def m_def split: Option.bind_splits)
  note h = hx [unfolded settle_cursor_keeps [OF x]]
  have all: "text_of acc = grid_text g"
    using shrink_loop_text [OF loop] \<open>rows \<noteq> []\<close> \<open>\<forall>r \<in> set rows. overlong cols r\<close> assms(2,4) by (simp add: grid_text_def eq)
  have hrows: "grid_rows h = take (max_scroll_limit k + g_lines k) (rev acc)"
    using m(1) h(1) by (intro grid_rows_replace) simp
  show "suffix (grid_text h) (grid_text g)" unfolding grid_text_def hrows all [unfolded grid_text_def, symmetric]
    by (rule text_of_rev_take(1))
  have "grid_history h = length (take (max_scroll_limit k + g_lines k) (rev acc)) - g_lines k"
    using m h by (simp add: history_size_def grid_dims_def replace_inner_def)
  then show "grid_text h = grid_text g" if "grid_history h < max_scroll_limit h"
    using that m h unfolding grid_text_def hrows all [unfolded grid_text_def, symmetric]
    by (intro text_of_rev_take(2)) (auto simp: min_def split: if_splits)
qed

section \<open>More columns\<close>

lemma unwrap_row_letters:
  assumes "spacers_blank (row_inner r)"
  shows "row_letters (unwrap_row r) = row_letters r" "spacers_blank (row_inner (unwrap_row r))"
proof -
  define l where "l = row_last_mut (remove_flag WRAPLINE) r"
  have l: "row_letters l = row_letters r" "spacers_blank (row_inner l)"
    using last_mut_spacers(2) [OF assms] by (simp_all add: l_def)
  have cut: "letters (take (row_len l - 1) (row_inner l)) = row_letters l"
    if "1 \<le> row_len l" "flag_contains (cell_flags (row_inner l ! (row_len l - 1))) LEADING_WIDE_CHAR_SPACER"
  proof -
    have "row_inner l = take (row_len l - 1) (row_inner l) @ [row_inner l ! (row_len l - 1)]"
      using that(1) by (auto simp: row_len_def simp flip: take_Suc_conv_app_nth)
    moreover have "letter (row_inner l ! (row_len l - 1)) = []"
      using that l(2) by (simp add: list_all_length spacer_blank_def row_len_def)
    ultimately show ?thesis by (metis append_Nil2 letters_simps(1-3))
  qed
  have "unwrap_row r = (if row_len l \<ge> 1 \<and> flag_contains (cell_flags (row_inner l ! (row_len l - 1))) LEADING_WIDE_CHAR_SPACER
      then \<lparr>row_inner = take (row_len l - 1) (row_inner l), occ = min (occ l) (row_len l - 1)\<rparr> else l)"
    by (auto simp: unwrap_row_def Let_def row_shrink_def row_len_def simp flip: l_def)
  then show "row_letters (unwrap_row r) = row_letters r" "spacers_blank (row_inner (unwrap_row r))"
    using cut l spacers_blank_part [OF l(2)] by auto
qed

lemma pull_cells_letters:
  assumes "pull_cells cols l row = Some (l', row', n)" "spacers_blank (row_inner l)" "spacers_blank (row_inner row)"
  shows "row_letters l' @ row_letters row' = row_letters l @ row_letters row"
    "spacers_blank (row_inner l')" "spacers_blank (row_inner row')"
proof -
  obtain k where "row_inner row' = drop k (row_inner row)"
    "row_inner l' = row_inner l @ take k (row_inner row) \<or> row_inner l' = row_inner l @ take k (row_inner row) @ [leading_spacer]"
    using assms(1) unfolding pull_cells_def row_front_split_off_def row_append_def
    by (auto simp: ensure_def Let_def split: if_splits Option.bind_splits)
  then show "row_letters l' @ row_letters row' = row_letters l @ row_letters row"
    "spacers_blank (row_inner l')" "spacers_blank (row_inner row')"
    using assms(2,3) spacers_blank_part [OF assms(3), of k] letters_split [of "row_inner row" k] by auto
qed

lemma clear_letters: "row_is_clear cell_is_empty r \<Longrightarrow> row_letters r = []"
  by (simp add: row_is_clear_def list_all_iff letters_empty)

definition at_bottom :: "grid \<Rightarrow> bool" where
  "at_bottom g \<longleftrightarrow> line (cur_point (g_cursor g)) + 1 = int (g_lines g)"

lemma reflow_cursor_keeps:
  assumes "reflow_cursor n row g = Some (h, keep, d)"
  shows "at_bottom h = at_bottom g" "\<not> keep \<Longrightarrow> row_is_clear cell_is_empty row"
  using assms by (auto simp: reflow_cursor_def Let_def at_bottom_def split: if_splits Option.bind_splits)

lemma drop_clear_row_bottom: "at_bottom g \<Longrightarrow> cursor_buffer_line g = Some cbl \<Longrightarrow> at_bottom (drop_clear_row i cbl g)"
  by (auto simp: at_bottom_def drop_clear_row_def cursor_buffer_line_def csub_def usize_of_i32_def
      split: if_splits Option.bind_splits)

definition grown_text :: "cell row list \<Rightarrow> bool \<Rightarrow> grid \<times> cell row list \<times> nat \<Rightarrow> bool" where
  "grown_text rows bottom = (\<lambda>(h, reversed, delta). text_of reversed = text_of rows \<and> blank_spacer_rows reversed
     \<and> (bottom \<longrightarrow> at_bottom h))"

lemma grow_step_text:
  assumes "grow_step reflow cols (i, row) s = Some t" "grown_text rows bottom s" "spacers_blank (row_inner row)"
  shows "grown_text (rows @ [row]) bottom t"
proof -
  obtain h reversed delta where s: "s = (h, reversed, delta)" by (cases s)
  have S: "text_of reversed = text_of rows" "blank_spacer_rows reversed" "bottom \<longrightarrow> at_bottom h"
    using assms(2) by (auto simp: grown_text_def s)
  show ?thesis
  proof (cases "reversed = [] \<or> \<not> should_reflow reflow cols (last reversed)")
    case True
    then show ?thesis using assms S by (auto simp: grow_step_def s grown_text_def)
  next
    case False
    let ?u = "unwrap_row (last reversed)"
    have last: "spacers_blank (row_inner (last reversed))" using list_all_last [OF S(2)] False by simp
    note U = unwrap_row_letters [OF last]
    obtain l r n where p: "pull_cells cols ?u row = Some (l, r, n)"
      using assms(1) False by (auto simp: grow_step_def s split: Option.bind_splits)
    note P = pull_cells_letters [OF p U(2) assms(3)]
    let ?keep = "butlast reversed @ [row_last_mut (insert_flag WRAPLINE) l, r]" and ?drop = "butlast reversed @ [l]"
    have cases: "bottom \<longrightarrow> at_bottom (fst t)" "fst (snd t) = ?keep \<or> fst (snd t) = ?drop \<and> row_is_clear cell_is_empty r"
      using assms(1) False p S(3) drop_clear_row_bottom
      by (auto simp: grow_step_def s Let_def dest: reflow_cursor_keeps split: Option.bind_splits if_splits)
    have "text_of reversed = text_of (butlast reversed) @ row_letters (last reversed)"
      using False by (metis append_Nil2 append_butlast_last_id text_of_simps)
    then have "text_of ?keep = text_of reversed @ row_letters row" using P(1) U(1) by simp
    then show ?thesis
      using cases P S(1) clear_letters last_mut_spacers(1) [OF P(2)] list_all_butlast [OF S(2)]
      by (cases t) (auto simp: grown_text_def)
  qed
qed

lemma fill_viewport_text:
  assumes "fill_viewport cols (h, reversed) = Some (k, rows)" "bottom \<longrightarrow> at_bottom h"
  shows "text_of rows = text_of reversed" "bottom \<longrightarrow> at_bottom k \<or> length rows = g_lines k"
  using assms
  by (auto simp: fill_viewport_def resize_with_def row_new_def ensure_def text_of_def split: if_splits Option.bind_splits)

lemma pull_cursor_text:
  assumes "pull_cursor delta (h, reversed) = Some (k, rows)"
  shows "prefix (text_of rows) (text_of reversed)"
    "at_bottom h \<or> length reversed = g_lines h \<Longrightarrow> text_of rows = text_of reversed"
proof -
  have "rows = take n reversed \<Longrightarrow> prefix (text_of rows) (text_of reversed)" for n
    by (metis append_take_drop_id prefixI text_of_simps(2))
  then show "prefix (text_of rows) (text_of reversed)"
    using assms by (auto simp: pull_cursor_def Let_def split: if_splits Option.bind_splits)
  show "text_of rows = text_of reversed" if "at_bottom h \<or> length reversed = g_lines h"
  proof (cases "delta = 0")
    case False
    then obtain cbl extra where c: "cursor_buffer_line h = Some cbl" "csub (length reversed) (g_lines h) = Some extra"
      "rows = take (length reversed + (delta - min cbl extra) - delta) reversed"
      using assms by (auto simp: pull_cursor_def Let_def csub_def split: if_splits Option.bind_splits)
    have "min cbl extra = 0"
      using that c(1,2)
      by (auto simp: at_bottom_def cursor_buffer_line_def csub_def usize_of_i32_def split: if_splits Option.bind_splits)
    then show ?thesis using c(3) by simp
  qed (use assms in \<open>simp add: pull_cursor_def\<close>)
qed

lemma row_grow_letters: "row_letters (if row_len r < cols then row_grow cell_default cols r else r) = row_letters r"
  by (simp add: row_grow_def)

lemma grow_columns_keeps_text:
  assumes "grid_inv b g" "blank_spacer_rows (grid_rows g)" "grow_columns reflow cols g = Some h"
  shows "prefix (grid_text h) (grid_text g)" "at_bottom g \<Longrightarrow> grid_text h = grid_text g"
proof -
  note D = grid_okD [OF grid_inv_ok [OF assms(1)]]
  obtain rows st where take: "take_all (raw g) = Some (rows, st)" using take_all_ok [OF assms(1)] by (auto elim!: okE)
  have eq: "rows = grid_rows g" by (rule take_all_rows [OF D(1) take])
  define G where "G = emptied reflow cols st g"
  obtain h1 r1 delta h2 r2 h3 r3 where
    loop: "for_each (rev (enumerate 0 rows)) (grow_step reflow cols) (G, [], 0) = Some (h1, r1, delta)"
    and fill: "fill_viewport cols (h1, r1) = Some (h2, r2)" and pull: "pull_cursor delta (h2, r2) = Some (h3, r3)"
    and h: "raw h = replace_inner (map (\<lambda>r. if row_len r < cols then row_grow cell_default cols r else r) (rev r3)) (raw h3)"
    using assms(3) by (auto simp: grow_columns_def take Let_def emptied_def G_def split: Option.bind_splits)
  have "grown_text (map snd (rev (enumerate 0 rows))) (at_bottom g) (h1, r1, delta)"
  proof (rule for_each_invariant [where I = "\<lambda>ys. grown_text (map snd ys) (at_bottom g)", OF loop])
    show "grown_text (map snd []) (at_bottom g) (G, [], 0)"
      by (simp add: grown_text_def at_bottom_def G_def emptied_fields)
    fix ys x zs u v assume x: "rev (enumerate 0 rows) = ys @ x # zs" "grown_text (map snd ys) (at_bottom g) u"
      "grow_step reflow cols x u = Some v"
    have "spacers_blank (row_inner (snd x))"
      using enumerate_rev_split(1) [of rows ys "fst x" "snd x" zs] x(1) assms(2) by (simp add: list_all_iff eq)
    then show "grown_text (map snd (ys @ [x])) (at_bottom g) v"
      using grow_step_text [of reflow cols "fst x" "snd x" u v] x(2,3) by simp
  qed
  moreover have "map snd (rev (enumerate 0 rows)) = rev rows" by (simp flip: rev_map)
  ultimately have L: "text_of r1 = text_of (rev rows)" "at_bottom g \<longrightarrow> at_bottom h1" by (simp_all add: grown_text_def)
  note F = fill_viewport_text [OF fill L(2)]
  have text_h: "grid_text h = text_of r3"
    by (simp add: grid_text_def grid_rows_replace [OF h] rev_map text_of_def comp_def row_grow_letters del: if_split)
  show "prefix (grid_text h) (grid_text g)" "at_bottom g \<Longrightarrow> grid_text h = grid_text g"
    unfolding text_h using pull_cursor_text [OF pull] F L(1) by (auto simp: grid_text_def [of g] eq)
qed

end
