(* ===== verification/Term_Resize.thy ===== *)
theory Term_Resize
  imports Term_Handler Reflow
begin

text \<open>
  \<^verbatim>\<open>Term::resize\<close> (\<^verbatim>\<open>alacritty_terminal/src/term/mod.rs\<close>): both grids, the vi mode cursor, the
  selection, the tab stops, the scrolling region and the damage follow the new size of the window. The active
  grid is reflown unless it is the alternate screen.

  A \<open>session\<close> is a run of the terminal in which the parser's calls, the window's calls and resizes come in any
  order. Its invariant is that of \<open>reach\<close> without the cleanliness of the rows, which growing a row loses.
\<close>

section \<open>Resizing\<close>

definition resize_delta :: "nat \<Rightarrow> terminal \<Rightarrow> int" where
  \<comment> \<open>the number of lines the content moves down\<close>
  "resize_delta new_lines t =
     (let delta = int new_lines - int (t_lines t);
          min_delta = min 0 (int new_lines - line (t_point t) - 1)
      in min (max delta min_delta) (int (history_size (t_dims t))))"

definition resize_selection :: "nat \<Rightarrow> nat \<Rightarrow> nat \<Rightarrow> nat \<Rightarrow> int \<Rightarrow> terminal \<Rightarrow> terminal option" where
  \<comment> \<open>invalidates the selection and the tab stops only when necessary\<close>
  "resize_selection old_cols old_lines new_cols new_lines delta t =
     (if old_cols \<noteq> new_cols
      then Some (t\<lparr>t_selection := None, t_tabs := tabs_resize new_cols (t_tabs t)\<rparr>)
      else case t_selection t of
        None \<Rightarrow> Some t
      | Some sel \<Rightarrow> do {
          sel \<leftarrow> selection_rotate (t_dims t) 0 (int (max new_lines old_lines)) (- delta) sel;
          Some (t\<lparr>t_selection := sel\<rparr>)
        })"

definition clamp_vi_cursor :: "terminal \<Rightarrow> terminal option" where
  "clamp_vi_cursor t = do {
     let vi_point = vi_mode_cursor t;
     let viewport_top = - int (display_offset (t_grid t));
     let viewport_bottom = viewport_top + bottommost_line (t_dims t);
     last \<leftarrow> last_column (t_dims t);
     Some (t\<lparr>vi_mode_cursor := Point (max (min (line vi_point) viewport_bottom) viewport_top)
                                     (min (column vi_point) last)\<rparr>)
   }"

definition term_resize :: "nat \<Rightarrow> nat \<Rightarrow> terminal \<Rightarrow> terminal option" where
  "term_resize new_cols new_lines t =
     (let old_cols = t_columns t; old_lines = t_lines t in
      if old_cols = new_cols \<and> old_lines = new_lines then Some t
      else do {
        let delta = resize_delta new_lines t;
        let t = t\<lparr>vi_mode_cursor := Point (line (vi_mode_cursor t) + delta) (column (vi_mode_cursor t))\<rparr>;
        let is_alt = flag_contains (t_mode t) ALT_SCREEN;
        g \<leftarrow> grid_resize (\<not> is_alt) new_lines new_cols (t_grid t);
        ig \<leftarrow> grid_resize is_alt new_lines new_cols (t_inactive_grid t);
        let t = t\<lparr>t_grid := g, t_inactive_grid := ig\<rparr>;
        t \<leftarrow> resize_selection old_cols old_lines new_cols new_lines delta t;
        t \<leftarrow> clamp_vi_cursor t;
        let t = t\<lparr>region_start := 0, region_end := int (t_lines t)\<rparr>;
        Some (t\<lparr>t_damage := damage_resize new_cols new_lines (t_damage t)\<rparr>)
      })"

section \<open>Invariant\<close>

text \<open>The vi mode cursor is inside the lines that the window shows.\<close>

definition vi_in_view :: "terminal \<Rightarrow> bool" where
  "vi_in_view t \<longleftrightarrow> - int (display_offset (t_grid t)) \<le> line (vi_mode_cursor t)
     \<and> line (vi_mode_cursor t) < int (t_lines t) - int (display_offset (t_grid t))
     \<and> column (vi_mode_cursor t) < t_columns t"

definition resized :: "nat \<Rightarrow> nat \<Rightarrow> terminal \<Rightarrow> bool" where
  "resized cols lines t \<longleftrightarrow> term_inv False t \<and> t_columns t = cols \<and> t_lines t = lines"

lemma tabs_resize_length: "length (tabs_resize cols tabs) = cols"
  by (simp add: tabs_resize_def)

lemma resize_selection_ok:
  assumes "dims_ok (t_dims t)"
  shows "ok (resize_selection c l c' l' d t) (\<lambda>u. t_grid u = t_grid t \<and> t_inactive_grid u = t_inactive_grid t
    \<and> t_tabs u = (if c \<noteq> c' then tabs_resize c' (t_tabs t) else t_tabs t) \<and> t_colors u = t_colors t
    \<and> title_stack u = title_stack t)"
  using selection_rotate_ok [OF assms] by (auto simp: resize_selection_def split: option.split elim!: ok_mono)

lemma term_resize_ok:
  assumes "term_inv False t" "MIN_COLUMNS \<le> cols" "MIN_SCREEN_LINES \<le> lines"
  shows "ok (term_resize cols lines t) (\<lambda>u. resized cols lines u
    \<and> (t_columns t \<noteq> cols \<or> t_lines t \<noteq> lines \<longrightarrow> vi_in_view u))"
proof (cases "t_columns t = cols \<and> t_lines t = lines")
  case True
  then show ?thesis using assms(1) by (simp add: term_resize_def resized_def)
next
  case False
  note D = term_invD [OF assms(1)]
  have size: "2 \<le> cols" "0 < lines" using assms(2,3) by (auto simp: MIN_COLUMNS_def MIN_SCREEN_LINES_def)
  let ?alt = "flag_contains (t_mode t) ALT_SCREEN" and ?d = "resize_delta lines t"
  obtain g where g: "grid_resize (\<not> ?alt) lines cols (t_grid t) = Some g" "grid_ok g" "g_lines g = lines" "g_columns g = cols"
    using grid_resize_ok [OF D(1) size(2,1), of "\<not> ?alt"] by (auto elim!: okE)
  obtain ig where ig: "grid_resize ?alt lines cols (t_inactive_grid t) = Some ig" "grid_ok ig" "g_lines ig = lines" "g_columns ig = cols"
    using grid_resize_ok [OF D(3) size(2,1), of ?alt] by (auto elim!: okE)
  define t1 where "t1 = t\<lparr>vi_mode_cursor := Point (line (vi_mode_cursor t) + ?d) (column (vi_mode_cursor t)),
    t_grid := g, t_inactive_grid := ig\<rparr>"
  have dims: "dims_ok (t_dims t1)" using grid_okD(6) [OF g(2)] by (simp add: t1_def)
  obtain u where u: "resize_selection (t_columns t) (t_lines t) cols lines ?d t1 = Some u" "t_grid u = g"
    "t_inactive_grid u = ig" "length (t_tabs u) = cols" "t_colors u = t_colors t" "title_stack u = title_stack t"
    using resize_selection_ok [OF dims, of "t_columns t" "t_lines t" cols lines ?d] D(7)
    by (auto simp: t1_def tabs_resize_length split: if_splits elim!: okE)
  have last: "last_column (grid_dims g) = Some (cols - 1)" using last_column_ok [OF dims] g(4) by (simp add: t1_def grid_dims_def)
  have bottom: "bottommost_line (grid_dims g) = int lines - 1" using g(3) by (simp add: bottommost_line_def grid_dims_def)
  let ?top = "- int (display_offset g)"
  define v where "v = u\<lparr>vi_mode_cursor := Point (max (min (line (vi_mode_cursor u)) (?top + (int lines - 1))) ?top)
    (min (column (vi_mode_cursor u)) (cols - 1)), region_start := 0, region_end := int lines,
    t_damage := damage_resize cols lines (t_damage u)\<rparr>"
  have "term_resize cols lines t = Some v"
    unfolding term_resize_def Let_def if_not_P [OF False] using g(1) ig(1) u(1)
    by (simp flip: t1_def) (simp add: clamp_vi_cursor_def last bottom u(2) g(3) v_def Let_def)
  moreover have "term_inv False v"
    using g ig u(2-) D(13,14) assms(2) size
    by (simp add: v_def term_inv_def damage_ok_def damage_resize_def undamaged_def)
  moreover have "vi_in_view v" using g(3,4) u(2) size by (auto simp: vi_in_view_def v_def)
  ultimately show ?thesis using g(3,4) u(2) by (simp add: resized_def v_def)
qed

section \<open>Sessions\<close>

inductive session :: "env \<Rightarrow> config \<Rightarrow> terminal \<Rightarrow> bool" for E :: env and cfg :: config where
  start: "MIN_COLUMNS \<le> cols \<Longrightarrow> MIN_SCREEN_LINES \<le> lines \<Longrightarrow> term_new cfg cols lines w = Some t \<Longrightarrow> session E cfg t"
| call: "session E cfg t \<Longrightarrow> op_ok op t \<Longrightarrow> exec E op t = Some u \<Longrightarrow> session E cfg u"
| resize: "session E cfg t \<Longrightarrow> MIN_COLUMNS \<le> cols \<Longrightarrow> MIN_SCREEN_LINES \<le> lines \<Longrightarrow>
    term_resize cols lines t = Some u \<Longrightarrow> session E cfg u"

inductive_cases session_cases: "session E cfg t"

lemma term_inv_weaken: "term_inv True t \<Longrightarrow> term_inv False t"
  by (simp add: term_inv_def grid_inv_def)

lemma session_inv: "session E cfg t \<Longrightarrow> term_inv False t"
proof (induction rule: session.induct)
  case (start cols lines w t)
  then show ?case using term_new_ok [OF start(1,2), of cfg w] term_inv_weaken by simp
next
  case (call t op u)
  then have "term_step False t u" using exec_step [of False t op E] by simp
  then show ?case by (simp add: term_step_def)
next
  case (resize t cols lines u)
  then show ?case using term_resize_ok [OF resize.IH resize(2,3)] by (simp add: resized_def)
qed

lemma reach_session:
  assumes "MIN_COLUMNS \<le> cols" "MIN_SCREEN_LINES \<le> lines" "reach E cfg cols lines t"
  shows "session E cfg t"
  using assms(3)
  by (induction rule: reach.induct) (auto intro: session.start [OF assms(1,2)] session.call)

end
