(* ===== verification/Resize_Properties.thy ===== *)
theory Resize_Properties
  imports Reflow_Text Term_Resize Examples
begin

text \<open>The properties of resizing: the number of lines, the reflow of columns, and the whole terminal.\<close>

section \<open>Lines\<close>

text \<open>
  Growing the number of lines pulls as many lines back from the scrollback as there
  are, at most the number of lines added. They and the old screen are the new screen, in order; the lines that
  the scrollback cannot fill are blank lines at the bottom; both cursors stay on their text.
\<close>

theorem grow_lines_pulls:
  assumes "grid_inv True g" "g_lines g \<le> target"
  shows "\<exists>h. grow_lines target g = Some h \<and> grid_inv True h \<and> g_lines h = target
    \<and> grid_history h = grid_history g - pulled g target
    \<and> line (cur_point (g_cursor h)) = line (cur_point (g_cursor g)) + int (pulled g target)
    \<and> line (cur_point (g_saved_cursor h)) = line (cur_point (g_saved_cursor g)) + int (pulled g target)
    \<and> (\<forall>l. - int (grid_history h) \<le> l \<and> l < int target \<longrightarrow>
         grid_lines h l = (if l < int (g_lines g + pulled g target) then grid_lines g (l - int (pulled g target))
                           else Some (blank_of g)))"
  using grow_lines_ok [OF assms] unfolding ok_iff by (elim exE conjE, intro exI conjI) (auto simp: move_cursors_def)

theorem grow_lines_pulls_witness:
  "\<exists>h. grow_lines 5 demo_back = Some h \<and> grid_inv True h \<and> g_lines h = 5
    \<and> grid_history h = grid_history demo_back - pulled demo_back 5
    \<and> line (cur_point (g_cursor h)) = line (cur_point (g_cursor demo_back)) + int (pulled demo_back 5)
    \<and> line (cur_point (g_saved_cursor h)) = line (cur_point (g_saved_cursor demo_back)) + int (pulled demo_back 5)
    \<and> (\<forall>l. - int (grid_history h) \<le> l \<and> l < int 5 \<longrightarrow>
         grid_lines h l = (if l < int (g_lines demo_back + pulled demo_back 5) then grid_lines demo_back (l - int (pulled demo_back 5))
                           else Some (blank_of demo_back)))"
  by (rule grow_lines_pulls) (simp_all add: demo_back_ok)

text \<open>
  C9 (functional): shrinking the number of lines pushes just as many lines into the scrollback as it
  takes to keep the cursor on the screen. The cursor stays on its text, and every line that remains, of the
  screen or of the scrollback, is the line it was; only lines below the cursor are dropped.
\<close>

theorem shrink_lines_pushes:
  assumes "grid_inv True g" "0 < target" "target \<le> g_lines g"
  shows "\<exists>h. shrink_lines target g = Some h \<and> grid_inv True h \<and> g_lines h = target
    \<and> grid_history h = min (max_scroll_limit g) (grid_history g + pushed g target)
    \<and> line (cur_point (g_cursor h)) = line (cur_point (g_cursor g)) - int (pushed g target)
    \<and> (\<forall>l. - int (grid_history h) \<le> l \<and> l < int target \<longrightarrow> grid_lines h l = grid_lines g (l + int (pushed g target)))"
proof -
  have "0 \<le> line (cur_point (g_cursor g))" using assms(1) by (simp add: grid_inv_def grid_ok_def in_screen_iff)
  then have "min (line (cur_point (g_cursor g))) (int target - 1) = line (cur_point (g_cursor g)) - int (pushed g target)"
    by (auto simp: pushed_def min_def)
  then show ?thesis using shrink_lines_ok [OF assms] unfolding ok_iff by (elim exE conjE, intro exI conjI) auto
qed

theorem shrink_lines_pushes_witness:
  "\<exists>h. shrink_lines 2 demo_back = Some h \<and> grid_inv True h \<and> g_lines h = 2
    \<and> grid_history h = min (max_scroll_limit demo_back) (grid_history demo_back + pushed demo_back 2)
    \<and> line (cur_point (g_cursor h)) = line (cur_point (g_cursor demo_back)) - int (pushed demo_back 2)
    \<and> (\<forall>l. - int (grid_history h) \<le> l \<and> l < int 2 \<longrightarrow> grid_lines h l = grid_lines demo_back (l + int (pushed demo_back 2)))"
  by (rule shrink_lines_pushes) (simp_all add: demo_back_ok)

text \<open>
  A window that becomes lower and then as high as before shows what it showed, provided
  that the cursor is on the last line, where a shell keeps it, and the scrollback has room: every
  line of screen and scrollback and the line of the cursor are restored.
\<close>

theorem resize_lines_roundtrip:
  assumes "grid_inv True g" "0 < target" "target \<le> g_lines g" "at_bottom g"
    and "grid_history g + (g_lines g - target) \<le> max_scroll_limit g"
  shows "\<exists>h. shrink_lines target g \<bind> grow_lines (g_lines g) = Some h \<and> grid_inv True h
    \<and> g_lines h = g_lines g \<and> grid_history h = grid_history g
    \<and> line (cur_point (g_cursor h)) = line (cur_point (g_cursor g)) \<and> grid_lines h = grid_lines g"
proof -
  let ?n = "g_lines g - target"
  have "0 \<le> line (cur_point (g_cursor g))" using assms(1) by (simp add: grid_inv_def grid_ok_def in_screen_iff)
  then have n: "pushed g target = ?n" using assms(4) by (auto simp: pushed_def at_bottom_def nat_add_distrib)
  obtain k where k: "shrink_lines target g = Some k" "grid_inv True k" "g_lines k = target"
    "grid_history k = grid_history g + ?n"
    "cur_point (g_cursor k) = clamp_line target (cur_point (g_cursor g))"
    "\<forall>l. - int (grid_history k) \<le> l \<and> l < int target \<longrightarrow> grid_lines k l = grid_lines g (l + int ?n)"
    using shrink_lines_ok [OF assms(1-3)] assms(5) unfolding n by (auto elim!: okE simp: min_absorb2)
  have p: "pulled k (g_lines g) = ?n" using k(3,4) by (simp add: pulled_def)
  obtain h where h: "grow_lines (g_lines g) k = Some h" "grid_inv True h" "g_lines h = g_lines g"
    "grid_history h = grid_history g" "g_cursor h = g_cursor (move_cursors (int ?n) k)"
    "\<forall>l. - int (grid_history h) \<le> l \<and> l < int (g_lines g) \<longrightarrow> grid_lines h l =
       (if l < int (g_lines k + ?n) then grid_lines k (l - int ?n) else Some (blank_of k))"
    using grow_lines_ok [OF k(2), of "g_lines g"] assms(3) k(3,4) unfolding p by (auto elim!: okE)
  have "grid_lines h l = grid_lines g l" for l
  proof (cases "- int (grid_history g) \<le> l \<and> l < int (g_lines g)")
    case True
    then show ?thesis using h(4,6) k(3,4) k(6) [rule_format, of "l - int ?n"] assms(3) by simp
  next
    case False
    then have "l \<notin> dom (grid_lines h)" "l \<notin> dom (grid_lines g)"
      using grid_okD(8) [OF grid_inv_ok [OF h(2)]] grid_okD(8) [OF grid_inv_ok [OF assms(1)]] h(3,4) by auto
    then show ?thesis by (simp add: domIff)
  qed
  moreover have "line (cur_point (g_cursor h)) = line (cur_point (g_cursor g))"
    using h(5) k(5) assms(3,4) by (simp add: move_cursors_def at_bottom_def)
  ultimately show ?thesis using k(1) h(1-4) by auto
qed

definition demo_bottom :: grid where
  \<comment> \<open>the cursor on the last line\<close>
  "demo_bottom = set_cursor_line 2 demo_grid"

lemma demo_bottom_ok:
  "grid_inv True demo_bottom" "g_lines demo_bottom = 3" "at_bottom demo_bottom" "grid_history demo_bottom = 0"
  "max_scroll_limit demo_bottom = 2" "g_columns demo_bottom = 4"
proof -
  have "in_screen (grid_dims demo_grid) (Point 2 (column (cur_point (g_cursor demo_grid))))"
    using demo_grid_ok(1,4) by (simp add: grid_inv_def grid_ok_def in_screen_iff)
  then show "grid_inv True demo_bottom" unfolding demo_bottom_def set_cursor_line_def
    by (intro grid_inv_cursor demo_grid_ok(1)) simp
qed (use demo_grid_ok in \<open>simp_all add: demo_bottom_def at_bottom_def set_cursor_line_def grid_dims_def\<close>)

theorem resize_lines_roundtrip_witness:
  "\<exists>h. shrink_lines 1 demo_bottom \<bind> grow_lines (g_lines demo_bottom) = Some h \<and> grid_inv True h
    \<and> g_lines h = g_lines demo_bottom \<and> grid_history h = grid_history demo_bottom
    \<and> line (cur_point (g_cursor h)) = line (cur_point (g_cursor demo_bottom)) \<and> grid_lines h = grid_lines demo_bottom"
  by (rule resize_lines_roundtrip) (simp_all add: demo_bottom_ok)

section \<open>Columns\<close>

definition demo_page :: grid where
  \<comment> \<open>the text \<^verbatim>\<open>abcdef\<close> wrapped after the fourth column, and the cursor behind it\<close>
  "demo_page =
     (let x = (\<lambda>c. cell_default\<lparr>cell_c := c\<rparr>);
          r1 = \<lparr>row_inner = [x 97, x 98, x 99, insert_flag WRAPLINE (x 100)], occ = 4\<rparr>;
          r2 = \<lparr>row_inner = [x 101, x 102, cell_default, cell_default], occ = 2\<rparr>
      in \<lparr>g_cursor = cursor_default\<lparr>cur_point := Point 1 2\<rparr>, g_saved_cursor = cursor_default,
          raw = \<lparr>st_inner = [r2, r1], zero = 0, visible_lines = 2, st_len = 2\<rparr>,
          g_columns = 4, g_lines = 2, display_offset = 0, max_scroll_limit = 3\<rparr>)"

lemma demo_page_ok:
  "grid_inv False demo_page" "g_columns demo_page = 4" "blank_spacer_rows (grid_rows demo_page)"
  "grid_text demo_page = [97, 98, 99, 100, 101, 102]"
  by code_simp+

text \<open>
  C7 (functional): making the grid narrower with reflow keeps the text. Read from the oldest line to the
  bottom of the screen, the characters are the same ones in the same order; only if the wrapped lines
  exceed the scrollback limit the oldest characters are lost. The hypothesis on spacers
  holds for the cells that the terminal writes: the filler in front of a wide character is blank.
\<close>

theorem reflow_shrink_text:
  assumes "grid_inv b g" "2 \<le> cols" "cols < g_columns g" "blank_spacer_rows (grid_rows g)"
  shows "\<exists>h. shrink_columns True cols g = Some h \<and> g_columns h = cols \<and> grid_ok h
    \<and> suffix (grid_text h) (grid_text g)
    \<and> (grid_history h < max_scroll_limit h \<longrightarrow> grid_text h = grid_text g)"
proof -
  obtain h where h: "shrink_columns True cols g = Some h" "g_columns h = cols" "grid_ok h"
    using shrink_columns_ok [OF assms(1,3,2), of True] by (auto elim!: okE)
  then show ?thesis using shrink_columns_keeps_text [OF assms(1) _ assms(3,4) h(1)] assms(2) by auto
qed

theorem reflow_shrink_text_witness:
  "\<exists>h. shrink_columns True 2 demo_page = Some h \<and> g_columns h = 2 \<and> grid_ok h
    \<and> suffix (grid_text h) (grid_text demo_page)
    \<and> (grid_history h < max_scroll_limit h \<longrightarrow> grid_text h = grid_text demo_page)"
  by (rule reflow_shrink_text [OF demo_page_ok(1) _ _ demo_page_ok(3)]) (simp_all add: demo_page_ok)

text \<open>
  C8 (functional): making the grid wider keeps the text in order, and loses none of it if the
  cursor is on the last line. With lines below the cursor, the source deletes lines at the bottom to make up for
  the lines that the cursor's line was joined with, and their text is lost.
\<close>

theorem reflow_grow_text:
  assumes "grid_inv b g" "g_columns g < cols" "blank_spacer_rows (grid_rows g)"
  shows "\<exists>h. grow_columns reflow cols g = Some h \<and> g_columns h = cols \<and> grid_ok h
    \<and> prefix (grid_text h) (grid_text g) \<and> (at_bottom g \<longrightarrow> grid_text h = grid_text g)"
proof -
  obtain h where h: "grow_columns reflow cols g = Some h" "g_columns h = cols" "grid_ok h"
    using grow_columns_ok [OF assms(1,2), of reflow] by (auto elim!: okE)
  then show ?thesis using grow_columns_keeps_text [OF assms(1,3) h(1)] by auto
qed

theorem reflow_grow_text_witness:
  "\<exists>h. grow_columns True 6 demo_page = Some h \<and> g_columns h = 6 \<and> grid_ok h
    \<and> prefix (grid_text h) (grid_text demo_page) \<and> (at_bottom demo_page \<longrightarrow> grid_text h = grid_text demo_page)"
  by (rule reflow_grow_text [OF demo_page_ok(1) _ demo_page_ok(3)]) (simp add: demo_page_ok)

end
