(* ===== verification/Search.thy ===== *)
theory Search
  imports Term_Handler
begin

text \<open>
  Searching the grid (\<^verbatim>\<open>alacritty_terminal/src/term/search.rs\<close>, without the regex engine): the
  matching bracket, the ends of a word, the ends of a wrapped line. The loops that step a
  \<^verbatim>\<open>GridIterator\<close> are instances of \<open>scan\<close>, whose body returns \<open>Inl\<close> to leave the loop with a result and
  \<open>Inr\<close> to go on with a new state. \<open>scan\<close> is refined to a fold over the list of the cells ahead, on
  which the searches are specified.
\<close>

unbundle bit_operations_syntax

section \<open>Loops over an iterator\<close>

partial_function (option) scan ::
  "grid \<Rightarrow> bool \<Rightarrow> (point \<times> cell \<Rightarrow> 's \<Rightarrow> 'r + 's) \<Rightarrow> grid_iter \<Rightarrow> 's \<Rightarrow> ('r + 's) option" where
  "scan g forward f it s =
     Option.bind (if forward then iter_next g it else iter_prev g it) (\<lambda>(res, it).
       case res of
         None \<Rightarrow> Some (Inr s)
       | Some px \<Rightarrow> (case f px s of Inl r \<Rightarrow> Some (Inl r) | Inr s \<Rightarrow> scan g forward f it s))"

section \<open>Operations\<close>

definition BRACKET_PAIRS :: "(uchar \<times> uchar) list" where
  "BRACKET_PAIRS = [(40, 41), (91, 93), (123, 125), (60, 62)]"

fun find_bracket :: "uchar \<Rightarrow> (uchar \<times> uchar) list \<Rightarrow> (bool \<times> uchar) option" where
  \<comment> \<open>the direction of the search and the bracket to look for\<close>
  "find_bracket c [] = None"
| "find_bracket c ((opening, closing) # pairs) =
     (if opening = c then Some (True, closing)
      else if closing = c then Some (False, opening)
      else find_bracket c pairs)"

definition bracket_step :: "uchar \<Rightarrow> uchar \<Rightarrow> point \<times> cell \<Rightarrow> nat \<Rightarrow> point + nat" where
  "bracket_step start_char end_char = (\<lambda>(p, x) skip_pairs.
     if cell_c x = end_char \<and> skip_pairs = 0 then Inl p
     else if cell_c x = start_char then Inr (skip_pairs + 1)
     else if cell_c x = end_char then Inr (skip_pairs - 1)
     else Inr skip_pairs)"

definition bracket_search :: "terminal \<Rightarrow> point \<Rightarrow> point option option" where
  "bracket_search t p = do {
     x \<leftarrow> grid_cell_at (t_grid t) p;
     case find_bracket (cell_c x) BRACKET_PAIRS of
       None \<Rightarrow> Some None
     | Some (forward, end_char) \<Rightarrow> do {
         it \<leftarrow> iter_from (t_grid t) p;
         res \<leftarrow> scan (t_grid t) forward (bracket_step (cell_c x) end_char) it 0;
         Some (case res of Inl q \<Rightarrow> Some q | Inr _ \<Rightarrow> None)
       }
   }"

abbreviation wide_spacer :: flags where
  "wide_spacer \<equiv> WIDE_CHAR_SPACER OR LEADING_WIDE_CHAR_SPACER"

definition is_needle :: "ustring \<Rightarrow> cell \<Rightarrow> bool" where
  "is_needle needles x \<longleftrightarrow> \<not> flag_intersects (cell_flags x) wide_spacer \<and> cell_c x \<in> set needles"

definition inline_left_step :: "nat \<Rightarrow> ustring \<Rightarrow> point \<times> cell \<Rightarrow> point \<Rightarrow> (point + point) + point" where
  "inline_left_step last_col needles = (\<lambda>(q, x) p.
     if column q = last_col \<and> \<not> flag_contains (cell_flags x) WRAPLINE then Inl (Inl p)
     else if is_needle needles x then Inl (Inr q)
     else Inr q)"

definition clamp_top :: "terminal \<Rightarrow> point \<Rightarrow> point" where
  "clamp_top t p = Point (max (line p) (topmost_line (t_dims t))) (column p)"

text \<open>A search that ends in \<open>Inr\<close> found a needle, one that ends in \<open>Inl\<close> stopped at the end of the line.\<close>

definition inline_search_left :: "terminal \<Rightarrow> ustring \<Rightarrow> point \<Rightarrow> (point + point) option" where
  "inline_search_left t needles p = do {
     let p = clamp_top t p;
     it \<leftarrow> iter_from (t_grid t) p;
     last \<leftarrow> csub (t_columns t) 1;
     res \<leftarrow> scan (t_grid t) False (inline_left_step last needles) it p;
     Some (case res of Inl r \<Rightarrow> r | Inr p \<Rightarrow> Inl p)
   }"

definition inline_right_step :: "nat \<Rightarrow> ustring \<Rightarrow> point \<times> cell \<Rightarrow> point \<Rightarrow> (point + point) + point" where
  "inline_right_step last_col needles = (\<lambda>(q, x) p.
     if is_needle needles x then Inl (Inr q)
     else if column q = last_col \<and> \<not> flag_contains (cell_flags x) WRAPLINE then Inl (Inl q)
     else Inr q)"

definition inline_search_right :: "terminal \<Rightarrow> ustring \<Rightarrow> point \<Rightarrow> (point + point) option" where
  "inline_search_right t needles p = do {
     let p = clamp_top t p;
     last \<leftarrow> csub (t_columns t) 1;
     stop \<leftarrow> (if column p = last then do {
         x \<leftarrow> grid_cell_at (t_grid t) p;
         Some (\<not> flag_contains (cell_flags x) WRAPLINE)
       } else Some False);
     if stop then Some (Inl p)
     else do {
       it \<leftarrow> iter_from (t_grid t) p;
       res \<leftarrow> scan (t_grid t) True (inline_right_step last needles) it p;
       Some (case res of Inl r \<Rightarrow> r | Inr p \<Rightarrow> Inl p)
     }
   }"

definition skip_spacers :: "point \<times> cell \<Rightarrow> unit \<Rightarrow> point + unit" where
  "skip_spacers = (\<lambda>(q, x) _. if flag_intersects (cell_flags x) wide_spacer then Inr () else Inl q)"

definition semantic_search_left :: "terminal \<Rightarrow> point \<Rightarrow> point option" where
  "semantic_search_left t p = do {
     res \<leftarrow> inline_search_left t (semantic_escape_chars (t_config t)) p;
     case res of
       Inl p \<Rightarrow> Some p
     | Inr p \<Rightarrow> do {
         it \<leftarrow> iter_from (t_grid t) p;
         r \<leftarrow> scan (t_grid t) True skip_spacers it ();
         Some (case r of Inl q \<Rightarrow> q | Inr _ \<Rightarrow> p)
       }
   }"

definition semantic_search_right :: "terminal \<Rightarrow> point \<Rightarrow> point option" where
  "semantic_search_right t p = do {
     res \<leftarrow> inline_search_right t (semantic_escape_chars (t_config t)) p;
     case res of
       Inl p \<Rightarrow> Some p
     | Inr p \<Rightarrow> do {
         it \<leftarrow> iter_from (t_grid t) p;
         (r, _) \<leftarrow> iter_prev (t_grid t) it;
         Some (case r of Some (q, _) \<Rightarrow> q | None \<Rightarrow> p)
       }
   }"

definition wraps :: "grid \<Rightarrow> int \<Rightarrow> bool option" where
  \<comment> \<open>\<^verbatim>\<open>self.grid[line][self.last_column()].flags.contains(Flags::WRAPLINE)\<close>\<close>
  "wraps g l = do {
     last \<leftarrow> last_column (grid_dims g);
     x \<leftarrow> grid_cell_at g (Point l last);
     Some (flag_contains (cell_flags x) WRAPLINE)
   }"

function line_start :: "grid \<Rightarrow> int \<Rightarrow> int option" where
  "line_start g l =
     (if l > topmost_line (grid_dims g) then do {
        w \<leftarrow> wraps g (l - 1);
        if w then line_start g (l - 1) else Some l
      } else Some l)"
  by pat_completeness auto
termination
  by (relation "measure (\<lambda>(g, l). nat (l - topmost_line (grid_dims g)))") auto

declare line_start.simps [simp del]

definition line_search_left :: "terminal \<Rightarrow> point \<Rightarrow> point option" where
  "line_search_left t p = do {
     l \<leftarrow> line_start (t_grid t) (line p);
     Some (Point l 0)
   }"

function line_stop :: "grid \<Rightarrow> int \<Rightarrow> int option" where
  "line_stop g l =
     (if l + 1 < int (g_lines g) then do {
        w \<leftarrow> wraps g l;
        if w then line_stop g (l + 1) else Some l
      } else Some l)"
  by pat_completeness auto
termination
  by (relation "measure (\<lambda>(g, l). nat (int (g_lines g) - l))") auto

declare line_stop.simps [simp del]

definition line_search_right :: "terminal \<Rightarrow> point \<Rightarrow> point option" where
  "line_search_right t p = do {
     l \<leftarrow> line_stop (t_grid t) (line p);
     last \<leftarrow> last_column (t_dims t);
     Some (Point l last)
   }"

section \<open>Reading order\<close>

text \<open>The point with a given index in reading order, and the cells before and behind a point.\<close>

definition point_at :: "dimensions \<Rightarrow> int \<Rightarrow> point" where
  "point_at d k = Point (topmost_line d + k div int (columns d)) (nat (k mod int (columns d)))"

definition indexed :: "grid \<Rightarrow> int \<Rightarrow> point \<times> cell" where
  "indexed g k = (point_at (grid_dims g) k, the (grid_cell_at g (point_at (grid_dims g) k)))"

definition cells_after :: "grid \<Rightarrow> point \<Rightarrow> (point \<times> cell) list" where
  "cells_after g p = map (indexed g) [cell_index (grid_dims g) p + 1..cell_count (grid_dims g) - 1]"

definition cells_before :: "grid \<Rightarrow> point \<Rightarrow> (point \<times> cell) list" where
  "cells_before g p = map (indexed g) (rev [0..cell_index (grid_dims g) p - 1])"

lemma point_at_index [simp]:
  assumes "dims_ok d" "in_grid d p"
  shows "point_at d (cell_index d p) = p"
  using assms by (cases p) (simp add: point_at_def cell_index_def in_grid_def dims_ok_def)

lemma index_point_at [simp]: "dims_ok d \<Longrightarrow> cell_index d (point_at d k) = k"
  by (simp add: point_at_def cell_index_def dims_ok_def)

lemma point_at_in_grid:
  assumes "dims_ok d" "0 \<le> k" "k < cell_count d"
  shows "in_grid d (point_at d k)"
proof -
  let ?n = "int (columns d)"
  have n: "0 < ?n" using assms(1) by (simp add: dims_ok_def)
  have "k < int (total_lines d) * ?n" using assms(3) by (simp add: cell_count_def)
  then have "k div ?n < int (total_lines d)" using n mult_right_mono [of "int (total_lines d)" "k div ?n" ?n] div_mult_mod_eq [of k ?n] pos_mod_sign [of ?n k]
    by (cases "k div ?n < int (total_lines d)") linarith+
  moreover have "0 \<le> k div ?n" using assms(2) n by (simp add: pos_imp_zdiv_nonneg_iff)
  ultimately show ?thesis using n line_span [OF assms(1)] by (auto simp: point_at_def in_grid_def nat_less_iff)
qed

lemma point_at_le:
  assumes "dims_ok d"
  shows "point_at d j \<le> point_at d k \<longleftrightarrow> j \<le> k"
proof -
  have "column (point_at d i) < columns d" for i using assms by (simp add: point_at_def dims_ok_def nat_less_iff)
  then show ?thesis using cell_index_le_iff [of "point_at d j" d "point_at d k"] assms by simp
qed

fun scan_list :: "('x \<Rightarrow> 's \<Rightarrow> 'r + 's) \<Rightarrow> 'x list \<Rightarrow> 's \<Rightarrow> 'r + 's" where
  "scan_list f [] s = Inr s"
| "scan_list f (x # xs) s = (case f x s of Inl r \<Rightarrow> Inl r | Inr s \<Rightarrow> scan_list f xs s)"

lemma iter_from_ok: "grid_ok g \<Longrightarrow> iter_from g p =
    Some \<lparr>it_point = p, it_end = point_at (grid_dims g) (cell_count (grid_dims g) - 1)\<rparr>"
proof -
  assume "grid_ok g"
  then have d: "dims_ok (grid_dims g)" by (rule grid_okD(6))
  let ?d = "grid_dims g" and ?e = "Point (bottommost_line (grid_dims g)) (g_columns g - 1)"
  have cols: "columns ?d = g_columns g" by (simp add: grid_dims_def)
  have e: "in_grid ?d ?e" using d line_span [OF d] by (auto simp: in_grid_def dims_ok_def cols)
  have "cell_index ?d ?e = cell_count ?d - 1"
  proof -
    have "bottommost_line ?d - topmost_line ?d = int (total_lines ?d) - 1" using line_span [OF d] by simp
    then have "cell_index ?d ?e = (int (total_lines ?d) - 1) * int (g_columns g) + int (g_columns g - 1)"
      by (simp only: cell_index_def point.sel cols)
    then show ?thesis using d by (simp add: cell_count_def cols dims_ok_def of_nat_diff left_diff_distrib)
  qed
  then show ?thesis using point_at_index [OF d e] d cols by (simp add: iter_from_def)
qed

lemma indexed_Some:
  assumes "grid_ok g" "in_grid (grid_dims g) p"
  shows "indexed g (cell_index (grid_dims g) p) = (p, the (grid_cell_at g p))" "\<exists>x. grid_cell_at g p = Some x"
  using assms grid_cell_ok [OF assms] grid_okD(6) [OF assms(1)] by (auto simp: indexed_def elim: okE)

lemma scan_forward:
  assumes "grid_ok g" "in_grid (grid_dims g) (it_point it)"
    and "it_end it = point_at (grid_dims g) (cell_count (grid_dims g) - 1)"
  shows "scan g True f it s = Some (scan_list f (cells_after g (it_point it)) s)"
  using assms(2,3)
proof (induction "nat (cell_count (grid_dims g) - cell_index (grid_dims g) (it_point it))" arbitrary: it s rule: less_induct)
  case less
  let ?d = "grid_dims g" and ?i = "cell_index (grid_dims g) (it_point it)"
  note D = grid_okD(6) [OF assms(1)]
  have count: "0 \<le> ?i" "?i < cell_count ?d" using cell_index_bounds [OF D less.prems(1)] by auto
  have e: "in_grid ?d (it_end it)" using point_at_in_grid [OF D] count less.prems(2) by simp
  have ge: "it_point it \<ge> it_end it \<longleftrightarrow> cell_count ?d - 1 \<le> ?i"
    using point_at_le [OF D, of "cell_count ?d - 1" ?i] less.prems D by simp
  have pos: "iter_position g (it_point it)" "column (it_point it) < g_columns g"
    using less.prems(1) by (auto simp: iter_position_def in_grid_def grid_dims_def)
  obtain res it' where n: "iter_next g it = Some (res, it')" "if it_point it \<ge> it_end it then res = None \<and> it' = it
    else in_grid ?d (it_point it') \<and> cell_index ?d (it_point it') = ?i + 1 \<and> it_end it' = it_end it
      \<and> res = map_option (\<lambda>x. (it_point it', x)) (grid_cell_at g (it_point it')) \<and> res \<noteq> None"
  proof -
    have ne: "column (it_point it) \<noteq> g_columns g" using pos(2) by simp
    show ?thesis using iter_next_ok [OF assms(1) pos(1) e] that unfolding ok_iff if_not_P [OF ne]
      by (elim exE conjE) (auto split: prod.splits if_splits)
  qed
  show ?case
  proof (cases "it_point it \<ge> it_end it")
    case True
    then show ?thesis using n ge by (subst scan.simps) (simp add: cells_after_def)
  next
    case False
    then have q: "in_grid ?d (it_point it')" "cell_index ?d (it_point it') = ?i + 1" "it_end it' = it_end it"
      "res = map_option (\<lambda>x. (it_point it', x)) (grid_cell_at g (it_point it'))" using n(2) by auto
    obtain x where x: "grid_cell_at g (it_point it') = Some x" using indexed_Some(2) [OF assms(1) q(1)] by auto
    have head: "indexed g (?i + 1) = (it_point it', x)" using indexed_Some(1) [OF assms(1) q(1)] x q(2) by simp
    have "cells_after g (it_point it) = (it_point it', x) # cells_after g (it_point it')"
      using False ge head by (simp add: cells_after_def q(2) upto_rec1)
    moreover have "scan g True f it' u = Some (scan_list f (cells_after g (it_point it')) u)" for u
      using less.prems(2) q count by (intro less.hyps) auto
    ultimately show ?thesis using n(1) q(4) x by (subst scan.simps) (simp split: sum.split)
  qed
qed

lemma scan_backward:
  assumes "grid_ok g" "in_grid (grid_dims g) (it_point it)"
  shows "scan g False f it s = Some (scan_list f (cells_before g (it_point it)) s)"
  using assms(2)
proof (induction "nat (cell_index (grid_dims g) (it_point it))" arbitrary: it s rule: less_induct)
  case less
  let ?d = "grid_dims g" and ?i = "cell_index (grid_dims g) (it_point it)"
  note D = grid_okD(6) [OF assms(1)]
  have count: "0 \<le> ?i" "?i < cell_count ?d" using cell_index_bounds [OF D less.prems] by auto
  have zero: "point_at ?d 0 = Point (topmost_line ?d) 0" by (simp add: point_at_def)
  have le: "it_point it \<le> Point (topmost_line ?d) 0 \<longleftrightarrow> ?i = 0"
    using point_at_le [OF D, of ?i 0] less.prems D count(1) by (simp add: zero)
  have pos: "iter_position g (it_point it)" "topmost_line ?d \<le> line (it_point it)"
    using less.prems by (auto simp: iter_position_def in_grid_def grid_dims_def)
  obtain res it' where n: "iter_prev g it = Some (res, it')" "if ?i = 0 then res = None \<and> it' = it
    else in_grid ?d (it_point it') \<and> cell_index ?d (it_point it') = ?i - 1
      \<and> res = map_option (\<lambda>x. (it_point it', x)) (grid_cell_at g (it_point it')) \<and> res \<noteq> None"
    using iter_prev_ok [OF assms(1) pos] unfolding ok_iff le by (elim exE conjE) (auto split: prod.splits if_splits)
  show ?case
  proof (cases "?i = 0")
    case True
    then show ?thesis using n by (subst scan.simps) (simp add: cells_before_def)
  next
    case False
    then have q: "in_grid ?d (it_point it')" "cell_index ?d (it_point it') = ?i - 1"
      "res = map_option (\<lambda>x. (it_point it', x)) (grid_cell_at g (it_point it'))" using n(2) by auto
    obtain x where x: "grid_cell_at g (it_point it') = Some x" using indexed_Some(2) [OF assms(1) q(1)] by auto
    have head: "indexed g (?i - 1) = (it_point it', x)" using indexed_Some(1) [OF assms(1) q(1)] x q(2) by simp
    have "cells_before g (it_point it) = (it_point it', x) # cells_before g (it_point it')"
      using False count(1) head by (simp add: cells_before_def q(2) upto_rec2)
    moreover have "scan g False f it' u = Some (scan_list f (cells_before g (it_point it')) u)" for u
      using q False count by (intro less.hyps) auto
    ultimately show ?thesis using n(1) q(3) x by (subst scan.simps) (simp split: sum.split)
  qed
qed

section \<open>Brackets\<close>

text \<open>The nesting depth that a list of cells adds, and the place where the first bracket is closed.\<close>

definition depth :: "uchar \<Rightarrow> uchar \<Rightarrow> (point \<times> cell) list \<Rightarrow> int" where
  "depth s e xs = (\<Sum>x \<leftarrow> xs. if cell_c (snd x) = s then 1 else if cell_c (snd x) = e then - 1 else 0)"

definition closes :: "uchar \<Rightarrow> uchar \<Rightarrow> int \<Rightarrow> (point \<times> cell) list \<Rightarrow> cell \<Rightarrow> bool" where
  "closes s e n ys x \<longleftrightarrow> cell_c x = e \<and> n + depth s e ys = 0 \<and> (\<forall>i. 0 \<le> n + depth s e (take i ys))"

lemma depth_simps [simp]:
  "depth s e [] = 0" "depth s e (xs @ ys) = depth s e xs + depth s e ys" "depth s e (rev xs) = depth s e xs"
  "depth s e (x # xs) = (if cell_c (snd x) = s then 1 else if cell_c (snd x) = e then - 1 else 0) + depth s e xs"
  by (simp_all add: depth_def rev_map [symmetric] sum_list_rev)

lemma depth_flip: "s \<noteq> e \<Longrightarrow> depth e s xs = - depth s e xs"
  by (induction xs) auto

lemma closes_Nil [simp]: "closes s e n [] x \<longleftrightarrow> cell_c x = e \<and> n = 0"
  by (auto simp: closes_def)

lemma closes_Cons: "closes s e n (y # ys) x \<longleftrightarrow> 0 \<le> n \<and> closes s e (n + depth s e [y]) ys x"
proof
  assume A: "closes s e n (y # ys) x"
  then have "0 \<le> n + depth s e (take (Suc i) (y # ys))" "0 \<le> n + depth s e (take 0 (y # ys))" for i
    unfolding closes_def by blast+
  then show "0 \<le> n \<and> closes s e (n + depth s e [y]) ys x" using A by (simp add: closes_def algebra_simps)
next
  assume A: "0 \<le> n \<and> closes s e (n + depth s e [y]) ys x"
  have "0 \<le> n + depth s e (take i (y # ys))" for i
    using A by (cases i) (auto simp: closes_def algebra_simps)
  then show "closes s e n (y # ys) x" using A by (simp add: closes_def algebra_simps)
qed

lemma bracket_scan:
  assumes "s \<noteq> e"
  shows "scan_list (bracket_step s e) xs n = Inl q \<longleftrightarrow> (\<exists>ys x zs. xs = ys @ (q, x) # zs \<and> closes s e (int n) ys x)"
proof (induction xs arbitrary: n)
  case (Cons c xs)
  obtain p y where c: "c = (p, y)" by (cases c)
  define w where "w = depth s e [c]"
  have split: "(\<exists>ys x zs. c # xs = ys @ (q, x) # zs \<and> closes s e (int n) ys x) \<longleftrightarrow>
    p = q \<and> cell_c y = e \<and> n = 0
    \<or> (\<exists>ys x zs. xs = ys @ (q, x) # zs \<and> closes s e (int n + w) ys x)" (is "?L \<longleftrightarrow> ?R")
  proof
    assume ?L
    then obtain ys x zs where L: "c # xs = ys @ (q, x) # zs" "closes s e (int n) ys x" by blast
    then show ?R using w_def by (cases ys) (auto simp: c closes_Cons simp del: depth_simps(4))
  next
    assume ?R
    then show ?L
    proof
      assume "p = q \<and> cell_c y = e \<and> n = 0"
      then show ?L by (intro exI [of _ "[]"]) (simp add: c)
    next
      assume "\<exists>ys x zs. xs = ys @ (q, x) # zs \<and> closes s e (int n + w) ys x"
      then obtain ys x zs where "xs = ys @ (q, x) # zs" "closes s e (int n + w) ys x" by blast
      then show ?L by (intro exI [of _ "c # ys"]) (auto simp: closes_Cons w_def simp del: depth_simps(4))
    qed
  qed
  have neg: "\<not> closes s e (- 1) ys x" for ys x
  proof
    assume "closes s e (- 1) ys x"
    then have "0 \<le> - 1 + depth s e (take 0 ys)" unfolding closes_def by blast
    then show False by simp
  qed
  show ?case
  proof (cases "cell_c y = e \<and> n = 0")
    case True
    then show ?thesis unfolding split using assms neg by (auto simp: c bracket_step_def w_def)
  next
    case False
    define m where "m = (if cell_c y = s then n + 1 else if cell_c y = e then n - 1 else n)"
    have m: "bracket_step s e c n = Inr m" "int m = int n + w"
      using False assms by (auto simp: c bracket_step_def w_def m_def of_nat_diff)
    then have "scan_list (bracket_step s e) (c # xs) n = scan_list (bracket_step s e) xs m" by simp
    then show ?thesis unfolding split using Cons.IH [of m] False m(2) by auto
  qed
qed simp

lemma closes_rev:
  assumes "closes s e 0 ys x" "s \<noteq> e" "cell_c y = s"
  shows "closes e s 0 (rev ys) y"
proof -
  have total: "depth s e ys = 0" using assms(1) by (simp add: closes_def)
  have "0 \<le> depth e s (take i (rev ys))" for i
  proof -
    have "depth s e ys = depth s e (take (length ys - i) ys) + depth s e (drop (length ys - i) ys)"
      by (metis append_take_drop_id depth_simps(2))
    moreover have "0 \<le> 0 + depth s e (take (length ys - i) ys)" using assms(1) unfolding closes_def by blast
    ultimately show ?thesis using total assms(2) by (simp add: take_rev depth_flip [OF assms(2)])
  qed
  then show ?thesis using assms(2,3) total by (simp add: closes_def depth_flip [OF assms(2)])
qed

definition ahead :: "bool \<Rightarrow> grid \<Rightarrow> point \<Rightarrow> (point \<times> cell) list" where
  "ahead forward g p = (if forward then cells_after g p else cells_before g p)"

lemma ahead_turn:
  assumes "grid_ok g" "in_grid (grid_dims g) p" "ahead forward g p = ys @ (q, x) # zs"
  shows "in_grid (grid_dims g) q" "grid_cell_at g q = Some x"
    "\<exists>us. ahead (\<not> forward) g q = rev ys @ (p, the (grid_cell_at g p)) # us"
proof -
  let ?d = "grid_dims g"
  note D = grid_okD(6) [OF assms(1)]
  let ?i = "cell_index ?d p" and ?n = "cell_count ?d"
  have i: "0 \<le> ?i" "?i < ?n" using cell_index_bounds [OF D assms(2)] by auto
  have at_p: "indexed g ?i = (p, the (grid_cell_at g p))" by (rule indexed_Some(1) [OF assms(1,2)])
  define L where "L = (if forward then [?i + 1..?n - 1] else rev [0..?i - 1])"
  have "map (indexed g) L = ys @ (q, x) # zs" using assms(3) by (auto simp: ahead_def cells_after_def cells_before_def L_def)
  then obtain us k vs where k: "L = us @ k # vs" "ys = map (indexed g) us" "(q, x) = indexed g k"
    by (auto simp: map_eq_append_conv Cons_eq_map_conv map_eq_Cons_conv)
  have bounds: "0 \<le> k" "k < ?n" and us: "us = (if forward then [?i + 1..k - 1] else rev [k + 1..?i - 1])"
      "if forward then ?i < k else k < ?i"
    using k(1) i upto_split_member [of "?i + 1" "?n - 1" us k vs] rev_upto_split_member [of 0 "?i - 1" us k vs]
    by (auto simp: L_def split: if_splits)
  show q: "in_grid ?d q" using point_at_in_grid [OF D bounds] k(3) by (simp add: indexed_def)
  have idx: "cell_index ?d q = k" using k(3) D by (simp add: indexed_def)
  show "grid_cell_at g q = Some x"
    using k(3) indexed_Some [OF assms(1) q] by (auto simp: idx)
  show "\<exists>us. ahead (\<not> forward) g q = rev ys @ (p, the (grid_cell_at g p)) # us"
  proof (cases forward)
    case True
    have "[0..k - 1] = [0..?i - 1] @ ?i # [?i + 1..k - 1]" using us(2) True i by (simp add: upto_split3)
    then show ?thesis using True k(2) us(1) at_p by (simp add: ahead_def cells_before_def idx rev_map)
  next
    case False
    have "[k + 1..?n - 1] = [k + 1..?i - 1] @ ?i # [?i + 1..?n - 1]" using us(2) False i by (simp add: upto_split3)
    then show ?thesis using False k(2) us(1) at_p by (simp add: ahead_def cells_after_def idx rev_map)
  qed
qed

lemma scan_ahead:
  assumes "grid_ok g" "in_grid (grid_dims g) p"
  shows "iter_from g p \<bind> (\<lambda>it. scan g forward f it s) = Some (scan_list f (ahead forward g p) s)"
  using scan_forward [OF assms(1), where f = f and s = s and it = "\<lparr>it_point = p, it_end = point_at (grid_dims g) (cell_count (grid_dims g) - 1)\<rparr>"]
    scan_backward [OF assms(1), where f = f and s = s and it = "\<lparr>it_point = p, it_end = point_at (grid_dims g) (cell_count (grid_dims g) - 1)\<rparr>"]
    assms by (simp add: iter_from_ok ahead_def)

lemma find_bracket_turn: "find_bracket c BRACKET_PAIRS = Some (forward, e) \<Longrightarrow>
    c \<noteq> e \<and> find_bracket e BRACKET_PAIRS = Some (\<not> forward, c)"
  by (auto simp: BRACKET_PAIRS_def split: if_splits)

lemma scan_ahead_then:
  assumes "grid_ok g" "in_grid (grid_dims g) p"
  shows "iter_from g p \<bind> (\<lambda>it. scan g forward f it s \<bind> h) = h (scan_list f (ahead forward g p) s)"
  using scan_ahead [OF assms, of forward f s] by (auto split: Option.bind_splits)

lemma bracket_search_eq:
  assumes "grid_ok (t_grid t)" "in_grid (t_dims t) p" "grid_cell_at (t_grid t) p = Some x"
  shows "bracket_search t p = Some (case find_bracket (cell_c x) BRACKET_PAIRS of None \<Rightarrow> None
    | Some (forward, e) \<Rightarrow> (case scan_list (bracket_step (cell_c x) e) (ahead forward (t_grid t) p) 0 of
        Inl q \<Rightarrow> Some q | Inr _ \<Rightarrow> None))"
  by (simp add: bracket_search_def assms(3) scan_ahead_then [OF assms(1,2)] split: option.split)

lemma bracket_found:
  assumes "grid_ok (t_grid t)" "in_grid (t_dims t) p" "grid_cell_at (t_grid t) p = Some x"
    and "find_bracket (cell_c x) BRACKET_PAIRS = Some (forward, e)"
  shows "\<exists>r. bracket_search t p = Some r \<and> (\<forall>q. r = Some q \<longleftrightarrow>
    (\<exists>ys y zs. ahead forward (t_grid t) p = ys @ (q, y) # zs \<and> closes (cell_c x) e 0 ys y))"
proof -
  have "cell_c x \<noteq> e" using find_bracket_turn [OF assms(4)] by simp
  define S where "S q = (\<exists>ys y zs. ahead forward (t_grid t) p = ys @ (q, y) # zs \<and> closes (cell_c x) e 0 ys y)" for q
  have B: "scan_list (bracket_step (cell_c x) e) (ahead forward (t_grid t) p) 0 = Inl q \<longleftrightarrow> S q" for q
    unfolding S_def using bracket_scan [OF \<open>cell_c x \<noteq> e\<close>, of "ahead forward (t_grid t) p" 0 q] by simp
  note eq = bracket_search_eq [OF assms(1-3)]
  show ?thesis
  proof (cases "scan_list (bracket_step (cell_c x) e) (ahead forward (t_grid t) p) 0")
    case (Inl q)
    then have "S q' \<longleftrightarrow> q' = q" for q' using B [of q'] by auto
    then show ?thesis unfolding S_def [symmetric] by (intro exI [of _ "Some q"]) (auto simp: eq assms(4) Inl)
  next
    case (Inr n)
    then have "\<not> S q'" for q' using B [of q'] by simp
    then show ?thesis unfolding S_def [symmetric] by (intro exI [of _ None]) (auto simp: eq assms(4) Inr)
  qed
qed

lemma bracket_search_back:
  assumes "grid_ok (t_grid t)" "in_grid (t_dims t) p" "bracket_search t p = Some (Some q)"
  shows "in_grid (t_dims t) q" "bracket_search t q = Some (Some p)"
proof -
  obtain x where x: "grid_cell_at (t_grid t) p = Some x" using indexed_Some(2) [OF assms(1,2)] by blast
  obtain forward e where fb: "find_bracket (cell_c x) BRACKET_PAIRS = Some (forward, e)"
    using assms(3) bracket_search_eq [OF assms(1,2) x] by (cases "find_bracket (cell_c x) BRACKET_PAIRS") auto
  note turn = find_bracket_turn [OF fb]
  obtain ys y zs where ys: "ahead forward (t_grid t) p = ys @ (q, y) # zs" "closes (cell_c x) e 0 ys y"
    using bracket_found [OF assms(1,2) x fb] assms(3) by (metis option.inject)
  show q: "in_grid (t_dims t) q" by (rule ahead_turn(1) [OF assms(1,2) ys(1)])
  have y: "grid_cell_at (t_grid t) q = Some y" by (rule ahead_turn(2) [OF assms(1,2) ys(1)])
  obtain us where us: "ahead (\<not> forward) (t_grid t) q = rev ys @ (p, x) # us"
    using ahead_turn(3) [OF assms(1,2) ys(1)] x by auto
  have e: "cell_c y = e" using ys(2) by (simp add: closes_def)
  have "closes e (cell_c x) 0 (rev ys) x" using closes_rev [OF ys(2)] turn by simp
  then show "bracket_search t q = Some (Some p)"
    using bracket_found [OF assms(1) q y] turn us e by force
qed

section \<open>Words\<close>

text \<open>A loop that stops at the first cell with a property, counted along an interval of indices.\<close>

lemma scan_up_cases:
  assumes "\<forall>px s. f px s = (if stop px then Inl (h px s) else Inr (fst px))"
  shows "(\<exists>k. a \<le> k \<and> k \<le> b \<and> stop (c k) \<and> (\<forall>j. a \<le> j \<and> j < k \<longrightarrow> \<not> stop (c j))
      \<and> scan_list f (map c [a..b]) s = Inl (h (c k) (if k = a then s else fst (c (k - 1)))))
    \<or> ((\<forall>j. a \<le> j \<and> j \<le> b \<longrightarrow> \<not> stop (c j)) \<and> scan_list f (map c [a..b]) s = Inr (if b < a then s else fst (c b)))"
proof (induction "nat (b + 1 - a)" arbitrary: a s rule: less_induct)
  case less
  consider "b < a" | "a \<le> b" "stop (c a)" | "a \<le> b" "\<not> stop (c a)" by linarith
  then show ?case
  proof cases
    case 2
    then show ?thesis by (intro disjI1 exI [of _ a]) (auto simp: assms upto_rec1)
  next
    case 3
    then have unfold: "scan_list f (map c [a..b]) s = scan_list f (map c [a + 1..b]) (fst (c a))"
      by (simp add: assms upto_rec1)
    have first: "\<not> stop (c j)" if "j = a" for j using 3 that by simp
    have "nat (b + 1 - (a + 1)) < nat (b + 1 - a)" using 3(1) by simp
    from less.hyps [OF this, of "fst (c a)"] show ?thesis
    proof (elim disjE exE conjE)
      fix k assume k: "a + 1 \<le> k" "k \<le> b" "stop (c k)" "\<forall>j. a + 1 \<le> j \<and> j < k \<longrightarrow> \<not> stop (c j)"
        "scan_list f (map c [a + 1..b]) (fst (c a)) = Inl (h (c k) (if k = a + 1 then fst (c a) else fst (c (k - 1))))"
      have "\<not> stop (c j)" if "a \<le> j" "j < k" for j using that k(4) first by (cases "j = a") auto
      then show ?thesis using k unfold by (intro disjI1 exI [of _ k]) auto
    next
      assume k: "\<forall>j. a + 1 \<le> j \<and> j \<le> b \<longrightarrow> \<not> stop (c j)"
        "scan_list f (map c [a + 1..b]) (fst (c a)) = Inr (if b < a + 1 then fst (c a) else fst (c b))"
      have "\<not> stop (c j)" if "a \<le> j" "j \<le> b" for j using that k(1) first by (cases "j = a") auto
      then show ?thesis using k(2) 3(1) unfold by (intro disjI2) auto
    qed
  qed auto
qed

lemma scan_down_cases:
  assumes "\<forall>px s. f px s = (if stop px then Inl (h px s) else Inr (fst px))"
  shows "(\<exists>k. a \<le> k \<and> k \<le> b \<and> stop (c k) \<and> (\<forall>j. k < j \<and> j \<le> b \<longrightarrow> \<not> stop (c j))
      \<and> scan_list f (map c (rev [a..b])) s = Inl (h (c k) (if k = b then s else fst (c (k + 1)))))
    \<or> ((\<forall>j. a \<le> j \<and> j \<le> b \<longrightarrow> \<not> stop (c j)) \<and> scan_list f (map c (rev [a..b])) s = Inr (if b < a then s else fst (c a)))"
proof -
  have "rev [a..b] = map uminus [- b..- a]"
  proof (induction "nat (b + 1 - a)" arbitrary: b rule: less_induct)
    case less
    then show ?case by (cases "a \<le> b") (simp_all add: upto_rec2 [of a b] upto_rec1 [of "- b" "- a"])
  qed
  then have eq: "map c (rev [a..b]) = map (\<lambda>k. c (- k)) [- b..- a]" by simp
  from scan_up_cases [OF assms, where a = "- b" and b = "- a" and c = "\<lambda>k. c (- k)" and s = s, folded eq]
  show ?thesis
  proof (elim disjE exE conjE)
    fix k assume k: "- b \<le> k" "k \<le> - a" "stop (c (- k))" "\<forall>j. - b \<le> j \<and> j < k \<longrightarrow> \<not> stop (c (- j))"
      "scan_list f (map c (rev [a..b])) s = Inl (h (c (- k)) (if k = - b then s else fst (c (- (k - 1)))))"
    have "\<not> stop (c j)" if "- k < j" "j \<le> b" for j using k(4) [rule_format, of "- j"] that by simp
    then show ?thesis using k(1-3,5) by (intro disjI1 exI [of _ "- k"]) (auto simp: algebra_simps)
  next
    assume k: "\<forall>j. - b \<le> j \<and> j \<le> - a \<longrightarrow> \<not> stop (c (- j))"
      "scan_list f (map c (rev [a..b])) s = Inr (if - a < - b then s else fst (c (- (- a))))"
    have "\<not> stop (c j)" if "a \<le> j" "j \<le> b" for j using k(1) [rule_format, of "- j"] that by simp
    then show ?thesis using k(2) by (intro disjI2) auto
  qed
qed

definition line_break :: "grid \<Rightarrow> int \<Rightarrow> bool" where
  \<comment> \<open>a line that is not continued below ends at this index\<close>
  "line_break g k \<longleftrightarrow> (case indexed g k of (q, x) \<Rightarrow>
     column q = g_columns g - 1 \<and> \<not> flag_contains (cell_flags x) WRAPLINE)"

definition needle_at :: "grid \<Rightarrow> ustring \<Rightarrow> int \<Rightarrow> bool" where
  "needle_at g needles k \<longleftrightarrow> is_needle needles (snd (indexed g k))"

lemma clamp_top_id: "in_grid (t_dims t) p \<Longrightarrow> clamp_top t p = p"
  by (cases p) (simp add: clamp_top_def in_grid_def)

lemma inline_left_ok:
  assumes "grid_ok (t_grid t)" "in_grid (t_dims t) p" "i = cell_index (t_dims t) p"
  shows "ok (inline_search_left t needles p) (\<lambda>r. \<exists>k. 0 \<le> k \<and> k \<le> i
    \<and> (\<forall>j. k \<le> j \<and> j < i \<longrightarrow> \<not> line_break (t_grid t) j \<and> \<not> needle_at (t_grid t) needles j)
    \<and> (case r of
         Inl q \<Rightarrow> q = point_at (t_dims t) k \<and> (k = 0 \<or> line_break (t_grid t) (k - 1))
       | Inr q \<Rightarrow> 0 < k \<and> q = point_at (t_dims t) (k - 1) \<and> needle_at (t_grid t) needles (k - 1)
           \<and> \<not> line_break (t_grid t) (k - 1)))"
proof -
  let ?g = "t_grid t"
  note D = grid_okD(6) [OF assms(1)]
  have cols: "0 < g_columns ?g" using grid_okD(3) [OF assms(1)] .
  have i: "0 \<le> i" using cell_index_bounds [OF D assms(2)] assms(3) by simp
  have p: "point_at (t_dims t) i = p" using D assms(2,3) by simp
  let ?f = "inline_left_step (g_columns ?g - 1) needles"
  define brk where "brk px \<longleftrightarrow> (case px of (q, x) \<Rightarrow> column q = g_columns ?g - 1 \<and> \<not> flag_contains (cell_flags x) WRAPLINE)" for px :: "point \<times> cell"
  define stop where "stop px \<longleftrightarrow> brk px \<or> is_needle needles (snd px)" for px :: "point \<times> cell"
  define h where "h px s = (if brk px then Inl s else Inr (fst px))" for px :: "point \<times> cell" and s :: point
  have f: "\<forall>px s. ?f px s = (if stop px then Inl (h px s) else Inr (fst px))"
    by (auto simp: inline_left_step_def brk_def stop_def h_def)
  have brk: "brk (indexed ?g k) \<longleftrightarrow> line_break ?g k" for k by (simp add: brk_def line_break_def)
  have stop: "stop (indexed ?g k) \<longleftrightarrow> line_break ?g k \<or> needle_at ?g needles k" for k
    by (simp add: stop_def brk needle_at_def)
  have fst: "fst (indexed ?g k) = point_at (t_dims t) k" for k by (simp add: indexed_def)
  have h: "h (indexed ?g k) s = (if line_break ?g k then Inl s else Inr (point_at (t_dims t) k))" for k s
    by (simp add: h_def brk fst)
  have run: "inline_search_left t needles p =
      Some (case scan_list ?f (map (indexed ?g) (rev [0..i - 1])) p of Inl r \<Rightarrow> r | Inr q \<Rightarrow> Inl q)"
    using scan_ahead_then [OF assms(1,2), of False ?f p] cols
    by (simp add: inline_search_left_def clamp_top_id [OF assms(2)] csub_def ahead_def cells_before_def assms(3))
  from scan_down_cases [OF f, where a = 0 and b = "i - 1" and c = "indexed ?g" and s = p, unfolded stop fst h]
  show ?thesis
  proof (rule disjE, elim exE conjE)
    fix k assume k: "0 \<le> k" "k \<le> i - 1" "line_break ?g k \<or> needle_at ?g needles k"
      "\<forall>j. k < j \<and> j \<le> i - 1 \<longrightarrow> \<not> (line_break ?g j \<or> needle_at ?g needles j)"
      "scan_list ?f (map (indexed ?g) (rev [0..i - 1])) p =
        Inl (if line_break ?g k then Inl (if k = i - 1 then p else point_at (t_dims t) (k + 1)) else Inr (point_at (t_dims t) k))"
    have "\<forall>j. k + 1 \<le> j \<and> j < i \<longrightarrow> \<not> line_break ?g j \<and> \<not> needle_at ?g needles j" using k(4) by auto
    then show ?thesis unfolding run k(5) using k(1-3) p by (auto intro!: exI [of _ "k + 1"])
  next
    assume "(\<forall>j. 0 \<le> j \<and> j \<le> i - 1 \<longrightarrow> \<not> (line_break ?g j \<or> needle_at ?g needles j))
      \<and> scan_list ?f (map (indexed ?g) (rev [0..i - 1])) p = Inr (if i - 1 < 0 then p else point_at (t_dims t) 0)"
    note k = conjunct1 [OF this] conjunct2 [OF this]
    have "(if i - 1 < 0 then p else point_at (t_dims t) 0) = point_at (t_dims t) 0" using i p by (auto dest: antisym)
    then show ?thesis unfolding run k(2) using k(1) i by (auto intro!: exI [of _ 0])
  qed
qed

lemma inline_right_ok:
  assumes "grid_ok (t_grid t)" "in_grid (t_dims t) p" "i = cell_index (t_dims t) p"
  shows "ok (inline_search_right t needles p) (\<lambda>r. \<exists>k. i \<le> k \<and> k < cell_count (t_dims t)
    \<and> (\<forall>j. i < j \<and> j \<le> k \<longrightarrow> \<not> needle_at (t_grid t) needles j) \<and> (\<forall>j. i \<le> j \<and> j < k \<longrightarrow> \<not> line_break (t_grid t) j)
    \<and> (case r of
         Inl q \<Rightarrow> q = point_at (t_dims t) k \<and> (k = cell_count (t_dims t) - 1 \<or> line_break (t_grid t) k)
       | Inr q \<Rightarrow> k + 1 < cell_count (t_dims t) \<and> q = point_at (t_dims t) (k + 1) \<and> needle_at (t_grid t) needles (k + 1)
           \<and> \<not> line_break (t_grid t) k))"
proof -
  let ?g = "t_grid t" and ?n = "cell_count (t_dims t)"
  note D = grid_okD(6) [OF assms(1)]
  have cols: "0 < g_columns ?g" using grid_okD(3) [OF assms(1)] .
  have i: "0 \<le> i" "i < ?n" using cell_index_bounds [OF D assms(2)] assms(3) by auto
  have p: "point_at (t_dims t) i = p" using D assms(2,3) by simp
  obtain x where x: "grid_cell_at ?g p = Some x" "indexed ?g i = (p, x)"
    using indexed_Some [OF assms(1,2)] assms(3) by auto
  show ?thesis
  proof (cases "line_break ?g i")
    case True
    then have "inline_search_right t needles p = Some (Inl p)"
      using x cols by (simp add: inline_search_right_def clamp_top_id [OF assms(2)] csub_def line_break_def)
    then show ?thesis using True p i by (auto intro!: exI [of _ i])
  next
    case False
    let ?f = "inline_right_step (g_columns ?g - 1) needles"
    define brk where "brk px \<longleftrightarrow> (case px of (q, x) \<Rightarrow> column q = g_columns ?g - 1 \<and> \<not> flag_contains (cell_flags x) WRAPLINE)" for px :: "point \<times> cell"
    define stop where "stop px \<longleftrightarrow> brk px \<or> is_needle needles (snd px)" for px :: "point \<times> cell"
    define h where "h px s = (if is_needle needles (snd px) then Inr (fst px) else Inl (fst px))" for px :: "point \<times> cell" and s :: point
    have f: "\<forall>px s. ?f px s = (if stop px then Inl (h px s) else Inr (fst px))"
      by (auto simp: inline_right_step_def brk_def stop_def h_def)
    have brk: "brk (indexed ?g k) \<longleftrightarrow> line_break ?g k" for k by (simp add: brk_def line_break_def)
    have stop: "stop (indexed ?g k) \<longleftrightarrow> line_break ?g k \<or> needle_at ?g needles k" for k
      by (simp add: stop_def brk needle_at_def)
    have fst: "fst (indexed ?g k) = point_at (t_dims t) k" for k by (simp add: indexed_def)
    have h: "h (indexed ?g k) s = (if needle_at ?g needles k then Inr (point_at (t_dims t) k) else Inl (point_at (t_dims t) k))" for k s
      by (simp add: h_def needle_at_def fst)
    have run: "inline_search_right t needles p =
        Some (case scan_list ?f (map (indexed ?g) [i + 1..?n - 1]) p of Inl r \<Rightarrow> r | Inr q \<Rightarrow> Inl q)"
      using scan_ahead_then [OF assms(1,2), of True ?f p] cols False x
      by (auto simp: inline_search_right_def clamp_top_id [OF assms(2)] csub_def ahead_def cells_after_def assms(3) line_break_def)
    from scan_up_cases [OF f, where a = "i + 1" and b = "?n - 1" and c = "indexed ?g" and s = p, unfolded stop fst h]
    show ?thesis
    proof (rule disjE, elim exE conjE)
      fix k assume k: "i + 1 \<le> k" "k \<le> ?n - 1" "line_break ?g k \<or> needle_at ?g needles k"
        "\<forall>j. i + 1 \<le> j \<and> j < k \<longrightarrow> \<not> (line_break ?g j \<or> needle_at ?g needles j)"
        "scan_list ?f (map (indexed ?g) [i + 1..?n - 1]) p =
          Inl (if needle_at ?g needles k then Inr (point_at (t_dims t) k) else Inl (point_at (t_dims t) k))"
      have nb: "\<not> line_break ?g j" if "i \<le> j" "j < k" for j using that k(4) False by (cases "j = i") auto
      show ?thesis
      proof (cases "needle_at ?g needles k")
        case True
        then show ?thesis unfolding run k(5) using k nb by (auto intro!: exI [of _ "k - 1"])
      next
        case False
        then have "\<not> needle_at ?g needles j" if "i < j" "j \<le> k" for j using that k(4) by (cases "j = k") auto
        then show ?thesis unfolding run k(5) using False k(1-3) nb by (auto intro!: exI [of _ k])
      qed
    next
      assume "(\<forall>j. i + 1 \<le> j \<and> j \<le> ?n - 1 \<longrightarrow> \<not> (line_break ?g j \<or> needle_at ?g needles j))
        \<and> scan_list ?f (map (indexed ?g) [i + 1..?n - 1]) p = Inr (if ?n - 1 < i + 1 then p else point_at (t_dims t) (?n - 1))"
      note k = conjunct1 [OF this] conjunct2 [OF this]
      have e: "(if ?n - 1 < i + 1 then p else point_at (t_dims t) (?n - 1)) = point_at (t_dims t) (?n - 1)"
      proof (cases "?n - 1 < i + 1")
        case True
        then have "i = ?n - 1" using i by simp
        then show ?thesis using p True by simp
      qed simp
      have nb: "\<not> line_break ?g j" if "i \<le> j" "j < ?n - 1" for j using that k(1) False by (cases "j = i") auto
      show ?thesis unfolding run k(2) e using k(1) i nb by (auto intro!: exI [of _ "?n - 1"])
    qed
  qed
qed

definition spacer_at :: "grid \<Rightarrow> int \<Rightarrow> bool" where
  "spacer_at g k \<longleftrightarrow> flag_intersects (cell_flags (snd (indexed g k))) wide_spacer"

lemma skip_spacers_ok:
  assumes "grid_ok g" "0 \<le> k" "k < cell_count (grid_dims g)"
  shows "ok (iter_from g (point_at (grid_dims g) k) \<bind> (\<lambda>it. scan g True skip_spacers it ()))
    (\<lambda>r. case r of
       Inl q \<Rightarrow> \<exists>m. k < m \<and> m < cell_count (grid_dims g) \<and> q = point_at (grid_dims g) m \<and> \<not> spacer_at g m
         \<and> (\<forall>j. k < j \<and> j < m \<longrightarrow> spacer_at g j)
     | Inr _ \<Rightarrow> \<forall>j. k < j \<and> j < cell_count (grid_dims g) \<longrightarrow> spacer_at g j)"
proof -
  let ?d = "grid_dims g" and ?n = "cell_count (grid_dims g)"
  note D = grid_okD(6) [OF assms(1)]
  have run: "iter_from g (point_at ?d k) \<bind> (\<lambda>it. scan g True skip_spacers it ())
      = Some (scan_list skip_spacers (map (indexed g) [k + 1..?n - 1]) ())"
    using scan_ahead [OF assms(1) point_at_in_grid [OF D assms(2,3)], of True skip_spacers "()"] D
    by (simp add: ahead_def cells_after_def)
  have step: "skip_spacers (indexed g j) () = (if spacer_at g j then Inr () else Inl (point_at ?d j))" for j
    by (simp add: skip_spacers_def spacer_at_def indexed_def)
  have "case scan_list skip_spacers (map (indexed g) [a..?n - 1]) () of
       Inl q \<Rightarrow> \<exists>m. a \<le> m \<and> m < ?n \<and> q = point_at ?d m \<and> \<not> spacer_at g m \<and> (\<forall>j. a \<le> j \<and> j < m \<longrightarrow> spacer_at g j)
     | Inr _ \<Rightarrow> \<forall>j. a \<le> j \<and> j < ?n \<longrightarrow> spacer_at g j" for a
  proof (induction "nat (?n - a)" arbitrary: a rule: less_induct)
    case less
    consider "?n \<le> a" | "a < ?n" "\<not> spacer_at g a" | "a < ?n" "spacer_at g a" by linarith
    then show ?case
    proof cases
      case 2
      then show ?thesis by (auto simp: upto_rec1 step intro!: exI [of _ a])
    next
      case 3
      have unfold: "scan_list skip_spacers (map (indexed g) [a..?n - 1]) () = scan_list skip_spacers (map (indexed g) [a + 1..?n - 1]) ()"
        using 3 by (simp add: upto_rec1 step)
      have at: "spacer_at g j" if "j = a" for j using 3 that by simp
      have tail: "(\<forall>j. a + 1 \<le> j \<and> j < m \<longrightarrow> spacer_at g j) \<Longrightarrow> \<forall>j. a \<le> j \<and> j < m \<longrightarrow> spacer_at g j" for m
        using at by (metis add1_zle_eq antisym_conv1 order.order_iff_strict)
      have "nat (?n - (a + 1)) < nat (?n - a)" using 3(1) by simp
      from less.hyps [OF this] show ?thesis unfolding unfold using tail
        by (auto split: sum.splits intro: add1_zle_eq) fastforce
    qed auto
  qed
  from this [of "k + 1"] show ?thesis unfolding run by (auto simp: add1_zle_eq split: sum.splits)
qed

text \<open>The end of a word: the last cell before the next escape character or the end of the line.\<close>

lemma semantic_right_ok:
  assumes "grid_ok (t_grid t)" "in_grid (t_dims t) p" "i = cell_index (t_dims t) p"
  shows "ok (semantic_search_right t p) (\<lambda>q. \<exists>k. i \<le> k \<and> k < cell_count (t_dims t) \<and> q = point_at (t_dims t) k
    \<and> (\<forall>j. i < j \<and> j \<le> k \<longrightarrow> \<not> needle_at (t_grid t) (semantic_escape_chars (t_config t)) j)
    \<and> (\<forall>j. i \<le> j \<and> j < k \<longrightarrow> \<not> line_break (t_grid t) j)
    \<and> (k = cell_count (t_dims t) - 1 \<or> line_break (t_grid t) k
       \<or> needle_at (t_grid t) (semantic_escape_chars (t_config t)) (k + 1)))"
proof -
  let ?g = "t_grid t" and ?N = "needle_at (t_grid t) (semantic_escape_chars (t_config t))" and ?n = "cell_count (t_dims t)"
  note D = grid_okD(6) [OF assms(1)]
  have i: "0 \<le> i" "i < ?n" using cell_index_bounds [OF D assms(2)] assms(3) by auto
  obtain r k where r: "inline_search_right t (semantic_escape_chars (t_config t)) p = Some r"
    and k: "i \<le> k" "k < ?n" "\<forall>j. i < j \<and> j \<le> k \<longrightarrow> \<not> ?N j" "\<forall>j. i \<le> j \<and> j < k \<longrightarrow> \<not> line_break ?g j"
      "case r of Inl q \<Rightarrow> q = point_at (t_dims t) k \<and> (k = ?n - 1 \<or> line_break ?g k)
       | Inr q \<Rightarrow> k + 1 < ?n \<and> q = point_at (t_dims t) (k + 1) \<and> ?N (k + 1) \<and> \<not> line_break ?g k"
    using inline_right_ok [OF assms, of "semantic_escape_chars (t_config t)"] by (auto elim!: okE)
  have "semantic_search_right t p = Some (point_at (t_dims t) k)"
  proof (cases r)
    case (Inr q)
    then have q: "k + 1 < ?n" "q = point_at (t_dims t) (k + 1)" using k(5) by auto
    have qg: "in_grid (t_dims t) q" using point_at_in_grid [OF D, of "k + 1"] q i(1) k(1) by simp
    have idx: "cell_index (t_dims t) q = k + 1" using q(2) D by simp
    let ?it = "\<lparr>it_point = q, it_end = point_at (t_dims t) (?n - 1)\<rparr>"
    have "iter_position ?g q" "topmost_line (t_dims t) \<le> line q" "\<not> q \<le> Point (topmost_line (t_dims t)) 0"
      using qg point_at_le [OF D, of "k + 1" 0] q(2) i(1) k(1)
      by (auto simp: iter_position_def in_grid_def grid_dims_def point_at_def)
    then obtain it' x where "iter_prev ?g ?it = Some (Some (it_point it', x), it')" "in_grid (t_dims t) (it_point it')"
        "cell_index (t_dims t) (it_point it') = k"
      using iter_prev_ok [OF assms(1), of ?it] idx by (auto elim!: okE)
    moreover from this have "it_point it' = point_at (t_dims t) k" using point_at_index [OF D] by metis
    ultimately show ?thesis using r Inr by (simp add: semantic_search_right_def iter_from_ok [OF assms(1)])
  qed (use r k(5) in \<open>simp add: semantic_search_right_def\<close>)
  then show ?thesis using k by (auto split: sum.splits)
qed

text \<open>The start of a word: the first cell behind the previous escape character that shows a character.\<close>

lemma semantic_left_ok:
  assumes "grid_ok (t_grid t)" "in_grid (t_dims t) p" "i = cell_index (t_dims t) p"
  shows "ok (semantic_search_left t p) (\<lambda>q. \<exists>k m. 0 \<le> k \<and> k \<le> i \<and> 0 \<le> m \<and> m < cell_count (t_dims t)
    \<and> q = point_at (t_dims t) m
    \<and> (\<forall>j. k \<le> j \<and> j < i \<longrightarrow> \<not> line_break (t_grid t) j
         \<and> \<not> needle_at (t_grid t) (semantic_escape_chars (t_config t)) j)
    \<and> (k = 0 \<or> line_break (t_grid t) (k - 1) \<or> needle_at (t_grid t) (semantic_escape_chars (t_config t)) (k - 1))
    \<and> (\<not> spacer_at (t_grid t) k \<longrightarrow> m = k))"
proof -
  let ?g = "t_grid t" and ?N = "needle_at (t_grid t) (semantic_escape_chars (t_config t))" and ?n = "cell_count (t_dims t)"
  note D = grid_okD(6) [OF assms(1)]
  have i: "0 \<le> i" "i < ?n" using cell_index_bounds [OF D assms(2)] assms(3) by auto
  obtain r k where r: "inline_search_left t (semantic_escape_chars (t_config t)) p = Some r"
    and k: "0 \<le> k" "k \<le> i" "\<forall>j. k \<le> j \<and> j < i \<longrightarrow> \<not> line_break ?g j \<and> \<not> ?N j"
      "case r of Inl q \<Rightarrow> q = point_at (t_dims t) k \<and> (k = 0 \<or> line_break ?g (k - 1))
       | Inr q \<Rightarrow> 0 < k \<and> q = point_at (t_dims t) (k - 1) \<and> ?N (k - 1) \<and> \<not> line_break ?g (k - 1)"
    using inline_left_ok [OF assms, of "semantic_escape_chars (t_config t)"] by (auto elim!: okE)
  obtain m where m: "semantic_search_left t p = Some (point_at (t_dims t) m)" "0 \<le> m" "m < ?n" "\<not> spacer_at ?g k \<longrightarrow> m = k"
  proof (cases r)
    case (Inl q)
    then show ?thesis using that [of k] r k i by (auto simp: semantic_search_left_def)
  next
    case (Inr q)
    then have q: "0 < k" "q = point_at (t_dims t) (k - 1)" using k(4) by auto
    have b: "0 \<le> k - 1" "k - 1 < ?n" using q(1) k(2) i(2) by auto
    obtain s where s: "iter_from ?g q \<bind> (\<lambda>it. scan ?g True skip_spacers it ()) = Some s"
      and S: "case s of Inl z \<Rightarrow> \<exists>m. k - 1 < m \<and> m < ?n \<and> z = point_at (t_dims t) m \<and> \<not> spacer_at ?g m
           \<and> (\<forall>j. k - 1 < j \<and> j < m \<longrightarrow> spacer_at ?g j)
         | Inr _ \<Rightarrow> \<forall>j. k - 1 < j \<and> j < ?n \<longrightarrow> spacer_at ?g j"
      using skip_spacers_ok [OF assms(1) b] q(2) by (auto elim!: okE)
    have res: "semantic_search_left t p = Some (case s of Inl z \<Rightarrow> z | Inr _ \<Rightarrow> q)"
      using r Inr s by (auto simp: semantic_search_left_def split: Option.bind_splits)
    show ?thesis
    proof (cases s)
      case (Inl z)
      then obtain m where m: "k - 1 < m" "m < ?n" "z = point_at (t_dims t) m" "\<forall>j. k - 1 < j \<and> j < m \<longrightarrow> spacer_at ?g j"
        using S by auto
      have "m = k" if "\<not> spacer_at ?g k" using m(1,4) that by (cases "k < m") auto
      then show ?thesis using that [of m] res Inl m q(1) by auto
    next
      case (Inr u)
      then have "spacer_at ?g k" using S k(2) i(2) by simp
      then show ?thesis using that [of "k - 1"] res Inr q b by auto
    qed
  qed
  have start: "k = 0 \<or> line_break ?g (k - 1) \<or> ?N (k - 1)" using k(4) by (auto split: sum.splits)
  show ?thesis unfolding m(1) ok_Some by (intro exI [of _ k] exI [of _ m]) (use k(1-3) m(2-4) start in auto)
qed

section \<open>Wrapped lines\<close>

lemma wraps_ok:
  assumes "grid_ok g" "topmost_line (grid_dims g) \<le> l" "l \<le> bottommost_line (grid_dims g)"
  shows "ok (wraps g l) (\<lambda>_. True)"
proof -
  have "in_grid (grid_dims g) (Point l (g_columns g - 1))"
    using assms grid_okD(3) [OF assms(1)] by (simp add: in_grid_def grid_dims_def)
  then obtain x where "grid_cell_at g (Point l (g_columns g - 1)) = Some x"
    using grid_cell_ok [OF assms(1)] by (auto elim: okE)
  moreover have "last_column (grid_dims g) = Some (g_columns g - 1)"
    using grid_okD(6) [OF assms(1)] by (simp add: grid_dims_def)
  ultimately show ?thesis by (simp add: wraps_def)
qed

lemma line_start_ok:
  assumes "grid_ok g" "topmost_line (grid_dims g) \<le> l" "l \<le> bottommost_line (grid_dims g)"
  shows "ok (line_start g l) (\<lambda>m. topmost_line (grid_dims g) \<le> m \<and> m \<le> l
    \<and> (\<forall>j. m \<le> j \<and> j < l \<longrightarrow> wraps g j = Some True)
    \<and> (m = topmost_line (grid_dims g) \<or> wraps g (m - 1) = Some False))"
  using assms(2,3)
proof (induction "nat (l - topmost_line (grid_dims g))" arbitrary: l rule: less_induct)
  case less
  let ?top = "topmost_line (grid_dims g)"
  show ?case
  proof (cases "l > ?top")
    case True
    obtain w where w: "wraps g (l - 1) = Some w" using wraps_ok [OF assms(1), of "l - 1"] less.prems True by (auto elim: okE)
    show ?thesis
    proof (cases w)
      case True': True
      have "ok (line_start g (l - 1)) (\<lambda>m. ?top \<le> m \<and> m \<le> l - 1 \<and> (\<forall>j. m \<le> j \<and> j < l - 1 \<longrightarrow> wraps g j = Some True)
          \<and> (m = ?top \<or> wraps g (m - 1) = Some False))"
        using less.prems True by (intro less.hyps) auto
      then have "ok (line_start g (l - 1)) (\<lambda>m. ?top \<le> m \<and> m \<le> l \<and> (\<forall>j. m \<le> j \<and> j < l \<longrightarrow> wraps g j = Some True)
          \<and> (m = ?top \<or> wraps g (m - 1) = Some False))"
      proof (elim ok_mono conjE, intro conjI allI impI)
        fix m j assume "\<forall>j. m \<le> j \<and> j < l - 1 \<longrightarrow> wraps g j = Some True" "m \<le> j \<and> j < l"
        then show "wraps g j = Some True" using w True' by (cases "j = l - 1") auto
      qed auto
      then show ?thesis using True w True' by (subst line_start.simps) simp
    qed (use True w less.prems in \<open>subst line_start.simps, auto\<close>)
  qed (use less.prems in \<open>subst line_start.simps, auto\<close>)
qed

lemma line_stop_ok:
  assumes "grid_ok g" "topmost_line (grid_dims g) \<le> l" "l \<le> bottommost_line (grid_dims g)"
  shows "ok (line_stop g l) (\<lambda>m. l \<le> m \<and> m \<le> bottommost_line (grid_dims g)
    \<and> (\<forall>j. l \<le> j \<and> j < m \<longrightarrow> wraps g j = Some True)
    \<and> (m = bottommost_line (grid_dims g) \<or> wraps g m = Some False))"
  using assms(2,3)
proof (induction "nat (int (g_lines g) - l)" arbitrary: l rule: less_induct)
  case less
  have bottom: "bottommost_line (grid_dims g) = int (g_lines g) - 1" by (simp add: bottommost_line_def grid_dims_def)
  show ?case
  proof (cases "l + 1 < int (g_lines g)")
    case True
    obtain w where w: "wraps g l = Some w" using wraps_ok [OF assms(1)] less.prems by (auto elim: okE)
    show ?thesis
    proof (cases w)
      case True': True
      have "ok (line_stop g (l + 1)) (\<lambda>m. l + 1 \<le> m \<and> m \<le> bottommost_line (grid_dims g)
          \<and> (\<forall>j. l + 1 \<le> j \<and> j < m \<longrightarrow> wraps g j = Some True)
          \<and> (m = bottommost_line (grid_dims g) \<or> wraps g m = Some False))"
        using less.prems True by (intro less.hyps) (auto simp: bottom)
      then have "ok (line_stop g (l + 1)) (\<lambda>m. l \<le> m \<and> m \<le> bottommost_line (grid_dims g)
          \<and> (\<forall>j. l \<le> j \<and> j < m \<longrightarrow> wraps g j = Some True)
          \<and> (m = bottommost_line (grid_dims g) \<or> wraps g m = Some False))"
      proof (elim ok_mono conjE, intro conjI allI impI)
        fix m j assume "\<forall>j. l + 1 \<le> j \<and> j < m \<longrightarrow> wraps g j = Some True" "l \<le> j \<and> j < m"
        then show "wraps g j = Some True" using w True' by (cases "j = l") auto
      qed auto
      then show ?thesis using True w True' by (subst line_stop.simps) simp
    qed (use True w less.prems in \<open>subst line_stop.simps, auto\<close>)
  qed (use less.prems in \<open>subst line_stop.simps, auto simp: bottom\<close>)
qed

end
