(* ===== verification/Selection_Text.thy ===== *)
theory Selection_Text
  imports Search
begin

text \<open>
  What a selection covers and the text it copies: \<^verbatim>\<open>Selection::to_range\<close> with its semantic and line
  modes (\<^verbatim>\<open>alacritty_terminal/src/selection.rs\<close>), \<^verbatim>\<open>Term::selection_to_string\<close>,
  \<^verbatim>\<open>bounds_to_string\<close> and \<^verbatim>\<open>line_to_string\<close> (\<^verbatim>\<open>term/mod.rs\<close>). The outer option is a panic; the inner
  one is the source's.
\<close>

unbundle bit_operations_syntax

section \<open>From a selection to a range\<close>

definition range_semantic :: "terminal \<Rightarrow> point \<Rightarrow> point \<Rightarrow> selection_range option" where
  "range_semantic t s e = do {
     matching \<leftarrow> (if s = e then bracket_search t s else Some None);
     case matching of
       Some m \<Rightarrow>
         Some (if line m = line s \<and> column m < column s \<or> line m < line s
               then \<lparr>range_start = m, range_end = e, is_block = False\<rparr>
               else \<lparr>range_start = s, range_end = m, is_block = False\<rparr>)
     | None \<Rightarrow> do {
         s \<leftarrow> semantic_search_left t s;
         e \<leftarrow> semantic_search_right t e;
         Some \<lparr>range_start = s, range_end = e, is_block = False\<rparr>
       }
   }"

definition range_lines :: "terminal \<Rightarrow> point \<Rightarrow> point \<Rightarrow> selection_range option" where
  "range_lines t s e = do {
     s \<leftarrow> line_search_left t s;
     e \<leftarrow> line_search_right t e;
     Some \<lparr>range_start = s, range_end = e, is_block = False\<rparr>
   }"

definition to_range :: "terminal \<Rightarrow> selection \<Rightarrow> selection_range option option" where
  "to_range t sel =
     (let s = (if selection_swapped sel then sel_end sel else sel_start sel);
          e = (if selection_swapped sel then sel_start sel else sel_end sel)
      in if line (anchor_point e) < topmost_line (t_dims t) then Some None
         else do {
           sp \<leftarrow> point_grid_clamp (t_dims t) Boundary_Grid (anchor_point s);
           ep \<leftarrow> point_grid_clamp (t_dims t) Boundary_Grid (anchor_point e);
           let s = s\<lparr>anchor_point := sp\<rparr>;
           let e = e\<lparr>anchor_point := ep\<rparr>;
           case sel_ty sel of
             Simple \<Rightarrow> range_simple sel s e (t_columns t)
           | Block \<Rightarrow> Some (range_block sel s e)
           | Semantic \<Rightarrow> map_option Some (range_semantic t sp ep)
           | Lines \<Rightarrow> map_option Some (range_lines t sp ep)
         })"

section \<open>From a range to text\<close>

definition cell_text :: "cell \<Rightarrow> ustring" where
  \<comment> \<open>the character of a cell and its zero-width characters; spacers have none\<close>
  "cell_text x =
     (if flag_intersects (cell_flags x) wide_spacer then []
      else cell_c x # (case zerowidth x of Some cs \<Rightarrow> cs | None \<Rightarrow> []))"

definition text_step :: "terminal \<Rightarrow> cell row \<Rightarrow> nat \<Rightarrow> bool \<times> ustring \<Rightarrow> (bool \<times> ustring) option" where
  "text_step t r col = (\<lambda>(tab_mode, txt). do {
     x \<leftarrow> row_index r col;
     skip \<leftarrow> (if tab_mode then do {
         stop \<leftarrow> vec_get (t_tabs t) col;
         Some (\<not> (stop \<or> cell_c x \<noteq> 32))
       } else Some False);
     Some (if skip then (True, txt) else (cell_c x = 9, txt @ cell_text x))
   })"

definition line_to_string :: "terminal \<Rightarrow> int \<Rightarrow> nat \<Rightarrow> nat \<Rightarrow> bool \<Rightarrow> ustring option" where
  "line_to_string t l cols_start cols_end include_wrapped_wide = do {
     grid_line \<leftarrow> grid_row (t_grid t) l;
     n \<leftarrow> line_length grid_line;
     let line_length = min n (cols_end + 1);
     first \<leftarrow> row_index grid_line cols_start;
     cols_start \<leftarrow> (if flag_contains (cell_flags first) WIDE_CHAR_SPACER then csub cols_start 1 else Some cols_start);
     (_, txt) \<leftarrow> for_each [cols_start..<line_length] (text_step t grid_line) (False, []);
     lastc \<leftarrow> csub (t_columns t) 1;
     newline \<leftarrow> (if cols_end \<ge> lastc then
         if line_length = 0 then Some True
         else do {
           x \<leftarrow> row_index grid_line (line_length - 1);
           Some (\<not> flag_contains (cell_flags x) WRAPLINE)
         }
       else Some False);
     let txt = (if newline then txt @ [10] else txt);
     leading \<leftarrow> (if line_length = t_columns t \<and> line_length \<ge> 2 then do {
         x \<leftarrow> row_index grid_line (line_length - 1);
         Some (flag_contains (cell_flags x) LEADING_WIDE_CHAR_SPACER \<and> include_wrapped_wide)
       } else Some False);
     if leading then do {
       x \<leftarrow> grid_cell_at (t_grid t) (Point (l - 1) 0);
       Some (txt @ [cell_c x])
     } else Some txt
   }"

definition bounds_line :: "terminal \<Rightarrow> point \<Rightarrow> point \<Rightarrow> int \<Rightarrow> ustring \<Rightarrow> ustring option" where
  "bounds_line t s e l res = do {
     let start_col = (if l = line s then column s else 0);
     lastc \<leftarrow> last_column (t_dims t);
     let end_col = (if l = line e then column e else lastc);
     txt \<leftarrow> line_to_string t l start_col end_col (l = line e);
     Some (res @ txt)
   }"

definition strip_newline :: "ustring \<Rightarrow> ustring" where
  \<comment> \<open>\<^verbatim>\<open>strip_suffix('\\n')\<close>\<close>
  "strip_newline s = (if s \<noteq> [] \<and> last s = 10 then butlast s else s)"

definition bounds_to_string :: "terminal \<Rightarrow> point \<Rightarrow> point \<Rightarrow> ustring option" where
  "bounds_to_string t s e = do {
     res \<leftarrow> for_each [line s..line e] (bounds_line t s e) [];
     Some (strip_newline res)
   }"

definition is_whitespace :: "uchar \<Rightarrow> bool" where
  \<comment> \<open>\<^verbatim>\<open>char::is_whitespace\<close>, the property White_Space\<close>
  "is_whitespace c \<longleftrightarrow>
     9 \<le> c \<and> c \<le> 13 \<or> c \<in> {0x20, 0x85, 0xA0, 0x1680} \<or> 0x2000 \<le> c \<and> c \<le> 0x200A
     \<or> c \<in> {0x2028, 0x2029, 0x202F, 0x205F, 0x3000}"

definition trim_end :: "ustring \<Rightarrow> ustring" where
  "trim_end s = rev (dropWhile is_whitespace (rev s))"

definition block_line :: "terminal \<Rightarrow> nat \<Rightarrow> nat \<Rightarrow> int \<Rightarrow> ustring \<Rightarrow> ustring option" where
  "block_line t first last_col l res = do {
     txt \<leftarrow> line_to_string t l first last_col (first \<noteq> 0);
     Some (res @ trim_end txt @ [10])
   }"

definition selection_to_string :: "terminal \<Rightarrow> ustring option option" where
  "selection_to_string t =
     (case t_selection t of
        None \<Rightarrow> Some None
      | Some sel \<Rightarrow> do {
          range \<leftarrow> to_range t sel;
          case range of
            None \<Rightarrow> Some None
          | Some r \<Rightarrow> do {
              let s = range_start r;
              let e = range_end r;
              res \<leftarrow> (case sel_ty sel of
                  Block \<Rightarrow> do {
                    res \<leftarrow> for_each (irange (line s) (line e)) (block_line t (column s) (column e)) [];
                    txt \<leftarrow> line_to_string t (line e) (column s) (column e) True;
                    Some (res @ trim_end txt)
                  }
                | Lines \<Rightarrow> do {
                    res \<leftarrow> bounds_to_string t s e;
                    Some (res @ [10])
                  }
                | _ \<Rightarrow> bounds_to_string t s e);
              Some (Some res)
            }
        })"

section \<open>The text of a line\<close>

lemma clamp_in_grid: "dims_ok d \<Longrightarrow> in_grid d p \<Longrightarrow> point_grid_clamp d Boundary_Grid p = Some p"
  by (cases p) (auto simp: point_clamp_cases in_grid_def)

lemma for_each_concat:
  assumes "\<And>x s. x \<in> set xs \<Longrightarrow> f x s = Some (s @ h x)"
  shows "for_each xs f s = Some (s @ concat (map h xs))"
  using assms by (induction xs arbitrary: s) simp_all

text \<open>
  A line without the cells that \<^verbatim>\<open>line_to_string\<close> treats specially: tabs, line breaks, half a wide
  character at its ends, or a wrap mark before its end.
\<close>

definition plain_row :: "cell row \<Rightarrow> bool" where
  "plain_row r \<longleftrightarrow>
     (\<forall>x \<in> set (row_inner r). cell_c x \<noteq> 9 \<and> 10 \<notin> set (cell_text x))
     \<and> \<not> flag_intersects (cell_flags (hd (row_inner r))) wide_spacer
     \<and> \<not> flag_contains (cell_flags (last (row_inner r))) LEADING_WIDE_CHAR_SPACER
     \<and> (\<forall>x \<in> set (butlast (row_inner r)). \<not> flag_contains (cell_flags x) WRAPLINE)"

definition row_text :: "cell row \<Rightarrow> ustring" where
  \<comment> \<open>the characters of a row up to its last occupied cell\<close>
  "row_text r = concat (map cell_text (take (the (line_length r)) (row_inner r)))"

definition text_of :: "terminal \<Rightarrow> int \<Rightarrow> ustring" where
  "text_of t l = row_text (the (grid_row (t_grid t) l))"

definition line_end :: "terminal \<Rightarrow> int \<Rightarrow> ustring" where
  \<comment> \<open>a line break, unless the line continues\<close>
  "line_end t l = (if wraps (t_grid t) l = Some True then [] else [10])"

lemma spacer_intersects: "flag_contains fl WIDE_CHAR_SPACER \<Longrightarrow> flag_intersects fl wide_spacer"
proof (rule ccontr)
  assume a: "flag_contains fl WIDE_CHAR_SPACER" "\<not> flag_intersects fl wide_spacer"
  then have "fl AND WIDE_CHAR_SPACER = 0" by (simp add: flag_intersects_def bit.conj_disj_distrib or_eq_0_iff)
  then show False using a(1) by (simp add: flag_contains_def WIDE_CHAR_SPACER_def)
qed

lemma text_steps:
  assumes "row_ok n r" "\<forall>x \<in> set (row_inner r). cell_c x \<noteq> 9" "b \<le> n" "a \<le> b"
  shows "for_each [a..<b] (text_step t r) (False, acc) = Some (False, acc @ concat (map cell_text (take (b - a) (drop a (row_inner r)))))"
  using assms(4)
proof (induction "b - a" arbitrary: a acc)
  case (Suc k)
  have a: "a < b" "a < length (row_inner r)" using Suc(2) assms(1,3) by (auto simp: row_ok_def)
  have x: "row_index r a = Some (row_inner r ! a)" "cell_c (row_inner r ! a) \<noteq> 9"
    using row_index_ok [OF assms(1)] a assms(1,2) by (auto simp: row_ok_def)
  have "take (b - a) (drop a (row_inner r)) = row_inner r ! a # take (b - Suc a) (drop (Suc a) (row_inner r))"
    using a by (simp add: Cons_nth_drop_Suc [symmetric] take_Cons' Suc_diff_Suc)
  then show ?case using Suc(1) [of "Suc a"] Suc(2) a x by (simp add: upt_conv_Cons text_step_def)
qed simp

lemma line_length_wraps:
  assumes "row_ok n r" "plain_row r"
  obtains k where "line_length r = Some k" "k \<le> n"
    "flag_contains (cell_flags (row_inner r ! (n - 1))) WRAPLINE \<longleftrightarrow>
      0 < k \<and> flag_contains (cell_flags (row_inner r ! (k - 1))) WRAPLINE"
    "flag_contains (cell_flags (row_inner r ! (n - 1))) WRAPLINE \<Longrightarrow> k = n"
proof -
  obtain k where k: "line_length r = Some k" "k \<le> n" using line_length_ok [OF assms(1)] by (auto elim: okE)
  have n: "0 < n" "length (row_inner r) = n" using assms(1) by (auto simp: row_ok_def)
  let ?w = "flag_contains (cell_flags (row_inner r ! (n - 1))) WRAPLINE"
  have all: "?w \<Longrightarrow> k = n" using k(1) n assms(1) by (simp add: line_length_def row_len_def row_index_def vec_get_def csub_def)
  have other: "\<not> flag_contains (cell_flags (row_inner r ! (k - 1))) WRAPLINE" if "\<not> ?w" "0 < k"
  proof (cases "k = n")
    case False
    then have "row_inner r ! (k - 1) \<in> set (butlast (row_inner r))"
      using k(2) n that(2) by (auto simp: in_set_conv_nth nth_butlast intro!: exI [of _ "k - 1"])
    then show ?thesis using assms(2) by (simp add: plain_row_def)
  qed (use that in simp)
  show ?thesis
  proof (rule that [OF k])
    show "?w \<longleftrightarrow> 0 < k \<and> flag_contains (cell_flags (row_inner r ! (k - 1))) WRAPLINE"
      using all other n(1) by (cases ?w) auto
  qed (rule all)
qed

lemma line_to_string_plain:
  assumes "term_inv b t" "topmost_line (t_dims t) \<le> l" "l \<le> bottommost_line (t_dims t)"
    and "grid_row (t_grid t) l = Some r" "plain_row r"
  shows "line_to_string t l 0 (t_columns t - 1) inc = Some (text_of t l @ line_end t l)"
proof -
  have g: "grid_ok (t_grid t)" using term_invD(2) [OF assms(1)] .
  have "in_grid (t_dims t) (Point l 0)" using assms(2,3) grid_okD(3) [OF g] by (simp add: in_grid_def grid_dims_def)
  then have l: "- int (grid_history (t_grid t)) \<le> l" "l < int (t_lines t)" using in_grid_iff [OF g] by auto
  let ?n = "t_columns t"
  have r: "row_ok ?n r" using grid_row_ok [OF term_invD(1) [OF assms(1)] l] assms(4) by (simp add: good_row_def)
  have n: "0 < ?n" "length (row_inner r) = ?n" using r by (auto simp: row_ok_def)
  obtain k where k: "line_length r = Some k" "k \<le> ?n"
      "flag_contains (cell_flags (row_inner r ! (?n - 1))) WRAPLINE \<longleftrightarrow>
        0 < k \<and> flag_contains (cell_flags (row_inner r ! (k - 1))) WRAPLINE"
    using line_length_wraps [OF r assms(5)] by metis
  have ne: "row_inner r \<noteq> []" using n by auto
  have hd: "row_index r 0 = Some (row_inner r ! 0)" "\<not> flag_contains (cell_flags (row_inner r ! 0)) WIDE_CHAR_SPACER"
    using n assms(5) row_index_ok [OF r] spacer_intersects by (auto simp: plain_row_def hd_conv_nth [OF ne])
  have lastc: "\<not> flag_contains (cell_flags (row_inner r ! (?n - 1))) LEADING_WIDE_CHAR_SPACER"
    using n assms(5) by (auto simp: plain_row_def last_conv_nth [OF ne])
  have w: "wraps (t_grid t) l = Some (flag_contains (cell_flags (row_inner r ! (?n - 1))) WRAPLINE)"
    using assms(4) row_index_ok [OF r, of "?n - 1"] n grid_okD(6) [OF g] by (simp add: wraps_def grid_cell_at_def grid_dims_def)
  have m: "min k (?n - 1 + 1) = k" using k(2) n by simp
  have scan: "for_each [0..<k] (text_step t r) (False, []) = Some (False, text_of t l)"
    using text_steps [OF r _ k(2), of 0 t "[]"] assms(4,5) k(1) by (simp add: plain_row_def text_of_def row_text_def)
  have idx: "0 < k \<Longrightarrow> row_index r (k - 1) = Some (row_inner r ! (k - 1))" using row_index_ok [OF r] k(2) n by simp
  show ?thesis
    using assms(4) k hd scan idx m n w lastc
    by (cases "k = 0"; cases "k = ?n") (auto simp: line_to_string_def line_end_def Let_def csub_def)
qed

section \<open>The text of a line selection\<close>

definition plain_grid :: "terminal \<Rightarrow> bool" where
  "plain_grid t \<longleftrightarrow>
     (\<forall>l \<in> set [topmost_line (t_dims t)..bottommost_line (t_dims t)].
        case grid_row (t_grid t) l of None \<Rightarrow> False | Some r \<Rightarrow> plain_row r)"

lemma plain_gridD:
  assumes "plain_grid t" "topmost_line (t_dims t) \<le> l" "l \<le> bottommost_line (t_dims t)"
  obtains r where "grid_row (t_grid t) l = Some r" "plain_row r"
proof -
  have "l \<in> set [topmost_line (t_dims t)..bottommost_line (t_dims t)]" using assms(2,3) by simp
  from bspec [OF assms(1) [unfolded plain_grid_def] this] show ?thesis using that by (auto split: option.splits)
qed

lemma strip_newline_line:
  assumes "10 \<notin> set xs" "10 \<notin> set ys"
  shows "strip_newline (zs @ xs @ [10]) = zs @ xs" "ys \<noteq> [] \<Longrightarrow> strip_newline (zs @ ys) = zs @ ys"
  using assms by (auto simp: strip_newline_def butlast_append dest: last_in_set)

lemma text_of_no_newline:
  assumes "grid_row (t_grid t) l = Some r" "plain_row r"
  shows "10 \<notin> set (text_of t l)"
  using assms by (auto simp: text_of_def row_text_def plain_row_def dest: in_set_takeD)

lemma whole_lines_text:
  assumes "term_inv b t" "plain_grid t" "topmost_line (t_dims t) \<le> m" "m \<le> n" "n \<le> bottommost_line (t_dims t)"
  shows "for_each [m..n] (bounds_line t (Point m 0) (Point n (t_columns t - 1))) [] =
    Some (concat (map (\<lambda>l. text_of t l @ line_end t l) [m..n]))"
proof -
  have last: "last_column (t_dims t) = Some (t_columns t - 1)"
    using grid_okD(6) [OF term_invD(2) [OF assms(1)]] by (simp add: grid_dims_def)
  have "bounds_line t (Point m 0) (Point n (t_columns t - 1)) l s = Some (s @ (text_of t l @ line_end t l))"
    if "l \<in> set [m..n]" for l s
  proof -
    have l: "topmost_line (t_dims t) \<le> l" "l \<le> bottommost_line (t_dims t)" using that assms(3-5) by auto
    obtain r where "grid_row (t_grid t) l = Some r" "plain_row r" using plain_gridD [OF assms(2) l] .
    then have "line_to_string t l 0 (t_columns t - 1) inc = Some (text_of t l @ line_end t l)" for inc
      by (rule line_to_string_plain [OF assms(1) l])
    then show ?thesis using last by (auto simp: bounds_line_def)
  qed
  from for_each_concat [of "[m..n]", OF this] show ?thesis by simp
qed

lemma wrapped_text_nonempty:
  assumes "term_inv b t" "topmost_line (t_dims t) \<le> l" "l \<le> bottommost_line (t_dims t)" "wraps (t_grid t) l = Some True"
    "plain_grid t"
  shows "text_of t l \<noteq> []"
proof -
  have g: "grid_ok (t_grid t)" using term_invD(2) [OF assms(1)] .
  obtain r where r: "grid_row (t_grid t) l = Some r" "plain_row r" using plain_gridD [OF assms(5,2,3)] .
  have "in_grid (t_dims t) (Point l 0)" using assms(2,3) grid_okD(3) [OF g] by (simp add: in_grid_def grid_dims_def)
  then have l: "- int (grid_history (t_grid t)) \<le> l" "l < int (t_lines t)" using in_grid_iff [OF g] by auto
  have ok: "row_ok (t_columns t) r" using grid_row_ok [OF term_invD(1) [OF assms(1)] l] r(1) by (simp add: good_row_def)
  have ne: "row_inner r \<noteq> []" using ok by (auto simp: row_ok_def)
  have "flag_contains (cell_flags (row_inner r ! (t_columns t - 1))) WRAPLINE"
    using assms(4) r(1) row_index_ok [OF ok, of "t_columns t - 1"] ok grid_okD(6) [OF g]
    by (simp add: wraps_def grid_cell_at_def grid_dims_def row_ok_def)
  then have "line_length r = Some (t_columns t)" using line_length_wraps [OF ok r(2)] by metis
  moreover have "cell_text (hd (row_inner r)) \<noteq> []" using r(2) by (simp add: cell_text_def plain_row_def)
  ultimately show ?thesis using r(1) ne ok by (cases "row_inner r") (auto simp: text_of_def row_text_def row_ok_def)
qed

text \<open>
  \<^verbatim>\<open>Term::selection_to_string\<close> of a line selection: the lines from the start of the first wrapped line
  to the end of the last one, with the line breaks that are not wraps, and a line break.
\<close>

lemma line_selection_text:
  assumes "term_inv b t" "plain_grid t" "t_selection t = Some sel" "sel_ty sel = Lines"
    and "in_grid (t_dims t) (anchor_point (sel_start sel))" "in_grid (t_dims t) (anchor_point (sel_end sel))"
    and "l1 = min (anchor_line (sel_start sel)) (anchor_line (sel_end sel))"
    and "l2 = max (anchor_line (sel_start sel)) (anchor_line (sel_end sel))"
  shows "\<exists>m n. topmost_line (t_dims t) \<le> m \<and> m \<le> l1 \<and> l2 \<le> n \<and> n \<le> bottommost_line (t_dims t)
    \<and> (\<forall>j. m \<le> j \<and> j < l1 \<longrightarrow> wraps (t_grid t) j = Some True)
    \<and> (m = topmost_line (t_dims t) \<or> wraps (t_grid t) (m - 1) = Some False)
    \<and> (\<forall>j. l2 \<le> j \<and> j < n \<longrightarrow> wraps (t_grid t) j = Some True)
    \<and> (n = bottommost_line (t_dims t) \<or> wraps (t_grid t) n = Some False)
    \<and> selection_to_string t =
        Some (Some (concat (map (\<lambda>l. text_of t l @ line_end t l) (irange m n)) @ text_of t n @ [10]))"
proof -
  note g = term_invD(2) [OF assms(1)]
  note D = grid_okD(6) [OF g]
  let ?s = "if selection_swapped sel then sel_end sel else sel_start sel"
  let ?e = "if selection_swapped sel then sel_start sel else sel_end sel"
  have se: "in_grid (t_dims t) (anchor_point ?s)" "in_grid (t_dims t) (anchor_point ?e)" using assms(5,6) by auto
  note clamp = clamp_in_grid [OF D]
  have lines: "anchor_line ?s = l1" "anchor_line ?e = l2"
    using assms(7,8) by (auto simp: selection_swapped_def less_point_def less_eq_point_def anchor_line_def)
  have l: "topmost_line (t_dims t) \<le> l1" "l1 \<le> bottommost_line (t_dims t)" "topmost_line (t_dims t) \<le> l2"
      "l2 \<le> bottommost_line (t_dims t)" "l1 \<le> l2"
    using assms(5-8) by (auto simp: in_grid_def anchor_line_def)
  obtain m where m: "line_start (t_grid t) l1 = Some m" "topmost_line (t_dims t) \<le> m" "m \<le> l1"
      "\<forall>j. m \<le> j \<and> j < l1 \<longrightarrow> wraps (t_grid t) j = Some True"
      "m = topmost_line (t_dims t) \<or> wraps (t_grid t) (m - 1) = Some False"
    using line_start_ok [OF g l(1,2)] by (auto elim!: okE)
  obtain n where n: "line_stop (t_grid t) l2 = Some n" "l2 \<le> n" "n \<le> bottommost_line (t_dims t)"
      "\<forall>j. l2 \<le> j \<and> j < n \<longrightarrow> wraps (t_grid t) j = Some True"
      "n = bottommost_line (t_dims t) \<or> wraps (t_grid t) n = Some False"
    using line_stop_ok [OF g l(3,4)] by (auto elim!: okE)
  let ?r = "\<lparr>range_start = Point m 0, range_end = Point n (t_columns t - 1), is_block = False\<rparr>"
  have range: "to_range t sel = Some (Some ?r)"
    using clamp [OF se(1)] clamp [OF se(2)] lines [unfolded anchor_line_def] l m(1) n(1) D assms(4)
    by (simp add: to_range_def Let_def range_lines_def line_search_left_def line_search_right_def in_grid_def)
      (simp add: grid_dims_def)
  have mn: "m \<le> n" using m(3) l(5) n(2) by simp
  have all: "for_each [m..n] (bounds_line t (Point m 0) (Point n (t_columns t - 1))) [] =
      Some (concat (map (\<lambda>l. text_of t l @ line_end t l) (irange m n)) @ text_of t n @ line_end t n)"
    using whole_lines_text [OF assms(1,2) m(2) mn n(3)] mn by (simp add: upto_rec2)
  have top: "topmost_line (t_dims t) \<le> n" using m(2) mn by simp
  obtain r where r: "grid_row (t_grid t) n = Some r" "plain_row r" using plain_gridD [OF assms(2) top n(3)] .
  note no_break = text_of_no_newline [OF r]
  have "bounds_to_string t (Point m 0) (Point n (t_columns t - 1)) =
      Some (concat (map (\<lambda>l. text_of t l @ line_end t l) (irange m n)) @ text_of t n)"
    using all wrapped_text_nonempty [OF assms(1) top n(3) _ assms(2)] strip_newline_line [OF no_break no_break]
    by (cases "wraps (t_grid t) n = Some True") (simp_all add: bounds_to_string_def line_end_def)
  then have "selection_to_string t = Some (Some (concat (map (\<lambda>l. text_of t l @ line_end t l) (irange m n)) @ text_of t n @ [10]))"
    using assms(3,4) range by (simp add: selection_to_string_def)
  then show ?thesis using m n by blast
qed

end
