(* ===== verification/Vi_Mode.thy ===== *)
theory Vi_Mode
  imports Search
begin

text \<open>
  The motions of the vi mode cursor (\<^verbatim>\<open>alacritty_terminal/src/vi_mode.rs\<close>) and \<^verbatim>\<open>Term::vi_motion\<close>.
  A motion reads the grid and returns a point; \<^verbatim>\<open>None\<close> is an access outside of the grid. The loops of the
  source are recursive functions whose termination is proved, or \<open>while_some\<close>, which may diverge and for
  which the lemmas show that it does not.
\<close>

unbundle bit_operations_syntax

datatype vi_motion =
    Vi_Up | Vi_Down | Vi_Left | Vi_Right | Vi_First | Vi_Last | Vi_First_Occupied
  | Vi_High | Vi_Middle | Vi_Low
  | Semantic_Left | Semantic_Right | Semantic_Left_End | Semantic_Right_End
  | Word_Left | Word_Right | Word_Left_End | Word_Right_End
  | Vi_Bracket | Paragraph_Up | Paragraph_Down

section \<open>Cells\<close>

definition is_space :: "terminal \<Rightarrow> point \<Rightarrow> bool option" where
  "is_space t p = do {
     x \<leftarrow> grid_cell_at (t_grid t) p;
     Some (\<not> flag_intersects (cell_flags x) wide_spacer \<and> (cell_c x = 32 \<or> cell_c x = 9))
   }"

definition is_wrap :: "terminal \<Rightarrow> point \<Rightarrow> bool option" where
  "is_wrap t p = do {
     x \<leftarrow> grid_cell_at (t_grid t) p;
     Some (flag_contains (cell_flags x) WRAPLINE)
   }"

definition is_boundary :: "terminal \<Rightarrow> point \<Rightarrow> direction \<Rightarrow> bool" where
  "is_boundary t p dir \<longleftrightarrow>
     line p \<le> topmost_line (t_dims t) \<and> column p = 0 \<and> dir = Left
     \<or> line p = bottommost_line (t_dims t) \<and> column p + 1 \<ge> t_columns t \<and> dir = Right"

definition advance :: "terminal \<Rightarrow> point \<Rightarrow> direction \<Rightarrow> point option" where
  "advance t p dir =
     (if dir = Left then point_sub (t_dims t) Boundary_Grid 1 p else point_add (t_dims t) Boundary_Grid 1 p)"

fun find_occupied :: "terminal \<Rightarrow> int \<Rightarrow> nat list \<Rightarrow> point option option" where
  \<comment> \<open>the first column of the list with a cell that is not blank\<close>
  "find_occupied t l [] = Some None"
| "find_occupied t l (c # cs) = do {
     s \<leftarrow> is_space t (Point l c);
     if s then find_occupied t l cs else Some (Some (Point l c))
   }"

definition first_occupied_in_line :: "terminal \<Rightarrow> int \<Rightarrow> point option option" where
  "first_occupied_in_line t l = find_occupied t l [0..<t_columns t]"

definition last_occupied_in_line :: "terminal \<Rightarrow> int \<Rightarrow> point option option" where
  "last_occupied_in_line t l = find_occupied t l (rev [0..<t_columns t])"

section \<open>Loops\<close>

partial_function (option) while_some :: "('s \<Rightarrow> bool option) \<Rightarrow> ('s \<Rightarrow> 's option) \<Rightarrow> 's \<Rightarrow> 's option" where
  "while_some b f s = Option.bind (b s) (\<lambda>c. if c then Option.bind (f s) (while_some b f) else Some s)"

section \<open>Motions\<close>

definition vi_left :: "terminal \<Rightarrow> point \<Rightarrow> point option" where
  "vi_left t p = do {
     p \<leftarrow> expand_wide t p Left;
     lastc \<leftarrow> last_column (t_dims t);
     let wrap_point = Point (line p - 1) lastc;
     w \<leftarrow> (if column p = 0 \<and> line p > topmost_line (t_dims t) then is_wrap t wrap_point else Some False);
     Some (if w then wrap_point else Point (line p) (column p - 1))
   }"

definition vi_right :: "terminal \<Rightarrow> point \<Rightarrow> point option" where
  "vi_right t p = do {
     p \<leftarrow> expand_wide t p Right;
     w \<leftarrow> is_wrap t p;
     if w then Some (Point (line p + 1) 0)
     else do {
       lastc \<leftarrow> last_column (t_dims t);
       Some (Point (line p) (min (column p + 1) lastc))
     }
   }"

definition vi_first :: "terminal \<Rightarrow> point \<Rightarrow> point option" where
  \<comment> \<open>the loop moves up only from column 0; it is that of \<open>line_start\<close>\<close>
  "vi_first t p = do {
     p \<leftarrow> expand_wide t p Left;
     l \<leftarrow> (if column p = 0 then line_start (t_grid t) (line p) else Some (line p));
     Some (Point l 0)
   }"

definition vi_last :: "terminal \<Rightarrow> point \<Rightarrow> point option" where
  "vi_last t p = do {
     p \<leftarrow> expand_wide t p Right;
     occupied \<leftarrow> last_occupied_in_line t (line p);
     let occ_point = (case occupied of Some q \<Rightarrow> q | None \<Rightarrow> Point 0 0);
     if column p < column occ_point then Some occ_point
     else do {
       w \<leftarrow> is_wrap t p;
       if w then do {
         p \<leftarrow> while_some (is_wrap t) (\<lambda>p. Some (Point (line p + 1) (column p))) p;
         occupied \<leftarrow> last_occupied_in_line t (line p);
         Some (case occupied of Some q \<Rightarrow> q | None \<Rightarrow> p)
       } else do {
         lastc \<leftarrow> last_column (t_dims t);
         Some (Point (line p) lastc)
       }
     }
   }"

fun occupied_above :: "terminal \<Rightarrow> nat \<Rightarrow> int list \<Rightarrow> point option \<Rightarrow> point option option" where
  \<comment> \<open>the loop over the wrapped lines above\<close>
  "occupied_above t lastc [] occupied = Some occupied"
| "occupied_above t lastc (l # ls) occupied = do {
     w \<leftarrow> is_wrap t (Point l lastc);
     if \<not> w then Some occupied
     else do {
       o1 \<leftarrow> first_occupied_in_line t l;
       occupied_above t lastc ls (case o1 of Some q \<Rightarrow> Some q | None \<Rightarrow> occupied)
     }
   }"

partial_function (option) occupied_below :: "terminal \<Rightarrow> nat \<Rightarrow> int \<Rightarrow> point option" where
  \<comment> \<open>the fallback: the next non-empty cell\<close>
  "occupied_below t lastc l =
     Option.bind (first_occupied_in_line t l) (\<lambda>occupied.
       case occupied of
         Some q \<Rightarrow> Some q
       | None \<Rightarrow> Option.bind (is_wrap t (Point l lastc)) (\<lambda>w.
           if \<not> w then Some (Point l lastc) else occupied_below t lastc (l + 1)))"

definition first_occupied :: "terminal \<Rightarrow> point \<Rightarrow> point option" where
  "first_occupied t p = do {
     lastc \<leftarrow> last_column (t_dims t);
     p \<leftarrow> expand_wide t p Left;
     o1 \<leftarrow> first_occupied_in_line t (line p);
     let occupied = (case o1 of Some q \<Rightarrow> q | None \<Rightarrow> Point (line p) lastc);
     if p = occupied then do {
       o2 \<leftarrow> occupied_above t lastc (rev (irange (topmost_line (t_dims t)) (line p))) None;
       case o2 of Some q \<Rightarrow> Some q | None \<Rightarrow> occupied_below t lastc (line p)
     } else Some occupied
   }"

definition screen_line_start :: "terminal \<Rightarrow> int \<Rightarrow> point option" where
  \<comment> \<open>the common part of \<^verbatim>\<open>High\<close>, \<^verbatim>\<open>Middle\<close>, \<^verbatim>\<open>Low\<close> and \<^verbatim>\<open>ViModeCursor::scroll\<close>\<close>
  "screen_line_start t l = do {
     o1 \<leftarrow> first_occupied_in_line t l;
     Some (Point l (case o1 of Some q \<Rightarrow> column q | None \<Rightarrow> 0))
   }"

definition expand_semantic :: "terminal \<Rightarrow> direction \<Rightarrow> point \<Rightarrow> point option" where
  "expand_semantic t dir p = do {
     x \<leftarrow> grid_cell_at (t_grid t) p;
     if is_needle (semantic_escape_chars (t_config t)) x then Some p
     else if dir = Left then semantic_search_left t p
     else semantic_search_right t p
   }"

text \<open>
  The loops that skip blanks. The state of the first is the point and the point behind it.
\<close>

definition skip_next :: "terminal \<Rightarrow> direction \<Rightarrow> bool \<Rightarrow> point \<Rightarrow> point option" where
  \<comment> \<open>moves while the next cell is blank (or is not, for \<open>False\<close>)\<close>
  "skip_next t dir blank p = do {
     q \<leftarrow> advance t p dir;
     (p, _) \<leftarrow> while_some
       (\<lambda>(p, q). if is_boundary t p dir then Some False else map_option (\<lambda>s. s = blank) (is_space t q))
       (\<lambda>(p, q). map_option (\<lambda>r. (q, r)) (advance t q dir)) (p, q);
     Some p
   }"

definition skip_here :: "terminal \<Rightarrow> direction \<Rightarrow> bool \<Rightarrow> point \<Rightarrow> point option" where
  \<comment> \<open>moves while the cell itself is blank (or is not)\<close>
  "skip_here t dir blank p =
     while_some (\<lambda>p. if is_boundary t p dir then Some False else map_option (\<lambda>s. s = blank) (is_space t p))
       (\<lambda>p. advance t p dir) p"

definition semantic :: "terminal \<Rightarrow> point \<Rightarrow> direction \<Rightarrow> side \<Rightarrow> point option" where
  "semantic t p dir sd = do {
     p \<leftarrow> (if dir \<noteq> sd \<and> \<not> is_boundary t p dir then expand_semantic t dir p else Some p);
     p \<leftarrow> expand_wide t p dir;
     p \<leftarrow> skip_next t dir True p;
     p \<leftarrow> (if is_boundary t p dir then Some p
           else do {
             p \<leftarrow> advance t p dir;
             if dir = Left then expand_wide t p dir else Some p
           });
     if dir = sd \<and> \<not> is_boundary t p dir then expand_semantic t dir p else Some p
   }"

definition word_motion :: "terminal \<Rightarrow> point \<Rightarrow> direction \<Rightarrow> side \<Rightarrow> point option" where
  "word_motion t p dir sd = do {
     p \<leftarrow> expand_wide t p dir;
     if dir = sd then do {
       p \<leftarrow> skip_next t dir True p;
       skip_next t dir False p
     } else do {
       p \<leftarrow> skip_here t dir False p;
       skip_here t dir True p
     }
   }"

fun find_paragraph :: "terminal \<Rightarrow> bool \<Rightarrow> int list \<Rightarrow> int option option" where
  \<comment> \<open>\<^verbatim>\<open>skip_while(is_clear).find(is_clear)\<close>; the flag says that a line with text was seen\<close>
  "find_paragraph t seen [] = Some None"
| "find_paragraph t seen (l # ls) = do {
     r \<leftarrow> grid_row (t_grid t) l;
     let clear = row_is_clear cell_is_empty r;
     if seen \<and> clear then Some (Some l) else find_paragraph t (seen \<or> \<not> clear) ls
   }"

fun motion_target :: "terminal \<Rightarrow> vi_motion \<Rightarrow> point \<Rightarrow> point option" where
  "motion_target t Vi_Up p = Some (if line p > topmost_line (t_dims t) then Point (line p - 1) (column p) else p)"
| "motion_target t Vi_Down p = Some (if line p + 1 < int (t_lines t) then Point (line p + 1) (column p) else p)"
| "motion_target t Vi_Left p = vi_left t p"
| "motion_target t Vi_Right p = vi_right t p"
| "motion_target t Vi_First p = vi_first t p"
| "motion_target t Vi_Last p = vi_last t p"
| "motion_target t Vi_First_Occupied p = first_occupied t p"
| "motion_target t Vi_High p = screen_line_start t (- int (display_offset (t_grid t)))"
| "motion_target t Vi_Middle p =
     screen_line_start t (- int (display_offset (t_grid t)) + int (t_lines t) div 2 - 1)"
| "motion_target t Vi_Low p = screen_line_start t (- int (display_offset (t_grid t)) + int (t_lines t) - 1)"
| "motion_target t Semantic_Left p = semantic t p Left Left"
| "motion_target t Semantic_Right p = semantic t p Right Left"
| "motion_target t Semantic_Left_End p = semantic t p Left Right"
| "motion_target t Semantic_Right_End p = semantic t p Right Right"
| "motion_target t Word_Left p = word_motion t p Left Left"
| "motion_target t Word_Right p = word_motion t p Right Left"
| "motion_target t Word_Left_End p = word_motion t p Left Right"
| "motion_target t Word_Right_End p = word_motion t p Right Right"
| "motion_target t Vi_Bracket p = map_option (\<lambda>r. case r of Some q \<Rightarrow> q | None \<Rightarrow> p) (bracket_search t p)"
| "motion_target t Paragraph_Up p = do {
     l \<leftarrow> find_paragraph t False (rev (irange (topmost_line (t_dims t)) (line p)));
     Some (Point (case l of Some l \<Rightarrow> l | None \<Rightarrow> topmost_line (t_dims t)) 0)
   }"
| "motion_target t Paragraph_Down p = do {
     l \<leftarrow> find_paragraph t False (irange (line p) (bottommost_line (t_dims t)));
     Some (Point (case l of Some l \<Rightarrow> l | None \<Rightarrow> bottommost_line (t_dims t)) 0)
   }"

definition vi_scroll :: "terminal \<Rightarrow> int \<Rightarrow> point \<Rightarrow> point option" where
  \<comment> \<open>\<^verbatim>\<open>ViModeCursor::scroll\<close>\<close>
  "vi_scroll t lines p = do {
     l \<leftarrow> line_grid_clamp (t_dims t) Boundary_Grid (line p - lines);
     screen_line_start t l
   }"

definition term_vi_motion :: "vi_motion \<Rightarrow> terminal \<Rightarrow> terminal option" where
  "term_vi_motion motion t =
     (if \<not> mode_contains VI t then Some t
      else do {
        p \<leftarrow> motion_target t motion (vi_mode_cursor t);
        let t = scroll_to_point p t;
        Some (vi_mode_recompute_selection (t\<lparr>vi_mode_cursor := p\<rparr>))
      })"

section \<open>Hazards\<close>

text \<open>
  The motions index the cell left of a \<^verbatim>\<open>WIDE_CHAR_SPACER\<close> and the line below a wrapped line or a
  \<^verbatim>\<open>LEADING_WIDE_CHAR_SPACER\<close> without a check. The terminal's operations do not exclude that these cells
  stand in the first column and on the last line; where they do not, no motion panics.
\<close>

definition vi_safe :: "terminal \<Rightarrow> bool" where
  "vi_safe t \<longleftrightarrow>
     (\<forall>l \<in> set [topmost_line (t_dims t)..bottommost_line (t_dims t)]. \<forall>c \<in> set [0..<t_columns t].
        case grid_cell_at (t_grid t) (Point l c) of
          None \<Rightarrow> False
        | Some x \<Rightarrow> (c = 0 \<longrightarrow> \<not> flag_contains (cell_flags x) WIDE_CHAR_SPACER)
            \<and> (l = bottommost_line (t_dims t) \<longrightarrow>
                \<not> flag_contains (cell_flags x) WRAPLINE \<and> \<not> flag_contains (cell_flags x) LEADING_WIDE_CHAR_SPACER))"

lemma vi_safeD:
  assumes "vi_safe t" "in_grid (t_dims t) p" "grid_cell_at (t_grid t) p = Some x"
  shows "column p = 0 \<Longrightarrow> \<not> flag_contains (cell_flags x) WIDE_CHAR_SPACER"
    "line p = bottommost_line (t_dims t) \<Longrightarrow> \<not> flag_contains (cell_flags x) WRAPLINE"
    "line p = bottommost_line (t_dims t) \<Longrightarrow> \<not> flag_contains (cell_flags x) LEADING_WIDE_CHAR_SPACER"
proof -
  have "line p \<in> set [topmost_line (t_dims t)..bottommost_line (t_dims t)]" "column p \<in> set [0..<t_columns t]"
    using assms(2) by (auto simp: in_grid_def grid_dims_def)
  from assms(1) [unfolded vi_safe_def, rule_format, OF this, unfolded point.collapse assms(3)] show
    "column p = 0 \<Longrightarrow> \<not> flag_contains (cell_flags x) WIDE_CHAR_SPACER"
    "line p = bottommost_line (t_dims t) \<Longrightarrow> \<not> flag_contains (cell_flags x) WRAPLINE"
    "line p = bottommost_line (t_dims t) \<Longrightarrow> \<not> flag_contains (cell_flags x) LEADING_WIDE_CHAR_SPACER"
    by auto
qed

lemma cell_at_Some:
  assumes "grid_ok (t_grid t)" "in_grid (t_dims t) p"
  obtains x where "grid_cell_at (t_grid t) p = Some x"
  using grid_cell_ok [OF assms] by (auto elim: okE)

lemma cell_at_ok: "grid_ok (t_grid t) \<Longrightarrow> in_grid (t_dims t) p \<Longrightarrow> ok (grid_cell_at (t_grid t) p) (\<lambda>_. True)"
  by (erule (1) cell_at_Some) simp

lemma is_space_ok: "grid_ok (t_grid t) \<Longrightarrow> in_grid (t_dims t) p \<Longrightarrow> ok (is_space t p) (\<lambda>_. True)"
  by (erule (1) cell_at_Some) (simp add: is_space_def)

lemma is_wrap_ok:
  assumes "grid_ok (t_grid t)" "vi_safe t" "in_grid (t_dims t) p"
  shows "ok (is_wrap t p) (\<lambda>w. w \<longrightarrow> line p < bottommost_line (t_dims t))"
proof -
  obtain x where x: "grid_cell_at (t_grid t) p = Some x" using cell_at_Some [OF assms(1,3)] .
  have "line p \<noteq> bottommost_line (t_dims t)" if "flag_contains (cell_flags x) WRAPLINE"
    using vi_safeD(2) [OF assms(2,3) x] that by auto
  then show ?thesis using x assms(3) by (auto simp: is_wrap_def in_grid_def)
qed

lemma advance_ok:
  assumes "dims_ok (t_dims t)" "in_grid (t_dims t) p"
  shows "ok (advance t p dir) (\<lambda>q. in_grid (t_dims t) q \<and>
    cell_index (t_dims t) q = (if dir = Left then max 0 (cell_index (t_dims t) p - 1)
      else min (cell_count (t_dims t) - 1) (cell_index (t_dims t) p + 1)))"
proof -
  have c: "column p < columns (t_dims t)" using assms(2) by (simp add: in_grid_def)
  have b: "0 \<le> cell_index (t_dims t) p" "cell_index (t_dims t) p < cell_count (t_dims t)"
    using cell_index_bounds [OF assms] .
  show ?thesis
  proof (cases dir)
    case Left
    then show ?thesis
      using b point_sub_within [OF assms(1), of Boundary_Grid 1 p] point_sub_index(1) [OF assms(1) c, of 1]
      by (auto simp: advance_def ok_iff)
  next
    case Right
    then show ?thesis
      using b point_add_within [OF assms(1), of Boundary_Grid 1 p] point_add_index(1) [OF assms(1), of 1 p]
      by (auto simp: advance_def ok_iff)
  qed
qed

lemma is_boundary_index:
  assumes "dims_ok (t_dims t)" "in_grid (t_dims t) p"
  shows "is_boundary t p dir \<longleftrightarrow>
    cell_index (t_dims t) p = (if dir = Left then 0 else cell_count (t_dims t) - 1)"
proof -
  let ?d = "t_dims t"
  have first: "in_grid ?d (Point (topmost_line ?d) 0)" "in_grid ?d (Point (bottommost_line ?d) (columns ?d - 1))"
    using assms line_span [OF assms(1)] by (auto simp: in_grid_def dims_ok_def)
  have i: "cell_index ?d (Point (topmost_line ?d) 0) = 0"
    "cell_index ?d (Point (bottommost_line ?d) (columns ?d - 1)) = cell_count ?d - 1"
    using line_span [OF assms(1)] assms(1)
    by (simp_all add: cell_index_def cell_count_def dims_ok_def of_nat_diff left_diff_distrib)
  have "cell_index ?d p = 0 \<longleftrightarrow> p = Point (topmost_line ?d) 0"
    "cell_index ?d p = cell_count ?d - 1 \<longleftrightarrow> p = Point (bottommost_line ?d) (columns ?d - 1)"
    using point_at_index [OF assms] point_at_index [OF assms(1) first(1)] point_at_index [OF assms(1) first(2)] i by metis+
  then show ?thesis using assms(2) by (cases p; cases dir) (auto simp: is_boundary_def in_grid_def grid_dims_def)
qed

lemma expand_wide_ok:
  assumes "term_inv b t" "vi_safe t" "in_grid (t_dims t) p"
  shows "ok (expand_wide t p dir) (in_grid (t_dims t))"
proof -
  note D = grid_okD(6) [OF term_invD(2) [OF assms(1)]] and cols = term_invD(6) [OF assms(1)]
  obtain x where x: "grid_cell_at (t_grid t) p = Some x" using cell_at_Some [OF term_invD(2) [OF assms(1)] assms(3)] .
  have sub: "ok (point_sub (t_dims t) Boundary_Grid 1 q) (\<lambda>r. ok (grid_cell_at (t_grid t) r) (\<lambda>_. in_grid (t_dims t) r))" for q
    using point_sub_within [OF D, of Boundary_Grid 1 q]
    by (auto elim!: ok_mono simp: cell_at_ok [OF term_invD(2) [OF assms(1)]])
  have prev: "ok (point_sub (t_dims t) Boundary_Grid 1 q) (\<lambda>r. ok (grid_cell_at (t_grid t) r)
      (\<lambda>y. (flag_contains (cell_flags y) LEADING_WIDE_CHAR_SPACER \<longrightarrow> in_grid (t_dims t) r)
        \<and> (\<not> flag_contains (cell_flags y) LEADING_WIDE_CHAR_SPACER \<longrightarrow> in_grid (t_dims t) q)))"
    if "in_grid (t_dims t) q" for q
    using sub [of q] that by (auto elim!: ok_mono)
  have spacer: "in_grid (t_dims t) (Point (line p) (column p - 1))" using assms(3) by (auto simp: in_grid_def)
  have c: "flag_contains (cell_flags x) WIDE_CHAR_SPACER \<Longrightarrow> 1 \<le> column p"
    using vi_safeD(1) [OF assms(2,3) x] by (cases "column p") auto
  have down: "flag_contains (cell_flags x) LEADING_WIDE_CHAR_SPACER \<Longrightarrow> in_grid (t_dims t) (Point (line p + 1) 1)"
    using vi_safeD(3) [OF assms(2,3) x] assms(3) cols by (cases "line p = bottommost_line (t_dims t)") (auto simp: in_grid_def grid_dims_def)
  have right: "in_grid (t_dims t) (Point (line p) (min (column p + 1) (columns (t_dims t) - 1)))"
    using assms(3) by (auto simp: in_grid_def)
  show ?thesis
    unfolding expand_wide_def x Let_def ok_bind ok_if using D c down right prev [OF assms(3)] prev [OF spacer] assms(3)
    by (auto simp: csub_def)
qed

section \<open>Skipping cells\<close>

lemma while_some_ok:
  assumes "I s" "\<And>s. I s \<Longrightarrow> ok (b s) (\<lambda>c. c \<longrightarrow> ok (f s) (\<lambda>u. I u \<and> m u < (m s :: nat)))"
  shows "ok (while_some b f s) (\<lambda>u. I u \<and> b u = Some False)"
  using assms(1)
proof (induction "m s" arbitrary: s rule: less_induct)
  case less
  obtain c where c: "b s = Some c" "c \<longrightarrow> ok (f s) (\<lambda>u. I u \<and> m u < m s)" using assms(2) [OF less.prems] by (auto elim: okE)
  show ?case
  proof (cases c)
    case True
    then have "ok (f s) (\<lambda>u. ok (while_some b f u) (\<lambda>v. I v \<and> b v = Some False))"
      using c(2) less.hyps by (auto elim!: ok_mono)
    then show ?thesis using c True by (subst while_some.simps) simp
  qed (use c less.prems in \<open>subst while_some.simps, simp\<close>)
qed

text \<open>Positions in reading order, from an index in a direction, and whether the cell at an index is blank.\<close>

definition onward :: "direction \<Rightarrow> int \<Rightarrow> nat \<Rightarrow> int" where
  "onward dir i n = (if dir = Left then i - int n else i + int n)"

definition blank_at :: "terminal \<Rightarrow> int \<Rightarrow> bool" where
  "blank_at t k \<longleftrightarrow> is_space t (point_at (t_dims t) k) = Some True"

definition room :: "terminal \<Rightarrow> direction \<Rightarrow> point \<Rightarrow> nat" where
  \<comment> \<open>the number of cells to the end of the grid\<close>
  "room t dir p = nat (if dir = Left then cell_index (t_dims t) p
     else cell_count (t_dims t) - 1 - cell_index (t_dims t) p)"

lemma onward_0 [simp]: "onward dir i 0 = i"
  by (simp add: onward_def)

lemma is_space_blank:
  assumes "grid_ok (t_grid t)" "in_grid (t_dims t) p"
  shows "is_space t p = Some (blank_at t (cell_index (t_dims t) p))"
  using is_space_ok [OF assms] point_at_index [OF grid_okD(6) [OF assms(1)] assms(2)]
  by (auto simp: blank_at_def ok_iff)

lemma advance_step:
  assumes "dims_ok (t_dims t)" "in_grid (t_dims t) p" "\<not> is_boundary t p dir"
  shows "ok (advance t p dir) (\<lambda>q. in_grid (t_dims t) q \<and> room t dir q < room t dir p
    \<and> (\<forall>i n. cell_index (t_dims t) p = onward dir i n \<longrightarrow> cell_index (t_dims t) q = onward dir i (Suc n)))"
proof -
  have "0 \<le> cell_index (t_dims t) p" "cell_index (t_dims t) p < cell_count (t_dims t)"
    using cell_index_bounds [OF assms(1,2)] .
  then show ?thesis using advance_ok [OF assms(1,2), of dir] is_boundary_index [OF assms(1,2), of dir] assms(3)
    by (cases dir) (auto elim!: ok_mono simp: onward_def room_def)
qed

lemma skip_here_ok:
  assumes "grid_ok (t_grid t)" "in_grid (t_dims t) p"
  shows "ok (skip_here t dir blank p) (\<lambda>q. in_grid (t_dims t) q \<and>
    (\<exists>n. cell_index (t_dims t) q = onward dir (cell_index (t_dims t) p) n
      \<and> (\<forall>r<n. blank_at t (onward dir (cell_index (t_dims t) p) r) = blank)
      \<and> (is_boundary t q dir \<or> blank_at t (cell_index (t_dims t) q) \<noteq> blank)))"
proof -
  let ?d = "t_dims t" and ?i = "cell_index (t_dims t) p"
  let ?I = "\<lambda>q. in_grid ?d q \<and> (\<exists>n. cell_index ?d q = onward dir ?i n \<and> (\<forall>r<n. blank_at t (onward dir ?i r) = blank))"
  let ?b = "\<lambda>p. if is_boundary t p dir then Some False else map_option (\<lambda>s. s = blank) (is_space t p)"
  note D = grid_okD(6) [OF assms(1)]
  have "ok (while_some ?b (\<lambda>p. advance t p dir) p) (\<lambda>q. ?I q \<and> ?b q = Some False)"
  proof (rule while_some_ok [where m = "room t dir"])
    show "?I p" using assms(2) by (auto intro!: exI [of _ 0])
  next
    fix q assume q: "?I q"
    then obtain n where n: "cell_index ?d q = onward dir ?i n" "\<forall>r<n. blank_at t (onward dir ?i r) = blank" by auto
    show "ok (?b q) (\<lambda>c. c \<longrightarrow> ok (advance t q dir) (\<lambda>u. ?I u \<and> room t dir u < room t dir q))"
    proof (cases "is_boundary t q dir \<or> blank_at t (cell_index ?d q) \<noteq> blank")
      case False
      have "\<forall>r<Suc n. blank_at t (onward dir ?i r) = blank" using False n by (auto simp: less_Suc_eq)
      then have "ok (advance t q dir) (\<lambda>u. ?I u \<and> room t dir u < room t dir q)"
        using advance_step [OF D, of q dir] conjunct1 [OF q] False n(1) by (auto elim!: ok_mono intro!: exI [of _ "Suc n"])
      then show ?thesis using is_space_blank [OF assms(1)] q by auto
    qed (use is_space_blank [OF assms(1)] q in auto)
  qed
  then show ?thesis unfolding skip_here_def using is_space_blank [OF assms(1)]
    by (elim ok_mono) (auto split: if_splits)
qed

lemma skip_next_ok:
  assumes "grid_ok (t_grid t)" "in_grid (t_dims t) p"
  shows "ok (skip_next t dir blank p) (\<lambda>q. in_grid (t_dims t) q \<and>
    (\<exists>n. cell_index (t_dims t) q = onward dir (cell_index (t_dims t) p) n
      \<and> (\<forall>r. 0 < r \<and> r \<le> n \<longrightarrow> blank_at t (onward dir (cell_index (t_dims t) p) r) = blank)
      \<and> (is_boundary t q dir \<or> blank_at t (onward dir (cell_index (t_dims t) p) (Suc n)) \<noteq> blank)))"
proof -
  let ?d = "t_dims t" and ?i = "cell_index (t_dims t) p"
  let ?I = "\<lambda>(q, z). in_grid ?d q \<and> advance t q dir = Some z
    \<and> (\<exists>n. cell_index ?d q = onward dir ?i n \<and> (\<forall>r. 0 < r \<and> r \<le> n \<longrightarrow> blank_at t (onward dir ?i r) = blank))"
  let ?b = "\<lambda>(p, q). if is_boundary t p dir then Some False else map_option (\<lambda>s. s = blank) (is_space t q)"
  let ?f = "\<lambda>(p, q). map_option (\<lambda>r. (q, r)) (advance t q dir)"
  note D = grid_okD(6) [OF assms(1)]
  obtain z where z: "advance t p dir = Some z" using advance_ok [OF D assms(2)] by (auto elim: okE)
  have step: "in_grid ?d y \<and> room t dir y < room t dir q \<and> cell_index ?d y = onward dir ?i (Suc n)"
    if "in_grid ?d q" "advance t q dir = Some y" "\<not> is_boundary t q dir" "cell_index ?d q = onward dir ?i n" for q y n
    using advance_step [OF D that(1,3)] that by auto
  have "ok (while_some ?b ?f (p, z)) (\<lambda>u. ?I u \<and> ?b u = Some False)"
  proof (rule while_some_ok [where m = "\<lambda>(q, _). room t dir q"])
    show "?I (p, z)" using assms(2) z by (auto intro!: exI [of _ 0])
  next
    fix u assume "?I u"
    then obtain q y n where u: "u = (q, y)" and q: "in_grid ?d q" "advance t q dir = Some y"
      and n: "cell_index ?d q = onward dir ?i n" "\<forall>r. 0 < r \<and> r \<le> n \<longrightarrow> blank_at t (onward dir ?i r) = blank" by auto
    show "ok (?b u) (\<lambda>c. c \<longrightarrow> ok (?f u) (\<lambda>v. ?I v \<and> (case v of (q, _) \<Rightarrow> room t dir q) < (case u of (q, _) \<Rightarrow> room t dir q)))"
    proof (cases "is_boundary t q dir")
      case False
      note y = step [OF q False n(1)]
      obtain w where w: "advance t y dir = Some w" using advance_ok [OF D conjunct1 [OF y]] by (auto elim: okE)
      have "\<forall>r. 0 < r \<and> r \<le> Suc n \<longrightarrow> blank_at t (onward dir ?i r) = blank" if "blank_at t (cell_index ?d y) = blank"
        using that y n(2) by (auto simp: le_Suc_eq)
      then show ?thesis using is_space_blank [OF assms(1), of y] y w u False by auto
    qed (use u in auto)
  qed
  then have "ok (while_some ?b ?f (p, z)) (\<lambda>(q, _). in_grid ?d q \<and>
    (\<exists>n. cell_index ?d q = onward dir ?i n \<and> (\<forall>r. 0 < r \<and> r \<le> n \<longrightarrow> blank_at t (onward dir ?i r) = blank)
      \<and> (is_boundary t q dir \<or> blank_at t (onward dir ?i (Suc n)) \<noteq> blank)))"
  proof (elim ok_mono)
    fix u assume u: "?I u \<and> ?b u = Some False"
    obtain q y where [simp]: "u = (q, y)" by (cases u)
    obtain n where n: "cell_index ?d q = onward dir ?i n" "\<forall>r. 0 < r \<and> r \<le> n \<longrightarrow> blank_at t (onward dir ?i r) = blank"
      using u by auto
    have "is_boundary t q dir \<or> blank_at t (onward dir ?i (Suc n)) \<noteq> blank"
      using u step [of q y n] n(1) is_space_blank [OF assms(1), of y] by auto
    then show "case u of (q, _) \<Rightarrow> in_grid ?d q \<and>
      (\<exists>n. cell_index ?d q = onward dir ?i n \<and> (\<forall>r. 0 < r \<and> r \<le> n \<longrightarrow> blank_at t (onward dir ?i r) = blank)
        \<and> (is_boundary t q dir \<or> blank_at t (onward dir ?i (Suc n)) \<noteq> blank))" using u n by auto
  qed
  then show ?thesis using z by (simp add: skip_next_def case_prod_unfold)
qed

lemma skip_in_grid:
  assumes "grid_ok (t_grid t)" "in_grid (t_dims t) p"
  shows "ok (skip_next t dir blank p) (in_grid (t_dims t))" "ok (skip_here t dir blank p) (in_grid (t_dims t))"
    "ok (advance t p dir) (in_grid (t_dims t))"
  by (rule ok_mono [OF skip_next_ok [OF assms]] ok_mono [OF skip_here_ok [OF assms]]
      ok_mono [OF advance_ok [OF grid_okD(6) [OF assms(1)] assms(2)]], simp)+

section \<open>The motions stay in the grid\<close>

text \<open>The facts every motion rests on, for a terminal without the hazards and a point of its grid.\<close>

definition vi_ready :: "terminal \<Rightarrow> bool" where
  "vi_ready t \<longleftrightarrow> term_inv False t \<and> vi_safe t"

lemma vi_readyD:
  assumes "vi_ready t"
  shows "term_inv False t" "vi_safe t" "grid_ok (t_grid t)" "dims_ok (t_dims t)" "2 \<le> t_columns t"
    "columns (t_dims t) = t_columns t"
  using assms term_invD(2,6) [of False t] grid_okD(6) [of "t_grid t"] by (auto simp: vi_ready_def grid_dims_def)

lemma in_grid_columns: "in_grid (t_dims t) (Point l c) \<Longrightarrow> c' < t_columns t \<Longrightarrow> in_grid (t_dims t) (Point l c')"
  by (simp add: in_grid_def grid_dims_def)

lemma find_occupied_ok:
  assumes "grid_ok (t_grid t)" "topmost_line (t_dims t) \<le> l" "l \<le> bottommost_line (t_dims t)"
    "set cs \<subseteq> {..<t_columns t}"
  shows "ok (find_occupied t l cs) (\<lambda>r. case r of
      None \<Rightarrow> \<forall>c \<in> set cs. is_space t (Point l c) = Some True
    | Some q \<Rightarrow> \<exists>ds c es. cs = ds @ c # es \<and> q = Point l c \<and> is_space t q = Some False
        \<and> (\<forall>d \<in> set ds. is_space t (Point l d) = Some True))"
  using assms(4)
proof (induction cs)
  case (Cons c cs)
  have "in_grid (t_dims t) (Point l c)" using assms Cons.prems by (auto simp: in_grid_def grid_dims_def)
  then obtain s where s: "is_space t (Point l c) = Some s" using is_space_ok [OF assms(1)] by (auto elim: okE)
  show ?case
  proof (cases s)
    case True
    have tail: "\<exists>ds' c' es'. c # cs = ds' @ c' # es' \<and> q = Point l c' \<and> is_space t q = Some False
        \<and> (\<forall>d \<in> set ds'. is_space t (Point l d) = Some True)"
      if "cs = ds @ e # es" "q = Point l e" "is_space t q = Some False" "\<forall>d \<in> set ds. is_space t (Point l d) = Some True"
      for q ds e es using that s True by (intro exI [of _ "c # ds"] exI [of _ e] exI [of _ es]) auto
    show ?thesis using Cons.IH Cons.prems s True tail by (auto elim!: ok_mono split: option.splits)
  next
    case False
    have "\<exists>ds d es. c # cs = ds @ d # es \<and> Point l c = Point l d \<and> is_space t (Point l c) = Some False
      \<and> (\<forall>d \<in> set ds. is_space t (Point l d) = Some True)"
      by (rule exI [of _ "[]"], rule exI [of _ c], rule exI [of _ cs]) (use s False in simp)
    then show ?thesis using s False by simp
  qed
qed simp

lemma occupied_in_line:
  assumes "grid_ok (t_grid t)" "topmost_line (t_dims t) \<le> l" "l \<le> bottommost_line (t_dims t)"
  shows "ok (first_occupied_in_line t l) (\<lambda>r. \<forall>q. r = Some q \<longrightarrow> in_grid (t_dims t) q \<and> line q = l \<and> column q < t_columns t
      \<and> is_space t q = Some False \<and> (\<forall>c < column q. is_space t (Point l c) = Some True))"
    and "ok (last_occupied_in_line t l) (\<lambda>r. \<forall>q. r = Some q \<longrightarrow> in_grid (t_dims t) q \<and> line q = l \<and> column q < t_columns t
      \<and> is_space t q = Some False \<and> (\<forall>c. column q < c \<and> c < t_columns t \<longrightarrow> is_space t (Point l c) = Some True))"
proof -
  have *: "[0..<n] = ds @ c # es \<Longrightarrow> c < n \<and> set ds = {..<c} \<and> set es = {c<..<n}" for ds es c and n :: nat
  proof -
    assume e: "[0..<n] = ds @ c # es"
    have "length ds < n" using arg_cong [OF e, of length] by simp
    then have "[0..<n] = [0..<length ds] @ length ds # [Suc (length ds)..<n]"
      by (metis upt_add_eq_append upt_conv_Cons le_add_same_cancel1 less_imp_add_positive less_imp_le_nat zero_le)
    then have "ds = [0..<length ds] \<and> c = length ds \<and> es = [Suc (length ds)..<n]" using e by (metis append_eq_append_conv list.inject length_upt diff_zero)
    then have d: "ds = [0..<length ds]" "c = length ds" "es = [Suc (length ds)..<n]" by auto
    show ?thesis using \<open>length ds < n\<close> arg_cong [OF d(1), of set] arg_cong [OF d(3), of set] d(2) by auto
  qed
  have g: "in_grid (t_dims t) (Point l c)" if "c < t_columns t" for c using assms that by (simp add: in_grid_def grid_dims_def)
  show "ok (first_occupied_in_line t l) (\<lambda>r. \<forall>q. r = Some q \<longrightarrow> in_grid (t_dims t) q \<and> line q = l \<and> column q < t_columns t
      \<and> is_space t q = Some False \<and> (\<forall>c < column q. is_space t (Point l c) = Some True))"
    using find_occupied_ok [OF assms, of "[0..<t_columns t]", OF equalityD1] atLeast0LessThan
    by (auto simp: first_occupied_in_line_def elim!: ok_mono dest!: * intro: g)
  show "ok (last_occupied_in_line t l) (\<lambda>r. \<forall>q. r = Some q \<longrightarrow> in_grid (t_dims t) q \<and> line q = l \<and> column q < t_columns t
      \<and> is_space t q = Some False \<and> (\<forall>c. column q < c \<and> c < t_columns t \<longrightarrow> is_space t (Point l c) = Some True))"
  proof -
    have **: "rev [0..<n] = ds @ c # es \<Longrightarrow> c < n \<and> set ds = {c<..<n}" for ds es c and n :: nat
      using * [of n "rev es" c "rev ds"] by (simp add: rev_swap)
    show ?thesis using find_occupied_ok [OF assms, of "rev [0..<t_columns t]", OF equalityD1] atLeast0LessThan
      by (auto simp: last_occupied_in_line_def elim!: ok_mono dest!: ** intro: g)
  qed
qed

lemma vi_left_ok:
  assumes "vi_ready t" "in_grid (t_dims t) p"
  shows "ok (vi_left t p) (in_grid (t_dims t))"
proof -
  note R = vi_readyD [OF assms(1)]
  obtain q where q: "expand_wide t p Left = Some q" "in_grid (t_dims t) q"
    using expand_wide_ok [OF R(1,2) assms(2), of Left] by (auto elim: okE)
  have up: "in_grid (t_dims t) (Point (line q - 1) (t_columns t - 1))" if "line q > topmost_line (t_dims t)"
    using q(2) that R(5,6) by (simp add: in_grid_def)
  have here: "in_grid (t_dims t) (Point (line q) (column q - 1))" using q(2) by (auto simp: in_grid_def)
  show ?thesis
  proof (cases "column q = 0 \<and> line q > topmost_line (t_dims t)")
    case True
    obtain w where "is_wrap t (Point (line q - 1) (t_columns t - 1)) = Some w"
      using is_wrap_ok [OF R(3,2) up] True by (auto elim: okE)
    then show ?thesis using True q(1) up here R(4,6) by (simp add: vi_left_def Let_def)
  next
    case False
    then show ?thesis using q(1) here R(4,6) by (auto simp: vi_left_def Let_def)
  qed
qed

lemma vi_right_ok:
  assumes "vi_ready t" "in_grid (t_dims t) p"
  shows "ok (vi_right t p) (in_grid (t_dims t))"
proof -
  note R = vi_readyD [OF assms(1)]
  have "ok (is_wrap t q) (\<lambda>w. (w \<longrightarrow> in_grid (t_dims t) (Point (line q + 1) 0))
      \<and> (\<not> w \<longrightarrow> in_grid (t_dims t) (Point (line q) (min (column q + 1) (t_columns t - 1)))))"
    if "in_grid (t_dims t) q" for q
    using is_wrap_ok [OF R(3,2) that] that R(5,6) by (auto elim!: ok_mono simp: in_grid_def)
  then show ?thesis unfolding vi_right_def using expand_wide_ok [OF R(1,2) assms(2), of Right] R(4,6)
    by (auto elim!: ok_mono simp: ok_if)
qed

lemma vi_first_ok:
  assumes "vi_ready t" "in_grid (t_dims t) p"
  shows "ok (vi_first t p) (in_grid (t_dims t))"
proof -
  note R = vi_readyD [OF assms(1)]
  have "ok (line_start (t_grid t) (line q)) (\<lambda>l. in_grid (t_dims t) (Point l 0))" if "in_grid (t_dims t) q" for q
    using line_start_ok [OF R(3), of "line q"] that R(5,6) by (auto simp: in_grid_def elim!: ok_mono)
  moreover have "in_grid (t_dims t) (Point (line q) 0)" if "in_grid (t_dims t) q" for q using that by (auto simp: in_grid_def)
  ultimately show ?thesis unfolding vi_first_def using expand_wide_ok [OF R(1,2) assms(2), of Left]
    by (auto elim!: ok_mono simp: ok_if)
qed

lemma line_of_grid: "in_grid (t_dims t) p \<Longrightarrow> topmost_line (t_dims t) \<le> line p \<and> line p \<le> bottommost_line (t_dims t)"
  by (simp add: in_grid_def)

lemma vi_last_ok:
  assumes "vi_ready t" "in_grid (t_dims t) p"
  shows "ok (vi_last t p) (in_grid (t_dims t))"
proof -
  note R = vi_readyD [OF assms(1)]
  have occ: "ok (last_occupied_in_line t (line q)) (\<lambda>r. \<forall>z. r = Some z \<longrightarrow> in_grid (t_dims t) z)" if "in_grid (t_dims t) q" for q
    using occupied_in_line(2) [OF R(3), of "line q"] line_of_grid [OF that] by (auto elim!: ok_mono)
  have down: "ok (while_some (is_wrap t) (\<lambda>p. Some (Point (line p + 1) (column p))) q) (in_grid (t_dims t))"
    if "in_grid (t_dims t) q" for q
  proof -
    have "ok (while_some (is_wrap t) (\<lambda>p. Some (Point (line p + 1) (column p))) q)
        (\<lambda>u. in_grid (t_dims t) u \<and> is_wrap t u = Some False)"
    proof (rule while_some_ok [where m = "\<lambda>u. nat (bottommost_line (t_dims t) - line u)"])
      fix u assume u: "in_grid (t_dims t) u"
      show "ok (is_wrap t u) (\<lambda>c. c \<longrightarrow> ok (Some (Point (line u + 1) (column u)))
          (\<lambda>v. in_grid (t_dims t) v \<and> nat (bottommost_line (t_dims t) - line v) < nat (bottommost_line (t_dims t) - line u)))"
        using is_wrap_ok [OF R(3,2) u] u by (auto elim!: ok_mono simp: in_grid_def)
    qed (rule that)
    then show ?thesis by (elim ok_mono) simp
  qed
  have last: "in_grid (t_dims t) (Point (line q) (t_columns t - 1))" if "in_grid (t_dims t) q" for q
    using that R(5,6) by (simp add: in_grid_def)
  have tail: "ok (do {
      u \<leftarrow> while_some (is_wrap t) (\<lambda>p. Some (Point (line p + 1) (column p))) q;
      occupied \<leftarrow> last_occupied_in_line t (line u);
      Some (case occupied of Some z \<Rightarrow> z | None \<Rightarrow> u) }) (in_grid (t_dims t))" if "in_grid (t_dims t) q" for q
    using down [OF that] occ by (fastforce elim!: ok_mono split: option.splits)
  have "ok (do {
      occupied \<leftarrow> last_occupied_in_line t (line q);
      let occ_point = (case occupied of Some z \<Rightarrow> z | None \<Rightarrow> Point 0 0);
      if column q < column occ_point then Some occ_point
      else do {
        w \<leftarrow> is_wrap t q;
        if w then do {
          u \<leftarrow> while_some (is_wrap t) (\<lambda>p. Some (Point (line p + 1) (column p))) q;
          occupied \<leftarrow> last_occupied_in_line t (line u);
          Some (case occupied of Some z \<Rightarrow> z | None \<Rightarrow> u)
        } else do { lastc \<leftarrow> last_column (t_dims t); Some (Point (line q) lastc) }
      } }) (in_grid (t_dims t))" if q: "in_grid (t_dims t) q" for q
  proof -
    obtain w where w: "is_wrap t q = Some w" using is_wrap_ok [OF R(3,2) q] by (auto elim: okE)
    obtain r where r: "last_occupied_in_line t (line q) = Some r" "\<forall>z. r = Some z \<longrightarrow> in_grid (t_dims t) z"
      using occ [OF q] by (auto elim: okE)
    show ?thesis using w r tail [OF q] last [OF q] R(4,6) by (auto simp: Let_def split: option.splits)
  qed
  then show ?thesis unfolding vi_last_def using expand_wide_ok [OF R(1,2) assms(2), of Right]
    unfolding ok_bind by (elim ok_mono) (simp only: ok_bind)
qed

lemma occupied_above_ok:
  assumes "vi_ready t" "set ls \<subseteq> {topmost_line (t_dims t)..bottommost_line (t_dims t)}"
    and "\<forall>q. found = Some q \<longrightarrow> in_grid (t_dims t) q"
  shows "ok (occupied_above t (t_columns t - 1) ls found) (\<lambda>r. \<forall>q. r = Some q \<longrightarrow> in_grid (t_dims t) q)"
  using assms(2,3)
proof (induction ls arbitrary: found)
  case (Cons l ls)
  note R = vi_readyD [OF assms(1)]
  have "in_grid (t_dims t) (Point l (t_columns t - 1))" using Cons.prems(1) R(5,6) by (simp add: in_grid_def)
  then obtain w where w: "is_wrap t (Point l (t_columns t - 1)) = Some w" using is_wrap_ok [OF R(3,2)] by (auto elim: okE)
  obtain r where r: "first_occupied_in_line t l = Some r" "\<forall>q. r = Some q \<longrightarrow> in_grid (t_dims t) q"
    using occupied_in_line(1) [OF R(3), of l] Cons.prems(1) by (auto elim!: okE)
  show ?case using w r Cons.prems Cons.IH [of "case r of Some q \<Rightarrow> Some q | None \<Rightarrow> found"]
    by (cases w) (auto split: option.splits)
qed simp

lemma occupied_below_ok:
  assumes "vi_ready t" "topmost_line (t_dims t) \<le> l" "l \<le> bottommost_line (t_dims t)"
  shows "ok (occupied_below t (t_columns t - 1) l) (in_grid (t_dims t))"
  using assms(2,3)
proof (induction "nat (bottommost_line (t_dims t) - l)" arbitrary: l rule: less_induct)
  case less
  note R = vi_readyD [OF assms(1)]
  let ?p = "Point l (t_columns t - 1)"
  have p: "in_grid (t_dims t) ?p" using less.prems R(5,6) by (simp add: in_grid_def)
  obtain w where w: "is_wrap t ?p = Some w" "w \<longrightarrow> l < bottommost_line (t_dims t)"
    using is_wrap_ok [OF R(3,2) p] by (auto elim: okE)
  obtain r where r: "first_occupied_in_line t l = Some r" "\<forall>q. r = Some q \<longrightarrow> in_grid (t_dims t) q"
    using occupied_in_line(1) [OF R(3), of l] less.prems by (auto elim!: okE)
  show ?case using w r p less.prems less.hyps [of "l + 1"] by (subst occupied_below.simps) (auto split: option.split)
qed

lemma first_occupied_ok:
  assumes "vi_ready t" "in_grid (t_dims t) p"
  shows "ok (first_occupied t p) (in_grid (t_dims t))"
proof -
  note R = vi_readyD [OF assms(1)]
  obtain q where q: "expand_wide t p Left = Some q" "in_grid (t_dims t) q"
    using expand_wide_ok [OF R(1,2) assms(2), of Left] by (auto elim: okE)
  note l = line_of_grid [OF q(2)]
  obtain r where r: "first_occupied_in_line t (line q) = Some r" "\<forall>z. r = Some z \<longrightarrow> in_grid (t_dims t) z"
    using occupied_in_line(1) [OF R(3), of "line q"] l by (auto elim!: okE)
  obtain u where u: "occupied_above t (t_columns t - 1) (rev (irange (topmost_line (t_dims t)) (line q))) None = Some u"
      "\<forall>z. u = Some z \<longrightarrow> in_grid (t_dims t) z"
  proof -
    have "set (rev (irange (topmost_line (t_dims t)) (line q))) \<subseteq> {topmost_line (t_dims t)..bottommost_line (t_dims t)}"
      using l by auto
    from occupied_above_ok [OF assms(1) this, of None] show ?thesis using that by (auto elim: okE)
  qed
  have "ok (occupied_below t (t_columns t - 1) (line q)) (in_grid (t_dims t))" using occupied_below_ok [OF assms(1)] l by simp
  moreover have "in_grid (t_dims t) (Point (line q) (t_columns t - 1))" using l R(5,6) by (simp add: in_grid_def)
  ultimately show ?thesis using q r u R(4,6) by (auto simp: first_occupied_def Let_def split: option.split)
qed

lemma screen_line_start_ok:
  assumes "vi_ready t" "topmost_line (t_dims t) \<le> l" "l \<le> bottommost_line (t_dims t)"
  shows "ok (screen_line_start t l) (\<lambda>q. in_grid (t_dims t) q \<and> line q = l)"
proof -
  note R = vi_readyD [OF assms(1)]
  obtain r where r: "first_occupied_in_line t l = Some r" "\<forall>z. r = Some z \<longrightarrow> column z < t_columns t"
    using occupied_in_line(1) [OF R(3) assms(2,3)] by (auto elim!: okE)
  then show ?thesis using assms R(5,6) by (auto simp: screen_line_start_def in_grid_def split: option.split)
qed

lemma expand_semantic_ok:
  assumes "vi_ready t" "in_grid (t_dims t) p"
  shows "ok (expand_semantic t dir p) (in_grid (t_dims t))"
proof -
  note R = vi_readyD [OF assms(1)]
  have i: "0 \<le> cell_index (t_dims t) p" using cell_index_bounds [OF R(4) assms(2)] by simp
  have "ok (semantic_search_left t p) (in_grid (t_dims t))" "ok (semantic_search_right t p) (in_grid (t_dims t))"
    using semantic_left_ok [OF R(3) assms(2) refl] semantic_right_ok [OF R(3) assms(2) refl] point_at_in_grid [OF R(4)] i
    by (auto elim!: ok_mono)
  moreover obtain x where "grid_cell_at (t_grid t) p = Some x" using cell_at_Some [OF R(3) assms(2)] .
  ultimately show ?thesis using assms(2) by (simp add: expand_semantic_def)
qed

lemma semantic_ok:
  assumes "vi_ready t" "in_grid (t_dims t) p"
  shows "ok (semantic t p dir sd) (in_grid (t_dims t))"
proof -
  note R = vi_readyD [OF assms(1)]
  let ?in = "in_grid (t_dims t)"
  have wide: "?in q \<Longrightarrow> ok (expand_wide t q dir) ?in" for q by (rule expand_wide_ok [OF R(1,2)])
  note skip = skip_in_grid(1) [OF R(3)] and adv = skip_in_grid(3) [OF R(3)]
  have sem: "?in q \<Longrightarrow> ok (expand_semantic t dir q) ?in" for q by (rule expand_semantic_ok [OF assms(1)])
  have adv_wide: "?in q \<Longrightarrow> ok (advance t q dir) (\<lambda>q. ok (if dir = Left then expand_wide t q dir else Some q) ?in)" for q
    by (rule ok_mono [OF adv]) (auto intro: expand_wide_ok [OF R(1,2)])
  let ?g = "\<lambda>q. if is_boundary t q dir then Some q else do { q \<leftarrow> advance t q dir; if dir = Left then expand_wide t q dir else Some q }"
  have 1: "ok (if dir \<noteq> sd \<and> \<not> is_boundary t p dir then expand_semantic t dir p else Some p) ?in"
    using sem [OF assms(2)] assms(2) by simp
  have 2: "?in q \<Longrightarrow> ok (?g q) ?in" for q using adv_wide by simp
  have 3: "?in q \<Longrightarrow> ok (if dir = sd \<and> \<not> is_boundary t q dir then expand_semantic t dir q else Some q) ?in" for q
    using sem by (auto simp: ok_if)
  show ?thesis unfolding semantic_def ok_bind
    by (rule ok_mono [OF 1], rule ok_mono [OF wide], assumption, rule ok_mono [OF skip], assumption,
        rule ok_mono [OF 2], assumption, rule 3)
qed

lemma word_motion_ok:
  assumes "vi_ready t" "in_grid (t_dims t) p"
  shows "ok (word_motion t p dir sd) (in_grid (t_dims t))"
proof -
  note R = vi_readyD [OF assms(1)]
  let ?in = "in_grid (t_dims t)"
  have wide: "ok (expand_wide t p dir) ?in" by (rule expand_wide_ok [OF R(1,2) assms(2)])
  have "?in q \<Longrightarrow> ok (if dir = sd then do { p \<leftarrow> skip_next t dir True q; skip_next t dir False p }
      else do { p \<leftarrow> skip_here t dir False q; skip_here t dir True p }) ?in" for q
    by (auto intro: ok_mono [OF skip_in_grid(1) [OF R(3)]] ok_mono [OF skip_in_grid(2) [OF R(3)]] skip_in_grid [OF R(3)])
  then show ?thesis unfolding word_motion_def ok_bind by (rule ok_mono [OF wide])
qed

lemma find_paragraph_ok:
  assumes "grid_ok (t_grid t)" "set ls \<subseteq> {topmost_line (t_dims t)..bottommost_line (t_dims t)}"
  shows "ok (find_paragraph t seen ls) (\<lambda>r. \<forall>l. r = Some l \<longrightarrow> l \<in> set ls)"
  using assms(2)
proof (induction ls arbitrary: seen)
  case (Cons l ls)
  have "in_grid (t_dims t) (Point l 0)" using Cons.prems grid_okD(3) [OF assms(1)] by (simp add: in_grid_def grid_dims_def)
  then have "- int (grid_history (t_grid t)) \<le> l" "l < int (g_lines (t_grid t))" using in_grid_iff assms(1) by auto
  then obtain r where "grid_row (t_grid t) l = Some r" using grid_row_ok [of False "t_grid t" l] assms(1) by (auto elim: okE)
  moreover have "ok (find_paragraph t s ls) (\<lambda>r. \<forall>k. r = Some k \<longrightarrow> k \<in> set (l # ls))" for s
    by (rule ok_mono [OF Cons.IH]) (use Cons.prems in auto)
  ultimately show ?case by (simp add: Let_def)
qed simp

text \<open>The targets of the motions that depend on the viewport exist only in a valid viewport.\<close>

definition motion_ok :: "vi_motion \<Rightarrow> terminal \<Rightarrow> bool" where
  "motion_ok motion t \<longleftrightarrow>
     (motion \<in> {Vi_High, Vi_Middle, Vi_Low} \<longrightarrow> display_offset (t_grid t) \<le> grid_history (t_grid t))
     \<and> (motion = Vi_Middle \<longrightarrow> 2 \<le> t_lines t)"

lemma motion_target_ok:
  assumes "vi_ready t" "in_grid (t_dims t) p" "motion_ok motion t"
  shows "ok (motion_target t motion p) (in_grid (t_dims t))"
proof -
  note R = vi_readyD [OF assms(1)]
  let ?in = "in_grid (t_dims t)" and ?top = "topmost_line (t_dims t)" and ?bot = "bottommost_line (t_dims t)"
  have dims: "?top = - int (grid_history (t_grid t))" "?bot = int (t_lines t) - 1" "0 < t_lines t"
    using grid_okD [OF R(3)] R(4) by (auto simp: grid_dims_def bottommost_line_def topmost_line_def history_size_def dims_ok_def)
  have start: "?top \<le> l \<Longrightarrow> l \<le> ?bot \<Longrightarrow> ok (screen_line_start t l) ?in" for l
    by (rule ok_mono [OF screen_line_start_ok [OF assms(1)]]) auto
  have par: "ok (find_paragraph t False ls) (\<lambda>r. \<forall>d. ?in (Point d 0) \<longrightarrow> ?in (Point (case r of Some l \<Rightarrow> l | None \<Rightarrow> d) 0))"
    if "set ls \<subseteq> {?top..?bot}" for ls
    by (rule ok_mono [OF find_paragraph_ok [OF R(3) that]]) (use that R(5,6) in \<open>auto simp: in_grid_def split: option.split\<close>)
  have ends: "?in (Point ?top 0)" "?in (Point ?bot 0)" using line_span [OF R(4)] R(4-6) by (auto simp: in_grid_def dims_ok_def)
  have bracket: "ok (bracket_search t p) (\<lambda>r. ?in (case r of Some q \<Rightarrow> q | None \<Rightarrow> p))"
  proof -
    obtain x where x: "grid_cell_at (t_grid t) p = Some x" using cell_at_Some [OF R(3) assms(2)] .
    then obtain r where r: "bracket_search t p = Some r" using bracket_search_eq [OF R(3) assms(2)] by blast
    then show ?thesis using bracket_search_back(1) [OF R(3) assms(2)] assms(2) by (cases r) auto
  qed
  note motions = vi_left_ok vi_right_ok vi_first_ok vi_last_ok first_occupied_ok semantic_ok word_motion_ok
  show ?thesis
  proof (cases motion)
    case Paragraph_Up
    have "set (rev (irange ?top (line p))) \<subseteq> {?top..?bot}" using assms(2) by (auto simp: in_grid_def)
    from par [OF this] show ?thesis using Paragraph_Up ends by (auto elim!: ok_mono)
  next
    case Paragraph_Down
    have "set (irange (line p) ?bot) \<subseteq> {?top..?bot}" using assms(2) by (auto simp: in_grid_def)
    from par [OF this] show ?thesis using Paragraph_Down ends by (auto elim!: ok_mono)
  next
    case Vi_Bracket
    then show ?thesis using bracket by (auto elim!: ok_mono simp: map_option_case ok_iff split: option.splits)
  next
    case Vi_Up
    then show ?thesis using assms(2) by (simp add: in_grid_def)
  next
    case Vi_Down
    then show ?thesis using assms(2) dims(2) by (simp add: in_grid_def)
  next
    case Vi_High
    then show ?thesis using start assms(3) dims by (simp add: motion_ok_def)
  next
    case Vi_Middle
    then have o: "int (display_offset (t_grid t)) \<le> int (grid_history (t_grid t))" "2 \<le> int (t_lines t)"
      using assms(3) by (auto simp: motion_ok_def)
    have "?top \<le> - int (display_offset (t_grid t)) + int (t_lines t) div 2 - 1"
      "- int (display_offset (t_grid t)) + int (t_lines t) div 2 - 1 \<le> ?bot" using o dims(1,2) by linarith+
    from start [OF this] show ?thesis using Vi_Middle by simp
  next
    case Vi_Low
    then show ?thesis using start assms(3) dims by (simp add: motion_ok_def)
  qed (use motions [OF assms(1,2)] in simp_all)
qed

text \<open>
  \<^verbatim>\<open>Term::vi_motion\<close> keeps the invariant; it moves the viewport so that the cursor is in it, if the display
  offset was valid.
\<close>

lemma scroll_to_point_dims [simp]: "t_dims (scroll_to_point p t) = t_dims t"
proof -
  have "t_dims (scroll_display sc t) = t_dims t" for sc
    by (cases sc) (simp_all add: scroll_display_def Let_def grid_dims_def)
  then show ?thesis by (simp add: scroll_to_point_def Let_def)
qed

lemma scroll_to_point_view:
  assumes "grid_ok (t_grid t)" "display_ok (t_grid t)" "in_grid (t_dims t) p"
  shows "- int (display_offset (t_grid (scroll_to_point p t))) \<le> line p"
    "line p < int (t_lines t) - int (display_offset (t_grid (scroll_to_point p t)))"
proof -
  have grid: "t_grid (scroll_display sc t) = grid_scroll_display sc (t_grid t)" for sc
    by (simp add: scroll_display_def Let_def)
  have offset: "int (display_offset (t_grid (scroll_display (Delta n) t))) =
      min (max (int (display_offset (t_grid t)) + n) 0) (int (grid_history (t_grid t)))" for n
    by (simp add: grid of_nat_min)
  have b: "- int (grid_history (t_grid t)) \<le> line p" "line p < int (t_lines t)"
    using assms(1,3) in_grid_iff by auto
  show "- int (display_offset (t_grid (scroll_to_point p t))) \<le> line p"
    "line p < int (t_lines t) - int (display_offset (t_grid (scroll_to_point p t)))"
    using b assms(2) grid_okD(6) [OF assms(1)]
    by (auto simp: scroll_to_point_def Let_def offset display_ok_def dims_ok_def grid_dims_def)
qed

lemma term_vi_motion_ok:
  assumes "vi_ready t" "in_grid (t_dims t) (vi_mode_cursor t)" "motion_ok motion t" "mode_contains VI t"
  shows "ok (term_vi_motion motion t) (\<lambda>u. term_step False t u \<and> t_dims u = t_dims t
    \<and> in_grid (t_dims u) (vi_mode_cursor u)
    \<and> motion_target t motion (vi_mode_cursor t) = Some (vi_mode_cursor u)
    \<and> (display_ok (t_grid t) \<longrightarrow> - int (display_offset (t_grid u)) \<le> line (vi_mode_cursor u)
        \<and> line (vi_mode_cursor u) < int (t_lines u) - int (display_offset (t_grid u))))"
proof -
  note R = vi_readyD [OF assms(1)]
  obtain p where p: "motion_target t motion (vi_mode_cursor t) = Some p" "in_grid (t_dims t) p"
    using motion_target_ok [OF assms(1-3)] by (auto elim: okE)
  let ?u = "vi_mode_recompute_selection ((scroll_to_point p t)\<lparr>vi_mode_cursor := p\<rparr>)"
  have u: "term_step False t ?u" using vi_steps(2) [OF R(1), of p] by (simp add: vi_goto_point_def)
  have cursor: "vi_mode_cursor ?u = p" by (auto simp: vi_mode_recompute_selection_def split: option.split)
  have dims: "t_dims ?u = t_dims t" by simp
  show ?thesis using p u cursor dims scroll_to_point_view [OF R(3) _ p(2)] assms(4) term_stepD(3) [OF u]
    by (simp add: term_vi_motion_def Let_def)
qed

text \<open>The motion to the next word: over the rest of the word under the cursor and the blanks behind it.\<close>

lemma word_right_ok:
  assumes "vi_ready t" "in_grid (t_dims t) p" "expand_wide t p dir = Some p" "dir \<noteq> sd" "i = cell_index (t_dims t) p"
  shows "ok (word_motion t p dir sd) (\<lambda>q. \<exists>m n. m \<le> n \<and> cell_index (t_dims t) q = onward dir i n
    \<and> (\<forall>r<m. \<not> blank_at t (onward dir i r)) \<and> (\<forall>r. m \<le> r \<and> r < n \<longrightarrow> blank_at t (onward dir i r))
    \<and> (is_boundary t q dir \<or> m < n \<and> \<not> blank_at t (onward dir i n)))"
proof -
  note R = vi_readyD [OF assms(1)]
  let ?d = "t_dims t"
  obtain u m where u: "skip_here t dir False p = Some u" "in_grid ?d u" "cell_index ?d u = onward dir i m"
      "\<forall>r<m. \<not> blank_at t (onward dir i r)" "is_boundary t u dir \<or> blank_at t (cell_index ?d u)"
    using skip_here_ok [OF R(3) assms(2), of dir False] assms(5) by (auto elim!: okE)
  obtain q n where q: "skip_here t dir True u = Some q" "in_grid ?d q" "cell_index ?d q = onward dir (onward dir i m) n"
      "\<forall>r<n. blank_at t (onward dir (onward dir i m) r)" "is_boundary t q dir \<or> \<not> blank_at t (cell_index ?d q)"
    using skip_here_ok [OF R(3) u(2), of dir True] u(3) by (auto elim!: okE)
  have plus: "onward dir (onward dir i m) r = onward dir i (m + r)" for r by (simp add: onward_def)
  have "\<forall>r. m \<le> r \<and> r < m + n \<longrightarrow> blank_at t (onward dir i r)" using q(4) unfolding plus
    by (metis le_add_diff_inverse nat_add_left_cancel_less)
  moreover have "is_boundary t q dir \<or> 0 < n"
  proof (cases "n = 0")
    case True
    then have "cell_index ?d q = cell_index ?d u" using q(3) u(3) by simp
    then have "q = u" using point_at_index [OF R(4)] q(2) u(2) by metis
    then show ?thesis using u(5) q(5) by auto
  qed simp
  ultimately have "m \<le> m + n \<and> cell_index ?d q = onward dir i (m + n)
    \<and> (\<forall>r<m. \<not> blank_at t (onward dir i r)) \<and> (\<forall>r. m \<le> r \<and> r < m + n \<longrightarrow> blank_at t (onward dir i r))
    \<and> (is_boundary t q dir \<or> m < m + n \<and> \<not> blank_at t (onward dir i (m + n)))" using u(4) q(3,5) unfolding plus by auto
  moreover have "word_motion t p dir sd = Some q" using assms(3,4) u(1) q(1) by (simp add: word_motion_def)
  ultimately show ?thesis unfolding ok_iff by blast
qed

end
