(* ===== verification/Search_Properties.thy ===== *)
theory Search_Properties
  imports Selection_Text Vi_Mode Term_Resize Examples
begin

text \<open>
  The properties of the searches, of the text of a selection and of the vi mode motions, with the concrete
  terminals that their witnesses use.
\<close>

section \<open>Concrete terminals\<close>

definition demo_wrapped :: terminal where
  \<comment> \<open>the text \<^verbatim>\<open>(a)de f\<close> wrapped after the fourth column\<close>
  "demo_wrapped = demo_term\<lparr>t_grid := demo_screen (demo_chars [40, 97, 41, 100] WRAPLINE) (demo_chars [101, 32, 102, 32] 0)\<rparr>"

definition demo_leading :: terminal where
  \<comment> \<open>\<^verbatim>\<open>xyz\<close> and the filler of a wide character, here \<^verbatim>\<open>W\<close>, that was wrapped to the second line\<close>
  "demo_leading = demo_term\<lparr>t_grid := demo_screen
     (demo_chars [120, 121, 122, 32] (or LEADING_WIDE_CHAR_SPACER WRAPLINE)) (demo_chars [87, 32, 32, 32] 0)\<rparr>"

definition demo_open_end :: terminal where
  \<comment> \<open>a wrapped line at the bottom of the screen\<close>
  "demo_open_end = demo_term\<lparr>t_grid := demo_screen (demo_chars [97, 98, 99, 100] 0) (demo_chars [101, 102, 103, 104] WRAPLINE)\<rparr>"

lemma demo_grids:
  "t_grid demo_wrapped = demo_screen (demo_chars [40, 97, 41, 100] WRAPLINE) (demo_chars [101, 32, 102, 32] 0)"
  "t_grid demo_leading = demo_screen (demo_chars [120, 121, 122, 32] (or LEADING_WIDE_CHAR_SPACER WRAPLINE)) (demo_chars [87, 32, 32, 32] 0)"
  "t_grid demo_open_end = demo_screen (demo_chars [97, 98, 99, 100] 0) (demo_chars [101, 102, 103, 104] WRAPLINE)"
  by (simp_all add: demo_wrapped_def demo_leading_def demo_open_end_def)

lemma demo_screens:
  "grid_inv False (t_grid demo_wrapped)" "grid_inv False (t_grid demo_leading)" "grid_inv False (t_grid demo_open_end)"
  "vi_safe demo_wrapped" "plain_grid demo_wrapped"
  unfolding vi_safe_def plain_grid_def demo_grids by code_simp+

lemma demo_screens_inv: "term_inv False demo_wrapped" "term_inv False demo_leading" "term_inv False demo_open_end"
  using demo_screens(1-3) demo_inv(2,3) term_inv_weaken [OF demo_inv(1)]
  by (auto simp: demo_wrapped_def demo_leading_def demo_open_end_def demo_screen_def intro!: term_inv_grid(1))

section \<open>Searches\<close>

text \<open>
  C12 (functional): the bracket search returns the cell that closes the bracket under the start point,
  looking right for an opening and left for a closing one: the first matching bracket with as many opening as closing
  brackets of that kind before it. It returns nothing if there is no such cell, and never panics.
\<close>

theorem bracket_search_finds:
  assumes "grid_ok (t_grid t)" "in_grid (t_dims t) p" "grid_cell_at (t_grid t) p = Some x"
    and "find_bracket (cell_c x) BRACKET_PAIRS = Some (forward, e)"
  shows "\<exists>r. bracket_search t p = Some r \<and> (\<forall>q. r = Some q \<longleftrightarrow>
    (\<exists>ys y zs. ahead forward (t_grid t) p = ys @ (q, y) # zs \<and> cell_c y = e \<and> depth (cell_c x) e ys = 0
       \<and> (\<forall>i. 0 \<le> depth (cell_c x) e (take i ys))))"
  using bracket_found [OF assms] by (simp add: closes_def)

lemma demo_wrapped_dims: "grid_ok (t_grid demo_wrapped)" "in_grid (t_dims demo_wrapped) (Point 0 0)"
    "in_grid (t_dims demo_wrapped) (Point 1 0)"
  using demo_screens(1) by (simp_all add: grid_inv_def) (unfold demo_grids, code_simp+)

theorem bracket_search_finds_witness:
  "\<exists>x. grid_cell_at (t_grid demo_wrapped) (Point 0 0) = Some x \<and> (\<exists>r. bracket_search demo_wrapped (Point 0 0) = Some r \<and> (\<forall>q. r = Some q \<longleftrightarrow>
    (\<exists>ys y zs. ahead True (t_grid demo_wrapped) (Point 0 0) = ys @ (q, y) # zs \<and> cell_c y = 41 \<and> depth (cell_c x) 41 ys = 0
       \<and> (\<forall>i. 0 \<le> depth (cell_c x) 41 (take i ys)))))"
proof -
  have x: "grid_cell_at (t_grid demo_wrapped) (Point 0 0) = Some (cell_default\<lparr>cell_c := 40\<rparr>)"
    unfolding demo_grids by code_simp
  have "find_bracket (cell_c (cell_default\<lparr>cell_c := 40\<rparr>)) BRACKET_PAIRS = Some (True, 41)" by code_simp
  from bracket_search_finds [OF demo_wrapped_dims(1,2) x this] show ?thesis using x by blast
qed

text \<open>
  Jumping to the matching bracket and jumping again returns to the start.
\<close>

theorem bracket_search_involution:
  assumes "grid_ok (t_grid t)" "in_grid (t_dims t) p" "bracket_search t p = Some (Some q)"
  shows "in_grid (t_dims t) q \<and> bracket_search t q = Some (Some p)"
  using bracket_search_back [OF assms] by simp

theorem bracket_search_involution_witness:
  "in_grid (t_dims demo_wrapped) (Point 0 2) \<and> bracket_search demo_wrapped (Point 0 2) = Some (Some (Point 0 0))"
proof (rule bracket_search_involution [OF demo_wrapped_dims(1,2)])
  have "scan_list (bracket_step 40 41) (ahead True (t_grid demo_wrapped) (Point 0 0)) 0 = Inl (Point 0 2)"
    unfolding demo_grids by code_simp
  moreover have x: "grid_cell_at (t_grid demo_wrapped) (Point 0 0) = Some (cell_default\<lparr>cell_c := 40\<rparr>)"
    unfolding demo_grids by code_simp
  moreover have "find_bracket 40 BRACKET_PAIRS = Some (True, 41)" by code_simp
  ultimately show "bracket_search demo_wrapped (Point 0 0) = Some (Some (Point 0 2))"
    by (simp add: bracket_search_eq [OF demo_wrapped_dims(1,2) x])
qed

text \<open>
  A semantic selection of one cell covers the word around it. The range ends in front of the
  next separator or at the end of the line, across wraps; it starts behind the previous separator or at
  the start of the line, unless that cell is the spacer of a wide character.
\<close>

theorem semantic_selection_word:
  assumes "grid_ok (t_grid t)" "in_grid (t_dims t) p" "bracket_search t p = Some None"
  shows "\<exists>r a b m. range_semantic t p p = Some r \<and> \<not> is_block r
    \<and> a \<le> cell_index (t_dims t) p \<and> cell_index (t_dims t) p \<le> b
    \<and> range_start r = point_at (t_dims t) m \<and> range_end r = point_at (t_dims t) b
    \<and> (\<not> spacer_at (t_grid t) a \<longrightarrow> m = a)
    \<and> (\<forall>j. a \<le> j \<and> j \<le> b \<and> j \<noteq> cell_index (t_dims t) p \<longrightarrow>
         \<not> needle_at (t_grid t) (semantic_escape_chars (t_config t)) j)
    \<and> (\<forall>j. a \<le> j \<and> j < b \<longrightarrow> \<not> line_break (t_grid t) j)
    \<and> (a = 0 \<or> line_break (t_grid t) (a - 1) \<or> needle_at (t_grid t) (semantic_escape_chars (t_config t)) (a - 1))
    \<and> (b = cell_count (t_dims t) - 1 \<or> line_break (t_grid t) b
       \<or> needle_at (t_grid t) (semantic_escape_chars (t_config t)) (b + 1))"
proof -
  let ?i = "cell_index (t_dims t) p" and ?N = "needle_at (t_grid t) (semantic_escape_chars (t_config t))"
  obtain k m where l: "semantic_search_left t p = Some (point_at (t_dims t) m)" "k \<le> ?i"
      "\<forall>j. k \<le> j \<and> j < ?i \<longrightarrow> \<not> line_break (t_grid t) j \<and> \<not> ?N j"
      "k = 0 \<or> line_break (t_grid t) (k - 1) \<or> ?N (k - 1)" "\<not> spacer_at (t_grid t) k \<longrightarrow> m = k"
    using semantic_left_ok [OF assms(1,2) refl] by (auto elim!: okE)
  obtain b where r: "semantic_search_right t p = Some (point_at (t_dims t) b)" "?i \<le> b"
      "\<forall>j. ?i < j \<and> j \<le> b \<longrightarrow> \<not> ?N j" "\<forall>j. ?i \<le> j \<and> j < b \<longrightarrow> \<not> line_break (t_grid t) j"
      "b = cell_count (t_dims t) - 1 \<or> line_break (t_grid t) b \<or> ?N (b + 1)"
    using semantic_right_ok [OF assms(1,2) refl] by (auto elim!: okE)
  let ?r = "\<lparr>range_start = point_at (t_dims t) m, range_end = point_at (t_dims t) b, is_block = False\<rparr>"
  have "range_semantic t p p = Some ?r" using assms(3) l(1) r(1) by (simp add: range_semantic_def)
  moreover have "\<not> ?N j" if "k \<le> j" "j \<le> b" "j \<noteq> ?i" for j using that l(3) r(3) by (cases "j < ?i") auto
  moreover have "\<not> line_break (t_grid t) j" if "k \<le> j" "j < b" for j using that l(3) r(4) by (cases "j < ?i") auto
  ultimately show ?thesis using l r by (intro exI [of _ ?r] exI [of _ k] exI [of _ b] exI [of _ m]) auto
qed

theorem semantic_selection_word_witness:
  "\<exists>r. range_semantic demo_wrapped (Point 1 0) (Point 1 0) = Some r \<and> \<not> is_block r"
proof -
  have x: "grid_cell_at (t_grid demo_wrapped) (Point 1 0) = Some (cell_default\<lparr>cell_c := 101\<rparr>)"
    unfolding demo_grids by code_simp
  have "find_bracket 101 BRACKET_PAIRS = None" by code_simp
  then have "bracket_search demo_wrapped (Point 1 0) = Some None"
    by (simp add: bracket_search_eq [OF demo_wrapped_dims(1,3) x])
  from semantic_selection_word [OF demo_wrapped_dims(1,3) this] show ?thesis by blast
qed

section \<open>The text of a selection\<close>


definition demo_line_selection :: selection where
  "demo_line_selection =
     \<lparr>sel_ty = Lines, sel_start = \<lparr>anchor_point = Point 1 0, anchor_side = Left\<rparr>,
      sel_end = \<lparr>anchor_point = Point 1 0, anchor_side = Left\<rparr>\<rparr>"


text \<open>
  A block selection from the right half of the last column of a line to the left half of the
  last column of a lower line is not recognised as empty, and its range starts one column behind the
  line. Converting it to text panics.
\<close>

theorem block_selection_panics:
  assumes "term_inv b t" "t_selection t = Some \<lparr>sel_ty = Block,
      sel_start = \<lparr>anchor_point = Point l1 (t_columns t - 1), anchor_side = Right\<rparr>,
      sel_end = \<lparr>anchor_point = Point l2 (t_columns t - 1), anchor_side = Left\<rparr>\<rparr>"
    and "topmost_line (t_dims t) \<le> l1" "l1 < l2" "l2 \<le> bottommost_line (t_dims t)"
  shows "selection_to_string t = None"
proof -
  note g = term_invD(2) [OF assms(1)]
  note D = grid_okD(6) [OF g] and cols = term_invD(6) [OF assms(1)]
  have ig: "in_grid (t_dims t) (Point l (t_columns t - 1))" if "topmost_line (t_dims t) \<le> l" "l \<le> bottommost_line (t_dims t)" for l
    using that cols by (simp add: in_grid_def grid_dims_def)
  have b: "l1 \<le> bottommost_line (t_dims t)" "topmost_line (t_dims t) \<le> l2" using assms(3-5) by auto
  obtain n where n: "t_columns t = Suc (Suc n)" using cols by (metis One_nat_def Suc_1 Suc_le_D Suc_le_mono)
  define s e sel where "s = \<lparr>anchor_point = Point l1 (Suc n), anchor_side = Right\<rparr>"
    and "e = \<lparr>anchor_point = Point l2 (Suc n), anchor_side = Left\<rparr>" and "sel = \<lparr>sel_ty = Block, sel_start = s, sel_end = e\<rparr>"
  note defs = this
  have sel: "t_selection t = Some sel" "sel_ty sel = Block" using assms(2) n by (simp_all add: defs)
  have "\<not> selection_swapped sel" using assms(4) by (auto simp: defs selection_swapped_def less_point_def less_eq_point_def)
  moreover have "range_block sel s e = Some \<lparr>range_start = Point l1 (Suc (Suc n)), range_end = Point l2 n, is_block = True\<rparr>"
    using assms(4) by (simp add: defs range_block_def selection_is_empty_def Let_def anchor_line_def)
  ultimately have range: "to_range t sel = Some (Some \<lparr>range_start = Point l1 (t_columns t), range_end = Point l2 n, is_block = True\<rparr>)"
    using b clamp_in_grid [OF D ig [OF assms(3) b(1)]] clamp_in_grid [OF D ig [OF b(2) assms(5)]] n
    by (simp add: to_range_def defs)
  obtain r where r: "grid_row (t_grid t) l1 = Some r" "row_ok (t_columns t) r"
  proof -
    have "- int (grid_history (t_grid t)) \<le> l1" "l1 < int (t_lines t)" using ig [OF assms(3) b(1)] in_grid_iff [OF g] by auto
    then show ?thesis using that grid_row_ok [OF term_invD(1) [OF assms(1)]] by (auto simp: good_row_def elim!: okE)
  qed
  have "line_to_string t l1 (t_columns t) c inc = None" for c inc
    using r line_length_ok [OF r(2)] by (auto simp: line_to_string_def row_index_def vec_get_def row_ok_def elim!: okE)
  then show ?thesis using sel range assms(4) by (simp add: selection_to_string_def upto_rec1 block_line_def)
qed

theorem block_selection_panics_witness:
  "selection_to_string (demo_term\<lparr>t_selection := Some \<lparr>sel_ty = Block,
      sel_start = \<lparr>anchor_point = Point 0 3, anchor_side = Right\<rparr>,
      sel_end = \<lparr>anchor_point = Point 1 3, anchor_side = Left\<rparr>\<rparr>\<rparr>) = None"
proof (rule block_selection_panics [where b = True])
  have "in_grid (t_dims demo_term) (Point 0 0)" "in_grid (t_dims demo_term) (Point 1 0)"
    using demo_inv in_grid_iff [OF term_invD(2) [OF demo_inv(1)]] by auto
  then show "topmost_line (t_dims (demo_term\<lparr>t_selection := Some \<lparr>sel_ty = Block,
      sel_start = \<lparr>anchor_point = Point 0 3, anchor_side = Right\<rparr>,
      sel_end = \<lparr>anchor_point = Point 1 3, anchor_side = Left\<rparr>\<rparr>\<rparr>)) \<le> 0"
    "1 \<le> bottommost_line (t_dims (demo_term\<lparr>t_selection := Some \<lparr>sel_ty = Block,
      sel_start = \<lparr>anchor_point = Point 0 3, anchor_side = Right\<rparr>,
      sel_end = \<lparr>anchor_point = Point 1 3, anchor_side = Left\<rparr>\<rparr>\<rparr>))"
    by (simp_all add: in_grid_def)
qed (use demo_inv in \<open>simp_all add: term_inv_def\<close>)

text \<open>
  A line that ends in the filler of a wide character which was wrapped to the next line is
  copied with the first character of the line above instead of the wide character below. On the topmost
  line this is an access outside of the grid.
\<close>

theorem leading_spacer_copies_above:
  assumes "term_inv b t" "grid_row (t_grid t) l = Some r" "\<forall>x \<in> set (row_inner r). cell_c x \<noteq> 9"
    and "topmost_line (t_dims t) \<le> l" "l \<le> bottommost_line (t_dims t)"
    and "\<not> flag_contains (cell_flags (hd (row_inner r))) WIDE_CHAR_SPACER"
    and "flag_contains (cell_flags (last (row_inner r))) WRAPLINE"
    and "flag_contains (cell_flags (last (row_inner r))) LEADING_WIDE_CHAR_SPACER"
  shows "line_to_string t l 0 (t_columns t - 1) True =
    map_option (\<lambda>x. concat (map cell_text (row_inner r)) @ [cell_c x]) (grid_cell_at (t_grid t) (Point (l - 1) 0))
    \<and> (l = topmost_line (t_dims t) \<longrightarrow> line_to_string t l 0 (t_columns t - 1) True = None)"
proof -
  let ?n = "t_columns t"
  note g = term_invD(2) [OF assms(1)]
  have "in_grid (t_dims t) (Point l 0)" using assms(4,5) grid_okD(3) [OF g] by (simp add: in_grid_def grid_dims_def)
  then have l: "- int (grid_history (t_grid t)) \<le> l" "l < int (t_lines t)" using in_grid_iff [OF g] by auto
  have r: "row_ok ?n r" using grid_row_ok [OF term_invD(1) [OF assms(1)] l] assms(2) by (simp add: good_row_def)
  have n: "2 \<le> ?n" "length (row_inner r) = ?n" "row_inner r \<noteq> []" using r term_invD(6) [OF assms(1)] by (auto simp: row_ok_def)
  have hd: "row_index r 0 = Some (row_inner r ! 0)" "\<not> flag_contains (cell_flags (row_inner r ! 0)) WIDE_CHAR_SPACER"
    and lst: "row_index r (?n - 1) = Some (last (row_inner r))"
    using row_index_ok [OF r] n assms(6) by (auto simp: hd_conv_nth last_conv_nth)
  have len: "line_length r = Some ?n" using lst n assms(7) by (simp add: line_length_def row_len_def csub_def)
  have steps: "for_each [0..<?n] (text_step t r) (False, []) = Some (False, concat (map cell_text (row_inner r)))"
    using text_steps [OF r assms(3), of ?n 0 t "[]"] n by simp
  have m: "min ?n (?n - 1 + 1) = ?n" using n by simp
  have eq: "line_to_string t l 0 (?n - 1) True =
    map_option (\<lambda>x. concat (map cell_text (row_inner r)) @ [cell_c x]) (grid_cell_at (t_grid t) (Point (l - 1) 0))"
    using assms(2,7,8) len hd lst steps m n
    by (simp add: line_to_string_def csub_def Let_def map_option_case split: option.split)
  have "line_to_string t l 0 (?n - 1) True = None" if top: "l = topmost_line (t_dims t)"
  proof -
    have "compute_index (raw (t_grid t)) (l - 1) = None"
      using compute_index_defined_iff [OF grid_okD(1) [OF g], of "l - 1"] top grid_okD(2) [OF g]
      by (auto simp: first_line_def topmost_line_def history_size_def grid_dims_def)
    then show ?thesis unfolding eq by (simp add: grid_cell_at_def grid_row_def storage_index_def)
  qed
  then show ?thesis using eq by blast
qed

theorem leading_spacer_copies_above_witness:
  "line_to_string demo_leading 0 0 3 True = None"
proof -
  have r: "grid_row (t_grid demo_leading) 0 = Some (demo_chars [120, 121, 122, 32] (or LEADING_WIDE_CHAR_SPACER WRAPLINE))"
    unfolding demo_grids by code_simp
  have cols: "t_columns demo_leading = 4" and dims: "topmost_line (t_dims demo_leading) = 0" "0 \<le> bottommost_line (t_dims demo_leading)"
    unfolding demo_grids by code_simp+
  have "\<forall>x \<in> set (row_inner (demo_chars [120, 121, 122, 32] (or LEADING_WIDE_CHAR_SPACER WRAPLINE))). cell_c x \<noteq> 9"
    "\<not> flag_contains (cell_flags (hd (row_inner (demo_chars [120, 121, 122, 32] (or LEADING_WIDE_CHAR_SPACER WRAPLINE))))) WIDE_CHAR_SPACER"
    "flag_contains (cell_flags (last (row_inner (demo_chars [120, 121, 122, 32] (or LEADING_WIDE_CHAR_SPACER WRAPLINE))))) WRAPLINE"
    "flag_contains (cell_flags (last (row_inner (demo_chars [120, 121, 122, 32] (or LEADING_WIDE_CHAR_SPACER WRAPLINE))))) LEADING_WIDE_CHAR_SPACER"
    by code_simp+
  from leading_spacer_copies_above [OF demo_screens_inv(2) r this(1) eq_refl [OF dims(1)] dims(2) this(2-4)]
  have "0 = topmost_line (t_dims demo_leading) \<longrightarrow> line_to_string demo_leading 0 0 (t_columns demo_leading - 1) True = None"
    by (rule conjunct2)
  then show ?thesis using cols dims(1) by simp
qed

section \<open>Vi mode\<close>

text \<open>
  C14 (safety): in vi mode every motion runs to completion and leaves the vi mode cursor inside the grid and
  in the viewport, which is scrolled to it. The terminal must be free of the cells that the motions
  do not expect (\<open>vi_safe\<close>), and the motion to the middle of the screen needs two lines (\<open>motion_ok\<close>).
\<close>

theorem vi_motion_total:
  assumes "term_inv False t" "vi_safe t" "in_grid (t_dims t) (vi_mode_cursor t)" "motion_ok motion t"
    and "mode_contains VI t" "display_ok (t_grid t)"
  shows "\<exists>u. term_vi_motion motion t = Some u \<and> term_inv False u \<and> same_size t u
    \<and> in_grid (t_dims u) (vi_mode_cursor u) \<and> vi_in_view u"
proof -
  have "vi_ready t" using assms(1,2) by (simp add: vi_ready_def)
  from term_vi_motion_ok [OF this assms(3-5)] show ?thesis using assms(6)
    by (auto simp: ok_iff term_step_def vi_in_view_def in_grid_def grid_dims_def)
qed

lemma vi_safe_grid: "t_grid u = t_grid t \<Longrightarrow> vi_safe u = vi_safe t"
  by (simp add: vi_safe_def cong: option.case_cong)

definition demo_vi :: terminal where
  "demo_vi = demo_wrapped\<lparr>t_mode := VI\<rparr>"

lemma demo_vi_ready: "term_inv False demo_vi" "vi_safe demo_vi" "mode_contains VI demo_vi" "display_ok (t_grid demo_vi)"
    "t_grid demo_vi = t_grid demo_wrapped"
proof -
  show "term_inv False demo_vi" "vi_safe demo_vi" "t_grid demo_vi = t_grid demo_wrapped"
    using demo_screens_inv(1) demo_screens(4) vi_safe_grid [of demo_vi demo_wrapped]
    by (simp_all add: demo_vi_def term_inv_def)
  then show "display_ok (t_grid demo_vi)" by (simp add: display_ok_def demo_grids demo_screen_def)
  show "mode_contains VI demo_vi" by (simp add: demo_vi_def mode_contains_def flag_contains_def)
qed

theorem vi_motion_total_witness:
  "\<exists>u. term_vi_motion Word_Right (demo_vi\<lparr>vi_mode_cursor := Point 0 0\<rparr>) = Some u \<and> term_inv False u
    \<and> same_size (demo_vi\<lparr>vi_mode_cursor := Point 0 0\<rparr>) u \<and> in_grid (t_dims u) (vi_mode_cursor u) \<and> vi_in_view u"
  using demo_vi_ready demo_wrapped_dims(2) vi_safe_grid [of "demo_vi\<lparr>vi_mode_cursor := Point 0 0\<rparr>" demo_vi]
  by (intro vi_motion_total) (simp_all add: motion_ok_def term_inv_def mode_contains_def)

text \<open>
  The motion to the next word (\<^verbatim>\<open>W\<close> in vi, and \<^verbatim>\<open>gE\<close> to the left) skips the rest of the word
  under the cursor and the blanks behind it, in reading order and across lines. It ends on the first
  cell of the next word, or at the end of the grid.
\<close>

theorem word_motion_next:
  assumes "term_inv False t" "vi_safe t" "in_grid (t_dims t) p" "expand_wide t p dir = Some p" "dir \<noteq> sd"
  shows "\<exists>q m n. word_motion t p dir sd = Some q \<and> m \<le> n
    \<and> cell_index (t_dims t) q = onward dir (cell_index (t_dims t) p) n
    \<and> (\<forall>r<m. \<not> blank_at t (onward dir (cell_index (t_dims t) p) r))
    \<and> (\<forall>r. m \<le> r \<and> r < n \<longrightarrow> blank_at t (onward dir (cell_index (t_dims t) p) r))
    \<and> (is_boundary t q dir \<or> m < n \<and> \<not> blank_at t (onward dir (cell_index (t_dims t) p) n))"
proof -
  have "vi_ready t" using assms(1,2) by (simp add: vi_ready_def)
  from word_right_ok [OF this assms(3-5) refl] show ?thesis unfolding ok_iff by blast
qed

theorem word_motion_next_witness:
  "\<exists>q m n. word_motion demo_wrapped (Point 0 0) Right Left = Some q \<and> m \<le> n
    \<and> cell_index (t_dims demo_wrapped) q = onward Right (cell_index (t_dims demo_wrapped) (Point 0 0)) n
    \<and> (\<forall>r<m. \<not> blank_at demo_wrapped (onward Right (cell_index (t_dims demo_wrapped) (Point 0 0)) r))
    \<and> (\<forall>r. m \<le> r \<and> r < n \<longrightarrow> blank_at demo_wrapped (onward Right (cell_index (t_dims demo_wrapped) (Point 0 0)) r))
    \<and> (is_boundary demo_wrapped q Right \<or> m < n \<and> \<not> blank_at demo_wrapped (onward Right (cell_index (t_dims demo_wrapped) (Point 0 0)) n))"
proof (rule word_motion_next [OF demo_screens_inv(1) demo_screens(4) demo_wrapped_dims(2)])
  show "expand_wide demo_wrapped (Point 0 0) Right = Some (Point 0 0)"
    unfolding expand_wide_def demo_grids by code_simp
qed simp

text \<open>
  With a wrapped line at the bottom of the screen the motion to the right leaves the grid. The vi mode cursor is
  then on a line that does not exist, and the next motion to the left accesses it. Scrolling a region down moves a
  wrapped line to the bottom.
\<close>

theorem vi_right_leaves_grid:
  assumes "term_inv False t" "in_grid (t_dims t) p" "line p = bottommost_line (t_dims t)"
    and "grid_cell_at (t_grid t) p = Some x" "flag_contains (cell_flags x) WRAPLINE"
    and "\<not> flag_contains (cell_flags x) LEADING_WIDE_CHAR_SPACER" "\<not> flag_contains (cell_flags x) WIDE_CHAR"
  shows "\<exists>q. motion_target t Vi_Right p = Some q \<and> \<not> in_grid (t_dims t) q \<and> motion_target t Vi_Left q = None"
proof -
  note g = term_invD(2) [OF assms(1)]
  let ?q = "Point (line p + 1) 0"
  have "expand_wide t p Right = Some p" using assms(4,6,7) by (simp add: expand_wide_def)
  then have "vi_right t p = Some ?q" using assms(4,5) by (simp add: vi_right_def is_wrap_def)
  moreover have "\<not> in_grid (t_dims t) ?q" using assms(3) by (simp add: in_grid_def)
  moreover have "grid_cell_at (t_grid t) ?q = None"
  proof -
    have "compute_index (raw (t_grid t)) (line p + 1) = None"
      using compute_index_defined_iff [OF grid_okD(1) [OF g], of "line p + 1"] assms(3) grid_okD(2) [OF g]
      by (auto simp: bottommost_line_def grid_dims_def)
    then show ?thesis by (simp add: grid_cell_at_def grid_row_def storage_index_def)
  qed
  ultimately show ?thesis by (simp add: vi_left_def expand_wide_def)
qed

theorem vi_right_leaves_grid_witness:
  "\<exists>q. motion_target demo_open_end Vi_Right (Point 1 3) = Some q \<and> \<not> in_grid (t_dims demo_open_end) q
    \<and> motion_target demo_open_end Vi_Left q = None"
proof (rule vi_right_leaves_grid [OF demo_screens_inv(3)])
  show "grid_cell_at (t_grid demo_open_end) (Point 1 3) = Some (insert_flag WRAPLINE (cell_default\<lparr>cell_c := 104\<rparr>))"
    unfolding demo_grids by code_simp
  show "in_grid (t_dims demo_open_end) (Point 1 3)" "line (Point 1 3) = bottommost_line (t_dims demo_open_end)"
    unfolding demo_grids by code_simp+
qed code_simp+

end
