(* ===== verification/Display_Damage.thy ===== *)
theory Display_Damage
  imports Term_State Selection
begin

text \<open>
  Which part of the window a frame has to redraw (\<^verbatim>\<open>alacritty/src/display/damage.rs\<close>). Viewport points are pairs
  of a line and a column. Pixel sizes are those of \<^verbatim>\<open>SizeInfo<u32>\<close>, with checked subtraction; rectangles have
  \<open>int\<close> coordinates, with the origin at the bottom left of the window. The damage of a frame is
  turned into rectangles by an iterator that merges neighbours; the model collects it into a list.
\<close>

record 'n size_info =
  si_width :: 'n
  si_height :: 'n
  si_cell_width :: 'n
  si_cell_height :: 'n
  si_padding_x :: 'n
  si_padding_y :: 'n
  si_screen_lines :: nat
  si_columns :: nat

record rect =
  rect_x :: int
  rect_y :: int
  rect_width :: int
  rect_height :: int

record frame_damage =
  frame_full :: bool
  frame_lines :: "line_damage list"
  frame_rects :: "rect list"

record damage_tracker =
  old_vi_cursor :: "(nat \<times> nat) option"
  old_selection :: "selection_range option"
  tracker_debug :: bool
  frame0 :: frame_damage
  frame1 :: frame_damage
  tracker_lines :: nat
  tracker_columns :: nat

section \<open>The damage of a frame\<close>

definition size_info_u32 :: "('f \<Rightarrow> nat) \<Rightarrow> 'f size_info \<Rightarrow> nat size_info" where
  \<comment> \<open>\<^verbatim>\<open>From<SizeInfo<f32>> for SizeInfo<u32>\<close>; \<open>cast\<close> is the cast to \<^verbatim>\<open>u32\<close>\<close>
  "size_info_u32 cast s =
     \<lparr>si_width = cast (si_width s), si_height = cast (si_height s), si_cell_width = cast (si_cell_width s),
      si_cell_height = cast (si_cell_height s), si_padding_x = cast (si_padding_x s), si_padding_y = cast (si_padding_y s),
      si_screen_lines = si_screen_lines s, si_columns = si_screen_lines s\<rparr>"

definition expand_line :: "nat \<Rightarrow> nat \<Rightarrow> nat \<Rightarrow> frame_damage \<Rightarrow> frame_damage option" where
  \<comment> \<open>\<^verbatim>\<open>self.lines[line].expand(left, right)\<close>\<close>
  "expand_line l left right f = do {
     d \<leftarrow> vec_get (frame_lines f) l;
     Some (f\<lparr>frame_lines := (frame_lines f)[l := damage_expand left right d]\<rparr>)
   }"

definition frame_damage_line :: "line_damage \<Rightarrow> frame_damage \<Rightarrow> frame_damage option" where
  "frame_damage_line d f = expand_line (dmg_line d) (dmg_left d) (dmg_right d) f"

definition frame_damage_point :: "nat \<times> nat \<Rightarrow> frame_damage \<Rightarrow> frame_damage option" where
  "frame_damage_point p f = expand_line (fst p) (snd p) (snd p) f"

definition frame_mark_fully_damaged :: "frame_damage \<Rightarrow> frame_damage" where
  "frame_mark_fully_damaged f = f\<lparr>frame_full := True\<rparr>"

definition viewport_y_to_damage_y :: "nat size_info \<Rightarrow> int \<Rightarrow> int \<Rightarrow> int" where
  "viewport_y_to_damage_y si y h = int (si_height si) - y - h"

definition damage_y_to_viewport_y :: "nat size_info \<Rightarrow> rect \<Rightarrow> int" where
  "damage_y_to_viewport_y si r = int (si_height si) - rect_y r - rect_height r"

definition add_viewport_rect :: "nat size_info \<Rightarrow> int \<Rightarrow> int \<Rightarrow> int \<Rightarrow> int \<Rightarrow> frame_damage \<Rightarrow> frame_damage" where
  "add_viewport_rect si x y w h f =
     f\<lparr>frame_rects := frame_rects f @ [\<lparr>rect_x = x, rect_y = viewport_y_to_damage_y si y h, rect_width = w, rect_height = h\<rparr>]\<rparr>"

definition frame_reset :: "nat \<Rightarrow> nat \<Rightarrow> frame_damage \<Rightarrow> frame_damage" where
  "frame_reset lines cols f =
     \<lparr>frame_full = False, frame_lines = map (\<lambda>l. undamaged l cols) [0..<lines], frame_rects = []\<rparr>"

definition frame_intersects :: "nat \<times> nat \<Rightarrow> nat \<times> nat \<Rightarrow> frame_damage \<Rightarrow> bool option" where
  "frame_intersects s e f = do {
     start_line \<leftarrow> vec_get (frame_lines f) (fst s);
     end_line \<leftarrow> vec_get (frame_lines f) (fst e);
     if frame_full f
        \<or> dmg_left start_line \<le> snd s \<and> snd s \<le> dmg_right start_line
        \<or> dmg_left end_line \<le> snd e \<and> snd e \<le> dmg_right end_line
     then Some True
     else for_each [fst s + 1..<fst e]
       (\<lambda>l b. if b then Some True else map_option is_damaged (vec_get (frame_lines f) l)) False
   }"

section \<open>The tracker\<close>

definition swap_damage :: "damage_tracker \<Rightarrow> damage_tracker" where
  "swap_damage t = t\<lparr>frame0 := frame1 t, frame1 := frame_reset (tracker_lines t) (tracker_columns t) (frame0 t)\<rparr>"

definition tracker_resize :: "nat \<Rightarrow> nat \<Rightarrow> damage_tracker \<Rightarrow> damage_tracker" where
  "tracker_resize lines cols t =
     t\<lparr>tracker_lines := lines, tracker_columns := cols,
       frame0 := frame_mark_fully_damaged (frame_reset lines cols (frame0 t)),
       frame1 := frame_reset lines cols (frame1 t)\<rparr>"

definition tracker_new :: "nat \<Rightarrow> nat \<Rightarrow> damage_tracker" where
  "tracker_new lines cols =
     (let f = \<lparr>frame_full = False, frame_lines = [], frame_rects = []\<rparr>
      in tracker_resize lines cols
           \<lparr>old_vi_cursor = None, old_selection = None, tracker_debug = False, frame0 = f, frame1 = f,
            tracker_lines = lines, tracker_columns = cols\<rparr>)"

definition on_frame :: "(frame_damage \<Rightarrow> frame_damage option) \<Rightarrow> damage_tracker \<Rightarrow> damage_tracker option" where
  "on_frame h t = do {
     f \<leftarrow> h (frame0 t);
     Some (t\<lparr>frame0 := f\<rparr>)
   }"

definition damage_vi_cursor :: "(nat \<times> nat) option \<Rightarrow> damage_tracker \<Rightarrow> damage_tracker option" where
  "damage_vi_cursor p t =
     (let prev = old_vi_cursor t; t = t\<lparr>old_vi_cursor := p\<rparr>
      in if frame_full (frame0 t) then Some t
         else do {
           t \<leftarrow> (case p of Some q \<Rightarrow> on_frame (frame_damage_point q) t | None \<Rightarrow> Some t);
           case prev of Some q \<Rightarrow> on_frame (frame_damage_point q) t | None \<Rightarrow> Some t
         })"

definition damage_range :: "nat \<Rightarrow> damage_tracker \<Rightarrow> selection_range \<Rightarrow> frame_damage \<Rightarrow> frame_damage option" where
  \<comment> \<open>the body of the loop of \<^verbatim>\<open>damage_selection\<close>\<close>
  "damage_range offset t sel f =
     (let last_visible_line = int (tracker_lines t) - 1
      in if line (range_end sel) + int offset < 0 \<or> \<bar>line (range_start sel)\<bar> < int offset - last_visible_line then Some f
         else do {
           let s = nat (max (line (range_start sel) + int offset) 0);
           ensure (0 \<le> last_visible_line);
           let e = nat (max 0 (min last_visible_line (line (range_end sel) + int offset)));
           for_each [s..<Suc e] (\<lambda>l f. do {
             right \<leftarrow> csub (tracker_columns t) 1;
             expand_line l 0 right f
           }) f
         })"

definition damage_selection :: "selection_range option \<Rightarrow> nat \<Rightarrow> damage_tracker \<Rightarrow> damage_tracker option" where
  "damage_selection sel offset t =
     (let prev = old_selection t; t = t\<lparr>old_selection := sel\<rparr>
      in if frame_full (frame0 t) \<or> prev = sel then Some t
         else for_each (case_option [] (\<lambda>s. [s]) sel @ case_option [] (\<lambda>s. [s]) prev)
           (\<lambda>s t. on_frame (damage_range offset t s) t) t)"

section \<open>Rectangles\<close>

definition rect_for_line :: "nat size_info \<Rightarrow> line_damage \<Rightarrow> rect option" where
  "rect_for_line si d = do {
     y_top \<leftarrow> csub (si_height si) (si_padding_y si);
     let x = si_padding_x si + dmg_left d * si_cell_width si;
     y \<leftarrow> csub y_top ((dmg_line d + 1) * si_cell_height si);
     w \<leftarrow> csub (dmg_right d) (dmg_left d);
     Some \<lparr>rect_x = int x, rect_y = int y, rect_width = int ((w + 1) * si_cell_width si), rect_height = int (si_cell_height si)\<rparr>
   }"

definition overdamage :: "nat size_info \<Rightarrow> rect \<Rightarrow> rect" where
  "overdamage si r =
     (let x = max (rect_x r - int (si_cell_width si)) 0;
          w = min (max (int (si_width si) - x) 0) (rect_width r + 2 * int (si_cell_width si));
          y = max (rect_y r - int (si_cell_height si) div 2) 0;
          h = min (max (int (si_height si) - y) 0) (rect_height r + int (si_cell_height si))
      in \<lparr>rect_x = x, rect_y = y, rect_width = w, rect_height = h\<rparr>)"

definition rects_overlap :: "rect \<Rightarrow> rect \<Rightarrow> bool" where
  "rects_overlap a b \<longleftrightarrow>
     \<not> (rect_x a + rect_width a < rect_x b \<or> rect_x b + rect_width b < rect_x a
        \<or> rect_y a + rect_height a < rect_y b \<or> rect_y b + rect_height b < rect_y a)"

definition merge_rects :: "rect \<Rightarrow> rect \<Rightarrow> rect" where
  "merge_rects a b =
     (let left_x = min (rect_x a) (rect_x b);
          right_x = max (rect_x a + rect_width a) (rect_x b + rect_width b);
          y_top = max (rect_y a + rect_height a) (rect_y b + rect_height b);
          y_bottom = min (rect_y a) (rect_y b)
      in \<lparr>rect_x = left_x, rect_y = y_bottom, rect_width = right_x - left_x, rect_height = y_top - y_bottom\<rparr>)"

fun merge_following :: "nat size_info \<Rightarrow> rect \<Rightarrow> line_damage list \<Rightarrow> (rect \<times> line_damage list) option" where
  \<comment> \<open>the loop that peeks at the next damaged line\<close>
  "merge_following si r [] = Some (r, [])"
| "merge_following si r (d # ds) = do {
     q \<leftarrow> rect_for_line si d;
     let q = overdamage si q;
     if \<not> rects_overlap r q then Some (r, d # ds) else merge_following si (merge_rects r q) ds
   }"

lemma merge_following_shorter: "merge_following si r ds = Some (q, es) \<Longrightarrow> length es \<le> length ds"
  by (induction ds arbitrary: r) (auto simp: Let_def intro: le_SucI split: Option.bind_splits if_splits)

lemma damage_iter_shorter: "damage_iter_next ls offset = Some (d, rest) \<Longrightarrow> length rest < length ls"
  by (induction ls) (auto split: if_splits)

function damaged_lines :: "line_damage list \<Rightarrow> line_damage list" where
  \<comment> \<open>the items of \<^verbatim>\<open>TermDamageIterator::new(lines, 0)\<close>\<close>
  "damaged_lines ls = (case damage_iter_next ls 0 of None \<Rightarrow> [] | Some (d, rest) \<Rightarrow> d # damaged_lines rest)"
  by pat_completeness auto
termination
  by (relation "measure length") (auto dest: damage_iter_shorter)

declare damaged_lines.simps [simp del]

function damage_rects :: "nat size_info \<Rightarrow> line_damage list \<Rightarrow> rect list option" where
  \<comment> \<open>the items of \<^verbatim>\<open>RenderDamageIterator\<close>\<close>
  "damage_rects si [] = Some []"
| "damage_rects si (d # ds) = do {
     r \<leftarrow> rect_for_line si d;
     (r, rest) \<leftarrow> merge_following si (overdamage si r) ds;
     rs \<leftarrow> damage_rects si rest;
     Some (r # rs)
   }"
  by pat_completeness auto
termination
  by (relation "measure (\<lambda>(_, ds). length ds)") (auto dest: merge_following_shorter)

definition shape_frame_damage :: "nat size_info \<Rightarrow> damage_tracker \<Rightarrow> rect list option" where
  "shape_frame_damage si t =
     (if frame_full (frame0 t)
      then Some [\<lparr>rect_x = 0, rect_y = 0, rect_width = int (si_width si), rect_height = int (si_height si)\<rparr>]
      else do {
        rs \<leftarrow> damage_rects si (damaged_lines (frame_lines (frame0 t)));
        Some (rs @ frame_rects (frame0 t))
      })"

section \<open>The rectangles cover the damage\<close>

definition pixel_in :: "rect \<Rightarrow> int \<Rightarrow> int \<Rightarrow> bool" where
  "pixel_in r px py \<longleftrightarrow> rect_x r \<le> px \<and> px < rect_x r + rect_width r \<and> rect_y r \<le> py \<and> py < rect_y r + rect_height r"

definition in_window :: "nat size_info \<Rightarrow> int \<Rightarrow> int \<Rightarrow> bool" where
  "in_window si px py \<longleftrightarrow> 0 \<le> px \<and> px < int (si_width si) \<and> 0 \<le> py \<and> py < int (si_height si)"

lemma damaged_lines_filter: "damaged_lines ls = filter is_damaged ls"
proof (induction ls)
  case Nil
  then show ?case by (simp add: damaged_lines.simps)
next
  case (Cons d ls)
  then show ?case by (subst damaged_lines.simps) (auto simp: damaged_lines.simps [of ls])
qed

lemma overdamage_covers: "pixel_in r px py \<Longrightarrow> in_window si px py \<Longrightarrow> pixel_in (overdamage si r) px py"
  by (auto simp: pixel_in_def in_window_def overdamage_def Let_def)

lemma merge_covers: "pixel_in a px py \<or> pixel_in b px py \<Longrightarrow> pixel_in (merge_rects a b) px py"
  by (auto simp: pixel_in_def merge_rects_def Let_def)

lemma rect_for_line_ok:
  assumes "(dmg_line d + 1) * si_cell_height si + si_padding_y si \<le> si_height si" "is_damaged d"
  shows "ok (rect_for_line si d) (\<lambda>r. True)"
  using assms by (simp add: rect_for_line_def is_damaged_def)

lemma merge_following_ok:
  assumes "\<forall>d \<in> set ds. (dmg_line d + 1) * si_cell_height si + si_padding_y si \<le> si_height si \<and> is_damaged d"
  shows "ok (merge_following si r ds) (\<lambda>(q, es). \<exists>merged. ds = merged @ es
    \<and> (\<forall>px py. pixel_in r px py \<longrightarrow> pixel_in q px py)
    \<and> (\<forall>d \<in> set merged. \<forall>p px py. rect_for_line si d = Some p \<and> pixel_in p px py \<and> in_window si px py \<longrightarrow> pixel_in q px py))"
  using assms
proof (induction ds arbitrary: r)
  case (Cons d ds)
  obtain p where p: "rect_for_line si d = Some p" using rect_for_line_ok [of d si] Cons.prems by (auto elim: okE)
  show ?case
  proof (cases "rects_overlap r (overdamage si p)")
    case True
    obtain q es where q: "merge_following si (merge_rects r (overdamage si p)) ds = Some (q, es)"
      and m: "\<exists>merged. ds = merged @ es
        \<and> (\<forall>px py. pixel_in (merge_rects r (overdamage si p)) px py \<longrightarrow> pixel_in q px py)
        \<and> (\<forall>d \<in> set merged. \<forall>p px py. rect_for_line si d = Some p \<and> pixel_in p px py \<and> in_window si px py \<longrightarrow> pixel_in q px py)"
      using Cons.IH [of "merge_rects r (overdamage si p)"] Cons.prems by (auto elim!: okE)
    then obtain merged where m: "ds = merged @ es" "\<And>px py. pixel_in (merge_rects r (overdamage si p)) px py \<Longrightarrow> pixel_in q px py"
        "\<forall>d \<in> set merged. \<forall>p px py. rect_for_line si d = Some p \<and> pixel_in p px py \<and> in_window si px py \<longrightarrow> pixel_in q px py"
      by blast
    have "merge_following si r (d # ds) = Some (q, es)" using p q True by simp
    moreover have "\<exists>merged'. d # ds = merged' @ es \<and> (\<forall>px py. pixel_in r px py \<longrightarrow> pixel_in q px py)
      \<and> (\<forall>d \<in> set merged'. \<forall>p px py. rect_for_line si d = Some p \<and> pixel_in p px py \<and> in_window si px py \<longrightarrow> pixel_in q px py)"
      using m p merge_covers overdamage_covers by (intro exI [of _ "d # merged"]) auto
    ultimately show ?thesis by simp
  next
    case False
    then show ?thesis using p by (auto intro!: exI [of _ "[]"])
  qed
qed simp

lemma damage_rects_ok:
  assumes "\<forall>d \<in> set ds. (dmg_line d + 1) * si_cell_height si + si_padding_y si \<le> si_height si \<and> is_damaged d"
  shows "ok (damage_rects si ds) (\<lambda>rs. \<forall>d \<in> set ds. \<forall>p px py.
    rect_for_line si d = Some p \<and> pixel_in p px py \<and> in_window si px py \<longrightarrow> (\<exists>r \<in> set rs. pixel_in r px py))"
  using assms
proof (induction "length ds" arbitrary: ds rule: less_induct)
  case less
  show ?case
  proof (cases ds)
    case (Cons d ds')
    obtain p where p: "rect_for_line si d = Some p" using rect_for_line_ok [of d si] less.prems Cons by (auto elim: okE)
    obtain q es merged where q: "merge_following si (overdamage si p) ds' = Some (q, es)" "ds' = merged @ es"
        "\<And>px py. pixel_in (overdamage si p) px py \<Longrightarrow> pixel_in q px py"
        "\<forall>d \<in> set merged. \<forall>p px py. rect_for_line si d = Some p \<and> pixel_in p px py \<and> in_window si px py \<longrightarrow> pixel_in q px py"
      using merge_following_ok [of ds' si "overdamage si p"] less.prems Cons by (fastforce elim!: okE)
    have "ok (damage_rects si es) (\<lambda>rs. \<forall>d \<in> set es. \<forall>p px py.
        rect_for_line si d = Some p \<and> pixel_in p px py \<and> in_window si px py \<longrightarrow> (\<exists>r \<in> set rs. pixel_in r px py))"
      using less.prems Cons q(2) by (intro less.hyps) auto
    then obtain rs where rs: "damage_rects si es = Some rs" "\<forall>d \<in> set es. \<forall>p px py.
        rect_for_line si d = Some p \<and> pixel_in p px py \<and> in_window si px py \<longrightarrow> (\<exists>r \<in> set rs. pixel_in r px py)"
      by (auto elim: okE)
    have "damage_rects si ds = Some (q # rs)" using Cons p q(1) rs(1) by simp
    moreover have "\<exists>r \<in> set (q # rs). pixel_in r px py"
      if e: "e \<in> set ds" "rect_for_line si e = Some z" "pixel_in z px py" "in_window si px py" for e z px py
    proof -
      consider "e = d" | "e \<in> set merged" | "e \<in> set es" using e(1) Cons q(2) by auto
      then show ?thesis
      proof cases
        case 1
        then show ?thesis using e p q(3) overdamage_covers by auto
      qed (use e q(4) rs(2) in auto)
    qed
    ultimately show ?thesis by auto
  qed simp
qed

text \<open>What the tracker keeps: a line of damage for every line of the viewport.\<close>

definition frame_ok :: "nat \<Rightarrow> frame_damage \<Rightarrow> bool" where
  "frame_ok n f \<longleftrightarrow> length (frame_lines f) = n \<and> (\<forall>i < n. dmg_line (frame_lines f ! i) = i)"

definition tracker_ok :: "damage_tracker \<Rightarrow> bool" where
  "tracker_ok t \<longleftrightarrow> frame_ok (tracker_lines t) (frame0 t) \<and> frame_ok (tracker_lines t) (frame1 t)"

lemma frame_reset_ok [simp]: "frame_ok n (frame_reset n cols f)"
  by (simp add: frame_ok_def frame_reset_def undamaged_def)

lemma expand_line_ok:
  assumes "frame_ok n f" "l < n"
  shows "ok (expand_line l a b f) (\<lambda>g. frame_ok n g \<and> g = f\<lparr>frame_lines := (frame_lines f)[l := damage_expand a b (frame_lines f ! l)]\<rparr>)"
  using assms by (auto simp: expand_line_def frame_ok_def damage_expand_def nth_list_update)

lemma tracker_steps:
  "tracker_ok (tracker_new n cols)" "tracker_ok (tracker_resize n cols t)" "tracker_ok t \<Longrightarrow> tracker_ok (swap_damage t)"
  by (auto simp: tracker_ok_def tracker_new_def tracker_resize_def swap_damage_def frame_mark_fully_damaged_def Let_def frame_ok_def
      frame_reset_def undamaged_def)

lemma cell_in_window:
  assumes "n * si_cell_height si + si_padding_y si \<le> si_height si" "l < n"
    and "int (si_padding_x si + c * si_cell_width si) \<le> px" "px < int (si_width si)"
    and "int (si_height si - si_padding_y si) - int ((l + 1) * si_cell_height si) \<le> py"
    and "py < int (si_height si - si_padding_y si) - int (l * si_cell_height si)"
  shows "in_window si px py" "(l + 1) * si_cell_height si \<le> si_height si - si_padding_y si"
proof -
  have "(l + 1) * si_cell_height si \<le> n * si_cell_height si" using assms(2) by (intro mult_right_mono) auto
  then show top: "(l + 1) * si_cell_height si \<le> si_height si - si_padding_y si" using assms(1) by linarith
  have "int ((l + 1) * si_cell_height si) \<le> int (si_height si - si_padding_y si)" using top by (simp only: of_nat_le_iff)
  moreover have "int (si_height si - si_padding_y si) \<le> int (si_height si)" "0 \<le> int (l * si_cell_height si)"
    "0 \<le> int (si_padding_x si + c * si_cell_width si)" by (simp_all only: of_nat_le_iff of_nat_0_le_iff diff_le_self)
  ultimately show "in_window si px py" unfolding in_window_def using assms(3-6) by (intro conjI) linarith+
qed


definition demo_size_info :: "nat size_info" where
  "demo_size_info =
     \<lparr>si_width = 8, si_height = 6, si_cell_width = 2, si_cell_height = 3, si_padding_x = 0, si_padding_y = 0,
      si_screen_lines = 2, si_columns = 4\<rparr>"

definition demo_tracker :: damage_tracker where
  \<comment> \<open>a cell of the second line is damaged\<close>
  "demo_tracker = the (on_frame (frame_damage_point (1, 2)) (swap_damage (tracker_new 2 4)))"

lemma demo_tracker_ok:
  "tracker_ok demo_tracker" "tracker_lines demo_tracker = 2" "tracker_columns demo_tracker = 4" "\<not> frame_full (frame0 demo_tracker)"
  "old_selection demo_tracker = None" "frame_lines (frame0 demo_tracker) ! 1 = \<lparr>dmg_line = 1, dmg_left = 2, dmg_right = 2\<rparr>"
  by code_simp+


definition touches :: "nat \<Rightarrow> selection_range \<Rightarrow> nat \<Rightarrow> bool" where
  \<comment> \<open>the line of the viewport shows a line of the range\<close>
  "touches offset sel i \<longleftrightarrow> line (range_start sel) + int offset \<le> int i \<and> int i \<le> line (range_end sel) + int offset"

lemma expand_lines_ok:
  assumes "frame_ok n f" "b \<le> n"
  shows "ok (for_each [a..<b] (\<lambda>l. expand_line l 0 right) f)
    (\<lambda>g. frame_ok n g \<and> frame_full g = frame_full f \<and> (\<forall>i < n. frame_lines g ! i =
      (if a \<le> i \<and> i < b then damage_expand 0 right (frame_lines f ! i) else frame_lines f ! i)))"
proof (rule ok_mono [OF ok_for_each [where I = "\<lambda>ys g. frame_ok n g \<and> frame_full g = frame_full f \<and> (\<forall>i < n. frame_lines g ! i =
      (if i \<in> set ys then damage_expand 0 right (frame_lines f ! i) else frame_lines f ! i))"]])
  fix ys l zs g
  assume s: "[a..<b] = ys @ l # zs" and g: "frame_ok n g \<and> frame_full g = frame_full f \<and> (\<forall>i < n. frame_lines g ! i =
      (if i \<in> set ys then damage_expand 0 right (frame_lines f ! i) else frame_lines f ! i))"
  have "l < b" "l \<notin> set ys" using arg_cong [OF s, of set] arg_cong [OF s, of distinct] by auto
  then show "ok (expand_line l 0 right g) (\<lambda>g. frame_ok n g \<and> frame_full g = frame_full f \<and> (\<forall>i < n. frame_lines g ! i =
      (if i \<in> set (ys @ [l]) then damage_expand 0 right (frame_lines f ! i) else frame_lines f ! i)))"
    using g assms(2) by (intro ok_mono [OF expand_line_ok [of n g l]]) (auto simp: nth_list_update frame_ok_def)
qed (use assms in auto)

lemma damage_range_ok:
  assumes "frame_ok n f" "n = tracker_lines t" "0 < n" "0 < tracker_columns t"
  shows "ok (damage_range offset t sel f) (\<lambda>g. frame_ok n g \<and> frame_full g = frame_full f \<and> (\<forall>i < n. frame_lines g ! i =
    (if touches offset sel i then damage_expand 0 (tracker_columns t - 1) (frame_lines f ! i) else frame_lines f ! i)))"
proof -
  let ?s = "line (range_start sel) + int offset" and ?e = "line (range_end sel) + int offset" and ?m = "int n - 1"
  show ?thesis
  proof (cases "?e < 0 \<or> \<bar>line (range_start sel)\<bar> < int offset - ?m")
    case True
    then have "\<not> touches offset sel i" if "i < n" for i using that by (auto simp: touches_def)
    then show ?thesis using True assms(1,2) by (simp add: damage_range_def Let_def)
  next
    case False
    let ?a = "nat (max ?s 0)" and ?b = "Suc (nat (max 0 (min ?m ?e)))"
    have b: "?b \<le> n" using assms(3) by auto
    have "?a \<le> i \<and> i < ?b \<longleftrightarrow> touches offset sel i" if "i < n" for i
      using that False assms(3) by (auto simp: touches_def)
    then have "ok (for_each [?a..<?b] (\<lambda>l. expand_line l 0 (tracker_columns t - 1)) f) (\<lambda>g. frame_ok n g \<and> frame_full g = frame_full f
      \<and> (\<forall>i < n. frame_lines g ! i =
        (if touches offset sel i then damage_expand 0 (tracker_columns t - 1) (frame_lines f ! i) else frame_lines f ! i)))"
      using ok_mono [OF expand_lines_ok [OF assms(1) b, of ?a "tracker_columns t - 1"]] by simp
    moreover have "damage_range offset t sel f = for_each [?a..<?b] (\<lambda>l. expand_line l 0 (tracker_columns t - 1)) f"
      using False assms(2-4) by (simp add: damage_range_def Let_def csub_def ensure_def del: upt_Suc)
    ultimately show ?thesis by simp
  qed
qed

lemma expand_twice: "damage_expand 0 r (damage_expand 0 r d) = damage_expand 0 r d"
  by (simp add: damage_expand_def)

text \<open>
  A change of the selection damages the lines of the viewport that the old or the new selection
  touches, each over its whole width, and no other line.
\<close>

theorem selection_damage_lines:
  assumes "tracker_ok t" "0 < tracker_lines t" "0 < tracker_columns t" "\<not> frame_full (frame0 t)" "old_selection t \<noteq> sel"
  shows "\<exists>u. damage_selection sel offset t = Some u \<and> old_selection u = sel \<and> tracker_ok u
    \<and> (\<forall>i < tracker_lines t. frame_lines (frame0 u) ! i =
        (if \<exists>s \<in> set_option sel \<union> set_option (old_selection t). touches offset s i
         then damage_expand 0 (tracker_columns t - 1) (frame_lines (frame0 t) ! i) else frame_lines (frame0 t) ! i))"
proof -
  let ?n = "tracker_lines t" and ?t = "t\<lparr>old_selection := sel\<rparr>"
  let ?sels = "case_option [] (\<lambda>s. [s]) sel @ case_option [] (\<lambda>s. [s]) (old_selection t)"
  let ?I = "\<lambda>ys u. (\<exists>f. u = ?t\<lparr>frame0 := f\<rparr> \<and> frame_ok ?n f \<and> (\<forall>i < ?n. frame_lines f ! i =
      (if \<exists>s \<in> set ys. touches offset s i then damage_expand 0 (tracker_columns t - 1) (frame_lines (frame0 t) ! i)
       else frame_lines (frame0 t) ! i)))"
  have "ok (for_each ?sels (\<lambda>s t. on_frame (damage_range offset t s) t) ?t) (?I ?sels)"
  proof (rule ok_for_each)
    show "?I [] ?t" using assms(1) by (auto simp: tracker_ok_def intro!: exI [of _ "frame0 t"])
  next
    fix ys s zs u
    assume "?I ys u"
    then obtain f where f: "u = ?t\<lparr>frame0 := f\<rparr>" "frame_ok ?n f" "\<forall>i < ?n. frame_lines f ! i =
        (if \<exists>s \<in> set ys. touches offset s i then damage_expand 0 (tracker_columns t - 1) (frame_lines (frame0 t) ! i)
         else frame_lines (frame0 t) ! i)" by blast
    obtain g where g: "damage_range offset u s f = Some g" "frame_ok ?n g" "\<forall>i < ?n. frame_lines g ! i =
        (if touches offset s i then damage_expand 0 (tracker_columns t - 1) (frame_lines f ! i) else frame_lines f ! i)"
    proof -
      have "tracker_lines u = ?n" "tracker_columns u = tracker_columns t" using f(1) by simp_all
      then show ?thesis using that damage_range_ok [OF f(2), of u offset s] assms(2,3) by (auto elim: okE)
    qed
    have "\<forall>i < ?n. frame_lines g ! i =
        (if \<exists>s \<in> set (ys @ [s]). touches offset s i then damage_expand 0 (tracker_columns t - 1) (frame_lines (frame0 t) ! i)
         else frame_lines (frame0 t) ! i)"
      using f(3) g(3) by (auto simp: expand_twice)
    then show "ok (on_frame (damage_range offset u s) u) (?I (ys @ [s]))"
      using f(1) g(1,2) by (auto simp: on_frame_def intro!: exI [of _ g])
  qed
  moreover have "set ?sels = set_option sel \<union> set_option (old_selection t)" by (auto split: option.splits)
  ultimately obtain f where "damage_selection sel offset t = Some (?t\<lparr>frame0 := f\<rparr>)" "frame_ok ?n f"
      "\<forall>i < ?n. frame_lines f ! i = (if \<exists>s \<in> set_option sel \<union> set_option (old_selection t). touches offset s i
         then damage_expand 0 (tracker_columns t - 1) (frame_lines (frame0 t) ! i) else frame_lines (frame0 t) ! i)"
    using assms(4,5) by (auto simp: damage_selection_def Let_def elim!: okE)
  then show ?thesis using assms(1) by (auto simp: tracker_ok_def)
qed

theorem selection_damage_lines_witness:
  "\<exists>u. damage_selection (Some \<lparr>range_start = Point (- 1) 1, range_end = Point (- 1) 2, is_block = False\<rparr>) 2 demo_tracker = Some u
    \<and> tracker_ok u"
proof -
  have "0 < tracker_lines demo_tracker" "0 < tracker_columns demo_tracker" "old_selection demo_tracker \<noteq> Some \<lparr>range_start = Point (- 1) 1, range_end = Point (- 1) 2, is_block = False\<rparr>"
    by (simp_all add: demo_tracker_ok)
  from selection_damage_lines [OF demo_tracker_ok(1) this(1,2) demo_tracker_ok(4) this(3), of 2] show ?thesis by blast
qed

text \<open>
  \<^verbatim>\<open>FrameDamage::intersects\<close> overlooks damage inside a range. It looks only at the two end points on the first
  and the last line of the range, so damage between them is not seen, and a highlighted hint whose
  text has changed is not cleared.
\<close>

theorem intersects_overlooks:
  assumes "frame_ok n f" "l < n" "\<not> frame_full f"
    and "a < dmg_left (frame_lines f ! l)" "is_damaged (frame_lines f ! l)" "dmg_right (frame_lines f ! l) < b"
  shows "frame_intersects (l, a) (l, b) f = Some False"
  using assms by (simp add: frame_intersects_def frame_ok_def vec_get_def)

theorem intersects_overlooks_witness: "frame_intersects (1, 0) (1, 3) (frame0 demo_tracker) = Some False"
  by (rule intersects_overlooks [where n = 2]) (use demo_tracker_ok demo_tracker_ok(6) [unfolded One_nat_def] in \<open>simp_all add: tracker_ok_def is_damaged_def\<close>)

end
