(* ===== verification/Scheduler.thy ===== *)
theory Scheduler
  imports Prelude "HOL-Library.Multiset"
begin

text \<open>
  The timers of the application (\<^verbatim>\<open>alacritty/src/scheduler.rs\<close>). Instants and durations are \<open>nat\<close>; every
  call of \<^verbatim>\<open>Instant::now()\<close> is an argument, and the calls inside the loop of \<^verbatim>\<open>update\<close> are the readings of a
  clock. The event proxy of the window system is the list of the events that were sent. Events and window
  identifiers are type parameters.
\<close>

datatype topic = SelectionScrolling | DelayedSearch | BlinkCursor | BlinkTimeout | Frame

record 'w timer_id =
  id_topic :: topic
  id_window :: 'w

record ('e, 'w) timer =
  deadline :: nat
  timer_event :: 'e
  id_of :: "'w timer_id"
  timer_interval :: "nat option"

record ('e, 'w) scheduler =
  timers :: "('e, 'w) timer list"
  sent :: "'e list"

fun position :: "('a \<Rightarrow> bool) \<Rightarrow> 'a list \<Rightarrow> nat option" where
  "position P [] = None"
| "position P (x # xs) = (if P x then Some 0 else map_option Suc (position P xs))"

definition schedule ::
  "nat \<Rightarrow> 'e \<Rightarrow> nat \<Rightarrow> bool \<Rightarrow> 'w timer_id \<Rightarrow> ('e, 'w) scheduler \<Rightarrow> ('e, 'w) scheduler" where
  "schedule now event interval repeat tid s =
     (let d = now + interval;
          index = (case position (\<lambda>t. deadline t > d) (timers s) of Some i \<Rightarrow> i | None \<Rightarrow> length (timers s));
          t = \<lparr>deadline = d, timer_event = event, id_of = tid, timer_interval = (if repeat then Some interval else None)\<rparr>
      in s\<lparr>timers := take index (timers s) @ t # drop index (timers s)\<rparr>)"

definition unschedule :: "'w timer_id \<Rightarrow> ('e, 'w) scheduler \<Rightarrow> ('e, 'w) timer option \<times> ('e, 'w) scheduler" where
  "unschedule tid s =
     (case position (\<lambda>t. id_of t = tid) (timers s) of
        None \<Rightarrow> (None, s)
      | Some i \<Rightarrow> (Some (timers s ! i), s\<lparr>timers := take i (timers s) @ drop (Suc i) (timers s)\<rparr>))"

definition scheduled :: "'w timer_id \<Rightarrow> ('e, 'w) scheduler \<Rightarrow> bool" where
  "scheduled tid s \<longleftrightarrow> list_ex (\<lambda>t. id_of t = tid) (timers s)"

definition unschedule_window :: "'w \<Rightarrow> ('e, 'w) scheduler \<Rightarrow> ('e, 'w) scheduler" where
  "unschedule_window w s = s\<lparr>timers := filter (\<lambda>t. id_window (id_of t) \<noteq> w) (timers s)\<rparr>"

definition fire :: "nat \<Rightarrow> ('e, 'w) timer \<Rightarrow> ('e, 'w) scheduler \<Rightarrow> ('e, 'w) scheduler" where
  \<comment> \<open>the body of the loop, for a timer that was taken from the front; \<open>r\<close> is a reading of the clock\<close>
  "fire r t s =
     (let s = (case timer_interval t of
                 Some interval \<Rightarrow> schedule r (timer_event t) interval True (id_of t) s
               | None \<Rightarrow> s)
      in s\<lparr>sent := sent s @ [timer_event t]\<rparr>)"

partial_function (option) run_due ::
  "nat \<Rightarrow> (nat \<Rightarrow> nat) \<Rightarrow> ('e, 'w) scheduler \<Rightarrow> ('e, 'w) scheduler option" where
  "run_due now clock s =
     (case timers s of
        [] \<Rightarrow> Some s
      | t # ts \<Rightarrow>
          if deadline t \<le> now
          then run_due now (\<lambda>k. clock (Suc k)) (fire (clock 0) t (s\<lparr>timers := ts\<rparr>))
          else Some s)"

definition update :: "nat \<Rightarrow> (nat \<Rightarrow> nat) \<Rightarrow> ('e, 'w) scheduler \<Rightarrow> (nat option \<times> ('e, 'w) scheduler) option" where
  \<comment> \<open>returns the closest pending deadline\<close>
  "update now clock s = do {
     s \<leftarrow> run_due now clock s;
     Some (case timers s of [] \<Rightarrow> None | t # _ \<Rightarrow> Some (deadline t), s)
   }"

section \<open>The order of the timers\<close>

definition in_order :: "('e, 'w) scheduler \<Rightarrow> bool" where
  "in_order s \<longleftrightarrow> sorted (map deadline (timers s))"

lemma position_takeWhile:
  "(case position P xs of Some i \<Rightarrow> i | None \<Rightarrow> length xs) = length (takeWhile (\<lambda>x. \<not> P x) xs)"
  by (induction xs) (auto split: option.splits)

lemma schedule_timers:
  "timers (schedule now e interval repeat tid s) =
     takeWhile (\<lambda>t. deadline t \<le> now + interval) (timers s)
     @ \<lparr>deadline = now + interval, timer_event = e, id_of = tid, timer_interval = (if repeat then Some interval else None)\<rparr>
       # dropWhile (\<lambda>t. deadline t \<le> now + interval) (timers s)"
  by (simp add: schedule_def Let_def position_takeWhile not_less takeWhile_eq_take [symmetric] dropWhile_eq_drop [symmetric])

lemma schedule_sent [simp]: "sent (schedule now e interval repeat tid s) = sent s"
  by (simp add: schedule_def Let_def)

lemma dropWhile_later:
  "sorted (map f xs) \<Longrightarrow> x \<in> set (dropWhile (\<lambda>x. f x \<le> (d :: nat)) xs) \<Longrightarrow> d < f x"
  by (induction xs) (auto split: if_splits)

lemma sorted_insert_split:
  assumes "sorted (map f xs)" "f y = (d :: nat)"
  shows "sorted (map f (takeWhile (\<lambda>x. f x \<le> d) xs @ y # dropWhile (\<lambda>x. f x \<le> d) xs))"
proof -
  let ?A = "takeWhile (\<lambda>x. f x \<le> d) xs" and ?B = "dropWhile (\<lambda>x. f x \<le> d) xs"
  have "sorted (map f (?A @ ?B))" using assms(1) by simp
  then have "sorted (map f ?A)" "sorted (map f ?B)" by (simp_all only: map_append sorted_append)
  moreover have "\<forall>x \<in> set ?A. f x \<le> d" by (auto dest: set_takeWhileD)
  moreover have "\<forall>x \<in> set ?B. d < f x" using dropWhile_later [OF assms(1)] by blast
  ultimately show ?thesis using assms(2) by (fastforce simp: sorted_append)
qed

lemma position_Some: "position P xs = Some i \<Longrightarrow> i < length xs \<and> P (xs ! i) \<and> (\<forall>j<i. \<not> P (xs ! j))"
  by (induction xs arbitrary: i) (auto split: if_splits simp: nth_Cons split: nat.splits)

lemma schedule_in_order: "in_order s \<Longrightarrow> in_order (schedule now e interval repeat tid s)"
  unfolding in_order_def schedule_timers by (rule sorted_insert_split) simp_all

lemma unschedule_in_order:
  assumes "in_order s"
  shows "in_order (snd (unschedule tid s))"
proof (cases "position (\<lambda>t. id_of t = tid) (timers s)")
  case (Some i)
  then have "timers s = take i (timers s) @ timers s ! i # drop (Suc i) (timers s)"
    using position_Some id_take_nth_drop by blast
  then have "sorted (map deadline (take i (timers s) @ timers s ! i # drop (Suc i) (timers s)))"
    using assms unfolding in_order_def by metis
  then show ?thesis using Some by (simp add: unschedule_def in_order_def sorted_append)
qed (use assms in \<open>simp add: unschedule_def\<close>)

lemma unschedule_window_in_order: "in_order s \<Longrightarrow> in_order (unschedule_window w s)"
  by (simp add: in_order_def unschedule_window_def sorted_filter)

section \<open>Running the timers that are due\<close>

text \<open>The timer that a repeating timer leaves behind when it is run at a reading of the clock.\<close>

definition renewed :: "nat \<Rightarrow> ('e, 'w) timer \<Rightarrow> ('e, 'w) timer list" where
  "renewed r t = (case timer_interval t of None \<Rightarrow> [] | Some i \<Rightarrow> [t\<lparr>deadline := r + i\<rparr>])"

definition repeats_later :: "('e, 'w) timer \<Rightarrow> bool" where
  "repeats_later t \<longleftrightarrow> timer_interval t \<noteq> Some 0"

lemma fire_timers:
  assumes "timers s = due @ later" "\<forall>x \<in> set due. deadline x \<le> now" "\<forall>x \<in> set later. now < deadline x"
    and "sorted (map deadline later)" "now \<le> r" "repeats_later t"
  shows "\<exists>later'. timers (fire r t s) = due @ later' \<and> (\<forall>x \<in> set later'. now < deadline x)
    \<and> sorted (map deadline later') \<and> mset later' = mset later + mset (renewed r t)
    \<and> sent (fire r t s) = sent s @ [timer_event t]"
proof (cases "timer_interval t")
  case None
  then show ?thesis using assms by (simp add: fire_def renewed_def)
next
  case (Some i)
  let ?d = "r + i" and ?t = "t\<lparr>deadline := r + i\<rparr>"
  let ?l = "takeWhile (\<lambda>t. deadline t \<le> ?d) later @ ?t # dropWhile (\<lambda>t. deadline t \<le> ?d) later"
  have late: "now < ?d" using assms(5,6) Some by (cases i) (auto simp: repeats_later_def)
  then have "\<forall>x \<in> set due. deadline x \<le> ?d" using assms(2) by auto
  moreover have "?t = \<lparr>deadline = ?d, timer_event = timer_event t, id_of = id_of t, timer_interval = Some i\<rparr>"
    using Some by (cases t) simp
  ultimately have "timers (fire r t s) = due @ ?l"
    using assms(1) Some by (simp add: fire_def schedule_timers takeWhile_append dropWhile_append)
  moreover have "sorted (map deadline ?l)" by (rule sorted_insert_split [OF assms(4)]) simp
  moreover have "mset ?l = mset later + mset (renewed r t)"
  proof -
    have "mset later = mset (takeWhile (\<lambda>t. deadline t \<le> ?d) later) + mset (dropWhile (\<lambda>t. deadline t \<le> ?d) later)"
      by (metis mset_append takeWhile_dropWhile_id)
    then show ?thesis using Some by (simp add: renewed_def)
  qed
  moreover have "\<forall>x \<in> set ?l. now < deadline x"
    using assms(3) late by (auto dest: set_takeWhileD set_dropWhileD)
  ultimately show ?thesis using Some by (intro exI [of _ ?l]) (simp add: fire_def)
qed

lemma run_due_ok:
  assumes "timers s = due @ later" "\<forall>x \<in> set due. deadline x \<le> now" "\<forall>x \<in> set later. now < deadline x"
    and "sorted (map deadline later)" "\<forall>k. now \<le> clock k" "\<forall>x \<in> set due. repeats_later x"
  shows "ok (run_due now clock s) (\<lambda>u. sent u = sent s @ map timer_event due \<and> in_order u
    \<and> (\<forall>x \<in> set (timers u). now < deadline x)
    \<and> mset (timers u) = mset later + mset (concat (map (\<lambda>k. renewed (clock k) (due ! k)) [0..<length due])))"
  using assms
proof (induction due arbitrary: s later clock)
  case Nil
  then show ?case by (subst run_due.simps) (auto simp: in_order_def split: list.split)
next
  case (Cons t due)
  let ?s = "s\<lparr>timers := due @ later\<rparr>"
  obtain later' where l: "timers (fire (clock 0) t ?s) = due @ later'" "\<forall>x \<in> set later'. now < deadline x"
      "sorted (map deadline later')" "mset later' = mset later + mset (renewed (clock 0) t)"
      "sent (fire (clock 0) t ?s) = sent s @ [timer_event t]"
    using fire_timers [of ?s due later now "clock 0" t] Cons.prems by auto
  have "ok (run_due now (\<lambda>k. clock (Suc k)) (fire (clock 0) t ?s)) (\<lambda>u. sent u = sent (fire (clock 0) t ?s) @ map timer_event due
      \<and> in_order u \<and> (\<forall>x \<in> set (timers u). now < deadline x)
      \<and> mset (timers u) = mset later' + mset (concat (map (\<lambda>k. renewed (clock (Suc k)) (due ! k)) [0..<length due])))"
    using Cons.prems l by (intro Cons.IH) auto
  moreover have "concat (map (\<lambda>k. renewed (clock k) ((t # due) ! k)) [0..<length (t # due)]) =
      renewed (clock 0) t @ concat (map (\<lambda>k. renewed (clock (Suc k)) (due ! k)) [0..<length due])"
    by (simp add: upt_conv_Cons map_Suc_upt [symmetric] comp_def del: upt_Suc)
  ultimately show ?case using Cons.prems l by (subst run_due.simps) (auto elim!: ok_mono)
qed

text \<open>
  C17 (liveness): \<^verbatim>\<open>Scheduler::update\<close> returns, has then sent the event of every timer whose deadline has
  passed, once and in the order of the deadlines, and returns the closest deadline of the others. The timers
  that remain are in order and lie in the future: the ones that were not due, and a new one for each
  repeating timer. The clock must not run backwards, and no timer may repeat without a delay.
\<close>

theorem update_runs_due:
  assumes "in_order s" "\<forall>k. now \<le> clock k" "\<forall>x \<in> set (timers s). repeats_later x"
    and "due = takeWhile (\<lambda>x. deadline x \<le> now) (timers s)"
  shows "\<exists>u n. update now clock s = Some (n, u) \<and> sent u = sent s @ map timer_event due \<and> in_order u
    \<and> (\<forall>x \<in> set (timers u). now < deadline x) \<and> set due = {x \<in> set (timers s). deadline x \<le> now}
    \<and> mset (timers u) = mset (dropWhile (\<lambda>x. deadline x \<le> now) (timers s))
        + mset (concat (map (\<lambda>k. renewed (clock k) (due ! k)) [0..<length due]))
    \<and> (case n of None \<Rightarrow> timers u = [] | Some d \<Rightarrow> d \<in> deadline ` set (timers u) \<and> (\<forall>x \<in> set (timers u). d \<le> deadline x))"
proof -
  let ?later = "dropWhile (\<lambda>x. deadline x \<le> now) (timers s)"
  have split: "timers s = due @ ?later" by (simp add: assms(4))
  have sorted: "sorted (map deadline (due @ ?later))" using assms(1) split by (simp add: in_order_def)
  have "sorted (map deadline ?later)" "\<forall>x \<in> set due. repeats_later x"
    using sorted assms(3) by (simp_all only: map_append sorted_append) (auto simp: assms(4) dest: set_takeWhileD)
  note tail = this
  have early: "\<forall>x \<in> set due. deadline x \<le> now" by (auto simp: assms(4) dest: set_takeWhileD)
  have late: "\<forall>x \<in> set ?later. now < deadline x" using dropWhile_later [OF assms(1) [unfolded in_order_def]] by blast
  obtain u where u: "run_due now clock s = Some u" "sent u = sent s @ map timer_event due" "in_order u"
      "\<forall>x \<in> set (timers u). now < deadline x"
      "mset (timers u) = mset ?later + mset (concat (map (\<lambda>k. renewed (clock k) (due ! k)) [0..<length due]))"
    using run_due_ok [OF split early late tail(1) assms(2) tail(2)] by (auto elim!: okE)
  have "set due = {x \<in> set (timers s). deadline x \<le> now}"
  proof -
    have "set (timers s) = set due \<union> set ?later" using split by (metis set_append)
    then show ?thesis using early late by fastforce
  qed
  moreover have "case (case timers u of [] \<Rightarrow> None | t # _ \<Rightarrow> Some (deadline t)) of None \<Rightarrow> timers u = []
      | Some d \<Rightarrow> d \<in> deadline ` set (timers u) \<and> (\<forall>x \<in> set (timers u). d \<le> deadline x)"
    using u(3) by (auto simp: in_order_def split: list.splits)
  ultimately show ?thesis using u by (simp add: update_def)
qed

definition demo_timers :: "(nat, nat) scheduler" where
  \<comment> \<open>a blinking cursor due at 3, a frame at 5 and a delayed search at 9\<close>
  "demo_timers =
     \<lparr>timers =
        [\<lparr>deadline = 3, timer_event = 1, id_of = \<lparr>id_topic = BlinkCursor, id_window = 0\<rparr>, timer_interval = Some 4\<rparr>,
         \<lparr>deadline = 5, timer_event = 2, id_of = \<lparr>id_topic = Frame, id_window = 0\<rparr>, timer_interval = None\<rparr>,
         \<lparr>deadline = 9, timer_event = 3, id_of = \<lparr>id_topic = DelayedSearch, id_window = 1\<rparr>, timer_interval = None\<rparr>],
      sent = []\<rparr>"

theorem update_runs_due_witness:
  "\<exists>u n. update 6 (\<lambda>k. 6) demo_timers = Some (n, u) \<and> sent u = [1, 2] \<and> in_order u"
proof -
  have "in_order demo_timers" "\<forall>x \<in> set (timers demo_timers). repeats_later x"
    and due: "takeWhile (\<lambda>x. deadline x \<le> 6) (timers demo_timers) = take 2 (timers demo_timers)"
    by (simp_all add: demo_timers_def in_order_def repeats_later_def)
  from update_runs_due [OF this(1) _ this(2) refl, of 6 "\<lambda>k. 6"] show ?thesis
    unfolding due by (auto simp: demo_timers_def)
qed

end
