(* ===== verification/Message_Bar.thy ===== *)
theory Message_Bar
  imports Selection_Text
begin

text \<open>
  The message bar (\<^verbatim>\<open>alacritty/src/message_bar.rs\<close>): a queue of messages, and the wrapping of a message
  into the lines of the bar. \<^verbatim>\<open>String\<close> methods that take byte positions panic inside of a character, so
  the model splits a list of characters at a byte position. The widths of characters are a
  parameter, and the lines that fit the window (computed from pixel sizes) are an argument.
\<close>

section \<open>Byte positions\<close>

definition utf8_len :: "uchar \<Rightarrow> nat" where
  "utf8_len c = (if c < 0x80 then 1 else if c < 0x800 then 2 else if c < 0x10000 then 3 else 4)"

definition byte_len :: "ustring \<Rightarrow> nat" where
  "byte_len s = sum_list (map utf8_len s)"

fun split_bytes :: "nat \<Rightarrow> ustring \<Rightarrow> (ustring \<times> ustring) option" where
  \<comment> \<open>\<^verbatim>\<open>None\<close> if the position is behind the end or inside of a character\<close>
  "split_bytes n [] = (if n = 0 then Some ([], []) else None)"
| "split_bytes n (c # cs) =
     (if n = 0 then Some ([], c # cs)
      else if utf8_len c \<le> n then map_option (\<lambda>(a, b). (c # a, b)) (split_bytes (n - utf8_len c) cs)
      else None)"

definition string_truncate :: "nat \<Rightarrow> ustring \<Rightarrow> ustring option" where
  \<comment> \<open>\<^verbatim>\<open>String::truncate\<close>\<close>
  "string_truncate n s = (if n \<le> byte_len s then map_option fst (split_bytes n s) else Some s)"

definition rfind_whitespace :: "ustring \<Rightarrow> nat option" where
  \<comment> \<open>\<^verbatim>\<open>line.rfind(char::is_whitespace)\<close>: the byte position of the last blank\<close>
  "rfind_whitespace s = map_option (\<lambda>i. byte_len (take i s)) (rposition is_whitespace s)"

definition trim :: "ustring \<Rightarrow> ustring" where
  "trim s = trim_end (dropWhile is_whitespace s)"

section \<open>Messages\<close>

definition CLOSE_BUTTON_TEXT :: ustring where
  "CLOSE_BUTTON_TEXT = [91, 88, 93]"

definition CLOSE_BUTTON_PADDING :: nat where
  "CLOSE_BUTTON_PADDING = 1"

definition MIN_FREE_LINES :: nat where
  "MIN_FREE_LINES = 3"

definition TRUNCATED_MESSAGE :: ustring where
  "TRUNCATED_MESSAGE = [91, 77, 69, 83, 83, 65, 71, 69, 32, 84, 82, 85, 78, 67, 65, 84, 69, 68, 93]"

datatype message_type = Message_Error | Message_Warning

record message =
  message_text :: ustring
  message_ty :: message_type
  message_target :: "ustring option"

definition message_new :: "ustring \<Rightarrow> message_type \<Rightarrow> message" where
  "message_new s ty = \<lparr>message_text = s, message_ty = ty, message_target = None\<rparr>"

definition set_target :: "ustring \<Rightarrow> message \<Rightarrow> message" where
  "set_target target m = m\<lparr>message_target := Some target\<rparr>"

definition pad_text :: "ustring \<Rightarrow> nat \<Rightarrow> ustring" where
  "pad_text s cols = s @ replicate (cols - length s) 32"

record wrap_state =
  wrap_lines :: "ustring list"
  wrap_line :: ustring
  wrap_len :: nat

definition line_full :: "nat \<Rightarrow> uchar \<Rightarrow> wrap_state \<Rightarrow> bool" where
  "line_full cols c st \<longleftrightarrow>
     c = 10 \<or> wrap_len st = cols
     \<or> wrap_lines st = [] \<and> cols \<ge> length CLOSE_BUTTON_TEXT
       \<and> wrap_len st = cols - (length CLOSE_BUTTON_TEXT + CLOSE_BUTTON_PADDING)"

definition split_word :: "uchar \<Rightarrow> ustring \<Rightarrow> (ustring \<times> ustring) option" where
  \<comment> \<open>the line without its last word and blank, and the word; nothing is split in front of a blank\<close>
  "split_word c s =
     (case (if is_whitespace c then None else rfind_whitespace s) of
        None \<Rightarrow> Some (s, [])
      | Some index \<Rightarrow> do {
          (a, b) \<leftarrow> split_bytes (index + 1) s;
          Some (butlast a, b)
        })"

definition push_char :: "(uchar \<Rightarrow> nat option) \<Rightarrow> uchar \<Rightarrow> wrap_state \<Rightarrow> wrap_state" where
  "push_char width c st =
     (let w = (case width c of Some w \<Rightarrow> w | None \<Rightarrow> 0)
      in st\<lparr>wrap_line := wrap_line st @ [c] @ (if w = 2 then [32] else []), wrap_len := wrap_len st + w\<rparr>)"

definition wrap_step :: "(uchar \<Rightarrow> nat option) \<Rightarrow> nat \<Rightarrow> uchar \<Rightarrow> wrap_state \<Rightarrow> wrap_state option" where
  "wrap_step width cols c st =
     (if line_full cols c st then do {
        (l, new_line) \<leftarrow> split_word c (wrap_line st);
        let st = \<lparr>wrap_lines = wrap_lines st @ [pad_text l cols], wrap_line = new_line, wrap_len = length new_line\<rparr>;
        Some (if is_whitespace c then st else push_char width c st)
      } else Some (push_char width c st))"

definition limit_lines :: "nat \<Rightarrow> nat \<Rightarrow> ustring list \<Rightarrow> ustring list" where
  "limit_lines cols max_lines ls =
     (if length ls > max_lines then
        let ls = take max_lines ls
        in if byte_len TRUNCATED_MESSAGE \<le> cols \<and> ls \<noteq> []
           then butlast ls @ [pad_text TRUNCATED_MESSAGE cols] else ls
      else ls)"

definition add_button :: "nat \<Rightarrow> ustring list \<Rightarrow> ustring list option" where
  "add_button cols ls =
     (if length CLOSE_BUTTON_TEXT \<le> cols then
        case ls of
          [] \<Rightarrow> Some []
        | l # rest \<Rightarrow> do {
            l \<leftarrow> string_truncate (cols - length CLOSE_BUTTON_TEXT) l;
            Some ((l @ CLOSE_BUTTON_TEXT) # rest)
          }
      else Some ls)"

definition message_lines :: "(uchar \<Rightarrow> nat option) \<Rightarrow> nat \<Rightarrow> nat \<Rightarrow> message \<Rightarrow> ustring list option" where
  \<comment> \<open>\<^verbatim>\<open>Message::text\<close>; \<open>height\<close> is the height of the window in lines\<close>
  "message_lines width cols height m = do {
     let max_lines = height - MIN_FREE_LINES;
     st \<leftarrow> for_each (trim (message_text m)) (wrap_step width cols) \<lparr>wrap_lines = [], wrap_line = [], wrap_len = 0\<rparr>;
     let ls = wrap_lines st @ [pad_text (wrap_line st) cols];
     add_button cols (limit_lines cols max_lines ls)
   }"

section \<open>The queue\<close>

type_synonym message_buffer = "message list"

definition buffer_is_empty :: "message_buffer \<Rightarrow> bool" where
  "buffer_is_empty b \<longleftrightarrow> b = []"

definition current_message :: "message_buffer \<Rightarrow> message option" where
  "current_message b = (case b of [] \<Rightarrow> None | m # _ \<Rightarrow> Some m)"

definition pop_message :: "message_buffer \<Rightarrow> message_buffer" where
  "pop_message b = (case b of [] \<Rightarrow> [] | m # ms \<Rightarrow> filter (\<lambda>x. x \<noteq> m) ms)"

definition remove_target :: "ustring \<Rightarrow> message_buffer \<Rightarrow> message_buffer" where
  "remove_target target b = filter (\<lambda>m. message_target m \<noteq> Some target) b"

definition push_message :: "message \<Rightarrow> message_buffer \<Rightarrow> message_buffer" where
  "push_message m b = b @ [m]"

definition is_queued :: "message \<Rightarrow> message_buffer \<Rightarrow> bool" where
  "is_queued m b \<longleftrightarrow> m \<in> set b"

section \<open>Wrapping\<close>

text \<open>Text of narrow characters that take one byte, and line breaks.\<close>

definition simple_char :: "(uchar \<Rightarrow> nat option) \<Rightarrow> uchar \<Rightarrow> bool" where
  "simple_char width c \<longleftrightarrow> c < 0x80 \<and> (c = 10 \<or> width c = Some 1)"

lemma byte_len_simple: "\<forall>c \<in> set s. c < 0x80 \<Longrightarrow> byte_len s = length s"
  by (induction s) (auto simp: byte_len_def utf8_len_def)

lemma split_bytes_simple: "\<forall>c \<in> set s. c < 0x80 \<Longrightarrow> n \<le> length s \<Longrightarrow> split_bytes n s = Some (take n s, drop n s)"
  by (induction n s rule: split_bytes.induct) (auto simp: utf8_len_def take_Cons' drop_Cons')

lemma truncate_simple:
  "\<forall>c \<in> set s. c < 0x80 \<Longrightarrow> string_truncate n s = Some (take n s)"
  by (simp add: string_truncate_def byte_len_simple split_bytes_simple)

lemma split_word_simple:
  assumes "\<forall>c \<in> set s. c < 0x80"
  shows "\<exists>a b. split_word c s = Some (a, b) \<and> (a = s \<and> b = [] \<or> (\<exists>x. is_whitespace x \<and> s = a @ x # b))"
proof (cases "is_whitespace c \<or> rposition is_whitespace s = None")
  case True
  then show ?thesis by (auto simp: split_word_def rfind_whitespace_def)
next
  case False
  then obtain i where i: "rposition is_whitespace s = Some i" by auto
  note R = rposition_Some [OF i]
  have len: "byte_len (take i s) = i" using assms R by (subst byte_len_simple) (auto dest: in_set_takeD)
  have "split_bytes (i + 1) s = Some (take (Suc i) s, drop (Suc i) s)" using split_bytes_simple [OF assms, of "i + 1"] R by simp
  moreover have "take (Suc i) s = take i s @ [s ! i]" using R by (simp add: take_Suc_conv_app_nth)
  ultimately have "split_word c s = Some (take i s, drop (Suc i) s)"
    using False i len by (simp add: split_word_def rfind_whitespace_def)
  moreover have "s = take i s @ s ! i # drop (Suc i) s" using R by (simp add: id_take_nth_drop)
  ultimately show ?thesis using R by blast
qed

text \<open>What the loop keeps: the widths of the lines, room for the button in the first one, and the letters.\<close>

definition message_letters :: "ustring \<Rightarrow> ustring" where
  "message_letters s = filter (\<lambda>c. \<not> is_whitespace c) s"

definition first_room :: "nat \<Rightarrow> nat" where
  "first_room cols = (if cols \<ge> 3 then cols - 4 else cols)"

definition wrapped_ok :: "nat \<Rightarrow> ustring \<Rightarrow> wrap_state \<Rightarrow> bool" where
  "wrapped_ok cols seen st \<longleftrightarrow>
     wrap_len st = length (wrap_line st) \<and> length (wrap_line st) \<le> (if wrap_lines st = [] then first_room cols else cols)
     \<and> (\<forall>l \<in> set (wrap_lines st). length l = cols \<and> (\<forall>c \<in> set l. c < 0x80))
     \<and> (\<forall>c \<in> set (wrap_line st). c < 0x80)
     \<and> (wrap_lines st \<noteq> [] \<longrightarrow> (\<forall>c \<in> set (drop (first_room cols) (hd (wrap_lines st))). c = 32))
     \<and> message_letters (concat (wrap_lines st) @ wrap_line st) = message_letters seen"

lemma message_letters_simps [simp]:
  "message_letters [] = []" "message_letters (xs @ ys) = message_letters xs @ message_letters ys"
  "message_letters (x # xs) = (if is_whitespace x then message_letters xs else x # message_letters xs)"
  "message_letters (replicate n 32) = []"
  by (auto simp: message_letters_def is_whitespace_def)

lemma push_simple: "simple_char width c \<Longrightarrow> c \<noteq> 10 \<Longrightarrow>
    push_char width c st = st\<lparr>wrap_line := wrap_line st @ [c], wrap_len := Suc (wrap_len st)\<rparr>"
  by (simp add: push_char_def simple_char_def)

lemma line_full_room:
  assumes "c \<noteq> 10" "wrap_len st = length (wrap_line st)"
    "length (wrap_line st) \<le> (if wrap_lines st = [] then first_room cols else cols)" "\<not> line_full cols c st"
  shows "length (wrap_line st) < (if wrap_lines st = [] then first_room cols else cols)"
  using assms by (auto simp: line_full_def first_room_def CLOSE_BUTTON_TEXT_def CLOSE_BUTTON_PADDING_def split: if_splits)

lemma wrapped_okD:
  assumes "wrapped_ok cols seen st"
  shows "wrap_len st = length (wrap_line st)"
    "length (wrap_line st) \<le> (if wrap_lines st = [] then first_room cols else cols)"
    "\<forall>l \<in> set (wrap_lines st). length l = cols \<and> (\<forall>c \<in> set l. c < 0x80)"
    "\<forall>c \<in> set (wrap_line st). c < 0x80"
    "wrap_lines st \<noteq> [] \<Longrightarrow> \<forall>c \<in> set (drop (first_room cols) (hd (wrap_lines st))). c = 32"
    "message_letters (concat (wrap_lines st) @ wrap_line st) = message_letters seen"
  using assms unfolding wrapped_ok_def by blast+

lemma wrapped_push:
  assumes "wrapped_ok cols seen st" "c < 0x80"
    "length (wrap_line st) < (if wrap_lines st = [] then first_room cols else cols)"
  shows "wrapped_ok cols (seen @ [c]) (st\<lparr>wrap_line := wrap_line st @ [c], wrap_len := Suc (wrap_len st)\<rparr>)"
  unfolding wrapped_ok_def using wrapped_okD [OF assms(1)] assms(2,3) by simp

lemma wrapped_newline:
  assumes W: "wrapped_ok cols seen st" and "0 < cols" "split_word c (wrap_line st) = Some (a, b)"
  shows "wrapped_ok cols seen \<lparr>wrap_lines = wrap_lines st @ [pad_text a cols], wrap_line = b, wrap_len = length b\<rparr>"
    "length b < cols"
proof -
  note D = wrapped_okD [OF W]
  have room: "first_room cols \<le> cols" by (simp add: first_room_def)
  have ab: "a = wrap_line st \<and> b = [] \<or> (\<exists>x. is_whitespace x \<and> wrap_line st = a @ x # b)"
    using split_word_simple [OF D(4), of c] assms(3) by auto
  have lens: "length a \<le> length (wrap_line st)" "b = [] \<or> length b < length (wrap_line st)" using ab by auto
  have max: "length (wrap_line st) \<le> cols" using D(2) room by (simp split: if_splits)
  show "length b < cols" using lens max assms(2) by auto
  have chars: "\<forall>c \<in> set a. c < 0x80" "\<forall>c \<in> set b. c < 0x80" using ab D(4) by auto
  have letters: "message_letters (wrap_line st) = message_letters a @ message_letters b" using ab by auto
  let ?l = "pad_text a cols"
  have l: "length ?l = cols" "\<forall>c \<in> set ?l. c < 0x80" "message_letters ?l = message_letters a"
    using lens(1) max chars(1) by (auto simp: pad_text_def)
  have "\<forall>c \<in> set (drop (first_room cols) (hd (wrap_lines st @ [?l]))). c = 32"
  proof (cases "wrap_lines st = []")
    case True
    then have "length a \<le> first_room cols" using D(2) lens(1) by simp
    then show ?thesis using True by (simp add: pad_text_def)
  qed (use D(5) in simp)
  then show "wrapped_ok cols seen \<lparr>wrap_lines = wrap_lines st @ [?l], wrap_line = b, wrap_len = length b\<rparr>"
    unfolding wrapped_ok_def using D(3,6) l chars(2) letters \<open>length b < cols\<close> by simp
qed

lemma wrap_step_ok:
  assumes "simple_char width c" "0 < cols" "wrapped_ok cols seen st"
  shows "ok (wrap_step width cols c st) (wrapped_ok cols (seen @ [c]))"
proof -
  have ascii: "c < 0x80" using assms(1) by (simp add: simple_char_def)
  show ?thesis
  proof (cases "line_full cols c st")
    case False
    then have c: "c \<noteq> 10" by (auto simp: line_full_def)
    note room = line_full_room [OF c wrapped_okD(1,2) [OF assms(3)] False]
    from wrapped_push [OF assms(3) ascii room] show ?thesis
      using False by (simp add: wrap_step_def push_simple [OF assms(1) c])
  next
    case True
    obtain a b where ab: "split_word c (wrap_line st) = Some (a, b)"
      using split_word_simple [OF wrapped_okD(4) [OF assms(3)]] by blast
    note new = wrapped_newline [OF assms(3,2) ab]
    show ?thesis
    proof (cases "is_whitespace c")
      case True': True
      then have "message_letters (seen @ [c]) = message_letters seen" by simp
      then have "wrapped_ok cols (seen @ [c]) \<lparr>wrap_lines = wrap_lines st @ [pad_text a cols], wrap_line = b, wrap_len = length b\<rparr>"
        using new(1) by (simp add: wrapped_ok_def)
      then show ?thesis using True True' ab by (simp add: wrap_step_def)
    next
      case False
      then have c: "c \<noteq> 10" by (auto simp: is_whitespace_def)
      from wrapped_push [OF new(1) ascii] new(2) show ?thesis
        using True False ab by (simp add: wrap_step_def push_simple [OF assms(1) c])
    qed
  qed
qed

lemma wrap_loop_ok:
  assumes "\<forall>c \<in> set s. simple_char width c" "0 < cols"
  shows "ok (for_each s (wrap_step width cols) \<lparr>wrap_lines = [], wrap_line = [], wrap_len = 0\<rparr>) (wrapped_ok cols s)"
proof (rule ok_for_each)
  show "wrapped_ok cols [] \<lparr>wrap_lines = [], wrap_line = [], wrap_len = 0\<rparr>" by (simp add: wrapped_ok_def)
next
  fix ys c zs st
  assume "s = ys @ c # zs" "wrapped_ok cols ys st"
  then show "ok (wrap_step width cols c st) (wrapped_ok cols (ys @ [c]))" using assms by (intro wrap_step_ok) simp_all
qed

lemma trim_split: obtains a b where "s = a @ trim s @ b" "message_letters a = []" "message_letters b = []"
proof -
  let ?t = "dropWhile is_whitespace s"
  have "rev ?t = takeWhile is_whitespace (rev ?t) @ dropWhile is_whitespace (rev ?t)" by simp
  then have "?t = trim_end ?t @ rev (takeWhile is_whitespace (rev ?t))"
    unfolding trim_end_def by (metis rev_append rev_rev_ident)
  then have "s = takeWhile is_whitespace s @ trim s @ rev (takeWhile is_whitespace (rev ?t))"
    unfolding trim_def by (metis takeWhile_dropWhile_id)
  moreover have "message_letters (takeWhile is_whitespace s) = []" "message_letters (rev (takeWhile is_whitespace (rev ?t))) = []"
    by (auto simp: message_letters_def filter_empty_conv dest: set_takeWhileD)
  ultimately show ?thesis by (rule that)
qed

lemma message_wrapped:
  assumes "\<forall>c \<in> set s. simple_char width c" "0 < cols"
  obtains st where "for_each (trim s) (wrap_step width cols) \<lparr>wrap_lines = [], wrap_line = [], wrap_len = 0\<rparr> = Some st"
    "wrapped_ok cols s st"
proof -
  obtain x y where xy: "s = x @ trim s @ y" "message_letters x = []" "message_letters y = []" by (rule trim_split)
  have "message_letters (trim s) = message_letters s" using arg_cong [OF xy(1), of message_letters] xy(2,3) by simp
  then have "wrapped_ok cols (trim s) = wrapped_ok cols s" by (simp add: wrapped_ok_def fun_eq_iff)
  moreover have "\<forall>c \<in> set (trim s). simple_char width c" using assms(1) arg_cong [OF xy(1), of set] by auto
  ultimately show ?thesis using wrap_loop_ok [of "trim s" width cols] assms(2) that by (metis ok_iff)
qed

lemma limit_lines_ok:
  assumes "\<forall>l \<in> set ls. length l = cols \<and> (\<forall>c \<in> set l. c < 0x80)"
  shows "\<forall>l \<in> set (limit_lines cols n ls). length l = cols \<and> (\<forall>c \<in> set l. c < 0x80)"
    "length (limit_lines cols n ls) \<le> n" "length (limit_lines cols n ls) < n \<Longrightarrow> limit_lines cols n ls = ls"
proof -
  have "length (pad_text TRUNCATED_MESSAGE cols) = cols \<and> (\<forall>c \<in> set (pad_text TRUNCATED_MESSAGE cols). c < 0x80)"
    if "byte_len TRUNCATED_MESSAGE \<le> cols"
    using that by (auto simp: pad_text_def TRUNCATED_MESSAGE_def byte_len_def utf8_len_def)
  then show "\<forall>l \<in> set (limit_lines cols n ls). length l = cols \<and> (\<forall>c \<in> set l. c < 0x80)"
      "length (limit_lines cols n ls) \<le> n" "length (limit_lines cols n ls) < n \<Longrightarrow> limit_lines cols n ls = ls"
    using assms by (auto simp: limit_lines_def Let_def dest!: in_set_butlastD dest: in_set_takeD split: if_splits)
qed

lemma message_letters_blank_end:
  assumes "\<forall>c \<in> set (drop k l). c = 32" "k \<le> n"
  shows "message_letters (take n l) = message_letters l"
proof -
  have "\<forall>c \<in> set (drop n l). c = 32" using assms set_drop_subset_set_drop [of k n l] by auto
  then have "message_letters (drop n l) = []" by (auto simp: message_letters_def filter_empty_conv is_whitespace_def)
  then show ?thesis by (metis append_Nil2 append_take_drop_id message_letters_simps(2))
qed



text \<open>
  Placing the close button panics when a character of more than one byte lies across the column of the
  button, counted in bytes: \<^verbatim>\<open>truncate\<close> takes a byte position and is given a column. This is so for every message
  that starts with characters of two bytes which reach behind the middle of the line, here for
  an even number of columns to the left of the button.
\<close>

theorem message_button_panics:
  assumes "cols = 2 * k + 6" "width c = Some 1" "0x80 \<le> c" "c < 0x800" "\<not> is_whitespace c" "4 \<le> height"
  shows "message_lines width cols height \<lparr>message_text = replicate (k + 2) c, message_ty = ty, message_target = tg\<rparr> = None"
proof -
  let ?st = "\<lambda>n. \<lparr>wrap_lines = [], wrap_line = replicate n c, wrap_len = n\<rparr>"
  have c10: "c \<noteq> 10" using assms(3) by auto
  have step: "wrap_step width cols c (?st n) = Some (?st (Suc n))" if "n < k + 2" for n
    using that assms(1,2) c10
    by (simp add: wrap_step_def line_full_def push_char_def CLOSE_BUTTON_TEXT_def CLOSE_BUTTON_PADDING_def replicate_append_same)
  have loop: "for_each (replicate m c) (wrap_step width cols) (?st n) = Some (?st (n + m))" if "n + m \<le> k + 2" for n m
    using that
  proof (induction m arbitrary: n)
    case (Suc m)
    then show ?case using step [of n] Suc.IH [of "Suc n"] by (simp only: replicate_Suc for_each.simps Option.bind.simps) simp
  qed simp
  have trim: "trim (replicate (k + 2) c) = replicate (k + 2) c"
    using assms(5) by (simp add: trim_def trim_end_def dropWhile_eq_self_iff hd_append del: replicate_Suc)
  let ?l = "pad_text (replicate (k + 2) c) cols"
  have utf: "utf8_len c = 2" "utf8_len 32 = 1" using assms(3,4) by (auto simp: utf8_len_def)
  have split: "split_bytes (2 * n + 1) (replicate m c @ xs) = None" if "n < m" for n m xs
    using that by (induction n arbitrary: m) (case_tac m; simp add: utf)+
  have pos: "cols - 3 = 2 * (k + 1) + 1" using assms(1) by simp
  have "split_bytes (cols - 3) ?l = None" unfolding pad_text_def pos by (rule split) simp
  moreover have "cols - 3 \<le> byte_len ?l" using assms(1) utf by (simp add: byte_len_def pad_text_def sum_list_replicate)
  ultimately have "string_truncate (cols - 3) ?l = None" by (simp add: string_truncate_def)
  moreover have "limit_lines cols (height - MIN_FREE_LINES) [?l] = [?l]" using assms(6) by (simp add: limit_lines_def MIN_FREE_LINES_def)
  ultimately show ?thesis using loop [of 0 "k + 2"] trim assms(1)
    by (simp add: message_lines_def add_button_def CLOSE_BUTTON_TEXT_def numeral_3_eq_3)
qed

theorem message_button_panics_witness:
  "message_lines (\<lambda>c. Some 1) 6 9 \<lparr>message_text = replicate 2 0xE9, message_ty = Message_Error, message_target = None\<rparr> = None"
  using message_button_panics [where cols = 6 and k = 0 and width = "\<lambda>c. Some 1" and c = "0xE9" and height = 9] by (simp add: is_whitespace_def numeral_2_eq_2)

end
