(* ===== verification/Str_Shortener.thy ===== *)
theory Str_Shortener
  imports Term_State
begin

text \<open>
  Shortening of text to a number of columns (\<^verbatim>\<open>alacritty/src/string.rs\<close>). The iterator is a record of the
  fields of \<^verbatim>\<open>StrShortener\<close>, \<open>next\<close> returns an item and the new state, and \<open>shortened\<close> collects the items up to the first
  \<^verbatim>\<open>None\<close>. The character widths of the \<^verbatim>\<open>unicode-width\<close> crate are a parameter.
\<close>

datatype text_action = Yield_Spacer | Terminate | Shortener | Yield_Char

datatype shorten_direction = Shorten_Left | Shorten_Right

record str_shortener =
  sh_chars :: ustring
  accumulated_len :: nat
  max_width :: nat
  sh_direction :: shorten_direction
  shortener :: "uchar option"
  text_action :: text_action

definition width_or_1 :: "(uchar \<Rightarrow> nat option) \<Rightarrow> uchar \<Rightarrow> nat" where
  \<comment> \<open>\<^verbatim>\<open>ch.width().unwrap_or(1)\<close>\<close>
  "width_or_1 width c = (case width c of Some w \<Rightarrow> w | None \<Rightarrow> 1)"

record tail_scan =
  scan_shortener :: "uchar option"
  scan_offset :: nat
  scan_len :: nat
  scan_rest :: ustring

fun measure_end :: "(uchar \<Rightarrow> nat option) \<Rightarrow> nat \<Rightarrow> nat \<Rightarrow> ustring \<Rightarrow> tail_scan \<Rightarrow> tail_scan" where
  \<comment> \<open>the loop over the reversed text; \<open>scan_rest\<close> is what the iterator has left at the end of the loop\<close>
  "measure_end width limit idx [] st = st\<lparr>scan_rest := []\<rparr>"
| "measure_end width limit idx (c # cs) st =
     (let st = st\<lparr>scan_len := scan_len st + width_or_1 width c\<rparr>
      in if scan_len st > limit then st\<lparr>scan_rest := cs\<rparr>
         else if scan_len st = limit \<and> scan_shortener st \<noteq> None \<and> cs \<noteq> [] then st\<lparr>scan_rest := cs\<rparr>
         else
           let st = (if scan_len st = limit then st\<lparr>scan_shortener := None\<rparr> else st)
           in measure_end width limit (idx + 1) cs (st\<lparr>scan_offset := idx + 1\<rparr>))"

definition shortener_new ::
  "(uchar \<Rightarrow> nat option) \<Rightarrow> ustring \<Rightarrow> nat \<Rightarrow> shorten_direction \<Rightarrow> uchar option \<Rightarrow> str_shortener" where
  \<comment> \<open>\<^verbatim>\<open>iter.last()\<close> is the last element that the loop left over, whose index is that of the last character\<close>
  "shortener_new width s limit dir sh =
     (let sh = (if s = [] then None else sh)
      in if dir = Shorten_Right
         then \<lparr>sh_chars = s, accumulated_len = 0, max_width = limit, sh_direction = dir, shortener = sh, text_action = Yield_Char\<rparr>
         else
           let st = measure_end width limit 0 (rev s) \<lparr>scan_shortener = sh, scan_offset = 0, scan_len = 0, scan_rest = []\<rparr>;
               num_chars = (if scan_rest st = [] then scan_offset st else length s);
               skip_chars = num_chars - scan_offset st;
               action = (if scan_len st < limit \<or> scan_shortener st = None then Yield_Char else Shortener)
           in \<lparr>sh_chars = drop skip_chars s, accumulated_len = 0, max_width = limit, sh_direction = dir,
               shortener = scan_shortener st, text_action = action\<rparr>)"

definition next_char :: "(uchar \<Rightarrow> nat option) \<Rightarrow> str_shortener \<Rightarrow> uchar option \<times> str_shortener" where
  "next_char width it =
     (case text_action it of
        Yield_Spacer \<Rightarrow> (Some 32, it\<lparr>text_action := Yield_Char\<rparr>)
      | Terminate \<Rightarrow> (None, it)
      | Shortener \<Rightarrow>
          (shortener it,
           it\<lparr>text_action := (if sh_direction it = Shorten_Left then Yield_Char else Terminate), shortener := None\<rparr>)
      | Yield_Char \<Rightarrow>
          (case sh_chars it of
             [] \<Rightarrow> (None, it)
           | c # cs \<Rightarrow>
               let w = width_or_1 width c;
                   it = it\<lparr>sh_chars := cs, accumulated_len := accumulated_len it + w\<rparr>
               in if accumulated_len it > max_width it then (shortener it, it\<lparr>text_action := Terminate\<rparr>)
                  else if accumulated_len it = max_width it \<and> shortener it \<noteq> None then
                    (if cs \<noteq> [] then shortener it else Some c, it\<lparr>text_action := Terminate\<rparr>)
                  else (Some c, if w = 2 then it\<lparr>text_action := Yield_Spacer\<rparr> else it)))"

fun action_rank :: "text_action \<Rightarrow> nat" where
  "action_rank Terminate = 0"
| "action_rank Yield_Char = 1"
| "action_rank Yield_Spacer = 2"
| "action_rank Shortener = 2"

function shortened :: "(uchar \<Rightarrow> nat option) \<Rightarrow> str_shortener \<Rightarrow> ustring" where
  "shortened width it =
     (case next_char width it of
        (None, _) \<Rightarrow> []
      | (Some c, it) \<Rightarrow> c # shortened width it)"
  by pat_completeness auto
termination
  by (relation "measures [\<lambda>(_, it). length (sh_chars it), \<lambda>(_, it). action_rank (text_action it)]")
    (auto simp: next_char_def Let_def split: text_action.splits list.splits if_splits)

declare shortened.simps [simp del]

definition shorten :: "(uchar \<Rightarrow> nat option) \<Rightarrow> ustring \<Rightarrow> nat \<Rightarrow> shorten_direction \<Rightarrow> uchar option \<Rightarrow> ustring" where
  "shorten width s limit dir sh = shortened width (shortener_new width s limit dir sh)"

section \<open>Narrow text\<close>

abbreviation narrow :: "(uchar \<Rightarrow> nat option) \<Rightarrow> ustring \<Rightarrow> bool" where
  "narrow width s \<equiv> \<forall>c \<in> set s. width_or_1 width c = 1"

lemma shortened_stop: "text_action it = Terminate \<Longrightarrow> shortened width it = []"
  by (subst shortened.simps) (simp add: next_char_def)

text \<open>As long as the text fits, it is passed on.\<close>

lemma shortened_all:
  assumes "narrow width (sh_chars it)" "text_action it = Yield_Char"
    and "accumulated_len it + length (sh_chars it) \<le> max_width it"
    and "shortener it = None \<or> accumulated_len it + length (sh_chars it) < max_width it"
  shows "shortened width it = sh_chars it"
  using assms
proof (induction "sh_chars it" arbitrary: it)
  case Nil
  then show ?case by (subst shortened.simps) (simp add: next_char_def)
next
  case (Cons c cs)
  let ?it = "it\<lparr>sh_chars := cs, accumulated_len := Suc (accumulated_len it)\<rparr>"
  note cs = Cons.hyps(2) [symmetric]
  have fits: "width_or_1 width c = 1" "\<not> max_width it < Suc (accumulated_len it)"
      "\<not> (Suc (accumulated_len it) = max_width it \<and> shortener it \<noteq> None)"
    using Cons.prems by (auto simp: cs)
  then have "next_char width it = (Some c, ?it)" using Cons.prems(2) by (auto simp: next_char_def Let_def cs)
  moreover have "shortened width ?it = sh_chars ?it"
    using Cons.prems by (intro Cons.hyps(1)) (auto simp: cs)
  ultimately show ?case by (subst shortened.simps) (simp add: cs)
qed

lemma shortened_right:
  assumes "narrow width (sh_chars it)" "text_action it = Yield_Char" "accumulated_len it < max_width it" "shortener it = Some sh"
  shows "shortened width it = (if accumulated_len it + length (sh_chars it) \<le> max_width it then sh_chars it
    else take (max_width it - 1 - accumulated_len it) (sh_chars it) @ [sh])"
  using assms
proof (induction "sh_chars it" arbitrary: it)
  case Nil
  then show ?case by (subst shortened.simps) (simp add: next_char_def)
next
  case (Cons c cs)
  let ?it = "it\<lparr>sh_chars := cs, accumulated_len := Suc (accumulated_len it)\<rparr>"
  have w: "width_or_1 width c = 1" using Cons.prems(1) Cons.hyps(2) [symmetric] by simp
  show ?case
  proof (cases "Suc (accumulated_len it) = max_width it")
    case True
    have "next_char width it = (if cs \<noteq> [] then Some sh else Some c, ?it\<lparr>text_action := Terminate\<rparr>)"
      using True Cons.prems w by (auto simp: next_char_def Let_def Cons.hyps(2) [symmetric])
    moreover have "shortened width (?it\<lparr>text_action := Terminate\<rparr>) = []" by (rule shortened_stop) simp
    moreover have "max_width it - 1 - accumulated_len it = 0" using True by simp
    ultimately show ?thesis using True by (subst shortened.simps, cases cs) (auto simp: Cons.hyps(2) [symmetric])
  next
    case False
    have n: "next_char width it = (Some c, ?it)"
      using False Cons.prems w by (auto simp: next_char_def Let_def Cons.hyps(2) [symmetric])
    have "shortened width ?it = (if accumulated_len ?it + length (sh_chars ?it) \<le> max_width ?it then sh_chars ?it
        else take (max_width ?it - 1 - accumulated_len ?it) (sh_chars ?it) @ [sh])"
      using Cons.prems False by (intro Cons.hyps(1)) (auto simp: Cons.hyps(2) [symmetric])
    moreover have "max_width it - 1 - accumulated_len it = Suc (max_width it - 1 - Suc (accumulated_len it))"
      using Cons.prems(3) False by simp
    ultimately show ?thesis using n by (subst shortened.simps) (simp add: Cons.hyps(2) [symmetric])
  qed
qed

lemma measure_end_narrow:
  assumes "narrow width cs" "idx < limit" "scan_len st = idx" "scan_offset st = idx" "scan_shortener st = Some sh"
  shows "measure_end width limit idx cs st =
    (if idx + length cs < limit
     then \<lparr>scan_shortener = Some sh, scan_offset = idx + length cs, scan_len = idx + length cs, scan_rest = []\<rparr>
     else if idx + length cs = limit then \<lparr>scan_shortener = None, scan_offset = limit, scan_len = limit, scan_rest = []\<rparr>
     else \<lparr>scan_shortener = Some sh, scan_offset = limit - 1, scan_len = limit, scan_rest = drop (limit - idx) cs\<rparr>)"
  using assms
proof (induction cs arbitrary: idx st)
  case Nil
  then show ?case by (cases st) simp
next
  case (Cons c cs)
  show ?case
  proof (cases "Suc idx = limit")
    case True
    then show ?thesis using Cons.prems by (cases st; cases cs) auto
  next
    case False
    then have "limit - idx = Suc (limit - Suc idx)" using Cons.prems(2) by simp
    then show ?thesis using False Cons.prems Cons.IH [of "Suc idx" "st\<lparr>scan_len := Suc idx, scan_offset := Suc idx\<rparr>"]
      by (simp add: Let_def)
  qed
qed

text \<open>
  Text of narrow characters is shortened to the given number of columns exactly: text that fits is
  kept; of longer text the beginning and the shortener are shown, or the shortener and the end.
\<close>

theorem shorten_narrow:
  assumes "\<forall>c \<in> set s. width_or_1 width c = 1" "0 < limit"
  shows "shorten width s limit dir (Some sh) =
    (if length s \<le> limit then s
     else case dir of
       Shorten_Right \<Rightarrow> take (limit - 1) s @ [sh]
     | Shorten_Left \<Rightarrow> sh # drop (length s - (limit - 1)) s)"
proof (cases "s = []")
  case True
  then show ?thesis by (cases dir) (auto simp: shorten_def shortener_new_def Let_def intro!: trans [OF shortened_all])
next
  case ne: False
  show ?thesis
  proof (cases dir)
    case Shorten_Right
    then show ?thesis using assms ne by (simp add: shorten_def shortener_new_def shortened_right [where sh = sh])
  next
    case Shorten_Left
    let ?new = "shortener_new width s limit dir (Some sh)"
    have "narrow width (rev s)" using assms(1) by simp
    note M = measure_end_narrow [OF this assms(2), where sh = sh]
    consider "length s < limit" | "length s = limit" | "limit < length s" by linarith
    then show ?thesis
    proof cases
      case 1
      then have "?new = \<lparr>sh_chars = s, accumulated_len = 0, max_width = limit, sh_direction = dir, shortener = Some sh, text_action = Yield_Char\<rparr>"
        using Shorten_Left ne by (simp add: shortener_new_def M)
      then show ?thesis using 1 assms by (simp add: shorten_def shortened_all)
    next
      case 2
      then have "?new = \<lparr>sh_chars = s, accumulated_len = 0, max_width = limit, sh_direction = dir, shortener = None, text_action = Yield_Char\<rparr>"
        using Shorten_Left ne by (simp add: shortener_new_def M)
      then show ?thesis using 2 assms by (simp add: shorten_def shortened_all)
    next
      case 3
      let ?cs = "drop (length s - (limit - 1)) s"
      have new: "?new = \<lparr>sh_chars = ?cs, accumulated_len = 0, max_width = limit, sh_direction = dir, shortener = Some sh, text_action = Shortener\<rparr>"
        using 3 Shorten_Left ne by (simp add: shortener_new_def M)
      let ?it = "\<lparr>sh_chars = ?cs, accumulated_len = 0, max_width = limit, sh_direction = dir, shortener = None, text_action = Yield_Char\<rparr>"
      have "shortened width ?it = ?cs" using assms 3 by (subst shortened_all) (auto dest: in_set_dropD)
      then have "shortened width ?new = sh # ?cs"
        unfolding new using Shorten_Left by (subst shortened.simps) (simp add: next_char_def)
      then show ?thesis using 3 Shorten_Left by (simp add: shorten_def)
    qed
  qed
qed

theorem shorten_narrow_witness:
  "shorten (\<lambda>c. Some 1) [72, 101, 108, 108, 111] 3 Shorten_Left (Some 46) = [46, 108, 111]"
  using shorten_narrow [of "[72, 101, 108, 108, 111]" "\<lambda>c. Some 1" 3 Shorten_Left 46] by (simp add: width_or_1_def)

text \<open>
  Shortening from the left exceeds the limit when the text starts with a wide character that is the
  first one not to fit: \<^verbatim>\<open>iter.last()\<close> has nothing left then, and no character is skipped. The beginning of the text is shown
  instead of its end, and takes one column more than there is.
\<close>

theorem shorten_left_exceeds:
  assumes "width_or_1 width w = 2" "width_or_1 width a = 1" "width_or_1 width b = 1"
  shows "shorten width [w, a, b] 3 Shorten_Left (Some sh) = [sh, w, 32, a]"
proof -
  have "measure_end width 3 0 (rev [w, a, b]) \<lparr>scan_shortener = Some sh, scan_offset = 0, scan_len = 0, scan_rest = []\<rparr> =
      \<lparr>scan_shortener = Some sh, scan_offset = 2, scan_len = 4, scan_rest = []\<rparr>"
    using assms by (simp add: Let_def numeral_2_eq_2)
  then have "shortener_new width [w, a, b] 3 Shorten_Left (Some sh) =
      \<lparr>sh_chars = [w, a, b], accumulated_len = 0, max_width = 3, sh_direction = Shorten_Left, shortener = Some sh, text_action = Shortener\<rparr>"
    by (simp add: shortener_new_def)
  then show ?thesis using assms by (simp add: shorten_def shortened.simps next_char_def Let_def)
qed

theorem shorten_left_exceeds_witness:
  "shorten (\<lambda>c. if c = 77 then Some 2 else Some 1) [77, 97, 98] 3 Shorten_Left (Some 46) = [46, 77, 32, 97]"
  using shorten_left_exceeds [of "\<lambda>c. if c = 77 then Some 2 else Some 1" 77 97 98 46] by (simp add: width_or_1_def)

end
