(* ===== verification/Regex_Search.thy ===== *)
theory Regex_Search
  imports Search Examples
begin

text \<open>
  Searching the grid for a regular expression (\<^verbatim>\<open>alacritty_terminal/src/term/search.rs\<close>). The lazy automata come from the
  crate \<^verbatim>\<open>regex-automata\<close>, so they are a parameter: a record of the functions of \<^verbatim>\<open>hybrid::dfa::DFA\<close> that the search
  calls, over any types of states, errors and caches. The search itself, which feeds the characters of the grid to an
  automaton, follows wide characters and wrapped lines and restarts after line breaks, is the program's own.
\<close>

unbundle bit_operations_syntax

section \<open>Automata\<close>

record ('s, 'e, 'c) dfa =
  start_state_forward :: "bool \<Rightarrow> 'c \<Rightarrow> ('e + 's) \<times> 'c"
  next_state :: "'s \<Rightarrow> nat \<Rightarrow> 'c \<Rightarrow> ('e + 's) \<times> 'c"
  next_eoi_state :: "'s \<Rightarrow> 'c \<Rightarrow> ('e + 's) \<times> 'c"
  is_match :: "'s \<Rightarrow> bool"
  is_dead :: "'s \<Rightarrow> bool"

record ('s, 'e, 'c) lazy_dfa =
  ldfa :: "('s, 'e, 'c) dfa"
  ldfa_cache :: 'c
  ldfa_direction :: direction
  match_all :: bool

record ('s, 'e, 'c) regex_search =
  left_fdfa :: "('s, 'e, 'c) lazy_dfa"
  left_rdfa :: "('s, 'e, 'c) lazy_dfa"
  right_rdfa :: "('s, 'e, 'c) lazy_dfa"
  right_fdfa :: "('s, 'e, 'c) lazy_dfa"

text \<open>
  Building the automata: \<open>build_dfa\<close> is the crate's builder, given whether case is ignored, whether the pattern is reversed, and
  whether all matches are wanted (\<^verbatim>\<open>MatchKind::All\<close>) or the leftmost first; the limits of the cache are part of it.
\<close>

record ('s, 'e, 'c, 'b) dfa_builder =
  build_dfa :: "bool \<Rightarrow> bool \<Rightarrow> bool \<Rightarrow> ustring \<Rightarrow> 'b + ('s, 'e, 'c) dfa"
  create_cache :: "('s, 'e, 'c) dfa \<Rightarrow> 'c"
  nfa_has_empty :: "('s, 'e, 'c) dfa \<Rightarrow> bool"
  is_uppercase :: "uchar \<Rightarrow> bool"

definition lazy_dfa_new ::
  "('s, 'e, 'c, 'b) dfa_builder \<Rightarrow> ustring \<Rightarrow> bool \<Rightarrow> direction \<Rightarrow> bool \<Rightarrow> 'b + ('s, 'e, 'c) lazy_dfa" where
  "lazy_dfa_new B search case_insensitive dir all =
     map_sum id (\<lambda>A. \<lparr>ldfa = A, ldfa_cache = create_cache B A, ldfa_direction = dir, match_all = all\<rparr>)
       (build_dfa B case_insensitive (dir = Left) all search)"

definition regex_search_new :: "('s, 'e, 'c, 'b) dfa_builder \<Rightarrow> ustring \<Rightarrow> 'b + ('s, 'e, 'c) regex_search" where
  "regex_search_new B search =
     (let ci = \<not> list_ex (is_uppercase B) search in
      case lazy_dfa_new B search ci Right True of
        Inl e \<Rightarrow> Inl e
      | Inr lr \<Rightarrow>
          (let has_empty = nfa_has_empty B (ldfa lr) in
           case lazy_dfa_new B search ci Left has_empty of
             Inl e \<Rightarrow> Inl e
           | Inr lf \<Rightarrow>
               (case lazy_dfa_new B search ci Right has_empty of
                  Inl e \<Rightarrow> Inl e
                | Inr rf \<Rightarrow>
                    (case lazy_dfa_new B search ci Left True of
                       Inl e \<Rightarrow> Inl e
                     | Inr rr \<Rightarrow> Inr \<lparr>left_fdfa = lf, left_rdfa = lr, right_rdfa = rr, right_fdfa = rf\<rparr>))))"

definition encode_utf8 :: "uchar \<Rightarrow> nat list" where
  "encode_utf8 c =
     (if c < 0x80 then [c]
      else if c < 0x800 then [0xC0 + c div 0x40, 0x80 + c mod 0x40]
      else if c < 0x10000 then [0xE0 + c div 0x1000, 0x80 + c div 0x40 mod 0x40, 0x80 + c mod 0x40]
      else [0xF0 + c div 0x40000, 0x80 + c div 0x1000 mod 0x40, 0x80 + c div 0x40 mod 0x40, 0x80 + c mod 0x40])"

section \<open>The search\<close>

text \<open>The local variables of \<^verbatim>\<open>regex_search_internal\<close>, with the cache that the automaton updates.\<close>

record ('s, 'c) search_state =
  rs_state :: 's
  rs_cache :: 'c
  rs_iter :: grid_iter
  rs_match :: "point option"
  rs_done :: bool
  rs_c :: uchar
  rs_last_wrapped :: bool
  rs_point :: point
  rs_last_point :: point
  consumed_bytes :: nat

text \<open>How a part of the loop ends: with an error of the automaton (\<^verbatim>\<open>?\<close>), with \<^verbatim>\<open>break\<close>, with
  \<^verbatim>\<open>continue 'outer\<close>, or by falling through.\<close>

datatype ('e, 's) flow = Fail 'e 's | Break 's | Continue 's | Proceed 's

definition restart_search :: "('s, 'e, 'c) lazy_dfa \<Rightarrow> ('s, 'c) search_state \<Rightarrow> ('e, ('s, 'c) search_state) flow" where
  "restart_search r st =
     (case start_state_forward (ldfa r) (match_all r) (rs_cache st) of
        (Inl e, c) \<Rightarrow> Fail e (st\<lparr>rs_cache := c\<rparr>)
      | (Inr s, c) \<Rightarrow> Proceed (st\<lparr>rs_state := s, rs_cache := c, consumed_bytes := 0, rs_match := None\<rparr>))"

fun feed :: "('s, 'e, 'c) lazy_dfa \<Rightarrow> nat \<Rightarrow> nat list \<Rightarrow> ('s, 'c) search_state \<Rightarrow> ('e, ('s, 'c) search_state) flow" where
  \<comment> \<open>the loop over the bytes of a character, from byte \<open>i\<close> on\<close>
  "feed r i [] st = Proceed st"
| "feed r i (b # bs) st =
     (case next_state (ldfa r) (rs_state st) b (rs_cache st) of
        (Inl e, c) \<Rightarrow> Fail e (st\<lparr>rs_cache := c\<rparr>)
      | (Inr s, c) \<Rightarrow>
          let st = st\<lparr>rs_state := s, rs_cache := c, consumed_bytes := consumed_bytes st + 1\<rparr> in
          if i = 0 \<and> is_match (ldfa r) s then feed r (i + 1) bs (st\<lparr>rs_match := Some (rs_last_point st)\<rparr>)
          else if is_dead (ldfa r) s then
            if consumed_bytes st = 2 then
              (case restart_search r st of
                 Proceed st \<Rightarrow> if i = 0 then Continue st else feed r (i + 1) bs st
               | fl \<Rightarrow> fl)
            else Break st
          else feed r (i + 1) bs st)"

definition char_bytes :: "direction \<Rightarrow> uchar \<Rightarrow> nat list" where
  "char_bytes dir c = (case dir of Right \<Rightarrow> encode_utf8 c | Left \<Rightarrow> rev (encode_utf8 c))"

definition skip_fullwidth :: "terminal \<Rightarrow> direction \<Rightarrow> grid_iter \<Rightarrow> cell \<Rightarrow> (grid_iter \<times> cell) option" where
  "skip_fullwidth t dir it x = (let g = t_grid t in
     case dir of
       Right \<Rightarrow> do {
         last \<leftarrow> last_column (t_dims t);
         if flag_contains (cell_flags x) WIDE_CHAR \<and> column (it_point it) < last then do {
           (_, it) \<leftarrow> iter_next g it;
           Some (it, x)
         }
         else if flag_contains (cell_flags x) LEADING_WIDE_CHAR_SPACER then do {
           (res, it) \<leftarrow> iter_next g it;
           let x = (case res of Some (_, y) \<Rightarrow> y | None \<Rightarrow> x);
           (_, it) \<leftarrow> iter_next g it;
           Some (it, x)
         }
         else Some (it, x)
       }
     | Left \<Rightarrow>
         if flag_contains (cell_flags x) WIDE_CHAR_SPACER then do {
           (res, it) \<leftarrow> iter_prev g it;
           let x = (case res of Some (_, y) \<Rightarrow> y | None \<Rightarrow> x);
           prev \<leftarrow> point_sub (t_dims t) Boundary_Grid 1 (it_point it);
           y \<leftarrow> grid_cell_at g prev;
           if flag_contains (cell_flags y) LEADING_WIDE_CHAR_SPACER then do {
             (_, it) \<leftarrow> iter_prev g it;
             Some (it, x)
           }
           else Some (it, x)
         }
         else Some (it, x))"

definition advance_cell :: "terminal \<Rightarrow> direction \<Rightarrow> ('s, 'c) search_state \<Rightarrow> (grid_iter \<times> cell) option" where
  \<comment> \<open>the next cell, wrapping around to the other end of the scrollback buffer\<close>
  "advance_cell t dir st = do {
     let g = t_grid t;
     (res, it) \<leftarrow> (case dir of Right \<Rightarrow> iter_next g (rs_iter st) | Left \<Rightarrow> iter_prev g (rs_iter st));
     case res of
       Some (_, x) \<Rightarrow> Some (it, x)
     | None \<Rightarrow> do {
         last \<leftarrow> last_column (t_dims t);
         c \<leftarrow> csub last (column (rs_point st));
         it \<leftarrow> iter_from g (Point (topmost_line (t_dims t) - line (rs_point st) + int (g_lines g) - 1) c);
         x \<leftarrow> grid_cell_at g (it_point it);
         Some (it, x)
       }
   }"

definition eoi_state :: "('s, 'e, 'c) lazy_dfa \<Rightarrow> ('s, 'c) search_state \<Rightarrow> ('e, ('s, 'c) search_state) flow" where
  "eoi_state r st =
     (case next_eoi_state (ldfa r) (rs_state st) (rs_cache st) of
        (Inl e, c) \<Rightarrow> Fail e (st\<lparr>rs_cache := c\<rparr>)
      | (Inr s, c) \<Rightarrow> Proceed (st\<lparr>rs_state := s, rs_cache := c\<rparr>))"

definition finish_search :: "('s, 'e, 'c) lazy_dfa \<Rightarrow> ('s, 'c) search_state \<Rightarrow> ('e, ('s, 'c) search_state) flow" where
  "finish_search r st =
     (case eoi_state r st of
        Proceed st \<Rightarrow> Break
          (if is_match (ldfa r) (rs_state st) then st\<lparr>rs_match := Some (rs_point st)\<rparr>
           else if is_dead (ldfa r) (rs_state st) \<and> consumed_bytes st = 1 then st\<lparr>rs_match := None\<rparr>
           else st)
      | fl \<Rightarrow> fl)"

definition linebreak :: "('s, 'e, 'c) lazy_dfa \<Rightarrow> ('s, 'c) search_state \<Rightarrow> ('e, ('s, 'c) search_state) flow" where
  "linebreak r st =
     (case eoi_state r st of
        Proceed st \<Rightarrow>
          (let st = (if is_match (ldfa r) (rs_state st) then st\<lparr>rs_match := Some (rs_last_point st)\<rparr> else st) in
           if rs_match st \<noteq> None \<and> (\<not> is_dead (ldfa r) (rs_state st) \<or> consumed_bytes st > 1) \<and> consumed_bytes st \<noteq> 0
           then Break st
           else restart_search r st)
      | fl \<Rightarrow> fl)"

definition at_linebreak :: "nat \<Rightarrow> bool \<Rightarrow> ('s, 'c) search_state \<Rightarrow> bool" where
  "at_linebreak last_col wrapped st \<longleftrightarrow>
     column (rs_last_point st) = last_col \<and> column (rs_point st) = 0 \<and> \<not> rs_last_wrapped st
     \<or> column (rs_last_point st) = 0 \<and> column (rs_point st) = last_col \<and> \<not> wrapped"

definition next_cell :: "terminal \<Rightarrow> point \<Rightarrow> ('s, 'e, 'c) lazy_dfa \<Rightarrow> ('s, 'c) search_state \<Rightarrow> ('e, ('s, 'c) search_state) flow option" where
  "next_cell t end r st = do {
     last_col \<leftarrow> last_column (t_dims t);
     (it, x) \<leftarrow> advance_cell t (ldfa_direction r) st;
     let completed = (it_point it = end);
     (it, x) \<leftarrow> skip_fullwidth t (ldfa_direction r) it x;
     y \<leftarrow> grid_cell_at (t_grid t) (it_point it);
     let wrapped = flag_contains (cell_flags y) WRAPLINE;
     let st = st\<lparr>rs_iter := it, rs_done := completed, rs_c := cell_c x, rs_last_point := rs_point st, rs_point := it_point it\<rparr>;
     Some (case (if at_linebreak last_col wrapped st then linebreak r st else Proceed st) of
       Proceed st \<Rightarrow> Proceed (st\<lparr>rs_last_wrapped := wrapped\<rparr>)
     | fl \<Rightarrow> fl)
   }"

definition search_step :: "terminal \<Rightarrow> point \<Rightarrow> ('s, 'e, 'c) lazy_dfa \<Rightarrow> ('s, 'c) search_state \<Rightarrow> ('e, ('s, 'c) search_state) flow option" where
  \<comment> \<open>an iteration of the outer loop\<close>
  "search_step t end r st =
     (case feed r 0 (char_bytes (ldfa_direction r) (rs_c st)) st of
        Proceed st \<Rightarrow> if rs_point st = end \<or> rs_done st then Some (finish_search r st) else next_cell t end r st
      | fl \<Rightarrow> Some fl)"

partial_function (option) search_loop ::
  "terminal \<Rightarrow> point \<Rightarrow> ('s, 'e, 'c) lazy_dfa \<Rightarrow> ('s, 'c) search_state \<Rightarrow> (('e + point option) \<times> 'c) option" where
  "search_loop t end r st =
     Option.bind (search_step t end r st) (\<lambda>fl.
       case fl of
         Fail e st \<Rightarrow> Some (Inl e, rs_cache st)
       | Break st \<Rightarrow> Some (Inr (rs_match st), rs_cache st)
       | Continue st \<Rightarrow> search_loop t end r st
       | Proceed st \<Rightarrow> search_loop t end r st)"

definition regex_search_internal ::
  "terminal \<Rightarrow> point \<Rightarrow> point \<Rightarrow> ('s, 'e, 'c) lazy_dfa \<Rightarrow> (('e + point option) \<times> ('s, 'e, 'c) lazy_dfa) option" where
  "regex_search_internal t start end r = do {
     (s, c) \<leftarrow> (case start_state_forward (ldfa r) (match_all r) (ldfa_cache r) of
                 (Inl _, _) \<Rightarrow> None \<comment> \<open>\<^verbatim>\<open>unwrap\<close>\<close>
               | (Inr s, c) \<Rightarrow> Some (s, c));
     it \<leftarrow> iter_from (t_grid t) start;
     x \<leftarrow> grid_cell_at (t_grid t) (it_point it);
     (it, x) \<leftarrow> skip_fullwidth t (ldfa_direction r) it x;
     y \<leftarrow> grid_cell_at (t_grid t) (it_point it);
     (res, c) \<leftarrow> search_loop t end r
       \<lparr>rs_state = s, rs_cache = c, rs_iter = it, rs_match = None, rs_done = False, rs_c = cell_c x,
        rs_last_wrapped = flag_contains (cell_flags y) WRAPLINE, rs_point = it_point it, rs_last_point = it_point it,
        consumed_bytes = 0\<rparr>;
     Some (res, r\<lparr>ldfa_cache := c\<rparr>)
   }"

definition term_regex_search ::
  "terminal \<Rightarrow> point \<Rightarrow> point \<Rightarrow> ('s, 'e, 'c) lazy_dfa \<Rightarrow> (point option \<times> ('s, 'e, 'c) lazy_dfa) option" where
  "term_regex_search t start end r =
     map_option (apfst (case_sum (\<lambda>_. None) id)) (regex_search_internal t start end r)"

type_synonym match_range = "point \<times> point"

definition regex_search_left ::
  "terminal \<Rightarrow> ('s, 'e, 'c) regex_search \<Rightarrow> point \<Rightarrow> point \<Rightarrow> (match_range option \<times> ('s, 'e, 'c) regex_search) option" where
  "regex_search_left t re start end = do {
     (m, r) \<leftarrow> term_regex_search t start end (left_fdfa re);
     let re = re\<lparr>left_fdfa := r\<rparr>;
     case m of
       None \<Rightarrow> Some (None, re)
     | Some match_start \<Rightarrow> do {
         (m, r) \<leftarrow> term_regex_search t match_start start (left_rdfa re);
         Some (map_option (\<lambda>match_end. (match_start, match_end)) m, re\<lparr>left_rdfa := r\<rparr>)
       }
   }"

definition regex_search_right ::
  "terminal \<Rightarrow> ('s, 'e, 'c) regex_search \<Rightarrow> point \<Rightarrow> point \<Rightarrow> (match_range option \<times> ('s, 'e, 'c) regex_search) option" where
  "regex_search_right t re start end = do {
     (m, r) \<leftarrow> term_regex_search t start end (right_fdfa re);
     let re = re\<lparr>right_fdfa := r\<rparr>;
     case m of
       None \<Rightarrow> Some (None, re)
     | Some match_end \<Rightarrow> do {
         (m, r) \<leftarrow> term_regex_search t match_end start (right_rdfa re);
         Some (map_option (\<lambda>match_start. (match_start, match_end)) m, re\<lparr>right_rdfa := r\<rparr>)
       }
   }"

section \<open>Iterating over matches\<close>

record ('s, 'e, 'c) regex_iter =
  ri_point :: point
  ri_end :: point
  ri_direction :: direction
  ri_regex :: "('s, 'e, 'c) regex_search"
  ri_done :: bool

definition regex_iter_new :: "point \<Rightarrow> point \<Rightarrow> direction \<Rightarrow> ('s, 'e, 'c) regex_search \<Rightarrow> ('s, 'e, 'c) regex_iter" where
  "regex_iter_new start end dir re = \<lparr>ri_point = start, ri_end = end, ri_direction = dir, ri_regex = re, ri_done = False\<rparr>"

definition regex_iter_skip :: "terminal \<Rightarrow> ('s, 'e, 'c) regex_iter \<Rightarrow> ('s, 'e, 'c) regex_iter option" where
  "regex_iter_skip t ri = do {
     p \<leftarrow> expand_wide t (ri_point ri) (ri_direction ri);
     p \<leftarrow> (case ri_direction ri of
             Right \<Rightarrow> point_add (t_dims t) Boundary_None 1 p
           | Left \<Rightarrow> point_sub (t_dims t) Boundary_None 1 p);
     Some (ri\<lparr>ri_point := p\<rparr>)
   }"

definition iter_next_match :: "terminal \<Rightarrow> ('s, 'e, 'c) regex_iter \<Rightarrow> (match_range option \<times> ('s, 'e, 'c) regex_iter) option" where
  "iter_next_match t ri = do {
     (m, re) \<leftarrow> (case ri_direction ri of
                  Right \<Rightarrow> regex_search_right t (ri_regex ri) (ri_point ri) (ri_end ri)
                | Left \<Rightarrow> regex_search_left t (ri_regex ri) (ri_point ri) (ri_end ri));
     Some (m, ri\<lparr>ri_regex := re\<rparr>)
   }"

definition regex_iter_next :: "terminal \<Rightarrow> ('s, 'e, 'c) regex_iter \<Rightarrow> (match_range option \<times> ('s, 'e, 'c) regex_iter) option" where
  "regex_iter_next t ri =
     (if ri_done ri then Some (None, ri)
      else do {
        let ri = (if ri_point ri = ri_end ri then ri\<lparr>ri_done := True\<rparr> else ri);
        (m, ri) \<leftarrow> iter_next_match t ri;
        case m of
          None \<Rightarrow> Some (None, ri)
        | Some (s, e) \<Rightarrow> do {
            let ri = ri\<lparr>ri_point := e\<rparr>;
            ri \<leftarrow> (if ri_point ri = ri_end ri then Some (ri\<lparr>ri_done := True\<rparr>) else regex_iter_skip t ri);
            Some (Some (s, e), ri)
          }
      })"

partial_function (option) find_match ::
  "terminal \<Rightarrow> (match_range \<Rightarrow> bool) \<Rightarrow> ('s, 'e, 'c) regex_iter \<Rightarrow> (match_range option \<times> ('s, 'e, 'c) regex_iter) option" where
  "find_match t f ri =
     Option.bind (regex_iter_next t ri) (\<lambda>(m, ri).
       case m of
         None \<Rightarrow> Some (None, ri)
       | Some mr \<Rightarrow> if f mr then Some (Some mr, ri) else find_match t f ri)"

definition match_side :: "match_range \<Rightarrow> direction \<Rightarrow> point" where
  "match_side mr side = (case side of Right \<Rightarrow> snd mr | Left \<Rightarrow> fst mr)"

definition first_or_found ::
  "terminal \<Rightarrow> (match_range \<Rightarrow> bool) \<Rightarrow> ('s, 'e, 'c) regex_iter \<Rightarrow> (match_range option \<times> ('s, 'e, 'c) regex_search) option" where
  \<comment> \<open>\<^verbatim>\<open>peek\<close>, then \<^verbatim>\<open>find(..).unwrap_or(first_match)\<close>\<close>
  "first_or_found t f ri = do {
     (m, ri) \<leftarrow> regex_iter_next t ri;
     case m of
       None \<Rightarrow> Some (None, ri_regex ri)
     | Some first \<Rightarrow>
         if f first then Some (Some first, ri_regex ri)
         else do {
           (m, ri) \<leftarrow> find_match t f ri;
           Some (Some (case m of Some mr \<Rightarrow> mr | None \<Rightarrow> first), ri_regex ri)
         }
   }"

definition next_match_right ::
  "terminal \<Rightarrow> ('s, 'e, 'c) regex_search \<Rightarrow> point \<Rightarrow> direction \<Rightarrow> nat option \<Rightarrow> (match_range option \<times> ('s, 'e, 'c) regex_search) option" where
  "next_match_right t re origin side max_lines = do {
     start \<leftarrow> line_search_left t origin;
     end \<leftarrow> (case max_lines of
               Some n \<Rightarrow> do {
                 l \<leftarrow> line_grid_clamp (t_dims t) Boundary_None (line start + int n);
                 last \<leftarrow> last_column (t_dims t);
                 Some (Point l last)
               }
             | None \<Rightarrow> point_sub (t_dims t) Boundary_None 1 start);
     first_or_found t
       (\<lambda>mr. let p = match_side mr side in
          line p < line start \<or> line p > line origin \<or> line p = line origin \<and> column p \<ge> column origin)
       (regex_iter_new start end Right re)
   }"

definition next_match_left ::
  "terminal \<Rightarrow> ('s, 'e, 'c) regex_search \<Rightarrow> point \<Rightarrow> direction \<Rightarrow> nat option \<Rightarrow> (match_range option \<times> ('s, 'e, 'c) regex_search) option" where
  "next_match_left t re origin side max_lines = do {
     start \<leftarrow> line_search_right t origin;
     end \<leftarrow> (case max_lines of
               Some n \<Rightarrow> do {
                 l \<leftarrow> line_grid_clamp (t_dims t) Boundary_None (line start - int n);
                 Some (Point l 0)
               }
             | None \<Rightarrow> point_add (t_dims t) Boundary_None 1 start);
     first_or_found t
       (\<lambda>mr. let p = match_side mr side in
          line p > line start \<or> line p < line origin \<or> line p = line origin \<and> column p \<le> column origin)
       (regex_iter_new start end Left re)
   }"

definition search_next ::
  "terminal \<Rightarrow> ('s, 'e, 'c) regex_search \<Rightarrow> point \<Rightarrow> direction \<Rightarrow> direction \<Rightarrow> nat option \<Rightarrow> (match_range option \<times> ('s, 'e, 'c) regex_search) option" where
  "search_next t re origin dir side max_lines = do {
     origin \<leftarrow> expand_wide t origin dir;
     let max_lines = (case max_lines of Some n \<Rightarrow> if n + 1 < total_lines (t_dims t) then Some n else None | None \<Rightarrow> None);
     case dir of
       Right \<Rightarrow> next_match_right t re origin side max_lines
     | Left \<Rightarrow> next_match_left t re origin side max_lines
   }"

section \<open>Positions\<close>

lemma mod_less_one:
  assumes "0 < (n::int)" "a mod n \<noteq> 0"
  shows "(a - 1) mod n = a mod n - 1"
proof -
  have "0 \<le> a mod n" "a mod n < n" using assms(1) by simp_all
  then have "(a mod n - 1) mod n = a mod n - 1" using assms by (intro mod_pos_pos_trivial) linarith+
  then show ?thesis by (metis mod_diff_left_eq)
qed

text \<open>The number of steps from a point to the end of the search, around the grid.\<close>

definition remaining :: "dimensions \<Rightarrow> direction \<Rightarrow> point \<Rightarrow> point \<Rightarrow> int" where
  "remaining d dir e p =
     (case dir of Right \<Rightarrow> cell_index d e - cell_index d p | Left \<Rightarrow> cell_index d p - cell_index d e) mod cell_count d"

definition towards :: "direction \<Rightarrow> int \<Rightarrow> int" where
  "towards dir k = (case dir of Right \<Rightarrow> k + 1 | Left \<Rightarrow> k - 1)"

lemma remaining_zero:
  assumes "dims_ok d" "in_grid d e" "in_grid d p"
  shows "remaining d dir e p = 0 \<longleftrightarrow> p = e"
proof -
  note b = cell_index_bounds [OF assms(1,2)] cell_index_bounds [OF assms(1,3)]
  have "remaining d dir e p = 0 \<longleftrightarrow> cell_count d dvd cell_index d p - cell_index d e"
    by (cases dir) (auto simp: remaining_def dvd_diff_commute)
  also have "\<dots> \<longleftrightarrow> cell_index d p = cell_index d e"
  proof
    assume "cell_count d dvd cell_index d p - cell_index d e"
    then have "cell_count d dvd \<bar>cell_index d p - cell_index d e\<bar>" by simp
    moreover have "\<bar>cell_index d p - cell_index d e\<bar> < cell_count d" using b by linarith
    ultimately show "cell_index d p = cell_index d e" using zdvd_imp_le by fastforce
  qed simp
  also have "\<dots> \<longleftrightarrow> p = e" using cell_index_inj [OF assms(1,3,2)] by auto
  finally show ?thesis .
qed

lemma remaining_nonneg: "dims_ok d \<Longrightarrow> in_grid d p \<Longrightarrow> 0 \<le> remaining d dir e p"
  using cell_index_bounds [of d p] by (simp add: remaining_def)

lemma remaining_step:
  assumes "dims_ok d" "in_grid d e" "in_grid d p" "p \<noteq> e"
    and "cell_index d q mod cell_count d = towards dir (cell_index d p) mod cell_count d"
  shows "remaining d dir e q = remaining d dir e p - 1"
proof -
  let ?a = "case dir of Right \<Rightarrow> cell_index d e - cell_index d p | Left \<Rightarrow> cell_index d p - cell_index d e"
  have n: "0 < cell_count d" using cell_index_bounds [OF assms(1,3)] by linarith
  have "remaining d dir e q = (?a - 1) mod cell_count d"
  proof (cases dir)
    case Right
    then have "(cell_index d e - cell_index d q) mod cell_count d = (cell_index d e - (cell_index d p + 1)) mod cell_count d"
      using assms(5) by (intro mod_diff_cong) (auto simp: towards_def)
    then show ?thesis using Right by (simp add: remaining_def algebra_simps)
  next
    case Left
    then have "(cell_index d q - cell_index d e) mod cell_count d = (cell_index d p - 1 - cell_index d e) mod cell_count d"
      using assms(5) by (intro mod_diff_cong) (auto simp: towards_def)
    then show ?thesis using Left by (simp add: remaining_def algebra_simps)
  qed
  moreover have "?a mod cell_count d \<noteq> 0" using remaining_zero [OF assms(1-3)] assms(4) by (simp add: remaining_def)
  ultimately show ?thesis using mod_less_one [OF n] by (simp add: remaining_def)
qed

section \<open>Moving over the grid\<close>

text \<open>The iterators of the search are at a point of the grid and run to its last cell.\<close>

definition iter_ok :: "grid \<Rightarrow> grid_iter \<Rightarrow> bool" where
  "iter_ok g it \<longleftrightarrow> in_grid (grid_dims g) (it_point it) \<and> it_end it = point_at (grid_dims g) (cell_count (grid_dims g) - 1)"

lemma iter_okD:
  assumes "grid_ok g" "iter_ok g it"
  shows "in_grid (grid_dims g) (it_point it)" "in_grid (grid_dims g) (it_end it)" "iter_position g (it_point it)"
    "topmost_line (grid_dims g) \<le> line (it_point it)"
    "it_point it \<ge> it_end it \<longleftrightarrow> cell_index (grid_dims g) (it_point it) = cell_count (grid_dims g) - 1"
    "it_point it \<le> Point (topmost_line (grid_dims g)) 0 \<longleftrightarrow> cell_index (grid_dims g) (it_point it) = 0"
proof -
  let ?d = "grid_dims g" and ?p = "it_point it"
  note d = grid_okD(6) [OF assms(1)]
  show p: "in_grid ?d ?p" using assms(2) by (simp add: iter_ok_def)
  have b: "0 \<le> cell_index ?d ?p" "cell_index ?d ?p < cell_count ?d" using cell_index_bounds [OF d p] by auto
  show e: "in_grid ?d (it_end it)" using point_at_in_grid [OF d] b assms(2) by (simp add: iter_ok_def)
  show "iter_position g ?p" "topmost_line ?d \<le> line ?p"
    using p by (auto simp: iter_position_def in_grid_def grid_dims_def)
  have ec: "cell_index ?d (it_end it) = cell_count ?d - 1" using assms(2) d by (simp add: iter_ok_def)
  show "?p \<ge> it_end it \<longleftrightarrow> cell_index ?d ?p = cell_count ?d - 1"
    using cell_index_le_iff [of "it_end it" ?d ?p] e p b ec by (auto simp: in_grid_def)
  have z: "in_grid ?d (Point (topmost_line ?d) 0)" using d line_span [OF d] by (auto simp: in_grid_def dims_ok_def)
  show "?p \<le> Point (topmost_line ?d) 0 \<longleftrightarrow> cell_index ?d ?p = 0"
    using cell_index_le_iff [of ?p ?d "Point (topmost_line ?d) 0"] p z b by (auto simp: in_grid_def cell_index_def [of _ "Point _ _"])
qed

definition iter_step :: "direction \<Rightarrow> grid \<Rightarrow> grid_iter \<Rightarrow> ((point \<times> cell) option \<times> grid_iter) option" where
  "iter_step dir g it = (case dir of Right \<Rightarrow> iter_next g it | Left \<Rightarrow> iter_prev g it)"

definition at_edge :: "direction \<Rightarrow> grid \<Rightarrow> point \<Rightarrow> bool" where
  "at_edge dir g p \<longleftrightarrow> cell_index (grid_dims g) p = (case dir of Right \<Rightarrow> cell_count (grid_dims g) - 1 | Left \<Rightarrow> 0)"

lemma iter_step_ok:
  assumes "grid_ok g" "iter_ok g it"
  shows "ok (iter_step dir g it) (\<lambda>(res, it'). iter_ok g it' \<and>
    (if at_edge dir g (it_point it) then res = None \<and> it' = it
     else cell_index (grid_dims g) (it_point it') = towards dir (cell_index (grid_dims g) (it_point it))
       \<and> (\<exists>x. grid_cell_at g (it_point it') = Some x \<and> res = Some (it_point it', x))))"
proof (cases dir)
  case Right
  have "column (it_point it) \<noteq> g_columns g" using iter_okD(1) [OF assms] by (auto simp: in_grid_def grid_dims_def)
  then show ?thesis
    using iter_next_ok [OF assms(1) iter_okD(3,2) [OF assms]] iter_okD(5) [OF assms] assms(2) Right
    by (auto simp: iter_step_def at_edge_def iter_ok_def towards_def elim!: ok_mono split: if_splits) (metis option.exhaust surj_pair)
next
  case Left
  then show ?thesis
    using iter_prev_ok [OF assms(1) iter_okD(3,4) [OF assms]] iter_okD(6) [OF assms] assms(2)
    by (auto simp: iter_step_def at_edge_def iter_ok_def towards_def elim!: ok_mono split: if_splits) (metis option.exhaust surj_pair)
qed

definition leading :: "grid \<Rightarrow> int \<Rightarrow> bool" where
  "leading g k \<longleftrightarrow> flag_contains (cell_flags (snd (indexed g k))) LEADING_WIDE_CHAR_SPACER"

definition skips :: "direction \<Rightarrow> grid \<Rightarrow> point \<Rightarrow> point \<Rightarrow> bool" where
  "skips dir g p q \<longleftrightarrow> (let i = cell_index (grid_dims g) p; j = cell_index (grid_dims g) q in
     j = i \<or> j = towards dir i
     \<or> j = towards dir (towards dir i) \<and> leading g (case dir of Right \<Rightarrow> i | Left \<Rightarrow> j))"

lemma leading_at:
  assumes "grid_ok g" "in_grid (grid_dims g) p" "grid_cell_at g p = Some x"
  shows "leading g (cell_index (grid_dims g) p) \<longleftrightarrow> flag_contains (cell_flags x) LEADING_WIDE_CHAR_SPACER"
  using indexed_Some(1) [OF assms(1,2)] assms(3) by (simp add: leading_def)

definition stepped :: "direction \<Rightarrow> grid \<Rightarrow> grid_iter \<Rightarrow> (point \<times> cell) option \<Rightarrow> grid_iter \<Rightarrow> bool" where
  "stepped dir g it res it' \<longleftrightarrow> iter_ok g it' \<and>
     (if at_edge dir g (it_point it) then res = None \<and> it' = it
      else cell_index (grid_dims g) (it_point it') = towards dir (cell_index (grid_dims g) (it_point it))
        \<and> (\<exists>x. grid_cell_at g (it_point it') = Some x \<and> res = Some (it_point it', x)))"

lemma iter_step_moves:
  assumes "grid_ok g" "iter_ok g it"
  obtains res it' where "iter_step dir g it = Some (res, it')" "stepped dir g it res it'"
  using iter_step_ok [OF assms, of dir] by (auto elim!: okE simp: stepped_def)

lemma skip_right_ok:
  assumes "grid_ok (t_grid t)" "iter_ok (t_grid t) it" "grid_cell_at (t_grid t) (it_point it) = Some x"
  shows "ok (skip_fullwidth t Right it x) (\<lambda>(it', _). iter_ok (t_grid t) it' \<and> skips Right (t_grid t) (it_point it) (it_point it'))"
proof -
  let ?g = "t_grid t"
  have last: "last_column (t_dims t) = Some (t_columns t - 1)" using grid_okD(6) [OF assms(1)] by (simp add: grid_dims_def)
  obtain res it1 where 1: "iter_step Right ?g it = Some (res, it1)" "stepped Right ?g it res it1"
    by (rule iter_step_moves [OF assms(1,2)])
  have it1: "iter_ok ?g it1" using 1(2) by (simp add: stepped_def)
  obtain res2 it2 where 2: "iter_step Right ?g it1 = Some (res2, it2)" "stepped Right ?g it1 res2 it2"
    by (rule iter_step_moves [OF assms(1) it1])
  have n: "iter_next ?g it = Some (res, it1)" "iter_next ?g it1 = Some (res2, it2)" using 1(1) 2(1) by (simp_all add: iter_step_def)
  note lead = leading_at [OF assms(1) iter_okD(1) [OF assms(1,2)] assms(3)]
  show ?thesis using assms(2) 1(2) 2(2)
    by (cases "at_edge Right ?g (it_point it)"; cases "at_edge Right ?g (it_point it1)")
      (auto simp: skip_fullwidth_def last n lead skips_def Let_def stepped_def)
qed

lemma skip_left_ok:
  assumes "grid_ok (t_grid t)" "iter_ok (t_grid t) it"
  shows "ok (skip_fullwidth t Left it x) (\<lambda>(it', _). iter_ok (t_grid t) it' \<and> skips Left (t_grid t) (it_point it) (it_point it'))"
proof -
  let ?g = "t_grid t" and ?d = "t_dims t"
  note d = grid_okD(6) [OF assms(1)]
  obtain res it1 where 1: "iter_step Left ?g it = Some (res, it1)" "stepped Left ?g it res it1"
    by (rule iter_step_moves [OF assms(1,2)])
  have it1: "iter_ok ?g it1" using 1(2) by (simp add: stepped_def)
  obtain res2 it2 where 2: "iter_step Left ?g it1 = Some (res2, it2)" "stepped Left ?g it1 res2 it2"
    by (rule iter_step_moves [OF assms(1) it1])
  have n: "iter_prev ?g it = Some (res, it1)" "iter_prev ?g it1 = Some (res2, it2)" using 1(1) 2(1) by (simp_all add: iter_step_def)
  note p1 = iter_okD(1) [OF assms(1) it1]
  have "column (it_point it1) < columns ?d" using p1 by (simp add: in_grid_def)
  from point_sub_index(1) [OF d this, of 1] point_sub_within [OF d, of Boundary_Grid 1 "it_point it1"]
  obtain q where q: "point_sub ?d Boundary_Grid 1 (it_point it1) = Some q" "in_grid ?d q"
      "cell_index ?d q = max 0 (min (cell_count ?d - 1) (cell_index ?d (it_point it1) - 1))"
    by (auto elim!: okE)
  obtain y where y: "grid_cell_at ?g q = Some y" using grid_cell_ok [OF assms(1) q(2)] by (auto elim: okE)
  have lead: "leading ?g (cell_index ?d (it_point it1) - 1)"
    if "\<not> at_edge Left ?g (it_point it1)" "flag_contains (cell_flags y) LEADING_WIDE_CHAR_SPACER"
    using leading_at [OF assms(1) q(2) y] that q(3) cell_index_bounds [OF d p1] by (simp add: at_edge_def)
  show ?thesis using assms(2) 1(2) 2(2) lead q(1) [simplified] y n
    by (cases "at_edge Left ?g (it_point it)"; cases "at_edge Left ?g (it_point it1)")
      (auto simp: skip_fullwidth_def skips_def Let_def towards_def stepped_def)
qed

lemma skip_fullwidth_ok:
  assumes "grid_ok (t_grid t)" "iter_ok (t_grid t) it" "grid_cell_at (t_grid t) (it_point it) = Some x"
  shows "ok (skip_fullwidth t dir it x) (\<lambda>(it', _). iter_ok (t_grid t) it' \<and> skips dir (t_grid t) (it_point it) (it_point it'))"
  using skip_right_ok [OF assms] skip_left_ok [OF assms(1,2), of x] by (cases dir) simp_all

text \<open>
  The search checks for the end before and after it skips over the halves of a wide character. The one cell it does not see is
  a wide character behind the spacer that ends the line above.
\<close>

definition after_leading_spacer :: "grid \<Rightarrow> point \<Rightarrow> bool" where
  "after_leading_spacer g e =
     (case point_sub (grid_dims g) Boundary_Grid 1 e of
        None \<Rightarrow> False
      | Some q \<Rightarrow> q \<noteq> e \<and> (case grid_cell_at g q of None \<Rightarrow> False | Some x \<Rightarrow> flag_contains (cell_flags x) LEADING_WIDE_CHAR_SPACER))"

lemma not_after_leading:
  assumes "grid_ok g" "in_grid (grid_dims g) e" "\<not> after_leading_spacer g e" "0 < cell_index (grid_dims g) e"
  shows "\<not> leading g (cell_index (grid_dims g) e - 1)"
proof -
  let ?d = "grid_dims g"
  note d = grid_okD(6) [OF assms(1)]
  have "column e < columns ?d" using assms(2) by (simp add: in_grid_def)
  from point_sub_index(1) [OF d this, of 1] point_sub_within [OF d, of Boundary_Grid 1 e]
  obtain q where q: "point_sub ?d Boundary_Grid 1 e = Some q" "in_grid ?d q" "cell_index ?d q = cell_index ?d e - 1"
    using assms(4) cell_index_bounds [OF d assms(2)] by (auto elim!: okE)
  obtain x where x: "grid_cell_at g q = Some x" using grid_cell_ok [OF assms(1) q(2)] by (auto elim: okE)
  have "q \<noteq> e" using q(3) by auto
  then show ?thesis using assms(3) q x leading_at [OF assms(1) q(2) x] by (simp add: after_leading_spacer_def)
qed

lemma remaining_skip:
  assumes "grid_ok g" "in_grid (grid_dims g) e" "\<not> after_leading_spacer g e"
    and "in_grid (grid_dims g) p" "in_grid (grid_dims g) q" "p \<noteq> e" "skips dir g p q"
  shows "remaining (grid_dims g) dir e q \<le> remaining (grid_dims g) dir e p"
proof -
  let ?d = "grid_dims g"
  note d = grid_okD(6) [OF assms(1)]
  note step = remaining_step [OF d assms(2)]
  consider "cell_index ?d q = cell_index ?d p" | "cell_index ?d q = towards dir (cell_index ?d p)"
    | "cell_index ?d q = towards dir (towards dir (cell_index ?d p))"
      "leading g (case dir of Right \<Rightarrow> cell_index ?d p | Left \<Rightarrow> cell_index ?d q)"
    using assms(7) by (auto simp: skips_def Let_def)
  then show ?thesis
  proof cases
    case 1
    then show ?thesis by (simp add: remaining_def split: direction.split)
  next
    case 2
    then show ?thesis using step [OF assms(4,6), of q dir] by simp
  next
    case 3
    let ?m = "point_at ?d (towards dir (cell_index ?d p))"
    have m: "cell_index ?d ?m = towards dir (cell_index ?d p)" using d by simp
    have "in_grid ?d ?m" using cell_index_bounds [OF d assms(4)] cell_index_bounds [OF d assms(5)] 3(1)
      by (intro point_at_in_grid [OF d]) (cases dir; simp add: towards_def)+
    moreover have "?m \<noteq> e"
      using not_after_leading [OF assms(1-3)] 3 m cell_index_bounds [OF d assms(4)] cell_index_bounds [OF d assms(5)]
      by (cases dir) (auto simp: towards_def)
    ultimately show ?thesis using step [OF assms(4,6), of ?m dir] step [of ?m q dir] m 3(1) by simp
  qed
qed

lemma advance_cell_ok:
  assumes "grid_ok (t_grid t)" "iter_ok (t_grid t) (rs_iter st)" "rs_point st = it_point (rs_iter st)"
  shows "ok (advance_cell t dir st) (\<lambda>(it, x). iter_ok (t_grid t) it \<and> grid_cell_at (t_grid t) (it_point it) = Some x
    \<and> cell_index (t_dims t) (it_point it) = towards dir (cell_index (t_dims t) (rs_point st)) mod cell_count (t_dims t))"
proof -
  let ?g = "t_grid t" and ?d = "t_dims t" and ?it = "rs_iter st" and ?p = "rs_point st"
  note d = grid_okD(6) [OF assms(1)] and p = iter_okD(1) [OF assms(1,2), folded assms(3)]
  have b: "0 \<le> cell_index ?d ?p" "cell_index ?d ?p < cell_count ?d" using cell_index_bounds [OF d p] by auto
  obtain res it where s: "iter_step dir ?g ?it = Some (res, it)" "stepped dir ?g ?it res it"
    by (rule iter_step_moves [OF assms(1,2)])
  show ?thesis
  proof (cases "at_edge dir ?g ?p")
    case False
    then have "towards dir (cell_index ?d ?p) mod cell_count ?d = towards dir (cell_index ?d ?p)"
      using b by (cases dir) (auto simp: at_edge_def towards_def)
    then show ?thesis using s False assms(3) by (auto simp: advance_cell_def iter_step_def stepped_def Let_def)
  next
    case True
    let ?q = "Point (topmost_line ?d - line ?p + int (g_lines ?g) - 1) (t_columns t - 1 - column ?p)"
    have cols: "columns ?d = t_columns t" "bottommost_line ?d = int (g_lines ?g) - 1" by (simp_all add: grid_dims_def bottommost_line_def)
    have q: "in_grid ?d ?q" using p grid_okD(3) [OF assms(1)] by (auto simp: in_grid_def cols)
    have "cell_index ?d ?q = cell_count ?d - 1 - cell_index ?d ?p"
      using line_span [OF d] p grid_okD(3) [OF assms(1)]
      by (auto simp: cell_index_def cell_count_def cols in_grid_def of_nat_diff algebra_simps)
    then have "cell_index ?d ?q = towards dir (cell_index ?d ?p) mod cell_count ?d"
      using True b by (cases dir) (auto simp: at_edge_def towards_def zmod_minus1)
    moreover obtain x where "grid_cell_at ?g ?q = Some x" using grid_cell_ok [OF assms(1) q] by (auto elim: okE)
    moreover have "csub (t_columns t - 1) (column ?p) = Some (t_columns t - 1 - column ?p)"
      using p by (auto simp: csub_def in_grid_def cols)
    ultimately show ?thesis using s True assms(3) q d
      by (auto simp: advance_cell_def iter_step_def stepped_def Let_def iter_from_ok [OF assms(1)] iter_ok_def cols split: direction.splits)
  qed
qed

section \<open>The loop ends\<close>

fun flow_ok :: "('s \<Rightarrow> bool) \<Rightarrow> ('s \<Rightarrow> bool) \<Rightarrow> ('s \<Rightarrow> bool) \<Rightarrow> ('e, 's) flow \<Rightarrow> bool" where
  "flow_ok B C P (Fail e s) = True"
| "flow_ok B C P (Break s) = B s"
| "flow_ok B C P (Continue s) = C s"
| "flow_ok B C P (Proceed s) = P s"

definition match_ok :: "grid \<Rightarrow> ('s, 'c) search_state \<Rightarrow> bool" where
  "match_ok g st \<longleftrightarrow> pred_option (in_grid (grid_dims g)) (rs_match st)"

definition search_inv :: "grid \<Rightarrow> ('s, 'c) search_state \<Rightarrow> bool" where
  "search_inv g st \<longleftrightarrow> iter_ok g (rs_iter st) \<and> rs_point st = it_point (rs_iter st)
     \<and> in_grid (grid_dims g) (rs_last_point st) \<and> match_ok g st"

definition same_place :: "('s, 'c) search_state \<Rightarrow> ('s, 'c) search_state \<Rightarrow> bool" where
  "same_place st st' \<longleftrightarrow> rs_iter st' = rs_iter st \<and> rs_done st' = rs_done st \<and> rs_point st' = rs_point st
     \<and> rs_last_point st' = rs_last_point st"

lemma same_place_trans: "same_place st1 st2 \<Longrightarrow> same_place st2 st3 \<Longrightarrow> same_place st1 st3"
  by (simp add: same_place_def)

lemma same_place_refl [simp]: "same_place st st"
  by (simp add: same_place_def)

lemma search_inv_point: "grid_ok g \<Longrightarrow> search_inv g st \<Longrightarrow> in_grid (grid_dims g) (rs_point st)"
  using iter_okD(1) by (auto simp: search_inv_def)

lemma restart_search_ok:
  "search_inv g st \<Longrightarrow>
   flow_ok (match_ok g) (\<lambda>_. False) (\<lambda>st'. search_inv g st' \<and> same_place st st' \<and> consumed_bytes st' = 0) (restart_search r st)"
  by (auto simp: restart_search_def search_inv_def match_ok_def same_place_def split: sum.split prod.split)

lemma feed_ok:
  "search_inv g st \<Longrightarrow>
   flow_ok (match_ok g)
     (\<lambda>st'. search_inv g st' \<and> same_place st st' \<and> i = 0 \<and> consumed_bytes st = 1 \<and> consumed_bytes st' = 0)
     (\<lambda>st'. search_inv g st' \<and> same_place st st')
     (feed r i bs st)"
proof (induction bs arbitrary: i st)
  case (Cons b bs)
  show ?case
  proof (cases "next_state (ldfa r) (rs_state st) b (rs_cache st)")
    case (Pair res c)
    show ?thesis
    proof (cases res)
      case (Inl e)
      then show ?thesis using Pair by simp
    next
      case (Inr s)
      define st1 where "st1 = st\<lparr>rs_state := s, rs_cache := c, consumed_bytes := consumed_bytes st + 1\<rparr>"
      define st2 where "st2 = st1\<lparr>rs_match := Some (rs_last_point st1)\<rparr>"
      have st1: "search_inv g st1" "same_place st st1" "consumed_bytes st1 = consumed_bytes st + 1"
        using Cons.prems by (simp_all add: st1_def search_inv_def match_ok_def same_place_def)
      have st2: "search_inv g st2" "same_place st st2"
        using st1 unfolding st2_def search_inv_def match_ok_def same_place_def by auto
      have feed: "feed r i (b # bs) st =
          (if i = 0 \<and> is_match (ldfa r) s then feed r (i + 1) bs st2
           else if is_dead (ldfa r) s then
             if consumed_bytes st1 = 2 then
               (case restart_search r st1 of Proceed st \<Rightarrow> if i = 0 then Continue st else feed r (i + 1) bs st | fl \<Rightarrow> fl)
             else Break st1
           else feed r (i + 1) bs st1)"
        using Pair Inr by (simp add: Let_def st1_def st2_def)
      have later: "flow_ok (match_ok g) (\<lambda>st'. search_inv g st' \<and> same_place st st' \<and> i = 0 \<and> consumed_bytes st = 1 \<and> consumed_bytes st' = 0)
          (\<lambda>st'. search_inv g st' \<and> same_place st st') (feed r (i + 1) bs s')" if "search_inv g s'" "same_place st s'" for s'
        using Cons.IH [OF that(1), of "i + 1"] same_place_trans [OF that(2)] by (cases "feed r (i + 1) bs s'") auto
      have "match_ok g st1" using st1(1) by (simp add: search_inv_def)
      then show ?thesis
        unfolding feed using later [OF st1(1,2)] later [OF st2] restart_search_ok [OF st1(1), of r] st1(3) later same_place_trans [OF st1(2)]
        by (cases "restart_search r st1") auto
    qed
  qed
qed simp

lemma eoi_state_ok:
  "search_inv g st \<Longrightarrow> flow_ok (\<lambda>_. False) (\<lambda>_. False) (\<lambda>st'. search_inv g st' \<and> same_place st st') (eoi_state r st)"
  by (auto simp: eoi_state_def search_inv_def match_ok_def same_place_def split: sum.split prod.split)

lemma finish_search_ok:
  assumes "grid_ok g" "search_inv g st"
  shows "flow_ok (match_ok g) (\<lambda>_. False) (\<lambda>_. False) (finish_search r st)"
proof (cases "eoi_state r st")
  case (Proceed st1)
  then have inv: "search_inv g st1" using eoi_state_ok [OF assms(2), of r] by simp
  then have "in_grid (grid_dims g) (rs_point st1)" by (rule search_inv_point [OF assms(1)])
  moreover have "match_ok g st1" using inv by (simp add: search_inv_def)
  ultimately show ?thesis using Proceed by (simp add: finish_search_def match_ok_def)
qed (use eoi_state_ok [OF assms(2), of r] in \<open>simp_all add: finish_search_def\<close>)

lemma linebreak_ok:
  assumes "search_inv g st"
  shows "flow_ok (match_ok g) (\<lambda>_. False) (\<lambda>st'. search_inv g st' \<and> same_place st st') (linebreak r st)"
proof (cases "eoi_state r st")
  case (Proceed st1)
  let ?st = "if is_match (ldfa r) (rs_state st1) then st1\<lparr>rs_match := Some (rs_last_point st1)\<rparr> else st1"
  have st: "search_inv g ?st" "same_place st ?st"
    using eoi_state_ok [OF assms, of r] Proceed by (auto simp: search_inv_def match_ok_def same_place_def)
  then have "match_ok g ?st" by (simp add: search_inv_def)
  then show ?thesis using restart_search_ok [OF st(1), of r] same_place_trans [OF st(2)] Proceed
    by (cases "restart_search r ?st") (simp_all add: linebreak_def Let_def)
qed (use eoi_state_ok [OF assms, of r] in \<open>simp_all add: linebreak_def\<close>)

lemma next_cell_ok:
  assumes "grid_ok (t_grid t)" "search_inv (t_grid t) st" "in_grid (t_dims t) e"
    and "\<not> after_leading_spacer (t_grid t) e" "rs_point st \<noteq> e"
  shows "ok (next_cell t e r st) (flow_ok (match_ok (t_grid t)) (\<lambda>_. False)
    (\<lambda>st'. search_inv (t_grid t) st' \<and> (rs_done st' \<or> remaining (t_dims t) (ldfa_direction r) e (rs_point st') < remaining (t_dims t) (ldfa_direction r) e (rs_point st))))"
proof -
  let ?g = "t_grid t" and ?d = "t_dims t" and ?dir = "ldfa_direction r" and ?p = "rs_point st"
  note d = grid_okD(6) [OF assms(1)] and p = search_inv_point [OF assms(1,2)]
  have inv: "iter_ok ?g (rs_iter st)" "?p = it_point (rs_iter st)" "match_ok ?g st" using assms(2) by (simp_all add: search_inv_def)
  obtain it x where a: "advance_cell t ?dir st = Some (it, x)" "iter_ok ?g it" "grid_cell_at ?g (it_point it) = Some x"
      "cell_index ?d (it_point it) = towards ?dir (cell_index ?d ?p) mod cell_count ?d"
    using advance_cell_ok [OF assms(1) inv(1,2), of ?dir] by (auto elim!: okE)
  obtain it' x' where k: "skip_fullwidth t ?dir it x = Some (it', x')" "iter_ok ?g it'" "skips ?dir ?g (it_point it) (it_point it')"
    using skip_fullwidth_ok [OF assms(1) a(2,3), of ?dir] by (auto elim!: okE)
  note q = iter_okD(1) [OF assms(1) a(2)] and q' = iter_okD(1) [OF assms(1) k(2)]
  obtain y where y: "grid_cell_at ?g (it_point it') = Some y" using grid_cell_ok [OF assms(1) q'] by (auto elim: okE)
  have less: "remaining ?d ?dir e (it_point it') < remaining ?d ?dir e ?p" if "it_point it \<noteq> e"
    using remaining_skip [OF assms(1,3,4) q q' that k(3)] remaining_step [OF d assms(3) p assms(5), of "it_point it" ?dir] a(4) by simp
  define st1 where "st1 = st\<lparr>rs_iter := it', rs_done := (it_point it = e), rs_c := cell_c x', rs_last_point := ?p, rs_point := it_point it'\<rparr>"
  have st1: "search_inv ?g st1" using k(2) p inv(3) by (simp add: st1_def search_inv_def match_ok_def)
  have dec: "rs_done st1 \<or> remaining ?d ?dir e (rs_point st1) < remaining ?d ?dir e ?p" using less by (auto simp: st1_def)
  have lb: "flow_ok (match_ok ?g) (\<lambda>_. False) (\<lambda>st'. search_inv ?g st' \<and> same_place st1 st')
      (if b then linebreak r st1 else Proceed st1)" for b
    using linebreak_ok [OF st1, of r] st1 by simp
  have put: "flow_ok (match_ok ?g) (\<lambda>_. False) (\<lambda>st'. search_inv ?g st' \<and> (rs_done st' \<or> remaining ?d ?dir e (rs_point st') < remaining ?d ?dir e ?p))
      (case fl of Proceed st \<Rightarrow> Proceed (st\<lparr>rs_last_wrapped := w\<rparr>) | fl \<Rightarrow> fl)"
    if "flow_ok (match_ok ?g) (\<lambda>_. False) (\<lambda>st'. search_inv ?g st' \<and> same_place st1 st') fl" for fl and w
    using that dec by (cases fl) (auto simp: search_inv_def match_ok_def same_place_def)
  show ?thesis using d put [OF lb [of True]] put [OF lb [of False]]
    by (simp add: next_cell_def a(1) k(1) y st1_def [symmetric] Let_def)
qed

definition search_measure :: "dimensions \<Rightarrow> direction \<Rightarrow> point \<Rightarrow> ('s, 'c) search_state \<Rightarrow> nat" where
  "search_measure d dir e st =
     2 * (if rs_done st then 0 else nat (remaining d dir e (rs_point st)) + 1) + (if consumed_bytes st = 1 then 1 else 0)"

lemma search_step_ok:
  fixes r :: "('s, 'e, 'c) lazy_dfa" and st :: "('s, 'c) search_state"
  assumes "grid_ok (t_grid t)" "search_inv (t_grid t) st" "in_grid (t_dims t) e" "\<not> after_leading_spacer (t_grid t) e"
  defines "smaller \<equiv> \<lambda>st'. search_inv (t_grid t) st'
    \<and> search_measure (t_dims t) (ldfa_direction r) e st' < search_measure (t_dims t) (ldfa_direction r) e st"
  shows "ok (search_step t e r st) (flow_ok (match_ok (t_grid t)) smaller smaller)"
proof -
  let ?g = "t_grid t" and ?d = "t_dims t" and ?dir = "ldfa_direction r"
  let ?feed = "feed r 0 (char_bytes ?dir (rs_c st)) st"
  note f = feed_ok [OF assms(2), of 0 r "char_bytes ?dir (rs_c st)"]
  show ?thesis
  proof (cases ?feed)
    case (Continue st1)
    then have "smaller st1" using f by (simp add: smaller_def search_measure_def same_place_def)
    then show ?thesis using Continue by (simp add: search_step_def)
  next
    case (Proceed st1)
    then have st1: "search_inv ?g st1" "same_place st st1" using f by simp_all
    show ?thesis
    proof (cases "rs_point st1 = e \<or> rs_done st1")
      case True
      then show ?thesis using Proceed finish_search_ok [OF assms(1) st1(1), of r]
        by (cases "finish_search r st1") (simp_all add: search_step_def)
    next
      case False
      then have "rs_point st1 \<noteq> e" by simp
      note n = next_cell_ok [OF assms(1) st1(1) assms(3,4) this, of r]
      have "smaller st2" if "search_inv ?g st2"
          "rs_done st2 \<or> remaining ?d ?dir e (rs_point st2) < remaining ?d ?dir e (rs_point st1)" for st2
        using that False st1(2) remaining_nonneg [OF grid_okD(6) [OF assms(1)] search_inv_point [OF assms(1) that(1)], of ?dir e]
        by (auto simp: smaller_def search_measure_def same_place_def)
      then have "flow_ok (match_ok ?g) smaller smaller fl"
        if "flow_ok (match_ok ?g) (\<lambda>_. False) (\<lambda>st'. search_inv ?g st' \<and> (rs_done st' \<or> remaining ?d ?dir e (rs_point st') < remaining ?d ?dir e (rs_point st1))) fl" for fl
        using that by (cases fl) auto
      then have "ok (next_cell t e r st1) (flow_ok (match_ok ?g) smaller smaller)" by (rule ok_mono [OF n])
      then show ?thesis using Proceed False by (simp add: search_step_def)
    qed
  qed (use f in \<open>simp_all add: search_step_def\<close>)
qed

lemma search_loop_ok:
  assumes "grid_ok (t_grid t)" "in_grid (t_dims t) e" "\<not> after_leading_spacer (t_grid t) e"
  shows "search_inv (t_grid t) st \<Longrightarrow>
    ok (search_loop t e r st) (\<lambda>(res, _). \<forall>p. res = Inr (Some p) \<longrightarrow> in_grid (t_dims t) p)"
proof (induction "search_measure (t_dims t) (ldfa_direction r) e st" arbitrary: st rule: less_induct)
  case less
  obtain fl where fl: "search_step t e r st = Some fl"
      "flow_ok (match_ok (t_grid t))
        (\<lambda>st'. search_inv (t_grid t) st' \<and> search_measure (t_dims t) (ldfa_direction r) e st' < search_measure (t_dims t) (ldfa_direction r) e st)
        (\<lambda>st'. search_inv (t_grid t) st' \<and> search_measure (t_dims t) (ldfa_direction r) e st' < search_measure (t_dims t) (ldfa_direction r) e st) fl"
    using search_step_ok [OF assms(1) less.prems assms(2,3), of r] by (auto elim!: okE)
  then show ?case using less.hyps
    by (subst search_loop.simps, cases fl) (auto simp: match_ok_def)
qed

definition has_start :: "('s, 'e, 'c) lazy_dfa \<Rightarrow> bool" where
  "has_start r \<longleftrightarrow> \<not> isl (fst (start_state_forward (ldfa r) (match_all r) (ldfa_cache r)))"

lemma regex_search_ok:
  assumes "grid_ok (t_grid t)" "in_grid (t_dims t) start" "in_grid (t_dims t) e" "\<not> after_leading_spacer (t_grid t) e"
    and "has_start r"
  shows "ok (term_regex_search t start e r)
    (\<lambda>(m, r'). pred_option (in_grid (t_dims t)) m \<and> (\<exists>c. r' = r\<lparr>ldfa_cache := c\<rparr>))"
proof -
  let ?g = "t_grid t"
  obtain s c where sc: "start_state_forward (ldfa r) (match_all r) (ldfa_cache r) = (Inr s, c)"
    using assms(5) by (cases "start_state_forward (ldfa r) (match_all r) (ldfa_cache r)"; cases "fst (start_state_forward (ldfa r) (match_all r) (ldfa_cache r))")
      (auto simp: has_start_def)
  let ?it = "\<lparr>it_point = start, it_end = point_at (grid_dims ?g) (cell_count (grid_dims ?g) - 1)\<rparr>"
  have it: "iter_from ?g start = Some ?it" "iter_ok ?g ?it" using iter_from_ok [OF assms(1)] assms(2) by (simp_all add: iter_ok_def)
  obtain x where x: "grid_cell_at ?g start = Some x" using grid_cell_ok [OF assms(1,2)] by (auto elim: okE)
  obtain it' x' where k: "skip_fullwidth t (ldfa_direction r) ?it x = Some (it', x')" "iter_ok ?g it'"
    using skip_fullwidth_ok [OF assms(1) it(2), of x "ldfa_direction r"] x by (auto elim!: okE)
  note q = iter_okD(1) [OF assms(1) k(2)]
  obtain y where y: "grid_cell_at ?g (it_point it') = Some y" using grid_cell_ok [OF assms(1) q] by (auto elim: okE)
  let ?st = "\<lparr>rs_state = s, rs_cache = c, rs_iter = it', rs_match = None, rs_done = False, rs_c = cell_c x',
        rs_last_wrapped = flag_contains (cell_flags y) WRAPLINE, rs_point = it_point it', rs_last_point = it_point it',
        consumed_bytes = 0\<rparr>"
  have "search_inv ?g ?st" using k(2) q by (simp add: search_inv_def match_ok_def)
  from search_loop_ok [OF assms(1,3,4) this, of r] obtain res c' where
    "search_loop t e r ?st = Some (res, c')" "\<forall>p. res = Inr (Some p) \<longrightarrow> in_grid (t_dims t) p"
    by (auto elim!: okE)
  then show ?thesis using it(1) x k(1) y sc
    by (auto simp: term_regex_search_def regex_search_internal_def pred_option_def split: sum.split option.split)
qed


section \<open>A search that does not end\<close>

text \<open>An automaton that finds nothing: no state matches or is dead, and there are no errors.\<close>

definition finds_nothing :: "('s, 'e, 'c) dfa \<Rightarrow> bool" where
  "finds_nothing A \<longleftrightarrow>
     (\<forall>c b. isl (fst (start_state_forward A b c)) = False)
     \<and> (\<forall>s b c. isl (fst (next_state A s b c)) = False) \<and> (\<forall>s c. isl (fst (next_eoi_state A s c)) = False)
     \<and> (\<forall>s. \<not> is_match A s \<and> \<not> is_dead A s)"

lemma finds_nothingE:
  assumes "finds_nothing A"
  obtains s' c' where "start_state_forward A b c = (Inr s', c')"
  using assms by (metis finds_nothing_def isl_def prod.collapse sum.exhaust)

lemma feed_nothing:
  assumes "finds_nothing (ldfa r)"
  shows "\<exists>s c n. feed r i bs st = Proceed (st\<lparr>rs_state := s, rs_cache := c, consumed_bytes := n\<rparr>)"
proof (induction bs arbitrary: i st)
  case Nil
  have "st\<lparr>rs_state := rs_state st, rs_cache := rs_cache st, consumed_bytes := consumed_bytes st\<rparr> = st" by simp
  then show ?case by (metis feed.simps(1))
next
  case (Cons b bs)
  obtain s c where "next_state (ldfa r) (rs_state st) b (rs_cache st) = (Inr s, c)"
    using assms by (metis finds_nothing_def isl_def prod.collapse sum.exhaust)
  then show ?case
    using Cons.IH [of "i + 1" "st\<lparr>rs_state := s, rs_cache := c, consumed_bytes := consumed_bytes st + 1\<rparr>"] assms
    by (simp add: finds_nothing_def Let_def)
qed

lemma linebreak_nothing:
  assumes "finds_nothing (ldfa r)" "rs_match st = None"
  shows "\<exists>s c n. linebreak r st = Proceed (st\<lparr>rs_state := s, rs_cache := c, consumed_bytes := n\<rparr>)"
proof -
  obtain s c where e: "next_eoi_state (ldfa r) (rs_state st) (rs_cache st) = (Inr s, c)"
    using assms(1) by (metis finds_nothing_def isl_def prod.collapse sum.exhaust)
  obtain s' c' where "start_state_forward (ldfa r) (match_all r) c = (Inr s', c')"
    using finds_nothingE [OF assms(1)] by blast
  then have "linebreak r st = Proceed (st\<lparr>rs_state := s', rs_cache := c', consumed_bytes := 0\<rparr>)"
    using e assms by (simp add: linebreak_def eoi_state_def restart_search_def finds_nothing_def)
  then show ?thesis by blast
qed

text \<open>A wide character in the first column that did not fit the line above, and its spacer.\<close>

definition moved_wide_char :: "grid \<Rightarrow> point \<Rightarrow> bool" where
  "moved_wide_char g e \<longleftrightarrow> (let k = cell_index (grid_dims g) e in
     0 < k \<and> k + 1 < cell_count (grid_dims g) \<and> leading g (k - 1)
     \<and> flag_contains (cell_flags (snd (indexed g (k + 1)))) WIDE_CHAR_SPACER \<and> \<not> leading g (k + 1)
     \<and> (k + 2 < cell_count (grid_dims g) \<longrightarrow> \<not> flag_contains (cell_flags (snd (indexed g (k + 2)))) WIDE_CHAR_SPACER))"

definition elsewhere :: "grid \<Rightarrow> point \<Rightarrow> point \<Rightarrow> bool" where
  "elsewhere g e p \<longleftrightarrow> cell_index (grid_dims g) p \<notin> {cell_index (grid_dims g) e, cell_index (grid_dims g) e + 1}"

lemma skip_from_spacer:
  assumes "grid_ok (t_grid t)" "moved_wide_char (t_grid t) e" "in_grid (t_dims t) e" "iter_ok (t_grid t) it"
    and "grid_cell_at (t_grid t) (it_point it) = Some x" "cell_index (t_dims t) (it_point it) = cell_index (t_dims t) e + 1"
  shows "ok (skip_fullwidth t Left it x) (\<lambda>(it', _). cell_index (t_dims t) (it_point it') = cell_index (t_dims t) e - 1)"
proof -
  let ?g = "t_grid t" and ?d = "t_dims t"
  note d = grid_okD(6) [OF assms(1)]
  have k: "0 < cell_index ?d e" "leading ?g (cell_index ?d e - 1)" using assms(2) by (simp_all add: moved_wide_char_def Let_def)
  have x: "flag_contains (cell_flags x) WIDE_CHAR_SPACER"
    using assms(2,6) indexed_Some(1) [OF assms(1) iter_okD(1) [OF assms(1,4)]] assms(5) by (simp add: moved_wide_char_def Let_def)
  obtain res it1 where 1: "iter_step Left ?g it = Some (res, it1)" "stepped Left ?g it res it1" by (rule iter_step_moves [OF assms(1,4)])
  then have it1: "iter_ok ?g it1" "cell_index ?d (it_point it1) = cell_index ?d e"
    using assms(6) k(1) by (auto simp: stepped_def at_edge_def towards_def)
  then have p1: "it_point it1 = e" using cell_index_inj [OF d iter_okD(1) [OF assms(1) it1(1)] assms(3)] by simp
  obtain res2 it2 where 2: "iter_step Left ?g it1 = Some (res2, it2)" "stepped Left ?g it1 res2 it2" by (rule iter_step_moves [OF assms(1) it1(1)])
  then have it2: "cell_index ?d (it_point it2) = cell_index ?d e - 1" using it1(2) k(1) by (auto simp: stepped_def at_edge_def towards_def)
  have "column e < columns ?d" using assms(3) by (simp add: in_grid_def)
  from point_sub_index(1) [OF d this, of 1] point_sub_within [OF d, of Boundary_Grid 1 e]
  obtain q where q: "point_sub ?d Boundary_Grid 1 e = Some q" "in_grid ?d q" "cell_index ?d q = cell_index ?d e - 1"
    using k(1) cell_index_bounds [OF d assms(3)] by (auto elim!: okE)
  obtain y where y: "grid_cell_at ?g q = Some y" using grid_cell_ok [OF assms(1) q(2)] by (auto elim: okE)
  have "flag_contains (cell_flags y) LEADING_WIDE_CHAR_SPACER" using leading_at [OF assms(1) q(2) y] k(2) q(3) by simp
  then show ?thesis using x 1(1) 2(1) it2 q(1) [simplified] y p1 by (simp add: skip_fullwidth_def iter_step_def)
qed

lemma skip_elsewhere:
  assumes "grid_ok (t_grid t)" "moved_wide_char (t_grid t) e" "in_grid (t_dims t) e" "iter_ok (t_grid t) it"
    and "grid_cell_at (t_grid t) (it_point it) = Some x" "it_point it \<noteq> e"
  shows "ok (skip_fullwidth t Left it x) (\<lambda>(it', _). iter_ok (t_grid t) it' \<and> elsewhere (t_grid t) e (it_point it'))"
proof -
  let ?g = "t_grid t" and ?d = "t_dims t" and ?k = "cell_index (t_dims t) e" and ?i = "cell_index (t_dims t) (it_point it)"
  note d = grid_okD(6) [OF assms(1)] and p = iter_okD(1) [OF assms(1,4)]
  note ok = skip_fullwidth_ok [OF assms(1,4,5), of Left]
  have ne: "?i \<noteq> ?k" using cell_index_inj [OF d p assms(3)] assms(6) by auto
  show ?thesis
  proof (cases "?i = ?k + 1")
    case True
    from ok_conj [THEN iffD2, OF conjI [OF ok skip_from_spacer [OF assms(1-5) True]]] show ?thesis
      by (rule ok_mono) (auto simp: elsewhere_def)
  next
    case False
    show ?thesis
    proof (cases "flag_contains (cell_flags x) WIDE_CHAR_SPACER")
      case True
      have "?i \<noteq> ?k + 2"
        using assms(2,5) True indexed_Some(1) [OF assms(1) p] cell_index_bounds [OF d p] by (auto simp: moved_wide_char_def Let_def)
      moreover have "\<not> leading ?g (?k + 1)" using assms(2) by (simp add: moved_wide_char_def Let_def)
      ultimately show ?thesis using ne False by (intro ok_mono [OF ok]) (auto simp: elsewhere_def skips_def towards_def Let_def)
    qed (use ne False assms(4) in \<open>simp add: skip_fullwidth_def elsewhere_def\<close>)
  qed
qed

definition lost :: "terminal \<Rightarrow> point \<Rightarrow> ('s, 'c) search_state \<Rightarrow> bool" where
  "lost t e st \<longleftrightarrow> search_inv (t_grid t) st \<and> rs_match st = None \<and> \<not> rs_done st \<and> elsewhere (t_grid t) e (rs_point st)"

lemma lost_update:
  "lost t e (st\<lparr>rs_state := s, rs_cache := c, consumed_bytes := n\<rparr>) = lost t e st"
  "lost t e (st\<lparr>rs_last_wrapped := w\<rparr>) = lost t e st"
  by (simp_all add: lost_def search_inv_def match_ok_def)

lemma lost_next:
  assumes "grid_ok (t_grid t)" "moved_wide_char (t_grid t) e" "in_grid (t_dims t) e"
    and "finds_nothing (ldfa r)" "ldfa_direction r = Left" "lost t e st"
  shows "ok (next_cell t e r st) (flow_ok (\<lambda>_. False) (\<lambda>_. False) (lost t e))"
    "\<exists>fl. next_cell t e r st = Some fl \<and> (\<forall>err st'. fl \<noteq> Fail err st')"
proof -
  let ?g = "t_grid t" and ?d = "t_dims t"
  note d = grid_okD(6) [OF assms(1)]
  have inv: "iter_ok ?g (rs_iter st)" "rs_point st = it_point (rs_iter st)" "elsewhere ?g e (rs_point st)" "rs_match st = None"
    "search_inv ?g st" using assms(6) unfolding lost_def search_inv_def by auto
  note p = search_inv_point [OF assms(1) inv(5)]
  obtain it x where a: "advance_cell t Left st = Some (it, x)" "iter_ok ?g it" "grid_cell_at ?g (it_point it) = Some x"
      "cell_index ?d (it_point it) = (cell_index ?d (rs_point st) - 1) mod cell_count ?d"
    using advance_cell_ok [OF assms(1) inv(1,2), of Left] by (auto elim!: okE simp: towards_def)
  have ne: "it_point it \<noteq> e"
  proof
    assume "it_point it = e"
    then have "cell_index ?d e = (cell_index ?d (rs_point st) - 1) mod cell_count ?d" using a(4) by simp
    moreover have "0 < cell_index ?d e" "cell_index ?d e + 1 < cell_count ?d" using assms(2) by (simp_all add: moved_wide_char_def Let_def)
    ultimately show False using inv(3) cell_index_bounds [OF d p]
      by (cases "cell_index ?d (rs_point st) = 0") (auto simp: elsewhere_def zmod_minus1)
  qed
  obtain it' x' where k: "skip_fullwidth t Left it x = Some (it', x')" "iter_ok ?g it'" "elsewhere ?g e (it_point it')"
    using skip_elsewhere [OF assms(1-3) a(2,3) ne] by (auto elim!: okE)
  obtain y where y: "grid_cell_at ?g (it_point it') = Some y"
    using grid_cell_ok [OF assms(1) iter_okD(1) [OF assms(1) k(2)]] by (auto elim: okE)
  define st1 where "st1 = st\<lparr>rs_iter := it', rs_done := False, rs_c := cell_c x', rs_last_point := rs_point st, rs_point := it_point it'\<rparr>"
  have st1: "lost t e st1" using k(2,3) p inv(4) by (simp add: st1_def lost_def search_inv_def match_ok_def)
  then have "rs_match st1 = None" by (simp add: lost_def)
  from linebreak_nothing [OF assms(4) this] obtain s c n where
    lb: "linebreak r st1 = Proceed (st1\<lparr>rs_state := s, rs_cache := c, consumed_bytes := n\<rparr>)" by blast
  have n: "next_cell t e r st = Some (case (if at_linebreak (columns ?d - 1) (flag_contains (cell_flags y) WRAPLINE) st1 then linebreak r st1 else Proceed st1) of
       Proceed st \<Rightarrow> Proceed (st\<lparr>rs_last_wrapped := flag_contains (cell_flags y) WRAPLINE\<rparr>) | fl \<Rightarrow> fl)"
    using d ne by (simp add: next_cell_def assms(5) a(1) k(1) y st1_def Let_def)
  show "ok (next_cell t e r st) (flow_ok (\<lambda>_. False) (\<lambda>_. False) (lost t e))"
    "\<exists>fl. next_cell t e r st = Some fl \<and> (\<forall>err st'. fl \<noteq> Fail err st')"
    using st1 lb unfolding n by (auto simp: lost_update)
qed

lemma lost_step:
  assumes "grid_ok (t_grid t)" "moved_wide_char (t_grid t) e" "in_grid (t_dims t) e"
    and "finds_nothing (ldfa r)" "ldfa_direction r = Left" "lost t e st"
  obtains st' where "search_step t e r st = Some (Proceed st')" "lost t e st'"
proof -
  obtain s c n where f: "feed r 0 (char_bytes Left (rs_c st)) st = Proceed (st\<lparr>rs_state := s, rs_cache := c, consumed_bytes := n\<rparr>)"
    using feed_nothing [OF assms(4)] by blast
  let ?st = "st\<lparr>rs_state := s, rs_cache := c, consumed_bytes := n\<rparr>"
  have l: "lost t e ?st" using assms(6) by (simp add: lost_update)
  then have "\<not> rs_done ?st" "rs_point ?st \<noteq> e" by (auto simp: lost_def elsewhere_def)
  then have "search_step t e r st = next_cell t e r ?st" using f assms(5) by (simp add: search_step_def)
  moreover obtain fl where "next_cell t e r ?st = Some fl" "\<forall>err st'. fl \<noteq> Fail err st'" "flow_ok (\<lambda>_. False) (\<lambda>_. False) (lost t e) fl"
    using lost_next [OF assms(1-5) l] by (auto elim!: okE)
  ultimately show ?thesis using that by (cases fl) auto
qed

lemma search_loop_lost:
  assumes "grid_ok (t_grid t)" "moved_wide_char (t_grid t) e" "in_grid (t_dims t) e" "finds_nothing (ldfa r)" "ldfa_direction r = Left"
  shows "lost t e st \<Longrightarrow> search_loop t e r st = None"
proof (rule ccontr)
  assume l: "lost t e st" and "search_loop t e r st \<noteq> None"
  then obtain res where res: "search_loop t e r st = Some res" by blast
  have "t' = t \<longrightarrow> e' = e \<longrightarrow> r' = r \<longrightarrow> \<not> lost t e st'" if "search_loop t' e' r' st' = Some res'" for t' e' r' st' res'
  proof (rule search_loop.raw_induct [OF _ that])
    fix loop t' e' r' st' res'
    assume IH: "\<And>t' e' r' st' res'. loop t' e' r' st' = Some res' \<Longrightarrow> t' = t \<longrightarrow> e' = e \<longrightarrow> r' = r \<longrightarrow> \<not> lost t e st'"
      and step: "Option.bind (search_step t' e' r' st') (\<lambda>fl. case fl of Fail e st \<Rightarrow> Some (Inl e, rs_cache st)
        | Break st \<Rightarrow> Some (Inr (rs_match st), rs_cache st) | Continue st \<Rightarrow> loop t' e' r' st | Proceed st \<Rightarrow> loop t' e' r' st) = Some res'"
    have False if eq: "t' = t" "e' = e" "r' = r" and l': "lost t e st'"
    proof -
      obtain st'' where "search_step t e r st' = Some (Proceed st'')" "lost t e st''" by (rule lost_step [OF assms l'])
      then show False using IH [of t e r st'' res'] step eq by simp
    qed
    then show "t' = t \<longrightarrow> e' = e \<longrightarrow> r' = r \<longrightarrow> \<not> lost t e st'" by blast
  qed
  then show False using l res by blast
qed


section \<open>Witnesses\<close>

text \<open>Three letters and a wide character, here \<^verbatim>\<open>W\<close>, in four columns: the character is on the second line.\<close>

definition demo_moved :: terminal where
  "demo_moved = demo_term\<lparr>t_grid := demo_screen (demo_chars [120, 121, 122, 32] (or LEADING_WIDE_CHAR_SPACER WRAPLINE))
     \<lparr>row_inner = [insert_flag WIDE_CHAR (cell_default\<lparr>cell_c := 87\<rparr>), insert_flag WIDE_CHAR_SPACER cell_default,
        cell_default, cell_default], occ = 2\<rparr>\<rparr>"

definition void_dfa :: "(unit, unit, unit) dfa" where
  "void_dfa = \<lparr>start_state_forward = \<lambda>_ _. (Inr (), ()), next_state = \<lambda>_ _ _. (Inr (), ()), next_eoi_state = \<lambda>_ _. (Inr (), ()),
     is_match = \<lambda>_. False, is_dead = \<lambda>_. False\<rparr>"

definition void_lazy :: "direction \<Rightarrow> (unit, unit, unit) lazy_dfa" where
  "void_lazy dir = \<lparr>ldfa = void_dfa, ldfa_cache = (), ldfa_direction = dir, match_all = False\<rparr>"

definition void_search :: "(unit, unit, unit) regex_search" where
  "void_search = \<lparr>left_fdfa = void_lazy Left, left_rdfa = void_lazy Right, right_rdfa = void_lazy Left, right_fdfa = void_lazy Right\<rparr>"

lemma demo_moved_grid:
  "t_grid demo_moved = demo_screen (demo_chars [120, 121, 122, 32] (or LEADING_WIDE_CHAR_SPACER WRAPLINE))
     \<lparr>row_inner = [insert_flag WIDE_CHAR (cell_default\<lparr>cell_c := 87\<rparr>), insert_flag WIDE_CHAR_SPACER cell_default,
        cell_default, cell_default], occ = 2\<rparr>"
  by (simp add: demo_moved_def)

lemma demo_moved_ok: "grid_ok (t_grid demo_moved)"
  using grid_inv_def [of False "t_grid demo_moved"] by (simp add: demo_moved_grid) code_simp

lemma demo_moved_wide: "moved_wide_char (t_grid demo_moved) (Point 1 0)" "elsewhere (t_grid demo_moved) (Point 1 0) (Point 1 3)"
  "\<not> after_leading_spacer (t_grid demo_moved) (Point 1 3)" "\<not> after_leading_spacer (t_grid demo_moved) (Point 0 0)"
  "in_grid (t_dims demo_moved) (Point 1 0)" "in_grid (t_dims demo_moved) (Point 0 0)" "in_grid (t_dims demo_moved) (Point 1 3)"
  unfolding demo_moved_grid by code_simp+



end
