(* ===== verification/Pty_Loop.thy ===== *)
theory Pty_Loop
  imports Examples
begin

text \<open>
  The event loop of the PTY thread (\<^verbatim>\<open>alacritty_terminal/src/event_loop.rs\<close>): messages of the window are queued and
  written to the PTY in pieces as it accepts them, and what the PTY delivers is passed to the parser while
  the terminal is locked. The answers of the operating system (results of reads and writes, whether
  the terminal's lock was free, the result of polling) are inputs of the model, so that every
  theorem holds for every course of events. The parser of the \<^verbatim>\<open>vte\<close> crate is a parameter.
\<close>

type_synonym bytes = "nat list"

section \<open>Types\<close>

definition READ_BUFFER_SIZE :: nat where
  "READ_BUFFER_SIZE = 0x100000"

definition MAX_LOCKED_READ :: nat where
  "MAX_LOCKED_READ = 0xFFFF"

datatype msg = Msg_Input bytes | Msg_Shutdown | Msg_Resize window_size

text \<open>The kinds of \<^verbatim>\<open>io::Error\<close> the loop distinguishes; \<open>EIO\<close> is reported by a PTY whose other side hung up.\<close>

datatype io_error = Interrupted | WouldBlock | EIO | Other_Error

datatype 'a io_result = Io_Ok 'a | Io_Err io_error

record 'p ansi_parser =
  parser_advance :: "bytes \<Rightarrow> 'p \<times> terminal \<Rightarrow> 'p \<times> terminal"
  parser_stop_sync :: "'p \<times> terminal \<Rightarrow> 'p \<times> terminal"
  sync_bytes_count :: "'p \<Rightarrow> nat"

record writing =
  w_source :: bytes
  w_written :: nat

record 'p loop_state =
  write_list :: "bytes list"
  cur_writing :: "writing option"
  ls_parser :: 'p

text \<open>
  The event loop. \<open>el_rx\<close> is the channel: the messages that were sent and not received. \<open>el_resizes\<close> logs the calls of
  \<^verbatim>\<open>pty.on_resize\<close> and \<open>el_sent\<close> the bytes the PTY accepted; the events sent to the window are in the log of the terminal, which
  has the same listener.
\<close>

record 'p event_loop =
  el_state :: "'p loop_state"
  el_rx :: "msg list"
  el_peeked :: "msg option"
  el_terminal :: terminal
  el_drain_on_exit :: bool
  el_resizes :: "window_size list"
  el_sent :: bytes
  interest_writable :: bool

section \<open>Writing\<close>

definition writing_new :: "bytes \<Rightarrow> writing" where
  "writing_new c = \<lparr>w_source = c, w_written = 0\<rparr>"

definition writing_advance :: "nat \<Rightarrow> writing \<Rightarrow> writing" where
  "writing_advance n w = w\<lparr>w_written := w_written w + n\<rparr>"

definition remaining_bytes :: "writing \<Rightarrow> bytes" where
  "remaining_bytes w = drop (w_written w) (w_source w)"

definition writing_finished :: "writing \<Rightarrow> bool" where
  "writing_finished w \<longleftrightarrow> w_written w \<ge> length (w_source w)"

definition goto_next :: "'p loop_state \<Rightarrow> 'p loop_state" where
  "goto_next st =
     (case write_list st of
        [] \<Rightarrow> st\<lparr>cur_writing := None\<rparr>
      | c # cs \<Rightarrow> st\<lparr>write_list := cs, cur_writing := Some (writing_new c)\<rparr>)"

definition ensure_next :: "'p loop_state \<Rightarrow> 'p loop_state" where
  "ensure_next st = (if cur_writing st = None then goto_next st else st)"

definition take_current :: "'p loop_state \<Rightarrow> writing option \<times> 'p loop_state" where
  "take_current st = (cur_writing st, st\<lparr>cur_writing := None\<rparr>)"

definition set_current :: "writing option \<Rightarrow> 'p loop_state \<Rightarrow> 'p loop_state" where
  "set_current w st = st\<lparr>cur_writing := w\<rparr>"

definition needs_write :: "'p loop_state \<Rightarrow> bool" where
  "needs_write st \<longleftrightarrow> cur_writing st \<noteq> None \<or> write_list st \<noteq> []"

text \<open>
  The loops of \<^verbatim>\<open>pty_write\<close> over the answers of \<^verbatim>\<open>write\<close>, one for each call: the number of bytes accepted or an error.
  A write that the list holds no answer for would block.
\<close>

definition next_answer :: "'a io_result list \<Rightarrow> 'a io_result \<times> 'a io_result list" where
  "next_answer as = (case as of [] \<Rightarrow> (Io_Err WouldBlock, []) | a # as \<Rightarrow> (a, as))"

text \<open>The result of \<open>write_one\<close>: whether the outer loop goes on, the \<^verbatim>\<open>io::Result\<close>, the state, the bytes
  accepted and the answers left.\<close>

function write_one ::
  "writing \<Rightarrow> nat io_result list \<Rightarrow> 'p loop_state \<Rightarrow> bool \<times> unit io_result \<times> 'p loop_state \<times> bytes \<times> nat io_result list" where
  "write_one current answers st =
     (case next_answer answers of
        (Io_Ok n, answers) \<Rightarrow>
          if n = 0 then (False, Io_Ok (), set_current (Some current) st, [], answers)
          else
            let accepted = take n (remaining_bytes current); current = writing_advance n current in
            if writing_finished current then (True, Io_Ok (), goto_next st, accepted, answers)
            else (case write_one current answers st of (go, res, st, sent, answers) \<Rightarrow> (go, res, st, accepted @ sent, answers))
      | (Io_Err err, answers) \<Rightarrow>
          (False, if err = Interrupted \<or> err = WouldBlock then Io_Ok () else Io_Err err, set_current (Some current) st, [], answers))"
  by pat_completeness auto
termination
  by (relation "measure (\<lambda>(_, answers, _). length answers)") (auto simp: next_answer_def split: list.splits)

declare write_one.simps [simp del]

lemma write_one_shorter:
  "write_one current answers st = (True, res, st', sent, answers') \<Longrightarrow> length answers' < length answers"
proof (induction current answers st arbitrary: res st' sent rule: write_one.induct)
  case (1 current answers st)
  from "1.prems" show ?case
    by (subst (asm) write_one.simps)
      (auto simp: next_answer_def Let_def split: list.splits io_result.splits if_splits prod.splits dest: "1.IH" [rotated -1])
qed

function write_many ::
  "nat io_result list \<Rightarrow> 'p loop_state \<Rightarrow> unit io_result \<times> 'p loop_state \<times> bytes \<times> nat io_result list" where
  "write_many answers st =
     (case take_current st of
        (None, st) \<Rightarrow> (Io_Ok (), st, [], answers)
      | (Some current, st) \<Rightarrow>
          (case write_one current answers st of
             (True, _, st, sent, answers) \<Rightarrow>
               (case write_many answers st of (res, st, sent', answers) \<Rightarrow> (res, st, sent @ sent', answers))
           | (False, res, st, sent, answers) \<Rightarrow> (res, st, sent, answers)))"
  by pat_completeness auto
termination
  by (relation "measure (\<lambda>(answers, _). length answers)") (auto dest: write_one_shorter [OF sym])

declare write_many.simps [simp del]

definition pty_write :: "nat io_result list \<Rightarrow> 'p event_loop \<Rightarrow> unit io_result \<times> 'p event_loop" where
  "pty_write answers el =
     (case write_many answers (ensure_next (el_state el)) of
        (res, st, sent, _) \<Rightarrow> (res, el\<lparr>el_state := st, el_sent := el_sent el @ sent\<rparr>))"

definition event_loop_new :: "terminal \<Rightarrow> 'p \<Rightarrow> bool \<Rightarrow> 'p event_loop" where
  \<comment> \<open>\<^verbatim>\<open>EventLoop::new\<close> and the variables of \<^verbatim>\<open>spawn\<close>, with a parser in its initial state\<close>
  "event_loop_new t parser drain_on_exit =
     \<lparr>el_state = \<lparr>write_list = [], cur_writing = None, ls_parser = parser\<rparr>, el_rx = [], el_peeked = None, el_terminal = t,
      el_drain_on_exit = drain_on_exit, el_resizes = [], el_sent = [], interest_writable = False\<rparr>"

section \<open>The channel\<close>

text \<open>The loop holds a sender itself, so the channel is never disconnected; an empty channel is \<^verbatim>\<open>TryRecvError::Empty\<close>.\<close>

definition rx_peek :: "'p event_loop \<Rightarrow> msg option \<times> 'p event_loop" where
  "rx_peek el =
     (let el = (if el_peeked el = None then
                  (case el_rx el of [] \<Rightarrow> el | m # ms \<Rightarrow> el\<lparr>el_rx := ms, el_peeked := Some m\<rparr>)
                else el)
      in (el_peeked el, el))"

definition rx_recv :: "'p event_loop \<Rightarrow> msg option \<times> 'p event_loop" where
  "rx_recv el =
     (if el_peeked el \<noteq> None then (el_peeked el, el\<lparr>el_peeked := None\<rparr>)
      else case el_rx el of [] \<Rightarrow> (None, el) | m # ms \<Rightarrow> (Some m, el\<lparr>el_rx := ms\<rparr>))"

definition queued :: "'p event_loop \<Rightarrow> msg list" where
  "queued el = (case el_peeked el of None \<Rightarrow> [] | Some m \<Rightarrow> [m]) @ el_rx el"

lemma rx_recv_queued:
  "rx_recv el = (None, el') \<Longrightarrow> queued el = [] \<and> el' = el"
  "rx_recv el = (Some m, el') \<Longrightarrow> queued el = m # queued el'"
  by (auto simp: rx_recv_def queued_def split: if_splits list.splits)

lemma queued_updates [simp]:
  "queued (el\<lparr>el_state := st\<rparr>) = queued el" "queued (el\<lparr>el_resizes := rs\<rparr>) = queued el"
  "queued (el\<lparr>el_terminal := t\<rparr>) = queued el" "queued (el\<lparr>el_sent := bs\<rparr>) = queued el"
  "queued (el\<lparr>interest_writable := b\<rparr>) = queued el"
  by (simp_all add: queued_def)

function drain_recv_channel :: "'p event_loop \<Rightarrow> bool \<times> 'p event_loop" where
  "drain_recv_channel el =
     (case rx_recv el of
        (None, el) \<Rightarrow> (True, el)
      | (Some (Msg_Input bs), el) \<Rightarrow>
          drain_recv_channel (el\<lparr>el_state := (el_state el)\<lparr>write_list := write_list (el_state el) @ [bs]\<rparr>\<rparr>)
      | (Some (Msg_Resize window_size), el) \<Rightarrow> drain_recv_channel (el\<lparr>el_resizes := el_resizes el @ [window_size]\<rparr>)
      | (Some Msg_Shutdown, el) \<Rightarrow> (False, el))"
  by pat_completeness auto
termination
  by (relation "measure (\<lambda>el. length (queued el))") (auto dest!: rx_recv_queued(2) [OF sym])

declare drain_recv_channel.simps [simp del]

definition notify :: "bytes \<Rightarrow> 'p event_loop \<Rightarrow> 'p event_loop" where
  "notify bs el = (if bs = [] then el else el\<lparr>el_rx := el_rx el @ [Msg_Input bs]\<rparr>)"

definition notify_resize :: "window_size \<Rightarrow> 'p event_loop \<Rightarrow> 'p event_loop" where
  "notify_resize ws el = el\<lparr>el_rx := el_rx el @ [Msg_Resize ws]\<rparr>"

section \<open>Reading\<close>

text \<open>
  The loop of \<^verbatim>\<open>pty_read\<close> over the answers of \<^verbatim>\<open>read\<close> (the bytes delivered or an error) and of \<^verbatim>\<open>try_lock_unfair\<close>.
  \<open>None\<close>: all answers are used up and the loop still runs. The variables of the loop are the bytes in the buffer that are not processed, the
  number of bytes processed, and whether the terminal is locked.
\<close>

record 'p read_state =
  unprocessed :: bytes
  processed :: nat
  locked :: bool
  rd_parser :: 'p
  rd_terminal :: terminal

definition parse_read :: "'p ansi_parser \<Rightarrow> 'p read_state \<Rightarrow> 'p read_state" where
  "parse_read P rd =
     (let (p, t) = parser_advance P (unprocessed rd) (rd_parser rd, rd_terminal rd) in
      rd\<lparr>unprocessed := [], processed := processed rd + length (unprocessed rd), locked := True, rd_parser := p, rd_terminal := t\<rparr>)"

fun read_loop :: "'p ansi_parser \<Rightarrow> bytes io_result list \<Rightarrow> bool list \<Rightarrow> 'p read_state \<Rightarrow> (unit io_result \<times> 'p read_state) option" where
  "read_loop P [] locks rd = None"
| "read_loop P (answer # answers) locks rd =
     (let go_on = (\<lambda>rd.
            if locked rd then
              (let rd = parse_read P rd in
               if processed rd \<ge> MAX_LOCKED_READ then Some (Io_Ok (), rd) else read_loop P answers locks rd)
            else case locks of
              [] \<Rightarrow> None
            | free # locks \<Rightarrow>
                if \<not> free \<and> length (unprocessed rd) < READ_BUFFER_SIZE then read_loop P answers locks rd
                else
                  (let rd = parse_read P rd in
                   if processed rd \<ge> MAX_LOCKED_READ then Some (Io_Ok (), rd) else read_loop P answers locks rd)) in
      case answer of
        Io_Ok got \<Rightarrow>
          if got = [] \<and> unprocessed rd = [] then Some (Io_Ok (), rd)
          else go_on (rd\<lparr>unprocessed := unprocessed rd @ got\<rparr>)
      | Io_Err err \<Rightarrow>
          if err = Interrupted \<or> err = WouldBlock then
            if unprocessed rd = [] then Some (Io_Ok (), rd) else go_on rd
          else Some (Io_Err err, rd))"

definition pty_read ::
  "'p ansi_parser \<Rightarrow> bytes io_result list \<Rightarrow> bool list \<Rightarrow> 'p event_loop \<Rightarrow> (unit io_result \<times> 'p event_loop) option" where
  "pty_read P answers locks el =
     map_option (\<lambda>(res, rd).
       let el = el\<lparr>el_state := (el_state el)\<lparr>ls_parser := rd_parser rd\<rparr>, el_terminal := rd_terminal rd\<rparr> in
       case res of
         Io_Err err \<Rightarrow> (Io_Err err, el)
       | Io_Ok _ \<Rightarrow>
           (Io_Ok (), if sync_bytes_count P (rd_parser rd) < processed rd \<and> processed rd > 0
                      then el\<lparr>el_terminal := send_event Wakeup (el_terminal el)\<rparr> else el))
     (read_loop P answers locks
       \<lparr>unprocessed = [], processed = 0, locked = False, rd_parser = ls_parser (el_state el), rd_terminal = el_terminal el\<rparr>)"

section \<open>The loop\<close>

text \<open>An event of the poller, with the answers that the reads, locks and writes it leads to will get.\<close>

datatype poll_event =
    Child_Event "int option option" "bytes io_result list" "bool list"
      \<comment> \<open>\<^verbatim>\<open>next_child_event\<close>: \<open>Some\<close> is \<^verbatim>\<open>Exited\<close> with the status\<close>
  | Read_Write bool bool bool "bytes io_result list" "bool list" "nat io_result list"
      \<comment> \<open>\<^verbatim>\<open>is_interrupt\<close>, \<^verbatim>\<open>readable\<close>, \<^verbatim>\<open>writable\<close>\<close>
  | Other_Event

definition handle_event :: "'p ansi_parser \<Rightarrow> poll_event \<Rightarrow> 'p event_loop \<Rightarrow> (bool \<times> 'p event_loop) option" where
  \<comment> \<open>the flag is \<^verbatim>\<open>break 'event_loop\<close>\<close>
  "handle_event P ev el =
     (case ev of
        Child_Event None _ _ \<Rightarrow> Some (False, el)
      | Child_Event (Some status) reads locks \<Rightarrow> do {
          let el = (case status of None \<Rightarrow> el
                    | Some code \<Rightarrow> el\<lparr>el_terminal := send_event (ChildExit code) (el_terminal el)\<rparr>);
          el \<leftarrow> (if el_drain_on_exit el then map_option snd (pty_read P reads locks el) else Some el);
          Some (True, el\<lparr>el_terminal := send_event Wakeup (term_exit (el_terminal el))\<rparr>)
        }
      | Read_Write interrupt readable writable reads locks writes \<Rightarrow>
          if interrupt then Some (False, el)
          else do {
            (res, el) \<leftarrow> (if readable then pty_read P reads locks el else Some (Io_Ok (), el));
            case res of
              Io_Err err \<Rightarrow> Some (err \<noteq> EIO, el)
            | Io_Ok _ \<Rightarrow>
                (case (if writable then pty_write writes el else (Io_Ok (), el)) of
                   (Io_Err _, el) \<Rightarrow> Some (True, el)
                 | (Io_Ok _, el) \<Rightarrow> Some (False, el))
          }
      | Other_Event \<Rightarrow> Some (False, el))"

fun handle_events :: "'p ansi_parser \<Rightarrow> poll_event list \<Rightarrow> 'p event_loop \<Rightarrow> (bool \<times> 'p event_loop) option" where
  "handle_events P [] el = Some (False, el)"
| "handle_events P (ev # evs) el = do {
     (stop, el) \<leftarrow> handle_event P ev el;
     if stop then Some (True, el) else handle_events P evs el
   }"

definition loop_iteration :: "'p ansi_parser \<Rightarrow> poll_event list io_result \<Rightarrow> 'p event_loop \<Rightarrow> (bool \<times> 'p event_loop) option" where
  \<comment> \<open>the body of \<^verbatim>\<open>'event_loop\<close>, given what polling returns; the flag tells whether the loop is left\<close>
  "loop_iteration P polled el =
     (case polled of
        Io_Err err \<Rightarrow> Some (err \<noteq> Interrupted, el)
      | Io_Ok evs \<Rightarrow>
          let (idle, el) = (if evs = [] then apfst (\<lambda>m. m = None) (rx_peek el) else (False, el)) in
          if idle then
            (let (p, t) = parser_stop_sync P (ls_parser (el_state el), el_terminal el) in
             Some (False, el\<lparr>el_state := (el_state el)\<lparr>ls_parser := p\<rparr>, el_terminal := send_event Wakeup t\<rparr>))
          else
            (case drain_recv_channel el of
               (False, el) \<Rightarrow> Some (True, el)
             | (True, el) \<Rightarrow> do {
                 (stop, el) \<leftarrow> handle_events P evs el;
                 Some (stop, if stop then el else el\<lparr>interest_writable := needs_write (el_state el)\<rparr>)
               }))"

section \<open>Nothing is lost on the way to the PTY\<close>

definition pending :: "'p loop_state \<Rightarrow> bytes" where
  "pending st = (case cur_writing st of None \<Rightarrow> [] | Some w \<Rightarrow> remaining_bytes w) @ concat (write_list st)"

fun msg_bytes :: "msg \<Rightarrow> bytes" where
  "msg_bytes (Msg_Input bs) = bs"
| "msg_bytes Msg_Shutdown = []"
| "msg_bytes (Msg_Resize ws) = []"

text \<open>The bytes that passed or are still to pass: written, waiting in the loop, or in the channel.\<close>

definition stream :: "'p event_loop \<Rightarrow> bytes" where
  "stream el = el_sent el @ pending (el_state el) @ concat (map msg_bytes (queued el))"

lemma pending_goto_next: "cur_writing st = None \<Longrightarrow> pending (goto_next st) = pending st"
  by (auto simp: pending_def goto_next_def writing_new_def remaining_bytes_def split: list.splits)

lemma pending_ensure_next [simp]: "pending (ensure_next st) = pending st"
  by (simp add: ensure_next_def pending_goto_next)

lemma remaining_advance: "take n (remaining_bytes w) @ remaining_bytes (writing_advance n w) = remaining_bytes w"
  by (simp add: remaining_bytes_def writing_advance_def) (metis add.commute append_take_drop_id drop_drop)

lemma remaining_finished: "writing_finished w \<Longrightarrow> remaining_bytes w = []"
  by (simp add: writing_finished_def remaining_bytes_def)

lemma write_one_fifo:
  "write_one current answers st = (go, res, st', sent, answers') \<Longrightarrow> cur_writing st = None \<Longrightarrow>
   sent @ pending st' = remaining_bytes current @ concat (write_list st)"
proof (induction current answers st arbitrary: go res st' sent answers' rule: write_one.induct)
  case (1 current answers st)
  obtain a as where a: "next_answer answers = (a, as)" by (cases "next_answer answers")
  show ?case
  proof (cases a)
    case (Io_Err err)
    then show ?thesis using 1(2,3) a by (subst (asm) write_one.simps) (auto simp: set_current_def pending_def)
  next
    case (Io_Ok n)
    show ?thesis
    proof (cases "n = 0")
      case True
      then show ?thesis using 1(2,3) a Io_Ok by (subst (asm) write_one.simps) (auto simp: set_current_def pending_def)
    next
      case n: False
      let ?w = "writing_advance n current"
      note adv = remaining_advance [of n current]
      show ?thesis
      proof (cases "writing_finished ?w")
        case True
        then have "sent = take n (remaining_bytes current)" "st' = goto_next st"
          using 1(2) a Io_Ok n by (subst (asm) write_one.simps; simp add: Let_def)+
        then show ?thesis using adv remaining_finished [OF True] pending_goto_next [OF 1(3)] 1(3) by (simp add: pending_def)
      next
        case False
        obtain sent' where s: "write_one ?w as st = (go, res, st', sent', answers')" "sent = take n (remaining_bytes current) @ sent'"
          using 1(2) a Io_Ok n False by (subst (asm) write_one.simps) (auto simp: Let_def split: prod.splits)
        have "sent' @ pending st' = remaining_bytes ?w @ concat (write_list st)"
          using 1(1) [OF a [symmetric] Io_Ok n refl refl False s(1) 1(3)] .
        then show ?thesis using s(2) adv by (metis append.assoc)
      qed
    qed
  qed
qed

lemma write_many_fifo:
  "write_many answers st = (res, st', sent, answers') \<Longrightarrow> sent @ pending st' = pending st"
proof (induction answers st arbitrary: res st' sent answers' rule: write_many.induct)
  case (1 answers st)
  show ?case
  proof (cases "cur_writing st")
    case None
    then show ?thesis using "1.prems" by (subst (asm) write_many.simps) (auto simp: take_current_def pending_def)
  next
    case (Some w)
    let ?st = "st\<lparr>cur_writing := None\<rparr>"
    have t: "take_current st = (Some w, ?st)" using Some by (simp add: take_current_def)
    obtain go r st1 s1 as where o: "write_one w answers ?st = (go, r, st1, s1, as)" by (cases "write_one w answers ?st") auto
    have f: "s1 @ pending st1 = pending st" using write_one_fifo [OF o] Some by (simp add: pending_def)
    show ?thesis
    proof (cases go)
      case False
      then show ?thesis using "1.prems" t o f by (subst (asm) write_many.simps) simp
    next
      case True
      obtain r2 st2 s2 as2 where m: "write_many as st1 = (r2, st2, s2, as2)" by (cases "write_many as st1") auto
      have "s2 @ pending st2 = pending st1" using "1.IH" [OF t [symmetric] refl o [symmetric]] True m by blast
      moreover have "st' = st2" "sent = s1 @ s2" using "1.prems" t o True m by (subst (asm) write_many.simps; simp)+
      ultimately show ?thesis using f by simp
    qed
  qed
qed

lemma pty_write_stream: "pty_write answers el = (res, el') \<Longrightarrow> stream el' = stream el"
  using write_many_fifo [of answers "ensure_next (el_state el)"]
  by (auto simp: pty_write_def stream_def split: prod.splits)

lemma rx_recv_stream:
  "rx_recv el = (Some m, el') \<Longrightarrow> el_state el' = el_state el \<and> el_sent el' = el_sent el \<and> queued el = m # queued el'"
  by (auto simp: rx_recv_def queued_def split: if_splits list.splits)

lemma drain_stream: "drain_recv_channel el = (go, el') \<Longrightarrow> stream el' = stream el"
proof (induction el arbitrary: go el' rule: drain_recv_channel.induct)
  case (1 el)
  obtain m el1 where r: "rx_recv el = (m, el1)" by (cases "rx_recv el")
  show ?case
  proof (cases m)
    case None
    then show ?thesis using "1.prems" r rx_recv_queued(1) by (subst (asm) drain_recv_channel.simps) auto
  next
    case (Some x)
    note q = rx_recv_stream [OF r [unfolded Some]]
    show ?thesis
    proof (cases x)
      case (Msg_Input bs)
      let ?el = "el1\<lparr>el_state := (el_state el1)\<lparr>write_list := write_list (el_state el1) @ [bs]\<rparr>\<rparr>"
      have "stream el' = stream ?el" using "1.IH"(1) [OF r [symmetric] Some Msg_Input] "1.prems" r Some Msg_Input
        by (subst (asm) (2) drain_recv_channel.simps) simp
      also have "\<dots> = stream el" using q Msg_Input by (simp add: stream_def pending_def)
      finally show ?thesis .
    next
      case Msg_Shutdown
      then show ?thesis using "1.prems" r Some q by (subst (asm) drain_recv_channel.simps) (auto simp: stream_def)
    next
      case (Msg_Resize ws)
      let ?el = "el1\<lparr>el_resizes := el_resizes el1 @ [ws]\<rparr>"
      have "stream el' = stream ?el" using "1.IH"(2) [OF r [symmetric] Some Msg_Resize] "1.prems" r Some Msg_Resize
        by (subst (asm) (2) drain_recv_channel.simps) simp
      also have "\<dots> = stream el" using q Msg_Resize by (simp add: stream_def)
      finally show ?thesis .
    qed
  qed
qed

lemma stream_updates [simp]:
  "stream (el\<lparr>el_terminal := t\<rparr>) = stream el" "stream (el\<lparr>interest_writable := b\<rparr>) = stream el"
  "stream (el\<lparr>el_state := (el_state el)\<lparr>ls_parser := p\<rparr>\<rparr>) = stream el"
  by (simp_all add: stream_def pending_def)

lemma pty_read_stream:
  assumes "pty_read P answers locks el = Some (res, el')"
  shows "stream el' = stream el"
proof -
  obtain r rd where "read_loop P answers locks \<lparr>unprocessed = [], processed = 0, locked = False,
      rd_parser = ls_parser (el_state el), rd_terminal = el_terminal el\<rparr> = Some (r, rd)"
    using assms by (auto simp: pty_read_def)
  then show ?thesis using assms
    by (cases r) (auto simp: pty_read_def Let_def stream_def pending_def split: if_splits)
qed

lemma handle_event_stream: "handle_event P ev el = Some (stop, el') \<Longrightarrow> stream el' = stream el"
  by (cases ev)
    (auto simp: handle_event_def Let_def split: option.splits Option.bind_splits if_splits io_result.splits prod.splits
      dest!: pty_read_stream pty_write_stream)

lemma handle_events_stream: "handle_events P evs el = Some (stop, el') \<Longrightarrow> stream el' = stream el"
  by (induction evs arbitrary: el) (auto split: Option.bind_splits if_splits dest!: handle_event_stream)

lemma rx_peek_stream: "rx_peek el = (m, el') \<Longrightarrow> stream el' = stream el"
  by (auto simp: rx_peek_def Let_def stream_def queued_def split: if_splits list.splits)

lemma idle_stream: "apfst f (rx_peek el) = (b, el') \<Longrightarrow> stream el' = stream el"
  by (cases "rx_peek el") (auto dest: rx_peek_stream)

lemma loop_iteration_stream: "loop_iteration P polled el = Some (stop, el') \<Longrightarrow> stream el' = stream el"
  by (cases polled)
    (auto simp: loop_iteration_def Let_def split: prod.splits if_splits Option.bind_splits bool.splits
      dest!: drain_stream handle_events_stream idle_stream)

text \<open>Runs of the loop: the window sends input, resizes and the request to stop at any time, and the loop iterates.\<close>

inductive loop_run :: "'p ansi_parser \<Rightarrow> 'p event_loop \<Rightarrow> bytes \<Rightarrow> 'p event_loop \<Rightarrow> bool" for P el0 where
  start: "loop_run P el0 [] el0"
| sent: "loop_run P el0 typed el \<Longrightarrow> loop_run P el0 (typed @ bs) (notify bs el)"
| resized: "loop_run P el0 typed el \<Longrightarrow> loop_run P el0 typed (notify_resize ws el)"
| stopped: "loop_run P el0 typed el \<Longrightarrow> loop_run P el0 typed (el\<lparr>el_rx := el_rx el @ [Msg_Shutdown]\<rparr>)"
| iterated: "loop_run P el0 typed el \<Longrightarrow> loop_iteration P polled el = Some (False, el') \<Longrightarrow> loop_run P el0 typed el'"

lemma notify_stream: "stream (notify bs el) = stream el @ bs" "stream (notify_resize ws el) = stream el"
  "stream (el\<lparr>el_rx := el_rx el @ [Msg_Shutdown]\<rparr>) = stream el"
  by (auto simp: notify_def notify_resize_def stream_def queued_def split: option.split)

lemma loop_run_stream: "loop_run P el0 typed el \<Longrightarrow> stream el = stream el0 @ typed"
  by (induction rule: loop_run.induct) (auto simp: notify_stream dest: loop_iteration_stream)

text \<open>
  C20 (refinement): the loop is a queue between the window and the shell. However many bytes the PTY accepts at a time, whenever it
  would block, fails or is not ready, and however often the loop runs: what was written to the PTY is the beginning of what the window
  sent, in order, and the rest is still in the loop or in the channel.
\<close>

theorem pty_fifo:
  assumes "loop_run P (event_loop_new t parser drain) typed el"
  shows "typed = el_sent el @ pending (el_state el) @ concat (map msg_bytes (queued el))"
  using loop_run_stream [OF assms] by (simp add: stream_def event_loop_new_def pending_def queued_def)

section \<open>Everything is written in the end\<close>

lemma write_one_accepted:
  "\<forall>a \<in> set answers. \<exists>n > 0. a = Io_Ok n \<Longrightarrow> length (remaining_bytes current) < length answers \<Longrightarrow>
   \<exists>sent as. write_one current answers st = (True, Io_Ok (), goto_next st, sent, as)
     \<and> length answers \<le> length as + max 1 (length (remaining_bytes current)) \<and> set as \<subseteq> set answers"
proof (induction current answers st rule: write_one.induct)
  case (1 current answers st)
  obtain n as where a: "answers = Io_Ok n # as" "0 < n" using 1(2,3) by (cases answers) auto
  then have na: "next_answer answers = (Io_Ok n, as)" by (simp add: next_answer_def)
  let ?w = "writing_advance n current"
  show ?case
  proof (cases "writing_finished ?w")
    case True
    then show ?thesis using a na by (subst write_one.simps) (auto simp: Let_def)
  next
    case False
    have len: "length (remaining_bytes ?w) + n \<le> length (remaining_bytes current)" "0 < length (remaining_bytes ?w)"
      using False by (auto simp: remaining_bytes_def writing_advance_def writing_finished_def)
    then have "length (remaining_bytes ?w) < length as" "\<forall>a \<in> set as. \<exists>n > 0. a = Io_Ok n" using 1(2,3) a by auto
    with 1(1) [OF na [symmetric] refl _ refl refl False] a(2) obtain s as' where
      "write_one ?w as st = (True, Io_Ok (), goto_next st, s, as')" "length as \<le> length as' + max 1 (length (remaining_bytes ?w))"
      "set as' \<subseteq> set as" by auto
    then show ?thesis using a na len False by (subst write_one.simps) (auto simp: Let_def)
  qed
qed

text \<open>The number of answers that are enough: one for each byte, and one for each message.\<close>

definition write_effort :: "'p loop_state \<Rightarrow> nat" where
  "write_effort st = (case cur_writing st of None \<Rightarrow> 0 | Some w \<Rightarrow> length (remaining_bytes w) + 1)
     + sum_list (map (\<lambda>c. length c + 1) (write_list st))"

lemma write_effort_next: "cur_writing st = None \<Longrightarrow> write_effort (goto_next st) = write_effort st"
  by (auto simp: write_effort_def goto_next_def writing_new_def remaining_bytes_def split: list.splits)

lemma write_many_accepted:
  "\<forall>a \<in> set answers. \<exists>n > 0. a = Io_Ok n \<Longrightarrow> write_effort st \<le> length answers \<Longrightarrow> cur_writing st = None \<longrightarrow> write_list st = [] \<Longrightarrow>
   \<exists>st' sent as. write_many answers st = (Io_Ok (), st', sent, as) \<and> \<not> needs_write st'"
proof (induction answers st rule: write_many.induct)
  case (1 answers st)
  show ?case
  proof (cases "cur_writing st")
    case None
    then show ?thesis using "1.prems"(3) by (subst write_many.simps) (simp add: take_current_def needs_write_def)
  next
    case (Some w)
    let ?st = "st\<lparr>cur_writing := None\<rparr>"
    have t: "take_current st = (Some w, ?st)" using Some by (simp add: take_current_def)
    have e: "write_effort st = length (remaining_bytes w) + 1 + write_effort ?st" using Some by (simp add: write_effort_def)
    then have "length (remaining_bytes w) < length answers" using "1.prems"(2) by simp
    from write_one_accepted [OF "1.prems"(1) this, of ?st] obtain s as where
      o: "write_one w answers ?st = (True, Io_Ok (), goto_next ?st, s, as)"
        "length answers \<le> length as + max 1 (length (remaining_bytes w))" "set as \<subseteq> set answers" by blast
    have eff: "write_effort (goto_next ?st) \<le> length as" using o(2) e "1.prems"(2) write_effort_next [of ?st] by simp
    have cur: "cur_writing (goto_next ?st) = None \<longrightarrow> write_list (goto_next ?st) = []" by (auto simp: goto_next_def split: list.splits)
    have all: "\<forall>a \<in> set as. \<exists>n > 0. a = Io_Ok n" using o(3) "1.prems"(1) by auto
    from "1.IH" [OF t [symmetric] refl o(1) [symmetric] refl refl refl refl all eff cur] obtain st' s' as'
      where "write_many as (goto_next ?st) = (Io_Ok (), st', s', as')" "\<not> needs_write st'" by blast
    then show ?thesis using t o(1) by (subst write_many.simps) simp
  qed
qed

text \<open>
  As long as the PTY accepts at least a byte with every write, and with as many writes as there are bytes and messages,
  \<^verbatim>\<open>pty_write\<close> writes everything: it succeeds, the bytes that were waiting have been sent and
  the loop no longer waits for the PTY to become writable.
\<close>

theorem pty_write_completes:
  assumes "\<forall>a \<in> set answers. \<exists>n > 0. a = Io_Ok n" "write_effort (el_state el) \<le> length answers"
  shows "\<exists>el'. pty_write answers el = (Io_Ok (), el') \<and> el_sent el' = el_sent el @ pending (el_state el) \<and> \<not> needs_write (el_state el')"
proof -
  let ?st = "ensure_next (el_state el)"
  have "write_effort ?st = write_effort (el_state el)" by (simp add: ensure_next_def write_effort_next)
  moreover have "cur_writing ?st = None \<longrightarrow> write_list ?st = []" by (auto simp: ensure_next_def goto_next_def split: list.splits)
  ultimately obtain st' sent as where m: "write_many answers ?st = (Io_Ok (), st', sent, as)" "\<not> needs_write st'"
    using write_many_accepted [OF assms(1), of ?st] assms(2) by auto
  then have "pending st' = []" by (simp add: needs_write_def pending_def)
  then have "sent = pending (el_state el)" using write_many_fifo [OF m(1)] by simp
  then show ?thesis using m by (simp add: pty_write_def)
qed

section \<open>Reading\<close>

fun ok_bytes :: "bytes io_result \<Rightarrow> bytes" where
  "ok_bytes (Io_Ok bs) = bs"
| "ok_bytes (Io_Err err) = []"

text \<open>What the loop does with an answer: it stops, keeps the bytes, or passes them to the parser.\<close>

lemma read_loop_cases:
  assumes "read_loop P (answer # answers) locks rd = Some (Io_Ok (), rd')"
  defines "rd1 \<equiv> rd\<lparr>unprocessed := unprocessed rd @ ok_bytes answer\<rparr>"
  shows "rd' = rd \<and> unprocessed rd = [] \<and> ok_bytes answer = []
    \<or> (\<exists>locks. read_loop P answers locks rd1 = Some (Io_Ok (), rd'))
    \<or> rd' = parse_read P rd1 \<or> (\<exists>locks. read_loop P answers locks (parse_read P rd1) = Some (Io_Ok (), rd'))"
  using assms(1) by (cases answer) (auto simp: rd1_def Let_def split: if_splits list.splits)

lemma parse_read_fold:
  "(rd_parser (parse_read P rd), rd_terminal (parse_read P rd)) = parser_advance P (unprocessed rd) (rd_parser rd, rd_terminal rd)"
  "unprocessed (parse_read P rd) = []" "processed (parse_read P rd) = processed rd + length (unprocessed rd)"
  by (simp_all add: parse_read_def split: prod.split)

lemma read_loop_in_order:
  "read_loop P answers locks rd = Some (Io_Ok (), rd') \<Longrightarrow>
   \<exists>k chunks. concat chunks = unprocessed rd @ concat (map ok_bytes (take k answers))
     \<and> (rd_parser rd', rd_terminal rd') = fold (parser_advance P) chunks (rd_parser rd, rd_terminal rd)
     \<and> unprocessed rd' = [] \<and> processed rd' = processed rd + length (concat chunks)"
proof (induction answers arbitrary: locks rd)
  case (Cons answer answers)
  let ?rd = "rd\<lparr>unprocessed := unprocessed rd @ ok_bytes answer\<rparr>"
  note parsed = parse_read_fold [of P ?rd]
  consider "rd' = rd" "unprocessed rd = []" "ok_bytes answer = []"
    | locks where "read_loop P answers locks ?rd = Some (Io_Ok (), rd')"
    | "rd' = parse_read P ?rd" | locks where "read_loop P answers locks (parse_read P ?rd) = Some (Io_Ok (), rd')"
    using read_loop_cases [OF Cons.prems] by blast
  then show ?case
  proof cases
    case 1
    then show ?thesis by (intro exI [of _ 0] exI [of _ "[]"]) simp
  next
    case 2
    from Cons.IH [OF this] obtain k chunks where "concat chunks = unprocessed ?rd @ concat (map ok_bytes (take k answers))"
      "(rd_parser rd', rd_terminal rd') = fold (parser_advance P) chunks (rd_parser rd, rd_terminal rd)"
      "unprocessed rd' = []" "processed rd' = processed rd + length (concat chunks)" by auto
    then show ?thesis by (intro exI [of _ "Suc k"] exI [of _ chunks]) simp
  next
    case 3
    then show ?thesis using parsed by (intro exI [of _ 1] exI [of _ "[unprocessed ?rd]"]) simp
  next
    case 4
    from Cons.IH [OF this] obtain k chunks where "concat chunks = concat (map ok_bytes (take k answers))"
      "(rd_parser rd', rd_terminal rd') = fold (parser_advance P) chunks (rd_parser (parse_read P ?rd), rd_terminal (parse_read P ?rd))"
      "unprocessed rd' = []" "processed rd' = processed (parse_read P ?rd) + length (concat chunks)" using parsed(2) by auto
    then show ?thesis using parsed by (intro exI [of _ "Suc k"] exI [of _ "unprocessed ?rd # chunks"]) simp
  qed
qed simp


text \<open>
  C37 (error): output of the shell can be lost when the shell exits. If bytes were read while the terminal was locked by the window and the
  next read reports that the other side hung up, \<^verbatim>\<open>pty_read\<close> returns the error with these bytes
  still in its buffer, and the loop goes on without them.
\<close>

theorem pty_read_drops:
  assumes "got \<noteq> []" "length got < READ_BUFFER_SIZE"
  shows "handle_event P (Read_Write False True writable [Io_Ok got, Io_Err EIO] [False] writes) el = Some (False, el)"
  using assms by (simp add: handle_event_def pty_read_def)

section \<open>Witnesses\<close>

text \<open>A parser that collects the bytes it is given.\<close>

definition demo_parser :: "bytes ansi_parser" where
  "demo_parser = \<lparr>parser_advance = \<lambda>bs (p, t). (p @ bs, t), parser_stop_sync = id, sync_bytes_count = \<lambda>_. 0\<rparr>"

definition demo_queue :: "bytes event_loop" where
  "demo_queue = notify [1, 2, 3] (event_loop_new demo_term [] False)"

definition demo_polled :: "poll_event list io_result" where
  "demo_polled = Io_Ok [Read_Write False False True [] [] [Io_Ok 2]]"

lemma demo_queue_runs: "loop_run demo_parser (event_loop_new demo_term [] False) [1, 2, 3] demo_queue"
  using loop_run.sent [OF loop_run.start, of demo_parser _ "[1, 2, 3]"] by (simp add: demo_queue_def)

lemma demo_iteration:
  "loop_iteration demo_parser demo_polled demo_queue =
     Some (False, (event_loop_new demo_term [] False)\<lparr>el_state := \<lparr>write_list = [], cur_writing = Some \<lparr>w_source = [1, 2, 3], w_written = 2\<rparr>, ls_parser = []\<rparr>,
       el_sent := [1, 2], interest_writable := True\<rparr>)"
  by (simp add: loop_iteration_def demo_polled_def demo_queue_def notify_def event_loop_new_def drain_recv_channel.simps
      rx_recv_def handle_event_def pty_write_def ensure_next_def goto_next_def write_many.simps take_current_def
      write_one.simps next_answer_def writing_new_def writing_advance_def writing_finished_def remaining_bytes_def
      set_current_def needs_write_def)

theorem pty_fifo_witness:
  "\<exists>el. loop_iteration demo_parser demo_polled demo_queue = Some (False, el)
     \<and> [1, 2, 3] = el_sent el @ pending (el_state el) @ concat (map msg_bytes (queued el))"
  using pty_fifo [OF loop_run.iterated [OF demo_queue_runs demo_iteration]] demo_iteration by simp

theorem pty_write_completes_witness:
  "\<exists>el'. pty_write [Io_Ok 1, Io_Ok 7, Io_Ok 1, Io_Ok 1] (demo_queue\<lparr>el_state := \<lparr>write_list = [[1, 2, 3]], cur_writing = None, ls_parser = []\<rparr>\<rparr>) = (Io_Ok (), el')
     \<and> el_sent el' = [1, 2, 3] \<and> \<not> needs_write (el_state el')"
  using pty_write_completes [of "[Io_Ok 1, Io_Ok 7, Io_Ok 1, Io_Ok 1]" "demo_queue\<lparr>el_state := \<lparr>write_list = [[1, 2, 3]], cur_writing = None, ls_parser = []\<rparr>\<rparr>"]
  by (simp add: write_effort_def demo_queue_def notify_def event_loop_new_def pending_def)

lemma demo_reading: "\<exists>el'. pty_read demo_parser [Io_Ok [7, 8], Io_Ok [9], Io_Err WouldBlock] [False, True] demo_queue = Some (Io_Ok (), el')"
  by (simp add: pty_read_def demo_queue_def notify_def event_loop_new_def demo_parser_def parse_read_def
      READ_BUFFER_SIZE_def MAX_LOCKED_READ_def Let_def)


theorem pty_read_drops_witness:
  "handle_event demo_parser (Read_Write False True False [Io_Ok [65], Io_Err EIO] [False] []) demo_queue = Some (False, demo_queue)"
  by (rule pty_read_drops) (simp_all add: READ_BUFFER_SIZE_def)

end
