(* ===== verification/Mouse_Input.thy ===== *)
theory Mouse_Input
  imports Selection_Text Display_Damage Scheduler Decimal_Text
begin

text \<open>
  Mouse input (\<^verbatim>\<open>alacritty/src/input/mod.rs\<close>, and the parts of \<^verbatim>\<open>alacritty/src/event.rs\<close> it calls): from pixels to cells, single, double and
  triple clicks, selections made with the mouse, and the reports that a program in the terminal can ask for.
  All sizes in pixels are whole numbers (cell sizes and padding are rounded down when they are computed), so a \<^verbatim>\<open>SizeInfo\<close> of floats is one
  of \<open>nat\<close> here. Calls of \<^verbatim>\<open>Instant::now\<close> are arguments.
\<close>

unbundle bit_operations_syntax

section \<open>State\<close>

datatype element_state = Pressed | Released

datatype mouse_button = Mouse_Left | Mouse_Right | Mouse_Middle | Mouse_Back | Mouse_Forward | Mouse_Other nat

datatype click_state = No_Click | Click | DoubleClick | TripleClick

record modifiers =
  shift_key :: bool
  alt_key :: bool
  control_key :: bool
  super_key :: bool

record mouse =
  left_button_state :: element_state
  middle_button_state :: element_state
  right_button_state :: element_state
  last_click_timestamp :: nat
  last_click_button :: mouse_button
  mouse_click_state :: click_state
  mouse_cell_side :: side
  block_hint_launcher :: bool
  hint_highlight_dirty :: bool
  inside_text_area :: bool
  mouse_x :: nat
  mouse_y :: nat

definition mouse_default :: "nat \<Rightarrow> mouse" where
  "mouse_default now =
     \<lparr>left_button_state = Released, middle_button_state = Released, right_button_state = Released,
      last_click_timestamp = now, last_click_button = Mouse_Left, mouse_click_state = No_Click, mouse_cell_side = Left,
      block_hint_launcher = False, hint_highlight_dirty = False, inside_text_area = False, mouse_x = 0, mouse_y = 0\<rparr>"

text \<open>
  The parts of \<^verbatim>\<open>ActionContext\<close> that the mouse handlers use. \<open>cx_written\<close> is what was written to the PTY, \<open>cx_clipboard\<close>
  what was stored in the clipboards, \<open>cx_triggered\<close> the hints that were launched. The events are those that timers send.
\<close>

datatype app_event = Event_Scroll int | Event_SearchNext | Event_BlinkCursor | Event_BlinkCursorTimeout

record ('h, 'w) ctx =
  cx_terminal :: terminal
  cx_mouse :: mouse
  cx_modifiers :: modifiers
  cx_size :: "nat size_info"
  cx_search_active :: bool
  save_to_clipboard :: bool
  cx_written :: "nat list list"
  cx_clipboard :: "(clipboard_type \<times> ustring) list"
  cx_highlighted_hint :: "'h option"
  cx_triggered :: "'h list"
  cx_scheduler :: "(app_event, 'w) scheduler"
  cx_window :: 'w
  cx_dirty :: bool

section \<open>Pixels and cells\<close>

definition mouse_point :: "mouse \<Rightarrow> nat size_info \<Rightarrow> nat \<Rightarrow> point option" where
  \<comment> \<open>\<open>None\<close>: a division by zero\<close>
  "mouse_point m si offset = do {
     ensure (0 < si_cell_width si \<and> 0 < si_cell_height si);
     last \<leftarrow> csub (si_columns si) 1;
     bottom \<leftarrow> csub (si_screen_lines si) 1;
     let col = min ((mouse_x m - si_padding_x si) div si_cell_width si) last;
     let l = min ((mouse_y m - si_padding_y si) div si_cell_height si) bottom;
     Some (viewport_to_point offset (l, col))
   }"

definition contains_point :: "nat size_info \<Rightarrow> nat \<Rightarrow> nat \<Rightarrow> bool" where
  "contains_point si x y \<longleftrightarrow>
     x \<le> si_padding_x si + si_columns si * si_cell_width si \<and> x > si_padding_x si
     \<and> y \<le> si_padding_y si + si_screen_lines si * si_cell_height si \<and> y > si_padding_y si"

definition cell_side :: "nat size_info \<Rightarrow> nat \<Rightarrow> side option" where
  "cell_side si x = do {
     ensure (0 < si_cell_width si);
     let cell_x = (x - si_padding_x si) mod si_cell_width si;
     let half_cell_width = si_cell_width si div 2;
     let text_width = int (si_width si) - 2 * int (si_padding_x si);
     let additional_padding = text_width smod int (si_cell_width si);
     let end_of_grid = int (si_width si) - int (si_padding_x si) - additional_padding;
     Some (if cell_x > half_cell_width \<or> int x \<ge> end_of_grid then Right else Left)
   }"

section \<open>Selections\<close>

definition cx_selection_is_empty :: "('h, 'w) ctx \<Rightarrow> bool" where
  "cx_selection_is_empty cx = (case t_selection (cx_terminal cx) of None \<Rightarrow> True | Some s \<Rightarrow> selection_is_empty s)"

definition copy_selection :: "clipboard_type \<Rightarrow> ('h, 'w) ctx \<Rightarrow> ('h, 'w) ctx option" where
  "copy_selection ty cx = do {
     s \<leftarrow> selection_to_string (cx_terminal cx);
     case s of
       None \<Rightarrow> Some cx
     | Some s \<Rightarrow>
         if s = [] then Some cx
         else do {
           let cx = (if ty = Clipboard_Selection \<and> save_to_clipboard cx
                     then cx\<lparr>cx_clipboard := cx_clipboard cx @ [(Clipboard_Main, s)]\<rparr> else cx);
           Some (cx\<lparr>cx_clipboard := cx_clipboard cx @ [(ty, s)]\<rparr>)
         }
   }"

definition clear_selection :: "('h, 'w) ctx \<Rightarrow> ('h, 'w) ctx" where
  "clear_selection cx =
     cx\<lparr>cx_terminal := (cx_terminal cx)\<lparr>t_selection := None\<rparr>, cx_dirty := cx_dirty cx \<or> \<not> cx_selection_is_empty cx\<rparr>"

definition start_selection :: "selection_type \<Rightarrow> point \<Rightarrow> side \<Rightarrow> ('h, 'w) ctx \<Rightarrow> ('h, 'w) ctx option" where
  "start_selection ty p sd cx =
     copy_selection Clipboard_Selection
       (cx\<lparr>cx_terminal := (cx_terminal cx)\<lparr>t_selection := Some (selection_new ty p sd)\<rparr>, cx_dirty := True\<rparr>)"

definition update_selection :: "point \<Rightarrow> side \<Rightarrow> ('h, 'w) ctx \<Rightarrow> ('h, 'w) ctx" where
  "update_selection p sd cx = (let t = cx_terminal cx in
     case t_selection t of
       None \<Rightarrow> cx
     | Some s \<Rightarrow>
         let p = Point (min (line p) (bottommost_line (t_dims t))) (column p);
             s = selection_update p sd s;
             (t, s) = (if mode_contains VI t \<and> \<not> cx_search_active cx
                       then (t\<lparr>vi_mode_cursor := p\<rparr>, include_all s) else (t, s)) in
         cx\<lparr>cx_terminal := t\<lparr>t_selection := Some s\<rparr>, cx_dirty := True\<rparr>)"

definition toggle_selection :: "selection_type \<Rightarrow> point \<Rightarrow> side \<Rightarrow> ('h, 'w) ctx \<Rightarrow> ('h, 'w) ctx option" where
  "toggle_selection ty p sd cx =
     (case t_selection (cx_terminal cx) of
        Some s \<Rightarrow>
          if sel_ty s = ty \<and> \<not> selection_is_empty s then Some (clear_selection cx)
          else if \<not> selection_is_empty s then
            copy_selection Clipboard_Selection
              (cx\<lparr>cx_terminal := (cx_terminal cx)\<lparr>t_selection := Some (s\<lparr>sel_ty := ty\<rparr>)\<rparr>, cx_dirty := True\<rparr>)
          else start_selection ty p sd cx
      | None \<Rightarrow> start_selection ty p sd cx)"

section \<open>Reports\<close>

definition write_to_pty :: "nat list \<Rightarrow> ('h, 'w) ctx \<Rightarrow> ('h, 'w) ctx" where
  "write_to_pty bs cx = (if bs = [] then cx else cx\<lparr>cx_written := cx_written cx @ [bs]\<rparr>)"

definition mouse_mode :: "('h, 'w) ctx \<Rightarrow> bool" where
  "mouse_mode cx \<longleftrightarrow> flag_intersects (t_mode (cx_terminal cx)) MOUSE_MODE \<and> \<not> mode_contains VI (cx_terminal cx)"

text \<open>Bytes are \<open>nat\<close>; \<open>as_u8\<close> is the cast \<^verbatim>\<open>as u8\<close> and \<open>add_u8\<close> an addition of \<^verbatim>\<open>u8\<close> values, which panics when it overflows.\<close>

definition as_u8 :: "nat \<Rightarrow> nat" where
  "as_u8 n = n mod 256"

definition add_u8 :: "nat \<Rightarrow> nat \<Rightarrow> nat option" where
  "add_u8 a b = (if a + b < 256 then Some (a + b) else None)"

definition mouse_pos_encode :: "nat \<Rightarrow> nat list" where
  "mouse_pos_encode pos = (let pos = 32 + 1 + pos in [as_u8 (0xC0 + pos div 64), as_u8 (0x80 + pos mod 64)])"

definition encode_position :: "bool \<Rightarrow> nat \<Rightarrow> nat list option" where
  \<comment> \<open>the branches for the column and for the line are alike\<close>
  "encode_position utf8 pos =
     (if utf8 \<and> pos \<ge> 95 then Some (mouse_pos_encode pos)
      else map_option (\<lambda>b. [b]) (add_u8 (32 + 1) (as_u8 pos)))"

definition normal_mouse_report :: "term_mode \<Rightarrow> point \<Rightarrow> nat \<Rightarrow> nat list option option" where
  \<comment> \<open>the bytes written to the PTY, if any\<close>
  "normal_mouse_report mode p button = do {
     let utf8 = flag_contains mode UTF8_MOUSE;
     let max_point = (if utf8 then 2015 else 223);
     if line p \<ge> int max_point \<or> column p \<ge> max_point then Some None
     else do {
       b \<leftarrow> add_u8 32 button;
       c \<leftarrow> encode_position utf8 (column p);
       l \<leftarrow> encode_position utf8 (nat (line p));
       Some (Some ([0x1B, 0x5B, 0x4D, b] @ c @ l))
     }
   }"

definition sgr_mouse_report :: "point \<Rightarrow> nat \<Rightarrow> element_state \<Rightarrow> nat list" where
  "sgr_mouse_report p button st =
     map of_char (ESC @ ''[<'' @ dec_digits button @ '';'' @ dec_digits (column p + 1) @ '';'' @ dec_int (line p + 1)
       @ [case st of Pressed \<Rightarrow> CHR ''M'' | Released \<Rightarrow> CHR ''m''])"

definition modifier_bits :: "modifiers \<Rightarrow> nat" where
  "modifier_bits m = (if shift_key m then 4 else 0) + (if alt_key m then 8 else 0) + (if control_key m then 16 else 0)"

definition report_at :: "term_mode \<Rightarrow> modifiers \<Rightarrow> point \<Rightarrow> nat \<Rightarrow> element_state \<Rightarrow> nat list option option" where
  "report_at mode m p button st =
     (if line p < 0 then Some None
      else if flag_contains mode SGR_MOUSE then do {
        b \<leftarrow> add_u8 button (modifier_bits m);
        Some (Some (sgr_mouse_report p b st))
      }
      else do {
        b \<leftarrow> add_u8 (if st = Released then 3 else button) (modifier_bits m);
        normal_mouse_report mode p b
      })"

definition mouse_report :: "nat \<Rightarrow> element_state \<Rightarrow> ('h, 'w) ctx \<Rightarrow> ('h, 'w) ctx option" where
  "mouse_report button st cx = do {
     p \<leftarrow> mouse_point (cx_mouse cx) (cx_size cx) (display_offset (t_grid (cx_terminal cx)));
     msg \<leftarrow> report_at (t_mode (cx_terminal cx)) (cx_modifiers cx) p button st;
     Some (case msg of None \<Rightarrow> cx | Some bs \<Rightarrow> write_to_pty bs cx)
   }"

definition on_focus_change :: "bool \<Rightarrow> ('h, 'w) ctx \<Rightarrow> ('h, 'w) ctx" where
  "on_focus_change focused cx =
     (if mode_contains FOCUS_IN_OUT (cx_terminal cx)
      then write_to_pty (map of_char (ESC @ ''['' @ (if focused then ''I'' else ''O''))) cx else cx)"

section \<open>Buttons\<close>

definition CLICK_THRESHOLD :: nat where
  \<comment> \<open>milliseconds\<close>
  "CLICK_THRESHOLD = 400"

definition button_code :: "mouse_button \<Rightarrow> nat option" where
  "button_code b = (case b of Mouse_Left \<Rightarrow> Some 0 | Mouse_Middle \<Rightarrow> Some 1 | Mouse_Right \<Rightarrow> Some 2 | _ \<Rightarrow> None)"

definition next_click_state :: "nat \<Rightarrow> mouse_button \<Rightarrow> mouse \<Rightarrow> mouse" where
  "next_click_state now button m =
     (let elapsed = now - last_click_timestamp m;
          m = m\<lparr>last_click_timestamp := now\<rparr> in
      if button \<noteq> last_click_button m then m\<lparr>last_click_button := button, mouse_click_state := Click\<rparr>
      else m\<lparr>mouse_click_state :=
        (case mouse_click_state m of
           Click \<Rightarrow> if elapsed < CLICK_THRESHOLD then DoubleClick else Click
         | DoubleClick \<Rightarrow> if elapsed < CLICK_THRESHOLD then TripleClick else Click
         | _ \<Rightarrow> Click)\<rparr>)"

definition on_left_click :: "point \<Rightarrow> ('h, 'w) ctx \<Rightarrow> ('h, 'w) ctx option" where
  "on_left_click p cx = do {
     let sd = mouse_cell_side (cx_mouse cx);
     let control = control_key (cx_modifiers cx);
     let block = (\<lambda>b cx. cx\<lparr>cx_mouse := (cx_mouse cx)\<lparr>block_hint_launcher := b\<rparr>\<rparr>);
     cx \<leftarrow> (case mouse_click_state (cx_mouse cx) of
              Click \<Rightarrow> start_selection (if control then Block else Simple) p sd
                (clear_selection (block (\<not> cx_selection_is_empty cx) cx))
            | DoubleClick \<Rightarrow> if \<not> control then start_selection Semantic p sd (block True cx) else Some cx
            | TripleClick \<Rightarrow> if \<not> control then start_selection Lines p sd (block True cx) else Some cx
            | No_Click \<Rightarrow> Some cx);
     Some (if mode_contains VI (cx_terminal cx) \<and> \<not> cx_search_active cx
           then cx\<lparr>cx_terminal := (cx_terminal cx)\<lparr>vi_mode_cursor := p\<rparr>, cx_dirty := True\<rparr> else cx)
   }"

definition on_mouse_press :: "nat \<Rightarrow> mouse_button \<Rightarrow> ('h, 'w) ctx \<Rightarrow> ('h, 'w) ctx option" where
  "on_mouse_press now button cx =
     (if \<not> shift_key (cx_modifiers cx) \<and> mouse_mode cx then
        (let cx = cx\<lparr>cx_mouse := (cx_mouse cx)\<lparr>mouse_click_state := No_Click\<rparr>\<rparr> in
         case button_code button of None \<Rightarrow> Some cx | Some code \<Rightarrow> mouse_report code Pressed cx)
      else do {
        let cx = cx\<lparr>cx_mouse := next_click_state now button (cx_mouse cx)\<rparr>;
        p \<leftarrow> mouse_point (cx_mouse cx) (cx_size cx) (display_offset (t_grid (cx_terminal cx)));
        if button = Mouse_Left then on_left_click p cx else Some cx
      })"

definition on_mouse_release :: "mouse_button \<Rightarrow> ('h, 'w) ctx \<Rightarrow> ('h, 'w) ctx option" where
  "on_mouse_release button cx =
     (if \<not> shift_key (cx_modifiers cx) \<and> mouse_mode cx then
        (case button_code button of None \<Rightarrow> Some cx | Some code \<Rightarrow> mouse_report code Released cx)
      else
        (let cx = (case cx_highlighted_hint cx of
                     Some h \<Rightarrow> if button = Mouse_Left then cx\<lparr>cx_triggered := cx_triggered cx @ [h]\<rparr> else cx
                   | None \<Rightarrow> cx);
             tid = \<lparr>id_topic = SelectionScrolling, id_window = cx_window cx\<rparr>;
             cx = cx\<lparr>cx_scheduler := snd (unschedule tid (cx_scheduler cx))\<rparr> in
         if button = Mouse_Left \<or> button = Mouse_Right then copy_selection Clipboard_Selection cx else Some cx))"

section \<open>Motion\<close>

definition SELECTION_SCROLLING_INTERVAL :: nat where
  \<comment> \<open>milliseconds\<close>
  "SELECTION_SCROLLING_INTERVAL = 15"

definition update_selection_scrolling :: "nat \<Rightarrow> int \<Rightarrow> int \<Rightarrow> int \<Rightarrow> ('h, 'w) ctx \<Rightarrow> ('h, 'w) ctx option" where
  \<comment> \<open>\<open>min_height\<close> and \<open>step\<close> are the constants 5 and 20, scaled by the factor of the window\<close>
  "update_selection_scrolling now min_height step y cx =
     (let si = cx_size cx;
          end_top = max min_height (int (si_padding_y si));
          text_area_bottom = int (si_padding_y si + si_screen_lines si * si_cell_height si);
          start_bottom = min (int (si_height si) - min_height) text_area_bottom;
          tid = \<lparr>id_topic = SelectionScrolling, id_window = cx_window cx\<rparr>;
          scroll = (\<lambda>delta.
            if step = 0 then None
            else Some (cx\<lparr>cx_scheduler := schedule now (Event_Scroll (delta sdiv step)) SELECTION_SCROLLING_INTERVAL True tid
              (snd (unschedule tid (cx_scheduler cx)))\<rparr>)) in
      if y < end_top then scroll (end_top - y + step)
      else if y \<ge> start_bottom then scroll (start_bottom - y - step)
      else Some (cx\<lparr>cx_scheduler := snd (unschedule tid (cx_scheduler cx))\<rparr>))"

definition clamp_pixel :: "int \<Rightarrow> nat \<Rightarrow> nat option" where
  \<comment> \<open>\<^verbatim>\<open>x.clamp(0, size as i32 - 1) as usize\<close>; \<^verbatim>\<open>clamp\<close> panics if the bounds are in the wrong order\<close>
  "clamp_pixel x n = (if n = 0 then None else Some (nat (max 0 (min x (int n - 1)))))"

definition motion_code :: "('h, 'w) ctx \<Rightarrow> nat option" where
  "motion_code cx = (let m = cx_mouse cx in
     if left_button_state m = Pressed then Some 32
     else if middle_button_state m = Pressed then Some 33
     else if right_button_state m = Pressed then Some 34
     else if mode_contains MOUSE_MOTION (cx_terminal cx) then Some 35
     else None)"

definition mouse_moved :: "nat \<Rightarrow> int \<Rightarrow> int \<Rightarrow> int \<Rightarrow> int \<Rightarrow> ('h, 'w) ctx \<Rightarrow> ('h, 'w) ctx option" where
  \<comment> \<open>the shape of the mouse cursor, which is set in between, is a call of the window system\<close>
  "mouse_moved now min_height step x y cx = do {
     let m = cx_mouse cx;
     let si = cx_size cx;
     let pressed = (left_button_state m = Pressed \<or> right_button_state m = Pressed);
     cx \<leftarrow> (if \<not> cx_selection_is_empty cx \<and> pressed then update_selection_scrolling now min_height step y cx else Some cx);
     let offset = display_offset (t_grid (cx_terminal cx));
     old_point \<leftarrow> mouse_point m si offset;
     x \<leftarrow> clamp_pixel x (si_width si);
     y \<leftarrow> clamp_pixel y (si_height si);
     let cx = cx\<lparr>cx_mouse := (cx_mouse cx)\<lparr>mouse_x := x, mouse_y := y\<rparr>\<rparr>;
     let inside = contains_point si x y;
     sd \<leftarrow> cell_side si x;
     p \<leftarrow> mouse_point (cx_mouse cx) si offset;
     if old_point = p \<and> mouse_cell_side m = sd \<and> inside_text_area m = inside then Some cx
     else do {
       let cx = cx\<lparr>cx_mouse := (cx_mouse cx)\<lparr>inside_text_area := inside, mouse_cell_side := sd,
         hint_highlight_dirty := True, block_hint_launcher := True\<rparr>\<rparr>;
       if pressed \<and> (shift_key (cx_modifiers cx) \<or> \<not> mouse_mode cx) then Some (update_selection p sd cx)
       else if old_point \<noteq> p \<and> flag_intersects (t_mode (cx_terminal cx)) (MOUSE_MOTION OR MOUSE_DRAG) then
         (case motion_code cx of None \<Rightarrow> Some cx | Some code \<Rightarrow> mouse_report code Pressed cx)
       else Some cx
     }
   }"

section \<open>Every pixel belongs to a cell\<close>

definition size_ok :: "nat size_info \<Rightarrow> bool" where
  "size_ok si \<longleftrightarrow> 0 < si_cell_width si \<and> 0 < si_cell_height si \<and> 0 < si_columns si \<and> 0 < si_screen_lines si"

text \<open>
  C22 (bounds): whatever the position of the mouse, in the window, on the padding or on the message bar, it is translated to a cell that the
  window shows; over the text area it is the cell that is drawn there.
\<close>

theorem mouse_point_visible:
  assumes "size_ok si"
  shows "\<exists>p. mouse_point m si offset = Some p
    \<and> - int offset \<le> line p \<and> line p < int (si_screen_lines si) - int offset \<and> column p < si_columns si
    \<and> (\<forall>c l x y. c < si_columns si \<and> l < si_screen_lines si \<and> x < si_cell_width si \<and> y < si_cell_height si
         \<and> mouse_x m = si_padding_x si + c * si_cell_width si + x \<and> mouse_y m = si_padding_y si + l * si_cell_height si + y
         \<longrightarrow> p = Point (int l - int offset) c)"
proof -
  let ?c = "min ((mouse_x m - si_padding_x si) div si_cell_width si) (si_columns si - 1)"
  let ?l = "min ((mouse_y m - si_padding_y si) div si_cell_height si) (si_screen_lines si - 1)"
  have p: "mouse_point m si offset = Some (Point (int ?l - int offset) ?c)"
    using assms by (simp add: mouse_point_def size_ok_def ensure_def csub_def viewport_to_point_def)
  have cell: "min ((k * n + r) div n) (b - 1) = k" if "k < b" "r < n" for k n r b :: nat
    using that by simp
  have "?l < si_screen_lines si" "?c < si_columns si" using assms by (simp_all add: size_ok_def min_less_iff_disj)
  then show ?thesis unfolding p using cell by (auto simp: less_diff_eq simp del: div_mult_self1 div_mult_self3)
qed

section \<open>Reports can be read back\<close>

text \<open>How a program reads the reports: coordinates are bytes, or characters in UTF-8, from 33 on, or decimal numbers from 1 on.\<close>

definition decode_position :: "bool \<Rightarrow> nat list \<Rightarrow> (nat \<times> nat list) option" where
  "decode_position utf8 bs =
     (case bs of
        [] \<Rightarrow> None
      | b # bs \<Rightarrow>
          if utf8 \<and> 0xC0 \<le> b then (case bs of [] \<Rightarrow> None | c # bs \<Rightarrow> Some ((b - 0xC0) * 64 + (c - 0x80) - 33, bs))
          else Some (b - 33, bs))"

definition decode_normal :: "bool \<Rightarrow> nat list \<Rightarrow> (nat \<times> nat \<times> nat) option" where
  "decode_normal utf8 bs = do {
     ensure (take 3 bs = [0x1B, 0x5B, 0x4D] \<and> 3 < length bs);
     (c, rest) \<leftarrow> decode_position utf8 (drop 4 bs);
     (l, rest) \<leftarrow> decode_position utf8 rest;
     ensure (rest = []);
     Some (bs ! 3 - 32, c, l)
   }"

definition decode_sgr :: "nat list \<Rightarrow> (nat \<times> nat \<times> nat \<times> element_state) option" where
  "decode_sgr bs = (let s = map char_of bs in
     case split_on CHR '';'' (butlast (drop 3 s)) of
       [b, c, l] \<Rightarrow> Some (digits_value b, digits_value c - 1, digits_value l - 1, if last s = CHR ''M'' then Pressed else Released)
     | _ \<Rightarrow> None)"

lemma encode_position_decodes:
  assumes "pos < (if utf8 then 2015 else 223)"
  shows "\<exists>bs. encode_position utf8 pos = Some bs \<and> decode_position utf8 (bs @ rest) = Some (pos, rest)"
proof (cases "utf8 \<and> 95 \<le> pos")
  case True
  let ?p = "33 + pos"
  have p: "?p < 2048" "128 \<le> ?p" using assms True by simp_all
  then have "?p div 64 < 32" "?p mod 64 < 64" by (simp_all add: less_mult_imp_div_less)
  then have "mouse_pos_encode pos = [0xC0 + ?p div 64, 0x80 + ?p mod 64]"
    by (simp add: mouse_pos_encode_def as_u8_def Let_def)
  moreover have "?p div 64 * 64 + ?p mod 64 - 33 = pos" by simp
  ultimately show ?thesis using True by (simp add: encode_position_def decode_position_def)
next
  case False
  then have "pos < 223" "\<not> (utf8 \<and> 0xC0 \<le> 33 + pos)" using assms by (auto split: if_splits)
  then show ?thesis using False by (auto simp: encode_position_def decode_position_def add_u8_def as_u8_def)
qed

lemma chars_of_bytes: "map char_of (map (of_char :: char \<Rightarrow> nat) s) = s"
  by (simp add: comp_def)

lemma sgr_decodes:
  assumes "0 \<le> line p"
  shows "decode_sgr (sgr_mouse_report p b st) = Some (b, column p, nat (line p), st)"
proof -
  have sep: "CHR '';'' \<notin> set (dec_digits n)" for n by (simp add: dec_digits_no_sign is_digit_def)
  let ?ps = "dec_digits b @ CHR '';'' # dec_digits (column p + 1) @ CHR '';'' # dec_digits (nat (line p + 1))"
  let ?f = "case st of Pressed \<Rightarrow> CHR ''M'' | Released \<Rightarrow> CHR ''m''"
  have s: "map char_of (sgr_mouse_report p b st) = ESC @ ''[<'' @ ?ps @ [?f]"
    unfolding sgr_mouse_report_def chars_of_bytes using assms by (simp add: dec_int_def)
  have "split_on CHR '';'' ?ps = [dec_digits b, dec_digits (column p + 1), dec_digits (nat (line p + 1))]"
    using sep by (simp add: split_on_word split_on_last)
  moreover have "nat (line p + 1) - 1 = nat (line p)" using assms by simp
  ultimately show ?thesis unfolding decode_sgr_def s Let_def
    by (cases st) (simp_all add: ESC_def digits_value_dec butlast_append last_append)
qed


section \<open>Clicks\<close>

text \<open>
  Quick clicks of one button are counted in threes: the first is a single, the second a double and the third a triple
  click, then it starts again. A click is quick if less than 400 milliseconds have passed since the last one.
\<close>

theorem clicks_cycle:
  assumes "last_click_button m \<noteq> button" "\<forall>i < length ts - 1. ts ! Suc i - ts ! i < CLICK_THRESHOLD" "ts \<noteq> []"
  shows "mouse_click_state (fold (\<lambda>now. next_click_state now button) ts m) = [TripleClick, Click, DoubleClick] ! (length ts mod 3)"
proof -
  have "mouse_click_state (fold (\<lambda>now. next_click_state now button) ts m) = [TripleClick, Click, DoubleClick] ! (length ts mod 3)
    \<and> last_click_button (fold (\<lambda>now. next_click_state now button) ts m) = button
    \<and> last_click_timestamp (fold (\<lambda>now. next_click_state now button) ts m) = last ts"
    using assms(2,3)
  proof (induction ts rule: rev_induct)
    case (snoc t ts)
    show ?case
    proof (cases "ts = []")
      case True
      then show ?thesis using assms(1) by (simp add: next_click_state_def)
    next
      case False
      then have "t - last ts < CLICK_THRESHOLD"
        using snoc.prems(1) [rule_format, of "length ts - 1"] by (simp add: nth_append last_conv_nth)
      moreover have "\<forall>i < length ts - 1. ts ! Suc i - ts ! i < CLICK_THRESHOLD"
      proof (intro allI impI)
        fix i assume "i < length ts - 1"
        then have "Suc i < length ts" by simp
        then show "ts ! Suc i - ts ! i < CLICK_THRESHOLD"
          using snoc.prems(1) [rule_format, of i] by (simp add: nth_append)
      qed
      moreover have "length ts mod 3 = 0 \<or> length ts mod 3 = 1 \<or> length ts mod 3 = 2" by linarith
      ultimately show ?thesis using snoc.IH False by (auto simp: next_click_state_def Let_def mod_Suc)
    qed
  qed simp
  then show ?thesis by simp
qed

section \<open>Witnesses\<close>

theorem mouse_point_visible_witness:
  "\<exists>p. mouse_point ((mouse_default 0)\<lparr>mouse_x := 3, mouse_y := 999\<rparr>) demo_size_info 1 = Some p
    \<and> - 1 \<le> line p \<and> line p < int (si_screen_lines demo_size_info) - 1 \<and> column p < si_columns demo_size_info"
  using mouse_point_visible [of demo_size_info "(mouse_default 0)\<lparr>mouse_x := 3, mouse_y := 999\<rparr>" 1]
  by (auto simp: size_ok_def demo_size_info_def)


theorem clicks_cycle_witness:
  "mouse_click_state (fold (\<lambda>now. next_click_state now Mouse_Right) [1000, 1200, 1399] (mouse_default 0)) = TripleClick"
  using clicks_cycle [of "mouse_default 0" Mouse_Right "[1000, 1200, 1399]"]
  by (simp add: mouse_default_def CLICK_THRESHOLD_def less_Suc_eq numeral_2_eq_2)

end
