(* ===== verification/Keyboard_Input.thy ===== *)
theory Keyboard_Input
  imports Mouse_Input
begin

text \<open>
  Keyboard input (\<^verbatim>\<open>alacritty/src/input/keyboard.rs\<close>, \<^verbatim>\<open>alacritty/src/config/bindings.rs\<close>): which key events trigger a binding,
  and the bytes a key sends to the shell, as text or as an escape sequence of xterm or of the kitty keyboard protocol.
  Key events come from \<^verbatim>\<open>winit\<close>: a named key is one of those the source mentions or another one, identified by a number;
  the text of a named key and the lower case of a character are parameters.
\<close>

unbundle bit_operations_syntax

section \<open>Key events\<close>

datatype named_key =
    Key_Alt | Key_Control | Key_Shift | Key_Super | Key_Hyper | Key_Meta | Key_CapsLock | Key_NumLock | Key_ScrollLock
  | Key_Enter | Key_Tab | Key_Space | Key_Escape | Key_Backspace
  | Key_ArrowDown | Key_ArrowLeft | Key_ArrowRight | Key_ArrowUp | Key_End | Key_Home | Key_PageDown | Key_PageUp | Key_Delete | Key_Insert
  | Key_PrintScreen | Key_Pause | Key_ContextMenu
  | Key_MediaPlay | Key_MediaPause | Key_MediaPlayPause | Key_MediaStop | Key_MediaFastForward | Key_MediaRewind
  | Key_MediaTrackNext | Key_MediaTrackPrevious | Key_MediaRecord
  | Key_AudioVolumeDown | Key_AudioVolumeUp | Key_AudioVolumeMute
  | Key_F nat
  | Key_Unlisted nat

datatype key = Named named_key | Character ustring | Key_Unidentified nat

datatype key_location = Loc_Standard | Loc_Left | Loc_Right | Loc_Numpad

record key_event =
  logical_key :: key
  physical_key :: nat
  key_location :: key_location
  key_state :: element_state
  key_repeat :: bool
  key_text :: "ustring option" \<comment> \<open>\<^verbatim>\<open>text_with_all_modifiers\<close>\<close>
  key_without_modifiers :: key

record winit_env =
  named_to_text :: "named_key \<Rightarrow> ustring option"
  char_to_lowercase :: "uchar \<Rightarrow> ustring"

section \<open>Escape sequences\<close>

type_synonym sequence_modifiers = "8 word"

definition SEQ_SHIFT :: sequence_modifiers where "SEQ_SHIFT = push_bit 0 1"
definition SEQ_ALT :: sequence_modifiers where "SEQ_ALT = push_bit 1 1"
definition SEQ_CONTROL :: sequence_modifiers where "SEQ_CONTROL = push_bit 2 1"
definition SEQ_SUPER :: sequence_modifiers where "SEQ_SUPER = push_bit 3 1"

definition seq_modifiers_of :: "modifiers \<Rightarrow> sequence_modifiers" where
  "seq_modifiers_of m =
     flag_set (flag_set (flag_set (flag_set 0 SEQ_SHIFT (shift_key m)) SEQ_ALT (alt_key m)) SEQ_CONTROL (control_key m))
       SEQ_SUPER (super_key m)"

definition encode_modifiers :: "sequence_modifiers \<Rightarrow> nat" where
  "encode_modifiers m = unat (m + 1)"

datatype sequence_terminator = Term_Normal char | Term_Kitty

definition encode_terminator :: "sequence_terminator \<Rightarrow> char" where
  "encode_terminator t = (case t of Term_Normal c \<Rightarrow> c | Term_Kitty \<Rightarrow> CHR ''u'')"

type_synonym sequence_base = "string \<times> sequence_terminator"

record sequence_builder =
  sb_mode :: term_mode
  kitty_seq :: bool
  kitty_encode_all :: bool
  kitty_event_type :: bool
  sb_modifiers :: sequence_modifiers

definition is_control_character :: "ustring \<Rightarrow> bool option" where
  \<comment> \<open>a string of one byte is a single ASCII character; \<open>None\<close>: the text is empty\<close>
  "is_control_character s =
     (case s of
        [] \<Rightarrow> None
      | c # cs \<Rightarrow> Some (c < 0x80 \<and> cs = [] \<and> (c < 0x20 \<or> 0x7F \<le> c \<and> c \<le> 0x9F)))"

definition numpad_codes :: "(key \<times> string) list" where
  "numpad_codes =
     map (\<lambda>(c, code). (Character [c], code))
       [(48, ''57399''), (49, ''57400''), (50, ''57401''), (51, ''57402''), (52, ''57403''), (53, ''57404''), (54, ''57405''),
        (55, ''57406''), (56, ''57407''), (57, ''57408''), (46, ''57409''), (47, ''57410''), (42, ''57411''), (45, ''57412''),
        (43, ''57413''), (61, ''57415'')]
     @ map (\<lambda>(n, code). (Named n, code))
       [(Key_Enter, ''57414''), (Key_ArrowLeft, ''57417''), (Key_ArrowRight, ''57418''), (Key_ArrowUp, ''57419''),
        (Key_ArrowDown, ''57420''), (Key_PageUp, ''57421''), (Key_PageDown, ''57422''), (Key_Home, ''57423''), (Key_End, ''57424''),
        (Key_Insert, ''57425''), (Key_Delete, ''57426'')]"

definition try_build_numpad :: "sequence_builder \<Rightarrow> key_event \<Rightarrow> sequence_base option" where
  "try_build_numpad sb k =
     (if \<not> kitty_seq sb \<or> key_location k \<noteq> Loc_Numpad then None
      else map_option (\<lambda>code. (code, Term_Kitty)) (map_of numpad_codes (logical_key k)))"

definition kitty_codes :: "(named_key \<times> sequence_base) list" where
  "kitty_codes =
     (Key_F 3, (''13'', Term_Normal CHR ''~''))
     # map (\<lambda>(n, code). (n, (code, Term_Kitty)))
       [(Key_F 13, ''57376''), (Key_F 14, ''57377''), (Key_F 15, ''57378''), (Key_F 16, ''57379''), (Key_F 17, ''57380''),
        (Key_F 18, ''57381''), (Key_F 19, ''57382''), (Key_F 20, ''57383''), (Key_F 21, ''57384''), (Key_F 22, ''57385''),
        (Key_F 23, ''57386''), (Key_F 24, ''57387''), (Key_F 25, ''57388''), (Key_F 26, ''57389''), (Key_F 27, ''57390''),
        (Key_F 28, ''57391''), (Key_F 29, ''57392''), (Key_F 30, ''57393''), (Key_F 31, ''57394''), (Key_F 32, ''57395''),
        (Key_F 33, ''57396''), (Key_F 34, ''57397''), (Key_F 35, ''57398''), (Key_ScrollLock, ''57359''), (Key_PrintScreen, ''57361''),
        (Key_Pause, ''57362''), (Key_ContextMenu, ''57363''), (Key_MediaPlay, ''57428''), (Key_MediaPause, ''57429''),
        (Key_MediaPlayPause, ''57430''), (Key_MediaStop, ''57432''), (Key_MediaFastForward, ''57433''), (Key_MediaRewind, ''57434''),
        (Key_MediaTrackNext, ''57435''), (Key_MediaTrackPrevious, ''57436''), (Key_MediaRecord, ''57437''),
        (Key_AudioVolumeDown, ''57438''), (Key_AudioVolumeUp, ''57439''), (Key_AudioVolumeMute, ''57440'')]"

definition try_build_named_kitty :: "sequence_builder \<Rightarrow> key_event \<Rightarrow> sequence_base option" where
  "try_build_named_kitty sb k =
     (case logical_key k of
        Named n \<Rightarrow> if kitty_seq sb then map_of kitty_codes n else None
      | _ \<Rightarrow> None)"

definition normal_codes :: "string \<Rightarrow> (named_key \<times> sequence_base) list" where
  "normal_codes one_based =
     map (\<lambda>(n, code). (n, (code, Term_Normal CHR ''~'')))
       [(Key_PageUp, ''5''), (Key_PageDown, ''6''), (Key_Insert, ''2''), (Key_Delete, ''3'')]
     @ map (\<lambda>(n, c). (n, (one_based, Term_Normal c)))
       [(Key_Home, CHR ''H''), (Key_End, CHR ''F''), (Key_ArrowLeft, CHR ''D''), (Key_ArrowRight, CHR ''C''), (Key_ArrowUp, CHR ''A''),
        (Key_ArrowDown, CHR ''B''), (Key_F 1, CHR ''P''), (Key_F 2, CHR ''Q''), (Key_F 3, CHR ''R''), (Key_F 4, CHR ''S'')]
     @ map (\<lambda>(n, code). (n, (code, Term_Normal CHR ''~'')))
       [(Key_F 5, ''15''), (Key_F 6, ''17''), (Key_F 7, ''18''), (Key_F 8, ''19''), (Key_F 9, ''20''), (Key_F 10, ''21''),
        (Key_F 11, ''23''), (Key_F 12, ''24''), (Key_F 13, ''25''), (Key_F 14, ''26''), (Key_F 15, ''28''), (Key_F 16, ''29''),
        (Key_F 17, ''31''), (Key_F 18, ''32''), (Key_F 19, ''33''), (Key_F 20, ''34'')]"

definition try_build_named_normal :: "sequence_builder \<Rightarrow> key_event \<Rightarrow> bool \<Rightarrow> sequence_base option" where
  "try_build_named_normal sb k has_associated_text =
     (case logical_key k of
        Named n \<Rightarrow>
          map_of (normal_codes (if sb_modifiers sb = 0 \<and> \<not> kitty_event_type sb \<and> \<not> has_associated_text then [] else ''1'')) n
      | _ \<Rightarrow> None)"

definition control_codes :: "(named_key \<times> string) list" where
  "control_codes = [(Key_Tab, ''9''), (Key_Enter, ''13''), (Key_Escape, ''27''), (Key_Space, ''32''), (Key_Backspace, ''127'')]"

definition modifier_code :: "named_key \<Rightarrow> key_location \<Rightarrow> string option" where
  "modifier_code n loc =
     map_of
       (if loc = Loc_Left then
          [(Key_Shift, ''57441''), (Key_Control, ''57442''), (Key_Alt, ''57443''), (Key_Super, ''57444''), (Key_Hyper, ''57445''),
           (Key_Meta, ''57446''), (Key_CapsLock, ''57358''), (Key_NumLock, ''57360'')]
        else
          [(Key_Shift, ''57447''), (Key_Control, ''57448''), (Key_Alt, ''57449''), (Key_Super, ''57450''), (Key_Hyper, ''57451''),
           (Key_Meta, ''57452''), (Key_CapsLock, ''57358''), (Key_NumLock, ''57360'')]) n"

definition apply_modifier_key :: "named_key \<Rightarrow> bool \<Rightarrow> sequence_modifiers \<Rightarrow> sequence_modifiers" where
  "apply_modifier_key n press m =
     (case n of
        Key_Shift \<Rightarrow> flag_set m SEQ_SHIFT press
      | Key_Control \<Rightarrow> flag_set m SEQ_CONTROL press
      | Key_Alt \<Rightarrow> flag_set m SEQ_ALT press
      | Key_Super \<Rightarrow> flag_set m SEQ_SUPER press
      | _ \<Rightarrow> m)"

definition try_build_control_char_or_mod ::
  "sequence_builder \<Rightarrow> key_event \<Rightarrow> sequence_modifiers \<Rightarrow> sequence_base option \<times> sequence_modifiers" where
  "try_build_control_char_or_mod sb k m =
     (if \<not> kitty_encode_all sb \<and> \<not> kitty_seq sb then (None, m)
      else case logical_key k of
        Named n \<Rightarrow>
          let base = (case map_of control_codes n of Some code \<Rightarrow> code | None \<Rightarrow> []) in
          if \<not> kitty_encode_all sb \<and> base = [] then (None, m)
          else
            let base = (case modifier_code n (key_location k) of Some code \<Rightarrow> code | None \<Rightarrow> base);
                m = apply_modifier_key n (key_state k = Pressed) m in
            (if base = [] then None else Some (base, Term_Kitty), m)
      | _ \<Rightarrow> (None, m))"

definition try_build_textual :: "winit_env \<Rightarrow> sequence_builder \<Rightarrow> key_event \<Rightarrow> bool \<Rightarrow> sequence_base option option" where
  \<comment> \<open>the outer \<open>None\<close>: a character without a lower case form (\<^verbatim>\<open>unwrap\<close>)\<close>
  "try_build_textual W sb k has_associated_text =
     (case logical_key k of
        Character s \<Rightarrow>
          if \<not> kitty_seq sb then Some None
          else if length s = 1 then do {
            let shift = flag_contains (sb_modifiers sb) SEQ_SHIFT;
            let ch = hd s;
            unshifted \<leftarrow> (if shift then (case char_to_lowercase W ch of [] \<Rightarrow> None | c # _ \<Rightarrow> Some c) else Some ch);
            let code = (if shift \<and> ch = unshifted then
                          (case key_without_modifiers k of Character (u # _) \<Rightarrow> u | _ \<Rightarrow> unshifted)
                        else unshifted);
            Some (Some (if flag_contains (sb_mode sb) REPORT_ALTERNATE_KEYS \<and> ch \<noteq> code
                        then dec_digits code @ '':'' @ dec_digits ch else dec_digits code, Term_Kitty))
          }
          else if kitty_encode_all sb \<and> has_associated_text then Some (Some (''0'', Term_Kitty))
          else Some None
      | _ \<Rightarrow> Some None)"

definition builder_of :: "key_event \<Rightarrow> modifiers \<Rightarrow> term_mode \<Rightarrow> sequence_builder" where
  "builder_of k mods mode =
     \<lparr>sb_mode = mode,
      kitty_seq = flag_intersects mode (REPORT_ALL_KEYS_AS_ESC OR DISAMBIGUATE_ESC_CODES OR REPORT_EVENT_TYPES),
      kitty_encode_all = flag_contains mode REPORT_ALL_KEYS_AS_ESC,
      kitty_event_type = flag_contains mode REPORT_EVENT_TYPES \<and> (key_repeat k \<or> key_state k = Released),
      sb_modifiers = seq_modifiers_of mods\<rparr>"

definition associated_text :: "key_event \<Rightarrow> term_mode \<Rightarrow> ustring option" where
  "associated_text k mode =
     (case key_text k of
        None \<Rightarrow> None
      | Some s \<Rightarrow> if flag_contains mode REPORT_ASSOCIATED_TEXT \<and> key_state k \<noteq> Released \<and> s \<noteq> [] \<and> is_control_character s = Some False
                  then Some s else None)"

definition select_base :: "winit_env \<Rightarrow> sequence_builder \<Rightarrow> key_event \<Rightarrow> bool \<Rightarrow> (sequence_base option \<times> sequence_modifiers) option" where
  "select_base W sb k has_text =
     (case try_build_numpad sb k of
        Some b \<Rightarrow> Some (Some b, sb_modifiers sb)
      | None \<Rightarrow>
          (case try_build_named_kitty sb k of
             Some b \<Rightarrow> Some (Some b, sb_modifiers sb)
           | None \<Rightarrow>
               (case try_build_named_normal sb k has_text of
                  Some b \<Rightarrow> Some (Some b, sb_modifiers sb)
                | None \<Rightarrow>
                    (case try_build_control_char_or_mod sb k (sb_modifiers sb) of
                       (Some b, m) \<Rightarrow> Some (Some b, m)
                     | (None, m) \<Rightarrow> map_option (\<lambda>b. (b, m)) (try_build_textual W sb k has_text)))))"

fun join_codepoints :: "ustring \<Rightarrow> string" where
  "join_codepoints [] = []"
| "join_codepoints (c # cs) = CHR '';'' # dec_digits c @ concat (map (\<lambda>c. CHR '':'' # dec_digits c) cs)"

definition build_sequence :: "winit_env \<Rightarrow> key_event \<Rightarrow> modifiers \<Rightarrow> term_mode \<Rightarrow> string option" where
  "build_sequence W k mods mode = do {
     let sb = builder_of k mods mode;
     let atext = associated_text k mode;
     (base, m) \<leftarrow> select_base W sb k (atext \<noteq> None);
     case base of
       None \<Rightarrow> Some []
     | Some (payload, terminator) \<Rightarrow>
         Some (ESC @ ''['' @ payload
           @ (if kitty_event_type sb \<or> m \<noteq> 0 \<or> atext \<noteq> None then CHR '';'' # dec_digits (encode_modifiers m) else [])
           @ (if kitty_event_type sb then [CHR '':'', if key_repeat k then CHR ''2'' else case key_state k of Pressed \<Rightarrow> CHR ''1'' | Released \<Rightarrow> CHR ''3'']
              else [])
           @ (case atext of None \<Rightarrow> [] | Some s \<Rightarrow> join_codepoints s)
           @ [encode_terminator terminator])
   }"

section \<open>Bytes of a key\<close>

definition no_modifiers :: modifiers where
  "no_modifiers = \<lparr>shift_key = False, alt_key = False, control_key = False, super_key = False\<rparr>"

definition alt_send_esc :: "winit_env \<Rightarrow> key_event \<Rightarrow> modifiers \<Rightarrow> ustring \<Rightarrow> bool" where
  \<comment> \<open>on systems other than macOS\<close>
  "alt_send_esc W k mods s =
     (case logical_key k of
        Named n \<Rightarrow> alt_key mods
      | _ \<Rightarrow> alt_key mods \<and> length s = 1)"

definition is_modifier_key :: "key_event \<Rightarrow> bool" where
  "is_modifier_key k \<longleftrightarrow> logical_key k \<in> {Named Key_Shift, Named Key_Control, Named Key_Alt, Named Key_Super}"

definition should_build_sequence :: "winit_env \<Rightarrow> key_event \<Rightarrow> ustring \<Rightarrow> term_mode \<Rightarrow> modifiers \<Rightarrow> bool" where
  "should_build_sequence W k s mode mods =
     (if flag_contains mode REPORT_ALL_KEYS_AS_ESC then True
      else
        let disambiguate =
              flag_contains mode DISAMBIGUATE_ESC_CODES
              \<and> (logical_key k = Named Key_Escape \<or> key_location k = Loc_Numpad
                 \<or> mods \<noteq> no_modifiers
                   \<and> (mods \<noteq> no_modifiers\<lparr>shift_key := True\<rparr>
                      \<or> logical_key k \<in> {Named Key_Tab, Named Key_Enter, Named Key_Backspace})) in
        if disambiguate then True
        else case logical_key k of
          Named n \<Rightarrow> named_to_text W n = None
        | _ \<Rightarrow> s = [])"

definition mask_alt :: "winit_env \<Rightarrow> key_event \<Rightarrow> modifiers \<Rightarrow> modifiers" where
  "mask_alt W k mods =
     (if alt_send_esc W k mods (case key_text k of None \<Rightarrow> [] | Some s \<Rightarrow> s) then mods else mods\<lparr>alt_key := False\<rparr>)"

text \<open>Text is sent as characters here; the encoding in UTF-8 is the conversion of a \<^verbatim>\<open>str\<close> to bytes.\<close>

definition key_press_text :: "winit_env \<Rightarrow> key_event \<Rightarrow> modifiers \<Rightarrow> term_mode \<Rightarrow> ustring option" where
  \<comment> \<open>the end of \<^verbatim>\<open>key_input\<close>: what a key that is pressed writes when no binding, search or hint took it\<close>
  "key_press_text W k mods mode = do {
     let s = (case key_text k of None \<Rightarrow> [] | Some s \<Rightarrow> s);
     let mods = mask_alt W k mods;
     if should_build_sequence W k s mode mods then map_option (map of_char) (build_sequence W k mods mode)
     else Some ((if alt_key mods then [0x1B] else []) @ s)
   }"

definition key_release_text :: "winit_env \<Rightarrow> key_event \<Rightarrow> modifiers \<Rightarrow> term_mode \<Rightarrow> bool \<Rightarrow> ustring option" where
  \<comment> \<open>\<open>busy\<close>: a search or a hint is active\<close>
  "key_release_text W k mods mode busy =
     (if \<not> flag_contains mode REPORT_EVENT_TYPES \<or> flag_contains mode VI \<or> busy then Some []
      else if logical_key k \<in> {Named Key_Enter, Named Key_Tab, Named Key_Backspace} \<and> \<not> flag_contains mode REPORT_ALL_KEYS_AS_ESC then Some []
      else map_option (map of_char) (build_sequence W k (mask_alt W k mods) mode))"

section \<open>Bindings\<close>

type_synonym binding_mode = "8 word"

definition binding_mode_new :: "term_mode \<Rightarrow> bool \<Rightarrow> binding_mode" where
  "binding_mode_new mode search =
     flag_set (flag_set (flag_set (flag_set (flag_set (flag_set (flag_set 0
       (push_bit 0 1) (flag_contains mode APP_CURSOR))
       (push_bit 1 1) (flag_contains mode APP_KEYPAD))
       (push_bit 2 1) (flag_contains mode ALT_SCREEN))
       (push_bit 3 1) (flag_contains mode VI))
       (push_bit 4 1) search)
       (push_bit 5 1) (flag_contains mode DISAMBIGUATE_ESC_CODES))
       (push_bit 6 1) (flag_contains mode REPORT_ALL_KEYS_AS_ESC)"

definition binding_mode_all :: binding_mode where
  "binding_mode_all = mask 7"

record ('k, 'a) binding =
  b_mods :: modifiers
  b_action :: 'a
  b_mode :: binding_mode
  b_notmode :: binding_mode
  b_trigger :: 'k

text \<open>Triggers are compared with \<open>eq\<close>, the \<^verbatim>\<open>PartialEq\<close> of their type.\<close>

definition is_triggered_by :: "('k \<Rightarrow> 'k \<Rightarrow> bool) \<Rightarrow> ('k, 'a) binding \<Rightarrow> binding_mode \<Rightarrow> modifiers \<Rightarrow> 'k \<Rightarrow> bool" where
  "is_triggered_by eq b mode mods inp \<longleftrightarrow>
     eq (b_trigger b) inp \<and> b_mods b = mods \<and> flag_contains mode (b_mode b) \<and> \<not> flag_intersects mode (b_notmode b)"

definition triggers_match :: "('k \<Rightarrow> 'k \<Rightarrow> bool) \<Rightarrow> ('k, 'a) binding \<Rightarrow> ('k, 'a) binding \<Rightarrow> bool" where
  "triggers_match eq b c =
     (if \<not> eq (b_trigger b) (b_trigger c) \<or> b_mods b \<noteq> b_mods c then False
      else
        let bm = (if b_mode b = 0 then binding_mode_all else b_mode b);
            cm = (if b_mode c = 0 then binding_mode_all else b_mode c) in
        if \<not> flag_intersects bm cm then False
        else if flag_intersects (b_mode b) (b_notmode c) \<or> flag_intersects (b_mode c) (b_notmode b) then False
        else True)"

definition merge_bindings :: "('k \<Rightarrow> 'k \<Rightarrow> bool) \<Rightarrow> ('k, 'a) binding list \<Rightarrow> ('k, 'a) binding list \<Rightarrow> ('k, 'a) binding list" where
  \<comment> \<open>the bindings of the configuration and the default ones they do not replace\<close>
  "merge_bindings eq user defaults =
     user @ foldl (\<lambda>bs u. filter (\<lambda>b. \<not> triggers_match eq b u) bs) defaults user"

datatype bind_location = Bind_Standard | Bind_Numpad | Bind_Any

definition bind_location_of :: "key_location \<Rightarrow> bind_location" where
  "bind_location_of l = (case l of Loc_Standard \<Rightarrow> Bind_Standard | Loc_Numpad \<Rightarrow> Bind_Numpad | _ \<Rightarrow> Bind_Any)"

definition bind_location_eq :: "bind_location \<Rightarrow> bind_location \<Rightarrow> bool" where
  "bind_location_eq a b \<longleftrightarrow> b = Bind_Any \<or> a = Bind_Any \<or> a = b"

datatype binding_key = Scancode nat | Keycode key bind_location

fun binding_key_eq :: "binding_key \<Rightarrow> binding_key \<Rightarrow> bool" where
  "binding_key_eq (Scancode a) (Scancode b) = (a = b)"
| "binding_key_eq (Keycode k l) (Keycode k' l') = (k = k' \<and> bind_location_eq l l')"
| "binding_key_eq _ _ = False"

definition binding_input :: "winit_env \<Rightarrow> key_event \<Rightarrow> binding_key \<Rightarrow> binding_key" where
  \<comment> \<open>the key to compare with a trigger, on systems other than macOS and Windows\<close>
  "binding_input W k trigger =
     (case trigger of
        Scancode _ \<Rightarrow> Scancode (physical_key k)
      | Keycode _ _ \<Rightarrow>
          Keycode (case logical_key k of Character s \<Rightarrow> Character (concat (map (char_to_lowercase W) s)) | key \<Rightarrow> key)
            (bind_location_of (key_location k)))"

definition triggered_actions :: "winit_env \<Rightarrow> key_event \<Rightarrow> modifiers \<Rightarrow> binding_mode \<Rightarrow> (binding_key, 'a) binding list \<Rightarrow> 'a list" where
  "triggered_actions W k mods mode bs =
     map b_action (filter (\<lambda>b. is_triggered_by binding_key_eq b mode mods (binding_input W k (b_trigger b))) bs)"

fun suppress_chars :: "('a \<Rightarrow> bool) \<Rightarrow> 'a list \<Rightarrow> bool option \<Rightarrow> bool option" where
  \<comment> \<open>\<^verbatim>\<open>*suppress_chars.get_or_insert(true) &= binding.action != Action::ReceiveChar\<close>\<close>
  "suppress_chars receive_char [] acc = acc"
| "suppress_chars receive_char (a # as) acc =
     suppress_chars receive_char as (Some ((case acc of None \<Rightarrow> True | Some b \<Rightarrow> b) \<and> \<not> receive_char a))"

definition process_key_bindings ::
  "winit_env \<Rightarrow> ('a \<Rightarrow> bool) \<Rightarrow> key_event \<Rightarrow> modifiers \<Rightarrow> binding_mode \<Rightarrow> (binding_key, 'a) binding list \<Rightarrow> 'a list \<times> bool" where
  \<comment> \<open>the actions in the order they are executed, for the key bindings followed by those of the hints, and whether the
    characters of the key are suppressed\<close>
  "process_key_bindings W receive_char k mods mode bs =
     (let as = triggered_actions W k mods mode bs in
      (as, case suppress_chars receive_char as None of None \<Rightarrow> False | Some b \<Rightarrow> b))"

section \<open>Sequences can be read back\<close>

text \<open>How a program reads a key: the code, the modifiers, the type of the event, the text and the final character.\<close>

definition decode_key :: "string \<Rightarrow> string \<times> nat \<times> nat \<times> nat list \<times> char" where
  "decode_key s =
     (let ps = split_on CHR '';'' (butlast (drop 2 s));
          ms = (case ps of _ # m # _ \<Rightarrow> split_on CHR '':'' m | _ \<Rightarrow> []) in
      (hd ps, (case ms of m # _ \<Rightarrow> digits_value m - 1 | _ \<Rightarrow> 0), (case ms of [_, e] \<Rightarrow> digits_value e | _ \<Rightarrow> 1),
       (case ps of [_, _, t] \<Rightarrow> map digits_value (split_on CHR '':'' t) | _ \<Rightarrow> []), last s))"

lemma codes_plain:
  "map_of numpad_codes key = Some code \<Longrightarrow> CHR '';'' \<notin> set code"
  "map_of kitty_codes n = Some (code, t) \<Longrightarrow> CHR '';'' \<notin> set code"
  "map_of (normal_codes ob) n = Some (code, t) \<Longrightarrow> CHR '';'' \<notin> set ob \<Longrightarrow> CHR '';'' \<notin> set code"
  "map_of control_codes n = Some code \<Longrightarrow> CHR '';'' \<notin> set code"
  "modifier_code n loc = Some code \<Longrightarrow> CHR '';'' \<notin> set code"
  by (auto dest!: map_of_SomeD simp: numpad_codes_def kitty_codes_def normal_codes_def control_codes_def modifier_code_def split: if_splits)

lemma semi_not_digit: "CHR '';'' \<notin> set (dec_digits n)" "CHR '':'' \<notin> set (dec_digits n)"
  by (simp_all add: dec_digits_no_sign is_digit_def)

lemma control_or_mod_plain:
  "try_build_control_char_or_mod sb k m = (Some (payload, t), m') \<Longrightarrow> CHR '';'' \<notin> set payload"
  by (auto simp: try_build_control_char_or_mod_def Let_def split: if_splits key.splits option.splits dest!: codes_plain(4,5))

lemma textual_plain: "try_build_textual W sb k ht = Some (Some (payload, t)) \<Longrightarrow> CHR '';'' \<notin> set payload"
  by (auto simp: try_build_textual_def Let_def semi_not_digit split: key.splits if_splits Option.bind_splits)

lemma payload_plain:
  assumes "select_base W sb k ht = Some (Some (payload, t), m)"
  shows "CHR '';'' \<notin> set payload"
  using assms
  by (auto simp: select_base_def try_build_numpad_def try_build_named_kitty_def try_build_named_normal_def
      split: option.splits if_splits key.splits prod.splits dest: control_or_mod_plain textual_plain dest!: codes_plain(1-3))

lemma small_modifiers:
  fixes m :: sequence_modifiers
  assumes "\<not> bit m 7"
  shows "encode_modifiers m = unat m + 1"
proof -
  have "take_bit 7 m = m"
  proof (rule bit_word_eqI)
    fix n assume "n < LENGTH(8)"
    then show "bit (take_bit 7 m) n = bit m n" using assms by (cases "n = 7") (auto simp: bit_take_bit_iff)
  qed
  then have "unat m = take_bit 7 (unat m)" by (metis unsigned_take_bit_eq)
  then have "unat m < 2 ^ 7" using take_bit_nat_less_exp [of 7 "unat m"] by simp
  then show ?thesis by (simp add: encode_modifiers_def unat_word_ariths)
qed

lemma seq_bit_7: "\<not> bit (seq_modifiers_of mods) 7"
  by (simp add: seq_modifiers_of_def bit_flag_set SEQ_SHIFT_def SEQ_ALT_def SEQ_CONTROL_def SEQ_SUPER_def bit_simps)

lemma apply_modifier_bit_7: "\<not> bit m 7 \<Longrightarrow> \<not> bit (apply_modifier_key n press m) 7"
  by (cases n) (simp_all add: apply_modifier_key_def bit_flag_set SEQ_SHIFT_def SEQ_ALT_def SEQ_CONTROL_def SEQ_SUPER_def bit_simps)

lemma control_or_mod_bit_7:
  "try_build_control_char_or_mod sb k m = (b, m') \<Longrightarrow> \<not> bit m 7 \<Longrightarrow> \<not> bit m' 7"
  by (auto simp: try_build_control_char_or_mod_def Let_def apply_modifier_bit_7 split: if_splits key.splits)

lemma select_base_bit_7:
  assumes "select_base W sb k ht = Some (b, m)" "\<not> bit (sb_modifiers sb) 7"
  shows "\<not> bit m 7"
  using assms control_or_mod_bit_7 [of sb k "sb_modifiers sb"]
  by (auto simp: select_base_def split: option.splits prod.splits)

lemma join_codepoints_decodes:
  assumes "s \<noteq> []"
  shows "\<exists>cs. join_codepoints s = CHR '';'' # cs \<and> CHR '';'' \<notin> set cs \<and> map digits_value (split_on CHR '':'' cs) = s"
proof -
  obtain c s' where s: "s = c # s'" using assms by (cases s) auto
  let ?rest = "concat (map (\<lambda>c. CHR '':'' # dec_digits c) s')"
  have "CHR '';'' \<notin> set ?rest" using semi_not_digit(1) by auto
  moreover have "split_on CHR '':'' (dec_digits c @ concat (map (\<lambda>c. CHR '':'' # dec_digits c) cs)) = dec_digits c # map dec_digits cs" for c cs
    using semi_not_digit(2) by (induction cs arbitrary: c) (simp_all add: split_on_last split_on_word)
  ultimately show ?thesis unfolding s using semi_not_digit(1) by (auto simp: digits_value_dec comp_def)
qed

lemma sequence_decodes:
  assumes "build_sequence W k mods mode = Some s" "s \<noteq> []"
  shows "\<exists>code terminator m. select_base W (builder_of k mods mode) k (associated_text k mode \<noteq> None) = Some (Some (code, terminator), m)
    \<and> decode_key s = (code, unat m,
        (if kitty_event_type (builder_of k mods mode) then if key_repeat k then 2 else if key_state k = Pressed then 1 else 3 else 1),
        (case associated_text k mode of None \<Rightarrow> [] | Some cs \<Rightarrow> cs), encode_terminator terminator)"
proof -
  let ?sb = "builder_of k mods mode" and ?at = "associated_text k mode"
  obtain code t m where b: "select_base W ?sb k (?at \<noteq> None) = Some (Some (code, t), m)"
    using assms by (auto simp: build_sequence_def Let_def split: Option.bind_splits option.splits)
  have plain: "CHR '';'' \<notin> set code" by (rule payload_plain [OF b])
  have enc: "encode_modifiers m = unat m + 1"
    by (rule small_modifiers [OF select_base_bit_7 [OF b]]) (simp add: builder_of_def seq_bit_7)
  define ev where "ev = (if key_repeat k then CHR ''2'' else case key_state k of Pressed \<Rightarrow> CHR ''1'' | Released \<Rightarrow> CHR ''3'')"
  define ms where "ms = dec_digits (unat m + 1) @ (if kitty_event_type ?sb then [CHR '':'', ev] else [])"
  define cs where "cs = (case ?at of None \<Rightarrow> [] | Some s \<Rightarrow> tl (join_codepoints s))"
  have ms: "CHR '';'' \<notin> set ms" "split_on CHR '':'' ms = dec_digits (unat m + 1) # (if kitty_event_type ?sb then [[ev]] else [])"
    using semi_not_digit by (auto simp: ms_def ev_def split_on_last split_on_word split: element_state.splits)
  have ev: "digits_value [ev] = (if key_repeat k then 2 else if key_state k = Pressed then 1 else 3)"
    by (cases "key_state k") (auto simp: ev_def digits_value_def)
  have at: "join_codepoints a = CHR '';'' # cs \<and> CHR '';'' \<notin> set cs \<and> map digits_value (split_on CHR '':'' cs) = a" if "?at = Some a" for a
  proof -
    have "a \<noteq> []" using that by (auto simp: associated_text_def split: option.splits if_splits)
    from join_codepoints_decodes [OF this] show ?thesis using that by (auto simp: cs_def)
  qed
  let ?has = "kitty_event_type ?sb \<or> m \<noteq> 0 \<or> ?at \<noteq> None"
  let ?body = "code @ (if ?has then CHR '';'' # ms else []) @ (if ?at \<noteq> None then CHR '';'' # cs else [])"
  have s: "s = ESC @ ''['' @ ?body @ [encode_terminator t]"
    using assms(1) b enc at by (auto simp: build_sequence_def Let_def ms_def ev_def split: option.splits)
  have split: "split_on CHR '';'' ?body = code # (if ?has then [ms] else []) @ (if ?at \<noteq> None then [cs] else [])"
    using plain ms(1) at by (auto simp: split_on_word split_on_last)
  have "decode_key s = (code, unat m, (if kitty_event_type ?sb then digits_value [ev] else 1), (case ?at of None \<Rightarrow> [] | Some cs \<Rightarrow> cs), encode_terminator t)"
    unfolding s using split ms(2) at
    by (cases ?at) (auto simp: decode_key_def ESC_def digits_value_dec butlast_append last_append Let_def)
  then show ?thesis using b ev by (auto intro!: exI)
qed

text \<open>
  C24 (roundtrip): a program can read a key from the sequence that is sent for it: the code of the key, exactly the modifiers,
  whether the key was pressed, repeated or released, and the text, each of them if the program asked for it.
\<close>

theorem key_sequence_decodes:
  assumes "build_sequence W k mods mode = Some s" "s \<noteq> []"
  shows "\<exists>code terminator m. select_base W (builder_of k mods mode) k (associated_text k mode \<noteq> None) = Some (Some (code, terminator), m)
    \<and> decode_key s = (code, unat m,
        (if kitty_event_type (builder_of k mods mode) then if key_repeat k then 2 else if key_state k = Pressed then 1 else 3 else 1),
        (case associated_text k mode of None \<Rightarrow> [] | Some cs \<Rightarrow> cs), encode_terminator terminator)"
  by (rule sequence_decodes [OF assms])

section \<open>Keys can be told apart\<close>

text \<open>The sequences of the named keys that are not on the numeric pad, with all keys reported, as one table.\<close>

definition kitty_table :: "string \<Rightarrow> key_location \<Rightarrow> (named_key \<times> sequence_base) list" where
  "kitty_table ob loc = kitty_codes @ filter (\<lambda>(n, _). map_of kitty_codes n = None) (normal_codes ob)
     @ map (\<lambda>(n, code). (n, (code, Term_Kitty)))
         (map (\<lambda>n. (n, the (modifier_code n loc)))
            [Key_Shift, Key_Control, Key_Alt, Key_Super, Key_Hyper, Key_Meta, Key_CapsLock, Key_NumLock] @ control_codes)"

lemma map_of_append_case: "map_of (xs @ ys) n = (case map_of xs n of Some v \<Rightarrow> Some v | None \<Rightarrow> map_of ys n)"
  by (simp add: map_add_def split: option.split)

lemma map_of_hidden: "map_of xs n = None \<Longrightarrow> map_of (filter (\<lambda>(n, _). map_of xs n = None) ys) n = map_of ys n"
  by (induction ys) auto

definition shown :: "sequence_base \<Rightarrow> string \<times> char" where
  "shown b = (fst b, encode_terminator (snd b))"

lemma map_of_distinct_values:
  assumes "map_of xs a = Some v" "map_of xs b = Some w" "f v = f w" "distinct (map (f \<circ> snd) xs)"
  shows "a = b"
proof -
  have "(a, v) \<in> set xs" "(b, w) \<in> set xs" using assms(1,2) by (simp_all add: map_of_SomeD)
  then have "(a, v) = (b, w)" using assms(3,4) inj_onD [of "f \<circ> snd" "set xs" "(a, v)" "(b, w)"] by (simp add: distinct_map)
  then show ?thesis by simp
qed

lemma kitty_table_distinct:
  "distinct (map (shown \<circ> snd) (kitty_table [] Loc_Left))" "distinct (map (shown \<circ> snd) (kitty_table ''1'' Loc_Left))"
  "distinct (map (shown \<circ> snd) (kitty_table [] Loc_Standard))" "distinct (map (shown \<circ> snd) (kitty_table ''1'' Loc_Standard))"
  by code_simp+

lemma modifier_code_location: "modifier_code n loc = modifier_code n (if loc = Loc_Left then Loc_Left else Loc_Standard)"
  by (simp add: modifier_code_def)

lemma modifier_table:
  "map_of (map (\<lambda>n. (n, the (modifier_code n loc))) [Key_Shift, Key_Control, Key_Alt, Key_Super, Key_Hyper, Key_Meta, Key_CapsLock, Key_NumLock]) n
   = modifier_code n loc"
  by (cases n; cases loc) (simp_all add: modifier_code_def)

lemma control_code_nonempty: "map_of control_codes n = Some code \<Longrightarrow> code \<noteq> []" "modifier_code n loc = Some code \<Longrightarrow> code \<noteq> []"
  by (auto dest!: map_of_SomeD simp: control_codes_def modifier_code_def split: if_splits)

lemma map_of_map_codes: "map_of (map (\<lambda>(n, code). (n, (code, Term_Kitty))) xs) n = map_option (\<lambda>code. (code, Term_Kitty)) (map_of xs n)"
  by (induction xs) auto

lemma select_base_table:
  assumes "kitty_encode_all sb" "kitty_seq sb" "key_location k \<noteq> Loc_Numpad" "logical_key k = Named n"
    and "select_base W sb k ht = Some (Some b, m)"
  shows "map_of (kitty_table (if sb_modifiers sb = 0 \<and> \<not> kitty_event_type sb \<and> \<not> ht then [] else ''1'')
    (if key_location k = Loc_Left then Loc_Left else Loc_Standard)) n = Some b"
proof -
  let ?ob = "if sb_modifiers sb = 0 \<and> \<not> kitty_event_type sb \<and> \<not> ht then [] else ''1''"
  let ?loc = "if key_location k = Loc_Left then Loc_Left else Loc_Standard"
  let ?mc = "case modifier_code n ?loc of Some code \<Rightarrow> Some code | None \<Rightarrow> map_of control_codes n"
  have table: "map_of (kitty_table ?ob ?loc) n =
    (case map_of kitty_codes n of Some b \<Rightarrow> Some b | None \<Rightarrow>
      (case map_of (normal_codes ?ob) n of Some b \<Rightarrow> Some b | None \<Rightarrow> map_option (\<lambda>code. (code, Term_Kitty)) ?mc))"
  proof (cases "map_of kitty_codes n")
    case None
    show ?thesis
      by (simp only: kitty_table_def map_of_append_case None map_of_hidden [OF None] map_of_map_codes modifier_table option.case)
  qed (simp only: kitty_table_def map_of_append_case option.case)
  have control: "fst (try_build_control_char_or_mod sb k m') = map_option (\<lambda>code. (code, Term_Kitty)) ?mc" for m'
    using assms(1,2,4) control_code_nonempty modifier_code_location [of n "key_location k"]
    by (auto simp: try_build_control_char_or_mod_def Let_def split: option.splits)
  have no_text: "try_build_textual W sb k ht = Some None" using assms(4) by (simp add: try_build_textual_def)
  have parts: "try_build_numpad sb k = None" "try_build_named_kitty sb k = map_of kitty_codes n"
    "try_build_named_normal sb k ht = map_of (normal_codes ?ob) n"
    using assms(2-4) by (simp_all add: try_build_numpad_def try_build_named_kitty_def try_build_named_normal_def)
  obtain c m' where c: "try_build_control_char_or_mod sb k (sb_modifiers sb) = (c, m')" by (cases "try_build_control_char_or_mod sb k (sb_modifiers sb)")
  have ceq: "map_option (\<lambda>code. (code, Term_Kitty)) ?mc = c" using control [of "sb_modifiers sb"] c by simp
  show ?thesis using assms(5) unfolding table select_base_def parts c no_text ceq
    by (cases "map_of kitty_codes n"; cases "map_of (normal_codes ?ob) n"; cases c) simp_all
qed


section \<open>Bindings\<close>

lemma binding_key_eq_refl [simp]: "binding_key_eq a a"
  by (cases a) (simp_all add: bind_location_eq_def)

lemma retained: "set (foldl (\<lambda>bs u. filter (\<lambda>b. \<not> triggers_match eq b u) bs) bs us) = {b \<in> set bs. \<forall>u \<in> set us. \<not> triggers_match eq b u}"
  by (induction us arbitrary: bs) auto

lemma triggers_match_common:
  assumes "triggers_match binding_key_eq b c" "\<not> flag_intersects (b_mode b) (b_notmode b)" "\<not> flag_intersects (b_mode c) (b_notmode c)"
  shows "\<exists>mode mods inp. is_triggered_by binding_key_eq b mode mods inp \<and> is_triggered_by binding_key_eq c mode mods inp"
proof -
  have m: "binding_key_eq (b_trigger b) (b_trigger c)" "b_mods b = b_mods c"
    "\<not> flag_intersects (b_mode b) (b_notmode c)" "\<not> flag_intersects (b_mode c) (b_notmode b)"
    using assms(1) by (auto simp: triggers_match_def Let_def split: if_splits)
  let ?mode = "b_mode b OR b_mode c"
  have "\<not> flag_intersects ?mode (b_notmode b)" "\<not> flag_intersects ?mode (b_notmode c)"
    using m(3,4) assms(2,3) by (auto simp: flag_intersects_iff bit_or_iff)
  moreover have "flag_contains ?mode (b_mode b)" "flag_contains ?mode (b_mode c)" by (auto simp: flag_contains_iff bit_or_iff)
  ultimately show ?thesis using m(1,2)
    by (intro exI [of _ ?mode] exI [of _ "b_mods c"] exI [of _ "b_trigger c"]) (simp add: is_triggered_by_def)
qed

text \<open>
  A binding of the configuration replaces a default binding only if the two are in conflict: for every default binding
  that is dropped there is a key, with modifiers and in a mode of the terminal, that would trigger it and a binding of the configuration at once. Bindings
  that forbid a mode they require, and never trigger, are left aside. All bindings of the configuration are kept.
\<close>

theorem dropped_binding_conflicts:
  assumes "b \<in> set defaults" "b \<notin> set (merge_bindings binding_key_eq user defaults)"
    and "\<forall>c \<in> insert b (set user). \<not> flag_intersects (b_mode c) (b_notmode c)"
  shows "\<exists>u \<in> set user. \<exists>mode mods inp. is_triggered_by binding_key_eq b mode mods inp \<and> is_triggered_by binding_key_eq u mode mods inp"
proof -
  obtain u where "u \<in> set user" "triggers_match binding_key_eq b u" using assms(1,2) by (auto simp: merge_bindings_def retained)
  then show ?thesis using triggers_match_common [of b u] assms(3) by blast
qed

lemma suppress_chars_Some: "suppress_chars f as (Some b) = Some (b \<and> (\<forall>a \<in> set as. \<not> f a))"
  by (induction as arbitrary: b) auto

text \<open>The characters of a key are suppressed if a binding was triggered, unless one of them asks for the characters.\<close>

lemma key_suppressed:
  "snd (process_key_bindings W receive_char k mods mode bs) \<longleftrightarrow>
     triggered_actions W k mods mode bs \<noteq> [] \<and> (\<forall>a \<in> set (triggered_actions W k mods mode bs). \<not> receive_char a)"
  by (cases "triggered_actions W k mods mode bs") (simp_all add: process_key_bindings_def Let_def suppress_chars_Some)

text \<open>
  Control codes of C1, which take two bytes, are not recognised as control characters, so they are reported as the text of a key.
\<close>

lemma c1_is_text: "0x80 \<le> c \<Longrightarrow> is_control_character [c] = Some False"
  by (simp add: is_control_character_def)

section \<open>Witnesses\<close>

definition demo_winit :: winit_env where
  "demo_winit = \<lparr>named_to_text = \<lambda>n. if n = Key_Enter then Some [13] else None, char_to_lowercase = \<lambda>c. [if 65 \<le> c \<and> c \<le> 90 then c + 32 else c]\<rparr>"

definition demo_key :: "named_key \<Rightarrow> key_event" where
  "demo_key n = \<lparr>logical_key = Named n, physical_key = 0, key_location = Loc_Standard, key_state = Pressed, key_repeat = False,
     key_text = None, key_without_modifiers = Named n\<rparr>"

definition demo_shift :: modifiers where
  "demo_shift = no_modifiers\<lparr>shift_key := True\<rparr>"

lemma demo_sequence: "build_sequence demo_winit (demo_key (Key_F 5)) demo_shift 0 = Some (ESC @ ''[15;2~'')"
  by code_simp

theorem key_sequence_decodes_witness:
  "\<exists>code terminator m. decode_key (ESC @ ''[15;2~'') = (code, unat m, 1, [], encode_terminator terminator)
     \<and> select_base demo_winit (builder_of (demo_key (Key_F 5)) demo_shift 0) (demo_key (Key_F 5)) False = Some (Some (code, terminator), m)"
proof -
  have "ESC @ ''[15;2~'' \<noteq> []" by simp
  moreover have "associated_text (demo_key (Key_F 5)) 0 = None" by (simp add: associated_text_def demo_key_def)
  moreover have "\<not> kitty_event_type (builder_of (demo_key (Key_F 5)) demo_shift 0)" by (simp add: builder_of_def demo_key_def)
  ultimately show ?thesis using key_sequence_decodes [OF demo_sequence] by auto
qed

lemma demo_tab: "build_sequence demo_winit (demo_key Key_Tab) demo_shift REPORT_ALL_KEYS_AS_ESC = Some (ESC @ ''[9;2u'')"
  by code_simp


definition demo_binding :: "ustring \<Rightarrow> nat \<Rightarrow> (binding_key, nat) binding" where
  "demo_binding s action =
     \<lparr>b_mods = demo_shift, b_action = action, b_mode = 0, b_notmode = push_bit 3 1, b_trigger = Keycode (Character s) Bind_Any\<rparr>"

theorem dropped_binding_conflicts_witness:
  "\<exists>mode mods inp. is_triggered_by binding_key_eq (demo_binding [99] 1) mode mods inp \<and> is_triggered_by binding_key_eq (demo_binding [99] 2) mode mods inp"
  using dropped_binding_conflicts [of "demo_binding [99] 1" "[demo_binding [99] 1]" "[demo_binding [99] 2]"]
  by (simp add: merge_bindings_def triggers_match_def demo_binding_def bind_location_eq_def flag_intersects_def binding_mode_all_def)

end
