(* ===== verification/Hint_Labels.thy ===== *)
theory Hint_Labels
  imports Prelude "HOL-Library.Sublist"
begin

text \<open>
  Labels of hints (\<^verbatim>\<open>HintLabels\<close> in \<^verbatim>\<open>src/alacritty/src/display/hint.rs\<close>).

  A label is a word over an alphabet. The first half of the alphabet is only used for the last character of a label, the
  rest for all others, so that a label is complete when such a character has been typed. The generator counts: it is
  shown to produce the labels of a bijective number system, and that no label is the beginning of another.
\<close>

record 'a hint_labels =
  hl_alphabet :: "'a list"
  hl_indices :: "nat list"
  split_point :: nat

text \<open>\<^verbatim>\<open>HINT_SPLIT_PERCENTAGE\<close> is one half and the product with a float is rounded down.\<close>

definition hint_labels_new :: "'a list \<Rightarrow> 'a hint_labels option" where
  "hint_labels_new alphabet = do {
     n \<leftarrow> csub (length alphabet) 1;
     Some \<lparr>hl_alphabet = alphabet, hl_indices = [0], split_point = n div 2\<rparr>
   }"

text \<open>The loop over the characters before the last one, from right to left; it extends the label when none can be incremented.\<close>

fun increment_rest :: "nat \<Rightarrow> nat \<Rightarrow> nat list \<Rightarrow> nat list" where
  "increment_rest n sp [] = [sp + 1]"
| "increment_rest n sp (i # rest) = (if i + 1 = n then (sp + 1) # increment_rest n sp rest else (i + 1) # rest)"

definition increment :: "'a hint_labels \<Rightarrow> 'a hint_labels option" where
  "increment hl = (case hl_indices hl of
     [] \<Rightarrow> None
   | tail # rest \<Rightarrow>
       if tail < split_point hl then Some (hl\<lparr>hl_indices := (tail + 1) # rest\<rparr>)
       else Some (hl\<lparr>hl_indices := 0 # increment_rest (length (hl_alphabet hl)) (split_point hl) rest\<rparr>))"

fun lookup_all :: "'a list \<Rightarrow> nat list \<Rightarrow> 'a list option" where
  "lookup_all xs [] = Some []"
| "lookup_all xs (i # rest) = do { x \<leftarrow> vec_get xs i; ys \<leftarrow> lookup_all xs rest; Some (x # ys) }"

definition labels_next :: "'a hint_labels \<Rightarrow> ('a list \<times> 'a hint_labels) option" where
  "labels_next hl = do {
     characters \<leftarrow> lookup_all (hl_alphabet hl) (rev (hl_indices hl));
     hl \<leftarrow> increment hl;
     Some (characters, hl)
   }"

text \<open>The first labels of a generator.\<close>

fun take_labels :: "nat \<Rightarrow> 'a hint_labels \<Rightarrow> 'a list list option" where
  "take_labels 0 hl = Some []"
| "take_labels (Suc n) hl = do {
     (l, hl) \<leftarrow> labels_next hl;
     ls \<leftarrow> take_labels n hl;
     Some (l # ls)
   }"

section \<open>Counting\<close>

text \<open>The number of a list of indices: the last character counts in base \<open>sp + 1\<close>, the others are the digits 1 to \<open>m\<close>.\<close>

fun rest_number :: "nat \<Rightarrow> nat \<Rightarrow> nat list \<Rightarrow> nat" where
  "rest_number m sp [] = 0"
| "rest_number m sp (i # rest) = i - sp + m * rest_number m sp rest"

definition number :: "nat \<Rightarrow> nat \<Rightarrow> nat list \<Rightarrow> nat" where
  "number m sp is = hd is + (sp + 1) * rest_number m sp (tl is)"

definition indices_ok :: "nat \<Rightarrow> nat \<Rightarrow> nat list \<Rightarrow> bool" where
  "indices_ok n sp is \<longleftrightarrow> is \<noteq> [] \<and> hd is \<le> sp \<and> (\<forall>i \<in> set (tl is). sp < i \<and> i < n)"

lemma increment_rest_number:
  "\<forall>i \<in> set rest. sp < i \<and> i < n \<Longrightarrow> sp + 1 < n \<Longrightarrow>
   rest_number (n - 1 - sp) sp (increment_rest n sp rest) = rest_number (n - 1 - sp) sp rest + 1"
proof (induction n sp rest rule: increment_rest.induct)
  case (2 n sp i rest)
  show ?case
  proof (cases "i + 1 = n")
    case True
    then have "i - sp = n - 1 - sp" by simp
    then show ?thesis using True 2 by simp
  qed (use 2 in \<open>simp add: Suc_diff_le\<close>)
qed simp

lemma increment_rest_ok:
  "\<forall>i \<in> set rest. sp < i \<and> i < n \<Longrightarrow> sp + 1 < n \<Longrightarrow> \<forall>i \<in> set (increment_rest n sp rest). sp < i \<and> i < n"
  by (induction n sp rest rule: increment_rest.induct) auto

lemma increment_number:
  assumes "indices_ok n sp is" "sp + 1 < n" "n = length (hl_alphabet hl)" "sp = split_point hl" "is = hl_indices hl"
  obtains hl' where "increment hl = Some hl'" "indices_ok n sp (hl_indices hl')" "number (n - 1 - sp) sp (hl_indices hl') = number (n - 1 - sp) sp is + 1"
    "hl_alphabet hl' = hl_alphabet hl" "split_point hl' = sp"
proof -
  obtain i rest where i: "is = i # rest" "hl_indices hl = i # rest" using assms(1,5) by (auto simp: indices_ok_def neq_Nil_conv)
  note R = increment_rest_number [of rest sp n] increment_rest_ok [of rest sp n]
  show ?thesis
  proof (cases "i < sp")
    case True
    then show ?thesis using assms(1-4) i that [of "hl\<lparr>hl_indices := (i + 1) # rest\<rparr>"] by (simp add: increment_def indices_ok_def number_def)
  next
    case False
    then show ?thesis using assms(1-4) i R that [of "hl\<lparr>hl_indices := 0 # increment_rest n sp rest\<rparr>"]
      by (simp add: increment_def indices_ok_def number_def)
  qed
qed

lemma lookup_all_nth: "(\<forall>i \<in> set is. i < length xs) \<Longrightarrow> lookup_all xs is = Some (map (nth xs) is)"
  by (induction "is") (simp_all add: vec_get_def)

lemma labels_next_number:
  assumes "indices_ok n sp (hl_indices hl)" "sp + 1 < n" "n = length (hl_alphabet hl)" "sp = split_point hl"
  obtains hl' where "labels_next hl = Some (map (nth (hl_alphabet hl)) (rev (hl_indices hl)), hl')" "indices_ok n sp (hl_indices hl')"
    "number (n - 1 - sp) sp (hl_indices hl') = number (n - 1 - sp) sp (hl_indices hl) + 1" "hl_alphabet hl' = hl_alphabet hl" "split_point hl' = sp"
proof -
  obtain hl' where inc: "increment hl = Some hl'" "indices_ok n sp (hl_indices hl')" "number (n - 1 - sp) sp (hl_indices hl') = number (n - 1 - sp) sp (hl_indices hl) + 1"
    "hl_alphabet hl' = hl_alphabet hl" "split_point hl' = sp"
    by (rule increment_number [OF assms refl])
  have "\<forall>i \<in> set (hl_indices hl). i < n" using assms(1,2) by (cases "hl_indices hl") (auto simp: indices_ok_def)
  then have "labels_next hl = Some (map (nth (hl_alphabet hl)) (rev (hl_indices hl)), hl')"
    using inc(1) assms(3) by (simp add: labels_next_def lookup_all_nth)
  then show ?thesis using inc(2-5) that by blast
qed

text \<open>The label with a number comes from indices with this number.\<close>

lemma take_labels_numbers:
  assumes "indices_ok n sp (hl_indices hl)" "sp + 1 < n" "n = length (hl_alphabet hl)" "sp = split_point hl"
  shows "\<exists>ls. take_labels k hl = Some ls \<and> length ls = k
    \<and> (\<forall>j < k. \<exists>is. indices_ok n sp is \<and> number (n - 1 - sp) sp is = number (n - 1 - sp) sp (hl_indices hl) + j \<and> ls ! j = map (nth (hl_alphabet hl)) (rev is))"
  using assms
proof (induction k arbitrary: hl)
  case (Suc k)
  obtain hl' where l: "labels_next hl = Some (map (nth (hl_alphabet hl)) (rev (hl_indices hl)), hl')" "indices_ok n sp (hl_indices hl')"
    "number (n - 1 - sp) sp (hl_indices hl') = number (n - 1 - sp) sp (hl_indices hl) + 1" "hl_alphabet hl' = hl_alphabet hl" "split_point hl' = sp"
    by (rule labels_next_number [OF Suc.prems])
  have "n = length (hl_alphabet hl')" "sp = split_point hl'" using l(4,5) Suc.prems(3) by simp_all
  from Suc.IH [OF l(2) Suc.prems(2) this] obtain ls where ls: "take_labels k hl' = Some ls" "length ls = k"
    "\<forall>j < k. \<exists>is. indices_ok n sp is \<and> number (n - 1 - sp) sp is = number (n - 1 - sp) sp (hl_indices hl) + Suc j \<and> ls ! j = map (nth (hl_alphabet hl)) (rev is)"
    unfolding l(3,4) by auto
  show ?case using l(1) ls Suc.prems(1) by (auto simp: nth_Cons split: nat.split)
qed simp

text \<open>
  The last character of a label, and only the last, is in the first part of the alphabet.
\<close>

lemma label_prefix_eq:
  assumes "distinct xs" "length xs = n" "indices_ok n sp is" "indices_ok n sp js" "sp + 1 < n"
    and "prefix (map (nth xs) (rev is)) (map (nth xs) (rev js))"
  shows "is = js"
proof -
  have ok: "\<forall>i \<in> set is. i < n" "\<forall>i \<in> set js. i < n"
    using assms(3-5) by (cases "is"; cases js; auto simp: indices_ok_def)+
  from assms(6) have "map (nth xs) (rev is) = map (nth xs) (take (length is) (rev js))" and le: "length is \<le> length js"
    by (auto simp: prefix_def take_map dest: arg_cong [where f = length]) (metis append_eq_conv_conj length_map length_rev take_map)
  then have eq: "rev is = take (length is) (rev js)"
    using ok assms(1,2) by (intro map_inj_on [where f = "nth xs"]) (auto intro!: inj_on_nth dest: in_set_takeD)
  show ?thesis
  proof (cases "length is = length js")
    case False
    let ?k = "length is - 1"
    have k: "?k < length is" "length is < length js" using assms(3) le False by (auto simp: indices_ok_def)
    then have "hd is = rev is ! ?k" using assms(3) by (simp add: rev_nth hd_conv_nth indices_ok_def)
    also have "\<dots> = js ! (length js - length is)" using k unfolding eq by (simp add: rev_nth)
    also have "\<dots> \<in> set (tl js)" using k by (cases js) (auto simp: nth_Cons' intro!: nth_mem)
    finally show ?thesis using assms(3,4) by (auto simp: indices_ok_def)
  qed (use eq in simp)
qed

lemma labels_prefix_free:
  assumes "distinct alphabet" "2 \<le> length alphabet"
  shows "\<exists>hl ls. hint_labels_new alphabet = Some hl \<and> take_labels k hl = Some ls \<and> length ls = k
    \<and> (\<forall>l \<in> set ls. l \<noteq> [] \<and> set l \<subseteq> set alphabet) \<and> (\<forall>i < k. \<forall>j < k. prefix (ls ! i) (ls ! j) \<longrightarrow> i = j)"
proof -
  let ?n = "length alphabet" and ?sp = "(length alphabet - 1) div 2"
  let ?hl = "\<lparr>hl_alphabet = alphabet, hl_indices = [0], split_point = ?sp\<rparr>"
  have new: "hint_labels_new alphabet = Some ?hl" using assms(2) by (simp add: hint_labels_new_def csub_def)
  have sp: "?sp + 1 < ?n" using assms(2) by auto
  have start: "indices_ok ?n ?sp (hl_indices ?hl)" by (simp add: indices_ok_def)
  from take_labels_numbers [OF start sp, of k] obtain ls where ls: "take_labels k ?hl = Some ls" "length ls = k"
    and num: "\<forall>j < k. \<exists>is. indices_ok ?n ?sp is \<and> number (?n - 1 - ?sp) ?sp is = j \<and> ls ! j = map (nth alphabet) (rev is)"
    by (auto simp: number_def)
  have "i = j" if ij: "i < k" "j < k" "prefix (ls ! i) (ls ! j)" for i j
  proof -
    from num ij(1,2) obtain "is" js where *: "indices_ok ?n ?sp is" "number (?n - 1 - ?sp) ?sp is = i" "ls ! i = map (nth alphabet) (rev is)"
      "indices_ok ?n ?sp js" "number (?n - 1 - ?sp) ?sp js = j" "ls ! j = map (nth alphabet) (rev js)" by metis
    then show ?thesis using label_prefix_eq [OF assms(1) refl *(1,4) sp] ij(3) by simp
  qed
  moreover have "l \<noteq> [] \<and> set l \<subseteq> set alphabet" if l: "l \<in> set ls" for l
  proof -
    from l ls(2) num obtain "is" where "indices_ok ?n ?sp is" "l = map (nth alphabet) (rev is)" by (metis in_set_conv_nth)
    then show ?thesis using sp by (cases "is") (auto simp: indices_ok_def)
  qed
  ultimately show ?thesis using new ls by blast
qed

end
