(* ===== verification/Hints.thy ===== *)
theory Hints
  imports Regex_Search Mouse_Input Hint_Labels
begin

text \<open>
  Hints (\<^verbatim>\<open>src/alacritty/src/display/hint.rs\<close>, with their configuration from \<^verbatim>\<open>config/ui_config.rs\<close>).

  Hints are regions of the screen, hyperlinks or matches of a regular expression, that are selected by typing a label
  or with the mouse. Hyperlinks are found by a walk over the viewport, matches with the iterator of \<open>Regex_Search\<close>,
  whose automata stay a parameter. The compiled expression inside of a hint changes when it is
  used, so the operations return the hint.

  Shown are that typing a label selects its match and nothing else, that a hyperlink is found with exactly the
  cells it covers, and that the post-processing of a match at the end of the grid does not end.
\<close>

section \<open>Configuration\<close>

datatype ('s, 'e, 'c) lazy_regex_variant =
  Compiled ustring "('s, 'e, 'c) regex_search" | Pattern ustring | Uncompilable ustring

definition compiled ::
  "('s, 'e, 'c, 'b) dfa_builder \<Rightarrow> ('s, 'e, 'c) lazy_regex_variant \<Rightarrow> ('s, 'e, 'c) regex_search option \<times> ('s, 'e, 'c) lazy_regex_variant" where
  "compiled B v = (case v of
     Compiled _ re \<Rightarrow> (Some re, v)
   | Uncompilable _ \<Rightarrow> (None, v)
   | Pattern regex \<Rightarrow>
       (case regex_search_new B regex of
          Inr re \<Rightarrow> (Some re, Compiled regex re)
        | Inl err \<Rightarrow> (None, Uncompilable regex)))"

text \<open>\<^verbatim>\<open>LazyRegex::with_compiled\<close>: the function may change the compiled expression and may panic.\<close>

definition with_compiled ::
  "('s, 'e, 'c, 'b) dfa_builder \<Rightarrow> ('s, 'e, 'c) lazy_regex_variant
   \<Rightarrow> (('s, 'e, 'c) regex_search \<Rightarrow> ('a \<times> ('s, 'e, 'c) regex_search) option) \<Rightarrow> ('a option \<times> ('s, 'e, 'c) lazy_regex_variant) option" where
  "with_compiled B v f = (case compiled B v of
     (Some re, v) \<Rightarrow> do {
       (x, re) \<leftarrow> f re;
       Some (Some x, case v of Compiled regex _ \<Rightarrow> Compiled regex re | _ \<Rightarrow> v)
     }
   | (None, v) \<Rightarrow> Some (None, v))"

datatype hint_internal_action = Hint_Copy | Hint_Paste | Hint_Select | Hint_MoveViModeCursor

datatype hint_action = Hint_Internal hint_internal_action | Hint_Command string "string list"

record ('s, 'e, 'c) hint =
  hint_regex :: "('s, 'e, 'c) lazy_regex_variant option"
  hint_hyperlinks :: bool
  h_action :: hint_action
  post_processing :: bool
  persist :: bool
  hint_mouse :: "(bool \<times> modifiers) option"

section \<open>Finding hyperlinks\<close>

text \<open>\<^verbatim>\<open>find_map\<close> over the cells until one has a hyperlink that was not seen.\<close>

partial_function (option) find_unique ::
  "grid \<Rightarrow> hyperlink list \<Rightarrow> grid_iter \<Rightarrow> ((point \<times> hyperlink) option \<times> grid_iter) option" where
  "find_unique g seen it = do {
     (n, it) \<leftarrow> iter_next g it;
     case n of
       None \<Rightarrow> Some (None, it)
     | Some (p, x) \<Rightarrow>
         (case cell_hyperlink x of
            None \<Rightarrow> find_unique g seen it
          | Some h \<Rightarrow> if h \<in> set seen then find_unique g seen it else Some (Some (p, h), it))
   }"

text \<open>The end of a hyperlink: \<^verbatim>\<open>peek\<close> looks at the next cell and leaves it in the iterator.\<close>

partial_function (option) follow_link :: "grid \<Rightarrow> hyperlink \<Rightarrow> point \<Rightarrow> grid_iter \<Rightarrow> (point \<times> grid_iter) option" where
  "follow_link g h e it = do {
     (n, it') \<leftarrow> iter_next g it;
     case n of
       None \<Rightarrow> Some (e, it)
     | Some (p, x) \<Rightarrow> if cell_hyperlink x \<noteq> Some h then Some (e, it) else follow_link g h p it'
   }"

partial_function (option) unique_hyperlinks :: "grid \<Rightarrow> hyperlink list \<Rightarrow> grid_iter \<Rightarrow> match_range list option" where
  "unique_hyperlinks g seen it = do {
     (n, it) \<leftarrow> find_unique g seen it;
     case n of
       None \<Rightarrow> Some []
     | Some (s, h) \<Rightarrow> do {
         (e, it) \<leftarrow> follow_link g h s it;
         ms \<leftarrow> unique_hyperlinks g (h # seen) it;
         Some ((s, e) # ms)
       }
   }"

definition visible_unique_hyperlinks :: "terminal \<Rightarrow> match_range list option" where
  "visible_unique_hyperlinks t = do {
     it \<leftarrow> display_iter (t_grid t);
     unique_hyperlinks (t_grid t) [] it
   }"

definition link_step :: "hyperlink \<Rightarrow> point \<times> cell \<Rightarrow> point \<Rightarrow> point + point" where
  "link_step h px bound = (if cell_hyperlink (snd px) = Some h then Inr (fst px) else Inl bound)"

definition hyperlink_at :: "terminal \<Rightarrow> point \<Rightarrow> (hyperlink \<times> match_range) option option" where
  "hyperlink_at t p = do {
     x \<leftarrow> grid_cell_at (t_grid t) p;
     case cell_hyperlink x of
       None \<Rightarrow> Some None
     | Some h \<Rightarrow> do {
         it \<leftarrow> iter_from (t_grid t) p;
         r \<leftarrow> scan (t_grid t) True (link_step h) it p;
         let match_end = (case r of Inl q \<Rightarrow> q | Inr q \<Rightarrow> q);
         it \<leftarrow> iter_from (t_grid t) p;
         r \<leftarrow> scan (t_grid t) False (link_step h) it p;
         let match_start = (case r of Inl q \<Rightarrow> q | Inr q \<Rightarrow> q);
         Some (Some (h, match_start, match_end))
       }
   }"

section \<open>Finding matches\<close>

definition MAX_SEARCH_LINES :: nat where "MAX_SEARCH_LINES = 100"

text \<open>\<^verbatim>\<open>skip_while(..).take_while(..)\<close> over the matches: the iterator knows whether it has skipped and whether it is finished.\<close>

record ('s, 'e, 'c) visible_iter =
  vis_start :: int
  vis_end :: int
  vis_skipped :: bool
  vis_finished :: bool
  vis_iter :: "('s, 'e, 'c) regex_iter"

definition visible_regex_match_iter :: "terminal \<Rightarrow> ('s, 'e, 'c) regex_search \<Rightarrow> ('s, 'e, 'c) visible_iter option" where
  "visible_regex_match_iter t re = do {
     let viewport_start = - int (display_offset (t_grid t));
     let viewport_end = viewport_start + bottommost_line (t_dims t);
     s \<leftarrow> line_search_left t (Point viewport_start 0);
     e \<leftarrow> line_search_right t (Point viewport_end 0);
     let s = Point (max (line s) (viewport_start - int MAX_SEARCH_LINES)) (column s);
     let e = Point (min (line e) (viewport_end + int MAX_SEARCH_LINES)) (column e);
     Some \<lparr>vis_start = viewport_start, vis_end = viewport_end, vis_skipped = False, vis_finished = False, vis_iter = regex_iter_new s e Right re\<rparr>
   }"

partial_function (option) visible_next ::
  "terminal \<Rightarrow> ('s, 'e, 'c) visible_iter \<Rightarrow> (match_range option \<times> ('s, 'e, 'c) visible_iter) option" where
  "visible_next t vi =
     (if vis_finished vi then Some (None, vi)
      else Option.bind (regex_iter_next t (vis_iter vi)) (\<lambda>(m, ri).
        let vi = vi\<lparr>vis_iter := ri\<rparr> in
        case m of
          None \<Rightarrow> Some (None, vi)
        | Some rm \<Rightarrow>
            if \<not> vis_skipped vi \<and> line (snd rm) < vis_start vi then visible_next t vi
            else let vi = vi\<lparr>vis_skipped := True\<rparr> in
              if line (fst rm) \<le> vis_end vi then Some (Some rm, vi) else Some (None, vi\<lparr>vis_finished := True\<rparr>)))"

partial_function (option) collect_visible ::
  "terminal \<Rightarrow> ('s, 'e, 'c) visible_iter \<Rightarrow> (match_range list \<times> ('s, 'e, 'c) regex_search) option" where
  "collect_visible t vi =
     Option.bind (visible_next t vi) (\<lambda>(m, vi).
       case m of
         None \<Rightarrow> Some ([], ri_regex (vis_iter vi))
       | Some rm \<Rightarrow> Option.bind (collect_visible t vi) (\<lambda>(ms, re). Some (rm # ms, re)))"

partial_function (option) find_visible ::
  "terminal \<Rightarrow> point \<Rightarrow> ('s, 'e, 'c) visible_iter \<Rightarrow> (match_range option \<times> ('s, 'e, 'c) regex_search) option" where
  "find_visible t p vi =
     Option.bind (visible_next t vi) (\<lambda>(m, vi).
       case m of
         None \<Rightarrow> Some (None, ri_regex (vis_iter vi))
       | Some rm \<Rightarrow> if fst rm \<le> p \<and> p \<le> snd rm then Some (Some rm, ri_regex (vis_iter vi)) else find_visible t p vi)"

section \<open>Post-processing\<close>

text \<open>
  The character an iterator stands on is passed along, as the code does: after a step back from a closing bracket it is still
  the bracket.
\<close>

partial_function (option) cut_brackets ::
  "grid \<Rightarrow> point \<Rightarrow> nat \<Rightarrow> nat \<Rightarrow> uchar \<Rightarrow> grid_iter \<Rightarrow> (uchar \<times> grid_iter) option" where
  "cut_brackets g e open_parents open_brackets ch it =
     (if ch = 41 \<and> open_parents = 0 \<or> ch = 93 \<and> open_brackets = 0
      then Option.bind (iter_prev g it) (\<lambda>(_, it). Some (ch, it))
      else
        let open_parents = (if ch = 40 then open_parents + 1 else if ch = 41 then open_parents - 1 else open_parents);
            open_brackets = (if ch = 91 then open_brackets + 1 else if ch = 93 then open_brackets - 1 else open_brackets)
        in if it_point it = e then Some (ch, it)
           else Option.bind (iter_next g it) (\<lambda>(n, it).
             case n of
               None \<Rightarrow> Some (ch, it)
             | Some (_, x) \<Rightarrow> cut_brackets g e open_parents open_brackets (cell_c x) it))"

definition is_delimiter :: "uchar \<Rightarrow> bool" where
  "is_delimiter ch \<longleftrightarrow> ch \<in> set [46, 44, 58, 59, 63, 33, 40, 91, 39]"

partial_function (option) cut_delimiters :: "grid \<Rightarrow> point \<Rightarrow> uchar \<Rightarrow> grid_iter \<Rightarrow> grid_iter option" where
  "cut_delimiters g s ch it =
     (if it_point it = s \<or> \<not> is_delimiter ch then Some it
      else Option.bind (iter_prev g it) (\<lambda>(n, it).
        case n of None \<Rightarrow> Some it | Some (_, x) \<Rightarrow> cut_delimiters g s (cell_c x) it))"

definition hint_post_processing :: "terminal \<Rightarrow> match_range \<Rightarrow> match_range option option" where
  "hint_post_processing t rm = do {
     it \<leftarrow> iter_from (t_grid t) (fst rm);
     x \<leftarrow> grid_cell_at (t_grid t) (it_point it);
     (ch, it) \<leftarrow> cut_brackets (t_grid t) (snd rm) 0 0 (cell_c x) it;
     it \<leftarrow> cut_delimiters (t_grid t) (fst rm) ch it;
     Some (if fst rm > it_point it then None else Some (fst rm, it_point it))
   }"

record ('s, 'e, 'c) post_processor =
  pp_regex :: "('s, 'e, 'c) regex_search"
  next_match :: "match_range option"
  pp_start :: point
  pp_end :: point

partial_function (option) next_processed_match ::
  "terminal \<Rightarrow> match_range \<Rightarrow> ('s, 'e, 'c) post_processor \<Rightarrow> ('s, 'e, 'c) post_processor option" where
  "next_processed_match t rm pp = do {
     processed \<leftarrow> hint_post_processing t rm;
     case processed of
       Some nm \<Rightarrow> do {
         s \<leftarrow> point_add (t_dims t) Boundary_Grid 1 (snd nm);
         Some (pp\<lparr>pp_start := s, next_match := Some nm\<rparr>)
       }
     | None \<Rightarrow> do {
         s \<leftarrow> point_add (t_dims t) Boundary_Grid 1 (fst rm);
         let pp = pp\<lparr>pp_start := s\<rparr>;
         if s > pp_end pp then Some pp
         else Option.bind (regex_search_right t (pp_regex pp) s (pp_end pp)) (\<lambda>(m, re).
           let pp = pp\<lparr>pp_regex := re\<rparr> in
           case m of None \<Rightarrow> Some pp | Some rm \<Rightarrow> next_processed_match t rm pp)
       }
   }"

definition post_processor_new ::
  "terminal \<Rightarrow> ('s, 'e, 'c) regex_search \<Rightarrow> match_range \<Rightarrow> ('s, 'e, 'c) post_processor option" where
  "post_processor_new t re rm = next_processed_match t rm \<lparr>pp_regex = re, next_match = None, pp_start = fst rm, pp_end = snd rm\<rparr>"

definition post_processor_next ::
  "terminal \<Rightarrow> ('s, 'e, 'c) post_processor \<Rightarrow> (match_range option \<times> ('s, 'e, 'c) post_processor) option" where
  "post_processor_next t pp = (case next_match pp of
     None \<Rightarrow> Some (None, pp)
   | Some nm \<Rightarrow> do {
       let pp = pp\<lparr>next_match := None\<rparr>;
       pp \<leftarrow> (if pp_start pp \<le> pp_end pp then do {
                (m, re) \<leftarrow> regex_search_right t (pp_regex pp) (pp_start pp) (pp_end pp);
                let pp = pp\<lparr>pp_regex := re\<rparr>;
                case m of Some rm \<Rightarrow> next_processed_match t rm pp | None \<Rightarrow> Some pp
              } else Some pp);
       Some (Some nm, pp)
     })"

partial_function (option) collect_processed ::
  "terminal \<Rightarrow> ('s, 'e, 'c) post_processor \<Rightarrow> (match_range list \<times> ('s, 'e, 'c) regex_search) option" where
  "collect_processed t pp =
     Option.bind (post_processor_next t pp) (\<lambda>(m, pp).
       case m of
         None \<Rightarrow> Some ([], pp_regex pp)
       | Some rm \<Rightarrow> Option.bind (collect_processed t pp) (\<lambda>(ms, re). Some (rm # ms, re)))"

partial_function (option) find_processed ::
  "terminal \<Rightarrow> point \<Rightarrow> ('s, 'e, 'c) post_processor \<Rightarrow> (match_range option \<times> ('s, 'e, 'c) regex_search) option" where
  "find_processed t p pp =
     Option.bind (post_processor_next t pp) (\<lambda>(m, pp).
       case m of
         None \<Rightarrow> Some (None, pp_regex pp)
       | Some rm \<Rightarrow> if fst rm \<le> p \<and> p \<le> snd rm then Some (Some rm, pp_regex pp) else find_processed t p pp)"

fun process_all :: "terminal \<Rightarrow> match_range list \<Rightarrow> ('s, 'e, 'c) regex_search \<Rightarrow> (match_range list \<times> ('s, 'e, 'c) regex_search) option" where
  "process_all t [] re = Some ([], re)"
| "process_all t (rm # rms) re = do {
     pp \<leftarrow> post_processor_new t re rm;
     (ms, re) \<leftarrow> collect_processed t pp;
     (rest, re) \<leftarrow> process_all t rms re;
     Some (ms @ rest, re)
   }"

definition collect_regex_matches ::
  "terminal \<Rightarrow> bool \<Rightarrow> ('s, 'e, 'c) regex_search \<Rightarrow> (match_range list \<times> ('s, 'e, 'c) regex_search) option" where
  "collect_regex_matches t process re = do {
     vi \<leftarrow> visible_regex_match_iter t re;
     (ms, re) \<leftarrow> collect_visible t vi;
     if process then process_all t ms re else Some (ms, re)
   }"

definition regex_match_at ::
  "terminal \<Rightarrow> point \<Rightarrow> bool \<Rightarrow> ('s, 'e, 'c) regex_search \<Rightarrow> (match_range option \<times> ('s, 'e, 'c) regex_search) option" where
  "regex_match_at t p process re = do {
     vi \<leftarrow> visible_regex_match_iter t re;
     (m, re) \<leftarrow> find_visible t p vi;
     case m of
       None \<Rightarrow> Some (None, re)
     | Some rm \<Rightarrow>
         if process then do {
           pp \<leftarrow> post_processor_new t re rm;
           find_processed t p pp
         } else Some (Some rm, re)
   }"

section \<open>The state of the selection\<close>

record ('s, 'e, 'c) hint_state =
  hs_hint :: "('s, 'e, 'c) hint option"
  hs_alphabet :: ustring
  hs_matches :: "match_range list"
  hs_labels :: "ustring list"
  hs_keys :: ustring

definition hint_state_new :: "ustring \<Rightarrow> ('s, 'e, 'c) hint_state" where
  "hint_state_new alphabet = \<lparr>hs_hint = None, hs_alphabet = alphabet, hs_matches = [], hs_labels = [], hs_keys = []\<rparr>"

definition hint_active :: "('s, 'e, 'c) hint_state \<Rightarrow> bool" where
  "hint_active hs \<longleftrightarrow> hs_hint hs \<noteq> None"

definition hint_start :: "('s, 'e, 'c) hint \<Rightarrow> ('s, 'e, 'c) hint_state \<Rightarrow> ('s, 'e, 'c) hint_state" where
  "hint_start h hs = hs\<lparr>hs_hint := Some h\<rparr>"

definition hint_stop :: "('s, 'e, 'c) hint_state \<Rightarrow> ('s, 'e, 'c) hint_state" where
  "hint_stop hs = hs\<lparr>hs_matches := [], hs_labels := [], hs_keys := [], hs_hint := None\<rparr>"

text \<open>\<^verbatim>\<open>sort_by_key\<close> with the key \<^verbatim>\<open>(start, Reverse(end))\<close>, and \<^verbatim>\<open>dedup_by_key\<close> with the start.\<close>

fun insert_match :: "match_range \<Rightarrow> match_range list \<Rightarrow> match_range list" where
  "insert_match m [] = [m]"
| "insert_match m (n # ns) = (if fst m < fst n \<or> fst m = fst n \<and> snd n \<le> snd m then m # n # ns else n # insert_match m ns)"

definition sort_matches :: "match_range list \<Rightarrow> match_range list" where
  "sort_matches ms = foldr insert_match ms []"

fun dedup_matches :: "match_range list \<Rightarrow> match_range list" where
  "dedup_matches (m # n # ns) = (if fst m = fst n then dedup_matches (m # ns) else m # dedup_matches (n # ns))"
| "dedup_matches ms = ms"

text \<open>What all sources of a hint find.\<close>

definition collect_matches ::
  "('s, 'e, 'c, 'b) dfa_builder \<Rightarrow> terminal \<Rightarrow> ('s, 'e, 'c) hint \<Rightarrow> (match_range list \<times> ('s, 'e, 'c) hint) option" where
  "collect_matches B t h = do {
     links \<leftarrow> (if hint_hyperlinks h then visible_unique_hyperlinks t else Some []);
     (ms, h) \<leftarrow> (case hint_regex h of
       None \<Rightarrow> Some ([], h)
     | Some v \<Rightarrow> do {
         (x, v) \<leftarrow> with_compiled B v (collect_regex_matches t (post_processing h));
         Some (case x of None \<Rightarrow> [] | Some ms \<Rightarrow> ms, h\<lparr>hint_regex := Some v\<rparr>)
       });
     Some (links @ ms, h)
   }"

text \<open>The loop over the matches from the last to the first: each takes the next label without the keys that were typed.\<close>

definition rest_of_label :: "ustring \<Rightarrow> ustring \<Rightarrow> ustring" where
  "rest_of_label keys l = (if length keys \<le> length l \<and> take (length keys) l = keys then drop (length keys) l else [])"

definition assign_labels :: "ustring \<Rightarrow> ustring \<Rightarrow> nat \<Rightarrow> ustring list option" where
  "assign_labels alphabet keys n = do {
     generator \<leftarrow> hint_labels_new alphabet;
     (labels, _) \<leftarrow> for_each (rev [0..<n]) (\<lambda>i (labels, generator). do {
       (l, generator) \<leftarrow> labels_next generator;
       labels \<leftarrow> vec_set labels i (rest_of_label keys l);
       Some (labels, generator)
     }) (replicate n [], generator);
     Some labels
   }"

definition update_matches ::
  "('s, 'e, 'c, 'b) dfa_builder \<Rightarrow> terminal \<Rightarrow> ('s, 'e, 'c) hint_state \<Rightarrow> ('s, 'e, 'c) hint_state option" where
  "update_matches B t hs = (case hs_hint hs of
     None \<Rightarrow> Some hs
   | Some h \<Rightarrow> do {
       (ms, h) \<leftarrow> collect_matches B t h;
       let hs = hs\<lparr>hs_hint := Some h, hs_matches := ms\<rparr>;
       if ms = [] then Some (hint_stop hs)
       else do {
         let ms = dedup_matches (sort_matches ms);
         labels \<leftarrow> assign_labels (hs_alphabet hs) (hs_keys hs) (length ms);
         Some (hs\<lparr>hs_matches := ms, hs_labels := labels\<rparr>)
       }
     })"

record ('s, 'e, 'c) hint_match =
  hm_bounds :: match_range
  hm_hyperlink :: "hyperlink option"
  hm_hint :: "('s, 'e, 'c) hint"

definition last_index :: "('a \<Rightarrow> bool) \<Rightarrow> 'a list \<Rightarrow> nat option" where
  "last_index f xs = find (\<lambda>i. f (xs ! i)) (rev [0..<length xs])"

definition select_label ::
  "terminal \<Rightarrow> uchar \<Rightarrow> ('s, 'e, 'c) hint \<Rightarrow> ('s, 'e, 'c) hint_state \<Rightarrow> (('s, 'e, 'c) hint_match option \<times> ('s, 'e, 'c) hint_state) option" where
  "select_label t ch h hs = (case last_index (\<lambda>l. l \<noteq> [] \<and> hd l = ch) (hs_labels hs) of
     None \<Rightarrow> Some (None, hs)
   | Some index \<Rightarrow> do {
       label \<leftarrow> vec_get (hs_labels hs) index;
       if length label = 1 then do {
         bounds \<leftarrow> vec_get (hs_matches hs) index;
         let hs = (if persist h then hs\<lparr>hs_keys := []\<rparr> else hint_stop hs);
         x \<leftarrow> grid_cell_at (t_grid t) (fst bounds);
         Some (Some \<lparr>hm_bounds = bounds, hm_hyperlink = cell_hyperlink x, hm_hint = h\<rparr>, hs)
       } else Some (None, hs\<lparr>hs_keys := hs_keys hs @ [ch]\<rparr>)
     })"

text \<open>Backspace and Ctrl+Backspace remove a key, escape and Ctrl+C cancel; then the character is looked up all the same.\<close>

definition keyboard_input ::
  "('s, 'e, 'c, 'b) dfa_builder \<Rightarrow> terminal \<Rightarrow> uchar \<Rightarrow> ('s, 'e, 'c) hint_state
   \<Rightarrow> (('s, 'e, 'c) hint_match option \<times> ('s, 'e, 'c) hint_state) option" where
  "keyboard_input B t ch hs = do {
     let hs = (if ch = 0x08 \<or> ch = 0x1f then hs\<lparr>hs_keys := butlast (hs_keys hs)\<rparr>
               else if ch = 0x1b \<or> ch = 0x03 then hint_stop hs else hs);
     hs \<leftarrow> update_matches B t hs;
     case hs_hint hs of
       None \<Rightarrow> Some (None, hs)
     | Some h \<Rightarrow> select_label t ch h hs
   }"

definition update_alphabet :: "ustring \<Rightarrow> ('s, 'e, 'c) hint_state \<Rightarrow> ('s, 'e, 'c) hint_state" where
  "update_alphabet alphabet hs = (if hs_alphabet hs \<noteq> alphabet then hs\<lparr>hs_alphabet := alphabet, hs_keys := []\<rparr> else hs)"

definition should_highlight :: "('s, 'e, 'c) hint_match \<Rightarrow> point \<Rightarrow> hyperlink option \<Rightarrow> bool" where
  "should_highlight hm p pointed \<longleftrightarrow> hm_hyperlink hm = pointed
     \<and> (hm_hyperlink hm \<noteq> None \<or> fst (hm_bounds hm) \<le> p \<and> p \<le> snd (hm_bounds hm))"

text \<open>The text of a match, if it is still there: the address of a hyperlink or the characters of a match, as code points.\<close>

definition hint_match_text ::
  "('s, 'e, 'c, 'b) dfa_builder \<Rightarrow> terminal \<Rightarrow> ('s, 'e, 'c) hint_match \<Rightarrow> (ustring option \<times> ('s, 'e, 'c) hint_match) option" where
  "hint_match_text B t hm = (case hm_hyperlink hm of
     Some h \<Rightarrow> do {
       x \<leftarrow> hyperlink_at t (fst (hm_bounds hm));
       Some (case x of
               Some (validated, bounds) \<Rightarrow> if validated = h \<and> bounds = hm_bounds hm then Some (map of_char (link_uri h)) else None
             | None \<Rightarrow> None, hm)
     }
   | None \<Rightarrow>
       (case hint_regex (hm_hint hm) of
          None \<Rightarrow> Some (None, hm)
        | Some v \<Rightarrow> do {
            (x, v) \<leftarrow> with_compiled B v (regex_match_at t (fst (hm_bounds hm)) (post_processing (hm_hint hm)));
            let hm = hm\<lparr>hm_hint := (hm_hint hm)\<lparr>hint_regex := Some v\<rparr>\<rparr>;
            case x of
              Some (Some bounds) \<Rightarrow>
                if bounds = hm_bounds hm then do {
                  s \<leftarrow> bounds_to_string t (fst bounds) (snd bounds);
                  Some (Some s, hm)
                } else Some (None, hm)
            | _ \<Rightarrow> Some (None, hm)
          }))"

definition mods_contain :: "modifiers \<Rightarrow> modifiers \<Rightarrow> bool" where
  "mods_contain m required \<longleftrightarrow> (shift_key required \<longrightarrow> shift_key m) \<and> (alt_key required \<longrightarrow> alt_key m)
     \<and> (control_key required \<longrightarrow> control_key m) \<and> (super_key required \<longrightarrow> super_key m)"

definition hint_at ::
  "('s, 'e, 'c, 'b) dfa_builder \<Rightarrow> terminal \<Rightarrow> point \<Rightarrow> modifiers \<Rightarrow> ('s, 'e, 'c) hint \<Rightarrow> (('s, 'e, 'c) hint_match option \<times> ('s, 'e, 'c) hint) option" where
  \<comment> \<open>the closure of \<^verbatim>\<open>highlighted_at\<close>\<close>
  "hint_at B t p mods h =
     (let mouse_mode = flag_intersects (t_mode t) MOUSE_MODE;
          highlight = (case hint_mouse h of
            None \<Rightarrow> False
          | Some (enabled, required) \<Rightarrow> enabled \<and> mods_contain mods required \<and> (\<not> mouse_mode \<or> shift_key mods))
      in if \<not> highlight then Some (None, h)
         else do {
           link \<leftarrow> (if hint_hyperlinks h then hyperlink_at t p else Some None);
           case link of
             Some (hyperlink, bounds) \<Rightarrow> Some (Some \<lparr>hm_bounds = bounds, hm_hyperlink = Some hyperlink, hm_hint = h\<rparr>, h)
           | None \<Rightarrow>
               (case hint_regex h of
                  None \<Rightarrow> Some (None, h)
                | Some v \<Rightarrow> do {
                    (x, v) \<leftarrow> with_compiled B v (regex_match_at t p (post_processing h));
                    let h = h\<lparr>hint_regex := Some v\<rparr>;
                    Some (case x of Some (Some bounds) \<Rightarrow> Some \<lparr>hm_bounds = bounds, hm_hyperlink = None, hm_hint = h\<rparr> | _ \<Rightarrow> None, h)
                  })
         })"

text \<open>\<^verbatim>\<open>find_map\<close> over the hints of the configuration, which are returned with their compiled expressions.\<close>

fun highlighted_at ::
  "('s, 'e, 'c, 'b) dfa_builder \<Rightarrow> terminal \<Rightarrow> point \<Rightarrow> modifiers \<Rightarrow> ('s, 'e, 'c) hint list
   \<Rightarrow> (('s, 'e, 'c) hint_match option \<times> ('s, 'e, 'c) hint list) option" where
  "highlighted_at B t p mods [] = Some (None, [])"
| "highlighted_at B t p mods (h # hs) = do {
     (m, h) \<leftarrow> hint_at B t p mods h;
     case m of
       Some hm \<Rightarrow> Some (Some hm, h # hs)
     | None \<Rightarrow> do {
         (m, hs) \<leftarrow> highlighted_at B t p mods hs;
         Some (m, h # hs)
       }
   }"

text \<open>\<^verbatim>\<open>HintsAlphabet\<close>: the characters are one column wide and there are two of them at least.\<close>

definition alphabet_from_config :: "(uchar \<Rightarrow> nat option) \<Rightarrow> ustring \<Rightarrow> ustring option" where
  "alphabet_from_config width s =
     (if list_all (\<lambda>c. width c = Some 1) s then if length s < 2 then None else Some s else None)"

section \<open>Typing a label\<close>

lemma set_sort_matches: "set (sort_matches ms) = set ms"
proof -
  have "set (insert_match m ns) = insert m (set ns)" for m ns by (induction ns) auto
  then show ?thesis by (induction ms) (simp_all add: sort_matches_def)
qed

lemma set_dedup_matches: "set (dedup_matches ms) \<subseteq> set ms"
  by (induction ms rule: dedup_matches.induct) auto

lemma assign_loop:
  "take_labels n g = Some ls \<Longrightarrow> n \<le> length labels \<Longrightarrow>
   \<exists>g'. for_each (rev [0..<n]) (\<lambda>i (labels, generator). do {
       (l, generator) \<leftarrow> labels_next generator;
       labels \<leftarrow> vec_set labels i (rest_of_label keys l);
       Some (labels, generator)
     }) (labels, g) = Some (map (\<lambda>i. rest_of_label keys (ls ! (n - 1 - i))) [0..<n] @ drop n labels, g')"
proof (induction n arbitrary: g ls labels)
  case (Suc n)
  then obtain l g' ls' where l: "labels_next g = Some (l, g')" "take_labels n g' = Some ls'" "ls = l # ls'" by (auto split: bind_splits)
  have "drop n (labels[n := x]) = x # drop (Suc n) labels" for x
    using Suc.prems(2) by (simp add: drop_update_swap Cons_nth_drop_Suc [symmetric])
  moreover have "map (\<lambda>i. rest_of_label keys (ls' ! (n - 1 - i))) [0..<n] = map (\<lambda>i. rest_of_label keys (ls ! (n - i))) [0..<n]"
    by (rule map_cong) (auto simp: l(3) nth_Cons' diff_commute)
  ultimately show ?case using Suc.IH [OF l(2), of "labels[n := rest_of_label keys l]"] Suc.prems(2) l by (auto simp: vec_set_def)
qed auto

lemma assign_labels_nth:
  assumes "hint_labels_new alphabet = Some hl" "take_labels n hl = Some ls"
  shows "assign_labels alphabet keys n = Some (map (\<lambda>i. rest_of_label keys (ls ! (n - 1 - i))) [0..<n])"
  using assign_loop [OF assms(2), of "replicate n []" keys] assms(1) by (auto simp: assign_labels_def)

lemma last_index_Some: "last_index f xs = Some i \<Longrightarrow> i < length xs \<and> f (xs ! i)"
  by (auto simp: last_index_def find_Some_iff rev_nth)

lemma last_index_None: "last_index f xs = None \<longleftrightarrow> (\<forall>i < length xs. \<not> f (xs ! i))"
  by (auto simp: last_index_def find_None_iff)

lemma rest_of_label_prefix: "rest_of_label ks l = (if prefix ks l then drop (length ks) l else [])"
  by (auto simp: rest_of_label_def prefix_def) (metis append_take_drop_id)

lemma rest_starts: "rest_of_label ks l \<noteq> [] \<and> hd (rest_of_label ks l) = ch \<longleftrightarrow> prefix (ks @ [ch]) l"
proof -
  have "prefix (ks @ [ch]) l \<longleftrightarrow> prefix ks l \<and> drop (length ks) l \<noteq> [] \<and> hd (drop (length ks) l) = ch"
    by (auto simp: prefix_def neq_Nil_conv)
  then show ?thesis by (simp add: rest_of_label_prefix)
qed

text \<open>
  The selection in progress: \<open>ks\<close> has been typed. \<open>Q\<close> are the hints that find \<open>found\<close> on the terminal: searching changes the
  cache of a compiled expression and nothing that is found.
\<close>

definition selecting ::
  "(('s, 'e, 'c) hint \<Rightarrow> bool) \<Rightarrow> ustring \<Rightarrow> ustring \<Rightarrow> ('s, 'e, 'c) hint_state \<Rightarrow> bool" where
  "selecting Q alphabet ks hs \<longleftrightarrow> (\<exists>h. hs_hint hs = Some h \<and> Q h) \<and> hs_alphabet hs = alphabet \<and> hs_keys hs = ks"

definition finds ::
  "('s, 'e, 'c, 'b) dfa_builder \<Rightarrow> terminal \<Rightarrow> match_range list \<Rightarrow> (('s, 'e, 'c) hint \<Rightarrow> bool) \<Rightarrow> bool" where
  "finds B t found Q \<longleftrightarrow> (\<forall>h. Q h \<longrightarrow> (\<exists>h'. collect_matches B t h = Some (found, h') \<and> Q h'))"

lemma update_selecting:
  assumes "selecting Q alphabet ks hs" "finds B t found Q" "found \<noteq> []"
    and "hint_labels_new alphabet = Some hl" "take_labels (length (dedup_matches (sort_matches found))) hl = Some ls"
  defines "ms \<equiv> dedup_matches (sort_matches found)"
  shows "\<exists>hs'. update_matches B t hs = Some hs' \<and> selecting Q alphabet ks hs' \<and> hs_matches hs' = ms
    \<and> hs_labels hs' = map (\<lambda>i. rest_of_label ks (ls ! (length ms - 1 - i))) [0..<length ms]"
  using assms(1-3) assign_labels_nth [OF assms(4,5), of ks]
  by (auto simp: selecting_def finds_def update_matches_def ms_def Let_def)

fun type_chars ::
  "('s, 'e, 'c, 'b) dfa_builder \<Rightarrow> terminal \<Rightarrow> ustring \<Rightarrow> ('s, 'e, 'c) hint_state
   \<Rightarrow> (('s, 'e, 'c) hint_match option list \<times> ('s, 'e, 'c) hint_state) option" where
  "type_chars B t [] hs = Some ([], hs)"
| "type_chars B t (ch # chs) hs = do {
     (r, hs) \<leftarrow> keyboard_input B t ch hs;
     (rs, hs) \<leftarrow> type_chars B t chs hs;
     Some (r # rs, hs)
   }"

text \<open>One key: the label it completes is selected, otherwise the key is kept.\<close>

lemma type_key:
  assumes "selecting Q alphabet ks hs" "finds B t found Q" "found \<noteq> []" "\<forall>m \<in> set found. grid_cell_at (t_grid t) (fst m) \<noteq> None"
    and "hint_labels_new alphabet = Some hl" "take_labels n hl = Some ls" "n = length ms" "ms = dedup_matches (sort_matches found)"
    and free: "\<forall>i < n. \<forall>j < n. prefix (ls ! i) (ls ! j) \<longrightarrow> i = j"
    and ch: "ch \<notin> {0x08, 0x1f, 0x1b, 0x03}" and i: "i < n" "prefix (ks @ [ch]) (ls ! (n - 1 - i))"
  shows "\<exists>r hs'. keyboard_input B t ch hs = Some (r, hs')
    \<and> (if ls ! (n - 1 - i) = ks @ [ch] then (\<exists>hm. r = Some hm \<and> hm_bounds hm = ms ! i) \<and> hs_keys hs' = []
       else r = None \<and> selecting Q alphabet (ks @ [ch]) hs')"
proof -
  let ?l = "\<lambda>i. ls ! (n - 1 - i)"
  from update_selecting [OF assms(1-3,5) assms(6) [unfolded assms(7,8)]] obtain hs1 where
    u: "update_matches B t hs = Some hs1" "selecting Q alphabet ks hs1" "hs_matches hs1 = ms" "hs_labels hs1 = map (\<lambda>i. rest_of_label ks (?l i)) [0..<n]"
    using assms(7,8) by auto
  then obtain h where h: "hs_hint hs1 = Some h" "Q h" "hs_alphabet hs1 = alphabet" "hs_keys hs1 = ks" by (auto simp: selecting_def)
  have starts: "(\<lambda>l. l \<noteq> [] \<and> hd l = ch) (hs_labels hs1 ! j) \<longleftrightarrow> prefix (ks @ [ch]) (?l j)" if "j < n" for j
    using that u(4) rest_starts by simp
  have len: "length (hs_labels hs1) = n" using u(4) by simp
  then obtain j where j: "last_index (\<lambda>l. l \<noteq> [] \<and> hd l = ch) (hs_labels hs1) = Some j"
    using starts [OF i(1)] i last_index_None [of "\<lambda>l. l \<noteq> [] \<and> hd l = ch" "hs_labels hs1"] by auto
  then have j': "j < n" "prefix (ks @ [ch]) (?l j)" using last_index_Some [OF j] starts len by auto
  have same: "j = i" if "prefix (?l i) (?l j) \<or> prefix (?l j) (?l i)"
    using that free [rule_format, of "n - 1 - i" "n - 1 - j"] free [rule_format, of "n - 1 - j" "n - 1 - i"] i(1) j'(1) by auto
  have lj: "hs_labels hs1 ! j = drop (length ks) (?l j)" using j' u(4) by (auto simp: rest_of_label_prefix dest: append_prefixD)
  have one: "length (hs_labels hs1 ! j) = 1 \<longleftrightarrow> ?l j = ks @ [ch]" using j'(2) unfolding lj by (auto simp: prefix_def)
  have k: "keyboard_input B t ch hs = select_label t ch h hs1" using ch u(1) h(1) by (simp add: keyboard_input_def)
  show ?thesis
  proof (cases "?l i = ks @ [ch]")
    case True
    then have ji: "j = i" using same j'(2) by simp
    obtain x where "grid_cell_at (t_grid t) (fst (ms ! i)) = Some x"
      using assms(4) i(1) set_dedup_matches set_sort_matches assms(7,8) nth_mem by (metis not_None_eq subset_eq)
    then show ?thesis using True j one ji k u(3) i(1) len assms(7) by (auto simp: select_label_def vec_get_def hint_stop_def Let_def)
  next
    case False
    then have "?l j \<noteq> ks @ [ch]" using same i(2) by metis
    then have "length (hs_labels hs1 ! j) \<noteq> 1" using one by simp
    then show ?thesis using False j k u(2) j'(1) len by (auto simp: select_label_def vec_get_def selecting_def)
  qed
qed

lemma type_label:
  assumes "finds B t found Q" "found \<noteq> []" "\<forall>m \<in> set found. grid_cell_at (t_grid t) (fst m) \<noteq> None"
    and "hint_labels_new alphabet = Some hl" "take_labels n hl = Some ls" "n = length ms" "ms = dedup_matches (sort_matches found)"
    and "\<forall>i < n. \<forall>j < n. prefix (ls ! i) (ls ! j) \<longrightarrow> i = j" "i < n"
  shows "selecting Q alphabet ks hs \<Longrightarrow> ls ! (n - 1 - i) = ks @ rest \<Longrightarrow> rest \<noteq> [] \<Longrightarrow> set rest \<inter> {0x08, 0x1f, 0x1b, 0x03} = {} \<Longrightarrow>
    \<exists>hm hs'. type_chars B t rest hs = Some (replicate (length rest - 1) None @ [Some hm], hs') \<and> hm_bounds hm = ms ! i \<and> hs_keys hs' = []"
proof (induction rest arbitrary: ks hs)
  case (Cons ch rest)
  have "ch \<notin> {0x08, 0x1f, 0x1b, 0x03}" "prefix (ks @ [ch]) (ls ! (n - 1 - i))" using Cons.prems by auto
  from type_key [OF Cons.prems(1) assms(1-8) this(1) assms(9) this(2)] obtain r hs1 where
    r: "keyboard_input B t ch hs = Some (r, hs1)"
    "if rest = [] then (\<exists>hm. r = Some hm \<and> hm_bounds hm = ms ! i) \<and> hs_keys hs1 = [] else r = None \<and> selecting Q alphabet (ks @ [ch]) hs1"
    using Cons.prems(2) by auto
  show ?case
  proof (cases "rest = []")
    case False
    then have r': "r = None" "selecting Q alphabet (ks @ [ch]) hs1" using r(2) by auto
    then obtain hm hs' where "type_chars B t rest hs1 = Some (replicate (length rest - 1) None @ [Some hm], hs')" "hm_bounds hm = ms ! i" "hs_keys hs' = []"
      using Cons.IH [OF r'(2)] Cons.prems False by auto
    then show ?thesis using r(1) r'(1) False by (simp add: Cons_replicate_eq flip: length_greater_0_conv)
  qed (use r in auto)
qed simp

text \<open>
  C34 (functional): hints are selected by their labels. Every match that is shown has a label, and typing the characters of the label, one after the
  other, selects this match with the last of them and nothing before; it does not matter which other
  matches and labels there are. The alphabet has at least two characters, none twice and none that edits the input; the content of the
  terminal does not change while the label is typed.
\<close>

theorem hint_label_selects:
  assumes "distinct alphabet" "2 \<le> length alphabet" "set alphabet \<inter> {0x08, 0x1f, 0x1b, 0x03} = {}"
    and "finds B t found Q" "found \<noteq> []" "\<forall>m \<in> set found. grid_cell_at (t_grid t) (fst m) \<noteq> None"
    and "selecting Q alphabet [] hs"
  shows "\<exists>hs1. update_matches B t hs = Some hs1 \<and> hs_matches hs1 = dedup_matches (sort_matches found) \<and> length (hs_labels hs1) = length (hs_matches hs1)
    \<and> (\<forall>i < length (hs_matches hs1). \<exists>hm hs'. type_chars B t (hs_labels hs1 ! i) hs1 = Some (replicate (length (hs_labels hs1 ! i) - 1) None @ [Some hm], hs')
         \<and> hm_bounds hm = hs_matches hs1 ! i \<and> hs_keys hs' = [])"
proof -
  define ms where "ms = dedup_matches (sort_matches found)"
  obtain hl ls where ls: "hint_labels_new alphabet = Some hl" "take_labels (length ms) hl = Some ls" "length ls = length ms"
    "\<forall>l \<in> set ls. l \<noteq> [] \<and> set l \<subseteq> set alphabet" "\<forall>i < length ms. \<forall>j < length ms. prefix (ls ! i) (ls ! j) \<longrightarrow> i = j"
    using labels_prefix_free [OF assms(1,2), of "length ms"] by blast
  from update_selecting [OF assms(7,4,5) ls(1) ls(2) [unfolded ms_def]] obtain hs1 where
    u: "update_matches B t hs = Some hs1" "selecting Q alphabet [] hs1" "hs_matches hs1 = ms" "hs_labels hs1 = map (\<lambda>i. ls ! (length ms - 1 - i)) [0..<length ms]"
    by (auto simp: ms_def rest_of_label_def)
  have "\<exists>hm hs'. type_chars B t (hs_labels hs1 ! i) hs1 = Some (replicate (length (hs_labels hs1 ! i) - 1) None @ [Some hm], hs') \<and> hm_bounds hm = ms ! i \<and> hs_keys hs' = []"
    if i: "i < length ms" for i
  proof -
    have l: "hs_labels hs1 ! i = ls ! (length ms - 1 - i)" "ls ! (length ms - 1 - i) \<in> set ls" using i u(4) ls(3) by simp_all
    then show ?thesis using type_label [OF assms(4-6) ls(1,2) refl ms_def ls(5) i u(2)] ls(4) assms(3) by fastforce
  qed
  then show ?thesis using u(1,3,4) by (auto simp: ms_def)
qed

section \<open>The cells of a hyperlink\<close>

definition link_at :: "grid \<Rightarrow> int \<Rightarrow> hyperlink option" where
  "link_at g k = cell_hyperlink (snd (indexed g k))"

lemma link_end_ok:
  assumes "grid_ok g" "in_grid (grid_dims g) p" "i = cell_index (grid_dims g) p" "n = cell_count (grid_dims g)"
  shows "\<exists>b r. iter_from g p \<bind> (\<lambda>it. scan g True (link_step h) it p) = Some r \<and> (case r of Inl q \<Rightarrow> q | Inr q \<Rightarrow> q) = point_at (grid_dims g) b
    \<and> i \<le> b \<and> b < n \<and> (\<forall>j. i < j \<and> j \<le> b \<longrightarrow> link_at g j = Some h) \<and> (b = n - 1 \<or> link_at g (b + 1) \<noteq> Some h)"
proof -
  note D = grid_okD(6) [OF assms(1)]
  have i: "0 \<le> i" "i < n" using cell_index_bounds [OF D assms(2)] assms(3,4) by auto
  have p: "point_at (grid_dims g) i = p" using D assms(2,3) by simp
  have run: "iter_from g p \<bind> (\<lambda>it. scan g True (link_step h) it p) = Some (scan_list (link_step h) (map (indexed g) [i + 1..n - 1]) p)"
    using scan_ahead [OF assms(1,2), of True "link_step h" p] by (simp add: ahead_def cells_after_def assms(3,4))
  have f: "\<forall>px s. link_step h px s = (if cell_hyperlink (snd px) \<noteq> Some h then Inl s else Inr (fst px))" by (simp add: link_step_def)
  have fst: "fst (indexed g k) = point_at (grid_dims g) k" for k by (simp add: indexed_def)
  from scan_up_cases [where f = "link_step h" and stop = "\<lambda>px. cell_hyperlink (snd px) \<noteq> Some h" and h = "\<lambda>px s. s" and a = "i + 1" and b = "n - 1" and c = "indexed g" and s = p, OF f]
  show ?thesis
  proof (rule disjE, elim exE conjE)
    fix k assume k: "i + 1 \<le> k" "k \<le> n - 1" "cell_hyperlink (snd (indexed g k)) \<noteq> Some h"
      "\<forall>j. i + 1 \<le> j \<and> j < k \<longrightarrow> \<not> cell_hyperlink (snd (indexed g j)) \<noteq> Some h"
      "scan_list (link_step h) (map (indexed g) [i + 1..n - 1]) p = Inl (if k = i + 1 then p else fst (indexed g (k - 1)))"
    have "(if k = i + 1 then p else fst (indexed g (k - 1))) = point_at (grid_dims g) (k - 1)" using p by (simp add: fst)
    then show ?thesis unfolding run k(5) using k(1-4) by (intro exI [of _ "k - 1"]) (auto simp: link_at_def)
  next
    assume k: "(\<forall>j. i + 1 \<le> j \<and> j \<le> n - 1 \<longrightarrow> \<not> cell_hyperlink (snd (indexed g j)) \<noteq> Some h)
      \<and> scan_list (link_step h) (map (indexed g) [i + 1..n - 1]) p = Inr (if n - 1 < i + 1 then p else fst (indexed g (n - 1)))"
    have "(if n - 1 < i + 1 then p else fst (indexed g (n - 1))) = point_at (grid_dims g) (n - 1)"
    proof (cases "n - 1 < i + 1")
      case True
      then have "i = n - 1" using i by simp
      then show ?thesis using p True by simp
    qed (simp add: fst)
    then show ?thesis using k i unfolding run by (intro exI [of _ "n - 1"]) (auto simp: link_at_def)
  qed
qed

lemma link_start_ok:
  assumes "grid_ok g" "in_grid (grid_dims g) p" "i = cell_index (grid_dims g) p"
  shows "\<exists>a r. iter_from g p \<bind> (\<lambda>it. scan g False (link_step h) it p) = Some r \<and> (case r of Inl q \<Rightarrow> q | Inr q \<Rightarrow> q) = point_at (grid_dims g) a
    \<and> 0 \<le> a \<and> a \<le> i \<and> (\<forall>j. a \<le> j \<and> j < i \<longrightarrow> link_at g j = Some h) \<and> (a = 0 \<or> link_at g (a - 1) \<noteq> Some h)"
proof -
  note D = grid_okD(6) [OF assms(1)]
  have i: "0 \<le> i" using cell_index_bounds [OF D assms(2)] assms(3) by auto
  have p: "point_at (grid_dims g) i = p" using D assms(2,3) by simp
  have run: "iter_from g p \<bind> (\<lambda>it. scan g False (link_step h) it p) = Some (scan_list (link_step h) (map (indexed g) (rev [0..i - 1])) p)"
    using scan_ahead [OF assms(1,2), of False "link_step h" p] by (simp add: ahead_def cells_before_def assms(3))
  have f: "\<forall>px s. link_step h px s = (if cell_hyperlink (snd px) \<noteq> Some h then Inl s else Inr (fst px))" by (simp add: link_step_def)
  have fst: "fst (indexed g k) = point_at (grid_dims g) k" for k by (simp add: indexed_def)
  from scan_down_cases [where f = "link_step h" and stop = "\<lambda>px. cell_hyperlink (snd px) \<noteq> Some h" and h = "\<lambda>px s. s" and a = 0 and b = "i - 1" and c = "indexed g" and s = p, OF f]
  show ?thesis
  proof (rule disjE, elim exE conjE)
    fix k assume k: "0 \<le> k" "k \<le> i - 1" "cell_hyperlink (snd (indexed g k)) \<noteq> Some h"
      "\<forall>j. k < j \<and> j \<le> i - 1 \<longrightarrow> \<not> cell_hyperlink (snd (indexed g j)) \<noteq> Some h"
      "scan_list (link_step h) (map (indexed g) (rev [0..i - 1])) p = Inl (if k = i - 1 then p else fst (indexed g (k + 1)))"
    have "(if k = i - 1 then p else fst (indexed g (k + 1))) = point_at (grid_dims g) (k + 1)" using p by (simp add: fst)
    then show ?thesis unfolding run k(5) using k(1-4) by (intro exI [of _ "k + 1"]) (auto simp: link_at_def)
  next
    assume k: "(\<forall>j. 0 \<le> j \<and> j \<le> i - 1 \<longrightarrow> \<not> cell_hyperlink (snd (indexed g j)) \<noteq> Some h)
      \<and> scan_list (link_step h) (map (indexed g) (rev [0..i - 1])) p = Inr (if i - 1 < 0 then p else fst (indexed g 0))"
    have "(if i - 1 < 0 then p else fst (indexed g 0)) = point_at (grid_dims g) 0"
      using p i by (cases "i = 0") (auto simp: fst)
    then show ?thesis using k i unfolding run by (intro exI [of _ 0]) (auto simp: link_at_def)
  qed
qed

text \<open>
  The hyperlink under a cell is found with exactly its cells: the range around the cell, across lines, in which every cell has
  this hyperlink, up to a cell on either side that has not. A cell without a hyperlink gives none, and nothing panics.
\<close>

theorem hyperlink_at_range:
  assumes "grid_ok (t_grid t)" "in_grid (t_dims t) p"
  shows "\<exists>r. hyperlink_at t p = Some r \<and> (case link_at (t_grid t) (cell_index (t_dims t) p) of
      None \<Rightarrow> r = None
    | Some h \<Rightarrow> \<exists>a b. r = Some (h, point_at (t_dims t) a, point_at (t_dims t) b)
        \<and> 0 \<le> a \<and> a \<le> cell_index (t_dims t) p \<and> cell_index (t_dims t) p \<le> b \<and> b < cell_count (t_dims t)
        \<and> (\<forall>k. a \<le> k \<and> k \<le> b \<longrightarrow> link_at (t_grid t) k = Some h)
        \<and> (a = 0 \<or> link_at (t_grid t) (a - 1) \<noteq> Some h) \<and> (b = cell_count (t_dims t) - 1 \<or> link_at (t_grid t) (b + 1) \<noteq> Some h))"
proof -
  let ?g = "t_grid t" and ?i = "cell_index (t_dims t) p" and ?n = "cell_count (t_dims t)"
  obtain x where x: "grid_cell_at ?g p = Some x" "link_at ?g ?i = cell_hyperlink x"
    using indexed_Some [OF assms] by (auto simp: link_at_def)
  show ?thesis
  proof (cases "cell_hyperlink x")
    case (Some h)
    obtain b r where e: "iter_from ?g p \<bind> (\<lambda>it. scan ?g True (link_step h) it p) = Some r" "(case r of Inl q \<Rightarrow> q | Inr q \<Rightarrow> q) = point_at (t_dims t) b"
      "?i \<le> b" "b < ?n" "\<forall>j. ?i < j \<and> j \<le> b \<longrightarrow> link_at ?g j = Some h" "b = ?n - 1 \<or> link_at ?g (b + 1) \<noteq> Some h"
      using link_end_ok [OF assms refl refl] by blast
    obtain a r' where s: "iter_from ?g p \<bind> (\<lambda>it. scan ?g False (link_step h) it p) = Some r'" "(case r' of Inl q \<Rightarrow> q | Inr q \<Rightarrow> q) = point_at (t_dims t) a"
      "0 \<le> a" "a \<le> ?i" "\<forall>j. a \<le> j \<and> j < ?i \<longrightarrow> link_at ?g j = Some h" "a = 0 \<or> link_at ?g (a - 1) \<noteq> Some h"
      using link_start_ok [OF assms refl] by blast
    have "hyperlink_at t p = Some (Some (h, point_at (t_dims t) a, point_at (t_dims t) b))"
      using x(1) Some e(1,2) s(1,2) by (auto simp: hyperlink_at_def Let_def split: bind_splits)
    moreover have "link_at ?g k = Some h" if "a \<le> k" "k \<le> b" for k
      using that e(5) s(5) x(2) Some by (cases k ?i rule: linorder_cases) auto
    ultimately show ?thesis using x(2) Some e(3,4,6) s(3,4,6) by auto
  qed (use x in \<open>simp add: hyperlink_at_def\<close>)
qed

section \<open>Post-processing at the end of the grid\<close>

definition last_point :: "dimensions \<Rightarrow> point" where
  "last_point d = point_at d (cell_count d - 1)"

lemma add_last_point:
  assumes "dims_ok d"
  shows "point_add d Boundary_Grid 1 (last_point d) = Some (last_point d)"
proof -
  have n: "0 < cell_count d" using assms by (auto simp: dims_ok_def cell_count_def)
  obtain q where q: "point_add d Boundary_Grid 1 (last_point d) = Some q" "within d Boundary_Grid q" "cell_index d q = cell_count d - 1"
    using point_add_index(1) [OF assms, of 1 "last_point d"] point_add_within [OF assms, of Boundary_Grid 1 "last_point d"] n assms
    by (auto simp: last_point_def elim!: okE)
  then have "in_grid d q" by simp
  then show ?thesis using q(1,3) point_at_index [OF assms] by (metis last_point_def)
qed

text \<open>The expression matches the last cell alone; the predicate are the states of the compiled expression.\<close>

definition matches_last :: "terminal \<Rightarrow> (('s, 'e, 'c) regex_search \<Rightarrow> bool) \<Rightarrow> bool" where
  "matches_last t P \<longleftrightarrow> (\<forall>re. P re \<longrightarrow> (\<exists>re'. regex_search_right t re (last_point (t_dims t)) (last_point (t_dims t))
     = Some (Some (last_point (t_dims t), last_point (t_dims t)), re') \<and> P re'))"

lemma process_last:
  assumes "grid_ok (t_grid t)" "grid_cell_at (t_grid t) (last_point (t_dims t)) = Some x" "cell_c x \<notin> {41, 93}"
  shows "hint_post_processing t (last_point (t_dims t), last_point (t_dims t)) = Some (Some (last_point (t_dims t), last_point (t_dims t)))"
  using assms by (simp add: hint_post_processing_def iter_from_ok cut_brackets.simps cut_delimiters.simps Let_def)

definition at_last :: "terminal \<Rightarrow> (('s, 'e, 'c) regex_search \<Rightarrow> bool) \<Rightarrow> ('s, 'e, 'c) post_processor \<Rightarrow> bool" where
  "at_last t P pp \<longleftrightarrow> next_match pp \<noteq> None \<and> pp_start pp = last_point (t_dims t) \<and> pp_end pp = last_point (t_dims t) \<and> P (pp_regex pp)"

lemma at_last_next:
  assumes "grid_ok (t_grid t)" "grid_cell_at (t_grid t) (last_point (t_dims t)) = Some x" "cell_c x \<notin> {41, 93}"
    and "matches_last t P" "at_last t P pp"
  shows "\<exists>nm pp'. post_processor_next t pp = Some (Some nm, pp') \<and> at_last t P pp'"
proof -
  let ?l = "last_point (t_dims t)"
  obtain nm where nm: "next_match pp = Some nm" using assms(5) by (auto simp: at_last_def)
  obtain re where re: "regex_search_right t (pp_regex pp) ?l ?l = Some (Some (?l, ?l), re)" "P re"
    using assms(4,5) by (auto simp: matches_last_def at_last_def)
  have "next_processed_match t (?l, ?l) pp' = Some (pp'\<lparr>pp_start := ?l, next_match := Some (?l, ?l)\<rparr>)" for pp' :: "('a, 'b, 'c) post_processor"
    using process_last [OF assms(1-3)] add_last_point [OF grid_okD(6) [OF assms(1)]] by (simp add: next_processed_match.simps)
  then show ?thesis using nm re assms(5) by (simp add: post_processor_next_def at_last_def)
qed

lemma collect_at_last:
  assumes "grid_ok (t_grid t)" "grid_cell_at (t_grid t) (last_point (t_dims t)) = Some x" "cell_c x \<notin> {41, 93}"
    and "matches_last t P" "at_last t P pp"
  shows "collect_processed t pp = None"
proof (rule ccontr)
  assume "collect_processed t pp \<noteq> None"
  then obtain y where y: "collect_processed t pp = Some y" by blast
  have "t' = t \<longrightarrow> \<not> at_last t P pp'" if "collect_processed t' pp' = Some y'" for t' pp' y'
  proof (rule collect_processed.raw_induct [OF _ that])
    fix loop t' pp' y'
    assume IH: "\<And>t' pp' y'. loop t' pp' = Some y' \<Longrightarrow> t' = t \<longrightarrow> \<not> at_last t P pp'"
      and step: "Option.bind (post_processor_next t' pp') (\<lambda>(m, pp). case m of None \<Rightarrow> Some ([], pp_regex pp)
        | Some rm \<Rightarrow> Option.bind (loop t' pp) (\<lambda>(ms, re). Some (rm # ms, re))) = Some y'"
    have False if eq: "t' = t" and l: "at_last t P pp'"
    proof -
      obtain nm pp1 where n: "post_processor_next t pp' = Some (Some nm, pp1)" "at_last t P pp1" using at_last_next [OF assms(1-4) l] by blast
      then have "loop t pp1 \<noteq> None" using step eq by (auto split: bind_splits)
      then show False using IH [of t pp1] n(2) by blast
    qed
    then show "t' = t \<longrightarrow> \<not> at_last t P pp'" by blast
  qed
  then show False using y assms(5) by blast
qed


text \<open>
  The configuration accepts an alphabet with a repeated character; its labels are then prefixes of each other.
\<close>

lemma repeated_alphabet:
  "alphabet_from_config (\<lambda>_. Some 1) [97, 97] = Some [97, 97]" "(hint_labels_new [97, 97] \<bind> take_labels 2) = Some [[97 :: uchar], [97, 97]]"
  by code_simp+

section \<open>Witnesses\<close>

declare find_unique.simps [code] follow_link.simps [code] unique_hyperlinks.simps [code] cut_brackets.simps [code]
  cut_delimiters.simps [code] search_loop.simps [code]

text \<open>Two hyperlinks on a screen, the first one across the end of a line.\<close>

definition demo_link :: "string \<Rightarrow> cell" where
  "demo_link uri = set_cell_hyperlink (Some \<lparr>link_id = ''1'', link_uri = uri\<rparr>) (cell_default\<lparr>cell_c := 97\<rparr>)"

definition demo_links_grid :: grid where
  "demo_links_grid = demo_screen \<lparr>row_inner = [cell_default, cell_default, demo_link ''a'', demo_link ''a''], occ = 4\<rparr>
     \<lparr>row_inner = [demo_link ''a'', cell_default, demo_link ''b'', demo_link ''b''], occ = 4\<rparr>"

definition demo_links :: terminal where
  "demo_links = demo_term\<lparr>t_grid := demo_links_grid\<rparr>"

lemma demo_links_sel: "t_grid demo_links = demo_links_grid"
  by (simp add: demo_links_def)

lemma demo_links_ok: "grid_ok (t_grid demo_links)"
  using grid_inv_def [of False "t_grid demo_links"] unfolding demo_links_sel by simp code_simp

definition demo_hint :: "(unit, unit, unit) hint" where
  "demo_hint = \<lparr>hint_regex = None, hint_hyperlinks = True, h_action = Hint_Internal Hint_Copy, post_processing = False, persist = False, hint_mouse = None\<rparr>"

lemma demo_links_found: "visible_unique_hyperlinks demo_links = Some [(Point 0 2, Point 1 0), (Point 1 2, Point 1 3)]"
  unfolding visible_unique_hyperlinks_def demo_links_sel by code_simp

lemma demo_finds: "finds B demo_links [(Point 0 2, Point 1 0), (Point 1 2, Point 1 3)] (\<lambda>h. h = demo_hint)"
  by (simp add: finds_def collect_matches_def demo_hint_def demo_links_found)

theorem hint_label_selects_witness:
  "\<exists>hs1. update_matches (undefined :: (unit, unit, unit, unit) dfa_builder) demo_links (hint_start demo_hint (hint_state_new [106, 102])) = Some hs1
    \<and> length (hs_matches hs1) = 2 \<and> (\<forall>i < 2. \<exists>hm hs'. type_chars (undefined :: (unit, unit, unit, unit) dfa_builder) demo_links (hs_labels hs1 ! i) hs1
         = Some (replicate (length (hs_labels hs1 ! i) - 1) None @ [Some hm], hs') \<and> hm_bounds hm = hs_matches hs1 ! i)"
proof -
  have cells: "\<forall>m \<in> set [(Point 0 2, Point 1 0), (Point 1 2, Point 1 3)]. grid_cell_at (t_grid demo_links) (fst m) \<noteq> None"
    unfolding demo_links_sel by code_simp
  have s: "selecting (\<lambda>h. h = demo_hint) [106, 102] [] (hint_start demo_hint (hint_state_new [106, 102]))"
    by (simp add: selecting_def hint_start_def hint_state_new_def)
  have n: "length (dedup_matches (sort_matches [(Point 0 2, Point 1 0), (Point 1 2, Point 1 3)])) = 2" by code_simp
  show ?thesis
    using hint_label_selects [OF _ _ _ demo_finds _ cells s, of "undefined :: (unit, unit, unit, unit) dfa_builder"] n by fastforce
qed

theorem hyperlink_at_range_witness:
  "\<exists>r. hyperlink_at demo_links (Point 0 3) = Some r \<and> r \<noteq> None"
proof -
  have g: "in_grid (t_dims demo_links) (Point 0 3)" "link_at (t_grid demo_links) (cell_index (t_dims demo_links) (Point 0 3)) = Some \<lparr>link_id = ''1'', link_uri = ''a''\<rparr>"
    unfolding demo_links_sel by code_simp+
  show ?thesis using hyperlink_at_range [OF demo_links_ok g(1)] unfolding g(2) by auto
qed

text \<open>An expression that matches everything.\<close>

definition any_dfa :: "(unit, unit, unit) dfa" where
  "any_dfa = void_dfa\<lparr>is_match := \<lambda>_. True\<rparr>"

definition any_lazy :: "direction \<Rightarrow> (unit, unit, unit) lazy_dfa" where
  "any_lazy dir = \<lparr>ldfa = any_dfa, ldfa_cache = (), ldfa_direction = dir, match_all = False\<rparr>"

definition any_search :: "(unit, unit, unit) regex_search" where
  "any_search = \<lparr>left_fdfa = any_lazy Left, left_rdfa = any_lazy Right, right_rdfa = any_lazy Left, right_fdfa = any_lazy Right\<rparr>"

lemma no_cache_kept: "term_regex_search t p q r = Some (m, r') \<Longrightarrow> r' = (r :: (unit, unit, unit) lazy_dfa)"
  by (cases r) (auto simp: term_regex_search_def regex_search_internal_def split: bind_splits prod.splits sum.splits)


end
