(* ===== verification/Display_Color.thy ===== *)
theory Display_Color
  imports Term_State
begin

text \<open>
  Colours of the display (\<^verbatim>\<open>src/alacritty/src/display/color.rs\<close>, \<^verbatim>\<open>config/color.rs\<close>).

  The configuration of colours, the table of all colours that is computed from it, colours that refer to the
  colours of a cell, and the hexadecimal notation. Strings are lists of bytes here. The product of a colour and a
  number, an operation of the crate \<^verbatim>\<open>vte\<close>, is a parameter. Shown are the entries of the table and that
  colours are read as they were written.
\<close>

section \<open>The configuration of colours\<close>

definition rgb_new :: "8 word \<Rightarrow> 8 word \<Rightarrow> 8 word \<Rightarrow> rgb" where
  "rgb_new r g b = \<lparr>red = r, green = g, blue = b\<rparr>"

datatype cell_rgb = CellForeground | CellBackground | CellRgb rgb

definition cell_color :: "cell_rgb \<Rightarrow> rgb \<Rightarrow> rgb \<Rightarrow> rgb" where
  "cell_color c foreground background = (case c of CellForeground \<Rightarrow> foreground | CellBackground \<Rightarrow> background | CellRgb rgb \<Rightarrow> rgb)"

record cell_colors =
  cc_foreground :: cell_rgb
  cc_background :: cell_rgb

record ansi_colors =
  ac_black :: rgb
  ac_red :: rgb
  ac_green :: rgb
  ac_yellow :: rgb
  ac_blue :: rgb
  ac_magenta :: rgb
  ac_cyan :: rgb
  ac_white :: rgb

record primary_colors =
  pc_foreground :: rgb
  pc_background :: rgb
  bright_foreground :: "rgb option"
  dim_foreground :: "rgb option"

record indexed_color =
  ic_color :: rgb
  ic_index :: "8 word"

record bar_colors =
  bar_foreground :: "rgb option"
  bar_background :: "rgb option"

record colors =
  c_primary :: primary_colors
  c_cursor :: cell_colors
  c_vi_mode_cursor :: cell_colors
  c_selection :: cell_colors
  c_normal :: ansi_colors
  c_bright :: ansi_colors
  c_dim :: "ansi_colors option"
  c_indexed :: "indexed_color list"
  c_focused_match :: cell_colors
  c_matches :: cell_colors
  c_line_indicator :: bar_colors
  c_hint_start :: cell_colors
  c_hint_end :: cell_colors
  transparent_background_colors :: bool
  draw_bold_text_with_bright_colors :: bool
  c_footer_bar :: bar_colors

definition footer_bar_foreground :: "colors \<Rightarrow> rgb" where
  "footer_bar_foreground c = (case bar_foreground (c_footer_bar c) of None \<Rightarrow> pc_background (c_primary c) | Some x \<Rightarrow> x)"

definition footer_bar_background :: "colors \<Rightarrow> rgb" where
  "footer_bar_background c = (case bar_background (c_footer_bar c) of None \<Rightarrow> pc_foreground (c_primary c) | Some x \<Rightarrow> x)"

definition hint_start_default :: cell_colors where
  "hint_start_default = \<lparr>cc_foreground = CellRgb (rgb_new 0x18 0x18 0x18), cc_background = CellRgb (rgb_new 0xf4 0xbf 0x75)\<rparr>"

definition hint_end_default :: cell_colors where
  "hint_end_default = \<lparr>cc_foreground = CellRgb (rgb_new 0x18 0x18 0x18), cc_background = CellRgb (rgb_new 0xac 0x42 0x42)\<rparr>"

definition inverted_cell_default :: cell_colors where
  "inverted_cell_default = \<lparr>cc_foreground = CellBackground, cc_background = CellForeground\<rparr>"

definition focused_match_default :: cell_colors where
  "focused_match_default = \<lparr>cc_foreground = CellRgb (rgb_new 0x18 0x18 0x18), cc_background = CellRgb (rgb_new 0xf4 0xbf 0x75)\<rparr>"

definition match_default :: cell_colors where
  "match_default = \<lparr>cc_foreground = CellRgb (rgb_new 0x18 0x18 0x18), cc_background = CellRgb (rgb_new 0xac 0x42 0x42)\<rparr>"

definition primary_default :: primary_colors where
  "primary_default = \<lparr>pc_foreground = rgb_new 0xd8 0xd8 0xd8, pc_background = rgb_new 0x18 0x18 0x18,
     bright_foreground = None, dim_foreground = None\<rparr>"

definition normal_default :: ansi_colors where
  "normal_default = \<lparr>ac_black = rgb_new 0x18 0x18 0x18, ac_red = rgb_new 0xac 0x42 0x42, ac_green = rgb_new 0x90 0xa9 0x59,
     ac_yellow = rgb_new 0xf4 0xbf 0x75, ac_blue = rgb_new 0x6a 0x9f 0xb5, ac_magenta = rgb_new 0xaa 0x75 0x9f,
     ac_cyan = rgb_new 0x75 0xb5 0xaa, ac_white = rgb_new 0xd8 0xd8 0xd8\<rparr>"

definition bright_default :: ansi_colors where
  "bright_default = \<lparr>ac_black = rgb_new 0x6b 0x6b 0x6b, ac_red = rgb_new 0xc5 0x55 0x55, ac_green = rgb_new 0xaa 0xc4 0x74,
     ac_yellow = rgb_new 0xfe 0xca 0x88, ac_blue = rgb_new 0x82 0xb8 0xc8, ac_magenta = rgb_new 0xc2 0x8c 0xb8,
     ac_cyan = rgb_new 0x93 0xd3 0xc3, ac_white = rgb_new 0xf8 0xf8 0xf8\<rparr>"

definition dim_default :: ansi_colors where
  "dim_default = \<lparr>ac_black = rgb_new 0x0f 0x0f 0x0f, ac_red = rgb_new 0x71 0x2b 0x2b, ac_green = rgb_new 0x5f 0x6f 0x3a,
     ac_yellow = rgb_new 0xa1 0x7e 0x4d, ac_blue = rgb_new 0x45 0x68 0x77, ac_magenta = rgb_new 0x70 0x4d 0x68,
     ac_cyan = rgb_new 0x4d 0x77 0x70, ac_white = rgb_new 0x8e 0x8e 0x8e\<rparr>"

definition colors_config_default :: colors where
  "colors_config_default = \<lparr>c_primary = primary_default, c_cursor = inverted_cell_default, c_vi_mode_cursor = inverted_cell_default,
     c_selection = inverted_cell_default, c_normal = normal_default, c_bright = bright_default, c_dim = None, c_indexed = [],
     c_focused_match = focused_match_default, c_matches = match_default,
     c_line_indicator = \<lparr>bar_foreground = None, bar_background = None\<rparr>, c_hint_start = hint_start_default, c_hint_end = hint_end_default,
     transparent_background_colors = False, draw_bold_text_with_bright_colors = False,
     c_footer_bar = \<lparr>bar_foreground = None, bar_background = None\<rparr>\<rparr>"

section \<open>The table of colours\<close>

text \<open>The indices of named colours, as the table in \<^verbatim>\<open>term/color.rs\<close> gives them.\<close>

definition named_index :: "named_color \<Rightarrow> nat" where
  "named_index n = (case n of Foreground \<Rightarrow> 256 | Background \<Rightarrow> 257 | Cursor_Color \<Rightarrow> 258 | Other_Named i \<Rightarrow> i)"

definition DIM_BLACK :: nat where "DIM_BLACK = 259"
definition BRIGHT_FOREGROUND :: nat where "BRIGHT_FOREGROUND = 267"
definition DIM_FOREGROUND :: nat where "DIM_FOREGROUND = 268"

definition ansi_list :: "ansi_colors \<Rightarrow> rgb list" where
  "ansi_list c = [ac_black c, ac_red c, ac_green c, ac_yellow c, ac_blue c, ac_magenta c, ac_cyan c, ac_white c]"

text \<open>Eight assignments to consecutive entries.\<close>

definition fill_ansi :: "nat \<Rightarrow> rgb list \<Rightarrow> rgb list \<Rightarrow> rgb list option" where
  "fill_ansi start cs list = for_each [0..<8] (\<lambda>i list. do { c \<leftarrow> vec_get cs i; vec_set list (start + i) c }) list"

definition fill_named :: "(rgb \<Rightarrow> rgb) \<Rightarrow> colors \<Rightarrow> rgb list \<Rightarrow> rgb list option" where
  "fill_named dim c list = do {
     list \<leftarrow> fill_ansi 0 (ansi_list (c_normal c)) list;
     list \<leftarrow> fill_ansi 8 (ansi_list (c_bright c)) list;
     list \<leftarrow> vec_set list BRIGHT_FOREGROUND (case bright_foreground (c_primary c) of Some x \<Rightarrow> x | None \<Rightarrow> pc_foreground (c_primary c));
     list \<leftarrow> vec_set list (named_index Foreground) (pc_foreground (c_primary c));
     list \<leftarrow> vec_set list (named_index Background) (pc_background (c_primary c));
     list \<leftarrow> vec_set list DIM_FOREGROUND (case dim_foreground (c_primary c) of Some x \<Rightarrow> x | None \<Rightarrow> dim (pc_foreground (c_primary c)));
     case c_dim c of
       Some d \<Rightarrow> fill_ansi DIM_BLACK (ansi_list d) list
     | None \<Rightarrow> fill_ansi DIM_BLACK (map dim (ansi_list (c_normal c))) list
   }"

definition cube_value :: "nat \<Rightarrow> 8 word" where
  "cube_value x = (if x = 0 then 0 else of_nat x * 40 + 55)"

definition fill_cube :: "colors \<Rightarrow> rgb list \<Rightarrow> rgb list option" where
  "fill_cube c list = do {
     (list, index) \<leftarrow> for_each [(r, g, b). r \<leftarrow> [0..<6], g \<leftarrow> [0..<6], b \<leftarrow> [0..<6]] (\<lambda>(r, g, b) (list, index). do {
       list \<leftarrow> (case find (\<lambda>ic. ic_index ic = of_nat index) (c_indexed c) of
         Some ic \<Rightarrow> vec_set list index (ic_color ic)
       | None \<Rightarrow> vec_set list index (rgb_new (cube_value r) (cube_value g) (cube_value b)));
       Some (list, index + 1)
     }) (list, 16);
     ensure (index = 232);
     Some list
   }"

definition fill_gray_ramp :: "colors \<Rightarrow> rgb list \<Rightarrow> rgb list option" where
  "fill_gray_ramp c list = do {
     (list, index) \<leftarrow> for_each [0..<24] (\<lambda>i (list, index). do {
       let color_index = (16 + 216 + of_nat i :: 8 word);
       list \<leftarrow> (case find (\<lambda>ic. ic_index ic = color_index) (c_indexed c) of
         Some ic \<Rightarrow> vec_set list index (ic_color ic)
       | None \<Rightarrow> let value = of_nat i * 10 + 8 in vec_set list index (rgb_new value value value));
       Some (list, index + 1)
     }) (list, 232);
     ensure (index = 256);
     Some list
   }"

definition color_list :: "(rgb \<Rightarrow> rgb) \<Rightarrow> colors \<Rightarrow> rgb list option" where
  "color_list dim c = do {
     let list = replicate COLOR_COUNT (rgb_new 0 0 0);
     list \<leftarrow> fill_named dim c list;
     list \<leftarrow> fill_cube c list;
     fill_gray_ramp c list
   }"

section \<open>Hexadecimal notation\<close>

definition hex_char :: "nat \<Rightarrow> char" where
  "hex_char n = (if n < 10 then char_of (48 + n) else char_of (87 + n))"

definition hex2 :: "8 word \<Rightarrow> string" where
  "hex2 w = [hex_char (unat w div 16), hex_char (unat w mod 16)]"

definition rgb_to_string :: "rgb \<Rightarrow> string" where
  "rgb_to_string c = CHR ''#'' # hex2 (red c) @ hex2 (green c) @ hex2 (blue c)"

definition hex_digit :: "char \<Rightarrow> nat option" where
  "hex_digit ch = (let n = of_char ch :: nat in
     if 48 \<le> n \<and> n \<le> 57 then Some (n - 48)
     else if 97 \<le> n \<and> n \<le> 102 then Some (n - 87)
     else if 65 \<le> n \<and> n \<le> 70 then Some (n - 55)
     else None)"

text \<open>\<^verbatim>\<open>u32::from_str_radix(_, 16)\<close>: a plus sign may stand before the digits, and there has to be a digit.\<close>

fun hex_number :: "nat \<Rightarrow> string \<Rightarrow> nat option" where
  "hex_number acc [] = Some acc"
| "hex_number acc (ch # cs) = (case hex_digit ch of None \<Rightarrow> None
     | Some d \<Rightarrow> if acc * 16 + d < 2 ^ 32 then hex_number (acc * 16 + d) cs else None)"

definition from_str_radix_16 :: "string \<Rightarrow> nat option" where
  "from_str_radix_16 s = (let digits = (if s \<noteq> [] \<and> hd s = CHR ''+'' then tl s else s) in
     if digits = [] then None else hex_number 0 digits)"

definition rgb_from_str :: "string \<Rightarrow> rgb option" where
  "rgb_from_str s =
     (case (if take 2 s = ''0x'' \<and> length s = 8 then Some (drop 2 s)
            else if take 1 s = ''#'' \<and> length s = 7 then Some (drop 1 s)
            else None) of
        None \<Rightarrow> None
      | Some chars \<Rightarrow>
          (case from_str_radix_16 chars of
             None \<Rightarrow> None
           | Some color \<Rightarrow>
               let b = of_nat color; color = color div 256; g = of_nat color; color = color div 256; r = of_nat color
               in Some (rgb_new r g b)))"

definition cell_rgb_from_str :: "string \<Rightarrow> cell_rgb option" where
  "cell_rgb_from_str s =
     (if s = ''CellForeground'' then Some CellForeground else if s = ''CellBackground'' then Some CellBackground
      else map_option CellRgb (rgb_from_str s))"

section \<open>Entries of the table\<close>

lemma upt_prefix: "[0..<n] = ys @ x # zs \<Longrightarrow> x = length ys \<and> length ys < n"
  by (metis add_0 diff_zero length_append length_upt less_add_same_cancel1 list.size(4) nth_append_length nth_upt add_Suc_right zero_less_Suc)

lemma fill_ansi_list:
  assumes "length cs = 8" "start + 8 \<le> length list"
  shows "ok (fill_ansi start cs list) (\<lambda>l. length l = length list \<and> (\<forall>i. l ! i = (if start \<le> i \<and> i < start + 8 then cs ! (i - start) else list ! i)))"
proof -
  let ?I = "\<lambda>ys l. length l = length list \<and> (\<forall>i. l ! i = (if start \<le> i \<and> i < start + length ys then cs ! (i - start) else list ! i))"
  have "ok (for_each [0..<8] (\<lambda>i list. do { c \<leftarrow> vec_get cs i; vec_set list (start + i) c }) list) (?I [0..<8])"
  proof (rule ok_for_each)
    fix ys x zs l
    assume "[0..<8] = ys @ x # zs" and I: "?I ys l"
    then show "ok (vec_get cs x \<bind> vec_set l (start + x)) (?I (ys @ [x]))"
      using I assms upt_prefix by (fastforce simp: vec_get_def nth_list_update)
  qed auto
  then show ?thesis by (simp add: fill_ansi_def)
qed

text \<open>A loop that writes to consecutive entries.\<close>

lemma fill_consecutive:
  assumes "start + length xs \<le> length list"
  shows "ok (for_each xs (\<lambda>x (l, i). do { l \<leftarrow> vec_set l i (f x i); Some (l, i + 1) }) (list, start))
    (\<lambda>(l, i). i = start + length xs \<and> length l = length list
       \<and> (\<forall>i. l ! i = (if start \<le> i \<and> i < start + length xs then f (xs ! (i - start)) i else list ! i)))"
proof -
  let ?I = "\<lambda>ys (l, i). i = start + length ys \<and> length l = length list
       \<and> (\<forall>i. l ! i = (if start \<le> i \<and> i < start + length ys then f (xs ! (i - start)) i else list ! i))"
  show ?thesis
  proof (rule ok_for_each [where I = ?I])
    fix ys x zs s
    assume "xs = ys @ x # zs" "?I ys s"
    then show "ok ((\<lambda>(l, i). do { l \<leftarrow> vec_set l i (f x i); Some (l, i + 1) }) s) (?I (ys @ [x]))"
      using assms by (cases s) (auto simp: nth_list_update nth_append)
  qed auto
qed

lemma case_vec_set: "(case x of None \<Rightarrow> vec_set l i a | Some y \<Rightarrow> vec_set l i (g y)) = vec_set l i (case x of None \<Rightarrow> a | Some y \<Rightarrow> g y)"
  by (cases x) simp_all

definition cube_color :: "nat \<Rightarrow> rgb" where
  "cube_color k = rgb_new (cube_value (k div 36)) (cube_value (k div 6 mod 6)) (cube_value (k mod 6))"

definition gray_color :: "nat \<Rightarrow> rgb" where
  "gray_color k = (let value = of_nat k * 10 + 8 in rgb_new value value value)"

definition override :: "colors \<Rightarrow> nat \<Rightarrow> rgb \<Rightarrow> rgb" where
  "override c i x = (case find (\<lambda>ic. ic_index ic = of_nat i) (c_indexed c) of None \<Rightarrow> x | Some ic \<Rightarrow> ic_color ic)"

lemma cube_indices:
  "[(r, g, b). r \<leftarrow> [0..<6], g \<leftarrow> [0..<6], b \<leftarrow> [0..<6]] = map (\<lambda>k. (k div 36, k div 6 mod 6, k mod 6)) [0..<216]"
  by code_simp

lemma fill_cube_list:
  assumes "232 \<le> length list"
  shows "ok (fill_cube c list) (\<lambda>l. length l = length list \<and> (\<forall>i. l ! i = (if 16 \<le> i \<and> i < 232 then override c i (cube_color (i - 16)) else list ! i)))"
proof -
  let ?f = "\<lambda>(r, g, b) i. override c i (rgb_new (cube_value r) (cube_value g) (cube_value b))"
  have "ok (for_each (map (\<lambda>k. (k div 36, k div 6 mod 6, k mod 6)) [0..<216]) (\<lambda>x (l, i). do { l \<leftarrow> vec_set l i (?f x i); Some (l, i + 1) }) (list, 16))
    (\<lambda>(l, i). i = 232 \<and> length l = length list \<and> (\<forall>i. l ! i = (if 16 \<le> i \<and> i < 232 then override c i (cube_color (i - 16)) else list ! i)))"
    using fill_consecutive [of 16 "map (\<lambda>k. (k div 36, k div 6 mod 6, k mod 6)) [0..<216]" list ?f] assms
    by (auto simp: cube_color_def elim!: ok_mono)
  then show ?thesis unfolding fill_cube_def cube_indices case_vec_set override_def
    by (auto simp: case_prod_unfold ensure_def elim!: okE)
qed

lemma fill_gray_list:
  assumes "256 \<le> length list"
  shows "ok (fill_gray_ramp c list) (\<lambda>l. length l = length list \<and> (\<forall>i. l ! i = (if 232 \<le> i \<and> i < 256 then override c i (gray_color (i - 232)) else list ! i)))"
proof -
  let ?f = "\<lambda>k i. case find (\<lambda>ic. ic_index ic = 232 + of_nat k) (c_indexed c) of None \<Rightarrow> gray_color k | Some ic \<Rightarrow> ic_color ic"
  have f: "?f ([0..<24] ! (i - 232)) i = override c i (gray_color (i - 232))" if "232 \<le> i" "i < 256" for i
  proof -
    have "[0..<24] ! (i - 232) = i - 232" using that by (subst nth_upt) auto
    then show ?thesis using that unfolding override_def by (simp only: of_nat_diff) simp
  qed
  have "ok (for_each [0..<24] (\<lambda>x (l, i). do { l \<leftarrow> vec_set l i (?f x i); Some (l, i + 1) }) (list, 232))
    (\<lambda>(l, i). i = 256 \<and> length l = length list \<and> (\<forall>i. l ! i = (if 232 \<le> i \<and> i < 256 then override c i (gray_color (i - 232)) else list ! i)))"
    using fill_consecutive [of 232 "[0..<24]" list ?f] assms f by (auto elim!: ok_mono)
  then show ?thesis unfolding fill_gray_ramp_def gray_color_def Let_def case_vec_set
    by (auto simp: case_prod_unfold ensure_def elim!: okE)
qed

lemma length_ansi_list [simp]: "length (ansi_list c) = 8"
  by (simp add: ansi_list_def)

lemma fill_named_list:
  assumes "length list = COLOR_COUNT"
  shows "ok (fill_named dim c list) (\<lambda>l. length l = COLOR_COUNT
    \<and> (\<forall>i < 8. l ! i = ansi_list (c_normal c) ! i \<and> l ! (8 + i) = ansi_list (c_bright c) ! i
         \<and> l ! (259 + i) = (case c_dim c of None \<Rightarrow> dim (ansi_list (c_normal c) ! i) | Some d \<Rightarrow> ansi_list d ! i))
    \<and> l ! 256 = pc_foreground (c_primary c) \<and> l ! 257 = pc_background (c_primary c) \<and> l ! 258 = list ! 258
    \<and> l ! 267 = (case bright_foreground (c_primary c) of None \<Rightarrow> pc_foreground (c_primary c) | Some x \<Rightarrow> x)
    \<and> l ! 268 = (case dim_foreground (c_primary c) of None \<Rightarrow> dim (pc_foreground (c_primary c)) | Some x \<Rightarrow> x))"
proof -
  obtain a where a: "fill_ansi 0 (ansi_list (c_normal c)) list = Some a" "length a = length list"
    "\<And>i. a ! i = (if i < 8 then ansi_list (c_normal c) ! i else list ! i)"
    using fill_ansi_list [of "ansi_list (c_normal c)" 0 list] assms by (auto simp: COLOR_COUNT_def elim!: okE)
  obtain b where b: "fill_ansi 8 (ansi_list (c_bright c)) a = Some b" "length b = length list"
    "\<And>i. b ! i = (if 8 \<le> i \<and> i < 16 then ansi_list (c_bright c) ! (i - 8) else a ! i)"
    using fill_ansi_list [of "ansi_list (c_bright c)" 8 a] assms a(2) by (auto simp: COLOR_COUNT_def elim!: okE)
  let ?d = "case c_dim c of Some d \<Rightarrow> ansi_list d | None \<Rightarrow> map dim (ansi_list (c_normal c))"
  have last: "(case c_dim c of Some d \<Rightarrow> fill_ansi DIM_BLACK (ansi_list d) l | None \<Rightarrow> fill_ansi DIM_BLACK (map dim (ansi_list (c_normal c))) l)
    = fill_ansi DIM_BLACK ?d l" for l by (cases "c_dim c") simp_all
  have d8: "length ?d = 8" by (cases "c_dim c") simp_all
  define l0 where "l0 = b[BRIGHT_FOREGROUND := (case bright_foreground (c_primary c) of Some x \<Rightarrow> x | None \<Rightarrow> pc_foreground (c_primary c)),
      named_index Foreground := pc_foreground (c_primary c), named_index Background := pc_background (c_primary c),
      DIM_FOREGROUND := (case dim_foreground (c_primary c) of Some x \<Rightarrow> x | None \<Rightarrow> dim (pc_foreground (c_primary c)))]"
  have l0: "length l0 = 269" using b(2) assms by (simp add: l0_def COLOR_COUNT_def)
  have "fill_named dim c list = fill_ansi DIM_BLACK ?d l0"
    using a(1) b(1,2) assms unfolding fill_named_def last l0_def
    by (simp add: vec_set_def COLOR_COUNT_def named_index_def BRIGHT_FOREGROUND_def DIM_FOREGROUND_def)
  moreover have "ok (fill_ansi DIM_BLACK ?d l0) (\<lambda>l. length l = COLOR_COUNT \<and> (\<forall>i. l ! i = (if 259 \<le> i \<and> i < 267 then ?d ! (i - 259) else l0 ! i)))"
    using fill_ansi_list [OF d8, of DIM_BLACK l0] l0 unfolding DIM_BLACK_def COLOR_COUNT_def by simp
  moreover have "?d ! i = (case c_dim c of None \<Rightarrow> dim (ansi_list (c_normal c) ! i) | Some d \<Rightarrow> ansi_list d ! i)" if "i < 8" for i
    using that by (cases "c_dim c") simp_all
  ultimately show ?thesis using b(2) assms
    by (auto simp: l0_def COLOR_COUNT_def named_index_def BRIGHT_FOREGROUND_def DIM_FOREGROUND_def nth_list_update b(3) a(3) elim!: ok_mono)
qed

text \<open>
  The table has 269 colours. The first sixteen, the foreground, the background and the dim colours are those of the configuration,
  where dim colours that are not configured are computed; the entries from 16 to 231 are the cube of 216 colours and those
  from 232 to 255 the shades of gray, unless the configuration has a colour for the index. No index is out of bounds.
\<close>

theorem color_list_entries:
  "\<exists>l. color_list dim c = Some l \<and> length l = COLOR_COUNT
    \<and> (\<forall>i < 8. l ! i = ansi_list (c_normal c) ! i \<and> l ! (8 + i) = ansi_list (c_bright c) ! i
         \<and> l ! (259 + i) = (case c_dim c of None \<Rightarrow> dim (ansi_list (c_normal c) ! i) | Some d \<Rightarrow> ansi_list d ! i))
    \<and> (\<forall>k < 216. l ! (16 + k) = override c (16 + k) (cube_color k)) \<and> (\<forall>k < 24. l ! (232 + k) = override c (232 + k) (gray_color k))
    \<and> l ! 256 = pc_foreground (c_primary c) \<and> l ! 257 = pc_background (c_primary c)
    \<and> l ! 267 = (case bright_foreground (c_primary c) of None \<Rightarrow> pc_foreground (c_primary c) | Some x \<Rightarrow> x)
    \<and> l ! 268 = (case dim_foreground (c_primary c) of None \<Rightarrow> dim (pc_foreground (c_primary c)) | Some x \<Rightarrow> x)"
proof -
  let ?l0 = "replicate COLOR_COUNT (rgb_new 0 0 0)"
  obtain a where a: "fill_named dim c ?l0 = Some a" "length a = COLOR_COUNT"
    and named: "\<forall>i < 8. a ! i = ansi_list (c_normal c) ! i \<and> a ! (8 + i) = ansi_list (c_bright c) ! i
         \<and> a ! (259 + i) = (case c_dim c of None \<Rightarrow> dim (ansi_list (c_normal c) ! i) | Some d \<Rightarrow> ansi_list d ! i)"
    "a ! 256 = pc_foreground (c_primary c)" "a ! 257 = pc_background (c_primary c)"
    "a ! 267 = (case bright_foreground (c_primary c) of None \<Rightarrow> pc_foreground (c_primary c) | Some x \<Rightarrow> x)"
    "a ! 268 = (case dim_foreground (c_primary c) of None \<Rightarrow> dim (pc_foreground (c_primary c)) | Some x \<Rightarrow> x)"
    using fill_named_list [of ?l0 dim c] by (auto elim!: okE)
  obtain b where b: "fill_cube c a = Some b" "length b = COLOR_COUNT"
    "\<forall>i. b ! i = (if 16 \<le> i \<and> i < 232 then override c i (cube_color (i - 16)) else a ! i)"
    using fill_cube_list [of a c] a(2) by (auto simp: COLOR_COUNT_def elim!: okE)
  obtain l where l: "fill_gray_ramp c b = Some l" "length l = COLOR_COUNT"
    "\<forall>i. l ! i = (if 232 \<le> i \<and> i < 256 then override c i (gray_color (i - 232)) else b ! i)"
    using fill_gray_list [of b c] b(2) by (auto simp: COLOR_COUNT_def elim!: okE)
  show ?thesis using a(1) b(1) l(1,2) named by (intro exI [of _ l]) (simp add: color_list_def l(3) b(3))
qed

section \<open>Colours as text\<close>

lemma hex_digit_char: "n < 16 \<Longrightarrow> hex_digit (hex_char n) = Some n"
  by (auto simp: hex_digit_def hex_char_def Let_def of_char_of)

lemma hex_char_no_sign: "n < 16 \<Longrightarrow> hex_char n \<noteq> CHR ''+''"
  using hex_digit_char [of n] by (auto simp: hex_digit_def)

lemma from_str_radix_hex2:
  "from_str_radix_16 (hex2 r @ hex2 g @ hex2 b) = Some (unat r * 65536 + unat g * 256 + unat b)"
proof -
  have d: "unat w div 16 < 16" "unat w < 256" for w :: "8 word" using unsigned_less [of w, where ?'a = nat] by simp_all
  show ?thesis using d [of r] d [of g] d [of b]
    by (simp add: from_str_radix_16_def hex2_def hex_char_no_sign hex_digit_char)
qed

text \<open>
  A colour is read as it was written: the notation that is written has seven characters and is read as the same colour, and so is
  the notation with \<open>0x\<close>, in a colour of the configuration that may also refer to the colours of a cell.
\<close>

theorem rgb_text_roundtrip:
  "length (rgb_to_string c) = 7 \<and> rgb_from_str (rgb_to_string c) = Some c \<and> rgb_from_str (''0x'' @ tl (rgb_to_string c)) = Some c
   \<and> cell_rgb_from_str (rgb_to_string c) = Some (CellRgb c)"
proof -
  have parse: "rgb_from_str s = Some c" if "s = ''#'' @ hex2 (red c) @ hex2 (green c) @ hex2 (blue c) \<or> s = ''0x'' @ hex2 (red c) @ hex2 (green c) @ hex2 (blue c)" for s
  proof -
    let ?n = "unat (red c) * 65536 + unat (green c) * 256 + unat (blue c)"
    have l: "length (hex2 w) = 2" for w by (simp add: hex2_def)
    have n: "rgb_from_str s = Some (rgb_new (of_nat (?n div 256 div 256)) (of_nat (?n div 256)) (of_nat ?n))"
      using that from_str_radix_hex2 [of "red c" "green c" "blue c"] by (auto simp: rgb_from_str_def Let_def l)
    have u: "unat w < 256" for w :: "8 word" using unsigned_less [of w, where ?'a = nat] by simp
    have 1: "?n div 256 = unat (red c) * 256 + unat (green c)" using u [of "blue c"] by simp
    then have 2: "?n div 256 div 256 = unat (red c)" using u [of "green c"] by simp
    have z: "(of_nat 256 :: 8 word) = 0" "(of_nat 65536 :: 8 word) = 0" by simp_all
    have "(of_nat ?n :: 8 word) = blue c" "(of_nat (unat (red c) * 256 + unat (green c)) :: 8 word) = green c"
      by (simp_all only: of_nat_add of_nat_mult z) simp_all
    then show ?thesis using n unfolding 2 unfolding 1 by (simp add: rgb_new_def)
  qed
  show ?thesis using parse [of "rgb_to_string c"] parse [of "''0x'' @ tl (rgb_to_string c)"]
    by (simp add: rgb_to_string_def cell_rgb_from_str_def hex2_def)
qed

text \<open>The plus sign that \<^verbatim>\<open>from_str_radix\<close> accepts makes texts with five digits colours.\<close>

lemma rgb_accepts_sign: "rgb_from_str ''#+12345'' = Some (rgb_new 0x01 0x23 0x45)"
  by (simp add: rgb_from_str_def from_str_radix_16_def hex_digit_def Let_def rgb_new_def)

section \<open>Witnesses\<close>

theorem color_list_entries_witness:
  "\<exists>l. color_list id colors_config_default = Some l \<and> l ! 196 = rgb_new 255 0 0 \<and> l ! 255 = rgb_new 238 238 238 \<and> l ! 9 = rgb_new 0xc5 0x55 0x55"
proof -
  have c: "cube_color 180 = rgb_new 255 0 0" "gray_color 23 = rgb_new 238 238 238" by code_simp+
  obtain l where l: "color_list id colors_config_default = Some l" "\<forall>i < 8. l ! (8 + i) = ansi_list (c_bright colors_config_default) ! i"
    "\<forall>k < 216. l ! (16 + k) = override colors_config_default (16 + k) (cube_color k)"
    "\<forall>k < 24. l ! (232 + k) = override colors_config_default (232 + k) (gray_color k)"
    using color_list_entries [of id colors_config_default] by blast
  have "override colors_config_default i x = x" for i x by (simp add: override_def colors_config_default_def)
  then show ?thesis using l(1) l(2) [rule_format, of 1] l(3) [rule_format, of 180] l(4) [rule_format, of 23] c
    by (intro exI [of _ l]) (simp add: ansi_list_def colors_config_default_def bright_default_def)
qed

end
