(* ===== verification/Render_Content.thy ===== *)
theory Render_Content
  imports Hints Display_Color Complex_Main
begin

text \<open>
  What is drawn (\<^verbatim>\<open>src/alacritty/src/display/content.rs\<close>).

  The cells of the viewport become cells with colours and flags that are ready to be drawn: selected cells, hints
  and matches of a search get their own colours, the cursor is drawn as a cell or remembered, and cells with nothing to draw
  are left out. Functions of the crate \<^verbatim>\<open>vte\<close> on colours are a parameter. Shown are that the cells of matches are
  recognised, that every cell that has to be drawn is drawn once, and that nothing panics.
\<close>

unbundle bit_operations_syntax

section \<open>Tracking matches\<close>

record hint_matches =
  ht_matches :: "match_range list"
  ht_index :: nat

definition hint_matches_new :: "match_range list \<Rightarrow> hint_matches" where
  "hint_matches_new ms = \<lparr>ht_matches = ms, ht_index = 0\<rparr>"

function matches_advance :: "point \<Rightarrow> hint_matches \<Rightarrow> bool \<times> hint_matches" where
  "matches_advance p hm =
     (if ht_index hm < length (ht_matches hm) then
        let bounds = ht_matches hm ! ht_index hm in
        if fst bounds > p then (False, hm)
        else if snd bounds < p then matches_advance p (hm\<lparr>ht_index := ht_index hm + 1\<rparr>)
        else (True, hm)
      else (False, hm))"
  by auto
termination by (relation "measure (\<lambda>(p, hm). length (ht_matches hm) - ht_index hm)") auto

declare matches_advance.simps [simp del]

record render_hint =
  rh_matches :: hint_matches
  rh_labels :: "ustring list"

text \<open>The outer option is a panic, the second one whether the point is in a match.\<close>

definition render_hint_advance ::
  "point \<Rightarrow> nat \<Rightarrow> point \<Rightarrow> render_hint \<Rightarrow> ((uchar option \<times> bool) option \<times> render_hint) option" where
  "render_hint_advance viewport_start cols p rh = (case matches_advance p (rh_matches rh) of
     (inside, hm) \<Rightarrow>
       let rh = rh\<lparr>rh_matches := hm\<rparr> in
       if \<not> inside \<or> \<not> ht_index hm < length (ht_matches hm) then Some (None, rh)
       else do {
         let start = max (fst (ht_matches hm ! ht_index hm)) viewport_start;
         let line_delta = line p - line start;
         let col_delta = int (column p) - int (column start);
         let label_position = nat (line_delta * int cols + col_delta);
         let is_first = (label_position = 0);
         label \<leftarrow> vec_get (rh_labels rh) (ht_index hm);
         Some (Some (if label_position < length label then (Some (label ! label_position), is_first) else (None, False)), rh)
       })"

definition render_hint_of :: "('s, 'e, 'c) hint_state \<Rightarrow> render_hint" where
  "render_hint_of hs = \<lparr>rh_matches = hint_matches_new (hs_matches hs), rh_labels = hs_labels hs\<rparr>"

section \<open>The content\<close>

record vte_colors =
  to_bright :: "named_color \<Rightarrow> named_color"
  to_dim :: "named_color \<Rightarrow> named_color"
  dim_rgb :: "rgb \<Rightarrow> rgb"
  low_contrast :: "rgb \<Rightarrow> rgb \<Rightarrow> bool"

record render_config =
  rcf_colors :: colors
  window_opacity :: rat
  unfocused_hollow :: bool

record render_cursor =
  rcu_shape :: cursor_shape
  cursor_color :: rgb
  text_color :: rgb
  rcu_width :: nat
  rcu_point :: "nat \<times> nat"

record renderable_cell =
  rce_character :: uchar
  rce_point :: "nat \<times> nat"
  rce_fg :: rgb
  rce_bg :: rgb
  bg_alpha :: rat
  rce_underline :: rgb
  rce_flags :: flags
  rce_extra :: "(uchar list option \<times> hyperlink option) option"

record renderable_content =
  rc_selection :: "selection_range option"
  rc_iter :: grid_iter
  rc_term_cursor :: point
  rc_cursor :: render_cursor
  rc_cursor_shape :: cursor_shape
  rc_cursor_point :: "nat \<times> nat"
  rc_search :: "hint_matches option"
  rc_hint :: "render_hint option"
  focused_match :: "match_range option"
  rc_columns :: nat

definition cursor_new_hidden :: render_cursor where
  "cursor_new_hidden = \<lparr>rcu_shape = Shape_Hidden, cursor_color = rgb_new 0 0 0, text_color = rgb_new 0 0 0, rcu_width = 1, rcu_point = (0, 0)\<rparr>"

text \<open>What the search bar contributes: the visible matches, the focused match and whether it is open.\<close>

record search_view =
  sv_matches :: "match_range list option"
  sv_focused :: "match_range option"
  sv_active :: bool

definition content_new ::
  "render_config \<Rightarrow> nat \<Rightarrow> bool \<Rightarrow> bool \<Rightarrow> render_hint option \<Rightarrow> search_view \<Rightarrow> terminal \<Rightarrow> renderable_content option" where
  "content_new C cols cursor_hidden preedit hint sv t = do {
     it \<leftarrow> display_iter (t_grid t);
     (term_shape, p) \<leftarrow> renderable_cursor t;
     sel \<leftarrow> (case t_selection t of None \<Rightarrow> Some None | Some s \<Rightarrow> to_range t s);
     let sh = (if term_shape = Shape_Hidden \<or> cursor_hidden \<or> sv_active sv \<or> preedit then Shape_Hidden
               else if \<not> is_focused t \<and> unfocused_hollow C then Shape_HollowBlock
               else term_shape);
     cursor_point \<leftarrow> point_to_viewport (display_offset (t_grid t)) p;
     Some \<lparr>rc_selection = sel, rc_iter = it, rc_term_cursor = p, rc_cursor = cursor_new_hidden, rc_cursor_shape = sh,
           rc_cursor_point = cursor_point, rc_search = map_option hint_matches_new (sv_matches sv), rc_hint = hint,
           focused_match = sv_focused sv, rc_columns = cols\<rparr>
   }"

definition content_color :: "rgb list \<Rightarrow> terminal \<Rightarrow> nat \<Rightarrow> rgb option" where
  "content_color L t i = do {
     c \<leftarrow> vec_get (t_colors t) i;
     case c of Some rgb \<Rightarrow> Some rgb | None \<Rightarrow> vec_get L i
   }"

definition compute_fg_rgb :: "vte_colors \<Rightarrow> render_config \<Rightarrow> rgb list \<Rightarrow> terminal \<Rightarrow> color \<Rightarrow> flags \<Rightarrow> rgb option" where
  "compute_fg_rgb V C L t fg fl =
     (let bold = draw_bold_text_with_bright_colors (rcf_colors C); db = fl AND DIM_BOLD in
      case fg of
        Spec rgb \<Rightarrow> Some (if fl AND DIM = DIM then dim_rgb V rgb else rgb)
      | Named ansi \<Rightarrow>
          if db = DIM_BOLD \<and> ansi = Foreground \<and> bright_foreground (c_primary (rcf_colors C)) = None then content_color L t DIM_FOREGROUND
          else if bold \<and> db = BOLD then content_color L t (named_index (to_bright V ansi))
          else if db = DIM \<or> \<not> bold \<and> db = DIM_BOLD then content_color L t (named_index (to_dim V ansi))
          else content_color L t (named_index ansi)
      | Indexed idx \<Rightarrow>
          let i = unat idx in
          content_color L t
            (if bold \<and> db = BOLD \<and> i \<le> 7 then i + 8
             else if \<not> bold \<and> db = DIM \<and> 8 \<le> i \<and> i \<le> 15 then i - 8
             else if \<not> bold \<and> db = DIM \<and> i \<le> 7 then DIM_BLACK + i
             else i))"

definition compute_bg_rgb :: "rgb list \<Rightarrow> terminal \<Rightarrow> color \<Rightarrow> rgb option" where
  "compute_bg_rgb L t bg = (case bg of
     Spec rgb \<Rightarrow> Some rgb
   | Named ansi \<Rightarrow> content_color L t (named_index ansi)
   | Indexed idx \<Rightarrow> content_color L t (unat idx))"

definition compute_bg_alpha :: "render_config \<Rightarrow> color \<Rightarrow> rat" where
  "compute_bg_alpha C bg =
     (if bg = Named Background then 0
      else if transparent_background_colors (rcf_colors C) then window_opacity C
      else 1)"

text \<open>The new foreground is computed first, and the new background from the old foreground.\<close>

definition compute_cell_rgb :: "cell_colors \<Rightarrow> rgb \<times> rgb \<times> rat \<Rightarrow> rgb \<times> rgb \<times> rat" where
  "compute_cell_rgb cc = (\<lambda>(fg, bg, alpha).
     (cell_color (cc_foreground cc) fg bg, cell_color (cc_background cc) fg bg,
      if cc_background cc \<noteq> CellBackground then 1 else alpha))"

definition advance_hint :: "terminal \<Rightarrow> point \<Rightarrow> renderable_content \<Rightarrow> ((uchar option \<times> bool) option \<times> renderable_content) option" where
  "advance_hint t p rc = (case rc_hint rc of
     None \<Rightarrow> Some (None, rc)
   | Some rh \<Rightarrow> do {
       (h, rh) \<leftarrow> render_hint_advance (Point (- int (display_offset (t_grid t))) 0) (rc_columns rc) p rh;
       Some (h, rc\<lparr>rc_hint := Some rh\<rparr>)
     })"

definition overlay_selection :: "render_config \<Rightarrow> rgb list \<Rightarrow> terminal \<Rightarrow> cell \<Rightarrow> rgb \<times> rgb \<times> rat \<Rightarrow> (rgb \<times> rgb \<times> rat) option" where
  "overlay_selection C L t x cs = (case compute_cell_rgb (c_selection (rcf_colors C)) cs of
     (fg, bg, alpha) \<Rightarrow>
       if fg = bg \<and> \<not> flag_contains (cell_flags x) HIDDEN then do {
         fg \<leftarrow> content_color L t (named_index Background);
         bg \<leftarrow> content_color L t (named_index Foreground);
         Some (fg, bg, 1)
       } else Some (fg, bg, alpha))"

definition overlay_search :: "render_config \<Rightarrow> point \<Rightarrow> rgb \<times> rgb \<times> rat \<Rightarrow> renderable_content \<Rightarrow> (rgb \<times> rgb \<times> rat) \<times> renderable_content" where
  "overlay_search C p cs rc = (case rc_search rc of
     None \<Rightarrow> (cs, rc)
   | Some hm \<Rightarrow>
       (case matches_advance p hm of
          (inside, hm) \<Rightarrow>
            let focused = (case focused_match rc of None \<Rightarrow> False | Some fm \<Rightarrow> fst fm \<le> p \<and> p \<le> snd fm)
            in (if inside then compute_cell_rgb (if focused then c_focused_match (rcf_colors C) else c_matches (rcf_colors C)) cs else cs,
                rc\<lparr>rc_search := Some hm\<rparr>)))"

definition cell_overlay ::
  "render_config \<Rightarrow> rgb list \<Rightarrow> terminal \<Rightarrow> bool \<Rightarrow> point \<Rightarrow> cell \<Rightarrow> rgb \<times> rgb \<times> rat \<Rightarrow> renderable_content
   \<Rightarrow> ((rgb \<times> rgb \<times> rat) \<times> uchar \<times> flags \<times> renderable_content) option" where
  \<comment> \<open>hint, selection or search match: colours, character and flags of the cell\<close>
  "cell_overlay C L t is_selected p x cs rc = do {
     (h, rc) \<leftarrow> advance_hint t p rc;
     case h of
       Some (ch, is_first) \<Rightarrow>
         let character = (case ch of Some c \<Rightarrow> c | None \<Rightarrow> cell_c x) in
         Some (if is_first then (compute_cell_rgb (c_hint_start (rcf_colors C)) cs, character, cell_flags x, rc)
               else if ch \<noteq> None then (compute_cell_rgb (c_hint_end (rcf_colors C)) cs, character, cell_flags x, rc)
               else (cs, character, flag_insert (cell_flags x) UNDERLINE, rc))
     | None \<Rightarrow>
         if is_selected then do {
           cs \<leftarrow> overlay_selection C L t x cs;
           Some (cs, cell_c x, cell_flags x, rc)
         } else
           (case overlay_search C p cs rc of (cs, rc) \<Rightarrow> Some (cs, cell_c x, cell_flags x, rc))
   }"

definition renderable_cell_new ::
  "vte_colors \<Rightarrow> render_config \<Rightarrow> rgb list \<Rightarrow> terminal \<Rightarrow> point \<Rightarrow> cell \<Rightarrow> renderable_content \<Rightarrow> (renderable_cell \<times> renderable_content) option" where
  "renderable_cell_new V C L t p x rc = do {
     fg \<leftarrow> compute_fg_rgb V C L t (cell_fg x) (cell_flags x);
     bg \<leftarrow> compute_bg_rgb L t (cell_bg x);
     let cs = (if flag_contains (cell_flags x) INVERSE then (bg, fg, 1) else (fg, bg, compute_bg_alpha C (cell_bg x)));
     let is_selected = (case rc_selection rc of None \<Rightarrow> False
       | Some r \<Rightarrow> contains_cell r p x (rc_term_cursor rc) (rc_cursor_shape rc = Shape_Block));
     ((fg, bg, alpha), character, fl, rc) \<leftarrow> cell_overlay C L t is_selected p x cs rc;
     let alpha = (if alpha > 0 \<and> transparent_background_colors (rcf_colors C) then window_opacity C else alpha);
     vp \<leftarrow> point_to_viewport (display_offset (t_grid t)) p;
     underline \<leftarrow> (case underline_color x of None \<Rightarrow> Some fg | Some u \<Rightarrow> compute_fg_rgb V C L t u fl);
     Some (\<lparr>rce_character = character, rce_point = vp, rce_fg = fg, rce_bg = bg, bg_alpha = alpha, rce_underline = underline, rce_flags = fl,
            rce_extra = (if zerowidth x \<noteq> None \<or> cell_hyperlink x \<noteq> None then Some (zerowidth x, cell_hyperlink x) else None)\<rparr>, rc)
   }"

definition renderable_cell_is_empty :: "renderable_cell \<Rightarrow> bool" where
  "renderable_cell_is_empty rce \<longleftrightarrow> bg_alpha rce = 0 \<and> rce_character rce = 32 \<and> rce_extra rce = None
     \<and> \<not> flag_intersects (rce_flags rce) (ALL_UNDERLINES OR STRIKEOUT)"

definition content_cursor ::
  "vte_colors \<Rightarrow> render_config \<Rightarrow> terminal \<Rightarrow> renderable_cell \<Rightarrow> renderable_content \<Rightarrow> render_cursor option" where
  "content_cursor V C t rce rc = do {
     let cfg = rcf_colors C;
     let color = (if mode_contains VI t then c_vi_mode_cursor cfg else c_cursor cfg);
     named \<leftarrow> vec_get (t_colors t) (named_index Cursor_Color);
     let cur = (case named of None \<Rightarrow> cc_background color | Some c \<Rightarrow> CellRgb c);
     let txt_color = cc_foreground color;
     let insufficient = (((case cur of CellRgb _ \<Rightarrow> False | _ \<Rightarrow> True) \<or> (case txt_color of CellRgb _ \<Rightarrow> False | _ \<Rightarrow> True))
       \<and> low_contrast V (rce_fg rce) (rce_bg rce));
     Some \<lparr>rcu_shape = rc_cursor_shape rc,
           cursor_color = (if insufficient then pc_foreground (c_primary cfg) else cell_color cur (rce_fg rce) (rce_bg rce)),
           text_color = (if insufficient then pc_background (c_primary cfg) else cell_color txt_color (rce_fg rce) (rce_bg rce)),
           rcu_width = (if flag_contains (rce_flags rce) WIDE_CHAR then 2 else 1), rcu_point = rc_cursor_point rc\<rparr>
   }"

text \<open>The body of the loop of the iterator: a cell to yield, or none if the loop goes on.\<close>

definition render_cell ::
  "vte_colors \<Rightarrow> render_config \<Rightarrow> rgb list \<Rightarrow> terminal \<Rightarrow> point \<Rightarrow> cell \<Rightarrow> renderable_content \<Rightarrow> (renderable_cell option \<times> renderable_content) option" where
  "render_cell V C L t p x rc = do {
     (rce, rc) \<leftarrow> renderable_cell_new V C L t p x rc;
     if rc_cursor_point rc = rce_point rce then do {
       cur \<leftarrow> content_cursor V C t rce rc;
       let rc = rc\<lparr>rc_cursor := cur\<rparr>;
       Some (Some (if rcu_shape cur = Shape_Block then rce\<lparr>rce_fg := text_color cur, rce_bg := cursor_color cur, bg_alpha := 1\<rparr> else rce), rc)
     } else if \<not> renderable_cell_is_empty rce \<and> \<not> flag_contains (rce_flags rce) WIDE_CHAR_SPACER then Some (Some rce, rc)
     else Some (None, rc)
   }"

partial_function (option) content_next ::
  "vte_colors \<Rightarrow> render_config \<Rightarrow> rgb list \<Rightarrow> terminal \<Rightarrow> renderable_content \<Rightarrow> (renderable_cell option \<times> renderable_content) option" where
  "content_next V C L t rc =
     Option.bind (iter_next (t_grid t) (rc_iter rc)) (\<lambda>(n, it).
       let rc = rc\<lparr>rc_iter := it\<rparr> in
       case n of
         None \<Rightarrow> Some (None, rc)
       | Some (p, x) \<Rightarrow> Option.bind (render_cell V C L t p x rc) (\<lambda>(res, rc).
           case res of Some rce \<Rightarrow> Some (Some rce, rc) | None \<Rightarrow> content_next V C L t rc))"

partial_function (option) content_cells ::
  "vte_colors \<Rightarrow> render_config \<Rightarrow> rgb list \<Rightarrow> terminal \<Rightarrow> renderable_content \<Rightarrow> (renderable_cell list \<times> renderable_content) option" where
  \<comment> \<open>collecting the iterator\<close>
  "content_cells V C L t rc =
     Option.bind (content_next V C L t rc) (\<lambda>(n, rc).
       case n of
         None \<Rightarrow> Some ([], rc)
       | Some rce \<Rightarrow> Option.bind (content_cells V C L t rc) (\<lambda>(rces, rc). Some (rce # rces, rc)))"

section \<open>Matches are recognised\<close>

definition in_match :: "match_range list \<Rightarrow> point \<Rightarrow> bool" where
  "in_match ms p \<longleftrightarrow> (\<exists>m \<in> set ms. fst m \<le> p \<and> p \<le> snd m)"

lemma matches_advance_ok:
  assumes "sorted_wrt (\<lambda>m n. fst m \<le> fst n) (ht_matches hm)" "\<forall>i < ht_index hm. i < length (ht_matches hm) \<longrightarrow> snd (ht_matches hm ! i) < p"
  shows "\<exists>hm'. matches_advance p hm = (in_match (ht_matches hm) p, hm') \<and> ht_matches hm' = ht_matches hm
    \<and> (\<forall>i < ht_index hm'. i < length (ht_matches hm) \<longrightarrow> snd (ht_matches hm ! i) < p)
    \<and> (in_match (ht_matches hm) p \<longrightarrow> ht_index hm' < length (ht_matches hm) \<and> fst (ht_matches hm ! ht_index hm') \<le> p \<and> p \<le> snd (ht_matches hm ! ht_index hm'))"
  using assms
proof (induction p hm rule: matches_advance.induct)
  case (1 p hm)
  let ?ms = "ht_matches hm" and ?i = "ht_index hm"
  show ?case
  proof (cases "?i < length ?ms")
    case True
    consider "fst (?ms ! ?i) > p" | "fst (?ms ! ?i) \<le> p" "snd (?ms ! ?i) < p" | "fst (?ms ! ?i) \<le> p" "p \<le> snd (?ms ! ?i)" by fastforce
    then show ?thesis
    proof cases
      case 1
      have "\<not> (fst m \<le> p \<and> p \<le> snd m)" if m: "m \<in> set ?ms" for m
      proof -
        obtain j where j: "j < length ?ms" "m = ?ms ! j" using m by (auto simp: in_set_conv_nth)
        have "p < fst (?ms ! j)" if "?i \<le> j"
          using sorted_wrt_nth_less [OF "1.prems"(1), of ?i j] that j(1) 1 by (cases "?i = j") auto
        then show ?thesis using j "1.prems"(2) by (cases "j < ?i") (auto simp: not_less dest: leD)
      qed
      then show ?thesis using 1 True "1.prems" by (subst matches_advance.simps) (auto simp: in_match_def)
    next
      case 2
      have "\<forall>i < ?i + 1. i < length ?ms \<longrightarrow> snd (?ms ! i) < p" using "1.prems"(2) 2 less_Suc_eq by auto
      moreover have eq: "matches_advance p hm = matches_advance p (hm\<lparr>ht_index := ?i + 1\<rparr>)"
        using True 2 by (subst matches_advance.simps) (simp add: Let_def not_less leD)
      ultimately show ?thesis using "1.IH" [OF True refl leD [OF 2(1)] 2(2)] "1.prems"(1) unfolding eq by simp
    next
      case 3
      then have "in_match ?ms p" "matches_advance p hm = (True, hm)"
        using True by (auto simp: in_match_def matches_advance.simps [of p hm] Let_def leD intro!: bexI [of _ "?ms ! ?i"])
      then show ?thesis using True 3 "1.prems"(2) by simp
    qed
  next
    case False
    have "\<not> (fst m \<le> p \<and> p \<le> snd m)" if "m \<in> set ?ms" for m
      using that False "1.prems"(2) by (metis in_set_conv_nth leD less_le_trans not_less)
    then show ?thesis using False "1.prems"(2) by (subst matches_advance.simps) (auto simp: in_match_def)
  qed
qed

fun advance_all :: "point list \<Rightarrow> hint_matches \<Rightarrow> bool list" where
  "advance_all [] hm = []"
| "advance_all (p # ps) hm = (let (b, hm) = matches_advance p hm in b # advance_all ps hm)"

text \<open>
  C33 (equivalence): highlighting matches with an index that only moves forward is the same as looking for every cell through all matches. This holds for matches
  that are ordered by their start, as those of a search and of hints are, also if they overlap, and for cells in reading order.
\<close>

theorem matches_recognised:
  assumes "sorted_wrt (\<lambda>m n. fst m \<le> fst n) ms" "sorted ps"
  shows "advance_all ps (hint_matches_new ms) = map (\<lambda>p. \<exists>m \<in> set ms. fst m \<le> p \<and> p \<le> snd m) ps"
proof -
  have "advance_all ps hm = map (in_match ms) ps"
    if "ht_matches hm = ms" "\<forall>i < ht_index hm. i < length ms \<longrightarrow> (\<forall>p \<in> set ps. snd (ms ! i) < p)" for hm
    using that assms(2)
  proof (induction ps arbitrary: hm)
    case (Cons p ps)
    obtain hm' where a: "matches_advance p hm = (in_match ms p, hm')" "ht_matches hm' = ms" "\<forall>i < ht_index hm'. i < length ms \<longrightarrow> snd (ms ! i) < p"
      using matches_advance_ok [of hm p] Cons.prems(1,2) assms(1) by auto
    have "advance_all ps hm' = map (in_match ms) ps"
      using Cons.IH [OF a(2)] a(3) Cons.prems(3) by fastforce
    then show ?case using a(1) by simp
  qed simp
  then show ?thesis by (simp add: hint_matches_new_def in_match_def [abs_def])
qed

section \<open>Everything is drawn\<close>

text \<open>What the content needs so that nothing panics.\<close>

definition named_ok :: "named_color \<Rightarrow> bool" where
  "named_ok n \<longleftrightarrow> named_index n < COLOR_COUNT"

definition color_ok :: "color \<Rightarrow> bool" where
  "color_ok c \<longleftrightarrow> (case c of Named n \<Rightarrow> named_ok n | _ \<Rightarrow> True)"

definition vte_ok :: "vte_colors \<Rightarrow> bool" where
  "vte_ok V \<longleftrightarrow> (\<forall>n. named_ok n \<longrightarrow> named_ok (to_bright V n) \<and> named_ok (to_dim V n))"

definition cell_colors_ok :: "cell \<Rightarrow> bool" where
  "cell_colors_ok x \<longleftrightarrow> color_ok (cell_fg x) \<and> color_ok (cell_bg x) \<and> (case underline_color x of None \<Rightarrow> True | Some c \<Rightarrow> color_ok c)"

definition palette_ok :: "rgb list \<Rightarrow> terminal \<Rightarrow> bool" where
  "palette_ok L t \<longleftrightarrow> length L = COLOR_COUNT \<and> length (t_colors t) = COLOR_COUNT"

text \<open>Labels have no blanks.\<close>

definition hint_ok :: "render_hint option \<Rightarrow> bool" where
  "hint_ok h \<longleftrightarrow> (case h of None \<Rightarrow> True
     | Some rh \<Rightarrow> length (rh_labels rh) = length (ht_matches (rh_matches rh)) \<and> (\<forall>l \<in> set (rh_labels rh). 32 \<notin> set l))"

text \<open>A cell that shows something, whatever its colours.\<close>

definition shows_content :: "cell \<Rightarrow> bool" where
  "shows_content x \<longleftrightarrow> \<not> flag_contains (cell_flags x) WIDE_CHAR_SPACER
     \<and> (cell_c x \<noteq> 32 \<or> flag_intersects (cell_flags x) (ALL_UNDERLINES OR STRIKEOUT) \<or> zerowidth x \<noteq> None \<or> cell_hyperlink x \<noteq> None)"

lemma content_color_ok [simp]: "palette_ok L t \<Longrightarrow> i < COLOR_COUNT \<Longrightarrow> ok (content_color L t i) (\<lambda>_. True)"
  by (auto simp: content_color_def palette_ok_def vec_get_def split: option.split)

lemma indexed_bound: "unat (i :: 8 word) < COLOR_COUNT"
  using unsigned_less [of i, where ?'a = nat] by (simp add: COLOR_COUNT_def)

lemma compute_fg_rgb_ok:
  assumes "palette_ok L t" "vte_ok V" "color_ok c"
  shows "ok (compute_fg_rgb V C L t c fl) (\<lambda>_. True)"
proof (cases c)
  case (Named n)
  have "DIM_FOREGROUND < COLOR_COUNT" by (simp add: DIM_FOREGROUND_def COLOR_COUNT_def)
  then show ?thesis using assms Named by (simp add: compute_fg_rgb_def Let_def color_ok_def vte_ok_def named_ok_def)
next
  case (Indexed i)
  have "unat i < COLOR_COUNT" "unat i - 8 < COLOR_COUNT" using indexed_bound [of i] by simp_all
  moreover have "unat i \<le> 7 \<Longrightarrow> unat i + 8 < COLOR_COUNT" "unat i \<le> 7 \<Longrightarrow> DIM_BLACK + unat i < COLOR_COUNT"
    by (simp_all add: DIM_BLACK_def COLOR_COUNT_def)
  ultimately show ?thesis using assms(1) Indexed by (simp add: compute_fg_rgb_def Let_def)
qed (simp add: compute_fg_rgb_def)

lemma compute_bg_rgb_ok: "palette_ok L t \<Longrightarrow> color_ok c \<Longrightarrow> ok (compute_bg_rgb L t c) (\<lambda>_. True)"
  using indexed_bound by (cases c) (simp_all add: compute_bg_rgb_def color_ok_def named_ok_def)

lemma matches_advance_matches: "ht_matches (snd (matches_advance p hm)) = ht_matches hm"
proof (induction p hm rule: matches_advance.induct)
  case (1 p hm)
  show ?case by (subst matches_advance.simps) (use 1 in \<open>simp add: Let_def\<close>)
qed

lemma render_hint_advance_ok:
  assumes "hint_ok (Some rh)"
  shows "ok (render_hint_advance vs cols p rh) (\<lambda>(h, rh'). hint_ok (Some rh') \<and> (\<forall>c b. h = Some (Some c, b) \<longrightarrow> c \<noteq> 32))"
proof -
  obtain b hm where a: "matches_advance p (rh_matches rh) = (b, hm)" by (metis surj_pair)
  have m: "ht_matches hm = ht_matches (rh_matches rh)" using matches_advance_matches [of p "rh_matches rh"] a by simp
  have "rh_labels rh ! i ! j \<noteq> 32" if "i < length (rh_labels rh)" "j < length (rh_labels rh ! i)" for i j
    using assms that by (auto simp: hint_ok_def) (metis nth_mem)
  then show ?thesis using assms a m
    by (auto simp: render_hint_advance_def hint_ok_def Let_def vec_get_def)
qed

lemma insert_underline:
  "flag_contains (flag_insert fl UNDERLINE) WIDE_CHAR_SPACER = flag_contains fl WIDE_CHAR_SPACER"
  by (simp add: flag_contains_def flag_insert_def UNDERLINE_def WIDE_CHAR_SPACER_def bit.conj_disj_distrib2)

lemma flag_insert_intersects: "flag_intersects fl m \<Longrightarrow> flag_intersects (flag_insert fl g) m"
  by (auto simp: flag_insert_def flag_intersects_def bit_eq_iff bit_simps)

lemma advance_hint_ok:
  assumes "hint_ok (rc_hint rc)"
  shows "ok (advance_hint t p rc) (\<lambda>(h, rc'). hint_ok (rc_hint rc') \<and> rc_iter rc' = rc_iter rc \<and> rc_cursor_point rc' = rc_cursor_point rc
    \<and> (\<forall>c b. h = Some (Some c, b) \<longrightarrow> c \<noteq> 32))"
proof (cases "rc_hint rc")
  case (Some rh)
  then show ?thesis using render_hint_advance_ok [of rh] assms by (fastforce simp: advance_hint_def elim!: ok_mono)
qed (simp add: advance_hint_def hint_ok_def)

lemma overlay_selection_ok: "palette_ok L t \<Longrightarrow> ok (overlay_selection C L t x cs) (\<lambda>_. True)"
  using content_color_ok [of L t "named_index Background"] content_color_ok [of L t "named_index Foreground"]
  by (auto simp: overlay_selection_def named_index_def COLOR_COUNT_def ok_iff split: prod.split)

lemma overlay_search_keeps:
  "rc_hint (snd (overlay_search C p cs rc)) = rc_hint rc" "rc_iter (snd (overlay_search C p cs rc)) = rc_iter rc"
  "rc_cursor_point (snd (overlay_search C p cs rc)) = rc_cursor_point rc"
  by (simp_all add: overlay_search_def Let_def split: option.split prod.split)

lemma cell_overlay_ok:
  assumes "palette_ok L t" "hint_ok (rc_hint rc)"
  shows "ok (cell_overlay C L t sel p x cs rc) (\<lambda>(cs', ch, fl, rc'). hint_ok (rc_hint rc') \<and> rc_iter rc' = rc_iter rc
    \<and> rc_cursor_point rc' = rc_cursor_point rc \<and> (cell_c x \<noteq> 32 \<longrightarrow> ch \<noteq> 32) \<and> (fl = cell_flags x \<or> fl = flag_insert (cell_flags x) UNDERLINE))"
proof -
  obtain h rc1 where h: "advance_hint t p rc = Some (h, rc1)" "hint_ok (rc_hint rc1)" "rc_iter rc1 = rc_iter rc" "rc_cursor_point rc1 = rc_cursor_point rc"
    "\<forall>c b. h = Some (Some c, b) \<longrightarrow> c \<noteq> 32" using advance_hint_ok [OF assms(2), of t p] by (auto elim!: okE)
  obtain cs1 where s: "overlay_selection C L t x cs = Some cs1" using overlay_selection_ok [OF assms(1)] by (meson okE)
  obtain cs2 rc2 where o: "overlay_search C p cs rc1 = (cs2, rc2)" by (metis surj_pair)
  have o': "rc_hint rc2 = rc_hint rc1" "rc_iter rc2 = rc_iter rc1" "rc_cursor_point rc2 = rc_cursor_point rc1"
    using overlay_search_keeps [of C p cs rc1] o by simp_all
  show ?thesis
  proof (cases h)
    case (Some hb)
    then show ?thesis using h by (cases hb) (auto simp: cell_overlay_def Let_def split: option.splits)
  next
    case None
    then show ?thesis using h(1-4) s o o' by (simp add: cell_overlay_def)
  qed
qed

lemma render_cell_ok:
  assumes "palette_ok L t" "vte_ok V" "hint_ok (rc_hint rc)" "cell_colors_ok x" "point_to_viewport (display_offset (t_grid t)) p = Some vp"
  shows "ok (render_cell V C L t p x rc) (\<lambda>(r, rc'). hint_ok (rc_hint rc') \<and> rc_iter rc' = rc_iter rc \<and> rc_cursor_point rc' = rc_cursor_point rc
    \<and> (\<forall>rce. r = Some rce \<longrightarrow> rce_point rce = vp) \<and> (r = None \<longrightarrow> \<not> shows_content x \<and> vp \<noteq> rc_cursor_point rc))"
proof -
  have col: "color_ok (cell_fg x)" "color_ok (cell_bg x)" "underline_color x = Some u \<Longrightarrow> color_ok u" for u using assms(4) by (auto simp: cell_colors_ok_def)
  obtain fg bg where fb: "compute_fg_rgb V C L t (cell_fg x) (cell_flags x) = Some fg" "compute_bg_rgb L t (cell_bg x) = Some bg"
    using compute_fg_rgb_ok [OF assms(1,2) col(1)] compute_bg_rgb_ok [OF assms(1) col(2)] by (meson okE)
  let ?cs = "if flag_contains (cell_flags x) INVERSE then (bg, fg, 1) else (fg, bg, compute_bg_alpha C (cell_bg x))"
  let ?sel = "case rc_selection rc of None \<Rightarrow> False | Some r \<Rightarrow> contains_cell r p x (rc_term_cursor rc) (rc_cursor_shape rc = Shape_Block)"
  obtain fg' bg' al ch fl rc1 where o: "cell_overlay C L t ?sel p x ?cs rc = Some ((fg', bg', al), ch, fl, rc1)" "hint_ok (rc_hint rc1)" "rc_iter rc1 = rc_iter rc"
    "rc_cursor_point rc1 = rc_cursor_point rc" "cell_c x \<noteq> 32 \<longrightarrow> ch \<noteq> 32" "fl = cell_flags x \<or> fl = flag_insert (cell_flags x) UNDERLINE"
    using cell_overlay_ok [OF assms(1,3), of C ?sel p x ?cs] by (auto elim!: okE)
  obtain ul where ul: "(case underline_color x of None \<Rightarrow> Some fg' | Some u \<Rightarrow> compute_fg_rgb V C L t u fl) = Some ul"
  proof (cases "underline_color x")
    case (Some u)
    then show ?thesis using compute_fg_rgb_ok [OF assms(1,2) col(3), of u C fl] that by (auto elim!: okE)
  qed (use that in simp)
  let ?al = "if al > 0 \<and> transparent_background_colors (rcf_colors C) then window_opacity C else al"
  let ?rce = "\<lparr>rce_character = ch, rce_point = vp, rce_fg = fg', rce_bg = bg', bg_alpha = ?al, rce_underline = ul, rce_flags = fl,
     rce_extra = (if zerowidth x \<noteq> None \<or> cell_hyperlink x \<noteq> None then Some (zerowidth x, cell_hyperlink x) else None)\<rparr>"
  have new: "renderable_cell_new V C L t p x rc = Some (?rce, rc1)"
    using fb o(1) assms(5) ul by (simp add: renderable_cell_new_def Let_def)
  have empty: "\<not> shows_content x" if "renderable_cell_is_empty ?rce \<or> flag_contains fl WIDE_CHAR_SPACER"
    using that o(5,6) insert_underline [of "cell_flags x"] flag_insert_intersects [of "cell_flags x"] by (auto simp: renderable_cell_is_empty_def shows_content_def split: if_splits)
  have "named_index Cursor_Color < length (t_colors t)" using assms(1) by (simp add: palette_ok_def named_index_def COLOR_COUNT_def)
  then obtain cur where cur: "content_cursor V C t ?rce rc1 = Some cur" by (auto simp: content_cursor_def vec_get_def Let_def)
  show ?thesis
  proof (cases "rc_cursor_point rc1 = vp")
    case True
    then show ?thesis using new cur o(2-4) by (simp add: render_cell_def)
  next
    case False
    then show ?thesis using new empty o(2-4) by (auto simp: render_cell_def)
  qed
qed

text \<open>The position in the viewport of a position of the grid, for positions that are in the viewport.\<close>

definition viewport_position :: "terminal \<Rightarrow> point \<Rightarrow> nat \<times> nat" where
  "viewport_position t p = (nat (line p + int (display_offset (t_grid t))), column p)"

lemma point_to_viewport_position:
  "0 \<le> line p + int (display_offset (t_grid t)) \<Longrightarrow> point_to_viewport (display_offset (t_grid t)) p = Some (viewport_position t p)"
  by (simp add: point_to_viewport_def viewport_position_def Let_def)

lemma viewport_positions:
  assumes "grid_ok (t_grid t)"
  shows "map (viewport_position t) (viewport_points (t_grid t)) = List.product [0..<t_lines t] [0..<t_columns t]"
proof (rule nth_equalityI)
  show "length (map (viewport_position t) (viewport_points (t_grid t))) = length (List.product [0..<t_lines t] [0..<t_columns t])"
    by (simp add: viewport_points_def)
next
  fix k assume "k < length (map (viewport_position t) (viewport_points (t_grid t)))"
  then have k: "k < t_lines t * t_columns t" by (simp add: viewport_points_def)
  moreover have "0 < t_columns t" using assms by (rule grid_okD)
  ultimately show "map (viewport_position t) (viewport_points (t_grid t)) ! k = List.product [0..<t_lines t] [0..<t_columns t] ! k"
    by (simp add: viewport_points_def viewport_position_def product_nth less_mult_imp_div_less)
qed

lemma content_cells_ok:
  assumes "palette_ok L t" "vte_ok V"
  shows "iter_take (length xs) (t_grid t) (rc_iter rc) = Some (xs, it') \<Longrightarrow> iter_next (t_grid t) it' = Some (None, it') \<Longrightarrow> hint_ok (rc_hint rc)
    \<Longrightarrow> \<forall>(p, x) \<in> set xs. cell_colors_ok x \<and> 0 \<le> line p + int (display_offset (t_grid t))
    \<Longrightarrow> ok (content_cells V C L t rc) (\<lambda>(rces, rc'). subseq (map rce_point rces) (map (\<lambda>q. viewport_position t (fst q)) xs)
      \<and> (\<forall>(p, x) \<in> set xs. shows_content x \<or> viewport_position t p = rc_cursor_point rc \<longrightarrow> viewport_position t p \<in> rce_point ` set rces))"
proof (induction xs arbitrary: rc)
  case Nil
  then have "content_next V C L t rc = Some (None, rc\<lparr>rc_iter := it'\<rparr>)" by (subst content_next.simps) simp
  then show ?case by (subst content_cells.simps) simp
next
  case (Cons px xs)
  obtain p x where px: "px = (p, x)" by (cases px)
  obtain it where n: "iter_next (t_grid t) (rc_iter rc) = Some (Some (p, x), it)" and k: "iter_take (length xs) (t_grid t) it = Some (xs, it')"
    using Cons.prems(1) px by (auto split: bind_splits option.splits)
  let ?rc = "rc\<lparr>rc_iter := it\<rparr>"
  have vp: "point_to_viewport (display_offset (t_grid t)) p = Some (viewport_position t p)" and col: "cell_colors_ok x"
    using Cons.prems(4) px by (auto intro: point_to_viewport_position)
  obtain r rc2 where r: "render_cell V C L t p x ?rc = Some (r, rc2)" "hint_ok (rc_hint rc2)" "rc_iter rc2 = it" "rc_cursor_point rc2 = rc_cursor_point rc"
      "\<forall>rce. r = Some rce \<longrightarrow> rce_point rce = viewport_position t p"
      "r = None \<longrightarrow> \<not> shows_content x \<and> viewport_position t p \<noteq> rc_cursor_point rc"
    using render_cell_ok [OF assms _ col vp, of ?rc C] Cons.prems(3) by (auto elim!: okE)
  have "iter_take (length xs) (t_grid t) (rc_iter rc2) = Some (xs, it')" using k r(3) by simp
  then obtain rces rc' where c: "content_cells V C L t rc2 = Some (rces, rc')" "subseq (map rce_point rces) (map (\<lambda>q. viewport_position t (fst q)) xs)"
      "\<forall>(p, x) \<in> set xs. shows_content x \<or> viewport_position t p = rc_cursor_point rc \<longrightarrow> viewport_position t p \<in> rce_point ` set rces"
    using Cons.IH [of rc2] Cons.prems(2,4) r(2,4) unfolding ok_iff by fastforce
  show ?case
  proof (cases r)
    case None
    have "content_next V C L t rc = content_next V C L t rc2" using n r(1) None by (subst content_next.simps) simp
    then have "content_cells V C L t rc = content_cells V C L t rc2" by (simp add: content_cells.simps [of V C L t])
    then show ?thesis using c r(6) None px by (auto intro: list_emb_Cons)
  next
    case (Some rce)
    have "content_next V C L t rc = Some (Some rce, rc2)" using n r(1) Some by (subst content_next.simps) simp
    then have "content_cells V C L t rc = Some (rce # rces, rc')" using c(1) by (subst content_cells.simps) simp
    then show ?thesis using c(2,3) r(5) Some px by auto
  qed
qed

definition viewport_colors_ok :: "terminal \<Rightarrow> bool" where
  "viewport_colors_ok t \<longleftrightarrow> list_all (\<lambda>p. case grid_cell_at (t_grid t) p of None \<Rightarrow> True | Some x \<Rightarrow> cell_colors_ok x) (viewport_points (t_grid t))"


section \<open>Witnesses\<close>

theorem matches_recognised_witness:
  "advance_all [Point 0 1, Point 0 2, Point 1 0, Point 1 3, Point 2 0] (hint_matches_new [(Point 0 2, Point 1 1), (Point 0 3, Point 1 0), (Point 2 0, Point 2 0)])
     = [False, True, True, False, True]"
  by (subst matches_recognised) (simp_all add: less_eq_point_def less_point_def)

definition demo_render_config :: render_config where
  "demo_render_config = \<lparr>rcf_colors = colors_config_default, window_opacity = 1, unfocused_hollow = True\<rparr>"

definition demo_vte :: vte_colors where
  "demo_vte = \<lparr>to_bright = \<lambda>n. n, to_dim = \<lambda>n. n, dim_rgb = \<lambda>c. c, low_contrast = (=)\<rparr>"

definition no_search :: search_view where
  "no_search = \<lparr>sv_matches = None, sv_focused = None, sv_active = False\<rparr>"

lemma demo_content: "map_option rc_cursor_point (content_new demo_render_config 4 False False None no_search demo_links) = Some (0, 0)"
  unfolding demo_links_def by code_simp


end
