(* ===== verification/Glyph_Atlas.thy ===== *)
theory Glyph_Atlas
  imports Prelude Complex_Main
begin

text \<open>
  Glyphs in graphics memory (\<^verbatim>\<open>src/alacritty/src/renderer/text/atlas.rs\<close> and \<^verbatim>\<open>glyph_cache.rs\<close>).

  An atlas is a square texture that is filled row by row; when it is full the next one is used. The glyph cache
  rasterizes a glyph when it is first drawn, loads it into the current atlas and keeps its position. The calls of
  OpenGL that write to textures are a log, the names of new textures come from a parameter; texture
  coordinates are rational numbers, since their \<^verbatim>\<open>f32\<close> values are exact for a size that is a power of two. The
  rasterizer of the crate \<^verbatim>\<open>crossfont\<close>, the character widths and the built-in font are parameters.

  Shown are that glyphs in memory never overlap and never leave their texture, that loading a glyph
  returns for every height but one, and that the cache only holds glyphs that are in memory.
\<close>

section \<open>Textures\<close>

datatype bitmap_buffer = Buf_Rgb "nat list" | Buf_Rgba "nat list"

record rasterized_glyph =
  rg_character :: uchar
  rg_width :: int
  rg_height :: int
  rg_top :: int
  rg_left :: int
  rg_buffer :: bitmap_buffer

record glyph =
  tex_id :: nat
  multicolor :: bool
  gl_top :: "16 word"
  gl_left :: "16 word"
  gl_width :: "16 word"
  gl_height :: "16 word"
  uv_bot :: rat
  uv_left :: rat
  uv_width :: rat
  uv_height :: rat

definition ATLAS_SIZE :: int where "ATLAS_SIZE = 1024"

record atlas =
  at_id :: nat
  at_width :: int
  at_height :: int
  row_extent :: int
  row_baseline :: int
  row_tallest :: int
  is_gles_context :: bool

datatype atlas_insert_error = Full | GlyphTooLarge

text \<open>A write to a texture: \<^verbatim>\<open>gl::TexSubImage2D\<close>.\<close>

datatype pixel_format = GL_RGB | GL_RGBA

record tex_sub_image =
  si_tex :: nat
  si_x :: int
  si_y :: int
  si_w :: int
  si_h :: int
  si_format :: pixel_format
  si_data :: "nat list"

definition atlas_new :: "nat \<Rightarrow> int \<Rightarrow> bool \<Rightarrow> atlas" where
  "atlas_new name sz gles =
     \<lparr>at_id = name, at_width = sz, at_height = sz, row_extent = 0, row_baseline = 0, row_tallest = 0, is_gles_context = gles\<rparr>"

definition atlas_clear :: "atlas \<Rightarrow> atlas" where
  "atlas_clear a = a\<lparr>row_extent := 0, row_baseline := 0, row_tallest := 0\<rparr>"

definition room_in_row :: "atlas \<Rightarrow> rasterized_glyph \<Rightarrow> bool" where
  "room_in_row a raw = (let next_extent = row_extent a + rg_width raw;
                            enough_width = next_extent \<le> at_width a;
                            enough_height = rg_height raw < at_height a - row_baseline a
                        in enough_width \<and> enough_height)"

definition advance_row :: "atlas \<Rightarrow> atlas option" where
  "advance_row a = (let advance_to = row_baseline a + row_tallest a in
     if at_height a - advance_to \<le> 0 then None
     else Some (a\<lparr>row_baseline := advance_to, row_extent := 0, row_tallest := 0\<rparr>))"

text \<open>\<^verbatim>\<open>chunks_exact(3)\<close> with an opaque alpha value behind each chunk; an incomplete chunk at the end is dropped.\<close>

fun rgb_to_rgba :: "nat list \<Rightarrow> nat list" where
  "rgb_to_rgba (r # g # b # xs) = r # g # b # 255 # rgb_to_rgba xs"
| "rgb_to_rgba _ = []"

definition texture_data :: "bool \<Rightarrow> bitmap_buffer \<Rightarrow> bool \<times> pixel_format \<times> nat list" where
  "texture_data gles buffer =
     (case buffer of
        Buf_Rgb b \<Rightarrow> if gles then (False, GL_RGBA, rgb_to_rgba b) else (False, GL_RGB, b)
      | Buf_Rgba b \<Rightarrow> (True, GL_RGBA, b))"

definition insert_inner :: "atlas \<Rightarrow> rasterized_glyph \<Rightarrow> glyph \<times> tex_sub_image \<times> atlas" where
  "insert_inner a g =
     (let offset_y = row_baseline a;
          offset_x = row_extent a;
          height = rg_height g;
          width = rg_width g;
          (multi, format, buffer) = texture_data (is_gles_context a) (rg_buffer g);
          upload = \<lparr>si_tex = at_id a, si_x = offset_x, si_y = offset_y, si_w = width, si_h = height, si_format = format, si_data = buffer\<rparr>;
          a' = a\<lparr>row_extent := offset_x + width, row_tallest := (if height > row_tallest a then height else row_tallest a)\<rparr>
      in (\<lparr>tex_id = at_id a, multicolor = multi, gl_top = word_of_int (rg_top g), gl_left = word_of_int (rg_left g),
           gl_width = word_of_int width, gl_height = word_of_int height,
           uv_bot = of_int offset_y / of_int (at_height a), uv_left = of_int offset_x / of_int (at_width a),
           uv_width = of_int width / of_int (at_width a), uv_height = of_int height / of_int (at_height a)\<rparr>, upload, a'))"

text \<open>The atlas is changed by a row advance also when the glyph does not fit behind it.\<close>

definition atlas_insert :: "atlas \<Rightarrow> rasterized_glyph \<Rightarrow> (atlas_insert_error + glyph \<times> tex_sub_image) \<times> atlas" where
  "atlas_insert a g =
     (if rg_width g > at_width a \<or> rg_height g > at_height a then (Inl GlyphTooLarge, a)
      else case (if room_in_row a g then Some a else advance_row a) of
        None \<Rightarrow> (Inl Full, a)
      | Some a \<Rightarrow>
          if \<not> room_in_row a g then (Inl Full, a)
          else let (gl, upload, a') = insert_inner a g in (Inr (gl, upload), a'))"

section \<open>The list of atlases\<close>

text \<open>\<open>textures\<close> are the names in use and \<open>uploads\<close> the writes since the atlases were last cleared.\<close>

record gl_state =
  active_tex :: nat
  atlases :: "atlas list"
  current_atlas :: nat
  textures :: "nat list"
  uploads :: "tex_sub_image list"

definition renderer_new :: "(nat list \<Rightarrow> nat) \<Rightarrow> bool \<Rightarrow> gl_state" where
  "renderer_new gen gles = \<lparr>active_tex = 0, atlases = [atlas_new (gen []) ATLAS_SIZE gles], current_atlas = 0,
     textures = [gen []], uploads = []\<rparr>"

definition empty_glyph :: "nat \<Rightarrow> glyph" where
  "empty_glyph name = \<lparr>tex_id = name, multicolor = False, gl_top = 0, gl_left = 0, gl_width = 0, gl_height = 0,
     uv_bot = 0, uv_left = 0, uv_width = 0, uv_height = 0\<rparr>"

definition next_atlas :: "(nat list \<Rightarrow> nat) \<Rightarrow> bool \<Rightarrow> gl_state \<Rightarrow> gl_state" where
  "next_atlas gen gles st =
     (let st = st\<lparr>current_atlas := current_atlas st + 1\<rparr> in
      if current_atlas st = length (atlases st)
      then let name = gen (textures st) in
           st\<lparr>active_tex := 0, atlases := atlases st @ [atlas_new name ATLAS_SIZE gles], textures := name # textures st\<rparr>
      else st)"

partial_function (option) atlas_load_glyph :: "(nat list \<Rightarrow> nat) \<Rightarrow> rasterized_glyph \<Rightarrow> gl_state \<Rightarrow> (glyph \<times> gl_state) option" where
  "atlas_load_glyph gen g st = do {
     a \<leftarrow> vec_get (atlases st) (current_atlas st);
     let (r, a') = atlas_insert a g;
     let st = st\<lparr>atlases := (atlases st)[current_atlas st := a']\<rparr>;
     case r of
       Inr (gl, upload) \<Rightarrow> Some (gl, st\<lparr>active_tex := 0, uploads := uploads st @ [upload]\<rparr>)
     | Inl Full \<Rightarrow> atlas_load_glyph gen g (next_atlas gen (is_gles_context a') st)
     | Inl GlyphTooLarge \<Rightarrow> Some (empty_glyph (at_id a'), st)
   }"

definition clear_atlas :: "gl_state \<Rightarrow> gl_state" where
  "clear_atlas st = st\<lparr>atlases := map atlas_clear (atlases st), current_atlas := 0, uploads := []\<rparr>"

section \<open>Where glyphs are\<close>

definition pixel_in :: "tex_sub_image \<Rightarrow> int \<Rightarrow> int \<Rightarrow> bool" where
  "pixel_in u x y \<longleftrightarrow> si_x u \<le> x \<and> x < si_x u + si_w u \<and> si_y u \<le> y \<and> y < si_y u + si_h u"

definition apart :: "tex_sub_image \<Rightarrow> tex_sub_image \<Rightarrow> bool" where
  "apart u v \<longleftrightarrow> si_tex u \<noteq> si_tex v \<or> (\<forall>x y. \<not> (pixel_in u x y \<and> pixel_in v x y))"

definition inside :: "tex_sub_image \<Rightarrow> bool" where
  "inside u \<longleftrightarrow> 0 \<le> si_x u \<and> 0 \<le> si_y u \<and> si_x u + si_w u \<le> ATLAS_SIZE \<and> si_y u + si_h u \<le> ATLAS_SIZE"

text \<open>A glyph is in a finished row below the current one, or in the current row left of its end.\<close>

definition placed :: "atlas \<Rightarrow> tex_sub_image \<Rightarrow> bool" where
  "placed a u \<longleftrightarrow> si_tex u = at_id a \<and> inside u
     \<and> (si_y u + si_h u \<le> row_baseline a
        \<or> si_y u = row_baseline a \<and> si_x u + si_w u \<le> row_extent a \<and> si_h u \<le> row_tallest a)"

definition atlas_ok :: "atlas \<Rightarrow> bool" where
  "atlas_ok a \<longleftrightarrow> at_width a = ATLAS_SIZE \<and> at_height a = ATLAS_SIZE
     \<and> 0 \<le> row_extent a \<and> row_extent a \<le> ATLAS_SIZE \<and> 0 \<le> row_baseline a \<and> 0 \<le> row_tallest a
     \<and> row_baseline a + row_tallest a \<le> ATLAS_SIZE"

definition fresh_atlas :: "atlas \<Rightarrow> bool" where
  "fresh_atlas a \<longleftrightarrow> row_extent a = 0 \<and> row_baseline a = 0 \<and> row_tallest a = 0"

text \<open>The coordinates of a glyph name the region it was written to.\<close>

definition shows_region :: "glyph \<Rightarrow> tex_sub_image \<Rightarrow> bool" where
  "shows_region gl u \<longleftrightarrow> tex_id gl = si_tex u
     \<and> uv_left gl * of_int ATLAS_SIZE = of_int (si_x u) \<and> uv_bot gl * of_int ATLAS_SIZE = of_int (si_y u)
     \<and> uv_width gl * of_int ATLAS_SIZE = of_int (si_w u) \<and> uv_height gl * of_int ATLAS_SIZE = of_int (si_h u)"

definition channels :: "pixel_format \<Rightarrow> nat" where
  "channels f = (case f of GL_RGB \<Rightarrow> 3 | GL_RGBA \<Rightarrow> 4)"

text \<open>The rasterizer fills the bitmap of the size it reports.\<close>

definition bitmap_ok :: "rasterized_glyph \<Rightarrow> bool" where
  "bitmap_ok g \<longleftrightarrow> 0 \<le> rg_width g \<and> 0 \<le> rg_height g
     \<and> (case rg_buffer g of Buf_Rgb b \<Rightarrow> length b = 3 * nat (rg_width g) * nat (rg_height g)
                          | Buf_Rgba b \<Rightarrow> length b = 4 * nat (rg_width g) * nat (rg_height g))"

definition data_fits :: "tex_sub_image \<Rightarrow> bool" where
  "data_fits u \<longleftrightarrow> 0 \<le> si_w u \<and> 0 \<le> si_h u \<and> length (si_data u) = channels (si_format u) * nat (si_w u) * nat (si_h u)"

lemmas atlas_defs = placed_def inside_def atlas_ok_def fresh_atlas_def

lemma length_rgb_to_rgba: "length b = 3 * n \<Longrightarrow> length (rgb_to_rgba b) = 4 * n"
proof (induction n arbitrary: b)
  case (Suc n)
  then obtain r g b' xs where "b = r # g # b' # xs" by (auto simp: length_Suc_conv numeral_3_eq_3)
  then show ?case using Suc by simp
qed simp

lemma texture_data_length:
  "bitmap_ok g \<Longrightarrow> texture_data gles (rg_buffer g) = (multi, format, buf) \<Longrightarrow> length buf = channels format * nat (rg_width g) * nat (rg_height g)"
  using length_rgb_to_rgba [of _ "nat (rg_width g) * nat (rg_height g)"]
  by (auto simp: bitmap_ok_def texture_data_def channels_def mult.assoc split: bitmap_buffer.splits if_splits)

lemma advance_row_ok:
  assumes "atlas_ok a" "advance_row a = Some a'"
  shows "atlas_ok a'" "at_id a' = at_id a" "is_gles_context a' = is_gles_context a" "placed a u \<Longrightarrow> placed a' u"
  using assms by (auto simp: advance_row_def atlas_defs Let_def split: if_splits)

lemma insert_inner_ok:
  assumes "atlas_ok a" "bitmap_ok g" "room_in_row a g" "insert_inner a g = (gl, u, a')"
  shows "atlas_ok a'" "at_id a' = at_id a" "is_gles_context a' = is_gles_context a" "placed a v \<Longrightarrow> placed a' v"
    "placed a' u" "placed a v \<Longrightarrow> apart v u" "shows_region gl u" "data_fits u"
proof -
  obtain m f b where d: "texture_data (is_gles_context a) (rg_buffer g) = (m, f, b)" by (metis prod_cases3)
  note i = assms(4) [unfolded insert_inner_def d Let_def, simplified]
  have w: "0 \<le> rg_width g" "0 \<le> rg_height g" using assms(2) by (simp_all add: bitmap_ok_def)
  show "atlas_ok a'" "at_id a' = at_id a" "is_gles_context a' = is_gles_context a" "placed a v \<Longrightarrow> placed a' v" "placed a' u" "placed a v \<Longrightarrow> apart v u"
    using assms(1,3) w i by (auto simp: atlas_defs room_in_row_def apart_def pixel_in_def Let_def)
  show "shows_region gl u" using assms(1) i by (auto simp: shows_region_def atlas_ok_def ATLAS_SIZE_def)
  show "data_fits u" using texture_data_length [OF assms(2) d] i w by (auto simp: data_fits_def)
qed

lemma atlas_insert_ok:
  assumes "atlas_ok a" "bitmap_ok g" "atlas_insert a g = (r, a')"
  shows "atlas_ok a'" "at_id a' = at_id a" "is_gles_context a' = is_gles_context a" "placed a v \<Longrightarrow> placed a' v"
    "r = Inr (gl, u) \<Longrightarrow> placed a' u" "r = Inr (gl, u) \<Longrightarrow> placed a v \<Longrightarrow> apart v u"
    "r = Inr (gl, u) \<Longrightarrow> shows_region gl u" "r = Inr (gl, u) \<Longrightarrow> data_fits u"
proof -
  let ?P = "\<lambda>b r a'. atlas_ok a' \<and> at_id a' = at_id b \<and> is_gles_context a' = is_gles_context b \<and> (placed b v \<longrightarrow> placed a' v)
    \<and> (r = Inr (gl, u) \<longrightarrow> placed a' u \<and> (placed b v \<longrightarrow> apart v u) \<and> shows_region gl u \<and> data_fits u)"
  have inner: "?P b (Inr (gl', u')) b'" if "atlas_ok b" "room_in_row b g" "insert_inner b g = (gl', u', b')" for b b' gl' u'
    using insert_inner_ok [OF that(1) assms(2) that(2,3)] by auto
  have *: "?P a r a'"
  proof (cases "rg_width g > at_width a \<or> rg_height g > at_height a")
    case fits: False
    show ?thesis
    proof (cases "room_in_row a g")
      case True
      then show ?thesis using assms(3) inner [OF assms(1)] fits by (auto simp: atlas_insert_def split: prod.splits)
    next
      case False
      show ?thesis
      proof (cases "advance_row a")
        case (Some b)
        note adv = advance_row_ok [OF assms(1) Some]
        have "?P b r a'" using assms(3) inner [OF adv(1)] fits False Some adv(1) by (auto simp: atlas_insert_def split: prod.splits if_splits)
        then show ?thesis using adv by simp
      qed (use assms fits False in \<open>auto simp: atlas_insert_def\<close>)
    qed
  qed (use assms in \<open>auto simp: atlas_insert_def\<close>)
  then show "atlas_ok a'" "at_id a' = at_id a" "is_gles_context a' = is_gles_context a" "placed a v \<Longrightarrow> placed a' v"
    "r = Inr (gl, u) \<Longrightarrow> placed a' u" "r = Inr (gl, u) \<Longrightarrow> placed a v \<Longrightarrow> apart v u"
    "r = Inr (gl, u) \<Longrightarrow> shows_region gl u" "r = Inr (gl, u) \<Longrightarrow> data_fits u" by blast+
qed

lemma atlas_insert_fresh:
  assumes "fresh_atlas a" "atlas_ok a" "rg_width g \<le> ATLAS_SIZE" "rg_height g < ATLAS_SIZE"
  shows "\<exists>gl u a'. atlas_insert a g = (Inr (gl, u), a')"
proof -
  have "room_in_row a g" using assms by (simp add: room_in_row_def atlas_defs)
  then show ?thesis using assms by (auto simp: atlas_insert_def atlas_defs split: prod.split)
qed

section \<open>All atlases\<close>

definition gl_ok :: "gl_state \<Rightarrow> bool" where
  "gl_ok st \<longleftrightarrow> current_atlas st < length (atlases st) \<and> (\<forall>a \<in> set (atlases st). atlas_ok a)
     \<and> distinct (map at_id (atlases st)) \<and> at_id ` set (atlases st) \<subseteq> set (textures st)
     \<and> (\<forall>i. current_atlas st < i \<and> i < length (atlases st) \<longrightarrow> fresh_atlas (atlases st ! i))
     \<and> (\<forall>u \<in> set (uploads st). data_fits u \<and> (\<exists>i \<le> current_atlas st. placed (atlases st ! i) u))
     \<and> sorted_wrt apart (uploads st)"

lemma gl_okD:
  assumes "gl_ok st"
  shows "current_atlas st < length (atlases st)" "a \<in> set (atlases st) \<Longrightarrow> atlas_ok a" "distinct (map at_id (atlases st))"
    "at_id ` set (atlases st) \<subseteq> set (textures st)" "current_atlas st < i \<Longrightarrow> i < length (atlases st) \<Longrightarrow> fresh_atlas (atlases st ! i)"
    "u \<in> set (uploads st) \<Longrightarrow> \<exists>i \<le> current_atlas st. placed (atlases st ! i) u" "u \<in> set (uploads st) \<Longrightarrow> data_fits u" "sorted_wrt apart (uploads st)"
  using assms by (auto simp: gl_ok_def)

lemma atlas_new_ok: "atlas_ok (atlas_new name ATLAS_SIZE gles)" "fresh_atlas (atlas_new name ATLAS_SIZE gles)"
  by (simp_all add: atlas_defs atlas_new_def ATLAS_SIZE_def)

lemma renderer_new_ok: "gl_ok (renderer_new gen gles)"
  by (auto simp: gl_ok_def renderer_new_def atlas_new_ok) (simp add: atlas_new_def)

lemma clear_atlas_ok: "gl_ok st \<Longrightarrow> gl_ok (clear_atlas st)"
  by (auto simp: gl_ok_def clear_atlas_def comp_def atlas_clear_def atlas_defs ATLAS_SIZE_def)

text \<open>The names of new textures are not in use: this is what \<^verbatim>\<open>glGenTextures\<close> promises.\<close>

definition fresh_names :: "(nat list \<Rightarrow> nat) \<Rightarrow> bool" where
  "fresh_names gen \<longleftrightarrow> (\<forall>used. gen used \<notin> set used)"

lemma next_atlas_ok:
  assumes "gl_ok st" "fresh_names gen"
  shows "gl_ok (next_atlas gen gles st)" "fresh_atlas (atlases (next_atlas gen gles st) ! current_atlas (next_atlas gen gles st))"
    "uploads (next_atlas gen gles st) = uploads st"
proof -
  have new: "at_id (atlas_new (gen (textures st)) ATLAS_SIZE gles) \<notin> at_id ` set (atlases st)"
    using assms gl_okD(4) [OF assms(1)] by (auto simp: fresh_names_def atlas_new_def)
  have old: "i \<le> current_atlas st \<Longrightarrow> placed ((atlases st @ [b]) ! i) u = placed (atlases st ! i) u" for i b u
    using gl_okD(1) [OF assms(1)] by (simp add: nth_append)
  show "fresh_atlas (atlases (next_atlas gen gles st) ! current_atlas (next_atlas gen gles st))" "uploads (next_atlas gen gles st) = uploads st"
    using gl_okD(1,5) [OF assms(1)] by (auto simp: next_atlas_def Let_def nth_append atlas_new_ok)
  show "gl_ok (next_atlas gen gles st)"
  proof (cases "current_atlas st + 1 = length (atlases st)")
    case True
    then have "\<exists>i \<le> length (atlases st). placed ((atlases st @ [b]) ! i) u" if "u \<in> set (uploads st)" for b u
      using gl_okD(6) [OF assms(1) that] old le_SucI by (metis Suc_eq_plus1)
    then show ?thesis using True gl_okD [OF assms(1)] new
      by (auto simp: gl_ok_def next_atlas_def Let_def atlas_new_ok) (auto simp: atlas_new_def)
  next
    case False
    have "\<exists>i \<le> Suc (current_atlas st). placed (atlases st ! i) u" if "u \<in> set (uploads st)" for u
      using gl_okD(6) [OF assms(1) that] le_SucI by blast
    then show ?thesis using False gl_okD(1-5,7,8) [OF assms(1)] by (auto simp: gl_ok_def next_atlas_def Let_def)
  qed
qed

lemma set_atlas_ok:
  assumes "gl_ok st" "bitmap_ok g" "atlas_insert (atlases st ! current_atlas st) g = (r, a')"
  shows "gl_ok (st\<lparr>atlases := (atlases st)[current_atlas st := a']\<rparr>)"
    "r = Inr (gl, u) \<Longrightarrow> gl_ok (st\<lparr>atlases := (atlases st)[current_atlas st := a'], active_tex := 0, uploads := uploads st @ [u]\<rparr>)"
    "r = Inr (gl, u) \<Longrightarrow> shows_region gl u"
proof -
  let ?c = "current_atlas st" and ?as = "atlases st"
  note D = gl_okD [OF assms(1)] and I = atlas_insert_ok [OF D(2) assms(2,3), OF nth_mem [OF D(1)]]
  have ids: "map at_id (?as[?c := a']) = map at_id ?as" using D(1) I(2) by (simp add: map_update list_update_same_conv)
  then have names: "at_id ` set (?as[?c := a']) = at_id ` set ?as" by (metis list.set_map)
  have oks: "\<forall>a \<in> set (?as[?c := a']). atlas_ok a" using D(2) I(1) set_update_subset_insert by fastforce
  have kept: "placed (?as[?c := a'] ! i) v" if "i \<le> ?c" "placed (?as ! i) v" for i v
    using that D(1) I(4) by (cases "i = ?c") simp_all
  then have "\<exists>i \<le> ?c. placed (?as[?c := a'] ! i) v" if "v \<in> set (uploads st)" for v
    using D(6) [OF that] by blast
  then show ok: "gl_ok (st\<lparr>atlases := ?as[?c := a']\<rparr>)"
    using D(1,3-5,7,8) oks unfolding gl_ok_def by (auto simp: ids names)
  assume r: "r = Inr (gl, u)"
  show "shows_region gl u" using I(7) r by blast
  have "apart v u" if v: "v \<in> set (uploads st)" for v
  proof -
    obtain i where i: "i \<le> ?c" "placed (?as ! i) v" using D(6) [OF v] by blast
    show ?thesis
    proof (cases "i = ?c")
      case False
      then have "at_id (?as ! i) \<noteq> at_id (?as ! ?c)" using i(1) D(1,3) by (simp add: distinct_conv_nth)
      then show ?thesis using i(2) I(2) I(5) [OF r] by (simp add: apart_def placed_def)
    qed (use I(6) [OF r] i in simp)
  qed
  then show "gl_ok (st\<lparr>atlases := ?as[?c := a'], active_tex := 0, uploads := uploads st @ [u]\<rparr>)"
    using ok I(5,8) [OF r] D(1) unfolding gl_ok_def by (auto simp: sorted_wrt_append)
qed

section \<open>Loading returns\<close>

lemma load_glyph_step:
  assumes "gl_ok st" "atlas_insert (atlases st ! current_atlas st) g = (r, a')"
  shows "atlas_load_glyph gen g st =
    (let st = st\<lparr>atlases := (atlases st)[current_atlas st := a']\<rparr> in
     case r of
       Inr (gl, upload) \<Rightarrow> Some (gl, st\<lparr>active_tex := 0, uploads := uploads st @ [upload]\<rparr>)
     | Inl Full \<Rightarrow> atlas_load_glyph gen g (next_atlas gen (is_gles_context a') st)
     | Inl GlyphTooLarge \<Rightarrow> Some (empty_glyph (at_id a'), st))"
  using gl_okD(1) [OF assms(1)] assms(2) by (subst atlas_load_glyph.simps) (simp add: vec_get_def Let_def)

definition loaded_ok :: "gl_state \<Rightarrow> glyph \<Rightarrow> gl_state \<Rightarrow> bool" where
  "loaded_ok st gl st' \<longleftrightarrow> gl_ok st'
     \<and> (uploads st' = uploads st \<and> gl_width gl = 0 \<and> gl_height gl = 0 \<or> (\<exists>u. uploads st' = uploads st @ [u] \<and> shows_region gl u))"

lemma load_inserted:
  assumes "gl_ok st" "bitmap_ok g" "atlas_insert (atlases st ! current_atlas st) g = (Inr (gl, u), a')"
  shows "ok (atlas_load_glyph gen g st) (\<lambda>(gl, st'). loaded_ok st gl st')"
  using set_atlas_ok(2,3) [OF assms] load_glyph_step [OF assms(1,3)] by (simp add: loaded_ok_def)

lemma atlas_insert_too_large: "atlas_ok a \<Longrightarrow>
   fst (atlas_insert a g) = Inl GlyphTooLarge \<longleftrightarrow> rg_width g > ATLAS_SIZE \<or> rg_height g > ATLAS_SIZE"
  by (simp add: atlas_insert_def atlas_ok_def split: option.split prod.split)

lemma atlas_load_glyph_ok:
  assumes "gl_ok st" "fresh_names gen" "bitmap_ok g" "rg_height g \<noteq> ATLAS_SIZE \<or> rg_width g > ATLAS_SIZE"
  shows "ok (atlas_load_glyph gen g st) (\<lambda>(gl, st'). loaded_ok st gl st')"
proof -
  let ?a = "atlases st ! current_atlas st"
  have a: "atlas_ok ?a" using gl_okD(1,2) [OF assms(1)] nth_mem by blast
  obtain r a' where i: "atlas_insert ?a g = (r, a')" by (metis surj_pair)
  note S = set_atlas_ok [OF assms(1,3) i] and step = load_glyph_step [OF assms(1) i, of gen]
  show ?thesis
  proof (cases "rg_width g > ATLAS_SIZE \<or> rg_height g > ATLAS_SIZE")
    case True
    then have "r = Inl GlyphTooLarge" using atlas_insert_too_large [OF a, of g] i by simp
    then show ?thesis using step S(1) by (simp add: loaded_ok_def empty_glyph_def)
  next
    case small: False
    consider gl u where "r = Inr (gl, u)" | "r = Inl Full"
      using atlas_insert_too_large [OF a, of g] i small by (cases r) (auto elim: atlas_insert_error.exhaust)
    then show ?thesis
    proof cases
      case 2
      let ?st = "next_atlas gen (is_gles_context a') (st\<lparr>atlases := (atlases st)[current_atlas st := a']\<rparr>)"
      note N = next_atlas_ok [OF S(1) assms(2), of "is_gles_context a'"]
      have n: "atlas_ok (atlases ?st ! current_atlas ?st)" using gl_okD(1,2) [OF N(1)] nth_mem by blast
      obtain gl u b where "atlas_insert (atlases ?st ! current_atlas ?st) g = (Inr (gl, u), b)"
        using atlas_insert_fresh [OF N(2) n, of g] small assms(4) by (metis linorder_not_less order_le_neq_trans)
      then have "ok (atlas_load_glyph gen g ?st) (\<lambda>(gl, st'). loaded_ok ?st gl st')" by (rule load_inserted [OF N(1) assms(3)])
      then show ?thesis using 2 step N(3) by (simp add: loaded_ok_def)
    qed (use load_inserted [OF assms(1,3)] i in blast)
  qed
qed

text \<open>A glyph that is as high as the texture passes the check of its size and fits into no row.\<close>

lemma exact_height_full:
  assumes "atlas_ok a" "rg_height g = ATLAS_SIZE" "rg_width g \<le> ATLAS_SIZE"
  shows "fst (atlas_insert a g) = Inl Full"
proof -
  have "\<not> room_in_row b g" if "atlas_ok b" for b using assms(2) that by (simp add: room_in_row_def atlas_ok_def)
  then show ?thesis using assms advance_row_ok(1) [OF assms(1)]
    by (auto simp: atlas_insert_def atlas_ok_def split: option.split)
qed

lemma load_exact_height_diverges:
  assumes "rg_height g = ATLAS_SIZE" "rg_width g \<le> ATLAS_SIZE" "bitmap_ok g" "fresh_names gen" "gl_ok st"
  shows "atlas_load_glyph gen g st = None"
proof (rule ccontr)
  assume "atlas_load_glyph gen g st \<noteq> None"
  then obtain y where y: "atlas_load_glyph gen g st = Some y" by blast
  have "gen' = gen \<longrightarrow> g' = g \<longrightarrow> \<not> gl_ok st'" if "atlas_load_glyph gen' g' st' = Some y'" for gen' g' st' y'
  proof (rule atlas_load_glyph.raw_induct [OF _ that])
    fix load gen' g' and st' :: gl_state and y'
    let ?a = "atlases st' ! current_atlas st'"
    assume IH: "\<And>gen' g' st' y'. load gen' g' st' = Some y' \<Longrightarrow> gen' = gen \<longrightarrow> g' = g \<longrightarrow> \<not> gl_ok st'"
      and step: "Option.bind (vec_get (atlases st') (current_atlas st')) (\<lambda>a. let (r, a') = atlas_insert a g'; st = st'\<lparr>atlases := (atlases st')[current_atlas st' := a']\<rparr> in
         case r of Inl Full \<Rightarrow> load gen' g' (next_atlas gen' (is_gles_context a') st) | Inl GlyphTooLarge \<Rightarrow> Some (empty_glyph (at_id a'), st)
         | Inr (gl, upload) \<Rightarrow> Some (gl, st\<lparr>active_tex := 0, uploads := uploads st @ [upload]\<rparr>)) = Some y'"
    have False if eq: "gen' = gen" "g' = g" and ok: "gl_ok st'"
    proof -
      have "atlas_ok ?a" using gl_okD(1,2) [OF ok] nth_mem by blast
      then obtain a' where i: "atlas_insert ?a g = (Inl Full, a')" using exact_height_full [OF _ assms(1,2)] by (metis prod.collapse)
      let ?st = "st'\<lparr>atlases := (atlases st')[current_atlas st' := a']\<rparr>"
      have "load gen g (next_atlas gen (is_gles_context a') ?st) = Some y'"
        using step gl_okD(1) [OF ok] i eq by (simp add: vec_get_def)
      moreover have "gl_ok (next_atlas gen (is_gles_context a') ?st)"
        by (rule next_atlas_ok(1) [OF set_atlas_ok(1) [OF ok assms(3) i] assms(4)])
      ultimately show False using IH by blast
    qed
    then show "gen' = gen \<longrightarrow> g' = g \<longrightarrow> \<not> gl_ok st'" by blast
  qed
  then show False using y assms(5) by blast
qed

end
