(* ===== verification/Glyph_Cache.thy ===== *)
theory Glyph_Cache
  imports Glyph_Atlas
begin

text \<open>
  The glyph cache (\<^verbatim>\<open>src/alacritty/src/renderer/text/glyph_cache.rs\<close>) and the font configuration it reads
  (\<^verbatim>\<open>config/font.rs\<close>).

  The rasterizer of the crate \<^verbatim>\<open>crossfont\<close> is a parameter with a state of its own; so are the widths of characters and
  the built-in font. The invariant is that every glyph in the cache is still in graphics memory where the
  cache says, which the two components keep together: the atlases are cleared exactly when the cache is.
\<close>

section \<open>Fonts\<close>

record metrics =
  average_advance :: rat
  line_height :: rat
  descent :: rat
  underline_position :: rat
  underline_thickness :: rat
  strikeout_position :: rat
  strikeout_thickness :: rat

record glyph_key =
  gk_character :: uchar
  gk_font :: nat
  gk_size :: nat

datatype slant = Slant_Normal | Slant_Italic
datatype weight = Weight_Normal | Weight_Bold
datatype style = Style_Specific string | Style_Description slant weight

type_synonym font_desc = "string \<times> style"

datatype rasterizer_error = MissingGlyph rasterized_glyph | FontNotLoaded | PlatformError

record 'r font_env =
  get_glyph :: "'r \<Rightarrow> glyph_key \<Rightarrow> (rasterizer_error + rasterized_glyph) \<times> 'r"
  get_metrics :: "'r \<Rightarrow> nat \<Rightarrow> nat \<Rightarrow> (rasterizer_error + metrics) \<times> 'r"
  load_font :: "'r \<Rightarrow> font_desc \<Rightarrow> nat \<Rightarrow> (rasterizer_error + nat) \<times> 'r"
  default_glyph :: rasterized_glyph
  builtin_glyph :: "uchar \<Rightarrow> metrics \<Rightarrow> int \<times> int \<Rightarrow> int \<times> int \<Rightarrow> rasterized_glyph option"
  glyph_char_width :: "uchar \<Rightarrow> nat option"

record font_description =
  fd_family :: string
  fd_style :: "string option"

record secondary_font_description =
  sd_family :: "string option"
  sd_style :: "string option"

definition font_description_default :: font_description where
  "font_description_default = \<lparr>fd_family = ''monospace'', fd_style = None\<rparr>"

definition secondary_desc :: "secondary_font_description \<Rightarrow> font_description \<Rightarrow> font_description" where
  "secondary_desc s fallback =
     \<lparr>fd_family = (case sd_family s of None \<Rightarrow> fd_family fallback | Some f \<Rightarrow> f), fd_style = sd_style s\<rparr>"

text \<open>Sizes are opaque; the field of the removed option \<^verbatim>\<open>use_thin_strokes\<close> is not used and left out.\<close>

record font =
  fc_offset :: "int \<times> int"
  fc_glyph_offset :: "int \<times> int"
  fc_normal :: font_description
  fc_bold :: secondary_font_description
  fc_italic :: secondary_font_description
  fc_bold_italic :: secondary_font_description
  fc_size :: nat
  fc_builtin_box_drawing :: bool

definition font_with_size :: "font \<Rightarrow> nat \<Rightarrow> font" where
  "font_with_size f n = f\<lparr>fc_size := n\<rparr>"

definition font_bold :: "font \<Rightarrow> font_description" where
  "font_bold f = secondary_desc (fc_bold f) (fc_normal f)"

definition font_italic :: "font \<Rightarrow> font_description" where
  "font_italic f = secondary_desc (fc_italic f) (fc_normal f)"

definition font_bold_italic :: "font \<Rightarrow> font_description" where
  "font_bold_italic f = secondary_desc (fc_bold_italic f) (fc_normal f)"

section \<open>The cache\<close>

record 'r glyph_cache =
  gc_cache :: "glyph_key \<rightharpoonup> glyph"
  gc_rasterizer :: 'r
  font_key :: nat
  bold_key :: nat
  italic_key :: nat
  bold_italic_key :: nat
  font_size :: nat
  font_offset :: "int \<times> int"
  glyph_offset :: "int \<times> int"
  gc_metrics :: metrics
  builtin_box_drawing :: bool

definition make_desc :: "font_description \<Rightarrow> slant \<Rightarrow> weight \<Rightarrow> font_desc" where
  "make_desc d sl w = (fd_family d, case fd_style d of Some spec \<Rightarrow> Style_Specific spec | None \<Rightarrow> Style_Description sl w)"

text \<open>Results of fallible calls come with the state of the rasterizer, which changes also when they fail.\<close>

definition load_regular_font :: "'r font_env \<Rightarrow> font_desc \<Rightarrow> nat \<Rightarrow> 'r \<Rightarrow> (rasterizer_error + nat) \<times> 'r" where
  "load_regular_font F d n r =
     (case load_font F r d n of
        (Inr k, r) \<Rightarrow> (Inr k, r)
      | (Inl err, r) \<Rightarrow> load_font F r (make_desc font_description_default Slant_Normal Weight_Normal) n)"

definition load_or_regular :: "'r font_env \<Rightarrow> nat \<Rightarrow> font_desc \<Rightarrow> nat \<Rightarrow> font_desc \<Rightarrow> 'r \<Rightarrow> nat \<times> 'r" where
  "load_or_regular F n regular_desc regular d r =
     (if d = regular_desc then (regular, r)
      else case load_font F r d n of (Inr k, r) \<Rightarrow> (k, r) | (Inl err, r) \<Rightarrow> (regular, r))"

definition compute_font_keys :: "'r font_env \<Rightarrow> font \<Rightarrow> 'r \<Rightarrow> (rasterizer_error + nat \<times> nat \<times> nat \<times> nat) \<times> 'r" where
  "compute_font_keys F f r =
     (let n = fc_size f;
          regular_desc = make_desc (fc_normal f) Slant_Normal Weight_Normal
      in case load_regular_font F regular_desc n r of
           (Inl err, r) \<Rightarrow> (Inl err, r)
         | (Inr regular, r) \<Rightarrow>
             let (bold, r) = load_or_regular F n regular_desc regular (make_desc (font_bold f) Slant_Normal Weight_Bold) r;
                 (italic, r) = load_or_regular F n regular_desc regular (make_desc (font_italic f) Slant_Italic Weight_Normal) r;
                 (bold_italic, r) = load_or_regular F n regular_desc regular (make_desc (font_bold_italic f) Slant_Italic Weight_Bold) r
             in (Inr (regular, bold, italic, bold_italic), r))"

definition load_font_metrics :: "'r font_env \<Rightarrow> font \<Rightarrow> nat \<Rightarrow> 'r \<Rightarrow> (rasterizer_error + metrics) \<times> 'r" where
  "load_font_metrics F f k r =
     (case get_glyph F r \<lparr>gk_character = 109, gk_font = k, gk_size = fc_size f\<rparr> of
        (Inl err, r) \<Rightarrow> (Inl err, r)
      | (Inr _, r) \<Rightarrow>
          (case get_metrics F r k (fc_size f) of
             (Inl err, r) \<Rightarrow> (Inl err, r)
           | (Inr m, r) \<Rightarrow> (Inr (m\<lparr>strikeout_position := strikeout_position m + of_int (snd (fc_glyph_offset f))\<rparr>), r)))"

definition glyph_cache_new :: "'r font_env \<Rightarrow> 'r \<Rightarrow> font \<Rightarrow> rasterizer_error + 'r glyph_cache" where
  "glyph_cache_new F r f =
     (case compute_font_keys F f r of
        (Inl err, _) \<Rightarrow> Inl err
      | (Inr (regular, bold, italic, bold_italic), r) \<Rightarrow>
          (case load_font_metrics F f regular r of
             (Inl err, _) \<Rightarrow> Inl err
           | (Inr m, r) \<Rightarrow>
               Inr \<lparr>gc_cache = Map.empty, gc_rasterizer = r, font_key = regular, bold_key = bold, italic_key = italic,
                    bold_italic_key = bold_italic, font_size = fc_size f, font_offset = fc_offset f, glyph_offset = fc_glyph_offset f,
                    gc_metrics = m, builtin_box_drawing = fc_builtin_box_drawing f\<rparr>))"

text \<open>The offsets are stored first: they change even when the fonts cannot be loaded.\<close>

definition update_font_size :: "'r font_env \<Rightarrow> font \<Rightarrow> 'r glyph_cache \<Rightarrow> (rasterizer_error + unit) \<times> 'r glyph_cache" where
  "update_font_size F f gc =
     (let gc = gc\<lparr>font_offset := fc_offset f, glyph_offset := fc_glyph_offset f\<rparr> in
      case compute_font_keys F f (gc_rasterizer gc) of
        (Inl err, r) \<Rightarrow> (Inl err, gc\<lparr>gc_rasterizer := r\<rparr>)
      | (Inr (regular, bold, italic, bold_italic), r) \<Rightarrow>
          (case load_font_metrics F f regular r of
             (Inl err, r) \<Rightarrow> (Inl err, gc\<lparr>gc_rasterizer := r\<rparr>)
           | (Inr m, r) \<Rightarrow>
               (Inr (), gc\<lparr>gc_rasterizer := r, font_size := fc_size f, font_key := regular, bold_key := bold, italic_key := italic,
                          bold_italic_key := bold_italic, gc_metrics := m, builtin_box_drawing := fc_builtin_box_drawing f\<rparr>)))"

text \<open>\<^verbatim>\<open>as i32\<close> on a float rounds towards zero.\<close>

definition as_i32 :: "rat \<Rightarrow> int" where
  "as_i32 x = (if 0 \<le> x then \<lfloor>x\<rfloor> else \<lceil>x\<rceil>)"

definition position_glyph :: "'r font_env \<Rightarrow> 'r glyph_cache \<Rightarrow> rasterized_glyph \<Rightarrow> rasterized_glyph" where
  "position_glyph F gc g =
     (let g = g\<lparr>rg_left := rg_left g + fst (glyph_offset gc)\<rparr>;
          g = g\<lparr>rg_top := rg_top g + snd (glyph_offset gc)\<rparr>;
          g = g\<lparr>rg_top := rg_top g - as_i32 (descent (gc_metrics gc))\<rparr>
      in if glyph_char_width F (rg_character g) = Some 0
         then g\<lparr>rg_left := rg_left g + as_i32 (average_advance (gc_metrics gc))\<rparr> else g)"

definition cache_load_glyph ::
  "'r font_env \<Rightarrow> (nat list \<Rightarrow> nat) \<Rightarrow> 'r glyph_cache \<Rightarrow> rasterized_glyph \<Rightarrow> gl_state \<Rightarrow> (glyph \<times> gl_state) option" where
  "cache_load_glyph F gen gc g st = atlas_load_glyph gen (position_glyph F gc g) st"

definition rasterize_key ::
  "'r font_env \<Rightarrow> glyph_key \<Rightarrow> 'r glyph_cache \<Rightarrow> (rasterizer_error + rasterized_glyph) \<times> 'r glyph_cache" where
  "rasterize_key F k gc =
     (case (if builtin_box_drawing gc then builtin_glyph F (gk_character k) (gc_metrics gc) (font_offset gc) (glyph_offset gc) else None) of
        Some g \<Rightarrow> (Inr g, gc)
      | None \<Rightarrow> let (x, r) = get_glyph F (gc_rasterizer gc) k in (x, gc\<lparr>gc_rasterizer := r\<rparr>))"

text \<open>The pattern \<^verbatim>\<open>Err(MissingGlyph(rasterized)) if show_missing\<close>.\<close>

definition missing_glyph :: "rasterizer_error + rasterized_glyph \<Rightarrow> bool \<Rightarrow> rasterized_glyph option" where
  "missing_glyph rasterized show_missing = (case rasterized of
     Inl (MissingGlyph g) \<Rightarrow> if show_missing then Some g else None
   | _ \<Rightarrow> None)"

definition cache_get ::
  "'r font_env \<Rightarrow> (nat list \<Rightarrow> nat) \<Rightarrow> glyph_key \<Rightarrow> bool \<Rightarrow> 'r glyph_cache \<times> gl_state \<Rightarrow> (glyph \<times> 'r glyph_cache \<times> gl_state) option" where
  "cache_get F gen k show_missing = (\<lambda>(gc, st).
     case gc_cache gc k of
       Some gl \<Rightarrow> Some (gl, gc, st)
     | None \<Rightarrow> (let (rasterized, gc) = rasterize_key F k gc in do {
         (gl, gc, st) \<leftarrow>
           (case missing_glyph rasterized show_missing of
              Some g \<Rightarrow>
                (let missing_key = k\<lparr>gk_character := 0\<rparr> in
                 case gc_cache gc missing_key of
                   Some gl \<Rightarrow> Some (gl, gc, st)
                 | None \<Rightarrow> do {
                     (gl, st) \<leftarrow> cache_load_glyph F gen gc g st;
                     Some (gl, gc\<lparr>gc_cache := (gc_cache gc)(missing_key \<mapsto> gl)\<rparr>, st)
                   })
            | None \<Rightarrow> do {
                 (gl, st) \<leftarrow> cache_load_glyph F gen gc (case rasterized of Inr g \<Rightarrow> g | Inl _ \<Rightarrow> default_glyph F) st;
                 Some (gl, gc, st)
               });
         case gc_cache gc k of
           Some gl \<Rightarrow> Some (gl, gc, st)
         | None \<Rightarrow> Some (gl, gc\<lparr>gc_cache := (gc_cache gc)(k \<mapsto> gl)\<rparr>, st)
       }))"

definition load_glyphs_for_font ::
  "'r font_env \<Rightarrow> (nat list \<Rightarrow> nat) \<Rightarrow> nat \<Rightarrow> 'r glyph_cache \<times> gl_state \<Rightarrow> ('r glyph_cache \<times> gl_state) option" where
  "load_glyphs_for_font F gen f s = for_each [32..<127] (\<lambda>i s. do {
     (_, gc, st) \<leftarrow> cache_get F gen \<lparr>gk_character = i, gk_font = f, gk_size = font_size (fst s)\<rparr> True s;
     Some (gc, st)
   }) s"

definition load_common_glyphs ::
  "'r font_env \<Rightarrow> (nat list \<Rightarrow> nat) \<Rightarrow> 'r glyph_cache \<times> gl_state \<Rightarrow> ('r glyph_cache \<times> gl_state) option" where
  "load_common_glyphs F gen s = do {
     s \<leftarrow> load_glyphs_for_font F gen (font_key (fst s)) s;
     s \<leftarrow> load_glyphs_for_font F gen (bold_key (fst s)) s;
     s \<leftarrow> load_glyphs_for_font F gen (italic_key (fst s)) s;
     load_glyphs_for_font F gen (bold_italic_key (fst s)) s
   }"

definition reset_glyph_cache ::
  "'r font_env \<Rightarrow> (nat list \<Rightarrow> nat) \<Rightarrow> 'r glyph_cache \<times> gl_state \<Rightarrow> ('r glyph_cache \<times> gl_state) option" where
  "reset_glyph_cache F gen = (\<lambda>(gc, st). load_common_glyphs F gen (gc\<lparr>gc_cache := Map.empty\<rparr>, clear_atlas st))"

section \<open>Cached glyphs are in memory\<close>

definition in_memory :: "gl_state \<Rightarrow> glyph \<Rightarrow> bool" where
  "in_memory st gl \<longleftrightarrow> gl_width gl = 0 \<and> gl_height gl = 0 \<or> (\<exists>u \<in> set (uploads st). shows_region gl u)"

definition cache_ok :: "'r glyph_cache \<times> gl_state \<Rightarrow> bool" where
  "cache_ok = (\<lambda>(gc, st). gl_ok st \<and> (\<forall>gl \<in> ran (gc_cache gc). in_memory st gl))"

text \<open>Glyphs that can be loaded: their bitmap has the size they claim and they are not exactly as high as a texture.\<close>

definition loadable :: "rasterized_glyph \<Rightarrow> bool" where
  "loadable g \<longleftrightarrow> bitmap_ok g \<and> (rg_height g \<noteq> ATLAS_SIZE \<or> rg_width g > ATLAS_SIZE)"

definition font_env_ok :: "'r font_env \<Rightarrow> bool" where
  "font_env_ok F \<longleftrightarrow> loadable (default_glyph F)
     \<and> (\<forall>r k r' x. get_glyph F r k = (x, r') \<longrightarrow> (\<forall>g. x = Inr g \<or> x = Inl (MissingGlyph g) \<longrightarrow> loadable g))
     \<and> (\<forall>c m f o' g. builtin_glyph F c m f o' = Some g \<longrightarrow> loadable g)"

lemma position_glyph_fields [simp]:
  "rg_width (position_glyph F gc g) = rg_width g" "rg_height (position_glyph F gc g) = rg_height g"
  "rg_buffer (position_glyph F gc g) = rg_buffer g"
  by (simp_all add: position_glyph_def Let_def)

lemma bitmap_position [simp]: "bitmap_ok (position_glyph F gc g) = bitmap_ok g"
  by (simp add: bitmap_ok_def cong: bitmap_buffer.case_cong)

lemma cache_load_glyph_ok:
  assumes "gl_ok st" "fresh_names gen" "loadable g"
  shows "ok (cache_load_glyph F gen gc g st) (\<lambda>(gl, st'). gl_ok st' \<and> in_memory st' gl \<and> set (uploads st) \<subseteq> set (uploads st'))"
proof -
  have "bitmap_ok (position_glyph F gc g)" "rg_height (position_glyph F gc g) \<noteq> ATLAS_SIZE \<or> rg_width (position_glyph F gc g) > ATLAS_SIZE"
    using assms(3) by (auto simp: loadable_def)
  then have "ok (cache_load_glyph F gen gc g st) (\<lambda>(gl, st'). loaded_ok st gl st')"
    unfolding cache_load_glyph_def by (rule atlas_load_glyph_ok [OF assms(1,2)])
  then show ?thesis by (rule ok_mono) (auto simp: loaded_ok_def in_memory_def)
qed

lemma in_memory_mono: "in_memory st gl \<Longrightarrow> set (uploads st) \<subseteq> set (uploads st') \<Longrightarrow> in_memory st' gl"
  by (auto simp: in_memory_def)

lemma rasterize_key_loadable:
  assumes "font_env_ok F" "rasterize_key F k gc = (x, gc')"
  shows "x = Inr g \<Longrightarrow> loadable g" "missing_glyph x b = Some g \<Longrightarrow> loadable g" "gc_cache gc' = gc_cache gc"
  using assms by (auto simp: rasterize_key_def font_env_ok_def missing_glyph_def simp del: split_paired_All split: option.splits prod.splits if_splits sum.splits rasterizer_error.splits)

text \<open>A lookup answers with a glyph in memory, remembers it and keeps what was cached before.\<close>

definition looked_up :: "glyph_key \<Rightarrow> 'r glyph_cache \<times> gl_state \<Rightarrow> glyph \<times> 'r glyph_cache \<times> gl_state \<Rightarrow> bool" where
  "looked_up k s = (\<lambda>(gl, gc, st). cache_ok (gc, st) \<and> in_memory st gl \<and> gc_cache gc k = Some gl \<and> gc_cache (fst s) \<subseteq>\<^sub>m gc_cache gc)"

lemma cache_ok_load:
  assumes "cache_ok (gc, st)" "gl_ok st'" "set (uploads st) \<subseteq> set (uploads st')" "in_memory st' gl"
  shows "cache_ok (gc\<lparr>gc_cache := (gc_cache gc)(k \<mapsto> gl)\<rparr>, st')" "cache_ok (gc, st')"
  using assms in_memory_mono [OF _ assms(3)] by (auto simp: cache_ok_def ran_def)

lemma cache_get_ok:
  assumes "cache_ok (gc, st)" "fresh_names gen" "font_env_ok F"
  shows "ok (cache_get F gen k show_missing (gc, st)) (looked_up k (gc, st))"
proof (cases "gc_cache gc k")
  case None
  obtain x gc' where r: "rasterize_key F k gc = (x, gc')" by (metis surj_pair)
  note R = rasterize_key_loadable [OF assms(3) r]
  have ok: "cache_ok (gc', st)" "gl_ok st" using assms(1) R(3) by (auto simp: cache_ok_def)
  let ?g = "case x of Inr g \<Rightarrow> g | Inl _ \<Rightarrow> default_glyph F" and ?mk = "k\<lparr>gk_character := 0\<rparr>"
  have load: "ok (cache_load_glyph F gen gc' g st) (\<lambda>(gl, st'). gl_ok st' \<and> in_memory st' gl \<and> set (uploads st) \<subseteq> set (uploads st'))" if "loadable g" for g
    by (rule cache_load_glyph_ok [OF ok(2) assms(2) that])
  have g: "loadable ?g" using R(1) assms(3) by (auto simp: font_env_ok_def split: sum.split)
  note defs = cache_get_def None r R(3) looked_up_def map_le_def
  show ?thesis
  proof (cases "missing_glyph x show_missing")
    case n: None
    from load [OF g] obtain gl st' where l: "cache_load_glyph F gen gc' ?g st = Some (gl, st')" "gl_ok st'" "in_memory st' gl" "set (uploads st) \<subseteq> set (uploads st')"
      by (auto elim!: okE)
    show ?thesis using cache_ok_load [OF ok(1) l(2,4,3)] l n by (auto simp: defs)
  next
    case (Some m)
    show ?thesis
    proof (cases "gc_cache gc ?mk")
      case n: None
      from load [OF R(2) [OF Some]] obtain gl st' where l: "cache_load_glyph F gen gc' m st = Some (gl, st')" "gl_ok st'" "in_memory st' gl" "set (uploads st) \<subseteq> set (uploads st')"
        by (auto elim!: okE)
      note A = cache_ok_load(1) [OF ok(1) l(2,4,3), of ?mk]
      show ?thesis using A cache_ok_load(1) [OF A l(2) _ l(3), of k] l n Some by (auto simp: defs)
    next
      case (Some gl)
      then have "in_memory st gl" using assms(1) by (auto simp: cache_ok_def ran_def)
      then show ?thesis using cache_ok_load(1) [OF ok order_refl, where gl = gl and k = k] Some \<open>missing_glyph x show_missing = Some m\<close> by (auto simp: defs)
    qed
  qed
qed (use assms(1) in \<open>auto simp: cache_get_def looked_up_def cache_ok_def ran_def\<close>)

lemma cache_get_keeps: "cache_ok s \<Longrightarrow> fresh_names gen \<Longrightarrow> font_env_ok F \<Longrightarrow>
    ok (cache_get F gen k b s) (\<lambda>(gl, s'). cache_ok s')"
  using cache_get_ok [of "fst s" "snd s" gen F k b] by (cases s) (fastforce simp: looked_up_def elim!: ok_mono)

lemma load_glyphs_for_font_ok:
  assumes "cache_ok s" "fresh_names gen" "font_env_ok F"
  shows "ok (load_glyphs_for_font F gen f s) cache_ok"
proof -
  have "ok (case x of (gl, gc, st) \<Rightarrow> Some (gc, st)) cache_ok" if "case x of (gl, s') \<Rightarrow> cache_ok s'" for x :: "glyph \<times> 'a glyph_cache \<times> gl_state"
    using that by (cases x) auto
  then show ?thesis unfolding load_glyphs_for_font_def
    by (intro ok_for_each_inv) (auto simp: assms intro!: ok_mono [OF cache_get_keeps [OF _ assms(2,3)]])
qed

lemma reset_glyph_cache_ok:
  assumes "gl_ok st" "fresh_names gen" "font_env_ok F"
  shows "ok (reset_glyph_cache F gen (gc, st)) cache_ok"
proof -
  note L = load_glyphs_for_font_ok [OF _ assms(2,3)]
  have "cache_ok (gc\<lparr>gc_cache := Map.empty\<rparr>, clear_atlas st)" using clear_atlas_ok [OF assms(1)] by (simp add: cache_ok_def)
  then show ?thesis by (simp add: reset_glyph_cache_def load_common_glyphs_def) (intro ok_mono [OF L] L)
qed

text \<open>The states of the cache and the atlases: a new cache, lookups, a new font followed by a reset.\<close>

inductive cache_run :: "'r font_env \<Rightarrow> (nat list \<Rightarrow> nat) \<Rightarrow> 'r glyph_cache \<times> gl_state \<Rightarrow> bool" for F gen where
  start: "glyph_cache_new F r f = Inr gc \<Longrightarrow> cache_run F gen (gc, renderer_new gen gles)"
| lookup: "cache_run F gen s \<Longrightarrow> cache_get F gen k b s = Some (gl, s') \<Longrightarrow> cache_run F gen s'"
| reset: "cache_run F gen (gc, st) \<Longrightarrow> update_font_size F f gc = (x, gc') \<Longrightarrow> reset_glyph_cache F gen (gc', st) = Some s' \<Longrightarrow> cache_run F gen s'"

lemma cache_run_ok: "cache_run F gen s \<Longrightarrow> fresh_names gen \<Longrightarrow> font_env_ok F \<Longrightarrow> cache_ok s"
proof (induction rule: cache_run.induct)
  case (start r f gc gles)
  then have "gc_cache gc = Map.empty" by (auto simp: glyph_cache_new_def split: prod.splits sum.splits)
  then show ?case by (simp add: cache_ok_def renderer_new_ok)
next
  case (lookup s k b gl s')
  then show ?case using cache_get_keeps [of s gen F k b] by auto
next
  case (reset gc st f x gc' s')
  then show ?case using reset_glyph_cache_ok [of st gen F gc'] by (auto simp: cache_ok_def)
qed


text \<open>
  C39 (error): a glyph that is exactly as high as a texture, and not too wide, is never loaded. It passes the check of its size, but a row
  takes only glyphs that are lower than the space above it; \<^verbatim>\<open>load_glyph\<close> creates one texture after the other and does not return.
\<close>

theorem tall_glyph_diverges:
  assumes "cache_run F gen (gc, st)" "fresh_names gen" "font_env_ok F"
    and "bitmap_ok g" "rg_height g = ATLAS_SIZE" "rg_width g \<le> ATLAS_SIZE"
  shows "cache_load_glyph F gen gc g st = None"
proof -
  have "gl_ok st" using cache_run_ok [OF assms(1-3)] by (simp add: cache_ok_def)
  then show ?thesis unfolding cache_load_glyph_def
    by (rule load_exact_height_diverges [rotated 4]) (use assms in simp_all)
qed

section \<open>Witnesses\<close>

definition demo_names :: "nat list \<Rightarrow> nat" where
  "demo_names used = Suc (sum_list used)"

definition demo_bitmap :: "int \<Rightarrow> rasterized_glyph" where
  "demo_bitmap h = \<lparr>rg_character = 65, rg_width = 2, rg_height = h, rg_top = 0, rg_left = 0, rg_buffer = Buf_Rgb (replicate (6 * nat h) 7)\<rparr>"

definition demo_metrics :: metrics where
  "demo_metrics = \<lparr>average_advance = 7, line_height = 14, descent = -3, underline_position = -1, underline_thickness = 1,
     strikeout_position = 5, strikeout_thickness = 1\<rparr>"

definition demo_fonts :: "unit font_env" where
  "demo_fonts = \<lparr>get_glyph = \<lambda>r k. (if gk_character k < 128 then Inr (demo_bitmap 9) else Inl (MissingGlyph (demo_bitmap 4)), r),
     get_metrics = \<lambda>r k n. (Inr demo_metrics, r), load_font = \<lambda>r d n. (Inr n, r), default_glyph = demo_bitmap 0,
     builtin_glyph = \<lambda>c m f g. None, glyph_char_width = \<lambda>c. Some 1\<rparr>"

definition demo_font :: font where
  "demo_font = \<lparr>fc_offset = (0, 0), fc_glyph_offset = (0, 0), fc_normal = font_description_default,
     fc_bold = \<lparr>sd_family = None, sd_style = None\<rparr>, fc_italic = \<lparr>sd_family = None, sd_style = None\<rparr>,
     fc_bold_italic = \<lparr>sd_family = None, sd_style = None\<rparr>, fc_size = 11, fc_builtin_box_drawing = True\<rparr>"

lemma demo_names_fresh: "fresh_names demo_names"
  using member_le_sum_list by (fastforce simp: fresh_names_def demo_names_def)

lemma demo_bitmap_ok: "0 \<le> h \<Longrightarrow> bitmap_ok (demo_bitmap h)"
  by (simp add: bitmap_ok_def demo_bitmap_def)

lemma demo_fonts_ok: "font_env_ok demo_fonts"
  using demo_bitmap_ok [of 9] demo_bitmap_ok [of 4] demo_bitmap_ok [of 0]
  by (auto simp: font_env_ok_def demo_fonts_def loadable_def) (auto simp: demo_bitmap_def ATLAS_SIZE_def)

definition demo_cache :: "unit glyph_cache" where
  "demo_cache = (case glyph_cache_new demo_fonts () demo_font of Inr gc \<Rightarrow> gc)"

lemma demo_cache_run: "cache_run demo_fonts demo_names (demo_cache, renderer_new demo_names False)"
proof -
  have "glyph_cache_new demo_fonts () demo_font = Inr demo_cache"
    by (simp add: demo_cache_def glyph_cache_new_def compute_font_keys_def load_regular_font_def load_or_regular_def load_font_metrics_def
        demo_fonts_def demo_font_def Let_def)
  then show ?thesis by (rule cache_run.start)
qed


theorem tall_glyph_diverges_witness:
  "cache_load_glyph demo_fonts demo_names demo_cache (demo_bitmap 1024) (renderer_new demo_names False) = None"
  by (rule tall_glyph_diverges [OF demo_cache_run demo_names_fresh demo_fonts_ok demo_bitmap_ok]) (simp_all add: demo_bitmap_def ATLAS_SIZE_def)

end
