(* ===== verification/Search_Bar.thy ===== *)
theory Search_Bar
  imports Hints Vi_Mode Message_Bar Complex_Main
begin

text \<open>
  The state of a window that actions change (\<^verbatim>\<open>alacritty/src/event.rs\<close>, \<^verbatim>\<open>config/cursor.rs\<close>): the search bar with its history, the
  inline search of the vi mode, scrolling, pasting, hints and the blinking of the cursor. Readings of the clock are the argument
  \<open>now\<close>, regular expressions are built by the parameter \<open>B\<close>, and calls of the window system are fields that keep what was set.
\<close>

unbundle bit_operations_syntax

section \<open>Configuration of the cursor\<close>

datatype cursor_blinking = Blink_Never | Blink_Off | Blink_On | Blink_Always

datatype config_cursor_style = Style_Shape cursor_shape | Style_WithBlinking cursor_shape cursor_blinking

record cursor_config =
  cfg_style :: config_cursor_style
  cfg_vi_mode_style :: "config_cursor_style option"
  cfg_blink_interval :: nat
  cfg_blink_timeout :: nat

definition blinking_mode_override :: "cursor_blinking \<Rightarrow> bool option" where
  "blinking_mode_override b = (case b of Blink_Never \<Rightarrow> Some False | Blink_Always \<Rightarrow> Some True | _ \<Rightarrow> None)"

definition blinking_override :: "config_cursor_style \<Rightarrow> bool option" where
  "blinking_override s = (case s of Style_Shape _ \<Rightarrow> None | Style_WithBlinking _ b \<Rightarrow> blinking_mode_override b)"

definition MIN_BLINK_INTERVAL :: nat where "MIN_BLINK_INTERVAL = 10"

definition MIN_BLINK_CYCLES_BEFORE_PAUSE :: nat where "MIN_BLINK_CYCLES_BEFORE_PAUSE = 1"

definition blink_interval :: "cursor_config \<Rightarrow> nat" where
  "blink_interval c = max (cfg_blink_interval c) MIN_BLINK_INTERVAL"

definition blink_timeout :: "cursor_config \<Rightarrow> nat" where
  \<comment> \<open>milliseconds; the configuration is in seconds\<close>
  "blink_timeout c = (if cfg_blink_timeout c = 0 then 0
     else max (cfg_blink_interval c * 2 * MIN_BLINK_CYCLES_BEFORE_PAUSE) (1000 * cfg_blink_timeout c))"

section \<open>State\<close>

record ('s, 'e, 'c) search_state =
  ss_direction :: direction
  history_index :: "nat option"
  display_offset_delta :: int
  search_origin :: point
  ss_focused_match :: "match_range option"
  ss_history :: "ustring list"
  ss_dfas :: "('s, 'e, 'c) regex_search option"

definition search_state_default :: "('s, 'e, 'c) search_state" where
  "search_state_default = \<lparr>ss_direction = Right, history_index = None, display_offset_delta = 0, search_origin = Point 0 0,
     ss_focused_match = None, ss_history = [], ss_dfas = None\<rparr>"

record inline_search_state =
  char_pending :: bool
  inline_character :: "uchar option"
  inline_direction :: direction
  stop_short :: bool

definition inline_search_default :: inline_search_state where
  "inline_search_default = \<lparr>char_pending = False, inline_character = None, inline_direction = Right, stop_short = False\<rparr>"

datatype cursor_icon = Icon_Default | Icon_Pointer | Icon_Text

datatype window_call =
    Toggle_Fullscreen | Toggle_Maximized | Set_Visible bool | Set_Minimized bool | Set_Mouse_Cursor cursor_icon | Set_Ime_Touch bool
  | Create_Window | Spawn_Instance | Change_Font_Size rat | Reset_Font_Size

text \<open>\<open>ac_spawned\<close> has the programs that were started with their arguments; \<open>vi_ime_inhibited\<close> the inhibitor of input methods for the vi mode,
  \<open>ac_window_calls\<close> other calls of the window system and of the fonts, and
  \<open>accumulated_scroll_x\<close> and \<open>accumulated_scroll_y\<close> the distances of the mouse wheel that were not scrolled yet.\<close>

record ('w, 's, 'e, 'c) action_context =
  ac_ctx :: "(('s, 'e, 'c) hint_match, 'w) ctx"
  ac_search :: "('s, 'e, 'c) search_state"
  ac_inline :: inline_search_state
  ac_hints :: "('s, 'e, 'c) hint_state"
  ac_messages :: message_buffer
  ac_tracker :: damage_tracker
  ac_cursor_config :: cursor_config
  hide_when_typing :: bool
  cursor_hidden :: bool
  cursor_blink_timed_out :: bool
  ime_preedit :: bool
  mouse_visible :: bool
  vi_ime_inhibited :: bool
  pending_update_dirty :: bool
  ac_spawned :: "(string \<times> ustring list) list"
  accumulated_scroll_x :: rat
  accumulated_scroll_y :: rat
  vi_highlighted_hint :: "('s, 'e, 'c) hint_match option"
  window_hold :: bool
  ac_window_calls :: "window_call list"

abbreviation ac_terminal :: "('w, 's, 'e, 'c) action_context \<Rightarrow> terminal" where
  "ac_terminal ac \<equiv> cx_terminal (ac_ctx ac)"

abbreviation in_vi_mode :: "('w, 's, 'e, 'c) action_context \<Rightarrow> bool" where
  "in_vi_mode ac \<equiv> mode_contains VI (ac_terminal ac)"

abbreviation ac_offset :: "('w, 's, 'e, 'c) action_context \<Rightarrow> int" where
  "ac_offset ac \<equiv> int (Grid.display_offset (t_grid (ac_terminal ac)))"

definition search_active :: "('w, 's, 'e, 'c) action_context \<Rightarrow> bool" where
  "search_active ac \<longleftrightarrow> history_index (ac_search ac) \<noteq> None"

text \<open>Access to the parts: the handlers of the mouse see whether a search is active.\<close>

definition base :: "('w, 's, 'e, 'c) action_context \<Rightarrow> (('s, 'e, 'c) hint_match, 'w) ctx" where
  "base ac = (ac_ctx ac)\<lparr>cx_search_active := search_active ac\<rparr>"

definition on_base ::
  "((('s, 'e, 'c) hint_match, 'w) ctx \<Rightarrow> (('s, 'e, 'c) hint_match, 'w) ctx) \<Rightarrow> ('w, 's, 'e, 'c) action_context \<Rightarrow> ('w, 's, 'e, 'c) action_context" where
  "on_base f ac = ac\<lparr>ac_ctx := f (base ac)\<rparr>"

definition try_base ::
  "((('s, 'e, 'c) hint_match, 'w) ctx \<Rightarrow> (('s, 'e, 'c) hint_match, 'w) ctx option) \<Rightarrow> ('w, 's, 'e, 'c) action_context \<Rightarrow> ('w, 's, 'e, 'c) action_context option" where
  "try_base f ac = map_option (\<lambda>cx. ac\<lparr>ac_ctx := cx\<rparr>) (f (base ac))"

definition on_terminal :: "(terminal \<Rightarrow> terminal) \<Rightarrow> ('w, 's, 'e, 'c) action_context \<Rightarrow> ('w, 's, 'e, 'c) action_context" where
  "on_terminal f ac = ac\<lparr>ac_ctx := (ac_ctx ac)\<lparr>cx_terminal := f (ac_terminal ac)\<rparr>\<rparr>"

definition on_search ::
  "(('s, 'e, 'c) search_state \<Rightarrow> ('s, 'e, 'c) search_state) \<Rightarrow> ('w, 's, 'e, 'c) action_context \<Rightarrow> ('w, 's, 'e, 'c) action_context" where
  "on_search f ac = ac\<lparr>ac_search := f (ac_search ac)\<rparr>"

definition on_scheduler ::
  "((app_event, 'w) scheduler \<Rightarrow> (app_event, 'w) scheduler) \<Rightarrow> ('w, 's, 'e, 'c) action_context \<Rightarrow> ('w, 's, 'e, 'c) action_context" where
  "on_scheduler f ac = ac\<lparr>ac_ctx := (ac_ctx ac)\<lparr>cx_scheduler := f (cx_scheduler (ac_ctx ac))\<rparr>\<rparr>"

definition window_timer :: "topic \<Rightarrow> ('w, 's, 'e, 'c) action_context \<Rightarrow> 'w timer_id" where
  "window_timer tp ac = \<lparr>id_topic = tp, id_window = cx_window (ac_ctx ac)\<rparr>"

definition mark_dirty :: "('w, 's, 'e, 'c) action_context \<Rightarrow> ('w, 's, 'e, 'c) action_context" where
  "mark_dirty ac = ac\<lparr>ac_ctx := (ac_ctx ac)\<lparr>cx_dirty := True\<rparr>\<rparr>"

definition damage_all :: "('w, 's, 'e, 'c) action_context \<Rightarrow> ('w, 's, 'e, 'c) action_context" where
  \<comment> \<open>\<^verbatim>\<open>damage_tracker.frame().mark_fully_damaged()\<close>\<close>
  "damage_all ac = ac\<lparr>ac_tracker := (ac_tracker ac)\<lparr>frame0 := frame_mark_fully_damaged (frame0 (ac_tracker ac))\<rparr>\<rparr>"

section \<open>Blinking\<close>

definition schedule_blinking :: "nat \<Rightarrow> ('w, 's, 'e, 'c) action_context \<Rightarrow> ('w, 's, 'e, 'c) action_context" where
  "schedule_blinking now ac =
     on_scheduler (schedule now Event_BlinkCursor (blink_interval (ac_cursor_config ac)) True (window_timer BlinkCursor ac)) ac"

definition schedule_blinking_timeout :: "nat \<Rightarrow> ('w, 's, 'e, 'c) action_context \<Rightarrow> ('w, 's, 'e, 'c) action_context" where
  "schedule_blinking_timeout now ac = (let timeout = blink_timeout (ac_cursor_config ac) in
     if timeout = 0 then ac
     else on_scheduler (schedule now Event_BlinkCursorTimeout timeout False (window_timer BlinkTimeout ac)) ac)"

definition update_cursor_blinking :: "nat \<Rightarrow> ('w, 's, 'e, 'c) action_context \<Rightarrow> ('w, 's, 'e, 'c) action_context" where
  "update_cursor_blinking now ac = (let
       cfg = ac_cursor_config ac; t = ac_terminal ac; vi_mode = in_vi_mode ac;
       style = (if vi_mode then (case cfg_vi_mode_style cfg of Some s \<Rightarrow> s | None \<Rightarrow> cfg_style cfg) else cfg_style cfg);
       blinks = (case blinking_override style of Some b \<Rightarrow> b | None \<Rightarrow> blinking (active_cursor_style t));
       blinks = (blinks \<and> (vi_mode \<or> mode_contains SHOW_CURSOR t) \<and> \<not> ime_preedit ac);
       ac = on_scheduler (\<lambda>s. snd (unschedule (window_timer BlinkTimeout ac) (snd (unschedule (window_timer BlinkCursor ac) s)))) ac;
       ac = ac\<lparr>cursor_blink_timed_out := False\<rparr>
     in if blinks \<and> is_focused t then schedule_blinking_timeout now (schedule_blinking now ac)
        else mark_dirty (ac\<lparr>cursor_hidden := False\<rparr>))"

definition on_typing_start :: "nat \<Rightarrow> ('w, 's, 'e, 'c) action_context \<Rightarrow> ('w, 's, 'e, 'c) action_context" where
  "on_typing_start now ac = (let
       (old, s) = unschedule (window_timer BlinkCursor ac) (cx_scheduler (ac_ctx ac));
       ac = on_scheduler (\<lambda>_. s) ac;
       ac = (if old \<noteq> None then
               let ac = schedule_blinking now ac in
               if cursor_hidden ac then mark_dirty (ac\<lparr>cursor_hidden := False\<rparr>) else ac
             else if cursor_blink_timed_out ac then update_cursor_blinking now ac
             else ac)
     in if hide_when_typing ac \<and> mouse_visible ac
        then ac\<lparr>mouse_visible := False, ac_ctx := (ac_ctx ac)\<lparr>cx_mouse := (cx_mouse (ac_ctx ac))\<lparr>hint_highlight_dirty := True\<rparr>\<rparr>\<rparr>
        else ac)"

section \<open>Scrolling\<close>

definition ctx_scroll :: "nat \<Rightarrow> scroll \<Rightarrow> ('w, 's, 'e, 'c) action_context \<Rightarrow> ('w, 's, 'e, 'c) action_context option" where
  "ctx_scroll now sc ac = do {
     let old_offset = ac_offset ac;
     let old_cursor = vi_mode_cursor (ac_terminal ac);
     let ac = on_terminal (scroll_display sc) ac;
     let lines_changed = old_offset - ac_offset ac;
     let ac = (if search_active ac then on_search (\<lambda>s. s\<lparr>display_offset_delta := display_offset_delta s + lines_changed\<rparr>) ac else ac);
     let vi_mode = in_vi_mode ac;
     let m = cx_mouse (ac_ctx ac);
     ac \<leftarrow> (if vi_mode \<and> \<not> cx_selection_is_empty (ac_ctx ac) then
              Some (on_base (update_selection (vi_mode_cursor (ac_terminal ac)) Right) ac)
            else if left_button_state m = Pressed \<or> right_button_state m = Pressed then do {
              p \<leftarrow> mouse_point m (cx_size (ac_ctx ac)) (Grid.display_offset (t_grid (ac_terminal ac)));
              Some (on_base (update_selection p (mouse_cell_side m)) ac)
            } else Some ac);
     let ac = (if vi_mode then on_typing_start now ac else ac);
     Some (if lines_changed \<noteq> 0 \<or> vi_mode \<and> old_cursor \<noteq> vi_mode_cursor (ac_terminal ac) then mark_dirty ac else ac)
   }"

section \<open>The search\<close>

definition MAX_SEARCH_HISTORY_SIZE :: nat where "MAX_SEARCH_HISTORY_SIZE = 255"

definition MAX_SEARCH_WHILE_TYPING :: "nat option" where "MAX_SEARCH_WHILE_TYPING = Some 1000"

definition TYPING_SEARCH_DELAY :: nat where
  \<comment> \<open>milliseconds\<close>
  "TYPING_SEARCH_DELAY = 500"

definition search_regex :: "('s, 'e, 'c) search_state \<Rightarrow> ustring option" where
  \<comment> \<open>\<^verbatim>\<open>SearchState::regex\<close>\<close>
  "search_regex s = (case history_index s of None \<Rightarrow> None | Some i \<Rightarrow> vec_get (ss_history s) i)"

definition exit_search :: "('w, 's, 'e, 'c) action_context \<Rightarrow> ('w, 's, 'e, 'c) action_context" where
  "exit_search ac =
     on_search (\<lambda>s. s\<lparr>history_index := None, ss_focused_match := None\<rparr>)
       (damage_all (ac\<lparr>vi_ime_inhibited := in_vi_mode ac, pending_update_dirty := True\<rparr>))"

definition search_reset_state :: "('w, 's, 'e, 'c) action_context \<Rightarrow> ('w, 's, 'e, 'c) action_context" where
  "search_reset_state ac = (let
       ac = on_scheduler (\<lambda>s. snd (unschedule (window_timer DelayedSearch ac) s)) ac;
       ac = on_search (\<lambda>s. s\<lparr>ss_focused_match := None\<rparr>) ac
     in if \<not> in_vi_mode ac then ac
        else
          let ac = on_terminal (\<lambda>t. t\<lparr>vi_mode_cursor := search_origin (ac_search ac)\<rparr>) ac;
              ac = on_terminal (scroll_display (Delta (display_offset_delta (ac_search ac)))) ac
          in mark_dirty (on_search (\<lambda>s. s\<lparr>display_offset_delta := 0\<rparr>) ac))"

definition found_match :: "match_range \<Rightarrow> ('w, 's, 'e, 'c) action_context \<Rightarrow> ('w, 's, 'e, 'c) action_context" where
  "found_match mr ac = (let
       old_offset = ac_offset ac;
       ac = on_terminal (if in_vi_mode ac then vi_goto_point (fst mr) else scroll_to_point (fst mr)) ac;
       ac = on_search (\<lambda>s. s\<lparr>ss_focused_match := Some mr, display_offset_delta := display_offset_delta s + (old_offset - ac_offset ac)\<rparr>) ac
     in on_scheduler (\<lambda>s. snd (unschedule (window_timer DelayedSearch ac) s)) ac)"

definition delay_search :: "nat \<Rightarrow> ('w, 's, 'e, 'c) action_context \<Rightarrow> ('w, 's, 'e, 'c) action_context" where
  "delay_search now ac = (let tid = window_timer DelayedSearch ac in
     on_search (\<lambda>s. s\<lparr>ss_focused_match := None\<rparr>)
       (on_scheduler (\<lambda>s. if scheduled tid s then s else schedule now Event_SearchNext TYPING_SEARCH_DELAY False tid s) ac))"

definition goto_match :: "nat \<Rightarrow> nat option \<Rightarrow> ('w, 's, 'e, 'c) action_context \<Rightarrow> ('w, 's, 'e, 'c) action_context option" where
  "goto_match now limit ac = (case ss_dfas (ac_search ac) of
     None \<Rightarrow> Some ac
   | Some re \<Rightarrow> do {
       let t = ac_terminal ac;
       let limit = (case limit of Some l \<Rightarrow> if l \<le> total_lines (t_dims t) then Some l else None | None \<Rightarrow> None);
       origin \<leftarrow> point_grid_clamp (t_dims t) Boundary_Grid (search_origin (ac_search ac));
       (res, re) \<leftarrow> search_next t re origin (ss_direction (ac_search ac)) Left limit;
       let ac = on_search (\<lambda>s. s\<lparr>ss_dfas := Some re\<rparr>) ac;
       Some (mark_dirty (case res of
         Some mr \<Rightarrow> found_match mr ac
       | None \<Rightarrow> if limit = None then search_reset_state ac else delay_search now ac))
     })"

definition update_search :: "('s, 'e, 'c, 'b) dfa_builder \<Rightarrow> nat \<Rightarrow> ('w, 's, 'e, 'c) action_context \<Rightarrow> ('w, 's, 'e, 'c) action_context option" where
  "update_search B now ac = (case search_regex (ac_search ac) of
     None \<Rightarrow> Some ac
   | Some regex \<Rightarrow> do {
       let ac = (if hide_when_typing ac then ac\<lparr>mouse_visible := False\<rparr> else ac);
       ac \<leftarrow> (if regex = [] then Some (on_search (\<lambda>s. s\<lparr>ss_dfas := None\<rparr>) (search_reset_state ac))
              else goto_match now MAX_SEARCH_WHILE_TYPING
                (on_search (\<lambda>s. s\<lparr>ss_dfas := (case regex_search_new B regex of Inr re \<Rightarrow> Some re | Inl _ \<Rightarrow> None)\<rparr>) ac));
       Some (mark_dirty ac)
     })"

definition start_search :: "direction \<Rightarrow> ('w, 's, 'e, 'c) action_context \<Rightarrow> ('w, 's, 'e, 'c) action_context option" where
  "start_search dir ac = do {
     let t = ac_terminal ac;
     let ac = on_search (\<lambda>s. s\<lparr>ss_history :=
         (if ss_history s = [] \<or> hd (ss_history s) \<noteq> [] then take MAX_SEARCH_HISTORY_SIZE ([] # ss_history s) else ss_history s),
       history_index := Some 0, ss_direction := dir, ss_focused_match := None\<rparr>) ac;
     ac \<leftarrow> (if in_vi_mode ac then
              Some (on_search (\<lambda>s. s\<lparr>display_offset_delta := 0, search_origin :=
                (let p = vi_mode_cursor t in if line (t_point t) + 1 = int (t_lines t) then Point (line p - 1) (column p) else p)\<rparr>) ac)
            else do {
              let viewport_top = - int (Grid.display_offset (t_grid t)) - 1;
              let viewport_bottom = viewport_top + bottommost_line (t_dims t);
              last_col \<leftarrow> last_column (t_dims t);
              Some (on_search (\<lambda>s. s\<lparr>search_origin :=
                (case dir of Right \<Rightarrow> Point viewport_top 0 | Left \<Rightarrow> Point viewport_bottom last_col)\<rparr>) ac)
            });
     Some (damage_all (ac\<lparr>vi_ime_inhibited := False, pending_update_dirty := True\<rparr>))
   }"

definition select_match :: "match_range \<Rightarrow> ('w, 's, 'e, 'c) action_context \<Rightarrow> ('w, 's, 'e, 'c) action_context option" where
  \<comment> \<open>a selection of the cells of a match\<close>
  "select_match mr ac = do {
     ac \<leftarrow> try_base (start_selection Simple (fst mr) Left) ac;
     let ac = on_base (update_selection (snd mr) Right) ac;
     try_base (copy_selection Clipboard_Selection) ac
   }"

definition cancel_search :: "('w, 's, 'e, 'c) action_context \<Rightarrow> ('w, 's, 'e, 'c) action_context option" where
  "cancel_search ac = do {
     ac \<leftarrow> (if in_vi_mode ac then Some (search_reset_state ac)
            else case ss_focused_match (ac_search ac) of
              None \<Rightarrow> Some ac
            | Some mr \<Rightarrow> select_match mr ac);
     Some (exit_search (on_search (\<lambda>s. s\<lparr>ss_dfas := None\<rparr>) ac))
   }"

definition confirm_search :: "nat \<Rightarrow> ('w, 's, 'e, 'c) action_context \<Rightarrow> ('w, 's, 'e, 'c) action_context option" where
  "confirm_search now ac =
     (if \<not> in_vi_mode ac then cancel_search ac
      else do {
        ac \<leftarrow> (if scheduled (window_timer DelayedSearch ac) (cx_scheduler (ac_ctx ac)) then goto_match now None ac else Some ac);
        Some (exit_search ac)
      })"

definition is_printable :: "uchar \<Rightarrow> bool" where
  "is_printable c \<longleftrightarrow> 0x20 \<le> c \<and> c \<le> 0x7E \<or> 0xA0 \<le> c \<and> c \<le> 0x10FFFF"

definition edit_regex :: "uchar \<Rightarrow> ustring \<Rightarrow> ustring option" where
  "edit_regex c regex = (if c = 0x08 \<or> c = 0x7F then Some (butlast regex) else if is_printable c then Some (regex @ [c]) else None)"

definition copy_from_history :: "('s, 'e, 'c) search_state \<Rightarrow> ('s, 'e, 'c) search_state option" where
  \<comment> \<open>an entry of the history that is changed becomes the current input\<close>
  "copy_from_history s = (case history_index s of
     None \<Rightarrow> Some s
   | Some i \<Rightarrow>
       if i = 0 then Some s
       else do {
         regex \<leftarrow> vec_get (ss_history s) i;
         hist \<leftarrow> vec_set (ss_history s) 0 regex;
         Some (s\<lparr>ss_history := hist, history_index := Some 0\<rparr>)
       })"

definition search_input ::
  "('s, 'e, 'c, 'b) dfa_builder \<Rightarrow> nat \<Rightarrow> uchar \<Rightarrow> ('w, 's, 'e, 'c) action_context \<Rightarrow> ('w, 's, 'e, 'c) action_context option" where
  "search_input B now c ac =
     (if \<not> search_active ac then Some ac
      else do {
        s \<leftarrow> copy_from_history (ac_search ac);
        let ac = ac\<lparr>ac_search := s\<rparr>;
        regex \<leftarrow> vec_get (ss_history s) 0;
        case edit_regex c regex of
          None \<Rightarrow> Some ac
        | Some regex \<Rightarrow> do {
            hist \<leftarrow> vec_set (ss_history s) 0 regex;
            let ac = on_search (\<lambda>s. s\<lparr>ss_history := hist\<rparr>) ac;
            let ac = (if in_vi_mode ac then ac else on_terminal (\<lambda>t. t\<lparr>t_selection := None\<rparr>) ac);
            update_search B now ac
          }
      })"

definition pop_word :: "ustring \<Rightarrow> ustring" where
  \<comment> \<open>\<^verbatim>\<open>trim_end\<close>, then \<^verbatim>\<open>truncate(rfind(' ').map_or(0, |i| i + 1))\<close>\<close>
  "pop_word s = rev (dropWhile (\<lambda>c. c \<noteq> 0x20) (rev (trim_end s)))"

definition search_pop_word ::
  "('s, 'e, 'c, 'b) dfa_builder \<Rightarrow> nat \<Rightarrow> ('w, 's, 'e, 'c) action_context \<Rightarrow> ('w, 's, 'e, 'c) action_context option" where
  "search_pop_word B now ac = (case history_index (ac_search ac) of
     None \<Rightarrow> Some ac
   | Some i \<Rightarrow>
       (case vec_get (ss_history (ac_search ac)) i of
          None \<Rightarrow> Some ac
        | Some regex \<Rightarrow> update_search B now (on_search (\<lambda>s. s\<lparr>ss_history := (ss_history s)[i := pop_word regex]\<rparr>) ac)))"

definition search_history_previous ::
  "('s, 'e, 'c, 'b) dfa_builder \<Rightarrow> nat \<Rightarrow> ('w, 's, 'e, 'c) action_context \<Rightarrow> ('w, 's, 'e, 'c) action_context option" where
  "search_history_previous B now ac = (case history_index (ac_search ac) of
     None \<Rightarrow> Some ac
   | Some i \<Rightarrow>
       if i + 1 \<ge> length (ss_history (ac_search ac)) then Some ac
       else update_search B now (on_search (\<lambda>s. s\<lparr>history_index := Some (i + 1)\<rparr>) ac))"

definition search_history_next ::
  "('s, 'e, 'c, 'b) dfa_builder \<Rightarrow> nat \<Rightarrow> ('w, 's, 'e, 'c) action_context \<Rightarrow> ('w, 's, 'e, 'c) action_context option" where
  "search_history_next B now ac = (case history_index (ac_search ac) of
     None \<Rightarrow> Some ac
   | Some i \<Rightarrow> if i = 0 then Some ac else update_search B now (on_search (\<lambda>s. s\<lparr>history_index := Some (i - 1)\<rparr>) ac))"

definition advance_search_origin :: "nat \<Rightarrow> direction \<Rightarrow> ('w, 's, 'e, 'c) action_context \<Rightarrow> ('w, 's, 'e, 'c) action_context option" where
  "advance_search_origin now dir ac = do {
     ac \<leftarrow> (case ss_focused_match (ac_search ac) of
              None \<Rightarrow> Some ac
            | Some mr \<Rightarrow> do {
                new_origin \<leftarrow> (case dir of Right \<Rightarrow> point_add (t_dims (ac_terminal ac)) Boundary_None 1 (snd mr)
                                        | Left \<Rightarrow> point_sub (t_dims (ac_terminal ac)) Boundary_None 1 (fst mr));
                Some (on_search (\<lambda>s. s\<lparr>display_offset_delta := 0, search_origin := new_origin\<rparr>) (on_terminal (scroll_to_point new_origin) ac))
              });
     let search_dir = ss_direction (ac_search ac);
     ac \<leftarrow> goto_match now None (on_search (\<lambda>s. s\<lparr>ss_direction := dir\<rparr>) ac);
     let ac = on_search (\<lambda>s. s\<lparr>ss_direction := search_dir\<rparr>) ac;
     case ss_focused_match (ac_search ac) of
       None \<Rightarrow> Some ac
     | Some mr \<Rightarrow> do {
         let new_origin = (case search_dir of Right \<Rightarrow> fst mr | Left \<Rightarrow> snd mr);
         let old_offset = ac_offset ac;
         let ac = on_terminal (scroll_to_point new_origin) ac;
         let delta = ac_offset ac - old_offset;
         let ac = on_terminal (scroll_display (Delta (- delta))) ac;
         Some (on_search (\<lambda>s. s\<lparr>display_offset_delta := delta, search_origin := new_origin\<rparr>) ac)
       }
   }"

definition ctx_search_next ::
  "point \<Rightarrow> direction \<Rightarrow> side \<Rightarrow> ('w, 's, 'e, 'c) action_context \<Rightarrow> (match_range option \<times> ('w, 's, 'e, 'c) action_context) option" where
  "ctx_search_next origin dir sd ac = (case ss_dfas (ac_search ac) of
     None \<Rightarrow> Some (None, ac)
   | Some re \<Rightarrow> do {
       (res, re) \<leftarrow> search_next (ac_terminal ac) re origin dir sd None;
       Some (res, on_search (\<lambda>s. s\<lparr>ss_dfas := Some re\<rparr>) ac)
     })"

definition is_regex_special :: "uchar \<Rightarrow> bool" where
  \<comment> \<open>\<^verbatim>\<open>'$' | '('..='+' | '?' | '['..='^' | '{'..='}'\<close>\<close>
  "is_regex_special c \<longleftrightarrow> c = 0x24 \<or> 0x28 \<le> c \<and> c \<le> 0x2B \<or> c = 0x3F \<or> 0x5B \<le> c \<and> c \<le> 0x5E \<or> 0x7B \<le> c \<and> c \<le> 0x7D"

definition type_seed ::
  "('s, 'e, 'c, 'b) dfa_builder \<Rightarrow> nat \<Rightarrow> ustring \<Rightarrow> ('w, 's, 'e, 'c) action_context \<Rightarrow> ('w, 's, 'e, 'c) action_context option" where
  "type_seed B now s = for_each s (\<lambda>c ac. do {
     ac \<leftarrow> (if is_regex_special c then search_input B now 0x5C ac else Some ac);
     search_input B now c ac
   })"

definition start_seeded_search ::
  "('s, 'e, 'c, 'b) dfa_builder \<Rightarrow> nat \<Rightarrow> direction \<Rightarrow> ustring \<Rightarrow> ('w, 's, 'e, 'c) action_context \<Rightarrow> ('w, 's, 'e, 'c) action_context option" where
  "start_seeded_search B now dir seed ac = do {
     let origin = vi_mode_cursor (ac_terminal ac);
     ac \<leftarrow> start_search dir (on_base clear_selection ac);
     ac \<leftarrow> type_seed B now seed ac;
     ac \<leftarrow> confirm_search now ac;
     if \<not> in_vi_mode ac then Some ac
     else do {
       (rm, ac) \<leftarrow> ctx_search_next origin Right Right ac;
       case rm of
         None \<Rightarrow> Some ac
       | Some rm \<Rightarrow> do {
           origin \<leftarrow> (case dir of Right \<Rightarrow> point_add (t_dims (ac_terminal ac)) Boundary_None 1 (snd rm)
                               | Left \<Rightarrow> point_sub (t_dims (ac_terminal ac)) Boundary_None 1 (fst rm));
           (res, ac) \<leftarrow> ctx_search_next origin dir Left ac;
           Some (case res of None \<Rightarrow> ac | Some mr \<Rightarrow> mark_dirty (on_terminal (vi_goto_point (fst mr)) ac))
         }
     }
   }"

section \<open>Inline search\<close>

definition on_inline :: "(inline_search_state \<Rightarrow> inline_search_state) \<Rightarrow> ('w, 's, 'e, 'c) action_context \<Rightarrow> ('w, 's, 'e, 'c) action_context" where
  "on_inline f ac = ac\<lparr>ac_inline := f (ac_inline ac)\<rparr>"

definition start_inline_search :: "direction \<Rightarrow> bool \<Rightarrow> ('w, 's, 'e, 'c) action_context \<Rightarrow> ('w, 's, 'e, 'c) action_context" where
  "start_inline_search dir short =
     on_inline (\<lambda>i. i\<lparr>stop_short := short, inline_direction := dir, char_pending := True, inline_character := None\<rparr>)"

definition inline_search :: "direction \<Rightarrow> ('w, 's, 'e, 'c) action_context \<Rightarrow> ('w, 's, 'e, 'c) action_context option" where
  "inline_search dir ac = (case inline_character (ac_inline ac) of
     None \<Rightarrow> Some ac
   | Some c \<Rightarrow> do {
       let t = ac_terminal ac;
       res \<leftarrow> (case dir of Right \<Rightarrow> inline_search_right t [c] (vi_mode_cursor t) | Left \<Rightarrow> inline_search_left t [c] (vi_mode_cursor t));
       case res of
         Inl _ \<Rightarrow> Some ac
       | Inr p \<Rightarrow> do {
           p \<leftarrow> (if stop_short (ac_inline ac) then do {
                   it \<leftarrow> iter_from (t_grid t) p;
                   (r, _) \<leftarrow> (case dir of Right \<Rightarrow> iter_prev (t_grid t) it | Left \<Rightarrow> iter_next (t_grid t) it);
                   Some (case r of None \<Rightarrow> p | Some (q, _) \<Rightarrow> q)
                 } else Some p);
           Some (mark_dirty (on_terminal (vi_goto_point p) ac))
         }
     })"

definition inline_search_next :: "('w, 's, 'e, 'c) action_context \<Rightarrow> ('w, 's, 'e, 'c) action_context option" where
  "inline_search_next ac = inline_search (inline_direction (ac_inline ac)) ac"

definition inline_search_previous :: "('w, 's, 'e, 'c) action_context \<Rightarrow> ('w, 's, 'e, 'c) action_context option" where
  "inline_search_previous ac = inline_search (opposite (inline_direction (ac_inline ac))) ac"

definition inline_search_input :: "ustring \<Rightarrow> ('w, 's, 'e, 'c) action_context \<Rightarrow> ('w, 's, 'e, 'c) action_context option" where
  "inline_search_input s ac = (case s of
     [] \<Rightarrow> Some ac
   | c # _ \<Rightarrow> inline_search_next (on_inline (\<lambda>i. i\<lparr>char_pending := False, inline_character := Some c\<rparr>) (ac\<lparr>vi_ime_inhibited := True\<rparr>)))"

section \<open>Input to the terminal\<close>

definition ctx_write :: "nat list \<Rightarrow> ('w, 's, 'e, 'c) action_context \<Rightarrow> ('w, 's, 'e, 'c) action_context" where
  "ctx_write bs = on_base (write_to_pty bs)"

definition on_terminal_input_start :: "nat \<Rightarrow> ('w, 's, 'e, 'c) action_context \<Rightarrow> ('w, 's, 'e, 'c) action_context option" where
  "on_terminal_input_start now ac = (let ac = on_base clear_selection (on_typing_start now ac) in
     if Grid.display_offset (t_grid (ac_terminal ac)) \<noteq> 0 then ctx_scroll now Scroll_Bottom ac else Some ac)"

definition utf8 :: "ustring \<Rightarrow> nat list" where
  "utf8 s = concat (map encode_utf8 s)"

text \<open>\<^verbatim>\<open>replace\<close> of a carriage return with a line feed by a carriage return.\<close>

fun replace_crlf :: "ustring \<Rightarrow> ustring" where
  "replace_crlf (c # d # s) = (if c = 0x0D \<and> d = 0x0A then 0x0D # replace_crlf s else c # replace_crlf (d # s))"
| "replace_crlf s = s"

definition paste_payload :: "bool \<Rightarrow> ustring \<Rightarrow> ustring" where
  "paste_payload bracketed s = (if bracketed then map (\<lambda>c. if c = 0x0A then 0x0D else c) (replace_crlf s) else s)"

definition filter_paste :: "ustring \<Rightarrow> ustring" where
  "filter_paste s = filter (\<lambda>c. c \<noteq> 0x1B \<and> c \<noteq> 0x03) s"

definition paste ::
  "('s, 'e, 'c, 'b) dfa_builder \<Rightarrow> nat \<Rightarrow> ustring \<Rightarrow> bool \<Rightarrow> ('w, 's, 'e, 'c) action_context \<Rightarrow> ('w, 's, 'e, 'c) action_context option" where
  "paste B now s bracketed ac =
     (if search_active ac then for_each s (search_input B now) ac
      else if char_pending (ac_inline ac) then inline_search_input s ac
      else if bracketed \<and> mode_contains BRACKETED_PASTE (ac_terminal ac) then do {
        ac \<leftarrow> on_terminal_input_start now ac;
        let ac = ctx_write (map of_char (ESC @ ''[200~'')) ac;
        let ac = ctx_write (utf8 (filter_paste s)) ac;
        Some (ctx_write (map of_char (ESC @ ''[201~'')) ac)
      } else do {
        ac \<leftarrow> on_terminal_input_start now ac;
        Some (ctx_write (utf8 (paste_payload bracketed s)) ac)
      })"

section \<open>Vi mode, hints and selections\<close>

definition ctx_toggle_vi_mode :: "('w, 's, 'e, 'c) action_context \<Rightarrow> ('w, 's, 'e, 'c) action_context option" where
  "ctx_toggle_vi_mode ac = do {
     let was_in_vi_mode = in_vi_mode ac;
     let ac = (if was_in_vi_mode then
                 if ss_dfas (ac_search ac) \<noteq> None then damage_all (on_search (\<lambda>s. s\<lparr>ss_dfas := None\<rparr>) ac) else ac
               else on_base clear_selection ac);
     ac \<leftarrow> (if search_active ac then cancel_search ac else Some ac);
     Some (mark_dirty (on_terminal toggle_vi_mode (ac\<lparr>vi_ime_inhibited := \<not> was_in_vi_mode\<rparr>)))
   }"

definition on_mouse :: "(mouse \<Rightarrow> mouse) \<Rightarrow> ('w, 's, 'e, 'c) action_context \<Rightarrow> ('w, 's, 'e, 'c) action_context" where
  "on_mouse f ac = ac\<lparr>ac_ctx := (ac_ctx ac)\<lparr>cx_mouse := f (cx_mouse (ac_ctx ac))\<rparr>\<rparr>"

definition trigger_hint ::
  "('s, 'e, 'c, 'b) dfa_builder \<Rightarrow> nat \<Rightarrow> ('s, 'e, 'c) hint_match \<Rightarrow> ('w, 's, 'e, 'c) action_context
   \<Rightarrow> (('s, 'e, 'c) hint_match \<times> ('w, 's, 'e, 'c) action_context) option" where
  \<comment> \<open>the hint is returned because its regular expression is compiled when it is used first\<close>
  "trigger_hint B now hm ac =
     (if block_hint_launcher (cx_mouse (ac_ctx ac)) then Some (hm, ac)
      else do {
        (res, hm) \<leftarrow> hint_match_text B (ac_terminal ac) hm;
        case res of
          None \<Rightarrow> Some (hm, ac)
        | Some s \<Rightarrow> do {
            ac \<leftarrow> (case h_action (hm_hint hm) of
                Hint_Command program args \<Rightarrow> Some (ac\<lparr>ac_spawned := ac_spawned ac @ [(program, map (map of_char) args @ [s])]\<rparr>)
              | Hint_Internal Hint_Copy \<Rightarrow>
                  Some (ac\<lparr>ac_ctx := (ac_ctx ac)\<lparr>cx_clipboard := cx_clipboard (ac_ctx ac) @ [(Clipboard_Main, s)]\<rparr>\<rparr>)
              | Hint_Internal Hint_Paste \<Rightarrow> paste B now s True ac
              | Hint_Internal Hint_Select \<Rightarrow> select_match (hm_bounds hm) ac
              | Hint_Internal Hint_MoveViModeCursor \<Rightarrow>
                  Some (mark_dirty (on_terminal (vi_goto_point (fst (hm_bounds hm)))
                    (if in_vi_mode ac then ac else on_terminal toggle_vi_mode ac))));
            Some (hm, ac)
          }
      })"

definition hint_input ::
  "('s, 'e, 'c, 'b) dfa_builder \<Rightarrow> nat \<Rightarrow> uchar \<Rightarrow> ('w, 's, 'e, 'c) action_context \<Rightarrow> ('w, 's, 'e, 'c) action_context option" where
  "hint_input B now c ac = do {
     (res, hs) \<leftarrow> keyboard_input B (ac_terminal ac) c (ac_hints ac);
     let ac = ac\<lparr>ac_hints := hs\<rparr>;
     ac \<leftarrow> (case res of
              None \<Rightarrow> Some ac
            | Some hm \<Rightarrow> map_option snd (trigger_hint B now hm (on_mouse (\<lambda>m. m\<lparr>block_hint_launcher := False\<rparr>) ac)));
     Some (mark_dirty ac)
   }"

definition expand_selection :: "('w, 's, 'e, 'c) action_context \<Rightarrow> ('w, 's, 'e, 'c) action_context option" where
  "expand_selection ac = (let cx = ac_ctx ac; m = cx_mouse cx in
     if mouse_click_state m = No_Click then Some ac
     else do {
       let ty = (if control_key (cx_modifiers cx) then Block
                 else case mouse_click_state m of DoubleClick \<Rightarrow> Semantic | TripleClick \<Rightarrow> Lines | _ \<Rightarrow> Simple);
       p \<leftarrow> mouse_point m (cx_size cx) (Grid.display_offset (t_grid (ac_terminal ac)));
       case t_selection (ac_terminal ac) of
         None \<Rightarrow> Some ac
       | Some s \<Rightarrow> do {
           let ac = on_terminal (\<lambda>t. t\<lparr>t_selection := Some (s\<lparr>sel_ty := ty\<rparr>)\<rparr>) ac;
           let ac = on_base (update_selection p (mouse_cell_side m)) ac;
           Some (if in_vi_mode ac \<and> \<not> search_active ac then on_terminal (\<lambda>t. t\<lparr>vi_mode_cursor := p\<rparr>) ac else ac)
         }
     })"

partial_function (option) skip_escapes :: "terminal \<Rightarrow> point \<Rightarrow> point \<Rightarrow> point option option" where
  \<comment> \<open>the loop of \<open>semantic_word\<close>: the end of a word, or none if there are only separators\<close>
  "skip_escapes t search_end e =
     Option.bind (grid_cell_at (t_grid t) e) (\<lambda>x.
     Option.bind (if flag_contains (cell_flags x) WIDE_CHAR_SPACER
                  then Option.bind (point_sub (t_dims t) Boundary_None 1 e) (\<lambda>q. map_option cell_c (grid_cell_at (t_grid t) q))
                  else Some (cell_c x)) (\<lambda>c.
     if c \<notin> set (semantic_escape_chars (t_config t)) then Some (Some e)
     else Option.bind (point_add (t_dims t) Boundary_None 1 e) (\<lambda>q.
          Option.bind (semantic_search_right t q) (\<lambda>e.
            if e = search_end then Some None else skip_escapes t search_end e))))"

definition semantic_word :: "terminal \<Rightarrow> point \<Rightarrow> ustring option" where
  "semantic_word t p = do {
     e \<leftarrow> semantic_search_right t p;
     x \<leftarrow> grid_cell_at (t_grid t) p;
     search_end \<leftarrow> (if flag_intersects (cell_flags x) LEADING_WIDE_CHAR_SPACER then point_add (t_dims t) Boundary_None 2 p
                    else if flag_intersects (cell_flags x) WIDE_CHAR then point_add (t_dims t) Boundary_None 1 p
                    else Some p);
     res \<leftarrow> skip_escapes t search_end e;
     case res of
       None \<Rightarrow> Some []
     | Some e \<Rightarrow> do {
         s \<leftarrow> semantic_search_left t e;
         bounds_to_string t s e
       }
   }"

definition ctx_pop_message :: "('w, 's, 'e, 'c) action_context \<Rightarrow> ('w, 's, 'e, 'c) action_context" where
  "ctx_pop_message ac = (if buffer_is_empty (ac_messages ac) then ac
     else ac\<lparr>pending_update_dirty := True, ac_messages := pop_message (ac_messages ac)\<rparr>)"

section \<open>Cancelling a search\<close>

lemmas ac_defs = on_search_def on_scheduler_def on_terminal_def on_base_def mark_dirty_def damage_all_def on_inline_def on_mouse_def

lemma on_search_id [simp]: "on_search (\<lambda>s. s) ac = ac"
  by (simp add: on_search_def)

lemma ac_parts [simp]:
  "ac_terminal (on_search f ac) = ac_terminal ac" "ac_terminal (on_scheduler h ac) = ac_terminal ac" "ac_terminal (mark_dirty ac) = ac_terminal ac"
  "ac_terminal (damage_all ac) = ac_terminal ac" "ac_terminal (on_terminal k ac) = k (ac_terminal ac)"
  "ac_search (on_search f ac) = f (ac_search ac)" "ac_search (on_scheduler h ac) = ac_search ac" "ac_search (mark_dirty ac) = ac_search ac"
  "ac_search (damage_all ac) = ac_search ac" "ac_search (on_terminal k ac) = ac_search ac" "ac_search (on_base j ac) = ac_search ac"
  by (simp_all add: ac_defs)

text \<open>What is left of a terminal when only its viewport is moved.\<close>

definition viewed :: "terminal \<Rightarrow> terminal \<Rightarrow> bool" where
  "viewed t0 t \<longleftrightarrow> t_mode t = t_mode t0
     \<and> (\<exists>n \<le> grid_history (t_grid t0). t_grid t = (t_grid t0)\<lparr>Grid.display_offset := n\<rparr>)"

lemma viewed_refl: "display_ok (t_grid t) \<Longrightarrow> viewed t t"
  by (auto simp: viewed_def display_ok_def intro!: exI [of _ "Grid.display_offset (t_grid t)"])

lemma viewed_fields:
  "viewed t0 (t\<lparr>vi_mode_cursor := p\<rparr>) = viewed t0 t" "viewed t0 (t\<lparr>t_selection := s\<rparr>) = viewed t0 t"
  by (simp_all add: viewed_def)

lemma viewed_recompute: "viewed t0 (vi_mode_recompute_selection t) = viewed t0 t"
  by (simp add: vi_mode_recompute_selection_def viewed_def split: option.split)

lemma recompute_keeps [simp]:
  "t_grid (vi_mode_recompute_selection t) = t_grid t" "vi_mode_cursor (vi_mode_recompute_selection t) = vi_mode_cursor t"
  "t_mode (vi_mode_recompute_selection t) = t_mode t"
  by (simp_all add: vi_mode_recompute_selection_def split: option.split)

lemma dims_scroll [simp]: "grid_dims (grid_scroll_display sc g) = grid_dims g"
  by (cases sc) (simp_all add: grid_dims_def)

lemma scroll_display_keeps:
  "t_grid (scroll_display sc t) = grid_scroll_display sc (t_grid t)" "t_mode (scroll_display sc t) = t_mode t"
  "vi_mode_cursor (scroll_display sc t) =
     (let off = - int (Grid.display_offset (grid_scroll_display sc (t_grid t))) in
      Point (min (off + bottommost_line (t_dims t)) (max off (line (vi_mode_cursor t)))) (column (vi_mode_cursor t)))"
  by (simp_all add: scroll_display_def Let_def send_event_def mark_fully_damaged_def)

lemma viewed_scroll:
  assumes "viewed t0 t"
  shows "viewed t0 (scroll_display sc t)"
proof -
  obtain n where n: "n \<le> grid_history (t_grid t0)" "t_grid t = (t_grid t0)\<lparr>Grid.display_offset := n\<rparr>" using assms by (auto simp: viewed_def)
  let ?g = "grid_scroll_display sc (t_grid t)"
  have d: "grid_dims (t_grid t) = grid_dims (t_grid t0)" using n(2) by (simp add: grid_dims_def)
  have "?g = (t_grid t0)\<lparr>Grid.display_offset := Grid.display_offset ?g\<rparr>" by (cases sc) (simp_all add: n(2))
  moreover have "Grid.display_offset ?g \<le> grid_history (t_grid t0)" using n by (cases sc) (simp_all add: d n(2))
  ultimately show ?thesis using assms unfolding viewed_def scroll_display_keeps by blast
qed

lemma viewed_scroll_to: "viewed t0 t \<Longrightarrow> viewed t0 (scroll_to_point p t)"
  by (simp add: scroll_to_point_def Let_def viewed_scroll)

lemma viewed_goto: "viewed t0 t \<Longrightarrow> viewed t0 (vi_goto_point p t)"
  by (simp add: vi_goto_point_def viewed_recompute viewed_fields viewed_scroll_to)

text \<open>During a search in vi mode the viewport can be brought back to where it was.\<close>

definition bar_inv :: "terminal \<Rightarrow> ('w, 's, 'e, 'c) action_context \<Rightarrow> bool" where
  "bar_inv t0 ac \<longleftrightarrow> mode_contains VI t0 \<and> viewed t0 (ac_terminal ac)
     \<and> ac_offset ac + display_offset_delta (ac_search ac) = int (Grid.display_offset (t_grid t0))
     \<and> search_origin (ac_search ac) = vi_mode_cursor t0"

lemma bar_inv_vi: "bar_inv t0 ac \<Longrightarrow> in_vi_mode ac"
  by (simp add: bar_inv_def viewed_def mode_contains_def)

lemma bar_inv_simps [simp]:
  "bar_inv t0 (mark_dirty ac) = bar_inv t0 ac" "bar_inv t0 (on_scheduler h ac) = bar_inv t0 ac" "bar_inv t0 (damage_all ac) = bar_inv t0 ac"
  "bar_inv t0 (on_search (\<lambda>s. s\<lparr>ss_focused_match := m\<rparr>) ac) = bar_inv t0 ac" "bar_inv t0 (on_search (\<lambda>s. s\<lparr>ss_dfas := d\<rparr>) ac) = bar_inv t0 ac"
  "bar_inv t0 (on_search (\<lambda>s. s\<lparr>ss_history := h' s\<rparr>) ac) = bar_inv t0 ac" "bar_inv t0 (on_search (\<lambda>s. s\<lparr>history_index := i\<rparr>) ac) = bar_inv t0 ac"
  "bar_inv t0 (ac\<lparr>mouse_visible := b\<rparr>) = bar_inv t0 ac"
  by (simp_all add: bar_inv_def)

lemma reset_restores:
  assumes "bar_inv t0 ac" "display_ok (t_grid t0)"
  shows "t_grid (ac_terminal (search_reset_state ac)) = t_grid t0" "bar_inv t0 (search_reset_state ac)"
    "- int (Grid.display_offset (t_grid t0)) \<le> line (vi_mode_cursor t0) \<Longrightarrow>
     line (vi_mode_cursor t0) \<le> bottommost_line (t_dims t0) - int (Grid.display_offset (t_grid t0)) \<Longrightarrow>
     vi_mode_cursor (ac_terminal (search_reset_state ac)) = vi_mode_cursor t0"
proof -
  let ?t = "ac_terminal ac" and ?d = "display_offset_delta (ac_search ac)" and ?p = "search_origin (ac_search ac)"
  have vi: "in_vi_mode ac" by (rule bar_inv_vi [OF assms(1)])
  obtain n where n: "t_grid ?t = (t_grid t0)\<lparr>Grid.display_offset := n\<rparr>" "int n + ?d = int (Grid.display_offset (t_grid t0))"
    using assms(1) by (auto simp: bar_inv_def viewed_def)
  have d: "grid_dims (t_grid ?t) = grid_dims (t_grid t0)" using n(1) by (simp add: grid_dims_def)
  have t: "ac_terminal (search_reset_state ac) = scroll_display (Delta ?d) (?t\<lparr>vi_mode_cursor := ?p\<rparr>)"
    using vi by (simp add: search_reset_state_def Let_def)
  show g: "t_grid (ac_terminal (search_reset_state ac)) = t_grid t0"
    using n assms(2) d by (simp add: t scroll_display_keeps display_ok_def)
  have m: "t_mode (ac_terminal (search_reset_state ac)) = t_mode t0"
    using assms(1) by (simp add: t scroll_display_keeps bar_inv_def viewed_def)
  have s: "search_origin (ac_search (search_reset_state ac)) = vi_mode_cursor t0" "display_offset_delta (ac_search (search_reset_state ac)) = 0"
    using assms(1) vi by (simp_all add: search_reset_state_def Let_def bar_inv_def)
  have "viewed t0 (ac_terminal (search_reset_state ac))" using viewed_refl [OF assms(2)] g m by (simp add: viewed_def)
  then show "bar_inv t0 (search_reset_state ac)" using assms(1) s g by (simp add: bar_inv_def)
  show "vi_mode_cursor (ac_terminal (search_reset_state ac)) = vi_mode_cursor t0"
    if "- int (Grid.display_offset (t_grid t0)) \<le> line (vi_mode_cursor t0)"
      "line (vi_mode_cursor t0) \<le> bottommost_line (t_dims t0) - int (Grid.display_offset (t_grid t0))"
  proof -
    have "grid_scroll_display (Delta ?d) (t_grid ?t) = t_grid t0" using g by (simp add: t scroll_display_keeps)
    then show ?thesis using that d assms(1) by (simp add: t scroll_display_keeps Let_def bar_inv_def)
  qed
qed

lemma found_match_inv: "bar_inv t0 ac \<Longrightarrow> bar_inv t0 (found_match mr ac)"
  using bar_inv_vi [of t0 ac] by (simp add: found_match_def Let_def bar_inv_def viewed_goto)

lemma goto_match_inv:
  assumes "bar_inv t0 ac" "display_ok (t_grid t0)" "goto_match now limit ac = Some ac'"
  shows "bar_inv t0 ac'"
  using assms(3,1)
  by (auto simp: goto_match_def Let_def delay_search_def intro!: found_match_inv reset_restores(2) [OF _ assms(2)]
      split: option.splits bind_splits if_splits)

lemma update_search_inv:
  assumes "bar_inv t0 ac" "display_ok (t_grid t0)" "update_search B now ac = Some ac'"
  shows "bar_inv t0 ac'"
  using assms(3,1)
  by (auto simp: update_search_def Let_def intro!: reset_restores(2) [OF _ assms(2)] elim!: goto_match_inv [OF _ assms(2), rotated]
      split: option.splits bind_splits if_splits)

text \<open>What the user does during a search, and the timer that continues it.\<close>

datatype search_event = Type_Char uchar | Delete_Word | Previous_Entry | Next_Entry | Scroll_View scroll | Search_Timer

definition search_op ::
  "('s, 'e, 'c, 'b) dfa_builder \<Rightarrow> nat \<Rightarrow> search_event \<Rightarrow> ('w, 's, 'e, 'c) action_context \<Rightarrow> ('w, 's, 'e, 'c) action_context option" where
  "search_op B now op = (case op of
     Type_Char c \<Rightarrow> search_input B now c
   | Delete_Word \<Rightarrow> search_pop_word B now
   | Previous_Entry \<Rightarrow> search_history_previous B now
   | Next_Entry \<Rightarrow> search_history_next B now
   | Scroll_View sc \<Rightarrow> ctx_scroll now sc
   | Search_Timer \<Rightarrow> goto_match now None)"

lemma typing_keeps [simp]:
  "ac_terminal (on_typing_start now ac) = ac_terminal ac" "ac_search (on_typing_start now ac) = ac_search ac"
  by (simp_all add: on_typing_start_def Let_def update_cursor_blinking_def schedule_blinking_def schedule_blinking_timeout_def split: prod.split)

lemma update_selection_viewed: "viewed t0 (cx_terminal (update_selection p sd cx)) = viewed t0 (cx_terminal cx)"
  "t_grid (cx_terminal (update_selection p sd cx)) = t_grid (cx_terminal cx)"
  by (auto simp: update_selection_def Let_def viewed_fields split: option.split prod.split)

lemma scroll_inv:
  assumes "bar_inv t0 ac" "search_active ac" "ctx_scroll now sc ac = Some ac'"
  shows "bar_inv t0 ac'"
proof -
  let ?ac = "on_search (\<lambda>s. s\<lparr>display_offset_delta := display_offset_delta s + (ac_offset ac - ac_offset (on_terminal (scroll_display sc) ac))\<rparr>) (on_terminal (scroll_display sc) ac)"
  have act: "search_active (on_terminal (scroll_display sc) ac)" using assms(2) by (simp add: search_active_def)
  have 1: "bar_inv t0 ?ac" using assms(1) by (simp add: bar_inv_def viewed_scroll)
  have 2: "bar_inv t0 (on_base (update_selection p sd) ?ac)" for p sd
    using 1 by (simp add: bar_inv_def on_base_def base_def update_selection_viewed)
  have 3: "bar_inv t0 (on_typing_start now a) = bar_inv t0 a" for a :: "('a, 'b, 'c, 'd) action_context" by (simp add: bar_inv_def)
  show ?thesis using assms(3) 1 2 act unfolding ctx_scroll_def Let_def
    by (auto simp: 3 split: if_splits bind_splits simp del: ac_parts)
qed

lemma active_keeps [simp]:
  "search_active (mark_dirty ac) = search_active ac" "search_active (on_scheduler h ac) = search_active ac" "search_active (on_terminal k ac) = search_active ac"
  "search_active (on_base j ac) = search_active ac" "search_active (on_typing_start now ac) = search_active ac"
  "search_active (on_search (\<lambda>s. s\<lparr>ss_dfas := d\<rparr>) ac) = search_active ac" "search_active (on_search (\<lambda>s. s\<lparr>ss_history := h' s\<rparr>) ac) = search_active ac"
  "search_active (on_search (\<lambda>s. s\<lparr>ss_focused_match := m\<rparr>) ac) = search_active ac" "search_active (on_search (\<lambda>s. s\<lparr>display_offset_delta := k' s\<rparr>) ac) = search_active ac"
  "search_active (ac\<lparr>mouse_visible := b\<rparr>) = search_active ac" "search_active (search_reset_state ac) = search_active ac" "search_active (found_match mr ac) = search_active ac"
  "search_active (delay_search now ac) = search_active ac"
  by (simp_all add: search_active_def search_reset_state_def found_match_def delay_search_def Let_def)

lemma goto_match_active: "goto_match now limit ac = Some ac' \<Longrightarrow> search_active ac' = search_active ac"
  by (auto simp: goto_match_def Let_def split: option.splits bind_splits if_splits)

lemma update_search_active: "update_search B now ac = Some ac' \<Longrightarrow> search_active ac' = search_active ac"
  by (auto simp: update_search_def Let_def dest: goto_match_active split: option.splits bind_splits if_splits)

lemma scroll_active: "ctx_scroll now sc ac = Some ac' \<Longrightarrow> search_active ac' = search_active ac"
  by (auto simp: ctx_scroll_def Let_def split: if_splits bind_splits)

lemma search_op_inv:
  assumes "bar_inv t0 ac" "search_active ac" "display_ok (t_grid t0)" "search_op B now op ac = Some ac'"
  shows "bar_inv t0 ac' \<and> search_active ac'"
proof -
  note up = update_search_inv [OF _ assms(3)] update_search_active
  have idx: "search_active (on_search (\<lambda>s. s\<lparr>history_index := Some i\<rparr>) ac)" for i by (simp add: search_active_def)
  show ?thesis
  proof (cases op)
    case (Type_Char c)
    obtain s regex where s: "copy_from_history (ac_search ac) = Some s" "vec_get (ss_history s) 0 = Some regex"
      and r: "case edit_regex c regex of None \<Rightarrow> ac' = ac\<lparr>ac_search := s\<rparr>
        | Some r \<Rightarrow> \<exists>hist. update_search B now (on_search (\<lambda>s. s\<lparr>ss_history := hist\<rparr>) (ac\<lparr>ac_search := s\<rparr>)) = Some ac'"
      using assms(4) Type_Char bar_inv_vi [OF assms(1)] assms(2)
      by (fastforce simp: search_op_def search_input_def Let_def split: bind_splits option.splits)
    have "history_index s \<noteq> None" "display_offset_delta s = display_offset_delta (ac_search ac)" "search_origin s = search_origin (ac_search ac)"
      using s(1) assms(2) by (auto simp: copy_from_history_def search_active_def split: option.splits if_splits bind_splits)
    then have 1: "bar_inv t0 (ac\<lparr>ac_search := s\<rparr>)" "search_active (ac\<lparr>ac_search := s\<rparr>)"
      using assms(1) by (simp_all add: bar_inv_def search_active_def)
    show ?thesis
    proof (cases "edit_regex c regex")
      case (Some r')
      then obtain hist where h: "update_search B now (on_search (\<lambda>s. s\<lparr>ss_history := hist\<rparr>) (ac\<lparr>ac_search := s\<rparr>)) = Some ac'" using r by auto
      then show ?thesis using up(1) [OF _ h] up(2) [OF h] 1 by simp
    qed (use r 1 in simp)
  next
    case Delete_Word
    then show ?thesis using assms by (auto simp: search_op_def search_pop_word_def dest: up(2) elim: up(1) [rotated] split: option.splits)
  next
    case Previous_Entry
    then show ?thesis using assms idx
      by (auto simp: search_op_def search_history_previous_def dest: up(2) elim: up(1) [rotated] split: option.splits if_splits)
  next
    case Next_Entry
    then show ?thesis using assms idx
      by (auto simp: search_op_def search_history_next_def dest: up(2) elim: up(1) [rotated] split: option.splits if_splits)
  next
    case (Scroll_View sc)
    then show ?thesis using assms scroll_inv [OF assms(1,2)] scroll_active by (fastforce simp: search_op_def)
  next
    case Search_Timer
    then show ?thesis using assms goto_match_inv [OF assms(1,3)] goto_match_active by (fastforce simp: search_op_def)
  qed
qed

lemma search_ops_inv:
  "bar_inv t0 ac \<Longrightarrow> search_active ac \<Longrightarrow> display_ok (t_grid t0) \<Longrightarrow> for_each ops (\<lambda>(now, op). search_op B now op) ac = Some ac' \<Longrightarrow> bar_inv t0 ac' \<and> search_active ac'"
proof (induction ops arbitrary: ac)
  case (Cons op ops)
  obtain now o1 where op: "op = (now, o1)" by (cases op)
  obtain ac1 where 1: "search_op B now o1 ac = Some ac1" "for_each ops (\<lambda>(now, op). search_op B now op) ac1 = Some ac'"
    using Cons.prems(4) op by (auto split: bind_splits)
  then show ?case using search_op_inv [OF Cons.prems(1-3) 1(1)] Cons.IH [OF _ _ Cons.prems(3) 1(2)] by simp
qed simp


section \<open>The history of searches\<close>

definition history_ok :: "('s, 'e, 'c) search_state \<Rightarrow> bool" where
  "history_ok s \<longleftrightarrow> length (ss_history s) \<le> MAX_SEARCH_HISTORY_SIZE \<and> (\<forall>i. history_index s = Some i \<longrightarrow> i < length (ss_history s))"

text \<open>What \<open>goto_match\<close> and the functions it calls do not touch.\<close>

definition same_entries :: "('w, 's, 'e, 'c) action_context \<Rightarrow> ('w, 's, 'e, 'c) action_context \<Rightarrow> bool" where
  "same_entries ac ac' \<longleftrightarrow> ss_history (ac_search ac') = ss_history (ac_search ac) \<and> history_index (ac_search ac') = history_index (ac_search ac)"

lemma reset_entries: "same_entries ac (search_reset_state ac)"
  by (simp add: same_entries_def search_reset_state_def Let_def)

lemma goto_match_entries: "goto_match now limit ac = Some ac' \<Longrightarrow> same_entries ac ac'"
  by (auto simp: goto_match_def Let_def same_entries_def found_match_def delay_search_def search_reset_state_def split: option.splits bind_splits if_splits)

lemma update_search_entries: "update_search B now ac = Some ac' \<Longrightarrow> same_entries ac ac'"
  by (auto simp: update_search_def Let_def same_entries_def search_reset_state_def dest!: goto_match_entries split: option.splits bind_splits if_splits)

lemma scroll_entries: "ctx_scroll now sc ac = Some ac' \<Longrightarrow> same_entries ac ac'"
  by (auto simp: ctx_scroll_def Let_def same_entries_def split: if_splits bind_splits)

lemma select_match_entries: "select_match mr ac = Some ac' \<Longrightarrow> same_entries ac ac'"
  by (auto simp: select_match_def try_base_def Let_def same_entries_def split: bind_splits)

lemma same_entries_ok: "same_entries ac ac' \<Longrightarrow> history_ok (ac_search ac) \<Longrightarrow> history_ok (ac_search ac')"
  by (simp add: same_entries_def history_ok_def)

lemma start_search_ok: "start_search dir ac = Some ac' \<Longrightarrow> history_ok (ac_search ac) \<Longrightarrow> history_ok (ac_search ac')"
  by (auto simp: start_search_def Let_def history_ok_def MAX_SEARCH_HISTORY_SIZE_def split: if_splits bind_splits)

lemma cancel_search_ok: "cancel_search ac = Some ac' \<Longrightarrow> history_ok (ac_search ac) \<Longrightarrow> history_ok (ac_search ac')"
  using reset_entries [of ac]
  by (auto simp: cancel_search_def exit_search_def history_ok_def same_entries_def dest!: select_match_entries split: if_splits bind_splits option.splits)

lemma confirm_search_ok: "confirm_search now ac = Some ac' \<Longrightarrow> history_ok (ac_search ac) \<Longrightarrow> history_ok (ac_search ac')"
  by (auto simp: confirm_search_def exit_search_def history_ok_def same_entries_def dest!: goto_match_entries
      dest: cancel_search_ok [unfolded history_ok_def] split: if_splits bind_splits)

lemma search_input_ok: "search_input B now c ac = Some ac' \<Longrightarrow> history_ok (ac_search ac) \<Longrightarrow> history_ok (ac_search ac')"
  by (auto simp: search_input_def copy_from_history_def history_ok_def same_entries_def Let_def vec_get_def vec_set_def dest!: update_search_entries
      split: if_splits bind_splits option.splits)

lemma advance_origin_ok: "advance_search_origin now dir ac = Some ac' \<Longrightarrow> history_ok (ac_search ac) \<Longrightarrow> history_ok (ac_search ac')"
  by (auto simp: advance_search_origin_def history_ok_def same_entries_def Let_def dest!: goto_match_entries split: if_splits bind_splits option.splits)

lemma search_op_ok: "search_op B now op ac = Some ac' \<Longrightarrow> history_ok (ac_search ac) \<Longrightarrow> history_ok (ac_search ac')"
  by (cases op)
    (auto simp: search_op_def search_pop_word_def search_history_previous_def search_history_next_def history_ok_def same_entries_def
      dest!: update_search_entries scroll_entries goto_match_entries dest: search_input_ok [unfolded history_ok_def] split: option.splits if_splits)

lemma type_seed_ok: "type_seed B now s ac = Some ac' \<Longrightarrow> history_ok (ac_search ac) \<Longrightarrow> history_ok (ac_search ac')"
  unfolding type_seed_def by (induction s arbitrary: ac) (auto dest: search_input_ok split: bind_splits if_splits)

lemma search_next_entries: "ctx_search_next p dir sd ac = Some (res, ac') \<Longrightarrow> same_entries ac ac'"
  by (auto simp: ctx_search_next_def same_entries_def split: option.splits bind_splits)

lemma seeded_search_ok: "start_seeded_search B now dir s ac = Some ac' \<Longrightarrow> history_ok (ac_search ac) \<Longrightarrow> history_ok (ac_search ac')"
proof -
  assume a: "start_seeded_search B now dir s ac = Some ac'" "history_ok (ac_search ac)"
  obtain ac1 ac2 ac3 where s: "start_search dir (on_base clear_selection ac) = Some ac1" "type_seed B now s ac1 = Some ac2" "confirm_search now ac2 = Some ac3"
    using a(1) by (auto simp: start_seeded_search_def Let_def split: bind_splits)
  have "history_ok (ac_search ac3)"
    using start_search_ok [OF s(1)] type_seed_ok [OF s(2)] confirm_search_ok [OF s(3)] a(2) by simp
  moreover have "same_entries ac3 ac'"
    using a(1) s unfolding start_seeded_search_def Let_def
    by (auto simp: same_entries_def dest!: search_next_entries split: bind_splits option.splits if_splits)
  ultimately show ?thesis by (rule same_entries_ok [rotated])
qed

datatype bar_event = Bar_Start direction | Bar_Cancel | Bar_Confirm | Bar_Focus direction | Bar_Seed direction ustring | Bar_Op search_event

definition bar_op ::
  "('s, 'e, 'c, 'b) dfa_builder \<Rightarrow> nat \<Rightarrow> bar_event \<Rightarrow> ('w, 's, 'e, 'c) action_context \<Rightarrow> ('w, 's, 'e, 'c) action_context option" where
  "bar_op B now op = (case op of
     Bar_Start dir \<Rightarrow> start_search dir
   | Bar_Cancel \<Rightarrow> cancel_search
   | Bar_Confirm \<Rightarrow> confirm_search now
   | Bar_Focus dir \<Rightarrow> advance_search_origin now dir
   | Bar_Seed dir s \<Rightarrow> start_seeded_search B now dir s
   | Bar_Op op \<Rightarrow> search_op B now op)"

lemma bar_op_ok: "bar_op B now op ac = Some ac' \<Longrightarrow> history_ok (ac_search ac) \<Longrightarrow> history_ok (ac_search ac')"
  by (cases op) (auto simp: bar_op_def dest: start_search_ok cancel_search_ok confirm_search_ok advance_origin_ok seeded_search_ok search_op_ok)

text \<open>
  C27 (invariant): over any sequence of searches the history keeps at most 255 entries and the position in it stays inside, so that the search bar always has a text to
  show while it is open.
\<close>

theorem search_history_valid:
  assumes "for_each ops (\<lambda>(now, op). bar_op B now op) ac = Some ac'" "ac_search ac = search_state_default"
  shows "length (ss_history (ac_search ac')) \<le> 255 \<and> (search_active ac' \<longrightarrow> search_regex (ac_search ac') \<noteq> None)"
proof -
  have "history_ok (ac_search ac')" if "history_ok (ac_search ac)"
    using assms(1) that
  proof (induction ops arbitrary: ac)
    case (Cons op ops)
    then show ?case by (cases op) (auto dest: bar_op_ok split: bind_splits)
  qed simp
  then show ?thesis
    using assms(2) by (auto simp: history_ok_def search_state_default_def MAX_SEARCH_HISTORY_SIZE_def search_active_def search_regex_def vec_get_def)
qed

text \<open>
  Deleting a word while an entry of the history is shown changes the entry itself. Typing a character copies the entry first.
\<close>

lemma pop_word_edits_history:
  assumes "history_index (ac_search ac) = Some i" "0 < i" "i < length (ss_history (ac_search ac))" "search_pop_word B now ac = Some ac'"
  shows "ss_history (ac_search ac') = (ss_history (ac_search ac))[i := pop_word (ss_history (ac_search ac) ! i)]"
  using assms by (auto simp: search_pop_word_def vec_get_def same_entries_def dest!: update_search_entries)

section \<open>Pasting\<close>

lemma mouse_point_total: "size_ok si \<Longrightarrow> mouse_point m si offset \<noteq> None"
  by (auto simp: mouse_point_def size_ok_def ensure_def csub_def)

lemma update_selection_frame [simp]: "cx_written (update_selection p sd cx) = cx_written cx" "cx_size (update_selection p sd cx) = cx_size cx"
  by (simp_all add: update_selection_def Let_def split: option.split prod.split)

lemma ctx_frame [simp]:
  "cx_written (ac_ctx (on_search f ac)) = cx_written (ac_ctx ac)" "cx_written (ac_ctx (on_terminal k ac)) = cx_written (ac_ctx ac)"
  "cx_written (ac_ctx (mark_dirty ac)) = cx_written (ac_ctx ac)" "cx_written (ac_ctx (on_base j ac)) = cx_written (j (base ac))"
  "cx_size (ac_ctx (on_search f ac)) = cx_size (ac_ctx ac)" "cx_size (ac_ctx (on_terminal k ac)) = cx_size (ac_ctx ac)"
  "cx_size (ac_ctx (on_base j ac)) = cx_size (j (base ac))" "cx_size (base ac) = cx_size (ac_ctx ac)" "cx_written (base ac) = cx_written (ac_ctx ac)"
  by (simp_all add: ac_defs base_def)

lemma typing_frame [simp]:
  "cx_written (ac_ctx (on_typing_start now ac)) = cx_written (ac_ctx ac)" "cx_size (ac_ctx (on_typing_start now ac)) = cx_size (ac_ctx ac)"
  by (simp_all add: on_typing_start_def Let_def update_cursor_blinking_def schedule_blinking_def schedule_blinking_timeout_def ac_defs split: prod.split)

lemma scroll_written: "ctx_scroll now sc ac = Some ac' \<Longrightarrow> cx_written (ac_ctx ac') = cx_written (ac_ctx ac)"
  by (auto simp: ctx_scroll_def Let_def split: if_splits bind_splits)

lemma scroll_total: "size_ok (cx_size (ac_ctx ac)) \<Longrightarrow> ctx_scroll now sc ac \<noteq> None"
  using mouse_point_total [of "cx_size (ac_ctx ac)"] by (simp add: ctx_scroll_def Let_def bind_eq_None_conv bind_eq_Some_conv)

lemma input_start_total:
  assumes "size_ok (cx_size (ac_ctx ac))"
  shows "\<exists>ac'. on_terminal_input_start now ac = Some ac' \<and> cx_written (ac_ctx ac') = cx_written (ac_ctx ac)"
proof -
  let ?ac = "on_base clear_selection (on_typing_start now ac)"
  have f: "cx_size (ac_ctx ?ac) = cx_size (ac_ctx ac)" "cx_written (ac_ctx ?ac) = cx_written (ac_ctx ac)" by (simp_all add: clear_selection_def)
  then obtain ac' where "ctx_scroll now Scroll_Bottom ?ac = Some ac'" using scroll_total [of ?ac now Scroll_Bottom] assms by auto
  then show ?thesis using f scroll_written [of now Scroll_Bottom ?ac ac'] by (simp add: on_terminal_input_start_def Let_def)
qed

lemma encode_utf8_small: "b \<in> set (encode_utf8 c) \<Longrightarrow> b < 0x80 \<Longrightarrow> b = c"
  by (auto simp: encode_utf8_def split: if_splits)

lemma ctx_write_written: "concat (cx_written (ac_ctx (ctx_write bs ac))) = concat (cx_written (ac_ctx ac)) @ bs"
  by (simp add: ctx_write_def write_to_pty_def)

text \<open>
  C28 (safety): a program that asked for bracketed pastes can tell pasted text from typed keys. What is written is the marker of the start, the text and the marker of the end, and the text
  has no escape character, so that it cannot contain the marker of its own end.
\<close>

theorem paste_bracketed:
  assumes "\<not> search_active ac" "\<not> char_pending (ac_inline ac)" "mode_contains BRACKETED_PASTE (ac_terminal ac)" "size_ok (cx_size (ac_ctx ac))"
  shows "\<exists>ac'. paste B now s True ac = Some ac'
    \<and> concat (cx_written (ac_ctx ac')) = concat (cx_written (ac_ctx ac)) @ map of_char (ESC @ ''[200~'') @ utf8 (filter (\<lambda>c. c \<noteq> 0x1B \<and> c \<noteq> 0x03) s) @ map of_char (ESC @ ''[201~'')
    \<and> 0x1B \<notin> set (utf8 (filter (\<lambda>c. c \<noteq> 0x1B \<and> c \<noteq> 0x03) s))"
proof -
  obtain ac1 where 1: "on_terminal_input_start now ac = Some ac1" "cx_written (ac_ctx ac1) = cx_written (ac_ctx ac)"
    using input_start_total [OF assms(4)] by blast
  have "0x1B \<notin> set (encode_utf8 c)" if "c \<noteq> 0x1B" for c using encode_utf8_small [of "0x1B" c] that by auto
  then have "0x1B \<notin> set (utf8 (filter_paste s))" by (auto simp: utf8_def filter_paste_def)
  then show ?thesis using assms(1-3) 1 by (simp add: paste_def Let_def ctx_write_written filter_paste_def)
qed

text \<open>Without brackets every line break becomes a single carriage return.\<close>

lemma paste_line_breaks:
  assumes "\<not> search_active ac" "\<not> char_pending (ac_inline ac)" "\<not> mode_contains BRACKETED_PASTE (ac_terminal ac)" "size_ok (cx_size (ac_ctx ac))"
  shows "\<exists>ac'. paste B now s True ac = Some ac' \<and> concat (cx_written (ac_ctx ac')) = concat (cx_written (ac_ctx ac)) @ utf8 (paste_payload True s)
    \<and> 0x0A \<notin> set (utf8 (paste_payload True s))"
proof -
  obtain ac1 where 1: "on_terminal_input_start now ac = Some ac1" "cx_written (ac_ctx ac1) = cx_written (ac_ctx ac)"
    using input_start_total [OF assms(4)] by blast
  have "0x0A \<notin> set (encode_utf8 c)" if "c \<noteq> 0x0A" for c using encode_utf8_small [of "0x0A" c] that by auto
  then have "0x0A \<notin> set (utf8 (paste_payload True s))" by (auto simp: utf8_def paste_payload_def split: if_splits)
  then show ?thesis using assms(1-3) 1 by (simp add: paste_def Let_def ctx_write_written)
qed

text \<open>A dot in the text that is searched for is not escaped, it stands for any character.\<close>

lemma dot_not_escaped: "\<not> is_regex_special 0x2E"
  by (simp add: is_regex_special_def)

section \<open>Witnesses\<close>

definition demo_scrolled :: grid where
  "demo_scrolled = demo_back\<lparr>g_cursor := (g_cursor demo_back)\<lparr>cur_point := Point 0 0\<rparr>\<rparr>"

lemma demo_scrolled_fields: "Grid.display_offset demo_scrolled = 1" "grid_history demo_scrolled = 1" "g_lines demo_scrolled = 3" "cur_point (g_cursor demo_scrolled) = Point 0 0"
  using demo_back_ok by (simp_all add: demo_scrolled_def grid_dims_def)

definition demo_view :: terminal where
  "demo_view = demo_term\<lparr>t_grid := demo_scrolled, t_mode := VI OR BRACKETED_PASTE, vi_mode_cursor := Point 0 1\<rparr>"

definition demo_cx :: "((unit, unit, unit) hint_match, nat) ctx" where
  "demo_cx = \<lparr>cx_terminal = demo_view, cx_mouse = mouse_default 0, cx_modifiers = \<lparr>shift_key = False, alt_key = False, control_key = False, super_key = False\<rparr>,
     cx_size = demo_size_info, cx_search_active = False, save_to_clipboard = False, cx_written = [], cx_clipboard = [], cx_highlighted_hint = None, cx_triggered = [],
     cx_scheduler = \<lparr>timers = [], sent = []\<rparr>, cx_window = 0, cx_dirty = False\<rparr>"

definition demo_ac :: "(nat, unit, unit, unit) action_context" where
  "demo_ac = \<lparr>ac_ctx = demo_cx, ac_search = search_state_default, ac_inline = inline_search_default, ac_hints = hint_state_new [106, 102], ac_messages = [], ac_tracker = demo_tracker,
     ac_cursor_config = \<lparr>cfg_style = Style_Shape Shape_Block, cfg_vi_mode_style = None, cfg_blink_interval = 750, cfg_blink_timeout = 5\<rparr>,
     hide_when_typing = True, cursor_hidden = False, cursor_blink_timed_out = False, ime_preedit = False, mouse_visible = True, vi_ime_inhibited = True,
     pending_update_dirty = False, ac_spawned = [], accumulated_scroll_x = 0, accumulated_scroll_y = 0, vi_highlighted_hint = None, window_hold = True, ac_window_calls = []\<rparr>"

text \<open>No expression is accepted by this builder.\<close>

definition no_builder :: "(unit, unit, unit, unit) dfa_builder" where
  "no_builder = \<lparr>build_dfa = \<lambda>_ _ _ _. Inl (), create_cache = \<lambda>_. (), nfa_has_empty = \<lambda>_. False, is_uppercase = \<lambda>_. False\<rparr>"

lemma demo_ac_fields: "ac_terminal demo_ac = demo_view" "t_grid demo_view = demo_scrolled" "t_mode demo_view = VI OR BRACKETED_PASTE" "vi_mode_cursor demo_view = Point 0 1"
  "ac_search demo_ac = search_state_default" "ac_inline demo_ac = inline_search_default" "cx_size (ac_ctx demo_ac) = demo_size_info" "cx_written (ac_ctx demo_ac) = []"
  by (simp_all add: demo_ac_def demo_cx_def demo_view_def)

lemma no_builder_new: "regex_search_new no_builder r = Inl ()"
  by (simp add: regex_search_new_def lazy_dfa_new_def no_builder_def Let_def)

lemma no_builder_update: "update_search no_builder now ac \<noteq> None"
  by (simp add: update_search_def Let_def no_builder_new goto_match_def split: option.split)

lemma no_builder_input: "search_active ac \<Longrightarrow> history_ok (ac_search ac) \<Longrightarrow> search_input no_builder now c ac \<noteq> None"
  using no_builder_update
  by (auto simp: search_input_def copy_from_history_def search_active_def history_ok_def vec_get_def vec_set_def Let_def split: option.split)

lemma demo_search_runs:
  assumes "start_search Right demo_ac = Some ac1"
  shows "\<exists>ac2. for_each [(0, Scroll_View (Delta (-1))), (1, Type_Char 97)] (\<lambda>(now, op). search_op no_builder now op) ac1 = Some ac2"
proof -
  have 1: "search_active ac1" "history_ok (ac_search ac1)" "cx_size (ac_ctx ac1) = demo_size_info"
    using assms start_search_ok [OF assms] by (auto simp: start_search_def Let_def search_active_def demo_ac_fields search_state_default_def history_ok_def
        damage_all_def split: bind_splits if_splits)
  have "size_ok demo_size_info" by code_simp
  then obtain ac2 where 2: "ctx_scroll 0 (Delta (-1)) ac1 = Some ac2" using scroll_total [of ac1 0 "Delta (-1)"] 1(3) by auto
  then have "search_active ac2" "history_ok (ac_search ac2)" using scroll_active [OF 2] same_entries_ok [OF scroll_entries [OF 2]] 1 by simp_all
  then show ?thesis using 2 no_builder_input [of ac2 1 97] by (auto simp: search_op_def)
qed


theorem search_history_valid_witness:
  "\<exists>ac'. for_each [(0, Bar_Start Right), (1, Bar_Op (Type_Char 97))] (\<lambda>(now, op). bar_op no_builder now op) demo_ac = Some ac'
    \<and> length (ss_history (ac_search ac')) \<le> 255 \<and> (search_active ac' \<longrightarrow> search_regex (ac_search ac') \<noteq> None)"
proof -
  have "mode_contains VI demo_view" by (simp add: demo_ac_fields mode_contains_def flag_contains_def)
  then obtain ac1 where 1: "start_search Right demo_ac = Some ac1" "search_active ac1"
    by (auto simp: start_search_def Let_def search_active_def demo_ac_fields)
  have "history_ok (ac_search ac1)" using start_search_ok [OF 1(1)] by (simp add: demo_ac_fields search_state_default_def history_ok_def)
  then obtain ac' where "for_each [(0, Bar_Start Right), (1, Bar_Op (Type_Char 97))] (\<lambda>(now, op). bar_op no_builder now op) demo_ac = Some ac'"
    using 1 no_builder_input [of ac1 1 97] by (auto simp: bar_op_def search_op_def)
  then show ?thesis using search_history_valid [OF _ demo_ac_fields(5)] by blast
qed

theorem paste_bracketed_witness:
  "\<exists>ac'. paste no_builder 0 [97, 27, 91] True demo_ac = Some ac' \<and> concat (cx_written (ac_ctx ac')) = [27, 91, 50, 48, 48, 126, 97, 91, 27, 91, 50, 48, 49, 126]"
proof -
  have "size_ok demo_size_info" "flag_contains (VI OR BRACKETED_PASTE) BRACKETED_PASTE" by code_simp+
  then show ?thesis using paste_bracketed [of demo_ac no_builder 0 "[97, 27, 91]"]
    by (simp add: demo_ac_fields mode_contains_def search_active_def search_state_default_def inline_search_default_def utf8_def encode_utf8_def ESC_def)
qed

end
