(* ===== verification/Actions.thy ===== *)
theory Actions
  imports Search_Bar Keyboard_Input
begin

text \<open>
  Actions and the input that triggers them (\<^verbatim>\<open>alacritty/src/input/mod.rs\<close>, \<^verbatim>\<open>input/keyboard.rs\<close>; the names of the actions are in
  \<^verbatim>\<open>config/bindings.rs\<close>). \<open>execute\<close> is the action of a binding, \<open>key_input\<close> and \<open>mouse_input\<close> are the handlers of the window's events.
  The contents of the clipboards are the argument \<open>clip\<close>. Actions that exist only on macOS do nothing elsewhere.
\<close>

unbundle bit_operations_syntax

section \<open>Names\<close>

datatype vi_action =
    ToggleNormalSelection | ToggleLineSelection | ToggleBlockSelection | ToggleSemanticSelection
  | Vi_SearchNext | Vi_SearchPrevious | Vi_SearchStart | Vi_SearchEnd | Vi_Open | CenterAroundViCursor
  | InlineSearchForward | InlineSearchBackward | InlineSearchForwardShort | InlineSearchBackwardShort
  | InlineSearchNext | InlineSearchPrevious | SemanticSearchForward | SemanticSearchBackward

datatype search_action =
    SearchFocusNext | SearchFocusPrevious | SearchConfirm | SearchCancel | SearchClear | SearchDeleteWord
  | SearchHistoryPrevious | SearchHistoryNext

datatype mouse_action = ExpandSelection

datatype macos_action = HideOtherApplications | SelectNextTab | SelectPreviousTab | SelectTab nat | SelectLastTab | CreateNewTab | ToggleSimpleFullscreen

datatype ('s, 'e, 'c) action =
    Act_Esc ustring
  | Act_Command string "string list"
  | Act_Hint "('s, 'e, 'c) hint"
  | Act_ViMotion vi_motion
  | Act_Vi vi_action
  | Act_Search search_action
  | Act_Mouse mouse_action
  | Act_Paste | Act_Copy | Act_CopySelection | Act_PasteSelection
  | Act_IncreaseFontSize | Act_DecreaseFontSize | Act_ResetFontSize
  | Act_ScrollPageUp | Act_ScrollPageDown | Act_ScrollHalfPageUp | Act_ScrollHalfPageDown
  | Act_ScrollLineUp | Act_ScrollLineDown | Act_ScrollToTop | Act_ScrollToBottom
  | Act_ClearHistory | Act_Hide | Act_Minimize | Act_Quit | Act_ClearLogNotice | Act_SpawnNewInstance | Act_CreateNewWindow
  | Act_ToggleFullscreen | Act_ToggleMaximized | Act_ClearSelection | Act_ToggleViMode | Act_ReceiveChar
  | Act_SearchForward | Act_SearchBackward | Act_None
  | Act_MacOS macos_action

section \<open>Execution\<close>

definition try_terminal :: "(terminal \<Rightarrow> terminal option) \<Rightarrow> ('w, 's, 'e, 'c) action_context \<Rightarrow> ('w, 's, 'e, 'c) action_context option" where
  "try_terminal f ac = do { t \<leftarrow> f (ac_terminal ac); Some (on_terminal (\<lambda>_. t) ac) }"

definition call_window :: "window_call \<Rightarrow> ('w, 's, 'e, 'c) action_context \<Rightarrow> ('w, 's, 'e, 'c) action_context" where
  "call_window c ac = ac\<lparr>ac_window_calls := ac_window_calls ac @ [c]\<rparr>"

definition FONT_SIZE_STEP :: rat where "FONT_SIZE_STEP = 1"

definition vi_toggle_selection :: "selection_type \<Rightarrow> ('w, 's, 'e, 'c) action_context \<Rightarrow> ('w, 's, 'e, 'c) action_context option" where
  \<comment> \<open>\<^verbatim>\<open>Action::toggle_selection\<close>\<close>
  "vi_toggle_selection ty ac = do {
     ac \<leftarrow> try_base (toggle_selection ty (vi_mode_cursor (ac_terminal ac)) Left) ac;
     Some (on_terminal (\<lambda>t. t\<lparr>t_selection := map_option include_all (t_selection t)\<rparr>) ac)
   }"

definition goto_found :: "point option \<Rightarrow> ('w, 's, 'e, 'c) action_context \<Rightarrow> ('w, 's, 'e, 'c) action_context" where
  "goto_found p ac = (case p of None \<Rightarrow> ac | Some p \<Rightarrow> mark_dirty (on_terminal (vi_goto_point p) ac))"

definition vi_search :: "direction \<Rightarrow> ('w, 's, 'e, 'c) action_context \<Rightarrow> ('w, 's, 'e, 'c) action_context option" where
  \<comment> \<open>the next match behind the vi cursor\<close>
  "vi_search dir ac = do {
     let t = ac_terminal ac;
     origin \<leftarrow> (case dir of Right \<Rightarrow> point_add (t_dims t) Boundary_None 1 (vi_mode_cursor t)
                         | Left \<Rightarrow> point_sub (t_dims t) Boundary_None 1 (vi_mode_cursor t));
     (res, ac) \<leftarrow> ctx_search_next origin dir Left ac;
     Some (goto_found (map_option fst res) ac)
   }"

definition vi_search_end :: "('w, 's, 'e, 'c) action_context \<Rightarrow> ('w, 's, 'e, 'c) action_context option" where
  "vi_search_end ac = do {
     let t = ac_terminal ac;
     origin \<leftarrow> point_add (t_dims t) Boundary_None 1 (vi_mode_cursor t);
     (res, ac) \<leftarrow> ctx_search_next origin Right Right ac;
     Some (goto_found (map_option snd res) ac)
   }"

definition semantic_search ::
  "('s, 'e, 'c, 'b) dfa_builder \<Rightarrow> nat \<Rightarrow> direction \<Rightarrow> ('w, 's, 'e, 'c) action_context \<Rightarrow> ('w, 's, 'e, 'c) action_context option" where
  "semantic_search B now dir ac = do {
     let t = ac_terminal ac;
     sel \<leftarrow> selection_to_string t;
     seed \<leftarrow> (case sel of
                Some s \<Rightarrow> if s \<noteq> [] then Some s else semantic_word t (vi_mode_cursor t)
              | None \<Rightarrow> semantic_word t (vi_mode_cursor t));
     if seed = [] then Some ac else start_seeded_search B now dir seed ac
   }"

definition open_hint ::
  "('s, 'e, 'c, 'b) dfa_builder \<Rightarrow> nat \<Rightarrow> ('w, 's, 'e, 'c) action_context \<Rightarrow> ('w, 's, 'e, 'c) action_context option" where
  "open_hint B now ac = (case vi_highlighted_hint ac of
     None \<Rightarrow> Some ac
   | Some hm \<Rightarrow> do {
       (hm, ac) \<leftarrow> trigger_hint B now hm (on_mouse (\<lambda>m. m\<lparr>block_hint_launcher := False\<rparr>) (ac\<lparr>vi_highlighted_hint := None\<rparr>));
       Some (ac\<lparr>vi_highlighted_hint := Some hm\<rparr>)
     })"

definition execute_vi ::
  "('s, 'e, 'c, 'b) dfa_builder \<Rightarrow> nat \<Rightarrow> vi_action \<Rightarrow> ('w, 's, 'e, 'c) action_context \<Rightarrow> ('w, 's, 'e, 'c) action_context option" where
  "execute_vi B now a ac = (case a of
     ToggleNormalSelection \<Rightarrow> vi_toggle_selection Simple ac
   | ToggleLineSelection \<Rightarrow> vi_toggle_selection Lines ac
   | ToggleBlockSelection \<Rightarrow> vi_toggle_selection Block ac
   | ToggleSemanticSelection \<Rightarrow> vi_toggle_selection Semantic ac
   | Vi_Open \<Rightarrow> open_hint B now ac
   | Vi_SearchNext \<Rightarrow> vi_search (ss_direction (ac_search ac)) (on_typing_start now ac)
   | Vi_SearchPrevious \<Rightarrow> vi_search (opposite (ss_direction (ac_search ac))) (on_typing_start now ac)
   | Vi_SearchStart \<Rightarrow> vi_search Left ac
   | Vi_SearchEnd \<Rightarrow> vi_search_end ac
   | CenterAroundViCursor \<Rightarrow>
       (let target = - ac_offset ac + int (t_lines (ac_terminal ac)) div 2 - 1
        in ctx_scroll now (Delta (target - line (vi_mode_cursor (ac_terminal ac)))) ac)
   | InlineSearchForward \<Rightarrow> Some (start_inline_search Right False ac)
   | InlineSearchBackward \<Rightarrow> Some (start_inline_search Left False ac)
   | InlineSearchForwardShort \<Rightarrow> Some (start_inline_search Right True ac)
   | InlineSearchBackwardShort \<Rightarrow> Some (start_inline_search Left True ac)
   | InlineSearchNext \<Rightarrow> inline_search_next ac
   | InlineSearchPrevious \<Rightarrow> inline_search_previous ac
   | SemanticSearchForward \<Rightarrow> semantic_search B now Right ac
   | SemanticSearchBackward \<Rightarrow> semantic_search B now Left ac)"

definition execute_search ::
  "('s, 'e, 'c, 'b) dfa_builder \<Rightarrow> nat \<Rightarrow> search_action \<Rightarrow> ('w, 's, 'e, 'c) action_context \<Rightarrow> ('w, 's, 'e, 'c) action_context option" where
  "execute_search B now a ac = (case a of
     SearchFocusNext \<Rightarrow> advance_search_origin now (ss_direction (ac_search ac)) ac
   | SearchFocusPrevious \<Rightarrow> advance_search_origin now (opposite (ss_direction (ac_search ac))) ac
   | SearchConfirm \<Rightarrow> confirm_search now ac
   | SearchCancel \<Rightarrow> cancel_search ac
   | SearchClear \<Rightarrow> do {
       let dir = ss_direction (ac_search ac);
       ac \<leftarrow> cancel_search ac;
       start_search dir ac
     }
   | SearchDeleteWord \<Rightarrow> search_pop_word B now ac
   | SearchHistoryPrevious \<Rightarrow> search_history_previous B now ac
   | SearchHistoryNext \<Rightarrow> search_history_next B now ac)"

definition scroll_page :: "nat \<Rightarrow> scroll \<Rightarrow> int \<Rightarrow> ('w, 's, 'e, 'c) action_context \<Rightarrow> ('w, 's, 'e, 'c) action_context option" where
  "scroll_page now sc amount ac = do {
     let t = ac_terminal ac;
     p \<leftarrow> vi_scroll t amount (vi_mode_cursor t);
     let ac = on_terminal (\<lambda>t. t\<lparr>vi_mode_cursor := p\<rparr>) ac;
     ctx_scroll now sc (if vi_mode_cursor t \<noteq> p then mark_dirty ac else ac)
   }"

definition scroll_to_top :: "nat \<Rightarrow> ('w, 's, 'e, 'c) action_context \<Rightarrow> ('w, 's, 'e, 'c) action_context option" where
  "scroll_to_top now ac = do {
     ac \<leftarrow> ctx_scroll now Scroll_Top ac;
     let ac = on_terminal (\<lambda>t. t\<lparr>vi_mode_cursor := Point (topmost_line (t_dims t)) (column (vi_mode_cursor t))\<rparr>) ac;
     ac \<leftarrow> try_terminal (term_vi_motion Vi_First_Occupied) ac;
     Some (mark_dirty ac)
   }"

definition scroll_to_bottom :: "nat \<Rightarrow> ('w, 's, 'e, 'c) action_context \<Rightarrow> ('w, 's, 'e, 'c) action_context option" where
  "scroll_to_bottom now ac = do {
     ac \<leftarrow> ctx_scroll now Scroll_Bottom ac;
     let ac = on_terminal (\<lambda>t. t\<lparr>vi_mode_cursor := Point (bottommost_line (t_dims t)) (column (vi_mode_cursor t))\<rparr>) ac;
     ac \<leftarrow> try_terminal (term_vi_motion Vi_First_Occupied) ac;
     ac \<leftarrow> try_terminal (term_vi_motion Vi_First_Occupied) ac;
     Some (mark_dirty ac)
   }"

definition execute ::
  "('s, 'e, 'c, 'b) dfa_builder \<Rightarrow> (clipboard_type \<Rightarrow> ustring) \<Rightarrow> nat \<Rightarrow> ('s, 'e, 'c) action \<Rightarrow> ('w, 's, 'e, 'c) action_context
   \<Rightarrow> ('w, 's, 'e, 'c) action_context option" where
  "execute B clip now a ac = (case a of
     Act_Esc s \<Rightarrow> paste B now s False ac
   | Act_Command program args \<Rightarrow> Some (ac\<lparr>ac_spawned := ac_spawned ac @ [(program, map (map of_char) args)]\<rparr>)
   | Act_Hint h \<Rightarrow> Some (mark_dirty (ac\<lparr>ac_hints := hint_start h (ac_hints ac)\<rparr>))
   | Act_ToggleViMode \<Rightarrow> ctx_toggle_vi_mode (on_typing_start now ac)
   | Act_ViMotion m \<Rightarrow>
       if \<not> in_vi_mode ac then Some ac
       else map_option mark_dirty (try_terminal (term_vi_motion m) (on_typing_start now ac))
   | Act_Vi v \<Rightarrow> if \<not> in_vi_mode ac then Some ac else execute_vi B now v ac
   | Act_Search s \<Rightarrow> if \<not> search_active ac then Some ac else execute_search B now s ac
   | Act_Mouse ExpandSelection \<Rightarrow> expand_selection ac
   | Act_SearchForward \<Rightarrow> start_search Right ac
   | Act_SearchBackward \<Rightarrow> start_search Left ac
   | Act_Copy \<Rightarrow> try_base (copy_selection Clipboard_Main) ac
   | Act_CopySelection \<Rightarrow> try_base (copy_selection Clipboard_Selection) ac
   | Act_ClearSelection \<Rightarrow> Some (on_base clear_selection ac)
   | Act_Paste \<Rightarrow> paste B now (clip Clipboard_Main) True ac
   | Act_PasteSelection \<Rightarrow> paste B now (clip Clipboard_Selection) True ac
   | Act_ToggleFullscreen \<Rightarrow> Some (call_window Toggle_Fullscreen ac)
   | Act_ToggleMaximized \<Rightarrow> Some (call_window Toggle_Maximized ac)
   | Act_Hide \<Rightarrow> Some (call_window (Set_Visible False) ac)
   | Act_Minimize \<Rightarrow> Some (call_window (Set_Minimized True) ac)
   | Act_Quit \<Rightarrow> Some (on_terminal term_exit (ac\<lparr>window_hold := False\<rparr>))
   | Act_IncreaseFontSize \<Rightarrow> Some (call_window (Change_Font_Size FONT_SIZE_STEP) ac)
   | Act_DecreaseFontSize \<Rightarrow> Some (call_window (Change_Font_Size (- FONT_SIZE_STEP)) ac)
   | Act_ResetFontSize \<Rightarrow> Some (call_window Reset_Font_Size ac)
   | Act_ScrollPageUp \<Rightarrow> scroll_page now PageUp (int (t_lines (ac_terminal ac))) ac
   | Act_ScrollPageDown \<Rightarrow> scroll_page now PageDown (- int (t_lines (ac_terminal ac))) ac
   | Act_ScrollHalfPageUp \<Rightarrow> (let amount = int (t_lines (ac_terminal ac)) div 2 in scroll_page now (Delta amount) amount ac)
   | Act_ScrollHalfPageDown \<Rightarrow> (let amount = - (int (t_lines (ac_terminal ac)) div 2) in scroll_page now (Delta amount) amount ac)
   | Act_ScrollLineUp \<Rightarrow> ctx_scroll now (Delta 1) ac
   | Act_ScrollLineDown \<Rightarrow> ctx_scroll now (Delta (-1)) ac
   | Act_ScrollToTop \<Rightarrow> scroll_to_top now ac
   | Act_ScrollToBottom \<Rightarrow> scroll_to_bottom now ac
   | Act_ClearHistory \<Rightarrow> try_terminal (clear_screen Clear_Saved) ac
   | Act_ClearLogNotice \<Rightarrow> Some (ctx_pop_message ac)
   | Act_CreateNewWindow \<Rightarrow> Some (call_window Create_Window ac)
   | Act_SpawnNewInstance \<Rightarrow> Some (call_window Spawn_Instance ac)
   | _ \<Rightarrow> Some ac)"

section \<open>Keys\<close>

definition reset_search_delay :: "nat \<Rightarrow> ('w, 's, 'e, 'c) action_context \<Rightarrow> ('w, 's, 'e, 'c) action_context" where
  "reset_search_delay now ac =
     (if search_active ac then
        on_scheduler (\<lambda>s. case unschedule (window_timer DelayedSearch ac) s of
            (None, s) \<Rightarrow> s
          | (Some tm, s) \<Rightarrow> schedule now (timer_event tm) TYPING_SEARCH_DELAY False (id_of tm) s) ac
      else ac)"

definition is_receive_char :: "('s, 'e, 'c) action \<Rightarrow> bool" where
  "is_receive_char a \<longleftrightarrow> (case a of Act_ReceiveChar \<Rightarrow> True | _ \<Rightarrow> False)"

definition key_press ::
  "('s, 'e, 'c, 'b) dfa_builder \<Rightarrow> (clipboard_type \<Rightarrow> ustring) \<Rightarrow> winit_env \<Rightarrow> (binding_key, ('s, 'e, 'c) action) binding list
   \<Rightarrow> nat \<Rightarrow> key_event \<Rightarrow> ('w, 's, 'e, 'c) action_context \<Rightarrow> ('w, 's, 'e, 'c) action_context option" where
  \<comment> \<open>\<open>bs\<close> has the key bindings followed by those of the hints\<close>
  "key_press B clip W bs now k ac = do {
     let mode = t_mode (ac_terminal ac);
     let mods = cx_modifiers (ac_ctx ac);
     let s = (case key_text k of None \<Rightarrow> [] | Some s \<Rightarrow> s);
     if hint_active (ac_hints ac) then for_each s (hint_input B now) ac
     else if char_pending (ac_inline ac) then inline_search_input s ac
     else do {
       let ac = reset_search_delay now ac;
       let (actions, suppressed) = process_key_bindings W is_receive_char k mods (binding_mode_new mode (search_active ac)) bs;
       ac \<leftarrow> for_each actions (execute B clip now) ac;
       if suppressed then Some ac
       else if search_active ac then for_each s (search_input B now) ac
       else if flag_contains mode VI then Some ac
       else do {
         out \<leftarrow> key_press_text W k mods mode;
         if out = [] then Some ac
         else do {
           ac \<leftarrow> (if is_modifier_key k then Some ac else on_terminal_input_start now ac);
           Some (ctx_write (utf8 out) ac)
         }
       }
     }
   }"

definition key_input ::
  "('s, 'e, 'c, 'b) dfa_builder \<Rightarrow> (clipboard_type \<Rightarrow> ustring) \<Rightarrow> winit_env \<Rightarrow> (binding_key, ('s, 'e, 'c) action) binding list
   \<Rightarrow> nat \<Rightarrow> key_event \<Rightarrow> ('w, 's, 'e, 'c) action_context \<Rightarrow> ('w, 's, 'e, 'c) action_context option" where
  "key_input B clip W bs now k ac =
     (if ime_preedit ac then Some ac
      else if key_state k = Released then do {
        let ac = (if char_pending (ac_inline ac) then ac\<lparr>vi_ime_inhibited := False\<rparr> else ac);
        out \<leftarrow> key_release_text W k (cx_modifiers (ac_ctx ac)) (t_mode (ac_terminal ac)) (search_active ac \<or> hint_active (ac_hints ac));
        Some (ctx_write (utf8 out) ac)
      }
      else key_press B clip W bs now k ac)"

section \<open>Parts of the window that actions leave alone\<close>

text \<open>
  A part of the window's state that does not depend on the terminal, the mouse, the clipboards, the timers and the mark of what has to be drawn
  is changed only by actions that write to the program.
\<close>

definition sends :: "('s, 'e, 'c) action \<Rightarrow> bool" where
  "sends a \<longleftrightarrow> (case a of Act_Esc _ \<Rightarrow> True | Act_Paste \<Rightarrow> True | Act_PasteSelection \<Rightarrow> True | Act_Vi v \<Rightarrow> v = Vi_Open | _ \<Rightarrow> False)"

locale ctx_part =
  fixes part :: "(('s, 'e, 'c) hint_match, 'w) ctx \<Rightarrow> 'x"
  assumes part_fields:
    "part (cx\<lparr>cx_terminal := t\<rparr>) = part cx" "part (cx\<lparr>cx_mouse := m\<rparr>) = part cx" "part (cx\<lparr>cx_clipboard := cl\<rparr>) = part cx"
    "part (cx\<lparr>cx_scheduler := s\<rparr>) = part cx" "part (cx\<lparr>cx_dirty := d\<rparr>) = part cx" "part (cx\<lparr>cx_search_active := a\<rparr>) = part cx"
begin

lemma part_selection:
  "part (update_selection p sd cx) = part cx" "part (clear_selection cx) = part cx"
  "copy_selection ty cx = Some cx' \<Longrightarrow> part cx' = part cx" "start_selection st p sd cx = Some cx' \<Longrightarrow> part cx' = part cx"
  "toggle_selection st p sd cx = Some cx' \<Longrightarrow> part cx' = part cx"
proof -
  show u: "part (update_selection p sd cx) = part cx" "part (clear_selection cx) = part cx"
    by (simp_all add: update_selection_def clear_selection_def Let_def part_fields split: option.split prod.split)
  have c: "copy_selection ty cx = Some cx' \<Longrightarrow> part cx' = part cx" for ty cx cx'
    by (auto simp: copy_selection_def Let_def part_fields split: option.splits bind_splits if_splits)
  then show "copy_selection ty cx = Some cx' \<Longrightarrow> part cx' = part cx" .
  have s: "start_selection st p sd cx = Some cx' \<Longrightarrow> part cx' = part cx" for cx
    by (auto simp: start_selection_def part_fields dest!: c)
  then show "start_selection st p sd cx = Some cx' \<Longrightarrow> part cx' = part cx" .
  show "toggle_selection st p sd cx = Some cx' \<Longrightarrow> part cx' = part cx"
    by (auto simp: toggle_selection_def clear_selection_def part_fields dest!: c s split: option.splits if_splits)
qed

lemma part_access:
  "part (ac_ctx (on_search f ac)) = part (ac_ctx ac)" "part (ac_ctx (on_scheduler h ac)) = part (ac_ctx ac)" "part (ac_ctx (mark_dirty ac)) = part (ac_ctx ac)"
  "part (ac_ctx (damage_all ac)) = part (ac_ctx ac)" "part (ac_ctx (on_terminal k ac)) = part (ac_ctx ac)" "part (ac_ctx (on_inline i ac)) = part (ac_ctx ac)"
  "part (ac_ctx (on_mouse m ac)) = part (ac_ctx ac)" "part (ac_ctx (call_window w ac)) = part (ac_ctx ac)" "part (base ac) = part (ac_ctx ac)"
  "part (ac_ctx (on_base j ac)) = part (j (base ac))"
  by (simp_all add: ac_defs call_window_def base_def part_fields)

lemma part_typing: "part (ac_ctx (on_typing_start now ac)) = part (ac_ctx ac)"
  by (simp add: on_typing_start_def Let_def update_cursor_blinking_def schedule_blinking_def schedule_blinking_timeout_def part_access part_fields split: prod.split)

lemmas part_simps = part_fields part_selection(1,2) part_access part_typing

lemma part_scroll: "ctx_scroll now sc ac = Some ac' \<Longrightarrow> part (ac_ctx ac') = part (ac_ctx ac)"
  by (auto simp: ctx_scroll_def Let_def part_simps split: if_splits bind_splits)

lemma part_try_base:
  "try_base (copy_selection ty) ac = Some ac' \<Longrightarrow> part (ac_ctx ac') = part (ac_ctx ac)"
  "try_base (start_selection st p sd) ac = Some ac' \<Longrightarrow> part (ac_ctx ac') = part (ac_ctx ac)"
  "try_base (toggle_selection st p sd) ac = Some ac' \<Longrightarrow> part (ac_ctx ac') = part (ac_ctx ac)"
  by (auto simp: try_base_def part_simps dest!: part_selection(3-5))

lemma part_try_terminal: "try_terminal f ac = Some ac' \<Longrightarrow> part (ac_ctx ac') = part (ac_ctx ac)"
  by (auto simp: try_terminal_def part_simps split: bind_splits)

lemma part_select_match: "select_match mr ac = Some ac' \<Longrightarrow> part (ac_ctx ac') = part (ac_ctx ac)"
  by (auto simp: select_match_def Let_def part_simps dest!: part_try_base split: bind_splits)

lemma part_reset: "part (ac_ctx (search_reset_state ac)) = part (ac_ctx ac)"
  by (simp add: search_reset_state_def Let_def part_simps)

lemma part_goto: "goto_match now limit ac = Some ac' \<Longrightarrow> part (ac_ctx ac') = part (ac_ctx ac)"
  by (auto simp: goto_match_def Let_def found_match_def delay_search_def part_simps part_reset split: option.splits bind_splits if_splits)

lemma part_update: "update_search B now ac = Some ac' \<Longrightarrow> part (ac_ctx ac') = part (ac_ctx ac)"
  by (auto simp: update_search_def Let_def part_simps part_reset dest!: part_goto split: option.splits bind_splits if_splits)

lemma part_search:
  "start_search dir ac = Some ac' \<Longrightarrow> part (ac_ctx ac') = part (ac_ctx ac)"
  "cancel_search ac = Some ac' \<Longrightarrow> part (ac_ctx ac') = part (ac_ctx ac)"
  "search_input B now c ac = Some ac' \<Longrightarrow> part (ac_ctx ac') = part (ac_ctx ac)"
  "search_pop_word B now ac = Some ac' \<Longrightarrow> part (ac_ctx ac') = part (ac_ctx ac)"
  "search_history_previous B now ac = Some ac' \<Longrightarrow> part (ac_ctx ac') = part (ac_ctx ac)"
  "search_history_next B now ac = Some ac' \<Longrightarrow> part (ac_ctx ac') = part (ac_ctx ac)"
  "ctx_search_next p dir sd ac = Some (res, ac') \<Longrightarrow> part (ac_ctx ac') = part (ac_ctx ac)"
proof -
  show "start_search dir ac = Some ac' \<Longrightarrow> part (ac_ctx ac') = part (ac_ctx ac)"
    by (auto simp: start_search_def Let_def part_simps split: if_splits bind_splits)
  show "cancel_search ac = Some ac' \<Longrightarrow> part (ac_ctx ac') = part (ac_ctx ac)"
    by (auto simp: cancel_search_def exit_search_def part_simps part_reset dest!: part_select_match split: if_splits bind_splits option.splits)
  show "search_input B now c ac = Some ac' \<Longrightarrow> part (ac_ctx ac') = part (ac_ctx ac)"
    by (auto simp: search_input_def Let_def part_simps dest!: part_update split: if_splits bind_splits option.splits)
  show "search_pop_word B now ac = Some ac' \<Longrightarrow> part (ac_ctx ac') = part (ac_ctx ac)"
    "search_history_previous B now ac = Some ac' \<Longrightarrow> part (ac_ctx ac') = part (ac_ctx ac)"
    "search_history_next B now ac = Some ac' \<Longrightarrow> part (ac_ctx ac') = part (ac_ctx ac)"
    by (auto simp: search_pop_word_def search_history_previous_def search_history_next_def part_simps dest!: part_update split: if_splits option.splits)
  show "ctx_search_next p dir sd ac = Some (res, ac') \<Longrightarrow> part (ac_ctx ac') = part (ac_ctx ac)"
    by (auto simp: ctx_search_next_def part_simps split: option.splits bind_splits)
qed

lemma part_confirm: "confirm_search now ac = Some ac' \<Longrightarrow> part (ac_ctx ac') = part (ac_ctx ac)"
  by (auto simp: confirm_search_def exit_search_def part_simps dest!: part_goto part_search(2) split: if_splits bind_splits)

lemma part_advance: "advance_search_origin now dir ac = Some ac' \<Longrightarrow> part (ac_ctx ac') = part (ac_ctx ac)"
  by (auto simp: advance_search_origin_def Let_def part_simps dest!: part_goto split: bind_splits option.splits)

lemma part_type_seed: "type_seed B now s ac = Some ac' \<Longrightarrow> part (ac_ctx ac') = part (ac_ctx ac)"
  unfolding type_seed_def by (induction s arbitrary: ac) (auto dest!: part_search(3) split: bind_splits if_splits)

lemma part_seeded: "start_seeded_search B now dir s ac = Some ac' \<Longrightarrow> part (ac_ctx ac') = part (ac_ctx ac)"
  by (auto simp: start_seeded_search_def Let_def part_simps dest!: part_search(1,7) part_type_seed part_confirm split: bind_splits option.splits if_splits)

lemma part_inline: "inline_search dir ac = Some ac' \<Longrightarrow> part (ac_ctx ac') = part (ac_ctx ac)"
  by (auto simp: inline_search_def Let_def part_simps split: bind_splits option.splits sum.splits if_splits)

lemma part_inline_input: "inline_search_input s ac = Some ac' \<Longrightarrow> part (ac_ctx ac') = part (ac_ctx ac)"
  by (cases s) (auto simp: inline_search_input_def inline_search_next_def part_simps dest!: part_inline)

lemma part_toggle_vi: "ctx_toggle_vi_mode ac = Some ac' \<Longrightarrow> part (ac_ctx ac') = part (ac_ctx ac)"
  by (auto simp: ctx_toggle_vi_mode_def Let_def part_simps dest!: part_search(2) split: bind_splits if_splits)

lemma part_expand: "expand_selection ac = Some ac' \<Longrightarrow> part (ac_ctx ac') = part (ac_ctx ac)"
  by (auto simp: expand_selection_def Let_def part_simps split: bind_splits option.splits if_splits)

lemma part_vi_search:
  "vi_search dir ac = Some ac' \<Longrightarrow> part (ac_ctx ac') = part (ac_ctx ac)" "vi_search_end ac = Some ac' \<Longrightarrow> part (ac_ctx ac') = part (ac_ctx ac)"
  by (auto simp: vi_search_def vi_search_end_def goto_found_def Let_def part_simps dest!: part_search(7) split: bind_splits option.splits)

lemma part_execute_vi: "execute_vi B now v ac = Some ac' \<Longrightarrow> v \<noteq> Vi_Open \<Longrightarrow> part (ac_ctx ac') = part (ac_ctx ac)"
  by (cases v)
    (auto simp: execute_vi_def vi_toggle_selection_def semantic_search_def inline_search_next_def inline_search_previous_def start_inline_search_def Let_def part_simps
      dest!: part_try_base part_vi_search part_scroll part_inline part_seeded split: bind_splits option.splits if_splits)

lemma part_execute_search: "execute_search B now a ac = Some ac' \<Longrightarrow> part (ac_ctx ac') = part (ac_ctx ac)"
  by (cases a) (auto simp: execute_search_def Let_def dest!: part_advance part_confirm part_search split: bind_splits)

lemma part_scrolls:
  "scroll_page now sc n ac = Some ac' \<Longrightarrow> part (ac_ctx ac') = part (ac_ctx ac)" "scroll_to_top now ac = Some ac' \<Longrightarrow> part (ac_ctx ac') = part (ac_ctx ac)"
  "scroll_to_bottom now ac = Some ac' \<Longrightarrow> part (ac_ctx ac') = part (ac_ctx ac)"
  by (auto simp: scroll_page_def scroll_to_top_def scroll_to_bottom_def Let_def part_simps dest!: part_scroll part_try_terminal split: bind_splits if_splits)

lemma part_execute: "execute B clip now a ac = Some ac' \<Longrightarrow> \<not> sends a \<Longrightarrow> part (ac_ctx ac') = part (ac_ctx ac)"
  by (cases a)
    (auto simp: execute_def sends_def ctx_pop_message_def Let_def part_simps
      dest!: part_toggle_vi part_try_terminal part_execute_vi part_execute_search part_expand part_search part_try_base part_scrolls part_scroll
      split: if_splits mouse_action.splits)

lemma part_execute_all: "for_each as (execute B clip now) ac = Some ac' \<Longrightarrow> \<forall>a \<in> set as. \<not> sends a \<Longrightarrow> part (ac_ctx ac') = part (ac_ctx ac)"
  by (induction as arbitrary: ac) (auto dest!: part_execute split: bind_splits)

end

interpretation written: ctx_part cx_written
  by unfold_locales simp_all

interpretation sizes: ctx_part cx_size
  by unfold_locales simp_all

section \<open>Keys of the vi mode\<close>

lemma written_inputs: "for_each s (search_input B now) ac = Some ac' \<Longrightarrow> cx_written (ac_ctx ac') = cx_written (ac_ctx ac)"
  by (induction s arbitrary: ac) (auto dest!: written.part_search(3) split: bind_splits)

text \<open>
  C29 (safety): in vi mode no key reaches the program in the terminal, pressed or released, and whatever search, inline search or binding it belongs to, except for bindings whose action
  is to write, to paste or to open a hint.
\<close>

theorem vi_keys_not_sent:
  assumes "key_input B clip W bs now k ac = Some ac'" "in_vi_mode ac" "\<not> hint_active (ac_hints ac)"
    "\<forall>a \<in> set (triggered_actions W k (cx_modifiers (ac_ctx ac)) (binding_mode_new (t_mode (ac_terminal ac)) (search_active ac)) bs). \<not> sends a"
  shows "cx_written (ac_ctx ac') = cx_written (ac_ctx ac)"
proof -
  let ?ac = "reset_search_delay now ac"
  have vi: "flag_contains (t_mode (ac_terminal ac)) VI" using assms(2) by (simp add: mode_contains_def)
  have r: "cx_written (ac_ctx ?ac) = cx_written (ac_ctx ac)" "search_active ?ac = search_active ac"
    by (simp_all add: reset_search_delay_def written.part_simps)
  show ?thesis
  proof (cases "key_state k = Released \<or> ime_preedit ac \<or> char_pending (ac_inline ac)")
    case True
    then show ?thesis using assms(1,3) vi
      by (auto simp: key_input_def key_press_def key_release_text_def Let_def ctx_write_def write_to_pty_def utf8_def
          dest!: written.part_inline_input split: if_splits)
  next
    case False
    obtain ac1 where 1: "for_each (triggered_actions W k (cx_modifiers (ac_ctx ac)) (binding_mode_new (t_mode (ac_terminal ac)) (search_active ac)) bs) (execute B clip now) ?ac = Some ac1"
      and 2: "ac' = ac1 \<or> (\<exists>s. for_each s (search_input B now) ac1 = Some ac')"
      using assms(1,3) False vi r(2) by (auto simp: key_input_def key_press_def Let_def process_key_bindings_def split: if_splits bind_splits)
    show ?thesis using written.part_execute_all [OF 1 assms(4)] 2 r(1) by (auto dest!: written_inputs)
  qed
qed

text \<open>A key that no binding, search, hint or the vi mode takes is written to the program.\<close>

lemma plain_key_sent:
  assumes "\<not> ime_preedit ac" "key_state k = Pressed" "\<not> hint_active (ac_hints ac)" "\<not> char_pending (ac_inline ac)" "\<not> search_active ac" "\<not> in_vi_mode ac"
    "triggered_actions W k (cx_modifiers (ac_ctx ac)) (binding_mode_new (t_mode (ac_terminal ac)) False) bs = []" "size_ok (cx_size (ac_ctx ac))"
    "key_press_text W k (cx_modifiers (ac_ctx ac)) (t_mode (ac_terminal ac)) = Some out"
  shows "\<exists>ac'. key_input B clip W bs now k ac = Some ac' \<and> concat (cx_written (ac_ctx ac')) = concat (cx_written (ac_ctx ac)) @ utf8 out"
proof -
  obtain ac1 where 1: "on_terminal_input_start now ac = Some ac1" "cx_written (ac_ctx ac1) = cx_written (ac_ctx ac)"
    using input_start_total [OF assms(8)] by blast
  have "\<not> flag_contains (t_mode (ac_terminal ac)) VI" using assms(6) by (simp add: mode_contains_def)
  then show ?thesis using assms 1
    by (auto simp: key_input_def key_press_def Let_def reset_search_delay_def process_key_bindings_def ctx_write_written utf8_def)
qed

section \<open>Witnesses\<close>

text \<open>A letter in vi mode, with a binding of the letter to a motion.\<close>

definition demo_letter :: key_event where
  "demo_letter = \<lparr>logical_key = Character [106], physical_key = 0, key_location = Loc_Standard, key_state = Pressed, key_repeat = False,
     key_text = Some [106], key_without_modifiers = Character [106]\<rparr>"

definition demo_bindings :: "(binding_key, (unit, unit, unit) action) binding list" where
  "demo_bindings = [\<lparr>b_mods = no_modifiers, b_action = Act_ScrollLineDown, b_mode = 0, b_notmode = 0, b_trigger = Keycode (Character [106]) Bind_Any\<rparr>]"

lemma demo_triggered:
  "triggered_actions demo_winit demo_letter (cx_modifiers (ac_ctx demo_ac)) mode demo_bindings = [Act_ScrollLineDown]"
  by (simp add: triggered_actions_def demo_bindings_def is_triggered_by_def binding_input_def demo_letter_def demo_winit_def no_modifiers_def demo_ac_def demo_cx_def
      flag_contains_def flag_intersects_def bind_location_of_def bind_location_eq_def)

theorem vi_keys_not_sent_witness:
  "\<exists>ac'. key_input no_builder (\<lambda>_. []) demo_winit demo_bindings 0 demo_letter demo_ac = Some ac' \<and> cx_written (ac_ctx ac') = []"
proof -
  have vi: "in_vi_mode demo_ac" by (simp add: demo_ac_fields mode_contains_def flag_contains_def)
  have h: "\<not> hint_active (ac_hints demo_ac)" by (simp add: demo_ac_def hint_active_def hint_state_new_def)
  have i: "\<not> ime_preedit demo_ac" "\<not> search_active demo_ac" "\<not> char_pending (ac_inline demo_ac)" "key_state demo_letter = Pressed"
    by (simp_all add: demo_ac_def search_active_def search_state_default_def inline_search_default_def demo_letter_def)
  have "size_ok demo_size_info" by code_simp
  then obtain ac1 where "ctx_scroll 0 (Delta (-1)) demo_ac = Some ac1" using scroll_total [of demo_ac 0 "Delta (-1)"] by (auto simp: demo_ac_fields)
  then have "key_input no_builder (\<lambda>_. []) demo_winit demo_bindings 0 demo_letter demo_ac = Some ac1"
    using h i by (simp add: key_input_def key_press_def Let_def reset_search_delay_def process_key_bindings_def demo_triggered execute_def is_receive_char_def)
  then show ?thesis using vi_keys_not_sent [OF _ vi h] demo_triggered by (fastforce simp: sends_def demo_ac_fields)
qed

end
