(* ===== verification/Touch_Input.thy ===== *)
theory Touch_Input
  imports Actions
begin

text \<open>
  Buttons, wheel and touch screen (\<^verbatim>\<open>alacritty/src/input/mod.rs\<close>, \<^verbatim>\<open>event.rs\<close>). Touches become clicks, selections, scrolling or zooming, depending on how they move; the wheel
  collects distances until they make up a line. Distances and positions on the screen are \<open>rat\<close>; the rounding of positions by \<^verbatim>\<open>winit\<close> and \<^verbatim>\<open>f64::hypot\<close>, whose
  result is rounded, are parameters.
\<close>

unbundle bit_operations_syntax

section \<open>Buttons\<close>

datatype mouse_event = Event_Button mouse_button | Wheel_Up | Wheel_Down

text \<open>\<open>ie_min_height\<close> and \<open>ie_step\<close> are the constants of \<open>update_selection_scrolling\<close> for the factor of the window.\<close>

record ('s, 'e, 'c, 'b) input_env =
  ie_builder :: "('s, 'e, 'c, 'b) dfa_builder"
  ie_clip :: "clipboard_type \<Rightarrow> ustring"
  ie_mouse_bindings :: "(mouse_event, ('s, 'e, 'c) action) binding list"
  ie_width :: "uchar \<Rightarrow> nat option"
  ie_to_px :: "rat \<Rightarrow> int"
  ie_hypot :: "rat \<Rightarrow> rat \<Rightarrow> rat"
  ie_min_height :: int
  ie_step :: int
  scroll_multiplier :: nat

definition mouse_actions ::
  "('s, 'e, 'c, 'b) input_env \<Rightarrow> mouse_event \<Rightarrow> modifiers \<Rightarrow> ('w, 's, 'e, 'c) action_context \<Rightarrow> ('s, 'e, 'c) action list" where
  "mouse_actions E ev mods ac =
     map b_action (filter (\<lambda>b. is_triggered_by (=) b (binding_mode_new (t_mode (ac_terminal ac)) (search_active ac)) mods ev) (ie_mouse_bindings E))"

definition process_mouse_bindings ::
  "('s, 'e, 'c, 'b) input_env \<Rightarrow> nat \<Rightarrow> mouse_event \<Rightarrow> ('w, 's, 'e, 'c) action_context \<Rightarrow> (bool \<times> ('w, 's, 'e, 'c) action_context) option" where
  "process_mouse_bindings E now ev ac = do {
     let mm = mouse_mode (ac_ctx ac);
     let mods = cx_modifiers (ac_ctx ac);
     let fallback_allowed = (mm \<and> shift_key mods);
     let actions = (if fallback_allowed \<or> \<not> mm then mouse_actions E ev mods ac else []);
     let fallback = (if fallback_allowed \<and> actions = [] then mouse_actions E ev (mods\<lparr>shift_key := False\<rparr>) ac else []);
     ac \<leftarrow> for_each (actions @ fallback) (execute (ie_builder E) (ie_clip E) now) ac;
     Some (actions @ fallback \<noteq> [], ac)
   }"

definition message_bar_cursor_state :: "('w, 's, 'e, 'c) action_context \<Rightarrow> cursor_icon option option" where
  "message_bar_cursor_state ac = do {
     let si = cx_size (ac_ctx ac);
     let m = cx_mouse (ac_ctx ac);
     let terminal_end = si_padding_y si + si_cell_height si * (si_screen_lines si + (if search_active ac then 1 else 0));
     p \<leftarrow> mouse_point m si (Grid.display_offset (t_grid (ac_terminal ac)));
     Some (if current_message (ac_messages ac) = None \<or> mouse_y m \<le> terminal_end then None
           else if mouse_y m \<le> terminal_end + si_cell_height si \<and> column p + length CLOSE_BUTTON_TEXT \<ge> si_columns si then Some Icon_Pointer
           else Some Icon_Default)
   }"

definition cursor_state :: "('w, 's, 'e, 'c) action_context \<Rightarrow> cursor_icon option" where
  "cursor_state ac = do {
     p \<leftarrow> mouse_point (cx_mouse (ac_ctx ac)) (cx_size (ac_ctx ac)) (Grid.display_offset (t_grid (ac_terminal ac)));
     x \<leftarrow> grid_cell_at (t_grid (ac_terminal ac)) p;
     st \<leftarrow> message_bar_cursor_state ac;
     Some (case st of
       Some icon \<Rightarrow> icon
     | None \<Rightarrow>
         if (case cx_highlighted_hint (ac_ctx ac) of None \<Rightarrow> False | Some h \<Rightarrow> should_highlight h p (cell_hyperlink x)) then Icon_Pointer
         else if \<not> shift_key (cx_modifiers (ac_ctx ac)) \<and> mouse_mode (ac_ctx ac) then Icon_Default
         else Icon_Text)
   }"

definition reset_mouse_cursor :: "('w, 's, 'e, 'c) action_context \<Rightarrow> ('w, 's, 'e, 'c) action_context option" where
  "reset_mouse_cursor ac = do {
     icon \<leftarrow> cursor_state ac;
     Some (call_window (Set_Mouse_Cursor icon) ac)
   }"

definition modifiers_input :: "modifiers \<Rightarrow> ('w, 's, 'e, 'c) action_context \<Rightarrow> ('w, 's, 'e, 'c) action_context option" where
  "modifiers_input mods ac = reset_mouse_cursor
     (on_mouse (\<lambda>m. m\<lparr>hint_highlight_dirty := True\<rparr>) (ac\<lparr>ac_ctx := (ac_ctx ac)\<lparr>cx_modifiers := mods\<rparr>\<rparr>))"

definition message_line_count :: "('s, 'e, 'c, 'b) input_env \<Rightarrow> ('w, 's, 'e, 'c) action_context \<Rightarrow> nat option" where
  "message_line_count E ac = (let si = cx_size (ac_ctx ac) in
     case current_message (ac_messages ac) of
       None \<Rightarrow> Some 0
     | Some m \<Rightarrow> map_option length
         (message_lines (ie_width E) (si_columns si) ((si_height si - 2 * si_padding_y si) div si_cell_height si) m))"

definition click_message_bar :: "('s, 'e, 'c, 'b) input_env \<Rightarrow> ('w, 's, 'e, 'c) action_context \<Rightarrow> ('w, 's, 'e, 'c) action_context option" where
  "click_message_bar E ac = do {
     current_lines \<leftarrow> message_line_count E ac;
     let ac = ctx_pop_message (on_base clear_selection ac);
     new_lines \<leftarrow> message_line_count E ac;
     let icon = (if current_lines < new_lines then Icon_Default
                 else if current_lines = new_lines then Icon_Pointer
                 else if mouse_mode (ac_ctx ac) then Icon_Default else Icon_Text);
     Some (call_window (Set_Mouse_Cursor icon) ac)
   }"

definition release_button ::
  "('s, 'e, 'c, 'b) input_env \<Rightarrow> nat \<Rightarrow> mouse_button \<Rightarrow> ('w, 's, 'e, 'c) action_context \<Rightarrow> ('w, 's, 'e, 'c) action_context option" where
  \<comment> \<open>\<open>on_mouse_release\<close> with the hint that it triggers\<close>
  "release_button E now b ac =
     (case cx_highlighted_hint (ac_ctx ac) of
        Some h \<Rightarrow>
          if \<not> shift_key (cx_modifiers (ac_ctx ac)) \<and> mouse_mode (ac_ctx ac) \<or> b \<noteq> Mouse_Left then try_base (on_mouse_release b) ac
          else do {
            (h, ac) \<leftarrow> trigger_hint (ie_builder E) now h (ac\<lparr>ac_ctx := (ac_ctx ac)\<lparr>cx_highlighted_hint := None\<rparr>\<rparr>);
            ac \<leftarrow> try_base (on_mouse_release b) ac;
            Some (ac\<lparr>ac_ctx := (ac_ctx ac)\<lparr>cx_highlighted_hint := Some h\<rparr>\<rparr>)
          }
      | None \<Rightarrow> try_base (on_mouse_release b) ac)"

definition set_button :: "element_state \<Rightarrow> mouse_button \<Rightarrow> mouse \<Rightarrow> mouse" where
  "set_button st b m = (case b of
     Mouse_Left \<Rightarrow> m\<lparr>left_button_state := st\<rparr>
   | Mouse_Middle \<Rightarrow> m\<lparr>middle_button_state := st\<rparr>
   | Mouse_Right \<Rightarrow> m\<lparr>right_button_state := st\<rparr>
   | _ \<Rightarrow> m)"

definition mouse_input ::
  "('s, 'e, 'c, 'b) input_env \<Rightarrow> nat \<Rightarrow> element_state \<Rightarrow> mouse_button \<Rightarrow> ('w, 's, 'e, 'c) action_context \<Rightarrow> ('w, 's, 'e, 'c) action_context option" where
  "mouse_input E now st b ac = do {
     let ac = on_mouse (set_button st b) ac;
     icon \<leftarrow> message_bar_cursor_state ac;
     if icon = Some Icon_Pointer \<and> st = Pressed then click_message_bar E ac
     else if st = Pressed then do {
       ac \<leftarrow> try_base (on_mouse_press now b) ac;
       (_, ac) \<leftarrow> process_mouse_bindings E now (Event_Button b) ac;
       Some ac
     }
     else release_button E now b ac
   }"

section \<open>The wheel\<close>

definition trunc_rat :: "rat \<Rightarrow> int" where
  "trunc_rat q = (if q < 0 then - \<lfloor>- q\<rfloor> else \<lfloor>q\<rfloor>)"

definition frem :: "rat \<Rightarrow> rat \<Rightarrow> rat" where
  \<comment> \<open>the operator \<^verbatim>\<open>%\<close> of floats\<close>
  "frem x y = x - of_int (trunc_rat (x / y)) * y"

definition MOUSE_WHEEL_UP :: nat where "MOUSE_WHEEL_UP = 64"
definition MOUSE_WHEEL_DOWN :: nat where "MOUSE_WHEEL_DOWN = 65"
definition MOUSE_WHEEL_LEFT :: nat where "MOUSE_WHEEL_LEFT = 66"
definition MOUSE_WHEEL_RIGHT :: nat where "MOUSE_WHEEL_RIGHT = 67"

definition repeat_report :: "nat \<Rightarrow> nat \<Rightarrow> ('w, 's, 'e, 'c) action_context \<Rightarrow> ('w, 's, 'e, 'c) action_context option" where
  "repeat_report n code = for_each (replicate n code) (\<lambda>code. try_base (mouse_report code Pressed))"

definition wheel_bindings ::
  "('s, 'e, 'c, 'b) input_env \<Rightarrow> nat \<Rightarrow> mouse_event \<Rightarrow> nat \<Rightarrow> ('w, 's, 'e, 'c) action_context \<Rightarrow> (bool \<times> ('w, 's, 'e, 'c) action_context) option" where
  \<comment> \<open>the bindings of the wheel, once for every line, if there are any\<close>
  "wheel_bindings E now ev n ac =
     (if n = 0 then Some (False, ac)
      else do {
        (found, ac) \<leftarrow> process_mouse_bindings E now ev ac;
        if \<not> found then Some (False, ac)
        else do {
          ac \<leftarrow> for_each (replicate (n - 1) ev) (\<lambda>ev ac. map_option snd (process_mouse_bindings E now ev ac)) ac;
          Some (True, ac)
        }
      })"

definition alternate_scroll :: "bool \<Rightarrow> bool \<Rightarrow> nat \<Rightarrow> nat \<Rightarrow> nat list" where
  \<comment> \<open>arrow keys for a program on the alternate screen\<close>
  "alternate_scroll up left lines cols =
     concat (replicate lines [0x1B, 0x4F, if up then 0x41 else 0x42]) @ concat (replicate cols [0x1B, 0x4F, if left then 0x44 else 0x43])"

definition scroll_terminal ::
  "('s, 'e, 'c, 'b) input_env \<Rightarrow> nat \<Rightarrow> rat \<Rightarrow> rat \<Rightarrow> rat \<Rightarrow> ('w, 's, 'e, 'c) action_context \<Rightarrow> ('w, 's, 'e, 'c) action_context option" where
  "scroll_terminal E now px_x px_y multiplier ac = do {
     let width = of_nat (si_cell_width (cx_size (ac_ctx ac)));
     let height = of_nat (si_cell_height (cx_size (ac_ctx ac)));
     let multiplier = (if mouse_mode (ac_ctx ac) then 1 else multiplier);
     let ac = ac\<lparr>accumulated_scroll_x := accumulated_scroll_x ac + px_x * multiplier, accumulated_scroll_y := accumulated_scroll_y ac + px_y * multiplier\<rparr>;
     let lines = nat \<lfloor>\<bar>accumulated_scroll_y ac / height\<bar>\<rfloor>;
     let cols = nat \<lfloor>\<bar>accumulated_scroll_x ac / width\<bar>\<rfloor>;
     let up = (px_y > 0);
     (found, ac) \<leftarrow> wheel_bindings E now (if up then Wheel_Up else Wheel_Down) lines ac;
     ac \<leftarrow>
       (if found then Some ac
        else if mouse_mode (ac_ctx ac) then do {
          ac \<leftarrow> repeat_report lines (if up then MOUSE_WHEEL_UP else MOUSE_WHEEL_DOWN) ac;
          repeat_report cols (if px_x > 0 then MOUSE_WHEEL_LEFT else MOUSE_WHEEL_RIGHT) ac
        }
        else if mode_contains (ALT_SCREEN OR ALTERNATE_SCROLL) (ac_terminal ac) \<and> \<not> shift_key (cx_modifiers (ac_ctx ac))
        then Some (ctx_write (alternate_scroll up (px_x > 0) lines cols) ac)
        else if lines \<noteq> 0 then ctx_scroll now (Delta (if up then int lines else - int lines)) ac
        else Some ac);
     Some (ac\<lparr>accumulated_scroll_x := frem (accumulated_scroll_x ac) width, accumulated_scroll_y := frem (accumulated_scroll_y ac) height\<rparr>)
   }"

datatype touch_phase = Started | Moved | Ended | Cancelled

datatype scroll_delta = Line_Delta rat rat | Pixel_Delta rat rat

definition mouse_wheel_input ::
  "('s, 'e, 'c, 'b) input_env \<Rightarrow> nat \<Rightarrow> scroll_delta \<Rightarrow> touch_phase \<Rightarrow> ('w, 's, 'e, 'c) action_context \<Rightarrow> ('w, 's, 'e, 'c) action_context option" where
  "mouse_wheel_input E now delta phase ac = (let mult = of_nat (scroll_multiplier E); si = cx_size (ac_ctx ac) in
     case delta of
       Line_Delta cols lines \<Rightarrow> scroll_terminal E now (cols * of_nat (si_cell_width si)) (lines * of_nat (si_cell_height si)) mult ac
     | Pixel_Delta x y \<Rightarrow>
         (case phase of
            Started \<Rightarrow> Some (ac\<lparr>accumulated_scroll_x := 0, accumulated_scroll_y := 0\<rparr>)
          | Moved \<Rightarrow>
              if \<bar>x\<bar> / ie_hypot E x y > 9 / 10 then scroll_terminal E now x 0 mult ac else scroll_terminal E now 0 y mult ac
          | _ \<Rightarrow> Some ac))"

section \<open>Touches\<close>

record touch_event =
  touch_id :: nat
  touch_x :: rat
  touch_y :: rat

record touch_zoom =
  zoom_slot0 :: touch_event
  zoom_slot1 :: touch_event
  zoom_fractions :: rat

datatype touch_purpose =
    Touch_None
  | Touch_Select touch_event
  | Touch_Scroll touch_event
  | Touch_Zoom touch_zoom
  | Touch_ZoomPendingSlot touch_event
  | Touch_Tap touch_event
  | Touch_Invalid "nat set"

definition MAX_TAP_DISTANCE :: rat where "MAX_TAP_DISTANCE = 20"

definition TOUCH_ZOOM_FACTOR :: rat where "TOUCH_ZOOM_FACTOR = 1 / 100"

definition zoom_new :: "touch_event \<Rightarrow> touch_event \<Rightarrow> touch_zoom" where
  "zoom_new a b = \<lparr>zoom_slot0 = a, zoom_slot1 = b, zoom_fractions = 0\<rparr>"

definition zoom_distance :: "('s, 'e, 'c, 'b) input_env \<Rightarrow> touch_zoom \<Rightarrow> rat" where
  "zoom_distance E z = ie_hypot E (touch_x (zoom_slot0 z) - touch_x (zoom_slot1 z)) (touch_y (zoom_slot0 z) - touch_y (zoom_slot1 z))"

definition font_delta :: "('s, 'e, 'c, 'b) input_env \<Rightarrow> touch_event \<Rightarrow> touch_zoom \<Rightarrow> rat \<times> touch_zoom" where
  "font_delta E slot z = (let
       old_distance = zoom_distance E z;
       z = (if touch_id slot = touch_id (zoom_slot0 z) then z\<lparr>zoom_slot0 := slot\<rparr> else z\<lparr>zoom_slot1 := slot\<rparr>);
       delta = (zoom_distance E z - old_distance) * TOUCH_ZOOM_FACTOR + zoom_fractions z;
       fd = of_int \<lfloor>\<bar>delta\<bar> / FONT_SIZE_STEP\<rfloor> * FONT_SIZE_STEP * sgn delta
     in (fd, z\<lparr>zoom_fractions := delta - fd\<rparr>))"

definition on_touch_start :: "touch_event \<Rightarrow> touch_purpose \<times> ('w, 's, 'e, 'c) action_context \<Rightarrow> touch_purpose \<times> ('w, 's, 'e, 'c) action_context" where
  "on_touch_start e = (\<lambda>(tp, ac).
     (case tp of
        Touch_None \<Rightarrow> Touch_Tap e
      | Touch_Tap s \<Rightarrow> Touch_Zoom (zoom_new s e)
      | Touch_ZoomPendingSlot s \<Rightarrow> Touch_Zoom (zoom_new s e)
      | Touch_Zoom z \<Rightarrow> Touch_Invalid {touch_id (zoom_slot0 z), touch_id (zoom_slot1 z)}
      | Touch_Scroll s \<Rightarrow> Touch_Invalid {touch_id s}
      | Touch_Select s \<Rightarrow> Touch_Invalid {touch_id s}
      | Touch_Invalid slots \<Rightarrow> Touch_Invalid (insert (touch_id e) slots),
      if is_focused (ac_terminal ac) then ac else call_window (Set_Ime_Touch True) ac))"

definition touch_moved ::
  "('s, 'e, 'c, 'b) input_env \<Rightarrow> nat \<Rightarrow> touch_event \<Rightarrow> ('w, 's, 'e, 'c) action_context \<Rightarrow> ('w, 's, 'e, 'c) action_context option" where
  "touch_moved E now e = try_base (mouse_moved now (ie_min_height E) (ie_step E) (ie_to_px E (touch_x e)) (ie_to_px E (touch_y e)))"

definition touch_drag ::
  "('s, 'e, 'c, 'b) input_env \<Rightarrow> nat \<Rightarrow> touch_event \<Rightarrow> touch_purpose \<times> ('w, 's, 'e, 'c) action_context
   \<Rightarrow> (touch_purpose \<times> ('w, 's, 'e, 'c) action_context) option" where
  \<comment> \<open>the motion of a gesture that has been recognised\<close>
  "touch_drag E now e = (\<lambda>(tp, ac). case tp of
     Touch_Zoom z \<Rightarrow> (case font_delta E e z of (fd, z) \<Rightarrow> Some (Touch_Zoom z, call_window (Change_Font_Size fd) ac))
   | Touch_Scroll s \<Rightarrow> do {
       ac \<leftarrow> scroll_terminal E now 0 (touch_y e - touch_y s) 1 ac;
       Some (Touch_Scroll e, ac)
     }
   | Touch_Select s \<Rightarrow> do {
       ac \<leftarrow> touch_moved E now e ac;
       Some (tp, ac)
     }
   | _ \<Rightarrow> Some (tp, ac))"

definition on_touch_motion ::
  "('s, 'e, 'c, 'b) input_env \<Rightarrow> nat \<Rightarrow> touch_event \<Rightarrow> touch_purpose \<times> ('w, 's, 'e, 'c) action_context
   \<Rightarrow> (touch_purpose \<times> ('w, 's, 'e, 'c) action_context) option" where
  "on_touch_motion E now e = (\<lambda>(tp, ac). case tp of
     Touch_Tap s \<Rightarrow>
       if \<bar>touch_x e - touch_x s\<bar> > MAX_TAP_DISTANCE then do {
         ac \<leftarrow> touch_moved E now s ac;
         ac \<leftarrow> mouse_input E now Pressed Mouse_Left ac;
         touch_drag E now e (Touch_Select s, ac)
       }
       else if \<bar>touch_y e - touch_y s\<bar> > MAX_TAP_DISTANCE then touch_drag E now e (Touch_Scroll s, ac)
       else Some (tp, ac)
   | _ \<Rightarrow> touch_drag E now e (tp, ac))"

definition on_touch_end ::
  "('s, 'e, 'c, 'b) input_env \<Rightarrow> nat \<Rightarrow> touch_event \<Rightarrow> touch_purpose \<times> ('w, 's, 'e, 'c) action_context
   \<Rightarrow> (touch_purpose \<times> ('w, 's, 'e, 'c) action_context) option" where
  "on_touch_end E now e st = do {
     (tp, ac) \<leftarrow> on_touch_motion E now e st;
     case tp of
       Touch_Tap s \<Rightarrow> do {
         ac \<leftarrow> touch_moved E now s ac;
         ac \<leftarrow> mouse_input E now Pressed Mouse_Left ac;
         ac \<leftarrow> mouse_input E now Released Mouse_Left ac;
         Some (Touch_None, call_window (Set_Ime_Touch False) ac)
       }
     | Touch_Zoom z \<Rightarrow> Some (Touch_ZoomPendingSlot (if touch_id (zoom_slot0 z) = touch_id e then zoom_slot1 z else zoom_slot0 z), ac)
     | Touch_ZoomPendingSlot _ \<Rightarrow> Some (Touch_None, ac)
     | Touch_Invalid slots \<Rightarrow> (let slots = slots - {touch_id e} in Some (if slots = {} then Touch_None else Touch_Invalid slots, ac))
     | Touch_Select _ \<Rightarrow> do {
         ac \<leftarrow> mouse_input E now Released Mouse_Left ac;
         Some (Touch_None, ac)
       }
     | Touch_Scroll _ \<Rightarrow> Some (Touch_None, ac)
     | Touch_None \<Rightarrow> Some (Touch_None, ac)
   }"

definition touch ::
  "('s, 'e, 'c, 'b) input_env \<Rightarrow> nat \<Rightarrow> touch_phase \<Rightarrow> touch_event \<Rightarrow> touch_purpose \<times> ('w, 's, 'e, 'c) action_context
   \<Rightarrow> (touch_purpose \<times> ('w, 's, 'e, 'c) action_context) option" where
  "touch E now phase e st = (case phase of
     Started \<Rightarrow> Some (on_touch_start e st)
   | Moved \<Rightarrow> on_touch_motion E now e st
   | _ \<Rightarrow> on_touch_end E now e st)"

section \<open>Lines of the wheel\<close>

lemma frem_bound: "0 < h \<Longrightarrow> \<bar>frem x h\<bar> < h"
proof -
  assume h: "0 < h"
  define q where "q = x / h"
  have "frem x h = (q - of_int (trunc_rat q)) * h" using h by (simp add: frem_def q_def field_simps)
  moreover have "\<bar>q - of_int (trunc_rat q)\<bar> < 1" unfolding trunc_rat_def using floor_correct [of q] floor_correct [of "- q"] by (simp add: abs_less_iff) linarith
  ultimately show ?thesis using h by (simp add: abs_mult)
qed

lemma frem_split: "h \<noteq> 0 \<Longrightarrow> of_int (trunc_rat (x / h)) * h + frem x h = x"
  by (simp add: frem_def)

text \<open>The direction that the code takes from the last movement is the one of all that was collected, as long as less than a line was left over.\<close>

lemma wheel_direction:
  fixes a h d :: rat
  assumes "0 < h" "\<bar>a\<bar> < h" "nat \<lfloor>\<bar>(a + d) / h\<bar>\<rfloor> \<noteq> 0"
  shows "(if 0 < d then int (nat \<lfloor>\<bar>(a + d) / h\<bar>\<rfloor>) else - int (nat \<lfloor>\<bar>(a + d) / h\<bar>\<rfloor>)) = trunc_rat ((a + d) / h)"
proof -
  have "1 \<le> \<bar>(a + d) / h\<bar>" using assms(3) by (simp add: le_floor_iff)
  then have "h \<le> \<bar>a + d\<bar>" using assms(1) by (simp add: abs_divide field_simps)
  then have "(0 < d \<and> 0 < a + d) \<or> (d \<le> 0 \<and> a + d < 0)" using assms(2) by linarith
  moreover have "- ((a + d) / h) = (- a - d) / h" using assms(1) by (simp add: field_simps)
  ultimately show ?thesis using assms(1) by (auto simp: trunc_rat_def abs_divide divide_less_0_iff zero_less_divide_iff not_less)
qed

lemma typing_acc [simp]:
  "accumulated_scroll_x (on_typing_start now ac) = accumulated_scroll_x ac" "accumulated_scroll_y (on_typing_start now ac) = accumulated_scroll_y ac"
  by (simp_all add: on_typing_start_def Let_def update_cursor_blinking_def schedule_blinking_def schedule_blinking_timeout_def ac_defs split: prod.split)

lemma ctx_scroll_acc:
  "ctx_scroll now sc ac = Some ac' \<Longrightarrow> accumulated_scroll_x ac' = accumulated_scroll_x ac \<and> accumulated_scroll_y ac' = accumulated_scroll_y ac"
  by (auto simp: ctx_scroll_def Let_def ac_defs split: if_splits bind_splits)

lemma wheel_bindings_none:
  "\<not> mouse_mode (ac_ctx ac) \<Longrightarrow> mouse_actions E ev (cx_modifiers (ac_ctx ac)) ac = [] \<Longrightarrow> wheel_bindings E now ev n ac = Some (False, ac)"
  by (simp add: wheel_bindings_def process_mouse_bindings_def)

text \<open>
  C30 (bounds): the wheel loses nothing. Where no binding and no program takes the wheel, the whole lines in the distance collected so far are scrolled, in the right direction,
  and the rest, less than one line, is kept for the next movement: lines and rest make up the distance exactly.
\<close>

theorem wheel_conserves:
  assumes "0 < si_cell_height (cx_size (ac_ctx ac))" "\<bar>accumulated_scroll_y ac\<bar> < of_nat (si_cell_height (cx_size (ac_ctx ac)))" "0 \<le> multiplier"
    "\<not> mouse_mode (ac_ctx ac)" "\<not> mode_contains (ALT_SCREEN OR ALTERNATE_SCROLL) (ac_terminal ac)"
    "mouse_actions E (if 0 < px_y then Wheel_Up else Wheel_Down) (cx_modifiers (ac_ctx ac)) ac = []"
  shows "\<exists>d sx sy. of_int d * of_nat (si_cell_height (cx_size (ac_ctx ac))) + sy = accumulated_scroll_y ac + px_y * multiplier
    \<and> \<bar>sy\<bar> < of_nat (si_cell_height (cx_size (ac_ctx ac)))
    \<and> scroll_terminal E now px_x px_y multiplier ac = map_option (\<lambda>ac. ac\<lparr>accumulated_scroll_x := sx, accumulated_scroll_y := sy\<rparr>)
        ((if d = 0 then Some else ctx_scroll now (Delta d))
          (ac\<lparr>accumulated_scroll_x := accumulated_scroll_x ac + px_x * multiplier, accumulated_scroll_y := accumulated_scroll_y ac + px_y * multiplier\<rparr>))"
proof -
  define h :: rat where "h = of_nat (si_cell_height (cx_size (ac_ctx ac)))"
  define s where "s = accumulated_scroll_y ac + px_y * multiplier"
  define ac1 where "ac1 = ac\<lparr>accumulated_scroll_x := accumulated_scroll_x ac + px_x * multiplier, accumulated_scroll_y := s\<rparr>"
  define n where "n = nat \<lfloor>\<bar>s / h\<bar>\<rfloor>"
  have h: "0 < h" "\<bar>accumulated_scroll_y ac\<bar> < h" using assms(1,2) by (simp_all add: h_def)
  have m: "ac_ctx ac1 = ac_ctx ac" "ac_search ac1 = ac_search ac" by (simp_all add: ac1_def)
  have none: "wheel_bindings E now (if 0 < px_y then Wheel_Up else Wheel_Down) k ac1 = Some (False, ac1)" for k
    using assms(4,6) m by (intro wheel_bindings_none) (simp_all add: mouse_actions_def search_active_def)
  have zero: "trunc_rat (s / h) = 0" if "n = 0"
    using that by (auto simp: n_def trunc_rat_def abs_if split: if_splits) linarith+
  have pos: "0 < multiplier" if "n \<noteq> 0"
  proof (rule ccontr)
    assume "\<not> 0 < multiplier"
    then have "\<bar>s / h\<bar> < 1" using assms(3) h by (simp add: s_def)
    then show False using that by (simp add: n_def floor_le_zero)
  qed
  have dir: "(if 0 < px_y then int n else - int n) = trunc_rat (s / h)" if "n \<noteq> 0"
    using wheel_direction [OF h, of "px_y * multiplier"] that pos [OF that] unfolding n_def s_def by (simp only: zero_less_mult_iff) simp
  have run: "scroll_terminal E now px_x px_y multiplier ac = (if n = 0 then Some else ctx_scroll now (Delta (if 0 < px_y then int n else - int n))) ac1 \<bind>
      (\<lambda>ac'. Some (ac'\<lparr>accumulated_scroll_x := frem (accumulated_scroll_x ac') (of_nat (si_cell_width (cx_size (ac_ctx ac)))), accumulated_scroll_y := frem (accumulated_scroll_y ac') h\<rparr>))"
    using none [of n] assms(4,5) by (cases "0 < px_y") (simp_all add: scroll_terminal_def Let_def ac1_def n_def s_def h_def)
  have "scroll_terminal E now px_x px_y multiplier ac = map_option
      (\<lambda>ac'. ac'\<lparr>accumulated_scroll_x := frem (accumulated_scroll_x ac1) (of_nat (si_cell_width (cx_size (ac_ctx ac)))), accumulated_scroll_y := frem s h\<rparr>)
      ((if trunc_rat (s / h) = 0 then Some else ctx_scroll now (Delta (trunc_rat (s / h)))) ac1)"
  proof (cases "n = 0")
    case True
    then show ?thesis using zero run by (simp add: ac1_def)
  next
    case False
    then have "trunc_rat (s / h) \<noteq> 0" using dir [OF False] by (auto split: if_splits)
    then show ?thesis using False dir run
      by (cases "ctx_scroll now (Delta (trunc_rat (s / h))) ac1") (simp_all add: ctx_scroll_acc, simp add: ac1_def)
  qed
  then show ?thesis using frem_split [of h s] frem_bound [OF h(1), of s] h(1) unfolding ac1_def s_def h_def by (intro exI conjI) auto
qed

section \<open>Fingers\<close>

definition touched :: "touch_purpose \<Rightarrow> nat set" where
  "touched tp = (case tp of
     Touch_None \<Rightarrow> {}
   | Touch_Select s \<Rightarrow> {touch_id s}
   | Touch_Scroll s \<Rightarrow> {touch_id s}
   | Touch_Zoom z \<Rightarrow> {touch_id (zoom_slot0 z), touch_id (zoom_slot1 z)}
   | Touch_ZoomPendingSlot s \<Rightarrow> {touch_id s}
   | Touch_Tap s \<Rightarrow> {touch_id s}
   | Touch_Invalid slots \<Rightarrow> slots)"

definition touch_ok :: "nat set \<Rightarrow> touch_purpose \<Rightarrow> bool" where
  "touch_ok F tp \<longleftrightarrow> touched tp \<subseteq> F \<and> (case tp of
     Touch_Zoom z \<Rightarrow> touch_id (zoom_slot0 z) \<noteq> touch_id (zoom_slot1 z)
   | Touch_Invalid slots \<Rightarrow> slots \<noteq> {}
   | _ \<Rightarrow> True)"

text \<open>Sequences of touches as a screen reports them: a finger that is put down is a new one, and only fingers that are down move and are lifted.\<close>

inductive touch_trace ::
  "('s, 'e, 'c, 'b) input_env \<Rightarrow> ('w, 's, 'e, 'c) action_context \<Rightarrow> nat set \<Rightarrow> touch_purpose \<times> ('w, 's, 'e, 'c) action_context \<Rightarrow> bool"
  for E ac where
  touch_trace_none: "touch_trace E ac {} (Touch_None, ac)"
| touch_trace_start: "touch_trace E ac F st \<Longrightarrow> touch_id e \<notin> F \<Longrightarrow> touch E now Started e st = Some st' \<Longrightarrow> touch_trace E ac (insert (touch_id e) F) st'"
| touch_trace_move: "touch_trace E ac F st \<Longrightarrow> touch_id e \<in> F \<Longrightarrow> touch E now Moved e st = Some st' \<Longrightarrow> touch_trace E ac F st'"
| touch_trace_end: "touch_trace E ac F st \<Longrightarrow> touch_id e \<in> F \<Longrightarrow> phase \<in> {Ended, Cancelled} \<Longrightarrow> touch E now phase e st = Some st' \<Longrightarrow> touch_trace E ac (F - {touch_id e}) st'"

lemma font_delta_slots:
  "font_delta E e z = (fd, z') \<Longrightarrow> (touch_id (zoom_slot0 z'), touch_id (zoom_slot1 z')) =
     (touch_id (zoom_slot0 z), if touch_id e = touch_id (zoom_slot0 z) then touch_id (zoom_slot1 z) else touch_id e)"
  by (auto simp: font_delta_def Let_def split: if_splits)

lemma start_ok: "touch_ok F tp \<Longrightarrow> touch_id e \<notin> F \<Longrightarrow> touch_ok (insert (touch_id e) F) (fst (on_touch_start e (tp, ac)))"
  by (auto simp: touch_ok_def touched_def on_touch_start_def zoom_new_def split: touch_purpose.splits)

lemma drag_ok: "touch_ok F tp \<Longrightarrow> touch_id e \<in> F \<Longrightarrow> touch_drag E now e (tp, ac) = Some (tp', ac') \<Longrightarrow> touch_ok F tp'"
  by (auto simp: touch_ok_def touched_def touch_drag_def dest!: font_delta_slots split: touch_purpose.splits prod.splits bind_splits if_splits)

lemma tap_ok: "touch_ok F (Touch_Tap s) \<Longrightarrow> touch_ok F (Touch_Select s) \<and> touch_ok F (Touch_Scroll s)"
  by (simp add: touch_ok_def touched_def)

lemma motion_ok:
  assumes "touch_ok F tp" "touch_id e \<in> F" "on_touch_motion E now e (tp, ac) = Some (tp', ac')"
  shows "touch_ok F tp'"
proof (cases "\<exists>s. tp = Touch_Tap s")
  case True
  then obtain s where s: "tp = Touch_Tap s" by blast
  then have "tp' = tp \<or> (\<exists>tp1 ac1. tp1 \<in> {Touch_Select s, Touch_Scroll s} \<and> touch_drag E now e (tp1, ac1) = Some (tp', ac'))"
    using assms(3) by (auto simp: on_touch_motion_def split: bind_splits if_splits)
  then show ?thesis using assms(1,2) tap_ok [of F s] s drag_ok by blast
next
  case False
  then have "touch_drag E now e (tp, ac) = Some (tp', ac')" using assms(3) by (cases tp) (auto simp: on_touch_motion_def)
  then show ?thesis using drag_ok assms(1,2) by blast
qed

text \<open>After the motion to where the finger is lifted, a zoom gesture has this finger as one of its two.\<close>

lemma motion_zoom: "on_touch_motion E now e (tp, ac) = Some (Touch_Zoom z, ac') \<Longrightarrow> touch_id e \<in> touched (Touch_Zoom z)"
  by (cases tp) (auto simp: on_touch_motion_def touch_drag_def touched_def dest!: font_delta_slots split: prod.splits bind_splits if_splits)

lemma end_ok:
  assumes "touch_ok F tp" "touch_id e \<in> F" "on_touch_end E now e (tp, ac) = Some (tp', ac')"
  shows "touch_ok (F - {touch_id e}) tp'"
proof -
  obtain tp1 ac1 where 1: "on_touch_motion E now e (tp, ac) = Some (tp1, ac1)" using assms(3) by (auto simp: on_touch_end_def split: bind_splits)
  have "touch_ok F tp1" using motion_ok [OF assms(1,2) 1] .
  then show ?thesis using assms(3) 1 motion_zoom [of E now e tp ac _ ac1]
    by (cases tp1) (auto simp: on_touch_end_def touch_ok_def touched_def Let_def split: bind_splits if_splits)
qed

lemma touch_trace_ok: "touch_trace E ac F st \<Longrightarrow> touch_ok F (fst st)"
proof (induction rule: touch_trace.induct)
  case touch_trace_none
  then show ?case by (simp add: touch_ok_def touched_def)
next
  case (touch_trace_start F st e now st')
  then show ?case using start_ok [of F "fst st" e "snd st"] by (simp add: touch_def)
next
  case (touch_trace_move F st e now st')
  then show ?case using motion_ok [of F "fst st" e E now "snd st" "fst st'" "snd st'"] by (simp add: touch_def)
next
  case (touch_trace_end F st e phase now st')
  then show ?case using end_ok [of F "fst st" e E now "snd st" "fst st'" "snd st'"] by (auto simp: touch_def)
qed

text \<open>
  C31 (invariant): gestures only refer to fingers that are on the screen, and a gesture never lasts without one: once all fingers have been lifted, in whatever order
  and after whatever movements, the next touch starts a new gesture.
\<close>

theorem touch_released:
  assumes "touch_trace E ac F (tp, ac')"
  shows "touched tp \<subseteq> F \<and> (tp = Touch_None \<longleftrightarrow> touched tp = {}) \<and> (F = {} \<longrightarrow> tp = Touch_None)"
  using touch_trace_ok [OF assms] by (auto simp: touch_ok_def touched_def split: touch_purpose.splits)

text \<open>
  A defect: a finger that is put down during scrolling or selecting makes the gesture invalid, but is not remembered, in contrast to further fingers. When the first finger is
  lifted, the next touch starts a new gesture although this finger is still down, and lifting it then ends the tap of the other finger, with a click where that one is.
\<close>

theorem touch_forgets_finger:
  assumes "touch_id e = touch_id s" "touch_id b \<noteq> touch_id s" "tp \<in> {Touch_Scroll s, Touch_Select s}"
    "\<bar>touch_x b - touch_x c\<bar> \<le> MAX_TAP_DISTANCE" "\<bar>touch_y b - touch_y c\<bar> \<le> MAX_TAP_DISTANCE"
  shows "(touch E now Started b (tp, ac) \<bind> touch E now Ended e) = Some (Touch_None, snd (on_touch_start b (tp, ac)))
    \<and> (touch E now Started b (Touch_Invalid {touch_id s}, ac) \<bind> touch E now Ended e) = Some (Touch_Invalid {touch_id b}, snd (on_touch_start b (tp, ac)))
    \<and> (touch E now Started c (Touch_None, ac) \<bind> touch E now Ended b) = (touch E now Started c (Touch_None, ac) \<bind> touch E now Ended c)"
proof (intro conjI)
  show "(touch E now Started b (tp, ac) \<bind> touch E now Ended e) = Some (Touch_None, snd (on_touch_start b (tp, ac)))"
    using assms(1,3) by (auto simp: touch_def on_touch_start_def on_touch_end_def on_touch_motion_def touch_drag_def)
  show "(touch E now Started b (Touch_Invalid {touch_id s}, ac) \<bind> touch E now Ended e) = Some (Touch_Invalid {touch_id b}, snd (on_touch_start b (tp, ac)))"
    using assms(1,2) by (auto simp: touch_def on_touch_start_def on_touch_end_def on_touch_motion_def touch_drag_def Let_def)
  show "(touch E now Started c (Touch_None, ac) \<bind> touch E now Ended b) = (touch E now Started c (Touch_None, ac) \<bind> touch E now Ended c)"
    using assms(4,5) by (simp add: touch_def on_touch_start_def on_touch_end_def on_touch_motion_def MAX_TAP_DISTANCE_def)
qed

section \<open>Witnesses\<close>

definition demo_input_env :: "(unit, unit, unit, unit) input_env" where
  "demo_input_env = \<lparr>ie_builder = no_builder, ie_clip = (\<lambda>_. []), ie_mouse_bindings = [], ie_width = (\<lambda>_. Some 1), ie_to_px = floor, ie_hypot = (\<lambda>x y. max \<bar>x\<bar> \<bar>y\<bar>),
     ie_min_height = 0, ie_step = 1, scroll_multiplier = 3\<rparr>"

definition finger :: "nat \<Rightarrow> rat \<Rightarrow> touch_event" where
  "finger i y = \<lparr>touch_id = i, touch_x = 0, touch_y = y\<rparr>"

theorem wheel_conserves_witness:
  "\<exists>d sx sy. of_int d * of_nat (si_cell_height demo_size_info) + sy = 25 * 3 \<and> \<bar>sy\<bar> < of_nat (si_cell_height demo_size_info)
    \<and> scroll_terminal demo_input_env 0 0 25 3 demo_ac = map_option (\<lambda>ac. ac\<lparr>accumulated_scroll_x := sx, accumulated_scroll_y := sy\<rparr>)
        ((if d = 0 then Some else ctx_scroll 0 (Delta d)) (demo_ac\<lparr>accumulated_scroll_x := 0, accumulated_scroll_y := 75\<rparr>))"
proof -
  have h: "0 < si_cell_height demo_size_info" by code_simp
  have a: "accumulated_scroll_x demo_ac = 0" "accumulated_scroll_y demo_ac = 0" by (simp_all add: demo_ac_def)
  have b: "\<not> mouse_mode (ac_ctx demo_ac)" "\<not> mode_contains (ALT_SCREEN OR ALTERNATE_SCROLL) (ac_terminal demo_ac)"
    by (simp_all add: mouse_mode_def demo_ac_fields mode_contains_def flag_contains_def flag_intersects_def) code_simp
  have c: "mouse_actions demo_input_env ev mods ac = []" for ev mods and ac :: "(nat, unit, unit, unit) action_context"
    by (simp add: mouse_actions_def demo_input_env_def)
  show ?thesis using wheel_conserves [of demo_ac 3 demo_input_env 25 0 0, OF _ _ _ b c] h by (simp add: demo_ac_fields a)
qed

text \<open>Two fingers zoom, and are lifted one after the other.\<close>

theorem touch_released_witness:
  "\<exists>ac'. touch_trace demo_input_env demo_ac {1} (Touch_ZoomPendingSlot (finger 1 60), ac') \<and> touch_trace demo_input_env demo_ac {} (Touch_None, ac') \<and> touched Touch_None \<subseteq> {}
    \<and> (Touch_None = Touch_None \<longleftrightarrow> touched Touch_None = {}) \<and> touched (Touch_ZoomPendingSlot (finger 1 60)) \<subseteq> {1}"
proof -
  let ?E = demo_input_env
  let ?z = "zoom_new (finger 0 0) (finger 1 60)"
  obtain ac1 where 1: "touch ?E 0 Started (finger 0 0) (Touch_None, demo_ac) = Some (Touch_Tap (finger 0 0), ac1)" by (simp add: touch_def on_touch_start_def)
  obtain ac2 where 2: "touch ?E 1 Started (finger 1 60) (Touch_Tap (finger 0 0), ac1) = Some (Touch_Zoom ?z, ac2)" by (simp add: touch_def on_touch_start_def)
  obtain ac3 where 3: "touch ?E 2 Ended (finger 0 40) (Touch_Zoom ?z, ac2) = Some (Touch_ZoomPendingSlot (finger 1 60), ac3)"
    by (simp add: touch_def on_touch_end_def on_touch_motion_def touch_drag_def font_delta_def zoom_new_def finger_def Let_def)
  have 4: "touch ?E 3 Cancelled (finger 1 60) (Touch_ZoomPendingSlot (finger 1 60), ac3) = Some (Touch_None, ac3)"
    by (simp add: touch_def on_touch_end_def on_touch_motion_def touch_drag_def)
  have "touch_trace ?E demo_ac {0} (Touch_Tap (finger 0 0), ac1)" using touch_trace_start [OF touch_trace_none _ 1] by (simp add: finger_def)
  from touch_trace_start [OF this _ 2] have "touch_trace ?E demo_ac {1, 0} (Touch_Zoom ?z, ac2)" by (simp add: finger_def)
  from touch_trace_end [OF this _ _ 3] have p: "touch_trace ?E demo_ac {1} (Touch_ZoomPendingSlot (finger 1 60), ac3)" by (simp add: finger_def insert_Diff_if)
  from touch_trace_end [OF p _ _ 4] have "touch_trace ?E demo_ac {} (Touch_None, ac3)" by (simp add: finger_def)
  then show ?thesis using p touch_released [OF p] touch_released [of ?E demo_ac "{}" Touch_None ac3] by blast
qed

theorem touch_forgets_finger_witness:
  "\<exists>ac'. (touch demo_input_env 0 Started (finger 1 60) (Touch_Scroll (finger 0 0), demo_ac) \<bind> touch demo_input_env 0 Ended (finger 0 5)) = Some (Touch_None, ac')"
  using touch_forgets_finger [of "finger 0 5" "finger 0 0" "finger 1 60" "Touch_Scroll (finger 0 0)" "finger 2 70" demo_input_env 0 demo_ac]
  by (simp add: finger_def MAX_TAP_DISTANCE_def)

end
