(* ===== verification/Spec2Isabelle.thy ===== *)
theory Spec2Isabelle
  imports Screen_Properties Mode_Properties Resize_Properties Search_Properties
    Display_Damage Scheduler Message_Bar Str_Shortener Regex_Search Pty_Loop Keyboard_Input
    Render_Content Glyph_Cache Touch_Input
begin

text \<open>
  A verification of Alacritty's terminal emulation.

  \<^bold>\<open>The program.\<close> Alacritty is a terminal emulator. A thread reads the output of a shell, the parser
  of the \<^verbatim>\<open>vte\<close> crate turns it into calls of the \<^verbatim>\<open>Handler\<close> trait, and \<^verbatim>\<open>Term\<close> (\<^verbatim>\<open>alacritty_terminal\<close>)
  executes them on a grid of cells with a scrollback. The window (\<^verbatim>\<open>alacritty\<close>) calls other
  methods of \<^verbatim>\<open>Term\<close>: resizing, scrolling the display, selecting, the vi mode, and reading what is to be drawn.
  This development models the terminal library, the part that holds the program's own logic, from
  the ring buffer of rows up to the handler, and the parts of the application that are not calls of the
  window system.

  \<^bold>\<open>Conventions.\<close> An operation is a function into an \<open>option\<close>; \<open>None\<close> is a panic: an index out of bounds, an
  unsigned subtraction below zero, a failed \<^verbatim>\<open>assert!\<close> or \<^verbatim>\<open>debug_assert!\<close>, the divergence of a loop. Where the
  source itself returns an \<^verbatim>\<open>Option\<close>, the model has two. Lines are \<open>int\<close> and columns \<open>nat\<close>; sizes are bounded
  by memory, so the overflow of \<^verbatim>\<open>usize\<close> and of line numbers is not modelled, while \<open>u16\<close> pixel sizes, where it
  happens, are taken modulo \<open>2 ^ 16\<close>. Flags are words. A mutable structure is a record that
  operations return updated; a write through a reference is a function passed to the accessor.
  Events to the window are a log in the terminal's record, and closures in events are the data they
  capture. Code outside of the repository is a parameter: the record \<open>env\<close> has the character widths of
  \<^verbatim>\<open>unicode-width\<close>, the character sets of \<^verbatim>\<open>vte\<close>, \<^verbatim>\<open>base64\<close> and the layout of keyboard mode bits; no property
  assumes anything about it.

  \<^bold>\<open>Theories,\<close> in the order of the calls, with the files under \<^verbatim>\<open>src/alacritty_terminal/src\<close>:
  \<^item> \<open>Prelude\<close>: panics, loops (\<open>for_each\<close>) with their invariant rule, vectors, \<open>ok\<close>, the total correctness
    predicate on which every proof about an operation rests.
  \<^item> \<open>Index\<close> (\<^verbatim>\<open>index.rs\<close>): points, clamping, reading-order arithmetic. \<open>Cell\<close> (\<^verbatim>\<open>term/cell.rs\<close>), \<open>Row\<close>
    (\<^verbatim>\<open>grid/row.rs\<close>), \<open>Storage\<close> (\<^verbatim>\<open>grid/storage.rs\<close>): the data of the grid. \<open>Line_Buffer\<close> is the locale between
    storage and grid: lines are a map, rotating, swapping and updating them has laws, and the loops of the
    grid are proved over these laws; \<open>Storage\<close> interprets it with the ring buffer.
  \<^item> \<open>Grid\<close> (\<^verbatim>\<open>grid/mod.rs\<close>): scrolling with regions and scrollback, clearing; \<open>Grid_View\<close>: access to cells, iterators,
    clearing the viewport. \<open>Resize\<close>, \<open>Reflow\<close>, \<open>Reflow_Text\<close> (\<^verbatim>\<open>grid/resize.rs\<close>): definitions; absence of panics and
    termination; what happens to the text.
  \<^item> \<open>Selection\<close> (\<^verbatim>\<open>selection.rs\<close>): anchors, ranges, rotation.
  \<^item> \<open>Term_State\<close>, \<open>Term_Ops\<close>, \<open>Term_Modes\<close> (\<^verbatim>\<open>term/mod.rs\<close>, \<^verbatim>\<open>term/color.rs\<close>, \<^verbatim>\<open>event.rs\<close>): the record \<open>terminal\<close>
    and one definition per method. \<open>Term_Inv\<close>, \<open>Term_Print\<close>, \<open>Term_Edit\<close>, \<open>Term_Handler\<close>: the invariant
    \<open>term_inv\<close> and its preservation by every operation, the dispatcher \<open>exec\<close> and reachable states
    (\<open>reach\<close>). \<open>Term_Frame\<close>: a locale of observers, parts of the terminal that groups of operations leave alone.
    \<open>Term_Resize\<close>: \<^verbatim>\<open>Term::resize\<close> and \<open>session\<close>, the states reached by calls and resizes in any order.
  \<^item> \<open>Search\<close> (\<^verbatim>\<open>term/search.rs\<close>): loops over grid iterators, refined to lists of cells; brackets, words, wrapped
    lines. \<open>Regex_Search\<close>: the regex search that feeds the cells to automata, with its iterators.
    \<open>Selection_Text\<close>: from selections to ranges and text. \<open>Vi_Mode\<close> (\<^verbatim>\<open>vi_mode.rs\<close>): motions.
  \<^item> \<open>Pty_Loop\<close> (\<^verbatim>\<open>event_loop.rs\<close>): the thread between window and shell: its queue, reading and writing.
  \<^item> The application, \<^verbatim>\<open>src/alacritty/src\<close>: \<open>Display_Damage\<close> (\<^verbatim>\<open>display/damage.rs\<close>): damaged lines and the rectangles given to
    the compositor. \<open>Scheduler\<close> (\<^verbatim>\<open>scheduler.rs\<close>): timers. \<open>Message_Bar\<close> (\<^verbatim>\<open>message_bar.rs\<close>): message queue and layout.
    \<open>Str_Shortener\<close> (\<^verbatim>\<open>string.rs\<close>): shortening text to a width. \<open>Mouse_Input\<close> (\<^verbatim>\<open>input/mod.rs\<close>, \<^verbatim>\<open>event.rs\<close>): pointer, clicks,
    selection and mouse reports. \<open>Keyboard_Input\<close> (\<^verbatim>\<open>input/keyboard.rs\<close>, \<^verbatim>\<open>config/bindings.rs\<close>): the sequences
    sent for keys, and key bindings. \<open>Decimal_Text\<close>: printing and reading numbers, for reports.
  \<^item> \<open>Search_Bar\<close> (\<^verbatim>\<open>event.rs\<close>, \<^verbatim>\<open>config/cursor.rs\<close>): the record \<open>action_context\<close>, what the window keeps beside the terminal, with the search bar, its
    history, inline search, scrolling, pasting, hints and blinking. \<open>Actions\<close> (\<^verbatim>\<open>input/mod.rs\<close>, \<^verbatim>\<open>input/keyboard.rs\<close>): the execution of actions, and what a key does. \<open>Touch_Input\<close>
    (\<^verbatim>\<open>input/mod.rs\<close>): buttons, the wheel and the touch screen.
  \<^item> Drawing: \<open>Hint_Labels\<close>, \<open>Hints\<close> (\<^verbatim>\<open>display/hint.rs\<close>): matches and links in the viewport, their labels and the choice of one by
    the keyboard or the mouse. \<open>Display_Color\<close> (\<^verbatim>\<open>display/color.rs\<close>, \<^verbatim>\<open>config/color.rs\<close>): the palette and the notation of colours.
    \<open>Render_Content\<close> (\<^verbatim>\<open>display/content.rs\<close>): from the cells of the viewport to cells with final colours, and the cursor.
    \<open>Glyph_Atlas\<close>, \<open>Glyph_Cache\<close> (\<^verbatim>\<open>renderer/text/atlas.rs\<close>, \<^verbatim>\<open>glyph_cache.rs\<close>, \<^verbatim>\<open>config/font.rs\<close>): the placement of glyphs in textures.
  \<^item> \<open>Examples\<close>: a concrete \<open>env\<close> and terminals for the witnesses. \<open>Screen_Properties\<close>, \<open>Mode_Properties\<close>,
    \<open>Resize_Properties\<close>, \<open>Search_Properties\<close> and this theory hold the properties that span components.

  \<^bold>\<open>What is shown.\<close> No operation panics in any reachable state, and the invariant (sizes of all rows, cursors on
  the screen, a valid scroll region, tab stops and damage of the right size) always holds. Scrolling,
  printing, editing, clearing, resizing and reflowing do to the lines and the text what they
  should; the ring buffer refines a map of lines; optimisations (\<^verbatim>\<open>Row::reset\<close>, the two strategies of
  \<^verbatim>\<open>scroll_down\<close>) agree with their plain versions; iterators enumerate the viewport; the alternate screen, modes and
  brackets have round trips; searches find words, brackets and logical lines; copying a selection gives its text.
  In the application, damage rectangles cover what was damaged, timers run in order when due, and messages and
  shortened text fit their place. What is typed, clicked or pressed is sent so that it can be decoded. Cancelling a search restores what was
  seen, and a pasted text cannot pretend to be typed. Keys of the vi mode stay in the window, the wheel loses no distance and gestures end with the touches. The label of a hint selects this hint, everything visible is drawn, and glyphs in a texture never overlap.
  Error properties state where the code does not do this: each describes a concrete defect.

  \<^bold>\<open>Loops and bounds.\<close> There is no fuel. Loops over ranges are \<open>for_each\<close>; the others are functions with a termination
  proof or \<open>partial_function (option)\<close>, for which the lemmas show that they return. Three
  requirements on the caller are explicit in \<open>op_ok\<close>: scroll regions are numbered from 1,
  colour indices are below the number of colours, and the stack of keyboard modes is not full when it is pushed on
  without a title (a defect of the source). \<open>vi_safe\<close> excludes the cells that vi motions do not expect.

  \<^bold>\<open>Not modelled.\<close> The regular expression engine (the crate \<^verbatim>\<open>regex-automata\<close>) and the parser (\<^verbatim>\<open>vte\<close>) are parameters; the PTY, IPC, logging and
  the daemon (system calls and threads); the calls of OpenGL, the rasterizer of fonts and windows; configuration
  files and command line (deserialization by \<^verbatim>\<open>serde\<close> and \<^verbatim>\<open>clap\<close>); procedural macros; the session manager.
\<close>

section \<open>The running terminal\<close>



text \<open>
  C2 (termination): in every such state a resize to any admissible size returns: the reflow loops
  end, and nothing panics. The terminal then has the new size, the cursor is on the screen, and the vi mode
  cursor is in the viewport.
\<close>

theorem resize_total:
  assumes "session E cfg t" "MIN_COLUMNS \<le> cols" "MIN_SCREEN_LINES \<le> lines"
  shows "\<exists>u. term_resize cols lines t = Some u \<and> session E cfg u \<and> t_columns u = cols \<and> t_lines u = lines
    \<and> in_screen (t_dims u) (t_point u) \<and> (t_columns t \<noteq> cols \<or> t_lines t \<noteq> lines \<longrightarrow> vi_in_view u)"
proof -
  obtain u where u: "term_resize cols lines t = Some u" "resized cols lines u"
      "t_columns t \<noteq> cols \<or> t_lines t \<noteq> lines \<longrightarrow> vi_in_view u"
    using term_resize_ok [OF session_inv [OF assms(1)] assms(2,3)] by (auto elim: okE)
  then show ?thesis
    using session.resize [OF assms u(1)] cursor_bounds(5) [of False u] by (auto simp: resized_def)
qed

theorem resize_total_witness:
  "\<exists>u. term_resize 2 5 demo_term = Some u \<and> session demo_env demo_config u \<and> t_columns u = 2 \<and> t_lines u = 5
    \<and> in_screen (t_dims u) (t_point u) \<and> (t_columns demo_term \<noteq> 2 \<or> t_lines demo_term \<noteq> 5 \<longrightarrow> vi_in_view u)"
  by (rule resize_total [OF reach_session [OF demo_size demo_reach]]) (simp_all add: MIN_COLUMNS_def MIN_SCREEN_LINES_def)

end
